(* ===== verification/Nats_Prelude.thy ===== *)
theory Nats_Prelude
  imports Main "HOL-Library.Word" "HOL-Library.AList"
begin

text \<open>
  What every component of the client shares: bytes and strings, the result type of code
  that may throw, the integer arithmetic of JavaScript numbers, and decimal printing.

  A \<open>Uint8Array\<close> is a list of 8-bit words. A JavaScript string is represented by its
  UTF-8 bytes, one \<open>char\<close> per byte, so that \<open>TextEncoder\<close> and \<open>TextDecoder\<close> are the
  bijection between \<open>char\<close> and 8-bit words; the source only searches, splits and compares
  strings at ASCII characters, which UTF-8 never uses inside a longer sequence. A JavaScript
  \<open>Map\<close> keeps its keys in insertion order and overwrites in place: it is an association
  list with \<open>map_of\<close>, \<open>AList.update\<close> and \<open>AList.delete\<close>.
\<close>

section \<open>Bytes and strings\<close>

type_synonym byte = "8 word"
type_synonym bytes = "byte list"

definition te_encode :: "string \<Rightarrow> bytes" where
  "te_encode s = map of_char s"

definition td_decode :: "bytes \<Rightarrow> string" where
  "td_decode bs = map (\<lambda>b. char_of (unat b)) bs"

named_theorems codec_simps \<open>encoding and decoding of strings and bytes\<close>
named_theorems result_simps \<open>computations that may throw\<close>

lemma unat_of_char_byte [simp]: "unat (of_char c :: byte) = of_char c"
proof -
  have lt: "(of_char c :: nat) < 2 ^ 8"
    using nat_of_char_less_256 [of c] by simp
  have "(of_char c :: byte) = of_nat (of_char c)"
    by (simp add: of_nat_of_char)
  then show ?thesis
    using lt by (simp add: unat_of_nat take_bit_nat_eq_self)
qed

lemma char_of_unat_of_char [codec_simps]: "char_of (unat (of_char c :: byte)) = c"
  by simp

lemma of_char_char_of_unat [codec_simps]: "(of_char (char_of (unat b)) :: byte) = b"
proof -
  have "unat b < 256"
    using unsigned_less [of b] by simp
  then have "(of_char (char_of (unat b)) :: nat) = unat b"
    by simp
  then have "(of_nat (of_char (char_of (unat b))) :: byte) = b"
    by simp
  then show ?thesis
    by (simp only: of_nat_of_char)
qed

lemma td_te [simp, codec_simps]: "td_decode (te_encode s) = s"
  by (simp add: td_decode_def te_encode_def o_def)

lemma te_td [simp, codec_simps]: "te_encode (td_decode bs) = bs"
  by (simp add: td_decode_def te_encode_def o_def of_char_char_of_unat)

lemma length_te_encode [simp]: "length (te_encode s) = length s"
  by (simp add: te_encode_def)

lemma length_td_decode [simp]: "length (td_decode bs) = length bs"
  by (simp add: td_decode_def)

lemma te_encode_append [simp]: "te_encode (s @ t) = te_encode s @ te_encode t"
  by (simp add: te_encode_def)

lemma te_encode_Nil [simp]: "te_encode [] = []"
  by (simp add: te_encode_def)

lemma te_encode_Cons [simp]: "te_encode (c # s) = of_char c # te_encode s"
  by (simp add: te_encode_def)

lemma te_encode_eq_Nil [simp]: "(te_encode s = []) = (s = [])"
  by (simp add: te_encode_def)

lemma of_char_byte_inj [simp]: "((of_char c :: byte) = of_char d) = (c = d)"
  by (metis char_of_unat_of_char)

lemma te_encode_inj [simp]: "(te_encode s = te_encode t) = (s = t)"
  by (metis td_te)

section \<open>Results of code that may throw\<close>

text \<open>\<open>Inl e\<close> is the thrown error, \<open>Inr x\<close> a normal return.\<close>

definition rbind :: "'e + 'a \<Rightarrow> ('a \<Rightarrow> 'e + 'b) \<Rightarrow> 'e + 'b" where
  "rbind r f = (case r of Inl e \<Rightarrow> Inl e | Inr x \<Rightarrow> f x)"

lemma rbind_simps [simp, result_simps]:
  "rbind (Inl e) f = Inl e"
  "rbind (Inr x) f = f x"
  by (simp_all add: rbind_def)

lemma rbind_Inr_iff [result_simps]:
  "rbind r f = Inr y \<longleftrightarrow> (\<exists>x. r = Inr x \<and> f x = Inr y)"
  by (cases r) simp_all

lemma rbind_Inl_iff [result_simps]:
  "rbind r f = Inl e \<longleftrightarrow> r = Inl e \<or> (\<exists>x. r = Inr x \<and> f x = Inl e)"
  by (cases r) simp_all

section \<open>JavaScript numbers that hold non-negative integers\<close>

text \<open>
  A JavaScript number is an IEEE double. A non-negative integer below \<open>2 ^ 53\<close> is exact;
  above, a product or a sum is rounded to 53 significant bits, ties to even, and a result
  that does not fit is Infinity, which is represented by \<open>2 ^ 1024\<close>.
\<close>

fun bit_length :: "nat \<Rightarrow> nat" where
  "bit_length n = (if n = 0 then 0 else Suc (bit_length (n div 2)))"

declare bit_length.simps [simp del]

definition js_round :: "nat \<Rightarrow> nat" where
  "js_round n =
     (if n < 2 ^ 53 then n
      else let e = bit_length n - 53; q = n div 2 ^ e; r = n mod 2 ^ e;
               q' = (if 2 * r > 2 ^ e \<or> (2 * r = 2 ^ e \<and> odd q) then q + 1 else q)
           in min (q' * 2 ^ e) (2 ^ 1024))"

lemma js_round_exact [simp]: "n < 2 ^ 53 \<Longrightarrow> js_round n = n"
  by (simp add: js_round_def)

section \<open>Decimal printing and parsing\<close>

definition digit_char :: "nat \<Rightarrow> char" where
  "digit_char d = char_of (48 + d)"

fun show_nat :: "nat \<Rightarrow> string" where
  "show_nat n = (if n < 10 then [digit_char n] else show_nat (n div 10) @ [digit_char (n mod 10)])"

declare show_nat.simps [simp del]

definition show_int :: "int \<Rightarrow> string" where
  "show_int i = (if i < 0 then CHR ''-'' # show_nat (nat (- i)) else show_nat (nat i))"

lemma of_char_digit_char: "d < 10 \<Longrightarrow> (of_char (digit_char d) :: nat) = 48 + d"
  by (simp add: digit_char_def)

lemma of_char_digit_byte: "d < 10 \<Longrightarrow> (of_char (digit_char d) :: byte) = of_nat (48 + d)"
  by (metis of_char_digit_char of_nat_of_char)

lemma show_nat_nonempty [simp]: "show_nat n \<noteq> []"
  by (subst show_nat.simps) simp

lemma show_nat_digits:
  "c \<in> set (show_nat n) \<Longrightarrow> \<exists>d < 10. c = digit_char d"
proof (induction n rule: show_nat.induct)
  case (1 n)
  show ?case
  proof (cases "n < 10")
    case True
    with 1 show ?thesis by (subst (asm) show_nat.simps) auto
  next
    case False
    then have lt: "n mod 10 < 10" and eq: "show_nat n = show_nat (n div 10) @ [digit_char (n mod 10)]"
      by (simp_all add: show_nat.simps [of n])
    with 1 False have "c = digit_char (n mod 10) \<or> (\<exists>d < 10. c = digit_char d)" by auto
    with lt show ?thesis by blast
  qed
qed

section \<open>Lists\<close>

text \<open>\<open>subarray i j\<close> is the window of a typed array from index \<open>i\<close> up to \<open>j\<close>, clamped to
  the array as JavaScript does (an end before the start gives an empty window).\<close>

definition subarray :: "nat \<Rightarrow> nat \<Rightarrow> 'a list \<Rightarrow> 'a list" where
  "subarray i j xs = drop i (take j xs)"

lemma length_subarray [simp]: "length (subarray i j xs) = min (length xs) j - i"
  by (simp add: subarray_def min.commute)

lemma subarray_Suc:
  "i \<le> j \<Longrightarrow> j < length xs \<Longrightarrow> subarray i (Suc j) xs = subarray i j xs @ [xs ! j]"
  by (simp add: subarray_def take_Suc_conv_app_nth)

lemma subarray_empty [simp]: "j \<le> i \<Longrightarrow> subarray i j xs = []"
  by (simp add: subarray_def)

lemma subarray_all: "length xs \<le> j \<Longrightarrow> subarray i j xs = drop i xs"
  by (simp add: subarray_def)

lemma subarray_append_step:
  assumes "i \<le> j" "j \<le> k" "k \<le> length xs"
  shows "subarray i k xs = subarray i j xs @ subarray j k xs"
proof -
  have "take k xs = take j xs @ drop j (take k xs)"
    using assms append_take_drop_id [of j "take k xs"] by (simp add: min_absorb1)
  then have "drop i (take k xs) = drop i (take j xs @ drop j (take k xs))"
    by (rule arg_cong)
  also have "\<dots> = drop i (take j xs) @ drop j (take k xs)"
    using assms by simp
  finally show ?thesis by (simp add: subarray_def)
qed

section \<open>Association lists\<close>

lemma set_update_subset: "set (AList.update k v al) \<subseteq> insert (k, v) (set al)"
  by (induction al) auto

lemma update_absent: "k \<notin> fst ` set al \<Longrightarrow> AList.update k v al = al @ [(k, v)]"
  by (induction al) auto

lemma update_last: "k \<notin> fst ` set al \<Longrightarrow> AList.update k v (al @ [(k, w)]) = al @ [(k, v)]"
  by (induction al) auto

lemma fold_delete: "fold AList.delete ks al = filter (\<lambda>(k, v). k \<notin> set ks) al"
proof (induction ks arbitrary: al)
  case (Cons k ks)
  then show ?case
    by (simp add: AList.delete_eq case_prod_beta) (rule filter_cong [OF refl], auto)
qed simp

lemma map_of_filter_keys:
  "map_of (filter (\<lambda>(k, v). P k) al) j = (if P j then map_of al j else None)"
  by (induction al) auto

end
