(* ===== verification/Deno_Buffer.thy ===== *)
theory Deno_Buffer
  imports Nats_Prelude
begin

text \<open>
  The growable byte buffer of \<open>nats-base-client/denobuffer.ts\<close>, which the parser uses to
  keep what a chunk of the connection left unfinished. The state is the source's: an
  \<open>ArrayBuffer\<close> (\<open>backing\<close>), the length of the view on it (\<open>blen\<close>, the source's
  \<open>_buf.byteLength\<close>; every view starts at 0) and the read offset (\<open>boff\<close>, \<open>_off\<close>).
  Bytes of the backing array beyond \<open>blen\<close> are stale and stay in the model.

  The theory ends with two interfaces, a sink that bytes are written to and a source that
  bytes are read from, both provided by the buffer.
\<close>

section \<open>State and errors\<close>

record deno_buffer =
  backing :: bytes
  blen :: nat
  boff :: nat

datatype buffer_error = AssertionError | TruncationOutOfRange | TooLarge | NegativeCount

definition MIN_READ :: nat where
  "MIN_READ = 32 * 1024"

definition MAX_SIZE :: nat where
  "MAX_SIZE = 2 ^ 32 - 2"

definition db_assert :: "bool \<Rightarrow> buffer_error + unit" where
  "db_assert cond = (if \<not> cond then Inl AssertionError else Inr ())"

section \<open>Helpers on byte arrays\<close>

text \<open>\<open>copy_into src dst off\<close> returns the destination after the copy and the number of
  bytes copied; a source that does not fit is cut.\<close>

definition copy_into :: "bytes \<Rightarrow> bytes \<Rightarrow> nat \<Rightarrow> bytes \<times> nat" where
  "copy_into src dst off =
     (let r = length dst - off;
          src' = (if length src > r then take r src else src)
      in (take off dst @ src' @ drop (off + length src') dst, length src'))"

fun concat_opt :: "bytes option \<Rightarrow> bytes option \<Rightarrow> bytes" where
  "concat_opt None None = []"
| "concat_opt None (Some b) = b"
| "concat_opt (Some origin) None = origin"
| "concat_opt (Some origin) (Some b) = origin @ b"

definition append_byte :: "bytes \<Rightarrow> byte \<Rightarrow> bytes" where
  "append_byte origin b = concat_opt (Some origin) (Some [b])"

section \<open>The class\<close>

definition new_deno_buffer :: "bytes option \<Rightarrow> deno_buffer" where
  "new_deno_buffer ab =
     (case ab of
        None \<Rightarrow> \<lparr>backing = [], blen = 0, boff = 0\<rparr>
      | Some a \<Rightarrow> \<lparr>backing = a, blen = length a, boff = 0\<rparr>)"

definition db_view :: "deno_buffer \<Rightarrow> bytes" where
  "db_view b = take (blen b) (backing b)"

definition db_bytes :: "deno_buffer \<Rightarrow> bytes" where
  "db_bytes b = drop (boff b) (db_view b)"

definition db_empty :: "deno_buffer \<Rightarrow> bool" where
  "db_empty b = (blen b \<le> boff b)"

definition db_length :: "deno_buffer \<Rightarrow> nat" where
  "db_length b = blen b - boff b"

definition db_capacity :: "deno_buffer \<Rightarrow> nat" where
  "db_capacity b = length (backing b)"

definition db_reslice :: "nat \<Rightarrow> deno_buffer \<Rightarrow> buffer_error + deno_buffer" where
  "db_reslice len b = rbind (db_assert (len \<le> length (backing b))) (\<lambda>_. Inr (b\<lparr>blen := len\<rparr>))"

definition db_reset :: "deno_buffer \<Rightarrow> buffer_error + deno_buffer" where
  "db_reset b = rbind (db_reslice 0 b) (\<lambda>b'. Inr (b'\<lparr>boff := 0\<rparr>))"

definition db_truncate :: "int \<Rightarrow> deno_buffer \<Rightarrow> buffer_error + deno_buffer" where
  "db_truncate n b =
     (if n = 0 then db_reset b
      else if n < 0 \<or> n > int (db_length b) then Inl TruncationOutOfRange
      else db_reslice (boff b + nat n) b)"

text \<open>The source returns -1 when the array has no room; here \<open>None\<close>.\<close>

definition db_try_grow_by_reslice :: "nat \<Rightarrow> deno_buffer \<Rightarrow> buffer_error + (nat option \<times> deno_buffer)" where
  "db_try_grow_by_reslice n b =
     (let l = blen b
      in if int n \<le> int (db_capacity b) - int l
         then rbind (db_reslice (l + n) b) (\<lambda>b'. Inr (Some l, b'))
         else Inr (None, b))"

text \<open>\<open>_grow\<close>: makes room for \<open>n\<close> bytes and returns the index at which to write them.\<close>

definition db_grow_room :: "nat \<Rightarrow> deno_buffer \<Rightarrow> buffer_error + (nat \<times> deno_buffer)" where
  "db_grow_room n b0 =
     (let m = db_length b0 in
      rbind (if m = 0 \<and> boff b0 \<noteq> 0 then db_reset b0 else Inr b0) (\<lambda>b.
      rbind (db_try_grow_by_reslice n b) (\<lambda>(i, b1).
      (case i of
         Some l \<Rightarrow> Inr (l, b1)
       | None \<Rightarrow>
           let c = db_capacity b in
           rbind
             (if int n \<le> int (c div 2) - int m
              then Inr (b\<lparr>backing := fst (copy_into (db_bytes b) (db_view b) 0) @ drop (blen b) (backing b)\<rparr>)
              else if c + n > MAX_SIZE then Inl TooLarge
              else let sz = min (2 * c + n) MAX_SIZE
                   in Inr (b\<lparr>backing := fst (copy_into (db_bytes b) (replicate sz 0) 0), blen := sz\<rparr>))
             (\<lambda>b2. rbind (db_reslice (min (m + n) MAX_SIZE) (b2\<lparr>boff := 0\<rparr>))
             (\<lambda>b3. Inr (m, b3)))))))"

definition db_write :: "bytes \<Rightarrow> deno_buffer \<Rightarrow> buffer_error + (nat \<times> deno_buffer)" where
  "db_write p b =
     rbind (db_grow_room (length p) b) (\<lambda>(m, b').
       (let (v, k) = copy_into p (db_view b') m
        in Inr (k, b'\<lparr>backing := v @ drop (blen b') (backing b')\<rparr>)))"

definition db_write_byte :: "byte \<Rightarrow> deno_buffer \<Rightarrow> buffer_error + (nat \<times> deno_buffer)" where
  "db_write_byte n b = db_write [n] b"

definition db_write_string :: "string \<Rightarrow> deno_buffer \<Rightarrow> buffer_error + (nat \<times> deno_buffer)" where
  "db_write_string s b = db_write (te_encode s) b"

text \<open>\<open>read(p)\<close>: \<open>plen\<close> is the size of the destination; the result is \<open>None\<close> for null,
  otherwise the bytes put at the start of the destination.\<close>

definition db_read :: "nat \<Rightarrow> deno_buffer \<Rightarrow> buffer_error + (bytes option \<times> deno_buffer)" where
  "db_read plen b =
     (if db_empty b
      then rbind (db_reset b) (\<lambda>b'. if plen = 0 then Inr (Some [], b') else Inr (None, b'))
      else let (p, nread) = copy_into (db_bytes b) (replicate plen 0) 0
           in Inr (Some (take nread p), b\<lparr>boff := boff b + nread\<rparr>))"

definition db_read_byte :: "deno_buffer \<Rightarrow> buffer_error + (byte option \<times> deno_buffer)" where
  "db_read_byte b =
     rbind (db_read 1 b) (\<lambda>(r, b').
       Inr (case r of Some (x # _) \<Rightarrow> Some x | _ \<Rightarrow> None, b'))"

definition db_grow :: "int \<Rightarrow> deno_buffer \<Rightarrow> buffer_error + deno_buffer" where
  "db_grow n b =
     (if n < 0 then Inl NegativeCount
      else rbind (db_grow_room (nat n) b) (\<lambda>(m, b'). db_reslice m b'))"

text \<open>
  \<open>readFrom(r)\<close> for any reader: \<open>rd n r\<close> reads at most \<open>n\<close> bytes from the reader state
  \<open>r\<close>. A reader that never answers null makes the loop run for ever, hence the option.
\<close>

partial_function (option) db_read_from ::
  "(nat \<Rightarrow> 'r \<Rightarrow> buffer_error + (bytes option \<times> 'r)) \<Rightarrow> 'r \<Rightarrow> deno_buffer \<Rightarrow> nat
    \<Rightarrow> (buffer_error + (nat \<times> deno_buffer \<times> 'r)) option" where
  "db_read_from rd r b n =
     (let shouldGrow = int (db_capacity b) - int (db_length b) < int MIN_READ;
          room = (if shouldGrow then MIN_READ else db_capacity b - db_length b)
      in case rd room r of
           Inl e \<Rightarrow> Some (Inl e)
         | Inr (None, r') \<Rightarrow> Some (Inr (n, b, r'))
         | Inr (Some p, r') \<Rightarrow>
             (case (if shouldGrow then map_sum id snd (db_write p b)
                    else db_reslice (db_length b + length p)
                      (b\<lparr>backing := take (db_length b) (backing b) @ p
                          @ drop (db_length b + length p) (backing b)\<rparr>)) of
                Inl e \<Rightarrow> Some (Inl e)
              | Inr b' \<Rightarrow> db_read_from rd r' b' (n + length p)))"

definition read_all ::
  "(nat \<Rightarrow> 'r \<Rightarrow> buffer_error + (bytes option \<times> 'r)) \<Rightarrow> 'r \<Rightarrow> (buffer_error + bytes) option" where
  "read_all rd r =
     map_option (map_sum id (\<lambda>(n, b, r'). db_bytes b)) (db_read_from rd r (new_deno_buffer None) 0)"

text \<open>\<open>writeAll(w, arr)\<close> for any writer: \<open>wr p w\<close> returns how many bytes of \<open>p\<close> it took.\<close>

partial_function (option) write_all_from ::
  "(bytes \<Rightarrow> 'w \<Rightarrow> 'e + (nat \<times> 'w)) \<Rightarrow> bytes \<Rightarrow> nat \<Rightarrow> 'w \<Rightarrow> ('e + 'w) option" where
  "write_all_from wr arr nwritten w =
     (if nwritten < length arr
      then case wr (drop nwritten arr) w of
             Inl e \<Rightarrow> Some (Inl e)
           | Inr (k, w') \<Rightarrow> write_all_from wr arr (nwritten + k) w'
      else Some (Inr w))"

definition write_all ::
  "(bytes \<Rightarrow> 'w \<Rightarrow> 'e + (nat \<times> 'w)) \<Rightarrow> 'w \<Rightarrow> bytes \<Rightarrow> ('e + 'w) option" where
  "write_all wr w arr = write_all_from wr arr 0 w"

section \<open>The invariant and the content\<close>

text \<open>
  The read offset lies within the view, the view within the backing array, and the array
  within the maximum size. The content
  of a buffer is \<open>db_bytes\<close>; every operation is described by what it does to it.
\<close>

definition db_inv :: "deno_buffer \<Rightarrow> bool" where
  "db_inv b \<longleftrightarrow> boff b \<le> blen b \<and> blen b \<le> length (backing b) \<and> length (backing b) \<le> MAX_SIZE"

named_theorems db_defs \<open>definitions of the buffer's operations\<close>

declare db_view_def [db_defs] db_bytes_def [db_defs] db_empty_def [db_defs] db_length_def [db_defs]
  db_capacity_def [db_defs] db_reslice_def [db_defs] db_reset_def [db_defs] db_assert_def [db_defs]
  db_inv_def [db_defs]

lemma db_inv_new [simp]:
  "db_inv (new_deno_buffer None)"
  "length a \<le> MAX_SIZE \<Longrightarrow> db_inv (new_deno_buffer (Some a))"
  by (simp_all add: new_deno_buffer_def db_defs)

lemma db_bytes_new [simp]:
  "db_bytes (new_deno_buffer None) = []"
  "db_bytes (new_deno_buffer (Some a)) = a"
  by (simp_all add: new_deno_buffer_def db_defs)

lemma db_length_eq: "db_inv b \<Longrightarrow> db_length b = length (db_bytes b)"
  by (simp add: db_defs)

lemma db_empty_iff: "db_inv b \<Longrightarrow> db_empty b = (db_bytes b = [])"
  by (auto simp: db_defs)

lemma db_reset_ok: "db_reset b = Inr (b\<lparr>blen := 0, boff := 0\<rparr>)"
  by (simp add: db_defs)

lemma copy_into_fits:
  "off + length src \<le> length dst \<Longrightarrow>
   copy_into src dst off = (take off dst @ src @ drop (off + length src) dst, length src)"
  by (auto simp: copy_into_def Let_def)

lemma copy_into_cut:
  "length dst \<le> length src \<Longrightarrow> copy_into src dst 0 = (take (length dst) src, length dst)"
  by (simp add: copy_into_def Let_def)

text \<open>
  What \<open>_grow\<close> promises: it fails only beyond the maximum size; otherwise the content is
  kept in front of the returned index and \<open>n\<close> bytes of room follow it. The three lemmas
  follow the three ways of the code: room in the array, sliding down, a new array.
\<close>

definition recovered :: "deno_buffer \<Rightarrow> deno_buffer" where
  "recovered b = (if db_length b = 0 \<and> boff b \<noteq> 0 then b\<lparr>blen := 0, boff := 0\<rparr> else b)"

lemma recovered_keeps:
  assumes "db_inv b"
  shows "db_inv (recovered b)" and "db_bytes (recovered b) = db_bytes b"
    and "blen (recovered b) - boff (recovered b) = db_length b"
    and "backing (recovered b) = backing b"
  using assms by (auto simp: recovered_def db_defs)

lemma db_length_recovered [simp]: "db_length (recovered b) = db_length b"
  by (simp add: recovered_def db_length_def)

lemma backing_recovered [simp]: "backing (recovered b) = backing b"
  by (simp add: recovered_def)

lemma recovered_code:
  "(if db_length b = 0 \<and> boff b \<noteq> 0 then db_reset b else Inr b) = Inr (recovered b)"
  by (simp add: recovered_def db_reset_ok)

lemma db_grow_room_code:
  "db_grow_room n b =
     rbind (db_try_grow_by_reslice n (recovered b)) (\<lambda>(i, b1).
      (case i of
         Some l \<Rightarrow> Inr (l, b1)
       | None \<Rightarrow>
           let b = recovered b; m = db_length b; c = db_capacity b in
           rbind
             (if int n \<le> int (c div 2) - int m
              then Inr (b\<lparr>backing := fst (copy_into (db_bytes b) (db_view b) 0) @ drop (blen b) (backing b)\<rparr>)
              else if c + n > MAX_SIZE then Inl TooLarge
              else let sz = min (2 * c + n) MAX_SIZE
                   in Inr (b\<lparr>backing := fst (copy_into (db_bytes b) (replicate sz 0) 0), blen := sz\<rparr>))
             (\<lambda>b2. rbind (db_reslice (min (m + n) MAX_SIZE) (b2\<lparr>boff := 0\<rparr>))
             (\<lambda>b3. Inr (m, b3)))))"
  unfolding db_grow_room_def recovered_code rbind_simps Let_def db_length_recovered by (rule refl)

lemma try_grow_room:
  "blen b + n \<le> length (backing b) \<Longrightarrow> db_try_grow_by_reslice n b = Inr (Some (blen b), b\<lparr>blen := blen b + n\<rparr>)"
  "\<not> blen b + n \<le> length (backing b) \<Longrightarrow> db_try_grow_by_reslice n b = Inr (None, b)"
  by (auto simp: db_try_grow_by_reslice_def Let_def db_assert_def db_reslice_def db_capacity_def)

lemma grow_room_fast:
  "blen (recovered b) + n \<le> length (backing b) \<Longrightarrow>
   db_grow_room n b = Inr (blen (recovered b), (recovered b)\<lparr>blen := blen (recovered b) + n\<rparr>)"
  by (simp add: db_grow_room_code try_grow_room)

lemma grow_room_slide:
  assumes inv: "db_inv b" and noroom: "\<not> blen (recovered b) + n \<le> length (backing b)"
    and slide: "int n \<le> int (length (backing b) div 2) - int (db_length b)"
  shows "db_grow_room n b =
    Inr (db_length b, (recovered b)\<lparr>backing := db_bytes b @ drop (db_length b) (backing b),
                        blen := db_length b + n, boff := 0\<rparr>)"
proof -
  let ?b = "recovered b" and ?m = "db_length b"
  note k = recovered_keeps [OF inv]
  have m: "?m = length (db_bytes b)" using inv by (simp add: db_length_eq)
  have small: "?m \<le> blen ?b" "blen ?b \<le> length (backing b)"
    using k by (auto simp: db_inv_def)
  have cp: "fst (copy_into (db_bytes ?b) (db_view ?b) 0) @ drop (blen ?b) (backing ?b)
      = db_bytes b @ drop ?m (backing b)"
  proof -
    have "fst (copy_into (db_bytes ?b) (db_view ?b) 0) = db_bytes b @ drop ?m (db_view ?b)"
      using small k m by (simp add: copy_into_fits db_view_def)
    moreover have "drop ?m (db_view ?b) @ drop (blen ?b) (backing ?b) = drop ?m (backing b)"
      using small k by (metis append_take_drop_id db_view_def drop_append diff_is_0_eq' drop0
          length_take min.absorb2)
    ultimately show ?thesis by simp
  qed
  have "?m + n \<le> length (backing b)" using slide by linarith
  then have fits: "?m + n \<le> MAX_SIZE" using inv by (simp add: db_inv_def)
  have "?m + n \<le> length (db_bytes b @ drop ?m (backing b))"
    using \<open>?m + n \<le> length (backing b)\<close> m by simp
  with fits show ?thesis
    using noroom slide cp k
    by (simp add: db_grow_room_code try_grow_room Let_def db_capacity_def
        db_reslice_def db_assert_def min_absorb1)
qed

lemma grow_room_alloc:
  assumes inv: "db_inv b" and noroom: "\<not> blen (recovered b) + n \<le> length (backing b)"
    and noslide: "\<not> int n \<le> int (length (backing b) div 2) - int (db_length b)"
  shows "db_grow_room n b =
    (if length (backing b) + n > MAX_SIZE then Inl TooLarge
     else let sz = min (2 * length (backing b) + n) MAX_SIZE
          in Inr (db_length b, \<lparr>backing = db_bytes b @ replicate (sz - db_length b) 0,
                    blen = db_length b + n, boff = 0\<rparr>))"
proof (cases "length (backing b) + n > MAX_SIZE")
  case True
  then show ?thesis
    using noroom noslide recovered_keeps [OF inv]
    by (simp add: db_grow_room_code try_grow_room Let_def db_capacity_def)
next
  case False
  let ?b = "recovered b" and ?m = "db_length b" and ?c = "length (backing b)"
  define sz where "sz = min (2 * ?c + n) MAX_SIZE"
  note k = recovered_keeps [OF inv]
  have m: "?m = length (db_bytes b)" using inv by (simp add: db_length_eq)
  have "?m \<le> ?c" using inv by (auto simp: db_defs)
  then have fits: "?m + n \<le> sz" "?m + n \<le> MAX_SIZE"
    using False inv by (auto simp: sz_def db_inv_def)
  have cp: "fst (copy_into (db_bytes ?b) (replicate sz 0) 0) = db_bytes b @ replicate (sz - ?m) 0"
    using k m fits by (simp add: copy_into_fits)
  have "db_grow_room n b = rbind (db_reslice (?m + n) (?b\<lparr>backing := db_bytes b @ replicate (sz - ?m) 0,
          blen := sz, boff := 0\<rparr>)) (\<lambda>b3. Inr (?m, b3))"
    using noroom noslide False cp k fits
    by (simp add: db_grow_room_code try_grow_room Let_def db_capacity_def
        sz_def [symmetric] min_absorb1)
  then show ?thesis
    using False fits m by (simp add: db_reslice_def db_assert_def sz_def [symmetric] Let_def)
qed

lemma grow_room_spec:
  assumes inv: "db_inv b" and ok: "db_grow_room n b = Inr (m, b')"
  shows "db_inv b' \<and> blen b' = m + n \<and> boff b' \<le> m \<and> drop (boff b') (take m (backing b')) = db_bytes b"
proof -
  note k = recovered_keeps [OF inv]
  have m: "db_length b = length (db_bytes b)" and le: "db_length b \<le> length (backing b)"
    using inv by (auto simp: db_length_eq db_defs)
  consider (fast) "blen (recovered b) + n \<le> length (backing b)"
    | (slide) "\<not> blen (recovered b) + n \<le> length (backing b)"
        "int n \<le> int (length (backing b) div 2) - int (db_length b)"
    | (alloc) "\<not> blen (recovered b) + n \<le> length (backing b)"
        "\<not> int n \<le> int (length (backing b) div 2) - int (db_length b)"
    by blast
  then show ?thesis
  proof cases
    case fast
    then show ?thesis
      using ok k grow_room_fast [OF fast] by (auto simp: db_inv_def db_bytes_def db_view_def)
  next
    case slide
    have "db_length b + n \<le> length (backing b)" using slide(2) by linarith
    then show ?thesis
      using ok grow_room_slide [OF inv slide] inv m by (auto simp: db_inv_def)
  next
    case alloc
    then show ?thesis
      using ok grow_room_alloc [OF inv alloc] m le by (auto simp: db_inv_def Let_def split: if_splits)
  qed
qed

lemma grow_room_error:
  assumes inv: "db_inv b" and err: "db_grow_room n b = Inl e"
  shows "e = TooLarge \<and> length (backing b) + n > MAX_SIZE \<and> length (backing b) < blen (recovered b) + n"
proof -
  have "\<not> blen (recovered b) + n \<le> length (backing b)"
    using err grow_room_fast by fastforce
  moreover have "\<not> int n \<le> int (length (backing b) div 2) - int (db_length b)"
    using err grow_room_slide [OF inv calculation] by fastforce
  ultimately show ?thesis
    using err grow_room_alloc [OF inv] by (auto simp: Let_def split: if_splits)
qed

section \<open>Writing\<close>

lemma write_spec:
  assumes inv: "db_inv b" and ok: "db_write p b = Inr (k, b')"
  shows "db_inv b' \<and> db_bytes b' = db_bytes b @ p \<and> k = length p"
proof -
  obtain m g where g: "db_grow_room (length p) b = Inr (m, g)"
    using ok by (auto simp: db_write_def result_simps)
  have gs: "db_inv g" "blen g = m + length p" "boff g \<le> m" "drop (boff g) (take m (backing g)) = db_bytes b"
    using grow_room_spec [OF inv g] by auto
  have len: "length (db_view g) = m + length p"
    using gs by (simp add: db_view_def db_inv_def)
  have cp: "copy_into p (db_view g) m = (take m (backing g) @ p, length p)"
    using gs len by (simp add: copy_into_fits db_view_def min_absorb1)
  have b': "b' = g\<lparr>backing := (take m (backing g) @ p) @ drop (blen g) (backing g)\<rparr>" and k: "k = length p"
    using ok g cp by (auto simp: db_write_def)
  have "db_inv b'" using gs by (simp add: b' db_inv_def)
  moreover have "db_bytes b' = db_bytes b @ p"
    using gs by (simp add: b' db_bytes_def db_view_def db_inv_def min_absorb1)
  ultimately show ?thesis using k by simp
qed

lemma write_error:
  "db_inv b \<Longrightarrow> db_write p b = Inl e \<Longrightarrow>
   e = TooLarge \<and> length (backing b) + length p > MAX_SIZE \<and> length (backing b) < blen (recovered b) + length p"
  using grow_room_error by (auto simp: db_write_def result_simps Let_def split: prod.splits)

text \<open>
  A buffer that is only written to stays within three times its content, so a write
  cannot fail while the content stays below half the maximum size. This is how the parser
  uses it.
\<close>

definition write_only :: "deno_buffer \<Rightarrow> bool" where
  "write_only b \<longleftrightarrow> db_inv b \<and> boff b = 0 \<and> length (backing b) \<le> 3 * blen b"

lemma write_only_new:
  "length a \<le> MAX_SIZE \<Longrightarrow> write_only (new_deno_buffer (Some a))"
  by (simp add: write_only_def) (simp add: new_deno_buffer_def)

lemma write_only_bytes: "write_only b \<Longrightarrow> blen b = length (db_bytes b)"
  by (auto simp: write_only_def db_defs)

lemma write_only_write:
  assumes wo: "write_only b" and fits: "2 * (length (db_bytes b) + length p) \<le> MAX_SIZE"
  shows "\<exists>b'. db_write p b = Inr (length p, b') \<and> write_only b' \<and> db_bytes b' = db_bytes b @ p"
proof -
  have inv: "db_inv b" and off: "boff b = 0" and cap: "length (backing b) \<le> 3 * blen b"
    using wo by (auto simp: write_only_def)
  have rec: "recovered b = b" using off by (simp add: recovered_def)
  have bl: "blen b = length (db_bytes b)" using wo by (rule write_only_bytes)
  have "db_write p b \<noteq> Inl e" for e
    using write_error [OF inv, of p e] rec bl fits by auto
  then obtain k b' where w: "db_write p b = Inr (k, b')"
    by (metis obj_sumE surj_pair)
  note ws = write_spec [OF inv w]
  have "boff b' = 0 \<and> length (backing b') \<le> 3 * blen b'"
  proof -
    obtain m g where g: "db_grow_room (length p) b = Inr (m, g)"
      using w by (auto simp: db_write_def result_simps)
    have bg: "b' = g\<lparr>backing := fst (copy_into p (db_view g) m) @ drop (blen g) (backing g)\<rparr>"
      using w g by (auto simp: db_write_def split: prod.splits)
    note gs = grow_room_spec [OF inv g]
    have "boff g = 0 \<and> length (backing g) \<le> 3 * blen g"
    proof (cases "blen b + length p \<le> length (backing b)")
      case True
      then show ?thesis using grow_room_fast [of b "length p"] g rec off cap by auto
    next
      case False
      have "db_length b = blen b" using off by (simp add: db_length_def)
      then have "\<not> int (length p) \<le> int (length (backing b) div 2) - int (db_length b)"
        using False by linarith
      then show ?thesis
        using grow_room_alloc [OF inv] g False rec \<open>db_length b = blen b\<close>
        by (auto simp: Let_def bl split: if_splits)
    qed
    moreover have "length (fst (copy_into p (db_view g) m) @ drop (blen g) (backing g)) = length (backing g)"
      using gs by (auto simp: copy_into_def Let_def db_view_def db_inv_def)
    ultimately show ?thesis by (simp add: bg)
  qed
  then show ?thesis using w ws by (auto simp: write_only_def)
qed

section \<open>Reading\<close>

lemma read_empty:
  "db_inv b \<Longrightarrow> db_bytes b = [] \<Longrightarrow>
   db_read n b = Inr (if n = 0 then Some [] else None, b\<lparr>blen := 0, boff := 0\<rparr>)"
  by (simp add: db_read_def db_empty_iff db_reset_ok)

lemma read_some:
  fixes n :: nat
  assumes inv: "db_inv b" and ne: "db_bytes b \<noteq> []"
  defines "k \<equiv> min n (length (db_bytes b))"
  shows "db_read n b = Inr (Some (take k (db_bytes b)), b\<lparr>boff := boff b + k\<rparr>)"
    and "db_inv (b\<lparr>boff := boff b + k\<rparr>)" and "db_bytes (b\<lparr>boff := boff b + k\<rparr>) = drop k (db_bytes b)"
proof -
  have cp: "copy_into (db_bytes b) (replicate n 0) 0 =
      (take n (db_bytes b) @ replicate (n - length (db_bytes b)) 0, k)"
    by (auto simp: copy_into_def Let_def k_def)
  show "db_read n b = Inr (Some (take k (db_bytes b)), b\<lparr>boff := boff b + k\<rparr>)"
    using ne by (auto simp: db_read_def db_empty_iff [OF inv] cp k_def min_def)
  show "db_inv (b\<lparr>boff := boff b + k\<rparr>)" and "db_bytes (b\<lparr>boff := boff b + k\<rparr>) = drop k (db_bytes b)"
    using inv by (auto simp: k_def db_defs add.commute)
qed

section \<open>Sinks and sources of bytes\<close>

text \<open>
  The interfaces \<open>Writer\<close> and \<open>Reader\<close> of the source, with what a client relies on: a
  successful write appends the whole argument, and a read takes a non-empty prefix that
  fits, or answers null once nothing is left.
\<close>

locale byte_sink =
  fixes sink_write :: "bytes \<Rightarrow> 's \<Rightarrow> 'e + (nat \<times> 's)"
    and contents :: "'s \<Rightarrow> bytes"
    and sink_inv :: "'s \<Rightarrow> bool"
  assumes write_law:
    "sink_inv s \<Longrightarrow> sink_write p s = Inr (k, s') \<Longrightarrow> sink_inv s' \<and> contents s' = contents s @ p \<and> k = length p"
begin

lemma write_all_law:
  assumes "sink_inv s"
  shows "write_all sink_write s arr =
    Some (if arr = [] then Inr s else map_sum id snd (sink_write arr s))"
proof (cases "arr = []")
  case True
  then show ?thesis by (simp add: write_all_def write_all_from.simps)
next
  case False
  show ?thesis
  proof (cases "sink_write arr s")
    case (Inl e)
    with False show ?thesis by (simp add: write_all_def write_all_from.simps)
  next
    case (Inr r)
    obtain k s' where r: "r = (k, s')" by fastforce
    with Inr write_law [OF assms, of arr k s'] have "k = length arr" by simp
    with False Inr r show ?thesis by (simp add: write_all_def write_all_from.simps)
  qed
qed

end

locale byte_source =
  fixes src_read :: "nat \<Rightarrow> 'r \<Rightarrow> buffer_error + (bytes option \<times> 'r)"
    and remaining :: "'r \<Rightarrow> bytes"
    and src_inv :: "'r \<Rightarrow> bool"
  assumes read_end: "src_inv r \<Longrightarrow> remaining r = [] \<Longrightarrow> 0 < n \<Longrightarrow>
      \<exists>r'. src_read n r = Inr (None, r') \<and> src_inv r' \<and> remaining r' = []"
    and read_more: "src_inv r \<Longrightarrow> remaining r \<noteq> [] \<Longrightarrow> 0 < n \<Longrightarrow>
      \<exists>p r'. src_read n r = Inr (Some p, r') \<and> src_inv r' \<and> p \<noteq> [] \<and> length p \<le> n
        \<and> remaining r = p @ remaining r'"

interpretation db_sink: byte_sink db_write db_bytes db_inv
  by unfold_locales (rule write_spec)

interpretation db_source: byte_source db_read db_bytes db_inv
proof unfold_locales
  fix b :: deno_buffer and n :: nat
  assume inv: "db_inv b" and n: "0 < n"
  show "\<exists>b'. db_read n b = Inr (None, b') \<and> db_inv b' \<and> db_bytes b' = []" if "db_bytes b = []"
    using read_empty [OF inv that, of n] n inv by (auto simp: db_defs)
  show "\<exists>p b'. db_read n b = Inr (Some p, b') \<and> db_inv b' \<and> p \<noteq> [] \<and> length p \<le> n
      \<and> db_bytes b = p @ db_bytes b'" if "db_bytes b \<noteq> []"
    using read_some [OF inv that, of n] n that by (auto intro!: exI)
qed

text \<open>
  \<open>readFrom\<close> drains any source into a buffer whose read offset is 0, whichever of its two
  ways (through the temporary array, or straight into the spare room) each turn takes.
\<close>

lemma direct_read:
  assumes "write_only b" and "length p \<le> db_capacity b - db_length b"
  shows "\<exists>b'. db_reslice (db_length b + length p)
      (b\<lparr>backing := take (db_length b) (backing b) @ p @ drop (db_length b + length p) (backing b)\<rparr>) = Inr b'
    \<and> write_only b' \<and> db_bytes b' = db_bytes b @ p"
  using assms by (auto simp: write_only_def db_defs)

context byte_source begin

lemma read_from_drains:
  assumes "src_inv r" and "write_only b" and "2 * (length (db_bytes b) + length (remaining r)) \<le> MAX_SIZE"
  shows "\<exists>b' r'. db_read_from src_read r b n = Some (Inr (n + length (remaining r), b', r'))
    \<and> db_bytes b' = db_bytes b @ remaining r \<and> write_only b' \<and> src_inv r' \<and> remaining r' = []"
  using assms
proof (induction "length (remaining r)" arbitrary: r b n rule: less_induct)
  case less
  define room where "room = (if int (db_capacity b) - int (db_length b) < int MIN_READ then MIN_READ
      else db_capacity b - db_length b)"
  have room: "0 < room" by (auto simp: room_def MIN_READ_def)
  show ?case
  proof (cases "remaining r = []")
    case True
    with read_end [OF less.prems(1) True room] less.prems show ?thesis
      by (auto simp: db_read_from.simps [of src_read r b n] Let_def room_def)
  next
    case False
    obtain p r' where rd: "src_read room r = Inr (Some p, r')" and r': "src_inv r'" "p \<noteq> []" "length p \<le> room"
      and rem: "remaining r = p @ remaining r'"
      using read_more [OF less.prems(1) False room] by blast
    have "\<exists>b'. (if int (db_capacity b) - int (db_length b) < int MIN_READ then map_sum id snd (db_write p b)
        else db_reslice (db_length b + length p)
          (b\<lparr>backing := take (db_length b) (backing b) @ p @ drop (db_length b + length p) (backing b)\<rparr>)) = Inr b'
        \<and> write_only b' \<and> db_bytes b' = db_bytes b @ p"
      using write_only_write [OF less.prems(2), of p] direct_read [OF less.prems(2), of p] less.prems(3) rem r'(3)
      by (auto simp: room_def split: if_splits)
    then obtain b' where b': "(if int (db_capacity b) - int (db_length b) < int MIN_READ then map_sum id snd (db_write p b)
        else db_reslice (db_length b + length p)
          (b\<lparr>backing := take (db_length b) (backing b) @ p @ drop (db_length b + length p) (backing b)\<rparr>)) = Inr b'"
      and wo: "write_only b'" and by': "db_bytes b' = db_bytes b @ p"
      by blast
    have step: "db_read_from src_read r b n = db_read_from src_read r' b' (n + length p)"
      using rd b' by (subst db_read_from.simps) (simp add: Let_def room_def)
    have "length (remaining r') < length (remaining r)" using rem r'(2) by simp
    from less.hyps [OF this r'(1) wo, of "n + length p"] step by' rem less.prems(3) show ?thesis
      by (simp add: add.assoc)
  qed
qed

end

section \<open>Properties\<close>

text \<open>
  a write either stores its whole argument behind the unread content and reports its
  full length, or it fails because the buffer would outgrow the maximum size; the invariant
  is kept.
\<close>

theorem write_appends:
  assumes "db_inv b"
  shows "case db_write p b of
           Inl e \<Rightarrow> e = TooLarge \<and> db_capacity b + length p > MAX_SIZE
         | Inr (k, b') \<Rightarrow> db_inv b' \<and> db_bytes b' = db_bytes b @ p \<and> k = length p"
proof (cases "db_write p b")
  case (Inl e)
  with write_error [OF assms, of p e] show ?thesis by (simp add: db_capacity_def)
next
  case (Inr r)
  with db_sink.write_law [OF assms, of p "fst r" "snd r"] show ?thesis by (cases r) simp
qed

theorem write_appends_witness:
  "case db_write [3, 4] \<lparr>backing = [1, 2], blen = 2, boff = 1\<rparr> of
     Inl e \<Rightarrow> False | Inr (k, b') \<Rightarrow> db_bytes b' = [2, 3, 4]"
proof -
  let ?b = "\<lparr>backing = [1, 2], blen = 2, boff = 1\<rparr>"
  have i: "db_inv ?b" by (simp add: db_inv_def MAX_SIZE_def)
  have "db_bytes ?b = [2]" by (simp add: db_bytes_def db_view_def)
  then show ?thesis
    using write_appends [OF i, of "[3, 4]"]
    by (auto simp: db_capacity_def MAX_SIZE_def split: sum.splits)
qed

text \<open>
  \<open>readFrom\<close> on a buffer that was only written to returns, for a reader that is itself
  a buffer, after moving all of the reader's unread bytes to the end of the content, and
  reports how many there were.
\<close>

theorem read_from_buffer_drains:
  assumes "db_inv r" and "write_only b" and "2 * (length (db_bytes b) + length (db_bytes r)) \<le> MAX_SIZE"
  shows "\<exists>b' r'. db_read_from db_read r b 0 = Some (Inr (length (db_bytes r), b', r'))
    \<and> db_bytes b' = db_bytes b @ db_bytes r \<and> db_bytes r' = []"
  using db_source.read_from_drains [OF assms, of 0] by auto

theorem read_from_buffer_drains_witness:
  "\<exists>b' r'. db_read_from db_read (new_deno_buffer (Some [5, 6])) (new_deno_buffer (Some [4])) 0
      = Some (Inr (2, b', r')) \<and> db_bytes b' = [4, 5, 6] \<and> db_bytes r' = []"
  using read_from_buffer_drains [of "new_deno_buffer (Some [5, 6])" "new_deno_buffer (Some [4])"]
  by (simp add: write_only_new MAX_SIZE_def flip: numeral_2_eq_2)

text \<open>
  a buffer that has been partly read is not safe for \<open>readFrom\<close>. The direct way places
  the incoming bytes at \<open>length\<close>, not at the end of the view, so on a buffer with spare room,
  one byte read and one byte unread, the unread byte 2 is overwritten by the incoming 7.
\<close>

theorem read_from_after_read_loses_bytes:
  fixes spare :: bytes
  assumes "MIN_READ \<le> length spare"
  defines "b \<equiv> \<lparr>backing = [1, 2] @ spare, blen = 2, boff = 1\<rparr>"
  shows "db_bytes b = [2] \<and> (\<exists>b' r'.
    db_read_from db_read (new_deno_buffer (Some [7])) b 0 = Some (Inr (1, b', r')) \<and> db_bytes b' = [7])"
proof -
  let ?r = "new_deno_buffer (Some [7])"
  let ?b' = "\<lparr>backing = [1, 7] @ spare, blen = 2, boff = 1\<rparr>"
  have room: "\<not> int (db_capacity b) - int (db_length b) < int MIN_READ"
    "\<not> int (db_capacity ?b') - int (db_length ?b') < int MIN_READ"
    using assms by (simp_all add: db_capacity_def db_length_def)
  have rd: "db_read (db_capacity b - db_length b) ?r = Inr (Some [7], ?r\<lparr>boff := 1\<rparr>)"
    by (simp add: read_some [of ?r] MAX_SIZE_def) (simp add: b_def db_capacity_def db_length_def new_deno_buffer_def)
  have rd': "db_read (db_capacity ?b' - db_length ?b') (?r\<lparr>boff := 1\<rparr>) = Inr (None, ?r\<lparr>blen := 0, boff := 0\<rparr>)"
    by (simp add: db_read_def db_defs new_deno_buffer_def)
  have "db_read_from db_read ?r b 0 = db_read_from db_read (?r\<lparr>boff := 1\<rparr>) ?b' 1"
    by (subst db_read_from.simps) (use room(1) rd in \<open>simp add: Let_def b_def db_defs flip: numeral_2_eq_2\<close>)
  also have "\<dots> = Some (Inr (1, ?b', ?r\<lparr>blen := 0, boff := 0\<rparr>))"
    by (subst db_read_from.simps) (use room(2) rd' in \<open>simp add: Let_def\<close>)
  finally show ?thesis by (simp add: b_def db_defs)
qed

theorem read_from_after_read_loses_bytes_witness:
  "\<exists>b' r'. db_read_from db_read (new_deno_buffer (Some [7]))
      \<lparr>backing = [1, 2] @ replicate 40000 0, blen = 2, boff = 1\<rparr> 0 = Some (Inr (1, b', r')) \<and> db_bytes b' = [7]"
  using read_from_after_read_loses_bytes [of "replicate 40000 0"] by (simp add: MIN_READ_def)

end
