(* ===== verification/Wire_Parser.thy ===== *)
theory Wire_Parser
  imports Deno_Buffer
begin

text \<open>
  The protocol parser of \<open>nats-base-client/parser.ts\<close>: a byte-driven state machine that is
  fed the chunks of the connection and pushes events to its dispatcher. The model keeps the
  source's fields, its index arithmetic inside a chunk (the payload is skipped by moving the
  index) and its two buffers for what a chunk leaves unfinished. Pushing an event is
  returning it; a throw is \<open>Inl\<close> of the error's message and ends the reader.
\<close>

section \<open>Events and states\<close>

datatype kind = OK | ERR | MSG | INFO | PING | PONG

record msg_arg =
  subject :: bytes
  reply :: "bytes option"
  sid :: int
  hdr :: int
  size :: int

datatype parser_event =
    EvMsg msg_arg bytes
  | EvOk
  | EvErr bytes
  | EvPing
  | EvPong
  | EvInfo bytes

fun event_kind :: "parser_event \<Rightarrow> kind" where
  "event_kind (EvMsg _ _) = MSG"
| "event_kind EvOk = OK"
| "event_kind (EvErr _) = ERR"
| "event_kind EvPing = PING"
| "event_kind EvPong = PONG"
| "event_kind (EvInfo _) = INFO"

fun describe :: "parser_event \<Rightarrow> string" where
  "describe (EvMsg _ _) = ''MSG: ''"
| "describe EvOk = ''OK: ''"
| "describe (EvErr d) = ''ERR: '' @ td_decode d"
| "describe EvPing = ''PING: ''"
| "describe EvPong = ''PONG: ''"
| "describe (EvInfo d) = ''INFO: '' @ td_decode d"

definition newMsgArg :: msg_arg where
  "newMsgArg = \<lparr>subject = [], reply = None, sid = -1, hdr = -1, size = -1\<rparr>"

datatype state =
    OP_START | OP_PLUS | OP_PLUS_O | OP_PLUS_OK | OP_MINUS | OP_MINUS_E | OP_MINUS_ER | OP_MINUS_ERR
  | OP_MINUS_ERR_SPC | MINUS_ERR_ARG | OP_M | OP_MS | OP_MSG | OP_MSG_SPC | MSG_ARG | MSG_PAYLOAD
  | MSG_END | OP_H | OP_P | OP_PI | OP_PIN | OP_PING | OP_PO | OP_PON | OP_PONG | OP_I | OP_IN
  | OP_INF | OP_INFO | OP_INFO_SPC | INFO_ARG

text \<open>The number TypeScript gives each member of the enum, which the error messages print.\<close>

definition state_code :: "state \<Rightarrow> nat" where
  "state_code s = (case s of
      OP_START \<Rightarrow> 0 | OP_PLUS \<Rightarrow> 1 | OP_PLUS_O \<Rightarrow> 2 | OP_PLUS_OK \<Rightarrow> 3 | OP_MINUS \<Rightarrow> 4 | OP_MINUS_E \<Rightarrow> 5
    | OP_MINUS_ER \<Rightarrow> 6 | OP_MINUS_ERR \<Rightarrow> 7 | OP_MINUS_ERR_SPC \<Rightarrow> 8 | MINUS_ERR_ARG \<Rightarrow> 9 | OP_M \<Rightarrow> 10
    | OP_MS \<Rightarrow> 11 | OP_MSG \<Rightarrow> 12 | OP_MSG_SPC \<Rightarrow> 13 | MSG_ARG \<Rightarrow> 14 | MSG_PAYLOAD \<Rightarrow> 15 | MSG_END \<Rightarrow> 16
    | OP_H \<Rightarrow> 17 | OP_P \<Rightarrow> 18 | OP_PI \<Rightarrow> 19 | OP_PIN \<Rightarrow> 20 | OP_PING \<Rightarrow> 21 | OP_PO \<Rightarrow> 22 | OP_PON \<Rightarrow> 23
    | OP_PONG \<Rightarrow> 24 | OP_I \<Rightarrow> 25 | OP_IN \<Rightarrow> 26 | OP_INF \<Rightarrow> 27 | OP_INFO \<Rightarrow> 28 | OP_INFO_SPC \<Rightarrow> 29
    | INFO_ARG \<Rightarrow> 30)"

text \<open>The enum \<open>cc\<close>: the code of a character.\<close>

definition cc :: "char \<Rightarrow> byte" where
  "cc c = of_char c"

abbreviation cc_CR :: byte where "cc_CR \<equiv> 13"
abbreviation cc_NL :: byte where "cc_NL \<equiv> 10"
abbreviation cc_SPACE :: byte where "cc_SPACE \<equiv> 32"
abbreviation cc_TAB :: byte where "cc_TAB \<equiv> 9"

text \<open>
  The class. \<open>ma\<close> is unset in a new parser of the source and is assigned when an \<open>M\<close> or an
  \<open>H\<close> is read, before any use; here it starts as a fresh argument record.
\<close>

record parser =
  pstate :: state
  pas :: nat
  pdrop :: nat
  phdr :: int
  pma :: msg_arg
  argBuf :: "deno_buffer option"
  msgBuf :: "deno_buffer option"

definition new_parser :: parser where
  "new_parser = \<lparr>pstate = OP_START, pas = 0, pdrop = 0, phdr = 0, pma = newMsgArg,
     argBuf = None, msgBuf = None\<rparr>"

definition parser_fail :: "state \<Rightarrow> bytes \<Rightarrow> string \<Rightarrow> string" where
  "parser_fail st dat label =
     (let label' = (if label = [] then ''parse error ['' @ show_nat (state_code st) @ '']''
                    else label @ '' ['' @ show_nat (state_code st) @ '']'')
      in label' @ '': '' @ td_decode dat)"

definition buffer_message :: "buffer_error \<Rightarrow> string" where
  "buffer_message e = (case e of
      AssertionError \<Rightarrow> ''Assertion failed.''
    | TruncationOutOfRange \<Rightarrow> ''bytes.Buffer: truncation out of range''
    | TooLarge \<Rightarrow> ''The buffer cannot be grown beyond the maximum size.''
    | NegativeCount \<Rightarrow> ''Buffer._grow: negative count'')"

section \<open>The arguments of MSG and HMSG\<close>

fun proto_digits :: "nat \<Rightarrow> bytes \<Rightarrow> int" where
  "proto_digits n [] = int n"
| "proto_digits n (b # bs) =
     (if b < 48 \<or> b > 57 then -1
      else proto_digits (js_round (js_round (n * 10) + unat (b - 48))) bs)"

definition protoParseInt :: "bytes \<Rightarrow> int" where
  "protoParseInt a = (if length a = 0 then -1 else proto_digits 0 a)"

text \<open>The splitting loop: \<open>start\<close> is \<open>None\<close> for the source's -1.\<close>

function split_args :: "bytes \<Rightarrow> nat \<Rightarrow> nat option \<Rightarrow> bytes list \<Rightarrow> bytes list" where
  "split_args arg i start args =
     (if i < length arg
      then let b = arg ! i in
        if b = cc_SPACE \<or> b = cc_TAB \<or> b = cc_CR \<or> b = cc_NL
        then (case start of
                Some s \<Rightarrow> split_args arg (Suc i) None (args @ [subarray s i arg])
              | None \<Rightarrow> split_args arg (Suc i) None args)
        else (case start of
                Some s \<Rightarrow> split_args arg (Suc i) (Some s) args
              | None \<Rightarrow> split_args arg (Suc i) (Some i) args)
      else (case start of Some s \<Rightarrow> args @ [drop s arg] | None \<Rightarrow> args))"

  by pat_completeness auto

termination
  by (relation "measure (\<lambda>(arg, i, start, args). length arg - i)") auto

declare split_args.simps [simp del]

definition processHeaderMsgArgs :: "bytes \<Rightarrow> parser \<Rightarrow> string + parser" where
  "processHeaderMsgArgs arg p =
     (let args = split_args arg 0 None [] in
      rbind
        (case args of
           [a0, a1, a2, a3] \<Rightarrow>
             Inr ((pma p)\<lparr>subject := a0, sid := protoParseInt a1, reply := None,
                   hdr := protoParseInt a2, size := protoParseInt a3\<rparr>)
         | [a0, a1, a2, a3, a4] \<Rightarrow>
             Inr ((pma p)\<lparr>subject := a0, sid := protoParseInt a1, reply := Some a2,
                   hdr := protoParseInt a3, size := protoParseInt a4\<rparr>)
         | _ \<Rightarrow> Inl (parser_fail (pstate p) arg ''processHeaderMsgArgs Parse Error''))
        (\<lambda>ma.
          if sid ma < 0
          then Inl (parser_fail (pstate p) arg ''processHeaderMsgArgs Bad or Missing Sid Error'')
          else if hdr ma < 0 \<or> hdr ma > size ma
          then Inl (parser_fail (pstate p) arg ''processHeaderMsgArgs Bad or Missing Header Size Error'')
          else if size ma < 0
          then Inl (parser_fail (pstate p) arg ''processHeaderMsgArgs Bad or Missing Size Error'')
          else Inr (p\<lparr>pma := ma\<rparr>)))"

definition processMsgArgs :: "bytes \<Rightarrow> parser \<Rightarrow> string + parser" where
  "processMsgArgs arg p =
     (if phdr p \<ge> 0 then processHeaderMsgArgs arg p
      else
     (let args = split_args arg 0 None [] in
      rbind
        (case args of
           [a0, a1, a2] \<Rightarrow>
             Inr ((pma p)\<lparr>subject := a0, sid := protoParseInt a1, reply := None, size := protoParseInt a2\<rparr>)
         | [a0, a1, a2, a3] \<Rightarrow>
             Inr ((pma p)\<lparr>subject := a0, sid := protoParseInt a1, reply := Some a2, size := protoParseInt a3\<rparr>)
         | _ \<Rightarrow> Inl (parser_fail (pstate p) arg ''processMsgArgs Parse Error''))
        (\<lambda>ma.
          if sid ma < 0
          then Inl (parser_fail (pstate p) arg ''processMsgArgs Bad or Missing Sid Error'')
          else if size ma < 0
          then Inl (parser_fail (pstate p) arg ''processMsgArgs Bad or Missing Size Error'')
          else Inr (p\<lparr>pma := ma\<rparr>))))"

section \<open>One turn of the loop\<close>

text \<open>
  A turn reads the byte at index \<open>i\<close> of the chunk and answers the events it pushed and
  either an error or the new parser and the value of \<open>i\<close> the loop goes on from (it is
  incremented afterwards). The turn is split along the source's groups of states.
\<close>

type_synonym turn = "parser_event list \<times> (string + (parser \<times> nat))"

definition goto :: "state \<Rightarrow> parser \<Rightarrow> nat \<Rightarrow> turn" where
  "goto s p i = ([], Inr (p\<lparr>pstate := s\<rparr>, i))"

definition bad :: "parser \<Rightarrow> bytes \<Rightarrow> nat \<Rightarrow> turn" where
  "bad p buf i = ([], Inl (parser_fail (pstate p) (drop i buf) []))"

abbreviation is_letter :: "byte \<Rightarrow> char \<Rightarrow> char \<Rightarrow> bool" where
  "is_letter b upper lower \<equiv> b = cc upper \<or> b = cc lower"

definition turn_start :: "bytes \<Rightarrow> nat \<Rightarrow> byte \<Rightarrow> parser \<Rightarrow> turn" where
  "turn_start buf i b p =
     (if is_letter b CHR ''M'' CHR ''m'' then goto OP_M (p\<lparr>phdr := -1, pma := newMsgArg\<rparr>) i
      else if is_letter b CHR ''H'' CHR ''h'' then goto OP_H (p\<lparr>phdr := 0, pma := newMsgArg\<rparr>) i
      else if is_letter b CHR ''P'' CHR ''p'' then goto OP_P p i
      else if b = cc CHR ''+'' then goto OP_PLUS p i
      else if b = cc CHR ''-'' then goto OP_MINUS p i
      else if is_letter b CHR ''I'' CHR ''i'' then goto OP_I p i
      else bad p buf i)"

definition turn_op_msg :: "bytes \<Rightarrow> nat \<Rightarrow> byte \<Rightarrow> parser \<Rightarrow> turn" where
  "turn_op_msg buf i b p = (case pstate p of
      OP_H \<Rightarrow> if is_letter b CHR ''M'' CHR ''m'' then goto OP_M p i else bad p buf i
    | OP_M \<Rightarrow> if is_letter b CHR ''S'' CHR ''s'' then goto OP_MS p i else bad p buf i
    | OP_MS \<Rightarrow> if is_letter b CHR ''G'' CHR ''g'' then goto OP_MSG p i else bad p buf i
    | OP_MSG \<Rightarrow> if b = cc_SPACE \<or> b = cc_TAB then goto OP_MSG_SPC p i else bad p buf i
    | _ \<Rightarrow> if b = cc_SPACE \<or> b = cc_TAB then ([], Inr (p, i))
           else ([], Inr (p\<lparr>pstate := MSG_ARG, pas := i\<rparr>, i)))"

text \<open>A byte of an argument goes to the buffer when the argument began in an earlier chunk.\<close>

definition keep_arg_byte :: "byte \<Rightarrow> parser \<Rightarrow> nat \<Rightarrow> turn" where
  "keep_arg_byte b p i = (case argBuf p of
      None \<Rightarrow> ([], Inr (p, i))
    | Some ab \<Rightarrow> (case db_write_byte b ab of
          Inl e \<Rightarrow> ([], Inl (buffer_message e))
        | Inr (k, ab') \<Rightarrow> ([], Inr (p\<lparr>argBuf := Some ab'\<rparr>, i))))"

definition turn_msg_arg :: "bytes \<Rightarrow> nat \<Rightarrow> byte \<Rightarrow> parser \<Rightarrow> turn" where
  "turn_msg_arg buf i b p =
     (if b = cc_CR then ([], Inr (p\<lparr>pdrop := 1\<rparr>, i))
      else if b = cc_NL then
        let arg = (case argBuf p of Some ab \<Rightarrow> db_bytes ab | None \<Rightarrow> subarray (pas p) (i - pdrop p) buf)
        in (case processMsgArgs arg p of
              Inl e \<Rightarrow> ([], Inl e)
            | Inr p' \<Rightarrow> ([], Inr (p'\<lparr>pdrop := 0, pas := i + 1, pstate := MSG_PAYLOAD\<rparr>,
                                 nat (int (i + 1) + size (pma p') - 1))))
      else keep_arg_byte b p i)"

definition push_msg :: "bytes \<Rightarrow> parser \<Rightarrow> nat \<Rightarrow> turn" where
  "push_msg dat p i =
     ([EvMsg (pma p) dat], Inr (p\<lparr>argBuf := None, msgBuf := None, pstate := MSG_END\<rparr>, i))"

definition turn_msg_payload :: "bytes \<Rightarrow> nat \<Rightarrow> byte \<Rightarrow> parser \<Rightarrow> turn" where
  "turn_msg_payload buf i b p = (case msgBuf p of
      Some mb \<Rightarrow>
        if int (db_length mb) \<ge> size (pma p) then push_msg (db_bytes mb) p i
        else
          let toCopy0 = size (pma p) - int (db_length mb);
              avail = int (length buf) - int i;
              toCopy = (if avail < toCopy0 then avail else toCopy0)
          in if toCopy > 0
             then (case db_write (subarray i (i + nat toCopy) buf) mb of
                     Inl e \<Rightarrow> ([], Inl (buffer_message e))
                   | Inr (k, mb') \<Rightarrow> ([], Inr (p\<lparr>msgBuf := Some mb'\<rparr>, (i + nat toCopy) - 1)))
             else (case db_write_byte b mb of
                     Inl e \<Rightarrow> ([], Inl (buffer_message e))
                   | Inr (k, mb') \<Rightarrow> ([], Inr (p\<lparr>msgBuf := Some mb'\<rparr>, i)))
    | None \<Rightarrow>
        if int i - int (pas p) \<ge> size (pma p) then push_msg (subarray (pas p) i buf) p i
        else ([], Inr (p, i)))"

definition turn_msg_end :: "bytes \<Rightarrow> nat \<Rightarrow> byte \<Rightarrow> parser \<Rightarrow> turn" where
  "turn_msg_end buf i b p =
     (if b = cc_NL then ([], Inr (p\<lparr>pdrop := 0, pas := i + 1, pstate := OP_START\<rparr>, i))
      else ([], Inr (p, i)))"

text \<open>What OK, PING and PONG do at the end of their line.\<close>

definition end_of_line :: "parser_event \<Rightarrow> byte \<Rightarrow> parser \<Rightarrow> nat \<Rightarrow> turn" where
  "end_of_line ev b p i =
     (if b = cc_NL then ([ev], Inr (p\<lparr>pdrop := 0, pstate := OP_START\<rparr>, i))
      else ([], Inr (p, i)))"

definition turn_plus :: "bytes \<Rightarrow> nat \<Rightarrow> byte \<Rightarrow> parser \<Rightarrow> turn" where
  "turn_plus buf i b p = (case pstate p of
      OP_PLUS \<Rightarrow> if is_letter b CHR ''O'' CHR ''o'' then goto OP_PLUS_O p i else bad p buf i
    | OP_PLUS_O \<Rightarrow> if is_letter b CHR ''K'' CHR ''k'' then goto OP_PLUS_OK p i else bad p buf i
    | _ \<Rightarrow> end_of_line EvOk b p i)"

text \<open>The line of an ERR or an INFO, which is pushed without its CR.\<close>

definition turn_line_arg :: "(bytes \<Rightarrow> parser_event) \<Rightarrow> bytes \<Rightarrow> nat \<Rightarrow> byte \<Rightarrow> parser \<Rightarrow> turn" where
  "turn_line_arg ev buf i b p =
     (if b = cc_CR then ([], Inr (p\<lparr>pdrop := 1\<rparr>, i))
      else if b = cc_NL then
        let (arg, p') = (case argBuf p of
                Some ab \<Rightarrow> (db_bytes ab, p\<lparr>argBuf := None\<rparr>)
              | None \<Rightarrow> (subarray (pas p) (i - pdrop p) buf, p))
        in ([ev arg], Inr (p'\<lparr>pdrop := 0, pas := i + 1, pstate := OP_START\<rparr>, i))
      else keep_arg_byte b p i)"

definition turn_minus :: "bytes \<Rightarrow> nat \<Rightarrow> byte \<Rightarrow> parser \<Rightarrow> turn" where
  "turn_minus buf i b p = (case pstate p of
      OP_MINUS \<Rightarrow> if is_letter b CHR ''E'' CHR ''e'' then goto OP_MINUS_E p i else bad p buf i
    | OP_MINUS_E \<Rightarrow> if is_letter b CHR ''R'' CHR ''r'' then goto OP_MINUS_ER p i else bad p buf i
    | OP_MINUS_ER \<Rightarrow> if is_letter b CHR ''R'' CHR ''r'' then goto OP_MINUS_ERR p i else bad p buf i
    | OP_MINUS_ERR \<Rightarrow> if b = cc_SPACE \<or> b = cc_TAB then goto OP_MINUS_ERR_SPC p i else bad p buf i
    | OP_MINUS_ERR_SPC \<Rightarrow>
        if b = cc_SPACE \<or> b = cc_TAB then ([], Inr (p, i))
        else ([], Inr (p\<lparr>pstate := MINUS_ERR_ARG, pas := i\<rparr>, i))
    | _ \<Rightarrow> turn_line_arg EvErr buf i b p)"

definition turn_p :: "bytes \<Rightarrow> nat \<Rightarrow> byte \<Rightarrow> parser \<Rightarrow> turn" where
  "turn_p buf i b p = (case pstate p of
      OP_P \<Rightarrow> if is_letter b CHR ''I'' CHR ''i'' then goto OP_PI p i
              else if is_letter b CHR ''O'' CHR ''o'' then goto OP_PO p i else bad p buf i
    | OP_PO \<Rightarrow> if is_letter b CHR ''N'' CHR ''n'' then goto OP_PON p i else bad p buf i
    | OP_PON \<Rightarrow> if is_letter b CHR ''G'' CHR ''g'' then goto OP_PONG p i else bad p buf i
    | OP_PONG \<Rightarrow> end_of_line EvPong b p i
    | OP_PI \<Rightarrow> if is_letter b CHR ''N'' CHR ''n'' then goto OP_PIN p i else bad p buf i
    | OP_PIN \<Rightarrow> if is_letter b CHR ''G'' CHR ''g'' then goto OP_PING p i else bad p buf i
    | _ \<Rightarrow> end_of_line EvPing b p i)"

definition turn_info :: "bytes \<Rightarrow> nat \<Rightarrow> byte \<Rightarrow> parser \<Rightarrow> turn" where
  "turn_info buf i b p = (case pstate p of
      OP_I \<Rightarrow> if is_letter b CHR ''N'' CHR ''n'' then goto OP_IN p i else bad p buf i
    | OP_IN \<Rightarrow> if is_letter b CHR ''F'' CHR ''f'' then goto OP_INF p i else bad p buf i
    | OP_INF \<Rightarrow> if is_letter b CHR ''O'' CHR ''o'' then goto OP_INFO p i else bad p buf i
    | OP_INFO \<Rightarrow> if b = cc_SPACE \<or> b = cc_TAB then goto OP_INFO_SPC p i else bad p buf i
    | OP_INFO_SPC \<Rightarrow>
        if b = cc_SPACE \<or> b = cc_TAB then ([], Inr (p, i))
        else ([], Inr (p\<lparr>pstate := INFO_ARG, pas := i\<rparr>, i))
    | _ \<Rightarrow> turn_line_arg EvInfo buf i b p)"

definition parse_turn :: "bytes \<Rightarrow> nat \<Rightarrow> parser \<Rightarrow> turn" where
  "parse_turn buf i p =
     (let b = buf ! i in
      case pstate p of
        OP_START \<Rightarrow> turn_start buf i b p
      | OP_H \<Rightarrow> turn_op_msg buf i b p
      | OP_M \<Rightarrow> turn_op_msg buf i b p
      | OP_MS \<Rightarrow> turn_op_msg buf i b p
      | OP_MSG \<Rightarrow> turn_op_msg buf i b p
      | OP_MSG_SPC \<Rightarrow> turn_op_msg buf i b p
      | MSG_ARG \<Rightarrow> turn_msg_arg buf i b p
      | MSG_PAYLOAD \<Rightarrow> turn_msg_payload buf i b p
      | MSG_END \<Rightarrow> turn_msg_end buf i b p
      | OP_PLUS \<Rightarrow> turn_plus buf i b p
      | OP_PLUS_O \<Rightarrow> turn_plus buf i b p
      | OP_PLUS_OK \<Rightarrow> turn_plus buf i b p
      | OP_MINUS \<Rightarrow> turn_minus buf i b p
      | OP_MINUS_E \<Rightarrow> turn_minus buf i b p
      | OP_MINUS_ER \<Rightarrow> turn_minus buf i b p
      | OP_MINUS_ERR \<Rightarrow> turn_minus buf i b p
      | OP_MINUS_ERR_SPC \<Rightarrow> turn_minus buf i b p
      | MINUS_ERR_ARG \<Rightarrow> turn_minus buf i b p
      | OP_P \<Rightarrow> turn_p buf i b p
      | OP_PO \<Rightarrow> turn_p buf i b p
      | OP_PON \<Rightarrow> turn_p buf i b p
      | OP_PONG \<Rightarrow> turn_p buf i b p
      | OP_PI \<Rightarrow> turn_p buf i b p
      | OP_PIN \<Rightarrow> turn_p buf i b p
      | OP_PING \<Rightarrow> turn_p buf i b p
      | _ \<Rightarrow> turn_info buf i b p)"

section \<open>The loop, the end of a chunk, and a stream of chunks\<close>

text \<open>The index never goes back, so the loop over a chunk ends.\<close>

named_theorems turn_defs \<open>the turns of the parser's loop\<close>

declare goto_def [turn_defs] bad_def [turn_defs] turn_start_def [turn_defs] turn_op_msg_def [turn_defs]
  keep_arg_byte_def [turn_defs] turn_msg_arg_def [turn_defs] push_msg_def [turn_defs]
  turn_msg_payload_def [turn_defs] turn_msg_end_def [turn_defs] end_of_line_def [turn_defs]
  turn_plus_def [turn_defs] turn_line_arg_def [turn_defs] turn_minus_def [turn_defs]
  turn_p_def [turn_defs] turn_info_def [turn_defs]

lemma processMsgArgs_Inr:
  assumes "processMsgArgs arg p = Inr p'"
  shows "\<exists>ma. p' = p\<lparr>pma := ma\<rparr> \<and> 0 \<le> sid ma \<and> 0 \<le> size ma"
proof (cases "phdr p \<ge> 0")
  case True
  then have "processHeaderMsgArgs arg p = Inr p'" using assms by (simp add: processMsgArgs_def)
  then show ?thesis
    unfolding processHeaderMsgArgs_def Let_def rbind_Inr_iff by (auto split: if_splits)
next
  case False
  with assms show ?thesis
    unfolding processMsgArgs_def Let_def by (auto simp: rbind_Inr_iff split: if_splits)
qed

lemma parse_turn_index:
  assumes "snd (parse_turn buf i p) = Inr (p', i')"
  shows "i \<le> i'"
proof -
  have ka: "snd (keep_arg_byte b q i) = Inr (p', i') \<Longrightarrow> i' = i" for b q
    by (auto simp: keep_arg_byte_def split: option.splits sum.splits)
  have arg: "snd (turn_msg_arg buf i b p) = Inr (p', i') \<Longrightarrow> i \<le> i'" for b
    using ka by (fastforce simp: turn_msg_arg_def Let_def split: if_splits option.splits sum.splits
        dest!: processMsgArgs_Inr)
  have line: "snd (turn_line_arg ev buf i b p) = Inr (p', i') \<Longrightarrow> i \<le> i'" for ev b
    using ka by (auto simp: turn_line_arg_def Let_def split: if_splits option.splits)
  have pay: "snd (turn_msg_payload buf i b p) = Inr (p', i') \<Longrightarrow> i \<le> i'" for b
    by (auto simp: turn_msg_payload_def push_msg_def Let_def split: if_splits option.splits sum.splits)
  show ?thesis
    using assms arg line pay
    by (auto simp: parse_turn_def Let_def goto_def bad_def turn_start_def turn_op_msg_def turn_plus_def
        turn_minus_def turn_p_def turn_info_def turn_msg_end_def end_of_line_def
        split: state.splits if_splits)
qed

lemma parse_turn_forward: "(evs, Inr (p', i')) = parse_turn buf i p \<Longrightarrow> i \<le> i'"
  by (metis parse_turn_index snd_conv)

function parse_loop :: "bytes \<Rightarrow> nat \<Rightarrow> parser \<Rightarrow> turn" where
  "parse_loop buf i p =
     (if i < length buf
      then (case parse_turn buf i p of
              (evs, Inl e) \<Rightarrow> (evs, Inl e)
            | (evs, Inr (p', i')) \<Rightarrow> (let (evs', r) = parse_loop buf (Suc i') p' in (evs @ evs', r)))
      else ([], Inr (p, i)))"
  by pat_completeness auto

termination
  by (relation "measure (\<lambda>(buf, i, p). length buf - i)") (auto dest!: parse_turn_forward)

declare parse_loop.simps [simp del]

text \<open>
  The end of \<open>parse\<close>: an unfinished argument is kept in \<open>argBuf\<close>, an unfinished payload in
  \<open>msgBuf\<close>; the subject and the reply of the message are then copied out of the chunk.
\<close>

definition cloneMsgArg :: "parser \<Rightarrow> parser" where
  "cloneMsgArg p =
     (let s = length (subject (pma p));
          buf = subject (pma p) @ (case reply (pma p) of Some r \<Rightarrow> r | None \<Rightarrow> [])
      in p\<lparr>argBuf := Some (new_deno_buffer (Some buf)),
           pma := (pma p)\<lparr>subject := take s buf,
             reply := (case reply (pma p) of Some r \<Rightarrow> Some (drop s buf) | None \<Rightarrow> None)\<rparr>\<rparr>)"

definition end_of_chunk :: "bytes \<Rightarrow> nat \<Rightarrow> parser \<Rightarrow> parser" where
  "end_of_chunk buf i p =
     (let p1 = (if pstate p \<in> {MSG_ARG, MINUS_ERR_ARG, INFO_ARG} \<and> argBuf p = None
                then p\<lparr>argBuf := Some (new_deno_buffer (Some (subarray (pas p) (i - pdrop p) buf)))\<rparr>
                else p)
      in if pstate p1 = MSG_PAYLOAD \<and> msgBuf p1 = None
         then (let p2 = (if argBuf p1 = None then cloneMsgArg p1 else p1)
               in p2\<lparr>msgBuf := Some (new_deno_buffer (Some (drop (pas p2) buf)))\<rparr>)
         else p1)"

definition parse :: "bytes \<Rightarrow> parser \<Rightarrow> parser_event list \<times> (string + parser)" where
  "parse buf p =
     (case parse_loop buf 0 p of
        (evs, Inl e) \<Rightarrow> (evs, Inl e)
      | (evs, Inr (p', i)) \<Rightarrow> (evs, Inr (end_of_chunk buf i p')))"

text \<open>The reader of a connection: chunk after chunk, until the first throw.\<close>

fun feed :: "bytes list \<Rightarrow> parser \<Rightarrow> parser_event list \<times> (string + parser)" where
  "feed [] p = ([], Inr p)"
| "feed (c # cs) p =
     (case parse c p of
        (evs, Inl e) \<Rightarrow> (evs, Inl e)
      | (evs, Inr p') \<Rightarrow> (let (evs', r) = feed cs p' in (evs @ evs', r)))"

end
