(* ===== verification/Wire_Spec.thy ===== *)
theory Wire_Spec
  imports Wire_Parser
begin

text \<open>
  What the parser promises, independent of chunks: a machine that reads the connection one
  byte at a time and collects arguments and payloads in plain lists. The parser over any
  division of the stream into chunks refines it, as long as the stream is well formed: in
  an argument, a CR is only ever followed by the NL that ends the line. (Where it is not,
  the result of the source depends on where the chunks are cut.)
\<close>

section \<open>The fields of an argument line\<close>

abbreviation crlf :: bytes where "crlf \<equiv> [cc_CR, cc_NL]"

definition blank :: "byte \<Rightarrow> bool" where
  "blank b \<longleftrightarrow> b = cc_SPACE \<or> b = cc_TAB \<or> b = cc_CR \<or> b = cc_NL"

text \<open>\<open>arg_fields cur bs\<close>: the maximal runs of non-blank bytes of \<open>bs\<close>, \<open>cur\<close> being the run
  that is open at its start.\<close>

fun arg_fields :: "bytes \<Rightarrow> bytes \<Rightarrow> bytes list" where
  "arg_fields cur [] = (if cur = [] then [] else [cur])"
| "arg_fields cur (b # bs) =
     (if blank b then (if cur = [] then arg_fields [] bs else cur # arg_fields [] bs)
      else arg_fields (cur @ [b]) bs)"

definition spec_msg_arg :: "bool \<Rightarrow> bytes \<Rightarrow> msg_arg option" where
  "spec_msg_arg h line =
     (let ok = (\<lambda>ma. if 0 \<le> sid ma \<and> 0 \<le> size ma \<and> (h \<longrightarrow> 0 \<le> hdr ma \<and> hdr ma \<le> size ma)
                     then Some ma else None)
      in case (h, arg_fields [] line) of
           (False, [s, i, n]) \<Rightarrow>
             ok \<lparr>subject = s, reply = None, sid = protoParseInt i, hdr = -1, size = protoParseInt n\<rparr>
         | (False, [s, i, r, n]) \<Rightarrow>
             ok \<lparr>subject = s, reply = Some r, sid = protoParseInt i, hdr = -1, size = protoParseInt n\<rparr>
         | (True, [s, i, k, n]) \<Rightarrow>
             ok \<lparr>subject = s, reply = None, sid = protoParseInt i, hdr = protoParseInt k, size = protoParseInt n\<rparr>
         | (True, [s, i, r, k, n]) \<Rightarrow>
             ok \<lparr>subject = s, reply = Some r, sid = protoParseInt i, hdr = protoParseInt k, size = protoParseInt n\<rparr>
         | _ \<Rightarrow> None)"

text \<open>The loop of the code computes the fields.\<close>

lemma split_args_fields:
  assumes "i \<le> length arg" and "\<And>s. start = Some s \<Longrightarrow> s < i"
  shows "split_args arg i start args =
     args @ arg_fields (case start of Some s \<Rightarrow> subarray s i arg | None \<Rightarrow> []) (drop i arg)"
  using assms
proof (induction "length arg - i" arbitrary: i start args)
  case 0
  then have i: "i = length arg" by simp
  show ?case
    by (cases start) (simp_all add: i split_args.simps [of arg "length arg"] subarray_all, use 0 i in force)
next
  case (Suc k)
  then have i: "i < length arg" and d: "drop i arg = arg ! i # drop (Suc i) arg"
    by (simp_all add: Cons_nth_drop_Suc)
  have IH: "(\<And>s. st = Some s \<Longrightarrow> s < Suc i) \<Longrightarrow> split_args arg (Suc i) st as =
      as @ arg_fields (case st of Some s \<Rightarrow> subarray s (Suc i) arg | None \<Rightarrow> []) (drop (Suc i) arg)" for st as
    using Suc.hyps(2) i by (intro Suc.hyps(1)) auto
  show ?case
  proof (cases start)
    case None
    then show ?thesis using i d IH [of None] IH [of "Some i"]
      by (simp add: split_args.simps [of arg i None args] Let_def blank_def subarray_Suc)
  next
    case (Some s)
    then have s: "s < i" using Suc.prems by simp
    then have "subarray s i arg \<noteq> []" "subarray s (Suc i) arg = subarray s i arg @ [arg ! i]"
      using i by (auto simp: subarray_Suc simp flip: length_0_conv)
    with Some s i d IH [of None] IH [of "Some s"] show ?thesis
      by (simp add: split_args.simps [of arg i "Some s" args] Let_def blank_def)
  qed
qed

lemma split_args_line: "split_args arg 0 None [] = arg_fields [] arg"
  using split_args_fields [of 0 arg None "[]"] by simp

lemma case_three_four:
  "(\<And>a b c. xs \<noteq> [a, b, c]) \<Longrightarrow> (\<And>a b c d. xs \<noteq> [a, b, c, d]) \<Longrightarrow>
   (case xs of [a, b, c] \<Rightarrow> f a b c | [a, b, c, d] \<Rightarrow> g a b c d | _ \<Rightarrow> x) = x"
  by (auto split: list.split)

lemma case_four_five:
  "(\<And>a b c d. xs \<noteq> [a, b, c, d]) \<Longrightarrow> (\<And>a b c d e. xs \<noteq> [a, b, c, d, e]) \<Longrightarrow>
   (case xs of [a, b, c, d] \<Rightarrow> f a b c d | [a, b, c, d, e] \<Rightarrow> g a b c d e | _ \<Rightarrow> x) = x"
  by (auto split: list.split)

lemma spec_msg_arg_plain:
  "spec_msg_arg False line =
     (case arg_fields [] line of
        [s, i, n] \<Rightarrow> (if 0 \<le> protoParseInt i \<and> 0 \<le> protoParseInt n
          then Some \<lparr>subject = s, reply = None, sid = protoParseInt i, hdr = -1, size = protoParseInt n\<rparr> else None)
      | [s, i, r, n] \<Rightarrow> (if 0 \<le> protoParseInt i \<and> 0 \<le> protoParseInt n
          then Some \<lparr>subject = s, reply = Some r, sid = protoParseInt i, hdr = -1, size = protoParseInt n\<rparr> else None)
      | _ \<Rightarrow> None)"
  unfolding spec_msg_arg_def Let_def by (simp split: list.split)

lemma spec_msg_arg_header:
  "spec_msg_arg True line =
     (case arg_fields [] line of
        [s, i, k, n] \<Rightarrow> (if 0 \<le> protoParseInt i \<and> 0 \<le> protoParseInt n \<and> 0 \<le> protoParseInt k \<and> protoParseInt k \<le> protoParseInt n
          then Some \<lparr>subject = s, reply = None, sid = protoParseInt i, hdr = protoParseInt k, size = protoParseInt n\<rparr> else None)
      | [s, i, r, k, n] \<Rightarrow> (if 0 \<le> protoParseInt i \<and> 0 \<le> protoParseInt n \<and> 0 \<le> protoParseInt k \<and> protoParseInt k \<le> protoParseInt n
          then Some \<lparr>subject = s, reply = Some r, sid = protoParseInt i, hdr = protoParseInt k, size = protoParseInt n\<rparr> else None)
      | _ \<Rightarrow> None)"
  unfolding spec_msg_arg_def Let_def by (simp split: list.split)

lemma processMsgArgs_plain:
  assumes "pma p = newMsgArg" and "\<not> 0 \<le> phdr p"
  shows "processMsgArgs arg p = Inr p' \<longleftrightarrow>
    (\<exists>ma. spec_msg_arg False arg = Some ma \<and> p' = p\<lparr>pma := ma\<rparr>)"
proof -
  consider (three) s i n where "arg_fields [] arg = [s, i, n]" | (four) s i r n where "arg_fields [] arg = [s, i, r, n]"
    | (other) "\<And>s i n. arg_fields [] arg \<noteq> [s, i, n]" "\<And>s i r n. arg_fields [] arg \<noteq> [s, i, r, n]"
    by metis
  then show ?thesis
  proof cases
    case other
    show ?thesis using assms
      by (simp add: processMsgArgs_def spec_msg_arg_plain split_args_line Let_def case_three_four [OF other])
  qed (use assms in \<open>auto simp: processMsgArgs_def spec_msg_arg_plain split_args_line Let_def newMsgArg_def\<close>)
qed

lemma processMsgArgs_header:
  assumes "pma p = newMsgArg" and "0 \<le> phdr p"
  shows "processMsgArgs arg p = Inr p' \<longleftrightarrow>
    (\<exists>ma. spec_msg_arg True arg = Some ma \<and> p' = p\<lparr>pma := ma\<rparr>)"
proof -
  consider (four) s i k n where "arg_fields [] arg = [s, i, k, n]" | (five) s i r k n where "arg_fields [] arg = [s, i, r, k, n]"
    | (other) "\<And>s i k n. arg_fields [] arg \<noteq> [s, i, k, n]" "\<And>s i r k n. arg_fields [] arg \<noteq> [s, i, r, k, n]"
    by metis
  then show ?thesis
  proof cases
    case other
    show ?thesis using assms
      by (simp add: processMsgArgs_def processHeaderMsgArgs_def spec_msg_arg_header split_args_line Let_def
          case_four_five [OF other])
  qed (use assms in \<open>auto simp: processMsgArgs_def processHeaderMsgArgs_def spec_msg_arg_header
      split_args_line Let_def newMsgArg_def\<close>)
qed

lemma processMsgArgs_spec:
  assumes "pma p = newMsgArg" and "h = (0 \<le> phdr p)"
  shows "processMsgArgs arg p = Inr p' \<longleftrightarrow> (\<exists>ma. spec_msg_arg h arg = Some ma \<and> p' = p\<lparr>pma := ma\<rparr>)"
  using assms processMsgArgs_plain [of p arg p'] processMsgArgs_header [of p arg p'] by (cases h) auto

lemma spec_msg_arg_bounds:
  assumes "spec_msg_arg h line = Some ma"
  shows "0 \<le> sid ma \<and> 0 \<le> size ma \<and> (h \<longrightarrow> 0 \<le> hdr ma \<and> hdr ma \<le> size ma) \<and> (\<not> h \<longrightarrow> hdr ma = -1)"
proof (cases h)
  case True
  with assms show ?thesis by (auto simp: spec_msg_arg_header split: list.splits if_splits)
next
  case False
  with assms show ?thesis by (auto simp: spec_msg_arg_plain split: list.splits if_splits)
qed

section \<open>The machine\<close>

datatype line_kind = LMsg | LErr | LInfo

text \<open>\<open>h\<close> says whether the last message keyword was \<open>HMSG\<close>; \<open>cr\<close> that a CR is pending.\<close>

datatype spec_state =
    Op state bool
  | InArg line_kind bool bytes bool
  | InPayload bool msg_arg bytes
  | Failed
  | Malformed

definition keyword_table :: "(state \<times> char \<times> char \<times> state) list" where
  "keyword_table =
    [(OP_START, CHR ''M'', CHR ''m'', OP_M), (OP_START, CHR ''H'', CHR ''h'', OP_H),
     (OP_START, CHR ''P'', CHR ''p'', OP_P), (OP_START, CHR ''+'', CHR ''+'', OP_PLUS),
     (OP_START, CHR ''-'', CHR ''-'', OP_MINUS), (OP_START, CHR ''I'', CHR ''i'', OP_I),
     (OP_H, CHR ''M'', CHR ''m'', OP_M), (OP_M, CHR ''S'', CHR ''s'', OP_MS),
     (OP_MS, CHR ''G'', CHR ''g'', OP_MSG),
     (OP_PLUS, CHR ''O'', CHR ''o'', OP_PLUS_O), (OP_PLUS_O, CHR ''K'', CHR ''k'', OP_PLUS_OK),
     (OP_MINUS, CHR ''E'', CHR ''e'', OP_MINUS_E), (OP_MINUS_E, CHR ''R'', CHR ''r'', OP_MINUS_ER),
     (OP_MINUS_ER, CHR ''R'', CHR ''r'', OP_MINUS_ERR),
     (OP_P, CHR ''I'', CHR ''i'', OP_PI), (OP_P, CHR ''O'', CHR ''o'', OP_PO),
     (OP_PO, CHR ''N'', CHR ''n'', OP_PON), (OP_PON, CHR ''G'', CHR ''g'', OP_PONG),
     (OP_PI, CHR ''N'', CHR ''n'', OP_PIN), (OP_PIN, CHR ''G'', CHR ''g'', OP_PING),
     (OP_I, CHR ''N'', CHR ''n'', OP_IN), (OP_IN, CHR ''F'', CHR ''f'', OP_INF),
     (OP_INF, CHR ''O'', CHR ''o'', OP_INFO)]"

definition keyword :: "state \<Rightarrow> byte \<Rightarrow> state option" where
  "keyword s b =
     map_option (\<lambda>(_, _, _, t). t) (List.find (\<lambda>(s', u, l, _). s = s' \<and> (b = cc u \<or> b = cc l)) keyword_table)"

text \<open>The states that skip blanks before an argument, with the state before the first blank.\<close>

fun before_blanks :: "state \<Rightarrow> state option" where
  "before_blanks OP_MSG = Some OP_MSG_SPC"
| "before_blanks OP_MINUS_ERR = Some OP_MINUS_ERR_SPC"
| "before_blanks OP_INFO = Some OP_INFO_SPC"
| "before_blanks _ = None"

fun in_blanks :: "state \<Rightarrow> line_kind option" where
  "in_blanks OP_MSG_SPC = Some LMsg"
| "in_blanks OP_MINUS_ERR_SPC = Some LErr"
| "in_blanks OP_INFO_SPC = Some LInfo"
| "in_blanks _ = None"

fun line_end :: "state \<Rightarrow> parser_event list option" where
  "line_end OP_PLUS_OK = Some [EvOk]"
| "line_end OP_PONG = Some [EvPong]"
| "line_end OP_PING = Some [EvPing]"
| "line_end MSG_END = Some []"
| "line_end _ = None"

definition header_flag :: "state \<Rightarrow> byte \<Rightarrow> bool \<Rightarrow> bool" where
  "header_flag s b h =
     (if s = OP_START \<and> is_letter b CHR ''M'' CHR ''m'' then False
      else if s = OP_START \<and> is_letter b CHR ''H'' CHR ''h'' then True else h)"

fun spec_step :: "spec_state \<Rightarrow> byte \<Rightarrow> parser_event list \<times> spec_state" where
  "spec_step (Op s h) b =
     (case line_end s of
        Some evs \<Rightarrow> if b = cc_NL then (evs, Op OP_START h) else ([], Op s h)
      | None \<Rightarrow>
     (case in_blanks s of
        Some k \<Rightarrow> if b = cc_SPACE \<or> b = cc_TAB then ([], Op s h) else ([], InArg k h [b] False)
      | None \<Rightarrow>
     (case before_blanks s of
        Some t \<Rightarrow> if b = cc_SPACE \<or> b = cc_TAB then ([], Op t h) else ([], Failed)
      | None \<Rightarrow>
     (case keyword s b of
        Some t \<Rightarrow> ([], Op t (header_flag s b h))
      | None \<Rightarrow> ([], Failed)))))"
| "spec_step (InArg k h acc cr) b =
     (if b = cc_CR then ([], if cr then Malformed else InArg k h acc True)
      else if b = cc_NL then
        (case k of
           LErr \<Rightarrow> ([EvErr acc], Op OP_START h)
         | LInfo \<Rightarrow> ([EvInfo acc], Op OP_START h)
         | LMsg \<Rightarrow> (case spec_msg_arg h acc of
               Some ma \<Rightarrow> ([], InPayload h ma [])
             | None \<Rightarrow> ([], Failed)))
      else ([], if cr then Malformed else InArg k h (acc @ [b]) False))"
| "spec_step (InPayload h ma acc) b =
     (if int (length acc) \<ge> size ma then ([EvMsg ma acc], Op MSG_END h)
      else ([], InPayload h ma (acc @ [b])))"
| "spec_step Failed b = ([], Failed)"
| "spec_step Malformed b = ([], Malformed)"

fun spec_run :: "spec_state \<Rightarrow> bytes \<Rightarrow> parser_event list \<times> spec_state" where
  "spec_run a [] = ([], a)"
| "spec_run a (b # bs) =
     (case spec_step a b of (evs, a') \<Rightarrow> (case spec_run a' bs of (evs', a'') \<Rightarrow> (evs @ evs', a'')))"

definition spec_start :: spec_state where
  "spec_start = Op OP_START True"

definition well_formed :: "bytes \<Rightarrow> bool" where
  "well_formed bs \<longleftrightarrow> snd (spec_run spec_start bs) \<noteq> Malformed"

lemma spec_run_append:
  "spec_run a (xs @ ys) =
     (case spec_run a xs of (evs, a') \<Rightarrow> (case spec_run a' ys of (evs', a'') \<Rightarrow> (evs @ evs', a'')))"
  by (induction xs arbitrary: a) (simp_all split: prod.split)

lemma spec_run_stuck [simp]:
  "spec_run Failed bs = ([], Failed)" "spec_run Malformed bs = ([], Malformed)"
  by (induction bs) simp_all

lemma spec_run_payload:
  "int (length acc + length xs) \<le> size ma \<Longrightarrow> spec_run (InPayload h ma acc) xs = ([], InPayload h ma (acc @ xs))"
  by (induction xs arbitrary: acc) simp_all

section \<open>The parser refines the machine\<close>

fun line_state :: "line_kind \<Rightarrow> state" where
  "line_state LMsg = MSG_ARG"
| "line_state LErr = MINUS_ERR_ARG"
| "line_state LInfo = INFO_ARG"

fun collecting :: "state \<Rightarrow> bool" where
  "collecting MSG_ARG = True"
| "collecting MINUS_ERR_ARG = True"
| "collecting INFO_ARG = True"
| "collecting _ = False"

fun fresh_arg :: "state \<Rightarrow> bool" where
  "fresh_arg OP_H = True"
| "fresh_arg OP_M = True"
| "fresh_arg OP_MS = True"
| "fresh_arg OP_MSG = True"
| "fresh_arg OP_MSG_SPC = True"
| "fresh_arg _ = False"

text \<open>
  \<open>related buf i p a\<close>: with the first \<open>i\<close> bytes of the chunk read, the parser is in the
  machine's state. What is being collected is in a buffer when it began in an earlier
  chunk, and otherwise the window of the chunk that starts at \<open>pas\<close>.
\<close>

definition arg_so_far :: "bytes \<Rightarrow> nat \<Rightarrow> parser \<Rightarrow> bytes \<Rightarrow> bool" where
  "arg_so_far buf i p acc = (case argBuf p of
      Some ab \<Rightarrow> write_only ab \<and> db_bytes ab = acc
    | None \<Rightarrow> pas p + pdrop p \<le> i \<and> i \<le> length buf \<and> acc = subarray (pas p) (i - pdrop p) buf)"

definition payload_so_far :: "bytes \<Rightarrow> nat \<Rightarrow> parser \<Rightarrow> bytes \<Rightarrow> bool" where
  "payload_so_far buf i p acc = (case msgBuf p of
      Some mb \<Rightarrow> write_only mb \<and> db_bytes mb = acc
    | None \<Rightarrow> pas p \<le> i \<and> i \<le> length buf \<and> acc = subarray (pas p) i buf
        \<and> (i < length buf \<longrightarrow> int (length acc) = size (pma p)))"

fun related :: "bytes \<Rightarrow> nat \<Rightarrow> parser \<Rightarrow> spec_state \<Rightarrow> bool" where
  "related buf i p (Op s h) \<longleftrightarrow>
     pstate p = s \<and> argBuf p = None \<and> msgBuf p = None \<and> pdrop p = 0 \<and> h = (0 \<le> phdr p)
     \<and> \<not> collecting s \<and> s \<noteq> MSG_PAYLOAD \<and> (fresh_arg s \<longrightarrow> pma p = newMsgArg)"
| "related buf i p (InArg k h acc cr) \<longleftrightarrow>
     pstate p = line_state k \<and> msgBuf p = None \<and> pdrop p = (if cr then 1 else 0) \<and> h = (0 \<le> phdr p)
     \<and> (k = LMsg \<longrightarrow> pma p = newMsgArg) \<and> arg_so_far buf i p acc"
| "related buf i p (InPayload h ma acc) \<longleftrightarrow>
     pstate p = MSG_PAYLOAD \<and> pma p = ma \<and> pdrop p = 0 \<and> h = (0 \<le> phdr p) \<and> 0 \<le> size ma
     \<and> int (length acc) \<le> size ma \<and> payload_so_far buf i p acc"
| "related buf i p Failed \<longleftrightarrow> False"
| "related buf i p Malformed \<longleftrightarrow> False"

fun held :: "spec_state \<Rightarrow> bytes" where
  "held (InArg k h acc cr) = acc"
| "held (InPayload h ma acc) = acc"
| "held _ = []"

text \<open>
  One turn: the parser may read one byte or run ahead to index \<open>j\<close>; the machine reads the
  same bytes, and both fail or both go on, with the same events.
\<close>

definition turn_refines :: "bytes \<Rightarrow> nat \<Rightarrow> turn \<Rightarrow> spec_state \<Rightarrow> bool" where
  "turn_refines buf i t a \<longleftrightarrow>
     (\<exists>j evs a'. i < j \<and> spec_run a (subarray i (min j (length buf)) buf) = (evs, a')
        \<and> (a' = Malformed
           \<or> a' = Failed \<and> (\<exists>e. t = (evs, Inl e))
           \<or> (\<exists>p'. t = (evs, Inr (p', j - 1)) \<and> related buf (min j (length buf)) p' a'
                \<and> (collecting (pstate p') \<longrightarrow> j \<le> length buf))))"

lemma one_byte: "i < length buf \<Longrightarrow> subarray i (min (Suc i) (length buf)) buf = [buf ! i]"
  using subarray_Suc [of i i buf] by (simp add: min_absorb1)

lemma one_byte_window: "i < length buf \<Longrightarrow> subarray i (Suc i) buf = [buf ! i]"
  using subarray_Suc [of i i buf] by simp

lemma refines_one:
  assumes "i < length buf" and "spec_step a (buf ! i) = (evs, a')"
    and "t = (evs, Inr (p', i))" and "a' \<noteq> Malformed \<Longrightarrow> related buf (Suc i) p' a'"
  shows "turn_refines buf i t a"
  unfolding turn_refines_def
  by (rule exI [of _ "Suc i"]) (use assms in \<open>auto simp: one_byte_window min_absorb1\<close>)

lemma refines_fail:
  assumes "i < length buf" and "spec_step a (buf ! i) = (evs, Failed)" and "t = (evs, Inl e)"
  shows "turn_refines buf i t a"
  unfolding turn_refines_def
  by (rule exI [of _ "Suc i"]) (use assms in \<open>auto simp: one_byte_window min_absorb1\<close>)

lemma keyword_simps [simp]:
  "keyword OP_START b =
     (if is_letter b CHR ''M'' CHR ''m'' then Some OP_M else if is_letter b CHR ''H'' CHR ''h'' then Some OP_H
      else if is_letter b CHR ''P'' CHR ''p'' then Some OP_P else if b = cc CHR ''+'' then Some OP_PLUS
      else if b = cc CHR ''-'' then Some OP_MINUS else if is_letter b CHR ''I'' CHR ''i'' then Some OP_I else None)"
  "keyword OP_H b = (if is_letter b CHR ''M'' CHR ''m'' then Some OP_M else None)"
  "keyword OP_M b = (if is_letter b CHR ''S'' CHR ''s'' then Some OP_MS else None)"
  "keyword OP_MS b = (if is_letter b CHR ''G'' CHR ''g'' then Some OP_MSG else None)"
  "keyword OP_PLUS b = (if is_letter b CHR ''O'' CHR ''o'' then Some OP_PLUS_O else None)"
  "keyword OP_PLUS_O b = (if is_letter b CHR ''K'' CHR ''k'' then Some OP_PLUS_OK else None)"
  "keyword OP_MINUS b = (if is_letter b CHR ''E'' CHR ''e'' then Some OP_MINUS_E else None)"
  "keyword OP_MINUS_E b = (if is_letter b CHR ''R'' CHR ''r'' then Some OP_MINUS_ER else None)"
  "keyword OP_MINUS_ER b = (if is_letter b CHR ''R'' CHR ''r'' then Some OP_MINUS_ERR else None)"
  "keyword OP_P b = (if is_letter b CHR ''I'' CHR ''i'' then Some OP_PI
     else if is_letter b CHR ''O'' CHR ''o'' then Some OP_PO else None)"
  "keyword OP_PO b = (if is_letter b CHR ''N'' CHR ''n'' then Some OP_PON else None)"
  "keyword OP_PON b = (if is_letter b CHR ''G'' CHR ''g'' then Some OP_PONG else None)"
  "keyword OP_PI b = (if is_letter b CHR ''N'' CHR ''n'' then Some OP_PIN else None)"
  "keyword OP_PIN b = (if is_letter b CHR ''G'' CHR ''g'' then Some OP_PING else None)"
  "keyword OP_I b = (if is_letter b CHR ''N'' CHR ''n'' then Some OP_IN else None)"
  "keyword OP_IN b = (if is_letter b CHR ''F'' CHR ''f'' then Some OP_INF else None)"
  "keyword OP_INF b = (if is_letter b CHR ''O'' CHR ''o'' then Some OP_INFO else None)"
  by (simp_all add: keyword_def keyword_table_def)

text \<open>The outcome of a turn on a keyword state, as a function of the machine's step.\<close>

definition op_outcome :: "bytes \<Rightarrow> nat \<Rightarrow> parser \<Rightarrow> turn \<Rightarrow> parser_event list \<times> spec_state \<Rightarrow> bool" where
  "op_outcome buf i p t st =
     (case st of (evs, a') \<Rightarrow>
        if a' = Failed then \<exists>e. t = (evs, Inl e)
        else \<exists>p'. t = (evs, Inr (p', i)) \<and> related buf (Suc i) p' a')"

lemma op_outcome_goto [simp]:
  "op_outcome buf i p (goto s q i) (evs, Op t h) \<longleftrightarrow> evs = [] \<and> related buf (Suc i) (q\<lparr>pstate := s\<rparr>) (Op t h)"
  "op_outcome buf i p (bad q buf i) (evs, Failed) \<longleftrightarrow> evs = []"
  by (auto simp: op_outcome_def goto_def bad_def)

lemma op_outcome_stay [simp]:
  "op_outcome buf i p (evs', Inr (q, i)) (evs, Op t h) \<longleftrightarrow> evs' = evs \<and> related buf (Suc i) q (Op t h)"
  "op_outcome buf i p (evs', Inr (q, i)) (evs, InArg k h acc cr) \<longleftrightarrow>
     evs' = evs \<and> related buf (Suc i) q (InArg k h acc cr)"
  by (auto simp: op_outcome_def)

lemma op_outcome_if:
  "op_outcome buf i p (if c then t else t') (if c then st else st') =
     (if c then op_outcome buf i p t st else op_outcome buf i p t' st')"
  by simp

lemma keyword_turn_outcome:
  assumes rel: "related buf i p (Op s h)" and i: "i < length buf"
  shows "op_outcome buf i p (parse_turn buf i p) (spec_step (Op s h) (buf ! i))"
proof (cases s)
  case OP_START
  then show ?thesis using rel by (simp add: parse_turn_def turn_start_def header_flag_def Let_def)
next
  case OP_H
  then show ?thesis using rel by (simp add: parse_turn_def turn_op_msg_def header_flag_def Let_def)
qed (use rel i in \<open>simp_all add: parse_turn_def Let_def turn_op_msg_def turn_plus_def turn_minus_def
    turn_p_def turn_info_def turn_msg_end_def end_of_line_def header_flag_def arg_so_far_def one_byte_window\<close>)

lemma keyword_turn:
  assumes rel: "related buf i p (Op s h)" and i: "i < length buf"
  shows "turn_refines buf i (parse_turn buf i p) (Op s h)"
proof -
  obtain evs a' where step: "spec_step (Op s h) (buf ! i) = (evs, a')" by fastforce
  with keyword_turn_outcome [OF rel i] show ?thesis
    using refines_one [OF i step] refines_fail [OF i] step
    by (auto simp: op_outcome_def split: if_splits)
qed

text \<open>Collecting an argument line.\<close>

lemma arg_so_far_step:
  assumes "arg_so_far buf i p acc" and "pdrop p = 0" and "i < length buf"
    and "2 * (length acc + 1) \<le> MAX_SIZE"
  shows "\<exists>p'. keep_arg_byte (buf ! i) p i = ([], Inr (p', i)) \<and> arg_so_far buf (Suc i) p' (acc @ [buf ! i])
    \<and> pstate p' = pstate p \<and> msgBuf p' = msgBuf p \<and> pdrop p' = pdrop p \<and> phdr p' = phdr p \<and> pma p' = pma p"
proof (cases "argBuf p")
  case None
  with assms show ?thesis by (auto simp: arg_so_far_def keep_arg_byte_def subarray_Suc)
next
  case (Some ab)
  then have "write_only ab" "db_bytes ab = acc" using assms by (auto simp: arg_so_far_def)
  with assms obtain ab' where "db_write [buf ! i] ab = Inr (1, ab')" "write_only ab'"
      "db_bytes ab' = acc @ [buf ! i]"
    using write_only_write [of ab "[buf ! i]"] by auto
  with Some show ?thesis by (simp add: keep_arg_byte_def arg_so_far_def db_write_byte_def)
qed

lemma arg_so_far_cr:
  "arg_so_far buf i p acc \<Longrightarrow> pdrop p = 0 \<Longrightarrow> i < length buf \<Longrightarrow> arg_so_far buf (Suc i) (p\<lparr>pdrop := 1\<rparr>) acc"
  by (auto simp: arg_so_far_def split: option.splits)

lemma arg_so_far_value:
  "arg_so_far buf i p acc \<Longrightarrow>
   (case argBuf p of Some ab \<Rightarrow> db_bytes ab | None \<Rightarrow> subarray (pas p) (i - pdrop p) buf) = acc"
  by (auto simp: arg_so_far_def split: option.splits)

lemma line_turn_eq:
  "related buf i p (InArg k h acc cr) \<Longrightarrow>
   parse_turn buf i p = (case k of LMsg \<Rightarrow> turn_msg_arg buf i (buf ! i) p
     | LErr \<Rightarrow> turn_line_arg EvErr buf i (buf ! i) p | LInfo \<Rightarrow> turn_line_arg EvInfo buf i (buf ! i) p)"
  by (cases k) (simp_all add: parse_turn_def Let_def turn_minus_def turn_info_def)

text \<open>The end of an argument line: an event, or the jump over the payload.\<close>

lemma window_Cons:
  "i < j \<Longrightarrow> j \<le> length buf \<Longrightarrow> subarray i j buf = buf ! i # subarray (Suc i) j buf"
  using subarray_append_step [of i "Suc i" j buf] one_byte_window [of i buf] by simp

lemma line_end_turn:
  assumes rel: "related buf i p (InArg k h acc cr)" and i: "i < length buf" and nl: "buf ! i = cc_NL"
    and k: "(k = LErr \<and> ev = EvErr) \<or> (k = LInfo \<and> ev = EvInfo)"
  shows "turn_refines buf i (parse_turn buf i p) (InArg k h acc cr)"
proof -
  let ?p' = "p\<lparr>argBuf := None, pdrop := 0, pas := i + 1, pstate := OP_START\<rparr>"
  have "arg_so_far buf i p acc" using rel by simp
  from arg_so_far_value [OF this]
  have turn: "parse_turn buf i p = ([ev acc], Inr (?p', i))"
    using line_turn_eq [OF rel] k nl
    by (cases "argBuf p") (auto simp: turn_line_arg_def Let_def intro!: parser.equality)
  have step: "spec_step (InArg k h acc cr) (buf ! i) = ([ev acc], Op OP_START h)"
    using nl k by auto
  have "related buf (Suc i) ?p' (Op OP_START h)"
    using rel by simp
  then show ?thesis by (rule refines_one [OF i step turn])
qed

lemma msg_line_end_turn:
  assumes rel: "related buf i p (InArg LMsg h acc cr)" and i: "i < length buf" and nl: "buf ! i = cc_NL"
  shows "turn_refines buf i (parse_turn buf i p) (InArg LMsg h acc cr)"
proof -
  have fresh: "pma p = newMsgArg" and h: "h = (0 \<le> phdr p)" and "arg_so_far buf i p acc"
    using rel by auto
  from arg_so_far_value [OF this(3)]
  have turn: "parse_turn buf i p =
      (case processMsgArgs acc p of
         Inl e \<Rightarrow> ([], Inl e)
       | Inr p' \<Rightarrow> ([], Inr (p'\<lparr>pdrop := 0, pas := i + 1, pstate := MSG_PAYLOAD\<rparr>,
                            nat (int (i + 1) + size (pma p') - 1))))"
    using line_turn_eq [OF rel] nl by (auto simp: turn_msg_arg_def Let_def)
  show ?thesis
  proof (cases "spec_msg_arg h acc")
    case None
    then obtain e where "processMsgArgs acc p = Inl e"
      using processMsgArgs_spec [OF fresh h, of acc] by (cases "processMsgArgs acc p") auto
    with None nl turn show ?thesis by (intro refines_fail [OF i]) auto
  next
    case (Some ma)
    note b = spec_msg_arg_bounds [OF Some]
    let ?p' = "p\<lparr>pma := ma, pdrop := 0, pas := i + 1, pstate := MSG_PAYLOAD\<rparr>"
    let ?j = "Suc (i + nat (size ma))"
    let ?m = "min ?j (length buf)"
    have "parse_turn buf i p = ([], Inr (?p', ?j - 1))"
      using turn Some processMsgArgs_spec [OF fresh h, of acc "p\<lparr>pma := ma\<rparr>"] b
      by (simp add: nat_add_distrib)
    moreover have run: "spec_run (InArg LMsg h acc cr) (subarray i ?m buf) = ([], InPayload h ma (subarray (Suc i) ?m buf))"
    proof -
      have "subarray i ?m buf = cc_NL # subarray (Suc i) ?m buf"
        using i nl window_Cons [of i ?m buf] by simp
      moreover have "int (length (subarray (Suc i) ?m buf)) \<le> size ma"
        using b by (auto simp: min_def)
      then have "spec_run (InPayload h ma []) (subarray (Suc i) ?m buf) = ([], InPayload h ma (subarray (Suc i) ?m buf))"
        using spec_run_payload [of "[]" "subarray (Suc i) ?m buf" ma h] by (simp del: length_subarray)
      ultimately show ?thesis using Some by simp
    qed
    moreover have "related buf ?m ?p' (InPayload h ma (subarray (Suc i) ?m buf))"
      using rel i b by (auto simp: payload_so_far_def)
    ultimately show ?thesis
      unfolding turn_refines_def by (intro exI [of _ ?j] exI conjI) auto
  qed
qed

lemma arg_turn:
  assumes rel: "related buf i p (InArg k h acc cr)" and i: "i < length buf"
    and room: "2 * (length acc + 1) \<le> MAX_SIZE"
  shows "turn_refines buf i (parse_turn buf i p) (InArg k h acc cr)"
proof -
  let ?b = "buf ! i"
  have arg: "arg_so_far buf i p acc" using rel by simp
  note val = arg_so_far_value [OF arg]
  consider (cr) "?b = cc_CR" | (nl) "?b = cc_NL" | (byte) "?b \<noteq> cc_CR" "?b \<noteq> cc_NL" by blast
  then show ?thesis
  proof cases
    case cr
    have "parse_turn buf i p = ([], Inr (p\<lparr>pdrop := 1\<rparr>, i))"
      using line_turn_eq [OF rel] cr by (auto simp: turn_msg_arg_def turn_line_arg_def split: line_kind.split)
    moreover have "spec_step (InArg k h acc cr) ?b = ([], if cr then Malformed else InArg k h acc True)"
      using cr by simp
    moreover have "\<not> cr \<Longrightarrow> related buf (Suc i) (p\<lparr>pdrop := 1\<rparr>) (InArg k h acc True)"
      using rel arg_so_far_cr [OF arg _ i] by auto
    ultimately show ?thesis by (intro refines_one [OF i]) (auto split: if_splits)
  next
    case byte
    then have turn: "parse_turn buf i p = keep_arg_byte ?b p i"
      using line_turn_eq [OF rel] by (auto simp: turn_msg_arg_def turn_line_arg_def split: line_kind.split)
    have step: "spec_step (InArg k h acc cr) ?b = ([], if cr then Malformed else InArg k h (acc @ [?b]) False)"
      using byte by simp
    show ?thesis
    proof (cases cr)
      case True
      then have "spec_run (InArg k h acc cr) (subarray i (min (Suc i) (length buf)) buf) = ([], Malformed)"
        using step i by (simp add: one_byte_window min_absorb1 byte)
      then show ?thesis unfolding turn_refines_def by blast
    next
      case False
      obtain p' where "keep_arg_byte ?b p i = ([], Inr (p', i))" and "related buf (Suc i) p' (InArg k h (acc @ [?b]) False)"
        using arg_so_far_step [OF arg _ i room] rel False by auto
      with turn step False show ?thesis by (intro refines_one [OF i step]) auto
    qed
  next
    case nl
    with line_end_turn [OF rel i] msg_line_end_turn [OF _ i] rel show ?thesis by (cases k) blast+
  qed
qed

text \<open>The payload: handed over once a byte after it is seen, otherwise copied as far as it goes.\<close>

lemma payload_turn:
  assumes rel: "related buf i p (InPayload h ma acc)" and i: "i < length buf"
    and room: "2 * (length acc + (length buf - i)) \<le> MAX_SIZE"
  shows "turn_refines buf i (parse_turn buf i p) (InPayload h ma acc)"
proof -
  let ?b = "buf ! i"
  have st: "pstate p = MSG_PAYLOAD" and ma: "pma p = ma" and pay: "payload_so_far buf i p acc" and sz: "0 \<le> size ma"
    and le: "int (length acc) \<le> size ma"
    using rel by auto
  have turn: "parse_turn buf i p = turn_msg_payload buf i ?b p"
    using st by (simp add: parse_turn_def Let_def)
  show ?thesis
  proof (cases "int (length acc) \<ge> size ma")
    case True
    have "parse_turn buf i p = push_msg acc p i"
      using turn True pay i ma by (auto simp: turn_msg_payload_def payload_so_far_def db_length_eq write_only_def
          split: option.splits)
    moreover have "related buf (Suc i) (p\<lparr>argBuf := None, msgBuf := None, pstate := MSG_END\<rparr>) (Op MSG_END h)"
      using rel by simp
    ultimately show ?thesis
      using True ma by (intro refines_one [OF i]) (auto simp: push_msg_def)
  next
    case False
    then obtain mb where mb: "msgBuf p = Some mb" "write_only mb" "db_bytes mb = acc"
      using pay i ma by (auto simp: payload_so_far_def split: option.splits)
    have len: "db_length mb = length acc" using mb by (auto simp: db_length_eq write_only_def)
    define k where "k = min (nat (size ma) - length acc) (length buf - i)"
    have k: "0 < k" "i + k \<le> length buf" "int (length acc + k) \<le> size ma"
      using False i by (auto simp: k_def)
    have tc: "nat (if int (length buf) - int i < size ma - int (length acc) then int (length buf) - int i
        else size ma - int (length acc)) = k"
      using False i by (auto simp: k_def min_def)
    let ?xs = "subarray i (i + k) buf"
    have lxs: "length ?xs = k" using k by simp
    have "2 * (length (db_bytes mb) + length ?xs) \<le> MAX_SIZE"
    proof -
      have "k \<le> length buf - i" using k(2) by linarith
      then have "2 * (length acc + k) \<le> 2 * (length acc + (length buf - i))" by simp
      with room show ?thesis unfolding mb(3) lxs by (rule order_trans [rotated])
    qed
    with write_only_write [OF mb(2)] lxs obtain mb' where
      w: "db_write ?xs mb = Inr (k, mb')" "write_only mb'" "db_bytes mb' = acc @ ?xs"
      using mb(3) by metis
    have "parse_turn buf i p = ([], Inr (p\<lparr>msgBuf := Some mb'\<rparr>, i + k - 1))"
      using turn mb len ma False w(1) k(1) tc i
      by (auto simp: turn_msg_payload_def Let_def split: if_splits)
    moreover have "spec_run (InPayload h ma acc) ?xs = ([], InPayload h ma (acc @ ?xs))"
      using spec_run_payload [of acc ?xs ma h] k(3) lxs by simp
    moreover have "related buf (i + k) (p\<lparr>msgBuf := Some mb'\<rparr>) (InPayload h ma (acc @ ?xs))"
      using rel w k(3) lxs by (auto simp: payload_so_far_def)
    ultimately show ?thesis
      unfolding turn_refines_def
      by (intro exI [of _ "i + k"] exI conjI) (use k in \<open>auto simp: min_absorb1\<close>)
  qed
qed

section \<open>Chunks and streams\<close>

text \<open>Bytes held plus bytes still to come stay below half the buffer's maximum size.\<close>

definition fits :: "spec_state \<Rightarrow> nat \<Rightarrow> bool" where
  "fits a n \<longleftrightarrow> 2 * (length (held a) + n) \<le> MAX_SIZE"

lemma spec_step_held: "spec_step a b = (evs, a') \<Longrightarrow> length (held a') \<le> Suc (length (held a))"
  by (cases "(a, b)" rule: spec_step.cases)
    (auto split: if_splits option.splits line_kind.splits)

lemma spec_run_held: "spec_run a bs = (evs, a') \<Longrightarrow> length (held a') \<le> length (held a) + length bs"
  by (induction bs arbitrary: a evs) (fastforce dest: spec_step_held split: prod.splits)+

lemma turn_sim:
  assumes "related buf i p a" and "i < length buf" and "fits a (length buf - i)"
  shows "turn_refines buf i (parse_turn buf i p) a"
proof (cases a)
  case (InArg k h acc cr)
  with assms show ?thesis by (intro arg_turn [of _ _ _ k h acc cr, folded InArg]) (auto simp: fits_def)
qed (use assms keyword_turn payload_turn in \<open>auto simp: fits_def\<close>)

text \<open>The loop of a chunk does what the machine does on the rest of the chunk.\<close>

definition loop_refines :: "bytes \<Rightarrow> turn \<Rightarrow> parser_event list \<times> spec_state \<Rightarrow> bool" where
  "loop_refines buf t st \<longleftrightarrow>
     (case st of (evs, a') \<Rightarrow>
        a' = Malformed \<or> a' = Failed \<and> (\<exists>e. t = (evs, Inl e))
        \<or> (\<exists>p' j. t = (evs, Inr (p', j)) \<and> related buf (length buf) p' a'
             \<and> (collecting (pstate p') \<longrightarrow> j = length buf)))"

lemma loop_sim:
  assumes "related buf i p a" and "i \<le> length buf" and "fits a (length buf - i)"
  shows "loop_refines buf (parse_loop buf i p) (spec_run a (drop i buf))"
  using assms
proof (induction "length buf - i" arbitrary: i p a rule: less_induct)
  case less
  show ?case
  proof (cases "i < length buf")
    case False
    with less.prems(2) have "i = length buf" by simp
    with less.prems(1) show ?thesis by (auto simp: loop_refines_def parse_loop.simps [of buf "length buf" p])
  next
    case True
    obtain j evs a' where j: "i < j" and run: "spec_run a (subarray i (min j (length buf)) buf) = (evs, a')"
      and out: "a' = Malformed \<or> a' = Failed \<and> (\<exists>e. parse_turn buf i p = (evs, Inl e))
        \<or> (\<exists>p'. parse_turn buf i p = (evs, Inr (p', j - 1)) \<and> related buf (min j (length buf)) p' a'
             \<and> (collecting (pstate p') \<longrightarrow> j \<le> length buf))"
      using turn_sim [OF less.prems(1) True less.prems(3)] unfolding turn_refines_def by blast
    let ?m = "min j (length buf)"
    have split: "drop i buf = subarray i ?m buf @ drop ?m buf"
      using subarray_append_step [of i ?m "length buf" buf] j True by (simp add: subarray_all)
    have rest: "spec_run a (drop i buf) = (case spec_run a' (drop ?m buf) of (evs', a'') \<Rightarrow> (evs @ evs', a''))"
      unfolding split spec_run_append run by simp
    from out consider (malformed) "a' = Malformed"
      | (failed) e where "a' = Failed" "parse_turn buf i p = (evs, Inl e)"
      | (on) p' where "parse_turn buf i p = (evs, Inr (p', j - 1))" "related buf ?m p' a'"
          "collecting (pstate p') \<longrightarrow> j \<le> length buf"
      by blast
    then show ?thesis
    proof cases
      case malformed
      with rest show ?thesis by (simp add: loop_refines_def)
    next
      case failed
      with rest True show ?thesis by (simp add: loop_refines_def parse_loop.simps [of buf i p])
    next
      case on
      have step: "parse_loop buf i p = (let (evs', r) = parse_loop buf j p' in (evs @ evs', r))"
        using True on(1) j by (simp add: parse_loop.simps [of buf i p])
      show ?thesis
      proof (cases "j < length buf")
        case more: True
        have "fits a' (length buf - j)"
          using spec_run_held [OF run] less.prems(3) j more True by (auto simp: fits_def)
        then have "loop_refines buf (parse_loop buf j p') (spec_run a' (drop j buf))"
          using less.hyps [of j p' a'] on(2) j more True by simp
        with rest step more show ?thesis
          by (auto simp: loop_refines_def split: prod.splits)
      next
        case False
        with on rest step show ?thesis
          by (auto simp: loop_refines_def parse_loop.simps [of buf j p'])
      qed
    qed
  qed
qed

text \<open>The end of a chunk moves what is unfinished into the buffers, for any next chunk.\<close>

lemma end_of_chunk_related:
  assumes rel: "related buf (length buf) p a" and j: "collecting (pstate p) \<Longrightarrow> j = length buf"
    and fit: "fits a 0"
  shows "related buf' 0 (end_of_chunk buf j p) a"
proof (cases a)
  case (Op s h)
  with rel have "end_of_chunk buf j p = p" by (auto simp: end_of_chunk_def)
  with rel Op show ?thesis by simp
next
  case (InArg k h acc cr)
  with j rel have j: "j = length buf" by (cases k) auto
  from rel InArg fit show ?thesis
    by (cases k; cases "argBuf p")
      (auto simp: end_of_chunk_def arg_so_far_def j fits_def intro!: write_only_new)
next
  case (InPayload h ma acc)
  with rel fit show ?thesis
    by (cases "msgBuf p"; cases "argBuf p"; cases "reply ma")
      (auto simp: end_of_chunk_def payload_so_far_def cloneMsgArg_def Let_def fits_def subarray_all intro!: write_only_new)
qed (use rel in auto)

text \<open>Between two chunks nothing depends on the chunk that was read.\<close>

definition at_rest :: "parser \<Rightarrow> spec_state \<Rightarrow> bool" where
  "at_rest p a \<longleftrightarrow> (\<forall>buf. related buf 0 p a)"

definition feed_refines :: "parser_event list \<times> (string + parser) \<Rightarrow> parser_event list \<times> spec_state \<Rightarrow> bool" where
  "feed_refines f st \<longleftrightarrow>
     (case st of (evs, a') \<Rightarrow>
        a' = Malformed \<or> a' = Failed \<and> (\<exists>e. f = (evs, Inl e))
        \<or> (\<exists>p'. f = (evs, Inr p') \<and> at_rest p' a'))"

lemma at_rest_start: "at_rest new_parser spec_start"
  by (simp add: at_rest_def new_parser_def spec_start_def)

lemma parse_sim:
  assumes "at_rest p a" and "fits a (length buf)"
  shows "feed_refines (parse buf p) (spec_run a buf)"
proof -
  obtain evs a' where run: "spec_run a buf = (evs, a')" by fastforce
  have "fits a' 0" using spec_run_held [OF run] assms(2) by (auto simp: fits_def)
  then show ?thesis
    using loop_sim [of buf 0 p a] assms run end_of_chunk_related [of buf _ a' _]
    by (fastforce simp: loop_refines_def feed_refines_def parse_def at_rest_def)
qed

lemma feed_sim:
  assumes "at_rest p a" and "fits a (length (concat cs))"
  shows "feed_refines (feed cs p) (spec_run a (concat cs))"
  using assms
proof (induction cs arbitrary: p a)
  case Nil
  then show ?case by (simp add: feed_refines_def)
next
  case (Cons c cs)
  obtain evs a' where run: "spec_run a c = (evs, a')" by fastforce
  obtain evs' a'' where run': "spec_run a' (concat cs) = (evs', a'')" by fastforce
  have all: "spec_run a (concat (c # cs)) = (evs @ evs', a'')"
    using run run' by (simp add: spec_run_append)
  have "feed_refines (parse c p) (evs, a')"
    using parse_sim [of p a c] Cons.prems run by (auto simp: fits_def)
  then consider (malformed) "a' = Malformed" | (failed) e where "a' = Failed" "parse c p = (evs, Inl e)"
    | (on) p' where "parse c p = (evs, Inr p')" "at_rest p' a'"
    by (auto simp: feed_refines_def)
  then show ?case
  proof cases
    case on
    have "fits a' (length (concat cs))"
      using spec_run_held [OF run] Cons.prems(2) by (auto simp: fits_def)
    with Cons.IH [OF on(2)] run' have "feed_refines (feed cs p') (evs', a'')" by simp
    with on(1) all show ?thesis by (auto simp: feed_refines_def)
  qed (use all run' in \<open>auto simp: feed_refines_def\<close>)
qed

section \<open>Properties\<close>

lemma feed_machine:
  assumes "well_formed (concat cs)" and "2 * length (concat cs) \<le> MAX_SIZE"
  shows "feed_refines (feed cs new_parser) (spec_run spec_start (concat cs))
    \<and> snd (spec_run spec_start (concat cs)) \<noteq> Malformed"
  using feed_sim [OF at_rest_start, of cs] assms
  by (simp add: well_formed_def fits_def spec_start_def)

text \<open>
  C6: over any division of a well-formed stream into chunks, the parser pushes exactly the
  events of the byte-by-byte machine, throws exactly when the machine fails, and otherwise
  ends with no error in the state that corresponds to the machine's.
\<close>

theorem parser_refines_machine:
  assumes "well_formed (concat cs)" and "2 * length (concat cs) \<le> MAX_SIZE"
  shows "fst (feed cs new_parser) = fst (spec_run spec_start (concat cs)) \<and>
    (case snd (feed cs new_parser) of
       Inl e \<Rightarrow> snd (spec_run spec_start (concat cs)) = Failed
     | Inr p \<Rightarrow> at_rest p (snd (spec_run spec_start (concat cs))))"
  using feed_machine [OF assms] by (auto simp: feed_refines_def split: prod.splits)

theorem parser_refines_machine_witness:
  "fst (feed [te_encode ''PI'', te_encode ''NG'' @ crlf] new_parser) = [EvPing]"
proof -
  let ?cs = "[te_encode ''PI'', te_encode ''NG'' @ crlf]"
  have run: "spec_run spec_start (concat ?cs) = ([EvPing], Op OP_START True)"
    by (simp add: spec_start_def header_flag_def cc_def)
  then have "well_formed (concat ?cs)" by (simp add: well_formed_def)
  from parser_refines_machine [OF this] run show ?thesis by (simp add: MAX_SIZE_def)
qed

text \<open>
  C2: how the transport cuts a well-formed stream does not matter: two divisions of the
  same bytes give the same events, and either both throw or neither does.
\<close>

theorem parser_chunk_independent:
  assumes "well_formed (concat cs)" and "concat ds = concat cs" and "2 * length (concat cs) \<le> MAX_SIZE"
  shows "fst (feed ds new_parser) = fst (feed cs new_parser)
    \<and> (isl (snd (feed ds new_parser)) \<longleftrightarrow> isl (snd (feed cs new_parser)))"
proof -
  have "feed_refines (feed ds new_parser) (spec_run spec_start (concat cs))"
    and "feed_refines (feed cs new_parser) (spec_run spec_start (concat cs))"
    and "snd (spec_run spec_start (concat cs)) \<noteq> Malformed"
    using feed_machine [of cs] feed_machine [of ds] assms by auto
  then show ?thesis
    by (auto simp: feed_refines_def at_rest_def split: prod.splits)
qed

theorem parser_chunk_independent_witness:
  "fst (feed [te_encode ''+O'', te_encode ''K'' @ [cc_CR], [cc_NL]] new_parser)
     = fst (feed [te_encode ''+OK'' @ crlf] new_parser)"
proof -
  let ?ds = "[te_encode ''+O'', te_encode ''K'' @ [cc_CR], [cc_NL]]" and ?cs = "[te_encode ''+OK'' @ crlf]"
  have "spec_run spec_start (concat ?cs) = ([EvOk], Op OP_START True)"
    by (simp add: spec_start_def header_flag_def cc_def)
  then have "well_formed (concat ?cs)" by (simp add: well_formed_def)
  from parser_chunk_independent [OF this, of ?ds] show ?thesis by (simp add: MAX_SIZE_def)
qed

end
