(* ===== verification/Wire_Frames.thy ===== *)
theory Wire_Frames
  imports Wire_Spec
begin

text \<open>
  The parser against what a server writes: the frames of the protocol are printed, cut into
  chunks in any way and parsed back; and, for any bytes at all, what the parser hands over as
  a message is consistent with the sizes it announces.
\<close>

section \<open>What a server writes\<close>

text \<open>The frames of the protocol, as a server prints them, and the event each stands for.\<close>

datatype frame =
    FMsg bytes nat "bytes option" bytes
  | FHMsg bytes nat "bytes option" bytes bytes
  | FOk
  | FErr bytes
  | FPing
  | FPong
  | FInfo bytes

definition show_bytes :: "nat \<Rightarrow> bytes" where
  "show_bytes n = te_encode (show_nat n)"

fun reply_field :: "bytes option \<Rightarrow> bytes" where
  "reply_field None = []"
| "reply_field (Some r) = r @ [cc_SPACE]"

fun frame_line :: "frame \<Rightarrow> bytes" where
  "frame_line (FMsg s i r d) = s @ [cc_SPACE] @ show_bytes i @ [cc_SPACE] @ reply_field r @ show_bytes (length d)"
| "frame_line (FHMsg s i r k d) = s @ [cc_SPACE] @ show_bytes i @ [cc_SPACE] @ reply_field r
     @ show_bytes (length k) @ [cc_SPACE] @ show_bytes (length k + length d)"
| "frame_line (FErr m) = m"
| "frame_line (FInfo m) = m"
| "frame_line _ = []"

fun encode_frame :: "frame \<Rightarrow> bytes" where
  "encode_frame (FMsg s i r d) = te_encode ''MSG '' @ frame_line (FMsg s i r d) @ crlf @ d @ crlf"
| "encode_frame (FHMsg s i r k d) = te_encode ''HMSG '' @ frame_line (FHMsg s i r k d) @ crlf @ k @ d @ crlf"
| "encode_frame FOk = te_encode ''+OK'' @ crlf"
| "encode_frame (FErr m) = te_encode ''-ERR '' @ frame_line (FErr m) @ crlf"
| "encode_frame FPing = te_encode ''PING'' @ crlf"
| "encode_frame FPong = te_encode ''PONG'' @ crlf"
| "encode_frame (FInfo m) = te_encode ''INFO '' @ frame_line (FInfo m) @ crlf"

definition token :: "bytes \<Rightarrow> bool" where
  "token w \<longleftrightarrow> w \<noteq> [] \<and> (\<forall>b \<in> set w. \<not> blank b)"

definition text_line :: "bytes \<Rightarrow> bool" where
  "text_line m \<longleftrightarrow> m \<noteq> [] \<and> \<not> blank (hd m) \<and> cc_CR \<notin> set m \<and> cc_NL \<notin> set m"

fun valid_frame :: "frame \<Rightarrow> bool" where
  "valid_frame (FMsg s i r d) \<longleftrightarrow> token s \<and> i < 2 ^ 53 \<and> pred_option token r \<and> length d < 2 ^ 53"
| "valid_frame (FHMsg s i r k d) \<longleftrightarrow>
     token s \<and> i < 2 ^ 53 \<and> pred_option token r \<and> length k + length d < 2 ^ 53"
| "valid_frame (FErr m) \<longleftrightarrow> text_line m"
| "valid_frame (FInfo m) \<longleftrightarrow> text_line m"
| "valid_frame _ \<longleftrightarrow> True"

fun frame_event :: "frame \<Rightarrow> parser_event" where
  "frame_event (FMsg s i r d) =
     EvMsg \<lparr>subject = s, reply = r, sid = int i, hdr = -1, size = int (length d)\<rparr> d"
| "frame_event (FHMsg s i r k d) =
     EvMsg \<lparr>subject = s, reply = r, sid = int i, hdr = int (length k), size = int (length k + length d)\<rparr> (k @ d)"
| "frame_event FOk = EvOk"
| "frame_event (FErr m) = EvErr m"
| "frame_event FPing = EvPing"
| "frame_event FPong = EvPong"
| "frame_event (FInfo m) = EvInfo m"

text \<open>Numbers are read back.\<close>

lemma proto_digits_append:
  "proto_digits n xs = int m \<Longrightarrow> proto_digits n (xs @ ys) = proto_digits m ys"
  by (induction xs arbitrary: n) (auto split: if_splits)

lemma digit_byte:
  assumes "d < 10"
  defines "b \<equiv> of_char (digit_char d) :: byte"
  shows "\<not> b < 48" "\<not> b > 57" "unat (b - 48) = d" "\<not> blank b"
proof -
  have "d \<in> {0, 1, 2, 3, 4, 5, 6, 7, 8, 9}" using assms(1) by auto
  then show "\<not> b < 48" "\<not> b > 57" "unat (b - 48) = d" "\<not> blank b"
    unfolding b_def of_char_digit_byte [OF assms(1)] blank_def by auto
qed

lemma proto_digits_show: "n < 2 ^ 53 \<Longrightarrow> proto_digits 0 (show_bytes n) = int n"
proof (induction n rule: show_nat.induct)
  case (1 n)
  show ?case
  proof (cases "n < 10")
    case True
    then show ?thesis using digit_byte [of n] by (simp add: show_bytes_def show_nat.simps [of n])
  next
    case False
    then have "proto_digits 0 (show_bytes (n div 10)) = int (n div 10)"
      using 1 by simp
    moreover have "show_bytes n = show_bytes (n div 10) @ [of_char (digit_char (n mod 10))]"
      using False by (simp add: show_bytes_def show_nat.simps [of n])
    moreover have "n div 10 * 10 < 2 ^ 53" using "1.prems" by linarith
    then have "js_round (js_round (n div 10 * 10) + n mod 10) = n"
      using "1.prems" by simp
    ultimately show ?thesis
      using digit_byte [of "n mod 10"] by (simp add: proto_digits_append)
  qed
qed

lemma protoParseInt_show: "n < 2 ^ 53 \<Longrightarrow> protoParseInt (show_bytes n) = int n"
  using proto_digits_show by (simp add: protoParseInt_def) (simp add: show_bytes_def)

lemma token_show [simp]: "token (show_bytes n)"
proof -
  have "\<not> blank b" if b: "b \<in> set (show_bytes n)" for b
  proof -
    from b obtain c where "c \<in> set (show_nat n)" "b = of_char c"
      by (auto simp: show_bytes_def te_encode_def)
    with show_nat_digits digit_byte(4) show ?thesis by blast
  qed
  then show ?thesis by (auto simp: token_def) (simp add: show_bytes_def)
qed

text \<open>An argument line is split at its blanks.\<close>

lemma arg_fields_word: "(\<forall>b \<in> set w. \<not> blank b) \<Longrightarrow> arg_fields cur (w @ bs) = arg_fields (cur @ w) bs"
  by (induction w arbitrary: cur) auto

lemma arg_fields_token [simp]:
  "token w \<Longrightarrow> arg_fields [] w = [w]"
  "token w \<Longrightarrow> arg_fields [] (w @ cc_SPACE # bs) = w # arg_fields [] bs"
  using arg_fields_word [of w "[]" "[]"] arg_fields_word [of w "[]" "cc_SPACE # bs"]
  by (auto simp: token_def blank_def)

lemma frame_line_args:
  assumes "valid_frame (FMsg s i r d)"
  shows "spec_msg_arg False (frame_line (FMsg s i r d)) =
    Some \<lparr>subject = s, reply = r, sid = int i, hdr = -1, size = int (length d)\<rparr>"
  using assms by (cases r) (simp_all add: spec_msg_arg_plain protoParseInt_show)

lemma header_frame_line_args:
  assumes "valid_frame (FHMsg s i r k d)"
  shows "spec_msg_arg True (frame_line (FHMsg s i r k d)) =
    Some \<lparr>subject = s, reply = r, sid = int i, hdr = int (length k), size = int (length k + length d)\<rparr>"
  using assms by (cases r) (simp_all add: spec_msg_arg_header protoParseInt_show)

text \<open>The machine over the parts of a frame.\<close>

lemma spec_run_line:
  "cc_CR \<notin> set xs \<Longrightarrow> cc_NL \<notin> set xs \<Longrightarrow>
   spec_run (InArg k h acc False) (xs @ ys) = spec_run (InArg k h (acc @ xs) False) ys"
proof (induction xs arbitrary: acc)
  case (Cons x xs)
  then have "spec_step (InArg k h acc False) x = ([], InArg k h (acc @ [x]) False)" by auto
  with Cons show ?case by (auto split: prod.split)
qed simp

lemma spec_run_arg:
  assumes "in_blanks s = Some k" and "text_line m"
  shows "spec_run (Op s h) (m @ crlf @ ys) = spec_run (InArg k h m True) (cc_NL # ys)"
proof -
  obtain c cs where m: "m = c # cs" using assms(2) by (cases m) (auto simp: text_line_def)
  have "line_end s = None" using assms(1) by (cases s) auto
  then have "spec_step (Op s h) c = ([], InArg k h [c] False)"
    using assms m by (simp add: text_line_def blank_def)
  with spec_run_line [of cs k h "[c]" "crlf @ ys"] assms(2) m show ?thesis
    by (auto simp: text_line_def split: prod.split)
qed

lemma spec_run_body:
  assumes "int (length d) = size ma"
  shows "spec_run (InPayload h ma []) (d @ crlf @ ys) =
    (case spec_run (Op OP_START h) ys of (evs, a) \<Rightarrow> (EvMsg ma d # evs, a))"
  using assms spec_run_payload [of "[]" d ma h]
  by (simp add: spec_run_append split: prod.split)

lemma token_text: "token w \<Longrightarrow> text_line (w @ cc_SPACE # v) = (cc_CR \<notin> set v \<and> cc_NL \<notin> set v)"
  by (cases w) (auto simp: text_line_def token_def blank_def)

lemma token_line: "token w \<Longrightarrow> text_line w" "token w \<Longrightarrow> cc_CR \<notin> set w" "token w \<Longrightarrow> cc_NL \<notin> set w"
  by (auto simp: text_line_def token_def blank_def)

lemma frame_line_text: "valid_frame f \<Longrightarrow> frame_line f \<noteq> [] \<Longrightarrow> text_line (frame_line f)"
  by (cases f; cases "case f of FMsg s i r d \<Rightarrow> r | FHMsg s i r k d \<Rightarrow> r | _ \<Rightarrow> None")
    (auto simp: token_text token_line)

lemmas keyword_run = header_flag_def cc_def te_encode_def

lemma spec_run_keyword:
  "spec_run (Op OP_START h) (te_encode ''MSG '' @ ys) = spec_run (Op OP_MSG_SPC False) ys"
  "spec_run (Op OP_START h) (te_encode ''HMSG '' @ ys) = spec_run (Op OP_MSG_SPC True) ys"
  "spec_run (Op OP_START h) (te_encode ''-ERR '' @ ys) = spec_run (Op OP_MINUS_ERR_SPC h) ys"
  "spec_run (Op OP_START h) (te_encode ''INFO '' @ ys) = spec_run (Op OP_INFO_SPC h) ys"
  by (simp_all add: keyword_run split: prod.split)

lemma spec_run_frame:
  assumes "valid_frame f"
  shows "\<exists>h'. spec_run (Op OP_START h) (encode_frame f @ ys) =
    (case spec_run (Op OP_START h') ys of (evs, a) \<Rightarrow> (frame_event f # evs, a))"
proof (cases f)
  case (FMsg s i r d)
  have "text_line (frame_line f)"
    using frame_line_text [OF assms] FMsg assms by (auto simp: token_def)
  then have "spec_run (Op OP_START h) (encode_frame f @ ys) =
      spec_run (InPayload False \<lparr>subject = s, reply = r, sid = int i, hdr = -1, size = int (length d)\<rparr> []) (d @ crlf @ ys)"
    using FMsg assms frame_line_args [of s i r d]
      spec_run_arg [of OP_MSG_SPC LMsg "frame_line f" False "d @ crlf @ ys"]
    by (simp only: encode_frame.simps append_assoc spec_run_keyword) (simp del: frame_line.simps split: prod.split)
  then show ?thesis using FMsg spec_run_body by auto
next
  case (FHMsg s i r k d)
  have "text_line (frame_line f)"
    using frame_line_text [OF assms] FHMsg assms by (auto simp: token_def)
  then have "spec_run (Op OP_START h) (encode_frame f @ ys) =
      spec_run (InPayload True \<lparr>subject = s, reply = r, sid = int i, hdr = int (length k),
          size = int (length k + length d)\<rparr> []) ((k @ d) @ crlf @ ys)"
    using FHMsg assms header_frame_line_args [of s i r k d]
      spec_run_arg [of OP_MSG_SPC LMsg "frame_line f" True "k @ d @ crlf @ ys"]
    by (simp only: encode_frame.simps append_assoc spec_run_keyword) (simp del: frame_line.simps split: prod.split)
  then show ?thesis using FHMsg spec_run_body [of "k @ d"] by auto
next
  case (FErr m)
  with assms show ?thesis
    using spec_run_arg [of OP_MINUS_ERR_SPC LErr m h ys]
    by (intro exI [of _ h], simp only: encode_frame.simps append_assoc spec_run_keyword)
      (auto split: prod.split)
next
  case (FInfo m)
  with assms show ?thesis
    using spec_run_arg [of OP_INFO_SPC LInfo m h ys]
    by (intro exI [of _ h], simp only: encode_frame.simps append_assoc spec_run_keyword)
      (auto split: prod.split)
qed (intro exI [of _ h], auto simp: keyword_run split: prod.split)+

lemma spec_run_frames:
  "list_all valid_frame fs \<Longrightarrow>
   \<exists>h'. spec_run (Op OP_START h) (concat (map encode_frame fs)) = (map frame_event fs, Op OP_START h')"
proof (induction fs arbitrary: h)
  case (Cons f fs)
  obtain h1 where "spec_run (Op OP_START h) (encode_frame f @ concat (map encode_frame fs)) =
    (case spec_run (Op OP_START h1) (concat (map encode_frame fs)) of (evs, a) \<Rightarrow> (frame_event f # evs, a))"
    using spec_run_frame [of f h] Cons.prems by auto
  with Cons.IH [of h1] Cons.prems show ?case by auto
qed simp

section \<open>Properties\<close>

text \<open>
  C1: round trip. A sequence of valid frames, printed as a server prints them and delivered
  in chunks of any sizes, gives exactly the events of the frames, in order, and the parser
  ends ready for the next frame.
\<close>

theorem frames_round_trip:
  assumes "list_all valid_frame fs" and "concat cs = concat (map encode_frame fs)"
    and "2 * length (concat cs) \<le> MAX_SIZE"
  shows "\<exists>p. feed cs new_parser = (map frame_event fs, Inr p) \<and> pstate p = OP_START \<and> argBuf p = None \<and> msgBuf p = None"
proof -
  obtain h where run: "spec_run spec_start (concat cs) = (map frame_event fs, Op OP_START h)"
    using spec_run_frames [OF assms(1), of True] assms(2) by (auto simp: spec_start_def)
  then have "well_formed (concat cs)" by (simp add: well_formed_def)
  from feed_machine [OF this assms(3)] run show ?thesis
    by (auto simp: feed_refines_def at_rest_def)
qed

theorem frames_round_trip_witness:
  "\<exists>p. feed [te_encode ''MSG a.b 7 '', te_encode ''2'' @ crlf @ [1], [13] @ crlf] new_parser
    = ([EvMsg \<lparr>subject = te_encode ''a.b'', reply = None, sid = 7, hdr = -1, size = 2\<rparr> [1, 13]], Inr p)"
proof -
  let ?f = "FMsg (te_encode ''a.b'') 7 None [1, 13]"
  let ?cs = "[te_encode ''MSG a.b 7 '', te_encode ''2'' @ crlf @ [1], [13] @ crlf]"
  have v: "list_all valid_frame [?f]" by (simp add: token_def blank_def)
  have e: "concat ?cs = concat (map encode_frame [?f])"
    by (simp add: show_bytes_def show_nat.simps digit_char_def char_of_def bit_simps)
  from frames_round_trip [OF v e] show ?thesis by (auto simp: MAX_SIZE_def)
qed

section \<open>Messages are consistent on any input\<close>

definition msg_ok :: "msg_arg \<Rightarrow> bool" where
  "msg_ok ma \<longleftrightarrow> 0 \<le> sid ma \<and> 0 \<le> size ma \<and> -1 \<le> hdr ma \<and> hdr ma \<le> size ma"

definition event_ok :: "parser_event \<Rightarrow> bool" where
  "event_ok ev = (case ev of EvMsg ma d \<Rightarrow> msg_ok ma \<and> int (length d) = size ma | _ \<Rightarrow> True)"

text \<open>The invariant of the loop at index \<open>i\<close> of a chunk, for arbitrary bytes.\<close>

definition payload_ok :: "bytes \<Rightarrow> nat \<Rightarrow> parser \<Rightarrow> bool" where
  "payload_ok buf i p \<longleftrightarrow> msg_ok (pma p) \<and>
     (case msgBuf p of
        Some mb \<Rightarrow> db_inv mb \<and> int (length (db_bytes mb)) \<le> size (pma p)
      | None \<Rightarrow> pas p \<le> length buf \<and>
          (if i < length buf then int i = int (pas p) + size (pma p)
           else int (length buf) - int (pas p) \<le> size (pma p)))"

definition loop_ok :: "bytes \<Rightarrow> nat \<Rightarrow> parser \<Rightarrow> bool" where
  "loop_ok buf i p \<longleftrightarrow>
     (pstate p = MSG_PAYLOAD \<longrightarrow> payload_ok buf i p) \<and> (pstate p \<noteq> MSG_PAYLOAD \<longrightarrow> msgBuf p = None)
     \<and> (fresh_arg (pstate p) \<or> pstate p = MSG_ARG \<longrightarrow> pma p = newMsgArg)"

definition turn_ok :: "bytes \<Rightarrow> turn \<Rightarrow> bool" where
  "turn_ok buf t \<longleftrightarrow> list_all event_ok (fst t) \<and>
     (\<forall>p' i'. snd t = Inr (p', i') \<longrightarrow> loop_ok buf (min (Suc i') (length buf)) p')"

lemma turn_ok_simps [simp]:
  "turn_ok buf (evs, Inl e) = list_all event_ok evs"
  "turn_ok buf (evs, Inr (p, i)) = (list_all event_ok evs \<and> loop_ok buf (min (Suc i) (length buf)) p)"
  by (simp_all add: turn_ok_def)

lemma keep_arg_byte_ok:
  "loop_ok buf i p \<Longrightarrow> collecting (pstate p) \<Longrightarrow> turn_ok buf (keep_arg_byte b p i')"
  by (cases "pstate p") (auto simp: keep_arg_byte_def loop_ok_def split: option.split sum.split)

lemma payload_turn_ok:
  assumes ok: "loop_ok buf i p" and st: "pstate p = MSG_PAYLOAD" and i: "i < length buf"
  shows "turn_ok buf (turn_msg_payload buf i b p)"
proof (cases "msgBuf p")
  case None
  then have pas: "pas p \<le> i" "int i = int (pas p) + size (pma p)" and ma: "msg_ok (pma p)"
    using ok st i by (auto simp: loop_ok_def payload_ok_def msg_ok_def)
  then show ?thesis
    using None i by (simp add: turn_msg_payload_def push_msg_def event_ok_def loop_ok_def)
next
  case (Some mb)
  then have mb: "db_inv mb" "int (length (db_bytes mb)) \<le> size (pma p)" and ma: "msg_ok (pma p)"
    using ok st by (auto simp: loop_ok_def payload_ok_def)
  have len: "db_length mb = length (db_bytes mb)" using mb by (simp add: db_length_eq)
  show ?thesis
  proof (cases "int (db_length mb) \<ge> size (pma p)")
    case True
    then show ?thesis
      using Some mb ma len by (simp add: turn_msg_payload_def push_msg_def event_ok_def loop_ok_def)
  next
    case False
    define n where "n = (if int (length buf) - int i < size (pma p) - int (db_length mb)
        then int (length buf) - int i else size (pma p) - int (db_length mb))"
    have n: "0 < n" "n \<le> size (pma p) - int (db_length mb)" using False i by (auto simp: n_def)
    have "turn_msg_payload buf i b p =
      (case db_write (subarray i (i + nat n) buf) mb of
         Inl e \<Rightarrow> ([], Inl (buffer_message e))
       | Inr (k, mb') \<Rightarrow> ([], Inr (p\<lparr>msgBuf := Some mb'\<rparr>, (i + nat n) - 1)))"
      unfolding turn_msg_payload_def Let_def Some option.case n_def [symmetric] using False n(1) by simp
    moreover have "loop_ok buf j (p\<lparr>msgBuf := Some mb'\<rparr>)"
      if w: "db_write (subarray i (i + nat n) buf) mb = Inr (k, mb')" for k mb' j
      using write_spec [OF mb(1) w] n len st ma by (auto simp: loop_ok_def payload_ok_def)
    ultimately show ?thesis by (auto split: sum.split)
  qed
qed

lemma msg_arg_turn_ok:
  assumes ok: "loop_ok buf i p" and st: "pstate p = MSG_ARG" and i: "i < length buf"
  shows "turn_ok buf (turn_msg_arg buf i b p)"
proof -
  have fresh: "pma p = newMsgArg" and mb: "msgBuf p = None" using ok st by (auto simp: loop_ok_def)
  have fin: "turn_ok buf (case processMsgArgs arg p of
       Inl e \<Rightarrow> ([], Inl e)
     | Inr p' \<Rightarrow> ([], Inr (p'\<lparr>pdrop := 0, pas := i + 1, pstate := MSG_PAYLOAD\<rparr>,
                          nat (int (i + 1) + size (pma p') - 1))))" for arg
  proof (cases "processMsgArgs arg p")
    case (Inr p')
    then obtain ma where "spec_msg_arg (0 \<le> phdr p) arg = Some ma" "p' = p\<lparr>pma := ma\<rparr>"
      using processMsgArgs_spec [OF fresh refl] by blast
    with Inr spec_msg_arg_bounds [OF this(1)] mb i show ?thesis
      by (cases "0 \<le> phdr p") (auto simp: loop_ok_def payload_ok_def msg_ok_def min_def nat_add_distrib)
  qed simp
  have "turn_ok buf ([], Inr (p\<lparr>pdrop := 1\<rparr>, i))" using ok st by (auto simp: loop_ok_def)
  with fin keep_arg_byte_ok [OF ok] st show ?thesis
    unfolding turn_msg_arg_def Let_def by simp
qed

lemma parse_turn_ok:
  assumes ok: "loop_ok buf i p" and i: "i < length buf"
  shows "turn_ok buf (parse_turn buf i p)"
proof -
  have line: "turn_ok buf (turn_line_arg ev buf i b p)"
    if "pstate p = MINUS_ERR_ARG \<or> pstate p = INFO_ARG" "\<And>d. event_ok (ev d)" for ev b
    using that ok keep_arg_byte_ok [OF ok]
    by (auto simp: turn_line_arg_def loop_ok_def Let_def split: option.split)
  have ev: "event_ok EvOk" "event_ok EvPing" "event_ok EvPong" "event_ok (EvErr d)" "event_ok (EvInfo d)" for d
    by (simp_all add: event_ok_def)
  show ?thesis
    using payload_turn_ok [OF ok _ i] msg_arg_turn_ok [OF ok _ i] line ok ev
    by (cases "pstate p")
      (simp_all add: parse_turn_def Let_def turn_start_def turn_op_msg_def turn_plus_def turn_minus_def turn_p_def
        turn_info_def turn_msg_end_def end_of_line_def goto_def bad_def loop_ok_def)
qed

lemma parse_loop_ok:
  assumes "loop_ok buf (min i (length buf)) p"
  shows "list_all event_ok (fst (parse_loop buf i p)) \<and>
    (\<forall>p' j. snd (parse_loop buf i p) = Inr (p', j) \<longrightarrow> loop_ok buf (length buf) p')"
  using assms
proof (induction buf i p rule: parse_loop.induct)
  case (1 buf i p)
  show ?case
  proof (cases "i < length buf")
    case False
    with "1.prems" show ?thesis by (simp add: parse_loop.simps [of buf i p] min_absorb2)
  next
    case True
    obtain evs r where t: "parse_turn buf i p = (evs, r)" by fastforce
    have ok: "turn_ok buf (evs, r)"
      using parse_turn_ok [of buf i p] "1.prems" True t by (simp add: min_absorb1)
    show ?thesis
    proof (cases r)
      case (Inl e)
      with ok t True show ?thesis by (simp add: parse_loop.simps [of buf i p])
    next
      case (Inr y)
      obtain p' i' where y: "y = (p', i')" by fastforce
      then have "loop_ok buf (min (Suc i') (length buf)) p'" "list_all event_ok evs"
        using ok Inr by auto
      with "1.IH" [OF True t [symmetric] Inr y [symmetric]] t True Inr y show ?thesis
        by (auto simp: parse_loop.simps [of buf i p] Let_def split: prod.splits)
    qed
  qed
qed

lemma end_of_chunk_ok:
  assumes ok: "loop_ok buf (length buf) p" and len: "length buf \<le> MAX_SIZE"
  shows "loop_ok buf' 0 (end_of_chunk buf j p)"
proof -
  have "db_inv (new_deno_buffer (Some (drop (pas p) buf)))" using len by simp
  with ok show ?thesis
    by (cases "msgBuf p"; cases "argBuf p"; cases "reply (pma p)")
      (auto simp: loop_ok_def end_of_chunk_def payload_ok_def cloneMsgArg_def Let_def msg_ok_def)
qed

lemma feed_ok:
  assumes "\<forall>buf. loop_ok buf 0 p" and "\<forall>c \<in> set cs. length c \<le> MAX_SIZE"
  shows "list_all event_ok (fst (feed cs p))"
  using assms
proof (induction cs arbitrary: p)
  case (Cons c cs)
  obtain evs r where loop: "parse_loop c 0 p = (evs, r)" by fastforce
  have ok: "list_all event_ok evs" "\<And>p' j. r = Inr (p', j) \<Longrightarrow> loop_ok c (length c) p'"
    using parse_loop_ok [of c 0 p] Cons.prems(1) loop by auto
  show ?case
  proof (cases r)
    case (Inl e)
    with ok loop show ?thesis by (simp add: parse_def)
  next
    case (Inr y)
    obtain p' j where y: "y = (p', j)" by fastforce
    then have "\<forall>buf. loop_ok buf 0 (end_of_chunk c j p')"
      using end_of_chunk_ok [of c p' _ j] ok(2) Inr Cons.prems(2) by auto
    with Cons.IH [OF this] Cons.prems(2) ok(1) loop Inr y show ?thesis
      by (cases "feed cs (end_of_chunk c j p')") (simp add: parse_def)
  qed
qed simp

text \<open>
  C25: whatever bytes arrive, well formed or not, in whatever chunks: a message is only
  handed over with exactly as many payload bytes as it announced, a subscription id that is
  not negative, and a header size within the payload.
\<close>

theorem messages_are_consistent:
  assumes "\<forall>c \<in> set cs. length c \<le> MAX_SIZE" and "EvMsg ma d \<in> set (fst (feed cs new_parser))"
  shows "int (length d) = size ma \<and> 0 \<le> sid ma \<and> -1 \<le> hdr ma \<and> hdr ma \<le> int (length d)"
proof -
  have "\<forall>buf. loop_ok buf 0 new_parser" by (simp add: loop_ok_def new_parser_def)
  from feed_ok [OF this assms(1)] assms(2) have "event_ok (EvMsg ma d)"
    by (auto simp: list_all_iff)
  then show ?thesis by (auto simp: event_ok_def msg_ok_def)
qed

theorem messages_are_consistent_witness:
  "EvMsg \<lparr>subject = [97], reply = None, sid = 1, hdr = -1, size = 2\<rparr> [7, 8]
     \<in> set (fst (feed [te_encode ''MSG a 1 2'' @ crlf @ [7, 8, 13]] new_parser)) \<and> length ([7, 8] :: bytes) = 2"
proof -
  let ?ma = "\<lparr>subject = [97], reply = None, sid = 1, hdr = -1, size = 2\<rparr>"
  let ?cs = "[te_encode ''MSG a 1 2'' @ crlf @ [7, 8, 13]]"
  have run: "spec_run spec_start (concat ?cs) = ([EvMsg ?ma [7, 8]], Op MSG_END False)"
    by (simp add: spec_start_def header_flag_def cc_def spec_msg_arg_plain blank_def protoParseInt_def)
  then have "well_formed (concat ?cs)" by (simp add: well_formed_def)
  from feed_machine [OF this] run have ev: "EvMsg ?ma [7, 8] \<in> set (fst (feed ?cs new_parser))"
    by (auto simp: feed_refines_def MAX_SIZE_def)
  have "\<forall>c \<in> set ?cs. length c \<le> MAX_SIZE" by (simp add: MAX_SIZE_def)
  from messages_are_consistent [OF this ev] ev show ?thesis by simp
qed

end
