(* ===== verification/Js_Strings.thy ===== *)
theory Js_Strings
  imports Nats_Prelude
begin

text \<open>
  The methods of JavaScript strings the client calls, on strings given by their UTF-8 bytes:
  \<open>trim\<close>, \<open>split\<close>, \<open>indexOf\<close>, \<open>replace\<close> of the first occurrence, \<open>toLowerCase\<close>,
  \<open>startsWith\<close> and \<open>parseInt\<close>. \<open>toLowerCase\<close> is modelled on ASCII letters, other characters
  stay as they are; numbers at or above \<open>2 ^ 53\<close> are rounded as doubles are.
\<close>

named_theorems string_simps \<open>string methods on strings of known shape\<close>

section \<open>Characters\<close>

definition char_code :: "char \<Rightarrow> nat" where
  "char_code c = of_char c"

definition is_digit :: "char \<Rightarrow> bool" where
  "is_digit c \<longleftrightarrow> 48 \<le> char_code c \<and> char_code c \<le> 57"

definition digit_val :: "char \<Rightarrow> nat" where
  "digit_val c = char_code c - 48"

definition lower_char :: "char \<Rightarrow> char" where
  "lower_char c = (if 65 \<le> char_code c \<and> char_code c \<le> 90 then char_of (char_code c + 32) else c)"

definition to_lower :: "string \<Rightarrow> string" where
  "to_lower s = map lower_char s"

lemma char_code_less: "char_code c < 256"
  by (simp add: char_code_def nat_of_char_less_256)

lemma char_code_inj [simp]: "char_code c = char_code d \<longleftrightarrow> c = d"
  by (simp add: char_code_def)

lemma char_code_char_of [simp]: "n < 256 \<Longrightarrow> char_code (char_of n) = n"
  by (simp add: char_code_def)

lemma char_of_char_code [simp]: "char_of (char_code c) = c"
  by (simp add: char_code_def)

lemma is_digit_digit_char [simp]: "d < 10 \<Longrightarrow> is_digit (digit_char d)"
  by (simp add: is_digit_def digit_char_def)

lemma digit_val_digit_char [simp]: "d < 10 \<Longrightarrow> digit_val (digit_char d) = d"
  by (simp add: digit_val_def digit_char_def)

lemma show_nat_all_digits: "\<forall>c \<in> set (show_nat n). is_digit c"
  using show_nat_digits by fastforce

lemma lower_char_idem [simp]: "lower_char (lower_char c) = lower_char c"
  by (simp add: lower_char_def)

lemma to_lower_idem [simp]: "to_lower (to_lower s) = to_lower s"
  by (simp add: to_lower_def)

lemma length_to_lower [simp]: "length (to_lower s) = length s"
  by (simp add: to_lower_def)

section \<open>White space\<close>

text \<open>The white space and line terminators of \<open>trim\<close>, each as its UTF-8 bytes.\<close>

definition js_spaces :: "string list" where
  "js_spaces =
    [[CHR 0x20], [CHR 0x09], [CHR 0x0A], [CHR 0x0B], [CHR 0x0C], [CHR 0x0D], [CHR 0xC2, CHR 0xA0],
     [CHR 0xEF, CHR 0xBB, CHR 0xBF], [CHR 0xE1, CHR 0x9A, CHR 0x80],
     [CHR 0xE2, CHR 0x80, CHR 0xA8], [CHR 0xE2, CHR 0x80, CHR 0xA9],
     [CHR 0xE2, CHR 0x80, CHR 0xAF], [CHR 0xE2, CHR 0x81, CHR 0x9F],
     [CHR 0xE3, CHR 0x80, CHR 0x80], [CHR 0xE2, CHR 0x80, CHR 0x80],
     [CHR 0xE2, CHR 0x80, CHR 0x81], [CHR 0xE2, CHR 0x80, CHR 0x82],
     [CHR 0xE2, CHR 0x80, CHR 0x83], [CHR 0xE2, CHR 0x80, CHR 0x84],
     [CHR 0xE2, CHR 0x80, CHR 0x85], [CHR 0xE2, CHR 0x80, CHR 0x86],
     [CHR 0xE2, CHR 0x80, CHR 0x87], [CHR 0xE2, CHR 0x80, CHR 0x88],
     [CHR 0xE2, CHR 0x80, CHR 0x89], [CHR 0xE2, CHR 0x80, CHR 0x8A]]"

definition leading_space :: "string \<Rightarrow> string option" where
  "leading_space s = List.find (\<lambda>w. take (length w) s = w) js_spaces"

definition trailing_space :: "string \<Rightarrow> string option" where
  "trailing_space s = List.find (\<lambda>w. length w \<le> length s \<and> drop (length s - length w) s = w) js_spaces"

lemma js_spaces_nonempty: "w \<in> set js_spaces \<Longrightarrow> w \<noteq> []"
  by (auto simp: js_spaces_def)

lemma leading_space_Some:
  assumes "leading_space s = Some w"
  shows "w \<noteq> [] \<and> s = w @ drop (length w) s"
  using assms js_spaces_nonempty
  by (auto simp: leading_space_def find_Some_iff) (metis append_take_drop_id nth_mem)+

lemma trailing_space_Some:
  assumes "trailing_space s = Some w"
  shows "w \<noteq> [] \<and> s = take (length s - length w) s @ w"
  using assms js_spaces_nonempty
  by (auto simp: trailing_space_def find_Some_iff) (metis append_take_drop_id nth_mem)+

function trim_start :: "string \<Rightarrow> string" where
  "trim_start s = (case leading_space s of None \<Rightarrow> s | Some w \<Rightarrow> trim_start (drop (length w) s))"
  by auto
termination
proof (relation "measure length")
  fix s w assume "leading_space s = Some w"
  then have "w \<noteq> []" "s = w @ drop (length w) s" by (simp_all add: leading_space_Some)
  then have "s \<noteq> []" by auto
  with \<open>w \<noteq> []\<close> show "(drop (length w) s, s) \<in> measure length" by (cases s; cases w) auto
qed simp

function trim_end :: "string \<Rightarrow> string" where
  "trim_end s = (case trailing_space s of None \<Rightarrow> s
     | Some w \<Rightarrow> trim_end (take (length s - length w) s))"
  by auto
termination
proof (relation "measure length")
  fix s w assume "trailing_space s = Some w"
  then have "w \<noteq> []" "s = take (length s - length w) s @ w" by (simp_all add: trailing_space_Some)
  then have "s \<noteq> []" by auto
  with \<open>w \<noteq> []\<close> show "(take (length s - length w) s, s) \<in> measure length" by (cases s; cases w) auto
qed simp

declare trim_start.simps [simp del] trim_end.simps [simp del]

definition js_trim :: "string \<Rightarrow> string" where
  "js_trim s = trim_end (trim_start s)"

lemma leading_trim_start [simp]: "leading_space (trim_start s) = None"
proof (induction s rule: trim_start.induct)
  case (1 s)
  show ?case
    using 1 by (cases "leading_space s") (simp_all add: trim_start.simps [of s])
qed

lemma trailing_trim_end [simp]: "trailing_space (trim_end s) = None"
proof (induction s rule: trim_end.induct)
  case (1 s)
  show ?case
    using 1 by (cases "trailing_space s") (simp_all add: trim_end.simps [of s])
qed

lemma trim_end_prefix: "\<exists>u. s = trim_end s @ u"
proof (induction s rule: trim_end.induct)
  case (1 s)
  show ?case
  proof (cases "trailing_space s")
    case None
    then show ?thesis by (simp add: trim_end.simps [of s])
  next
    case (Some w)
    then obtain u where "take (length s - length w) s = trim_end (take (length s - length w) s) @ u"
      using 1 by blast
    then have "s = trim_end (take (length s - length w) s) @ u @ w"
      using trailing_space_Some [OF Some] by (metis append_assoc)
    then show ?thesis using Some by (auto simp: trim_end.simps [of s])
  qed
qed

lemma trim_start_suffix: "\<exists>u. s = u @ trim_start s"
proof (induction s rule: trim_start.induct)
  case (1 s)
  show ?case
  proof (cases "leading_space s")
    case None
    then show ?thesis by (simp add: trim_start.simps [of s])
  next
    case (Some w)
    then obtain u where "drop (length w) s = u @ trim_start (drop (length w) s)"
      using 1 by blast
    then have "s = (w @ u) @ trim_start (drop (length w) s)"
      using leading_space_Some [OF Some] by (metis append_assoc)
    then have "\<exists>v. s = v @ trim_start (drop (length w) s)" by blast
    then show ?thesis using Some by (simp add: trim_start.simps [of s])
  qed
qed

lemma leading_space_append_None: "leading_space (s @ u) = None \<Longrightarrow> leading_space s = None"
  by (fastforce simp: leading_space_def find_None_iff)

lemma js_trim_iff [string_simps]:
  "js_trim s = s \<longleftrightarrow> leading_space s = None \<and> trailing_space s = None"
proof
  assume "js_trim s = s"
  moreover obtain u where "trim_start s = js_trim s @ u"
    unfolding js_trim_def using trim_end_prefix by blast
  ultimately show "leading_space s = None \<and> trailing_space s = None"
    by (metis js_trim_def leading_trim_start trailing_trim_end leading_space_append_None)
next
  assume "leading_space s = None \<and> trailing_space s = None"
  then show "js_trim s = s"
    by (simp add: js_trim_def trim_start.simps [of s] trim_end.simps [of s])
qed

lemma js_trim_idem [simp]: "js_trim (js_trim s) = js_trim s"
proof -
  obtain u where "trim_start s = js_trim s @ u"
    unfolding js_trim_def using trim_end_prefix by blast
  then have "leading_space (js_trim s) = None"
    by (metis leading_trim_start leading_space_append_None)
  moreover have "trailing_space (js_trim s) = None"
    by (simp add: js_trim_def)
  ultimately show ?thesis by (simp add: js_trim_iff)
qed

lemma set_js_trim: "set (js_trim s) \<subseteq> set s"
  by (metis js_trim_def set_append sup_ge1 sup_ge2 subset_trans trim_end_prefix trim_start_suffix)

lemma leading_space_blank [simp]: "leading_space (CHR '' '' # s) = Some '' ''"
  by (simp add: leading_space_def js_spaces_def)

lemma trim_start_blank [simp]: "trim_start (CHR '' '' # s) = trim_start s"
  by (simp add: trim_start.simps [of "CHR '' '' # s"])

lemma js_trim_blank [simp]: "js_trim (CHR '' '' # s) = js_trim s"
  by (simp add: js_trim_def)

lemma js_trim_Nil [simp]: "js_trim [] = []"
  by (simp add: js_trim_iff leading_space_def trailing_space_def js_spaces_def)

section \<open>Search, split and replace\<close>

fun index_of :: "char \<Rightarrow> string \<Rightarrow> nat option" where
  "index_of c [] = None"
| "index_of c (d # s) = (if c = d then Some 0 else map_option Suc (index_of c s))"

text \<open>\<open>split_on sep s\<close> is \<open>s.split(sep)\<close> for a separator of one character.\<close>

fun split_on :: "char \<Rightarrow> string \<Rightarrow> string list" where
  "split_on sep [] = [[]]"
| "split_on sep (c # s) =
     (if c = sep then [] # split_on sep s
      else (c # hd (split_on sep s)) # tl (split_on sep s))"

text \<open>\<open>split_crlf s\<close> is \<open>s.split("\<close>, CR, LF, \<open>")\<close>.\<close>

definition CR :: char where "CR = CHR 0x0D"
definition LF :: char where "LF = CHR 0x0A"

fun split_crlf :: "string \<Rightarrow> string list" where
  "split_crlf [] = [[]]"
| "split_crlf [c] = [[c]]"
| "split_crlf (c # d # s) =
     (if c = CR \<and> d = LF then [] # split_crlf s
      else (c # hd (split_crlf (d # s))) # tl (split_crlf (d # s)))"

text \<open>\<open>replace_first p s\<close> removes the first occurrence of \<open>p\<close>, as \<open>s.replace(p, "")\<close> does.\<close>

fun remove_first :: "string \<Rightarrow> string \<Rightarrow> string" where
  "remove_first p [] = []"
| "remove_first p (c # s) =
     (if take (length p) (c # s) = p then drop (length p) (c # s) else c # remove_first p s)"

definition starts_with :: "string \<Rightarrow> string \<Rightarrow> bool" where
  "starts_with p s \<longleftrightarrow> take (length p) s = p"

lemma remove_first_prefix [simp]: "remove_first p (p @ s) = s"
  by (cases p; cases s) auto

lemma starts_with_append [simp]: "starts_with p (p @ s)"
  by (simp add: starts_with_def)

lemma index_of_None: "index_of c s = None \<longleftrightarrow> c \<notin> set s"
  by (induction s) auto

lemma index_of_append [string_simps]: "c \<notin> set k \<Longrightarrow> index_of c (k @ c # v) = Some (length k)"
  by (induction k) auto

lemma split_on_ne [simp]: "split_on sep s \<noteq> []"
  by (cases s) auto

lemma split_on_append [string_simps]:
  "sep \<notin> set a \<Longrightarrow> split_on sep (a @ sep # s) = a # split_on sep s"
  by (induction a) auto

lemma split_on_single [string_simps]: "sep \<notin> set a \<Longrightarrow> split_on sep a = [a]"
  by (induction a) auto

lemma split_crlf_ne [simp]: "split_crlf s \<noteq> []"
  by (induction s rule: split_crlf.induct) auto

lemma split_crlf_append [string_simps]:
  "LF \<notin> set a \<Longrightarrow> split_crlf (a @ CR # LF # s) = a # split_crlf s"
proof (induction a rule: split_crlf.induct)
  case 1
  show ?case by simp
next
  case (2 c)
  then show ?case by (simp add: CR_def LF_def)
next
  case (3 c d a)
  then show ?case by (cases "c = CR \<and> d = LF") auto
qed

lemma split_crlf_single [string_simps]: "LF \<notin> set a \<Longrightarrow> split_crlf a = [a]"
  by (induction a rule: split_crlf.induct) auto

section \<open>Numbers\<close>

definition digits_val :: "string \<Rightarrow> nat" where
  "digits_val ds = foldl (\<lambda>n c. 10 * n + digit_val c) 0 ds"

text \<open>\<open>parseInt(s, 10)\<close>; \<open>None\<close> is \<open>NaN\<close>.\<close>

definition parse_int :: "string \<Rightarrow> int option" where
  "parse_int s =
     (let t = trim_start s;
          neg = (t \<noteq> [] \<and> hd t = CHR ''-'');
          u = (if t \<noteq> [] \<and> (hd t = CHR ''-'' \<or> hd t = CHR ''+'') then tl t else t);
          ds = takeWhile is_digit u
      in if ds = [] then None
         else Some ((if neg then - 1 else 1) * int (js_round (digits_val ds))))"

lemma digits_val_show_nat [simp]: "digits_val (show_nat n) = n"
proof (induction n rule: show_nat.induct)
  case (1 n)
  then show ?case
    by (cases "n < 10") (simp_all add: show_nat.simps [of n] digits_val_def)
qed

lemma takeWhile_show_nat:
  assumes "r = [] \<or> \<not> is_digit (hd r)"
  shows "takeWhile is_digit (show_nat n @ r) = show_nat n"
  using assms show_nat_all_digits by (cases r) (auto simp: takeWhile_append2)

lemma show_nat_hd_digit: "is_digit (hd (show_nat n))"
  using show_nat_all_digits [of n] by (metis hd_in_set show_nat_nonempty)

lemma leading_space_digit:
  assumes "is_digit c"
  shows "leading_space (c # s) = None"
proof -
  have "\<forall>w \<in> set js_spaces. \<not> is_digit (hd w)"
    by (simp add: js_spaces_def is_digit_def char_code_def)
  with assms have "\<forall>w \<in> set js_spaces. take (length w) (c # s) \<noteq> w"
    by (metis js_spaces_nonempty length_greater_0_conv hd_take list.sel(1))
  then show ?thesis by (simp add: leading_space_def find_None_iff)
qed

lemma trim_start_digit [simp]: "is_digit c \<Longrightarrow> trim_start (c # s) = c # s"
  by (simp add: trim_start.simps [of "c # s"] leading_space_digit)

lemma parse_int_show_nat:
  assumes "r = [] \<or> \<not> is_digit (hd r)" "n < 2 ^ 53"
  shows "parse_int (show_nat n @ r) = Some (int n)"
proof -
  obtain c s where cs: "show_nat n = c # s"
    using show_nat_nonempty by (metis list.exhaust)
  then have d: "is_digit c" using show_nat_hd_digit [of n] by simp
  then have "c \<noteq> CHR ''-''" "c \<noteq> CHR ''+''"
    by (auto simp: is_digit_def char_code_def)
  then have "hd (show_nat n @ r) \<noteq> CHR ''-''" "hd (show_nat n @ r) \<noteq> CHR ''+''"
    using cs by simp_all
  moreover have "trim_start (show_nat n @ r) = show_nat n @ r"
    using cs d by simp
  moreover have "takeWhile is_digit (show_nat n @ r) = show_nat n"
    using assms(1) by (rule takeWhile_show_nat)
  ultimately show ?thesis
    using assms(2) by (simp add: parse_int_def)
qed

section \<open>Printed integers\<close>

lemma show_int_chars: "c \<in> set (show_int n) \<Longrightarrow> c = CHR ''-'' \<or> is_digit c"
  using show_nat_all_digits by (auto simp: show_int_def split: if_splits)

lemma show_int_plain [simp]: "CR \<notin> set (show_int n)" "LF \<notin> set (show_int n)"
proof -
  have "CR \<noteq> CHR ''-''" "LF \<noteq> CHR ''-''" "\<not> is_digit CR" "\<not> is_digit LF" by code_simp+
  then show "CR \<notin> set (show_int n)" "LF \<notin> set (show_int n)" using show_int_chars by metis+
qed

lemma js_trim_printable:
  assumes "\<forall>c \<in> set s. 32 < char_code c \<and> char_code c < 127"
  shows "js_trim s = s"
proof -
  have w: "\<exists>c \<in> set w. \<not> (32 < char_code c \<and> char_code c < 127)" if "w \<in> set js_spaces" for w
    using that by (auto simp: js_spaces_def char_code_def)
  have "leading_space s = None"
    unfolding leading_space_def find_None_iff using w assms by (metis in_set_takeD)
  moreover have "trailing_space s = None"
    unfolding trailing_space_def find_None_iff using w assms by (metis in_set_dropD)
  ultimately show ?thesis by (simp add: js_trim_iff)
qed

lemma js_trim_show_int [simp]: "js_trim (show_int n) = show_int n"
proof (rule js_trim_printable, rule ballI)
  fix c
  assume "c \<in> set (show_int n)"
  then have "c = CHR ''-'' \<or> is_digit c" by (rule show_int_chars)
  then show "32 < char_code c \<and> char_code c < 127" by (auto simp: is_digit_def char_code_def)
qed

lemma parse_int_show_int: "\<bar>n\<bar> < 2 ^ 53 \<Longrightarrow> parse_int (show_int n) = Some n"
proof (cases "n < 0")
  case True
  assume b: "\<bar>n\<bar> < 2 ^ 53"
  have t: "takeWhile is_digit (show_nat (nat (- n))) = show_nat (nat (- n))"
    using takeWhile_show_nat [of "[]"] by simp
  have u: "trim_start (CHR ''-'' # s) = CHR ''-'' # s" for s
    by (simp add: trim_start.simps [of "CHR ''-'' # s"] leading_space_def js_spaces_def)
  have "js_round (nat (- n)) = nat (- n)" using True b by simp
  then show ?thesis using True by (simp add: parse_int_def show_int_def Let_def t u del: takeWhile_eq_all_conv)
qed (use parse_int_show_nat [of "[]"] in \<open>simp add: show_int_def\<close>)

end
