(* ===== verification/Nats_Core.thy ===== *)
theory Nats_Core
  imports Js_Strings
begin

text \<open>
  The shared vocabulary of the client, from \<open>nats-base-client/core.ts\<close>: the events of a
  connection, the error codes with their string values, \<open>NatsError\<close> beside plain errors,
  and the message table behind \<open>NatsError.errorForCode\<close>. Code that throws returns
  \<open>Inl\<close> of such an error.
\<close>

section \<open>Error codes\<close>

datatype error_code =
    EC_ApiError | EC_BadAuthentication | EC_BadCreds | EC_BadHeader | EC_BadJson | EC_BadPayload
  | EC_BadSubject | EC_Cancelled | EC_ConnectionClosed | EC_ConnectionDraining
  | EC_ConnectionRefused | EC_ConnectionTimeout | EC_Disconnect | EC_InvalidOption
  | EC_InvalidPayload | EC_MaxPayloadExceeded | EC_NoResponders | EC_NotFunction
  | EC_RequestError | EC_ServerOptionNotAvailable | EC_SubClosed | EC_SubDraining | EC_Timeout
  | EC_Tls | EC_Unknown | EC_WssRequired | EC_JetStreamInvalidAck | EC_JetStream404NoMessages
  | EC_JetStream408RequestTimeout | EC_JetStream409MaxAckPendingExceeded | EC_JetStream409
  | EC_JetStreamNotEnabled | EC_JetStreamIdleHeartBeat | EC_AuthorizationViolation
  | EC_AuthenticationExpired | EC_ProtocolError | EC_PermissionsViolation
  | EC_AuthenticationTimeout | EC_AccountExpired

primrec code_string :: "error_code \<Rightarrow> string" where
  "code_string EC_ApiError = ''BAD API''"
| "code_string EC_BadAuthentication = ''BAD_AUTHENTICATION''"
| "code_string EC_BadCreds = ''BAD_CREDS''"
| "code_string EC_BadHeader = ''BAD_HEADER''"
| "code_string EC_BadJson = ''BAD_JSON''"
| "code_string EC_BadPayload = ''BAD_PAYLOAD''"
| "code_string EC_BadSubject = ''BAD_SUBJECT''"
| "code_string EC_Cancelled = ''CANCELLED''"
| "code_string EC_ConnectionClosed = ''CONNECTION_CLOSED''"
| "code_string EC_ConnectionDraining = ''CONNECTION_DRAINING''"
| "code_string EC_ConnectionRefused = ''CONNECTION_REFUSED''"
| "code_string EC_ConnectionTimeout = ''CONNECTION_TIMEOUT''"
| "code_string EC_Disconnect = ''DISCONNECT''"
| "code_string EC_InvalidOption = ''INVALID_OPTION''"
| "code_string EC_InvalidPayload = ''INVALID_PAYLOAD''"
| "code_string EC_MaxPayloadExceeded = ''MAX_PAYLOAD_EXCEEDED''"
| "code_string EC_NoResponders = ''503''"
| "code_string EC_NotFunction = ''NOT_FUNC''"
| "code_string EC_RequestError = ''REQUEST_ERROR''"
| "code_string EC_ServerOptionNotAvailable = ''SERVER_OPT_NA''"
| "code_string EC_SubClosed = ''SUB_CLOSED''"
| "code_string EC_SubDraining = ''SUB_DRAINING''"
| "code_string EC_Timeout = ''TIMEOUT''"
| "code_string EC_Tls = ''TLS''"
| "code_string EC_Unknown = ''UNKNOWN_ERROR''"
| "code_string EC_WssRequired = ''WSS_REQUIRED''"
| "code_string EC_JetStreamInvalidAck = ''JESTREAM_INVALID_ACK''"
| "code_string EC_JetStream404NoMessages = ''404''"
| "code_string EC_JetStream408RequestTimeout = ''408''"
| "code_string EC_JetStream409MaxAckPendingExceeded = ''409''"
| "code_string EC_JetStream409 = ''409''"
| "code_string EC_JetStreamNotEnabled = ''503''"
| "code_string EC_JetStreamIdleHeartBeat = ''IDLE_HEARTBEAT''"
| "code_string EC_AuthorizationViolation = ''AUTHORIZATION_VIOLATION''"
| "code_string EC_AuthenticationExpired = ''AUTHENTICATION_EXPIRED''"
| "code_string EC_ProtocolError = ''NATS_PROTOCOL_ERR''"
| "code_string EC_PermissionsViolation = ''PERMISSIONS_VIOLATION''"
| "code_string EC_AuthenticationTimeout = ''AUTHENTICATION_TIMEOUT''"
| "code_string EC_AccountExpired = ''ACCOUNT_EXPIRED''"

section \<open>Errors\<close>

record api_error =
  api_code :: int
  api_description :: string
  api_err_code :: "int option"

record permission_context =
  perm_operation :: string
  perm_subject :: string
  perm_queue :: "string option"

text \<open>A plain JavaScript \<open>Error\<close>, or a \<open>NatsError\<close> with its code, permission context,
  chained error and API error.\<close>

datatype js_error =
    Plain_Error (err_message: string)
  | Nats_Error (err_message: string) (err_code: string)
      (err_permission: "permission_context option") (err_chained: "js_error option")
      (err_api: "api_error option")

definition nats_error :: "string \<Rightarrow> string \<Rightarrow> js_error option \<Rightarrow> js_error" where
  "nats_error message code chained = Nats_Error message code None chained None"

fun is_nats_error :: "js_error \<Rightarrow> bool" where
  "is_nats_error (Plain_Error m) = False"
| "is_nats_error (Nats_Error m c p ch a) = True"

text \<open>\<open>quoted s\<close> puts a string between single quotes, as the messages of the client do.\<close>

definition quoted :: "string \<Rightarrow> string" where
  "quoted s = [CHR 0x27] @ s @ [CHR 0x27]"

definition messages_table :: "(string \<times> string) list" where
  "messages_table =
     [(code_string EC_InvalidPayload,
        ''Invalid payload type - payloads can be '' @ quoted ''binary'' @ '', '' @
        quoted ''string'' @ '', or '' @ quoted ''json''),
      (code_string EC_BadJson, ''Bad JSON''),
      (code_string EC_WssRequired,
        ''TLS is required, therefore a secure websocket connection is also required'')]"

definition get_message :: "string \<Rightarrow> string" where
  "get_message s = (case map_of messages_table s of Some m \<Rightarrow> m | None \<Rightarrow> s)"

definition error_for_code :: "error_code \<Rightarrow> js_error option \<Rightarrow> js_error" where
  "error_for_code c chained = nats_error (get_message (code_string c)) (code_string c) chained"

definition has_code :: "js_error \<Rightarrow> error_code \<Rightarrow> bool" where
  "has_code e c \<longleftrightarrow> is_nats_error e \<and> err_code e = code_string c"

definition is_auth_error :: "js_error \<Rightarrow> bool" where
  "is_auth_error e \<longleftrightarrow> has_code e EC_AuthenticationExpired
     \<or> has_code e EC_AuthorizationViolation \<or> has_code e EC_AccountExpired"

definition is_auth_timeout :: "js_error \<Rightarrow> bool" where
  "is_auth_timeout e \<longleftrightarrow> has_code e EC_AuthenticationTimeout"

definition is_permission_error :: "js_error \<Rightarrow> bool" where
  "is_permission_error e \<longleftrightarrow> has_code e EC_PermissionsViolation"

definition is_protocol_error :: "js_error \<Rightarrow> bool" where
  "is_protocol_error e \<longleftrightarrow> has_code e EC_ProtocolError"

definition is_jetstream_error :: "js_error \<Rightarrow> bool" where
  "is_jetstream_error e \<longleftrightarrow> is_nats_error e \<and> err_api e \<noteq> None"

lemma is_nats_error_nats_error [simp]: "is_nats_error (nats_error m c ch)"
  by (simp add: nats_error_def)

lemma err_code_nats_error [simp]: "err_code (nats_error m c ch) = c"
  by (simp add: nats_error_def)

lemma has_code_error_for_code [simp]:
  "has_code (error_for_code c ch) d \<longleftrightarrow> code_string c = code_string d"
  by (simp add: has_code_def error_for_code_def)

section \<open>Events of a connection\<close>

datatype status_event =
    Ev_Disconnect string | Ev_Reconnect string | Ev_LDM string
  | Ev_Update "string list" "string list"
  | Ev_Error string "permission_context option"
  | Ev_Reconnecting string | Ev_PingTimer nat | Ev_StaleConnection
  | Ev_ClientInitiatedReconnect

section \<open>Header matching\<close>

datatype match_mode = Exact | CanonicalMIME | IgnoreCase

end
