(* ===== verification/Headers.thy ===== *)
theory Headers
  imports Nats_Core "HOL-Library.List_Lexorder" "HOL-Library.Char_ord" "HOL-Library.Multiset"
begin

text \<open>
  Message headers, \<open>nats-base-client/headers.ts\<close>: \<open>canonicalMIMEHeaderKey\<close> and
  \<open>MsgHdrsImpl\<close> with its status line and its map from keys to lists of values. An operation
  that mutates the object and may throw returns the object beside the result, so that what
  an operation did before it threw is visible.
\<close>

section \<open>Canonical keys\<close>

text \<open>The body of the loop, from the flag \<open>upper\<close> and the rest of the key.\<close>

fun canonical_from :: "bool \<Rightarrow> string \<Rightarrow> js_error + string" where
  "canonical_from upper [] = Inr []"
| "canonical_from upper (k # ks) =
     (let c = char_code k in
      if c = 58 \<or> c < 33 \<or> c > 126
      then Inl (nats_error (quoted [k] @ '' is not a valid character for a header key'')
                 (code_string EC_BadHeader) None)
      else let c' = (if upper \<and> 97 \<le> c \<and> c \<le> 122 then c - 32
                     else if \<not> upper \<and> 65 \<le> c \<and> c \<le> 90 then c + 32 else c)
           in rbind (canonical_from (c' = 45) ks) (\<lambda>r. Inr (char_of c' # r)))"

definition canonicalMIMEHeaderKey :: "string \<Rightarrow> js_error + string" where
  "canonicalMIMEHeaderKey k = canonical_from True k"

section \<open>The header object\<close>

record msg_hdrs =
  hd_code :: int
  hd_map :: "(string \<times> string list) list"
  hd_description :: string

definition new_hdrs :: "int \<Rightarrow> string \<Rightarrow> msg_hdrs" where
  "new_hdrs c d = \<lparr>hd_code = c, hd_map = [], hd_description = d\<rparr>"

definition headers_fn :: "int \<Rightarrow> string \<Rightarrow> js_error + msg_hdrs" where
  "headers_fn c d =
     (if (c = 0 \<and> d \<noteq> []) \<or> (c > 0 \<and> d = [])
      then Inl (Plain_Error ''setting status requires both code and description'')
      else Inr (new_hdrs c d))"

definition hdr_size :: "msg_hdrs \<Rightarrow> nat" where
  "hdr_size h = length (hd_map h)"

definition hdr_keys :: "msg_hdrs \<Rightarrow> string list" where
  "hdr_keys h = map fst (hd_map h)"

definition find_keys :: "msg_hdrs \<Rightarrow> string \<Rightarrow> match_mode \<Rightarrow> js_error + string list" where
  "find_keys h k m =
     (case m of
        Exact \<Rightarrow> Inr (filter (\<lambda>v. v = k) (hdr_keys h))
      | CanonicalMIME \<Rightarrow>
          rbind (canonicalMIMEHeaderKey k) (\<lambda>ck. Inr (filter (\<lambda>v. v = ck) (hdr_keys h)))
      | IgnoreCase \<Rightarrow> Inr (filter (\<lambda>v. to_lower k = to_lower v) (hdr_keys h)))"

text \<open>\<open>get\<close> and \<open>last\<close>; \<open>None\<close> is the \<open>undefined\<close> of an empty value list.\<close>

definition hdr_get :: "msg_hdrs \<Rightarrow> string \<Rightarrow> match_mode \<Rightarrow> js_error + string option" where
  "hdr_get h k m = rbind (find_keys h k m) (\<lambda>keys.
     case keys of [] \<Rightarrow> Inr (Some [])
     | key # _ \<Rightarrow> (case map_of (hd_map h) key of
          None \<Rightarrow> Inr (Some [])
        | Some [] \<Rightarrow> Inr None
        | Some (v # vs) \<Rightarrow> Inr (Some v)))"

definition hdr_last :: "msg_hdrs \<Rightarrow> string \<Rightarrow> match_mode \<Rightarrow> js_error + string option" where
  "hdr_last h k m = rbind (find_keys h k m) (\<lambda>keys.
     case keys of [] \<Rightarrow> Inr (Some [])
     | key # _ \<Rightarrow> (case map_of (hd_map h) key of
          None \<Rightarrow> Inr (Some [])
        | Some vs \<Rightarrow> Inr (if vs = [] then None else Some (last vs))))"

definition hdr_has :: "msg_hdrs \<Rightarrow> string \<Rightarrow> match_mode \<Rightarrow> js_error + bool" where
  "hdr_has h k m = rbind (find_keys h k m) (\<lambda>keys. Inr (0 < length keys))"

definition hdr_values :: "msg_hdrs \<Rightarrow> string \<Rightarrow> match_mode \<Rightarrow> js_error + string list" where
  "hdr_values h k m = rbind (find_keys h k m) (\<lambda>keys.
     Inr (concat (map (\<lambda>v. case map_of (hd_map h) v of None \<Rightarrow> [] | Some vs \<Rightarrow> vs) keys)))"

definition valid_header_value :: "string \<Rightarrow> js_error + string" where
  "valid_header_value v =
     (if CR \<in> set v \<or> LF \<in> set v
      then Inl (nats_error (''invalid header value - '' @ [CHR 0x5C] @ ''r and '' @ [CHR 0x5C]
                 @ ''n are not allowed.'')
                 (code_string EC_BadHeader) None)
      else Inr (js_trim v))"

definition hdr_append ::
  "msg_hdrs \<Rightarrow> string \<Rightarrow> string \<Rightarrow> match_mode \<Rightarrow> msg_hdrs \<times> (js_error + unit)" where
  "hdr_append h k v m =
     (case canonicalMIMEHeaderKey k of
        Inl e \<Rightarrow> (h, Inl e)
      | Inr ck \<Rightarrow>
          let k1 = (if m = CanonicalMIME then ck else k) in
          case find_keys h k1 m of
            Inl e \<Rightarrow> (h, Inl e)
          | Inr keys \<Rightarrow>
              let k2 = (if keys \<noteq> [] then hd keys else k1) in
              case valid_header_value v of
                Inl e \<Rightarrow> (h, Inl e)
              | Inr value \<Rightarrow>
                  let a = (case map_of (hd_map h) k2 of None \<Rightarrow> [] | Some vs \<Rightarrow> vs)
                  in (h\<lparr>hd_map := AList.update k2 (a @ [value]) (hd_map h)\<rparr>, Inr ()))"

definition hdr_delete ::
  "msg_hdrs \<Rightarrow> string \<Rightarrow> match_mode \<Rightarrow> msg_hdrs \<times> (js_error + unit)" where
  "hdr_delete h k m =
     (case find_keys h k m of
        Inl e \<Rightarrow> (h, Inl e)
      | Inr keys \<Rightarrow> (h\<lparr>hd_map := fold AList.delete keys (hd_map h)\<rparr>, Inr ()))"

definition hdr_set ::
  "msg_hdrs \<Rightarrow> string \<Rightarrow> string \<Rightarrow> match_mode \<Rightarrow> msg_hdrs \<times> (js_error + unit)" where
  "hdr_set h k v m =
     (case hdr_delete h k m of
        (h', Inl e) \<Rightarrow> (h', Inl e)
      | (h', Inr u) \<Rightarrow> hdr_append h' k v m)"

definition hdr_has_error :: "msg_hdrs \<Rightarrow> bool" where
  "hdr_has_error h \<longleftrightarrow> hd_code h \<ge> 300"

definition hdr_status :: "msg_hdrs \<Rightarrow> string" where
  "hdr_status h = js_trim (show_int (hd_code h) @ '' '' @ hd_description h)"

text \<open>\<open>equals\<close>: the sizes, the codes and, key by key, the sorted values agree. The loop
  compares the sorted arrays index by index.\<close>

definition hdr_equals :: "msg_hdrs \<Rightarrow> msg_hdrs \<Rightarrow> bool" where
  "hdr_equals h mh \<longleftrightarrow>
     length (hd_map h) = length (hd_map mh) \<and> hd_code h = hd_code mh \<and>
     list_all (\<lambda>(k, v).
       case hdr_values mh k Exact of
         Inl e \<Rightarrow> False
       | Inr a \<Rightarrow> length v = length a \<and>
           list_all (\<lambda>i. sort v ! i = sort a ! i) [0..<length v]) (hd_map h)"

definition hdr_to_record :: "msg_hdrs \<Rightarrow> (string \<times> (js_error + string list)) list" where
  "hdr_to_record h = map (\<lambda>v. (v, hdr_values h v Exact)) (hdr_keys h)"

definition hdr_from_record :: "(string \<times> string list) list \<Rightarrow> msg_hdrs" where
  "hdr_from_record r = (new_hdrs 0 [])\<lparr>hd_map := fold (\<lambda>(k, v). AList.update k v) r []\<rparr>"

section \<open>The wire form\<close>

definition HEADER :: string where
  "HEADER = ''NATS/1.0''"

definition header_line :: "string \<Rightarrow> string \<Rightarrow> string" where
  "header_line k v = [CR, LF] @ k @ '': '' @ v"

definition hdr_to_string :: "msg_hdrs \<Rightarrow> string" where
  "hdr_to_string h =
     (if hd_map h = [] \<and> hd_code h = 0 then []
      else HEADER
        @ (if hd_code h > 0 \<and> hd_description h \<noteq> []
           then '' '' @ show_int (hd_code h) @ '' '' @ hd_description h else [])
        @ concat (map (\<lambda>(k, v). concat (map (header_line k) v)) (hd_map h))
        @ [CR, LF, CR, LF])"

definition hdr_encode :: "msg_hdrs \<Rightarrow> bytes" where
  "hdr_encode h = te_encode (hdr_to_string h)"

text \<open>The first line of \<open>decode\<close>: the code and description after the version.\<close>

definition decode_status :: "string \<Rightarrow> msg_hdrs \<Rightarrow> msg_hdrs" where
  "decode_status h mh =
     (if h = HEADER then mh
      else let str = js_trim (remove_first HEADER h) in
           if str = [] then mh
           else let code = (case parse_int str of None \<Rightarrow> 0 | Some n \<Rightarrow> n);
                    str' = remove_first (show_int code) str
                in mh\<lparr>hd_code := code, hd_description := js_trim str'\<rparr>)"

definition decode_line :: "string \<Rightarrow> msg_hdrs \<Rightarrow> msg_hdrs \<times> (js_error + unit)" where
  "decode_line s mh =
     (if s = [] then (mh, Inr ())
      else case index_of CHR '':'' s of
             None \<Rightarrow> (mh, Inr ())
           | Some idx \<Rightarrow> hdr_append mh (take idx s) (js_trim (drop (idx + 1) s)) Exact)"

fun decode_lines :: "string list \<Rightarrow> msg_hdrs \<Rightarrow> js_error + msg_hdrs" where
  "decode_lines [] mh = Inr mh"
| "decode_lines (s # ls) mh =
     (case decode_line s mh of
        (mh', Inl e) \<Rightarrow> Inl e
      | (mh', Inr u) \<Rightarrow> decode_lines ls mh')"

definition hdr_decode :: "bytes \<Rightarrow> js_error + msg_hdrs" where
  "hdr_decode a =
     (let ls = split_crlf (td_decode a)
      in decode_lines (tl ls) (decode_status (hd ls) (new_hdrs 0 [])))"

section \<open>Keys\<close>

definition valid_key :: "string \<Rightarrow> bool" where
  "valid_key k \<longleftrightarrow> (\<forall>c \<in> set k. 33 \<le> char_code c \<and> char_code c \<le> 126 \<and> char_code c \<noteq> 58)"

definition flip_case :: "bool \<Rightarrow> char \<Rightarrow> char" where
  "flip_case upper k =
     (let c = char_code k in
      char_of (if upper \<and> 97 \<le> c \<and> c \<le> 122 then c - 32
               else if \<not> upper \<and> 65 \<le> c \<and> c \<le> 90 then c + 32 else c))"

fun canonical_pure :: "bool \<Rightarrow> string \<Rightarrow> string" where
  "canonical_pure upper [] = []"
| "canonical_pure upper (k # ks) = flip_case upper k # canonical_pure (char_code k = 45) ks"

lemma canonical_from_valid:
  "valid_key k \<Longrightarrow> canonical_from upper k = Inr (canonical_pure upper k)"
proof (induction k arbitrary: upper)
  case (Cons k ks)
  then have "33 \<le> char_code k" "char_code k \<le> 126" "char_code k \<noteq> 58" "valid_key ks"
    by (simp_all add: valid_key_def)
  moreover from this have "((if upper \<and> 97 \<le> char_code k \<and> char_code k \<le> 122 then char_code k - 32
       else if \<not> upper \<and> 65 \<le> char_code k \<and> char_code k \<le> 90 then char_code k + 32
       else char_code k) = 45) = (char_code k = 45)"
    by auto
  ultimately show ?case
    using Cons.IH by (simp add: Let_def flip_case_def)
qed simp

lemma canonical_from_invalid:
  "\<not> valid_key k \<Longrightarrow> isl (canonical_from upper k)"
proof (induction k arbitrary: upper)
  case (Cons k ks)
  show ?case
  proof (cases "char_code k = 58 \<or> char_code k < 33 \<or> char_code k > 126")
    case True
    then show ?thesis by (auto simp: Let_def)
  next
    case False
    with Cons.prems have "\<not> valid_key ks" by (auto simp: valid_key_def)
    then have "isl (canonical_from u ks)" for u by (rule Cons.IH)
    then have "isl (rbind (canonical_from u ks) f)" for u and f :: "string \<Rightarrow> js_error + string"
      by (metis isl_def rbind_simps(1))
    with False show ?thesis by (simp add: Let_def)
  qed
qed (simp add: valid_key_def)

lemma canonical_Inr_iff [simp]:
  "canonicalMIMEHeaderKey k = Inr k' \<longleftrightarrow> valid_key k \<and> k' = canonical_pure True k"
proof (cases "valid_key k")
  case True
  then show ?thesis
    unfolding canonicalMIMEHeaderKey_def canonical_from_valid [OF True] sum.inject
    by (simp only: True simp_thms eq_commute)
next
  case False
  then have "isl (canonical_from True k)" by (rule canonical_from_invalid)
  then obtain e where "canonical_from True k = Inl e" unfolding isl_def by (rule exE)
  with False show ?thesis by (simp add: canonicalMIMEHeaderKey_def)
qed

lemma canonical_valid [simp]:
  "valid_key k \<Longrightarrow> canonicalMIMEHeaderKey k = Inr (canonical_pure True k)"
  by simp

lemma flip_case_code [simp]: "char_code (flip_case u c) = 45 \<longleftrightarrow> char_code c = 45"
  using char_code_less [of c] by (auto simp: flip_case_def Let_def)

lemma flip_case_idem [simp]: "flip_case u (flip_case u c) = flip_case u c"
  using char_code_less [of c] by (auto simp: flip_case_def Let_def)

lemma lower_flip_case [simp]: "lower_char (flip_case u c) = lower_char c"
  using char_code_less [of c] by (auto simp: flip_case_def lower_char_def Let_def)

lemma code_lower_char:
  "char_code (lower_char c) =
     (if 65 \<le> char_code c \<and> char_code c \<le> 90 then char_code c + 32 else char_code c)"
  by (simp add: lower_char_def)

lemma lower_char_code_dash:
  assumes "lower_char c = lower_char d"
  shows "char_code c = 45 \<longleftrightarrow> char_code d = 45"
proof -
  have "char_code (lower_char c) = 45 \<longleftrightarrow> char_code c = 45" for c
    by (simp add: code_lower_char)
  with assms show ?thesis by metis
qed

lemma flip_case_lower: "flip_case u c = flip_case u (lower_char c)"
proof (cases "65 \<le> char_code c \<and> char_code c \<le> 90")
  case True
  then show ?thesis by (cases u) (simp_all add: flip_case_def Let_def code_lower_char)
next
  case False
  then have "lower_char c = c" unfolding lower_char_def by (rule if_not_P)
  then show ?thesis by simp
qed

lemma canonical_pure_idem [simp]: "canonical_pure u (canonical_pure u k) = canonical_pure u k"
  by (induction k arbitrary: u) simp_all

lemma to_lower_canonical [simp]: "to_lower (canonical_pure u k) = to_lower k"
  by (induction k arbitrary: u) (simp_all add: to_lower_def)

lemma canonical_pure_lower_cong:
  "to_lower j = to_lower k \<Longrightarrow> canonical_pure u j = canonical_pure u k"
proof (induction j arbitrary: u k)
  case Nil
  then show ?case by (simp add: to_lower_def)
next
  case (Cons c j)
  then obtain d k' where k: "k = d # k'" "lower_char c = lower_char d" "to_lower j = to_lower k'"
    by (auto simp: to_lower_def)
  then have "flip_case u c = flip_case u d" by (metis flip_case_lower)
  moreover have "(char_code c = 45) = (char_code d = 45)"
    using k(2) by (rule lower_char_code_dash)
  ultimately show ?case using k(1) Cons.IH [OF k(3)] by simp
qed

lemma valid_canonical_pure [simp]: "valid_key k \<Longrightarrow> valid_key (canonical_pure u k)"
proof (induction k arbitrary: u)
  case (Cons c k)
  from Cons.prems have "33 \<le> char_code c" "char_code c \<le> 126" "char_code c \<noteq> 58" "valid_key k"
    by (simp_all add: valid_key_def)
  then have "33 \<le> char_code (flip_case u c) \<and> char_code (flip_case u c) \<le> 126
      \<and> char_code (flip_case u c) \<noteq> 58"
    unfolding flip_case_def Let_def by (cases u) auto
  moreover have "valid_key (canonical_pure (char_code c = 45) k)"
    using \<open>valid_key k\<close> by (rule Cons.IH)
  ultimately show ?case unfolding valid_key_def by simp
qed simp

text \<open>
  A valid header key has exactly one canonical form: canonicalising it again changes
  nothing, and two valid keys have the same canonical form exactly when they differ only in
  the case of their letters.
\<close>
theorem canonical_keys:
  assumes "valid_key j" "valid_key k"
  shows "(\<exists>c. canonicalMIMEHeaderKey k = Inr c \<and> canonicalMIMEHeaderKey c = Inr c)
    \<and> (canonicalMIMEHeaderKey j = canonicalMIMEHeaderKey k \<longleftrightarrow> to_lower j = to_lower k)"
proof
  show "\<exists>c. canonicalMIMEHeaderKey k = Inr c \<and> canonicalMIMEHeaderKey c = Inr c"
    using assms by auto
next
  have "canonical_pure True j = canonical_pure True k \<longleftrightarrow> to_lower j = to_lower k"
    using canonical_pure_lower_cong by (metis to_lower_canonical)
  with assms show "canonicalMIMEHeaderKey j = canonicalMIMEHeaderKey k \<longleftrightarrow> to_lower j = to_lower k"
    by simp
qed

theorem canonical_keys_witness:
  "canonicalMIMEHeaderKey ''nats-msg-id'' = canonicalMIMEHeaderKey ''NATS-Msg-iD''"
proof -
  have "valid_key ''nats-msg-id''" "valid_key ''NATS-Msg-iD''"
    by (simp_all add: valid_key_def char_code_def)
  moreover have "to_lower ''nats-msg-id'' = to_lower ''NATS-Msg-iD''"
    by code_simp
  ultimately show ?thesis
    using canonical_keys [of "''nats-msg-id''" "''NATS-Msg-iD''"] by blast
qed

section \<open>Well-formed headers\<close>

text \<open>What holds of every header object built by the operations: each key once, each key
  valid, with at least one value, each value trimmed and without line breaks.\<close>

definition ok_value :: "string \<Rightarrow> bool" where
  "ok_value v \<longleftrightarrow> CR \<notin> set v \<and> LF \<notin> set v \<and> js_trim v = v"

definition entry_ok :: "string \<times> string list \<Rightarrow> bool" where
  "entry_ok e \<longleftrightarrow> valid_key (fst e) \<and> snd e \<noteq> [] \<and> (\<forall>v \<in> set (snd e). ok_value v)"

definition hdrs_ok :: "msg_hdrs \<Rightarrow> bool" where
  "hdrs_ok h \<longleftrightarrow> distinct (map fst (hd_map h)) \<and> (\<forall>e \<in> set (hd_map h). entry_ok e)"

lemma valid_header_value_Inr [simp]:
  "valid_header_value v = Inr w \<longleftrightarrow> CR \<notin> set v \<and> LF \<notin> set v \<and> w = js_trim v"
  by (auto simp: valid_header_value_def)

lemma ok_value_js_trim: "CR \<notin> set v \<Longrightarrow> LF \<notin> set v \<Longrightarrow> ok_value (js_trim v)"
  using set_js_trim [of v] by (auto simp: ok_value_def)

lemma find_keys_subset: "find_keys h k m = Inr ks \<Longrightarrow> set ks \<subseteq> set (hdr_keys h)"
  by (cases m) (auto simp: find_keys_def result_simps)

lemma find_keys_Exact [simp]: "find_keys h k Exact = Inr (filter (\<lambda>v. v = k) (hdr_keys h))"
  by (simp add: find_keys_def)

text \<open>The key an append goes to: the first key that matches, or the key itself.\<close>

definition target_key :: "msg_hdrs \<Rightarrow> string \<Rightarrow> match_mode \<Rightarrow> string" where
  "target_key h k m =
     (let k1 = (if m = CanonicalMIME then canonical_pure True k else k) in
      case find_keys h k1 m of Inl e \<Rightarrow> k1 | Inr keys \<Rightarrow> if keys \<noteq> [] then hd keys else k1)"

definition values_of :: "msg_hdrs \<Rightarrow> string \<Rightarrow> string list" where
  "values_of h k = (case map_of (hd_map h) k of None \<Rightarrow> [] | Some vs \<Rightarrow> vs)"

lemma find_keys_ok: "valid_key k \<Longrightarrow> \<exists>ks. find_keys h k m = Inr ks"
  by (cases m) (simp_all add: find_keys_def)

lemma hdr_append_ok:
  assumes "valid_key k" "CR \<notin> set v" "LF \<notin> set v"
  shows "hdr_append h k v m =
    (h\<lparr>hd_map := AList.update (target_key h k m) (values_of h (target_key h k m) @ [js_trim v])
        (hd_map h)\<rparr>, Inr ())"
proof -
  let ?k1 = "if m = CanonicalMIME then canonical_pure True k else k"
  have "valid_key ?k1" using assms(1) by simp
  then obtain ks where ks: "find_keys h ?k1 m = Inr ks" using find_keys_ok by blast
  have v: "valid_header_value v = Inr (js_trim v)" using assms by simp
  show ?thesis
    using ks v
    by (simp add: hdr_append_def assms(1) target_key_def values_of_def Let_def del: valid_header_value_Inr)
qed

lemma hdr_append_cases:
  "(\<exists>e. hdr_append h k v m = (h, Inl e)) \<or> (valid_key k \<and> CR \<notin> set v \<and> LF \<notin> set v)"
proof (cases "valid_key k")
  case True
  let ?k1 = "if m = CanonicalMIME then canonical_pure True k else k"
  have "valid_key ?k1" using True by simp
  then obtain ks where ks: "find_keys h ?k1 m = Inr ks" using find_keys_ok by blast
  with True show ?thesis
    by (cases "CR \<in> set v \<or> LF \<in> set v")
      (auto simp: hdr_append_def valid_header_value_def Let_def)
next
  case False
  then show ?thesis
    by (cases "canonicalMIMEHeaderKey k") (auto simp: hdr_append_def)
qed

lemma target_key_in:
  "target_key h k m \<in> set (hdr_keys h) \<or>
   target_key h k m = (if m = CanonicalMIME then canonical_pure True k else k)"
  using find_keys_subset [of h "if m = CanonicalMIME then canonical_pure True k else k" m]
  by (auto simp: target_key_def Let_def split: sum.splits) (metis hd_in_set subsetD)+

lemma hdrs_ok_valid_key: "hdrs_ok h \<Longrightarrow> k \<in> set (hdr_keys h) \<Longrightarrow> valid_key k"
  by (auto simp: hdrs_ok_def hdr_keys_def entry_ok_def)

lemma hdrs_ok_values:
  assumes "hdrs_ok h" "v \<in> set (values_of h k)"
  shows "ok_value v"
proof (cases "map_of (hd_map h) k")
  case (Some vs)
  then have "(k, vs) \<in> set (hd_map h)" by (rule map_of_SomeD)
  with assms Some show ?thesis by (auto simp: hdrs_ok_def values_of_def entry_ok_def)
qed (use assms in \<open>simp add: values_of_def\<close>)

lemma hdrs_ok_update:
  assumes "hdrs_ok h" "valid_key k" "ok_value v"
  shows "hdrs_ok (h\<lparr>hd_map := AList.update k (values_of h k @ [v]) (hd_map h)\<rparr>)"
proof -
  have "set (AList.update k (values_of h k @ [v]) (hd_map h))
      \<subseteq> insert (k, values_of h k @ [v]) (set (hd_map h))"
    by (rule set_update_subset)
  moreover have "entry_ok (k, values_of h k @ [v])"
    using assms hdrs_ok_values [OF assms(1)] by (auto simp: entry_ok_def)
  moreover have "\<forall>e \<in> set (hd_map h). entry_ok e" "distinct (map fst (hd_map h))"
    using assms(1) by (simp_all add: hdrs_ok_def)
  ultimately have "\<forall>e \<in> set (AList.update k (values_of h k @ [v]) (hd_map h)). entry_ok e"
    by blast
  then show ?thesis
    using \<open>distinct (map fst (hd_map h))\<close> by (simp add: hdrs_ok_def distinct_update)
qed

lemma hdr_append_preserves:
  assumes "hdrs_ok h"
  shows "hdrs_ok (fst (hdr_append h k v m))"
proof (cases "valid_key k \<and> CR \<notin> set v \<and> LF \<notin> set v")
  case True
  moreover have "valid_key (target_key h k m)"
    using target_key_in [of h k m] hdrs_ok_valid_key [OF assms] True by (auto split: if_splits)
  ultimately show ?thesis
    using hdrs_ok_update [OF assms] ok_value_js_trim by (simp add: hdr_append_ok)
next
  case False
  then show ?thesis using hdr_append_cases [of h k v m] assms by auto
qed

lemma hdr_delete_Inr:
  "find_keys h k m = Inr ks \<Longrightarrow>
    hdr_delete h k m = (h\<lparr>hd_map := filter (\<lambda>(j, vs). j \<notin> set ks) (hd_map h)\<rparr>, Inr ())"
  by (simp add: hdr_delete_def fold_delete)

lemma hdr_delete_preserves:
  assumes "hdrs_ok h"
  shows "hdrs_ok (fst (hdr_delete h k m))"
proof (cases "find_keys h k m")
  case (Inl e)
  with assms show ?thesis by (simp add: hdr_delete_def)
next
  case (Inr ks)
  with assms show ?thesis
    by (auto simp: hdr_delete_Inr hdrs_ok_def distinct_map_filter)
qed

lemma hdr_set_preserves:
  assumes "hdrs_ok h"
  shows "hdrs_ok (fst (hdr_set h k v m))"
  using hdr_delete_preserves [OF assms, of k m] hdr_append_preserves
  by (cases "hdr_delete h k m"; cases "snd (hdr_delete h k m)") (auto simp: hdr_set_def)

lemma decode_line_preserves: "hdrs_ok h \<Longrightarrow> hdrs_ok (fst (decode_line s h))"
  using hdr_append_preserves by (simp add: decode_line_def split: option.splits)

lemma decode_lines_preserves: "hdrs_ok h \<Longrightarrow> decode_lines ls h = Inr h' \<Longrightarrow> hdrs_ok h'"
proof (induction ls arbitrary: h)
  case (Cons s ls)
  obtain g r where g: "decode_line s h = (g, r)" by (cases "decode_line s h")
  with Cons.prems decode_line_preserves [of h s] have "hdrs_ok g" by simp
  moreover from Cons.prems g have "decode_lines ls g = Inr h'" by (cases r) auto
  ultimately show ?case by (rule Cons.IH)
qed simp

lemma decode_preserves: "hdr_decode a = Inr h \<Longrightarrow> hdrs_ok h"
proof -
  assume a: "hdr_decode a = Inr h"
  have "hd_map (decode_status s (new_hdrs 0 [])) = []" for s
    by (simp add: decode_status_def new_hdrs_def Let_def)
  then have "hdrs_ok (decode_status s (new_hdrs 0 []))" for s
    by (simp add: hdrs_ok_def)
  with a show ?thesis unfolding hdr_decode_def Let_def using decode_lines_preserves by blast
qed

text \<open>
  Every header object is well formed: the object a decode returns is, and appending,
  setting or deleting keeps a well-formed object well formed, also when the operation throws.
\<close>
theorem header_operations_preserve:
  assumes "hdrs_ok h"
  shows "hdrs_ok (fst (hdr_append h k v m)) \<and> hdrs_ok (fst (hdr_set h k v m))
    \<and> hdrs_ok (fst (hdr_delete h k m)) \<and> (\<forall>a g. hdr_decode a = Inr g \<longrightarrow> hdrs_ok g)"
  using assms hdr_append_preserves hdr_set_preserves hdr_delete_preserves decode_preserves
  by blast

theorem header_operations_preserve_witness:
  "hdrs_ok (fst (hdr_append (new_hdrs 0 []) ''a'' '' b '' Exact))"
proof -
  have "hdrs_ok (new_hdrs 0 [])" by (simp add: hdrs_ok_def new_hdrs_def)
  then show ?thesis using header_operations_preserve by blast
qed

section \<open>The wire form is read back\<close>

definition status_ok :: "msg_hdrs \<Rightarrow> bool" where
  "status_ok h \<longleftrightarrow> (hd_code h = 0 \<and> hd_description h = [])
     \<or> (0 < hd_code h \<and> hd_code h < 2 ^ 53 \<and> hd_description h \<noteq> [] \<and> ok_value (hd_description h))"

lemma split_crlf_lines:
  assumes "LF \<notin> set a" "\<forall>l \<in> set ls. LF \<notin> set l"
  shows "split_crlf (a @ concat (map (\<lambda>l. CR # LF # l) ls) @ [CR, LF, CR, LF]) = a # ls @ [[], []]"
  using assms
proof (induction ls arbitrary: a)
  case Nil
  then show ?case using split_crlf_append [of a "[CR, LF]"] by simp
next
  case (Cons l ls)
  then show ?case
    using split_crlf_append [of a "l @ concat (map (\<lambda>l. CR # LF # l) ls) @ [CR, LF, CR, LF]"]
    by simp
qed

lemma decode_one_line:
  assumes "valid_key k" "ok_value v"
  shows "decode_line (k @ '': '' @ v) h = hdr_append h k v Exact"
proof -
  have "CHR '':'' \<notin> set k" using assms(1) by (auto simp: valid_key_def char_code_def)
  then have "index_of CHR '':'' (k @ '': '' @ v) = Some (length k)"
    using index_of_append [of "CHR '':''" k "'' '' @ v"] by simp
  then show ?thesis using assms(2) by (simp add: decode_line_def ok_value_def)
qed

lemma target_key_Exact [simp]: "target_key h k Exact = k"
proof -
  have "filter (\<lambda>v. v = k) ks \<noteq> [] \<Longrightarrow> hd (filter (\<lambda>v. v = k) ks) = k" for ks
    by (induction ks) auto
  then show ?thesis by (simp add: target_key_def Let_def)
qed

lemma append_Exact:
  assumes "valid_key k" "ok_value v"
  shows "hdr_append h k v Exact = (h\<lparr>hd_map := AList.update k (values_of h k @ [v]) (hd_map h)\<rparr>, Inr ())"
  using assms hdr_append_ok [of k v h Exact] by (simp add: ok_value_def)

lemma decode_more_values:
  assumes "valid_key k" "\<forall>v \<in> set vs. ok_value v"
    "hd_map h = al @ [(k, ws)]" "k \<notin> fst ` set al"
  shows "decode_lines (map (\<lambda>v. k @ '': '' @ v) vs @ ls) h =
    decode_lines ls (h\<lparr>hd_map := al @ [(k, ws @ vs)]\<rparr>)"
  using assms
proof (induction vs arbitrary: h ws)
  case Nil
  then have "h\<lparr>hd_map := al @ [(k, ws)]\<rparr> = h" by simp
  then show ?case by simp
next
  case (Cons v vs)
  have "values_of h k = ws"
    using Cons.prems(3,4) by (simp add: values_of_def map_add_def map_of_eq_None_iff [THEN iffD2])
  then have "decode_line (k @ '': '' @ v) h = (h\<lparr>hd_map := al @ [(k, ws @ [v])]\<rparr>, Inr ())"
    using Cons.prems by (simp add: decode_one_line append_Exact update_last del: append.simps)
  then show ?case
    using Cons.IH [of "h\<lparr>hd_map := al @ [(k, ws @ [v])]\<rparr>" "ws @ [v]"] Cons.prems by simp
qed

lemma decode_values:
  assumes "valid_key k" "\<forall>v \<in> set vs. ok_value v" "vs \<noteq> []" "k \<notin> fst ` set (hd_map h)"
  shows "decode_lines (map (\<lambda>v. k @ '': '' @ v) vs @ ls) h =
    decode_lines ls (h\<lparr>hd_map := hd_map h @ [(k, vs)]\<rparr>)"
proof (cases vs)
  case (Cons v ws)
  have "values_of h k = []"
    using assms(4) by (simp add: values_of_def map_of_eq_None_iff [THEN iffD2])
  then have "decode_line (k @ '': '' @ v) h = (h\<lparr>hd_map := hd_map h @ [(k, [v])]\<rparr>, Inr ())"
    using assms Cons by (simp add: decode_one_line append_Exact update_absent del: append.simps)
  then show ?thesis
    using decode_more_values [of k ws "h\<lparr>hd_map := hd_map h @ [(k, [v])]\<rparr>" "hd_map h" "[v]" ls]
      assms Cons by simp
qed (use assms in simp)

lemma decode_entries:
  assumes "\<forall>e \<in> set es. entry_ok e" "distinct (map fst es)"
    "fst ` set es \<inter> fst ` set (hd_map h) = {}"
  shows "decode_lines (concat (map (\<lambda>(k, vs). map (\<lambda>v. k @ '': '' @ v) vs) es) @ ls) h =
    decode_lines ls (h\<lparr>hd_map := hd_map h @ es\<rparr>)"
  using assms
proof (induction es arbitrary: h)
  case (Cons e es)
  obtain k vs where e: "e = (k, vs)" by (cases e)
  have "decode_lines (map (\<lambda>v. k @ '': '' @ v) vs
        @ concat (map (\<lambda>(k, vs). map (\<lambda>v. k @ '': '' @ v) vs) es) @ ls) h =
      decode_lines (concat (map (\<lambda>(k, vs). map (\<lambda>v. k @ '': '' @ v) vs) es) @ ls)
        (h\<lparr>hd_map := hd_map h @ [(k, vs)]\<rparr>)"
    using Cons.prems e by (intro decode_values) (auto simp: entry_ok_def)
  also have "\<dots> = decode_lines ls (h\<lparr>hd_map := hd_map h @ [(k, vs)], hd_map := hd_map h @ (k, vs) # es\<rparr>)"
    using Cons.IH [of "h\<lparr>hd_map := hd_map h @ [(k, vs)]\<rparr>"] Cons.prems e by auto
  finally show ?case using e by simp
qed simp

lemma long_space_no_blank:
  "w \<in> set js_spaces \<Longrightarrow> w = '' '' \<or> CHR '' '' \<notin> set w"
  by (auto simp: js_spaces_def)

lemma trailing_space_append:
  assumes "trailing_space d = None" "d \<noteq> []"
  shows "trailing_space (x @ CHR '' '' # d) = None"
proof (rule ccontr)
  assume "trailing_space (x @ CHR '' '' # d) \<noteq> None"
  then obtain w where w: "w \<in> set js_spaces" "length w \<le> length (x @ CHR '' '' # d)"
      "drop (length (x @ CHR '' '' # d) - length w) (x @ CHR '' '' # d) = w"
    by (auto simp: trailing_space_def find_Some_iff find_None_iff)
  have notd: "\<not> (length w \<le> length d \<and> drop (length d - length w) d = w)"
    using assms(1) w(1) by (auto simp: trailing_space_def find_None_iff)
  show False
  proof (cases "length w \<le> length d")
    case True
    then have "drop (length (x @ CHR '' '' # d) - length w) (x @ CHR '' '' # d) = drop (length d - length w) d"
      by (simp add: drop_Cons')
    with True w notd show False by simp
  next
    case False
    then have "length (x @ CHR '' '' # d) - length w \<le> length x" by simp
    then have "w = drop (length (x @ CHR '' '' # d) - length w) x @ CHR '' '' # d"
      using w(3) by simp
    then have "CHR '' '' \<in> set w" "w \<noteq> '' ''"
      using assms(2) by (metis in_set_conv_decomp, metis False Suc_leI append_Nil2 length_Cons
        length_greater_0_conv list.size(3) One_nat_def)
    then show False using long_space_no_blank [OF w(1)] by blast
  qed
qed

lemma js_trim_status:
  assumes "d \<noteq> []" "js_trim d = d"
  shows "js_trim (show_nat n @ '' '' @ d) = show_nat n @ '' '' @ d"
proof -
  obtain c s where cs: "show_nat n = c # s"
    using show_nat_nonempty by (metis list.exhaust)
  then have "is_digit c" using show_nat_hd_digit [of n] by simp
  then have "leading_space (show_nat n @ '' '' @ d) = None"
    using cs by (simp add: leading_space_digit)
  moreover have "trailing_space (show_nat n @ '' '' @ d) = None"
    using trailing_space_append [of d "show_nat n"] assms by (simp add: js_trim_iff)
  ultimately show ?thesis by (simp add: js_trim_iff)
qed

lemma decode_status_back:
  assumes "status_ok h"
  shows "decode_status (HEADER @ (if hd_code h > 0 \<and> hd_description h \<noteq> []
      then '' '' @ show_int (hd_code h) @ '' '' @ hd_description h else [])) (new_hdrs 0 [])
    = new_hdrs (hd_code h) (hd_description h)"
proof (cases "hd_code h > 0 \<and> hd_description h \<noteq> []")
  case True
  define d where "d = hd_description h"
  obtain n where n: "hd_code h = int n" using True by (metis less_imp_le nonneg_int_cases)
  have d: "d \<noteq> []" "js_trim d = d" "n < 2 ^ 53"
    using assms True n by (auto simp: status_ok_def ok_value_def d_def)
  have "parse_int (show_nat n @ '' '' @ d) = Some (int n)"
    using d(3) by (intro parse_int_show_nat) (auto simp: is_digit_def char_code_def)
  moreover have "js_trim (show_nat n @ '' '' @ d) = show_nat n @ '' '' @ d"
    using d by (intro js_trim_status) auto
  ultimately show ?thesis
    using True n d by (simp add: decode_status_def show_int_def new_hdrs_def flip: d_def)
next
  case False
  with assms show ?thesis by (auto simp: status_ok_def decode_status_def new_hdrs_def)
qed

definition header_lines :: "msg_hdrs \<Rightarrow> string list" where
  "header_lines h = concat (map (\<lambda>(k, vs). map (\<lambda>v. k @ '': '' @ v) vs) (hd_map h))"

lemma header_lines_string:
  "concat (map (\<lambda>(k, v). concat (map (header_line k) v)) es) =
   concat (map (\<lambda>l. CR # LF # l) (concat (map (\<lambda>(k, vs). map (\<lambda>v. k @ '': '' @ v) vs) es)))"
  by (induction es) (auto simp: header_line_def o_def)

lemma header_lines_no_LF:
  assumes "hdrs_ok h" "l \<in> set (header_lines h)"
  shows "LF \<notin> set l"
proof -
  obtain k vs v where "(k, vs) \<in> set (hd_map h)" "v \<in> set vs" and l: "l = k @ '': '' @ v"
    using assms(2) by (auto simp: header_lines_def)
  then have "valid_key k" "ok_value v"
    using assms(1) by (fastforce simp: hdrs_ok_def entry_ok_def)+
  then have "LF \<notin> set k" "LF \<notin> set v"
    by (auto simp: valid_key_def ok_value_def LF_def char_code_def)
  then show ?thesis by (auto simp: l LF_def)
qed

lemma LF_status:
  assumes "status_ok h"
  shows "LF \<notin> set (HEADER @ (if hd_code h > 0 \<and> hd_description h \<noteq> []
      then '' '' @ show_int (hd_code h) @ '' '' @ hd_description h else []))"
proof -
  have "LF \<notin> set (show_nat n)" for n
    using show_nat_all_digits [of n] by (auto simp: is_digit_def LF_def char_code_def)
  moreover have "LF \<notin> set HEADER" by (simp add: HEADER_def LF_def)
  moreover have "LF \<noteq> CHR '' ''" by (simp add: LF_def)
  ultimately show ?thesis
    using assms by (auto simp: status_ok_def show_int_def ok_value_def)
qed

lemma decode_encode:
  assumes "hdrs_ok h" "status_ok h"
  shows "hdr_decode (hdr_encode h) = Inr h"
proof (cases "hd_map h = [] \<and> hd_code h = 0")
  case True
  then have "h = new_hdrs 0 []"
    using assms(2) by (cases h) (auto simp: new_hdrs_def status_ok_def)
  then show ?thesis
    by (simp add: hdr_decode_def hdr_encode_def hdr_to_string_def new_hdrs_def decode_status_def
      td_decode_def Let_def)
next
  case False
  let ?a = "HEADER @ (if hd_code h > 0 \<and> hd_description h \<noteq> []
      then '' '' @ show_int (hd_code h) @ '' '' @ hd_description h else [])"
  have hs: "hdr_to_string h = ?a @ concat (map (\<lambda>l. CR # LF # l) (header_lines h)) @ [CR, LF, CR, LF]"
    using False unfolding hdr_to_string_def header_lines_string header_lines_def by auto
  have "split_crlf (hdr_to_string h) = ?a # header_lines h @ [[], []]"
    unfolding hs using LF_status [OF assms(2)] header_lines_no_LF [OF assms(1)]
    by (intro split_crlf_lines) auto
  moreover have "td_decode (hdr_encode h) = hdr_to_string h" by (simp add: hdr_encode_def)
  ultimately have "split_crlf (td_decode (hdr_encode h)) = ?a # header_lines h @ [[], []]" by simp
  then have "hdr_decode (hdr_encode h) =
      decode_lines (header_lines h @ [[], []]) (new_hdrs (hd_code h) (hd_description h))"
    using decode_status_back [OF assms(2)] by (simp add: hdr_decode_def)
  also have "\<dots> = decode_lines [[], []]
      ((new_hdrs (hd_code h) (hd_description h))\<lparr>hd_map := [] @ hd_map h\<rparr>)"
    using decode_entries [of "hd_map h" "new_hdrs (hd_code h) (hd_description h)" "[[], []]"]
      assms(1) by (simp add: header_lines_def hdrs_ok_def new_hdrs_def)
  finally show ?thesis by (simp add: decode_line_def new_hdrs_def)
qed

text \<open>
  C40: Decoding what \<open>encode\<close> printed gives the same headers back: the code, the description
  and every key with all its values in order, for every well-formed header object whose
  status is absent or a positive code with a trimmed description.
\<close>
theorem headers_round_trip:
  assumes "hdrs_ok h" "status_ok h"
  shows "hdr_decode (hdr_encode h) = Inr h"
  using assms by (rule decode_encode)

theorem headers_round_trip_witness:
  "hdr_decode (hdr_encode \<lparr>hd_code = 404, hd_map = [(''a'', [''1'', []]), (''B'', [''x y''])],
      hd_description = ''No Messages''\<rparr>)
    = Inr \<lparr>hd_code = 404, hd_map = [(''a'', [''1'', []]), (''B'', [''x y''])],
      hd_description = ''No Messages''\<rparr>"
proof (rule headers_round_trip)
  show "hdrs_ok \<lparr>hd_code = 404, hd_map = [(''a'', [''1'', []]), (''B'', [''x y''])],
      hd_description = ''No Messages''\<rparr>"
    by code_simp
  show "status_ok \<lparr>hd_code = 404, hd_map = [(''a'', [''1'', []]), (''B'', [''x y''])],
      hd_description = ''No Messages''\<rparr>"
    by code_simp
qed

section \<open>Lookup after a change\<close>

text \<open>\<open>key_matches m k j\<close>: the stored key \<open>j\<close> is one a lookup of \<open>k\<close> in mode \<open>m\<close> finds.\<close>

definition key_matches :: "match_mode \<Rightarrow> string \<Rightarrow> string \<Rightarrow> bool" where
  "key_matches m k j \<longleftrightarrow> (case m of Exact \<Rightarrow> j = k | CanonicalMIME \<Rightarrow> j = canonical_pure True k
     | IgnoreCase \<Rightarrow> to_lower k = to_lower j)"

lemma find_keys_filter:
  "valid_key k \<Longrightarrow> find_keys h k m = Inr (filter (key_matches m k) (hdr_keys h))"
  by (cases m) (auto simp: find_keys_def key_matches_def intro!: filter_cong)

lemma hdr_values_concat:
  "valid_key k \<Longrightarrow>
    hdr_values h k m = Inr (concat (map (values_of h) (filter (key_matches m k) (hdr_keys h))))"
  by (simp add: hdr_values_def find_keys_filter values_of_def [abs_def])

lemma values_of_update:
  "values_of (h\<lparr>hd_map := AList.update k vs (hd_map h)\<rparr>) j = (if j = k then vs else values_of h j)"
  by (simp add: values_of_def update_conv')

lemma keys_update:
  "hdr_keys (h\<lparr>hd_map := AList.update k vs (hd_map h)\<rparr>) =
    (if k \<in> set (hdr_keys h) then hdr_keys h else hdr_keys h @ [k])"
  by (simp add: hdr_keys_def update_keys)

lemma key_matches_self:
  "key_matches m k (if m = CanonicalMIME then canonical_pure True k else k)"
  by (cases m) (simp_all add: key_matches_def)

lemma key_matches_canonical:
  "key_matches m (if m = CanonicalMIME then canonical_pure True k else k) = key_matches m k"
  by (cases m) (simp_all add: key_matches_def fun_eq_iff)

lemma target_key_filter:
  assumes "valid_key k"
  shows "target_key h k m =
    (let ks = filter (key_matches m k) (hdr_keys h) in
     if ks \<noteq> [] then hd ks else if m = CanonicalMIME then canonical_pure True k else k)"
proof -
  have "valid_key (if m = CanonicalMIME then canonical_pure True k else k)" using assms by simp
  from find_keys_filter [OF this, of h m] show ?thesis
    unfolding key_matches_canonical by (simp add: target_key_def Let_def)
qed

lemma target_key_matches: "valid_key k \<Longrightarrow> key_matches m k (target_key h k m)"
  using key_matches_self [of m k] hd_in_set [of "filter (key_matches m k) (hdr_keys h)"]
  by (auto simp: target_key_filter Let_def)

lemma keys_delete:
  "find_keys h k m = Inr ks \<Longrightarrow>
    hdr_keys (fst (hdr_delete h k m)) = filter (\<lambda>j. j \<notin> set ks) (hdr_keys h)"
  by (simp add: hdr_delete_Inr hdr_keys_def filter_map o_def case_prod_unfold)

lemma values_of_delete:
  assumes "find_keys h k m = Inr ks"
  shows "values_of (fst (hdr_delete h k m)) j = (if j \<in> set ks then [] else values_of h j)"
  using map_of_filter_keys [of "\<lambda>j. j \<notin> set ks" "hd_map h" j] assms
  by (simp add: values_of_def hdr_delete_Inr)

text \<open>
  After a \<open>set\<close> of a valid key and value, in any mode, a lookup in the same mode gives
  exactly the new value, trimmed, and the values under every key the mode does not match are
  untouched.
\<close>
theorem set_then_lookup:
  assumes "valid_key k" "CR \<notin> set v" "LF \<notin> set v"
  shows "snd (hdr_set h k v m) = Inr ()
    \<and> hdr_values (fst (hdr_set h k v m)) k m = Inr [js_trim v]
    \<and> hdr_get (fst (hdr_set h k v m)) k m = Inr (Some (js_trim v))
    \<and> (\<forall>j. \<not> key_matches m k j \<longrightarrow> values_of (fst (hdr_set h k v m)) j = values_of h j)"
proof -
  define g where "g = fst (hdr_delete h k m)"
  define t where "t = (if m = CanonicalMIME then canonical_pure True k else k)"
  have ks: "find_keys h k m = Inr (filter (key_matches m k) (hdr_keys h))"
    using assms(1) by (rule find_keys_filter)
  have kg: "hdr_keys g = filter (\<lambda>j. j \<notin> set (filter (key_matches m k) (hdr_keys h))) (hdr_keys h)"
    unfolding g_def by (rule keys_delete [OF ks])
  then have none: "filter (key_matches m k) (hdr_keys g) = []"
    by (simp add: filter_empty_conv)
  then have tk: "target_key g k m = t"
    using assms(1) by (simp add: target_key_filter t_def)
  have mt: "key_matches m k t" unfolding t_def by (rule key_matches_self)
  with none have notin: "t \<notin> set (hdr_keys g)" by (auto simp: filter_empty_conv)
  then have "values_of g t = []"
    by (simp add: values_of_def hdr_keys_def map_of_eq_None_iff [THEN iffD2])
  moreover have "hdr_delete h k m = (g, Inr ())" by (simp add: g_def hdr_delete_Inr [OF ks])
  ultimately have set: "hdr_set h k v m =
      (g\<lparr>hd_map := AList.update t [js_trim v] (hd_map g)\<rparr>, Inr ())"
    using tk by (simp add: hdr_set_def hdr_append_ok [OF assms])
  then have keys: "filter (key_matches m k) (hdr_keys (fst (hdr_set h k v m))) = [t]"
    using none notin mt by (simp add: keys_update)
  have new: "values_of (fst (hdr_set h k v m)) t = [js_trim v]"
    by (simp add: set values_of_update)
  have "hdr_values (fst (hdr_set h k v m)) k m = Inr [js_trim v]"
    using assms(1) keys new by (simp add: hdr_values_concat)
  moreover have "hdr_get (fst (hdr_set h k v m)) k m = Inr (Some (js_trim v))"
    using assms(1) keys new
    by (simp add: hdr_get_def find_keys_filter values_of_def split: option.splits)
  moreover have "values_of (fst (hdr_set h k v m)) j = values_of h j" if "\<not> key_matches m k j" for j
    using that mt values_of_delete [OF ks, of j] by (auto simp: set values_of_update simp flip: g_def)
  ultimately show ?thesis using set by simp
qed

theorem set_then_lookup_witness:
  "hdr_get (fst (hdr_set (new_hdrs 0 []) ''Nats-Msg-Id'' '' 7'' IgnoreCase)) ''Nats-Msg-Id'' IgnoreCase
    = Inr (Some (js_trim '' 7''))"
proof -
  have "valid_key ''Nats-Msg-Id''" "CR \<notin> set '' 7''" "LF \<notin> set '' 7''" by code_simp+
  then show ?thesis using set_then_lookup [of "''Nats-Msg-Id''" "'' 7''"] by blast
qed

lemma concat_update_one:
  assumes "distinct ks" "t \<in> set ks"
  shows "mset (concat (map (\<lambda>j. if j = t then vs @ [w] else f j) ks)) =
    add_mset w (mset (concat (map (\<lambda>j. if j = t then vs else f j) ks)))"
proof -
  obtain as bs where ks: "ks = as @ t # bs" using assms(2) by (meson split_list)
  then have "t \<notin> set as" "t \<notin> set bs" using assms(1) by auto
  then have as: "map (\<lambda>j. if j = t then xs else f j) as = map f as"
    and bs: "map (\<lambda>j. if j = t then xs else f j) bs = map f bs" for xs
    by auto
  have "concat (map (\<lambda>j. if j = t then xs else f j) ks) = concat (map f as) @ xs @ concat (map f bs)"
    for xs by (simp add: ks as bs del: map_eq_conv)
  then show ?thesis by simp
qed

text \<open>
  An append of a valid key and value adds exactly one value, trimmed, to what a lookup in
  the same mode gives, at the end unless the lookup ignores case and finds several keys, and
  leaves every key that the mode does not match alone.
\<close>
theorem append_then_lookup:
  assumes "hdrs_ok h" "valid_key k" "CR \<notin> set v" "LF \<notin> set v" "hdr_values h k m = Inr vs"
  shows "snd (hdr_append h k v m) = Inr ()
    \<and> (\<exists>ws. hdr_values (fst (hdr_append h k v m)) k m = Inr ws
          \<and> mset ws = add_mset (js_trim v) (mset vs)
          \<and> (m \<noteq> IgnoreCase \<longrightarrow> ws = vs @ [js_trim v]))
    \<and> (\<forall>j. \<not> key_matches m k j \<longrightarrow> values_of (fst (hdr_append h k v m)) j = values_of h j)"
proof -
  let ?w = "js_trim v"
  define t where "t = target_key h k m"
  define h' where "h' = fst (hdr_append h k v m)"
  let ?ks = "filter (key_matches m k) (hdr_keys h)"
  have app: "h' = h\<lparr>hd_map := AList.update t (values_of h t @ [?w]) (hd_map h)\<rparr>"
    by (simp add: h'_def t_def hdr_append_ok [OF assms(2-4)])
  have mt: "key_matches m k t" unfolding t_def using assms(2) by (rule target_key_matches)
  have dist: "distinct (hdr_keys h)" using assms(1) by (simp add: hdrs_ok_def hdr_keys_def)
  have vs: "vs = concat (map (values_of h) ?ks)"
    using assms(2,5) by (simp add: hdr_values_concat)
  have val: "values_of h' = (\<lambda>j. if j = t then values_of h t @ [?w] else values_of h j)"
    by (simp add: app values_of_update fun_eq_iff)
  have out: "values_of h t = []" if "t \<notin> set (hdr_keys h)"
    using that by (simp add: values_of_def hdr_keys_def map_of_eq_None_iff [THEN iffD2])
  have keys: "hdr_keys h' = (if t \<in> set (hdr_keys h) then hdr_keys h else hdr_keys h @ [t])"
    unfolding app by (rule keys_update)
  define ws where "ws = concat (map (values_of h') (filter (key_matches m k) (hdr_keys h')))"
  have ws: "hdr_values h' k m = Inr ws"
    using assms(2) by (simp add: hdr_values_concat ws_def)
  have "mset ws = add_mset ?w (mset vs) \<and> (m \<noteq> IgnoreCase \<longrightarrow> ws = vs @ [?w])"
  proof (cases "t \<in> set (hdr_keys h)")
    case True
    then have tin: "t \<in> set ?ks" "distinct ?ks" using mt dist by auto
    have eq: "ws = concat (map (\<lambda>j. if j = t then values_of h t @ [?w] else values_of h j) ?ks)"
      using True by (simp add: ws_def val keys)
    have "concat (map (values_of h) ?ks)
        = concat (map (\<lambda>j. if j = t then values_of h t else values_of h j) ?ks)"
      by (rule arg_cong [where f = concat]) auto
    then have "mset ws = add_mset ?w (mset vs)"
      unfolding eq concat_update_one [OF tin(2,1)] vs by simp
    moreover have "ws = vs @ [?w]" if "m \<noteq> IgnoreCase"
    proof -
      have "\<forall>j. key_matches m k j \<longrightarrow> j = t"
        using that mt by (cases m) (simp_all add: key_matches_def)
      then have "set ?ks \<subseteq> {t}" by auto
      with tin have "?ks = [t]"
        by (metis distinct_length_2_or_more insertCI list.exhaust list.set_intros(1) list.set_intros(2)
          list.simps(15) singletonD subset_singletonD empty_iff empty_set)
      then show ?thesis using eq vs by simp
    qed
    ultimately show ?thesis by blast
  next
    case False
    have "filter (key_matches m k) (hdr_keys h') = ?ks @ [t]"
      using False mt by (simp add: keys)
    moreover have "map (values_of h') ?ks = map (values_of h) ?ks"
      using False by (auto simp: val)
    moreover have "values_of h' t = [?w]"
      using out [OF False] by (simp add: val)
    ultimately have "ws = vs @ [?w]"
      by (simp add: ws_def vs del: map_eq_conv)
    then show ?thesis by simp
  qed
  moreover have "\<forall>j. \<not> key_matches m k j \<longrightarrow> values_of h' j = values_of h j"
    using mt by (auto simp: val)
  moreover have "snd (hdr_append h k v m) = Inr ()"
    by (simp add: hdr_append_ok [OF assms(2-4)])
  ultimately show ?thesis using ws unfolding h'_def by blast
qed

theorem append_then_lookup_witness:
  "\<exists>ws. hdr_values (fst (hdr_append (new_hdrs 0 []) ''A'' ''1'' Exact)) ''A'' Exact = Inr ws
    \<and> mset ws = {# ''1'' #}"
proof -
  have "hdrs_ok (new_hdrs 0 [])" "valid_key ''A''" "CR \<notin> set ''1''" "LF \<notin> set ''1''"
      "hdr_values (new_hdrs 0 []) ''A'' Exact = Inr []" "js_trim ''1'' = ''1''"
    by code_simp+
  then show ?thesis using append_then_lookup [of "new_hdrs 0 []" "''A''" "''1''" Exact "[]"] by auto
qed

text \<open>
  A \<open>set\<close> that throws because of its value has already deleted the old values: for a key
  the headers hold, the operation fails and the key is gone.
\<close>
theorem failing_set_drops_the_key:
  assumes "hdrs_ok h" "k \<in> set (hdr_keys h)" "CR \<in> set v \<or> LF \<in> set v"
  shows "(\<exists>e. snd (hdr_set h k v Exact) = Inl e) \<and> hdr_has h k Exact = Inr True
    \<and> hdr_has (fst (hdr_set h k v Exact)) k Exact = Inr False"
proof -
  have vk: "valid_key k" using assms(1,2) by (rule hdrs_ok_valid_key)
  define g where "g = fst (hdr_delete h k Exact)"
  have ks: "find_keys h k Exact = Inr (filter (\<lambda>v. v = k) (hdr_keys h))" by simp
  have dl: "hdr_delete h k Exact = (g, Inr ())" by (simp add: g_def hdr_delete_Inr [OF ks])
  have "k \<notin> set (hdr_keys g)" unfolding g_def keys_delete [OF ks] using assms(2) by simp
  moreover obtain e where "hdr_append g k v Exact = (g, Inl e)"
    using hdr_append_cases [of g k v Exact] assms(3) by auto
  ultimately show ?thesis
    using assms(2) by (auto simp: hdr_set_def dl hdr_has_def filter_empty_conv)
qed

theorem failing_set_drops_the_key_witness:
  "hdr_has (fst (hdr_set \<lparr>hd_code = 0, hd_map = [(''a'', [''1''])], hd_description = []\<rparr>
      ''a'' [CR] Exact)) ''a'' Exact = Inr False"
proof -
  let ?h = "\<lparr>hd_code = 0, hd_map = [(''a'', [''1''])], hd_description = []\<rparr>"
  have "hdrs_ok ?h" "''a'' \<in> set (hdr_keys ?h)" by code_simp+
  then show ?thesis using failing_set_drops_the_key [of ?h "''a''" "[CR]"] by auto
qed

section \<open>Comparison\<close>

lemma sorted_index_equal:
  fixes v a :: "string list"
  shows "length v = length a \<and> list_all (\<lambda>i. sort v ! i = sort a ! i) [0..<length v]
    \<longleftrightarrow> mset v = mset a"
proof
  assume "length v = length a \<and> list_all (\<lambda>i. sort v ! i = sort a ! i) [0..<length v]"
  then have "\<forall>i < length (sort v). sort v ! i = sort a ! i" "length (sort v) = length (sort a)"
    by (simp_all add: list_all_iff)
  then have "sort v = sort a" using nth_equalityI by blast
  then have "mset (sort v) = mset (sort a)" by (rule arg_cong)
  then show "mset v = mset a" unfolding mset_sort .
next
  assume m: "mset v = mset a"
  have "sort v = sort a"
    by (rule properties_for_sort) (simp_all add: m)
  moreover have "length v = length a" using m by (rule mset_eq_length)
  ultimately show "length v = length a \<and> list_all (\<lambda>i. sort v ! i = sort a ! i) [0..<length v]"
    by (simp add: list_all_iff)
qed

lemma hdr_values_Exact:
  assumes "distinct (hdr_keys h)"
  shows "hdr_values h k Exact = Inr (values_of h k)"
proof -
  have "filter (\<lambda>v. v = k) ks = (if k \<in> set ks then [k] else [])" if "distinct ks" for ks
    using that by (induction ks) (auto simp: filter_empty_conv)
  from this [OF assms] show ?thesis
  proof (cases "k \<in> set (hdr_keys h)")
    case False
    then have "map_of (hd_map h) k = None" by (simp add: hdr_keys_def map_of_eq_None_iff)
    with False show ?thesis
      using \<open>filter (\<lambda>v. v = k) (hdr_keys h) = (if k \<in> set (hdr_keys h) then [k] else [])\<close>
      by (simp add: hdr_values_def values_of_def)
  qed (simp add: hdr_values_def values_of_def)
qed

lemma hdr_equals_mset:
  assumes "hdrs_ok h" "hdrs_ok g"
  shows "hdr_equals h g \<longleftrightarrow> length (hdr_keys h) = length (hdr_keys g) \<and> hd_code h = hd_code g
      \<and> (\<forall>e \<in> set (hd_map h). mset (snd e) = mset (values_of g (fst e)))"
proof -
  have d: "distinct (hdr_keys g)" using assms(2) by (simp add: hdrs_ok_def hdr_keys_def)
  have "(\<lambda>(k, v). case hdr_values g k Exact of Inl e \<Rightarrow> False
       | Inr a \<Rightarrow> length v = length a \<and> list_all (\<lambda>i. sort v ! i = sort a ! i) [0..<length v])
     = (\<lambda>e. mset (snd e) = mset (values_of g (fst e)))"
    by (rule ext, simp only: split_beta hdr_values_Exact [OF d] sum.case sorted_index_equal)
  then show ?thesis
    by (simp add: hdr_equals_def hdr_keys_def list_all_iff)
qed

lemma values_of_entry:
  "hdrs_ok h \<Longrightarrow> (k, vs) \<in> set (hd_map h) \<Longrightarrow> values_of h k = vs"
  by (simp add: values_of_def hdrs_ok_def)

lemma values_of_empty_iff: "hdrs_ok h \<Longrightarrow> values_of h k = [] \<longleftrightarrow> k \<notin> set (hdr_keys h)"
  by (auto simp: values_of_def hdrs_ok_def hdr_keys_def entry_ok_def map_of_eq_None_iff
      split: option.splits dest!: map_of_SomeD) force

text \<open>
  Two well-formed header objects are equal for \<open>equals\<close> exactly when their codes agree
  and every key has the same values in both, up to order; the description does not count.
\<close>
theorem equals_characterised:
  assumes "hdrs_ok h" "hdrs_ok g"
  shows "hdr_equals h g \<longleftrightarrow>
    hd_code h = hd_code g \<and> (\<forall>k. mset (values_of h k) = mset (values_of g k))"
proof -
  have dist: "distinct (hdr_keys h)" "distinct (hdr_keys g)"
    using assms by (simp_all add: hdrs_ok_def hdr_keys_def)
  have "mset (snd e) = mset (values_of g (fst e)) \<longleftrightarrow>
      mset (values_of h (fst e)) = mset (values_of g (fst e))" if "e \<in> set (hd_map h)" for e
    using values_of_entry [OF assms(1), of "fst e" "snd e"] that by simp
  then have eq: "hdr_equals h g \<longleftrightarrow> length (hdr_keys h) = length (hdr_keys g) \<and> hd_code h = hd_code g
      \<and> (\<forall>k \<in> set (hdr_keys h). mset (values_of h k) = mset (values_of g k))"
    unfolding hdr_equals_mset [OF assms] by (simp add: hdr_keys_def)
  show ?thesis
  proof
    assume e: "hdr_equals h g"
    then have sub: "set (hdr_keys h) \<subseteq> set (hdr_keys g)"
      using eq values_of_empty_iff [OF assms(1)] values_of_empty_iff [OF assms(2)]
      by (metis mset_zero_iff subsetI)
    have "card (set (hdr_keys h)) = card (set (hdr_keys g))"
      using e eq dist by (simp add: distinct_card)
    then have same: "set (hdr_keys h) = set (hdr_keys g)"
      using sub by (simp add: card_subset_eq)
    have "mset (values_of h k) = mset (values_of g k)" for k
      using e eq same values_of_empty_iff [OF assms(1), of k] values_of_empty_iff [OF assms(2), of k]
      by (cases "k \<in> set (hdr_keys h)") auto
    then show "hd_code h = hd_code g \<and> (\<forall>k. mset (values_of h k) = mset (values_of g k))"
      using e eq by blast
  next
    assume r: "hd_code h = hd_code g \<and> (\<forall>k. mset (values_of h k) = mset (values_of g k))"
    then have "set (hdr_keys h) = set (hdr_keys g)"
      using values_of_empty_iff [OF assms(1)] values_of_empty_iff [OF assms(2)]
      by (metis mset_zero_iff subsetI subset_antisym)
    then have "length (hdr_keys h) = length (hdr_keys g)"
      using dist by (metis distinct_card)
    with r eq show "hdr_equals h g" by blast
  qed
qed

theorem equals_characterised_witness:
  "hdr_equals \<lparr>hd_code = 0, hd_map = [(''a'', [''1'', ''2''])], hd_description = []\<rparr>
    \<lparr>hd_code = 0, hd_map = [(''a'', [''2'', ''1''])], hd_description = []\<rparr>"
proof -
  let ?h = "\<lparr>hd_code = 0, hd_map = [(''a'', [''1'', ''2''])], hd_description = []\<rparr>"
  let ?g = "\<lparr>hd_code = 0, hd_map = [(''a'', [''2'', ''1''])], hd_description = []\<rparr>"
  have "hdrs_ok ?h" "hdrs_ok ?g" by code_simp+
  moreover have "mset (values_of ?h k) = mset (values_of ?g k)" for k
    by (simp add: values_of_def)
  ultimately show ?thesis using equals_characterised [of ?h ?g] by simp
qed

end
