(* ===== verification/Semver.thy ===== *)
theory Semver
  imports Nats_Core
begin

text \<open>
  Server versions and the features that depend on them, \<open>nats-base-client/semver.ts\<close>: the
  backtracking match behind \<open>parseSemVer\<close>, \<open>compare\<close>, and the \<open>Features\<close> table with its
  disabled entries.
\<close>

section \<open>Versions\<close>

datatype semver = SemVer (major: nat) (minor: nat) (micro: nat)

text \<open>The digits \<open>\d+\<close> can match at the front of a string, greedy first.\<close>

definition digit_prefixes :: "string \<Rightarrow> (string \<times> string) list" where
  "digit_prefixes s = map (\<lambda>i. (take i s, drop i s)) (rev [1..<Suc (length (takeWhile is_digit s))])"

text \<open>What follows a character that \<open>.\<close> matches: one UTF-16 unit that is no line
  terminator, which is a UTF-8 sequence of one, two or three bytes.\<close>

definition after_dot :: "string \<Rightarrow> string list" where
  "after_dot s =
     (case s of [] \<Rightarrow> []
      | c # r \<Rightarrow>
          if c = CR \<or> c = LF then []
          else if char_code c < 128 then [r]
          else if char_code c < 192 then []
          else if char_code c < 224 then [drop 2 s]
          else if char_code c < 240 then
            (if take 3 s = [CHR 0xE2, CHR 0x80, CHR 0xA8] \<or> take 3 s = [CHR 0xE2, CHR 0x80, CHR 0xA9]
             then [] else [drop 3 s])
          else [])"

text \<open>All matches of the expression at the front of a string, in the order the engine
  tries them.\<close>

definition matches_at :: "string \<Rightarrow> (string \<times> string \<times> string) list" where
  "matches_at s =
     concat (map (\<lambda>(a, r1). concat (map (\<lambda>r2.
       concat (map (\<lambda>(b, r3). concat (map (\<lambda>r4.
         map (\<lambda>(c, r5). (a, b, c)) (digit_prefixes r4)) (after_dot r3))) (digit_prefixes r2)))
       (after_dot r1))) (digit_prefixes s))"

fun first_match :: "string \<Rightarrow> (string \<times> string \<times> string) option" where
  "first_match s =
     (case matches_at s of
        m # ms \<Rightarrow> Some m
      | [] \<Rightarrow> (case s of [] \<Rightarrow> None | c # r \<Rightarrow> first_match r))"

declare first_match.simps [simp del]

definition parseSemVer :: "string \<Rightarrow> js_error + semver" where
  "parseSemVer s =
     (case first_match s of
        Some (a, b, c) \<Rightarrow>
          Inr (SemVer (js_round (digits_val a)) (js_round (digits_val b)) (js_round (digits_val c)))
      | None \<Rightarrow> Inl (Plain_Error (quoted s @ '' is not a semver value'')))"

definition compare :: "semver \<Rightarrow> semver \<Rightarrow> int" where
  "compare a b =
     (if major a < major b then - 1 else if major a > major b then 1
      else if minor a < minor b then - 1 else if minor a > minor b then 1
      else if micro a < micro b then - 1 else if micro a > micro b then 1 else 0)"

instantiation semver :: linorder
begin

definition less_eq_semver :: "semver \<Rightarrow> semver \<Rightarrow> bool" where
  "less_eq_semver a b \<longleftrightarrow> compare a b \<le> 0"

definition less_semver :: "semver \<Rightarrow> semver \<Rightarrow> bool" where
  "less_semver a b \<longleftrightarrow> compare a b < 0"

instance
proof
  fix x y z :: semver
  show "(x < y) = (x \<le> y \<and> \<not> y \<le> x)"
    by (simp add: less_semver_def less_eq_semver_def compare_def)
  show "x \<le> x" by (simp add: less_eq_semver_def compare_def)
  show "x \<le> y \<Longrightarrow> y \<le> z \<Longrightarrow> x \<le> z"
    by (simp add: less_eq_semver_def compare_def split: if_splits)
  show "x \<le> y \<Longrightarrow> y \<le> x \<Longrightarrow> x = y"
    by (cases x; cases y) (simp add: less_eq_semver_def compare_def split: if_splits)
  show "x \<le> y \<or> y \<le> x"
    by (simp add: less_eq_semver_def compare_def)
qed

end

section \<open>Features\<close>

datatype feature =
    JS_KV | JS_OBJECTSTORE | JS_PULL_MAX_BYTES | JS_NEW_CONSUMER_CREATE_API | JS_ALLOW_DIRECT
  | JS_MULTIPLE_CONSUMER_FILTER | JS_SIMPLIFICATION | JS_STREAM_CONSUMER_METADATA
  | JS_CONSUMER_FILTER_SUBJECTS | JS_STREAM_FIRST_SEQ | JS_STREAM_SUBJECT_TRANSFORM
  | JS_STREAM_SOURCE_SUBJECT_TRANSFORM | JS_STREAM_COMPRESSION | JS_DEFAULT_CONSUMER_LIMITS
  | JS_BATCH_DIRECT_GET

record feature_version =
  fv_ok :: bool
  fv_min :: string

record features =
  ft_server :: semver
  ft_features :: "(feature \<times> feature_version) list"
  ft_disabled :: "feature list"

definition feature_set :: "feature \<Rightarrow> string \<Rightarrow> features \<Rightarrow> js_error + features" where
  "feature_set f requires t =
     rbind (parseSemVer requires) (\<lambda>v.
       Inr (t\<lparr>ft_features := AList.update f \<lparr>fv_ok = compare (ft_server t) v \<ge> 0, fv_min = requires\<rparr>
         (ft_features t)\<rparr>))"

definition feature_table :: "(feature \<times> string) list" where
  "feature_table =
     [(JS_KV, ''2.6.2''), (JS_OBJECTSTORE, ''2.6.3''), (JS_PULL_MAX_BYTES, ''2.8.3''),
      (JS_NEW_CONSUMER_CREATE_API, ''2.9.0''), (JS_ALLOW_DIRECT, ''2.9.0''),
      (JS_MULTIPLE_CONSUMER_FILTER, ''2.10.0''), (JS_SIMPLIFICATION, ''2.9.4''),
      (JS_STREAM_CONSUMER_METADATA, ''2.10.0''), (JS_CONSUMER_FILTER_SUBJECTS, ''2.10.0''),
      (JS_STREAM_FIRST_SEQ, ''2.10.0''), (JS_STREAM_SUBJECT_TRANSFORM, ''2.10.0''),
      (JS_STREAM_SOURCE_SUBJECT_TRANSFORM, ''2.10.0''), (JS_STREAM_COMPRESSION, ''2.10.0''),
      (JS_DEFAULT_CONSUMER_LIMITS, ''2.10.0''), (JS_BATCH_DIRECT_GET, ''2.11.0'')]"

fun feature_set_all :: "(feature \<times> string) list \<Rightarrow> features \<Rightarrow> js_error + features" where
  "feature_set_all [] t = Inr t"
| "feature_set_all ((f, r) # fs) t = rbind (feature_set f r t) (feature_set_all fs)"

definition features_update :: "semver \<Rightarrow> features \<Rightarrow> js_error + features" where
  "features_update v t =
     rbind (feature_set_all feature_table (t\<lparr>ft_server := v\<rparr>)) (\<lambda>t.
       Inr (t\<lparr>ft_features := fold AList.delete (ft_disabled t) (ft_features t)\<rparr>))"

definition features_update_string :: "string \<Rightarrow> features \<Rightarrow> js_error + features" where
  "features_update_string s t = rbind (parseSemVer s) (\<lambda>v. features_update v t)"

definition new_features :: "semver \<Rightarrow> js_error + features" where
  "new_features v = features_update v \<lparr>ft_server = v, ft_features = [], ft_disabled = []\<rparr>"

definition features_reset_disabled :: "features \<Rightarrow> js_error + features" where
  "features_reset_disabled t = features_update (ft_server t) (t\<lparr>ft_disabled := []\<rparr>)"

definition features_disable :: "feature \<Rightarrow> features \<Rightarrow> js_error + features" where
  "features_disable f t = features_update (ft_server t) (t\<lparr>ft_disabled := ft_disabled t @ [f]\<rparr>)"

definition feature_is_disabled :: "feature \<Rightarrow> features \<Rightarrow> bool" where
  "feature_is_disabled f t \<longleftrightarrow> f \<in> set (ft_disabled t)"

definition feature_get :: "feature \<Rightarrow> features \<Rightarrow> feature_version" where
  "feature_get f t = (case map_of (ft_features t) f of Some v \<Rightarrow> v
     | None \<Rightarrow> \<lparr>fv_ok = False, fv_min = ''unknown''\<rparr>)"

definition feature_supports :: "feature \<Rightarrow> features \<Rightarrow> bool" where
  "feature_supports f t \<longleftrightarrow> fv_ok (feature_get f t)"

definition features_require :: "semver \<Rightarrow> features \<Rightarrow> bool" where
  "features_require v t \<longleftrightarrow> compare (ft_server t) v \<ge> 0"

definition features_require_string :: "string \<Rightarrow> features \<Rightarrow> js_error + bool" where
  "features_require_string s t = rbind (parseSemVer s) (\<lambda>v. Inr (features_require v t))"

section \<open>Parsing what a server announces\<close>

definition show_semver :: "semver \<Rightarrow> string" where
  "show_semver v = show_nat (major v) @ ''.'' @ show_nat (minor v) @ ''.'' @ show_nat (micro v)"

lemma digit_prefixes_greedy:
  assumes "r = [] \<or> \<not> is_digit (hd r)"
  shows "\<exists>ps. digit_prefixes (show_nat n @ r) = (show_nat n, r) # ps"
proof -
  obtain k where k: "length (show_nat n) = Suc k"
    by (metis show_nat_nonempty length_0_conv not0_implies_Suc)
  have "rev [1..<Suc (length (show_nat n))] = length (show_nat n) # rev [1..<length (show_nat n)]"
    by (simp add: k)
  then show ?thesis
    using takeWhile_show_nat [OF assms, of n] by (simp add: digit_prefixes_def)
qed

lemma after_dot_dot: "after_dot (CHR ''.'' # r) = [r]"
  by (simp add: after_dot_def CR_def LF_def char_code_def)

lemma not_digit_dot: "\<not> is_digit CHR ''.''"
  by (simp add: is_digit_def char_code_def)

lemma matches_at_version:
  assumes "r = [] \<or> \<not> is_digit (hd r)"
  shows "\<exists>ms. matches_at (show_semver v @ r) =
    (show_nat (major v), show_nat (minor v), show_nat (micro v)) # ms"
proof -
  obtain p1 where one: "digit_prefixes (show_semver v @ r) =
      (show_nat (major v), CHR ''.'' # show_nat (minor v) @ ''.'' @ show_nat (micro v) @ r) # p1"
    using digit_prefixes_greedy [of "CHR ''.'' # show_nat (minor v) @ ''.'' @ show_nat (micro v) @ r" "major v"]
    by (auto simp: show_semver_def not_digit_dot)
  obtain p2 where two: "digit_prefixes (show_nat (minor v) @ ''.'' @ show_nat (micro v) @ r) =
      (show_nat (minor v), CHR ''.'' # show_nat (micro v) @ r) # p2"
    using digit_prefixes_greedy [of "CHR ''.'' # show_nat (micro v) @ r" "minor v"]
    by (auto simp: not_digit_dot)
  obtain p3 where three: "digit_prefixes (show_nat (micro v) @ r) = (show_nat (micro v), r) # p3"
    using digit_prefixes_greedy [OF assms] by blast
  from two have two': "digit_prefixes (show_nat (minor v) @ CHR ''.'' # show_nat (micro v) @ r) =
      (show_nat (minor v), CHR ''.'' # show_nat (micro v) @ r) # p2" by simp
  show ?thesis by (simp add: matches_at_def one two' three after_dot_dot)
qed

lemma first_match_skip:
  assumes "\<forall>c \<in> set p. \<not> is_digit c"
  shows "first_match (p @ s) = first_match s"
  using assms
proof (induction p)
  case (Cons c p)
  then have "matches_at (c # p @ s) = []" by (simp add: matches_at_def digit_prefixes_def)
  with Cons show ?case by (simp add: first_match.simps [of "c # p @ s"])
qed simp

lemma parse_version_between:
  assumes "\<forall>c \<in> set p. \<not> is_digit c" "r = [] \<or> \<not> is_digit (hd r)"
    "major v < 2 ^ 53" "minor v < 2 ^ 53" "micro v < 2 ^ 53"
  shows "parseSemVer (p @ show_semver v @ r) = Inr v"
proof -
  obtain ms where "matches_at (show_semver v @ r) =
      (show_nat (major v), show_nat (minor v), show_nat (micro v)) # ms"
    using matches_at_version [OF assms(2)] by blast
  then have "first_match (p @ show_semver v @ r) =
      Some (show_nat (major v), show_nat (minor v), show_nat (micro v))"
    using first_match_skip [OF assms(1)] by (simp add: first_match.simps [of "show_semver v @ r"])
  then show ?thesis using assms(3-5) by (simp add: parseSemVer_def)
qed

text \<open>
  A version that is printed as \<open>major.minor.micro\<close>, after any prefix without digits and
  before any suffix that does not start with a digit, is parsed back.
\<close>
theorem parse_printed_version:
  assumes "\<forall>c \<in> set p. \<not> is_digit c" "r = [] \<or> \<not> is_digit (hd r)"
    "major v < 2 ^ 53" "minor v < 2 ^ 53" "micro v < 2 ^ 53"
  shows "parseSemVer (p @ show_semver v @ r) = Inr v"
  using assms by (rule parse_version_between)

theorem parse_printed_version_witness:
  "parseSemVer (''v'' @ show_semver (SemVer 2 10 7) @ ''-beta.1'') = Inr (SemVer 2 10 7)"
  by (rule parse_printed_version) (simp_all add: is_digit_def char_code_def)

text \<open>
  The separators are not checked: the dots of the expression match any character, also
  digits, so a plain number of five digits is taken for a version.
\<close>
theorem plain_number_is_a_version:
  "parseSemVer ''12345'' = Inr (SemVer 1 3 5) \<and> parseSemVer ''2.100'' = Inr (SemVer 2 1 0)"
proof -
  have "first_match ''12345'' = Some (''1'', ''3'', ''5'')"
    "first_match ''2.100'' = Some (''2'', ''1'', ''0'')" by code_simp+
  then show ?thesis
    by (simp add: parseSemVer_def digits_val_def digit_val_def char_code_def)
qed

section \<open>Which features a server supports\<close>

primrec required_version :: "feature \<Rightarrow> semver" where
  "required_version JS_KV = SemVer 2 6 2"
| "required_version JS_OBJECTSTORE = SemVer 2 6 3"
| "required_version JS_PULL_MAX_BYTES = SemVer 2 8 3"
| "required_version JS_NEW_CONSUMER_CREATE_API = SemVer 2 9 0"
| "required_version JS_ALLOW_DIRECT = SemVer 2 9 0"
| "required_version JS_MULTIPLE_CONSUMER_FILTER = SemVer 2 10 0"
| "required_version JS_SIMPLIFICATION = SemVer 2 9 4"
| "required_version JS_STREAM_CONSUMER_METADATA = SemVer 2 10 0"
| "required_version JS_CONSUMER_FILTER_SUBJECTS = SemVer 2 10 0"
| "required_version JS_STREAM_FIRST_SEQ = SemVer 2 10 0"
| "required_version JS_STREAM_SUBJECT_TRANSFORM = SemVer 2 10 0"
| "required_version JS_STREAM_SOURCE_SUBJECT_TRANSFORM = SemVer 2 10 0"
| "required_version JS_STREAM_COMPRESSION = SemVer 2 10 0"
| "required_version JS_DEFAULT_CONSUMER_LIMITS = SemVer 2 10 0"
| "required_version JS_BATCH_DIRECT_GET = SemVer 2 11 0"

lemma feature_table_parses: "\<forall>(f, r) \<in> set feature_table. parseSemVer r = Inr (required_version f)"
proof -
  have "\<forall>(f, r) \<in> set feature_table. r = show_semver (required_version f)"
    by code_simp
  moreover have "parseSemVer (show_semver (required_version f)) = Inr (required_version f)" for f
    using parse_version_between [of "[]" "[]" "required_version f"] by (cases f) simp_all
  ultimately show ?thesis by auto
qed

lemma feature_table_total: "\<exists>r. map_of feature_table f = Some r"
  by (cases f) (simp_all add: feature_table_def)

lemma feature_table_distinct: "distinct (map fst feature_table)"
  by (simp add: feature_table_def)

text \<open>The map of features after setting the entries of a table one by one.\<close>

definition entries_after ::
  "semver \<Rightarrow> (feature \<times> string) list \<Rightarrow> (feature \<times> feature_version) list \<Rightarrow> feature
    \<Rightarrow> feature_version option" where
  "entries_after srv fs al f = (case map_of fs f of
     Some r \<Rightarrow> Some \<lparr>fv_ok = compare srv (required_version f) \<ge> 0, fv_min = r\<rparr>
   | None \<Rightarrow> map_of al f)"

lemma entries_after_Cons:
  assumes "f \<notin> fst ` set fs"
  shows "entries_after srv fs
      (AList.update f \<lparr>fv_ok = compare srv (required_version f) \<ge> 0, fv_min = r\<rparr> al)
    = entries_after srv ((f, r) # fs) al"
proof
  have "map_of fs f = None" using assms by (simp add: map_of_eq_None_iff)
  then show "entries_after srv fs
      (AList.update f \<lparr>fv_ok = compare srv (required_version f) \<ge> 0, fv_min = r\<rparr> al) g
    = entries_after srv ((f, r) # fs) al g" for g
    by (auto simp: entries_after_def update_conv' split: option.split)
qed

lemma feature_set_all_ok:
  assumes "\<forall>(f, r) \<in> set fs. parseSemVer r = Inr (required_version f)" "distinct (map fst fs)"
  shows "\<exists>t'. feature_set_all fs t = Inr t' \<and> ft_server t' = ft_server t
    \<and> ft_disabled t' = ft_disabled t
    \<and> map_of (ft_features t') = entries_after (ft_server t) fs (ft_features t)"
  using assms
proof (induction fs arbitrary: t)
  case Nil
  then show ?case by (simp add: entries_after_def fun_eq_iff)
next
  case (Cons p fs)
  obtain f r where p: "p = (f, r)" by (cases p)
  let ?v = "\<lparr>fv_ok = compare (ft_server t) (required_version f) \<ge> 0, fv_min = r\<rparr>"
  let ?t = "t\<lparr>ft_features := AList.update f ?v (ft_features t)\<rparr>"
  have "feature_set f r t = Inr ?t"
    using Cons.prems p by (simp add: feature_set_def)
  then have "feature_set_all (p # fs) t = feature_set_all fs ?t" by (simp add: p)
  moreover have "f \<notin> fst ` set fs" using Cons.prems p by simp
  ultimately show ?case
    using Cons.IH [of ?t] Cons.prems p by (simp add: entries_after_Cons)
qed

lemma map_of_fold_delete:
  "map_of (fold AList.delete ks al) j = (if j \<in> set ks then None else map_of al j)"
  unfolding fold_delete by (subst map_of_filter_keys) simp

text \<open>
  Updating the feature table never throws, and afterwards a feature is supported exactly
  when it was not disabled and the version it requires is at most the version of the server.
\<close>
theorem features_after_update:
  "\<exists>t'. features_update v t = Inr t' \<and> ft_server t' = v \<and> ft_disabled t' = ft_disabled t
    \<and> (\<forall>f. feature_supports f t' \<longleftrightarrow> f \<notin> set (ft_disabled t) \<and> required_version f \<le> v)"
proof -
  obtain t1 where t1: "feature_set_all feature_table (t\<lparr>ft_server := v\<rparr>) = Inr t1"
      "ft_server t1 = v" "ft_disabled t1 = ft_disabled t"
      "map_of (ft_features t1) = entries_after v feature_table (ft_features t)"
    using feature_set_all_ok [OF feature_table_parses feature_table_distinct, of "t\<lparr>ft_server := v\<rparr>"]
    by auto
  define t' where "t' = t1\<lparr>ft_features := fold AList.delete (ft_disabled t1) (ft_features t1)\<rparr>"
  have le: "required_version f \<le> v \<longleftrightarrow> compare v (required_version f) \<ge> 0" for f
    by (auto simp: less_eq_semver_def compare_def)
  have "feature_supports f t' \<longleftrightarrow> f \<notin> set (ft_disabled t) \<and> required_version f \<le> v" for f
    using feature_table_total [of f]
    by (auto simp: feature_supports_def feature_get_def t'_def map_of_fold_delete t1 le
        entries_after_def)
  moreover have "features_update v t = Inr t'"
    by (simp add: features_update_def t1 t'_def)
  ultimately show ?thesis by (auto simp: t'_def t1)
qed

end
