(* ===== verification/Data_Buffer.thy ===== *)
theory Data_Buffer
  imports Nats_Prelude
begin

text \<open>
  The outbound and inbound byte queue, \<open>nats-base-client/databuffer.ts\<close>: a list of arrays
  with a running byte count. The protocol handler appends commands to it and drains it into
  the transport; the transports collect incoming bytes in it.
\<close>

record data_buffer =
  dq_buffers :: "bytes list"
  dq_byteLength :: nat

definition new_data_buffer :: data_buffer where
  "new_data_buffer = \<lparr>dq_buffers = [], dq_byteLength = 0\<rparr>"

text \<open>\<open>set_at out a i\<close> is \<open>out.set(a, i)\<close>: the bytes of \<open>a\<close> over those of \<open>out\<close> from index \<open>i\<close>.\<close>

definition set_at :: "bytes \<Rightarrow> bytes \<Rightarrow> nat \<Rightarrow> bytes" where
  "set_at out a i = take i out @ a @ drop (i + length a) out"

fun set_all :: "bytes list \<Rightarrow> nat \<Rightarrow> bytes \<Rightarrow> bytes" where
  "set_all [] i out = out"
| "set_all (b # bs) i out = set_all bs (i + length b) (set_at out b i)"

definition dq_concat :: "bytes list \<Rightarrow> bytes" where
  "dq_concat bufs =
     (let mx = foldl (\<lambda>n b. n + length b) 0 bufs
      in set_all bufs 0 (replicate mx 0))"

definition from_ascii :: "string \<Rightarrow> bytes" where
  "from_ascii m = te_encode m"

definition to_ascii :: "bytes \<Rightarrow> string" where
  "to_ascii a = td_decode a"

definition dq_reset :: "data_buffer \<Rightarrow> data_buffer" where
  "dq_reset d = d\<lparr>dq_buffers := [], dq_byteLength := 0\<rparr>"

definition dq_pack :: "data_buffer \<Rightarrow> data_buffer" where
  "dq_pack d =
     (if 1 < length (dq_buffers d)
      then d\<lparr>dq_buffers := [set_all (dq_buffers d) 0 (replicate (dq_byteLength d) 0)]\<rparr>
      else d)"

definition dq_shift :: "data_buffer \<Rightarrow> data_buffer \<times> bytes" where
  "dq_shift d =
     (case dq_buffers d of
        [] \<Rightarrow> (d, [])
      | a # bs \<Rightarrow> (d\<lparr>dq_buffers := bs, dq_byteLength := dq_byteLength d - length a\<rparr>, a))"

definition dq_drain :: "nat option \<Rightarrow> data_buffer \<Rightarrow> data_buffer \<times> bytes" where
  "dq_drain n d =
     (if dq_buffers d = [] then (d, [])
      else let d1 = dq_pack d;
               v = last (dq_buffers d1);
               mx = dq_byteLength d1;
               k = (case n of None \<Rightarrow> mx | Some m \<Rightarrow> if m > mx then mx else m);
               rest = butlast (dq_buffers d1)
           in (d1\<lparr>dq_buffers := (if mx > k then rest @ [drop k v] else rest),
                  dq_byteLength := mx - k\<rparr>, take k v))"

fun fill_more :: "bytes list \<Rightarrow> data_buffer \<Rightarrow> data_buffer" where
  "fill_more [] d = d"
| "fill_more (b # bs) d =
     fill_more bs (if length b > 0
       then d\<lparr>dq_buffers := dq_buffers d @ [b], dq_byteLength := dq_byteLength d + length b\<rparr>
       else d)"

definition dq_fill :: "bytes \<Rightarrow> bytes list \<Rightarrow> data_buffer \<Rightarrow> data_buffer" where
  "dq_fill a bufs d =
     fill_more bufs (d\<lparr>dq_buffers := dq_buffers d @ [a], dq_byteLength := dq_byteLength d + length a\<rparr>)"

definition dq_peek :: "data_buffer \<Rightarrow> data_buffer \<times> bytes" where
  "dq_peek d =
     (if dq_buffers d = [] then (d, [])
      else let d1 = dq_pack d in (d1, hd (dq_buffers d1)))"

definition dq_size :: "data_buffer \<Rightarrow> nat" where
  "dq_size d = dq_byteLength d"

definition dq_length :: "data_buffer \<Rightarrow> nat" where
  "dq_length d = length (dq_buffers d)"

section \<open>The queue of bytes\<close>

text \<open>The bytes in a buffer, in order, and the invariant of its running count.\<close>

definition dq_bytes :: "data_buffer \<Rightarrow> bytes" where
  "dq_bytes d = concat (dq_buffers d)"

definition dq_ok :: "data_buffer \<Rightarrow> bool" where
  "dq_ok d \<longleftrightarrow> dq_byteLength d = length (dq_bytes d)"

lemma set_all_concat:
  assumes "length out = i + length (concat bs)"
  shows "set_all bs i out = take i out @ concat bs"
  using assms
proof (induction bs arbitrary: i out)
  case (Cons b bs)
  then have "set_all bs (i + length b) (set_at out b i)
      = take (i + length b) (set_at out b i) @ concat bs"
    by (intro Cons.IH) (simp add: set_at_def)
  also have "take (i + length b) (set_at out b i) = take i out @ b"
    using Cons.prems by (simp add: set_at_def)
  finally show ?case by simp
qed simp

lemma sum_lengths: "foldl (\<lambda>n b. n + length b) k bufs = k + length (concat bufs)"
  by (induction bufs arbitrary: k) auto

lemma dq_concat_eq [simp]: "dq_concat bufs = concat bufs"
  by (simp add: dq_concat_def sum_lengths set_all_concat)

lemma dq_pack_simps:
  assumes "dq_ok d"
  shows "dq_bytes (dq_pack d) = dq_bytes d" "dq_byteLength (dq_pack d) = dq_byteLength d"
    "dq_ok (dq_pack d)"
  using assms by (auto simp: dq_pack_def dq_bytes_def dq_ok_def set_all_concat)

lemma dq_pack_one:
  assumes "dq_ok d" "dq_buffers d \<noteq> []"
  shows "dq_buffers (dq_pack d) = [dq_bytes d]"
proof (cases "1 < length (dq_buffers d)")
  case True
  then show ?thesis
    using assms by (simp add: dq_pack_def dq_bytes_def dq_ok_def set_all_concat)
next
  case False
  with assms(2) obtain a where "dq_buffers d = [a]" by (cases "dq_buffers d") auto
  then show ?thesis by (simp add: dq_pack_def dq_bytes_def)
qed

lemma fill_more_simps:
  "dq_bytes (fill_more bs d) = dq_bytes d @ concat bs"
  "dq_byteLength (fill_more bs d) = dq_byteLength d + length (concat bs)"
  by (induction bs arbitrary: d) (auto simp: dq_bytes_def)

lemma dq_fill_simps [simp]:
  "dq_bytes (dq_fill a bs d) = dq_bytes d @ a @ concat bs"
  "dq_ok d \<Longrightarrow> dq_ok (dq_fill a bs d)"
  by (simp_all add: dq_fill_def fill_more_simps dq_ok_def) (simp_all add: dq_bytes_def)

lemma dq_drain_eq:
  fixes n :: "nat option"
  assumes "dq_ok d"
  defines "k \<equiv> (case n of None \<Rightarrow> length (dq_bytes d) | Some m \<Rightarrow> min m (length (dq_bytes d)))"
  shows "snd (dq_drain n d) = take k (dq_bytes d)"
    "dq_bytes (fst (dq_drain n d)) = drop k (dq_bytes d)"
    "dq_byteLength (fst (dq_drain n d)) = length (dq_bytes d) - k"
proof -
  have len: "dq_byteLength d = length (dq_bytes d)" using assms(1) by (simp add: dq_ok_def)
  show "snd (dq_drain n d) = take k (dq_bytes d)"
    "dq_bytes (fst (dq_drain n d)) = drop k (dq_bytes d)"
    "dq_byteLength (fst (dq_drain n d)) = length (dq_bytes d) - k"
  proof (atomize (full), cases "dq_buffers d = []")
    case True
    then have "dq_bytes d = []" by (simp add: dq_bytes_def)
    with True len show "snd (dq_drain n d) = take k (dq_bytes d) \<and>
      dq_bytes (fst (dq_drain n d)) = drop k (dq_bytes d) \<and>
      dq_byteLength (fst (dq_drain n d)) = length (dq_bytes d) - k"
      by (simp add: dq_drain_def)
  next
    case False
    have pl: "dq_byteLength (dq_pack d) = length (dq_bytes d)"
      using dq_pack_simps(2) [OF assms(1)] len by simp
    have kk: "(case n of None \<Rightarrow> dq_byteLength (dq_pack d) | Some m \<Rightarrow>
        if m > dq_byteLength (dq_pack d) then dq_byteLength (dq_pack d) else m) = k"
      using pl by (simp add: k_def min_def split: option.split)
    have le: "k \<le> length (dq_bytes d)" by (simp add: k_def split: option.split)
    have "dq_drain n d = ((dq_pack d)\<lparr>dq_buffers := (if length (dq_bytes d) > k
        then [drop k (dq_bytes d)] else []), dq_byteLength := length (dq_bytes d) - k\<rparr>,
        take k (dq_bytes d))"
      using False dq_pack_one [OF assms(1) False] pl
      by (simp add: dq_drain_def Let_def kk [simplified] k_def [symmetric])
    with le show "snd (dq_drain n d) = take k (dq_bytes d) \<and>
      dq_bytes (fst (dq_drain n d)) = drop k (dq_bytes d) \<and>
      dq_byteLength (fst (dq_drain n d)) = length (dq_bytes d) - k"
      by (auto simp: dq_bytes_def)
  qed
qed

lemma dq_drain_ok: "dq_ok d \<Longrightarrow> dq_ok (fst (dq_drain n d))"
  by (simp add: dq_ok_def [of "fst (dq_drain n d)"] dq_drain_eq)

lemma dq_shift_simps:
  assumes "dq_ok d"
  shows "snd (dq_shift d) @ dq_bytes (fst (dq_shift d)) = dq_bytes d" "dq_ok (fst (dq_shift d))"
  using assms by (auto simp: dq_shift_def dq_bytes_def dq_ok_def split: list.splits)

section \<open>The interface the protocol handler uses\<close>

text \<open>A queue of bytes: it is filled with arrays and drained as one array. \<open>fresh\<close> is the test
  by which the handler sees that nothing is queued.\<close>

locale byte_queue =
  fixes content :: "'q \<Rightarrow> bytes" and wf :: "'q \<Rightarrow> bool" and fresh :: "'q \<Rightarrow> bool"
    and fill :: "bytes \<Rightarrow> bytes list \<Rightarrow> 'q \<Rightarrow> 'q" and drain :: "'q \<Rightarrow> 'q \<times> bytes"
    and amount :: "'q \<Rightarrow> nat"
  assumes fill_content: "content (fill a bs q) = content q @ a @ concat bs"
    and fill_wf: "wf q \<Longrightarrow> wf (fill a bs q)"
    and fill_not_fresh: "\<not> fresh (fill a bs q)"
    and drain_content: "wf q \<Longrightarrow> snd (drain q) = content q"
    and drain_fresh: "wf q \<Longrightarrow> fresh (fst (drain q)) \<and> wf (fst (drain q))"
    and fresh_content: "fresh q \<Longrightarrow> content q = []"
    and amount_content: "wf q \<Longrightarrow> amount q = length (content q)"
begin

lemma drained: "wf q \<Longrightarrow> content (fst (drain q)) = []"
  using drain_fresh fresh_content by blast

lemma drain_keeps: "wf q \<Longrightarrow> snd (drain q) @ content (fst (drain q)) = content q"
  by (simp add: drain_content drained)

lemma fills_wf: "wf q \<Longrightarrow> wf (fold (\<lambda>(a, bs). fill a bs) cs q)"
  by (induction cs arbitrary: q) (auto simp: fill_wf)

lemma fills_then_drain:
  assumes "wf q"
  shows "snd (drain (fold (\<lambda>(a, bs). fill a bs) cs q)) = content q @ concat (map (\<lambda>(a, bs). a @ concat bs) cs)"
proof -
  have "content (fold (\<lambda>(a, bs). fill a bs) cs q) = content q @ concat (map (\<lambda>(a, bs). a @ concat bs) cs)"
    by (induction cs arbitrary: q) (auto simp: fill_content)
  then show ?thesis using drain_content [OF fills_wf [OF assms]] by simp
qed

lemma amount_zero: "wf q \<Longrightarrow> amount q = 0 \<longleftrightarrow> content q = []"
  by (simp add: amount_content)

end

lemma dq_fill_length: "dq_length (dq_fill a bs d) \<noteq> 0"
proof -
  have "length (dq_buffers d) \<le> length (dq_buffers (fill_more bs d))" for bs d
  proof (induction bs arbitrary: d)
    case (Cons b bs)
    show ?case
      using Cons [of d] Cons [of "d\<lparr>dq_buffers := dq_buffers d @ [b], dq_byteLength := dq_byteLength d + length b\<rparr>"]
      by simp
  qed simp
  from this [of "d\<lparr>dq_buffers := dq_buffers d @ [a], dq_byteLength := dq_byteLength d + length a\<rparr>" bs]
  have "dq_buffers (dq_fill a bs d) \<noteq> []" by (auto simp: dq_fill_def)
  then show ?thesis by (simp add: dq_length_def)
qed

lemma dq_drain_all_length: "dq_ok d \<Longrightarrow> dq_length (fst (dq_drain None d)) = 0"
  using dq_pack_one [of d] by (simp add: dq_drain_def dq_length_def Let_def)

interpretation dq: byte_queue dq_bytes dq_ok "\<lambda>d. dq_length d = 0" dq_fill "dq_drain None" dq_size
proof
  show "dq_ok d \<Longrightarrow> dq_length (fst (dq_drain None d)) = 0 \<and> dq_ok (fst (dq_drain None d))" for d
    by (simp add: dq_drain_all_length dq_drain_ok)
qed (simp_all add: dq_fill_length dq_drain_eq, simp_all add: dq_length_def dq_bytes_def dq_size_def dq_ok_def)

lemma dq_peek_simps:
  assumes "dq_ok d"
  shows "snd (dq_peek d) = dq_bytes d" "dq_bytes (fst (dq_peek d)) = dq_bytes d"
    "dq_ok (fst (dq_peek d))"
  using assms dq_pack_one [OF assms] dq_pack_simps [OF assms]
  by (auto simp: dq_peek_def Let_def dq_bytes_def)

section \<open>A run of the queue\<close>

datatype dq_op = Op_Fill bytes "bytes list" | Op_Drain "nat option" | Op_Shift | Op_Peek | Op_Pack

text \<open>One operation: the new buffer, the bytes it took in and the bytes it removed.\<close>

fun dq_step :: "dq_op \<Rightarrow> data_buffer \<Rightarrow> data_buffer \<times> bytes \<times> bytes" where
  "dq_step (Op_Fill a bs) d = (dq_fill a bs d, a @ concat bs, [])"
| "dq_step (Op_Drain n) d = (let (d', out) = dq_drain n d in (d', [], out))"
| "dq_step Op_Shift d = (let (d', out) = dq_shift d in (d', [], out))"
| "dq_step Op_Peek d = (fst (dq_peek d), [], [])"
| "dq_step Op_Pack d = (dq_pack d, [], [])"

fun dq_run :: "dq_op list \<Rightarrow> data_buffer \<Rightarrow> data_buffer \<times> bytes \<times> bytes" where
  "dq_run [] d = (d, [], [])"
| "dq_run (x # xs) d =
     (let (d1, i, out) = dq_step x d; (d2, is, outs) = dq_run xs d1 in (d2, i @ is, out @ outs))"

lemma dq_step_fifo:
  assumes "dq_ok d" "dq_step x d = (d', i, out)"
  shows "dq_ok d' \<and> out @ dq_bytes d' = dq_bytes d @ i"
proof (cases x)
  case (Op_Drain n)
  with assms show ?thesis
    using dq_drain_eq [OF assms(1), of n] dq_drain_ok [OF assms(1), of n]
    by (cases "dq_drain n d") simp
next
  case Op_Shift
  with assms show ?thesis
    using dq_shift_simps [OF assms(1)] by (cases "dq_shift d") simp
qed (use assms dq_peek_simps dq_pack_simps in auto)

lemma dq_run_fifo:
  assumes "dq_ok d" "dq_run xs d = (d', i, out)"
  shows "dq_ok d' \<and> out @ dq_bytes d' = dq_bytes d @ i"
  using assms
proof (induction xs arbitrary: d d' i out)
  case (Cons x xs)
  obtain d1 i1 o1 where s: "dq_step x d = (d1, i1, o1)" by (cases "dq_step x d")
  obtain d2 i2 o2 where r: "dq_run xs d1 = (d2, i2, o2)" by (cases "dq_run xs d1")
  have "dq_ok d1" "o1 @ dq_bytes d1 = dq_bytes d @ i1"
    using dq_step_fifo [OF Cons.prems(1) s] by auto
  moreover from this Cons.IH [OF _ r] have "dq_ok d2" "o2 @ dq_bytes d2 = dq_bytes d1 @ i2" by auto
  moreover have "d' = d2" "i = i1 @ i2" "out = o1 @ o2" using Cons.prems(2) s r by auto
  ultimately show ?case by (metis append_assoc)
qed simp

text \<open>
  The buffer is a queue of bytes: after any operations on a new one, the bytes removed so
  far followed by the bytes still in it are exactly the bytes filled in, in order, and
  \<open>size()\<close> is the number of bytes in it, however fills, drains, shifts and packs cut them.
\<close>
theorem data_buffer_is_a_byte_queue:
  "\<exists>d taken_in removed. dq_run ops new_data_buffer = (d, taken_in, removed)
    \<and> removed @ dq_bytes d = taken_in \<and> dq_size d = length (dq_bytes d)"
proof -
  obtain d i out where r: "dq_run ops new_data_buffer = (d, i, out)"
    by (cases "dq_run ops new_data_buffer")
  have "dq_ok new_data_buffer" "dq_bytes new_data_buffer = []"
    by (simp_all add: dq_ok_def new_data_buffer_def dq_bytes_def)
  with dq_run_fifo [OF _ r] have "out @ dq_bytes d = i" "dq_ok d" by auto
  with r show ?thesis by (auto simp: dq_size_def dq_ok_def)
qed

end
