(* ===== verification/Js_Numbers.thy ===== *)
theory Js_Numbers
  imports Nats_Prelude
begin

text \<open>
  Bounds on the rounding of doubles, and the random integers the client draws with
  \<open>Math.floor(Math.random() * n)\<close>: \<open>Math.random\<close> gives a multiple \<open>k / 2 ^ 53\<close> of the unit
  interval, which is represented by \<open>k\<close>.
\<close>

section \<open>Rounding\<close>

lemma bit_length_bounds: "n > 0 \<Longrightarrow> 2 ^ (bit_length n - 1) \<le> n \<and> n < 2 ^ bit_length n \<and> 0 < bit_length n"
proof (induction n rule: bit_length.induct)
  case (1 n)
  show ?case
  proof (cases "n div 2 = 0")
    case True
    with 1 have "n = 1" by auto
    then show ?thesis by (simp add: bit_length.simps)
  next
    case False
    with 1 have ih: "2 ^ (bit_length (n div 2) - 1) \<le> n div 2" "n div 2 < 2 ^ bit_length (n div 2)"
        "0 < bit_length (n div 2)" by auto
    have eq: "bit_length n = Suc (bit_length (n div 2))" using 1 by (simp add: bit_length.simps [of n])
    have "2 ^ bit_length (n div 2) = 2 * (2::nat) ^ (bit_length (n div 2) - 1)"
      using ih(3) by (simp add: power_eq_if)
    also have "\<dots> \<le> n" using ih(1) by linarith
    finally have lo: "2 ^ (bit_length n - 1) \<le> n" by (simp add: eq)
    have "n < 2 * 2 ^ bit_length (n div 2)" using ih(2) by linarith
    then show ?thesis using lo eq by simp
  qed
qed

lemma js_round_upper: "2 ^ 53 * js_round n \<le> 2 ^ 53 * n + n"
proof (cases "n < 2 ^ 53")
  case False
  define e where "e = bit_length n - 53"
  define q where "q = n div 2 ^ e"
  define r where "r = n mod 2 ^ e"
  have n: "n = q * 2 ^ e + r" unfolding q_def r_def by (rule div_mult_mod_eq [symmetric])
  have "n > 0" using False by (metis gr0I zero_less_numeral zero_less_power)
  then have b: "2 ^ (bit_length n - 1) \<le> n" "n < 2 ^ bit_length n" "0 < bit_length n"
    using bit_length_bounds by auto
  have "53 < bit_length n"
  proof (rule ccontr)
    assume "\<not> 53 < bit_length n"
    then have "(2::nat) ^ bit_length n \<le> 2 ^ 53" by (intro power_increasing) simp_all
    with b(2) False show False by linarith
  qed
  then have "bit_length n - 1 = 52 + e" by (simp add: e_def)
  then have e: "2 ^ 52 * 2 ^ e \<le> n" using b(1) by (simp add: power_add)
  define q' where "q' = (if 2 * r > 2 ^ e \<or> (2 * r = 2 ^ e \<and> odd q) then q + 1 else q)"
  have "2 * (q' * 2 ^ e) \<le> 2 * n + 2 ^ e"
    using n by (auto simp: q'_def algebra_simps)
  moreover have "js_round n \<le> q' * 2 ^ e"
    using False by (simp add: js_round_def Let_def q'_def q_def r_def e_def)
  ultimately have "2 * js_round n \<le> 2 * n + 2 ^ e" by linarith
  then have "2 ^ 52 * (2 * js_round n) \<le> 2 ^ 52 * (2 * n + 2 ^ e)" by (rule mult_le_mono2)
  also have "\<dots> \<le> 2 ^ 53 * n + n" using e by (simp add: algebra_simps)
  finally show ?thesis by simp
qed simp

lemma js_round_factor: "2 ^ 53 * js_round n \<le> (2 ^ 53 + 1) * n"
  using js_round_upper [of n] unfolding add_mult_distrib by (simp only: mult_1)

lemma js_round_lower:
  assumes "m \<le> n" "2 ^ 53 dvd m" "n < 2 ^ 106"
  shows "m \<le> js_round n"
proof (cases "n < 2 ^ 53")
  case False
  define e where "e = bit_length n - 53"
  have "n > 0" using False by (metis gr0I zero_less_numeral zero_less_power)
  then have "(2::nat) ^ (bit_length n - 1) < 2 ^ 106" using bit_length_bounds assms(3) by (metis order_le_less_trans)
  then have "bit_length n - 1 < 106" by (rule nat_power_less_imp_less [rotated]) simp
  then have "e \<le> 53" by (simp add: e_def)
  then have "2 ^ e dvd m" using assms(2) by (metis dvd_trans le_imp_power_dvd)
  then have "m = (m div 2 ^ e) * 2 ^ e" by simp
  also have "\<dots> \<le> (n div 2 ^ e) * 2 ^ e" using assms(1) by (simp add: div_le_mono)
  finally have "m \<le> (n div 2 ^ e) * 2 ^ e" .
  moreover have "m \<le> 2 ^ 1024"
    using assms(1,3) power_increasing [of 106 1024 "2::nat"] by linarith
  moreover have "(n div 2 ^ e) * 2 ^ e \<le> (if 2 * (n mod 2 ^ e) > 2 ^ e \<or> (2 * (n mod 2 ^ e) = 2 ^ e \<and> odd (n div 2 ^ e)) then n div 2 ^ e + 1 else n div 2 ^ e) * 2 ^ e"
    by simp
  ultimately have "m \<le> min ((if 2 * (n mod 2 ^ e) > 2 ^ e \<or> (2 * (n mod 2 ^ e) = 2 ^ e \<and> odd (n div 2 ^ e)) then n div 2 ^ e + 1 else n div 2 ^ e) * 2 ^ e) (2 ^ 1024)"
    using order_trans by auto
  then show ?thesis using False by (simp only: js_round_def Let_def e_def if_False)
qed (use assms in simp)

section \<open>Random integers\<close>

definition random_below :: "nat \<Rightarrow> nat \<Rightarrow> nat" where
  "random_below k n = js_round (k * n) div 2 ^ 53"

lemma random_product_less:
  assumes "k < 2 ^ 53" "0 < n"
  shows "js_round (k * n) < n * 2 ^ 53"
proof -
  have "2 ^ 53 * js_round (k * n) \<le> (2 ^ 53 + 1) * (k * n)" by (rule js_round_factor)
  also have "\<dots> \<le> (2 ^ 53 + 1) * ((2 ^ 53 - 1) * n)"
    using assms(1) by (intro mult_le_mono2 mult_le_mono1) simp
  also have "\<dots> < 2 ^ 53 * (2 ^ 53 * n)" using assms(2) by simp
  finally show ?thesis by simp
qed

lemma random_below_less: "k < 2 ^ 53 \<Longrightarrow> 0 < n \<Longrightarrow> random_below k n < n"
  using random_product_less [of k n] by (simp add: random_below_def less_mult_imp_div_less)

end
