(* ===== verification/Nuid.thy ===== *)
theory Nuid
  imports Js_Numbers
begin

text \<open>
  Unique identifiers, \<open>nats-base-client/nuid.ts\<close>: twelve random base-36 characters followed
  by a ten-character base-36 sequence number that grows by a random increment and is redrawn,
  with the prefix, when it runs out. The random sources are arguments: the bytes of
  \<open>crypto.getRandomValues\<close>, and the numbers of \<open>Math.random\<close>, which are multiples
  \<open>k / 2 ^ 53\<close> in the unit interval and are represented by \<open>k\<close>.
\<close>

section \<open>The generator\<close>

definition digits :: string where
  "digits = ''0123456789ABCDEFGHIJKLMNOPQRSTUVWXYZ''"

definition base :: nat where "base = 36"
definition preLen :: nat where "preLen = 12"
definition seqLen :: nat where "seqLen = 10"
definition maxSeq :: nat where "maxSeq = 3656158440062976"
definition minInc :: nat where "minInc = 33"
definition maxInc :: nat where "maxInc = 333"
definition totalLen :: nat where "totalLen = preLen + seqLen"

record nuid =
  nu_buf :: bytes
  nu_seq :: nat
  nu_inc :: nat
  nu_inited :: bool

text \<open>What one draw of prefix, sequence and increment takes from the random sources.\<close>

record nuid_draw =
  dr_bytes :: bytes
  dr_seq :: nat
  dr_inc :: nat

definition draw_ok :: "nuid_draw \<Rightarrow> bool" where
  "draw_ok r \<longleftrightarrow> length (dr_bytes r) = preLen \<and> dr_seq r < 2 ^ 53 \<and> dr_inc r < 2 ^ 53"

definition new_nuid :: nuid where
  "new_nuid = \<lparr>nu_buf = replicate totalLen 0, nu_seq = 0, nu_inc = 0, nu_inited = False\<rparr>"

definition digit_byte :: "nat \<Rightarrow> byte" where
  "digit_byte d = of_char (digits ! d)"

text \<open>\<open>Math.floor(Math.random() * n)\<close> and \<open>Math.floor(Math.random() * (hi - lo) + lo)\<close>: the
  product and the sum are rounded to doubles before the floor.\<close>

definition init_seq_and_inc :: "nuid_draw \<Rightarrow> nuid \<Rightarrow> nuid" where
  "init_seq_and_inc r u =
     u\<lparr>nu_seq := js_round (dr_seq r * maxSeq) div 2 ^ 53,
       nu_inc := js_round (js_round (dr_inc r * (maxInc - minInc)) + minInc * 2 ^ 53) div 2 ^ 53\<rparr>"

fun set_pre_loop :: "nat \<Rightarrow> bytes \<Rightarrow> bytes \<Rightarrow> bytes" where
  "set_pre_loop i [] buf = buf"
| "set_pre_loop i (b # cbuf) buf = set_pre_loop (i + 1) cbuf (buf[i := digit_byte (unat b mod base)])"

definition set_pre :: "nuid_draw \<Rightarrow> nuid \<Rightarrow> nuid" where
  "set_pre r u = u\<lparr>nu_buf := set_pre_loop 0 (dr_bytes r) (nu_buf u)\<rparr>"

text \<open>The loop from index \<open>totalLen - 1\<close> down to \<open>preLen\<close>; \<open>k\<close> places are left.\<close>

fun fill_seq_loop :: "nat \<Rightarrow> nat \<Rightarrow> bytes \<Rightarrow> bytes" where
  "fill_seq_loop 0 n buf = buf"
| "fill_seq_loop (Suc k) n buf =
     fill_seq_loop k (n div base) (buf[preLen + k := digit_byte (n mod base)])"

definition fill_seq :: "nuid \<Rightarrow> nuid" where
  "fill_seq u = u\<lparr>nu_buf := fill_seq_loop seqLen (nu_seq u) (nu_buf u)\<rparr>"

definition nuid_init :: "nuid_draw \<Rightarrow> nuid \<Rightarrow> nuid" where
  "nuid_init r u = fill_seq (init_seq_and_inc r (set_pre r (u\<lparr>nu_inited := True\<rparr>)))"

definition nuid_reset :: "nuid_draw \<Rightarrow> nuid \<Rightarrow> nuid" where
  "nuid_reset r u = nuid_init r u"

text \<open>\<open>next\<close>, with a draw for the first use and one for an exhausted sequence.\<close>

definition nuid_next :: "nuid_draw \<Rightarrow> nuid_draw \<Rightarrow> nuid \<Rightarrow> nuid \<times> string" where
  "nuid_next r1 r2 u =
     (let u1 = (if nu_inited u then u else nuid_init r1 u);
          u2 = u1\<lparr>nu_seq := nu_seq u1 + nu_inc u1\<rparr>;
          u3 = (if nu_seq u2 > maxSeq then init_seq_and_inc r2 (set_pre r2 u2) else u2);
          u4 = fill_seq u3
      in (u4, td_decode (nu_buf u4)))"

fun nuid_nexts :: "(nuid_draw \<times> nuid_draw) list \<Rightarrow> nuid \<Rightarrow> nuid \<times> string list" where
  "nuid_nexts [] u = (u, [])"
| "nuid_nexts ((r1, r2) # rs) u =
     (let (u1, s) = nuid_next r1 r2 u; (u2, ss) = nuid_nexts rs u1 in (u2, s # ss))"

lemma draw_bounds:
  assumes "draw_ok r"
  shows "nu_seq (init_seq_and_inc r u) < maxSeq" "minInc \<le> nu_inc (init_seq_and_inc r u)"
    "nu_inc (init_seq_and_inc r u) \<le> maxInc"
proof -
  have k: "dr_seq r \<le> 2 ^ 53 - 1" "dr_inc r \<le> 2 ^ 53 - 1" using assms by (simp_all add: draw_ok_def)
  have "2 ^ 53 * js_round (dr_seq r * maxSeq) \<le> (2 ^ 53 + 1) * (dr_seq r * maxSeq)"
    by (rule js_round_factor)
  also have "\<dots> \<le> (2 ^ 53 + 1) * ((2 ^ 53 - 1) * maxSeq)"
    using k(1) by (intro mult_le_mono2 mult_le_mono1)
  also have "\<dots> < 2 ^ 53 * (2 ^ 53 * maxSeq)" by (simp add: maxSeq_def)
  finally have "js_round (dr_seq r * maxSeq) < maxSeq * 2 ^ 53" by simp
  then show "nu_seq (init_seq_and_inc r u) < maxSeq"
    by (simp add: init_seq_and_inc_def less_mult_imp_div_less)
  define p where "p = js_round (dr_inc r * (maxInc - minInc))"
  have "2 ^ 53 * p \<le> (2 ^ 53 + 1) * (dr_inc r * 300)"
    using js_round_factor [of "dr_inc r * 300"] by (simp add: p_def maxInc_def minInc_def)
  also have "\<dots> \<le> (2 ^ 53 + 1) * ((2 ^ 53 - 1) * 300)"
    using k(2) by (intro mult_le_mono2 mult_le_mono1)
  also have "\<dots> < 2 ^ 53 * (2 ^ 53 * 300)" by simp
  finally have p: "p < 2 ^ 53 * 300" by simp
  define s where "s = js_round (p + minInc * 2 ^ 53)"
  have "2 ^ 53 * s \<le> (2 ^ 53 + 1) * (p + minInc * 2 ^ 53)"
    unfolding s_def by (rule js_round_factor)
  also have "\<dots> < (2 ^ 53 + 1) * (333 * 2 ^ 53)"
    using p by (intro mult_less_mono2) (simp_all add: minInc_def)
  also have "\<dots> = 2 ^ 53 * (333 * (2 ^ 53 + 1))" by simp
  finally have "s < 333 * (2 ^ 53 + 1)" by simp
  then have "s < (maxInc + 1) * 2 ^ 53" by (simp add: maxInc_def)
  then have "s div 2 ^ 53 < maxInc + 1" by (rule less_mult_imp_div_less)
  then show "nu_inc (init_seq_and_inc r u) \<le> maxInc"
    by (simp add: init_seq_and_inc_def s_def p_def)
  have "minInc * 2 ^ 53 \<le> s"
    unfolding s_def
  proof (rule js_round_lower)
    show "p + minInc * 2 ^ 53 < 2 ^ 106" using p by (simp add: minInc_def)
  qed simp_all
  then have "minInc * 2 ^ 53 div 2 ^ 53 \<le> s div 2 ^ 53" by (rule div_le_mono)
  then show "minInc \<le> nu_inc (init_seq_and_inc r u)"
    by (simp add: init_seq_and_inc_def s_def p_def)
qed

section \<open>The sequence part\<close>

definition is_digit_byte :: "byte \<Rightarrow> bool" where
  "is_digit_byte b \<longleftrightarrow> b \<in> set (te_encode digits)"

lemma digits_distinct: "distinct digits" "length digits = base"
  by (simp_all add: digits_def base_def)

lemma digit_byte_in: "d < base \<Longrightarrow> is_digit_byte (digit_byte d)"
  using digits_distinct(2) by (auto simp: is_digit_byte_def digit_byte_def te_encode_def)

lemma digit_byte_inj: "d < base \<Longrightarrow> e < base \<Longrightarrow> digit_byte d = digit_byte e \<longleftrightarrow> d = e"
  using digits_distinct by (simp add: digit_byte_def nth_eq_iff_index_eq)

lemma length_fill_seq_loop [simp]: "length (fill_seq_loop k n buf) = length buf"
  by (induction k n buf rule: fill_seq_loop.induct) auto

lemma fill_seq_loop_other:
  "i < preLen \<or> preLen + k \<le> i \<Longrightarrow> fill_seq_loop k n buf ! i = buf ! i"
  by (induction k n buf rule: fill_seq_loop.induct) (auto simp: nth_list_update)

text \<open>Place \<open>k\<close> of the sequence part, counted from the right.\<close>

lemma fill_seq_loop_nth:
  assumes "j < k" "preLen + k \<le> length buf"
  shows "fill_seq_loop k n buf ! (preLen + (k - 1 - j)) = digit_byte (n div base ^ j mod base)"
  using assms
proof (induction k n buf arbitrary: j rule: fill_seq_loop.induct)
  case (2 k n buf)
  show ?case
  proof (cases j)
    case 0
    then show ?thesis using "2.prems" by (simp add: fill_seq_loop_other)
  next
    case (Suc i)
    have "n div base div base ^ i = n div base ^ j" by (simp add: Suc div_mult2_eq)
    then show ?thesis using "2.IH" [of i] "2.prems" Suc by simp
  qed
qed simp

lemma fill_seq_loop_window:
  "preLen + k \<le> length buf \<Longrightarrow> i < k \<Longrightarrow>
    is_digit_byte (fill_seq_loop k n buf ! (preLen + i))"
  using fill_seq_loop_nth [of "k - 1 - i" k buf n] digit_byte_in [of "_ mod base"]
  by (simp add: base_def)

lemma digits_determine:
  "(\<forall>j < k. m div b ^ j mod b = n div b ^ j mod b) \<Longrightarrow> m mod b ^ k = n mod (b::nat) ^ k"
proof (induction k)
  case (Suc k)
  then have "m mod b ^ k = n mod b ^ k" "m div b ^ k mod b = n div b ^ k mod b" by auto
  then show ?case by (simp add: mod_mult2_eq mult.commute [of b])
qed simp

lemma fill_seq_loop_inj:
  assumes "fill_seq_loop seqLen m buf = fill_seq_loop seqLen n buf'"
    "length buf = totalLen" "length buf' = totalLen"
  shows "m mod base ^ seqLen = n mod base ^ seqLen"
proof (rule digits_determine, intro allI impI)
  fix j assume j: "j < seqLen"
  have "digit_byte (m div base ^ j mod base) = digit_byte (n div base ^ j mod base)"
    using fill_seq_loop_nth [OF j, of buf m] fill_seq_loop_nth [OF j, of buf' n] assms
    by (simp add: totalLen_def)
  then show "m div base ^ j mod base = n div base ^ j mod base"
    by (simp add: digit_byte_inj base_def)
qed

lemma fill_seq_loop_idem:
  assumes "preLen + k \<le> length buf"
  shows "fill_seq_loop k n (fill_seq_loop k m buf) = fill_seq_loop k n buf"
proof (rule nth_equalityI)
  fix i assume "i < length (fill_seq_loop k n (fill_seq_loop k m buf))"
  show "fill_seq_loop k n (fill_seq_loop k m buf) ! i = fill_seq_loop k n buf ! i"
  proof (cases "i < preLen \<or> preLen + k \<le> i")
    case False
    then have "i = preLen + (k - 1 - (k - 1 - (i - preLen)))" "k - 1 - (i - preLen) < k" by auto
    then show ?thesis
      using fill_seq_loop_nth [of "k - 1 - (i - preLen)" k] assms
      by (metis length_fill_seq_loop)
  qed (simp add: fill_seq_loop_other)
qed simp

section \<open>Identifiers\<close>

lemma length_set_pre_loop [simp]: "length (set_pre_loop i cbuf buf) = length buf"
  by (induction i cbuf buf rule: set_pre_loop.induct) auto

lemma set_pre_loop_nth:
  "j < i \<or> i + length cbuf \<le> j \<Longrightarrow> set_pre_loop i cbuf buf ! j = buf ! j"
  by (induction i cbuf buf rule: set_pre_loop.induct) (auto simp: nth_list_update)

lemma set_pre_loop_digits:
  "i + length cbuf \<le> length buf \<Longrightarrow> i \<le> j \<Longrightarrow> j < i + length cbuf \<Longrightarrow>
    is_digit_byte (set_pre_loop i cbuf buf ! j)"
proof (induction i cbuf buf rule: set_pre_loop.induct)
  case (2 i b cbuf buf)
  show ?case
  proof (cases "j = i")
    case True
    then show ?thesis
      using 2 digit_byte_in [of "unat b mod base"] by (simp add: set_pre_loop_nth base_def)
  next
    case False
    then show ?thesis using 2 by simp
  qed
qed simp

text \<open>The state of a generator that was used: the buffer has its length, the prefix is in the
  alphabet, the increment in its range.\<close>

definition nuid_ok :: "nuid \<Rightarrow> bool" where
  "nuid_ok u \<longleftrightarrow> length (nu_buf u) = totalLen \<and>
     (nu_inited u \<longrightarrow> (\<forall>i < preLen. is_digit_byte (nu_buf u ! i)) \<and> nu_seq u \<le> maxSeq
        \<and> minInc \<le> nu_inc u \<and> nu_inc u \<le> maxInc)"

definition prefix_ok :: "nuid \<Rightarrow> bool" where
  "prefix_ok u \<longleftrightarrow> length (nu_buf u) = totalLen \<and> (\<forall>i < preLen. is_digit_byte (nu_buf u ! i))"

lemma nuid_sel_simps [simp]:
  "nu_buf (init_seq_and_inc r u) = nu_buf u"
  "nu_inited (init_seq_and_inc r u) = nu_inited u"
  "nu_seq (fill_seq u) = nu_seq u" "nu_inc (fill_seq u) = nu_inc u"
  "nu_inited (fill_seq u) = nu_inited u" "nu_inited (set_pre r u) = nu_inited u"
  by (simp_all add: init_seq_and_inc_def fill_seq_def set_pre_def)

lemma prefix_ok_set_pre:
  "draw_ok r \<Longrightarrow> length (nu_buf u) = totalLen \<Longrightarrow> prefix_ok (set_pre r u)"
  using set_pre_loop_digits [of 0 "dr_bytes r" "nu_buf u"]
  by (simp add: prefix_ok_def set_pre_def draw_ok_def totalLen_def)

lemma prefix_ok_fill_seq: "prefix_ok u \<Longrightarrow> prefix_ok (fill_seq u)"
  by (simp add: prefix_ok_def fill_seq_def fill_seq_loop_other)

lemma prefix_ok_cong: "nu_buf u = nu_buf w \<Longrightarrow> prefix_ok u = prefix_ok w"
  by (simp add: prefix_ok_def)

lemma nuid_ok_inited:
  "nuid_ok u \<and> nu_inited u \<longleftrightarrow>
    prefix_ok u \<and> nu_inited u \<and> nu_seq u \<le> maxSeq \<and> minInc \<le> nu_inc u \<and> nu_inc u \<le> maxInc"
  by (auto simp: nuid_ok_def prefix_ok_def)

lemma nuid_init_ok:
  assumes "draw_ok r" "length (nu_buf u) = totalLen"
  shows "nuid_ok (nuid_init r u) \<and> nu_inited (nuid_init r u)"
proof -
  let ?w = "set_pre r (u\<lparr>nu_inited := True\<rparr>)"
  have "prefix_ok ?w" using assms by (intro prefix_ok_set_pre) simp_all
  then have "prefix_ok (init_seq_and_inc r ?w)" by (simp cong: prefix_ok_cong add: prefix_ok_def)
  then have "prefix_ok (nuid_init r u)" unfolding nuid_init_def by (rule prefix_ok_fill_seq)
  moreover have "nu_inited ?w" by (simp add: set_pre_def)
  ultimately show ?thesis
    using draw_bounds [OF assms(1), of ?w] unfolding nuid_ok_inited by (simp add: nuid_init_def)
qed

lemma prefix_window_digits:
  assumes "prefix_ok u"
  shows "\<forall>b \<in> set (nu_buf (fill_seq u)). is_digit_byte b"
proof
  fix b assume "b \<in> set (nu_buf (fill_seq u))"
  then obtain i where i: "i < totalLen" "b = nu_buf (fill_seq u) ! i"
    using assms by (auto simp: in_set_conv_nth prefix_ok_def fill_seq_def)
  show "is_digit_byte b"
  proof (cases "i < preLen")
    case True
    then show ?thesis using assms i by (simp add: prefix_ok_def fill_seq_def fill_seq_loop_other)
  next
    case False
    then have "i = preLen + (i - preLen)" "i - preLen < seqLen"
      using i(1) by (simp_all add: totalLen_def)
    then show ?thesis
      using fill_seq_loop_window [of seqLen "nu_buf u" "i - preLen" "nu_seq u"] assms i(2)
      by (simp add: prefix_ok_def totalLen_def fill_seq_def)
  qed
qed

lemma nuid_next_ok:
  assumes "nuid_ok u" "draw_ok r1" "draw_ok r2" "nuid_next r1 r2 u = (u', s)"
  shows "nuid_ok u' \<and> nu_inited u' \<and> te_encode s = nu_buf u'
    \<and> length s = totalLen \<and> set s \<subseteq> set digits"
proof -
  define u1 where "u1 = (if nu_inited u then u else nuid_init r1 u)"
  define u2 where "u2 = u1\<lparr>nu_seq := nu_seq u1 + nu_inc u1\<rparr>"
  define u3 where "u3 = (if nu_seq u2 > maxSeq then init_seq_and_inc r2 (set_pre r2 u2) else u2)"
  have u': "u' = fill_seq u3" "s = td_decode (nu_buf (fill_seq u3))"
    using assms(4) unfolding nuid_next_def u1_def [symmetric] Let_def
      u2_def [symmetric] u3_def [symmetric] by auto
  have "nuid_ok u1 \<and> nu_inited u1"
    using assms nuid_init_ok [OF assms(2), of u] by (auto simp: u1_def nuid_ok_def)
  then have u1: "prefix_ok u1" "nu_inited u1" "minInc \<le> nu_inc u1" "nu_inc u1 \<le> maxInc"
    unfolding nuid_ok_inited by auto
  then have p2: "prefix_ok u2" by (simp add: u2_def prefix_ok_def)
  have u3: "prefix_ok u3" "nu_inited u3" "nu_seq u3 \<le> maxSeq" "minInc \<le> nu_inc u3" "nu_inc u3 \<le> maxInc"
  proof -
    have "prefix_ok (init_seq_and_inc r2 (set_pre r2 u2))"
      using prefix_ok_set_pre [OF assms(3), of u2] p2 by (simp add: prefix_ok_def)
    then show "prefix_ok u3" using p2 by (simp add: u3_def)
    show "nu_inited u3" "nu_seq u3 \<le> maxSeq" "minInc \<le> nu_inc u3" "nu_inc u3 \<le> maxInc"
      using u1 draw_bounds [OF assms(3), of "set_pre r2 u2"] by (simp_all add: u3_def u2_def)
  qed
  then have ok: "nuid_ok u' \<and> nu_inited u'"
    unfolding nuid_ok_inited u' using prefix_ok_fill_seq by simp
  have enc: "te_encode s = nu_buf u'" by (simp add: u')
  have "length (nu_buf u') = totalLen" using ok by (simp add: nuid_ok_def)
  then have len: "length s = totalLen" using enc by (metis length_te_encode)
  have "set (te_encode s) \<subseteq> set (te_encode digits)"
    using prefix_window_digits [OF u3(1)] by (auto simp: u' is_digit_byte_def)
  then have "of_char ` set s \<subseteq> (of_char ` set digits :: byte set)" by (simp add: te_encode_def)
  then have "set s \<subseteq> set digits" by (auto simp: image_subset_iff image_iff)
  with ok enc len show ?thesis by simp
qed

lemma nuid_nexts_shape:
  assumes "nuid_ok u" "\<forall>(r1, r2) \<in> set rs. draw_ok r1 \<and> draw_ok r2" "nuid_nexts rs u = (u', ss)"
  shows "length ss = length rs \<and> (\<forall>s \<in> set ss. length s = totalLen \<and> set s \<subseteq> set digits)"
  using assms
proof (induction rs arbitrary: u u' ss)
  case (Cons r rs)
  obtain r1 r2 where r: "r = (r1, r2)" by (cases r)
  obtain u1 s where n: "nuid_next r1 r2 u = (u1, s)" by (cases "nuid_next r1 r2 u")
  obtain u2 ss' where ns: "nuid_nexts rs u1 = (u2, ss')" by (cases "nuid_nexts rs u1")
  have "nuid_ok u1" "length s = totalLen" "set s \<subseteq> set digits"
    using nuid_next_ok [OF Cons.prems(1) _ _ n] Cons.prems(2) r by auto
  moreover have "length ss' = length rs \<and> (\<forall>s \<in> set ss'. length s = totalLen \<and> set s \<subseteq> set digits)"
    using Cons.IH [OF \<open>nuid_ok u1\<close> _ ns] Cons.prems(2) by simp
  moreover have "ss = s # ss'" using Cons.prems(3) r n ns by simp
  ultimately show ?case by simp
qed simp

text \<open>
  Whatever the random sources give, every identifier of a new generator has twenty-two
  characters, all of them digits or capital letters.
\<close>
theorem identifiers_have_the_format:
  assumes "\<forall>(r1, r2) \<in> set rs. draw_ok r1 \<and> draw_ok r2"
  shows "length (snd (nuid_nexts rs new_nuid)) = length rs
    \<and> (\<forall>s \<in> set (snd (nuid_nexts rs new_nuid)). length s = 22 \<and> set s \<subseteq> set digits)"
proof -
  have "nuid_ok new_nuid" by (simp add: nuid_ok_def new_nuid_def)
  moreover have "totalLen = 22" by (simp add: totalLen_def preLen_def seqLen_def)
  ultimately show ?thesis
    using nuid_nexts_shape [OF _ assms, of new_nuid] by (metis prod.collapse)
qed

theorem identifiers_have_the_format_witness:
  "map length (snd (nuid_nexts
     [(\<lparr>dr_bytes = replicate 12 7, dr_seq = 5, dr_inc = 9\<rparr>, \<lparr>dr_bytes = replicate 12 7, dr_seq = 5, dr_inc = 9\<rparr>)]
     new_nuid)) = [22]"
proof -
  let ?rs = "[(\<lparr>dr_bytes = replicate 12 7, dr_seq = 5, dr_inc = 9\<rparr>, \<lparr>dr_bytes = replicate 12 7, dr_seq = 5, dr_inc = 9\<rparr>)]"
  have "length (snd (nuid_nexts ?rs new_nuid)) = 1 \<and> (\<forall>s \<in> set (snd (nuid_nexts ?rs new_nuid)). length s = 22)"
    using identifiers_have_the_format [of ?rs] by (simp add: draw_ok_def preLen_def del: nuid_nexts.simps)
  then show ?thesis by (cases "snd (nuid_nexts ?rs new_nuid)") (auto simp del: nuid_nexts.simps)
qed

lemma nuid_next_same_prefix:
  assumes "nuid_ok u" "nu_inited u" "nu_seq u + nu_inc u \<le> maxSeq"
  shows "nuid_next r1 r2 u =
    (let u' = u\<lparr>nu_buf := fill_seq_loop seqLen (nu_seq u + nu_inc u) (nu_buf u),
                nu_seq := nu_seq u + nu_inc u\<rparr> in (u', td_decode (nu_buf u')))"
  using assms by (simp add: nuid_next_def Let_def fill_seq_def)

lemma nuid_nexts_same_prefix:
  assumes "nuid_ok u" "nu_inited u" "nu_seq u + length rs * nu_inc u \<le> maxSeq"
  shows "map te_encode (snd (nuid_nexts rs u)) =
    map (\<lambda>k. fill_seq_loop seqLen (nu_seq u + Suc k * nu_inc u) (nu_buf u)) [0..<length rs]"
  using assms
proof (induction rs arbitrary: u)
  case (Cons r rs)
  obtain r1 r2 where r: "r = (r1, r2)" by (cases r)
  let ?u = "u\<lparr>nu_buf := fill_seq_loop seqLen (nu_seq u + nu_inc u) (nu_buf u),
      nu_seq := nu_seq u + nu_inc u\<rparr>"
  have le: "nu_seq u + nu_inc u \<le> maxSeq" using Cons.prems(3) by simp
  have len: "length (nu_buf u) = preLen + seqLen"
    using Cons.prems(1) by (simp add: nuid_ok_def totalLen_def)
  have "nuid_ok ?u"
    using Cons.prems le by (simp add: nuid_ok_def fill_seq_loop_other)
  moreover have "nu_seq ?u + length rs * nu_inc ?u \<le> maxSeq" using Cons.prems(3) by simp
  ultimately have "map te_encode (snd (nuid_nexts rs ?u)) =
      map (\<lambda>k. fill_seq_loop seqLen (nu_seq ?u + Suc k * nu_inc ?u) (nu_buf ?u)) [0..<length rs]"
    using Cons.prems(2) by (intro Cons.IH) simp_all
  also have "\<dots> = map (\<lambda>k. fill_seq_loop seqLen (nu_seq u + Suc (Suc k) * nu_inc u) (nu_buf u)) [0..<length rs]"
    by (simp add: fill_seq_loop_idem len add_ac)
  finally have rest: "map te_encode (snd (nuid_nexts rs ?u)) = \<dots>" .
  have "snd (nuid_nexts (r # rs) u) = td_decode (nu_buf ?u) # snd (nuid_nexts rs ?u)"
    by (simp add: r nuid_next_same_prefix [OF Cons.prems(1,2) le] Let_def case_prod_beta)
  then show ?case
    using rest by (simp add: upt_conv_Cons map_Suc_upt [symmetric] del: upt_Suc)
qed simp

text \<open>
  The identifiers a generator gives out between two draws of its prefix are pairwise
  different: this covers the last sequence number, which is the first that no longer fits the
  ten places and is printed as zeros.
\<close>
theorem identifiers_are_distinct:
  assumes "nuid_ok u" "nu_inited u" "nu_seq u + length rs * nu_inc u \<le> maxSeq"
  shows "distinct (snd (nuid_nexts rs u))"
proof -
  let ?f = "\<lambda>k. fill_seq_loop seqLen (nu_seq u + Suc k * nu_inc u) (nu_buf u)"
  have len: "length (nu_buf u) = totalLen" and inc: "0 < nu_inc u"
    using assms by (auto simp: nuid_ok_def minInc_def)
  have max: "maxSeq = base ^ seqLen" by (simp add: maxSeq_def base_def seqLen_def)
  have "inj_on ?f {0..<length rs}"
  proof (rule inj_onI)
    fix j k assume jk: "j \<in> {0..<length rs}" "k \<in> {0..<length rs}" and eq: "?f j = ?f k"
    have bound: "0 < nu_seq u + Suc i * nu_inc u \<and> nu_seq u + Suc i * nu_inc u \<le> maxSeq"
      if "i \<in> {0..<length rs}" for i
      using that assms(3) inc mult_le_mono1 [of "Suc i" "length rs" "nu_inc u"] by simp
    have "(nu_seq u + Suc j * nu_inc u) mod maxSeq = (nu_seq u + Suc k * nu_inc u) mod maxSeq"
      unfolding max using eq len by (intro fill_seq_loop_inj [of _ "nu_buf u" _ "nu_buf u"]) auto
    then have "nu_seq u + Suc j * nu_inc u = nu_seq u + Suc k * nu_inc u"
      using bound [OF jk(1)] bound [OF jk(2)]
      by (metis le_neq_implies_less mod_less mod_self neq0_conv)
    then show "j = k" using inc by simp
  qed
  then have "distinct (map ?f [0..<length rs])" by (simp add: distinct_map)
  then have "distinct (map te_encode (snd (nuid_nexts rs u)))"
    unfolding nuid_nexts_same_prefix [OF assms] .
  then show ?thesis by (simp add: distinct_map)
qed

theorem identifiers_are_distinct_witness:
  "distinct (snd (nuid_nexts (replicate 3
     (\<lparr>dr_bytes = replicate 12 7, dr_seq = 5, dr_inc = 9\<rparr>, \<lparr>dr_bytes = replicate 12 7, dr_seq = 5, dr_inc = 9\<rparr>))
     \<lparr>nu_buf = replicate 22 48, nu_seq = 17, nu_inc = 33, nu_inited = True\<rparr>))"
proof (rule identifiers_are_distinct)
  have "is_digit_byte 48" by (simp add: is_digit_byte_def digits_def)
  then show "nuid_ok \<lparr>nu_buf = replicate 22 48, nu_seq = 17, nu_inc = 33, nu_inited = True\<rparr>"
    by (simp add: nuid_ok_def totalLen_def preLen_def seqLen_def maxSeq_def minInc_def maxInc_def)
qed (simp_all add: maxSeq_def)

end
