(* ===== verification/Ip_Parser.thy ===== *)
theory Ip_Parser
  imports Js_Strings
begin

text \<open>
  Recognising IP addresses, \<open>nats-base-client/ipparser.ts\<close>. An address is sixteen bytes, an
  IPv4 address in its mapped form. The server list uses \<open>isIP\<close> to tell addresses from host
  names.
\<close>

section \<open>Decimal and hexadecimal prefixes\<close>

definition big :: nat where "big = 0xFFFFFF"

text \<open>The result object: the number, the characters read, and whether it is valid.\<close>

fun dtoi_loop :: "nat \<Rightarrow> nat \<Rightarrow> string \<Rightarrow> nat \<times> nat \<times> bool" where
  "dtoi_loop i n s =
     (case s of
        c # r \<Rightarrow>
          if 48 \<le> char_code c \<and> char_code c \<le> 57 then
            (let n' = n * 10 + (char_code c - 48)
             in if n' \<ge> big then (big, i, False) else dtoi_loop (i + 1) n' r)
          else if i = 0 then (0, 0, False) else (n, i, True)
      | [] \<Rightarrow> if i = 0 then (0, 0, False) else (n, i, True))"

definition dtoi :: "string \<Rightarrow> nat \<times> nat \<times> bool" where
  "dtoi s = dtoi_loop 0 0 s"

definition hex_val :: "char \<Rightarrow> nat option" where
  "hex_val c =
     (if 48 \<le> char_code c \<and> char_code c \<le> 57 then Some (char_code c - 48)
      else if 97 \<le> char_code c \<and> char_code c \<le> 102 then Some (char_code c - 97 + 10)
      else if 65 \<le> char_code c \<and> char_code c \<le> 70 then Some (char_code c - 65 + 10)
      else None)"

fun xtoi_loop :: "nat \<Rightarrow> nat \<Rightarrow> string \<Rightarrow> nat \<times> nat \<times> bool" where
  "xtoi_loop i n s =
     (case s of
        c # r \<Rightarrow>
          (case hex_val c of
             Some v \<Rightarrow>
               (let n' = n * 16 + v
                in if n' \<ge> big then (0, i, False) else xtoi_loop (i + 1) n' r)
           | None \<Rightarrow> if i = 0 then (0, i, False) else (n, i, True))
      | [] \<Rightarrow> if i = 0 then (0, i, False) else (n, i, True))"

definition xtoi :: "string \<Rightarrow> nat \<times> nat \<times> bool" where
  "xtoi s = xtoi_loop 0 0 s"

declare dtoi_loop.simps [simp del] xtoi_loop.simps [simp del]

section \<open>Addresses\<close>

definition ipV4 :: "byte \<Rightarrow> byte \<Rightarrow> byte \<Rightarrow> byte \<Rightarrow> bytes" where
  "ipV4 a b c d = [0, 0, 0, 0, 0, 0, 0, 0, 0, 0, 0xff, 0xff, a, b, c, d]"

text \<open>The four rounds of \<open>parseIPv4\<close>; \<open>k\<close> rounds are left.\<close>

fun parse4_loop :: "nat \<Rightarrow> string \<Rightarrow> bytes \<Rightarrow> bytes option" where
  "parse4_loop 0 s ip = Some ip"
| "parse4_loop (Suc k) s ip =
     (if s = [] then None
      else if ip \<noteq> [] \<and> hd s \<noteq> CHR ''.'' then None
      else let s1 = (if ip \<noteq> [] then tl s else s);
               (n, c, ok) = dtoi s1
           in if \<not> ok \<or> n > 0xFF then None
              else parse4_loop k (drop c s1) (ip @ [of_nat n]))"

definition parseIPv4 :: "string \<Rightarrow> bytes option" where
  "parseIPv4 s = (case parse4_loop 4 s [] of
     None \<Rightarrow> None
   | Some ip \<Rightarrow> Some (ipV4 (ip ! 0) (ip ! 1) (ip ! 2) (ip ! 3)))"

text \<open>The \<open>while\<close> loop of \<open>parseIPv6\<close>: the index, the rest of the text, the position of the
  ellipsis and the array when it ends, or nothing where it returns \<open>undefined\<close>.\<close>

function v6_loop ::
  "nat \<Rightarrow> string \<Rightarrow> nat option \<Rightarrow> bytes \<Rightarrow> (nat \<times> string \<times> nat option \<times> bytes) option" where
  "v6_loop i s ell ip =
     (if i \<ge> 16 then Some (i, s, ell, ip)
      else let (n, c, ok) = xtoi s in
        if \<not> ok \<or> n > 0xFFFF then None
        else if c < length s \<and> s ! c = CHR ''.'' then
          (if ell = None \<and> i \<noteq> 12 then None
           else if i + 4 > 16 then None
           else case parseIPv4 s of
             None \<Rightarrow> None
           | Some ip4 \<Rightarrow> Some (i + 4, [], ell,
               ip[i := ip4 ! 12, i + 1 := ip4 ! 13, i + 2 := ip4 ! 14, i + 3 := ip4 ! 15]))
        else
          let ip1 = ip[i := of_nat (n div 256), i + 1 := of_nat n];
              i1 = i + 2;
              s1 = drop c s
          in if s1 = [] then Some (i1, s1, ell, ip1)
             else if hd s1 \<noteq> CHR '':'' \<or> length s1 = 1 then None
             else let s2 = tl s1 in
               if hd s2 = CHR '':'' then
                 (if ell \<noteq> None then None
                  else let s3 = tl s2 in
                    if s3 = [] then Some (i1, s3, Some i1, ip1)
                    else v6_loop i1 s3 (Some i1) ip1)
               else v6_loop i1 s2 ell ip1)"
  by pat_completeness auto
termination by (relation "measure (\<lambda>(i, s, ell, ip). 16 - i)") auto

declare v6_loop.simps [simp del]

text \<open>The two loops that open the gap: \<open>m\<close> bytes are still to move, or to clear.\<close>

fun v6_shift :: "nat \<Rightarrow> nat \<Rightarrow> nat \<Rightarrow> bytes \<Rightarrow> bytes" where
  "v6_shift 0 e n ip = ip"
| "v6_shift (Suc m) e n ip = v6_shift m e n (ip[e + m + n := ip ! (e + m)])"

fun v6_clear :: "nat \<Rightarrow> nat \<Rightarrow> bytes \<Rightarrow> bytes" where
  "v6_clear 0 e ip = ip"
| "v6_clear (Suc m) e ip = v6_clear m e (ip[e + m := 0])"

definition v6_finish :: "nat \<times> string \<times> nat option \<times> bytes \<Rightarrow> bytes option" where
  "v6_finish st =
     (case st of (i, s, ell, ip) \<Rightarrow>
        if s \<noteq> [] then None
        else if i < 16 then
          (case ell of None \<Rightarrow> None
           | Some e \<Rightarrow> let n = 16 - i in Some (v6_clear n e (v6_shift (i - e) e n ip)))
        else if ell \<noteq> None then None else Some ip)"

definition parseIPv6 :: "string \<Rightarrow> bytes option" where
  "parseIPv6 s =
     (let ip = replicate 16 0;
          double = (length s \<ge> 2 \<and> s ! 0 = CHR '':'' \<and> s ! 1 = CHR '':'');
          s1 = (if double then drop 2 s else s)
      in if double \<and> s1 = [] then Some ip
         else Option.bind (v6_loop 0 s1 (if double then Some 0 else None) ip) v6_finish)"

fun parse_ip_loop :: "string \<Rightarrow> string \<Rightarrow> bytes option" where
  "parse_ip_loop [] h = None"
| "parse_ip_loop (c # r) h =
     (if c = CHR ''.'' then parseIPv4 h
      else if c = CHR '':'' then parseIPv6 h
      else parse_ip_loop r h)"

definition parseIP :: "string \<Rightarrow> bytes option" where
  "parseIP h = parse_ip_loop h h"

definition isIP :: "string \<Rightarrow> bool" where
  "isIP h \<longleftrightarrow> parseIP h \<noteq> None"

section \<open>Reading printed numbers\<close>

lemma dtoi_loop_digits:
  assumes "\<forall>c \<in> set ds. is_digit c" "r = [] \<or> \<not> is_digit (hd r)"
    "foldl (\<lambda>n c. 10 * n + digit_val c) n ds < big" "0 < i + length ds"
  shows "dtoi_loop i n (ds @ r) = (foldl (\<lambda>n c. 10 * n + digit_val c) n ds, i + length ds, True)"
  using assms
proof (induction ds arbitrary: i n)
  case Nil
  then show ?case
    by (cases r) (auto simp: dtoi_loop.simps [of i n] is_digit_def)
next
  case (Cons c ds)
  have mono: "n \<le> foldl (\<lambda>n c. 10 * n + digit_val c) n ds" for n ds
  proof (induction ds arbitrary: n)
    case (Cons a ds)
    show ?case using Cons.IH [of "10 * n + digit_val a"] by simp
  qed simp
  have "10 * n + digit_val c < big"
    using Cons.prems(3) mono [of "10 * n + digit_val c" ds] by simp
  then have "dtoi_loop i n ((c # ds) @ r) = dtoi_loop (i + 1) (10 * n + digit_val c) (ds @ r)"
    using Cons.prems(1) by (simp add: dtoi_loop.simps [of i n] is_digit_def digit_val_def mult.commute)
  then show ?case using Cons by simp
qed

lemma dtoi_show_nat:
  assumes "n < big" "r = [] \<or> \<not> is_digit (hd r)"
  shows "dtoi (show_nat n @ r) = (n, length (show_nat n), True)"
  using dtoi_loop_digits [OF show_nat_all_digits assms(2), of 0 n 0] assms(1) digits_val_show_nat [of n]
  by (simp add: dtoi_def digits_val_def)

fun dotted :: "nat list \<Rightarrow> string" where
  "dotted [] = []"
| "dotted [n] = show_nat n"
| "dotted (n # ns) = show_nat n @ ''.'' @ dotted ns"

lemma not_digit_dot_char: "\<not> is_digit CHR ''.''"
  by (simp add: is_digit_def char_code_def)

lemma parse4_step:
  assumes "n < 256" "r = [] \<or> \<not> is_digit (hd r)"
  shows "parse4_loop (Suc k) ((if ip = [] then [] else ''.'') @ show_nat n @ r) ip
    = parse4_loop k r (ip @ [of_nat n])"
proof -
  have "dtoi (show_nat n @ r) = (n, length (show_nat n), True)"
    using assms by (intro dtoi_show_nat) (simp_all add: big_def)
  then show ?thesis using assms(1) by (simp add: Let_def)
qed

lemma parse4_rounds:
  assumes "\<forall>n \<in> set ns. n < 256" "ns \<noteq> []" "r = [] \<or> \<not> is_digit (hd r)"
  shows "parse4_loop (length ns) ((if ip = [] then [] else ''.'') @ dotted ns @ r) ip
    = Some (ip @ map of_nat ns)"
  using assms
proof (induction ns arbitrary: ip rule: dotted.induct)
  case (2 n)
  then show ?case using parse4_step [of n r 0 ip] by simp
next
  case (3 n m ns)
  have "parse4_loop (length (n # m # ns)) ((if ip = [] then [] else ''.'') @ dotted (n # m # ns) @ r) ip
      = parse4_loop (length (m # ns)) (''.'' @ dotted (m # ns) @ r) (ip @ [of_nat n])"
    using parse4_step [of n "''.'' @ dotted (m # ns) @ r" "length (m # ns)" ip] 3
    by (simp add: not_digit_dot_char del: parse4_loop.simps)
  also have "\<dots> = Some (ip @ map of_nat (n # m # ns))"
    using 3 "3.IH" [of "ip @ [of_nat n]"] by (simp del: parse4_loop.simps)
  finally show ?case .
qed simp

lemma parse_ip_loop_dot:
  assumes "\<forall>c \<in> set p. is_digit c"
  shows "parse_ip_loop (p @ CHR ''.'' # q) h = parseIPv4 h"
  using assms by (induction p) (auto simp: is_digit_def char_code_def)

text \<open>
  The dotted form of four bytes is parsed to the mapped address of these bytes, and so is
  the same text followed by anything that does not start with a digit: what follows the
  fourth number is not looked at.
\<close>
theorem parse_dotted:
  assumes "a < 256" "b < 256" "c < 256" "d < 256" "r = [] \<or> \<not> is_digit (hd r)"
  shows "parseIP (dotted [a, b, c, d] @ r) = Some (ipV4 (of_nat a) (of_nat b) (of_nat c) (of_nat d))"
proof -
  have "parse4_loop 4 (dotted [a, b, c, d] @ r) [] = Some (map of_nat [a, b, c, d])"
    using parse4_rounds [of "[a, b, c, d]" r "[]"] assms by (simp add: numeral_eq_Suc)
  then have "parseIPv4 (dotted [a, b, c, d] @ r) = Some (ipV4 (of_nat a) (of_nat b) (of_nat c) (of_nat d))"
    by (simp add: parseIPv4_def)
  then show ?thesis
    using parse_ip_loop_dot [OF show_nat_all_digits] by (simp add: parseIP_def)
qed

theorem parse_dotted_witness:
  "parseIP (dotted [127, 0, 0, 1] @ ''.example.com'') = Some (ipV4 127 0 0 1)"
  using parse_dotted [of 127 0 0 1 "''.example.com''"] by (simp add: is_digit_def char_code_def)

section \<open>IPv6 addresses\<close>

definition hex_char :: "nat \<Rightarrow> char" where
  "hex_char d = char_of (if d < 10 then 48 + d else 87 + d)"

fun show_hex :: "nat \<Rightarrow> string" where
  "show_hex n = (if n < 16 then [hex_char n] else show_hex (n div 16) @ [hex_char (n mod 16)])"

declare show_hex.simps [simp del]

fun groups :: "nat list \<Rightarrow> string" where
  "groups [] = []"
| "groups [n] = show_hex n"
| "groups (n # ns) = show_hex n @ '':'' @ groups ns"

definition group_bytes :: "nat list \<Rightarrow> bytes" where
  "group_bytes ns = concat (map (\<lambda>n. [of_nat (n div 256), of_nat n]) ns)"

lemma hex_val_hex_char [simp]: "d < 16 \<Longrightarrow> hex_val (hex_char d) = Some d"
  by (auto simp: hex_val_def hex_char_def)

lemma hex_val_colon: "hex_val CHR '':'' = None"
  by (simp add: hex_val_def char_code_def)

lemma show_hex_nonempty [simp]: "show_hex n \<noteq> []"
  by (subst show_hex.simps) simp

lemma length_groups_bytes [simp]: "length (group_bytes ns) = 2 * length ns"
  by (induction ns) (auto simp: group_bytes_def)

lemma xtoi_loop_step:
  assumes "d < 16" "n * 16 + d < big"
  shows "xtoi_loop i n (hex_char d # r) = xtoi_loop (i + 1) (n * 16 + d) r"
  using assms by (simp add: xtoi_loop.simps [of i n] Let_def)

lemma xtoi_loop_show_hex:
  assumes "n < big"
  shows "xtoi_loop i m (show_hex n @ r) =
    (if m * 16 ^ length (show_hex n) + n < big
     then xtoi_loop (i + length (show_hex n)) (m * 16 ^ length (show_hex n) + n) r
     else xtoi_loop i m (show_hex n @ r))"
  using assms
proof (induction n arbitrary: r rule: show_hex.induct)
  case (1 n)
  show ?case
  proof (cases "n < 16")
    case True
    then show ?thesis using xtoi_loop_step [of n m i r] by (simp add: show_hex.simps [of n])
  next
    case False
    let ?l = "length (show_hex (n div 16))"
    have sh: "show_hex n = show_hex (n div 16) @ [hex_char (n mod 16)]"
      using False by (simp add: show_hex.simps [of n])
    show ?thesis
    proof (cases "m * 16 ^ length (show_hex n) + n < big")
      case True
      have n: "n = n div 16 * 16 + n mod 16" by simp
      have s: "(m * 16 ^ ?l + n div 16) * 16 + n mod 16 = m * 16 ^ length (show_hex n) + n"
        by (subst (3) n) (simp add: sh algebra_simps)
      have "m * 16 ^ ?l + n div 16 \<le> (m * 16 ^ ?l + n div 16) * 16 + n mod 16" by simp
      then have "m * 16 ^ ?l + n div 16 < big" using True unfolding s by (rule order_le_less_trans)
      moreover have "n div 16 < big" using "1.prems" by linarith
      ultimately have "xtoi_loop i m (show_hex (n div 16) @ hex_char (n mod 16) # r) =
          xtoi_loop (i + ?l) (m * 16 ^ ?l + n div 16) (hex_char (n mod 16) # r)"
        using "1.IH" [OF False, of "hex_char (n mod 16) # r"] by simp
      also have "\<dots> = xtoi_loop (i + ?l + 1) (m * 16 ^ length (show_hex n) + n) r"
        using True xtoi_loop_step [of "n mod 16" "m * 16 ^ ?l + n div 16" "i + ?l" r]
        unfolding s by simp
      finally show ?thesis using True by (simp add: sh)
    qed simp
  qed
qed

lemma xtoi_show_hex:
  assumes "n < 65536" "r = [] \<or> hd r = CHR '':''"
  shows "xtoi (show_hex n @ r) = (n, length (show_hex n), True)"
proof -
  have b: "n < big" using assms(1) by (simp add: big_def)
  have "xtoi_loop 0 0 (show_hex n @ r) = xtoi_loop (length (show_hex n)) n r"
    using xtoi_loop_show_hex [OF b, of 0 0 r] b by simp
  also have "\<dots> = (n, length (show_hex n), True)"
    using assms(2) by (cases r) (simp_all add: xtoi_loop.simps [of "length (show_hex n)"] hex_val_colon)
  finally show ?thesis by (simp add: xtoi_def)
qed

lemma show_hex_chars: "c \<in> set (show_hex n) \<Longrightarrow> \<exists>d < 16. c = hex_char d"
proof (induction n rule: show_hex.induct)
  case (1 n)
  show ?case
  proof (cases "n < 16")
    case True
    with 1 show ?thesis by (auto simp: show_hex.simps [of n])
  next
    case False
    then have "n mod 16 < 16" "show_hex n = show_hex (n div 16) @ [hex_char (n mod 16)]"
      by (simp_all add: show_hex.simps [of n])
    then have "c \<in> set (show_hex (n div 16)) \<or> c = hex_char (n mod 16)" using "1.prems" by auto
    then show ?thesis using "1.IH" [OF False] \<open>n mod 16 < 16\<close> by blast
  qed
qed

lemma hd_show_hex: "hd (show_hex n) \<noteq> CHR '':'' \<and> hd (show_hex n) \<noteq> CHR ''.''"
proof -
  obtain d where "d < 16" "hd (show_hex n) = hex_char d"
    using show_hex_chars [of "hd (show_hex n)" n] by auto
  then show ?thesis
    using hex_val_hex_char [of d] hex_val_colon by (auto simp: hex_val_def char_code_def)
qed

text \<open>One group of the loop, before the end of the text, a single or a double colon.\<close>

lemma v6_group:
  assumes "i < 16" "n < 65536" "r = [] \<or> hd r = CHR '':''"
  shows "v6_loop i (show_hex n @ r) ell ip =
    (let ip1 = ip[i := of_nat (n div 256), i + 1 := of_nat n]; i1 = i + 2
     in if r = [] then Some (i1, r, ell, ip1)
        else if length r = 1 then None
        else let s2 = tl r in
          if hd s2 = CHR '':'' then
            (if ell \<noteq> None then None
             else let s3 = tl s2 in
               if s3 = [] then Some (i1, s3, Some i1, ip1) else v6_loop i1 s3 (Some i1) ip1)
          else v6_loop i1 s2 ell ip1)"
proof -
  have x: "xtoi (show_hex n @ r) = (n, length (show_hex n), True)"
    using assms by (intro xtoi_show_hex)
  show ?thesis
  proof (cases r)
    case Nil
    then show ?thesis
      using assms x unfolding v6_loop.simps [of i "show_hex n @ r"] by simp
  next
    case (Cons c q)
    then have "c = CHR '':''" using assms(3) by simp
    then show ?thesis
      using Cons assms(1,2) x unfolding v6_loop.simps [of i "show_hex n @ r"]
      by (simp add: Let_def nth_append)
  qed
qed

text \<open>The array while the loop runs: what was read, then zeros.\<close>

definition padded :: "bytes \<Rightarrow> bytes" where
  "padded pre = pre @ replicate (16 - length pre) 0"

lemma padded_write:
  assumes "length pre + 2 \<le> 16"
  shows "(padded pre)[length pre := a, length pre + 1 := b] = padded (pre @ [a, b])"
proof -
  have k: "16 - length pre = Suc (Suc (14 - length pre))" "16 - Suc (Suc (length pre)) = 14 - length pre"
    using assms by arith+
  then show ?thesis by (simp add: padded_def list_update_append)
qed

lemma length_padded [simp]: "length pre \<le> 16 \<Longrightarrow> length (padded pre) = 16"
  by (simp add: padded_def)

text \<open>The groups after an ellipsis, or all eight of them.\<close>

lemma v6_groups_end:
  assumes "\<forall>n \<in> set ns. n < 65536" "ns \<noteq> []" "length pre + 2 * length ns \<le> 16"
  shows "v6_loop (length pre) (groups ns) ell (padded pre)
    = Some (length pre + 2 * length ns, [], ell, padded (pre @ group_bytes ns))"
  using assms
proof (induction ns arbitrary: pre rule: groups.induct)
  case (2 n)
  then show ?case
    using v6_group [of "length pre" n "[]" ell "padded pre"] padded_write [of pre]
    by (simp add: group_bytes_def Let_def)
next
  case (3 n m ns)
  let ?pre = "pre @ [of_nat (n div 256), of_nat n]"
  obtain c q where cq: "groups (m # ns) = c # q" "c \<noteq> CHR '':''"
    using hd_show_hex [of m] show_hex_nonempty [of m]
    by (cases ns; cases "show_hex m") auto
  have "v6_loop (length pre) (groups (n # m # ns)) ell (padded pre)
      = v6_loop (length ?pre) (groups (m # ns)) ell (padded ?pre)"
    using v6_group [of "length pre" n "'':'' @ groups (m # ns)" ell "padded pre"]
      padded_write [of pre] 3 cq by (simp add: Let_def)
  also have "\<dots> = Some (length ?pre + 2 * length (m # ns), [], ell, padded (?pre @ group_bytes (m # ns)))"
    using 3 by (intro "3.IH") auto
  finally show ?case by (simp add: group_bytes_def)
qed simp

text \<open>The groups before an ellipsis.\<close>

lemma v6_groups_ellipsis:
  assumes "\<forall>n \<in> set ns. n < 65536" "ns \<noteq> []" "length pre + 2 * length ns \<le> 16"
  shows "v6_loop (length pre) (groups ns @ ''::'' @ t) None (padded pre) =
    (let i = length pre + 2 * length ns; ip = padded (pre @ group_bytes ns)
     in if t = [] then Some (i, [], Some i, ip) else v6_loop i t (Some i) ip)"
  using assms
proof (induction ns arbitrary: pre rule: groups.induct)
  case (2 n)
  then show ?case
    using v6_group [of "length pre" n "''::'' @ t" None "padded pre"] padded_write [of pre]
    by (simp add: group_bytes_def Let_def)
next
  case (3 n m ns)
  let ?pre = "pre @ [of_nat (n div 256), of_nat n]"
  obtain c q where cq: "groups (m # ns) = c # q" "c \<noteq> CHR '':''"
    using hd_show_hex [of m] show_hex_nonempty [of m]
    by (cases ns; cases "show_hex m") auto
  have "v6_loop (length pre) (groups (n # m # ns) @ ''::'' @ t) None (padded pre)
      = v6_loop (length ?pre) (groups (m # ns) @ ''::'' @ t) None (padded ?pre)"
    using v6_group [of "length pre" n "'':'' @ groups (m # ns) @ ''::'' @ t" None "padded pre"]
      padded_write [of pre] 3 cq by (simp add: Let_def)
  also have "\<dots> = (let i = length ?pre + 2 * length (m # ns); ip = padded (?pre @ group_bytes (m # ns))
     in if t = [] then Some (i, [], Some i, ip) else v6_loop i t (Some i) ip)"
    using 3 by (intro "3.IH") auto
  finally show ?case by (simp add: group_bytes_def)
qed simp

lemma length_v6_shift [simp]: "length (v6_shift m e n ip) = length ip"
  by (induction m e n ip rule: v6_shift.induct) auto

lemma v6_shift_nth:
  assumes "e + m + n \<le> length ip" "k < length ip"
  shows "v6_shift m e n ip ! k = (if e + n \<le> k \<and> k < e + n + m then ip ! (k - n) else ip ! k)"
  using assms
proof (induction m e n ip arbitrary: k rule: v6_shift.induct)
  case (2 m e n ip)
  let ?ip = "ip[e + m + n := ip ! (e + m)]"
  have "v6_shift (Suc m) e n ip ! k = (if e + n \<le> k \<and> k < e + n + m then ?ip ! (k - n) else ?ip ! k)"
    using 2 by simp
  then show ?case using 2(2,3) by (auto simp: nth_list_update)
qed auto

lemma length_v6_clear [simp]: "length (v6_clear m e ip) = length ip"
  by (induction m e ip rule: v6_clear.induct) auto

lemma v6_clear_nth:
  assumes "k < length ip"
  shows "v6_clear m e ip ! k = (if e \<le> k \<and> k < e + m then 0 else ip ! k)"
  using assms by (induction m e ip rule: v6_clear.induct) (auto simp: nth_list_update)

lemma v6_finish_gap:
  assumes "length a + length b < 16"
  shows "v6_finish (length a + length b, [], Some (length a), padded (a @ b))
    = Some (a @ replicate (16 - length a - length b) 0 @ b)"
proof -
  let ?n = "16 - (length a + length b)"
  have "v6_clear ?n (length a) (v6_shift (length b) (length a) ?n (padded (a @ b)))
      = a @ replicate (16 - length a - length b) 0 @ b"
  proof (rule nth_equalityI)
    fix k assume "k < length (v6_clear ?n (length a) (v6_shift (length b) (length a) ?n (padded (a @ b))))"
    then have k: "k < 16" using assms by simp
    show "v6_clear ?n (length a) (v6_shift (length b) (length a) ?n (padded (a @ b))) ! k
        = (a @ replicate (16 - length a - length b) 0 @ b) ! k"
      using assms k by (auto simp: v6_clear_nth v6_shift_nth padded_def nth_append)
  qed (use assms in simp)
  then show ?thesis using assms by (simp add: v6_finish_def)
qed

lemma hex_no_dot:
  assumes "\<forall>c \<in> set p. c \<noteq> CHR ''.'' \<and> c \<noteq> CHR '':''"
  shows "parse_ip_loop (p @ CHR '':'' # q) h = parseIPv6 h"
  using assms by (induction p) auto

lemma show_hex_no_dot: "\<forall>c \<in> set (show_hex n). c \<noteq> CHR ''.'' \<and> c \<noteq> CHR '':''"
proof
  fix c assume "c \<in> set (show_hex n)"
  then obtain d where "d < 16" "c = hex_char d" using show_hex_chars by blast
  then have "hex_val c = Some d" by simp
  moreover have "hex_val CHR ''.'' = None" by (simp add: hex_val_def char_code_def)
  ultimately show "c \<noteq> CHR ''.'' \<and> c \<noteq> CHR '':''" using hex_val_colon by auto
qed

lemma groups_colon:
  assumes "ns \<noteq> []"
  shows "\<exists>n q. groups ns = show_hex n @ q \<and> (q = [] \<or> hd q = CHR '':'')"
proof (cases ns rule: groups.cases)
  case (2 n)
  then show ?thesis by (intro exI [of _ n] exI [of _ "[]"]) simp
next
  case (3 n m ms)
  then show ?thesis by (intro exI [of _ n] exI [of _ "'':'' @ groups (m # ms)"]) simp
qed (use assms in simp)

lemma groups_hd: "ns \<noteq> [] \<Longrightarrow> \<exists>c q. groups ns = c # q \<and> c \<noteq> CHR '':''"
  using groups_colon [of ns] hd_show_hex show_hex_nonempty
  by (metis append_Cons list.collapse)

lemma group_bytes_append: "group_bytes (xs @ ys) = group_bytes xs @ group_bytes ys"
  by (simp add: group_bytes_def)

lemma parse_ip_colon:
  "parse_ip_loop (groups xs @ ''::'' @ t) h = parseIPv6 h"
proof (cases "xs = []")
  case False
  then obtain n q where q: "groups xs = show_hex n @ q" "q = [] \<or> hd q = CHR '':''"
    using groups_colon by blast
  then obtain q' where "groups xs @ ''::'' @ t = show_hex n @ CHR '':'' # q'"
    by (cases q) auto
  then show ?thesis using hex_no_dot [OF show_hex_no_dot] by simp
qed simp

text \<open>
  An IPv6 address with an ellipsis is parsed to its groups, two bytes each, with zeros
  filling the gap: any groups before and any after, at least one group short of eight.
\<close>
theorem parse_ipv6_ellipsis:
  assumes "\<forall>n \<in> set xs. n < 65536" "\<forall>n \<in> set ys. n < 65536" "length xs + length ys < 8"
  shows "parseIP (groups xs @ ''::'' @ groups ys) =
    Some (group_bytes xs @ replicate (16 - 2 * length xs - 2 * length ys) 0 @ group_bytes ys)"
proof -
  let ?s = "groups xs @ ''::'' @ groups ys"
  let ?a = "group_bytes xs" and ?b = "group_bytes ys"
  have gap: "v6_finish (2 * length xs + 2 * length ys, [], Some (2 * length xs), padded (?a @ ?b))
      = Some (?a @ replicate (16 - 2 * length xs - 2 * length ys) 0 @ ?b)"
    using v6_finish_gap [of ?a ?b] assms(3) by simp
  have tail: "(if groups ys = [] then Some (2 * length xs, [], Some (2 * length xs), padded ?a)
      else v6_loop (2 * length xs) (groups ys) (Some (2 * length xs)) (padded ?a))
    = Some (2 * length xs + 2 * length ys, [], Some (2 * length xs), padded (?a @ ?b))"
  proof (cases "ys = []")
    case True
    then show ?thesis by (simp add: group_bytes_def)
  next
    case False
    then have "groups ys \<noteq> []" by (cases ys rule: groups.cases) auto
    then show ?thesis
      using v6_groups_end [OF assms(2) False, of ?a "Some (2 * length xs)"] assms(3) by simp
  qed
  have "parseIPv6 ?s = Some (?a @ replicate (16 - 2 * length xs - 2 * length ys) 0 @ ?b)"
  proof (cases "xs = []")
    case True
    have gb: "group_bytes [] = []" by (simp add: group_bytes_def)
    have eq: "parseIPv6 ?s = Option.bind
        (if groups ys = [] then Some (0, [], Some 0, padded []) else v6_loop 0 (groups ys) (Some 0) (padded []))
        v6_finish"
      using v6_finish_gap [of "[]" "[]"] True
      by (simp add: parseIPv6_def Let_def padded_def)
    show ?thesis
      unfolding eq tail [unfolded True list.size mult_0_right gb] Option.bind.simps
      using gap [unfolded True list.size mult_0_right gb] unfolding True gb by simp
  next
    case False
    have nd: "?s ! 0 \<noteq> CHR '':''"
      using groups_hd [OF False] by auto
    have "v6_loop 0 ?s None (padded []) =
        Some (2 * length xs + 2 * length ys, [], Some (2 * length xs), padded (?a @ ?b))"
      using v6_groups_ellipsis [OF assms(1) False, of "[]" "groups ys"] assms(3) tail
      by (simp add: Let_def)
    then show ?thesis
      using nd gap by (simp add: parseIPv6_def Let_def padded_def)
  qed
  then show ?thesis unfolding parseIP_def parse_ip_colon .
qed

theorem parse_ipv6_ellipsis_witness:
  "parseIP (groups [0xfe80] @ ''::'' @ groups [0xa, 1]) =
    Some (group_bytes [0xfe80] @ replicate 10 0 @ group_bytes [0xa, 1])"
  using parse_ipv6_ellipsis [of "[0xfe80]" "[0xa, 1]"] by simp

end
