(* ===== verification/Util.thy ===== *)
theory Util
  imports Js_Numbers Nats_Core "HOL-Library.Multiset"
begin

text \<open>
  The helpers of \<open>nats-base-client/util.ts\<close> that carry logic: shuffling, the jittered
  back-off policies, the mutex, the performance marks, merging of option objects and the
  conversion between milliseconds and nanoseconds. Random draws and the clock are arguments.
\<close>

section \<open>Merging objects\<close>

text \<open>An object is an association list of its own enumerable properties.\<close>

definition js_extend :: "('k \<times> 'v) list \<Rightarrow> ('k \<times> 'v) list list \<Rightarrow> ('k \<times> 'v) list" where
  "js_extend a bs = fold (\<lambda>obj acc. fold (\<lambda>(k, v). AList.update k v) obj acc) bs a"

section \<open>Shuffling\<close>

text \<open>The loop from \<open>i = length - 1\<close> down to 1; each round takes one random draw.\<close>

fun shuffle_loop :: "nat \<Rightarrow> nat list \<Rightarrow> 'a list \<Rightarrow> 'a list" where
  "shuffle_loop 0 ks a = a"
| "shuffle_loop (Suc i) ks a =
     (let j = random_below (hd ks) (Suc i + 1)
      in shuffle_loop i (tl ks) (a[Suc i := a ! j, j := a ! Suc i]))"

definition shuffle :: "nat list \<Rightarrow> 'a list \<Rightarrow> 'a list" where
  "shuffle ks a = shuffle_loop (length a - 1) ks a"

lemma shuffle_loop_mset:
  assumes "i < length a \<or> i = 0" "i \<le> length ks" "\<forall>k \<in> set ks. k < 2 ^ 53"
  shows "mset (shuffle_loop i ks a) = mset a"
  using assms
proof (induction i ks a rule: shuffle_loop.induct)
  case (2 i ks a)
  obtain k ks' where ks: "ks = k # ks'" using "2.prems"(2) by (cases ks) auto
  define j where "j = random_below k (Suc i + 1)"
  have "k < 2 ^ 53" using "2.prems"(3) ks by simp
  then have "j < Suc i + 1" unfolding j_def by (rule random_below_less) simp
  then have "j < length a" "Suc i < length a" using "2.prems"(1) by auto
  then have "mset (a[Suc i := a ! j, j := a ! Suc i]) = mset a" by (rule mset_swap)
  moreover have "mset (shuffle_loop i ks' (a[Suc i := a ! j, j := a ! Suc i]))
      = mset (a[Suc i := a ! j, j := a ! Suc i])"
    using "2.IH" [OF refl] "2.prems" unfolding ks j_def by simp
  ultimately show ?case by (simp add: ks j_def Let_def)
qed simp

section \<open>Back-off\<close>

text \<open>\<open>Math.floor(n / 2 + Math.random() * n)\<close>; the product and the sum are rounded.\<close>

definition jitter :: "nat \<Rightarrow> nat \<Rightarrow> nat" where
  "jitter k n = (if n = 0 then 0 else js_round (n * 2 ^ 52 + js_round (k * n)) div 2 ^ 53)"

function backoff_max_loop :: "nat \<Rightarrow> nat list \<Rightarrow> nat list" where
  "backoff_max_loop mx a =
     (let n = mx div 2 in if n < 100 then 0 # a else backoff_max_loop n (n # a))"
  by auto
termination by (relation "measure fst") auto

declare backoff_max_loop.simps [simp del]

definition backoffWithMax_policy :: "nat \<Rightarrow> nat list" where
  "backoffWithMax_policy mx = backoff_max_loop mx [mx]"

definition default_policy :: "nat list" where
  "default_policy = [0, 250, 250, 500, 500, 3000, 5000]"

text \<open>\<open>backoff(policy).backoff(attempt)\<close>; \<open>None\<close> is the \<open>NaN\<close> of an empty policy.\<close>

definition backoff :: "nat list \<Rightarrow> nat \<Rightarrow> nat \<Rightarrow> nat option" where
  "backoff policy k attempt =
     (if policy = [] then None
      else let mx = length policy - 1
           in Some (jitter k (if attempt > mx then policy ! mx else policy ! attempt)))"

lemma jitter_bounds:
  assumes "k < 2 ^ 53" "n < 2 ^ 50"
  shows "n div 2 \<le> jitter k n" "jitter k n \<le> 3 * n div 2"
proof -
  have "n div 2 \<le> jitter k n \<and> jitter k n \<le> 3 * n div 2"
  proof (cases "n = 0")
    case False
    define p where "p = js_round (k * n)"
    define s where "s = js_round (n * 2 ^ 52 + p)"
    have p: "p < n * 2 ^ 53" unfolding p_def using random_product_less [OF assms(1)] False by simp
    have "n * 2 ^ 52 + p < 2 ^ 106"
    proof -
      have "n * 2 ^ 52 + p < n * 2 ^ 52 + n * 2 ^ 53" using p by simp
      also have "\<dots> = n * (2 ^ 52 + 2 ^ 53)" by simp
      also have "\<dots> \<le> 2 ^ 50 * (2 ^ 52 + 2 ^ 53)" using assms(2) by (intro mult_le_mono1) simp
      finally show ?thesis by simp
    qed
    moreover have "n div 2 * 2 ^ 53 \<le> n * 2 ^ 52 + p"
    proof -
      have "n div 2 * 2 \<le> n" by simp
      then have "n div 2 * 2 * 2 ^ 52 \<le> n * 2 ^ 52" by (rule mult_le_mono1)
      then show ?thesis by simp
    qed
    ultimately have "n div 2 * 2 ^ 53 \<le> s" unfolding s_def by (intro js_round_lower) simp_all
    then have "n div 2 * 2 ^ 53 div 2 ^ 53 \<le> s div 2 ^ 53" by (rule div_le_mono)
    then have lo: "n div 2 \<le> s div 2 ^ 53" by simp
    have "2 ^ 53 * s \<le> (2 ^ 53 + 1) * (n * 2 ^ 52 + p)" unfolding s_def by (rule js_round_factor)
    also have "\<dots> \<le> (2 ^ 53 + 1) * (3 * n * 2 ^ 52)" using p by (intro mult_le_mono2) simp
    also have "\<dots> = 2 ^ 52 * (3 * n * (2 ^ 53 + 1))" by (simp only: mult_ac)
    finally have "2 ^ 52 * (2 * s) \<le> 2 ^ 52 * (3 * n * (2 ^ 53 + 1))" by simp
    then have s: "2 * s \<le> 3 * n * (2 ^ 53 + 1)" by simp
    have "3 * n = 3 * n div 2 * 2 + 3 * n mod 2" by simp
    then have "3 * n \<le> 3 * n div 2 * 2 + 1" using mod_less_divisor [of 2 "3 * n"] by linarith
    then have "3 * n * (2 ^ 53 + 1) \<le> (3 * n div 2 * 2 + 1) * 2 ^ 53 + 3 * n" by simp
    then have "2 * s \<le> (3 * n div 2 * 2 + 1) * 2 ^ 53 + 3 * n" using s by linarith
    then have "s < (3 * n div 2 + 1) * 2 ^ 53" using assms(2) by simp
    then have "s div 2 ^ 53 < 3 * n div 2 + 1" by (rule less_mult_imp_div_less)
    then show ?thesis using lo False by (simp add: jitter_def s_def p_def)
  qed (simp add: jitter_def)
  then show "n div 2 \<le> jitter k n" "jitter k n \<le> 3 * n div 2" by simp_all
qed

text \<open>Each interval is at least twice the one before.\<close>

fun doubling :: "nat list \<Rightarrow> bool" where
  "doubling (x # y # xs) = (2 * x \<le> y \<and> doubling (y # xs))"
| "doubling xs = True"

lemma backoff_max_loop_shape:
  assumes "doubling (mx # a)"
  shows "doubling (backoff_max_loop mx (mx # a)) \<and> hd (backoff_max_loop mx (mx # a)) = 0
    \<and> last (backoff_max_loop mx (mx # a)) = last (mx # a)
    \<and> backoff_max_loop mx (mx # a) \<noteq> []
    \<and> set (backoff_max_loop mx (mx # a)) \<subseteq> {0..mx} \<union> set a"
  using assms
proof (induction mx arbitrary: a rule: less_induct)
  case (less mx)
  show ?case
  proof (cases "mx div 2 < 100")
    case True
    then show ?thesis using less.prems by (simp add: backoff_max_loop.simps [of mx])
  next
    case False
    then have "mx div 2 < mx" by simp
    moreover have "doubling (mx div 2 # mx # a)" using less.prems by simp
    ultimately have "doubling (backoff_max_loop (mx div 2) (mx div 2 # mx # a))
      \<and> hd (backoff_max_loop (mx div 2) (mx div 2 # mx # a)) = 0
      \<and> last (backoff_max_loop (mx div 2) (mx div 2 # mx # a)) = last (mx div 2 # mx # a)
      \<and> backoff_max_loop (mx div 2) (mx div 2 # mx # a) \<noteq> []
      \<and> set (backoff_max_loop (mx div 2) (mx div 2 # mx # a)) \<subseteq> {0..mx div 2} \<union> set (mx # a)"
      by (rule less.IH)
    moreover have "backoff_max_loop mx (mx # a) = backoff_max_loop (mx div 2) (mx div 2 # mx # a)"
      using False by (simp add: backoff_max_loop.simps [of mx] Let_def)
    ultimately show ?thesis by auto
  qed
qed

text \<open>
  The policy of \<open>backoffWithMax\<close> starts with an immediate attempt, at least doubles from
  step to step and ends at the maximum; every delay \<open>backoff\<close> hands out for it, for any
  attempt number and any random draw, is at most one and a half times the maximum.
\<close>
theorem backoff_with_max:
  assumes "mx < 2 ^ 50" "k < 2 ^ 53"
  shows "doubling (backoffWithMax_policy mx) \<and> hd (backoffWithMax_policy mx) = 0
    \<and> last (backoffWithMax_policy mx) = mx
    \<and> (\<exists>d. backoff (backoffWithMax_policy mx) k attempt = Some d \<and> 2 * d \<le> 3 * mx)"
proof -
  let ?p = "backoffWithMax_policy mx"
  have shape: "doubling ?p" "hd ?p = 0" "last ?p = mx" "?p \<noteq> []" "set ?p \<subseteq> {0..mx}"
    using backoff_max_loop_shape [of mx "[]"] by (auto simp: backoffWithMax_policy_def)
  define x where "x = (if attempt > length ?p - 1 then ?p ! (length ?p - 1) else ?p ! attempt)"
  have "0 < length ?p" using shape(4) by simp
  then have "min attempt (length ?p - 1) < length ?p" by linarith
  moreover have "x = ?p ! min attempt (length ?p - 1)" by (simp add: x_def min_def)
  ultimately have "x \<in> set ?p" by simp
  then have x: "x \<le> mx" using shape(5) by auto
  have "jitter k x \<le> 3 * x div 2" using x assms by (intro jitter_bounds) simp_all
  also have "\<dots> \<le> 3 * mx div 2" using x by (intro div_le_mono mult_le_mono2)
  finally have "2 * jitter k x \<le> 3 * mx" by linarith
  moreover have "backoff ?p k attempt = Some (jitter k x)"
    using shape(4) by (simp add: backoff_def x_def Let_def)
  ultimately show ?thesis using shape by blast
qed

theorem backoff_with_max_witness:
  "doubling (backoffWithMax_policy 30000) \<and> last (backoffWithMax_policy 30000) = 30000"
  using backoff_with_max [of 30000 5 0] by simp

section \<open>Durations\<close>

definition nanos :: "nat \<Rightarrow> nat" where
  "nanos ms = js_round (ms * 1000000)"

text \<open>The quotient is rounded to a double before the floor; below \<open>2 ^ 53\<close> a quotient by
  \<open>10 ^ 6\<close> that is no integer stays below the next one, so the floor is the integer part.\<close>

definition millis :: "nat \<Rightarrow> nat" where
  "millis ns = ns div 1000000"

lemma millis_nanos: "ms * 1000000 < 2 ^ 53 \<Longrightarrow> millis (nanos ms) = ms"
  by (simp add: millis_def nanos_def)

section \<open>Performance marks\<close>

record perf =
  pf_timers :: "(string \<times> int) list"
  pf_measures :: "(string \<times> int) list"

definition perf_mark :: "int \<Rightarrow> string \<Rightarrow> perf \<Rightarrow> perf" where
  "perf_mark now key p = p\<lparr>pf_timers := AList.update key now (pf_timers p)\<rparr>"

definition perf_measure :: "string \<Rightarrow> string \<Rightarrow> string \<Rightarrow> perf \<Rightarrow> js_error + perf" where
  "perf_measure key startKey endKey p =
     (case map_of (pf_timers p) startKey of
        None \<Rightarrow> Inl (Plain_Error (startKey @ '' is not defined''))
      | Some s \<Rightarrow>
          (case map_of (pf_timers p) endKey of
             None \<Rightarrow> Inl (Plain_Error (endKey @ '' is not defined''))
           | Some e \<Rightarrow> Inr (p\<lparr>pf_measures := AList.update key (e - s) (pf_measures p)\<rparr>)))"

definition perf_entries :: "perf \<Rightarrow> (string \<times> int) list" where
  "perf_entries p = pf_measures p"

section \<open>The mutex\<close>

text \<open>\<open>SimpleMutex\<close>: a deferred is a number, \<open>mx_fresh\<close> the next one to be created. \<open>lock\<close>
  returns a resolved promise (\<open>Locked\<close>) or a deferred; \<open>unlock\<close> resolves the deferred it pops.\<close>

record mutex =
  mx_max :: int
  mx_current :: int
  mx_waiting :: "nat list"
  mx_fresh :: nat

datatype lock_result = Locked | Waits nat

definition new_mutex :: "int \<Rightarrow> mutex" where
  "new_mutex mx = \<lparr>mx_max = mx, mx_current = 0, mx_waiting = [], mx_fresh = 0\<rparr>"

definition mutex_lock :: "mutex \<Rightarrow> mutex \<times> lock_result" where
  "mutex_lock m =
     (let m1 = m\<lparr>mx_current := mx_current m + 1\<rparr>
      in if mx_current m1 \<le> mx_max m1 then (m1, Locked)
         else (m1\<lparr>mx_waiting := mx_waiting m1 @ [mx_fresh m1], mx_fresh := mx_fresh m1 + 1\<rparr>,
               Waits (mx_fresh m1)))"

definition mutex_unlock :: "mutex \<Rightarrow> mutex \<times> nat option" where
  "mutex_unlock m =
     (let m1 = m\<lparr>mx_current := mx_current m - 1\<rparr>
      in if mx_waiting m1 = [] then (m1, None)
         else (m1\<lparr>mx_waiting := butlast (mx_waiting m1)\<rparr>, Some (last (mx_waiting m1))))"

text \<open>Runs in which only a holder unlocks, and holds nothing afterwards: the number of holders
  beside the mutex. A lock that waits becomes a holder when its deferred is resolved.\<close>

inductive mutex_reach :: "int \<Rightarrow> mutex \<Rightarrow> nat \<Rightarrow> bool" for mx where
  start: "mutex_reach mx (new_mutex mx) 0"
| lock: "mutex_reach mx m h \<Longrightarrow> mutex_lock m = (m', r) \<Longrightarrow>
    mutex_reach mx m' (if r = Locked then h + 1 else h)"
| unlock: "mutex_reach mx m h \<Longrightarrow> 0 < h \<Longrightarrow> mutex_unlock m = (m', r) \<Longrightarrow>
    mutex_reach mx m' (if r = None then h - 1 else h)"

inductive_cases mutex_reachE: "mutex_reach mx m h"

lemma mutex_invariant:
  "mutex_reach mx m h \<Longrightarrow> 0 \<le> mx \<Longrightarrow>
    mx_max m = mx \<and> mx_current m = int h + int (length (mx_waiting m)) \<and> int h \<le> mx
    \<and> (mx_waiting m \<noteq> [] \<longrightarrow> int h = mx)
    \<and> distinct (mx_waiting m) \<and> (\<forall>d \<in> set (mx_waiting m). d < mx_fresh m)"
proof (induction rule: mutex_reach.induct)
  case start
  then show ?case by (simp add: new_mutex_def)
next
  case (lock m h m' r)
  then have inv: "mx_max m = mx" "mx_current m = int h + int (length (mx_waiting m))" "int h \<le> mx"
      "mx_waiting m \<noteq> [] \<longrightarrow> int h = mx" "distinct (mx_waiting m)"
      "\<forall>d \<in> set (mx_waiting m). d < mx_fresh m"
    by simp_all
  show ?case
  proof (cases "mx_current m + 1 \<le> mx_max m")
    case True
    then have "m' = m\<lparr>mx_current := mx_current m + 1\<rparr>" "r = Locked"
      using lock.hyps(2) by (simp_all add: mutex_lock_def)
    moreover have "mx_waiting m = []" using True inv by (cases "mx_waiting m") auto
    ultimately show ?thesis using inv True by simp
  next
    case False
    then have m': "m' = m\<lparr>mx_current := mx_current m + 1,
        mx_waiting := mx_waiting m @ [mx_fresh m], mx_fresh := mx_fresh m + 1\<rparr>" "r = Waits (mx_fresh m)"
      using lock.hyps(2) by (simp_all add: mutex_lock_def)
    have "int h = mx" using False inv by (cases "mx_waiting m") auto
    moreover have "mx_fresh m \<notin> set (mx_waiting m)" using inv(6) by blast
    moreover have "\<forall>d \<in> set (mx_waiting m @ [mx_fresh m]). d < mx_fresh m + 1"
      using inv(6) by (simp add: less_SucI)
    ultimately show ?thesis using inv(1-5) by (simp add: m')
  qed
next
  case (unlock m h m' r)
  then have inv: "mx_max m = mx" "mx_current m = int h + int (length (mx_waiting m))" "int h \<le> mx"
      "mx_waiting m \<noteq> [] \<longrightarrow> int h = mx" "distinct (mx_waiting m)"
      "\<forall>d \<in> set (mx_waiting m). d < mx_fresh m"
    by simp_all
  show ?case
  proof (cases "mx_waiting m = []")
    case True
    then have "m' = m\<lparr>mx_current := mx_current m - 1\<rparr>" "r = None"
      using unlock.hyps(3) by (simp_all add: mutex_unlock_def)
    with True inv unlock.hyps(2) show ?thesis by simp
  next
    case False
    then have m': "m' = m\<lparr>mx_current := mx_current m - 1, mx_waiting := butlast (mx_waiting m)\<rparr>"
        "r \<noteq> None"
      using unlock.hyps(3) by (auto simp: mutex_unlock_def Let_def)
    have "int (length (butlast (mx_waiting m))) = int (length (mx_waiting m)) - 1"
      using False by (simp add: of_nat_diff Suc_leI)
    moreover have "distinct (butlast (mx_waiting m))" using inv(5) by (rule distinct_butlast)
    moreover have "\<forall>d \<in> set (butlast (mx_waiting m)). d < mx_fresh m"
      using inv(6) in_set_butlastD by fastforce
    moreover have "(if r = None then h - 1 else h) = h" using m'(2) by (rule if_not_P)
    ultimately show ?thesis using inv(1-4) False by (simp only: m'(1)) simp
  qed
qed

text \<open>
  However locks and unlocks interleave, at most \<open>max\<close> clients hold the mutex, a client only
  waits while all \<open>max\<close> places are taken, and an unlock with a client waiting hands its place
  over to exactly one of them.
\<close>
theorem mutex_is_safe:
  assumes "mutex_reach mx m h" "0 \<le> mx"
  shows "int h \<le> mx \<and> (mx_waiting m \<noteq> [] \<longrightarrow> int h = mx)
    \<and> (mx_waiting m \<noteq> [] \<longrightarrow> (\<exists>d. snd (mutex_unlock m) = Some d \<and> d \<in> set (mx_waiting m)
          \<and> d \<notin> set (mx_waiting (fst (mutex_unlock m)))))"
proof -
  have inv: "int h \<le> mx" "mx_waiting m \<noteq> [] \<longrightarrow> int h = mx" "distinct (mx_waiting m)"
    using mutex_invariant [OF assms] by auto
  have "last (mx_waiting m) \<notin> set (butlast (mx_waiting m))" if "mx_waiting m \<noteq> []"
    using inv(3) that by (metis append_butlast_last_id distinct_append disjoint_iff list.set_intros(1))
  then show ?thesis using inv by (auto simp: mutex_unlock_def Let_def)
qed

theorem mutex_is_safe_witness:
  "\<exists>d. snd (mutex_unlock (fst (mutex_lock (fst (mutex_lock (new_mutex 1)))))) = Some d"
proof -
  let ?m = "fst (mutex_lock (fst (mutex_lock (new_mutex 1))))"
  have "mutex_reach 1 (fst (mutex_lock (new_mutex 1))) 1"
    using mutex_reach.lock [OF mutex_reach.start, of 1 "fst (mutex_lock (new_mutex 1))" Locked]
    by (simp add: mutex_lock_def new_mutex_def)
  then have "mutex_reach 1 ?m 1"
    using mutex_reach.lock [of 1 "fst (mutex_lock (new_mutex 1))" 1 ?m "Waits 0"]
    by (simp add: mutex_lock_def new_mutex_def)
  moreover have "mx_waiting ?m \<noteq> []" by (simp add: mutex_lock_def new_mutex_def)
  ultimately show ?thesis using mutex_is_safe [of 1 ?m 1] by auto
qed

end
