(* ===== verification/Servers.thy ===== *)
theory Servers
  imports Ip_Parser Util
begin

text \<open>
  The pool of servers, \<open>nats-base-client/servers.ts\<close>. Server objects have identity: they live
  in a store under their number, the pool is the list of numbers, and \<open>removeServer\<close> looks a
  server up by its number. The URL parser of the runtime and the URL hook of the transport
  are parameters.
\<close>

section \<open>Addresses of servers\<close>

text \<open>\<open>url_of proto u port\<close> is \<open>new URL(proto + "://" + u)\<close> after setting its port: the \<open>host\<close>
  and the \<open>hostname\<close>, or nothing where the constructor throws. \<open>url_hook\<close> is \<open>getUrlParseFn()\<close>.\<close>

record url_env =
  url_of :: "string \<Rightarrow> string \<Rightarrow> nat \<Rightarrow> (string \<times> string) option"
  url_hook :: "(string \<Rightarrow> bool option \<Rightarrow> string) option"
  url_default_port :: nat

definition DEFAULT_PORT :: nat where "DEFAULT_PORT = 4222"
definition DEFAULT_HOST :: string where "DEFAULT_HOST = ''127.0.0.1''"

fun contains :: "string \<Rightarrow> string \<Rightarrow> bool" where
  "contains p [] = (p = [])"
| "contains p (c # s) = (take (length p) (c # s) = p \<or> contains p s)"

fun index_of_string :: "string \<Rightarrow> string \<Rightarrow> nat option" where
  "index_of_string p [] = (if p = [] then Some 0 else None)"
| "index_of_string p (c # s) =
     (if take (length p) (c # s) = p then Some 0 else map_option Suc (index_of_string p s))"

definition isIPV4OrHostname :: "string \<Rightarrow> bool" where
  "isIPV4OrHostname hp =
     (if contains ''['' hp \<or> contains ''::'' hp then False
      else if contains ''.'' hp then True
      else length (split_on CHR '':'' hp) \<le> 2)"

definition isIPV6 :: "string \<Rightarrow> bool" where
  "isIPV6 hp = (\<not> isIPV4OrHostname hp)"

definition upper_char :: "char \<Rightarrow> char" where
  "upper_char c = (if 97 \<le> char_code c \<and> char_code c \<le> 122 then char_of (char_code c - 32) else c)"

definition filterIpv6MappedToIpv4 :: "string \<Rightarrow> string" where
  "filterIpv6MappedToIpv4 hp =
     (case index_of_string ''::FFFF:'' (map upper_char hp) of
        Some idx \<Rightarrow>
          if contains ''.'' hp
          then remove_first '']'' (remove_first ''['' (drop (idx + length ''::FFFF:'') hp))
          else hp
      | None \<Rightarrow> hp)"

text \<open>What follows the last \<open>://\<close> of a line; \<open>.*\<close> is greedy.\<close>

fun after_protocol :: "string \<Rightarrow> string option" where
  "after_protocol [] = None"
| "after_protocol (c # r) =
     (case after_protocol r of
        Some t \<Rightarrow> Some t
      | None \<Rightarrow> if take 3 (c # r) = ''://'' then Some (drop 3 (c # r)) else None)"

definition strip_line :: "string \<Rightarrow> string" where
  "strip_line s = (case after_protocol s of Some t \<Rightarrow> t | None \<Rightarrow> s)"

fun strip_protocol :: "string \<Rightarrow> string \<Rightarrow> string" where
  "strip_protocol acc [] = strip_line (rev acc)"
| "strip_protocol acc (c # s) =
     (if c = CR \<or> c = LF then strip_line (rev acc) @ c # strip_protocol [] s
      else strip_protocol (c # acc) s)"

text \<open>The digits of the first match of a separator with a number behind it.\<close>

fun find_port :: "string \<Rightarrow> string \<Rightarrow> string option" where
  "find_port sep [] = None"
| "find_port sep (c # s) =
     (let ds = takeWhile is_digit (drop (length sep) (c # s))
      in if starts_with sep (c # s) \<and> ds \<noteq> [] then Some ds else find_port sep s)"

record host_port =
  hp_listen :: string
  hp_hostname :: string
  hp_port :: nat

definition hostPort :: "url_env \<Rightarrow> string \<Rightarrow> js_error + host_port" where
  "hostPort env u =
     (let u1 = strip_protocol [] (js_trim u);
          u2 = filterIpv6MappedToIpv4 u1;
          u3 = (if isIPV6 u2 \<and> \<not> contains ''['' u2 then ''['' @ u2 @ '']'' else u2);
          op = (if isIPV6 u3 then find_port '']:'' u3 else find_port '':'' u3);
          port = (case op of Some ds \<Rightarrow> js_round (digits_val ds) | None \<Rightarrow> DEFAULT_PORT);
          protocol = (if port = 80 then ''https'' else ''http'')
      in case url_of env protocol u3 port of
           None \<Rightarrow> Inl (Plain_Error ''Invalid URL'')
         | Some (host, name) \<Rightarrow>
             Inr \<lparr>hp_listen = host,
                  hp_hostname = (if name \<noteq> [] \<and> hd name = CHR ''['' then butlast (tl name) else name),
                  hp_port = port\<rparr>)"

section \<open>The pool\<close>

record server_impl =
  sv_src :: string
  sv_listen :: string
  sv_hostname :: string
  sv_port :: nat
  sv_didConnect :: bool
  sv_reconnects :: nat
  sv_lastConnect :: nat
  sv_gossiped :: bool
  sv_tlsName :: string
  sv_resolves :: "nat list option"

definition new_server :: "url_env \<Rightarrow> string \<Rightarrow> bool \<Rightarrow> js_error + server_impl" where
  "new_server env u gossiped = rbind (hostPort env u) (\<lambda>v.
     Inr \<lparr>sv_src = u, sv_listen = hp_listen v, sv_hostname = hp_hostname v, sv_port = hp_port v,
          sv_didConnect = False, sv_reconnects = 0, sv_lastConnect = 0, sv_gossiped = gossiped,
          sv_tlsName = [], sv_resolves = None\<rparr>)"

record servers =
  sp_firstSelect :: bool
  sp_servers :: "nat list"
  sp_current :: nat
  sp_tlsName :: string
  sp_randomize :: bool
  sp_store :: "nat \<Rightarrow> server_impl option"
  sp_fresh :: nat

definition server_at :: "servers \<Rightarrow> nat \<Rightarrow> server_impl" where
  "server_at p i = the (sp_store p i)"

definition listens :: "servers \<Rightarrow> string list" where
  "listens p = map (\<lambda>i. sv_listen (server_at p i)) (sp_servers p)"

definition alloc_server :: "server_impl \<Rightarrow> servers \<Rightarrow> servers \<times> nat" where
  "alloc_server s p =
     (p\<lparr>sp_store := (sp_store p)(sp_fresh p \<mapsto> s), sp_fresh := sp_fresh p + 1\<rparr>, sp_fresh p)"

definition push_server :: "server_impl \<Rightarrow> servers \<Rightarrow> servers" where
  "push_server s p = (let (p', i) = alloc_server s p in p'\<lparr>sp_servers := sp_servers p' @ [i]\<rparr>)"

definition parse_url :: "url_env \<Rightarrow> string \<Rightarrow> bool option \<Rightarrow> string" where
  "parse_url env u encrypted = (case url_hook env of Some f \<Rightarrow> f u encrypted | None \<Rightarrow> u)"

definition addServer :: "url_env \<Rightarrow> string \<Rightarrow> bool \<Rightarrow> servers \<Rightarrow> js_error + servers" where
  "addServer env u implicit p =
     rbind (new_server env (parse_url env u None) implicit) (\<lambda>s.
       Inr (push_server (if isIP (sv_hostname s) then s\<lparr>sv_tlsName := sp_tlsName p\<rparr> else s) p))"

fun push_all :: "url_env \<Rightarrow> string list \<Rightarrow> servers \<Rightarrow> js_error + servers" where
  "push_all env [] p = Inr p"
| "push_all env (u # us) p =
     rbind (new_server env (parse_url env u None) False) (\<lambda>s. push_all env us (push_server s p))"

definition new_servers :: "url_env \<Rightarrow> nat list \<Rightarrow> string list \<Rightarrow> bool \<Rightarrow> js_error + servers" where
  "new_servers env ks us randomize =
     rbind (push_all env us \<lparr>sp_firstSelect = True, sp_servers = [], sp_current = 0, sp_tlsName = [],
         sp_randomize = randomize, sp_store = Map.empty, sp_fresh = 0\<rparr>) (\<lambda>p.
     let p1 = (if randomize then p\<lparr>sp_servers := shuffle ks (sp_servers p)\<rparr> else p)
     in rbind (if sp_servers p1 = []
               then addServer env (DEFAULT_HOST @ '':'' @ show_nat (url_default_port env)) False p1
               else Inr p1) (\<lambda>p2.
        Inr (p2\<lparr>sp_current := hd (sp_servers p2)\<rparr>)))"

definition clear_servers :: "servers \<Rightarrow> servers" where
  "clear_servers p = p\<lparr>sp_servers := []\<rparr>"

definition getCurrentServer :: "servers \<Rightarrow> nat" where
  "getCurrentServer p = sp_current p"

definition updateTLSName :: "servers \<Rightarrow> servers" where
  "updateTLSName p =
     (let cs = server_at p (sp_current p)
      in if \<not> isIP (sv_hostname cs)
         then p\<lparr>sp_tlsName := sv_hostname cs,
                sp_store := fold (\<lambda>i st. case st i of
                    Some s \<Rightarrow> if sv_gossiped s then st(i \<mapsto> s\<lparr>sv_tlsName := sv_hostname cs\<rparr>) else st
                  | None \<Rightarrow> st) (sp_servers p) (sp_store p)\<rparr>
         else p)"

definition selectServer :: "servers \<Rightarrow> servers \<times> nat option" where
  "selectServer p =
     (if sp_firstSelect p then (p\<lparr>sp_firstSelect := False\<rparr>, Some (sp_current p))
      else case sp_servers p of
             [] \<Rightarrow> (p, None)
           | t # ts \<Rightarrow> (p\<lparr>sp_servers := ts @ [t], sp_current := t\<rparr>, Some t))"

fun index_of_server :: "nat \<Rightarrow> nat list \<Rightarrow> nat option" where
  "index_of_server i [] = None"
| "index_of_server i (j # js) = (if i = j then Some 0 else map_option Suc (index_of_server i js))"

text \<open>\<open>splice(index, 1)\<close>: a negative index counts from the end.\<close>

definition splice_one :: "int \<Rightarrow> 'a list \<Rightarrow> 'a list" where
  "splice_one index xs =
     (let i = (if index < 0 then nat (max 0 (int (length xs) + index))
               else min (nat index) (length xs))
      in take i xs @ drop (i + 1) xs)"

definition removeServer :: "nat option \<Rightarrow> servers \<Rightarrow> servers" where
  "removeServer server p =
     (case server of
        None \<Rightarrow> p
      | Some i \<Rightarrow>
          let index = (case index_of_server i (sp_servers p) of Some k \<Rightarrow> int k | None \<Rightarrow> - 1)
          in p\<lparr>sp_servers := splice_one index (sp_servers p)\<rparr>)"

definition removeCurrentServer :: "servers \<Rightarrow> servers" where
  "removeCurrentServer p = removeServer (Some (sp_current p)) p"

definition servers_length :: "servers \<Rightarrow> nat" where
  "servers_length p = length (sp_servers p)"

definition servers_next :: "servers \<Rightarrow> nat option" where
  "servers_next p = (if sp_servers p \<noteq> [] then Some (sp_servers p ! 0) else None)"

section \<open>Cluster updates\<close>

text \<open>The reported servers, keyed by their URL.\<close>

fun discover :: "url_env \<Rightarrow> bool option \<Rightarrow> string list \<Rightarrow> (string \<times> server_impl) list
    \<Rightarrow> js_error + (string \<times> server_impl) list" where
  "discover env encrypted [] d = Inr d"
| "discover env encrypted (u # us) d =
     (let hp = parse_url env u encrypted in
      rbind (new_server env hp True) (\<lambda>s. discover env encrypted us (AList.update hp s d)))"

text \<open>The pass over the pool: the indices to delete, and what is left of the reported ones.\<close>

fun prune :: "servers \<Rightarrow> nat \<Rightarrow> nat list \<Rightarrow> (string \<times> server_impl) list \<Rightarrow> nat list
    \<Rightarrow> nat list \<times> (string \<times> server_impl) list" where
  "prune p index [] d del = (del, d)"
| "prune p index (i # is) d del =
     (let s = server_at p i; u = sv_listen s;
          del' = (if sv_gossiped s \<and> sv_listen (server_at p (sp_current p)) \<noteq> u \<and> map_of d u = None
                  then del @ [index] else del)
      in prune p (index + 1) is (AList.delete u d) del')"

fun delete_indices :: "servers \<Rightarrow> nat list \<Rightarrow> nat list \<Rightarrow> string list \<Rightarrow> nat list \<times> string list" where
  "delete_indices p [] ids deleted = (ids, deleted)"
| "delete_indices p (k # ks) ids deleted =
     delete_indices p ks (splice_one (int k) ids) (deleted @ [sv_listen (server_at p (ids ! k))])"

definition update_servers ::
  "url_env \<Rightarrow> string list \<Rightarrow> bool option \<Rightarrow> servers \<Rightarrow> js_error + (servers \<times> string list \<times> string list)"
where
  "update_servers env connect_urls encrypted p =
     rbind (discover env encrypted connect_urls []) (\<lambda>d.
       let (toDelete, left) = prune p 0 (sp_servers p) d [];
           (ids, deleted) = delete_indices p (rev toDelete) (sp_servers p) [];
           p1 = fold (\<lambda>(k, s). push_server s) left (p\<lparr>sp_servers := ids\<rparr>)
       in Inr (p1, map fst left, deleted))"

section \<open>Selection\<close>

fun selects :: "nat \<Rightarrow> servers \<Rightarrow> servers \<times> nat option list" where
  "selects 0 p = (p, [])"
| "selects (Suc n) p = (let (p1, t) = selectServer p; (p2, ts) = selects n p1 in (p2, t # ts))"

lemma select_rotates:
  assumes "\<not> sp_firstSelect p" "sp_servers p \<noteq> []"
  shows "selectServer p =
    (p\<lparr>sp_servers := rotate1 (sp_servers p), sp_current := hd (sp_servers p)\<rparr>, Some (hd (sp_servers p)))"
  using assms by (cases "sp_servers p") (simp_all add: selectServer_def)

lemma selects_rotate:
  assumes "\<not> sp_firstSelect p" "sp_servers p \<noteq> []"
  shows "snd (selects n p) = map (\<lambda>k. Some (sp_servers p ! (k mod length (sp_servers p)))) [0..<n]
    \<and> sp_servers (fst (selects n p)) = rotate n (sp_servers p)"
  using assms
proof (induction n arbitrary: p)
  case (Suc n)
  define q where "q = p\<lparr>sp_servers := rotate1 (sp_servers p), sp_current := hd (sp_servers p)\<rparr>"
  let ?l = "length (sp_servers p)"
  have q: "\<not> sp_firstSelect q" "sp_servers q = rotate1 (sp_servers p)" "sp_servers q \<noteq> []"
    using Suc.prems by (simp_all add: q_def)
  have "hd (sp_servers p) = sp_servers p ! (0 mod ?l)"
    using Suc.prems(2) by (simp add: hd_conv_nth)
  moreover have "rotate1 (sp_servers p) ! (k mod ?l) = sp_servers p ! (Suc k mod ?l)" for k
    using Suc.prems(2) nth_rotate1 [of "k mod ?l" "sp_servers p"] by (simp add: mod_Suc_eq)
  moreover have "selectServer p = (q, Some (hd (sp_servers p)))"
    unfolding q_def by (rule select_rotates [OF Suc.prems])
  ultimately have "snd (selects (Suc n) p) =
      Some (sp_servers p ! (0 mod ?l)) # map (\<lambda>k. Some (sp_servers p ! (Suc k mod ?l))) [0..<n]"
    using Suc.IH [OF q(1,3)] by (simp add: q(2) case_prod_beta)
  also have "\<dots> = map (\<lambda>k. Some (sp_servers p ! (k mod ?l))) [0..<Suc n]"
    by (simp add: upt_conv_Cons map_Suc_upt [symmetric] o_def del: upt_Suc)
  finally have "snd (selects (Suc n) p) = \<dots>" .
  moreover have "sp_servers (fst (selects (Suc n) p)) = rotate (Suc n) (sp_servers p)"
    using Suc.IH [OF q(1,3)] select_rotates [OF Suc.prems]
    by (simp add: q_def [symmetric] q(2) Let_def case_prod_beta rotate_def funpow_swap1)
  ultimately show ?case ..
qed simp

text \<open>
  After the first selection the pool is served round-robin: \<open>n\<close> selections return the
  servers of the list one after the other and around again, and a full round leaves the list
  as it was.
\<close>
theorem selection_is_round_robin:
  assumes "\<not> sp_firstSelect p" "sp_servers p \<noteq> []"
  shows "snd (selects n p) = map (\<lambda>k. Some (sp_servers p ! (k mod length (sp_servers p)))) [0..<n]
    \<and> sp_servers (fst (selects (length (sp_servers p)) p)) = sp_servers p"
  using selects_rotate [OF assms] by simp

theorem selection_is_round_robin_witness:
  "snd (selects 3 \<lparr>sp_firstSelect = False, sp_servers = [4, 7], sp_current = 4, sp_tlsName = [],
      sp_randomize = False, sp_store = Map.empty, sp_fresh = 8\<rparr>) = [Some 4, Some 7, Some 4]"
  using selection_is_round_robin [of "\<lparr>sp_firstSelect = False, sp_servers = [4, 7], sp_current = 4,
      sp_tlsName = [], sp_randomize = False, sp_store = Map.empty, sp_fresh = 8\<rparr>" 3]
  by (simp add: upt_conv_Cons)

section \<open>Removal\<close>

lemma index_of_server_None: "index_of_server i js = None \<longleftrightarrow> i \<notin> set js"
  by (induction js) auto

lemma index_of_server_Some:
  "index_of_server i js = Some k \<Longrightarrow> k < length js \<and> js ! k = i \<and> i \<notin> set (take k js)"
  by (induction js arbitrary: k) (auto split: if_splits)

lemma splice_one_at: "k = length a \<Longrightarrow> splice_one (int k) (a @ x # b) = a @ b"
  by (simp add: splice_one_def)

lemma splice_one_negative: "xs \<noteq> [] \<Longrightarrow> splice_one (- 1) xs = butlast xs"
  by (simp add: splice_one_def butlast_conv_take nat_diff_distrib Let_def flip: length_greater_0_conv)

lemma remove_member:
  assumes "distinct (sp_servers p)" "i \<in> set (sp_servers p)"
  shows "sp_servers (removeServer (Some i) p) = filter (\<lambda>j. j \<noteq> i) (sp_servers p)"
proof -
  obtain k where k: "index_of_server i (sp_servers p) = Some k"
    using assms(2) index_of_server_None by fastforce
  let ?a = "take k (sp_servers p)" and ?b = "drop (Suc k) (sp_servers p)"
  have len: "k < length (sp_servers p)" "sp_servers p ! k = i"
    using index_of_server_Some [OF k] by auto
  then have split: "sp_servers p = ?a @ i # ?b" by (metis id_take_nth_drop)
  have "distinct (?a @ i # ?b)" using assms(1) split by simp
  then have "i \<notin> set ?a" "i \<notin> set ?b" by auto
  moreover have "i \<notin> set xs \<Longrightarrow> filter (\<lambda>j. j \<noteq> i) xs = xs" for xs :: "nat list"
    by (rule filter_True) blast
  ultimately have "filter (\<lambda>j. j \<noteq> i) (?a @ i # ?b) = ?a @ ?b"
    unfolding filter_append filter.simps by simp
  moreover have "splice_one (int k) (?a @ i # ?b) = ?a @ ?b"
    using len(1) by (intro splice_one_at) simp
  ultimately have "splice_one (int k) (sp_servers p) = filter (\<lambda>j. j \<noteq> i) (sp_servers p)"
    using split by metis
  then show ?thesis using k by (simp add: removeServer_def)
qed

text \<open>
  Removing a server of the pool removes exactly that server, but removing one that is no
  longer in the pool drops the last server of the list: \<open>indexOf\<close> is \<open>-1\<close> then, and
  \<open>splice(-1, 1)\<close> removes from the end.
\<close>
theorem remove_server_behaviour:
  assumes "distinct (sp_servers p)" "sp_servers p \<noteq> []"
  shows "sp_servers (removeServer (Some i) p) =
    (if i \<in> set (sp_servers p) then filter (\<lambda>j. j \<noteq> i) (sp_servers p) else butlast (sp_servers p))"
proof (cases "i \<in> set (sp_servers p)")
  case False
  then have "index_of_server i (sp_servers p) = None" by (simp add: index_of_server_None)
  with False show ?thesis
    using splice_one_negative [OF assms(2)] by (simp add: removeServer_def)
qed (use remove_member [OF assms(1)] in simp)

theorem remove_server_behaviour_witness:
  "sp_servers (removeServer (Some 9) \<lparr>sp_firstSelect = False, sp_servers = [4, 7], sp_current = 9,
      sp_tlsName = [], sp_randomize = False, sp_store = Map.empty, sp_fresh = 10\<rparr>) = [4]"
  using remove_server_behaviour [of "\<lparr>sp_firstSelect = False, sp_servers = [4, 7], sp_current = 9,
      sp_tlsName = [], sp_randomize = False, sp_store = Map.empty, sp_fresh = 10\<rparr>" 9]
  by simp

section \<open>Reconciling the pool with the cluster\<close>

text \<open>\<open>pool_ok p\<close>: the servers of the pool and the current server exist, no number twice.\<close>

definition pool_ok :: "servers \<Rightarrow> bool" where
  "pool_ok p \<longleftrightarrow> distinct (sp_servers p)
     \<and> (\<forall>i \<in> set (sp_servers p). i < sp_fresh p) \<and> sp_current p < sp_fresh p"

text \<open>The indices at which a predicate holds, from a given one.\<close>

fun indices :: "('a \<Rightarrow> bool) \<Rightarrow> nat \<Rightarrow> 'a list \<Rightarrow> nat list" where
  "indices P k [] = []"
| "indices P k (x # xs) = (if P x then [k] else []) @ indices P (k + 1) xs"

definition removable :: "servers \<Rightarrow> (string \<times> server_impl) list \<Rightarrow> nat \<Rightarrow> bool" where
  "removable p d i \<longleftrightarrow> sv_gossiped (server_at p i)
     \<and> sv_listen (server_at p (sp_current p)) \<noteq> sv_listen (server_at p i)
     \<and> sv_listen (server_at p i) \<notin> fst ` set d"

lemma indices_cong: "(\<And>x. x \<in> set xs \<Longrightarrow> P x = Q x) \<Longrightarrow> indices P k xs = indices Q k xs"
  by (induction xs arbitrary: k) auto

lemma set_AList_delete: "set (AList.delete u d) = {e \<in> set d. fst e \<noteq> u}"
  by (auto simp: AList.delete_eq)

lemma prune_eq:
  assumes "distinct (map (\<lambda>i. sv_listen (server_at p i)) is)"
  shows "prune p k is d del = (del @ indices (removable p d) k is,
    filter (\<lambda>e. fst e \<notin> (\<lambda>i. sv_listen (server_at p i)) ` set is) d)"
  using assms
proof (induction "is" arbitrary: k d del)
  case Nil
  then show ?case by simp
next
  case (Cons i "is")
  let ?u = "sv_listen (server_at p i)"
  have cong: "indices (removable p (AList.delete ?u d)) (k + 1) is = indices (removable p d) (k + 1) is"
  proof (rule indices_cong)
    fix j assume "j \<in> set is"
    then have "sv_listen (server_at p j) \<in> (\<lambda>i. sv_listen (server_at p i)) ` set is" by (rule imageI)
    then have "sv_listen (server_at p j) \<noteq> ?u" using Cons.prems by auto
    then show "removable p (AList.delete ?u d) j = removable p d j"
      by (auto simp: removable_def set_AList_delete image_iff)
  qed
  have fil: "filter (\<lambda>e. fst e \<notin> (\<lambda>i. sv_listen (server_at p i)) ` set is) (AList.delete ?u d)
      = filter (\<lambda>e. fst e \<notin> (\<lambda>i. sv_listen (server_at p i)) ` set (i # is)) d"
    by (auto simp: AList.delete_eq case_prod_beta intro!: filter_cong)
  have "prune p k (i # is) d del =
      prune p (k + 1) is (AList.delete ?u d) (if removable p d i then del @ [k] else del)"
    by (simp add: removable_def Let_def map_of_eq_None_iff)
  also have "\<dots> = ((if removable p d i then del @ [k] else del) @ indices (removable p d) (k + 1) is,
      filter (\<lambda>e. fst e \<notin> (\<lambda>i. sv_listen (server_at p i)) ` set (i # is)) d)"
    unfolding cong [symmetric] fil [symmetric] using Cons.prems by (intro Cons.IH) simp
  finally show ?case by simp
qed

lemma delete_indices_append:
  "delete_indices p (xs @ ys) ids dl =
    (let (ids', dl') = delete_indices p xs ids dl in delete_indices p ys ids' dl')"
  by (induction xs arbitrary: ids dl) auto

lemma delete_indices_eq:
  "delete_indices p (rev (indices P (length pre) is)) (pre @ is) dl =
    (pre @ filter (\<lambda>i. \<not> P i) is, dl @ rev (map (\<lambda>i. sv_listen (server_at p i)) (filter P is)))"
proof (induction "is" arbitrary: pre dl)
  case (Cons i "is")
  have ih: "delete_indices p (rev (indices P (Suc (length pre)) is)) (pre @ i # is) dl =
      (pre @ i # filter (\<lambda>i. \<not> P i) is, dl @ rev (map (\<lambda>i. sv_listen (server_at p i)) (filter P is)))"
    using Cons.IH [of "pre @ [i]" dl] by simp
  show ?case
  proof (cases "P i")
    case True
    then show ?thesis
      using splice_one_at [of "length pre" pre i] by (simp add: delete_indices_append ih nth_append)
  next
    case False
    then show ?thesis using ih by simp
  qed
qed simp

lemma push_all_new:
  "sp_servers (fold (\<lambda>(k, s). push_server s) left p) = sp_servers p @ [sp_fresh p..<sp_fresh p + length left]
   \<and> sp_fresh (fold (\<lambda>(k, s). push_server s) left p) = sp_fresh p + length left
   \<and> sp_current (fold (\<lambda>(k, s). push_server s) left p) = sp_current p
   \<and> (\<forall>i < sp_fresh p. server_at (fold (\<lambda>(k, s). push_server s) left p) i = server_at p i)
   \<and> (\<forall>j < length left. server_at (fold (\<lambda>(k, s). push_server s) left p) (sp_fresh p + j) = snd (left ! j))"
proof (induction left arbitrary: p)
  case (Cons e left)
  define q where "q = push_server (snd e) p"
  have q: "sp_servers q = sp_servers p @ [sp_fresh p]" "sp_fresh q = sp_fresh p + 1"
      "sp_current q = sp_current p" "server_at q (sp_fresh p) = snd e"
      "\<forall>i < sp_fresh p. server_at q i = server_at p i"
    by (simp_all add: q_def push_server_def alloc_server_def Let_def server_at_def)
  have f: "fold (\<lambda>(k, s). push_server s) (e # left) p = fold (\<lambda>(k, s). push_server s) left q"
    by (simp add: q_def case_prod_beta)
  have nth: "server_at (fold (\<lambda>(k, s). push_server s) left q) (sp_fresh p + j) = snd ((e # left) ! j)"
    if "j < length (e # left)" for j
  proof (cases j)
    case 0
    then show ?thesis using Cons.IH [of q] q by simp
  next
    case (Suc l)
    then have "server_at (fold (\<lambda>(k, s). push_server s) left q) (sp_fresh q + l) = snd (left ! l)"
      using Cons.IH [of q] that by simp
    then show ?thesis using Suc q(2) by simp
  qed
  have "[sp_fresh p..<sp_fresh p + length (e # left)] = sp_fresh p # [sp_fresh q..<sp_fresh q + length left]"
    using q(2) by (simp add: upt_conv_Cons del: upt_Suc)
  then show ?case using Cons.IH [of q] q nth unfolding f by auto
qed simp

text \<open>What the reported URLs are, when the runtime reads each back as it prints it.\<close>

definition readable :: "url_env \<Rightarrow> bool option \<Rightarrow> string list \<Rightarrow> bool" where
  "readable env encrypted us \<longleftrightarrow> (\<forall>u \<in> set us. \<exists>s.
     new_server env (parse_url env u encrypted) True = Inr s \<and> sv_listen s = parse_url env u encrypted)"

lemma set_update_keys: "fst ` set (AList.update k v al) = insert k (fst ` set al)"
  by (induction al) auto

lemma discover_ok:
  assumes "readable env enc us" "distinct (map fst d)" "\<forall>(k, s) \<in> set d. sv_listen s = k"
  shows "\<exists>d'. discover env enc us d = Inr d' \<and> distinct (map fst d')
    \<and> (\<forall>(k, s) \<in> set d'. sv_listen s = k)
    \<and> fst ` set d' = fst ` set d \<union> (\<lambda>u. parse_url env u enc) ` set us"
  using assms
proof (induction us arbitrary: d)
  case (Cons u us)
  let ?k = "parse_url env u enc"
  obtain s where s: "new_server env ?k True = Inr s" "sv_listen s = ?k"
    using Cons.prems(1) by (auto simp: readable_def)
  have "readable env enc us" using Cons.prems(1) by (simp add: readable_def)
  moreover have "distinct (map fst (AList.update ?k s d))" using Cons.prems(2) by (rule distinct_update)
  moreover have "\<forall>(k, s) \<in> set (AList.update ?k s d). sv_listen s = k"
    using set_update_subset [of ?k s d] Cons.prems(3) s(2) by auto
  ultimately obtain d' where "discover env enc us (AList.update ?k s d) = Inr d'"
      "distinct (map fst d')" "\<forall>(k, s) \<in> set d'. sv_listen s = k"
      "fst ` set d' = fst ` set (AList.update ?k s d) \<union> (\<lambda>u. parse_url env u enc) ` set us"
    using Cons.IH by blast
  then show ?case using s by (auto simp: set_update_keys)
qed simp

lemma listens_push_all:
  assumes "\<forall>i \<in> set kept. i < sp_fresh p" "\<forall>(k, s) \<in> set new. sv_listen s = k"
  defines "q \<equiv> fold (\<lambda>(k, s). push_server s) new (p\<lparr>sp_servers := kept\<rparr>)"
  shows "listens q = map (\<lambda>i. sv_listen (server_at p i)) kept @ map fst new"
proof -
  note pn = push_all_new [of new "p\<lparr>sp_servers := kept\<rparr>", folded q_def, simplified]
  have "map (\<lambda>i. sv_listen (server_at q i)) kept = map (\<lambda>i. sv_listen (server_at p i)) kept"
  proof (rule map_cong [OF refl])
    fix i assume "i \<in> set kept"
    then have "server_at q i = server_at (p\<lparr>sp_servers := kept\<rparr>) i" using assms(1) pn by simp
    then show "sv_listen (server_at q i) = sv_listen (server_at p i)" by (simp add: server_at_def)
  qed
  moreover have "map (\<lambda>i. sv_listen (server_at q i)) [sp_fresh p..<sp_fresh p + length new] = map fst new"
    (is "?l = _")
  proof (rule nth_equalityI)
    fix j assume "j < length ?l"
    then have j: "j < length new" by simp
    then have "sv_listen (snd (new ! j)) = fst (new ! j)"
      using assms(2) nth_mem [OF j] by (auto simp: case_prod_beta)
    then show "?l ! j = map fst new ! j" using j pn by simp
  qed simp
  ultimately show ?thesis using pn by (simp add: listens_def)
qed

lemma filtered_rest:
  "inj_on f (set xs) \<Longrightarrow> f ` {x \<in> set xs. \<not> P x} = f ` set xs - f ` {x \<in> set xs. P x}"
  by (auto simp: inj_on_def)

text \<open>
  C30: A cluster update reconciles the pool with the reported URLs. A server stays, in its
  place, unless it was gossiped, is not the current one and is no longer reported; every
  reported URL that was not in the pool is added at the end; the returned lists are exactly
  the additions and the deletions, and no URL is in the pool twice.
\<close>
theorem update_reconciles:
  assumes "pool_ok p" "distinct (listens p)" "readable env enc us"
  defines "reported \<equiv> (\<lambda>u. parse_url env u enc) ` set us"
  defines "stays \<equiv> (\<lambda>i. \<not> sv_gossiped (server_at p i)
     \<or> sv_listen (server_at p i) = sv_listen (server_at p (sp_current p))
     \<or> sv_listen (server_at p i) \<in> reported)"
  shows "\<exists>p' added deleted. update_servers env us enc p = Inr (p', added, deleted)
    \<and> listens p' = map (\<lambda>i. sv_listen (server_at p i)) (filter stays (sp_servers p)) @ added
    \<and> set added = reported - set (listens p)
    \<and> set deleted = set (listens p) - set (listens p')
    \<and> distinct (listens p') \<and> pool_ok p'"
proof -
  let ?L = "\<lambda>i. sv_listen (server_at p i)"
  let ?ids = "sp_servers p"
  obtain d where d: "discover env enc us [] = Inr d" "distinct (map fst d)"
      "\<forall>(k, s) \<in> set d. sv_listen s = k" "fst ` set d = reported"
    using discover_ok [OF assms(3), of "[]"] by (auto simp: reported_def)
  define left where "left = filter (\<lambda>e. fst e \<notin> ?L ` set ?ids) d"
  define kept where "kept = filter stays ?ids"
  have ls: "listens p = map ?L ?ids" by (simp add: listens_def)
  have st: "removable p d = (\<lambda>i. \<not> stays i)"
    by (auto simp: removable_def stays_def d(4))
  have pr: "prune p 0 ?ids d [] = (indices (removable p d) 0 ?ids, left)"
    using prune_eq [of p ?ids 0 d "[]"] assms(2) by (simp add: ls left_def)
  have dl: "delete_indices p (rev (indices (removable p d) 0 ?ids)) ?ids [] =
      (kept, rev (map ?L (filter (\<lambda>i. \<not> stays i) ?ids)))"
    using delete_indices_eq [of p "removable p d" "[]" ?ids "[]"] by (simp add: st kept_def)
  define p1 where "p1 = fold (\<lambda>(k, s). push_server s) left (p\<lparr>sp_servers := kept\<rparr>)"
  have up: "update_servers env us enc p =
      Inr (p1, map fst left, rev (map ?L (filter (\<lambda>i. \<not> stays i) ?ids)))"
    by (simp add: update_servers_def d(1) pr dl p1_def)
  have sub: "set kept \<subseteq> set ?ids" by (auto simp: kept_def)
  have lp1: "listens p1 = map ?L kept @ map fst left"
    unfolding p1_def
  proof (rule listens_push_all)
    show "\<forall>i \<in> set kept. i < sp_fresh p" using sub assms(1) by (auto simp: pool_ok_def)
  qed (use d(3) in \<open>auto simp: left_def\<close>)
  have added: "set (map fst left) = reported - set (listens p)"
    using d(4) by (auto simp: left_def ls)
  have inj: "inj_on ?L (set ?ids)" using assms(2) by (simp add: ls distinct_map)
  have "set (map ?L (filter (\<lambda>i. \<not> stays i) ?ids)) = set (listens p) - set (listens p1)"
    using filtered_rest [OF inj, of stays] added by (auto simp: lp1 ls kept_def)
  moreover have "distinct (listens p1)"
  proof -
    have "distinct (map fst left)" using d(2) by (simp add: left_def distinct_map_filter)
    moreover have "distinct (map ?L kept)"
      using assms(2) sub inj by (auto simp: ls distinct_map kept_def intro: inj_on_subset)
    moreover have "set (map ?L kept) \<inter> set (map fst left) = {}"
      using sub added by (auto simp: ls)
    ultimately show ?thesis by (simp add: lp1)
  qed
  moreover have "pool_ok p1"
  proof -
    have "distinct kept" "\<forall>i \<in> set kept. i < sp_fresh p" "sp_current p < sp_fresh p"
      using assms(1) sub by (auto simp: pool_ok_def kept_def)
    then show ?thesis
      using push_all_new [of left "p\<lparr>sp_servers := kept\<rparr>", folded p1_def] by (auto simp: pool_ok_def)
  qed
  ultimately show ?thesis using up lp1 added by (auto simp: kept_def)
qed

theorem update_reconciles_witness:
  "\<exists>p' added deleted. update_servers \<lparr>url_of = (\<lambda>proto u port. Some (u, u)), url_hook = None,
      url_default_port = 4222\<rparr> [''c''] None
      \<lparr>sp_firstSelect = False, sp_servers = [0], sp_current = 0, sp_tlsName = [], sp_randomize = False,
       sp_store = [0 \<mapsto> \<lparr>sv_src = ''a'', sv_listen = ''a'', sv_hostname = ''a'', sv_port = 4222,
         sv_didConnect = True, sv_reconnects = 0, sv_lastConnect = 0, sv_gossiped = False,
         sv_tlsName = [], sv_resolves = None\<rparr>], sp_fresh = 1\<rparr> = Inr (p', added, deleted)
    \<and> set added = {''c''}"
proof -
  let ?env = "\<lparr>url_of = (\<lambda>proto u port. Some (u, u)), url_hook = None, url_default_port = 4222\<rparr>"
  let ?p = "\<lparr>sp_firstSelect = False, sp_servers = [0], sp_current = 0, sp_tlsName = [], sp_randomize = False,
       sp_store = [0 \<mapsto> \<lparr>sv_src = ''a'', sv_listen = ''a'', sv_hostname = ''a'', sv_port = 4222,
         sv_didConnect = True, sv_reconnects = 0, sv_lastConnect = 0, sv_gossiped = False,
         sv_tlsName = [], sv_resolves = None\<rparr>], sp_fresh = 1\<rparr>"
  have "js_trim ''c'' = ''c''" by code_simp
  moreover have "isIPV4OrHostname ''c''" by code_simp
  moreover have "find_port '':'' ''c'' = None" by code_simp
  moreover have "filterIpv6MappedToIpv4 ''c'' = ''c''" by code_simp
  moreover have "strip_protocol [] ''c'' = ''c''" by code_simp
  ultimately have "hostPort ?env ''c'' = Inr \<lparr>hp_listen = ''c'', hp_hostname = ''c'', hp_port = 4222\<rparr>"
    by (simp add: hostPort_def isIPV6_def Let_def DEFAULT_PORT_def)
  then have "readable ?env None [''c'']"
    by (simp add: readable_def parse_url_def new_server_def)
  moreover have "pool_ok ?p" by (simp add: pool_ok_def)
  moreover have "listens ?p = [''a'']" by (simp add: listens_def server_at_def)
  ultimately show ?thesis
    using update_reconciles [of ?p ?env None "[''c'']"] by (auto simp: parse_url_def)
qed

section \<open>Resolving a host name\<close>

text \<open>\<open>resolve\<close>: the addresses the resolver gives for the host name become servers of their
  own, outside the pool, that keep the host name for TLS.\<close>

fun resolve_ips :: "url_env \<Rightarrow> server_impl \<Rightarrow> string list \<Rightarrow> servers \<Rightarrow> js_error + (servers \<times> nat list)" where
  "resolve_ips env self [] p = Inr (p, [])"
| "resolve_ips env self (ip # ips) p =
     (let proto = (if sv_port self = 80 then ''https'' else ''http'')
      in case url_of env proto (if isIPV6 ip then ''['' @ ip @ '']'' else ip) (sv_port self) of
           None \<Rightarrow> Inl (Plain_Error ''Invalid URL'')
         | Some (host, name) \<Rightarrow>
             rbind (new_server env host False) (\<lambda>ss.
               let (p1, i) = alloc_server (ss\<lparr>sv_tlsName := sv_hostname self\<rparr>) p
               in rbind (resolve_ips env self ips p1) (\<lambda>(p2, is). Inr (p2, i # is))))"

definition resolve_server ::
  "url_env \<Rightarrow> (string \<Rightarrow> string list) option \<Rightarrow> bool option \<Rightarrow> bool \<Rightarrow> nat list \<Rightarrow> nat \<Rightarrow> servers
    \<Rightarrow> js_error + (servers \<times> nat list)" where
  "resolve_server env dns resolve randomize ks self p =
     (case dns of
        None \<Rightarrow> Inr (p, [self])
      | Some fn \<Rightarrow>
          if resolve = Some False then Inr (p, [self])
          else if isIP (sv_hostname (server_at p self)) then Inr (p, [self])
          else rbind (resolve_ips env (server_at p self) (fn (sv_hostname (server_at p self))) p)
            (\<lambda>(p1, buf).
              let buf1 = (if randomize then shuffle ks buf else buf)
              in Inr (p1\<lparr>sp_store := (sp_store p1)(self \<mapsto> (server_at p1 self)\<lparr>sv_resolves := Some buf1\<rparr>)\<rparr>,
                      buf1)))"

end
