(* ===== verification/Queued_Iterator.thy ===== *)
theory Queued_Iterator
  imports Nats_Core
begin

text \<open>
  The iterator behind subscriptions and status streams, \<open>nats-base-client/queued_iterator.ts\<close>.
  The async generator \<open>iterate\<close> is a state machine: its program counter says whether it
  waits for the signal, works on a batch it took from the queue, or is suspended at a
  \<open>yield\<close>. \<open>push\<close> and \<open>stop\<close> may run between any two of its steps. A pushed function is
  given by what it does to the iterator: it may call \<open>stop\<close>, and it may throw. The filters
  are arguments.
\<close>

section \<open>The iterator\<close>

datatype 'a item = Val 'a | Fn (fn_stop: "js_error option option") (fn_throw: "js_error option")

datatype 'a qi_pc =
    Not_Started
  | At_Loop
  | In_Batch "'a item list"
  | Yielded 'a "'a item list"
  | Finished "js_error option"

record 'a qiter =
  qi_inflight :: int
  qi_processed :: nat
  qi_received :: int
  qi_noIterator :: bool
  qi_iterClosed :: "js_error option option"
  qi_done :: bool
  qi_signal :: bool
  qi_yields :: "'a item list"
  qi_filtered :: int
  qi_pendingFiltered :: int
  qi_err :: "js_error option"
  qi_yielding :: bool
  qi_pc :: "'a qi_pc"

definition new_qiter :: "'a qiter" where
  "new_qiter = \<lparr>qi_inflight = 0, qi_processed = 0, qi_received = 0, qi_noIterator = False,
     qi_iterClosed = None, qi_done = False, qi_signal = False, qi_yields = [], qi_filtered = 0,
     qi_pendingFiltered = 0, qi_err = None, qi_yielding = False, qi_pc = Not_Started\<rparr>"

text \<open>\<open>ingestion v\<close> is the pair \<open>{ingest, protocol}\<close> of the ingestion filter.\<close>

definition qi_push :: "('a \<Rightarrow> bool \<times> bool) \<Rightarrow> 'a item \<Rightarrow> 'a qiter \<Rightarrow> 'a qiter" where
  "qi_push ingestion v q =
     (if qi_done q then q
      else case v of
        Fn s t \<Rightarrow> q\<lparr>qi_yields := qi_yields q @ [v], qi_signal := True\<rparr>
      | Val x \<Rightarrow>
          (let (ingest, protocol) = ingestion x
           in if ingest
              then let q1 = (if protocol then q\<lparr>qi_filtered := qi_filtered q + 1,
                               qi_pendingFiltered := qi_pendingFiltered q + 1\<rparr> else q)
                   in q1\<lparr>qi_yields := qi_yields q1 @ [v], qi_signal := True\<rparr>
              else q))"

definition qi_stop :: "js_error option \<Rightarrow> 'a qiter \<Rightarrow> 'a qiter" where
  "qi_stop err q =
     (if qi_done q then q
      else q\<lparr>qi_err := err, qi_done := True, qi_signal := True, qi_iterClosed := Some err\<rparr>)"

text \<open>The start of \<open>iterate\<close>, before the loop.\<close>

definition qi_iterate :: "'a qiter \<Rightarrow> js_error + 'a qiter" where
  "qi_iterate q =
     (if qi_noIterator q then Inl (nats_error ''unsupported iterator'' (code_string EC_ApiError) None)
      else if qi_yielding q then Inl (nats_error ''already yielding'' (code_string EC_ApiError) None)
      else Inr (q\<lparr>qi_yielding := True, qi_pc := At_Loop\<rparr>))"

text \<open>Leaving the generator, through the \<open>finally\<close> block.\<close>

definition qi_finish :: "js_error option \<Rightarrow> 'a qiter \<Rightarrow> 'a qiter" where
  "qi_finish e q = (qi_stop None q)\<lparr>qi_pc := Finished e\<rparr>"

text \<open>The function of a batch entry: it may stop the iterator, throw, or leave an error.\<close>

definition qi_call :: "js_error option option \<Rightarrow> js_error option \<Rightarrow> 'a item list \<Rightarrow> 'a qiter \<Rightarrow> 'a qiter" where
  "qi_call s t rest q =
     (let q1 = (case s of Some e \<Rightarrow> qi_stop e q | None \<Rightarrow> q)
      in case t of
           Some e \<Rightarrow> qi_finish (Some e) q1
         | None \<Rightarrow> if qi_err q1 \<noteq> None then qi_finish (qi_err q1) q1 else q1\<lparr>qi_pc := In_Batch rest\<rparr>)"

text \<open>One step of the generator; the second component is the value it yields.\<close>

definition qi_step :: "('a \<Rightarrow> bool) \<Rightarrow> 'a qiter \<Rightarrow> 'a qiter \<times> 'a option" where
  "qi_step pf q =
     (case qi_pc q of
        Not_Started \<Rightarrow> (q, None)
      | At_Loop \<Rightarrow>
          if qi_yields q = [] \<and> \<not> qi_signal q then (q, None)
          else if qi_err q \<noteq> None then (qi_finish (qi_err q) q, None)
          else (q\<lparr>qi_inflight := int (length (qi_yields q)), qi_yields := [],
                  qi_pc := In_Batch (qi_yields q)\<rparr>, None)
      | In_Batch [] \<Rightarrow>
          if qi_done q then (qi_finish None q, None)
          else ((if qi_yields q = [] then q\<lparr>qi_signal := False\<rparr> else q)\<lparr>qi_pc := At_Loop\<rparr>, None)
      | In_Batch (Fn s t # rest) \<Rightarrow> (qi_call s t rest q, None)
      | In_Batch (Val v # rest) \<Rightarrow>
          if pf v then (q\<lparr>qi_processed := qi_processed q + 1, qi_pc := Yielded v rest\<rparr>, Some v)
          else (q\<lparr>qi_pendingFiltered := qi_pendingFiltered q - 1, qi_inflight := qi_inflight q - 1,
                  qi_pc := In_Batch rest\<rparr>, None)
      | Yielded v rest \<Rightarrow> (q\<lparr>qi_inflight := qi_inflight q - 1, qi_pc := In_Batch rest\<rparr>, None)
      | Finished e \<Rightarrow> (q, None))"

text \<open>The consumer leaves its loop: the generator returns from the \<open>yield\<close>.\<close>

definition qi_break :: "'a qiter \<Rightarrow> 'a qiter" where
  "qi_break q = (case qi_pc q of Yielded v rest \<Rightarrow> qi_finish None q | _ \<Rightarrow> q)"

definition qi_getProcessed :: "'a qiter \<Rightarrow> int" where
  "qi_getProcessed q = (if qi_noIterator q then qi_received q else int (qi_processed q))"

definition qi_getPending :: "'a qiter \<Rightarrow> int" where
  "qi_getPending q = int (length (qi_yields q)) + qi_inflight q - qi_pendingFiltered q"

definition qi_getReceived :: "'a qiter \<Rightarrow> int" where
  "qi_getReceived q = qi_received q - qi_filtered q"

section \<open>Runs\<close>

datatype 'a qi_event = Push "'a item" | Stop "js_error option" | Step | Break

definition accepted :: "('a \<Rightarrow> bool \<times> bool) \<Rightarrow> 'a item \<Rightarrow> bool" where
  "accepted ingestion v = (case v of Fn s t \<Rightarrow> True | Val x \<Rightarrow> fst (ingestion x))"

text \<open>A run with its history: the entries that were queued and the values that were yielded.\<close>

fun qi_run ::
  "('a \<Rightarrow> bool \<times> bool) \<Rightarrow> ('a \<Rightarrow> bool) \<Rightarrow> 'a qi_event list \<Rightarrow> 'a qiter
    \<Rightarrow> 'a qiter \<times> 'a item list \<times> 'a list" where
  "qi_run ing pf [] q = (q, [], [])"
| "qi_run ing pf (Push v # es) q =
     (let (q', qs, ys) = qi_run ing pf es (qi_push ing v q)
      in (q', (if \<not> qi_done q \<and> accepted ing v then [v] else []) @ qs, ys))"
| "qi_run ing pf (Stop e # es) q = qi_run ing pf es (qi_stop e q)"
| "qi_run ing pf (Break # es) q = qi_run ing pf es (qi_break q)"
| "qi_run ing pf (Step # es) q =
     (let (q1, y) = qi_step pf q; (q', qs, ys) = qi_run ing pf es q1
      in (q', qs, (case y of Some v \<Rightarrow> [v] | None \<Rightarrow> []) @ ys))"

fun vals :: "'a item list \<Rightarrow> 'a list" where
  "vals [] = []"
| "vals (Val v # is) = v # vals is"
| "vals (Fn s t # is) = vals is"

lemma vals_append [simp]: "vals (a @ b) = vals a @ vals b"
  by (induction a rule: vals.induct) auto

text \<open>What is left to present: the rest of the batch and the queue.\<close>

definition in_queue :: "'a qiter \<Rightarrow> 'a item list" where
  "in_queue q = (case qi_pc q of In_Batch b \<Rightarrow> b | Yielded v b \<Rightarrow> b | _ \<Rightarrow> []) @ qi_yields q"

definition finished :: "'a qiter \<Rightarrow> bool" where
  "finished q = (case qi_pc q of Finished e \<Rightarrow> True | _ \<Rightarrow> False)"

lemma qi_stop_simps [simp]:
  "qi_yields (qi_stop e q) = qi_yields q" "qi_pc (qi_stop e q) = qi_pc q"
  "qi_done (qi_stop e q)" "qi_inflight (qi_stop e q) = qi_inflight q"
  "qi_pendingFiltered (qi_stop e q) = qi_pendingFiltered q"
  "in_queue (qi_stop e q) = in_queue q" "finished (qi_stop e q) = finished q"
  by (simp_all add: qi_stop_def in_queue_def finished_def)

lemma finished_finish [simp]: "finished (qi_finish e q)"
  by (simp add: finished_def qi_finish_def)

lemma qi_push_queue:
  "in_queue (qi_push ing v q) = in_queue q @ (if \<not> qi_done q \<and> accepted ing v then [v] else [])"
  "qi_pc (qi_push ing v q) = qi_pc q"
  by (auto simp: qi_push_def in_queue_def accepted_def Let_def case_prod_beta split: item.splits)

lemma qi_step_queue:
  assumes "qi_step pf q = (q', y)" "\<not> finished q'"
  shows "filter pf (vals (in_queue q)) = (case y of Some v \<Rightarrow> [v] | None \<Rightarrow> []) @ filter pf (vals (in_queue q'))"
proof (cases "qi_pc q")
  case At_Loop
  with assms show ?thesis
    by (auto simp: qi_step_def in_queue_def split: if_splits)
next
  case (In_Batch b)
  show ?thesis
  proof (cases b)
    case Nil
    with In_Batch assms show ?thesis by (auto simp: qi_step_def in_queue_def split: if_splits)
  next
    case (Cons i rest)
    show ?thesis
    proof (cases i)
      case (Val v)
      with In_Batch Cons assms show ?thesis by (auto simp: qi_step_def in_queue_def split: if_splits)
    next
      case (Fn s t)
      then have q': "q' = qi_call s t rest q" "y = None"
        using In_Batch Cons assms(1) by (simp_all add: qi_step_def)
      then have "qi_pc q' = In_Batch rest \<and> qi_yields q' = qi_yields q"
        using assms(2) by (auto simp: qi_call_def Let_def split: option.splits if_splits)
      then show ?thesis using q' In_Batch Cons Fn by (simp add: in_queue_def)
    qed
  qed
qed (use assms in \<open>auto simp: qi_step_def in_queue_def\<close>)

lemma finished_step: "finished q \<Longrightarrow> qi_step pf q = (q, None)"
  by (auto simp: finished_def qi_step_def split: qi_pc.splits)

lemma finished_run:
  "finished q \<Longrightarrow> snd (snd (qi_run ing pf es q)) = []"
proof (induction ing pf es q rule: qi_run.induct)
  case (2 ing pf v es q)
  then show ?case by (simp add: finished_def qi_push_queue case_prod_beta)
next
  case (4 ing pf es q)
  then show ?case by (auto simp: finished_def qi_break_def split: qi_pc.splits)
next
  case (5 ing pf es q)
  then show ?case by (simp add: finished_step case_prod_beta)
qed simp_all

lemma run_presents:
  "\<exists>rest. filter pf (vals (in_queue q @ fst (snd (qi_run ing pf es q))))
    = snd (snd (qi_run ing pf es q)) @ rest"
proof (induction ing pf es q rule: qi_run.induct)
  case (2 ing pf v es q)
  then show ?case by (simp add: qi_push_queue case_prod_beta)
next
  case (4 ing pf es q)
  show ?case
  proof (cases "finished (qi_break q)")
    case True
    then show ?thesis by (simp add: finished_run)
  next
    case False
    then have "qi_break q = q" by (auto simp: qi_break_def split: qi_pc.splits)
    then show ?thesis using 4 by simp
  qed
next
  case (5 ing pf es q)
  obtain q1 y where s: "qi_step pf q = (q1, y)" by (cases "qi_step pf q")
  show ?case
  proof (cases "finished q1")
    case True
    have "y = None"
    proof (cases "qi_pc q")
      case (In_Batch b)
      then show ?thesis
        using s True by (cases b; cases "hd b") (auto simp: qi_step_def finished_def split: if_splits)
    qed (use s True in \<open>auto simp: qi_step_def finished_def split: if_splits\<close>)
    then show ?thesis using True s by (simp add: finished_run case_prod_beta)
  next
    case False
    show ?thesis
      using 5 [OF s [symmetric]] qi_step_queue [OF s False] s by (simp add: case_prod_beta)
  qed
qed simp_all

text \<open>
  Whatever pushes, stops and steps of the consumer interleave, the values the iterator
  yields are an initial part of the values that were queued and pass the protocol filter:
  none is lost in between, none is yielded twice and the order is kept.
\<close>
theorem iterator_is_fifo:
  assumes "qi_iterate q0 = Inr q" "qi_yields q0 = []" "qi_run ing pf es q = (q', queued, yielded)"
  shows "\<exists>rest. filter pf (vals queued) = yielded @ rest"
proof -
  have "in_queue q = []"
    using assms(1,2) by (auto simp: qi_iterate_def in_queue_def split: if_splits)
  then show ?thesis using run_presents [of pf q ing es] assms(3) by simp
qed

theorem iterator_is_fifo_witness:
  "\<exists>rest. filter (\<lambda>v. v \<noteq> 2) (vals [Val 1, Val 2, Val (3::nat)]) = [1, 3] @ rest"
proof -
  let ?q = "new_qiter\<lparr>qi_yielding := True, qi_pc := At_Loop\<rparr> :: nat qiter"
  have "qi_iterate new_qiter = Inr ?q" by (simp add: qi_iterate_def new_qiter_def)
  moreover have "\<exists>q'. qi_run (\<lambda>v. (True, False)) (\<lambda>v. v \<noteq> 2)
      [Push (Val 1), Push (Val 2), Step, Step, Push (Val 3), Step, Step, Step, Step, Step] ?q
      = (q', [Val 1, Val 2, Val 3], [1, 3])"
    by (simp add: qi_push_def qi_step_def new_qiter_def accepted_def)
  ultimately show ?thesis
    using iterator_is_fifo [of new_qiter ?q "\<lambda>v. (True, False)" "\<lambda>v. v \<noteq> 2"] by (auto simp: new_qiter_def)
qed

section \<open>Counting what is pending\<close>

definition suspended :: "'a qiter \<Rightarrow> bool" where
  "suspended q = (case qi_pc q of Yielded v b \<Rightarrow> True | _ \<Rightarrow> False)"

definition only_vals :: "'a item list \<Rightarrow> bool" where
  "only_vals is \<longleftrightarrow> (\<forall>i \<in> set is. \<exists>v. i = Val v)"

text \<open>The counters agree with the queue while only values are queued.\<close>

definition counters_ok :: "('a \<Rightarrow> bool) \<Rightarrow> 'a qiter \<Rightarrow> bool" where
  "counters_ok pf q \<longleftrightarrow> only_vals (in_queue q)
     \<and> qi_inflight q + int (length (qi_yields q)) = int (length (in_queue q)) + (if suspended q then 1 else 0)
     \<and> qi_pendingFiltered q = int (length (filter (\<lambda>v. \<not> pf v) (vals (in_queue q))))"

lemma length_vals: "only_vals is \<Longrightarrow> length (vals is) = length is"
  by (induction "is" rule: vals.induct) (auto simp: only_vals_def)

lemma counters_pending:
  assumes "counters_ok pf q"
  shows "qi_getPending q = int (length (filter pf (vals (in_queue q)))) + (if suspended q then 1 else 0)"
proof -
  have "length (filter pf xs) + length (filter (\<lambda>v. \<not> pf v) xs) = length xs" for xs
    by (rule sum_length_filter_compl)
  then have "int (length (filter pf (vals (in_queue q))))
      = int (length (in_queue q)) - int (length (filter (\<lambda>v. \<not> pf v) (vals (in_queue q))))"
    using length_vals [of "in_queue q"] assms unfolding counters_ok_def by (metis of_nat_add add_diff_cancel_right')
  then show ?thesis using assms unfolding counters_ok_def qi_getPending_def by linarith
qed

lemma counters_push:
  assumes "counters_ok pf q" "\<forall>v. fst (ing v) \<longrightarrow> snd (ing v) = (\<not> pf v)"
  shows "counters_ok pf (qi_push ing (Val x) q)"
proof (cases "\<not> qi_done q \<and> fst (ing x)")
  case True
  let ?q = "qi_push ing (Val x) q"
  have q: "in_queue ?q = in_queue q @ [Val x]" "suspended ?q = suspended q"
      "qi_inflight ?q = qi_inflight q" "qi_yields ?q = qi_yields q @ [Val x]"
      "qi_pendingFiltered ?q = qi_pendingFiltered q + (if snd (ing x) then 1 else 0)"
    using True by (auto simp: qi_push_def in_queue_def suspended_def Let_def case_prod_beta)
  show ?thesis
    using assms True unfolding counters_ok_def q only_vals_def by auto
next
  case False
  then have "qi_push ing (Val x) q = q" by (auto simp: qi_push_def case_prod_beta Let_def)
  with assms show ?thesis by simp
qed

lemma counters_step:
  assumes "counters_ok pf q" "\<not> finished (fst (qi_step pf q))"
  shows "counters_ok pf (fst (qi_step pf q))"
proof (cases "qi_pc q")
  case At_Loop
  with assms show ?thesis
    by (auto simp: qi_step_def counters_ok_def in_queue_def suspended_def only_vals_def)
next
  case (In_Batch b)
  show ?thesis
  proof (cases b)
    case Nil
    with In_Batch assms show ?thesis
      by (auto simp: qi_step_def counters_ok_def in_queue_def suspended_def)
  next
    case (Cons i rest)
    then obtain v where v: "i = Val v"
      using assms(1) In_Batch by (auto simp: counters_ok_def only_vals_def in_queue_def)
    with In_Batch Cons assms show ?thesis
      by (auto simp: qi_step_def counters_ok_def in_queue_def suspended_def only_vals_def)
  qed
qed (use assms in \<open>auto simp: qi_step_def counters_ok_def in_queue_def suspended_def finished_def\<close>)

lemma counters_stop: "counters_ok pf q \<Longrightarrow> counters_ok pf (qi_stop e q)"
  by (simp add: counters_ok_def suspended_def)

lemma counters_run:
  assumes "counters_ok pf q \<or> finished q" "\<forall>v. fst (ing v) \<longrightarrow> snd (ing v) = (\<not> pf v)"
    "\<forall>i s t. Push i \<in> set es \<longrightarrow> i \<noteq> Fn s t"
  shows "counters_ok pf (fst (qi_run ing pf es q)) \<or> finished (fst (qi_run ing pf es q))"
  using assms
proof (induction ing pf es q rule: qi_run.induct)
  case (2 ing pf v es q)
  obtain x where v: "v = Val x" using 2(4) by (cases v) auto
  have "counters_ok pf (qi_push ing v q) \<or> finished (qi_push ing v q)"
    using 2(2) counters_push [OF _ 2(3)] v by (auto simp: finished_def qi_push_queue)
  then show ?case using 2 by (simp add: case_prod_beta)
next
  case (3 ing pf e es q)
  then have "counters_ok pf (qi_stop e q) \<or> finished (qi_stop e q)"
    using counters_stop by auto
  then show ?case using 3 by simp
next
  case (4 ing pf es q)
  have "counters_ok pf (qi_break q) \<or> finished (qi_break q)"
    using 4(2) by (auto simp: qi_break_def split: qi_pc.splits)
  then show ?case using 4 by simp
next
  case (5 ing pf es q)
  have "counters_ok pf (fst (qi_step pf q)) \<or> finished (fst (qi_step pf q))"
    using 5(2) counters_step [of pf q] finished_step [of q pf] by auto
  then show ?case using 5 by (cases "qi_step pf q") (simp add: case_prod_beta)
qed simp_all

text \<open>
  As long as no function is queued and the ingestion filter marks exactly the values the
  protocol filter rejects, \<open>getPending\<close> is at any moment the number of values still to be
  yielded, plus one while the consumer works on a value.
\<close>
theorem pending_is_exact:
  assumes "\<forall>v. fst (ing v) \<longrightarrow> snd (ing v) = (\<not> pf v)" "\<forall>i s t. Push i \<in> set es \<longrightarrow> i \<noteq> Fn s t"
    "qi_run ing pf es (new_qiter\<lparr>qi_yielding := True, qi_pc := At_Loop\<rparr>) = (q, queued, yielded)"
    "\<not> finished q"
  shows "qi_getPending q = int (length (filter pf (vals (in_queue q)))) + (if suspended q then 1 else 0)"
proof -
  have "counters_ok pf (new_qiter\<lparr>qi_yielding := True, qi_pc := At_Loop\<rparr>)"
    by (simp add: counters_ok_def in_queue_def new_qiter_def only_vals_def suspended_def)
  then have "counters_ok pf q"
    using counters_run [OF _ assms(1,2)] assms(3,4) by (metis fst_conv)
  then show ?thesis by (rule counters_pending)
qed

theorem pending_is_exact_witness:
  "qi_getPending (fst (qi_run (\<lambda>v. (True, False)) (\<lambda>v. True) [Push (Val (1::nat)), Push (Val 2), Step, Step]
     (new_qiter\<lparr>qi_yielding := True, qi_pc := At_Loop\<rparr>))) = 2"
proof -
  let ?q = "new_qiter\<lparr>qi_yielding := True, qi_pc := At_Loop\<rparr> :: nat qiter"
  let ?es = "[Push (Val 1), Push (Val 2), Step, Step]"
  obtain q qs ys where r: "qi_run (\<lambda>v. (True, False)) (\<lambda>v. True) ?es ?q = (q, qs, ys)"
    by (metis prod_cases3)
  then have q: "qi_pc q = Yielded 1 [Val 2]" "qi_yields q = []"
    by (auto simp: qi_push_def qi_step_def new_qiter_def)
  then have "qi_getPending q = 2"
    using pending_is_exact [OF _ _ r] by (simp add: finished_def in_queue_def suspended_def)
  then show ?thesis unfolding r by simp
qed

text \<open>
  A queued function is counted as in flight but never uncounted: after the iterator has
  called it, with nothing queued and nothing being processed, \<open>getPending\<close> is still one.
\<close>
theorem functions_stay_pending:
  "\<exists>q :: nat qiter. qi_run (\<lambda>v. (True, False)) (\<lambda>v. True) [Push (Fn None None), Step, Step, Step]
      (new_qiter\<lparr>qi_yielding := True, qi_pc := At_Loop\<rparr>) = (q, [Fn None None], [])
    \<and> in_queue q = [] \<and> qi_pc q = At_Loop \<and> qi_getPending q = 1"
  by (simp add: qi_push_def qi_step_def qi_call_def new_qiter_def accepted_def in_queue_def
      qi_getPending_def)

section \<open>Stopping with an error\<close>

lemma rest_of_batch_ends:
  assumes "qi_done q" "qi_pc q = In_Batch b" "only_vals b"
  shows "\<exists>n. qi_pc (fst (qi_run ing pf (replicate n Step) q)) = Finished None
    \<and> qi_iterClosed (fst (qi_run ing pf (replicate n Step) q)) = qi_iterClosed q"
  using assms
proof (induction b arbitrary: q)
  case Nil
  then have "fst (qi_run ing pf (replicate 1 Step) q) = qi_finish None q"
    by (simp add: qi_step_def)
  then show ?case using Nil by (intro exI [of _ 1]) (simp add: qi_finish_def qi_stop_def)
next
  case (Cons i b)
  then obtain v where v: "i = Val v" and b: "only_vals b" by (auto simp: only_vals_def)
  show ?case
  proof (cases "pf v")
    case True
    let ?q = "q\<lparr>qi_processed := qi_processed q + 1, qi_inflight := qi_inflight q - 1, qi_pc := In_Batch b\<rparr>"
    obtain n where n: "qi_pc (fst (qi_run ing pf (replicate n Step) ?q)) = Finished None"
        "qi_iterClosed (fst (qi_run ing pf (replicate n Step) ?q)) = qi_iterClosed q"
      using Cons.IH [of ?q] Cons.prems b by auto
    have "fst (qi_run ing pf (replicate (Suc (Suc n)) Step) q) = fst (qi_run ing pf (replicate n Step) ?q)"
      using True v Cons.prems by (simp add: qi_step_def case_prod_beta)
    with n show ?thesis by metis
  next
    case False
    let ?q = "q\<lparr>qi_pendingFiltered := qi_pendingFiltered q - 1, qi_inflight := qi_inflight q - 1, qi_pc := In_Batch b\<rparr>"
    obtain n where n: "qi_pc (fst (qi_run ing pf (replicate n Step) ?q)) = Finished None"
        "qi_iterClosed (fst (qi_run ing pf (replicate n Step) ?q)) = qi_iterClosed q"
      using Cons.IH [of ?q] Cons.prems b by auto
    have "fst (qi_run ing pf (replicate (Suc n) Step) q) = fst (qi_run ing pf (replicate n Step) ?q)"
      using False v Cons.prems by (simp add: qi_step_def case_prod_beta)
    with n show ?thesis by metis
  qed
qed

text \<open>
  An iterator that is stopped with an error while its consumer works on a value ends
  without throwing: the consumer is given the rest of the batch and then a normal end, and
  the error is only in \<open>iterClosed\<close>.
\<close>
theorem stop_error_is_not_thrown:
  assumes "qi_pc q = Yielded v b" "only_vals b" "\<not> qi_done q"
  shows "\<exists>n. qi_pc (fst (qi_run ing pf (Stop (Some e) # replicate n Step) q)) = Finished None
    \<and> qi_iterClosed (fst (qi_run ing pf (Stop (Some e) # replicate n Step) q)) = Some (Some e)"
proof -
  let ?s = "qi_stop (Some e) q"
  let ?q = "?s\<lparr>qi_inflight := qi_inflight ?s - 1, qi_pc := In_Batch b\<rparr>"
  obtain n where n: "qi_pc (fst (qi_run ing pf (replicate n Step) ?q)) = Finished None"
      "qi_iterClosed (fst (qi_run ing pf (replicate n Step) ?q)) = qi_iterClosed ?q"
    using rest_of_batch_ends [of ?q b ing pf] assms(2) by auto
  have "qi_step pf ?s = (?q, None)" using assms(1) by (simp add: qi_step_def)
  then have "fst (qi_run ing pf (Stop (Some e) # replicate (Suc n) Step) q) =
      fst (qi_run ing pf (replicate n Step) ?q)"
    by (simp add: case_prod_beta)
  moreover have "qi_iterClosed ?q = Some (Some e)" using assms(3) by (simp add: qi_stop_def)
  ultimately show ?thesis using n by metis
qed

theorem stop_error_is_not_thrown_witness:
  "\<exists>n. qi_pc (fst (qi_run (\<lambda>v. (True, False)) (\<lambda>v. True) (Stop (Some (Plain_Error ''x'')) # replicate n Step)
     (new_qiter\<lparr>qi_pc := Yielded (1::nat) []\<rparr>))) = Finished None"
  using stop_error_is_not_thrown [of "new_qiter\<lparr>qi_pc := Yielded (1::nat) []\<rparr>" 1 "[]"
      "\<lambda>v. (True, False)" "\<lambda>v. True" "Plain_Error ''x''"]
  by (auto simp: only_vals_def new_qiter_def)

end
