(* ===== verification/Messages.thy ===== *)
theory Messages
  imports Headers Wire_Frames
begin

text \<open>
  Messages as the client sees them, \<open>nats-base-client/msg.ts\<close>: a view of the arguments and
  the payload the parser pushed, with the header block decoded on demand.
\<close>

record nats_msg =
  nm_msg :: msg_arg
  nm_rdata :: bytes

definition new_msg :: "msg_arg \<Rightarrow> bytes \<Rightarrow> nats_msg" where
  "new_msg m d = \<lparr>nm_msg = m, nm_rdata = d\<rparr>"

definition msg_subject :: "nats_msg \<Rightarrow> string" where
  "msg_subject m = td_decode (subject (nm_msg m))"

definition msg_reply :: "nats_msg \<Rightarrow> string" where
  "msg_reply m = (case reply (nm_msg m) of Some r \<Rightarrow> td_decode r | None \<Rightarrow> [])"

definition msg_sid :: "nats_msg \<Rightarrow> int" where
  "msg_sid m = sid (nm_msg m)"

definition msg_headers :: "nats_msg \<Rightarrow> js_error + msg_hdrs option" where
  "msg_headers m =
     (if hdr (nm_msg m) > - 1
      then rbind (hdr_decode (subarray 0 (nat (hdr (nm_msg m))) (nm_rdata m))) (\<lambda>h. Inr (Some h))
      else Inr None)"

definition msg_data :: "nats_msg \<Rightarrow> bytes" where
  "msg_data m = (if hdr (nm_msg m) > - 1 then drop (nat (hdr (nm_msg m))) (nm_rdata m) else nm_rdata m)"

text \<open>\<open>respond\<close> gives what it publishes: the subject, if the message has a reply subject.\<close>

definition msg_respond :: "nats_msg \<Rightarrow> string option" where
  "msg_respond m = (if msg_reply m \<noteq> [] then Some (msg_reply m) else None)"

definition msg_size :: "nats_msg \<Rightarrow> int" where
  "msg_size m =
     int (length (subject (nm_msg m)))
     + (case reply (nm_msg m) of Some r \<Rightarrow> int (length r) | None \<Rightarrow> 0)
     + (if size (nm_msg m) = - 1 then 0 else size (nm_msg m))"

definition msg_string :: "nats_msg \<Rightarrow> string" where
  "msg_string m = td_decode (msg_data m)"

definition isRequestError :: "nats_msg \<Rightarrow> js_error + js_error option" where
  "isRequestError m =
     (if length (msg_data m) = 0
      then rbind (msg_headers m) (\<lambda>h. case h of
             Some hs \<Rightarrow> Inr (if hd_code hs = 503 then Some (error_for_code EC_NoResponders None) else None)
           | None \<Rightarrow> Inr None)
      else Inr None)"

text \<open>
  A message whose payload is the encoded headers followed by the data, as the parser
  delivers it, shows exactly these headers and this data, and it counts as the error for a
  request without responders precisely when the status is 503 and there is no data.
\<close>
theorem message_shows_headers_and_data:
  fixes d :: bytes
  assumes "hdrs_ok h" "status_ok h" "hdr a = int (length (hdr_encode h))"
  defines "m \<equiv> new_msg a (hdr_encode h @ d)"
  shows "msg_headers m = Inr (Some h) \<and> msg_data m = d
    \<and> isRequestError m = Inr (if d = [] \<and> hd_code h = 503
        then Some (error_for_code EC_NoResponders None) else None)"
proof -
  have "msg_headers m = Inr (Some h)"
    using assms by (simp add: m_def new_msg_def msg_headers_def decode_encode subarray_def)
  moreover have "msg_data m = d"
    using assms by (simp add: m_def new_msg_def msg_data_def)
  ultimately show ?thesis by (simp add: isRequestError_def)
qed

theorem message_shows_headers_and_data_witness:
  "isRequestError (new_msg (newMsgArg\<lparr>hdr := int (length (hdr_encode (new_hdrs 503 ''x'')))\<rparr>)
     (hdr_encode (new_hdrs 503 ''x'') @ [])) = Inr (Some (error_for_code EC_NoResponders None))"
proof -
  have "hdrs_ok (new_hdrs 503 ''x'')" by (simp add: hdrs_ok_def new_hdrs_def)
  moreover have "status_ok (new_hdrs 503 ''x'')" by code_simp
  ultimately show ?thesis
    using message_shows_headers_and_data [of "new_hdrs 503 ''x''"
      "newMsgArg\<lparr>hdr := int (length (hdr_encode (new_hdrs 503 ''x'')))\<rparr>" "[]"]
    by (simp add: new_hdrs_def)
qed

end
