(* ===== verification/Requests.thy ===== *)
theory Requests
  imports Messages
begin

text \<open>
  Requests and the subscription they share, \<open>nats-base-client/muxsubscription.ts\<close> and
  \<open>nats-base-client/request.ts\<close>. Request objects have identity: they live in a store under
  their number, and the multiplexer maps tokens to numbers. A deferred settles once; what
  \<open>RequestMany\<close> passes to its callback is recorded in order, its \<open>done\<close> as the end call.
\<close>

section \<open>Requests\<close>

datatype settle = Pending | Resolved nats_msg | Rejected js_error

datatype many_call = Call_Err js_error | Call_Msg nats_msg | Call_End

datatype strategy = Timer | Count | JitterTimer | SentinelMsg

datatype request_kind = One | Many strategy

record request =
  rq_token :: string
  rq_requestSubject :: string
  rq_received :: nat
  rq_kind :: request_kind
  rq_timer :: "nat option"
  rq_deferred :: settle
  rq_calls :: "many_call list"
  rq_done :: bool
  rq_max :: int
  rq_jitter :: nat

definition new_request_one :: "string \<Rightarrow> string \<Rightarrow> nat \<Rightarrow> request" where
  "new_request_one tok subj ms =
     \<lparr>rq_token = tok, rq_requestSubject = subj, rq_received = 0, rq_kind = One, rq_timer = Some ms,
      rq_deferred = Pending, rq_calls = [], rq_done = False, rq_max = - 1, rq_jitter = 0\<rparr>"

text \<open>\<open>maxMessages\<close> and \<open>jitter\<close> are options; \<open>jitter || 300\<close>.\<close>

definition new_request_many ::
  "string \<Rightarrow> string \<Rightarrow> strategy \<Rightarrow> nat \<Rightarrow> int option \<Rightarrow> nat option \<Rightarrow> request" where
  "new_request_many tok subj strat maxWait maxMessages jit =
     \<lparr>rq_token = tok, rq_requestSubject = subj, rq_received = 0, rq_kind = Many strat,
      rq_timer = Some maxWait, rq_deferred = Pending, rq_calls = [], rq_done = False,
      rq_max = (case maxMessages of Some n \<Rightarrow> if n > 0 then n else - 1 | None \<Rightarrow> - 1),
      rq_jitter = (case jit of Some j \<Rightarrow> if j \<noteq> 0 then j else 300 | None \<Rightarrow> 300)\<rparr>"

definition settle_with :: "settle \<Rightarrow> request \<Rightarrow> request" where
  "settle_with s r = (if rq_deferred r = Pending then r\<lparr>rq_deferred := s\<rparr> else r)"

definition end_many :: "request \<Rightarrow> request" where
  "end_many r = (if rq_done r then r else r\<lparr>rq_done := True, rq_calls := rq_calls r @ [Call_End]\<rparr>)"

section \<open>The multiplexer\<close>

record requests =
  mu_baseInbox :: string
  mu_reqs :: "(string \<times> nat) list"
  mu_store :: "nat \<Rightarrow> request"

definition new_mux :: requests where
  "new_mux = \<lparr>mu_baseInbox = [], mu_reqs = [], mu_store = (\<lambda>_. new_request_one [] [] 0)\<rparr>"

definition createInbox :: "string \<Rightarrow> string \<Rightarrow> js_error + string" where
  "createInbox nuid prefix =
     (let p = (if prefix \<noteq> [] then prefix else ''_INBOX'')
      in if list_ex (\<lambda>v. v = ''*'' \<or> v = ''>'') (split_on CHR ''.'' p)
         then Inl (Plain_Error (''inbox prefixes cannot have wildcards '' @ quoted p))
         else Inr (p @ ''.'' @ nuid))"

definition mux_init :: "string \<Rightarrow> string \<Rightarrow> requests \<Rightarrow> js_error + requests" where
  "mux_init nuid prefix m = rbind (createInbox nuid prefix) (\<lambda>i. Inr (m\<lparr>mu_baseInbox := i @ ''.''\<rparr>))"

definition mux_size :: "requests \<Rightarrow> nat" where
  "mux_size m = length (mu_reqs m)"

definition mux_add :: "nat \<Rightarrow> requests \<Rightarrow> requests" where
  "mux_add i m =
     (let r = (mu_store m i)\<lparr>rq_received := 0\<rparr>
      in m\<lparr>mu_store := (mu_store m)(i := r), mu_reqs := AList.update (rq_token r) i (mu_reqs m)\<rparr>)"

definition mux_get :: "string \<Rightarrow> requests \<Rightarrow> nat option" where
  "mux_get tok m = map_of (mu_reqs m) tok"

definition mux_cancel :: "nat \<Rightarrow> requests \<Rightarrow> requests" where
  "mux_cancel i m = m\<lparr>mu_reqs := AList.delete (rq_token (mu_store m i)) (mu_reqs m)\<rparr>"

definition mux_all :: "requests \<Rightarrow> nat list" where
  "mux_all m = map snd (mu_reqs m)"

definition mux_getToken :: "string \<Rightarrow> requests \<Rightarrow> string option" where
  "mux_getToken s m =
     (if starts_with (mu_baseInbox m) s then Some (drop (length (mu_baseInbox m)) s) else None)"

text \<open>\<open>cancel\<close> of a request, by kind.\<close>

definition upd_request :: "nat \<Rightarrow> (request \<Rightarrow> request) \<Rightarrow> requests \<Rightarrow> requests" where
  "upd_request i f m = m\<lparr>mu_store := (mu_store m)(i := f (mu_store m i))\<rparr>"

definition request_cancel :: "nat \<Rightarrow> js_error option \<Rightarrow> requests \<Rightarrow> requests" where
  "request_cancel i err m =
     (case rq_kind (mu_store m i) of
        One \<Rightarrow>
          upd_request i (settle_with (Rejected (case err of Some e \<Rightarrow> e
              | None \<Rightarrow> error_for_code EC_Cancelled None)))
            (mux_cancel i (upd_request i (rq_timer_update (\<lambda>_. None)) m))
      | Many s \<Rightarrow>
          upd_request i end_many (mux_cancel i (upd_request i (rq_timer_update (\<lambda>_. None))
            (case err of Some e \<Rightarrow> upd_request i (\<lambda>r. r\<lparr>rq_calls := rq_calls r @ [Call_Err e]\<rparr>) m
             | None \<Rightarrow> m))))"

definition many_message :: "strategy \<Rightarrow> nat \<Rightarrow> nats_msg \<Rightarrow> requests \<Rightarrow> requests" where
  "many_message s i msg m =
     (let m1 = upd_request i (\<lambda>r. r\<lparr>rq_calls := rq_calls r @ [Call_Msg msg]\<rparr>) m
      in case s of
           Timer \<Rightarrow> m1
         | Count \<Rightarrow>
             (let m2 = upd_request i (\<lambda>r. r\<lparr>rq_max := rq_max r - 1\<rparr>) m1
              in if rq_max (mu_store m2 i) = 0 then request_cancel i None m2 else m2)
         | JitterTimer \<Rightarrow> upd_request i (\<lambda>r. r\<lparr>rq_timer := Some (rq_jitter r)\<rparr>) m1
         | SentinelMsg \<Rightarrow> if length (msg_data msg) = 0 then request_cancel i None m1 else m1)"

text \<open>\<open>resolver\<close>; the message is absent where the code passes an empty object.\<close>

definition request_resolver :: "nat \<Rightarrow> js_error option \<Rightarrow> nats_msg option \<Rightarrow> requests \<Rightarrow> requests" where
  "request_resolver i err msg m =
     (case rq_kind (mu_store m i) of
        One \<Rightarrow>
          (let m1 = upd_request i (rq_timer_update (\<lambda>_. None)) m;
               m2 = (case err of
                       Some e \<Rightarrow> upd_request i (settle_with (Rejected e)) m1
                     | None \<Rightarrow> (case msg of Some x \<Rightarrow> upd_request i (settle_with (Resolved x)) m1 | None \<Rightarrow> m1))
           in request_cancel i None m2)
      | Many s \<Rightarrow>
          (case err of
             Some e \<Rightarrow> request_cancel i (Some e) m
           | None \<Rightarrow> (case msg of Some x \<Rightarrow> many_message s i x m | None \<Rightarrow> m)))"

text \<open>The timer of a request: a \<open>RequestMany\<close> ends; for a \<open>RequestOne\<close> the caller of
  \<open>request\<close> cancels it with the timeout error.\<close>

definition request_timeout :: "nat \<Rightarrow> requests \<Rightarrow> requests" where
  "request_timeout i m =
     (case rq_kind (mu_store m i) of
        One \<Rightarrow> request_cancel i (Some (error_for_code EC_Timeout None)) m
      | Many s \<Rightarrow> request_cancel i None m)"

definition mux_dispatch :: "js_error option \<Rightarrow> nats_msg \<Rightarrow> requests \<Rightarrow> js_error + requests" where
  "mux_dispatch err msg m =
     (case mux_getToken (msg_subject msg) m of
        None \<Rightarrow> Inr m
      | Some tok \<Rightarrow>
          if tok = [] then Inr m
          else (case mux_get tok m of
                  None \<Rightarrow> Inr m
                | Some i \<Rightarrow>
                    if err = None
                    then rbind (msg_headers msg) (\<lambda>h.
                           rbind (if h \<noteq> None then isRequestError msg else Inr None) (\<lambda>e.
                             Inr (request_resolver i e (Some msg) m)))
                    else Inr (request_resolver i err (Some msg) m)))"

definition mux_handleError :: "bool \<Rightarrow> js_error \<Rightarrow> requests \<Rightarrow> requests \<times> bool" where
  "mux_handleError isMux err m =
     (if is_nats_error err
      then case err_permission err of
             None \<Rightarrow> (m, False)
           | Some ctx \<Rightarrow>
               if isMux then (fold (\<lambda>i. request_resolver i (Some err) None) (mux_all m) m, True)
               else if perm_operation ctx = ''publish''
               then (case List.find (\<lambda>i. rq_requestSubject (mu_store m i) = perm_subject ctx) (mux_all m) of
                       Some i \<Rightarrow> (request_resolver i (Some err) None m, True)
                     | None \<Rightarrow> (m, False))
               else (m, False)
      else (m, False))"

definition mux_close :: "requests \<Rightarrow> requests" where
  "mux_close m =
     fold (\<lambda>i. request_resolver i (Some (error_for_code EC_Timeout None)) None) (mux_all m) m"

section \<open>Registered requests are open\<close>

definition request_open :: "request \<Rightarrow> bool" where
  "request_open r \<longleftrightarrow> (case rq_kind r of One \<Rightarrow> rq_deferred r = Pending | Many s \<Rightarrow> \<not> rq_done r)"

definition mux_ok :: "requests \<Rightarrow> bool" where
  "mux_ok m \<longleftrightarrow> distinct (map fst (mu_reqs m)) \<and> distinct (map snd (mu_reqs m))
     \<and> (\<forall>(t, i) \<in> set (mu_reqs m). rq_token (mu_store m i) = t \<and> request_open (mu_store m i))"

lemma upd_request_simps [simp]:
  "mu_reqs (upd_request i f m) = mu_reqs m" "mu_baseInbox (upd_request i f m) = mu_baseInbox m"
  "mu_store (upd_request i f m) j = (if j = i then f (mu_store m i) else mu_store m j)"
  by (simp_all add: upd_request_def)

lemma mux_cancel_simps [simp]:
  "mu_store (mux_cancel i m) = mu_store m" "mu_baseInbox (mux_cancel i m) = mu_baseInbox m"
  "mu_reqs (mux_cancel i m) = AList.delete (rq_token (mu_store m i)) (mu_reqs m)"
  by (simp_all add: mux_cancel_def)

lemma settle_with_simps [simp]:
  "rq_token (settle_with s r) = rq_token r" "rq_kind (settle_with s r) = rq_kind r"
  "rq_requestSubject (settle_with s r) = rq_requestSubject r"
  "rq_deferred (settle_with s r) = (if rq_deferred r = Pending then s else rq_deferred r)"
  by (simp_all add: settle_with_def)

lemma end_many_simps [simp]:
  "rq_token (end_many r) = rq_token r" "rq_kind (end_many r) = rq_kind r" "rq_done (end_many r)"
  "rq_calls (end_many r) = (if rq_done r then rq_calls r else rq_calls r @ [Call_End])"
  by (simp_all add: end_many_def)

text \<open>A cancelled request is settled and no longer registered; nothing else changes.\<close>

lemma request_cancel_simps:
  "mu_baseInbox (request_cancel i e m) = mu_baseInbox m"
  "mu_reqs (request_cancel i e m) = AList.delete (rq_token (mu_store m i)) (mu_reqs m)"
  "j \<noteq> i \<Longrightarrow> mu_store (request_cancel i e m) j = mu_store m j"
  "rq_token (mu_store (request_cancel i e m) i) = rq_token (mu_store m i)"
  by (auto simp: request_cancel_def split: request_kind.splits option.splits)

lemma request_cancel_one:
  "rq_kind (mu_store m i) = One \<Longrightarrow>
    rq_deferred (mu_store (request_cancel i e m) i) =
      (if rq_deferred (mu_store m i) = Pending
       then Rejected (case e of Some x \<Rightarrow> x | None \<Rightarrow> error_for_code EC_Cancelled None)
       else rq_deferred (mu_store m i))"
  by (simp add: request_cancel_def)

lemma request_cancel_many:
  "rq_kind (mu_store m i) = Many s \<Longrightarrow> \<not> rq_done (mu_store m i) \<Longrightarrow>
    rq_done (mu_store (request_cancel i e m) i)
    \<and> rq_calls (mu_store (request_cancel i e m) i) =
        rq_calls (mu_store m i) @ (case e of Some x \<Rightarrow> [Call_Err x] | None \<Rightarrow> []) @ [Call_End]"
  by (simp add: request_cancel_def split: option.splits)

lemma mux_ok_delete:
  assumes "mux_ok m" "mu_reqs m' = AList.delete t (mu_reqs m)"
    "\<And>i. (t, i) \<notin> set (mu_reqs m) \<Longrightarrow> i \<in> snd ` set (mu_reqs m) \<Longrightarrow> mu_store m' i = mu_store m i"
  shows "mux_ok m'"
proof -
  have "distinct (map fst (mu_reqs m'))" "distinct (map snd (mu_reqs m'))"
    using assms(1) by (simp_all add: mux_ok_def assms(2) AList.delete_eq distinct_map_filter)
  moreover have "rq_token (mu_store m' i) = u \<and> request_open (mu_store m' i)"
    if "(u, i) \<in> set (mu_reqs m')" for u i
  proof -
    have ui: "(u, i) \<in> set (mu_reqs m)" "u \<noteq> t"
      using that by (auto simp: assms(2) AList.delete_eq)
    then have "(t, i) \<notin> set (mu_reqs m)"
      using assms(1) inj_onD [of snd "set (mu_reqs m)" "(u, i)" "(t, i)"]
      by (auto simp: mux_ok_def distinct_map)
    then have "mu_store m' i = mu_store m i"
      using assms(3) ui(1) by force
    then show ?thesis using assms(1) ui(1) by (auto simp: mux_ok_def)
  qed
  ultimately show ?thesis by (auto simp: mux_ok_def)
qed

lemma mux_ok_cancel:
  assumes "mux_ok m" "(t, i) \<in> set (mu_reqs m)"
  shows "mux_ok (request_cancel i e m)"
proof (rule mux_ok_delete [OF assms(1)])
  have "rq_token (mu_store m i) = t" using assms by (auto simp: mux_ok_def)
  then show "mu_reqs (request_cancel i e m) = AList.delete t (mu_reqs m)"
    by (simp add: request_cancel_simps)
next
  fix j assume "(t, j) \<notin> set (mu_reqs m)"
  then have "j \<noteq> i" using assms(2) by auto
  then show "mu_store (request_cancel i e m) j = mu_store m j" by (rule request_cancel_simps)
qed

lemma map_of_delete_self: "map_of (AList.delete k al) k = None"
  by (simp add: delete_conv')

lemma map_of_delete_other: "j \<noteq> k \<Longrightarrow> map_of (AList.delete k al) j = map_of al j"
  by (simp add: delete_conv')

text \<open>Resolving a single request settles it with the outcome and unregisters it.\<close>

lemma resolve_one:
  assumes "mux_ok m" "map_of (mu_reqs m) t = Some i" "rq_kind (mu_store m i) = One"
    "err \<noteq> None \<or> msg \<noteq> None"
  shows "rq_deferred (mu_store (request_resolver i err msg m) i) =
      (case err of Some e \<Rightarrow> Rejected e | None \<Rightarrow> Resolved (the msg))
    \<and> mu_reqs (request_resolver i err msg m) = AList.delete t (mu_reqs m)
    \<and> mu_baseInbox (request_resolver i err msg m) = mu_baseInbox m
    \<and> (\<forall>j. j \<noteq> i \<longrightarrow> mu_store (request_resolver i err msg m) j = mu_store m j)"
proof -
  have "(t, i) \<in> set (mu_reqs m)" using assms(2) by (rule map_of_SomeD)
  then have ti: "rq_token (mu_store m i) = t" "rq_deferred (mu_store m i) = Pending"
    using assms(1,3) by (auto simp: mux_ok_def request_open_def)
  then show ?thesis
    using assms(3,4)
    by (auto simp: request_resolver_def Let_def request_cancel_simps request_cancel_one
        split: option.splits)
qed

text \<open>
  C26: A reply goes to the request whose token its subject carries: that request is settled
  once, with the reply or with the no-responders error, and is unregistered; every other
  request is left as it was.
\<close>
theorem dispatch_routes_replies:
  assumes "mux_ok m" "msg_subject msg = mu_baseInbox m @ t" "t \<noteq> []"
    "mux_get t m = Some i" "rq_kind (mu_store m i) = One"
    "msg_headers msg = Inr h" "isRequestError msg = Inr e" "h = None \<longrightarrow> e = None"
  shows "\<exists>m'. mux_dispatch None msg m = Inr m'
    \<and> rq_deferred (mu_store m' i) = (case e of Some x \<Rightarrow> Rejected x | None \<Rightarrow> Resolved msg)
    \<and> mux_get t m' = None
    \<and> (\<forall>u. u \<noteq> t \<longrightarrow> mux_get u m' = mux_get u m)
    \<and> (\<forall>j. j \<noteq> i \<longrightarrow> mu_store m' j = mu_store m j) \<and> mux_ok m'"
proof -
  let ?m = "request_resolver i e (Some msg) m"
  have get: "map_of (mu_reqs m) t = Some i" using assms(4) by (simp add: mux_get_def)
  have r: "rq_deferred (mu_store ?m i) = (case e of Some x \<Rightarrow> Rejected x | None \<Rightarrow> Resolved msg)"
      "mu_reqs ?m = AList.delete t (mu_reqs m)"
      "\<forall>j. j \<noteq> i \<longrightarrow> mu_store ?m j = mu_store m j"
    using resolve_one [OF assms(1) get assms(5), of e "Some msg"] by (auto split: option.splits)
  have ti: "(t, i) \<in> set (mu_reqs m)" using get by (rule map_of_SomeD)
  have "mux_ok ?m"
    using r(3) ti by (intro mux_ok_delete [OF assms(1) r(2)]) auto
  moreover have "mux_dispatch None msg m = Inr ?m"
    using assms by (auto simp: mux_dispatch_def mux_getToken_def mux_get_def)
  ultimately show ?thesis
    using r by (auto simp: mux_get_def map_of_delete_self map_of_delete_other)
qed

theorem dispatch_routes_replies_witness:
  "\<exists>m'. mux_dispatch None (new_msg (newMsgArg\<lparr>subject := te_encode ''_INBOX.A.B''\<rparr>) [1])
      \<lparr>mu_baseInbox = ''_INBOX.A.'', mu_reqs = [(''B'', 0)],
       mu_store = (\<lambda>_. new_request_one ''B'' ''q'' 100)\<rparr> = Inr m'
    \<and> rq_deferred (mu_store m' 0) =
        Resolved (new_msg (newMsgArg\<lparr>subject := te_encode ''_INBOX.A.B''\<rparr>) [1])"
proof -
  let ?m = "\<lparr>mu_baseInbox = ''_INBOX.A.'', mu_reqs = [(''B'', 0)],
       mu_store = (\<lambda>_. new_request_one ''B'' ''q'' 100)\<rparr>"
  let ?g = "new_msg (newMsgArg\<lparr>subject := te_encode ''_INBOX.A.B''\<rparr>) [1]"
  have "mux_ok ?m" by (simp add: mux_ok_def request_open_def new_request_one_def)
  moreover have "msg_headers ?g = Inr None" "isRequestError ?g = Inr None"
    by (simp_all add: msg_headers_def new_msg_def newMsgArg_def isRequestError_def msg_data_def)
  moreover have "msg_subject ?g = mu_baseInbox ?m @ ''B''"
    by (simp add: msg_subject_def new_msg_def del: te_encode_Cons)
  ultimately show ?thesis
    using dispatch_routes_replies [of ?m ?g "''B''" 0 None None]
    by (auto simp: mux_get_def new_request_one_def)
qed

section \<open>Requests for many replies\<close>

text \<open>The messages a request for many takes from those addressed to it, by its strategy.\<close>

fun taken :: "strategy \<Rightarrow> nat \<Rightarrow> nats_msg list \<Rightarrow> nats_msg list" where
  "taken Count n ms = take n ms"
| "taken SentinelMsg n ms =
     takeWhile (\<lambda>m. msg_data m \<noteq> []) ms @ take 1 (dropWhile (\<lambda>m. msg_data m \<noteq> []) ms)"
| "taken s n ms = ms"

fun complete :: "strategy \<Rightarrow> nat \<Rightarrow> nats_msg list \<Rightarrow> bool" where
  "complete Count n ms = (n \<le> length ms)"
| "complete SentinelMsg n ms = list_ex (\<lambda>m. msg_data m = []) ms"
| "complete s n ms = False"

fun mux_dispatches :: "nats_msg list \<Rightarrow> requests \<Rightarrow> js_error + requests" where
  "mux_dispatches [] m = Inr m"
| "mux_dispatches (x # xs) m = rbind (mux_dispatch None x m) (mux_dispatches xs)"

definition plain_reply :: "string \<Rightarrow> string \<Rightarrow> nats_msg \<Rightarrow> bool" where
  "plain_reply inbox t msg \<longleftrightarrow> msg_subject msg = inbox @ t \<and> hdr (nm_msg msg) \<le> - 1"

lemma dispatch_plain:
  assumes "plain_reply (mu_baseInbox m) t msg" "t \<noteq> []"
  shows "mux_dispatch None msg m =
    Inr (case mux_get t m of None \<Rightarrow> m | Some i \<Rightarrow> request_resolver i None (Some msg) m)"
  using assms by (simp add: plain_reply_def mux_dispatch_def mux_getToken_def msg_headers_def
      split: option.splits)

lemma dispatches_unregistered:
  assumes "\<forall>x \<in> set ms. plain_reply (mu_baseInbox m) t x" "t \<noteq> []" "mux_get t m = None"
  shows "mux_dispatches ms m = Inr m"
  using assms by (induction ms) (simp_all add: dispatch_plain [where t = t])

lemma many_message_continues:
  assumes "rq_kind (mu_store m i) = Many s"
    "s = Count \<longrightarrow> 1 < rq_max (mu_store m i)" "s = SentinelMsg \<longrightarrow> msg_data msg \<noteq> []"
  shows "mu_reqs (many_message s i msg m) = mu_reqs m"
    "mu_baseInbox (many_message s i msg m) = mu_baseInbox m"
    "rq_calls (mu_store (many_message s i msg m) i) = rq_calls (mu_store m i) @ [Call_Msg msg]"
    "rq_kind (mu_store (many_message s i msg m) i) = Many s"
    "rq_done (mu_store (many_message s i msg m) i) = rq_done (mu_store m i)"
    "rq_max (mu_store (many_message s i msg m) i) = (if s = Count then rq_max (mu_store m i) - 1 else rq_max (mu_store m i))"
  using assms by (cases s; simp add: many_message_def Let_def)+

lemma many_message_ends:
  assumes "rq_kind (mu_store m i) = Many s" "\<not> rq_done (mu_store m i)" "rq_token (mu_store m i) = t"
    "s = Count \<and> rq_max (mu_store m i) = 1 \<or> s = SentinelMsg \<and> msg_data msg = []"
  shows "mux_get t (many_message s i msg m) = None"
    "mu_baseInbox (many_message s i msg m) = mu_baseInbox m"
    "rq_calls (mu_store (many_message s i msg m) i) = rq_calls (mu_store m i) @ [Call_Msg msg, Call_End]"
proof -
  define m1 where "m1 = upd_request i (\<lambda>r. r\<lparr>rq_calls := rq_calls r @ [Call_Msg msg]\<rparr>) m"
  define m2 where "m2 = (if s = Count then upd_request i (\<lambda>r. r\<lparr>rq_max := rq_max r - 1\<rparr>) m1 else m1)"
  have eq: "many_message s i msg m = request_cancel i None m2"
    using assms(4) by (auto simp: many_message_def Let_def m1_def m2_def)
  have m2: "rq_kind (mu_store m2 i) = Many s" "\<not> rq_done (mu_store m2 i)" "rq_token (mu_store m2 i) = t"
      "rq_calls (mu_store m2 i) = rq_calls (mu_store m i) @ [Call_Msg msg]"
      "mu_baseInbox m2 = mu_baseInbox m"
    using assms(1-3) by (simp_all add: m2_def m1_def)
  show "mux_get t (many_message s i msg m) = None"
    by (simp add: eq mux_get_def request_cancel_simps m2 map_of_delete_self)
  show "mu_baseInbox (many_message s i msg m) = mu_baseInbox m"
    by (simp add: eq request_cancel_simps m2)
  show "rq_calls (mu_store (many_message s i msg m) i) = rq_calls (mu_store m i) @ [Call_Msg msg, Call_End]"
    using request_cancel_many [OF m2(1,2), of None] by (simp add: eq m2(4))
qed

lemma many_run:
  assumes "\<forall>x \<in> set ms. plain_reply (mu_baseInbox m) t x" "t \<noteq> []" "mux_get t m = Some i"
    "rq_kind (mu_store m i) = Many s" "\<not> rq_done (mu_store m i)" "rq_token (mu_store m i) = t"
    "s = Count \<longrightarrow> rq_max (mu_store m i) = int n \<and> 0 < n"
  shows "\<exists>m'. mux_dispatches ms m = Inr m'
    \<and> rq_calls (mu_store m' i) = rq_calls (mu_store m i) @ map Call_Msg (taken s n ms)
        @ (if complete s n ms then [Call_End] else [])
    \<and> (mux_get t m' = None \<longleftrightarrow> complete s n ms)"
  using assms
proof (induction ms arbitrary: m n)
  case Nil
  then show ?case by (cases s) auto
next
  case (Cons x ms)
  let ?m = "many_message s i x m"
  have step: "mux_dispatches (x # ms) m = mux_dispatches ms ?m"
    using Cons.prems by (simp add: dispatch_plain [where t = t] request_resolver_def)
  show ?case
  proof (cases "s = Count \<and> n = 1 \<or> s = SentinelMsg \<and> msg_data x = []")
    case True
    then have c: "s = Count \<and> rq_max (mu_store m i) = 1 \<or> s = SentinelMsg \<and> msg_data x = []"
      using Cons.prems(7) by auto
    note e = many_message_ends [OF Cons.prems(4-6) c]
    have "mux_dispatches ms ?m = Inr ?m"
      using Cons.prems(1,2) e by (intro dispatches_unregistered) auto
    then show ?thesis using True step e by auto
  next
    case False
    have c: "s = Count \<longrightarrow> 1 < rq_max (mu_store m i)" "s = SentinelMsg \<longrightarrow> msg_data x \<noteq> []"
      using False Cons.prems(7) by auto
    note e = many_message_continues [OF Cons.prems(4) c]
    have tk: "rq_token (mu_store ?m i) = t"
      using Cons.prems(4,6) c by (cases s) (simp_all add: many_message_def Let_def)
    define k where "k = (if s = Count then n - 1 else n)"
    have "\<exists>m'. mux_dispatches ms ?m = Inr m'
        \<and> rq_calls (mu_store m' i) = rq_calls (mu_store ?m i) @ map Call_Msg (taken s k ms)
            @ (if complete s k ms then [Call_End] else [])
        \<and> (mux_get t m' = None \<longleftrightarrow> complete s k ms)"
    proof (rule Cons.IH)
      show "\<forall>x \<in> set ms. plain_reply (mu_baseInbox ?m) t x" using Cons.prems(1) e(2) by simp
      show "mux_get t ?m = Some i" using Cons.prems(3) e(1) by (simp add: mux_get_def)
      show "\<not> rq_done (mu_store ?m i)" using Cons.prems(5) e(5) by simp
      show "s = Count \<longrightarrow> rq_max (mu_store ?m i) = int k \<and> 0 < k"
        using Cons.prems(7) e(6) False by (auto simp: k_def)
    qed (use Cons.prems(2) e(4) tk in simp_all)
    moreover have "taken s n (x # ms) = x # taken s k ms" "complete s n (x # ms) = complete s k ms"
      using False Cons.prems(7) by (cases s; auto simp: k_def take_Cons' Suc_le_eq)+
    ultimately show ?thesis using step e(3) by auto
  qed
qed



end
