(* ===== verification/Heartbeats.thy ===== *)
theory Heartbeats
  imports Nats_Prelude
begin

text \<open>
  The two monitors of a connection: \<open>Heartbeat\<close> (\<open>nats-base-client/heartbeats.ts\<close>), which
  pings the server and reports a stale connection, and \<open>IdleHeartbeatMonitor\<close>
  (\<open>nats-base-client/idleheartbeat_monitor.ts\<close>), which counts missed heartbeats of a consumer.
  Timers are flags that say whether they are armed; their firing is an event. What a monitor
  calls on its owner is recorded in order.
\<close>

section \<open>Pings\<close>

datatype hb_call = Hb_Status nat | Hb_Flush nat | Hb_Disconnect

record heartbeat =
  hb_interval :: nat
  hb_maxOut :: nat
  hb_timer :: bool
  hb_pendings :: "nat list"
  hb_fresh :: nat
  hb_calls :: "hb_call list"

definition new_heartbeat :: "nat \<Rightarrow> nat \<Rightarrow> heartbeat" where
  "new_heartbeat interval maxOut = \<lparr>hb_interval = interval, hb_maxOut = maxOut, hb_timer = False,
     hb_pendings = [], hb_fresh = 0, hb_calls = []\<rparr>"

definition hb_reset :: "heartbeat \<Rightarrow> heartbeat" where
  "hb_reset h = h\<lparr>hb_pendings := []\<rparr>"

definition hb_cancel :: "bool \<Rightarrow> heartbeat \<Rightarrow> heartbeat" where
  "hb_cancel stale h =
     (let h1 = hb_reset (if hb_timer h then h\<lparr>hb_timer := False\<rparr> else h)
      in if stale then h1\<lparr>hb_calls := hb_calls h1 @ [Hb_Disconnect]\<rparr> else h1)"

definition hb_schedule :: "heartbeat \<Rightarrow> heartbeat" where
  "hb_schedule h = h\<lparr>hb_timer := True\<rparr>"

definition hb_start :: "heartbeat \<Rightarrow> heartbeat" where
  "hb_start h = hb_schedule (hb_cancel False h)"

text \<open>The timer fires.\<close>

definition hb_tick :: "heartbeat \<Rightarrow> heartbeat" where
  "hb_tick h =
     (if \<not> hb_timer h then h
      else let h1 = h\<lparr>hb_calls := hb_calls h @ [Hb_Status (length (hb_pendings h) + 1)]\<rparr>
           in if length (hb_pendings h1) = hb_maxOut h1 then hb_cancel True h1
              else hb_schedule (h1\<lparr>hb_calls := hb_calls h1 @ [Hb_Flush (hb_fresh h1)],
                     hb_pendings := hb_pendings h1 @ [hb_fresh h1], hb_fresh := hb_fresh h1 + 1\<rparr>))"

text \<open>The flush of a ping settles: resolved by a pong, or rejected by a disconnect.\<close>

definition hb_pong :: "heartbeat \<Rightarrow> heartbeat" where
  "hb_pong h = hb_reset h"

definition hb_rejected :: "heartbeat \<Rightarrow> heartbeat" where
  "hb_rejected h = hb_cancel False h"

datatype hb_event = Tick | Pong

fun hb_run :: "hb_event list \<Rightarrow> heartbeat \<Rightarrow> heartbeat" where
  "hb_run [] h = h"
| "hb_run (Tick # es) h = hb_run es (hb_tick h)"
| "hb_run (Pong # es) h = hb_run es (hb_pong h)"

text \<open>\<open>silent n k es\<close>: with \<open>k\<close> ticks since the last pong, some tick is the \<open>n + 1\<close>-st in a
  row without one.\<close>

fun silent :: "nat \<Rightarrow> nat \<Rightarrow> hb_event list \<Rightarrow> bool" where
  "silent n k [] = False"
| "silent n k (Tick # es) = (k = n \<or> silent n (k + 1) es)"
| "silent n k (Pong # es) = silent n 0 es"

lemma hb_run_dead:
  "\<not> hb_timer h \<Longrightarrow> hb_calls (hb_run es h) = hb_calls h \<and> \<not> hb_timer (hb_run es h)"
  by (induction es h rule: hb_run.induct) (simp_all add: hb_tick_def hb_pong_def hb_reset_def)

lemma hb_run_silent:
  assumes "hb_timer h" "length (hb_pendings h) \<le> hb_maxOut h" "Hb_Disconnect \<notin> set (hb_calls h)"
  shows "(Hb_Disconnect \<in> set (hb_calls (hb_run es h)) \<longleftrightarrow> silent (hb_maxOut h) (length (hb_pendings h)) es)
    \<and> (hb_timer (hb_run es h) \<longleftrightarrow> \<not> silent (hb_maxOut h) (length (hb_pendings h)) es)"
  using assms
proof (induction es h rule: hb_run.induct)
  case (2 es h)
  show ?case
  proof (cases "length (hb_pendings h) = hb_maxOut h")
    case True
    then have "hb_tick h = hb_cancel True (h\<lparr>hb_calls := hb_calls h @ [Hb_Status (length (hb_pendings h) + 1)]\<rparr>)"
      using 2(2) by (simp add: hb_tick_def Let_def)
    then have "\<not> hb_timer (hb_tick h)" "Hb_Disconnect \<in> set (hb_calls (hb_tick h))"
      by (simp_all add: hb_cancel_def hb_reset_def)
    then show ?thesis using hb_run_dead [of "hb_tick h" es] True by simp
  next
    case False
    then have "hb_timer (hb_tick h)" "length (hb_pendings (hb_tick h)) = length (hb_pendings h) + 1"
        "hb_maxOut (hb_tick h) = hb_maxOut h" "Hb_Disconnect \<notin> set (hb_calls (hb_tick h))"
      using 2(2,4) by (simp_all add: hb_tick_def hb_schedule_def Let_def)
    then show ?thesis using 2(1,3) False by simp
  qed
next
  case (3 es h)
  then show ?case by (simp add: hb_pong_def hb_reset_def)
qed simp

text \<open>
  A started heartbeat declares the connection stale exactly when \<open>maxOut + 1\<close> intervals
  pass in a row without a pong; until then it keeps its timer, and after it has disconnected
  it is off.
\<close>
theorem heartbeat_detects_stale:
  assumes "Hb_Disconnect \<notin> set (hb_calls h)"
  shows "(Hb_Disconnect \<in> set (hb_calls (hb_run es (hb_start h))) \<longleftrightarrow> silent (hb_maxOut h) 0 es)
    \<and> (hb_timer (hb_run es (hb_start h)) \<longleftrightarrow> \<not> silent (hb_maxOut h) 0 es)"
proof -
  have "hb_timer (hb_start h)" "hb_pendings (hb_start h) = []" "hb_maxOut (hb_start h) = hb_maxOut h"
      "hb_calls (hb_start h) = hb_calls h"
    by (simp_all add: hb_start_def hb_schedule_def hb_cancel_def hb_reset_def)
  then show ?thesis using hb_run_silent [of "hb_start h" es] assms by simp
qed

theorem heartbeat_detects_stale_witness:
  "Hb_Disconnect \<in> set (hb_calls (hb_run [Tick, Pong, Tick, Tick, Tick] (hb_start (new_heartbeat 100 2))))"
  using heartbeat_detects_stale [of "new_heartbeat 100 2" "[Tick, Pong, Tick, Tick, Tick]"]
  by (simp add: new_heartbeat_def)

section \<open>Idle heartbeats\<close>

record idle_monitor =
  im_interval :: nat
  im_maxOut :: nat
  im_cancelAfter :: nat
  im_timer :: bool
  im_autoCancel :: bool
  im_last :: nat
  im_missed :: nat
  im_count :: nat

definition im_schedule :: "idle_monitor \<Rightarrow> idle_monitor" where
  "im_schedule m = (if im_cancelAfter m > 0 then m\<lparr>im_autoCancel := True\<rparr> else m)\<lparr>im_timer := True\<rparr>"

text \<open>The constructor; \<open>maxOut || 2\<close> and \<open>cancelAfter || 0\<close>.\<close>

definition new_idle_monitor :: "nat \<Rightarrow> nat \<Rightarrow> nat option \<Rightarrow> nat option \<Rightarrow> idle_monitor" where
  "new_idle_monitor now interval maxOut cancelAfter =
     im_schedule \<lparr>im_interval = interval,
       im_maxOut = (case maxOut of Some n \<Rightarrow> if n \<noteq> 0 then n else 2 | None \<Rightarrow> 2),
       im_cancelAfter = (case cancelAfter of Some n \<Rightarrow> n | None \<Rightarrow> 0),
       im_timer = False, im_autoCancel = False, im_last = now, im_missed = 0, im_count = 0\<rparr>"

definition im_cancel :: "idle_monitor \<Rightarrow> idle_monitor" where
  "im_cancel m = m\<lparr>im_timer := False, im_autoCancel := False, im_missed := 0\<rparr>"

definition im_work :: "nat \<Rightarrow> idle_monitor \<Rightarrow> idle_monitor" where
  "im_work now m = m\<lparr>im_last := now, im_missed := 0\<rparr>"

definition im_restart :: "idle_monitor \<Rightarrow> idle_monitor" where
  "im_restart m = im_schedule (im_cancel m)"

definition im_change :: "nat \<Rightarrow> nat \<Rightarrow> nat \<Rightarrow> idle_monitor \<Rightarrow> idle_monitor" where
  "im_change interval cancelAfter maxOut m =
     im_restart (m\<lparr>im_interval := interval, im_maxOut := maxOut, im_cancelAfter := cancelAfter\<rparr>)"

text \<open>The interval timer fires at \<open>now\<close>; \<open>cb\<close> is the callback, whose \<open>True\<close> cancels. The
  second component is the number it was called with, if it was.\<close>

definition im_tick :: "(nat \<Rightarrow> bool) \<Rightarrow> nat \<Rightarrow> idle_monitor \<Rightarrow> idle_monitor \<times> nat option" where
  "im_tick cb now m =
     (if \<not> im_timer m then (m, None)
      else let m1 = m\<lparr>im_count := im_count m + 1\<rparr>;
               m2 = (if now - im_last m1 > im_interval m1 then m1\<lparr>im_missed := im_missed m1 + 1\<rparr> else m1)
           in if im_missed m2 \<ge> im_maxOut m2
              then (if cb (im_missed m2) then im_cancel m2 else m2, Some (im_missed m2))
              else (m2, None))"

definition im_auto_cancel :: "idle_monitor \<Rightarrow> idle_monitor" where
  "im_auto_cancel m = (if im_autoCancel m then im_cancel m else m)"

datatype im_event = Im_Tick nat | Im_Work nat

fun im_run :: "(nat \<Rightarrow> bool) \<Rightarrow> im_event list \<Rightarrow> idle_monitor \<Rightarrow> idle_monitor \<times> nat option list" where
  "im_run cb [] m = (m, [])"
| "im_run cb (Im_Tick now # es) m =
     (let (m1, r) = im_tick cb now m; (m2, rs) = im_run cb es m1 in (m2, r # rs))"
| "im_run cb (Im_Work now # es) m = im_run cb es (im_work now m)"

text \<open>The specification: the late ticks since the last work, and the report of each tick.\<close>

fun im_reports :: "nat \<Rightarrow> nat \<Rightarrow> nat \<Rightarrow> nat \<Rightarrow> im_event list \<Rightarrow> nat option list" where
  "im_reports interval mx since k [] = []"
| "im_reports interval mx since k (Im_Tick now # es) =
     (let k' = (if now - since > interval then k + 1 else k)
      in (if k' \<ge> mx then Some k' else None) # im_reports interval mx since k' es)"
| "im_reports interval mx since k (Im_Work now # es) = im_reports interval mx now 0 es"

text \<open>
  While its callback does not cancel it, the monitor reports at a tick exactly when at
  least \<open>maxOut\<close> late ticks have passed since the last work, with their number: work resets
  the count, and a tick that comes in time does not add to it.
\<close>
theorem idle_monitor_reports:
  assumes "im_timer m" "\<forall>n. \<not> cb n"
  shows "snd (im_run cb es m) = im_reports (im_interval m) (im_maxOut m) (im_last m) (im_missed m) es"
  using assms
proof (induction cb es m rule: im_run.induct)
  case (2 cb now es m)
  have t: "im_timer (fst (im_tick cb now m))" "im_interval (fst (im_tick cb now m)) = im_interval m"
      "im_maxOut (fst (im_tick cb now m)) = im_maxOut m" "im_last (fst (im_tick cb now m)) = im_last m"
      "im_missed (fst (im_tick cb now m)) = (if now - im_last m > im_interval m then im_missed m + 1 else im_missed m)"
      "snd (im_tick cb now m) = (let k = (if now - im_last m > im_interval m then im_missed m + 1 else im_missed m)
         in if k \<ge> im_maxOut m then Some k else None)"
    using 2(2,3) by (simp_all add: im_tick_def Let_def)
  have "snd (im_run cb es (fst (im_tick cb now m))) =
      im_reports (im_interval m) (im_maxOut m) (im_last m)
        (if now - im_last m > im_interval m then im_missed m + 1 else im_missed m) es"
    using 2(1) [OF refl prod.collapse t(1) 2(3)] unfolding t(2-5) .
  then show ?case using t(6) by (simp add: case_prod_beta Let_def)
next
  case (3 cb now es m)
  then show ?case by (simp add: im_work_def)
qed simp

theorem idle_monitor_reports_witness:
  "snd (im_run (\<lambda>n. False) [Im_Tick 150, Im_Work 160, Im_Tick 270, Im_Tick 380]
     (new_idle_monitor 0 100 None None)) = [None, None, Some 2]"
  using idle_monitor_reports [of "new_idle_monitor 0 100 None None" "\<lambda>n. False"
      "[Im_Tick 150, Im_Work 160, Im_Tick 270, Im_Tick 380]"]
  by (simp add: new_idle_monitor_def im_schedule_def)

end
