(* ===== verification/Subscriptions.thy ===== *)
theory Subscriptions
  imports Messages Queued_Iterator
begin

text \<open>
  Subscriptions and their table, \<open>SubscriptionImpl\<close> and \<open>Subscriptions\<close> of
  \<open>nats-base-client/protocol.ts\<close>. Subscription objects have identity: they live in a store
  under their number, and the table maps the identifiers used on the wire to numbers.
\<close>

section \<open>Subscription objects\<close>

text \<open>What \<open>callback\<close> is: the method of the class, the function given in the options, or the
  dispatcher of the multiplexer.\<close>

datatype sub_callback = Cb_Default | Cb_User | Cb_Mux

record subscription =
  sb_sid :: nat
  sb_queue :: "string option"
  sb_draining :: bool
  sb_max :: "nat option"
  sb_subject :: string
  sb_requestSubject :: "string option"
  sb_callback :: sub_callback
  sb_timer :: bool
  sb_closed :: bool
  sb_drained :: bool
  sb_iter :: "nats_msg qiter"
  sb_calls :: "(js_error option \<times> nats_msg option) list"

record sub_opts =
  so_queue :: "string option"
  so_max :: "nat option"
  so_timeout :: "nat option"
  so_callback :: bool

definition new_subscription :: "string \<Rightarrow> sub_opts \<Rightarrow> subscription" where
  "new_subscription subj opts =
     \<lparr>sb_sid = 0, sb_queue = so_queue opts, sb_draining = False, sb_max = so_max opts,
      sb_subject = subj, sb_requestSubject = None,
      sb_callback = (if so_callback opts then Cb_User else Cb_Default),
      sb_timer = (so_timeout opts \<noteq> None \<and> so_timeout opts \<noteq> Some 0), sb_closed = False,
      sb_drained = False,
      sb_iter = new_qiter\<lparr>qi_noIterator := so_callback opts\<rparr>, sb_calls = []\<rparr>"

definition sub_isClosed :: "subscription \<Rightarrow> bool" where
  "sub_isClosed s = qi_done (sb_iter s)"

definition sub_cancelTimeout :: "subscription \<Rightarrow> subscription" where
  "sub_cancelTimeout s = s\<lparr>sb_timer := False\<rparr>"

definition sub_push :: "nats_msg item \<Rightarrow> subscription \<Rightarrow> subscription" where
  "sub_push v s = s\<lparr>sb_iter := qi_push (\<lambda>_. (True, False)) v (sb_iter s)\<rparr>"

definition sub_stop :: "js_error option \<Rightarrow> subscription \<Rightarrow> subscription" where
  "sub_stop err s = s\<lparr>sb_iter := qi_stop err (sb_iter s)\<rparr>"

text \<open>\<open>callback(err, msg)\<close>, where it is the method or a function of the user; for the
  multiplexer the message goes to its dispatcher instead.\<close>

definition sub_deliver :: "js_error option \<Rightarrow> nats_msg option \<Rightarrow> subscription \<Rightarrow> subscription" where
  "sub_deliver err msg s =
     (case sb_callback s of
        Cb_Default \<Rightarrow>
          (let s1 = sub_cancelTimeout s
           in case err of
                Some e \<Rightarrow> sub_stop (Some e) s1
              | None \<Rightarrow> (case msg of Some m \<Rightarrow> sub_push (Val m) s1 | None \<Rightarrow> s1))
      | Cb_User \<Rightarrow> s\<lparr>sb_calls := sb_calls s @ [(err, msg)]\<rparr>
      | Cb_Mux \<Rightarrow> s)"

text \<open>The timeout fires.\<close>

definition sub_timeout :: "subscription \<Rightarrow> subscription" where
  "sub_timeout s =
     (if sb_timer s
      then let e = error_for_code EC_Timeout None; s1 = sub_stop (Some e) s
           in if qi_noIterator (sb_iter s1) then sub_deliver (Some e) None s1 else s1
      else s)"

text \<open>\<open>close\<close>: at once for a callback subscription, as a queued function for an iterator.\<close>

definition sub_close :: "subscription \<Rightarrow> subscription" where
  "sub_close s =
     (if sub_isClosed s then s
      else let s1 = sub_cancelTimeout s
           in if qi_noIterator (sb_iter s1) then (sub_stop None s1)\<lparr>sb_closed := True\<rparr>
              else sub_push (Fn (Some None) None) s1)"

section \<open>The table\<close>

record subs =
  ss_mux :: "nat option"
  ss_subs :: "(nat \<times> nat) list"
  ss_sidCounter :: nat
  ss_store :: "nat \<Rightarrow> subscription"

definition new_subs :: subs where
  "new_subs = \<lparr>ss_mux = None, ss_subs = [], ss_sidCounter = 0,
     ss_store = (\<lambda>_. new_subscription [] \<lparr>so_queue = None, so_max = None, so_timeout = None, so_callback = False\<rparr>)\<rparr>"

definition upd_sub :: "nat \<Rightarrow> (subscription \<Rightarrow> subscription) \<Rightarrow> subs \<Rightarrow> subs" where
  "upd_sub i f t = t\<lparr>ss_store := (ss_store t)(i := f (ss_store t i))\<rparr>"

definition subs_size :: "subs \<Rightarrow> nat" where
  "subs_size t = length (ss_subs t)"

definition subs_add :: "nat \<Rightarrow> subs \<Rightarrow> subs" where
  "subs_add i t =
     (let t1 = t\<lparr>ss_sidCounter := ss_sidCounter t + 1\<rparr>;
          t2 = upd_sub i (\<lambda>s. s\<lparr>sb_sid := ss_sidCounter t1\<rparr>) t1
      in t2\<lparr>ss_subs := AList.update (sb_sid (ss_store t2 i)) i (ss_subs t2)\<rparr>)"

definition subs_setMux :: "nat option \<Rightarrow> subs \<Rightarrow> subs" where
  "subs_setMux i t = t\<lparr>ss_mux := i\<rparr>"

definition subs_get :: "nat \<Rightarrow> subs \<Rightarrow> nat option" where
  "subs_get sd t = map_of (ss_subs t) sd"

definition subs_resub :: "nat \<Rightarrow> subs \<Rightarrow> subs" where
  "subs_resub i t =
     (let t1 = t\<lparr>ss_sidCounter := ss_sidCounter t + 1\<rparr>;
          t2 = t1\<lparr>ss_subs := AList.delete (sb_sid (ss_store t1 i)) (ss_subs t1)\<rparr>;
          t3 = upd_sub i (\<lambda>s. s\<lparr>sb_sid := ss_sidCounter t2\<rparr>) t2
      in t3\<lparr>ss_subs := AList.update (sb_sid (ss_store t3 i)) i (ss_subs t3)\<rparr>)"

definition subs_all :: "subs \<Rightarrow> nat list" where
  "subs_all t = map snd (ss_subs t)"

definition subs_cancel :: "nat \<Rightarrow> subs \<Rightarrow> subs" where
  "subs_cancel i t =
     (let t1 = upd_sub i sub_close t
      in t1\<lparr>ss_subs := AList.delete (sb_sid (ss_store t1 i)) (ss_subs t1)\<rparr>)"

definition subs_handleError :: "js_error option \<Rightarrow> subs \<Rightarrow> subs \<times> bool" where
  "subs_handleError err t =
     (case err of
        None \<Rightarrow> (t, False)
      | Some e \<Rightarrow>
          (case (if is_nats_error e then err_permission e else None) of
             None \<Rightarrow> (t, False)
           | Some ctx \<Rightarrow>
               let sub1 = (if perm_operation ctx = ''subscription''
                     then List.find (\<lambda>i. sb_subject (ss_store t i) = perm_subject ctx
                            \<and> sb_queue (ss_store t i) = perm_queue ctx) (subs_all t)
                     else None);
                   sub = (if perm_operation ctx = ''publish''
                     then List.find (\<lambda>i. sb_requestSubject (ss_store t i) = Some (perm_subject ctx)) (subs_all t)
                     else sub1)
               in case sub of
                    None \<Rightarrow> (t, False)
                  | Some i \<Rightarrow>
                      let t1 = upd_sub i (sub_deliver (Some e) None) t;
                          t2 = upd_sub i sub_close t1
                      in (t2\<lparr>ss_subs := AList.delete (sb_sid (ss_store t2 i)) (ss_subs t2)\<rparr>,
                          ss_mux t2 \<noteq> Some i)))"

definition subs_close :: "subs \<Rightarrow> subs" where
  "subs_close t = fold (\<lambda>i. upd_sub i sub_close) (subs_all t) t"

section \<open>Identifiers\<close>

text \<open>Every identifier in the table was handed out, is used once, and is the one its object has.\<close>

definition subs_ok :: "subs \<Rightarrow> bool" where
  "subs_ok t \<longleftrightarrow> distinct (map fst (ss_subs t)) \<and> distinct (map snd (ss_subs t))
     \<and> (\<forall>(sd, i) \<in> set (ss_subs t). 0 < sd \<and> sd \<le> ss_sidCounter t \<and> sb_sid (ss_store t i) = sd)"

lemma upd_sub_simps [simp]:
  "ss_subs (upd_sub i f t) = ss_subs t" "ss_sidCounter (upd_sub i f t) = ss_sidCounter t"
  "ss_mux (upd_sub i f t) = ss_mux t"
  "ss_store (upd_sub i f t) j = (if j = i then f (ss_store t i) else ss_store t j)"
  by (simp_all add: upd_sub_def)

lemma sub_sid_simps [simp]:
  "sb_sid (sub_close s) = sb_sid s" "sb_sid (sub_deliver e m s) = sb_sid s"
  "sb_sid (sub_timeout s) = sb_sid s" "sb_sid (sub_stop e s) = sb_sid s"
  by (simp_all add: sub_close_def sub_deliver_def sub_timeout_def sub_stop_def sub_push_def
      sub_cancelTimeout_def Let_def split: sub_callback.splits option.splits)

lemma subs_ok_upd: "subs_ok t \<Longrightarrow> (\<And>s. sb_sid (f s) = sb_sid s) \<Longrightarrow> subs_ok (upd_sub i f t)"
  by (fastforce simp: subs_ok_def)

lemma subs_ok_delete: "subs_ok t \<Longrightarrow> subs_ok (t\<lparr>ss_subs := AList.delete k (ss_subs t)\<rparr>)"
  by (auto simp: subs_ok_def AList.delete_eq distinct_map_filter)

lemma subs_ok_fresh:
  assumes "subs_ok t"
  shows "Suc (ss_sidCounter t) \<notin> fst ` set (ss_subs t)"
  using assms by (fastforce simp: subs_ok_def)

lemma subs_ok_insert:
  assumes "subs_ok t" "i \<notin> snd ` set (ss_subs t)"
  shows "subs_ok (t\<lparr>ss_sidCounter := Suc (ss_sidCounter t),
    ss_store := (ss_store t)(i := (ss_store t i)\<lparr>sb_sid := Suc (ss_sidCounter t)\<rparr>),
    ss_subs := ss_subs t @ [(Suc (ss_sidCounter t), i)]\<rparr>)"
proof -
  have "\<forall>(sd, j) \<in> set (ss_subs t). j \<noteq> i" using assms(2) by force
  then show ?thesis
    using assms subs_ok_fresh [OF assms(1)] by (fastforce simp: subs_ok_def)
qed

lemma subs_add_eq:
  "subs_ok t \<Longrightarrow> subs_add i t = t\<lparr>ss_sidCounter := Suc (ss_sidCounter t),
    ss_store := (ss_store t)(i := (ss_store t i)\<lparr>sb_sid := Suc (ss_sidCounter t)\<rparr>),
    ss_subs := ss_subs t @ [(Suc (ss_sidCounter t), i)]\<rparr>"
  using subs_ok_fresh [of t] by (simp add: subs_add_def upd_sub_def Let_def update_absent)

lemma subs_ok_add:
  "subs_ok t \<Longrightarrow> i \<notin> snd ` set (ss_subs t) \<Longrightarrow> subs_ok (subs_add i t)"
  by (simp add: subs_add_eq subs_ok_insert)

lemma resub_as_add:
  "subs_resub i t = subs_add i (t\<lparr>ss_subs := AList.delete (sb_sid (ss_store t i)) (ss_subs t)\<rparr>)"
  by (simp add: subs_resub_def subs_add_def upd_sub_def Let_def)

lemma subs_ok_resub:
  assumes "subs_ok t"
  shows "subs_ok (subs_resub i t)"
proof -
  have "i \<notin> snd ` set (AList.delete (sb_sid (ss_store t i)) (ss_subs t))"
    using assms by (fastforce simp: subs_ok_def AList.delete_eq)
  then show ?thesis
    unfolding resub_as_add using subs_ok_delete [OF assms] by (intro subs_ok_add) simp_all
qed

lemma subs_ok_cancel: "subs_ok t \<Longrightarrow> subs_ok (subs_cancel i t)"
  unfolding subs_cancel_def Let_def by (intro subs_ok_delete subs_ok_upd) simp_all

lemma subs_ok_failed:
  assumes "subs_ok t"
  shows "subs_ok ((upd_sub i sub_close (upd_sub i (sub_deliver e m) t))\<lparr>ss_subs := AList.delete k (ss_subs t)\<rparr>)"
proof -
  have "subs_ok (upd_sub i sub_close (upd_sub i (sub_deliver e m) t))"
    using assms by (intro subs_ok_upd) simp_all
  from subs_ok_delete [OF this, of k] show ?thesis by simp
qed

lemma subs_ok_handleError: "subs_ok t \<Longrightarrow> subs_ok (fst (subs_handleError e t))"
  by (auto simp: subs_handleError_def Let_def subs_ok_failed split: option.splits)

lemma subs_ok_close: "subs_ok t \<Longrightarrow> subs_ok (subs_close t)"
proof -
  have "subs_ok t \<Longrightarrow> subs_ok (fold (\<lambda>i. upd_sub i sub_close) is t)" for "is"
    by (induction "is" arbitrary: t) (simp_all add: subs_ok_upd)
  then show "subs_ok t \<Longrightarrow> subs_ok (subs_close t)" by (simp add: subs_close_def)
qed

text \<open>The table operations in any order; an object is added when it is not in the table.\<close>

datatype subs_op = Sub_Add nat | Sub_Resub nat | Sub_Cancel nat | Sub_Error js_error | Sub_Close

fun subs_step :: "subs_op \<Rightarrow> subs \<Rightarrow> subs \<times> nat list" where
  "subs_step (Sub_Add i) t =
     (if i \<in> snd ` set (ss_subs t) then (t, []) else (subs_add i t, [sb_sid (ss_store (subs_add i t) i)]))"
| "subs_step (Sub_Resub i) t = (subs_resub i t, [sb_sid (ss_store (subs_resub i t) i)])"
| "subs_step (Sub_Cancel i) t = (subs_cancel i t, [])"
| "subs_step (Sub_Error e) t = (fst (subs_handleError (Some e) t), [])"
| "subs_step Sub_Close t = (subs_close t, [])"

fun subs_run :: "subs_op list \<Rightarrow> subs \<Rightarrow> subs \<times> nat list" where
  "subs_run [] t = (t, [])"
| "subs_run (x # xs) t = (let (t1, a) = subs_step x t; (t2, b) = subs_run xs t1 in (t2, a @ b))"

lemma subs_counter_simps [simp]:
  "ss_sidCounter (subs_cancel i t) = ss_sidCounter t"
  "ss_sidCounter (fst (subs_handleError e t)) = ss_sidCounter t"
  "ss_sidCounter (subs_close t) = ss_sidCounter t"
proof -
  show "ss_sidCounter (subs_cancel i t) = ss_sidCounter t" by (simp add: subs_cancel_def Let_def)
  show "ss_sidCounter (fst (subs_handleError e t)) = ss_sidCounter t"
    by (simp add: subs_handleError_def Let_def split: option.split)
  have "ss_sidCounter (fold (\<lambda>i. upd_sub i sub_close) is t) = ss_sidCounter t" for "is"
    by (induction "is" arbitrary: t) simp_all
  then show "ss_sidCounter (subs_close t) = ss_sidCounter t" by (simp add: subs_close_def)
qed

lemma subs_step_ok:
  assumes "subs_ok t" "subs_step x t = (t', a)"
  shows "subs_ok t' \<and> a = [Suc (ss_sidCounter t)..<Suc (ss_sidCounter t')]"
proof (cases x)
  case (Sub_Add i)
  then show ?thesis
    using assms subs_ok_add [OF assms(1), of i] by (auto simp: subs_add_eq split: if_splits)
next
  case (Sub_Resub i)
  let ?t = "t\<lparr>ss_subs := AList.delete (sb_sid (ss_store t i)) (ss_subs t)\<rparr>"
  have "subs_ok ?t" using assms(1) by (rule subs_ok_delete)
  then show ?thesis
    using Sub_Resub assms subs_ok_resub [OF assms(1), of i]
    by (auto simp: resub_as_add subs_add_eq)
qed (use assms subs_ok_cancel subs_ok_handleError subs_ok_close in auto)

lemma subs_run_ok:
  "subs_ok t \<Longrightarrow> subs_run xs t = (t', a) \<Longrightarrow>
    subs_ok t' \<and> ss_sidCounter t \<le> ss_sidCounter t' \<and> a = [Suc (ss_sidCounter t)..<Suc (ss_sidCounter t')]"
proof (induction xs arbitrary: t t' a)
  case (Cons x xs)
  obtain t1 a1 where s: "subs_step x t = (t1, a1)" by (cases "subs_step x t")
  obtain t2 a2 where r: "subs_run xs t1 = (t2, a2)" by (cases "subs_run xs t1")
  have s1: "subs_ok t1" "a1 = [Suc (ss_sidCounter t)..<Suc (ss_sidCounter t1)]"
    using subs_step_ok [OF Cons.prems(1) s] by auto
  have r1: "subs_ok t2" "ss_sidCounter t1 \<le> ss_sidCounter t2" "a2 = [Suc (ss_sidCounter t1)..<Suc (ss_sidCounter t2)]"
    using Cons.IH [OF s1(1) r] by auto
  have le: "ss_sidCounter t \<le> ss_sidCounter t1"
    using s Cons.prems(1)
    by (cases x) (auto simp: subs_add_def subs_resub_def upd_sub_def Let_def split: if_splits)
  have "a1 @ a2 = [Suc (ss_sidCounter t)..<Suc (ss_sidCounter t2)]"
    using upt_add_eq_append [of "Suc (ss_sidCounter t)" "Suc (ss_sidCounter t1)" "ss_sidCounter t2 - ss_sidCounter t1"]
      le r1(2) s1(2) r1(3) by simp
  then show ?case using Cons.prems(2) s r r1 le by auto
qed simp

text \<open>
  C24: Over any sequence of adding, moving, cancelling, failing and closing subscriptions, the
  identifiers handed out are 1, 2, 3 and so on, so none is ever used again, and the table
  maps each identifier in it to the one object that has it.
\<close>
theorem identifiers_are_never_reused:
  "\<exists>t handed. subs_run ops new_subs = (t, handed) \<and> handed = [1..<Suc (ss_sidCounter t)]
    \<and> (\<forall>sd i. subs_get sd t = Some i \<longrightarrow> sd \<in> set handed \<and> sb_sid (ss_store t i) = sd)"
proof -
  obtain t a where r: "subs_run ops new_subs = (t, a)" by (cases "subs_run ops new_subs")
  have "subs_ok new_subs" by (simp add: subs_ok_def new_subs_def)
  from subs_run_ok [OF this r] have ok: "subs_ok t" "a = [1..<Suc (ss_sidCounter t)]"
    by (simp_all add: new_subs_def)
  have "sd \<in> set a \<and> sb_sid (ss_store t i) = sd" if "subs_get sd t = Some i" for sd i
  proof -
    have "(sd, i) \<in> set (ss_subs t)" using that by (auto simp: subs_get_def dest: map_of_SomeD)
    then show ?thesis using ok by (auto simp: subs_ok_def)
  qed
  then show ?thesis using r ok(2) by blast
qed

theorem identifiers_are_never_reused_witness:
  "snd (subs_run [Sub_Add 0, Sub_Resub 0, Sub_Cancel 0, Sub_Add 0] new_subs) = [1, 2, 3]"
  using identifiers_are_never_reused [of "[Sub_Add 0, Sub_Resub 0, Sub_Cancel 0, Sub_Add 0]"]
  by (auto simp: subs_add_def subs_resub_def subs_cancel_def new_subs_def upd_sub_def Let_def)

end
