(* ===== verification/Protocol.thy ===== *)
theory Protocol
  imports Subscriptions Requests Servers Semver Data_Buffer Heartbeats
begin

text \<open>
  The protocol handler, \<open>ProtocolHandler\<close> of \<open>nats-base-client/protocol.ts\<close>: its state and
  the operations that send. The transport is the list of the frames given to \<open>send\<close>;
  deferreds are numbers with the state they settled in; \<open>pr_micro\<close> counts the flushes
  queued with \<open>queueMicrotask\<close>, each of which runs as an event of its own.
\<close>

section \<open>The state\<close>

datatype promise = P_Pending | P_Resolved | P_Rejected "js_error option"

record server_info =
  si_headers :: bool
  si_max_payload :: nat
  si_connect_urls :: "string list"
  si_version :: string
  si_nonce :: "string option"
  si_ldm :: bool

record conn_options =
  co_reconnect :: bool
  co_ignoreAuthErrorAbort :: "bool option"
  co_ignoreClusterUpdates :: bool
  co_maxReconnectAttempts :: int
  co_waitOnFirstConnect :: bool
  co_inboxPrefix :: string
  co_pendingLimit :: "nat option"
  co_pingInterval :: "nat option"
  co_maxPingOut :: "nat option"

record protocol =
  pr_options :: conn_options
  pr_connected :: bool
  pr_connectedOnce :: bool
  pr_infoReceived :: bool
  pr_info :: "server_info option"
  pr_mux :: requests
  pr_outbound :: data_buffer
  pr_pongs :: "nat list"
  pr_promise :: "nat \<Rightarrow> promise"
  pr_fresh :: nat
  pr_subs :: subs
  pr_sent :: "bytes list"
  pr_encrypted :: bool
  pr_disconnects :: nat
  pr_noMorePublishing :: bool
  pr_connectError :: "nat option"
  pr_closed :: bool
  pr_outMsgs :: nat
  pr_inMsgs :: nat
  pr_outBytes :: nat
  pr_inBytes :: nat
  pr_pendingLimit :: nat
  pr_lastError :: "js_error option"
  pr_abortReconnect :: bool
  pr_servers :: servers
  pr_server :: "nat option"
  pr_features :: features
  pr_micro :: nat
  pr_status :: "status_event list"
  pr_parser :: parser
  pr_heartbeats :: heartbeat
  pr_transportClosed :: "js_error option option"
  pr_closedResult :: "js_error option option"

definition FLUSH_THRESHOLD :: nat where "FLUSH_THRESHOLD = 1024 * 32"

definition CR_LF :: string where "CR_LF = [CR, LF]"
definition CRLF :: bytes where "CRLF = te_encode CR_LF"
definition PONG_CMD :: bytes where "PONG_CMD = te_encode (''PONG'' @ CR_LF)"
definition PING_CMD :: bytes where "PING_CMD = te_encode (''PING'' @ CR_LF)"

definition DEFAULT_PING_INTERVAL :: nat where "DEFAULT_PING_INTERVAL = 2 * 60 * 1000"
definition DEFAULT_MAX_PING_OUT :: nat where "DEFAULT_MAX_PING_OUT = 2"

text \<open>\<open>x || d\<close> of an optional number.\<close>

definition or_default :: "nat option \<Rightarrow> nat \<Rightarrow> nat" where
  "or_default x d = (case x of Some n \<Rightarrow> if n \<noteq> 0 then n else d | None \<Rightarrow> d)"

definition initial_protocol :: "conn_options \<Rightarrow> servers \<Rightarrow> features \<Rightarrow> protocol" where
  "initial_protocol options svs fs =
     \<lparr>pr_options = options, pr_connected = False, pr_connectedOnce = False, pr_infoReceived = False,
      pr_info = None, pr_mux = new_mux, pr_outbound = new_data_buffer, pr_pongs = [],
      pr_promise = (\<lambda>_. P_Pending), pr_fresh = 0, pr_subs = new_subs, pr_sent = [],
      pr_encrypted = False, pr_disconnects = 0, pr_noMorePublishing = False, pr_connectError = None,
      pr_closed = False, pr_outMsgs = 0, pr_inMsgs = 0, pr_outBytes = 0, pr_inBytes = 0,
      pr_pendingLimit = or_default (co_pendingLimit options) FLUSH_THRESHOLD, pr_lastError = None,
      pr_abortReconnect = False, pr_servers = svs, pr_server = None, pr_features = fs, pr_micro = 0,
      pr_status = [], pr_parser = new_parser,
      pr_heartbeats = new_heartbeat (or_default (co_pingInterval options) DEFAULT_PING_INTERVAL)
        (or_default (co_maxPingOut options) DEFAULT_MAX_PING_OUT),
      pr_transportClosed = None, pr_closedResult = None\<rparr>"

text \<open>The constructor: \<open>us\<close> are the given servers, \<open>ks\<close> the choices of the shuffle.\<close>

definition new_protocol ::
  "url_env \<Rightarrow> nat list \<Rightarrow> string list \<Rightarrow> bool \<Rightarrow> conn_options \<Rightarrow> js_error + protocol" where
  "new_protocol env ks us noRandomize options =
     rbind (new_features (SemVer 0 0 0)) (\<lambda>fs.
     rbind (new_servers env ks us (\<not> noRandomize)) (\<lambda>svs. Inr (initial_protocol options svs fs)))"

text \<open>A concrete handler and server information, for examples.\<close>

definition sample_info :: server_info where
  "sample_info = \<lparr>si_headers = True, si_max_payload = 1024, si_connect_urls = [], si_version = ''2.9.0'',
     si_nonce = None, si_ldm = False\<rparr>"

definition sample_options :: conn_options where
  "sample_options = \<lparr>co_reconnect = True, co_ignoreAuthErrorAbort = Some False, co_ignoreClusterUpdates = False,
     co_maxReconnectAttempts = 10, co_waitOnFirstConnect = False, co_inboxPrefix = ''_INBOX'',
     co_pendingLimit = None, co_pingInterval = None, co_maxPingOut = None\<rparr>"

definition sample_server :: server_impl where
  "sample_server = \<lparr>sv_src = ''a:4222'', sv_listen = ''a:4222'', sv_hostname = ''a'', sv_port = 4222,
     sv_didConnect = False, sv_reconnects = 0, sv_lastConnect = 0, sv_gossiped = False, sv_tlsName = [],
     sv_resolves = None\<rparr>"

definition sample_pool :: servers where
  "sample_pool = \<lparr>sp_firstSelect = True, sp_servers = [0, 1], sp_current = 0, sp_tlsName = [],
     sp_randomize = False, sp_store = [0 \<mapsto> sample_server, 1 \<mapsto> sample_server], sp_fresh = 2\<rparr>"

definition sample_protocol :: protocol where
  "sample_protocol = (initial_protocol sample_options sample_pool \<lparr>ft_server = SemVer 2 9 0, ft_features = [], ft_disabled = []\<rparr>)
     \<lparr>pr_info := Some sample_info\<rparr>"

text \<open>Creating and settling deferreds; a deferred settles once.\<close>

definition new_deferred :: "protocol \<Rightarrow> protocol \<times> nat" where
  "new_deferred p = (p\<lparr>pr_promise := (pr_promise p)(pr_fresh p := P_Pending), pr_fresh := pr_fresh p + 1\<rparr>,
     pr_fresh p)"

definition settle_deferred :: "nat \<Rightarrow> promise \<Rightarrow> protocol \<Rightarrow> protocol" where
  "settle_deferred d r p =
     (if pr_promise p d = P_Pending then p\<lparr>pr_promise := (pr_promise p)(d := r)\<rparr> else p)"

definition dispatch_status :: "status_event \<Rightarrow> protocol \<Rightarrow> protocol" where
  "dispatch_status s p = p\<lparr>pr_status := pr_status p @ [s]\<rparr>"

definition transport_send :: "bytes \<Rightarrow> protocol \<Rightarrow> protocol" where
  "transport_send d p = p\<lparr>pr_sent := pr_sent p @ [d]\<rparr>"

definition resetOutbound :: "protocol \<Rightarrow> protocol" where
  "resetOutbound p =
     (let p1 = p\<lparr>pr_outbound := dq_reset (pr_outbound p), pr_pongs := []\<rparr>;
          p2 = fold (\<lambda>d. settle_deferred d (P_Rejected (Some (error_for_code EC_Disconnect None)))) (pr_pongs p) p1
      in p2\<lparr>pr_parser := new_parser, pr_infoReceived := False\<rparr>)"

section \<open>Sending\<close>

definition flushPending :: "protocol \<Rightarrow> protocol" where
  "flushPending p =
     (if \<not> pr_infoReceived p \<or> \<not> pr_connected p then p
      else if dq_size (pr_outbound p) \<noteq> 0
      then let (q, d) = dq_drain None (pr_outbound p) in transport_send d (p\<lparr>pr_outbound := q\<rparr>)
      else p)"

text \<open>A queued microtask runs.\<close>

definition run_microtask :: "protocol \<Rightarrow> protocol" where
  "run_microtask p = (if pr_micro p = 0 then p else flushPending (p\<lparr>pr_micro := pr_micro p - 1\<rparr>))"

definition sendCommand :: "bytes \<Rightarrow> bytes list \<Rightarrow> protocol \<Rightarrow> protocol" where
  "sendCommand cmd payloads p =
     (let len = dq_length (pr_outbound p);
          p1 = p\<lparr>pr_outbound := dq_fill cmd payloads (pr_outbound p)\<rparr>
      in if len = 0 then p1\<lparr>pr_micro := pr_micro p1 + 1\<rparr>
         else if dq_size (pr_outbound p1) \<ge> pr_pendingLimit p1 then flushPending p1
         else p1)"

datatype payload = P_Bytes bytes | P_String string | P_Other

definition publish_proto :: "string \<Rightarrow> string \<Rightarrow> nat option \<Rightarrow> nat \<Rightarrow> string" where
  "publish_proto subj rep hlen len =
     (case hlen of
        Some h \<Rightarrow>
          if rep \<noteq> [] then ''HPUB '' @ subj @ '' '' @ rep @ '' '' @ show_nat h @ '' '' @ show_nat len @ CR_LF
          else ''HPUB '' @ subj @ '' '' @ show_nat h @ '' '' @ show_nat len @ CR_LF
      | None \<Rightarrow>
          if rep \<noteq> [] then ''PUB '' @ subj @ '' '' @ rep @ '' '' @ show_nat len @ CR_LF
          else ''PUB '' @ subj @ '' '' @ show_nat len @ CR_LF)"

definition publish ::
  "string \<Rightarrow> payload \<Rightarrow> string \<Rightarrow> msg_hdrs option \<Rightarrow> protocol \<Rightarrow> protocol \<times> (js_error + unit)"
where
  "publish subj pay rep hdrs p =
     (case (case pay of P_Bytes b \<Rightarrow> Some b | P_String s \<Rightarrow> Some (te_encode s) | P_Other \<Rightarrow> None) of
        None \<Rightarrow> (p, Inl (error_for_code EC_BadPayload None))
      | Some data \<Rightarrow>
          if hdrs \<noteq> None \<and> pr_info p \<noteq> None \<and> \<not> si_headers (the (pr_info p))
          then (p, Inl (nats_error ''headers'' (code_string EC_ServerOptionNotAvailable) None))
          else
            let hb = (case hdrs of Some h \<Rightarrow> hdr_encode h | None \<Rightarrow> []);
                len = length data + length hb
            in if pr_info p \<noteq> None \<and> len > si_max_payload (the (pr_info p))
               then (p, Inl (error_for_code EC_MaxPayloadExceeded None))
               else
                 let p1 = p\<lparr>pr_outBytes := pr_outBytes p + len, pr_outMsgs := pr_outMsgs p + 1\<rparr>
                 in (case hdrs of
                       Some h \<Rightarrow>
                         (sendCommand (te_encode (publish_proto subj rep (Some (length hb)) len)) [hb, data, CRLF] p1,
                          Inr ())
                     | None \<Rightarrow>
                         (sendCommand (te_encode (publish_proto subj rep None len)) [data, CRLF] p1, Inr ())))"

definition flush :: "nat \<Rightarrow> protocol \<Rightarrow> protocol" where
  "flush d p =
     flushPending (p\<lparr>pr_pongs := pr_pongs p @ [d], pr_outbound := dq_fill PING_CMD [] (pr_outbound p)\<rparr>)"

section \<open>Subscribing\<close>

definition with_subs :: "(subs \<Rightarrow> subs) \<Rightarrow> protocol \<Rightarrow> protocol" where
  "with_subs f p = p\<lparr>pr_subs := f (pr_subs p)\<rparr>"

definition sub_of :: "protocol \<Rightarrow> nat \<Rightarrow> subscription" where
  "sub_of p i = ss_store (pr_subs p) i"

definition sub_line :: "subscription \<Rightarrow> string" where
  "sub_line s =
     (case sb_queue s of
        Some q \<Rightarrow> if q \<noteq> [] then ''SUB '' @ sb_subject s @ '' '' @ q @ '' '' @ show_nat (sb_sid s) @ CR_LF
                  else ''SUB '' @ sb_subject s @ '' '' @ show_nat (sb_sid s) @ CR_LF
      | None \<Rightarrow> ''SUB '' @ sb_subject s @ '' '' @ show_nat (sb_sid s) @ CR_LF)"

definition pr_sub :: "nat \<Rightarrow> protocol \<Rightarrow> protocol" where
  "pr_sub i p = sendCommand (te_encode (sub_line (sub_of p i))) [] p"

definition pr_unsub :: "nat \<Rightarrow> nat option \<Rightarrow> protocol \<Rightarrow> protocol" where
  "pr_unsub i mx p =
     (if pr_closed p then p
      else let line = (case mx of
                 Some m \<Rightarrow> if m \<noteq> 0 then ''UNSUB '' @ show_nat (sb_sid (sub_of p i)) @ '' '' @ show_nat m @ CR_LF
                           else ''UNSUB '' @ show_nat (sb_sid (sub_of p i)) @ CR_LF
               | None \<Rightarrow> ''UNSUB '' @ show_nat (sb_sid (sub_of p i)) @ CR_LF);
               p1 = sendCommand (te_encode line) [] p
           in with_subs (upd_sub i (\<lambda>s. s\<lparr>sb_max := mx\<rparr>)) p1)"

definition pr_unsubscribe :: "nat \<Rightarrow> nat option \<Rightarrow> protocol \<Rightarrow> protocol" where
  "pr_unsubscribe i mx p =
     (let p1 = pr_unsub i mx p
      in case sb_max (sub_of p1 i) of
           None \<Rightarrow> with_subs (subs_cancel i) p1
         | Some m \<Rightarrow> if qi_received (sb_iter (sub_of p1 i)) \<ge> int m then with_subs (subs_cancel i) p1 else p1)"

definition pr_subunsub :: "nat \<Rightarrow> protocol \<Rightarrow> protocol" where
  "pr_subunsub i p =
     (let p1 = pr_sub i p
      in case sb_max (sub_of p1 i) of
           Some m \<Rightarrow> if m \<noteq> 0 then pr_unsubscribe i (Some m) p1 else p1
         | None \<Rightarrow> p1)"

definition pr_subscribe :: "nat \<Rightarrow> protocol \<Rightarrow> protocol" where
  "pr_subscribe i p = pr_subunsub i (with_subs (subs_add i) p)"

definition pr_resub :: "nat \<Rightarrow> string \<Rightarrow> protocol \<Rightarrow> protocol" where
  "pr_resub i subj p =
     (if pr_closed p then p
      else let p1 = pr_unsub i None p;
               p2 = with_subs (upd_sub i (\<lambda>s. s\<lparr>sb_subject := subj\<rparr>)) p1;
               p3 = with_subs (subs_resub i) p2
           in pr_sub i p3)"

definition sendSubscriptions :: "protocol \<Rightarrow> protocol" where
  "sendSubscriptions p =
     (let cmds = map (\<lambda>i. sub_line (sub_of p i)) (subs_all (pr_subs p))
      in if cmds \<noteq> [] then transport_send (te_encode (concat cmds)) p else p)"

text \<open>\<open>initMux\<close> and \<open>request\<close>; \<open>nuid\<close> is the identifier the inbox gets, \<open>i\<close> the number of the
  new subscription object, \<open>r\<close> the number of the request.\<close>

definition initMux :: "string \<Rightarrow> nat \<Rightarrow> protocol \<Rightarrow> js_error + protocol" where
  "initMux nuid i p =
     (case ss_mux (pr_subs p) of
        Some j \<Rightarrow> Inr p
      | None \<Rightarrow>
          rbind (mux_init nuid (co_inboxPrefix (pr_options p)) (pr_mux p)) (\<lambda>m.
            let s = (new_subscription (mu_baseInbox m @ ''*'')
                       \<lparr>so_queue = None, so_max = None, so_timeout = None, so_callback = False\<rparr>)
                       \<lparr>sb_callback := Cb_Mux\<rparr>;
                p1 = with_subs (\<lambda>t. subs_setMux (Some i) (upd_sub i (\<lambda>_. s) t)) (p\<lparr>pr_mux := m\<rparr>)
            in Inr (pr_subscribe i p1)))"

definition pr_request :: "string \<Rightarrow> nat \<Rightarrow> nat \<Rightarrow> protocol \<Rightarrow> js_error + protocol" where
  "pr_request nuid i r p =
     rbind (initMux nuid i p) (\<lambda>p1. Inr (p1\<lparr>pr_mux := mux_add r (pr_mux p1)\<rparr>))"

section \<open>The stream of bytes sent\<close>

text \<open>What was sent and what waits to be sent, in order.\<close>

definition out_stream :: "protocol \<Rightarrow> bytes" where
  "out_stream p = concat (pr_sent p) @ dq_bytes (pr_outbound p)"

definition out_ok :: "protocol \<Rightarrow> bool" where
  "out_ok p \<longleftrightarrow> dq_ok (pr_outbound p)"

named_theorems stream_simps \<open>what an operation appends to the outgoing stream\<close>

lemma flushPending_stream [stream_simps]:
  assumes "out_ok p"
  shows "out_stream (flushPending p) = out_stream p" "out_ok (flushPending p)"
  using assms dq.drain_keeps dq.drain_fresh
  by (simp_all add: flushPending_def out_stream_def out_ok_def transport_send_def case_prod_beta)

lemma sendCommand_stream [stream_simps]:
  assumes "out_ok p"
  shows "out_stream (sendCommand cmd ps p) = out_stream p @ cmd @ concat ps" "out_ok (sendCommand cmd ps p)"
proof -
  let ?p = "p\<lparr>pr_outbound := dq_fill cmd ps (pr_outbound p)\<rparr>"
  have ok: "out_ok ?p" using assms by (simp add: out_ok_def)
  have s: "out_stream ?p = out_stream p @ cmd @ concat ps" by (simp add: out_stream_def)
  have m: "out_stream (?p\<lparr>pr_micro := k\<rparr>) = out_stream ?p" "out_ok (?p\<lparr>pr_micro := k\<rparr>) = out_ok ?p" for k
    by (simp_all add: out_stream_def out_ok_def)
  show "out_stream (sendCommand cmd ps p) = out_stream p @ cmd @ concat ps"
    using flushPending_stream [OF ok] s m by (simp add: sendCommand_def Let_def)
  show "out_ok (sendCommand cmd ps p)"
    using flushPending_stream [OF ok] ok m by (simp add: sendCommand_def Let_def)
qed

lemma out_stream_cong:
  "pr_sent p = pr_sent q \<Longrightarrow> pr_outbound p = pr_outbound q \<Longrightarrow> out_stream p = out_stream q \<and> out_ok p = out_ok q"
  by (simp add: out_stream_def out_ok_def)

section \<open>Published messages\<close>

definition word_arg :: "string \<Rightarrow> bool" where
  "word_arg s \<longleftrightarrow> s \<noteq> [] \<and> CHR '' '' \<notin> set s \<and> CR \<notin> set s \<and> LF \<notin> set s"

text \<open>A reader for what a server is sent: the line up to the first line break, its words, and
  the bytes the last word announces, followed by a line break. The result is the subject, the
  reply, the headers, the data and the rest of the stream.\<close>

fun split_line :: "string \<Rightarrow> (string \<times> string) option" where
  "split_line [] = None"
| "split_line [c] = None"
| "split_line (c # d # s) =
     (if c = CR \<and> d = LF then Some ([], s)
      else map_option (\<lambda>(l, r). (c # l, r)) (split_line (d # s)))"

definition read_body :: "string \<Rightarrow> string \<Rightarrow> nat \<Rightarrow> nat \<Rightarrow> string
    \<Rightarrow> (string \<times> string \<times> bytes \<times> bytes \<times> bytes) option" where
  "read_body subj rep h n s =
     (if length s < n + 2 \<or> take 2 (drop n s) \<noteq> CR_LF \<or> h > n then None
      else Some (subj, rep, te_encode (take h s), te_encode (drop h (take n s)), te_encode (drop (n + 2) s)))"

definition read_publish :: "bytes \<Rightarrow> (string \<times> string \<times> bytes \<times> bytes \<times> bytes) option" where
  "read_publish bs =
     (case split_line (td_decode bs) of
        None \<Rightarrow> None
      | Some (line, s) \<Rightarrow>
          (case split_on CHR '' '' line of
             [cmd, subj, n] \<Rightarrow>
               if cmd = ''PUB'' then read_body subj [] 0 (digits_val n) s else None
           | [cmd, subj, a, n] \<Rightarrow>
               if cmd = ''PUB'' then read_body subj a 0 (digits_val n) s
               else if cmd = ''HPUB'' then read_body subj [] (digits_val a) (digits_val n) s
               else None
           | [cmd, subj, rep, h, n] \<Rightarrow>
               if cmd = ''HPUB'' then read_body subj rep (digits_val h) (digits_val n) s else None
           | _ \<Rightarrow> None))"

lemma split_line_append: "LF \<notin> set a \<Longrightarrow> split_line (a @ CR # LF # r) = Some (a, r)"
proof (induction a rule: split_line.induct)
  case (2 c)
  then show ?case by (simp add: CR_def LF_def)
qed auto

lemma show_nat_word [simp]: "word_arg (show_nat n)"
proof -
  have "\<forall>c \<in> set (show_nat n). is_digit c" by (rule show_nat_all_digits)
  moreover have "\<not> is_digit CHR '' ''" "\<not> is_digit CR" "\<not> is_digit LF"
    by (simp_all add: is_digit_def char_code_def CR_def LF_def)
  ultimately show ?thesis by (auto simp: word_arg_def)
qed

text \<open>Words joined by blanks.\<close>

fun join_words :: "string list \<Rightarrow> string" where
  "join_words [] = []"
| "join_words [w] = w"
| "join_words (w # ws) = w @ CHR '' '' # join_words ws"

lemma split_join_words:
  assumes "\<forall>w \<in> set ws. word_arg w" "ws \<noteq> []"
  shows "split_on CHR '' '' (join_words ws) = ws" "LF \<notin> set (join_words ws)"
proof -
  show "split_on CHR '' '' (join_words ws) = ws"
    using assms by (induction ws rule: join_words.induct)
      (auto simp: word_arg_def split_on_append split_on_single)
  show "LF \<notin> set (join_words ws)"
    using assms by (induction ws rule: join_words.induct) (auto simp: word_arg_def LF_def)
qed

definition publish_words :: "string \<Rightarrow> string \<Rightarrow> nat option \<Rightarrow> nat \<Rightarrow> string list" where
  "publish_words subj rep hlen len =
     (case hlen of None \<Rightarrow> ''PUB'' | Some h \<Rightarrow> ''HPUB'') # subj # (if rep \<noteq> [] then [rep] else [])
     @ (case hlen of None \<Rightarrow> [] | Some h \<Rightarrow> [show_nat h]) @ [show_nat len]"

lemma publish_proto_words:
  "publish_proto subj rep hlen len = join_words (publish_words subj rep hlen len) @ CR_LF"
  by (simp add: publish_proto_def publish_words_def split: option.split)

lemma read_body_ok:
  "read_body subj rep (length hb) (length data + length hb) (td_decode (hb @ data @ CRLF @ rest))
    = Some (subj, rep, hb, data, rest)"
proof -
  have "te_encode (take n s) = take n (te_encode s)" "te_encode (drop n s) = drop n (te_encode s)" for n s
    by (simp_all add: te_encode_def take_map drop_map)
  moreover have "take n (td_decode b) = td_decode (take n b)" "drop n (td_decode b) = td_decode (drop n b)" for n b
    by (simp_all add: td_decode_def take_map drop_map)
  moreover have "length CRLF = 2" by (simp add: CRLF_def CR_LF_def)
  moreover have "td_decode CRLF = CR_LF" by (simp add: CRLF_def)
  moreover have "td_decode (take 2 (CRLF @ rest)) = CR_LF" using calculation by simp
  ultimately show ?thesis by (simp add: read_body_def)
qed

lemma words_publish:
  "word_arg subj \<Longrightarrow> rep = [] \<or> word_arg rep \<Longrightarrow> \<forall>w \<in> set (publish_words subj rep hlen len). word_arg w"
  by (auto simp: publish_words_def split: option.splits if_splits) (simp_all add: word_arg_def CR_def LF_def)

lemma td_decode_append: "td_decode (a @ b) = td_decode a @ td_decode b"
  by (simp add: td_decode_def)

lemma read_published:
  assumes "word_arg subj" "rep = [] \<or> word_arg rep" "hlen = None \<longrightarrow> hb = []" "\<forall>h. hlen = Some h \<longrightarrow> h = length hb"
  shows "read_publish (te_encode (publish_proto subj rep hlen (length data + length hb)) @ hb @ data @ CRLF @ rest)
    = Some (subj, rep, hb, data, rest)"
proof -
  let ?ws = "publish_words subj rep hlen (length data + length hb)"
  let ?s = "td_decode (hb @ data @ CRLF @ rest)"
  have ws: "\<forall>w \<in> set ?ws. word_arg w" using assms(1,2) by (rule words_publish)
  have ne: "?ws \<noteq> []" by (simp add: publish_words_def)
  have "td_decode (te_encode (publish_proto subj rep hlen (length data + length hb)) @ hb @ data @ CRLF @ rest)
      = join_words ?ws @ CR # LF # ?s"
    by (simp add: td_decode_append publish_proto_words CR_LF_def del: te_encode_append)
  then have line: "split_line (td_decode (te_encode (publish_proto subj rep hlen (length data + length hb))
      @ hb @ data @ CRLF @ rest)) = Some (join_words ?ws, ?s)"
    using split_line_append [OF split_join_words(2) [OF ws ne]] by simp
  show ?thesis
    unfolding read_publish_def line option.case prod.case split_join_words(1) [OF ws ne]
    using read_body_ok [of subj rep hb data rest] assms(3,4)
    by (auto simp: publish_words_def split: option.split)
qed

lemma publish_frame:
  fixes hdrs :: "msg_hdrs option" and data :: bytes
  assumes "out_ok p"
  defines "hb \<equiv> (case hdrs of Some h \<Rightarrow> hdr_encode h | None \<Rightarrow> [])"
  assumes n: "\<not> (hdrs \<noteq> None \<and> (\<exists>i. pr_info p = Some i \<and> \<not> si_headers i))"
    "\<not> (\<exists>i. pr_info p = Some i \<and> si_max_payload i < length data + length hb)"
  shows "\<exists>p' line. publish subj (P_Bytes data) rep hdrs p = (p', Inr ())
    \<and> out_stream p' = out_stream p @ line @ hb @ data @ CRLF
    \<and> (word_arg subj \<and> (rep = [] \<or> word_arg rep)
        \<longrightarrow> (\<forall>rest. read_publish ((line @ hb @ data @ CRLF) @ rest) = Some (subj, rep, hb, data, rest)))"
proof -
  let ?len = "length data + length hb"
  let ?p = "p\<lparr>pr_outBytes := pr_outBytes p + ?len, pr_outMsgs := pr_outMsgs p + 1\<rparr>"
  define hl where "hl = (case hdrs of Some h \<Rightarrow> Some (length hb) | None \<Rightarrow> None)"
  define l where "l = te_encode (publish_proto subj rep hl ?len)"
  have ok: "out_ok ?p" "out_stream ?p = out_stream p"
    using assms(1) by (simp_all add: out_ok_def out_stream_def)
  have read: "read_publish ((l @ hb @ data @ CRLF) @ rest) = Some (subj, rep, hb, data, rest)"
    if "word_arg subj" "rep = [] \<or> word_arg rep" for rest
    using read_published [OF that, of hl hb data rest]
    by (auto simp: l_def hl_def hb_def split: option.splits)
  have "\<exists>p'. publish subj (P_Bytes data) rep hdrs p = (p', Inr ()) \<and> out_stream p' = out_stream p @ l @ hb @ data @ CRLF"
  proof (cases hdrs)
    case None
    then have "publish subj (P_Bytes data) rep hdrs p
        = (sendCommand (te_encode (publish_proto subj rep hl ?len)) [data, CRLF] ?p, Inr ())"
      using n by (cases "pr_info p") (simp_all add: publish_def hb_def hl_def Let_def)
    then show ?thesis
      using sendCommand_stream [OF ok(1)] ok(2) None by (simp add: l_def hb_def)
  next
    case (Some h)
    then have "publish subj (P_Bytes data) rep hdrs p
        = (sendCommand (te_encode (publish_proto subj rep hl ?len)) [hb, data, CRLF] ?p, Inr ())"
      using n by (cases "pr_info p") (simp_all add: publish_def hb_def hl_def Let_def)
    then show ?thesis
      using sendCommand_stream [OF ok(1)] ok(2) Some by (simp add: l_def)
  qed
  then show ?thesis using read by blast
qed

text \<open>The bytes of a payload: a byte array as it is, a string encoded, and nothing for any other value.\<close>

definition payload_bytes :: "payload \<Rightarrow> bytes option" where
  "payload_bytes pay = (case pay of P_Bytes b \<Rightarrow> Some b | P_String s \<Rightarrow> Some (te_encode s) | P_Other \<Rightarrow> None)"

lemma publish_payload:
  "publish subj pay rep hdrs p = (case payload_bytes pay of
     None \<Rightarrow> (p, Inl (error_for_code EC_BadPayload None)) | Some data \<Rightarrow> publish subj (P_Bytes data) rep hdrs p)"
  by (cases pay) (simp_all add: publish_def payload_bytes_def)

text \<open>
  C4: A publish of a string or of bytes, the empty ones included, appends to the stream to the server
  exactly one frame, the line of the message, its headers, its data and a line break. When the subject
  is a word and the reply is a word or empty (a word is a text without blanks and line breaks, which
  the code does not check), a reader of the protocol gets back from the frame the subject, the reply,
  the headers and the data and nothing more. The publish is refused, with the state unchanged, exactly
  when the payload is neither a string nor bytes, when there are headers the server does not support,
  or when headers and data are together longer than the server allows, each with its own error.
\<close>
theorem publish_sends_one_frame:
  fixes hdrs :: "msg_hdrs option" and pay :: payload
  assumes "out_ok p"
  defines "hb \<equiv> (case hdrs of Some h \<Rightarrow> hdr_encode h | None \<Rightarrow> [])"
  defines "no_headers \<equiv> hdrs \<noteq> None \<and> (\<exists>i. pr_info p = Some i \<and> \<not> si_headers i)"
  defines "long \<equiv> (\<lambda>data. \<exists>i. pr_info p = Some i \<and> si_max_payload i < length data + length hb)"
  shows "case payload_bytes pay of
      None \<Rightarrow> publish subj pay rep hdrs p = (p, Inl (error_for_code EC_BadPayload None))
    | Some data \<Rightarrow>
        if no_headers then publish subj pay rep hdrs p = (p, Inl (nats_error ''headers'' (code_string EC_ServerOptionNotAvailable) None))
        else if long data then publish subj pay rep hdrs p = (p, Inl (error_for_code EC_MaxPayloadExceeded None))
        else \<exists>p' line. publish subj pay rep hdrs p = (p', Inr ())
          \<and> out_stream p' = out_stream p @ line @ hb @ data @ CRLF
          \<and> (word_arg subj \<and> (rep = [] \<or> word_arg rep)
              \<longrightarrow> (\<forall>rest. read_publish ((line @ hb @ data @ CRLF) @ rest) = Some (subj, rep, hb, data, rest)))"
proof (cases "payload_bytes pay")
  case (Some data)
  have pay: "publish subj pay rep hdrs p = publish subj (P_Bytes data) rep hdrs p" by (simp add: publish_payload Some)
  have no: "publish subj pay rep hdrs p = (p, Inl (nats_error ''headers'' (code_string EC_ServerOptionNotAvailable) None))" if no_headers
    unfolding pay using that by (auto simp: publish_def no_headers_def)
  have long: "publish subj pay rep hdrs p = (p, Inl (error_for_code EC_MaxPayloadExceeded None))" if "\<not> no_headers" "long data"
    unfolding pay using that unfolding no_headers_def long_def hb_def by (cases hdrs) (auto simp: publish_def Let_def)
  have sent: "\<exists>p' line. publish subj pay rep hdrs p = (p', Inr ()) \<and> out_stream p' = out_stream p @ line @ hb @ data @ CRLF
      \<and> (word_arg subj \<and> (rep = [] \<or> word_arg rep)
          \<longrightarrow> (\<forall>rest. read_publish ((line @ hb @ data @ CRLF) @ rest) = Some (subj, rep, hb, data, rest)))"
    if "\<not> no_headers" "\<not> long data"
    using publish_frame [OF assms(1), of hdrs data subj rep] that unfolding pay no_headers_def long_def hb_def by simp
  show ?thesis using Some no long sent by simp
qed (simp add: publish_payload)

theorem publish_sends_one_frame_witness:
  "\<exists>p' f. publish ''a.b'' (P_String ''hi'') ''r'' None sample_protocol = (p', Inr ())
     \<and> out_stream p' = f \<and> (\<forall>rest. read_publish (f @ rest) = Some (''a.b'', ''r'', [], te_encode ''hi'', rest))"
proof -
  have p: "pr_info sample_protocol = Some sample_info" "out_stream sample_protocol = []" "out_ok sample_protocol"
    by (simp_all add: sample_protocol_def initial_protocol_def out_stream_def out_ok_def
        new_data_buffer_def dq_ok_def dq_bytes_def)
  have "word_arg ''a.b''" "word_arg ''r''" by (simp_all add: word_arg_def CR_def LF_def)
  then show ?thesis
    using publish_sends_one_frame [where p = sample_protocol and pay = "P_String ''hi''" and subj = "''a.b''" and rep = "''r''" and hdrs = None] p
    by (auto simp: sample_info_def payload_bytes_def simp del: te_encode_Cons)
qed

end
