(* ===== verification/Inbound.thy ===== *)
theory Inbound
  imports Protocol
begin

text \<open>
  What the protocol handler does with the events of the parser, \<open>processMsg\<close>,
  \<open>processError\<close>, \<open>processPing\<close>, \<open>processPong\<close> and \<open>processInfo\<close> of
  \<open>nats-base-client/protocol.ts\<close>, and how it closes. \<open>JSON.parse\<close> of the information
  block and the text of the \<open>Connect\<close> object, which the authenticator of the user takes part
  in, are parameters; either may throw.
\<close>

section \<open>Error messages of the server\<close>

fun non_space :: "string \<Rightarrow> string" where
  "non_space [] = []"
| "non_space (c # s) = (if leading_space (c # s) \<noteq> None then [] else c # non_space s)"

text \<open>The longest prefix that is followed by a quote.\<close>

fun up_to_last_quote :: "string \<Rightarrow> string option" where
  "up_to_last_quote [] = None"
| "up_to_last_quote (c # s) =
     (case up_to_last_quote s of
        Some t \<Rightarrow> Some (c # t)
      | None \<Rightarrow> if c = CHR 0x22 then Some [] else None)"

text \<open>A match of a text in front of \<open>"(\S+)"\<close> at the start of the string, and the first one
  anywhere.\<close>

definition quoted_here :: "string \<Rightarrow> string \<Rightarrow> string option" where
  "quoted_here p s =
     (if starts_with p s
      then (case up_to_last_quote (non_space (drop (length p) s)) of
              Some t \<Rightarrow> if t \<noteq> [] then Some t else None
            | None \<Rightarrow> None)
      else None)"

fun match_operation :: "string \<Rightarrow> (string \<times> string) option" where
  "match_operation [] = None"
| "match_operation (c # s) =
     (case quoted_here (''Publish to '' @ [CHR 0x22]) (c # s) of
        Some t \<Rightarrow> Some (''Publish'', t)
      | None \<Rightarrow>
          (case quoted_here (''Subscription to '' @ [CHR 0x22]) (c # s) of
             Some t \<Rightarrow> Some (''Subscription'', t)
           | None \<Rightarrow> match_operation s))"

fun match_queue :: "string \<Rightarrow> string option" where
  "match_queue [] = None"
| "match_queue (c # s) =
     (case quoted_here (''using queue '' @ [CHR 0x22]) (c # s) of
        Some t \<Rightarrow> Some t
      | None \<Rightarrow> match_queue s)"

definition toError :: "string \<Rightarrow> js_error" where
  "toError s =
     (let t = to_lower s
      in if contains ''permissions violation'' t
         then Nats_Error s (code_string EC_PermissionsViolation)
           (case match_operation s of
              Some (op, subj) \<Rightarrow> Some \<lparr>perm_operation = to_lower op, perm_subject = subj, perm_queue = match_queue s\<rparr>
            | None \<Rightarrow> None) None None
         else if contains ''authorization violation'' t
         then nats_error s (code_string EC_AuthorizationViolation) None
         else if contains ''user authentication expired'' t
         then nats_error s (code_string EC_AuthenticationExpired) None
         else if contains ''account authentication expired'' t
         then nats_error s (code_string EC_AccountExpired) None
         else if contains ''authentication timeout'' t
         then nats_error s (code_string EC_AuthenticationTimeout) None
         else nats_error s (code_string EC_ProtocolError) None)"

section \<open>Messages\<close>

definition sub_by_sid :: "int \<Rightarrow> protocol \<Rightarrow> nat option" where
  "sub_by_sid sd p = (if sd < 0 then None else subs_get (nat sd) (pr_subs p))"

text \<open>\<open>sub.callback(null, msg)\<close>: the dispatcher of the multiplexer may throw.\<close>

definition deliver :: "nat \<Rightarrow> nats_msg \<Rightarrow> protocol \<Rightarrow> protocol \<times> (js_error + unit)" where
  "deliver i m p =
     (case sb_callback (sub_of p i) of
        Cb_Mux \<Rightarrow>
          (case mux_dispatch None m (pr_mux p) of
             Inl e \<Rightarrow> (p, Inl e)
           | Inr x \<Rightarrow> (p\<lparr>pr_mux := x\<rparr>, Inr ()))
      | _ \<Rightarrow> (with_subs (upd_sub i (sub_deliver None (Some m))) p, Inr ()))"

definition count_received :: "nat \<Rightarrow> protocol \<Rightarrow> protocol" where
  "count_received i p =
     with_subs (upd_sub i (\<lambda>s. s\<lparr>sb_iter := (sb_iter s)\<lparr>qi_received := qi_received (sb_iter s) + 1\<rparr>\<rparr>)) p"

definition processMsg :: "msg_arg \<Rightarrow> bytes \<Rightarrow> protocol \<Rightarrow> protocol \<times> (js_error + unit)" where
  "processMsg m data p =
     (let p1 = p\<lparr>pr_inMsgs := pr_inMsgs p + 1, pr_inBytes := pr_inBytes p + length data\<rparr>
      in if ss_sidCounter (pr_subs p1) = 0 then (p1, Inr ())
         else case sub_by_sid (sid m) p1 of
           None \<Rightarrow> (p1, Inr ())
         | Some i \<Rightarrow>
             (case deliver i (new_msg m data) (count_received i p1) of
                (p2, Inl e) \<Rightarrow> (p2, Inl e)
              | (p2, Inr u) \<Rightarrow>
                  (case sb_max (sub_of p2 i) of
                     Some mx \<Rightarrow>
                       if qi_received (sb_iter (sub_of p2 i)) \<ge> int mx
                       then (pr_unsubscribe i None p2, Inr ()) else (p2, Inr ())
                   | None \<Rightarrow> (p2, Inr ()))))"

section \<open>Errors\<close>

definition pr_disconnect :: "protocol \<Rightarrow> protocol" where
  "pr_disconnect p = dispatch_status Ev_StaleConnection p\<lparr>pr_disconnects := pr_disconnects p + 1\<rparr>"

definition pr_reconnect :: "protocol \<Rightarrow> protocol" where
  "pr_reconnect p =
     (if pr_connected p
      then dispatch_status Ev_ClientInitiatedReconnect p\<lparr>pr_disconnects := pr_disconnects p + 1\<rparr>
      else p)"

text \<open>\<open>connectError\<close>, while a connect is waiting.\<close>

definition call_connectError :: "js_error option \<Rightarrow> protocol \<Rightarrow> protocol" where
  "call_connectError e p =
     (case pr_connectError p of Some d \<Rightarrow> settle_deferred d (P_Rejected e) p | None \<Rightarrow> p)"

definition handleAuthError :: "js_error \<Rightarrow> protocol \<Rightarrow> protocol" where
  "handleAuthError err p =
     (let p1 = (case pr_lastError p of
                  Some l \<Rightarrow>
                    if err_code err = err_code l \<and> co_ignoreAuthErrorAbort (pr_options p) = Some False
                    then p\<lparr>pr_abortReconnect := True\<rparr> else p
                | None \<Rightarrow> p)
      in if pr_connectError p1 \<noteq> None then call_connectError (Some err) p1 else pr_disconnect p1)"

definition pr_handleError :: "js_error \<Rightarrow> protocol \<Rightarrow> protocol" where
  "pr_handleError err p =
     (let p1 = (if is_auth_error err then handleAuthError err p
                else if is_protocol_error err then p\<lparr>pr_lastError := Some err\<rparr>
                else if is_auth_timeout err then p\<lparr>pr_lastError := Some err\<rparr>
                else p)
      in if \<not> is_permission_error err then p1\<lparr>pr_lastError := Some err\<rparr> else p1)"

definition processError :: "bytes \<Rightarrow> protocol \<Rightarrow> protocol" where
  "processError m p =
     (let err = toError (td_decode m);
          ctx = err_permission err;
          isMux = (case ctx of
                     Some c \<Rightarrow> (case ss_mux (pr_subs p) of
                                 Some j \<Rightarrow> sb_subject (sub_of p j) = perm_subject c
                               | None \<Rightarrow> False)
                   | None \<Rightarrow> False);
          p1 = (if is_permission_error err
                then let p2 = with_subs (\<lambda>t. fst (subs_handleError (Some err) t)) p;
                         p3 = p2\<lparr>pr_mux := fst (mux_handleError isMux err (pr_mux p2))\<rparr>
                     in if isMux then with_subs (subs_setMux None) p3 else p3
                else p)
      in pr_handleError err (dispatch_status (Ev_Error (err_code err) (if is_permission_error err then ctx else None)) p1))"

section \<open>Pings and pongs\<close>

definition processPing :: "protocol \<Rightarrow> protocol" where
  "processPing p = transport_send PONG_CMD p"

definition processPong :: "protocol \<Rightarrow> protocol" where
  "processPong p =
     (case pr_pongs p of
        [] \<Rightarrow> p
      | d # ds \<Rightarrow> settle_deferred d P_Resolved (p\<lparr>pr_pongs := ds\<rparr>))"

section \<open>Closing\<close>

definition pr_close :: "js_error option \<Rightarrow> protocol \<Rightarrow> protocol" where
  "pr_close err p =
     (if pr_closed p then p
      else let p1 = p\<lparr>pr_heartbeats := hb_cancel False (pr_heartbeats p)\<rparr>;
               p2 = (call_connectError err p1)\<lparr>pr_connectError := None\<rparr>;
               p3 = p2\<lparr>pr_mux := mux_close (pr_mux p2)\<rparr>;
               p4 = with_subs subs_close p3
           in p4\<lparr>pr_closed := True, pr_transportClosed := Some err, pr_closedResult := Some err\<rparr>)"

section \<open>Server information\<close>

record peer =
  pe_urls :: url_env
  pe_info :: "string \<Rightarrow> js_error + server_info"
  pe_connect :: "bool \<Rightarrow> string option \<Rightarrow> js_error + string"

text \<open>The part of \<open>processInfo\<close> that runs once per connection: the features, the TLS name and
  the \<open>CONNECT\<close> line with the first ping.\<close>

definition first_info :: "peer \<Rightarrow> server_info \<Rightarrow> protocol \<Rightarrow> protocol \<times> (js_error + unit)" where
  "first_info pe info p =
     (case rbind (parseSemVer (si_version info)) (\<lambda>v. features_update v (pr_features p)) of
        Inl e \<Rightarrow> (p, Inl e)
      | Inr fs \<Rightarrow>
          let p1 = p\<lparr>pr_features := fs, pr_infoReceived := True\<rparr>;
              p2 = (if pr_encrypted p1 then p1\<lparr>pr_servers := updateTLSName (pr_servers p1)\<rparr> else p1)
          in (case pe_connect pe (si_headers info) (si_nonce info) of
                Inr cs \<Rightarrow>
                  (transport_send PING_CMD (transport_send (te_encode (''CONNECT '' @ cs @ CR_LF)) p2), Inr ())
              | Inl e \<Rightarrow> (pr_close (Some e) p2, Inr ())))"

definition current_server_string :: "protocol \<Rightarrow> string" where
  "current_server_string p =
     sv_listen (server_at (pr_servers p) (getCurrentServer (pr_servers p)))"

definition processInfo :: "peer \<Rightarrow> bytes \<Rightarrow> protocol \<Rightarrow> protocol \<times> (js_error + unit)" where
  "processInfo pe m p =
     (case pe_info pe (td_decode m) of
        Inl e \<Rightarrow> (p, Inl e)
      | Inr info \<Rightarrow>
          let p1 = p\<lparr>pr_info := Some info\<rparr>
          in (case (if co_ignoreClusterUpdates (pr_options p1) then Inr (pr_servers p1, None)
                    else rbind (update_servers (pe_urls pe) (si_connect_urls info) (Some (pr_encrypted p1)) (pr_servers p1))
                      (\<lambda>(svs, added, deleted). Inr (svs, Some (added, deleted)))) of
                Inl e \<Rightarrow> (p1, Inl e)
              | Inr (svs, updates) \<Rightarrow>
                  let p2 = p1\<lparr>pr_servers := svs\<rparr>
                  in (case (if pr_infoReceived p2 then (p2, Inr ()) else first_info pe info p2) of
                        (p3, Inl e) \<Rightarrow> (p3, Inl e)
                      | (p3, Inr u) \<Rightarrow>
                          let p4 = (case updates of
                                Some (a, d) \<Rightarrow> dispatch_status (Ev_Update a d) p3
                              | None \<Rightarrow> p3)
                          in (if si_ldm info then dispatch_status (Ev_LDM (current_server_string p4)) p4 else p4, Inr ()))))"

section \<open>Events\<close>

fun pr_push :: "peer \<Rightarrow> parser_event \<Rightarrow> protocol \<Rightarrow> protocol \<times> (js_error + unit)" where
  "pr_push pe (EvMsg m d) p = processMsg m d p"
| "pr_push pe EvOk p = (p, Inr ())"
| "pr_push pe (EvErr d) p = (processError d p, Inr ())"
| "pr_push pe EvPing p = (processPing p, Inr ())"
| "pr_push pe EvPong p = (processPong p, Inr ())"
| "pr_push pe (EvInfo d) p = processInfo pe d p"

section \<open>Reading the errors of the server\<close>

text \<open>A name as it stands between quotes: printable, without blanks and without quotes.\<close>

definition quotable :: "string \<Rightarrow> bool" where
  "quotable s \<longleftrightarrow> s \<noteq> [] \<and> (\<forall>c \<in> set s. 32 < char_code c \<and> char_code c < 127 \<and> c \<noteq> CHR 0x22)"

lemma leading_space_graph:
  "32 < char_code c \<Longrightarrow> char_code c < 127 \<Longrightarrow> leading_space (c # s) = None"
proof -
  assume c: "32 < char_code c" "char_code c < 127"
  have "\<forall>w \<in> set js_spaces. w \<noteq> [] \<and> \<not> (32 < char_code (hd w) \<and> char_code (hd w) < 127)" by code_simp
  then have "take (length w) (c # s) \<noteq> w" if "w \<in> set js_spaces" for w
    using that c by (cases w) fastforce+
  then show ?thesis by (auto simp: leading_space_def find_None_iff)
qed

lemma non_space_name:
  assumes "\<forall>c \<in> set a. 32 < char_code c \<and> char_code c < 127"
  shows "non_space (a @ CHR 0x22 # CHR '' '' # r) = a @ [CHR 0x22]" "non_space (a @ [CHR 0x22]) = a @ [CHR 0x22]"
proof -
  have q: "leading_space (CHR 0x22 # s) = None" for s
    by (rule leading_space_graph) (simp_all add: char_code_def)
  have b: "leading_space (CHR '' '' # r) \<noteq> None"
    by (simp add: leading_space_def js_spaces_def)
  show "non_space (a @ CHR 0x22 # CHR '' '' # r) = a @ [CHR 0x22]"
    using assms by (induction a) (use q b leading_space_graph in auto)
  show "non_space (a @ [CHR 0x22]) = a @ [CHR 0x22]"
    using assms by (induction a) (use q leading_space_graph in auto)
qed

lemma up_to_last_quote_name: "up_to_last_quote (a @ [CHR 0x22]) = Some a"
  by (induction a) auto

lemma quoted_here_name:
  assumes "quotable a"
  shows "quoted_here p (p @ a @ CHR 0x22 # CHR '' '' # r) = Some a" "quoted_here p (p @ a @ [CHR 0x22]) = Some a"
  using assms by (simp_all add: quoted_here_def quotable_def non_space_name up_to_last_quote_name)

lemma starts_with_simps [simp]:
  "starts_with [] s" "\<not> starts_with (x # p) []"
  "starts_with (x # p) (y # s) \<longleftrightarrow> x = y \<and> starts_with p s"
  by (auto simp: starts_with_def)

text \<open>A text with a blank before its quote is not found inside a quoted name.\<close>

lemma not_in_name:
  assumes "CHR 0x22 \<notin> set p" "CHR '' '' \<notin> set a"
  shows "\<not> starts_with (p @ CHR '' '' # w) (a @ CHR 0x22 # r)"
  using assms
proof (induction p arbitrary: a)
  case Nil
  then show ?case by (cases a) auto
next
  case (Cons x p)
  then show ?case by (cases a) auto
qed

lemma quoted_here_miss: "\<not> starts_with p s \<Longrightarrow> quoted_here p s = None"
  by (simp add: quoted_here_def)

lemma match_queue_skip:
  "\<not> starts_with (''using queue '' @ [CHR 0x22]) (c # s) \<Longrightarrow> match_queue (c # s) = match_queue s"
  using quoted_here_miss [of "''using queue '' @ [CHR 0x22]" "c # s"] by (simp only: match_queue.simps option.case simp_thms)

lemma match_queue_name:
  assumes "CHR '' '' \<notin> set a"
  shows "match_queue (a @ CHR 0x22 # r) = match_queue r"
proof -
  have n: "\<not> starts_with (''using'' @ CHR '' '' # ''queue '' @ [CHR 0x22]) (b @ CHR 0x22 # r)"
    if "CHR '' '' \<notin> set b" for b
    using that by (intro not_in_name) auto
  show ?thesis
    using assms
  proof (induction a)
    case Nil
    then show ?case using n [of "[]"] match_queue_skip [of "CHR 0x22" r] by (simp del: match_queue.simps)
  next
    case (Cons c a)
    have "match_queue (c # (a @ CHR 0x22 # r)) = match_queue (a @ CHR 0x22 # r)"
      using n [of "c # a"] Cons.prems by (intro match_queue_skip) (simp del: starts_with_simps)
    then show ?case using Cons by simp
  qed
qed

lemma match_queue_ub: "match_queue (CHR ''u'' # CHR ''b'' # r) = match_queue (CHR ''b'' # r)"
  by (rule match_queue_skip) simp

text \<open>Characters that start neither of the texts are passed over.\<close>

lemma match_operation_skip:
  "CHR ''P'' \<notin> set a \<Longrightarrow> CHR ''S'' \<notin> set a \<Longrightarrow> match_operation (a @ r) = match_operation r"
  by (induction a) (auto simp: quoted_here_miss)

lemma match_queue_skip_all: "CHR ''u'' \<notin> set a \<Longrightarrow> match_queue (a @ r) = match_queue r"
  by (induction a) (auto simp: quoted_here_miss)

lemma match_queue_operation:
  assumes "op = ''Publish'' \<or> op = ''Subscription''"
  shows "match_queue (op @ r) = match_queue r"
proof -
  have "match_queue (''Publish'' @ r) = match_queue r"
    using match_queue_skip_all [of "''P''" "''ublish'' @ r"] match_queue_ub [of "''lish'' @ r"]
      match_queue_skip_all [of "''blish''" r] by (simp del: match_queue.simps)
  moreover have "match_queue (''Subscription'' @ r) = match_queue r"
    using match_queue_skip_all [of "''S''" "''ubscription'' @ r"] match_queue_ub [of "''scription'' @ r"]
      match_queue_skip_all [of "''bscription''" r] by (simp del: match_queue.simps)
  ultimately show ?thesis using assms by blast
qed

lemma match_operation_here:
  "quoted_here (''Publish to '' @ [CHR 0x22]) s = Some t \<Longrightarrow> match_operation s = Some (''Publish'', t)"
  "quoted_here (''Subscription to '' @ [CHR 0x22]) s = Some t
    \<Longrightarrow> \<not> starts_with ''P'' s \<Longrightarrow> match_operation s = Some (''Subscription'', t)"
proof -
  show "quoted_here (''Publish to '' @ [CHR 0x22]) s = Some t \<Longrightarrow> match_operation s = Some (''Publish'', t)"
    by (cases s) (auto simp: quoted_here_def split: if_splits)
  show "quoted_here (''Subscription to '' @ [CHR 0x22]) s = Some t
      \<Longrightarrow> \<not> starts_with ''P'' s \<Longrightarrow> match_operation s = Some (''Subscription'', t)"
    by (cases s) (auto simp: quoted_here_miss)
qed

lemma match_queue_here:
  "quoted_here (''using queue '' @ [CHR 0x22]) s = Some t \<Longrightarrow> match_queue s = Some t"
  by (cases s) (simp_all add: quoted_here_miss)

definition permission_message :: "string \<Rightarrow> string \<Rightarrow> string option \<Rightarrow> string" where
  "permission_message op subj q =
     ''Permissions Violation for '' @ op @ '' to '' @ [CHR 0x22] @ subj @ [CHR 0x22]
     @ (case q of Some n \<Rightarrow> '' using queue '' @ [CHR 0x22] @ n @ [CHR 0x22] | None \<Rightarrow> [])"

lemma match_operation_message:
  assumes "quotable subj" "op = ''Publish'' \<or> op = ''Subscription''"
  shows "match_operation (permission_message op subj q) = Some (op, subj)"
proof -
  define r where "r = (case q of Some n \<Rightarrow> '' using queue '' @ [CHR 0x22] @ n @ [CHR 0x22] | None \<Rightarrow> [])"
  have r: "r = [] \<or> (\<exists>r'. r = CHR '' '' # r')" by (simp add: r_def split: option.split)
  define p where "p = op @ '' to '' @ [CHR 0x22]"
  have q: "quoted_here p (p @ subj @ CHR 0x22 # r) = Some subj"
    using r quoted_here_name [OF assms(1), of p] by auto
  have "match_operation (p @ subj @ CHR 0x22 # r) = Some (op, subj)"
    using assms(2)
  proof
    assume "op = ''Publish''"
    then show ?thesis using q match_operation_here(1) [of "p @ subj @ CHR 0x22 # r" subj] by (simp add: p_def)
  next
    assume "op = ''Subscription''"
    then show ?thesis using q match_operation_here(2) [of "p @ subj @ CHR 0x22 # r" subj] by (simp add: p_def)
  qed
  moreover have "match_operation (permission_message op subj q)
      = match_operation (''ermissions Violation for '' @ p @ subj @ CHR 0x22 # r)"
    by (simp add: permission_message_def p_def r_def quoted_here_miss)
  moreover have "match_operation (''ermissions Violation for '' @ p @ subj @ CHR 0x22 # r)
      = match_operation (p @ subj @ CHR 0x22 # r)"
    by (rule match_operation_skip) simp_all
  ultimately show ?thesis by simp
qed

lemma match_queue_tail:
  assumes "\<forall>n. q = Some n \<longrightarrow> quotable n"
  shows "match_queue (case q of Some n \<Rightarrow> '' using queue '' @ [CHR 0x22] @ n @ [CHR 0x22] | None \<Rightarrow> []) = q"
proof (cases q)
  case (Some n)
  have "quoted_here (''using queue '' @ [CHR 0x22]) ((''using queue '' @ [CHR 0x22]) @ n @ [CHR 0x22]) = Some n"
    using quoted_here_name(2) [of n "''using queue '' @ [CHR 0x22]"] assms Some by blast
  then have "match_queue ((''using queue '' @ [CHR 0x22]) @ n @ [CHR 0x22]) = Some n" by (rule match_queue_here)
  moreover have "match_queue ('' '' @ (''using queue '' @ [CHR 0x22]) @ n @ [CHR 0x22])
      = match_queue ((''using queue '' @ [CHR 0x22]) @ n @ [CHR 0x22])"
    by (rule match_queue_skip_all) simp
  ultimately show ?thesis using Some by (simp only: option.case append.simps)
qed simp

lemma quotable_no_blank:
  assumes "quotable s"
  shows "CHR '' '' \<notin> set s"
proof
  assume "CHR '' '' \<in> set s"
  then have "32 < char_code CHR '' ''" using assms unfolding quotable_def by blast
  then show False by (simp add: char_code_def)
qed

lemma match_queue_message:
  assumes "quotable subj" "op = ''Publish'' \<or> op = ''Subscription''" "\<forall>n. q = Some n \<longrightarrow> quotable n"
  shows "match_queue (permission_message op subj q) = q"
proof -
  define r where "r = (case q of Some n \<Rightarrow> '' using queue '' @ [CHR 0x22] @ n @ [CHR 0x22] | None \<Rightarrow> [])"
  have subj: "CHR '' '' \<notin> set subj" using quotable_no_blank [OF assms(1)] .
  have r: "match_queue r = q" unfolding r_def by (rule match_queue_tail [OF assms(3)])
  have "match_queue (permission_message op subj q)
      = match_queue (''Permissions Violation for '' @ op @ '' to '' @ [CHR 0x22] @ subj @ [CHR 0x22] @ r)"
    by (simp only: permission_message_def r_def)
  also have "\<dots> = match_queue (op @ '' to '' @ [CHR 0x22] @ subj @ [CHR 0x22] @ r)"
    by (rule match_queue_skip_all) simp
  also have "\<dots> = match_queue ('' to '' @ [CHR 0x22] @ subj @ [CHR 0x22] @ r)"
    by (rule match_queue_operation [OF assms(2)])
  also have "\<dots> = match_queue ([CHR 0x22] @ subj @ [CHR 0x22] @ r)"
    by (rule match_queue_skip_all) simp
  also have "\<dots> = match_queue (subj @ [CHR 0x22] @ r)"
    using match_queue_name [of "[]" "subj @ [CHR 0x22] @ r"] by (simp del: match_queue.simps)
  also have "\<dots> = match_queue r"
    using match_queue_name [OF subj, of r] by (simp del: match_queue.simps)
  finally show ?thesis using r by (rule trans)
qed

lemma contains_prefix: "contains p (p @ s)"
  by (cases p; cases s) auto

lemma permission_message_violation: "contains ''permissions violation'' (to_lower (permission_message op subj q))"
proof -
  have "to_lower ''Permissions Violation'' = ''permissions violation''" by code_simp
  then have "to_lower (permission_message op subj q) = ''permissions violation'' @ to_lower (drop 21 (permission_message op subj q))"
    by (simp add: permission_message_def to_lower_def)
  then show ?thesis using contains_prefix by metis
qed

text \<open>
  The message a server sends for a permission violation becomes an error with the operation,
  the subject and the queue it names, and it is a permission error and no other kind.
\<close>
theorem permission_errors_are_read:
  assumes "quotable subj" "op = ''Publish'' \<or> op = ''Subscription''" "\<forall>n. q = Some n \<longrightarrow> quotable n"
  defines "e \<equiv> toError (permission_message op subj q)"
  shows "err_permission e = Some \<lparr>perm_operation = to_lower op, perm_subject = subj, perm_queue = q\<rparr>
    \<and> is_permission_error e \<and> \<not> is_auth_error e \<and> \<not> is_protocol_error e \<and> \<not> is_auth_timeout e"
proof -
  have "e = Nats_Error (permission_message op subj q) (code_string EC_PermissionsViolation)
      (Some \<lparr>perm_operation = to_lower op, perm_subject = subj, perm_queue = q\<rparr>) None None"
    unfolding e_def toError_def Let_def
    using match_operation_message [OF assms(1,2)] match_queue_message [OF assms(1-3)]
      permission_message_violation [of op subj q] by (simp del: contains.simps)
  then show ?thesis
    by (simp add: is_permission_error_def is_auth_error_def is_protocol_error_def is_auth_timeout_def has_code_def)
qed

theorem permission_errors_are_read_witness:
  "err_permission (toError (permission_message ''Subscription'' ''a.b'' (Some ''w'')))
    = Some \<lparr>perm_operation = ''subscription'', perm_subject = ''a.b'', perm_queue = Some ''w''\<rparr>"
proof -
  have "to_lower ''Subscription'' = ''subscription''" by code_simp
  then show ?thesis
    using permission_errors_are_read [of "''a.b''" "''Subscription''" "Some ''w''"]
    by (simp add: quotable_def char_code_def)
qed

section \<open>Flushes and pongs\<close>

text \<open>A flush with its own deferred, a pong from the server, and the reset of a reconnect.\<close>

datatype pong_event = Ask | Answer | Reset

definition flush_new :: "protocol \<Rightarrow> protocol \<times> nat" where
  "flush_new p = (let (p1, d) = new_deferred p in (flush d p1, d))"

fun pong_run :: "pong_event list \<Rightarrow> protocol \<Rightarrow> protocol" where
  "pong_run [] p = p"
| "pong_run (Ask # es) p = pong_run es (fst (flush_new p))"
| "pong_run (Answer # es) p = pong_run es (processPong p)"
| "pong_run (Reset # es) p = pong_run es (resetOutbound p)"

definition pongs_ok :: "protocol \<Rightarrow> bool" where
  "pongs_ok p \<longleftrightarrow> distinct (pr_pongs p)
     \<and> (\<forall>d \<in> set (pr_pongs p). d < pr_fresh p \<and> pr_promise p d = P_Pending)"

text \<open>What becomes of a flush with \<open>k\<close> pongs due before its own.\<close>

fun flush_outcome :: "nat \<Rightarrow> pong_event list \<Rightarrow> promise" where
  "flush_outcome k [] = P_Pending"
| "flush_outcome k (Ask # es) = flush_outcome k es"
| "flush_outcome 0 (Answer # es) = P_Resolved"
| "flush_outcome (Suc k) (Answer # es) = flush_outcome k es"
| "flush_outcome k (Reset # es) = P_Rejected (Some (error_for_code EC_Disconnect None))"

lemma flushPending_pongs [simp]:
  "pr_pongs (flushPending p) = pr_pongs p" "pr_promise (flushPending p) = pr_promise p"
  "pr_fresh (flushPending p) = pr_fresh p"
  by (simp_all add: flushPending_def transport_send_def case_prod_beta)

lemma flush_new_pongs:
  "pr_pongs (fst (flush_new p)) = pr_pongs p @ [pr_fresh p]"
  "pr_promise (fst (flush_new p)) = (pr_promise p)(pr_fresh p := P_Pending)"
  "pr_fresh (fst (flush_new p)) = Suc (pr_fresh p)" "snd (flush_new p) = pr_fresh p"
  by (simp_all add: flush_new_def new_deferred_def flush_def case_prod_beta)

lemma settle_deferred_simps [simp]:
  "pr_pongs (settle_deferred d r p) = pr_pongs p" "pr_fresh (settle_deferred d r p) = pr_fresh p"
  "pr_promise (settle_deferred d r p) e = (if e = d \<and> pr_promise p d = P_Pending then r else pr_promise p e)"
  by (simp_all add: settle_deferred_def)

lemma settle_all:
  assumes "r \<noteq> P_Pending"
  shows "pr_promise (fold (\<lambda>d. settle_deferred d r) ds p) e
    = (if e \<in> set ds \<and> pr_promise p e = P_Pending then r else pr_promise p e)"
    "pr_pongs (fold (\<lambda>d. settle_deferred d r) ds p) = pr_pongs p"
    "pr_fresh (fold (\<lambda>d. settle_deferred d r) ds p) = pr_fresh p"
  by (induction ds arbitrary: p) (use assms in auto)

lemma resetOutbound_pongs:
  "pr_pongs (resetOutbound p) = []" "pr_fresh (resetOutbound p) = pr_fresh p"
  "pr_promise (resetOutbound p) e = (if e \<in> set (pr_pongs p) \<and> pr_promise p e = P_Pending
     then P_Rejected (Some (error_for_code EC_Disconnect None)) else pr_promise p e)"
  by (simp_all add: resetOutbound_def Let_def settle_all)

lemma pongs_ok_steps:
  assumes "pongs_ok p"
  shows "pongs_ok (fst (flush_new p))" "pongs_ok (processPong p)" "pongs_ok (resetOutbound p)"
proof -
  show "pongs_ok (fst (flush_new p))"
    using assms by (fastforce simp: pongs_ok_def flush_new_pongs)
  show "pongs_ok (processPong p)"
    using assms by (auto simp: pongs_ok_def processPong_def split: list.splits)
  show "pongs_ok (resetOutbound p)"
    using assms by (simp add: pongs_ok_def resetOutbound_pongs)
qed

text \<open>A deferred that is settled stays so.\<close>

lemma pong_run_settled:
  "pongs_ok p \<Longrightarrow> d < pr_fresh p \<Longrightarrow> pr_promise p d \<noteq> P_Pending \<Longrightarrow> pr_promise (pong_run es p) d = pr_promise p d"
proof (induction es p rule: pong_run.induct)
  case (2 es p)
  then show ?case using pongs_ok_steps(1) [OF 2(2)] by (simp add: flush_new_pongs)
next
  case (3 es p)
  have "pr_fresh (processPong p) = pr_fresh p" "pr_promise (processPong p) d = pr_promise p d"
    using 3(4) by (auto simp: processPong_def split: list.split)
  then show ?case using 3 pongs_ok_steps(2) [OF 3(2)] by simp
next
  case (4 es p)
  then show ?case using pongs_ok_steps(3) [OF 4(2)] by (simp add: resetOutbound_pongs)
qed simp

lemma pong_run_outcome:
  "pongs_ok p \<Longrightarrow> k < length (pr_pongs p) \<Longrightarrow> pr_promise (pong_run es p) (pr_pongs p ! k) = flush_outcome k es"
proof (induction es p arbitrary: k rule: pong_run.induct)
  case (1 p)
  then show ?case by (simp add: pongs_ok_def)
next
  case (2 es p)
  then show ?case
    using 2(1) [of k] pongs_ok_steps(1) [OF 2(2)] by (simp add: flush_new_pongs nth_append)
next
  case (3 es p)
  obtain d ds where ds: "pr_pongs p = d # ds" using 3(3) by (cases "pr_pongs p") auto
  have pp: "processPong p = settle_deferred d P_Resolved (p\<lparr>pr_pongs := ds\<rparr>)" by (simp add: processPong_def ds)
  show ?case
  proof (cases k)
    case 0
    have "pr_promise (processPong p) d = P_Resolved" "d < pr_fresh (processPong p)"
      using 3(2) ds by (simp_all add: pp pongs_ok_def)
    then show ?thesis
      using pong_run_settled [OF pongs_ok_steps(2) [OF 3(2)], of d es] 0 by (simp add: ds)
  next
    case (Suc j)
    then show ?thesis
      using 3(1) [OF pongs_ok_steps(2) [OF 3(2)], of j] 3(3) by (simp add: ds pp)
  qed
next
  case (4 es p)
  let ?d = "pr_pongs p ! k"
  have d: "?d < pr_fresh p" "pr_promise p ?d = P_Pending" "?d \<in> set (pr_pongs p)"
    using 4(2,3) by (auto simp: pongs_ok_def)
  then show ?case
    using pong_run_settled [OF pongs_ok_steps(3) [OF 4(2)], of ?d es] by (simp add: resetOutbound_pongs)
qed

text \<open>
  C5: A flush resolves with exactly the pong that answers its own ping: after the pongs of all
  flushes before it, whatever flushes come after it, unless a reset comes first, which rejects
  it; until then it is pending.
\<close>
theorem flush_resolves_with_its_pong:
  assumes "pongs_ok p" "flush_new p = (p1, d)"
  shows "pr_promise (pong_run es p1) d = flush_outcome (length (pr_pongs p)) es"
proof -
  have p1: "p1 = fst (flush_new p)" and d: "d = pr_fresh p" using assms(2) flush_new_pongs(4) [of p] by auto
  have "pr_pongs p1 ! length (pr_pongs p) = d" "length (pr_pongs p) < length (pr_pongs p1)"
    unfolding p1 d by (simp_all add: flush_new_pongs)
  then show ?thesis
    using pong_run_outcome [OF pongs_ok_steps(1) [OF assms(1)], of "length (pr_pongs p)" es] by (simp add: p1)
qed

theorem flush_resolves_with_its_pong_witness:
  "pr_promise (pong_run [Ask, Answer, Answer] (fst (flush_new (fst (flush_new sample_protocol))))) 1 = P_Resolved"
proof -
  define p where "p = fst (flush_new sample_protocol)"
  have "pongs_ok sample_protocol"
    by (simp add: pongs_ok_def sample_protocol_def initial_protocol_def)
  then have ok: "pongs_ok p" unfolding p_def by (rule pongs_ok_steps)
  have p: "pr_pongs p = [0]" "pr_fresh p = 1"
    by (simp_all add: p_def flush_new_pongs sample_protocol_def initial_protocol_def)
  have "flush_new p = (fst (flush_new p), 1)"
    by (rule prod_eqI) (simp_all add: flush_new_pongs p)
  from flush_resolves_with_its_pong [OF ok this, of "[Ask, Answer, Answer]"] p
  show ?thesis unfolding p_def by simp
qed

section \<open>Automatic unsubscription\<close>

fun process_all :: "(msg_arg \<times> bytes) list \<Rightarrow> protocol \<Rightarrow> protocol" where
  "process_all [] p = p"
| "process_all ((m, d) # ms) p = process_all ms (fst (processMsg m d p))"

text \<open>A live callback subscription with a limit, after \<open>k\<close> messages.\<close>

definition limited :: "nat \<Rightarrow> nat \<Rightarrow> nat \<Rightarrow> nat \<Rightarrow> protocol \<Rightarrow> bool" where
  "limited i sd mx k p \<longleftrightarrow> subs_ok (pr_subs p) \<and> map_of (ss_subs (pr_subs p)) sd = Some i
     \<and> sb_callback (sub_of p i) = Cb_User \<and> sb_max (sub_of p i) = Some mx
     \<and> qi_received (sb_iter (sub_of p i)) = int k \<and> \<not> pr_closed p \<and> out_ok p"

lemma sendCommand_simps [simp]:
  "pr_subs (sendCommand c ps p) = pr_subs p" "pr_closed (sendCommand c ps p) = pr_closed p"
  "sub_of (sendCommand c ps p) = sub_of p"
  by (simp_all add: sendCommand_def flushPending_def transport_send_def sub_of_def case_prod_beta Let_def fun_eq_iff)

lemma with_subs_simps [simp]:
  "pr_subs (with_subs f p) = f (pr_subs p)" "pr_closed (with_subs f p) = pr_closed p"
  "out_stream (with_subs f p) = out_stream p" "out_ok (with_subs f p) = out_ok p"
  "sub_of (with_subs (upd_sub i g) p) j = (if j = i then g (sub_of p i) else sub_of p j)"
  by (simp_all add: with_subs_def out_stream_def out_ok_def sub_of_def)

lemma limited_sid:
  assumes "limited i sd mx k p"
  shows "ss_sidCounter (pr_subs p) \<noteq> 0" "sb_sid (sub_of p i) = sd"
proof -
  have "(sd, i) \<in> set (ss_subs (pr_subs p))" using assms by (simp add: limited_def map_of_SomeD)
  then show "ss_sidCounter (pr_subs p) \<noteq> 0" "sb_sid (sub_of p i) = sd"
    using assms by (auto simp: limited_def subs_ok_def sub_of_def)
qed

definition after_message :: "nat \<Rightarrow> msg_arg \<Rightarrow> bytes \<Rightarrow> protocol \<Rightarrow> protocol" where
  "after_message i m d p =
     with_subs (upd_sub i (sub_deliver None (Some (new_msg m d))))
       (count_received i (p\<lparr>pr_inMsgs := pr_inMsgs p + 1, pr_inBytes := pr_inBytes p + length d\<rparr>))"

lemma after_message_simps:
  assumes "limited i sd mx k p"
  shows "sub_of (after_message i m d p) i = (sub_of p i)
      \<lparr>sb_iter := (sb_iter (sub_of p i))\<lparr>qi_received := int (Suc k)\<rparr>,
       sb_calls := sb_calls (sub_of p i) @ [(None, Some (new_msg m d))]\<rparr>"
    "ss_subs (pr_subs (after_message i m d p)) = ss_subs (pr_subs p)"
    "out_stream (after_message i m d p) = out_stream p" "out_ok (after_message i m d p)"
    "subs_ok (pr_subs (after_message i m d p))" "\<not> pr_closed (after_message i m d p)"
proof -
  have "subs_ok (upd_sub i (sub_deliver None (Some (new_msg m d))) (upd_sub i
      (\<lambda>s. s\<lparr>sb_iter := sb_iter s\<lparr>qi_received := qi_received (sb_iter s) + 1\<rparr>\<rparr>) (pr_subs p)))"
    using assms by (intro subs_ok_upd) (simp_all add: limited_def)
  then show "subs_ok (pr_subs (after_message i m d p))"
    by (simp add: after_message_def count_received_def)
qed (use assms in \<open>simp_all add: after_message_def count_received_def limited_def sub_deliver_def
    sub_of_def out_stream_def out_ok_def with_subs_def\<close>)

lemma processMsg_limited:
  assumes "limited i sd mx k p" "sid m = int sd"
  shows "processMsg m d p =
    (if mx \<le> Suc k then pr_unsubscribe i None (after_message i m d p) else after_message i m d p, Inr ())"
proof -
  let ?p = "p\<lparr>pr_inMsgs := pr_inMsgs p + 1, pr_inBytes := pr_inBytes p + length d\<rparr>"
  have s: "sub_by_sid (sid m) ?p = Some i"
    using assms by (simp add: sub_by_sid_def subs_get_def limited_def)
  have cb: "sb_callback (sub_of (count_received i ?p) i) = Cb_User"
    using assms(1) by (simp add: count_received_def limited_def sub_of_def with_subs_def)
  have d: "deliver i (new_msg m d) (count_received i ?p) = (after_message i m d p, Inr ())"
    using cb by (simp add: deliver_def after_message_def)
  have mx: "sb_max (sub_of (after_message i m d p) i) = Some mx"
    using assms(1) after_message_simps(1) [OF assms(1)] by (simp add: limited_def)
  show ?thesis
    using s d mx limited_sid(1) [OF assms(1)] after_message_simps(1) [OF assms(1), of m d]
    by (simp add: processMsg_def Let_def)
qed

lemma limited_more:
  "limited i sd mx k p \<Longrightarrow> limited i sd mx (Suc k) (after_message i m d p)"
  using after_message_simps [of i sd mx k p m d] by (simp add: limited_def)

definition unsub_line :: "nat \<Rightarrow> bytes" where
  "unsub_line sd = te_encode (''UNSUB '' @ show_nat sd @ CR_LF)"

lemma unsubscribe_limited:
  assumes "limited i sd mx k p"
  defines "p' \<equiv> pr_unsubscribe i None p"
  shows "map_of (ss_subs (pr_subs p')) sd = None" "sb_calls (sub_of p' i) = sb_calls (sub_of p i)"
    "out_stream p' = out_stream p @ unsub_line sd" "\<not> pr_closed p'" "subs_ok (pr_subs p')"
proof -
  have sd: "sb_sid (sub_of p i) = sd" by (rule limited_sid [OF assms(1)])
  define q where "q = with_subs (upd_sub i (\<lambda>s. s\<lparr>sb_max := None\<rparr>)) (sendCommand (unsub_line sd) [] p)"
  have p': "p' = with_subs (subs_cancel i) q"
    using assms(1) by (simp add: p'_def pr_unsubscribe_def pr_unsub_def limited_def sd q_def unsub_line_def)
  have q: "ss_subs (pr_subs q) = ss_subs (pr_subs p)" "sb_sid (sub_of q i) = sd"
      "sb_calls (sub_of q i) = sb_calls (sub_of p i)" "subs_ok (pr_subs q)"
    using assms(1) sd by (simp_all add: q_def limited_def subs_ok_upd)
  show "out_stream p' = out_stream p @ unsub_line sd"
    using assms(1) sendCommand_stream [of p "unsub_line sd" "[]"] by (simp add: p' q_def limited_def)
  show "\<not> pr_closed p'" using assms(1) by (simp add: p' q_def limited_def)
  show "subs_ok (pr_subs p')" using q(4) by (simp add: p' subs_ok_cancel)
  show "map_of (ss_subs (pr_subs p')) sd = None"
    using q(1,2) by (simp add: p' subs_cancel_def Let_def sub_of_def delete_conv')
  have "sub_of p' i = sub_close (sub_of q i)"
    by (simp add: p' sub_of_def subs_cancel_def Let_def)
  moreover have "sb_calls (sub_close s) = sb_calls s" for s
    by (simp add: sub_close_def sub_cancelTimeout_def sub_stop_def sub_push_def Let_def)
  ultimately show "sb_calls (sub_of p' i) = sb_calls (sub_of p i)" using q(3) by simp
qed

lemma process_unknown:
  "map_of (ss_subs (pr_subs p)) sd = None \<Longrightarrow> \<forall>(m, d) \<in> set ms. sid m = int sd \<Longrightarrow>
    pr_subs (process_all ms p) = pr_subs p \<and> out_stream (process_all ms p) = out_stream p"
proof (induction ms arbitrary: p)
  case (Cons x ms)
  obtain m d where x: "x = (m, d)" by force
  let ?p = "p\<lparr>pr_inMsgs := pr_inMsgs p + 1, pr_inBytes := pr_inBytes p + length d\<rparr>"
  have "processMsg m d p = (?p, Inr ())"
    using Cons.prems by (simp add: processMsg_def sub_by_sid_def subs_get_def x Let_def)
  then show ?case using Cons.IH [of ?p] Cons.prems by (simp add: x out_stream_def)
qed simp

lemma process_limited:
  "limited i sd mx k p \<Longrightarrow> k < mx \<Longrightarrow> \<forall>(m, d) \<in> set ms. sid m = int sd \<Longrightarrow>
    sb_calls (sub_of (process_all ms p) i)
      = sb_calls (sub_of p i) @ map (\<lambda>(m, d). (None, Some (new_msg m d))) (take (mx - k) ms)
    \<and> (sub_by_sid (int sd) (process_all ms p) = None \<longleftrightarrow> mx \<le> k + length ms)
    \<and> out_stream (process_all ms p) = out_stream p @ (if mx \<le> k + length ms then unsub_line sd else [])"
proof (induction ms arbitrary: p k)
  case Nil
  then show ?case by (simp add: limited_def sub_by_sid_def subs_get_def)
next
  case (Cons x ms)
  obtain m d where x: "x = (m, d)" by force
  have sd: "sid m = int sd" and ms: "\<forall>(m, d) \<in> set ms. sid m = int sd" using Cons.prems(3) by (auto simp: x)
  note step = processMsg_limited [OF Cons.prems(1) sd, of d]
  note aft = after_message_simps [OF Cons.prems(1), of m d]
  show ?case
  proof (cases "mx \<le> Suc k")
    case True
    note un = unsubscribe_limited [OF limited_more [OF Cons.prems(1)], of m d]
    let ?q = "pr_unsubscribe i None (after_message i m d p)"
    have "pr_subs (process_all ms ?q) = pr_subs ?q" "out_stream (process_all ms ?q) = out_stream ?q"
      using process_unknown [OF un(1) ms] by auto
    moreover have "mx = Suc k" using True Cons.prems(2) by simp
    ultimately show ?thesis
      using step un aft by (simp add: x sub_of_def sub_by_sid_def subs_get_def)
  next
    case False
    then show ?thesis
      using Cons.IH [OF limited_more [OF Cons.prems(1), of m d] _ ms] step aft
      by (simp add: x take_Cons' Suc_diff_Suc)
  qed
qed

text \<open>
  C7: A callback subscription with a limit of \<open>mx\<close> messages calls back with exactly the first
  \<open>mx\<close> of the messages that arrive for it, in order; with the last of them it leaves the
  table and one \<open>UNSUB\<close> goes out, and before that nothing is sent.
\<close>
theorem limit_is_exact:
  assumes "limited i sd mx 0 p" "0 < mx" "\<forall>(m, d) \<in> set ms. sid m = int sd" "sb_calls (sub_of p i) = []"
  shows "sb_calls (sub_of (process_all ms p) i)
      = map (\<lambda>(m, d). (None, Some (new_msg m d))) (take mx ms)
    \<and> (sub_by_sid (int sd) (process_all ms p) = None \<longleftrightarrow> mx \<le> length ms)
    \<and> out_stream (process_all ms p) = out_stream p @ (if mx \<le> length ms then unsub_line sd else [])"
  using process_limited [OF assms(1,2,3)] assms(4) by simp

definition limited_sub :: subscription where
  "limited_sub = new_subscription ''a'' \<lparr>so_queue = None, so_max = Some 2, so_timeout = None, so_callback = True\<rparr>"

definition with_limited_sub :: protocol where
  "with_limited_sub = with_subs (\<lambda>t. subs_add 0 (upd_sub 0 (\<lambda>_. limited_sub) t)) sample_protocol"

theorem limit_is_exact_witness:
  "length (sb_calls (sub_of (process_all (replicate 5 (newMsgArg\<lparr>sid := 1\<rparr>, [7])) with_limited_sub) 0)) = 2"
proof -
  have subs: "pr_subs sample_protocol = new_subs" "\<not> pr_closed sample_protocol" "out_ok sample_protocol"
    by (simp_all add: sample_protocol_def initial_protocol_def out_ok_def dq_ok_def dq_bytes_def new_data_buffer_def)
  have "subs_ok (upd_sub 0 (\<lambda>_. limited_sub) new_subs)" by (simp add: subs_ok_def new_subs_def)
  then have "subs_ok (pr_subs with_limited_sub)"
    by (simp add: with_limited_sub_def subs subs_ok_add new_subs_def)
  then have "limited 0 1 2 0 with_limited_sub"
    by (simp add: limited_def with_limited_sub_def sub_of_def subs subs_add_def Let_def limited_sub_def
        new_subscription_def new_qiter_def new_subs_def)
  moreover have "sb_calls (sub_of with_limited_sub 0) = []"
    by (simp add: with_limited_sub_def sub_of_def subs subs_add_def Let_def limited_sub_def new_subscription_def)
  ultimately show ?thesis
    using limit_is_exact [of 0 1 2 with_limited_sub "replicate 5 (newMsgArg\<lparr>sid := 1\<rparr>, [7])"] by simp
qed

section \<open>Authentication errors\<close>

lemma settle_deferred_fields [simp]:
  "pr_lastError (settle_deferred d r p) = pr_lastError p" "pr_options (settle_deferred d r p) = pr_options p"
  "pr_connectError (settle_deferred d r p) = pr_connectError p" "pr_closed (settle_deferred d r p) = pr_closed p"
  "pr_abortReconnect (settle_deferred d r p) = pr_abortReconnect p" "pr_mux (settle_deferred d r p) = pr_mux p"
  "pr_disconnects (settle_deferred d r p) = pr_disconnects p" "pr_subs (settle_deferred d r p) = pr_subs p"
  by (simp_all add: settle_deferred_def)

lemma handleError_auth:
  assumes "is_auth_error e"
  shows "pr_handleError e p = (handleAuthError e p)\<lparr>pr_lastError := Some e\<rparr>"
  using assms
  by (auto simp: pr_handleError_def is_auth_error_def is_permission_error_def has_code_def)

text \<open>
  Two authentication errors in a row make the client give up reconnecting exactly when
  they have the same code and the option not to ignore this is set explicitly; a connect that
  is waiting is rejected with the first of them, and without one each drops the transport.
\<close>
theorem repeated_auth_error_aborts:
  assumes "is_auth_error e1" "is_auth_error e2" "pr_lastError p = None" "\<not> pr_abortReconnect p"
  defines "p2 \<equiv> pr_handleError e2 (pr_handleError e1 p)"
  shows "(pr_abortReconnect p2 \<longleftrightarrow> err_code e1 = err_code e2 \<and> co_ignoreAuthErrorAbort (pr_options p) = Some False)
    \<and> pr_lastError p2 = Some e2
    \<and> (\<forall>d. pr_connectError p = Some d \<and> pr_promise p d = P_Pending \<longrightarrow> pr_promise p2 d = P_Rejected (Some e1))
    \<and> (pr_connectError p = None \<longrightarrow> pr_disconnects p2 = pr_disconnects p + 2)"
  using assms(3,4) unfolding p2_def handleError_auth [OF assms(1)] handleError_auth [OF assms(2)]
  by (auto simp: handleAuthError_def Let_def call_connectError_def pr_disconnect_def dispatch_status_def
      split: option.splits)

theorem repeated_auth_error_aborts_witness:
  "pr_abortReconnect (pr_handleError (error_for_code EC_AuthorizationViolation None)
     (pr_handleError (error_for_code EC_AuthorizationViolation None) sample_protocol))"
  using repeated_auth_error_aborts [of "error_for_code EC_AuthorizationViolation None"
      "error_for_code EC_AuthorizationViolation None" sample_protocol]
  by (simp add: is_auth_error_def sample_protocol_def initial_protocol_def sample_options_def)

section \<open>What closing leaves\<close>

text \<open>A request settled with an error.\<close>

definition failed_with :: "js_error \<Rightarrow> request \<Rightarrow> bool" where
  "failed_with e r \<longleftrightarrow> (case rq_kind r of
      One \<Rightarrow> rq_deferred r = Rejected e
    | Many s \<Rightarrow> rq_done r \<and> (\<exists>cs. rq_calls r = cs @ [Call_Err e, Call_End]))"

lemma resolver_error:
  fixes e :: js_error
  assumes "mux_ok m" "(t, i) \<in> set (mu_reqs m)"
  defines "m' \<equiv> request_resolver i (Some e) None m"
  shows "mu_reqs m' = AList.delete t (mu_reqs m)" "failed_with e (mu_store m' i)"
    "j \<noteq> i \<Longrightarrow> mu_store m' j = mu_store m j" "mux_ok m'"
proof -
  have ti: "rq_token (mu_store m i) = t" "request_open (mu_store m i)"
    using assms(1,2) by (auto simp: mux_ok_def)
  have kind: "rq_kind (mu_store (request_cancel i x m1) i) = rq_kind (mu_store m1 i)" for x m1
    by (auto simp: request_cancel_def settle_with_def end_many_def split: request_kind.splits option.splits)
  show r: "mu_reqs m' = AList.delete t (mu_reqs m)"
    using ti by (simp add: m'_def request_resolver_def Let_def request_cancel_simps settle_with_def
        split: request_kind.split)
  show s: "mu_store m' j = mu_store m j" if "j \<noteq> i" for j
    using that by (simp add: m'_def request_resolver_def Let_def request_cancel_simps split: request_kind.split)
  show "mux_ok m'"
  proof (rule mux_ok_delete [OF assms(1) r])
    fix k assume "(t, k) \<notin> set (mu_reqs m)"
    then have "k \<noteq> i" using assms(2) by blast
    then show "mu_store m' k = mu_store m k" by (rule s)
  qed
  show "failed_with e (mu_store m' i)"
  proof (cases "rq_kind (mu_store m i)")
    case One
    then have "rq_deferred (mu_store m i) = Pending" using ti(2) by (simp add: request_open_def)
    then show ?thesis
      using One by (simp add: m'_def request_resolver_def failed_with_def kind settle_with_def request_cancel_one Let_def)
  next
    case (Many s)
    then show ?thesis
      using ti(2) request_cancel_many [of m i s "Some e"]
      by (simp add: m'_def request_resolver_def failed_with_def kind request_open_def)
  qed
qed

lemma resolve_all_error:
  "mux_ok m \<Longrightarrow> mu_reqs m = al \<Longrightarrow>
    mu_reqs (fold (\<lambda>i. request_resolver i (Some e) None) (map snd al) m) = []
    \<and> (\<forall>i \<in> snd ` set al. failed_with e (mu_store (fold (\<lambda>i. request_resolver i (Some e) None) (map snd al) m) i))
    \<and> (\<forall>j. j \<notin> snd ` set al \<longrightarrow>
        mu_store (fold (\<lambda>i. request_resolver i (Some e) None) (map snd al) m) j = mu_store m j)"
proof (induction al arbitrary: m)
  case (Cons x al)
  obtain t i where x: "x = (t, i)" by force
  let ?m = "request_resolver i (Some e) None m"
  have ti: "(t, i) \<in> set (mu_reqs m)" using Cons.prems(2) by (simp add: x)
  note r = resolver_error [OF Cons.prems(1) ti, where e = e]
  have "t \<notin> fst ` set al" "i \<notin> snd ` set al"
    using Cons.prems by (auto simp: mux_ok_def x)
  then have al: "mu_reqs ?m = al" "i \<notin> snd ` set al"
    using r(1) Cons.prems(2) by (simp_all add: x delete_id)
  show ?case using Cons.IH [OF r(4) al(1)] al(2) r(2,3) by (auto simp: x)
qed simp

lemma mux_close_settles:
  assumes "mux_ok m"
  shows "mu_reqs (mux_close m) = []"
    "i \<in> set (mux_all m) \<Longrightarrow> failed_with (error_for_code EC_Timeout None) (mu_store (mux_close m) i)"
  using resolve_all_error [OF assms refl, of "error_for_code EC_Timeout None"]
  by (auto simp: mux_close_def mux_all_def)

text \<open>A subscription that has stopped, or stops when what is queued has been consumed.\<close>

definition sub_closing :: "subscription \<Rightarrow> bool" where
  "sub_closing s \<longleftrightarrow> sub_isClosed s \<or> Fn (Some None) None \<in> set (qi_yields (sb_iter s))"

lemma sub_close_closing: "sub_closing (sub_close s)"
  by (simp add: sub_closing_def sub_close_def sub_isClosed_def sub_stop_def sub_push_def qi_stop_def
      qi_push_def sub_cancelTimeout_def Let_def)

lemma sub_closing_close: "sub_closing s \<Longrightarrow> sub_closing (sub_close s)"
  by (rule sub_close_closing)

lemma close_all_closing:
  "i \<in> set is \<or> sub_closing (ss_store t i) \<Longrightarrow>
    sub_closing (ss_store (fold (\<lambda>i. upd_sub i sub_close) is t) i)"
  by (induction "is" arbitrary: t) (auto simp: sub_close_closing)

text \<open>
  C8: Closing settles the requests, the subscriptions and a waiting connect, but not the flushes: every
  registered request fails with a timeout error and is unregistered, every subscription in the table
  stops, at once or behind the messages it still has, and a connect that is waiting is rejected. The
  queue of pings that wait for their pong is left as it is, and apart from the promise of the connect
  no promise changes: a flush that is pending when the connection closes stays pending. Closing
  again changes nothing.
\<close>
theorem close_settles_requests_and_subscriptions:
  fixes err :: "js_error option"
  assumes "\<not> pr_closed p" "mux_ok (pr_mux p)"
  defines "p' \<equiv> pr_close err p"
  shows "mu_reqs (pr_mux p') = []
    \<and> (\<forall>i \<in> set (mux_all (pr_mux p)). failed_with (error_for_code EC_Timeout None) (mu_store (pr_mux p') i))
    \<and> (\<forall>i \<in> set (subs_all (pr_subs p)). sub_closing (sub_of p' i))
    \<and> (\<forall>d. pr_connectError p = Some d \<and> pr_promise p d = P_Pending \<longrightarrow> pr_promise p' d = P_Rejected err)
    \<and> pr_pongs p' = pr_pongs p \<and> (\<forall>d. pr_connectError p \<noteq> Some d \<longrightarrow> pr_promise p' d = pr_promise p d)
    \<and> pr_closedResult p' = Some err \<and> pr_close err' p' = p'"
proof -
  let ?q = "call_connectError err (p\<lparr>pr_heartbeats := hb_cancel False (pr_heartbeats p)\<rparr>)"
  have q: "pr_mux ?q = pr_mux p" "pr_subs ?q = pr_subs p"
      "\<forall>d. pr_connectError p = Some d \<and> pr_promise p d = P_Pending \<longrightarrow> pr_promise ?q d = P_Rejected err"
      "pr_pongs ?q = pr_pongs p" "\<forall>d. pr_connectError p \<noteq> Some d \<longrightarrow> pr_promise ?q d = pr_promise p d"
    by (auto simp: call_connectError_def split: option.split)
  have p': "pr_mux p' = mux_close (pr_mux p)" "pr_subs p' = subs_close (pr_subs p)"
      "pr_promise p' = pr_promise ?q" "pr_pongs p' = pr_pongs ?q" "pr_closed p'" "pr_closedResult p' = Some err"
    using assms(1) q by (simp_all add: p'_def pr_close_def Let_def with_subs_def)
  have "sub_closing (sub_of p' i)" if "i \<in> set (subs_all (pr_subs p))" for i
    using that close_all_closing [of i "subs_all (pr_subs p)" "pr_subs p"]
    by (simp add: p' sub_of_def subs_close_def)
  then show ?thesis
    using p' q(3-5) mux_close_settles [OF assms(2)] by (simp add: pr_close_def)
qed

theorem close_settles_requests_and_subscriptions_witness:
  "mu_reqs (pr_mux (pr_close None (sample_protocol\<lparr>pr_mux := mux_add 0
     (new_mux\<lparr>mu_store := (\<lambda>_. new_request_one ''t'' ''q'' 100)\<rparr>)\<rparr>))) = []"
proof -
  have "mux_ok (mux_add 0 (new_mux\<lparr>mu_store := (\<lambda>_. new_request_one ''t'' ''q'' 100)\<rparr>))"
    by (simp add: mux_ok_def mux_add_def new_mux_def request_open_def new_request_one_def Let_def)
  then show ?thesis
    using close_settles_requests_and_subscriptions [of "sample_protocol\<lparr>pr_mux := mux_add 0
      (new_mux\<lparr>mu_store := (\<lambda>_. new_request_one ''t'' ''q'' 100)\<rparr>)\<rparr>" None]
    by (simp add: sample_protocol_def initial_protocol_def)
qed

end
