(* ===== verification/Dialing.thy ===== *)
theory Dialing
  imports Inbound
begin

text \<open>
  Connecting and reconnecting, \<open>prepare\<close>, \<open>dial\<close>, \<open>_doDial\<close> and \<open>dodialLoop\<close> of
  \<open>nats-base-client/protocol.ts\<close>. An attempt says what the network does: whether the socket
  opens, and which events the parser pushes until the race between the pong and the timer is
  decided; when the pong is still pending then, the timer has fired. A turn of the loop says
  what the clock shows and what the delay handler returns.
\<close>

section \<open>One attempt\<close>

definition prepare :: "protocol \<Rightarrow> protocol \<times> nat" where
  "prepare p =
     (let p1 = resetOutbound (p\<lparr>pr_info := None\<rparr>);
          (p2, d) = new_deferred p1;
          p3 = p2\<lparr>pr_pongs := d # pr_pongs p2, pr_connectError := Some d,
                  pr_sent := [], pr_transportClosed := None\<rparr>
      in (p3, d))"

record attempt =
  at_connect :: "js_error option"
  at_encrypted :: bool
  at_events :: "parser_event list"

text \<open>The reader: it stops at the first event whose handler throws.\<close>

fun read_events :: "peer \<Rightarrow> parser_event list \<Rightarrow> protocol \<Rightarrow> protocol" where
  "read_events pe [] p = p"
| "read_events pe (e # es) p =
     (case pr_push pe e p of
        (p1, Inl err) \<Rightarrow> p1
      | (p1, Inr u) \<Rightarrow> read_events pe es p1)"

definition upd_server :: "nat \<Rightarrow> (server_impl \<Rightarrow> server_impl) \<Rightarrow> protocol \<Rightarrow> protocol" where
  "upd_server i f p =
     p\<lparr>pr_servers := (pr_servers p)\<lparr>sp_store := (sp_store (pr_servers p))(i := map_option f (sp_store (pr_servers p) i))\<rparr>\<rparr>"

text \<open>What follows the pong of the first ping.\<close>

definition connect_done :: "protocol \<Rightarrow> protocol" where
  "connect_done p =
     (let p1 = sendSubscriptions (p\<lparr>pr_connected := True, pr_connectError := None\<rparr>);
          p2 = p1\<lparr>pr_connectedOnce := True\<rparr>;
          p3 = (case pr_server p2 of
                  Some i \<Rightarrow> upd_server i (\<lambda>s. s\<lparr>sv_didConnect := True, sv_reconnects := 0\<rparr>) p2
                | None \<Rightarrow> p2);
          p4 = flushPending p3
      in p4\<lparr>pr_heartbeats := hb_start (pr_heartbeats p4)\<rparr>)"

definition dial_failed :: "js_error option \<Rightarrow> protocol \<Rightarrow> protocol \<times> js_error option" where
  "dial_failed e p = (p\<lparr>pr_transportClosed := Some e\<rparr>, e)"

text \<open>The error of a failed attempt is absent when the pong was rejected without one.\<close>

definition dial :: "peer \<Rightarrow> attempt \<Rightarrow> protocol \<Rightarrow> protocol \<times> (js_error option + unit)" where
  "dial pe a p =
     (let (p1, d) = prepare p;
          p2 = (case at_connect a of
                  Some err \<Rightarrow> settle_deferred d (P_Rejected (Some err)) p1
                | None \<Rightarrow> read_events pe (at_events a) (p1\<lparr>pr_encrypted := at_encrypted a\<rparr>))
      in case pr_promise p2 d of
           P_Resolved \<Rightarrow> (connect_done p2, Inr ())
         | P_Rejected e \<Rightarrow> (let (p3, e') = dial_failed e p2 in (p3, Inl e'))
         | P_Pending \<Rightarrow>
             (let (p3, e') = dial_failed (Some (error_for_code EC_Timeout None)) p2 in (p3, Inl e')))"

text \<open>\<open>_doDial\<close> over the addresses the server resolves to, each with its attempt; with no
  address it throws \<open>null\<close>.\<close>

fun do_dial :: "peer \<Rightarrow> (string \<times> attempt) list \<Rightarrow> js_error option \<Rightarrow> protocol
    \<Rightarrow> protocol \<times> (js_error option + unit)" where
  "do_dial pe [] lastErr p = (p, Inl lastErr)"
| "do_dial pe ((name, a) # alts) lastErr p =
     (case dial pe a (dispatch_status (Ev_Reconnecting name) p) of
        (p1, Inr u) \<Rightarrow> (p1, Inr u)
      | (p1, Inl e) \<Rightarrow> do_dial pe alts e p1)"

section \<open>The loop\<close>

record turn =
  tu_wait :: nat
  tu_now :: nat
  tu_now_dial :: nat
  tu_alts :: "(string \<times> attempt) list"

datatype loop_state =
    Looping protocol "js_error option"
  | Connected protocol
  | Gave_Up protocol js_error

definition pr_selectServer :: "protocol \<Rightarrow> protocol \<times> nat option" where
  "pr_selectServer p =
     (let (svs, s) = selectServer (pr_servers p)
      in case s of
           None \<Rightarrow> (p\<lparr>pr_servers := svs\<rparr>, None)
         | Some i \<Rightarrow> (p\<lparr>pr_servers := svs, pr_server := Some i\<rparr>, Some i))"

definition removeCurrent :: "protocol \<Rightarrow> protocol" where
  "removeCurrent p = p\<lparr>pr_servers := removeCurrentServer (pr_servers p)\<rparr>"

text \<open>After a failed attempt: on the first connect the server is dropped, unless the client
  is to wait; it is dropped when it has used up its attempts.\<close>

definition after_failure :: "nat \<Rightarrow> protocol \<Rightarrow> protocol" where
  "after_failure i p =
     (if \<not> pr_connectedOnce p \<and> co_waitOnFirstConnect (pr_options p) then p
      else let p1 = (if \<not> pr_connectedOnce p then removeCurrent p else p);
               p2 = upd_server i (\<lambda>s. s\<lparr>sv_reconnects := sv_reconnects s + 1\<rparr>) p1;
               mra = co_maxReconnectAttempts (pr_options p2)
           in if mra \<noteq> - 1 \<and> int (sv_reconnects (server_at (pr_servers p2) i)) \<ge> mra
              then removeCurrent p2 else p2)"

text \<open>One turn; the log says which server was dialled, if any, and for how long the loop
  waited otherwise.\<close>

definition dial_turn :: "peer \<Rightarrow> turn \<Rightarrow> protocol \<Rightarrow> js_error option
    \<Rightarrow> loop_state \<times> (nat + nat) option" where
  "dial_turn pe t p lastErr =
     (let p1 = (if pr_closed p then p\<lparr>pr_servers := clear_servers (pr_servers p)\<rparr> else p);
          (p2, srv) = pr_selectServer p1
      in case srv of
           None \<Rightarrow> (Gave_Up p2 (case lastErr of Some e \<Rightarrow> e | None \<Rightarrow>
                      (case pr_lastError p2 of Some e \<Rightarrow> e | None \<Rightarrow> error_for_code EC_ConnectionRefused None)), None)
         | Some i \<Rightarrow>
             if pr_abortReconnect p2
             then (Gave_Up p2 (case lastErr of Some e \<Rightarrow> e | None \<Rightarrow>
                      (case pr_lastError p2 of Some e \<Rightarrow> e | None \<Rightarrow> error_for_code EC_ConnectionRefused None)), None)
             else let lc = sv_lastConnect (server_at (pr_servers p2) i)
             in if lc = 0 \<or> lc + tu_wait t \<le> tu_now t
                then (case do_dial pe (tu_alts t) None (upd_server i (\<lambda>s. s\<lparr>sv_lastConnect := tu_now_dial t\<rparr>) p2) of
                        (p3, Inr u) \<Rightarrow> (Connected p3, Some (Inl i))
                      | (p3, Inl e) \<Rightarrow> (Looping (after_failure i p3) e, Some (Inl i)))
                else (Looping p2 lastErr, Some (Inr (min (tu_wait t) (lc + tu_wait t - tu_now t)))))"

text \<open>The loop over the turns it is given, with the log of every turn.\<close>

fun dial_loop :: "peer \<Rightarrow> turn list \<Rightarrow> loop_state \<Rightarrow> loop_state \<times> (nat + nat) list" where
  "dial_loop pe (t # ts) (Looping p e) =
     (case dial_turn pe t p e of
        (s, None) \<Rightarrow> (s, [])
      | (s, Some l) \<Rightarrow> (let (s', ls) = dial_loop pe ts s in (s', l # ls)))"
| "dial_loop pe ts s = (s, [])"

section \<open>Servers that cannot be reached\<close>

text \<open>A turn in which no address of the server accepts the connection.\<close>

definition unreachable :: "js_error \<Rightarrow> turn \<Rightarrow> bool" where
  "unreachable e t \<longleftrightarrow> tu_alts t \<noteq> [] \<and> (\<forall>(n, a) \<in> set (tu_alts t). at_connect a = Some e)"

text \<open>What decides the course of the loop.\<close>

definition loop_view :: "protocol \<Rightarrow> servers \<times> bool \<times> bool \<times> bool \<times> conn_options" where
  "loop_view p = (pr_servers p, pr_closed p, pr_abortReconnect p, pr_connectedOnce p, pr_options p)"

lemma settle_view [simp]: "loop_view (settle_deferred d r p) = loop_view p"
  by (simp add: loop_view_def settle_deferred_def)

lemma settle_all_view [simp]: "loop_view (fold (\<lambda>d. settle_deferred d r) ds p) = loop_view p"
  by (induction ds arbitrary: p) simp_all

lemma resetOutbound_view [simp]: "loop_view (resetOutbound p) = loop_view p"
proof -
  have "loop_view (fold (\<lambda>d. settle_deferred d r) ds (p\<lparr>pr_outbound := b, pr_pongs := []\<rparr>)) = loop_view p" for r ds b
    by (simp only: settle_all_view) (simp add: loop_view_def)
  then show ?thesis by (simp add: resetOutbound_def Let_def loop_view_def)
qed

lemma prepare_view:
  "loop_view (fst (prepare p)) = loop_view p" "pr_promise (fst (prepare p)) (snd (prepare p)) = P_Pending"
proof -
  have "loop_view (resetOutbound (p\<lparr>pr_info := None\<rparr>)) = loop_view p"
    by (simp only: resetOutbound_view) (simp add: loop_view_def)
  then show "loop_view (fst (prepare p)) = loop_view p"
    by (simp add: prepare_def new_deferred_def Let_def loop_view_def)
  show "pr_promise (fst (prepare p)) (snd (prepare p)) = P_Pending"
    by (simp add: prepare_def new_deferred_def Let_def)
qed

lemma dial_unreachable:
  assumes "at_connect a = Some e"
  shows "\<exists>q. dial pe a p = (q, Inl (Some e)) \<and> loop_view q = loop_view p"
proof -
  obtain p1 d where pd: "prepare p = (p1, d)" by force
  have v: "loop_view p1 = loop_view p" "pr_promise p1 d = P_Pending" using prepare_view [of p] pd by simp_all
  let ?q = "(settle_deferred d (P_Rejected (Some e)) p1)\<lparr>pr_transportClosed := Some (Some e)\<rparr>"
  have "dial pe a p = (?q, Inl (Some e))"
    using v(2) by (simp add: dial_def pd assms dial_failed_def)
  moreover have "loop_view ?q = loop_view p"
    using settle_view [of d "P_Rejected (Some e)" p1] v(1) by (simp add: loop_view_def)
  ultimately show ?thesis by blast
qed

lemma do_dial_unreachable:
  "\<forall>(n, a) \<in> set alts. at_connect a = Some e \<Longrightarrow> alts \<noteq> [] \<or> x = Some e \<Longrightarrow>
    \<exists>q. do_dial pe alts x p = (q, Inl (Some e)) \<and> loop_view q = loop_view p"
proof (induction alts arbitrary: x p)
  case (Cons b alts)
  obtain n a where b: "b = (n, a)" by force
  let ?p = "dispatch_status (Ev_Reconnecting n) p"
  obtain q where q: "dial pe a ?p = (q, Inl (Some e))" "loop_view q = loop_view ?p"
    using dial_unreachable [of a e pe ?p] Cons.prems(1) by (auto simp: b)
  obtain r where r: "do_dial pe alts (Some e) q = (r, Inl (Some e))" "loop_view r = loop_view q"
    using Cons.IH [of "Some e" q] Cons.prems(1) by auto
  then show ?case using q by (simp add: b loop_view_def dispatch_status_def)
qed simp

lemma turn_unreachable:
  assumes "unreachable e t"
  shows "\<exists>q. do_dial pe (tu_alts t) None p = (q, Inl (Some e)) \<and> loop_view q = loop_view p"
  using assms do_dial_unreachable [of "tu_alts t" e None pe p] by (simp add: unreachable_def)

section \<open>Giving up on the first connect\<close>

lemma index_of_server_last: "i \<notin> set js \<Longrightarrow> index_of_server i (js @ [i]) = Some (length js)"
  by (induction js) auto

lemma removeServer_last: "i \<notin> set js \<Longrightarrow> sp_servers p = js @ [i] \<Longrightarrow> sp_servers (removeServer (Some i) p) = js"
  by (simp add: removeServer_def index_of_server_last splice_one_def)

lemma removeServer_hd: "i \<notin> set js \<Longrightarrow> sp_servers p = i # js \<Longrightarrow> sp_servers (removeServer (Some i) p) = js"
  by (simp add: removeServer_def splice_one_def)

lemma removeServer_missing:
  assumes "i \<notin> set (sp_servers p)"
  shows "sp_servers (removeServer (Some i) p) = butlast (sp_servers p)"
proof -
  have "index_of_server i (sp_servers p) = None" using assms by (simp add: index_of_server_None)
  then show ?thesis
    by (cases "sp_servers p") (simp_all add: removeServer_def splice_one_def Let_def butlast_conv_take)
qed

text \<open>The servers that are tried when each failure drops the server, and with \<open>dbl\<close> one
  more from the end.\<close>

fun tried :: "bool \<Rightarrow> nat list \<Rightarrow> nat list" where
  "tried dbl [] = []"
| "tried dbl (t # ts) = t # tried dbl (if dbl then butlast ts else ts)"

lemma tried_all: "tried False xs = xs"
  by (induction xs) simp_all

lemma tried_half: "tried True xs = take ((length xs + 1) div 2) xs"
proof (induction "length xs" arbitrary: xs rule: less_induct)
  case less
  show ?case
  proof (cases xs)
    case (Cons t ts)
    have "tried True (butlast ts) = take ((length (butlast ts) + 1) div 2) (butlast ts)"
      by (rule less) (simp add: Cons)
    also have "\<dots> = take (length ts div 2) (take (length ts - 1) ts)"
      by (cases ts) (simp_all add: butlast_conv_take)
    also have "\<dots> = take (length ts div 2) ts"
    proof (cases ts)
      case (Cons y ys)
      have "Suc (length ys) div 2 \<le> length ys \<or> ys = []" by (cases ys) auto
      then show ?thesis using Cons by (auto simp: min_def)
    qed simp
    finally show ?thesis by (simp add: Cons)
  qed simp
qed

definition drops_twice :: "conn_options \<Rightarrow> bool" where
  "drops_twice opts \<longleftrightarrow> co_maxReconnectAttempts opts \<noteq> - 1 \<and> co_maxReconnectAttempts opts \<le> 1"

text \<open>A client that never connected: nothing was tried yet of the servers \<open>xs\<close>.\<close>

definition untried :: "nat list \<Rightarrow> servers \<Rightarrow> bool" where
  "untried xs s \<longleftrightarrow> (\<forall>i \<in> set xs. \<exists>v. sp_store s i = Some v \<and> sv_lastConnect v = 0 \<and> sv_reconnects v = 0)"

definition first_connecting :: "protocol \<Rightarrow> bool" where
  "first_connecting p \<longleftrightarrow> \<not> pr_closed p \<and> \<not> pr_abortReconnect p \<and> \<not> pr_connectedOnce p
     \<and> \<not> co_waitOnFirstConnect (pr_options p)"

text \<open>What a failed attempt leaves of the pool, when the current server is \<open>t\<close> and the others
  are \<open>ts\<close>.\<close>

lemma failed_attempt:
  assumes "first_connecting p" "sp_current (pr_servers p) = t" "t \<notin> set ts"
    "sp_servers (pr_servers p) = t # ts \<or> sp_servers (pr_servers p) = ts @ [t]"
    "sp_store (pr_servers p) t = Some v" "sv_reconnects v = 0"
  shows "sp_servers (pr_servers (after_failure t p)) = (if drops_twice (pr_options p) then butlast ts else ts)"
    "loop_view (after_failure t p) = (pr_servers (after_failure t p), False, False, False, pr_options p)"
    "sp_firstSelect (pr_servers (after_failure t p)) = sp_firstSelect (pr_servers p)"
    "j \<noteq> t \<Longrightarrow> sp_store (pr_servers (after_failure t p)) j = sp_store (pr_servers p) j"
proof -
  let ?s = "removeServer (Some t) (pr_servers p)"
  let ?u = "?s\<lparr>sp_store := (sp_store ?s)(t := map_option (\<lambda>s. s\<lparr>sv_reconnects := sv_reconnects s + 1\<rparr>) (sp_store ?s t))\<rparr>"
  have s: "sp_servers ?s = ts" "sp_current ?s = t" "sp_store ?s = sp_store (pr_servers p)"
      "sp_firstSelect ?s = sp_firstSelect (pr_servers p)"
    using assms(2-4) removeServer_hd removeServer_last by (auto simp: removeServer_def)
  have "sp_servers ?u = ts" "t \<notin> set (sp_servers ?u)" using s assms(3) by simp_all
  then have u: "sp_servers (removeServer (Some t) ?u) = butlast ts" by (simp add: removeServer_missing)
  have pool: "pr_servers (after_failure t p) = (if drops_twice (pr_options p) then removeServer (Some t) ?u else ?u)"
    using assms(1,2,5,6) s
    by (auto simp: after_failure_def first_connecting_def removeCurrent_def removeCurrentServer_def upd_server_def
        Let_def server_at_def drops_twice_def)
  show "sp_servers (pr_servers (after_failure t p)) = (if drops_twice (pr_options p) then butlast ts else ts)"
    using u s(1) by (simp add: pool)
  show "sp_firstSelect (pr_servers (after_failure t p)) = sp_firstSelect (pr_servers p)"
    using s(4) by (simp add: pool removeServer_def)
  show "j \<noteq> t \<Longrightarrow> sp_store (pr_servers (after_failure t p)) j = sp_store (pr_servers p) j"
    using s(3) by (simp add: pool removeServer_def)
  show "loop_view (after_failure t p) = (pr_servers (after_failure t p), False, False, False, pr_options p)"
    using assms(1) by (simp add: loop_view_def after_failure_def first_connecting_def removeCurrent_def
        upd_server_def Let_def)
qed

lemma loop_viewD:
  assumes "loop_view p = (s, c, a, k, opts)"
  shows "pr_servers p = s" "pr_closed p = c" "pr_abortReconnect p = a" "pr_connectedOnce p = k" "pr_options p = opts"
  using assms by (simp_all add: loop_view_def)

text \<open>One turn with server \<open>t\<close> selected, at the front or, on the very first selection, still
  in its place.\<close>

lemma first_connect_turn:
  assumes "first_connecting p" "distinct (t # ts)" "untried (t # ts) (pr_servers p)" "unreachable e tn"
    "selectServer (pr_servers p) = (svs, Some t)" "sp_current svs = t"
    "sp_servers svs = t # ts \<or> sp_servers svs = ts @ [t]" "sp_store svs = sp_store (pr_servers p)"
  shows "\<exists>q. dial_turn pe tn p x = (Looping q (Some e), Some (Inl t)) \<and> first_connecting q
    \<and> pr_options q = pr_options p
    \<and> sp_servers (pr_servers q) = (if drops_twice (pr_options p) then butlast ts else ts)
    \<and> sp_firstSelect (pr_servers q) = sp_firstSelect svs \<and> untried ts (pr_servers q)"
proof -
  obtain v where v: "sp_store (pr_servers p) t = Some v" "sv_lastConnect v = 0" "sv_reconnects v = 0"
    using assms(3) by (auto simp: untried_def)
  let ?p2 = "p\<lparr>pr_servers := svs, pr_server := Some t\<rparr>"
  let ?p3 = "upd_server t (\<lambda>s. s\<lparr>sv_lastConnect := tu_now_dial tn\<rparr>) ?p2"
  obtain q where q: "do_dial pe (tu_alts tn) None ?p3 = (q, Inl (Some e))" "loop_view q = loop_view ?p3"
    using turn_unreachable [OF assms(4)] by blast
  have fq: "first_connecting q" "pr_options q = pr_options p" "sp_current (pr_servers q) = t"
      "sp_servers (pr_servers q) = sp_servers svs" "sp_firstSelect (pr_servers q) = sp_firstSelect svs"
      "sp_store (pr_servers q) t = Some (v\<lparr>sv_lastConnect := tu_now_dial tn\<rparr>)"
      "\<forall>j. j \<noteq> t \<longrightarrow> sp_store (pr_servers q) j = sp_store (pr_servers p) j"
    using q(2) assms(1,6,8) v(1) by (auto simp: loop_view_def upd_server_def first_connecting_def)
  have pool: "sp_servers (pr_servers q) = t # ts \<or> sp_servers (pr_servers q) = ts @ [t]"
    using fq(4) assms(7) by simp
  have nt: "t \<notin> set ts" using assms(2) by simp
  have rec: "sv_reconnects (v\<lparr>sv_lastConnect := tu_now_dial tn\<rparr>) = 0" using v(3) by simp
  note fa = failed_attempt [OF fq(1) fq(3) nt pool fq(6) rec]
  have turn: "dial_turn pe tn p x = (Looping (after_failure t q) (Some e), Some (Inl t))"
    using assms(1,5,8) v q(1)
    by (simp add: dial_turn_def pr_selectServer_def first_connecting_def server_at_def Let_def)
  have "first_connecting (after_failure t q)"
    using fa(2) fq(1,2) by (simp add: loop_view_def first_connecting_def)
  moreover have "untried ts (pr_servers (after_failure t q))"
    using assms(2,3) fa(4) fq(7) by (auto simp: untried_def) metis
  ultimately show ?thesis
    using turn fa(1-3) fq(2,5) by (simp add: loop_view_def)
qed

lemma untried_subset: "untried xs s \<Longrightarrow> set ys \<subseteq> set xs \<Longrightarrow> untried ys s"
  by (auto simp: untried_def)

lemma first_connect_rest:
  assumes "first_connecting p" "\<not> sp_firstSelect (pr_servers p)" "distinct (sp_servers (pr_servers p))"
    "untried (sp_servers (pr_servers p)) (pr_servers p)" "\<forall>t \<in> set tns. unreachable e t"
    "length (sp_servers (pr_servers p)) < length tns"
  shows "\<exists>q. dial_loop pe tns (Looping p (Some e)) =
    (Gave_Up q e, map Inl (tried (drops_twice (pr_options p)) (sp_servers (pr_servers p))))"
  using assms
proof (induction tns arbitrary: p)
  case (Cons tn tns)
  show ?case
  proof (cases "sp_servers (pr_servers p)")
    case Nil
    then have "selectServer (pr_servers p) = (pr_servers p, None)" using Cons.prems(2) by (simp add: selectServer_def)
    then show ?thesis
      using Cons.prems(1) Nil
      by (simp add: dial_turn_def pr_selectServer_def first_connecting_def Let_def)
  next
    case (Cons t ts)
    let ?svs = "(pr_servers p)\<lparr>sp_servers := ts @ [t], sp_current := t\<rparr>"
    have sel: "selectServer (pr_servers p) = (?svs, Some t)"
      using Cons.prems(2) Cons by (simp add: selectServer_def)
    have d: "distinct (t # ts)" "untried (t # ts) (pr_servers p)" "unreachable e tn"
      using Cons.prems Cons by simp_all
    obtain q where q: "dial_turn pe tn p (Some e) = (Looping q (Some e), Some (Inl t))" "first_connecting q"
        "pr_options q = pr_options p"
        "sp_servers (pr_servers q) = (if drops_twice (pr_options p) then butlast ts else ts)"
        "\<not> sp_firstSelect (pr_servers q)" "untried ts (pr_servers q)"
      using first_connect_turn [OF Cons.prems(1) d sel] Cons.prems(2) by auto
    have "distinct (sp_servers (pr_servers q))" "untried (sp_servers (pr_servers q)) (pr_servers q)"
        "length (sp_servers (pr_servers q)) < length tns"
      using q(4,6) d(1) Cons.prems(6) Cons
      by (auto simp: distinct_butlast intro: untried_subset dest: in_set_butlastD)
    then obtain r where "dial_loop pe tns (Looping q (Some e)) =
        (Gave_Up r e, map Inl (tried (drops_twice (pr_options q)) (sp_servers (pr_servers q))))"
      using Cons.IH [of q] q Cons.prems(5) by auto
    then show ?thesis using q Cons by simp
  qed
qed simp

text \<open>
  When no server of the pool can be reached, the first connect fails with the error of the
  last attempt after trying the servers in order, each once, unless \<open>maxReconnectAttempts\<close>
  is 0 or 1: then every failure drops a second server, and only the first half of the pool is
  ever tried.
\<close>
theorem first_connect_gives_up:
  assumes "first_connecting p" "sp_firstSelect (pr_servers p)" "distinct (sp_servers (pr_servers p))"
    "sp_servers (pr_servers p) = sp_current (pr_servers p) # ts"
    "untried (sp_servers (pr_servers p)) (pr_servers p)" "\<forall>t \<in> set tns. unreachable e t"
    "length (sp_servers (pr_servers p)) < length tns"
  shows "\<exists>q. dial_loop pe tns (Looping p None) = (Gave_Up q e, map Inl
    (if drops_twice (pr_options p) then take ((length (sp_servers (pr_servers p)) + 1) div 2) (sp_servers (pr_servers p))
     else sp_servers (pr_servers p)))"
proof -
  obtain tn tns' where tns: "tns = tn # tns'" using assms(7) by (cases tns) auto
  let ?t = "sp_current (pr_servers p)" and ?svs = "(pr_servers p)\<lparr>sp_firstSelect := False\<rparr>"
  have sel: "selectServer (pr_servers p) = (?svs, Some ?t)" using assms(2) by (simp add: selectServer_def)
  have d: "distinct (?t # ts)" "untried (?t # ts) (pr_servers p)" "unreachable e tn"
    using assms by (simp_all add: tns)
  obtain q where q: "dial_turn pe tn p None = (Looping q (Some e), Some (Inl ?t))" "first_connecting q"
      "pr_options q = pr_options p"
      "sp_servers (pr_servers q) = (if drops_twice (pr_options p) then butlast ts else ts)"
      "\<not> sp_firstSelect (pr_servers q)" "untried ts (pr_servers q)"
    using first_connect_turn [OF assms(1) d sel] assms(4) by auto
  have "distinct (sp_servers (pr_servers q))" "untried (sp_servers (pr_servers q)) (pr_servers q)"
      "length (sp_servers (pr_servers q)) < length tns'"
    using q(4,6) d(1) assms(4,7) tns by (auto simp: distinct_butlast intro: untried_subset dest: in_set_butlastD)
  then obtain r where "dial_loop pe tns' (Looping q (Some e)) =
      (Gave_Up r e, map Inl (tried (drops_twice (pr_options q)) (sp_servers (pr_servers q))))"
    using first_connect_rest [of q tns' e pe] q assms(6) by (auto simp: tns)
  moreover have "tried (drops_twice (pr_options p)) (sp_servers (pr_servers p))
      = ?t # tried (drops_twice (pr_options q)) (sp_servers (pr_servers q))"
    using q(3,4) assms(4) by simp
  ultimately show ?thesis
    using q(1) tried_all tried_half [of "sp_servers (pr_servers p)"]
    by (cases "drops_twice (pr_options p)") (auto simp: tns)
qed

definition sample_peer :: peer where
  "sample_peer = \<lparr>pe_urls = \<lparr>url_of = (\<lambda>_ u _. Some (u, u)), url_hook = None, url_default_port = 4222\<rparr>,
     pe_info = (\<lambda>_. Inr sample_info), pe_connect = (\<lambda>_ _. Inr ''{}'')\<rparr>"

definition dead_turn :: turn where
  "dead_turn = \<lparr>tu_wait = 2000, tu_now = 5, tu_now_dial = 5,
     tu_alts = [(''a'', \<lparr>at_connect = Some (Plain_Error ''refused''), at_encrypted = False, at_events = []\<rparr>)]\<rparr>"

theorem first_connect_gives_up_witness:
  "\<exists>q. dial_loop sample_peer (replicate 3 dead_turn)
      (Looping (sample_protocol\<lparr>pr_options := sample_options\<lparr>co_maxReconnectAttempts := 1\<rparr>\<rparr>) None)
    = (Gave_Up q (Plain_Error ''refused''), [Inl 0])"
proof -
  define p where "p = sample_protocol\<lparr>pr_options := sample_options\<lparr>co_maxReconnectAttempts := 1\<rparr>\<rparr>"
  have p: "pr_servers p = sample_pool" "pr_options p = sample_options\<lparr>co_maxReconnectAttempts := 1\<rparr>" "first_connecting p"
    by (simp_all add: p_def sample_protocol_def initial_protocol_def first_connecting_def sample_options_def)
  have "untried (sp_servers sample_pool) sample_pool"
    by (simp add: untried_def sample_pool_def sample_server_def)
  then show ?thesis
    unfolding p_def [symmetric]
    using first_connect_gives_up [OF p(3), of "[1]" "replicate 3 dead_turn" "Plain_Error ''refused''" sample_peer] p
    by (simp add: sample_pool_def drops_twice_def sample_options_def unreachable_def dead_turn_def)
qed

section \<open>Giving up on reconnecting\<close>

definition reconnecting :: "nat \<Rightarrow> protocol \<Rightarrow> bool" where
  "reconnecting m p \<longleftrightarrow> \<not> pr_closed p \<and> \<not> pr_abortReconnect p \<and> pr_connectedOnce p
     \<and> co_maxReconnectAttempts (pr_options p) = int m"

definition attempts_left :: "nat \<Rightarrow> servers \<Rightarrow> nat \<Rightarrow> nat" where
  "attempts_left m s i = (if i \<in> set (sp_servers s) then m - sv_reconnects (server_at s i) else 0)"

definition usable_pool :: "nat \<Rightarrow> servers \<Rightarrow> bool" where
  "usable_pool m s \<longleftrightarrow> \<not> sp_firstSelect s \<and> distinct (sp_servers s)
     \<and> (\<forall>i \<in> set (sp_servers s). \<exists>v. sp_store s i = Some v \<and> sv_reconnects v < m)"

text \<open>One turn: it waits, or it dials the selected server in vain.\<close>

lemma reconnect_turn:
  assumes "reconnecting m p" "usable_pool m (pr_servers p)" "unreachable e tn"
    "sp_servers (pr_servers p) = t # ts"
  shows "\<exists>q y l. dial_turn pe tn p x = (Looping q y, Some l) \<and> reconnecting m q \<and> usable_pool m (pr_servers q)
    \<and> (\<forall>i. attempts_left m (pr_servers p) i = attempts_left m (pr_servers q) i + (if l = Inl i then 1 else 0))"
proof -
  let ?svs = "(pr_servers p)\<lparr>sp_servers := ts @ [t], sp_current := t\<rparr>"
  have nt: "t \<notin> set ts" and dts: "distinct ts" using assms(2,4) by (simp_all add: usable_pool_def)
  obtain v where v: "sp_store (pr_servers p) t = Some v" "sv_reconnects v < m"
    using assms(2,4) by (auto simp: usable_pool_def)
  let ?p2 = "p\<lparr>pr_servers := ?svs, pr_server := Some t\<rparr>"
  have sel: "pr_selectServer p = (?p2, Some t)"
    using assms(2,4) by (simp add: pr_selectServer_def selectServer_def usable_pool_def)
  have p2: "reconnecting m ?p2" "usable_pool m ?svs"
    using assms(1,2,4) by (auto simp: reconnecting_def usable_pool_def)
  have same: "attempts_left m (pr_servers p) i = attempts_left m ?svs i" for i
    using assms(4) by (simp add: attempts_left_def server_at_def)
  show ?thesis
  proof (cases "sv_lastConnect v = 0 \<or> sv_lastConnect v + tu_wait tn \<le> tu_now tn")
    case False
    then have "dial_turn pe tn p x = (Looping ?p2 x, Some (Inr (min (tu_wait tn) (sv_lastConnect v + tu_wait tn - tu_now tn))))"
      using assms(1) sel v(1) by (auto simp: dial_turn_def reconnecting_def server_at_def)
    then show ?thesis using p2 same by auto
  next
    case True
    let ?p3 = "upd_server t (\<lambda>s. s\<lparr>sv_lastConnect := tu_now_dial tn\<rparr>) ?p2"
    obtain q where q: "do_dial pe (tu_alts tn) None ?p3 = (q, Inl (Some e))" "loop_view q = loop_view ?p3"
      using turn_unreachable [OF assms(3)] by blast
    let ?v = "v\<lparr>sv_lastConnect := tu_now_dial tn\<rparr>"
    have fq: "reconnecting m q" "pr_servers q = ?svs\<lparr>sp_store := (sp_store ?svs)(t \<mapsto> ?v)\<rparr>"
      using q(2) p2(1) v(1) by (auto simp: loop_view_def upd_server_def reconnecting_def)
    let ?s = "(pr_servers q)\<lparr>sp_store := (sp_store ?svs)(t \<mapsto> ?v\<lparr>sv_reconnects := sv_reconnects v + 1\<rparr>)\<rparr>"
    let ?q = "after_failure t q"
    have pool: "pr_servers ?q = (if sv_reconnects v + 1 \<ge> m then removeServer (Some t) ?s else ?s)"
      using fq by (auto simp: after_failure_def reconnecting_def removeCurrent_def removeCurrentServer_def
          upd_server_def Let_def server_at_def)
    have rm: "sp_servers (removeServer (Some t) ?s) = ts" "sp_store (removeServer (Some t) ?s) = sp_store ?s"
        "sp_firstSelect (removeServer (Some t) ?s) = sp_firstSelect ?s"
      using removeServer_last [OF nt, of ?s] fq(2) by (simp_all add: removeServer_def)
    have "dial_turn pe tn p x = (Looping ?q (Some e), Some (Inl t))"
      using assms(1) sel v(1) q(1) True by (simp add: dial_turn_def reconnecting_def server_at_def Let_def)
    moreover have "reconnecting m ?q"
      using fq(1) by (simp add: after_failure_def reconnecting_def removeCurrent_def upd_server_def Let_def)
    moreover have "usable_pool m (pr_servers ?q)"
      using pool rm fq(2) p2(2) nt dts v assms(2,4) by (auto simp: usable_pool_def)
    moreover have "attempts_left m (pr_servers p) i = attempts_left m (pr_servers ?q) i + (if Inl t = Inl i then 1 else 0)" for i
      using pool rm fq(2) nt v assms(4) by (auto simp: attempts_left_def server_at_def)
    ultimately show ?thesis by blast
  qed
qed

text \<open>
  C23: While a client that was connected cannot reach any server, its loop dials each server of
  the pool at most as often as \<open>maxReconnectAttempts\<close> has left for it, however its waits fall,
  and exactly so often when it gives up; it only stops by giving up.
\<close>
theorem reconnect_attempts_are_bounded:
  assumes "reconnecting m p" "usable_pool m (pr_servers p)" "\<forall>t \<in> set tns. unreachable e t"
    "dial_loop pe tns (Looping p x) = (s, l)"
  shows "(\<forall>i. count_list l (Inl i) \<le> attempts_left m (pr_servers p) i)
    \<and> (case s of
         Gave_Up q er \<Rightarrow> \<forall>i. count_list l (Inl i) = attempts_left m (pr_servers p) i
       | Looping q y \<Rightarrow> length l = length tns
       | Connected q \<Rightarrow> False)"
  using assms
proof (induction tns arbitrary: p x s l)
  case (Cons tn tns)
  show ?case
  proof (cases "sp_servers (pr_servers p)")
    case Nil
    then have "selectServer (pr_servers p) = (pr_servers p, None)"
      using Cons.prems(2) by (simp add: selectServer_def usable_pool_def)
    then show ?thesis
      using Cons.prems(1,4) Nil
      by (auto simp: dial_turn_def pr_selectServer_def reconnecting_def attempts_left_def Let_def)
  next
    case (Cons t ts)
    have "unreachable e tn" using Cons.prems(3) by simp
    then obtain q y k where q: "dial_turn pe tn p x = (Looping q y, Some k)" "reconnecting m q"
        "usable_pool m (pr_servers q)"
        "\<forall>i. attempts_left m (pr_servers p) i = attempts_left m (pr_servers q) i + (if k = Inl i then 1 else 0)"
      using reconnect_turn [OF Cons.prems(1,2) _ Cons] by blast
    obtain s' l' where r: "dial_loop pe tns (Looping q y) = (s', l')" by force
    have sl: "s = s'" "l = k # l'" using Cons.prems(4) q(1) r by simp_all
    show ?thesis
      using Cons.IH [OF q(2,3) _ r] Cons.prems(3) q(4) by (auto simp: sl split: loop_state.split)
  qed
qed auto

theorem reconnect_attempts_are_bounded_witness:
  "count_list (snd (dial_loop sample_peer (replicate 9 dead_turn)
     (Looping (sample_protocol\<lparr>pr_connectedOnce := True, pr_servers := sample_pool\<lparr>sp_firstSelect := False\<rparr>\<rparr>) None))) (Inl 0) \<le> 10"
proof -
  let ?p = "sample_protocol\<lparr>pr_connectedOnce := True, pr_servers := sample_pool\<lparr>sp_firstSelect := False\<rparr>\<rparr>"
  obtain s l where sl: "dial_loop sample_peer (replicate 9 dead_turn) (Looping ?p None) = (s, l)" by force
  have "reconnecting 10 ?p" "usable_pool 10 (pr_servers ?p)"
    by (simp_all add: reconnecting_def usable_pool_def sample_protocol_def initial_protocol_def sample_options_def
        sample_pool_def sample_server_def)
  moreover have "\<forall>t \<in> set (replicate 9 dead_turn). unreachable (Plain_Error ''refused'') t"
    by (simp add: unreachable_def dead_turn_def)
  ultimately have "count_list l (Inl 0) \<le> attempts_left 10 (pr_servers ?p) 0"
    using reconnect_attempts_are_bounded [OF _ _ _ sl, of 10 "Plain_Error ''refused''"] by blast
  moreover have "attempts_left 10 (pr_servers ?p) 0 = 10"
    by (simp add: attempts_left_def server_at_def sample_pool_def sample_server_def)
  ultimately show ?thesis unfolding sl snd_conv by (simp only:)
qed

section \<open>A successful connect\<close>

definition connect_line :: "string \<Rightarrow> bytes" where
  "connect_line cs = te_encode (''CONNECT '' @ cs @ CR_LF)"

definition subs_block :: "protocol \<Rightarrow> bytes list" where
  "subs_block p = (let is = subs_all (pr_subs p)
     in if is = [] then [] else [te_encode (concat (map (\<lambda>i. sub_line (sub_of p i)) is))])"

text \<open>What sending depends on and leaves alone.\<close>

definition send_view :: "protocol \<Rightarrow> subs \<times> bytes list \<times> data_buffer \<times> nat list \<times> (nat \<Rightarrow> promise)" where
  "send_view p = (pr_subs p, pr_sent p, pr_outbound p, pr_pongs p, pr_promise p)"

lemma settle_all_fields:
  "pr_subs (fold (\<lambda>d. settle_deferred d r) ds p) = pr_subs p"
  "pr_outbound (fold (\<lambda>d. settle_deferred d r) ds p) = pr_outbound p"
  "pr_options (fold (\<lambda>d. settle_deferred d r) ds p) = pr_options p"
  by (induction ds arbitrary: p) (simp_all add: settle_deferred_def)

lemma prepare_fields:
  assumes "prepare p = (q, d)"
  shows "pr_subs q = pr_subs p" "pr_sent q = []" "pr_outbound q = dq_reset (pr_outbound p)" "pr_pongs q = [d]"
    "pr_promise q d = P_Pending" "\<not> pr_infoReceived q" "pr_options q = pr_options p" "pr_servers q = pr_servers p"
    "\<lbrakk>k < pr_fresh p; k \<in> set (pr_pongs p); pr_promise p k = P_Pending\<rbrakk>
      \<Longrightarrow> pr_promise q k = P_Rejected (Some (error_for_code EC_Disconnect None))"
proof -
  let ?r = "resetOutbound (p\<lparr>pr_info := None\<rparr>)"
  have q: "q = ?r\<lparr>pr_promise := (pr_promise ?r)(pr_fresh ?r := P_Pending), pr_fresh := pr_fresh ?r + 1,
      pr_pongs := pr_fresh ?r # pr_pongs ?r, pr_connectError := Some (pr_fresh ?r), pr_sent := [], pr_transportClosed := None\<rparr>"
    and d: "d = pr_fresh ?r"
    using assms by (auto simp: prepare_def new_deferred_def Let_def)
  have r: "pr_pongs ?r = []" "pr_subs ?r = pr_subs p" "pr_outbound ?r = dq_reset (pr_outbound p)"
      "\<not> pr_infoReceived ?r" "pr_options ?r = pr_options p" "pr_fresh ?r = pr_fresh p"
    by (simp_all add: resetOutbound_def Let_def settle_all settle_all_fields)
  have "loop_view q = loop_view p" using prepare_view(1) [of p] assms by simp
  then show "pr_servers q = pr_servers p" by (simp add: loop_view_def)
  show "pr_subs q = pr_subs p" "pr_sent q = []" "pr_outbound q = dq_reset (pr_outbound p)" "pr_pongs q = [d]"
    "pr_promise q d = P_Pending" "\<not> pr_infoReceived q" "pr_options q = pr_options p"
    using q d r by simp_all
  show "\<lbrakk>k < pr_fresh p; k \<in> set (pr_pongs p); pr_promise p k = P_Pending\<rbrakk>
      \<Longrightarrow> pr_promise q k = P_Rejected (Some (error_for_code EC_Disconnect None))"
    using q r resetOutbound_pongs(3) [of "p\<lparr>pr_info := None\<rparr>" k] by simp
qed

lemma features_update_ok: "\<exists>t'. features_update v t = Inr t'"
  using feature_set_all_ok [OF feature_table_parses feature_table_distinct, of "t\<lparr>ft_server := v\<rparr>"]
  by (auto simp: features_update_def)

text \<open>The first information block, when everything it needs succeeds.\<close>

lemma processInfo_first:
  assumes "\<not> pr_infoReceived p" "pe_info pe (td_decode m) = Inr info" "parseSemVer (si_version info) = Inr v"
    "pe_connect pe (si_headers info) (si_nonce info) = Inr cs"
    "update_servers (pe_urls pe) (si_connect_urls info) (Some (pr_encrypted p)) (pr_servers p) = Inr (svs, ad, de)"
  shows "\<exists>q. processInfo pe m p = (q, Inr ()) \<and> pr_sent q = pr_sent p @ [connect_line cs, PING_CMD]
    \<and> pr_infoReceived q \<and> pr_info q = Some info \<and> pr_subs q = pr_subs p \<and> pr_outbound q = pr_outbound p
    \<and> pr_pongs q = pr_pongs p \<and> pr_promise q = pr_promise p \<and> pr_closed q = pr_closed p"
proof -
  obtain fs where fs: "features_update v (pr_features p) = Inr fs" using features_update_ok by blast
  define p1 where "p1 = p\<lparr>pr_info := Some info\<rparr>"
  obtain s u where upd: "(if co_ignoreClusterUpdates (pr_options p1) then Inr (pr_servers p1, None)
      else rbind (update_servers (pe_urls pe) (si_connect_urls info) (Some (pr_encrypted p1)) (pr_servers p1))
        (\<lambda>(svs, added, deleted). Inr (svs, Some (added, deleted)))) = Inr (s, u)"
    using assms(5) by (cases "co_ignoreClusterUpdates (pr_options p1)") (auto simp: p1_def)
  define p2 where "p2 = p1\<lparr>pr_servers := s\<rparr>"
  define p3 where "p3 = (if pr_encrypted p2 then p2\<lparr>pr_features := fs, pr_infoReceived := True,
      pr_servers := updateTLSName (pr_servers p2)\<rparr> else p2\<lparr>pr_features := fs, pr_infoReceived := True\<rparr>)"
  define p4 where "p4 = transport_send PING_CMD (transport_send (connect_line cs) p3)"
  have fi: "first_info pe info p2 = (p4, Inr ())"
    using assms(3,4) fs by (simp add: first_info_def p1_def p2_def p3_def p4_def Let_def connect_line_def)
  define p5 where "p5 = (case u of Some (a, d) \<Rightarrow> dispatch_status (Ev_Update a d) p4 | None \<Rightarrow> p4)"
  define q where "q = (if si_ldm info then dispatch_status (Ev_LDM (current_server_string p5)) p5 else p5)"
  have "\<not> pr_infoReceived p2" using assms(1) by (simp add: p2_def p1_def)
  then have "processInfo pe m p = (q, Inr ())"
    unfolding processInfo_def assms(2) sum.case Let_def p1_def [symmetric] upd prod.case p2_def [symmetric]
    by (simp add: fi p5_def q_def)
  moreover have "send_view q = send_view p4" "pr_infoReceived q = pr_infoReceived p4" "pr_info q = pr_info p4"
      "pr_closed q = pr_closed p4"
    by (simp_all add: q_def p5_def dispatch_status_def send_view_def split: option.split)
  ultimately show ?thesis
    by (auto simp: send_view_def p4_def transport_send_def p3_def p2_def p1_def)
qed

lemma sendSubscriptions_block: "sendSubscriptions p = p\<lparr>pr_sent := pr_sent p @ subs_block p\<rparr>"
  by (simp add: sendSubscriptions_def subs_block_def transport_send_def Let_def)

lemma upd_server_fields [simp]:
  "pr_sent (upd_server i f p) = pr_sent p" "pr_outbound (upd_server i f p) = pr_outbound p"
  "pr_subs (upd_server i f p) = pr_subs p" "pr_connected (upd_server i f p) = pr_connected p"
  "pr_infoReceived (upd_server i f p) = pr_infoReceived p" "pr_connectedOnce (upd_server i f p) = pr_connectedOnce p"
  "pr_pongs (upd_server i f p) = pr_pongs p" "pr_connectError (upd_server i f p) = pr_connectError p"
  "pr_heartbeats (upd_server i f p) = pr_heartbeats p"
  by (simp_all add: upd_server_def)

lemma connect_done_fields:
  assumes "dq_bytes (pr_outbound p) = []" "out_ok p"
  shows "pr_sent (connect_done p) = pr_sent p @ subs_block p" "pr_connected (connect_done p)"
    "pr_connectedOnce (connect_done p)" "pr_connectError (connect_done p) = None" "pr_pongs (connect_done p) = pr_pongs p"
    "pr_subs (connect_done p) = pr_subs p" "dq_bytes (pr_outbound (connect_done p)) = []"
    "hb_timer (pr_heartbeats (connect_done p))"
proof -
  have e: "dq_size (pr_outbound p) = 0" using assms by (simp add: out_ok_def dq_ok_def dq_size_def)
  let ?p = "p\<lparr>pr_connected := True, pr_connectError := None\<rparr>"
  have b: "subs_block ?p = subs_block p" by (simp add: subs_block_def sub_of_def Let_def)
  show "pr_sent (connect_done p) = pr_sent p @ subs_block p" "pr_connected (connect_done p)"
    "pr_connectedOnce (connect_done p)" "pr_connectError (connect_done p) = None" "pr_pongs (connect_done p) = pr_pongs p"
    "pr_subs (connect_done p) = pr_subs p" "dq_bytes (pr_outbound (connect_done p)) = []"
    "hb_timer (pr_heartbeats (connect_done p))"
    using e assms(1) b
    by (simp_all add: connect_done_def sendSubscriptions_block flushPending_def Let_def hb_start_def hb_schedule_def
        split: option.split)
qed

text \<open>
  C22: When the server answers the connect with its information and a pong, the connection is
  up and what went out is the connect line, the first ping and then one block with a
  subscription line for every subscription in the table, under its identifier; nothing of an
  earlier connection is sent again, and every flush that waited on one has been rejected.
\<close>
theorem connect_announces_subscriptions:
  assumes "at_connect a = None" "at_events a = [EvInfo m, EvPong]" "pe_info pe (td_decode m) = Inr info"
    "parseSemVer (si_version info) = Inr v" "pe_connect pe (si_headers info) (si_nonce info) = Inr cs"
    "update_servers (pe_urls pe) (si_connect_urls info) (Some (at_encrypted a)) (pr_servers p) = Inr (svs, ad, de)"
    "pongs_ok p"
  shows "\<exists>q. dial pe a p = (q, Inr ()) \<and> pr_connected q \<and> pr_connectedOnce q \<and> pr_info q = Some info
    \<and> pr_sent q = [connect_line cs, PING_CMD] @ subs_block p \<and> dq_bytes (pr_outbound q) = []
    \<and> pr_pongs q = [] \<and> hb_timer (pr_heartbeats q)
    \<and> (\<forall>k \<in> set (pr_pongs p). pr_promise q k = P_Rejected (Some (error_for_code EC_Disconnect None)))"
proof -
  obtain p1 d where pd: "prepare p = (p1, d)" by force
  note f = prepare_fields [OF pd]
  let ?p1 = "p1\<lparr>pr_encrypted := at_encrypted a\<rparr>"
  obtain q where q: "processInfo pe m ?p1 = (q, Inr ())" "pr_sent q = [connect_line cs, PING_CMD]"
      "pr_infoReceived q" "pr_info q = Some info" "pr_subs q = pr_subs p" "pr_outbound q = dq_reset (pr_outbound p)"
      "pr_pongs q = [d]" "pr_promise q = pr_promise p1"
    using processInfo_first [of ?p1 pe m info v cs svs ad de] assms(3-6) f by auto
  let ?q = "processPong q"
  have pong: "?q = settle_deferred d P_Resolved (q\<lparr>pr_pongs := []\<rparr>)" using q(7) by (simp add: processPong_def)
  have res: "pr_promise ?q d = P_Resolved" using q(8) f(5) by (simp add: pong)
  have view: "pr_sent ?q = [connect_line cs, PING_CMD]" "pr_outbound ?q = dq_reset (pr_outbound p)" "pr_pongs ?q = []"
      "pr_subs ?q = pr_subs p" "pr_info ?q = Some info"
    using q by (simp_all add: pong settle_deferred_def)
  have "dq_bytes (pr_outbound ?q) = []" "out_ok ?q"
    by (simp_all add: view out_ok_def dq_reset_def dq_bytes_def dq_ok_def)
  note cd = connect_done_fields [OF this]
  have "sub_of ?q = sub_of p" by (rule ext) (simp add: sub_of_def view)
  then have sb: "subs_block ?q = subs_block p" by (simp add: subs_block_def view Let_def)
  have read: "read_events pe (at_events a) ?p1 = ?q" using assms(2) q(1) by simp
  have dial: "dial pe a p = (connect_done ?q, Inr ())"
    by (simp add: dial_def pd assms(1) read res)
  have same: "pr_promise (connect_done x) = pr_promise x" "pr_info (connect_done x) = pr_info x" for x
    by (simp_all add: connect_done_def sendSubscriptions_block flushPending_def transport_send_def upd_server_def
        Let_def case_prod_beta split: option.split)
  have "pr_promise (connect_done ?q) k = P_Rejected (Some (error_for_code EC_Disconnect None))"
    if k: "k \<in> set (pr_pongs p)" for k
  proof -
    have "k < pr_fresh p" "pr_promise p k = P_Pending" using assms(7) k by (auto simp: pongs_ok_def)
    then have r: "pr_promise p1 k = P_Rejected (Some (error_for_code EC_Disconnect None))" using f(9) k by blast
    then have "k \<noteq> d" using f(5) by auto
    then show ?thesis using r q(8) by (simp add: same pong)
  qed
  then show ?thesis using dial cd view sb by (simp add: same)
qed

theorem connect_announces_subscriptions_witness:
  "\<exists>q. dial sample_peer \<lparr>at_connect = None, at_encrypted = False, at_events = [EvInfo [], EvPong]\<rparr> with_limited_sub = (q, Inr ())
    \<and> pr_sent q = [connect_line ''{}'', PING_CMD, te_encode (''SUB a 1'' @ CR_LF)]"
proof -
  have subs: "pr_subs sample_protocol = new_subs" "pr_pongs sample_protocol = []" "pr_servers sample_protocol = sample_pool"
    by (simp_all add: sample_protocol_def initial_protocol_def)
  have show_one: "show_nat (Suc 0) = ''1''" by code_simp
  have b: "subs_block with_limited_sub = [te_encode (''SUB a 1'' @ CR_LF)]"
    by (simp add: subs_block_def with_limited_sub_def subs_all_def sub_of_def sub_line_def subs subs_add_def new_subs_def
        limited_sub_def new_subscription_def Let_def upd_sub_def show_one)
  have v: "parseSemVer ''2.9.0'' = Inr (SemVer 2 9 0)"
    using feature_table_parses by (simp add: feature_table_def)
  have "pongs_ok with_limited_sub" by (simp add: pongs_ok_def with_limited_sub_def with_subs_def subs)
  moreover have "update_servers (pe_urls sample_peer) [] (Some False) (pr_servers with_limited_sub) = Inr (sample_pool, [], [])"
    by (simp add: update_servers_def with_limited_sub_def with_subs_def subs sample_pool_def sample_server_def
        server_at_def Let_def)
  ultimately show ?thesis
    using connect_announces_subscriptions [of "\<lparr>at_connect = None, at_encrypted = False, at_events = [EvInfo [], EvPong]\<rparr>"
        "[]" sample_peer sample_info "SemVer 2 9 0" "''{}''" with_limited_sub sample_pool "[]" "[]"] v b
    by (auto simp: sample_peer_def sample_info_def)
qed

end
