(* ===== verification/Output.thy ===== *)
theory Output
  imports Dialing
begin

text \<open>
  Nothing a client sends gets stuck: over any sequence of its calls on a connection that is
  up, what waits in the buffer has a flush queued for it.
\<close>

section \<open>Calls of a client\<close>

datatype out_op =
    Op_Publish string payload string "msg_hdrs option"
  | Op_Subscribe nat
  | Op_Unsubscribe nat "nat option"
  | Op_Resub nat string
  | Op_Flush
  | Op_Microtask
  | Op_Pong
  | Op_Ping

fun out_step :: "out_op \<Rightarrow> protocol \<Rightarrow> protocol" where
  "out_step (Op_Publish subj d rep h) p = fst (publish subj d rep h p)"
| "out_step (Op_Subscribe i) p = pr_subscribe i p"
| "out_step (Op_Unsubscribe i mx) p = pr_unsubscribe i mx p"
| "out_step (Op_Resub i subj) p = pr_resub i subj p"
| "out_step Op_Flush p = fst (flush_new p)"
| "out_step Op_Microtask p = run_microtask p"
| "out_step Op_Pong p = processPong p"
| "out_step Op_Ping p = processPing p"

definition out_run :: "out_op list \<Rightarrow> protocol \<Rightarrow> protocol" where
  "out_run ops p = fold out_step ops p"

definition run_microtasks :: "protocol \<Rightarrow> protocol" where
  "run_microtasks p = (run_microtask ^^ pr_micro p) p"

section \<open>The invariant\<close>

definition live :: "protocol \<Rightarrow> bool" where
  "live p \<longleftrightarrow> out_ok p \<and> pr_infoReceived p \<and> pr_connected p
     \<and> (dq_length (pr_outbound p) = 0 \<or> dq_bytes (pr_outbound p) \<noteq> [] \<and> 0 < pr_micro p)"

lemma live_cong:
  assumes "live p" "pr_outbound q = pr_outbound p" "pr_infoReceived q = pr_infoReceived p"
    "pr_connected q = pr_connected p" "pr_micro q = pr_micro p"
  shows "live q"
  using assms by (simp add: live_def out_ok_def)

lemma flushPending_empties:
  assumes "out_ok p" "pr_infoReceived p" "pr_connected p" "dq_length (pr_outbound p) = 0 \<or> dq_bytes (pr_outbound p) \<noteq> []"
  shows "dq_length (pr_outbound (flushPending p)) = 0"
  using assms dq.amount_zero [of "pr_outbound p"] dq_drain_all_length
  by (auto simp: flushPending_def out_ok_def transport_send_def case_prod_beta)

lemma flushPending_simps [simp]:
  "pr_infoReceived (flushPending p) = pr_infoReceived p" "pr_connected (flushPending p) = pr_connected p"
  "pr_micro (flushPending p) = pr_micro p" "pr_subs (flushPending p) = pr_subs p" "pr_closed (flushPending p) = pr_closed p"
  by (simp_all add: flushPending_def transport_send_def case_prod_beta)

lemma live_flushPending:
  "out_ok p \<Longrightarrow> pr_infoReceived p \<Longrightarrow> pr_connected p
    \<Longrightarrow> dq_length (pr_outbound p) = 0 \<or> dq_bytes (pr_outbound p) \<noteq> [] \<Longrightarrow> live (flushPending p)"
  using flushPending_empties flushPending_stream(2) by (simp add: live_def)

lemma live_sendCommand:
  assumes "live p" "cmd \<noteq> []"
  shows "live (sendCommand cmd ps p)"
proof -
  let ?p = "p\<lparr>pr_outbound := dq_fill cmd ps (pr_outbound p)\<rparr>"
  have p: "out_ok ?p" "pr_infoReceived ?p" "pr_connected ?p" "dq_bytes (pr_outbound ?p) \<noteq> []"
    using assms by (simp_all add: live_def out_ok_def)
  have "live (?p\<lparr>pr_micro := pr_micro ?p + 1\<rparr>)" using p by (simp add: live_def out_ok_def)
  moreover have "live (flushPending ?p)" using p by (intro live_flushPending) auto
  moreover have "dq_length (pr_outbound p) \<noteq> 0 \<Longrightarrow> live ?p" using p assms(1) by (simp add: live_def)
  ultimately show ?thesis by (simp add: sendCommand_def Let_def)
qed

lemma live_with_subs: "live p \<Longrightarrow> live (with_subs f p)"
  by (rule live_cong) (simp_all add: with_subs_def)

lemma te_encode_nonempty: "te_encode s = [] \<longleftrightarrow> s = []"
  by (simp add: te_encode_def)

lemma live_unsubscribe: "live p \<Longrightarrow> live (pr_unsubscribe i mx p)"
  by (auto simp: pr_unsubscribe_def pr_unsub_def Let_def te_encode_nonempty
      intro!: live_with_subs live_sendCommand split: option.splits)

lemma live_pr_sub: "live p \<Longrightarrow> live (pr_sub i p)"
  by (auto simp: pr_sub_def sub_line_def te_encode_nonempty intro!: live_sendCommand split: option.splits)

lemma live_publish: "live p \<Longrightarrow> live (fst (publish subj d rep h p))"
proof -
  assume l: "live p"
  have "live (p\<lparr>pr_outBytes := a, pr_outMsgs := b\<rparr>)" for a b using l by (rule live_cong) simp_all
  then show ?thesis
    using l by (auto simp: publish_def publish_proto_def Let_def te_encode_nonempty intro!: live_sendCommand
        split: option.splits payload.splits)
qed

lemma live_microtask:
  assumes "live p"
  shows "live (run_microtask p)"
proof -
  have "live (flushPending (p\<lparr>pr_micro := pr_micro p - 1\<rparr>))"
    using assms by (intro live_flushPending) (auto simp: live_def out_ok_def)
  then show ?thesis using assms by (simp add: run_microtask_def)
qed

lemma live_step: "live p \<Longrightarrow> live (out_step x p)"
proof (induction x p rule: out_step.induct)
  case (2 i p)
  then show ?case
    by (auto simp: pr_subscribe_def pr_subunsub_def Let_def intro!: live_unsubscribe live_pr_sub live_with_subs
        split: option.splits)
next
  case (4 i subj p)
  then show ?case
    by (auto simp: pr_resub_def pr_unsub_def Let_def te_encode_nonempty
        intro!: live_pr_sub live_with_subs live_sendCommand split: option.splits)
next
  case (5 p)
  let ?q = "fst (new_deferred p)" and ?d = "pr_fresh p"
  have "PING_CMD \<noteq> []" by (simp add: PING_CMD_def te_encode_nonempty)
  then show ?case
    using 5 by (auto simp: flush_new_def flush_def new_deferred_def case_prod_beta live_def [of p] out_ok_def
        intro!: live_flushPending)
next
  case (7 p)
  show ?case by (rule live_cong [OF 7]) (simp_all add: processPong_def settle_deferred_def split: list.split)
next
  case (8 p)
  show ?case by (rule live_cong [OF 8]) (simp_all add: processPing_def transport_send_def)
qed (simp_all add: live_publish live_unsubscribe live_microtask)

lemma live_run: "live p \<Longrightarrow> live (out_run ops p)"
  unfolding out_run_def by (induction ops arbitrary: p) (auto simp: live_step)

lemma microtask_stream: "live p \<Longrightarrow> out_stream (run_microtask p) = out_stream p \<and> pr_micro (run_microtask p) = pr_micro p - 1"
proof -
  assume l: "live p"
  let ?p = "p\<lparr>pr_micro := pr_micro p - 1\<rparr>"
  have "out_ok ?p" "out_stream ?p = out_stream p" using l by (simp_all add: live_def out_ok_def out_stream_def)
  then show ?thesis using flushPending_stream(1) [of ?p] by (simp add: run_microtask_def)
qed

lemma microtasks_stream:
  "live p \<Longrightarrow> live ((run_microtask ^^ k) p) \<and> out_stream ((run_microtask ^^ k) p) = out_stream p
    \<and> pr_micro ((run_microtask ^^ k) p) = pr_micro p - k"
  by (induction k) (auto simp: live_microtask microtask_stream)

text \<open>
  C29: On a connection that is up, whatever the client publishes, subscribes, unsubscribes and
  flushes in whatever order, between which microtasks and pongs, once the queued microtasks
  have run every byte of every command has gone to the transport and the buffer is empty.
\<close>
theorem output_is_never_stuck:
  fixes ops :: "out_op list"
  assumes "live p"
  defines "p' \<equiv> out_run ops p"
  shows "concat (pr_sent (run_microtasks p')) = out_stream p' \<and> dq_length (pr_outbound (run_microtasks p')) = 0
    \<and> pr_micro (run_microtasks p') = 0"
proof -
  have "live p'" unfolding p'_def by (rule live_run [OF assms(1)])
  then have m: "live (run_microtasks p')" "out_stream (run_microtasks p') = out_stream p'"
      "pr_micro (run_microtasks p') = 0"
    using microtasks_stream [of p' "pr_micro p'"] by (auto simp: run_microtasks_def)
  then have "dq_length (pr_outbound (run_microtasks p')) = 0" by (simp add: live_def)
  then show ?thesis using m dq.fresh_content by (simp add: out_stream_def)
qed

theorem output_is_never_stuck_witness:
  "dq_length (pr_outbound (run_microtasks (out_run [Op_Subscribe 0, Op_Publish ''a'' (P_String ''x'') [] None, Op_Flush]
     (sample_protocol\<lparr>pr_infoReceived := True, pr_connected := True\<rparr>)))) = 0"
proof -
  have "live (sample_protocol\<lparr>pr_infoReceived := True, pr_connected := True\<rparr>)"
    by (simp add: live_def out_ok_def sample_protocol_def initial_protocol_def new_data_buffer_def dq_ok_def
        dq_bytes_def dq_length_def)
  then show ?thesis by (rule output_is_never_stuck [THEN conjunct2, THEN conjunct1])
qed

end
