(* ===== verification/Connection.thy ===== *)
theory Connection
  imports Output
begin

text \<open>
  The connection a user holds, \<open>NatsConnectionImpl\<close> of \<open>nats-base-client/nats.ts\<close>, and the
  draining of subscriptions and of the connection. What the runtime does later, when a flush
  settles or a timer fires, is an operation of its own.
\<close>

section \<open>Draining\<close>

text \<open>\<open>SubscriptionImpl.drain\<close> up to its flush, and what follows when the flush settles.\<close>

definition sub_drain :: "nat \<Rightarrow> protocol \<Rightarrow> protocol \<times> (js_error + unit)" where
  "sub_drain i p =
     (if pr_closed p then (p, Inl (error_for_code EC_ConnectionClosed None))
      else if sub_isClosed (sub_of p i) then (p, Inl (error_for_code EC_SubClosed None))
      else if sb_drained (sub_of p i) then (p, Inr ())
      else let p1 = with_subs (upd_sub i (\<lambda>s. s\<lparr>sb_draining := True\<rparr>)) p;
               p2 = pr_unsub i None p1;
               (p3, d) = flush_new p2
           in (with_subs (upd_sub i (\<lambda>s. s\<lparr>sb_drained := True\<rparr>)) p3, Inr ()))"

definition sub_drain_done :: "nat \<Rightarrow> protocol \<Rightarrow> protocol" where
  "sub_drain_done i p = with_subs (subs_cancel i) p"

text \<open>\<open>ProtocolHandler.drain\<close>: the drains of all subscriptions, then, when they have all
  settled, the last flush, and when that has settled the close.\<close>

definition pr_drain_start :: "protocol \<Rightarrow> protocol" where
  "pr_drain_start p = fold (\<lambda>i q. fst (sub_drain i q)) (subs_all (pr_subs p)) p"

definition pr_drain_flush :: "protocol \<Rightarrow> protocol" where
  "pr_drain_flush p = fst (flush_new (p\<lparr>pr_noMorePublishing := True\<rparr>))"

definition pr_drain_close :: "protocol \<Rightarrow> protocol" where
  "pr_drain_close p = pr_close None p"

section \<open>The end of an iterator\<close>

text \<open>What the constructor of a subscription without a callback attaches to \<open>iterClosed\<close>: when the loop of
  the reader ends, whether by \<open>break\<close> or by the end of the iterator, the subscription is closed and
  unsubscribed.\<close>

definition sub_iter_closed :: "nat \<Rightarrow> protocol \<Rightarrow> protocol" where
  "sub_iter_closed i p =
     (if qi_noIterator (sb_iter (sub_of p i)) then p
      else pr_unsubscribe i None (with_subs (upd_sub i (\<lambda>s. s\<lparr>sb_closed := True\<rparr>)) p))"

section \<open>The connection\<close>

record connection =
  nc_protocol :: protocol
  nc_draining :: bool
  nc_listeners :: nat

definition nc_isClosed :: "connection \<Rightarrow> bool" where
  "nc_isClosed nc = pr_closed (nc_protocol nc)"

definition nc_isDraining :: "connection \<Rightarrow> bool" where
  "nc_isDraining nc = nc_draining nc"

definition nc_check :: "string \<Rightarrow> bool \<Rightarrow> bool \<Rightarrow> connection \<Rightarrow> js_error + unit" where
  "nc_check subj sub pub nc =
     (if nc_isClosed nc then Inl (error_for_code EC_ConnectionClosed None)
      else if sub \<and> nc_isDraining nc then Inl (error_for_code EC_ConnectionDraining None)
      else if pub \<and> pr_noMorePublishing (nc_protocol nc) then Inl (error_for_code EC_ConnectionDraining None)
      else if length subj = 0 then Inl (error_for_code EC_BadSubject None)
      else Inr ())"

definition nc_publish ::
  "string \<Rightarrow> payload \<Rightarrow> string \<Rightarrow> msg_hdrs option \<Rightarrow> connection \<Rightarrow> connection \<times> (js_error + unit)" where
  "nc_publish subj data rep hdrs nc =
     (case nc_check subj False True nc of
        Inl e \<Rightarrow> (nc, Inl e)
      | Inr u \<Rightarrow> (let (p, r) = publish subj data rep hdrs (nc_protocol nc) in (nc\<lparr>nc_protocol := p\<rparr>, r)))"

text \<open>Publishing a message, and answering one: \<open>headers\<close> of a message may throw.\<close>

definition nc_publishMessage :: "nats_msg \<Rightarrow> connection \<Rightarrow> connection \<times> (js_error + unit)" where
  "nc_publishMessage m nc =
     (case msg_headers m of
        Inl e \<Rightarrow> (nc, Inl e)
      | Inr h \<Rightarrow> nc_publish (msg_subject m) (P_Bytes (msg_data m)) (msg_reply m) h nc)"

definition nc_respondMessage :: "nats_msg \<Rightarrow> connection \<Rightarrow> connection \<times> (js_error + bool)" where
  "nc_respondMessage m nc =
     (if msg_reply m \<noteq> []
      then (case msg_headers m of
              Inl e \<Rightarrow> (nc, Inl e)
            | Inr h \<Rightarrow>
                (case nc_publish (msg_reply m) (P_Bytes (msg_data m)) (msg_reply m) h nc of
                   (nc', Inl e) \<Rightarrow> (nc', Inl e)
                 | (nc', Inr u) \<Rightarrow> (nc', Inr True)))
      else (nc, Inr False))"

text \<open>\<open>subscribe\<close>: \<open>i\<close> is the number of the new object.\<close>

definition nc_subscribe :: "nat \<Rightarrow> string \<Rightarrow> sub_opts \<Rightarrow> connection \<Rightarrow> connection \<times> (js_error + unit)" where
  "nc_subscribe i subj opts nc =
     (case nc_check subj True False nc of
        Inl e \<Rightarrow> (nc, Inl e)
      | Inr u \<Rightarrow>
          (nc\<lparr>nc_protocol := pr_subscribe i (with_subs (upd_sub i (\<lambda>_. new_subscription subj opts)) (nc_protocol nc))\<rparr>,
           Inr ()))"

definition nc_resub :: "nat \<Rightarrow> string \<Rightarrow> nat option \<Rightarrow> connection \<Rightarrow> connection \<times> (js_error + unit)" where
  "nc_resub i subj mx nc =
     (case nc_check subj True False nc of
        Inl e \<Rightarrow> (nc, Inl e)
      | Inr u \<Rightarrow>
          let p1 = with_subs (upd_sub i (\<lambda>s. s\<lparr>sb_max := mx\<rparr>)) (nc_protocol nc);
              p2 = (case mx of
                      Some m \<Rightarrow> if m \<noteq> 0
                        then with_subs (upd_sub i (\<lambda>s. s\<lparr>sb_max := Some (m + nat (qi_received (sb_iter s)))\<rparr>)) p1 else p1
                    | None \<Rightarrow> p1)
          in (nc\<lparr>nc_protocol := pr_resub i subj p2\<rparr>, Inr ()))"

definition nc_flush :: "connection \<Rightarrow> connection \<times> (js_error + nat)" where
  "nc_flush nc =
     (if nc_isClosed nc then (nc, Inl (error_for_code EC_ConnectionClosed None))
      else let (p, d) = flush_new (nc_protocol nc) in (nc\<lparr>nc_protocol := p\<rparr>, Inr d))"

definition nc_drain :: "connection \<Rightarrow> connection \<times> (js_error + unit)" where
  "nc_drain nc =
     (if nc_isClosed nc then (nc, Inl (error_for_code EC_ConnectionClosed None))
      else if nc_isDraining nc then (nc, Inl (error_for_code EC_ConnectionDraining None))
      else (nc\<lparr>nc_draining := True, nc_protocol := pr_drain_start (nc_protocol nc)\<rparr>, Inr ()))"

definition nc_close :: "connection \<Rightarrow> connection" where
  "nc_close nc = nc\<lparr>nc_protocol := pr_close None (nc_protocol nc)\<rparr>"

definition nc_reconnect :: "connection \<Rightarrow> connection \<times> (js_error + unit)" where
  "nc_reconnect nc =
     (if nc_isClosed nc then (nc, Inl (error_for_code EC_ConnectionClosed None))
      else if nc_isDraining nc then (nc, Inl (error_for_code EC_ConnectionDraining None))
      else (nc\<lparr>nc_protocol := pr_reconnect (nc_protocol nc)\<rparr>, Inr ()))"

definition nc_getServer :: "connection \<Rightarrow> string" where
  "nc_getServer nc =
     (case pr_server (nc_protocol nc) of
        Some i \<Rightarrow> sv_listen (server_at (pr_servers (nc_protocol nc)) i)
      | None \<Rightarrow> [])"

definition nc_info :: "connection \<Rightarrow> server_info option" where
  "nc_info nc = (if pr_closed (nc_protocol nc) then None else pr_info (nc_protocol nc))"

definition nc_stats :: "connection \<Rightarrow> nat \<times> nat \<times> nat \<times> nat" where
  "nc_stats nc = (let p = nc_protocol nc in (pr_inBytes p, pr_outBytes p, pr_inMsgs p, pr_outMsgs p))"

definition nc_getServerVersion :: "connection \<Rightarrow> js_error + semver option" where
  "nc_getServerVersion nc =
     (case nc_info nc of
        Some i \<Rightarrow> rbind (parseSemVer (si_version i)) (\<lambda>v. Inr (Some v))
      | None \<Rightarrow> Inr None)"

text \<open>\<open>rtt\<close> up to its flush.\<close>

definition nc_rtt :: "connection \<Rightarrow> connection \<times> (js_error + nat)" where
  "nc_rtt nc =
     (if \<not> pr_closed (nc_protocol nc) \<and> \<not> pr_connected (nc_protocol nc)
      then (nc, Inl (error_for_code EC_Disconnect None)) else nc_flush nc)"

section \<open>A request\<close>

record request_opts =
  ro_timeout :: int
  ro_noMux :: bool
  ro_reply :: "string option"
  ro_headers :: "msg_hdrs option"

text \<open>What a request leaves behind: the number of its request object or of its subscription.\<close>

datatype request_handle = Mux_Request nat | Own_Subscription nat

text \<open>\<open>tok\<close> and \<open>nuid\<close> are the identifiers drawn, \<open>i\<close> numbers a new subscription and \<open>r\<close> a new
  request. The error of a rejected promise and an exception are both errors here.\<close>

definition nc_request ::
  "string \<Rightarrow> string \<Rightarrow> nat \<Rightarrow> nat \<Rightarrow> string \<Rightarrow> payload \<Rightarrow> request_opts \<Rightarrow> connection
    \<Rightarrow> connection \<times> (js_error + request_handle)" where
  "nc_request tok nuid i r subj data opts nc =
     (case nc_check subj True True nc of
        Inl e \<Rightarrow> (nc, Inl e)
      | Inr u \<Rightarrow>
          let tmo = (if ro_timeout opts = 0 then 1000 else ro_timeout opts);
              has_reply = (case ro_reply opts of Some s \<Rightarrow> s \<noteq> [] | None \<Rightarrow> False)
          in if tmo < 1 then (nc, Inl (nats_error ''timeout'' (code_string EC_InvalidOption) None))
             else if \<not> ro_noMux opts \<and> has_reply
             then (nc, Inl (nats_error ''reply can only be used with noMux'' (code_string EC_InvalidOption) None))
             else if ro_noMux opts
             then (case (if has_reply then Inr (the (ro_reply opts))
                         else createInbox nuid (co_inboxPrefix (pr_options (nc_protocol nc)))) of
                     Inl e \<Rightarrow> (nc, Inl e)
                   | Inr inbox \<Rightarrow>
                       (case nc_subscribe i inbox
                          \<lparr>so_queue = None, so_max = Some 1, so_timeout = Some (nat tmo), so_callback = True\<rparr> nc of
                          (nc1, Inl e) \<Rightarrow> (nc1, Inl e)
                        | (nc1, Inr v) \<Rightarrow>
                            let p1 = with_subs (upd_sub i (\<lambda>s. s\<lparr>sb_requestSubject := Some subj\<rparr>)) (nc_protocol nc1);
                                (p2, res) = publish subj data inbox (ro_headers opts) p1
                            in (nc1\<lparr>nc_protocol := p2\<rparr>,
                                case res of Inl e \<Rightarrow> Inl e | Inr w \<Rightarrow> Inr (Own_Subscription i))))
             else let p0 = nc_protocol nc;
                      req = new_request_one tok subj (nat tmo);
                      p1 = p0\<lparr>pr_mux := (pr_mux p0)\<lparr>mu_store := (mu_store (pr_mux p0))(r := req)\<rparr>\<rparr>
                  in (case pr_request nuid i r p1 of
                        Inl e \<Rightarrow> (nc\<lparr>nc_protocol := p1\<rparr>, Inl e)
                      | Inr p2 \<Rightarrow>
                          (case nc_publish subj data (mu_baseInbox (pr_mux p2) @ tok) (ro_headers opts)
                             (nc\<lparr>nc_protocol := p2\<rparr>) of
                             (nc3, Inr v) \<Rightarrow> (nc3, Inr (Mux_Request r))
                           | (nc3, Inl e) \<Rightarrow>
                               (let p3 = nc_protocol nc3
                                in (nc3\<lparr>nc_protocol := p3\<lparr>pr_mux := request_cancel r (Some e) (pr_mux p3)\<rparr>\<rparr>,
                                    Inr (Mux_Request r))))))"

text \<open>The callback of a request with its own subscription: what it settles the promise with,
  and whether it unsubscribes.\<close>

definition own_callback :: "js_error option \<Rightarrow> nats_msg option \<Rightarrow> js_error + (settle \<times> bool)" where
  "own_callback err msg =
     (case err of
        Some e \<Rightarrow> Inr (Rejected e, True)
      | None \<Rightarrow>
          (case msg of
             None \<Rightarrow> Inr (Pending, False)
           | Some m \<Rightarrow> rbind (isRequestError m) (\<lambda>x. case x of
                 Some e \<Rightarrow> Inr (Rejected e, False)
               | None \<Rightarrow> Inr (Resolved m, False))))"

section \<open>A request for many replies\<close>

record many_opts =
  mo_strategy :: "strategy option"
  mo_maxWait :: int
  mo_maxMessages :: "int option"
  mo_jitter :: "nat option"
  mo_noMux :: bool
  mo_headers :: "msg_hdrs option"

text \<open>The callback of a request for many replies: it feeds the iterator of the user.\<close>

definition many_push :: "nats_msg item \<Rightarrow> nats_msg qiter \<Rightarrow> nats_msg qiter" where
  "many_push v q = qi_push (\<lambda>_. (True, False)) v q"

definition many_stop :: "js_error option \<Rightarrow> nats_msg qiter \<Rightarrow> nats_msg qiter" where
  "many_stop err q = many_push (Fn (Some err) None) q"

definition many_callback :: "js_error option \<Rightarrow> nats_msg option \<Rightarrow> nats_msg qiter \<Rightarrow> nats_msg qiter" where
  "many_callback err msg q =
     (case err of
        Some e \<Rightarrow> many_stop (Some e) q
      | None \<Rightarrow> (case msg of None \<Rightarrow> many_stop None q | Some m \<Rightarrow> many_push (Val m) q))"

text \<open>The calls a \<open>RequestMany\<close> makes, in order.\<close>

fun many_feed :: "many_call list \<Rightarrow> nats_msg qiter \<Rightarrow> nats_msg qiter" where
  "many_feed [] q = q"
| "many_feed (Call_Err e # cs) q = many_feed cs (many_callback (Some e) None q)"
| "many_feed (Call_Msg m # cs) q = many_feed cs (many_callback None (Some m) q)"
| "many_feed (Call_End # cs) q = many_feed cs (many_callback None None q)"

text \<open>Without the multiplexer: the subscription, the iterator, the count of messages left, the
  timer, and whether the declarations behind the publish have been reached.\<close>

record own_many =
  om_sub :: nat
  om_qi :: "nats_msg qiter"
  om_max :: int
  om_timer :: bool
  om_ready :: bool

definition own_cancel :: "js_error option \<Rightarrow> own_many \<Rightarrow> protocol \<Rightarrow> own_many \<times> protocol \<times> (js_error + unit)" where
  "own_cancel err s p =
     (let s1 = (case err of
          Some e \<Rightarrow> s\<lparr>om_qi := many_push (Fn None (Some e)) (om_qi s)\<rparr>
        | None \<Rightarrow> s)
      in if \<not> om_ready s1
         then (s1, p, Inl (Plain_Error (''Cannot access '' @ quoted ''clearTimers'' @ '' before initialization'')))
         else (s1\<lparr>om_timer := False\<rparr>, fst (sub_drain (om_sub s1) p), Inr ()))"

text \<open>The drain settles, one way or the other.\<close>

definition own_drained :: "own_many \<Rightarrow> own_many" where
  "own_drained s = s\<lparr>om_qi := many_stop None (om_qi s)\<rparr>"

definition own_message ::
  "strategy \<Rightarrow> js_error option \<Rightarrow> nats_msg \<Rightarrow> own_many \<Rightarrow> protocol \<Rightarrow> own_many \<times> protocol \<times> (js_error + unit)" where
  "own_message strat err0 msg s p =
     (case (if length (msg_data msg) = 0
            then (case msg_headers msg of
                    Inl e \<Rightarrow> Inl e
                  | Inr None \<Rightarrow> Inr err0
                  | Inr (Some h) \<Rightarrow> Inr (if hdr_status h = code_string EC_NoResponders
                      then Some (error_for_code EC_NoResponders None) else err0))
            else Inr err0) of
        Inl e \<Rightarrow> (s, p, Inl e)
      | Inr (Some e) \<Rightarrow> own_cancel (Some e) s p
      | Inr None \<Rightarrow>
          let s1 = s\<lparr>om_qi := many_callback None (Some msg) (om_qi s)\<rparr>
          in (case strat of
                Timer \<Rightarrow> (s1, p, Inr ())
              | Count \<Rightarrow>
                  (let s2 = s1\<lparr>om_max := om_max s1 - 1\<rparr>
                   in if om_max s2 = 0 then own_cancel None s2 p else (s2, p, Inr ()))
              | JitterTimer \<Rightarrow> (s1\<lparr>om_timer := True\<rparr>, p, Inr ())
              | SentinelMsg \<Rightarrow> if length (msg_data msg) = 0 then own_cancel None s1 p else (s1, p, Inr ())))"

datatype many_handle = Mux_Many nat | Own_Many own_many

definition nc_requestMany ::
  "string \<Rightarrow> string \<Rightarrow> nat \<Rightarrow> nat \<Rightarrow> string \<Rightarrow> payload \<Rightarrow> many_opts \<Rightarrow> connection
    \<Rightarrow> connection \<times> (js_error + many_handle)" where
  "nc_requestMany tok nuid i r subj data opts nc =
     (case nc_check subj True True nc of
        Inl e \<Rightarrow> (nc, Inl e)
      | Inr u \<Rightarrow>
          let strat = (case mo_strategy opts of Some s \<Rightarrow> s | None \<Rightarrow> Timer);
              wait = (if mo_maxWait opts = 0 then 1000 else mo_maxWait opts)
          in if wait < 1 then (nc, Inl (nats_error ''timeout'' (code_string EC_InvalidOption) None))
             else if mo_noMux opts
             then (case createInbox nuid (co_inboxPrefix (pr_options (nc_protocol nc))) of
                     Inl e \<Rightarrow> (nc, Inl e)
                   | Inr inbox \<Rightarrow>
                       (case nc_subscribe i inbox
                          \<lparr>so_queue = None, so_max = None, so_timeout = None, so_callback = True\<rparr> nc of
                          (nc1, Inl e) \<Rightarrow> (nc1, Inl e)
                        | (nc1, Inr v) \<Rightarrow>
                            let s = \<lparr>om_sub = i, om_qi = new_qiter,
                                  om_max = (case mo_maxMessages opts of Some n \<Rightarrow> if n > 0 then n else - 1 | None \<Rightarrow> - 1),
                                  om_timer = False, om_ready = False\<rparr>;
                                nc2 = nc1\<lparr>nc_protocol := with_subs (upd_sub i (\<lambda>s. s\<lparr>sb_requestSubject := Some subj\<rparr>))
                                    (nc_protocol nc1)\<rparr>
                            in (case nc_publish subj data inbox None nc2 of
                                  (nc3, Inr w) \<Rightarrow> (nc3, Inr (Own_Many (s\<lparr>om_timer := True, om_ready := True\<rparr>)))
                                | (nc3, Inl e) \<Rightarrow>
                                    (case own_cancel (Some e) s (nc_protocol nc3) of
                                       (s', p', Inl x) \<Rightarrow> (nc3\<lparr>nc_protocol := p'\<rparr>, Inl x)
                                     | (s', p', Inr w) \<Rightarrow>
                                         (nc3\<lparr>nc_protocol := p'\<rparr>, Inr (Own_Many (s'\<lparr>om_timer := True, om_ready := True\<rparr>)))))))
             else let p0 = nc_protocol nc;
                      req = new_request_many tok subj strat (nat wait) (mo_maxMessages opts) (mo_jitter opts);
                      p1 = p0\<lparr>pr_mux := (pr_mux p0)\<lparr>mu_store := (mu_store (pr_mux p0))(r := req)\<rparr>\<rparr>
                  in (case pr_request nuid i r p1 of
                        Inl e \<Rightarrow> (nc\<lparr>nc_protocol := p1\<rparr>, Inl e)
                      | Inr p2 \<Rightarrow>
                          (case nc_publish subj data (mu_baseInbox (pr_mux p2) @ tok) (mo_headers opts)
                             (nc\<lparr>nc_protocol := p2\<rparr>) of
                             (nc3, Inr v) \<Rightarrow> (nc3, Inr (Mux_Many r))
                           | (nc3, Inl e) \<Rightarrow>
                               (let p3 = nc_protocol nc3
                                in (nc3\<lparr>nc_protocol := p3\<lparr>pr_mux := request_cancel r (Some e) (pr_mux p3)\<rparr>\<rparr>,
                                    Inr (Mux_Many r))))))"

section \<open>Moving a subscription\<close>

lemma pr_resub_max: "\<not> pr_closed p \<Longrightarrow> sb_max (sub_of (pr_resub i subj p) i) = None"
  by (simp add: pr_resub_def pr_sub_def pr_unsub_def Let_def sub_of_def with_subs_def subs_resub_def)

text \<open>
  The limit given to \<open>_resub\<close> is lost: \<open>resub\<close> first unsubscribes, which clears the limit
  that was just set, so the moved subscription is never unsubscribed by itself.
\<close>
theorem resub_forgets_its_limit:
  assumes "nc_check subj True False nc = Inr ()"
  shows "snd (nc_resub i subj (Some m) nc) = Inr ()
    \<and> sb_max (sub_of (nc_protocol (fst (nc_resub i subj (Some m) nc))) i) = None
    \<and> sb_subject (sub_of (nc_protocol (fst (nc_resub i subj (Some m) nc))) i) = subj"
proof -
  have open_p: "\<not> pr_closed (nc_protocol nc)"
    using assms by (auto simp: nc_check_def nc_isClosed_def split: if_splits)
  moreover have "sb_subject (sub_of (pr_resub i subj p) i) = subj" if "\<not> pr_closed p" for p
    using that by (simp add: pr_resub_def pr_sub_def Let_def sub_of_def with_subs_def subs_resub_def)
  ultimately show ?thesis using assms by (simp add: nc_resub_def Let_def pr_resub_max)
qed

definition sample_connection :: connection where
  "sample_connection = \<lparr>nc_protocol = with_limited_sub, nc_draining = False, nc_listeners = 0\<rparr>"

theorem resub_forgets_its_limit_witness:
  "sb_max (sub_of (nc_protocol (fst (nc_resub 0 ''b'' (Some 5) sample_connection))) 0) = None"
proof -
  have "nc_check ''b'' True False sample_connection = Inr ()"
    by (simp add: nc_check_def nc_isClosed_def nc_isDraining_def sample_connection_def with_limited_sub_def
        with_subs_def sample_protocol_def initial_protocol_def)
  then show ?thesis using resub_forgets_its_limit [of "''b''" sample_connection 0 5] by blast
qed

section \<open>Leaving the loop\<close>

text \<open>A reader that leaves its loop ends its subscription: \<open>UNSUB\<close> goes out, also a second time for a
  subscription that was unsubscribed before, and the subscription leaves the table.\<close>

lemma leaving_the_loop_unsubscribes:
  assumes "\<not> pr_closed p" "out_ok p" "\<not> qi_noIterator (sb_iter (sub_of p i))"
  defines "q \<equiv> sub_iter_closed i p"
  shows "out_stream q = out_stream p @ unsub_line (sb_sid (sub_of p i))" "sb_closed (sub_of q i)"
    "map_of (ss_subs (pr_subs q)) (sb_sid (sub_of p i)) = None"
proof -
  let ?sd = "sb_sid (sub_of p i)"
  let ?p1 = "with_subs (upd_sub i (\<lambda>s. s\<lparr>sb_closed := True\<rparr>)) p"
  let ?p2 = "with_subs (upd_sub i (\<lambda>s. s\<lparr>sb_max := None\<rparr>)) (sendCommand (unsub_line ?sd) [] ?p1)"
  have q: "q = with_subs (subs_cancel i) ?p2"
    using assms(1,3) by (simp add: q_def sub_iter_closed_def pr_unsubscribe_def pr_unsub_def unsub_line_def)
  have p1: "out_ok ?p1" "out_stream ?p1 = out_stream p" using assms(2) by simp_all
  show "out_stream q = out_stream p @ unsub_line ?sd" using sendCommand_stream(1) [OF p1(1)] p1(2) by (simp add: q)
  have s: "ss_store (pr_subs q) i = sub_close ((sub_of p i)\<lparr>sb_closed := True, sb_max := None\<rparr>)"
    by (simp add: q subs_cancel_def sub_of_def Let_def with_subs_def)
  have "sb_closed x \<Longrightarrow> sb_closed (sub_close x)" for x
    by (simp add: sub_close_def sub_push_def sub_stop_def sub_cancelTimeout_def Let_def)
  then show "sb_closed (sub_of q i)" unfolding sub_of_def s by simp
  show "map_of (ss_subs (pr_subs q)) ?sd = None"
    by (simp add: q subs_cancel_def sub_of_def Let_def with_subs_def delete_conv')
qed

section \<open>Draining\<close>

lemma flush_new_stream:
  assumes "out_ok p"
  shows "out_stream (fst (flush_new p)) = out_stream p @ PING_CMD" "out_ok (fst (flush_new p))"
proof -
  let ?p = "p\<lparr>pr_promise := (pr_promise p)(pr_fresh p := P_Pending), pr_fresh := pr_fresh p + 1,
    pr_pongs := pr_pongs p @ [pr_fresh p], pr_outbound := dq_fill PING_CMD [] (pr_outbound p)\<rparr>"
  have "fst (flush_new p) = flushPending ?p" by (simp add: flush_new_def new_deferred_def flush_def Let_def)
  moreover have "out_ok ?p" "out_stream ?p = out_stream p @ PING_CMD"
    using assms by (simp_all add: out_ok_def out_stream_def)
  ultimately show "out_stream (fst (flush_new p)) = out_stream p @ PING_CMD" "out_ok (fst (flush_new p))"
    using flushPending_stream by simp_all
qed

lemma flush_new_simps [simp]:
  "pr_subs (fst (flush_new p)) = pr_subs p" "pr_closed (fst (flush_new p)) = pr_closed p"
  "sub_of (fst (flush_new p)) = sub_of p"
  by (simp_all add: flush_new_def new_deferred_def flush_def case_prod_beta sub_of_def fun_eq_iff)

text \<open>A subscription that takes part in a drain.\<close>

definition drainable :: "protocol \<Rightarrow> nat \<Rightarrow> bool" where
  "drainable p i \<longleftrightarrow> \<not> sub_isClosed (sub_of p i) \<and> \<not> sb_drained (sub_of p i)"

definition drain_bytes :: "protocol \<Rightarrow> nat \<Rightarrow> bytes" where
  "drain_bytes p i = unsub_line (sb_sid (sub_of p i)) @ PING_CMD"

lemma sub_drain_ok:
  assumes "\<not> pr_closed p" "out_ok p" "drainable p i"
  defines "q \<equiv> fst (sub_drain i p)"
  shows "snd (sub_drain i p) = Inr ()" "out_stream q = out_stream p @ drain_bytes p i" "out_ok q" "\<not> pr_closed q"
    "sb_draining (sub_of q i)" "j \<noteq> i \<Longrightarrow> sub_of q j = sub_of p j" "ss_subs (pr_subs q) = ss_subs (pr_subs p)"
proof -
  let ?p1 = "with_subs (upd_sub i (\<lambda>s. s\<lparr>sb_draining := True\<rparr>)) p"
  let ?p2 = "pr_unsub i None ?p1"
  have u: "?p2 = with_subs (upd_sub i (\<lambda>s. s\<lparr>sb_max := None\<rparr>)) (sendCommand (unsub_line (sb_sid (sub_of p i))) [] ?p1)"
    using assms(1) by (simp add: pr_unsub_def unsub_line_def)
  have d: "sub_drain i p = (with_subs (upd_sub i (\<lambda>s. s\<lparr>sb_drained := True\<rparr>)) (fst (flush_new ?p2)), Inr ())"
    using assms(1,3) by (simp add: sub_drain_def drainable_def case_prod_beta)
  have p1: "out_ok ?p1" using assms(2) by simp
  have s: "out_stream ?p2 = out_stream p @ unsub_line (sb_sid (sub_of p i))" "out_ok ?p2"
    unfolding u using sendCommand_stream [OF p1] by simp_all
  show "snd (sub_drain i p) = Inr ()" by (simp add: d)
  show "out_stream q = out_stream p @ drain_bytes p i" "out_ok q"
    using flush_new_stream [OF s(2)] s(1) by (simp_all add: q_def d drain_bytes_def)
  show "\<not> pr_closed q" using assms(1) by (simp add: q_def d u)
  show "sb_draining (sub_of q i)" by (simp add: q_def d u)
  show "j \<noteq> i \<Longrightarrow> sub_of q j = sub_of p j" by (simp add: q_def d u)
  show "ss_subs (pr_subs q) = ss_subs (pr_subs p)" by (simp add: q_def d u)
qed

lemma drain_all:
  "\<not> pr_closed p \<Longrightarrow> out_ok p \<Longrightarrow> distinct is \<Longrightarrow> \<forall>i \<in> set is. drainable p i \<Longrightarrow>
    out_stream (fold (\<lambda>i q. fst (sub_drain i q)) is p) = out_stream p @ concat (map (drain_bytes p) is)
    \<and> (\<forall>i \<in> set is. sb_draining (sub_of (fold (\<lambda>i q. fst (sub_drain i q)) is p) i))
    \<and> (\<forall>j. j \<notin> set is \<longrightarrow> sub_of (fold (\<lambda>i q. fst (sub_drain i q)) is p) j = sub_of p j)
    \<and> ss_subs (pr_subs (fold (\<lambda>i q. fst (sub_drain i q)) is p)) = ss_subs (pr_subs p)"
proof (induction "is" arbitrary: p)
  case (Cons i "is")
  have "drainable p i" using Cons.prems(4) by simp
  note d = sub_drain_ok [OF Cons.prems(1,2) this]
  let ?q = "fst (sub_drain i p)"
  have same: "sub_of ?q j = sub_of p j" if "j \<in> set is" for j
    using that Cons.prems(3) by (intro d(6)) auto
  then have b: "map (drain_bytes ?q) is = map (drain_bytes p) is" "\<forall>j \<in> set is. drainable ?q j"
    using Cons.prems(4) by (auto simp: drain_bytes_def drainable_def)
  have "distinct is" using Cons.prems(3) by simp
  note ih = Cons.IH [OF d(4,3) this b(2)]
  have "i \<notin> set is" using Cons.prems(3) by simp
  then show ?case using ih d(2,5,6,7) b(1) by auto
qed simp

text \<open>
  C28: Draining the connection sends, for every subscription in the table and in its order, an
  \<open>UNSUB\<close> and behind it a ping, so that the pong of the flush comes when the server has sent
  everything for it; the subscriptions stay in the table until then, marked as draining, and
  from now on new subscriptions and a second drain are refused.
\<close>
theorem drain_unsubscribes_then_pings:
  fixes nc :: connection
  defines "p \<equiv> nc_protocol nc"
  assumes "\<not> nc_isClosed nc" "\<not> nc_isDraining nc" "out_ok p" "subs_ok (pr_subs p)"
    "\<forall>i \<in> set (subs_all (pr_subs p)). drainable p i"
  shows "\<exists>nc'. nc_drain nc = (nc', Inr ())
    \<and> out_stream (nc_protocol nc') = out_stream p @ concat (map (drain_bytes p) (subs_all (pr_subs p)))
    \<and> ss_subs (pr_subs (nc_protocol nc')) = ss_subs (pr_subs p)
    \<and> (\<forall>i \<in> set (subs_all (pr_subs p)). sb_draining (sub_of (nc_protocol nc') i))
    \<and> (\<exists>e. \<forall>subj. nc_check subj True False nc' = Inl e) \<and> (\<exists>e. nc_drain nc' = (nc', Inl e))"
proof -
  have "\<not> pr_closed p" "distinct (subs_all (pr_subs p))"
    using assms(2,5) by (simp_all add: nc_isClosed_def p_def subs_ok_def subs_all_def)
  note d = drain_all [OF this(1) assms(4) this(2) assms(6)]
  let ?nc = "nc\<lparr>nc_draining := True, nc_protocol := pr_drain_start p\<rparr>"
  have "nc_drain nc = (?nc, Inr ())" using assms(2,3) by (simp add: nc_drain_def p_def)
  moreover have "\<exists>e. \<forall>subj. nc_check subj True False ?nc = Inl e"
    by (cases "nc_isClosed ?nc") (auto simp: nc_check_def nc_isDraining_def)
  moreover have "\<exists>e. nc_drain ?nc = (?nc, Inl e)"
    by (cases "nc_isClosed ?nc") (auto simp: nc_drain_def nc_isDraining_def)
  ultimately show ?thesis using d by (simp add: pr_drain_start_def)
qed

theorem drain_unsubscribes_then_pings_witness:
  "out_stream (nc_protocol (fst (nc_drain sample_connection))) = unsub_line 1 @ PING_CMD"
proof -
  have p: "pr_subs sample_protocol = new_subs" "\<not> pr_closed sample_protocol" "out_ok sample_protocol"
      "out_stream sample_protocol = []"
    by (simp_all add: sample_protocol_def initial_protocol_def out_ok_def dq_ok_def dq_bytes_def
        new_data_buffer_def out_stream_def)
  have "subs_ok (upd_sub 0 (\<lambda>_. limited_sub) new_subs)" by (simp add: subs_ok_def new_subs_def)
  then have ok: "subs_ok (pr_subs with_limited_sub)"
    by (simp add: with_limited_sub_def p subs_ok_add new_subs_def)
  have s: "subs_all (pr_subs with_limited_sub) = [0]" "sb_sid (sub_of with_limited_sub 0) = 1"
      "sub_of with_limited_sub 0 = limited_sub\<lparr>sb_sid := 1\<rparr>"
    by (simp_all add: with_limited_sub_def p subs_all_def subs_add_def new_subs_def sub_of_def Let_def)
  have "drainable with_limited_sub 0"
    by (simp add: drainable_def s limited_sub_def new_subscription_def sub_isClosed_def new_qiter_def)
  then show ?thesis
    using drain_unsubscribes_then_pings [of sample_connection] ok p s
    by (auto simp: sample_connection_def nc_isClosed_def nc_isDraining_def with_limited_sub_def drain_bytes_def)
qed

section \<open>Requests for many replies\<close>

lemma many_feed_append: "many_feed (xs @ ys) q = many_feed ys (many_feed xs q)"
  by (induction xs q rule: many_feed.induct) simp_all

lemma many_feed_queue:
  assumes "\<not> qi_done q"
  shows "qi_yields (many_feed (map Call_Msg ms) q) = qi_yields q @ map Val ms" "\<not> qi_done (many_feed (map Call_Msg ms) q)"
  using assms by (induction ms arbitrary: q) (simp_all add: many_callback_def many_push_def qi_push_def)

text \<open>
  What the user of a request for many replies gets: the iterator holds exactly the replies
  the strategy takes, in order, and behind them its end as soon as the strategy is satisfied.
\<close>
theorem request_many_fills_the_iterator:
  assumes "\<forall>x \<in> set ms. plain_reply (mu_baseInbox m) t x" "t \<noteq> []" "mux_get t m = Some i"
    "rq_kind (mu_store m i) = Many s" "\<not> rq_done (mu_store m i)" "rq_token (mu_store m i) = t"
    "s = Count \<longrightarrow> rq_max (mu_store m i) = int n \<and> 0 < n" "rq_calls (mu_store m i) = []"
  shows "\<exists>m'. mux_dispatches ms m = Inr m'
    \<and> qi_yields (many_feed (rq_calls (mu_store m' i)) new_qiter) =
        map Val (taken s n ms) @ (if complete s n ms then [Fn (Some None) None] else [])"
proof -
  obtain m' where m': "mux_dispatches ms m = Inr m'"
      "rq_calls (mu_store m' i) = map Call_Msg (taken s n ms) @ (if complete s n ms then [Call_End] else [])"
    using many_run [OF assms(1-7)] assms(8) by auto
  let ?q = "many_feed (map Call_Msg (taken s n ms)) new_qiter"
  have q: "qi_yields ?q = map Val (taken s n ms)" "\<not> qi_done ?q"
    using many_feed_queue [of new_qiter] by (simp_all add: new_qiter_def)
  then have "qi_yields (many_feed (rq_calls (mu_store m' i)) new_qiter) =
      map Val (taken s n ms) @ (if complete s n ms then [Fn (Some None) None] else [])"
    by (simp add: m'(2) many_feed_append many_callback_def many_stop_def many_push_def qi_push_def)
  then show ?thesis using m'(1) by blast
qed

definition count_two :: requests where
  "count_two = \<lparr>mu_baseInbox = ''_INBOX.A.'', mu_reqs = [(''B'', 0)],
     mu_store = (\<lambda>_. new_request_many ''B'' ''q'' Count 100 (Some 2) None)\<rparr>"

definition reply_of :: "bytes \<Rightarrow> nats_msg" where
  "reply_of d = new_msg (newMsgArg\<lparr>subject := te_encode ''_INBOX.A.B''\<rparr>) d"

theorem request_many_fills_the_iterator_witness:
  "\<exists>m'. mux_dispatches [reply_of [1], reply_of [], reply_of [3]] count_two = Inr m'
     \<and> qi_yields (many_feed (rq_calls (mu_store m' 0)) new_qiter)
        = [Val (reply_of [1]), Val (reply_of []), Fn (Some None) None]"
proof -
  have p: "plain_reply ''_INBOX.A.'' ''B'' (reply_of d)" for d
    by (simp add: plain_reply_def msg_subject_def new_msg_def newMsgArg_def reply_of_def del: te_encode_Cons)
  show ?thesis
    using request_many_fills_the_iterator [of "[reply_of [1], reply_of [], reply_of [3]]" count_two "''B''" 0 Count 2] p
    by (simp add: count_two_def mux_get_def new_request_many_def)
qed

lemma mo_fields:
  "mo_strategy (opts\<lparr>mo_headers := x\<rparr>) = mo_strategy opts" "mo_maxWait (opts\<lparr>mo_headers := x\<rparr>) = mo_maxWait opts"
  "mo_noMux (opts\<lparr>mo_headers := x\<rparr>) = mo_noMux opts" "mo_maxMessages (opts\<lparr>mo_headers := x\<rparr>) = mo_maxMessages opts"
  "mo_jitter (opts\<lparr>mo_headers := x\<rparr>) = mo_jitter opts"
  by simp_all

text \<open>
  Asking for many replies without the multiplexer: the headers given are never sent, and
  when the publish is refused the call fails with the error of a variable used before its
  declaration instead of the reason, with its subscription left in the table.
\<close>
theorem own_request_many_defects:
  fixes nc :: connection and tok nuid subj :: string and i r :: nat and data :: bytes
  defines "p \<equiv> nc_protocol nc"
  assumes "nc_check subj True True nc = Inr ()" "mo_noMux opts" "0 \<le> mo_maxWait opts"
    "createInbox nuid (co_inboxPrefix (pr_options p)) = Inr inbox" "subs_ok (pr_subs p)" "inbox \<noteq> []" "pr_info p = Some info"
  defines "res \<equiv> nc_requestMany tok nuid i r subj (P_Bytes data) opts nc"
  shows "nc_requestMany tok nuid i r subj (P_Bytes data) (opts\<lparr>mo_headers := Some h\<rparr>) nc
      = nc_requestMany tok nuid i r subj (P_Bytes data) (opts\<lparr>mo_headers := None\<rparr>) nc
    \<and> (si_max_payload info < length data \<longrightarrow>
        snd res = Inl (Plain_Error (''Cannot access '' @ quoted ''clearTimers'' @ '' before initialization''))
        \<and> map_of (ss_subs (pr_subs (nc_protocol (fst res)))) (Suc (ss_sidCounter (pr_subs p))) = Some i)"
proof (intro conjI impI)
  show "nc_requestMany tok nuid i r subj (P_Bytes data) (opts\<lparr>mo_headers := Some h\<rparr>) nc
      = nc_requestMany tok nuid i r subj (P_Bytes data) (opts\<lparr>mo_headers := None\<rparr>) nc"
    unfolding nc_requestMany_def mo_fields eqTrueI [OF assms(3)] if_True ..
next
  assume big: "si_max_payload info < length data"
  let ?so = "\<lparr>so_queue = None, so_max = None, so_timeout = None, so_callback = True\<rparr>"
  define p1 where "p1 = pr_subscribe i (with_subs (upd_sub i (\<lambda>_. new_subscription inbox ?so)) p)"
  define p2 where "p2 = with_subs (upd_sub i (\<lambda>s. s\<lparr>sb_requestSubject := Some subj\<rparr>)) p1"
  have open_p: "\<not> pr_closed p" "\<not> nc_isDraining nc" "\<not> pr_noMorePublishing p" "subj \<noteq> []"
    using assms(2) by (auto simp: nc_check_def nc_isClosed_def p_def split: if_splits)
  let ?t = "upd_sub i (\<lambda>_. new_subscription inbox ?so) (pr_subs p)"
  have t: "sb_max (ss_store (subs_add i ?t) i) = None"
    "ss_subs (subs_add i ?t) = AList.update (Suc (ss_sidCounter (pr_subs p))) i (ss_subs (pr_subs p))"
    by (simp_all add: subs_add_def new_subscription_def Let_def)
  have p1: "p1 = pr_sub i (with_subs (subs_add i) (with_subs (upd_sub i (\<lambda>_. new_subscription inbox ?so)) p))"
    using t(1) by (simp add: p1_def pr_subscribe_def pr_subunsub_def Let_def sub_of_def pr_sub_def)
  have f: "pr_info p2 = pr_info p" "pr_closed p2 = pr_closed p" "pr_noMorePublishing p2 = pr_noMorePublishing p"
      "map_of (ss_subs (pr_subs p2)) (Suc (ss_sidCounter (pr_subs p))) = Some i"
    using t(2) by (simp_all add: p2_def p1 pr_sub_def with_subs_def sendCommand_def flushPending_def transport_send_def
        case_prod_beta Let_def update_conv')
  have sub: "nc_subscribe i inbox ?so nc = (nc\<lparr>nc_protocol := p1\<rparr>, Inr ())"
    using open_p assms(7) by (simp add: nc_subscribe_def nc_check_def nc_isClosed_def p_def [symmetric] p1_def)
  have check: "nc_check subj False True (nc\<lparr>nc_protocol := p2\<rparr>) = Inr ()"
    using open_p f by (simp add: nc_check_def nc_isClosed_def)
  have pub: "publish subj (P_Bytes data) inbox None p2 = (p2, Inl (error_for_code EC_MaxPayloadExceeded None))"
    using f(1) assms(8) big by (simp add: publish_def)
  have ncpub: "nc_publish subj (P_Bytes data) inbox None (nc\<lparr>nc_protocol := p2\<rparr>)
      = (nc\<lparr>nc_protocol := p2\<rparr>, Inl (error_for_code EC_MaxPayloadExceeded None))"
    by (simp add: nc_publish_def check pub)
  define w where "w = (if mo_maxWait opts = 0 then 1000 else mo_maxWait opts)"
  have w: "\<not> w < 1" using assms(4) by (auto simp: w_def)
  have "res = (nc\<lparr>nc_protocol := p2\<rparr>,
      Inl (Plain_Error (''Cannot access '' @ quoted ''clearTimers'' @ '' before initialization'')))"
    unfolding res_def nc_requestMany_def assms(2) sum.case Let_def w_def [symmetric] p_def [symmetric] assms(5)
    by (simp add: w assms(3) sub p2_def [symmetric] ncpub own_cancel_def)
  then show "snd res = Inl (Plain_Error (''Cannot access '' @ quoted ''clearTimers'' @ '' before initialization''))"
    and "map_of (ss_subs (pr_subs (nc_protocol (fst res)))) (Suc (ss_sidCounter (pr_subs p))) = Some i"
    using f(4) by simp_all
qed


theorem own_request_many_defects_witness:
  "snd (nc_requestMany ''B'' ''N'' 1 0 ''q'' (P_Bytes (replicate 2000 0))
     \<lparr>mo_strategy = None, mo_maxWait = 0, mo_maxMessages = None, mo_jitter = None, mo_noMux = True, mo_headers = None\<rparr>
     sample_connection)
   = Inl (Plain_Error (''Cannot access '' @ quoted ''clearTimers'' @ '' before initialization''))"
proof -
  have s: "pr_subs sample_protocol = new_subs" "\<not> pr_closed sample_protocol" "\<not> pr_noMorePublishing sample_protocol"
      "pr_info sample_protocol = Some sample_info" "pr_options sample_protocol = sample_options"
    by (simp_all add: sample_protocol_def initial_protocol_def)
  have "subs_ok (upd_sub 0 (\<lambda>_. limited_sub) new_subs)" by (simp add: subs_ok_def new_subs_def)
  then have ok: "subs_ok (pr_subs (nc_protocol sample_connection))"
    by (simp add: sample_connection_def with_limited_sub_def s subs_ok_add new_subs_def)
  have p: "pr_info (nc_protocol sample_connection) = Some sample_info"
      "nc_check ''q'' True True sample_connection = Inr ()"
      "createInbox ''N'' (co_inboxPrefix (pr_options (nc_protocol sample_connection))) = Inr ''_INBOX.N''"
    by (simp_all add: sample_connection_def with_limited_sub_def with_subs_def s nc_check_def nc_isClosed_def
        nc_isDraining_def createInbox_def sample_options_def)
  show ?thesis
    using own_request_many_defects [of "''q''" sample_connection
      "\<lparr>mo_strategy = None, mo_maxWait = 0, mo_maxMessages = None, mo_jitter = None, mo_noMux = True, mo_headers = None\<rparr>"
      "''N''" "''_INBOX.N''" sample_info "''B''" 1 0 "replicate 2000 0" "new_hdrs 0 []"] ok p
    by (auto simp: sample_info_def)
qed

end
