(* ===== verification/Request_Answer.thy ===== *)
theory Request_Answer
  imports Connection
begin

text \<open>
  A request over the multiplexer and its answer: the first request sets the multiplexer up, the
  request is published, and whatever the server sends and the client does in the meantime, the answer
  settles this request. What may happen in the meantime is a step relation over the operations of the
  connection and the events of the parser.
\<close>

section \<open>A request that waits\<close>

definition awaits :: "string \<Rightarrow> nat \<Rightarrow> requests \<Rightarrow> bool" where
  "awaits tok r m \<longleftrightarrow> mux_ok m \<and> map_of (mu_reqs m) tok = Some r \<and> rq_kind (mu_store m r) = One"

lemma awaits_pending: "awaits tok r m \<Longrightarrow> rq_deferred (mu_store m r) = Pending"
proof -
  assume a: "awaits tok r m"
  then have "(tok, r) \<in> set (mu_reqs m)" by (simp add: awaits_def map_of_SomeD)
  then have "request_open (mu_store m r)" using a by (auto simp: awaits_def mux_ok_def)
  then show ?thesis using a by (simp add: awaits_def request_open_def)
qed

lemma awaits_distinct:
  assumes "awaits tok r m" "(t, i) \<in> set (mu_reqs m)" "t \<noteq> tok"
  shows "i \<noteq> r"
proof
  assume "i = r"
  have "(tok, r) \<in> set (mu_reqs m)" using assms(1) by (simp add: awaits_def map_of_SomeD)
  moreover have "inj_on snd (set (mu_reqs m))" using assms(1) by (simp add: awaits_def mux_ok_def distinct_map)
  ultimately have "(t, i) = (tok, r)" using assms(2) \<open>i = r\<close> inj_onD [of snd _ "(t, i)" "(tok, r)"] by simp
  then show False using assms(3) by simp
qed

lemma awaits_store:
  assumes "awaits tok r m" "mux_ok m'" "mu_reqs m' = mu_reqs m \<or> mu_reqs m' = AList.delete t (mu_reqs m)" "t \<noteq> tok"
    "mu_store m' r = mu_store m r"
  shows "awaits tok r m'"
  using assms by (auto simp: awaits_def map_of_delete_other)

text \<open>A request that takes a message is open or gone.\<close>

lemma mux_ok_upd:
  assumes "mux_ok m" "\<And>x. rq_token (f x) = rq_token x \<and> rq_kind (f x) = rq_kind x \<and> rq_deferred (f x) = rq_deferred x
      \<and> rq_done (f x) = rq_done x"
  shows "mux_ok (upd_request i f m)"
proof -
  have "request_open (f x) = request_open x" for x using assms(2) by (simp add: request_open_def split: request_kind.split)
  then show ?thesis using assms by (auto simp: mux_ok_def)
qed

lemma many_message_ok:
  assumes "mux_ok m" "(t, i) \<in> set (mu_reqs m)"
  shows "mux_ok (many_message s i x m)" "mu_baseInbox (many_message s i x m) = mu_baseInbox m"
    "mu_reqs (many_message s i x m) = mu_reqs m \<or> mu_reqs (many_message s i x m) = AList.delete t (mu_reqs m)"
    "j \<noteq> i \<Longrightarrow> mu_store (many_message s i x m) j = mu_store m j"
proof -
  let ?m1 = "upd_request i (\<lambda>r. r\<lparr>rq_calls := rq_calls r @ [Call_Msg x]\<rparr>) m"
  let ?m2 = "upd_request i (\<lambda>r. r\<lparr>rq_max := rq_max r - 1\<rparr>) ?m1"
  let ?m3 = "upd_request i (\<lambda>r. r\<lparr>rq_timer := Some (rq_jitter r)\<rparr>) ?m1"
  have ok: "mux_ok ?m1" using mux_ok_upd [OF assms(1)] by simp
  have ok2: "mux_ok ?m2" "mux_ok ?m3" using mux_ok_upd [OF ok] by simp_all
  have c: "many_message s i x m \<in> {?m1, ?m2, ?m3, request_cancel i None ?m1, request_cancel i None ?m2}"
    by (cases s) (simp_all add: many_message_def Let_def)
  have in1: "(t, i) \<in> set (mu_reqs ?m1)" "(t, i) \<in> set (mu_reqs ?m2)" using assms(2) by simp_all
  have tk: "rq_token (mu_store m i) = t" using assms by (auto simp: mux_ok_def)
  show "mux_ok (many_message s i x m)"
    using c ok ok2 mux_ok_cancel [OF ok in1(1)] mux_ok_cancel [OF ok2(1) in1(2)] by auto
  show "mu_baseInbox (many_message s i x m) = mu_baseInbox m" using c by (auto simp: request_cancel_simps)
  show "mu_reqs (many_message s i x m) = mu_reqs m \<or> mu_reqs (many_message s i x m) = AList.delete t (mu_reqs m)"
    using c tk by (auto simp: request_cancel_simps)
  show "j \<noteq> i \<Longrightarrow> mu_store (many_message s i x m) j = mu_store m j" using c by (auto simp: request_cancel_simps)
qed

lemma resolver_ok:
  fixes e :: "js_error option" and x :: nats_msg
  assumes "mux_ok m" "(t, i) \<in> set (mu_reqs m)"
  defines "m' \<equiv> request_resolver i e (Some x) m"
  shows "mux_ok m'" "mu_baseInbox m' = mu_baseInbox m"
    "mu_reqs m' = mu_reqs m \<or> mu_reqs m' = AList.delete t (mu_reqs m)" "j \<noteq> i \<Longrightarrow> mu_store m' j = mu_store m j"
proof -
  have tk: "rq_token (mu_store m i) = t" using assms(1,2) by (auto simp: mux_ok_def)
  have *: "mux_ok m' \<and> mu_baseInbox m' = mu_baseInbox m \<and> (mu_reqs m' = mu_reqs m \<or> mu_reqs m' = AList.delete t (mu_reqs m))
      \<and> (\<forall>j. j \<noteq> i \<longrightarrow> mu_store m' j = mu_store m j)"
  proof (cases "rq_kind (mu_store m i)")
    case One
    have get: "map_of (mu_reqs m) t = Some i" using assms(1,2) by (simp add: mux_ok_def map_of_is_SomeI)
    note r = resolve_one [OF assms(1) get One, of e "Some x", folded m'_def]
    have "mux_ok m'"
    proof (rule mux_ok_delete [OF assms(1)])
      show "mu_reqs m' = AList.delete t (mu_reqs m)" using r by simp
      show "mu_store m' k = mu_store m k" if "(t, k) \<notin> set (mu_reqs m)" for k using r that assms(2) by (metis option.discI)
    qed
    then show ?thesis using r by simp
  next
    case (Many s)
    show ?thesis
    proof (cases e)
      case None
      then show ?thesis using Many many_message_ok [OF assms(1,2)] by (simp add: m'_def request_resolver_def)
    next
      case (Some y)
      then show ?thesis
        using Many mux_ok_cancel [OF assms(1,2)] tk by (simp add: m'_def request_resolver_def request_cancel_simps)
    qed
  qed
  then show "mux_ok m'" "mu_baseInbox m' = mu_baseInbox m"
    "mu_reqs m' = mu_reqs m \<or> mu_reqs m' = AList.delete t (mu_reqs m)" "j \<noteq> i \<Longrightarrow> mu_store m' j = mu_store m j"
    by simp_all
qed

text \<open>A message for another subject leaves the request waiting.\<close>

lemma awaits_dispatch:
  assumes "awaits tok r m" "msg_subject x \<noteq> mu_baseInbox m @ tok" "mux_dispatch None x m = Inr m'"
  shows "awaits tok r m' \<and> mu_baseInbox m' = mu_baseInbox m"
proof -
  have "m' = m \<or> (\<exists>t i e. t \<noteq> tok \<and> (t, i) \<in> set (mu_reqs m) \<and> m' = request_resolver i e (Some x) m)"
  proof (cases "mux_getToken (msg_subject x) m")
    case None
    then show ?thesis using assms(3) by (simp add: mux_dispatch_def)
  next
    case (Some t)
    then have "t \<noteq> tok" using assms(2) by (auto simp: mux_getToken_def starts_with_def split: if_splits)
        (metis append_take_drop_id)
    then show ?thesis
      using assms(3) Some by (auto simp: mux_dispatch_def mux_get_def rbind_def split: if_splits option.splits sum.splits
          dest!: map_of_SomeD)
  qed
  then show ?thesis
  proof
    assume "\<exists>t i e. t \<noteq> tok \<and> (t, i) \<in> set (mu_reqs m) \<and> m' = request_resolver i e (Some x) m"
    then obtain t i e where t: "t \<noteq> tok" "(t, i) \<in> set (mu_reqs m)" "m' = request_resolver i e (Some x) m" by blast
    have ok: "mux_ok m" using assms(1) by (simp add: awaits_def)
    have "r \<noteq> i" using awaits_distinct [OF assms(1) t(2,1)] by simp
    note o = resolver_ok [OF ok t(2), where e = e and x = x]
    show ?thesis using awaits_store [OF assms(1) o(1,3) t(1) o(4)] \<open>r \<noteq> i\<close> o(2) by (simp add: t(3))
  qed (use assms(1) in simp)
qed

section \<open>The subscription of the multiplexer\<close>

definition mux_sub :: "nat \<Rightarrow> nat \<Rightarrow> subs \<Rightarrow> bool" where
  "mux_sub j sd t \<longleftrightarrow> ss_mux t = Some j \<and> subs_ok t \<and> map_of (ss_subs t) sd = Some j
     \<and> sb_callback (ss_store t j) = Cb_Mux \<and> sb_max (ss_store t j) = None"

lemma mux_sub_upd:
  "mux_sub j sd t \<Longrightarrow> i \<noteq> j \<Longrightarrow> (\<And>s. sb_sid (f s) = sb_sid s) \<Longrightarrow> mux_sub j sd (upd_sub i f t)"
  by (simp add: mux_sub_def subs_ok_upd)

lemma mux_sub_here:
  "mux_sub j sd t \<Longrightarrow> (\<And>s. sb_sid (f s) = sb_sid s \<and> sb_callback (f s) = sb_callback s \<and> sb_max (f s) = sb_max s)
    \<Longrightarrow> mux_sub j sd (upd_sub j f t)"
  by (simp add: mux_sub_def subs_ok_upd)

lemma mux_sub_in: "mux_sub j sd t \<Longrightarrow> j \<in> set (subs_all t)"
  by (force simp: mux_sub_def subs_all_def dest: map_of_SomeD)

lemma mux_sub_fresh: "mux_sub j sd t \<Longrightarrow> i \<notin> set (subs_all t) \<Longrightarrow> mux_sub j sd (upd_sub i f t)"
proof -
  assume a: "mux_sub j sd t" "i \<notin> set (subs_all t)"
  then have "i \<noteq> j" using mux_sub_in by blast
  moreover have "subs_ok (upd_sub i f t)" using a by (force simp: mux_sub_def subs_ok_def subs_all_def)
  ultimately show ?thesis using a(1) by (simp add: mux_sub_def)
qed

lemma mux_sub_add: "mux_sub j sd t \<Longrightarrow> i \<notin> set (subs_all t) \<Longrightarrow> mux_sub j sd (subs_add i t)"
proof -
  assume a: "mux_sub j sd t" "i \<notin> set (subs_all t)"
  then have "i \<noteq> j" using mux_sub_in by blast
  moreover have "subs_ok (subs_add i t)" using a by (intro subs_ok_add) (simp_all add: mux_sub_def subs_all_def)
  ultimately show ?thesis using a(1) by (simp add: mux_sub_def subs_add_eq map_add_def)
qed

lemma mux_sub_cancel: "mux_sub j sd t \<Longrightarrow> i \<in> set (subs_all t) \<Longrightarrow> i \<noteq> j \<Longrightarrow> mux_sub j sd (subs_cancel i t)"
proof -
  assume a: "mux_sub j sd t" "i \<in> set (subs_all t)" "i \<noteq> j"
  obtain k where k: "(k, i) \<in> set (ss_subs t)" using a(2) by (auto simp: subs_all_def)
  then have i: "sb_sid (ss_store t i) = k" using a(1) by (auto simp: mux_sub_def subs_ok_def)
  have "map_of (ss_subs t) k = Some i" using a(1) k by (simp add: mux_sub_def subs_ok_def map_of_is_SomeI)
  then have "k \<noteq> sd" using a by (auto simp: mux_sub_def)
  then show ?thesis
    using a subs_ok_cancel [of t i] i by (simp add: mux_sub_def) (simp add: subs_cancel_def Let_def map_of_delete_other)
qed

section \<open>What leaves the request waiting\<close>

definition waits :: "string \<Rightarrow> string \<Rightarrow> nat \<Rightarrow> nat \<Rightarrow> nat \<Rightarrow> protocol \<Rightarrow> bool" where
  "waits inbox tok r j sd p \<longleftrightarrow> mux_sub j sd (pr_subs p) \<and> awaits tok r (pr_mux p) \<and> mu_baseInbox (pr_mux p) = inbox
     \<and> pr_infoReceived p"

lemma waits_cong:
  "waits inbox tok r j sd p \<Longrightarrow> pr_subs q = pr_subs p \<Longrightarrow> pr_mux q = pr_mux p \<Longrightarrow> pr_infoReceived q = pr_infoReceived p
    \<Longrightarrow> waits inbox tok r j sd q"
  by (simp add: waits_def)

lemma waits_subs: "waits inbox tok r j sd p \<Longrightarrow> mux_sub j sd (f (pr_subs p)) \<Longrightarrow> waits inbox tok r j sd (with_subs f p)"
  by (simp add: waits_def with_subs_def)

lemma waits_mux:
  "waits inbox tok r j sd p \<Longrightarrow> awaits tok r m \<Longrightarrow> mu_baseInbox m = inbox \<Longrightarrow> waits inbox tok r j sd (p\<lparr>pr_mux := m\<rparr>)"
  by (simp add: waits_def)

lemma sendCommand_keeps:
  "pr_mux (sendCommand c ps p) = pr_mux p" "pr_infoReceived (sendCommand c ps p) = pr_infoReceived p"
  "pr_subs (sendCommand c ps p) = pr_subs p"
  by (simp_all add: sendCommand_def flushPending_def transport_send_def case_prod_beta Let_def)

lemma waits_sendCommand: "waits inbox tok r j sd p \<Longrightarrow> waits inbox tok r j sd (sendCommand c ps p)"
  by (erule waits_cong) (simp_all add: sendCommand_keeps)

lemma waits_unsubscribe:
  assumes "waits inbox tok r j sd p" "i \<in> set (subs_all (pr_subs p))" "i \<noteq> j"
  shows "waits inbox tok r j sd (pr_unsubscribe i mx p)"
proof -
  let ?q = "pr_unsub i mx p"
  have q: "waits inbox tok r j sd ?q"
    using assms(1,3) by (auto simp: pr_unsub_def Let_def intro!: waits_subs waits_sendCommand mux_sub_upd
        simp: sendCommand_keeps) (simp_all add: waits_def)
  have "subs_all (pr_subs ?q) = subs_all (pr_subs p)"
    by (simp add: pr_unsub_def Let_def with_subs_def subs_all_def sendCommand_keeps)
  then have "waits inbox tok r j sd (with_subs (subs_cancel i) ?q)"
    using q assms(2,3) by (intro waits_subs mux_sub_cancel) (simp_all add: waits_def)
  then show ?thesis using q by (simp add: pr_unsubscribe_def Let_def split: option.split)
qed

lemma waits_leave:
  assumes "waits inbox tok r j sd p" "i \<in> set (subs_all (pr_subs p))" "i \<noteq> j"
  shows "waits inbox tok r j sd (sub_iter_closed i p)"
proof -
  have "mux_sub j sd (pr_subs p)" using assms(1) by (simp add: waits_def)
  then have "waits inbox tok r j sd (with_subs (upd_sub i (\<lambda>s. s\<lparr>sb_closed := True\<rparr>)) p)"
    using assms by (intro waits_subs mux_sub_upd) simp_all
  then show ?thesis
    using assms waits_unsubscribe by (simp add: sub_iter_closed_def with_subs_def subs_all_def)
qed

lemma waits_subscribe:
  assumes "waits inbox tok r j sd p" "i \<notin> set (subs_all (pr_subs p))"
  shows "waits inbox tok r j sd (pr_subscribe i (with_subs (upd_sub i f) p))"
proof -
  have ij: "i \<noteq> j" using assms mux_sub_in by (auto simp: waits_def)
  let ?p = "with_subs (subs_add i) (with_subs (upd_sub i f) p)"
  have m: "mux_sub j sd (upd_sub i f (pr_subs p))" using assms by (intro mux_sub_fresh) (simp_all add: waits_def)
  have "mux_sub j sd (pr_subs ?p)"
    using mux_sub_add [OF m, of i] assms(2) by (simp add: with_subs_def subs_all_def)
  then have w: "waits inbox tok r j sd ?p" using assms(1) by (simp add: waits_def with_subs_def)
  have "i \<in> set (subs_all (pr_subs ?p))"
    using m by (simp add: with_subs_def subs_all_def mux_sub_def subs_add_eq)
  then have "waits inbox tok r j sd (pr_unsubscribe i mx (pr_sub i ?p))" for mx
    using w ij by (intro waits_unsubscribe) (simp_all add: pr_sub_def waits_sendCommand sendCommand_keeps)
  moreover have "waits inbox tok r j sd (pr_sub i ?p)" using w by (simp add: pr_sub_def waits_sendCommand)
  ultimately show ?thesis by (simp add: pr_subscribe_def pr_subunsub_def Let_def split: option.split)
qed

lemma waits_deliver:
  assumes "waits inbox tok r j sd p" "msg_subject x \<noteq> inbox @ tok" "(k, i) \<in> set (ss_subs (pr_subs p))"
    "deliver i x p = (p', res)"
  shows "waits inbox tok r j sd p' \<and> ss_subs (pr_subs p') = ss_subs (pr_subs p)"
proof -
  have mux: "waits inbox tok r j sd (p\<lparr>pr_mux := m\<rparr>)" if "mux_dispatch None x (pr_mux p) = Inr m" for m
    using awaits_dispatch [of tok r "pr_mux p" x m] that assms(1,2) by (simp add: waits_def)
  have other: "waits inbox tok r j sd (with_subs (upd_sub i (sub_deliver None (Some x))) p)"
    if "sb_callback (sub_of p i) \<noteq> Cb_Mux"
  proof -
    have "i \<noteq> j" using that assms(1) by (auto simp: waits_def mux_sub_def sub_of_def)
    then show ?thesis using assms(1) by (intro waits_subs mux_sub_upd) (simp_all add: waits_def)
  qed
  show ?thesis
    using assms(1,4) mux other
    by (cases "sb_callback (sub_of p i)") (auto simp: deliver_def with_subs_def split: sum.splits)
qed

lemma waits_processMsg:
  assumes "waits inbox tok r j sd p" "msg_subject (new_msg m d) \<noteq> inbox @ tok" "processMsg m d p = (p', res)"
  shows "waits inbox tok r j sd p'"
proof -
  let ?p = "p\<lparr>pr_inMsgs := pr_inMsgs p + 1, pr_inBytes := pr_inBytes p + length d\<rparr>"
  have p: "waits inbox tok r j sd ?p" using assms(1) by (rule waits_cong) simp_all
  show ?thesis
  proof (cases "sub_by_sid (sid m) ?p = None \<or> ss_sidCounter (pr_subs ?p) = 0")
    case True
    then have "p' = ?p" using assms(3) by (cases "ss_sidCounter (pr_subs ?p) = 0") (simp_all add: processMsg_def Let_def)
    then show ?thesis using p by simp
  next
    case False
    then obtain i where i: "sub_by_sid (sid m) ?p = Some i" "ss_sidCounter (pr_subs ?p) \<noteq> 0" by auto
    then have ki: "(nat (sid m), i) \<in> set (ss_subs (pr_subs ?p))"
      by (auto simp: sub_by_sid_def subs_get_def split: if_splits dest: map_of_SomeD)
    let ?q = "count_received i ?p"
    have q: "waits inbox tok r j sd ?q"
      unfolding count_received_def
    proof (rule waits_subs [OF p])
      have m: "mux_sub j sd (pr_subs ?p)" using p by (simp add: waits_def)
      show "mux_sub j sd (upd_sub i (\<lambda>s. s\<lparr>sb_iter := (sb_iter s)\<lparr>qi_received := qi_received (sb_iter s) + 1\<rparr>\<rparr>) (pr_subs ?p))"
        by (cases "i = j") (use mux_sub_here [OF m] mux_sub_upd [OF m] in simp_all)
    qed
    have kq: "(nat (sid m), i) \<in> set (ss_subs (pr_subs ?q))" using ki by (simp add: count_received_def with_subs_def)
    obtain p2 x where d: "deliver i (new_msg m d) ?q = (p2, x)" by force
    note w = waits_deliver [OF q assms(2) kq d]
    have un: "waits inbox tok r j sd (pr_unsubscribe i None p2)" if "sb_max (sub_of p2 i) \<noteq> None"
    proof (rule waits_unsubscribe)
      show "waits inbox tok r j sd p2" using w ..
      show "i \<in> set (subs_all (pr_subs p2))" using w kq by (force simp: subs_all_def)
      show "i \<noteq> j" using that w by (auto simp: waits_def mux_sub_def sub_of_def)
    qed
    show ?thesis
      using assms(3) i d w un by (auto simp: processMsg_def Let_def split: sum.splits option.splits if_splits)
  qed
qed

text \<open>What the server may send: any message for another subject, pings and pongs, information, and any
  error that is no permission violation, as such an error may fail the request.\<close>

definition harmless :: "string \<Rightarrow> parser_event \<Rightarrow> bool" where
  "harmless own ev = (case ev of
     EvMsg m d \<Rightarrow> msg_subject (new_msg m d) \<noteq> own
   | EvErr d \<Rightarrow> \<not> is_permission_error (toError (td_decode d))
   | _ \<Rightarrow> True)"

lemma settle_deferred_keeps:
  "pr_subs (settle_deferred d x p) = pr_subs p" "pr_mux (settle_deferred d x p) = pr_mux p"
  "pr_infoReceived (settle_deferred d x p) = pr_infoReceived p"
  by (simp_all add: settle_deferred_def)

lemma waits_event:
  assumes "waits inbox tok r j sd p" "harmless (inbox @ tok) ev" "pr_push pe ev p = (p', res)"
  shows "waits inbox tok r j sd p'"
proof (cases ev)
  case (EvMsg m d)
  then show ?thesis using waits_processMsg [OF assms(1), of m d] assms(2,3) by (simp add: harmless_def)
next
  case (EvErr d)
  then have "p' = pr_handleError (toError (td_decode d)) (dispatch_status (Ev_Error (err_code (toError (td_decode d))) None) p)"
    using assms(2,3) by (auto simp: harmless_def processError_def Let_def)
  then show ?thesis
    by (intro waits_cong [OF assms(1)])
      (auto simp: pr_handleError_def handleAuthError_def call_connectError_def pr_disconnect_def dispatch_status_def
        settle_deferred_keeps Let_def split: option.split)
next
  case (EvInfo d)
  have "pr_infoReceived p" using assms(1) by (simp add: waits_def)
  then have "pr_subs p' = pr_subs p \<and> pr_mux p' = pr_mux p \<and> pr_infoReceived p'"
    using assms(3) EvInfo by (auto simp: processInfo_def Let_def dispatch_status_def split: sum.splits if_splits option.splits)
  then show ?thesis using assms(1) by (simp add: waits_def)
next
  case EvPing
  then show ?thesis using assms(1,3) by (auto simp: processPing_def transport_send_def waits_def)
next
  case EvPong
  then show ?thesis using assms(1,3) by (auto simp: processPong_def settle_deferred_keeps waits_def split: list.splits)
qed (use assms in simp)

lemma waits_publish: "waits inbox tok r j sd p \<Longrightarrow> waits inbox tok r j sd (fst (publish subj d rep h p))"
  by (erule waits_cong) (auto simp: publish_def Let_def sendCommand_keeps split: payload.split option.split)

lemma waits_nc_publish:
  "waits inbox tok r j sd (nc_protocol nc) \<Longrightarrow> nc_publish subj d rep h nc = (nc', x)
    \<Longrightarrow> waits inbox tok r j sd (nc_protocol nc')"
  using waits_publish [of inbox tok r j sd "nc_protocol nc" subj d rep h]
  by (auto simp: nc_publish_def split: sum.splits prod.splits)

lemma waits_nc_subscribe:
  "waits inbox tok r j sd (nc_protocol nc) \<Longrightarrow> i \<notin> set (subs_all (pr_subs (nc_protocol nc)))
    \<Longrightarrow> nc_subscribe i subj opts nc = (nc', x) \<Longrightarrow> waits inbox tok r j sd (nc_protocol nc')"
  using waits_subscribe [of inbox tok r j sd "nc_protocol nc" i "\<lambda>_. new_subscription subj opts"]
  by (auto simp: nc_subscribe_def split: sum.splits)

lemma waits_flush: "waits inbox tok r j sd p \<Longrightarrow> waits inbox tok r j sd (fst (flush_new p))"
  by (erule waits_cong)
    (simp_all add: flush_new_def flush_def new_deferred_def flushPending_def transport_send_def case_prod_beta Let_def)

lemma waits_microtask: "waits inbox tok r j sd p \<Longrightarrow> waits inbox tok r j sd (run_microtask p)"
  by (erule waits_cong) (simp_all add: run_microtask_def flushPending_def transport_send_def case_prod_beta Let_def)

section \<open>A new request\<close>

text \<open>A request with an identifier that is not in use.\<close>

definition new_request_ok :: "string \<Rightarrow> nat \<Rightarrow> protocol \<Rightarrow> bool" where
  "new_request_ok tok r p \<longleftrightarrow> tok \<noteq> [] \<and> map_of (mu_reqs (pr_mux p)) tok = None \<and> r \<notin> snd ` set (mu_reqs (pr_mux p))"

lemma mux_ok_add:
  fixes subj :: string and ms :: nat
  assumes "mux_ok m" "map_of (mu_reqs m) tok = None" "r \<notin> snd ` set (mu_reqs m)"
  defines "m' \<equiv> mux_add r (m\<lparr>mu_store := (mu_store m)(r := new_request_one tok subj ms)\<rparr>)"
  shows "mux_ok m'" "mu_reqs m' = mu_reqs m @ [(tok, r)]" "awaits tok r m'" "mu_baseInbox m' = mu_baseInbox m"
    "j \<noteq> r \<Longrightarrow> mu_store m' j = mu_store m j"
proof -
  have t: "tok \<notin> fst ` set (mu_reqs m)" using assms(2) by (simp add: map_of_eq_None_iff)
  show reqs: "mu_reqs m' = mu_reqs m @ [(tok, r)]"
    using t by (simp add: m'_def mux_add_def new_request_one_def Let_def update_absent)
  have st: "mu_store m' r = new_request_one tok subj ms" "j \<noteq> r \<Longrightarrow> mu_store m' j = mu_store m j" for j
    by (simp_all add: m'_def mux_add_def new_request_one_def Let_def)
  then show "j \<noteq> r \<Longrightarrow> mu_store m' j = mu_store m j" by simp
  have new: "rq_token (mu_store m' r) = tok \<and> request_open (mu_store m' r)"
    unfolding st(1) by (simp add: request_open_def new_request_one_def)
  have old: "rq_token (mu_store m' i) = t \<and> request_open (mu_store m' i)" if "(t, i) \<in> set (mu_reqs m)" for t i
  proof -
    have "i \<noteq> r" using that assms(3) by force
    then show ?thesis using st(2) [of i] that assms(1) by (auto simp: mux_ok_def)
  qed
  have "distinct (map fst (mu_reqs m'))" "distinct (map snd (mu_reqs m'))"
    using assms(1,3) t by (simp_all add: mux_ok_def reqs)
  then show ok: "mux_ok m'" using new old unfolding mux_ok_def reqs by auto
  have "map_of (mu_reqs m') tok = Some r" using assms(2) unfolding reqs by (simp add: map_add_def)
  then show "awaits tok r m'" using ok st(1) by (simp add: awaits_def new_request_one_def)
  show "mu_baseInbox m' = mu_baseInbox m" by (simp add: m'_def mux_add_def Let_def)
qed

lemma awaits_add:
  assumes "awaits tok r m" "map_of (mu_reqs m) t = None" "i \<notin> snd ` set (mu_reqs m)"
  shows "awaits tok r (mux_add i (m\<lparr>mu_store := (mu_store m)(i := new_request_one t subj ms)\<rparr>))"
proof -
  have m: "mux_ok m" "map_of (mu_reqs m) tok = Some r" "rq_kind (mu_store m r) = One" using assms(1) by (simp_all add: awaits_def)
  then have "r \<noteq> i" using assms(3) by (force dest: map_of_SomeD)
  then show ?thesis using mux_ok_add [OF m(1) assms(2,3)] m by (simp add: awaits_def map_add_def)
qed

lemma awaits_cancel:
  assumes "awaits tok r m" "(t, i) \<in> set (mu_reqs m)" "t \<noteq> tok"
  shows "awaits tok r (request_cancel i e m)"
proof -
  have ok: "mux_ok m" using assms(1) by (simp add: awaits_def)
  have "rq_token (mu_store m i) = t" using ok assms(2) by (auto simp: mux_ok_def)
  moreover have "r \<noteq> i" using awaits_distinct [OF assms] by simp
  ultimately show ?thesis
    using awaits_store [OF assms(1) mux_ok_cancel [OF ok assms(2)] _ assms(3)] by (simp add: request_cancel_simps)
qed

lemma publish_keeps:
  "pr_mux (fst (publish subj d rep h p)) = pr_mux p" "pr_subs (fst (publish subj d rep h p)) = pr_subs p"
  by (auto simp: publish_def Let_def sendCommand_keeps split: payload.split option.split)

lemma nc_publish_keeps: "nc_publish subj d rep h nc = (nc', x) \<Longrightarrow> pr_mux (nc_protocol nc') = pr_mux (nc_protocol nc)"
  using publish_keeps(1) [of subj d rep h "nc_protocol nc"] by (auto simp: nc_publish_def split: sum.splits prod.splits)

text \<open>Another request leaves the first one waiting.\<close>

lemma waits_other_mux:
  fixes subj :: string and ms :: nat
  assumes "waits inbox tok r j sd p" "new_request_ok t q p"
  defines "p1 \<equiv> p\<lparr>pr_mux := (pr_mux p)\<lparr>mu_store := (mu_store (pr_mux p))(q := new_request_one t subj ms)\<rparr>\<rparr>"
  shows "waits inbox tok r j sd p1"
    "\<exists>p2. pr_request nuid i q p1 = Inr p2 \<and> waits inbox tok r j sd p2 \<and> (t, q) \<in> set (mu_reqs (pr_mux p2)) \<and> t \<noteq> tok"
proof -
  have a: "awaits tok r (pr_mux p)" "mu_baseInbox (pr_mux p) = inbox" using assms(1) by (simp_all add: waits_def)
  have n: "map_of (mu_reqs (pr_mux p)) t = None" "q \<notin> snd ` set (mu_reqs (pr_mux p))" using assms(2) by (simp_all add: new_request_ok_def)
  have ok: "mux_ok (pr_mux p)" "map_of (mu_reqs (pr_mux p)) tok = Some r" using a(1) by (simp_all add: awaits_def)
  then have "r \<noteq> q" "t \<noteq> tok" using n by (force dest: map_of_SomeD)+
  note add = mux_ok_add [OF ok(1) n, where subj = subj and ms = ms]
  have "\<And>u v. (u, v) \<in> set (mu_reqs (pr_mux p)) \<Longrightarrow> v \<noteq> q" using n(2) by force
  then have "awaits tok r (pr_mux p1)" using a(1) \<open>r \<noteq> q\<close> by (auto simp: p1_def awaits_def mux_ok_def)
  then show w: "waits inbox tok r j sd p1" using assms(1) by (simp add: waits_def p1_def)
  have "ss_mux (pr_subs p1) = Some j" using assms(1) by (simp add: p1_def waits_def mux_sub_def)
  then have "pr_request nuid i q p1 = Inr (p1\<lparr>pr_mux := mux_add q (pr_mux p1)\<rparr>)" by (simp add: pr_request_def initMux_def)
  moreover have "waits inbox tok r j sd (p1\<lparr>pr_mux := mux_add q (pr_mux p1)\<rparr>)"
    using awaits_add [OF a(1) n] add(4) a(2) by (intro waits_mux [OF w]) (simp_all add: p1_def)
  ultimately show "\<exists>p2. pr_request nuid i q p1 = Inr p2 \<and> waits inbox tok r j sd p2 \<and> (t, q) \<in> set (mu_reqs (pr_mux p2)) \<and> t \<noteq> tok"
    using add(2) \<open>t \<noteq> tok\<close> by (simp add: p1_def)
qed

lemma waits_nc_request:
  assumes "waits inbox tok r j sd (nc_protocol nc)" "new_request_ok t q (nc_protocol nc)"
    "i \<notin> set (subs_all (pr_subs (nc_protocol nc)))" "nc_request t nuid i q subj pay opts nc = (nc', x)"
  shows "waits inbox tok r j sd (nc_protocol nc')"
proof -
  let ?ms = "nat (if ro_timeout opts = 0 then 1000 else ro_timeout opts)"
  let ?p1 = "(nc_protocol nc)\<lparr>pr_mux := (pr_mux (nc_protocol nc))\<lparr>mu_store := (mu_store (pr_mux (nc_protocol nc)))(q := new_request_one t subj ?ms)\<rparr>\<rparr>"
  note mux = waits_other_mux(2) [OF assms(1,2), of nuid i subj ?ms]
  obtain p2 where p2: "pr_request nuid i q ?p1 = Inr p2" "waits inbox tok r j sd p2" "(t, q) \<in> set (mu_reqs (pr_mux p2))" "t \<noteq> tok"
    using mux by blast
  obtain nc3 y where pub: "nc_publish subj pay (mu_baseInbox (pr_mux p2) @ t) (ro_headers opts) (nc\<lparr>nc_protocol := p2\<rparr>) = (nc3, y)" by force
  have w3: "waits inbox tok r j sd (nc_protocol nc3)" by (rule waits_nc_publish [OF _ pub]) (simp add: p2(2))
  have "pr_mux (nc_protocol nc3) = pr_mux p2" using nc_publish_keeps [OF pub] by simp
  then have c3: "waits inbox tok r j sd ((nc_protocol nc3)\<lparr>pr_mux := request_cancel q (Some e) (pr_mux (nc_protocol nc3))\<rparr>)" for e
    using w3 awaits_cancel [of tok r "pr_mux p2" t q] p2(3,4) by (intro waits_mux) (simp_all add: waits_def request_cancel_simps)
  have own: "waits inbox tok r j sd p'"
    if s: "nc_subscribe i b so nc = (nc1, z)" and p': "publish subj pay b (ro_headers opts)
      (with_subs (upd_sub i (\<lambda>s. s\<lparr>sb_requestSubject := Some subj\<rparr>)) (nc_protocol nc1)) = (p', y')" for b so nc1 z p' y'
    unfolding fst_conv [of p' y', folded p', symmetric]
  proof (rule waits_publish, rule waits_subs)
    show w: "waits inbox tok r j sd (nc_protocol nc1)" by (rule waits_nc_subscribe [OF assms(1,3) s])
    have "i \<noteq> j" using assms(1,3) mux_sub_in by (auto simp: waits_def)
    then show "mux_sub j sd (upd_sub i (\<lambda>s. s\<lparr>sb_requestSubject := Some subj\<rparr>) (pr_subs (nc_protocol nc1)))"
      using w by (intro mux_sub_upd) (simp_all add: waits_def)
  qed
  show ?thesis
    using assms(1,4) p2(1) pub w3 c3 own waits_nc_subscribe [OF assms(1,3)]
    by (auto simp: nc_request_def Let_def split: sum.splits if_splits prod.splits)
qed

lemma waits_timeout:
  assumes "waits inbox tok r j sd p" "(t, q) \<in> set (mu_reqs (pr_mux p))" "q \<noteq> r"
  shows "waits inbox tok r j sd (p\<lparr>pr_mux := request_timeout q (pr_mux p)\<rparr>)"
proof -
  have a: "awaits tok r (pr_mux p)" "mu_baseInbox (pr_mux p) = inbox" using assms(1) by (simp_all add: waits_def)
  have "t \<noteq> tok"
    using assms(2,3) a(1) by (auto simp: awaits_def mux_ok_def)
  then have "awaits tok r (request_cancel q e (pr_mux p))" for e using awaits_cancel [OF a(1) assms(2)] by simp
  then show ?thesis
    using a(2) by (intro waits_mux [OF assms(1)]) (simp_all add: request_timeout_def request_cancel_simps split: request_kind.split)
qed

section \<open>In the meantime\<close>

text \<open>What may happen while request number \<open>r\<close> waits for a message to the subject \<open>own\<close> on subscription
  number \<open>j\<close>: a harmless event of the server, and the client publishes, subscribes, ends another
  subscription or leaves its loop, flushes, makes another request, or another request times out; the runtime runs a
  queued flush.\<close>

inductive meanwhile :: "peer \<Rightarrow> string \<Rightarrow> nat \<Rightarrow> nat \<Rightarrow> connection \<Rightarrow> connection \<Rightarrow> bool" for pe own r j where
  event: "harmless own ev \<Longrightarrow> pr_push pe ev (nc_protocol nc) = (p', x) \<Longrightarrow> meanwhile pe own r j nc (nc\<lparr>nc_protocol := p'\<rparr>)"
| publishes: "nc_publish subj pay rep h nc = (nc', x) \<Longrightarrow> meanwhile pe own r j nc nc'"
| subscribes: "i \<notin> set (subs_all (pr_subs (nc_protocol nc))) \<Longrightarrow> nc_subscribe i subj so nc = (nc', x) \<Longrightarrow> meanwhile pe own r j nc nc'"
| unsubscribes: "i \<in> set (subs_all (pr_subs (nc_protocol nc))) \<Longrightarrow> i \<noteq> j \<Longrightarrow>
    meanwhile pe own r j nc (nc\<lparr>nc_protocol := pr_unsubscribe i mx (nc_protocol nc)\<rparr>)"
| leaves: "i \<in> set (subs_all (pr_subs (nc_protocol nc))) \<Longrightarrow> i \<noteq> j \<Longrightarrow>
    meanwhile pe own r j nc (nc\<lparr>nc_protocol := sub_iter_closed i (nc_protocol nc)\<rparr>)"
| flushes: "nc_flush nc = (nc', y) \<Longrightarrow> meanwhile pe own r j nc nc'"
| requests: "new_request_ok t q (nc_protocol nc) \<Longrightarrow> i \<notin> set (subs_all (pr_subs (nc_protocol nc))) \<Longrightarrow>
    nc_request t nuid i q subj pay opts nc = (nc', z) \<Longrightarrow> meanwhile pe own r j nc nc'"
| times_out: "(t, q) \<in> set (mu_reqs (pr_mux (nc_protocol nc))) \<Longrightarrow> q \<noteq> r \<Longrightarrow>
    meanwhile pe own r j nc (nc\<lparr>nc_protocol := (nc_protocol nc)\<lparr>pr_mux := request_timeout q (pr_mux (nc_protocol nc))\<rparr>\<rparr>)"
| microtask: "meanwhile pe own r j nc (nc\<lparr>nc_protocol := run_microtask (nc_protocol nc)\<rparr>)"

lemma waits_meanwhile:
  assumes "meanwhile pe (inbox @ tok) r j nc nc'" "waits inbox tok r j sd (nc_protocol nc)"
  shows "waits inbox tok r j sd (nc_protocol nc')"
  using assms
proof cases
  case (flushes y)
  then show ?thesis
    using waits_flush [OF assms(2)] assms(2) by (auto simp: nc_flush_def split: if_splits prod.splits)
next
  case (requests t q i nuid subj pay opts z)
  then show ?thesis using waits_nc_request [OF assms(2)] by blast
next
  case (event ev p' x)
  then show ?thesis using waits_event [OF assms(2)] by simp
next
  case (publishes subj pay rep h x)
  then show ?thesis using waits_nc_publish [OF assms(2)] by blast
next
  case (subscribes i subj so x)
  then show ?thesis using waits_nc_subscribe [OF assms(2)] by blast
next
  case (unsubscribes i mx)
  then show ?thesis using waits_unsubscribe [OF assms(2)] by simp
next
  case (leaves i)
  then show ?thesis using waits_leave [OF assms(2)] by simp
next
  case (times_out t q)
  then show ?thesis using waits_timeout [OF assms(2)] by simp
next
  case microtask
  then show ?thesis using waits_microtask [OF assms(2)] by simp
qed

lemma waits_meanwhiles:
  "(meanwhile pe (inbox @ tok) r j)\<^sup>*\<^sup>* nc nc' \<Longrightarrow> waits inbox tok r j sd (nc_protocol nc) \<Longrightarrow> waits inbox tok r j sd (nc_protocol nc')"
  by (induction rule: rtranclp_induct) (simp_all add: waits_meanwhile)

section \<open>The multiplexer\<close>

text \<open>The multiplexer is set up with subscription number \<open>j\<close>, or the request that comes now is the
  first one and sets it up: then its subscription gets the new number and the next identifier.\<close>

definition mux_startable :: "string \<Rightarrow> nat \<Rightarrow> string \<Rightarrow> nat \<Rightarrow> nat \<Rightarrow> protocol \<Rightarrow> bool" where
  "mux_startable nuid i inbox j sd p \<longleftrightarrow> mux_ok (pr_mux p) \<and>
     (case ss_mux (pr_subs p) of
        Some k \<Rightarrow> mux_sub j sd (pr_subs p) \<and> mu_baseInbox (pr_mux p) = inbox
      | None \<Rightarrow> subs_ok (pr_subs p) \<and> j = i \<and> i \<notin> set (subs_all (pr_subs p)) \<and> sd = Suc (ss_sidCounter (pr_subs p))
          \<and> (\<exists>b. createInbox nuid (co_inboxPrefix (pr_options p)) = Inr b \<and> inbox = b @ ''.''))"

definition mux_line :: "string \<Rightarrow> nat \<Rightarrow> protocol \<Rightarrow> bytes" where
  "mux_line inbox sd p =
     (if ss_mux (pr_subs p) = None then te_encode (''SUB '' @ inbox @ ''* '' @ show_nat sd @ CR_LF) else [])"

lemma initMux_starts:
  assumes "mux_startable nuid i inbox j sd p" "out_ok p"
  shows "\<exists>p1. initMux nuid i p = Inr p1 \<and> mux_sub j sd (pr_subs p1) \<and> pr_mux p1 = (pr_mux p)\<lparr>mu_baseInbox := inbox\<rparr>
    \<and> out_ok p1 \<and> out_stream p1 = out_stream p @ mux_line inbox sd p \<and> pr_info p1 = pr_info p
    \<and> pr_infoReceived p1 = pr_infoReceived p \<and> pr_closed p1 = pr_closed p \<and> pr_noMorePublishing p1 = pr_noMorePublishing p"
proof (cases "ss_mux (pr_subs p)")
  case (Some k)
  then show ?thesis using assms by (auto simp: mux_startable_def initMux_def mux_line_def)
next
  case None
  then obtain b where b: "createInbox nuid (co_inboxPrefix (pr_options p)) = Inr b" "inbox = b @ ''.''" "j = i"
      "sd = Suc (ss_sidCounter (pr_subs p))" "i \<notin> set (subs_all (pr_subs p))" "subs_ok (pr_subs p)"
    using assms(1) by (auto simp: mux_startable_def)
  define s where "s = (new_subscription (inbox @ ''*'') \<lparr>so_queue = None, so_max = None, so_timeout = None, so_callback = False\<rparr>)
      \<lparr>sb_callback := Cb_Mux\<rparr>"
  have s: "sb_callback s = Cb_Mux" "sb_max s = None" "sb_queue s = None" "sb_subject s = inbox @ ''*''"
    by (simp_all add: s_def new_subscription_def)
  define t1 where "t1 = subs_setMux (Some i) (upd_sub i (\<lambda>_. s) (pr_subs p))"
  have t1: "ss_mux t1 = Some i" "ss_subs t1 = ss_subs (pr_subs p)" "ss_sidCounter t1 = ss_sidCounter (pr_subs p)" "ss_store t1 i = s"
    by (simp_all add: t1_def subs_setMux_def)
  have ok: "subs_ok t1" using b(5,6) by (force simp: t1_def subs_setMux_def subs_ok_def subs_all_def)
  define q where "q = p\<lparr>pr_mux := (pr_mux p)\<lparr>mu_baseInbox := inbox\<rparr>, pr_subs := subs_add i t1\<rparr>"
  have add: "pr_subs q = t1\<lparr>ss_sidCounter := sd, ss_store := (ss_store t1)(i := s\<lparr>sb_sid := sd\<rparr>), ss_subs := ss_subs t1 @ [(sd, i)]\<rparr>"
    using subs_add_eq [OF ok, of i] b(4) by (simp add: q_def t1)
  have "subs_ok (pr_subs q)"
    using subs_ok_add [OF ok, of i] b(5) t1(2) by (simp add: q_def subs_all_def)
  moreover have "map_of (ss_subs (pr_subs p)) sd = None"
    using subs_ok_fresh [OF b(6)] b(4) by (simp add: map_of_eq_None_iff)
  ultimately have m: "mux_sub j sd (pr_subs q)"
    using b(3) s(1,2) unfolding mux_sub_def add by (simp add: map_add_def t1)
  have so: "sub_of q i = s\<lparr>sb_sid := sd\<rparr>" by (simp add: sub_of_def add)
  have mx: "sb_max (sub_of (pr_sub i q) i) = None"
    using so s(2) by (simp add: pr_sub_def sub_of_def sendCommand_keeps)
  have line: "te_encode (sub_line (sub_of q i)) = mux_line inbox sd p"
    unfolding so using None s(3,4) by (simp add: sub_line_def mux_line_def)
  have o: "out_ok q" "out_stream q = out_stream p" using assms(2) by (simp_all add: q_def out_ok_def out_stream_def)
  have "initMux nuid i p = Inr (pr_subscribe i (with_subs (\<lambda>t. subs_setMux (Some i) (upd_sub i (\<lambda>_. s) t))
      (p\<lparr>pr_mux := (pr_mux p)\<lparr>mu_baseInbox := inbox\<rparr>\<rparr>)))"
    using None b(1,2) by (simp add: initMux_def mux_init_def rbind_def s_def)
  also have "\<dots> = Inr (pr_sub i q)"
    using mx unfolding pr_subscribe_def pr_subunsub_def with_subs_def q_def t1_def by (simp add: Let_def)
  finally have i: "initMux nuid i p = Inr (pr_sub i q)" .
  have keeps: "pr_info (sendCommand c [] q) = pr_info q" "pr_noMorePublishing (sendCommand c [] q) = pr_noMorePublishing q"
      "pr_closed (sendCommand c [] q) = pr_closed q" for c
    by (simp_all add: sendCommand_def flushPending_def transport_send_def case_prod_beta Let_def)
  show ?thesis
    using m sendCommand_stream [OF o(1), of "mux_line inbox sd p" "[]"] o(2)
    by (intro exI [of _ "pr_sub i q"]) (simp add: i pr_sub_def line keeps sendCommand_keeps, simp add: q_def)
qed

section \<open>The answer\<close>

text \<open>What a message does to the request it answers: an error for a message with headers that say so.\<close>

definition reply_error :: "nats_msg \<Rightarrow> js_error + js_error option" where
  "reply_error m = rbind (msg_headers m) (\<lambda>h. if h \<noteq> None then isRequestError m else Inr None)"

lemma answer_settles:
  assumes "waits inbox tok r j sd p" "tok \<noteq> []" "sid a = int sd" "msg_subject (new_msg a d) = inbox @ tok"
    "reply_error (new_msg a d) = Inr e"
  defines "q \<equiv> fst (processMsg a d p)"
  shows "rq_deferred (mu_store (pr_mux q) r) = (case e of Some x \<Rightarrow> Rejected x | None \<Rightarrow> Resolved (new_msg a d))"
    "mux_get tok (pr_mux q) = None"
proof -
  let ?m = "pr_mux p"
  have a: "awaits tok r ?m" "mu_baseInbox ?m = inbox" "mux_sub j sd (pr_subs p)" using assms(1) by (simp_all add: waits_def)
  have m: "mux_ok ?m" "map_of (mu_reqs ?m) tok = Some r" "rq_kind (mu_store ?m r) = One" using a(1) by (simp_all add: awaits_def)
  have "mux_getToken (inbox @ tok) ?m = Some tok" using a(2) by (simp add: mux_getToken_def starts_with_def)
  moreover obtain h where h: "msg_headers (new_msg a d) = Inr h" "(if h \<noteq> None then isRequestError (new_msg a d) else Inr None) = Inr e"
    using assms(5) by (cases "msg_headers (new_msg a d)") (simp_all add: reply_error_def rbind_def)
  ultimately have d: "mux_dispatch None (new_msg a d) ?m = Inr (request_resolver r e (Some (new_msg a d)) ?m)"
    using assms(2,4) m(2) h by (simp add: mux_dispatch_def mux_get_def rbind_def)
  have sub: "map_of (ss_subs (pr_subs p)) sd = Some j" "sb_callback (sub_of p j) = Cb_Mux" "sb_max (sub_of p j) = None"
    "subs_ok (pr_subs p)"
    using a(3) by (simp_all add: mux_sub_def sub_of_def)
  then have "ss_sidCounter (pr_subs p) \<noteq> 0" by (auto simp: subs_ok_def dest: map_of_SomeD)
  then have "pr_mux q = request_resolver r e (Some (new_msg a d)) ?m"
    using sub d assms(3) by (simp add: q_def processMsg_def sub_by_sid_def subs_get_def deliver_def count_received_def
        with_subs_def sub_of_def Let_def)
  then show "rq_deferred (mu_store (pr_mux q) r) = (case e of Some x \<Rightarrow> Rejected x | None \<Rightarrow> Resolved (new_msg a d))"
    "mux_get tok (pr_mux q) = None"
    using resolve_one [OF m, of e "Some (new_msg a d)"] by (auto simp: mux_get_def map_of_delete_self split: option.splits)
qed

text \<open>The request itself.\<close>

lemma request_sent:
  fixes nc :: connection and hdrs :: "msg_hdrs option"
  assumes "nc_check subj True True nc = Inr ()" "mux_startable nuid i inbox j sd (nc_protocol nc)"
    "new_request_ok tok r (nc_protocol nc)" "out_ok (nc_protocol nc)" "pr_infoReceived (nc_protocol nc)"
    "word_arg subj" "word_arg (inbox @ tok)" "\<not> ro_noMux opts" "ro_reply opts = None" "0 \<le> ro_timeout opts"
    "payload_bytes pay = Some data"
  defines "hdrs \<equiv> ro_headers opts"
  defines "hb \<equiv> (case hdrs of Some h \<Rightarrow> hdr_encode h | None \<Rightarrow> [])"
  assumes h: "\<not> (hdrs \<noteq> None \<and> (\<exists>i. pr_info (nc_protocol nc) = Some i \<and> \<not> si_headers i))"
    "\<not> (\<exists>i. pr_info (nc_protocol nc) = Some i \<and> si_max_payload i < length data + length hb)"
  shows "\<exists>nc' f. nc_request tok nuid i r subj pay opts nc = (nc', Inr (Mux_Request r))
    \<and> out_stream (nc_protocol nc') = out_stream (nc_protocol nc) @ mux_line inbox sd (nc_protocol nc) @ f
    \<and> (\<forall>rest. read_publish (f @ rest) = Some (subj, inbox @ tok, hb, data, rest))
    \<and> waits inbox tok r j sd (nc_protocol nc')"
proof -
  define p where "p = nc_protocol nc"
  define tmo where "tmo = (if ro_timeout opts = 0 then 1000 else ro_timeout opts)"
  define p1 where "p1 = p\<lparr>pr_mux := (pr_mux p)\<lparr>mu_store := (mu_store (pr_mux p))(r := new_request_one tok subj (nat tmo))\<rparr>\<rparr>"
  have n: "tok \<noteq> []" "map_of (mu_reqs (pr_mux p)) tok = None" "r \<notin> snd ` set (mu_reqs (pr_mux p))"
    using assms(3) by (simp_all add: new_request_ok_def p_def)
  have ok: "mux_ok (pr_mux p)" using assms(2) by (simp add: mux_startable_def p_def)
  have "mux_ok (pr_mux p1)" using ok n(3) by (force simp: p1_def mux_ok_def)
  then have start: "mux_startable nuid i inbox j sd p1" "out_ok p1"
    using assms(2,4) by (simp_all add: p1_def p_def mux_startable_def out_ok_def split: option.splits)
  obtain p2 where p2: "initMux nuid i p1 = Inr p2" "mux_sub j sd (pr_subs p2)" "pr_mux p2 = (pr_mux p1)\<lparr>mu_baseInbox := inbox\<rparr>"
      "out_ok p2" "out_stream p2 = out_stream p1 @ mux_line inbox sd p1" "pr_info p2 = pr_info p1"
      "pr_infoReceived p2 = pr_infoReceived p1" "pr_closed p2 = pr_closed p1" "pr_noMorePublishing p2 = pr_noMorePublishing p1"
    using initMux_starts [OF start] by blast
  define p3 where "p3 = p2\<lparr>pr_mux := mux_add r (pr_mux p2)\<rparr>"
  have req: "pr_request nuid i r p1 = Inr p3" by (simp add: pr_request_def p2(1) p3_def)
  have mb: "mux_ok ((pr_mux p)\<lparr>mu_baseInbox := inbox\<rparr>)" using ok by (simp add: mux_ok_def)
  have comm: "m\<lparr>mu_store := s, mu_baseInbox := b\<rparr> = m\<lparr>mu_baseInbox := b, mu_store := s\<rparr>" for m :: requests and s b by simp
  have "awaits tok r (pr_mux p3) \<and> mu_baseInbox (pr_mux p3) = inbox"
    using mux_ok_add [OF mb, where tok = tok and r = r and subj = subj and ms = "nat tmo"] n(2,3) by (simp add: p3_def p2(3) p1_def comm)
  then have w3: "waits inbox tok r j sd p3" and b3: "mu_baseInbox (pr_mux p3) = inbox"
    using p2(2,7) assms(5) by (simp_all add: waits_def p3_def p1_def p_def)
  have o3: "out_ok p3" "out_stream p3 = out_stream p @ mux_line inbox sd p" "pr_info p3 = pr_info p"
    using p2(4-6) by (simp_all add: p3_def out_ok_def out_stream_def p1_def mux_line_def)
  obtain p4 f where pub: "publish subj pay (inbox @ tok) hdrs p3 = (p4, Inr ())" "out_stream p4 = out_stream p3 @ f"
      "\<forall>rest. read_publish (f @ rest) = Some (subj, inbox @ tok, hb, data, rest)"
    using publish_frame [OF o3(1), of hdrs data subj "inbox @ tok"] h assms(6,7)
    unfolding publish_payload [of subj pay] assms(11) option.case o3(3) p_def hb_def by blast
  have "nc_check subj False True (nc\<lparr>nc_protocol := p3\<rparr>) = Inr ()"
    using assms(1) p2(8,9) by (auto simp: nc_check_def nc_isClosed_def p3_def p1_def p_def split: if_splits)
  then have ncpub: "nc_publish subj pay (inbox @ tok) hdrs (nc\<lparr>nc_protocol := p3\<rparr>) = (nc\<lparr>nc_protocol := p4\<rparr>, Inr ())"
    by (simp add: nc_publish_def pub(1))
  have t: "\<not> tmo < 1" using assms(10) by (auto simp: tmo_def)
  have call: "nc_request tok nuid i r subj pay opts nc = (nc\<lparr>nc_protocol := p4\<rparr>, Inr (Mux_Request r))"
    unfolding nc_request_def assms(1) sum.case Let_def tmo_def [symmetric] p_def [symmetric] assms(9) option.case
      p1_def [symmetric] hdrs_def [symmetric] req
    by (simp add: t assms(8) b3 ncpub)
  have "waits inbox tok r j sd p4" using waits_publish [OF w3, of subj pay "inbox @ tok" hdrs] pub(1) by simp
  then show ?thesis using call pub(2,3) o3(2) by (simp add: p_def)
qed

text \<open>
  C3: A request over the multiplexer is answered by the message to its own inbox subject. On an open
  connection that has received its server information, with a fresh token, a subject and an inbox
  without blanks and line breaks, headers the server supports and a payload it allows, the request sends one frame whose reply subject is the inbox with the token of the request; the first
  request sends before it the subscription of the multiplexer. Whatever comes in between (messages for
  other subjects, pings, pongs, information and errors other than permission violations from the server;
  publishes, new subscriptions, the end of other subscriptions, flushes, other requests and their timeouts on
  the client), the request stays pending; then the message to its reply subject on the subscription
  of the multiplexer settles it and unregisters it: it resolves with the message, or is rejected when
  the headers of the message say so, as for no responders.
\<close>
theorem request_is_answered:
  fixes nc :: connection and hdrs :: "msg_hdrs option"
  assumes "nc_check subj True True nc = Inr ()" "mux_startable nuid i inbox j sd (nc_protocol nc)"
    "new_request_ok tok r (nc_protocol nc)" "out_ok (nc_protocol nc)" "pr_infoReceived (nc_protocol nc)"
    "word_arg subj" "word_arg (inbox @ tok)" "\<not> ro_noMux opts" "ro_reply opts = None" "0 \<le> ro_timeout opts"
    "payload_bytes pay = Some data"
  defines "hdrs \<equiv> ro_headers opts"
  defines "hb \<equiv> (case hdrs of Some h \<Rightarrow> hdr_encode h | None \<Rightarrow> [])"
  assumes "\<not> (hdrs \<noteq> None \<and> (\<exists>i. pr_info (nc_protocol nc) = Some i \<and> \<not> si_headers i))"
    "\<not> (\<exists>i. pr_info (nc_protocol nc) = Some i \<and> si_max_payload i < length data + length hb)"
  shows "\<exists>nc' f. nc_request tok nuid i r subj pay opts nc = (nc', Inr (Mux_Request r))
    \<and> out_stream (nc_protocol nc') = out_stream (nc_protocol nc) @ mux_line inbox sd (nc_protocol nc) @ f
    \<and> (\<forall>rest. read_publish (f @ rest) = Some (subj, inbox @ tok, hb, data, rest))
    \<and> (\<forall>nc2 a d e. (meanwhile pe (inbox @ tok) r j)\<^sup>*\<^sup>* nc' nc2 \<and> sid a = int sd
          \<and> msg_subject (new_msg a d) = inbox @ tok \<and> reply_error (new_msg a d) = Inr e \<longrightarrow>
        rq_deferred (mu_store (pr_mux (nc_protocol nc2)) r) = Pending
        \<and> (let q = fst (processMsg a d (nc_protocol nc2))
           in rq_deferred (mu_store (pr_mux q) r) = (case e of Some x \<Rightarrow> Rejected x | None \<Rightarrow> Resolved (new_msg a d))
            \<and> mux_get tok (pr_mux q) = None))"
proof -
  obtain nc' f where r: "nc_request tok nuid i r subj pay opts nc = (nc', Inr (Mux_Request r))"
      "out_stream (nc_protocol nc') = out_stream (nc_protocol nc) @ mux_line inbox sd (nc_protocol nc) @ f"
      "\<forall>rest. read_publish (f @ rest) = Some (subj, inbox @ tok, hb, data, rest)" "waits inbox tok r j sd (nc_protocol nc')"
    using request_sent [OF assms(1-11), folded hdrs_def, folded hb_def, OF assms(14,15)] by blast
  have tok: "tok \<noteq> []" using assms(3) by (simp add: new_request_ok_def)
  have "rq_deferred (mu_store (pr_mux (nc_protocol nc2)) r) = Pending
      \<and> (let q = fst (processMsg a d (nc_protocol nc2))
         in rq_deferred (mu_store (pr_mux q) r) = (case e of Some x \<Rightarrow> Rejected x | None \<Rightarrow> Resolved (new_msg a d))
          \<and> mux_get tok (pr_mux q) = None)"
    if "(meanwhile pe (inbox @ tok) r j)\<^sup>*\<^sup>* nc' nc2" "sid a = int sd" "msg_subject (new_msg a d) = inbox @ tok"
      "reply_error (new_msg a d) = Inr e" for nc2 a d e
    using waits_meanwhiles [OF that(1) r(4)] answer_settles [OF _ tok that(2-4)] awaits_pending
    unfolding Let_def waits_def by blast
  then show ?thesis using r by blast
qed

definition asking :: connection where
  "asking = \<lparr>nc_protocol = sample_protocol\<lparr>pr_infoReceived := True\<rparr>, nc_draining = False, nc_listeners = 0\<rparr>"

definition plain_request :: request_opts where
  "plain_request = \<lparr>ro_timeout = 500, ro_noMux = False, ro_reply = None, ro_headers = None\<rparr>"

definition mux_answer :: msg_arg where
  "mux_answer = newMsgArg\<lparr>sid := 1, subject := te_encode ''_INBOX.N.B''\<rparr>"

theorem request_is_answered_witness:
  "\<exists>nc' f nc2. nc_request ''B'' ''N'' 0 0 ''q'' (P_String ''hi'') plain_request asking = (nc', Inr (Mux_Request 0))
    \<and> out_stream (nc_protocol nc') = te_encode (''SUB _INBOX.N.* 1'' @ CR_LF) @ f
    \<and> nc2 = nc'\<lparr>nc_protocol := processPing (nc_protocol nc')\<rparr>
    \<and> rq_deferred (mu_store (pr_mux (nc_protocol nc2)) 0) = Pending
    \<and> rq_deferred (mu_store (pr_mux (fst (processMsg mux_answer [7] (nc_protocol nc2)))) 0) = Resolved (new_msg mux_answer [7])"
proof -
  let ?p = "nc_protocol asking"
  have f: "\<not> pr_closed ?p" "\<not> pr_noMorePublishing ?p" "out_ok ?p" "pr_info ?p = Some sample_info" "pr_subs ?p = new_subs"
      "pr_mux ?p = new_mux" "pr_infoReceived ?p" "out_stream ?p = []" "pr_options ?p = sample_options"
    by (simp_all add: asking_def sample_protocol_def initial_protocol_def out_ok_def dq_ok_def dq_bytes_def new_data_buffer_def
        out_stream_def)
  have check: "nc_check ''q'' True True asking = Inr ()"
    using f(1,2) by (simp add: nc_check_def nc_isClosed_def nc_isDraining_def) (simp add: asking_def)
  have start: "mux_startable ''N'' 0 ''_INBOX.N.'' 0 1 ?p"
    by (simp add: mux_startable_def f new_subs_def new_mux_def mux_ok_def subs_ok_def subs_all_def createInbox_def sample_options_def)
  have new: "new_request_ok ''B'' 0 ?p" by (simp add: new_request_ok_def f new_mux_def)
  have w: "word_arg ''q''" "word_arg (''_INBOX.N.'' @ ''B'')" by (simp_all add: word_arg_def CR_def LF_def)
  have o: "\<not> ro_noMux plain_request" "ro_reply plain_request = None" "0 \<le> ro_timeout plain_request"
    "payload_bytes (P_String ''hi'') = Some (te_encode ''hi'')" "ro_headers plain_request = None"
    by (simp_all add: plain_request_def payload_bytes_def)
  have l: "\<not> (\<exists>i. pr_info ?p = Some i \<and> si_max_payload i < length (te_encode ''hi'') + length ([] :: bytes))"
    by (simp add: f sample_info_def)
  obtain nc' g where r: "nc_request ''B'' ''N'' 0 0 ''q'' (P_String ''hi'') plain_request asking = (nc', Inr (Mux_Request 0))"
      "out_stream (nc_protocol nc') = out_stream ?p @ mux_line ''_INBOX.N.'' 1 ?p @ g"
      "\<And>nc2 a d e. (meanwhile undefined (''_INBOX.N.'' @ ''B'') 0 0)\<^sup>*\<^sup>* nc' nc2 \<and> sid a = int 1
          \<and> msg_subject (new_msg a d) = ''_INBOX.N.'' @ ''B'' \<and> reply_error (new_msg a d) = Inr e \<Longrightarrow>
        rq_deferred (mu_store (pr_mux (nc_protocol nc2)) 0) = Pending
        \<and> (let q = fst (processMsg a d (nc_protocol nc2))
           in rq_deferred (mu_store (pr_mux q) 0) = (case e of Some x \<Rightarrow> Rejected x | None \<Rightarrow> Resolved (new_msg a d))
            \<and> mux_get ''B'' (pr_mux q) = None)"
    using request_is_answered [OF check start new f(3,7) w o(1-4), unfolded o(5) option.case, of undefined] l by blast
  let ?nc2 = "nc'\<lparr>nc_protocol := processPing (nc_protocol nc')\<rparr>"
  have "harmless (''_INBOX.N.'' @ ''B'') EvPing" by (simp add: harmless_def)
  then have "(meanwhile undefined (''_INBOX.N.'' @ ''B'') 0 0) nc' ?nc2" by (rule meanwhile.event) simp
  then have m: "(meanwhile undefined (''_INBOX.N.'' @ ''B'') 0 0)\<^sup>*\<^sup>* nc' ?nc2" by (rule r_into_rtranclp)
  have a: "sid mux_answer = int 1" "msg_subject (new_msg mux_answer [7]) = ''_INBOX.N.'' @ ''B''"
    "reply_error (new_msg mux_answer [7]) = Inr None"
    by (simp_all add: mux_answer_def msg_subject_def new_msg_def newMsgArg_def reply_error_def msg_headers_def rbind_def
        del: te_encode_Cons)
  have "mux_line ''_INBOX.N.'' 1 ?p = te_encode (''SUB _INBOX.N.* 1'' @ CR_LF)"
    unfolding mux_line_def f(5) new_subs_def by code_simp
  then show ?thesis
    using r(1,2) r(3) [of ?nc2 mux_answer "[7]" None] m a f(8) by (auto simp: Let_def)
qed

end
