(* ===== verification/Sha256.thy ===== *)
theory Sha256
  imports Nats_Prelude
begin

text \<open>
  The hash the object store digests its objects with, \<open>nats-base-client/js-sha256.js\<close>: SHA-256
  and SHA-224 over bytes and strings that arrive in pieces, and HMAC over them. The bundle is
  minified: the constructor \<open>v\<close> is the hasher, \<open>A\<close> its HMAC. The numbers of the code are 32-bit
  integers (every sum is cut with \<open>| 0\<close> before it is used in a bit operation, and is below
  \<open>2 ^ 53\<close> until then), so registers and blocks are 32-bit words. A string is the list of its UTF-16
  code units. The part of the bundle that emulates a node process is not modelled.
\<close>

unbundle bit_operations_syntax

section \<open>The hasher\<close>

type_synonym w32 = "32 word"

datatype regs = Regs w32 w32 w32 w32 w32 w32 w32 w32

definition sha_k :: "w32 list" where
  "sha_k = [1116352408, 1899447441, 3049323471, 3921009573, 961987163, 1508970993, 2453635748,
     2870763221, 3624381080, 310598401, 607225278, 1426881987, 1925078388, 2162078206, 2614888103,
     3248222580, 3835390401, 4022224774, 264347078, 604807628, 770255983, 1249150122, 1555081692,
     1996064986, 2554220882, 2821834349, 2952996808, 3210313671, 3336571891, 3584528711, 113926993,
     338241895, 666307205, 773529912, 1294757372, 1396182291, 1695183700, 1986661051, 2177026350,
     2456956037, 2730485921, 2820302411, 3259730800, 3345764771, 3516065817, 3600352804, 4094571909,
     275423344, 430227734, 506948616, 659060556, 883997877, 958139571, 1322822218, 1537002063,
     1747873779, 1955562222, 2024104815, 2227730452, 2361852424, 2428436474, 2756734187, 3204031479,
     3329325298]"

text \<open>The one bit that ends the message, by its place in a word, and the places of the bytes.\<close>

definition pad_marks :: "w32 list" where
  "pad_marks = [- 2147483648, 8388608, 32768, 128]"

definition byte_shifts :: "nat list" where
  "byte_shifts = [24, 16, 8, 0]"

text \<open>The fields \<open>h0\<close> to \<open>h7\<close> are one value. A hasher created for a single call works on the
  block array of the module, which keeps the words behind the first 17 from earlier calls.\<close>

record sha =
  sha_h :: regs
  sha_blocks :: "w32 list"
  sha_block :: w32
  sha_start :: nat
  sha_bytes :: nat
  sha_hBytes :: nat
  sha_lastByteIndex :: "nat option"
  sha_finalized :: bool
  sha_hashed :: bool
  sha_first :: bool
  sha_is224 :: bool

definition sha_iv :: "bool \<Rightarrow> regs" where
  "sha_iv is224 =
     (if is224 then Regs 3238371032 914150663 812702999 4144912697 4290775857 1750603025 1694076839 3204075428
      else Regs 1779033703 3144134277 1013904242 2773480762 1359893119 2600822924 528734635 1541459225)"

definition new_sha :: "bool \<Rightarrow> w32 list option \<Rightarrow> sha" where
  "new_sha is224 shared =
     \<lparr>sha_h = sha_iv is224,
      sha_blocks = (case shared of Some l \<Rightarrow> replicate 17 0 @ drop 17 l | None \<Rightarrow> replicate 17 0),
      sha_block = 0, sha_start = 0, sha_bytes = 0, sha_hBytes = 0, sha_lastByteIndex = None,
      sha_finalized = False, sha_hashed = False, sha_first = True, sha_is224 = is224\<rparr>"

section \<open>One block\<close>

definition ror :: "nat \<Rightarrow> w32 \<Rightarrow> w32" where
  "ror n x = drop_bit n x OR push_bit (32 - n) x"

definition schedule_step :: "nat \<Rightarrow> w32 list \<Rightarrow> w32 list" where
  "schedule_step t v =
     (let h = v ! (t - 15); e = ror 7 h XOR ror 18 h XOR drop_bit 3 h;
          h = v ! (t - 2); r = ror 17 h XOR ror 19 h XOR drop_bit 10 h
      in take t v @ [v ! (t - 16) + e + v ! (t - 7) + r] @ drop (t + 1) v)"

definition big_s0 :: "w32 \<Rightarrow> w32" where
  "big_s0 x = ror 2 x XOR ror 13 x XOR ror 22 x"

definition big_s1 :: "w32 \<Rightarrow> w32" where
  "big_s1 x = ror 6 x XOR ror 11 x XOR ror 25 x"

definition sha_ch :: "w32 \<Rightarrow> w32 \<Rightarrow> w32 \<Rightarrow> w32" where
  "sha_ch x y z = (x AND y) XOR (NOT x AND z)"

text \<open>Four rounds in one turn of the loop. The code keeps the last conjunction of each majority for
  the next round (\<open>a\<close>, \<open>s\<close>, \<open>n\<close>, \<open>o\<close>), and puts constants for the first round of all. The
  variables are those of the code: \<open>f c l y\<close> and \<open>p d w b\<close> are the eight working registers.\<close>

definition first_of_four :: "bool \<Rightarrow> w32 list \<Rightarrow> nat \<Rightarrow> bool \<times> w32 \<times> regs \<Rightarrow> w32 \<times> w32 \<times> w32" where
  "first_of_four is224 v t = (\<lambda>(first, a, r). case r of Regs f c l y p d w b \<Rightarrow>
     (if first
      then (if is224
            then (let h = v ! 0 - 1413257819 in (300032, h - 150054599, h + 24177077))
            else (let h = v ! 0 - 210244248 in (704751109, h - 1521486534, h + 143694565)))
      else (let e = big_s0 f; s = f AND c; i = s XOR (f AND l) XOR a;
                h = b + big_s1 p + sha_ch p d w + sha_k ! t + v ! t
            in (s, y + h, h + (e + i)))))"

definition four_rounds :: "bool \<Rightarrow> w32 list \<Rightarrow> nat \<Rightarrow> bool \<times> w32 \<times> regs \<Rightarrow> bool \<times> w32 \<times> regs" where
  "four_rounds is224 v t st = (case st of (first, a, r) \<Rightarrow> case r of Regs f c l y p d w b \<Rightarrow>
     (let (s, b, y) = first_of_four is224 v t st;
        e = big_s0 y; n = y AND f; i = n XOR (y AND c) XOR s;
        h = w + big_s1 b + sha_ch b p d + sha_k ! (t + 1) + v ! (t + 1);
        w = l + h; l = h + (e + i);
        e = big_s0 l; o' = l AND y; i = o' XOR (l AND f) XOR n;
        h = d + big_s1 w + sha_ch w b p + sha_k ! (t + 2) + v ! (t + 2);
        d = c + h; c = h + (e + i);
        e = big_s0 c; a = c AND l; i = a XOR (c AND y) XOR o';
        h = p + big_s1 d + sha_ch d w b + sha_k ! (t + 3) + v ! (t + 3);
        p = f + h; f = h + (e + i)
      in (False, a, Regs f c l y p d w b)))"

definition add_regs :: "regs \<Rightarrow> regs \<Rightarrow> regs" where
  "add_regs r r' = (case (r, r') of (Regs a b c d e f g h, Regs a' b' c' d' e' f' g' h') \<Rightarrow>
     Regs (a + a') (b + b') (c + c') (d + d') (e + e') (f + f') (g + g') (h + h'))"

definition sha_hash :: "sha \<Rightarrow> sha" where
  "sha_hash st =
     (let v = fold schedule_step [16..<64] (sha_blocks st);
          a = (case sha_h st of Regs f c l y p d w b \<Rightarrow> c AND l);
          (first, a, r) = fold (four_rounds (sha_is224 st) v) (map (\<lambda>i. 4 * i) [0..<16]) (sha_first st, a, sha_h st)
      in st\<lparr>sha_blocks := v, sha_first := first, sha_h := add_regs (sha_h st) r\<rparr>)"

section \<open>Bytes and strings\<close>

datatype sha_input = In_Bytes bytes | In_Str "nat list"

text \<open>One character of a string: the code unit \<open>h\<close>, with the next one when it is not a character of
  its own (\<open>1023 & NaN\<close> is 0 at the end of the string).\<close>

definition char_codes :: "nat \<Rightarrow> nat list \<Rightarrow> nat list \<times> nat list" where
  "char_codes h hs =
     (if h < 128 then ([h], hs)
      else if h < 2048 then ([192 OR drop_bit 6 h, 128 OR (63 AND h)], hs)
      else if h < 55296 \<or> h \<ge> 57344
        then ([224 OR drop_bit 12 h, 128 OR (drop_bit 6 h AND 63), 128 OR (63 AND h)], hs)
      else (let h = 65536 + (push_bit 10 (1023 AND h) OR (1023 AND (case hs of [] \<Rightarrow> 0 | g # _ \<Rightarrow> g)))
            in ([240 OR drop_bit 18 h, 128 OR (drop_bit 12 h AND 63), 128 OR (drop_bit 6 h AND 63), 128 OR (63 AND h)], tl hs)))"

definition put_byte :: "nat \<Rightarrow> nat \<times> w32 list \<Rightarrow> nat \<times> w32 list" where
  "put_byte x = (\<lambda>(s, u).
     (s + 1, u[s div 4 := u ! (s div 4) OR push_bit (byte_shifts ! (s mod 4)) (word_of_nat x)]))"

text \<open>Filling the block: a character that begins below 64 is written as a whole.\<close>

fun fill_bytes :: "bytes \<Rightarrow> nat \<Rightarrow> w32 list \<Rightarrow> bytes \<times> nat \<times> w32 list" where
  "fill_bytes [] s u = ([], s, u)"
| "fill_bytes (x # xs) s u =
     (if s < 64 then (case put_byte (unat x) (s, u) of (s, u) \<Rightarrow> fill_bytes xs s u) else (x # xs, s, u))"

lemma char_codes_rest: "length (snd (char_codes h hs)) \<le> length hs"
  by (auto simp: char_codes_def Let_def)

function fill_units :: "nat list \<Rightarrow> nat \<Rightarrow> w32 list \<Rightarrow> nat list \<times> nat \<times> w32 list" where
  "fill_units [] s u = ([], s, u)"
| "fill_units (h # hs) s u =
     (if s < 64
      then (case fold put_byte (fst (char_codes h hs)) (s, u) of (s, u) \<Rightarrow> fill_units (snd (char_codes h hs)) s u)
      else (h # hs, s, u))"
  by pat_completeness auto
termination
  by (relation "measure (\<lambda>(hs, s, u). length hs)") (auto simp: le_imp_less_Suc char_codes_rest)

definition sha_fill :: "sha_input \<Rightarrow> nat \<Rightarrow> w32 list \<Rightarrow> sha_input \<times> nat \<times> w32 list" where
  "sha_fill e s u =
     (case e of In_Bytes xs \<Rightarrow> (case fill_bytes xs s u of (xs, s, u) \<Rightarrow> (In_Bytes xs, s, u))
      | In_Str hs \<Rightarrow> (case fill_units hs s u of (hs, s, u) \<Rightarrow> (In_Str hs, s, u)))"

definition input_length :: "sha_input \<Rightarrow> nat" where
  "input_length e = (case e of In_Bytes xs \<Rightarrow> length xs | In_Str hs \<Rightarrow> length hs)"


lemma fill_bytes_shorter:
  "length (fst (fill_bytes xs s u)) \<le> length xs"
  "s < 64 \<Longrightarrow> xs \<noteq> [] \<Longrightarrow> length (fst (fill_bytes xs s u)) < length xs"
proof -
  show le: "length (fst (fill_bytes xs s u)) \<le> length xs" for xs s u
    by (induction xs s u rule: fill_bytes.induct) (auto split: prod.splits)
  show "s < 64 \<Longrightarrow> xs \<noteq> [] \<Longrightarrow> length (fst (fill_bytes xs s u)) < length xs"
    using le by (cases xs) (auto split: prod.splits simp: less_Suc_eq_le)
qed

lemma fill_units_shorter:
  "length (fst (fill_units xs s u)) \<le> length xs"
  "s < 64 \<Longrightarrow> xs \<noteq> [] \<Longrightarrow> length (fst (fill_units xs s u)) < length xs"
proof -
  show le: "length (fst (fill_units xs s u)) \<le> length xs" for xs s u
    by (induction xs s u rule: fill_units.induct)
      (auto split: prod.splits intro: order_trans [OF _ le_SucI [OF char_codes_rest]] order_trans)
  show "s < 64 \<Longrightarrow> xs \<noteq> [] \<Longrightarrow> length (fst (fill_units xs s u)) < length xs"
    using order_trans [OF le char_codes_rest] by (cases xs) (auto split: prod.splits simp: less_Suc_eq_le)
qed

lemma sha_fill_shorter:
  "s < 64 \<Longrightarrow> input_length e \<noteq> 0 \<Longrightarrow> input_length (fst (sha_fill e s u)) < input_length e"
  using fill_bytes_shorter(2) fill_units_shorter(2)
  by (cases e) (auto simp: sha_fill_def input_length_def split: prod.splits; metis fst_conv)+

lemma sha_fill_full: "\<not> s < 64 \<Longrightarrow> sha_fill e s u = (e, s, u)"
  by (auto simp: sha_fill_def neq_Nil_conv elim: fill_bytes.elims fill_units.elims split: sha_input.splits prod.splits)

section \<open>Updating\<close>

definition next_block :: "sha \<Rightarrow> sha" where
  "next_block st =
     (if sha_hashed st
      then st\<lparr>sha_hashed := False, sha_blocks := sha_block st # replicate 16 0 @ drop 17 (sha_blocks st), sha_block := 0\<rparr>
      else st)"

definition update_turn :: "sha_input \<Rightarrow> sha \<Rightarrow> sha_input \<times> sha" where
  "update_turn e st0 =
     (let st = next_block st0;
          (e', s, u) = sha_fill e (sha_start st) (sha_blocks st);
          st = st\<lparr>sha_blocks := u, sha_lastByteIndex := Some s, sha_bytes := sha_bytes st + (s - sha_start st)\<rparr>
      in (e', if 64 \<le> s
              then (sha_hash (st\<lparr>sha_block := u ! 16, sha_start := s - 64\<rparr>))\<lparr>sha_hashed := True\<rparr>
              else st\<lparr>sha_start := s\<rparr>))"

lemma sha_hash_start: "sha_start (sha_hash st) = sha_start st"
  by (simp add: sha_hash_def Let_def split: prod.splits)

lemma update_turn_progress:
  "input_length e \<noteq> 0 \<Longrightarrow> update_turn e st = (e', st') \<Longrightarrow>
     input_length e' < input_length e \<or> e' = e \<and> sha_start st' < sha_start st"
  using sha_fill_shorter [of "sha_start st" e] sha_fill_full [of "sha_start st" e]
  by (cases "sha_start st < 64")
    (auto simp: update_turn_def next_block_def Let_def sha_hash_start split: prod.splits if_splits; metis fst_conv)+

lemma measures_input:
  "input_length e \<noteq> 0 \<Longrightarrow> (e', st') = update_turn e st \<Longrightarrow>
     ((e', st'), e, st) \<in> measures [\<lambda>(e, st). input_length e, \<lambda>(e, st). sha_start st]"
  using update_turn_progress [of e st e' st'] by (metis (no_types, lifting) case_prod_conv measures_less measures_lesseq order_refl)

function update_loop :: "sha_input \<Rightarrow> sha \<Rightarrow> sha" where
  "update_loop e st =
     (if input_length e = 0 then st else (case update_turn e st of (e', st') \<Rightarrow> update_loop e' st'))"
  by pat_completeness auto
termination
  by (relation "measures [\<lambda>(e, st). input_length e, \<lambda>(e, st). sha_start st]",
      simp, metis (mono_tags, lifting) measures_input)

declare update_loop.simps [simp del]

text \<open>An update after the end does nothing, and does not give the hasher back.\<close>

definition sha_update :: "sha_input \<Rightarrow> sha \<Rightarrow> sha \<times> bool" where
  "sha_update e st =
     (if sha_finalized st then (st, False)
      else (let st = update_loop e st
            in (if sha_bytes st > 4294967295
                then st\<lparr>sha_hBytes := sha_hBytes st + sha_bytes st div 4294967296,
                        sha_bytes := sha_bytes st mod 4294967296\<rparr>
                else st, True)))"

section \<open>Digests\<close>

definition sha_finalize :: "sha \<Rightarrow> sha" where
  "sha_finalize st =
     (if sha_finalized st then st
      else (let e = (case sha_lastByteIndex st of None \<Rightarrow> 0 | Some e \<Rightarrow> e);
                t = (sha_blocks st)[16 := sha_block st];
                t = t[e div 4 := t ! (e div 4) OR pad_marks ! (e mod 4)];
                st = st\<lparr>sha_finalized := True, sha_blocks := t, sha_block := t ! 16\<rparr>;
                st = (if 56 \<le> e
                      then (let st = (if sha_hashed st then st else sha_hash st)
                            in st\<lparr>sha_blocks := sha_block st # replicate 16 0 @ drop 17 (sha_blocks st)\<rparr>)
                      else st);
                t = (sha_blocks st)[14 := push_bit 3 (word_of_nat (sha_hBytes st)) OR word_of_nat (drop_bit 29 (sha_bytes st))];
                t = t[15 := push_bit 3 (word_of_nat (sha_bytes st))]
            in sha_hash (st\<lparr>sha_blocks := t\<rparr>)))"

definition reg_list :: "bool \<Rightarrow> regs \<Rightarrow> w32 list" where
  "reg_list is224 r = (case r of Regs a b c d e f g h \<Rightarrow> [a, b, c, d, e, f, g] @ (if is224 then [] else [h]))"

definition word_bytes :: "w32 \<Rightarrow> bytes" where
  "word_bytes x = map (\<lambda>k. ucast (drop_bit k x AND 255)) [24, 16, 8, 0]"

definition word_hex :: "w32 \<Rightarrow> string" where
  "word_hex x = map (\<lambda>k. ''0123456789abcdef'' ! unat (drop_bit k x AND 15)) [28, 24, 20, 16, 12, 8, 4, 0]"

definition sha_digest :: "sha \<Rightarrow> sha \<times> bytes" where
  "sha_digest st0 =
     (let st = sha_finalize st0 in (st, concat (map word_bytes (reg_list (sha_is224 st) (sha_h st)))))"

definition sha_hex :: "sha \<Rightarrow> sha \<times> string" where
  "sha_hex st0 =
     (let st = sha_finalize st0 in (st, concat (map word_hex (reg_list (sha_is224 st) (sha_h st)))))"

text \<open>The buffer: every register at four times its index, in big-endian order.\<close>

definition setUint32 :: "nat \<Rightarrow> w32 \<Rightarrow> bytes \<Rightarrow> bytes" where
  "setUint32 i x b = take i b @ rev (map (\<lambda>k. ucast (drop_bit (8 * k) x)) [0..<4]) @ drop (i + 4) b"

definition sha_arrayBuffer :: "sha \<Rightarrow> sha \<times> bytes" where
  "sha_arrayBuffer st0 =
     (let st = sha_finalize st0
      in (st, case sha_h st of Regs a b c d e f g h \<Rightarrow>
            (let b0 = replicate (if sha_is224 st then 28 else 32) 0;
                 b1 = setUint32 24 g (setUint32 20 f (setUint32 16 e (setUint32 12 d
                        (setUint32 8 c (setUint32 4 b (setUint32 0 a b0))))))
             in if sha_is224 st then b1 else setUint32 28 h b1)))"

text \<open>One call for a whole message, on the block array of the module.\<close>

definition sha256_of :: "bool \<Rightarrow> w32 list \<Rightarrow> sha_input \<Rightarrow> bytes" where
  "sha256_of is224 l m = snd (sha_digest (fst (sha_update m (new_sha is224 (Some l)))))"

section \<open>Keyed hashes\<close>

text \<open>The bytes of a string, as the key of a keyed hash.\<close>

function str_bytes :: "nat list \<Rightarrow> bytes" where
  "str_bytes [] = []"
| "str_bytes (h # hs) = map word_of_nat (fst (char_codes h hs)) @ str_bytes (snd (char_codes h hs))"
  by pat_completeness auto
termination by (relation "measure length") (auto simp: le_imp_less_Suc char_codes_rest)

record hmac =
  hm_sha :: sha
  hm_oKeyPad :: bytes
  hm_inner :: bool
  hm_sharedMemory :: bool

text \<open>A key that is longer than a block is replaced by its hash, on the block array \<open>l\<close> of the module.
  Calling \<open>v\<close> again on the same object resets what \<open>v\<close> sets, which leaves \<open>lastByteIndex\<close> out.\<close>

definition key_pad :: "byte \<Rightarrow> bytes \<Rightarrow> bytes" where
  "key_pad x k = map (\<lambda>h. x XOR (if h < length k then k ! h else 0)) [0..<64]"

definition new_hmac :: "sha_input \<Rightarrow> bool \<Rightarrow> bool \<Rightarrow> w32 list \<Rightarrow> hmac" where
  "new_hmac key is224 shared l =
     (let k = (case key of In_Str hs \<Rightarrow> str_bytes hs | In_Bytes bs \<Rightarrow> bs);
          (l, k) = (if length k > 64
                    then (let (st, d) = sha_digest (fst (sha_update (In_Bytes k) (new_sha is224 (Some l)))) in (sha_blocks st, d))
                    else (l, k))
      in \<lparr>hm_sha = fst (sha_update (In_Bytes (key_pad 54 k)) (new_sha is224 (if shared then Some l else None))),
          hm_oKeyPad = key_pad 92 k, hm_inner = True, hm_sharedMemory = shared\<rparr>)"

definition hmac_update :: "sha_input \<Rightarrow> hmac \<Rightarrow> hmac \<times> bool" where
  "hmac_update e hm = (let (st, b) = sha_update e (hm_sha hm) in (hm\<lparr>hm_sha := st\<rparr>, b))"

definition again :: "bool \<Rightarrow> sha \<Rightarrow> sha" where
  "again shared st =
     (new_sha (sha_is224 st) (if shared then Some (sha_blocks st) else None))\<lparr>sha_lastByteIndex := sha_lastByteIndex st\<rparr>"

definition hmac_finalize :: "hmac \<Rightarrow> hmac" where
  "hmac_finalize hm =
     (let st = sha_finalize (hm_sha hm)
      in if hm_inner hm
         then (let (st, t) = sha_digest st;
                   st = fst (sha_update (In_Bytes t) (fst (sha_update (In_Bytes (hm_oKeyPad hm)) (again (hm_sharedMemory hm) st))))
               in hm\<lparr>hm_inner := False, hm_sha := sha_finalize st\<rparr>)
         else hm\<lparr>hm_sha := st\<rparr>)"

definition hmac_digest :: "hmac \<Rightarrow> hmac \<times> bytes" where
  "hmac_digest hm0 = (let hm = hmac_finalize hm0 in (hm, snd (sha_digest (hm_sha hm))))"

end
