(* ===== verification/Sha256_Spec.thy ===== *)
theory Sha256_Spec
  imports Sha256
begin

text \<open>
  The hasher of \<open>js-sha256.js\<close> computes SHA-256 and SHA-224 as FIPS 180-4 defines them, in whatever
  pieces the message comes: the registers after a number of updates are those of the blocks that
  are full, the block array holds the rest, and the end of the message pads it. The reference
  definitions come first: they rotate, schedule, compress and pad as the standard states it.
\<close>

unbundle bit_operations_syntax

section \<open>The standard\<close>

definition sigma0 :: "w32 \<Rightarrow> w32" where
  "sigma0 x = word_rotr 7 x XOR word_rotr 18 x XOR drop_bit 3 x"

definition sigma1 :: "w32 \<Rightarrow> w32" where
  "sigma1 x = word_rotr 17 x XOR word_rotr 19 x XOR drop_bit 10 x"

definition Sigma0 :: "w32 \<Rightarrow> w32" where
  "Sigma0 x = word_rotr 2 x XOR word_rotr 13 x XOR word_rotr 22 x"

definition Sigma1 :: "w32 \<Rightarrow> w32" where
  "Sigma1 x = word_rotr 6 x XOR word_rotr 11 x XOR word_rotr 25 x"

definition maj :: "w32 \<Rightarrow> w32 \<Rightarrow> w32 \<Rightarrow> w32" where
  "maj x y z = (x AND y) XOR (x AND z) XOR (y AND z)"

fun msg_word :: "w32 list \<Rightarrow> nat \<Rightarrow> w32" where
  "msg_word m t =
     (if t < 16 then m ! t
      else sigma1 (msg_word m (t - 2)) + msg_word m (t - 7) + sigma0 (msg_word m (t - 15)) + msg_word m (t - 16))"

declare msg_word.simps [simp del]

fun fips_round :: "w32 list \<Rightarrow> nat \<Rightarrow> regs \<Rightarrow> regs" where
  "fips_round m t (Regs a b c d e f g h) =
     (let t1 = h + Sigma1 e + sha_ch e f g + sha_k ! t + msg_word m t; t2 = Sigma0 a + maj a b c
      in Regs (t1 + t2) a b c (d + t1) e f g)"

definition compress :: "regs \<Rightarrow> w32 list \<Rightarrow> regs" where
  "compress H m = add_regs H (fold (fips_round m) [0..<64] H)"

text \<open>The words of a message, with zeros behind its end, and its full blocks in turn.\<close>

definition byte_at :: "bytes \<Rightarrow> nat \<Rightarrow> w32" where
  "byte_at bs k = (if k < length bs then ucast (bs ! k) else 0)"

definition word_at :: "bytes \<Rightarrow> nat \<Rightarrow> w32" where
  "word_at bs i = push_bit 24 (byte_at bs (4 * i)) OR push_bit 16 (byte_at bs (4 * i + 1))
     OR push_bit 8 (byte_at bs (4 * i + 2)) OR byte_at bs (4 * i + 3)"

definition block_words :: "bytes \<Rightarrow> w32 list" where
  "block_words bs = map (word_at bs) [0..<16]"

function absorb :: "regs \<Rightarrow> bytes \<Rightarrow> regs" where
  "absorb H bs = (if length bs < 64 then H else absorb (compress H (block_words (take 64 bs))) (drop 64 bs))"
  by pat_completeness auto
termination by (relation "measure (\<lambda>(H, bs). length bs)") auto

declare absorb.simps [simp del]

definition length_bytes :: "nat \<Rightarrow> bytes" where
  "length_bytes n = map (\<lambda>k. word_of_nat (n div 2 ^ (8 * k))) [7, 6, 5, 4, 3, 2, 1, 0]"

definition padding :: "nat \<Rightarrow> bytes" where
  "padding n = 128 # replicate ((119 - n mod 64) mod 64) 0 @ length_bytes (8 * n)"

definition fips_digest :: "bool \<Rightarrow> bytes \<Rightarrow> bytes" where
  "fips_digest is224 m = concat (map word_bytes (reg_list is224 (absorb (sha_iv is224) (m @ padding (length m)))))"

section \<open>The compression of a block\<close>

lemma ror_word_rotr:
  assumes "0 < n" "n < 32"
  shows "ror n x = word_rotr n x"
  using assms by (intro bit_word_eqI) (auto simp: ror_def bit_simps add.commute [of n] mod_if dest: bit_imp_le_length)

lemma big_s: "big_s0 = Sigma0" "big_s1 = Sigma1"
  by (simp_all add: fun_eq_iff big_s0_def Sigma0_def big_s1_def Sigma1_def ror_word_rotr)

lemma schedule_step_len: "t \<le> length v \<Longrightarrow> length (schedule_step t v) = max (length v) (t + 1)"
  by (simp add: schedule_step_def Let_def)

lemma schedule_step_nth:
  assumes "t \<le> length v" "16 \<le> t" "\<And>i. i < t \<Longrightarrow> v ! i = msg_word m i" "j \<le> t"
  shows "schedule_step t v ! j = msg_word m j"
proof -
  have "msg_word m t = sigma1 (msg_word m (t - 2)) + msg_word m (t - 7) + sigma0 (msg_word m (t - 15)) + msg_word m (t - 16)"
    using assms(2) by (subst msg_word.simps) simp
  then show ?thesis using assms
    by (cases "j = t")
      (simp_all add: schedule_step_def Let_def nth_append sigma0_def sigma1_def ror_word_rotr algebra_simps)
qed

lemma schedule_words:
  assumes "17 \<le> length v" "\<And>i. i < 16 \<Longrightarrow> v ! i = m ! i" "n \<le> 48"
  shows "length (fold schedule_step [16..<16 + n] v) = max (length v) (16 + n)
    \<and> (\<forall>i < 16 + n. fold schedule_step [16..<16 + n] v ! i = msg_word m i)"
  using assms(3)
proof (induction n)
  case 0
  then show ?case using assms(1,2) by (simp add: msg_word.simps)
next
  case (Suc n)
  let ?v = "fold schedule_step [16..<16 + n] v"
  have IH: "length ?v = max (length v) (16 + n)" "\<forall>i < 16 + n. ?v ! i = msg_word m i"
    using Suc by auto
  have "[16..<16 + Suc n] = [16..<16 + n] @ [16 + n]" using upt_Suc_append [of 16 "16 + n"] by (metis add_Suc_right le_add1)
  then have "fold schedule_step [16..<16 + Suc n] v = schedule_step (16 + n) ?v" by simp
  then show ?case
    using IH schedule_step_nth [of "16 + n" ?v m] by (simp add: schedule_step_len less_Suc_eq_le)
qed

lemma maj_kept: "(x AND y) XOR (x AND z) XOR (y AND z) = maj x y z"
  by (simp add: maj_def)

text \<open>The turn of the loop is four rounds: the conjunction it keeps is that of its majority.\<close>

definition kept :: "regs \<Rightarrow> w32" where
  "kept r = (case r of Regs f c l y p d w b \<Rightarrow> c AND l)"

lemma four_rounds_later:
  assumes "\<And>i. i < 4 \<Longrightarrow> v ! (t + i) = msg_word m (t + i)"
  shows "four_rounds is224 v t (False, kept r, r)
    = (let r' = fold (fips_round m) [t..<t + 4] r in (False, kept r', r'))"
proof -
  have v: "v ! t = msg_word m t" "v ! (t + 1) = msg_word m (t + 1)" "v ! (t + 2) = msg_word m (t + 2)"
    "v ! (t + 3) = msg_word m (t + 3)"
    using assms [of 0] assms [of 1] assms [of 2] assms [of 3] by auto
  have u: "[t..<t + 4] = [t, t + 1, t + 2, t + 3]" by (simp add: upt_rec)
  show ?thesis
    by (cases r) (simp add: u four_rounds_def first_of_four_def kept_def Let_def big_s v v [simplified] maj_def add.assoc)
qed

text \<open>The constants of the first round of all are what its sums are for the initial registers.\<close>

lemma first_constants:
  "case sha_iv False of Regs f c l y p d w b \<Rightarrow>
     b + big_s1 p + sha_ch p d w + sha_k ! 0 = - 210244248 \<and> y = - 1521486534 \<and> f AND c = 704751109
     \<and> big_s0 f + (704751109 XOR (f AND l) XOR (c AND l)) = 143694565"
  "case sha_iv True of Regs f c l y p d w b \<Rightarrow>
     b + big_s1 p + sha_ch p d w + sha_k ! 0 = - 1413257819 \<and> y = - 150054599 \<and> f AND c = 300032
     \<and> big_s0 f + (300032 XOR (f AND l) XOR (c AND l)) = 24177077"
  by code_simp+

lemma four_rounds_first:
  assumes "\<And>i. i < 4 \<Longrightarrow> v ! i = msg_word m i"
  shows "four_rounds is224 v 0 (True, a, sha_iv is224)
    = (let r' = fold (fips_round m) [0..<4] (sha_iv is224) in (False, kept r', r'))"
proof -
  have f: "first_of_four is224 v 0 (True, a, sha_iv is224) = first_of_four is224 v 0 (False, kept (sha_iv is224), sha_iv is224)"
    using first_constants
    by (cases is224; cases "sha_iv False"; cases "sha_iv True")
      (simp_all add: first_of_four_def kept_def Let_def)
  have "four_rounds is224 v 0 (True, a, sha_iv is224) = four_rounds is224 v 0 (False, kept (sha_iv is224), sha_iv is224)"
    by (simp add: four_rounds_def f)
  then show ?thesis using four_rounds_later [of v 0 m is224 "sha_iv is224"] assms by simp
qed

lemma rounds_from_kept:
  assumes "\<And>i. i < 64 \<Longrightarrow> v ! i = msg_word m i" "n \<le> 16" "k \<le> n"
  shows "fold (four_rounds is224 v) (map ((*) 4) [k..<n]) (False, kept r, r)
    = (let r' = fold (fips_round m) [4 * k..<4 * n] r in (False, kept r', r'))"
  using assms(2,3)
proof (induction n)
  case (Suc n)
  show ?case
  proof (cases "k = Suc n")
    case False
    then have "k \<le> n" using Suc.prems by simp
    let ?r = "fold (fips_round m) [4 * k..<4 * n] r"
    have "[4 * k..<4 * Suc n] = [4 * k..<4 * n] @ [4 * n..<4 * n + 4]"
      using upt_add_eq_append [of "4 * k" "4 * n" 4] \<open>k \<le> n\<close> by (simp add: add.commute)
    moreover have "four_rounds is224 v (4 * n) (False, kept ?r, ?r)
        = (let r' = fold (fips_round m) [4 * n..<4 * n + 4] ?r in (False, kept r', r'))"
      using Suc.prems assms(1) by (intro four_rounds_later) auto
    ultimately show ?thesis using Suc \<open>k \<le> n\<close> by (simp add: Let_def)
  qed (simp add: Let_def)
qed (simp add: Let_def)

text \<open>A block is compressed as the standard does it, and the schedule stays in the array.\<close>

lemma sha_hash_compresses:
  assumes "17 \<le> length (sha_blocks st)" "\<And>i. i < 16 \<Longrightarrow> sha_blocks st ! i = m ! i"
    "sha_first st \<Longrightarrow> sha_h st = sha_iv (sha_is224 st)"
  shows "\<exists>v. 17 \<le> length v \<and> sha_hash st = st\<lparr>sha_blocks := v, sha_first := False, sha_h := compress (sha_h st) m\<rparr>"
proof -
  let ?v = "fold schedule_step [16..<64] (sha_blocks st)"
  let ?k = "map (\<lambda>i. 4 * i) [0..<16]"
  let ?r = "fold (fips_round m) [0..<64] (sha_h st)"
  have v: "17 \<le> length ?v" "\<And>i. i < 64 \<Longrightarrow> ?v ! i = msg_word m i"
    using schedule_words [OF assms(1,2), of 48] by auto
  have "fold (four_rounds (sha_is224 st) ?v) ?k (sha_first st, kept (sha_h st), sha_h st) = (False, kept ?r, ?r)"
  proof (cases "sha_first st")
    case False
    then show ?thesis using rounds_from_kept [OF v(2), of 16 0 "sha_is224 st" "sha_h st"] by (simp add: Let_def)
  next
    case True
    let ?s = "fold (fips_round m) [0..<4] (sha_h st)"
    have k: "?k = 0 # map ((*) 4) [1..<16]" by (simp add: upt_conv_Cons)
    have "[0..<64] = [0..<4] @ [4 * 1..<4 * 16::nat]" using upt_add_eq_append [of 0 4 60] by simp
    then have "?r = fold (fips_round m) [4 * 1..<4 * 16] ?s" by simp
    moreover have "four_rounds (sha_is224 st) ?v 0 (True, kept (sha_h st), sha_h st) = (False, kept ?s, ?s)"
      using four_rounds_first [of ?v m "sha_is224 st"] v(2) assms(3) [OF True] by (simp add: Let_def)
    ultimately show ?thesis
      using rounds_from_kept [OF v(2), of 16 1 "sha_is224 st" ?s] True k by (simp add: Let_def)
  qed
  then have "sha_hash st = st\<lparr>sha_blocks := ?v, sha_first := False, sha_h := compress (sha_h st) m\<rparr>"
    by (simp add: sha_hash_def Let_def kept_def compress_def)
  then show ?thesis using v(1) by blast
qed


section \<open>Bytes in the block\<close>

definition packed :: "bytes \<Rightarrow> w32 list \<Rightarrow> bool" where
  "packed bs u \<longleftrightarrow> 17 \<le> length u \<and> (\<forall>i < 17. u ! i = word_at bs i)"

lemma byte_at_simps:
  "length bs \<le> k \<Longrightarrow> byte_at bs k = 0"
  "byte_at [] k = 0"
  "byte_at (bs @ [x]) k = (if k = length bs then ucast x else byte_at bs k)"
  by (auto simp: byte_at_def nth_append)

lemma word_at_zero: "length bs \<le> 4 * i \<Longrightarrow> word_at bs i = 0"
  by (simp add: word_at_def byte_at_simps)

lemma byte_at_append: "byte_at (bs @ cs) k = (if k < length bs then byte_at bs k else byte_at cs (k - length bs))"
  by (auto simp: byte_at_def nth_append)

lemma byte_at_zeros: "byte_at (replicate n 0) k = 0"
  by (simp add: byte_at_def)

lemma word_at_eqI: "(\<And>k. k < 4 \<Longrightarrow> byte_at bs (4 * i + k) = byte_at cs (4 * j + k)) \<Longrightarrow> word_at bs i = word_at cs j"
  unfolding word_at_def by (metis add.right_neutral zero_less_numeral one_less_numeral_iff semiring_norm(76)
      numeral_less_iff semiring_norm(78,80,81))

text \<open>One more byte is put by a disjunction, since its place is still zero.\<close>

lemma word_at_snoc:
  assumes "i = length bs div 4"
  shows "word_at (bs @ [x]) i = word_at bs i OR push_bit (byte_shifts ! (length bs mod 4)) (ucast x)"
proof -
  have "length bs = 4 * i + length bs mod 4" "length bs mod 4 < 4" using assms by auto
  then consider "length bs = 4 * i" "length bs mod 4 = 0" | "length bs = 4 * i + 1" "length bs mod 4 = 1"
    | "length bs = 4 * i + 2" "length bs mod 4 = 2" | "length bs = 4 * i + 3" "length bs mod 4 = 3" by linarith
  then show ?thesis
    by cases (simp_all add: word_at_def byte_at_simps byte_shifts_def ac_simps)
qed

lemma put_word:
  assumes "packed bs u" "length bs < 68" "w = ucast (x :: byte)"
  shows "packed (bs @ [x]) (u[length bs div 4 := u ! (length bs div 4) OR push_bit (byte_shifts ! (length bs mod 4)) w])"
proof -
  have l: "length bs div 4 < 17" using assms(2) by linarith
  have "word_at (bs @ [x]) i = word_at bs i" if "i \<noteq> length bs div 4" for i
    using that by (intro word_at_eqI) (auto simp: byte_at_simps)
  then show ?thesis
    using assms l word_at_snoc [of _ bs x] by (auto simp: packed_def nth_list_update)
qed

lemma put_byte_packed:
  assumes "packed bs u" "length bs < 68" "x < 256"
  shows "\<exists>u'. put_byte x (length bs, u) = (length bs + 1, u') \<and> packed (bs @ [word_of_nat x]) u'"
proof -
  have "(word_of_nat x :: w32) = ucast (word_of_nat x :: byte)"
    using assms(3) by (simp add: unsigned_ucast_eq word_eq_iff_unsigned unsigned_of_nat take_bit_nat_eq_self unsigned_ucast_eq)
  from put_word [OF assms(1,2) this] show ?thesis by (simp add: put_byte_def)
qed

lemma put_bytes_packed:
  assumes "packed bs u" "length bs + length xs \<le> 68" "\<forall>x \<in> set xs. x < 256"
  shows "\<exists>u'. fold put_byte xs (length bs, u) = (length bs + length xs, u') \<and> packed (bs @ map word_of_nat xs) u'"
  using assms
proof (induction xs arbitrary: bs u)
  case (Cons x xs)
  obtain u' where u': "put_byte x (length bs, u) = (length bs + 1, u')" "packed (bs @ [word_of_nat x]) u'"
    using put_byte_packed [of bs u x] Cons.prems by auto
  from Cons.IH [OF u'(2)] Cons.prems u'(1) show ?case by auto
qed simp

section \<open>What the input says\<close>

definition input_bytes :: "sha_input \<Rightarrow> bytes" where
  "input_bytes e = (case e of In_Bytes xs \<Rightarrow> xs | In_Str hs \<Rightarrow> str_bytes hs)"

definition input_ok :: "sha_input \<Rightarrow> bool" where
  "input_ok e = (case e of In_Bytes xs \<Rightarrow> True | In_Str hs \<Rightarrow> list_all (\<lambda>h. h < 65536) hs)"

lemma or_below: "(a :: nat) < 256 \<Longrightarrow> b < 256 \<Longrightarrow> a OR b < 256"
  using take_bit_nat_less_exp [of 8 "a OR b"] by (simp add: take_bit_nat_eq_self)

lemma and_below: "(a :: nat) AND b \<le> a" "(a :: nat) AND b \<le> b"
  by (auto simp: and_nat_def nat_le_iff intro: AND_upper1' AND_upper2')

lemma below_64: "(63 :: nat) AND x < 64" "x AND (63 :: nat) < 64" "(1023 :: nat) AND x < 1024"
  using and_below(1) [of 63 x] and_below(2) [of x 63] and_below(1) [of 1023 x] by linarith+

lemma drop_below: "x < n * 2 ^ k \<Longrightarrow> drop_bit k (x :: nat) < n"
  by (simp add: drop_bit_eq_div less_mult_imp_div_less)

lemma pair_below: "(65536 :: nat) + (push_bit 10 (1023 AND h) OR (1023 AND g)) < 1114112"
proof -
  have "push_bit 10 (1023 AND h) < (2 :: nat) ^ 20" "1023 AND g < (2 :: nat) ^ 20"
    using below_64(3) [of h] below_64(3) [of g] by (simp_all add: push_bit_eq_mult)
  then have "take_bit 20 (push_bit 10 (1023 AND h) OR (1023 AND g)) = push_bit 10 (1023 AND h) OR (1023 AND g)"
    by (simp only: take_bit_or take_bit_nat_eq_self)
  then show ?thesis using take_bit_nat_less_exp [of 20 "push_bit 10 (1023 AND h) OR (1023 AND g)"] by simp
qed

lemma char_codes_ok:
  assumes "h < 65536" "list_all (\<lambda>h. h < 65536) hs"
  shows "\<forall>x \<in> set (fst (char_codes h hs)). x < 256" "length (fst (char_codes h hs)) \<in> {1..4}"
    "list_all (\<lambda>h. h < 65536) (snd (char_codes h hs))"
proof -
  have b: "128 OR (63 AND x) < 256" "128 OR (x AND 63) < 256" for x :: nat
    using below_64(1,2) [of x] by (auto intro!: or_below)
  have "192 OR drop_bit 6 h < 256" if "h < 2048" using drop_below [of h 64 6] that by (intro or_below) auto
  moreover have "224 OR drop_bit 12 h < 256" using drop_below [of h 64 12] assms(1) by (intro or_below) auto
  moreover have "240 OR drop_bit 18 (65536 + (push_bit 10 (1023 AND h) OR (1023 AND g))) < 256" for g
    using drop_below [of "65536 + (push_bit 10 (1023 AND h) OR (1023 AND g))" 64 18] pair_below [of h g]
    by (intro or_below) auto
  ultimately show "\<forall>x \<in> set (fst (char_codes h hs)). x < 256" using b by (auto simp: char_codes_def Let_def)
  show "length (fst (char_codes h hs)) \<in> {1..4}" by (auto simp: char_codes_def Let_def)
  show "list_all (\<lambda>h. h < 65536) (snd (char_codes h hs))"
    using assms(2) by (auto simp: char_codes_def Let_def) (cases hs; simp)
qed

lemma fill_bytes_packs:
  assumes "packed bs u" "length bs \<le> 64"
  shows "\<exists>cs rest u'. fill_bytes xs (length bs) u = (rest, length bs + length cs, u') \<and> xs = cs @ rest
    \<and> packed (bs @ cs) u' \<and> (rest = [] \<or> 64 \<le> length bs + length cs) \<and> length bs + length cs \<le> 64"
  using assms
proof (induction xs arbitrary: bs u)
  case Nil
  then show ?case by auto
next
  case (Cons x xs)
  show ?case
  proof (cases "length bs < 64")
    case True
    obtain u1 where u1: "put_byte (unat x) (length bs, u) = (length bs + 1, u1)" "packed (bs @ [x]) u1"
      using put_byte_packed [OF Cons.prems(1), of "unat x"] True unsigned_less [of x] by auto
    obtain cs rest u' where "fill_bytes xs (length (bs @ [x])) u1 = (rest, length (bs @ [x]) + length cs, u')" "xs = cs @ rest"
      "packed ((bs @ [x]) @ cs) u'" "rest = [] \<or> 64 \<le> length (bs @ [x]) + length cs" "length (bs @ [x]) + length cs \<le> 64"
      using Cons.IH [OF u1(2)] True by (metis length_append_singleton Suc_leI)
    then show ?thesis using u1 True by (intro exI [of _ "x # cs"] exI [of _ rest]) auto
  next
    case False
    then show ?thesis using Cons.prems by auto
  qed
qed

lemma fill_units_packs:
  assumes "packed bs u" "length bs \<le> 67" "list_all (\<lambda>h. h < 65536) hs"
  shows "\<exists>cs rest u'. fill_units hs (length bs) u = (rest, length bs + length cs, u') \<and> str_bytes hs = cs @ str_bytes rest
    \<and> packed (bs @ cs) u' \<and> (rest = [] \<or> 64 \<le> length bs + length cs) \<and> length bs + length cs \<le> 67
    \<and> list_all (\<lambda>h. h < 65536) rest"
  using assms
proof (induction hs arbitrary: bs u rule: str_bytes.induct)
  case 1
  then show ?case by auto
next
  case (2 h hs)
  let ?c = "fst (char_codes h hs)" and ?w = "map word_of_nat (fst (char_codes h hs)) :: bytes"
  show ?case
  proof (cases "length bs < 64")
    case True
    have ok: "\<forall>x \<in> set ?c. x < 256" "length ?c \<in> {1..4}" "list_all (\<lambda>h. h < 65536) (snd (char_codes h hs))"
      using char_codes_ok [of h hs] 2(4) by auto
    obtain u1 where u1: "fold put_byte ?c (length bs, u) = (length bs + length ?c, u1)" "packed (bs @ ?w) u1"
      using put_bytes_packed [OF 2(2) _ ok(1)] True ok(2) by auto
    obtain cs rest u' where "fill_units (snd (char_codes h hs)) (length (bs @ ?w)) u1 = (rest, length (bs @ ?w) + length cs, u')"
      "str_bytes (snd (char_codes h hs)) = cs @ str_bytes rest" "packed ((bs @ ?w) @ cs) u'"
      "rest = [] \<or> 64 \<le> length (bs @ ?w) + length cs" "length (bs @ ?w) + length cs \<le> 67" "list_all (\<lambda>h. h < 65536) rest"
      using 2(1) [OF u1(2) _ ok(3)] True ok(2) by auto
    then show ?thesis using u1 True by (intro exI [of _ "?w @ cs"] exI [of _ rest]) auto
  next
    case False
    then show ?thesis using 2(2-4) by auto
  qed
qed

lemma sha_fill_packs:
  assumes "packed bs u" "length bs < 64" "input_ok e"
  shows "\<exists>cs e' u'. sha_fill e (length bs) u = (e', length bs + length cs, u') \<and> input_bytes e = cs @ input_bytes e'
    \<and> packed (bs @ cs) u' \<and> (input_length e' = 0 \<or> 64 \<le> length bs + length cs) \<and> length bs + length cs \<le> 67 \<and> input_ok e'"
proof (cases e)
  case (In_Bytes xs)
  obtain cs rest u' where "fill_bytes xs (length bs) u = (rest, length bs + length cs, u')" "xs = cs @ rest"
    "packed (bs @ cs) u'" "rest = [] \<or> 64 \<le> length bs + length cs" "length bs + length cs \<le> 64"
    using fill_bytes_packs [OF assms(1) less_imp_le [OF assms(2)], of xs] by blast
  then show ?thesis using In_Bytes
    by (intro exI [of _ cs] exI [of _ "In_Bytes rest"]) (auto simp: sha_fill_def input_bytes_def input_length_def input_ok_def)
next
  case (In_Str hs)
  obtain cs rest u' where "fill_units hs (length bs) u = (rest, length bs + length cs, u')" "str_bytes hs = cs @ str_bytes rest"
    "packed (bs @ cs) u'" "rest = [] \<or> 64 \<le> length bs + length cs" "length bs + length cs \<le> 67" "list_all (\<lambda>h. h < 65536) rest"
    using fill_units_packs [OF assms(1), of hs] assms(2,3) In_Str by (auto simp: input_ok_def)
  then show ?thesis using In_Str
    by (intro exI [of _ cs] exI [of _ "In_Str rest"]) (auto simp: sha_fill_def input_bytes_def input_length_def input_ok_def)
qed


section \<open>What was fed\<close>

definition tail :: "bytes \<Rightarrow> bytes" where
  "tail m = drop (64 * (length m div 64)) m"

lemma length_tail [simp]: "length (tail m) = length m mod 64"
  by (simp add: tail_def minus_mult_div_eq_mod)

lemma tail_short: "length m < 64 \<Longrightarrow> tail m = m"
  by (simp add: tail_def)

lemma tail_drop: "64 \<le> length m \<Longrightarrow> tail (drop 64 m) = tail m"
  by (simp add: tail_def le_div_geq algebra_simps)

lemma tail_append: "tail (m @ x) = tail (tail m @ x)"
proof (induction m rule: length_induct)
  case (1 m)
  show ?case
  proof (cases "length m < 64")
    case False
    then have "tail (m @ x) = tail (drop 64 m @ x)" using tail_drop [of "m @ x"] by simp
    also have "\<dots> = tail (tail (drop 64 m) @ x)"
      using False by (intro 1 [rule_format]) simp
    finally show ?thesis using False by (simp add: tail_drop)
  qed (simp add: tail_short)
qed

lemma absorb_step: "64 \<le> length m \<Longrightarrow> absorb H m = absorb (compress H (block_words (take 64 m))) (drop 64 m)"
  by (subst absorb.simps) simp

lemma absorb_short: "length m < 64 \<Longrightarrow> absorb H m = H"
  by (subst absorb.simps) simp

lemma absorb_append: "absorb H (m @ x) = absorb (absorb H m) (tail m @ x)"
proof (induction m arbitrary: H rule: length_induct)
  case (1 m)
  show ?case
  proof (cases "length m < 64")
    case False
    let ?C = "compress H (block_words (take 64 m))"
    have "absorb H (m @ x) = absorb ?C (drop 64 m @ x)" using False absorb_step [of "m @ x" H] by simp
    also have "\<dots> = absorb (absorb ?C (drop 64 m)) (tail (drop 64 m) @ x)"
      using False by (intro 1 [rule_format]) simp
    finally show ?thesis using False by (simp add: tail_drop absorb_step [of m H])
  qed (simp add: tail_short absorb_short)
qed

lemma absorb_block: "64 \<le> length m \<Longrightarrow> absorb H m = absorb (compress H (block_words m)) (drop 64 m)"
proof -
  have "word_at (take 64 m) i = word_at m i" if "i < 16" for i
    using that by (intro word_at_eqI) (auto simp: byte_at_def)
  then have "block_words (take 64 m) = block_words m" by (simp add: block_words_def)
  then show "64 \<le> length m \<Longrightarrow> absorb H m = absorb (compress H (block_words m)) (drop 64 m)"
    by (simp add: absorb_step)
qed

text \<open>The state of a hasher that was fed the bytes \<open>m\<close>. Between the pieces the full blocks are
  absorbed; the rest is in the block array, or, right after a block, its first bytes (the end of a
  character that did not fit) are in \<open>block\<close>.\<close>

definition last_index :: "sha \<Rightarrow> nat" where
  "last_index st = (case sha_lastByteIndex st of None \<Rightarrow> 0 | Some e \<Rightarrow> e)"

definition held :: "sha \<Rightarrow> bytes \<Rightarrow> bool" where
  "held st t \<longleftrightarrow>
     (if sha_hashed st
      then length t \<le> 3 \<and> last_index st = 64 + length t \<and> sha_block st = word_at t 0 \<and> 17 \<le> length (sha_blocks st)
      else packed t (sha_blocks st) \<and> sha_block st = 0 \<and> last_index st = length t)"

definition fed :: "bytes \<Rightarrow> sha \<Rightarrow> bool" where
  "fed m st \<longleftrightarrow>
     sha_h st = absorb (sha_iv (sha_is224 st)) m \<and> sha_first st = (length m < 64) \<and> sha_start st = length m mod 64
     \<and> \<not> sha_finalized st \<and> 4294967296 * sha_hBytes st + sha_bytes st = length m \<and> held st (tail m)"

lemma first_word_packed:
  assumes "length t \<le> 4" "17 \<le> length bl" "x = word_at t 0"
  shows "packed t (x # replicate 16 0 @ drop 17 bl)"
proof -
  have "word_at t i = 0" if "i \<noteq> 0" for i using assms(1) that by (intro word_at_zero) linarith
  then show ?thesis using assms by (auto simp: packed_def nth_Cons nth_append split: nat.split)
qed

lemma word_at_drop: "word_at (drop 64 x) i = word_at x (i + 16)"
  by (intro word_at_eqI) (auto simp: byte_at_def ac_simps)

lemma next_block_packed:
  assumes "fed m st"
  shows "packed (tail m) (sha_blocks (next_block st))" "\<not> sha_hashed (next_block st)" "sha_block (next_block st) = 0"
    "next_block st = st\<lparr>sha_hashed := False, sha_blocks := sha_blocks (next_block st), sha_block := 0\<rparr>"
  using assms first_word_packed [of "tail m" "sha_blocks st" "sha_block st"]
  by (auto simp: next_block_def fed_def held_def)

lemma short_turn:
  assumes "a mod 64 + b < (64 :: nat)"
  shows "(a + b) mod 64 = a mod 64 + b" "a + b < 64 \<longleftrightarrow> a < 64"
proof -
  show "(a + b) mod 64 = a mod 64 + b" using assms by (metis mod_add_left_eq mod_less)
  show "a + b < 64 \<longleftrightarrow> a < 64" using assms by (cases "a < 64") simp_all
qed

lemma full_turn:
  assumes "64 \<le> a mod 64 + b" "a mod 64 + b \<le> (67 :: nat)"
  shows "(a + b) mod 64 = a mod 64 + b - 64" "64 \<le> a + b"
proof -
  have "(a + b) mod 64 = (a mod 64 + b - 64) mod 64" using assms(1) by (metis mod_add_left_eq le_mod_geq)
  then show "(a + b) mod 64 = a mod 64 + b - 64" using assms(2) by simp
  have "a mod 64 \<le> a" by simp
  then show "64 \<le> a + b" using assms(1) by linarith
qed

lemma update_turn_feeds:
  assumes "fed m st" "input_length e \<noteq> 0" "input_ok e" "update_turn e st = (e', st')"
  shows "\<exists>cs. input_bytes e = cs @ input_bytes e' \<and> fed (m @ cs) st' \<and> input_ok e' \<and> sha_is224 st' = sha_is224 st"
proof -
  let ?n = "next_block st" and ?t = "tail m"
  have f: "sha_h st = absorb (sha_iv (sha_is224 st)) m" "sha_first st = (length m < 64)" "sha_start st = length ?t"
    "\<not> sha_finalized st" "4294967296 * sha_hBytes st + sha_bytes st = length m" using assms(1) by (auto simp: fed_def)
  have n: "sha_h ?n = sha_h st" "sha_first ?n = sha_first st" "sha_start ?n = length ?t" "\<not> sha_finalized ?n"
    "sha_bytes ?n = sha_bytes st" "sha_hBytes ?n = sha_hBytes st" "sha_is224 ?n = sha_is224 st"
    using f by (simp_all add: next_block_def)
  obtain cs u where c: "sha_fill e (length ?t) (sha_blocks ?n) = (e', length ?t + length cs, u)"
    "input_bytes e = cs @ input_bytes e'" "packed (?t @ cs) u" "length ?t + length cs \<le> 67" "input_ok e'"
    using sha_fill_packs [OF next_block_packed(1) [OF assms(1)] _ assms(3)] assms(4) n(3)
    by (fastforce simp: update_turn_def Let_def split: prod.splits)
  let ?s = "length ?t + length cs"
  let ?st = "?n\<lparr>sha_blocks := u, sha_lastByteIndex := Some ?s, sha_bytes := sha_bytes st + length cs\<rparr>"
  have st': "st' = (if 64 \<le> ?s then (sha_hash (?st\<lparr>sha_block := u ! 16, sha_start := ?s - 64\<rparr>))\<lparr>sha_hashed := True\<rparr>
      else ?st\<lparr>sha_start := ?s\<rparr>)"
    using assms(4) c(1) n by (auto simp: update_turn_def Let_def)
  have m: "length m = 64 * (length m div 64) + length ?t" "tail (m @ cs) = tail (?t @ cs)"
    "absorb (sha_iv (sha_is224 st)) (m @ cs) = absorb (sha_h st) (?t @ cs)"
    using tail_append absorb_append f(1) by simp_all
  have l: "4294967296 * sha_hBytes st + (sha_bytes st + length cs) = length (m @ cs)" using f(5) by simp
  have "fed (m @ cs) st' \<and> sha_is224 st' = sha_is224 st"
  proof (cases "64 \<le> ?s")
    case False
    then have r: "length m mod 64 + length cs < 64" by simp
    have "st' = ?st\<lparr>sha_start := ?s\<rparr>" using False st' by simp
    moreover have "tail (m @ cs) = ?t @ cs" "absorb (sha_iv (sha_is224 st)) (m @ cs) = sha_h st"
      using r m(2,3) by (simp_all add: absorb_short tail_short)
    ultimately show ?thesis using f n l c(3) short_turn [OF r] next_block_packed(2,3) [OF assms(1)]
      by (simp add: fed_def held_def last_index_def)
  next
    case True
    then have r: "64 \<le> length m mod 64 + length cs" "length m mod 64 + length cs \<le> 67" using c(4) by simp_all
    let ?x = "?t @ cs" and ?s1 = "?st\<lparr>sha_block := u ! 16, sha_start := ?s - 64\<rparr>"
    have x: "64 \<le> length ?x" "length (drop 64 ?x) \<le> 3" using r by simp_all
    have "sha_blocks ?s1 ! i = block_words ?x ! i" if "i < 16" for i
      using that c(3) by (simp add: packed_def block_words_def)
    moreover have "17 \<le> length (sha_blocks ?s1)" using c(3) by (simp add: packed_def)
    moreover have "sha_h ?s1 = sha_iv (sha_is224 ?s1)" if "sha_first ?s1"
      using that f n by (simp add: absorb_short)
    ultimately obtain v where v: "17 \<le> length v"
      "sha_hash ?s1 = ?s1\<lparr>sha_blocks := v, sha_first := False, sha_h := compress (sha_h ?s1) (block_words ?x)\<rparr>"
      using sha_hash_compresses [of ?s1 "block_words ?x"] by blast
    have "st' = ?s1\<lparr>sha_blocks := v, sha_first := False, sha_h := compress (sha_h st) (block_words ?x), sha_hashed := True\<rparr>"
      using True st' v(2) n by simp
    moreover have "tail (m @ cs) = drop 64 ?x" using m(2) x tail_drop [of ?x] tail_short [of "drop 64 ?x"] by simp
    moreover have "absorb (sha_iv (sha_is224 st)) (m @ cs) = compress (sha_h st) (block_words ?x)"
      using m(3) x by (simp only: absorb_block absorb_short)
    moreover have "u ! 16 = word_at (drop 64 ?x) 0"
      using c(3) word_at_drop [of ?x 0] by (simp add: packed_def del: drop_append)
    ultimately show ?thesis using f n l v(1) x full_turn [OF r]
      by (simp add: fed_def held_def last_index_def)
  qed
  then show ?thesis using c by blast
qed


lemma update_loop_feeds:
  assumes "fed m st" "input_ok e"
  shows "fed (m @ input_bytes e) (update_loop e st) \<and> sha_is224 (update_loop e st) = sha_is224 st"
  using assms
proof (induction e st arbitrary: m rule: update_loop.induct)
  case (1 e st)
  show ?case
  proof (cases "input_length e = 0")
    case True
    then have "input_bytes e = []" by (auto simp: input_bytes_def input_length_def split: sha_input.splits)
    then show ?thesis using 1(2) True by (simp add: update_loop.simps [of e st])
  next
    case False
    obtain e' st' where t: "update_turn e st = (e', st')" by fastforce
    obtain cs where c: "input_bytes e = cs @ input_bytes e'" "fed (m @ cs) st'" "input_ok e'" "sha_is224 st' = sha_is224 st"
      using update_turn_feeds [OF 1(2) False 1(3) t] by blast
    have "update_loop e st = update_loop e' st'" using False t by (simp add: update_loop.simps [of e st])
    then show ?thesis using 1(1) [OF False t [symmetric] c(2,3)] c(1,4) by simp
  qed
qed

lemma new_sha_fed: "fed [] (new_sha is224 l)" "sha_is224 (new_sha is224 l) = is224" "sha_bytes (new_sha is224 l) < 4294967296"
  by (auto simp: fed_def held_def new_sha_def last_index_def absorb_short tail_short packed_def word_at_def byte_at_simps
      nth_append split: option.splits)

text \<open>After every update the count of the bytes is in two 32-bit parts.\<close>

lemma sha_update_feeds:
  assumes "fed m st" "input_ok e" "sha_update e st = (st', b)"
  shows "fed (m @ input_bytes e) st'" "sha_is224 st' = sha_is224 st" "sha_bytes st' < 4294967296" "b"
proof -
  let ?u = "update_loop e st"
  have u: "fed (m @ input_bytes e) ?u" "sha_is224 ?u = sha_is224 st" using update_loop_feeds [OF assms(1,2)] by simp_all
  have "sha_finalized st = False" using assms(1) by (simp add: fed_def)
  then have s: "st' = (if sha_bytes ?u > 4294967295
                then ?u\<lparr>sha_hBytes := sha_hBytes ?u + sha_bytes ?u div 4294967296, sha_bytes := sha_bytes ?u mod 4294967296\<rparr>
                else ?u)" "b"
    using assms(3) by (auto simp: sha_update_def Let_def)
  show "sha_is224 st' = sha_is224 st" "sha_bytes st' < 4294967296" "b" using s u(2) by auto
  have "4294967296 * (sha_hBytes ?u + sha_bytes ?u div 4294967296) + sha_bytes ?u mod 4294967296
      = 4294967296 * sha_hBytes ?u + sha_bytes ?u" by (simp add: algebra_simps)
  then show "fed (m @ input_bytes e) st'" using s(1) u(1) by (auto simp: fed_def held_def last_index_def)
qed

section \<open>The end of the message\<close>

lemma pad_mark: "k < 4 \<Longrightarrow> pad_marks ! k = push_bit (byte_shifts ! k) (ucast (128 :: byte))"
proof -
  have "list_all (\<lambda>k. pad_marks ! k = push_bit (byte_shifts ! k) (ucast (128 :: byte))) [0, 1, 2, 3]" by code_simp
  moreover assume "k < 4"
  then have "k = 0 \<or> k = 1 \<or> k = 2 \<or> k = 3" by linarith
  ultimately show "pad_marks ! k = push_bit (byte_shifts ! k) (ucast (128 :: byte))" by auto
qed

lemma length_word:
  "word_at (length_bytes n) 0 = word_of_nat (n div 2 ^ 32)"
  "word_at (length_bytes n) 1 = word_of_nat n"
proof -
  have b: "push_bit 24 (ucast (word_of_nat (drop_bit 24 n) :: byte)) OR push_bit 16 (ucast (word_of_nat (drop_bit 16 n) :: byte))
      OR push_bit 8 (ucast (word_of_nat (drop_bit 8 n) :: byte)) OR ucast (word_of_nat n :: byte) = (word_of_nat n :: w32)" for n
  proof (rule bit_word_eqI)
    fix i assume "i < LENGTH(32)"
    then consider "i < 8" | "8 \<le> i" "i < 16" | "16 \<le> i" "i < 24" | "24 \<le> i" "i < 32" by fastforce
    then show "bit (push_bit 24 (ucast (word_of_nat (drop_bit 24 n) :: byte)) OR push_bit 16 (ucast (word_of_nat (drop_bit 16 n) :: byte))
      OR push_bit 8 (ucast (word_of_nat (drop_bit 8 n) :: byte)) OR ucast (word_of_nat n :: byte) :: w32) i = bit (word_of_nat n :: w32) i"
      by cases (auto simp: bit_simps)
  qed
  show "word_at (length_bytes n) 1 = word_of_nat n"
    using b [of n] by (simp add: word_at_def byte_at_def length_bytes_def drop_bit_eq_div)
  show "word_at (length_bytes n) 0 = word_of_nat (n div 2 ^ 32)"
    using b [of "n div 2 ^ 32"] by (simp add: word_at_def byte_at_def length_bytes_def drop_bit_eq_div div_mult2_eq [symmetric])
qed

lemma words_low:
  assumes "4294967296 * hb + by = (n :: nat)"
  shows "push_bit 3 (word_of_nat by) = (word_of_nat (8 * n) :: w32)"
proof -
  have "8 * n = 4294967296 * (8 * hb) + 8 * by" unfolding assms [symmetric] by simp
  then have "(8 * n) mod 4294967296 = (8 * by) mod 4294967296" by (simp only: mod_mult_self4)
  then have "take_bit 32 (8 * n) = take_bit 32 (8 * by)" by (simp add: take_bit_eq_mod)
  then have "(word_of_nat (8 * n) :: w32) = word_of_nat (8 * by)" by (subst word_of_nat_eq_iff) simp
  then show ?thesis by (simp add: push_bit_eq_mult)
qed

lemma words_high:
  assumes "4294967296 * hb + by = (n :: nat)" "by < 4294967296"
  shows "8 * hb + drop_bit 29 by = (8 * n) div 2 ^ 32"
proof -
  have "8 * n = 8 * by + 8 * hb * 4294967296" unfolding assms(1) [symmetric] by simp
  then have "(8 * n) div 2 ^ 32 = (8 * by + 8 * hb * 4294967296) div 4294967296" by simp
  also have "\<dots> = 8 * hb + (8 * by) div (8 * 536870912)" by (subst div_mult_self1) simp_all
  also have "(8 * by) div (8 * 536870912) = by div 536870912" by (rule div_mult_mult1) simp
  finally show ?thesis by (simp add: drop_bit_eq_div)
qed

lemma words_disjoint:
  assumes "by < (4294967296 :: nat)"
  shows "push_bit 3 (word_of_nat hb) AND word_of_nat (drop_bit 29 by) = (0 :: w32)"
proof -
  have "take_bit 32 by = by" using assms by (simp add: take_bit_nat_eq_self)
  then have z: "\<not> bit by k" if "32 \<le> k" for k using that by (metis bit_take_bit_iff leD)
  show ?thesis by (rule bit_word_eqI) (auto simp: bit_simps z)
qed

lemma length_words:
  assumes "4294967296 * hb + by = (n :: nat)" "by < 4294967296"
  shows "push_bit 3 (word_of_nat hb) OR word_of_nat (drop_bit 29 by) = (word_of_nat ((8 * n) div 2 ^ 32) :: w32)"
    "push_bit 3 (word_of_nat by) = (word_of_nat (8 * n) :: w32)"
proof -
  show "push_bit 3 (word_of_nat by) = (word_of_nat (8 * n) :: w32)" by (rule words_low [OF assms(1)])
  have "push_bit 3 (word_of_nat hb) OR word_of_nat (drop_bit 29 by) = push_bit 3 (word_of_nat hb) + (word_of_nat (drop_bit 29 by) :: w32)"
    using words_disjoint [OF assms(2)] by (simp only: disjunctive_add_eq_or)
  also have "\<dots> = word_of_nat (8 * hb + drop_bit 29 by)" by (simp add: push_bit_eq_mult)
  finally show "push_bit 3 (word_of_nat hb) OR word_of_nat (drop_bit 29 by) = (word_of_nat ((8 * n) div 2 ^ 32) :: w32)"
    using words_high [OF assms] by simp
qed

lemma word_at_front: "4 * i + 4 \<le> length x \<Longrightarrow> word_at (x @ y) i = word_at x i"
  by (intro word_at_eqI) (simp add: byte_at_append)

lemma word_at_back: "length x = 4 * k \<Longrightarrow> word_at (x @ y) (k + i) = word_at y i"
  by (intro word_at_eqI) (simp add: byte_at_append)

lemma word_at_padded: "word_at (x @ replicate z 0) i = word_at x i"
  by (intro word_at_eqI) (simp add: byte_at_append byte_at_zeros byte_at_simps(1))

text \<open>The last block: what is there, zeros, and the length of the message in bits.\<close>

lemma last_block:
  assumes "packed x u" "length x \<le> 56" "w14 = word_of_nat (n div 2 ^ 32)" "w15 = word_of_nat n" "i < 16"
  shows "u[14 := w14, 15 := w15] ! i = block_words (x @ replicate (56 - length x) 0 @ length_bytes n) ! i"
proof -
  let ?z = "x @ replicate (56 - length x) 0"
  have l: "length ?z = 4 * 14" using assms(2) by simp
  have "word_at (?z @ length_bytes n) i = u[14 := w14, 15 := w15] ! i"
  proof (cases "i < 14")
    case True
    then have "word_at (?z @ length_bytes n) i = word_at x i"
      using l word_at_front [of i ?z "length_bytes n"] word_at_padded [of x] by simp
    then show ?thesis using True assms(1) by (simp add: packed_def)
  next
    case False
    then have "i = 14 \<or> i = 15" using assms(5) by linarith
    moreover have "word_at (?z @ length_bytes n) 14 = w14" "word_at (?z @ length_bytes n) 15 = w15"
      using word_at_back [OF l, of "length_bytes n" 0] word_at_back [OF l, of "length_bytes n" 1] length_word [of n] assms(3,4)
      by simp_all
    ultimately show ?thesis using assms(1) by (auto simp: packed_def)
  qed
  then show ?thesis using assms(5) by (simp add: block_words_def)
qed

text \<open>The registers at the end, from what the block array holds.\<close>

definition finish :: "w32 list \<Rightarrow> sha \<Rightarrow> sha" where
  "finish t st = sha_hash (st\<lparr>sha_blocks :=
     t[14 := push_bit 3 (word_of_nat (sha_hBytes st)) OR word_of_nat (drop_bit 29 (sha_bytes st)),
       15 := push_bit 3 (word_of_nat (sha_bytes st))]\<rparr>)"

lemma finish_absorbs:
  assumes "packed x t" "length x \<le> 56" "4294967296 * sha_hBytes st + sha_bytes st = n" "sha_bytes st < 4294967296"
    "sha_first st \<Longrightarrow> sha_h st = sha_iv (sha_is224 st)"
  shows "sha_h (finish t st) = absorb (sha_h st) (x @ replicate (56 - length x) 0 @ length_bytes (8 * n))"
    "sha_is224 (finish t st) = sha_is224 st" "sha_finalized (finish t st) = sha_finalized st"
proof -
  let ?m = "x @ replicate (56 - length x) 0 @ length_bytes (8 * n)"
  let ?st = "st\<lparr>sha_blocks :=
     t[14 := push_bit 3 (word_of_nat (sha_hBytes st)) OR word_of_nat (drop_bit 29 (sha_bytes st)),
       15 := push_bit 3 (word_of_nat (sha_bytes st))]\<rparr>"
  have "sha_blocks ?st ! i = block_words ?m ! i" if "i < 16" for i
    using last_block [OF assms(1,2) length_words [OF assms(3,4)] that] by simp
  then obtain v where v: "finish t st = ?st\<lparr>sha_blocks := v, sha_first := False, sha_h := compress (sha_h ?st) (block_words ?m)\<rparr>"
    using sha_hash_compresses [of ?st "block_words ?m"] assms(1,5) by (auto simp: finish_def packed_def)
  have "length ?m = 64" using assms(2) by (simp add: length_bytes_def)
  then have "absorb (sha_h st) ?m = compress (sha_h st) (block_words ?m)"
    using absorb_block [of ?m] absorb_short [of "drop 64 ?m"] by simp
  then show "sha_h (finish t st) = absorb (sha_h st) ?m"
    "sha_is224 (finish t st) = sha_is224 st" "sha_finalized (finish t st) = sha_finalized st"
    using v by simp_all
qed

lemma padding_cases:
  "n mod 64 < 56 \<Longrightarrow> padding n = 128 # replicate (56 - (n mod 64 + 1)) 0 @ length_bytes (8 * n)"
  "56 \<le> n mod 64 \<Longrightarrow> padding n = (128 # replicate (63 - n mod 64) 0) @ replicate 56 0 @ length_bytes (8 * n)"
proof -
  assume "n mod 64 < 56"
  then have "(119 - n mod 64) mod 64 = 56 - (n mod 64 + 1)" by (simp add: le_mod_geq)
  then show "padding n = 128 # replicate (56 - (n mod 64 + 1)) 0 @ length_bytes (8 * n)" by (simp add: padding_def)
next
  assume "56 \<le> n mod 64"
  moreover have "n mod 64 < 64" by simp
  ultimately have "(119 - n mod 64) mod 64 = (63 - n mod 64) + 56" by simp
  then show "padding n = (128 # replicate (63 - n mod 64) 0) @ replicate 56 0 @ length_bytes (8 * n)"
    unfolding padding_def by (simp only: replicate_add) simp
qed


text \<open>The mark is put behind what is held; a block that leaves no room for the length is absorbed.\<close>

lemma mark_short:
  assumes "packed t u" "length t < 64" "b = 0"
  shows "packed (t @ [128]) ((u[16 := b])[length t div 4 := (u[16 := b]) ! (length t div 4) OR pad_marks ! (length t mod 4)])"
proof -
  have "packed t (u[16 := b])" using assms word_at_zero [of t 16] by (auto simp: packed_def nth_list_update)
  then show ?thesis using put_word [of t "u[16 := b]" "ucast (128 :: byte)" 128] assms(2) pad_mark [of "length t mod 4"] by simp
qed

lemma mark_after_block:
  assumes "length t \<le> 3" "17 \<le> length u" "b = word_at t 0"
  shows "((u[16 := b])[(64 + length t) div 4 := (u[16 := b]) ! ((64 + length t) div 4) OR pad_marks ! ((64 + length t) mod 4)]) ! 16
    = word_at (t @ [128]) 0"
proof -
  have "(64 + length t) div 4 = 16" "(64 + length t) mod 4 = length t mod 4" "length t div 4 = 0" using assms(1) by presburger+
  then show ?thesis using assms pad_mark [of "length t mod 4"] word_at_snoc [of 0 t 128] by simp
qed

lemma sha_finalize_digests:
  assumes "fed m st" "sha_bytes st < 4294967296"
  shows "sha_h (sha_finalize st) = absorb (sha_iv (sha_is224 st)) (m @ padding (length m))"
    "sha_is224 (sha_finalize st) = sha_is224 st" "sha_finalized (sha_finalize st)"
proof -
  let ?t = "tail m" and ?e = "last_index st" and ?u = "(sha_blocks st)[16 := sha_block st]"
  let ?v = "?u[?e div 4 := ?u ! (?e div 4) OR pad_marks ! (?e mod 4)]"
  let ?s = "st\<lparr>sha_finalized := True, sha_blocks := ?v, sha_block := ?v ! 16\<rparr>"
  let ?A = "absorb (sha_h st) (?t @ padding (length m))"
  have f: "sha_h st = absorb (sha_iv (sha_is224 st)) m" "sha_first st = (length m < 64)" "\<not> sha_finalized st"
    "4294967296 * sha_hBytes st + sha_bytes st = length m" "held st ?t" using assms(1) by (auto simp: fed_def)
  have iv: "sha_h st = sha_iv (sha_is224 st)" if "sha_first st" using that f(1,2) by (simp add: absorb_short)
  have t: "length ?t < 64" "length ?t = length m mod 64" by simp_all
  let ?s2 = "if sha_hashed st then ?s else sha_hash ?s"
  have fin: "sha_finalize st = (if 56 \<le> ?e
      then (let s2 = ?s2; t2 = sha_block s2 # replicate 16 0 @ drop 17 (sha_blocks s2) in finish t2 (s2\<lparr>sha_blocks := t2\<rparr>))
      else finish ?v ?s)"
    using f(3) by (simp add: sha_finalize_def finish_def last_index_def Let_def)
  have "\<exists>x t2 s2. sha_finalize st = finish t2 s2 \<and> packed x t2 \<and> length x \<le> 56 \<and> sha_is224 s2 = sha_is224 st
    \<and> sha_finalized s2 \<and> sha_hBytes s2 = sha_hBytes st \<and> sha_bytes s2 = sha_bytes st
    \<and> (sha_first s2 \<longrightarrow> sha_h s2 = sha_iv (sha_is224 s2))
    \<and> absorb (sha_h s2) (x @ replicate (56 - length x) 0 @ length_bytes (8 * length m)) = ?A"
  proof (cases "sha_hashed st")
    case True
    let ?t2 = "?v ! 16 # replicate 16 0 @ drop 17 ?v"
    have h: "length ?t \<le> 3" "?e = 64 + length ?t" "sha_block st = word_at ?t 0" "17 \<le> length (sha_blocks st)"
      using f(5) True by (simp_all add: held_def)
    have "?v ! 16 = word_at (?t @ [128]) 0" unfolding h(2) by (rule mark_after_block [OF h(1,4,3)])
    then have "packed (?t @ [128]) ?t2" using h(1,4) by (intro first_word_packed) simp_all
    moreover have "sha_finalize st = finish ?t2 (?s\<lparr>sha_blocks := ?t2\<rparr>)" unfolding fin using True h(2) by (simp add: Let_def)
    ultimately show ?thesis
      using h(1) iv padding_cases(1) [of "length m"]
      by (intro exI [of _ "?t @ [128]"] exI [of _ ?t2] exI [of _ "?s\<lparr>sha_blocks := ?t2\<rparr>"]) simp
  next
    case False
    have h: "packed ?t (sha_blocks st)" "sha_block st = 0" "?e = length ?t"
      using f(5) False by (simp_all add: held_def)
    have v: "packed (?t @ [128]) ?v" unfolding h(3) using h(1,2) t(1) by (intro mark_short) simp_all
    show ?thesis
    proof (cases "56 \<le> ?e")
      case short: False
      then have "sha_finalize st = finish ?v ?s" unfolding fin by simp
      then show ?thesis
        using v short h(3) iv padding_cases(1) [of "length m"]
        by (intro exI [of _ "?t @ [128]"] exI [of _ ?v] exI [of _ ?s]) simp
    next
      case long: True
      let ?b = "?t @ 128 # replicate (63 - length ?t) 0" and ?r = "replicate 56 0 @ length_bytes (8 * length m)"
      have "block_words ?b = block_words (?t @ [128])"
        using word_at_padded [of "?t @ [128]" "63 - length ?t"] by (simp add: block_words_def)
      moreover have "sha_blocks ?s ! i = block_words (?t @ [128]) ! i" if "i < 16" for i
        using that v by (simp add: packed_def block_words_def)
      moreover have "17 \<le> length (sha_blocks ?s)" using v by (simp add: packed_def)
      ultimately obtain w where w: "17 \<le> length w"
        "sha_hash ?s = ?s\<lparr>sha_blocks := w, sha_first := False, sha_h := compress (sha_h st) (block_words ?b)\<rparr>"
        using sha_hash_compresses [of ?s "block_words ?b"] iv by auto
      let ?s2 = "?s\<lparr>sha_blocks := w, sha_first := False, sha_h := compress (sha_h st) (block_words ?b)\<rparr>"
      let ?t2 = "?v ! 16 # replicate 16 0 @ drop 17 w"
      have "?v ! 16 = 0" using v word_at_zero [of "?t @ [128]" 16] t(1) by (simp add: packed_def)
      then have p: "packed [] ?t2" using w(1) by (intro first_word_packed) (simp_all add: word_at_zero)
      have "sha_finalize st = finish ?t2 (?s2\<lparr>sha_blocks := ?t2\<rparr>)" unfolding fin using False long w(2) by (simp add: Let_def)
      moreover have "?A = absorb (compress (sha_h st) (block_words ?b)) ?r"
      proof -
        have b: "length ?b = 64" using t(1) by simp
        have "?t @ padding (length m) = ?b @ ?r" using padding_cases(2) [of "length m"] long h(3) by simp
        moreover have "absorb (sha_h st) ?b = compress (sha_h st) (block_words ?b)" "tail ?b = []"
          using b absorb_block [of ?b] absorb_short [of "drop 64 ?b"] by (simp_all add: tail_def)
        ultimately show ?thesis by (metis absorb_append append_Nil)
      qed
      ultimately show ?thesis
        using p by (intro exI [of _ "[]"] exI [of _ ?t2] exI [of _ "?s2\<lparr>sha_blocks := ?t2\<rparr>"]) simp
    qed
  qed
  then obtain x t2 s2 where s: "sha_finalize st = finish t2 s2" "packed x t2" "length x \<le> 56" "sha_is224 s2 = sha_is224 st"
    "sha_finalized s2" "sha_hBytes s2 = sha_hBytes st" "sha_bytes s2 = sha_bytes st" "sha_first s2 \<Longrightarrow> sha_h s2 = sha_iv (sha_is224 s2)"
    "absorb (sha_h s2) (x @ replicate (56 - length x) 0 @ length_bytes (8 * length m)) = ?A" by blast
  then show "sha_h (sha_finalize st) = absorb (sha_iv (sha_is224 st)) (m @ padding (length m))"
    "sha_is224 (sha_finalize st) = sha_is224 st" "sha_finalized (sha_finalize st)"
    using finish_absorbs [OF s(2,3) _ _ s(8), of "length m"] f(1,4) assms(2) absorb_append [of "sha_iv (sha_is224 st)" m] by simp_all
qed


section \<open>Digests\<close>

definition feed_all :: "sha_input list \<Rightarrow> sha \<Rightarrow> sha" where
  "feed_all es st = fold (\<lambda>e st. fst (sha_update e st)) es st"

lemma feed_all_feeds:
  assumes "list_all input_ok es" "fed m st" "sha_bytes st < 4294967296"
  shows "fed (m @ concat (map input_bytes es)) (feed_all es st) \<and> sha_bytes (feed_all es st) < 4294967296
    \<and> sha_is224 (feed_all es st) = sha_is224 st"
  using assms
proof (induction es arbitrary: m st)
  case (Cons e es)
  obtain st' b where u: "sha_update e st = (st', b)" by fastforce
  then show ?case
    using Cons.IH [of "m @ input_bytes e" st'] sha_update_feeds [OF Cons.prems(2) _ u] Cons.prems by (simp add: feed_all_def)
qed (simp add: feed_all_def)

lemma digest_of_fed:
  assumes "fed m st" "sha_bytes st < 4294967296"
  shows "snd (sha_digest st) = fips_digest (sha_is224 st) m"
  using sha_finalize_digests [OF assms] by (simp add: sha_digest_def fips_digest_def Let_def)

lemma finalize_twice: "sha_finalized st \<Longrightarrow> sha_finalize st = st"
  by (simp add: sha_finalize_def)

lemma length_word_bytes: "length (word_bytes x) = 4"
  by (simp add: word_bytes_def)

lemma setUint32_append:
  "setUint32 (4 * length ws) x (concat (map word_bytes ws) @ replicate (4 * Suc n) 0)
    = concat (map word_bytes (ws @ [x])) @ replicate (4 * n) 0"
proof -
  have l: "length (concat (map word_bytes ws)) = 4 * length ws"
    by (induction ws) (simp_all add: length_word_bytes)
  have "rev (map (\<lambda>k. ucast (drop_bit (8 * k) x)) [0..<4]) = map (\<lambda>k. ucast (drop_bit k x) :: byte) [24, 16, 8, 0]"
    by (simp add: upt_rec)
  moreover have "(ucast (y AND mask 8) :: byte) = ucast y" for y :: w32
    by (rule bit_word_eqI) (auto simp: bit_simps)
  moreover have "(255 :: w32) = mask 8" by code_simp
  ultimately show ?thesis using l by (simp add: setUint32_def word_bytes_def)
qed

lemma array_buffer_bytes: "snd (sha_arrayBuffer st) = snd (sha_digest st)"
proof (cases "sha_h (sha_finalize st)")
  case (Regs a b c d e f g h)
  note s = setUint32_append [of "[]" a] setUint32_append [of "[a]" b] setUint32_append [of "[a, b]" c]
    setUint32_append [of "[a, b, c]" d] setUint32_append [of "[a, b, c, d]" e] setUint32_append [of "[a, b, c, d, e]" f]
    setUint32_append [of "[a, b, c, d, e, f]" g] setUint32_append [of "[a, b, c, d, e, f, g]" h]
  show ?thesis
  proof (cases "sha_is224 (sha_finalize st)")
    case True
    then show ?thesis using s(1) [of 6] s(2) [of 5] s(3) [of 4] s(4) [of 3] s(5) [of 2] s(6) [of 1] s(7) [of 0] Regs
      by (simp add: sha_arrayBuffer_def sha_digest_def reg_list_def Let_def)
  next
    case False
    then show ?thesis using s(1) [of 7] s(2) [of 6] s(3) [of 5] s(4) [of 4] s(5) [of 3] s(6) [of 2] s(7) [of 1] s(8) [of 0] Regs
      by (simp add: sha_arrayBuffer_def sha_digest_def reg_list_def Let_def)
  qed
qed


text \<open>A byte in hexadecimal, two digits.\<close>

definition hex_byte :: "byte \<Rightarrow> string" where
  "hex_byte b = [''0123456789abcdef'' ! unat (drop_bit 4 b), ''0123456789abcdef'' ! unat (b AND 15)]"

lemma word_hex_bytes: "word_hex x = concat (map hex_byte (word_bytes x))"
proof -
  have m: "(15 :: w32) = mask 4" "(255 :: w32) = mask 8" "(15 :: byte) = mask 4" by code_simp+
  have "unat (drop_bit (k + 4) x AND mask 4) = unat (drop_bit 4 (ucast (drop_bit k x AND mask 8) :: byte))"
    "unat (drop_bit k x AND mask 4) = unat (ucast (drop_bit k x AND mask 8) AND mask 4 :: byte)" for k
    by (rule bit_eqI; auto simp: bit_simps ac_simps)+
  from this [of 24] this [of 16] this [of 8] this [of 0] show ?thesis
    by (simp add: word_hex_def word_bytes_def hex_byte_def m)
qed

lemma hex_of_digest: "snd (sha_hex st) = concat (map hex_byte (snd (sha_digest st)))"
proof -
  have "concat (map word_hex ws) = concat (map hex_byte (concat (map word_bytes ws)))" for ws
    by (induction ws) (simp_all add: word_hex_bytes)
  then show ?thesis by (simp add: sha_hex_def sha_digest_def Let_def)
qed

section \<open>Strings\<close>

text \<open>The characters of Unicode, in UTF-16 and in UTF-8.\<close>

definition scalar :: "nat \<Rightarrow> bool" where
  "scalar c \<longleftrightarrow> c < 55296 \<or> 57344 \<le> c \<and> c < 1114112"

definition utf16 :: "nat \<Rightarrow> nat list" where
  "utf16 c = (if c < 65536 then [c] else [55296 + (c - 65536) div 1024, 56320 + (c - 65536) mod 1024])"

definition utf8 :: "nat \<Rightarrow> bytes" where
  "utf8 c = map word_of_nat
     (if c < 128 then [c]
      else if c < 2048 then [192 + c div 64, 128 + c mod 64]
      else if c < 65536 then [224 + c div 4096, 128 + c div 64 mod 64, 128 + c mod 64]
      else [240 + c div 262144, 128 + c div 4096 mod 64, 128 + c div 64 mod 64, 128 + c mod 64])"

lemma or_add: "x < 2 ^ k \<Longrightarrow> push_bit k c OR x = c * 2 ^ k + (x :: nat)"
proof -
  assume "x < 2 ^ k"
  then have x: "take_bit k x = x" by (simp add: take_bit_nat_eq_self)
  have "push_bit k c AND take_bit k x = 0" by (rule bit_eqI) (auto simp: bit_simps)
  then have "push_bit k c AND x = 0" by (simp only: x)
  then show ?thesis by (simp add: push_bit_eq_mult flip: disjunctive_add_eq_or)
qed

lemma lead_bytes:
  "x < 64 \<Longrightarrow> 128 OR x = 128 + (x :: nat)" "x < 32 \<Longrightarrow> 192 OR x = 192 + (x :: nat)"
  "x < 16 \<Longrightarrow> 224 OR x = 224 + (x :: nat)" "x < 8 \<Longrightarrow> 240 OR x = 240 + (x :: nat)"
  "y < 1024 \<Longrightarrow> push_bit 10 x OR y = x * 1024 + (y :: nat)"
  using or_add [of x 6 2] or_add [of x 5 6] or_add [of x 4 14] or_add [of x 3 30] or_add [of y 10 x]
  by (simp_all add: push_bit_eq_mult)

lemma low_bits: "63 AND (x :: nat) = x mod 64" "x AND 63 = x mod (64 :: nat)" "1023 AND x = x mod (1024 :: nat)"
  using take_bit_eq_mask [of 6 x] take_bit_eq_mask [of 10 x]
  by (simp_all add: mask_eq_exp_minus_1 take_bit_eq_mod ac_simps)

lemma shifts_div: "drop_bit 6 (c :: nat) = c div 64" "drop_bit 12 c = c div 4096" "drop_bit 18 c = c div 262144"
  by (simp_all add: drop_bit_eq_div)

lemma tails_or: "128 OR (63 AND x) = 128 + x mod (64 :: nat)" "128 OR (x AND 63) = 128 + x mod (64 :: nat)"
  by (simp_all add: low_bits lead_bytes(1))

lemma char_codes_pair:
  assumes "65536 \<le> c" "c < 1114112"
  shows "char_codes (55296 + (c - 65536) div 1024) ((56320 + (c - 65536) mod 1024) # hs)
    = ([240 + c div 262144, 128 + c div 4096 mod 64, 128 + c div 64 mod 64, 128 + c mod 64], hs)"
proof -
  define q r where "q = (c - 65536) div 1024" and "r = (c - 65536) mod 1024"
  have b: "q < 1024" "r < 1024" "c = 65536 + (q * 1024 + r)" using assms by (auto simp: q_def r_def)
  have "(55296 + q) mod 1024 = q" "(56320 + r) mod 1024 = r"
    using mod_mult_self4 [of 1024 54 q] mod_mult_self4 [of 1024 55 r] b(1,2) by simp_all
  then have c: "65536 + (push_bit 10 (1023 AND (55296 + q)) OR (1023 AND (56320 + r))) = c"
    using b by (simp only: low_bits lead_bytes(5))
  have "c div 262144 < 8" using assms(2) by (simp add: less_mult_imp_div_less)
  then have l: "240 OR c div 262144 = 240 + c div 262144" by (rule lead_bytes(4))
  have "char_codes (55296 + q) ((56320 + r) # hs)
      = ([240 OR drop_bit 18 c, 128 OR (drop_bit 12 c AND 63), 128 OR (drop_bit 6 c AND 63), 128 OR (63 AND c)], hs)"
    using b(1) unfolding char_codes_def Let_def list.case c by simp
  then show ?thesis unfolding q_def [symmetric] r_def [symmetric] by (simp only: tails_or shifts_div l)
qed

lemma char_codes_single:
  assumes "scalar c" "c < 65536"
  shows "char_codes c hs =
    (if c < 128 then [c]
     else if c < 2048 then [192 + c div 64, 128 + c mod 64]
     else [224 + c div 4096, 128 + c div 64 mod 64, 128 + c mod 64], hs)"
proof -
  have "c div 64 < 32" if "c < 2048" using that by (simp add: less_mult_imp_div_less)
  then have l2: "c < 2048 \<Longrightarrow> 192 OR c div 64 = 192 + c div 64" by (simp only: lead_bytes(2))
  have "c div 4096 < 16" using assms(2) by (simp add: less_mult_imp_div_less)
  then have l3: "224 OR c div 4096 = 224 + c div 4096" by (rule lead_bytes(3))
  show ?thesis using assms
    by (auto simp only: char_codes_def tails_or shifts_div l2 l3 scalar_def if_True if_False not_less split: if_splits)
qed

lemma str_bytes_char:
  assumes "scalar c"
  shows "str_bytes (utf16 c @ hs) = utf8 c @ str_bytes hs"
proof (cases "c < 65536")
  case True
  then show ?thesis by (simp add: utf16_def utf8_def char_codes_single [OF assms])
next
  case False
  then have "65536 \<le> c" "c < 1114112" using assms by (auto simp: scalar_def)
  then show ?thesis by (simp add: utf16_def utf8_def char_codes_pair)
qed

lemma str_bytes_text: "list_all scalar cs \<Longrightarrow> str_bytes (concat (map utf16 cs)) = concat (map utf8 cs)"
  by (induction cs) (simp_all add: str_bytes_char)

lemma text_ok: "list_all scalar cs \<Longrightarrow> input_ok (In_Str (concat (map utf16 cs)))"
  by (induction cs) (auto simp: input_ok_def utf16_def scalar_def)

section \<open>The digests\<close>

text \<open>A piece of a message: bytes, or a text by its characters.\<close>

datatype piece = Raw bytes | Text "nat list"

definition piece_ok :: "piece \<Rightarrow> bool" where
  "piece_ok x = (case x of Raw bs \<Rightarrow> True | Text cs \<Rightarrow> list_all scalar cs)"

definition piece_input :: "piece \<Rightarrow> sha_input" where
  "piece_input x = (case x of Raw bs \<Rightarrow> In_Bytes bs | Text cs \<Rightarrow> In_Str (concat (map utf16 cs)))"

definition piece_bytes :: "piece \<Rightarrow> bytes" where
  "piece_bytes x = (case x of Raw bs \<Rightarrow> bs | Text cs \<Rightarrow> concat (map utf8 cs))"

lemma piece_input_bytes: "piece_ok x \<Longrightarrow> input_ok (piece_input x) \<and> input_bytes (piece_input x) = piece_bytes x"
  using text_ok str_bytes_text
  by (cases x) (simp_all add: piece_ok_def piece_input_def piece_bytes_def input_bytes_def input_ok_def)

lemma pieces_input_bytes:
  "list_all piece_ok xs \<Longrightarrow> list_all input_ok (map piece_input xs) \<and> map (input_bytes \<circ> piece_input) xs = map piece_bytes xs"
  by (induction xs) (simp_all add: piece_input_bytes)

lemma digest_again:
  assumes "fed m st" "sha_bytes st < 4294967296"
  shows "snd (sha_digest (fst (sha_digest st))) = snd (sha_digest st)"
  using finalize_twice [OF sha_finalize_digests(3) [OF assms]] by (simp add: sha_digest_def Let_def)

text \<open>
  C37: The hasher computes the digest of FIPS 180-4: for any sequence of updates with byte arrays and texts
  (texts without lone surrogates), fresh or on the block array of the module, \<open>digest\<close> and
  \<open>arrayBuffer\<close> give SHA-256, or SHA-224, of the concatenated bytes, where a text counts as its UTF-8
  bytes, \<open>hex\<close> gives the same in hexadecimal, and asking for the digest a second time does not change
  it. The reference pads, splits into blocks, schedules and compresses as the standard states it.
\<close>
theorem digest_is_the_standard:
  fixes is224 :: bool and shared :: "w32 list option"
  assumes "list_all piece_ok xs"
  defines "st \<equiv> feed_all (map piece_input xs) (new_sha is224 shared)"
    and "d \<equiv> fips_digest is224 (concat (map piece_bytes xs))"
  shows "snd (sha_digest st) = d \<and> snd (sha_arrayBuffer st) = d \<and> snd (sha_hex st) = concat (map hex_byte d)
    \<and> snd (sha_digest (fst (sha_digest st))) = d"
proof -
  have f: "fed (concat (map piece_bytes xs)) st" "sha_bytes st < 4294967296" "sha_is224 st = is224"
    using feed_all_feeds [of "map piece_input xs" "[]" "new_sha is224 shared"] new_sha_fed [of is224 shared]
      pieces_input_bytes [OF assms(1)] by (simp_all add: st_def)
  then have "snd (sha_digest st) = d" using digest_of_fed [OF f(1,2)] by (simp add: d_def)
  then show ?thesis by (simp add: array_buffer_bytes hex_of_digest digest_again [OF f(1,2)])
qed

theorem digest_is_the_standard_witness:
  "snd (sha_digest (fst (sha_update (In_Str [8364]) (fst (sha_update (In_Bytes [97, 98]) (new_sha False None))))))
    = fips_digest False [97, 98, 226, 130, 172]"
proof -
  have "list_all piece_ok [Raw [97, 98], Text [8364]]" by (simp add: piece_ok_def scalar_def)
  from digest_is_the_standard [OF this, of False None] show ?thesis
    by (simp add: feed_all_def piece_input_def piece_bytes_def utf16_def utf8_def)
qed

section \<open>Keyed hashes\<close>

definition hmac_of :: "bool \<Rightarrow> bytes \<Rightarrow> bytes \<Rightarrow> bytes" where
  "hmac_of is224 k m =
     (let k0 = (if length k > 64 then fips_digest is224 k else k); k1 = k0 @ replicate (64 - length k0) 0
      in fips_digest is224 (map (\<lambda>b. b XOR 92) k1 @ fips_digest is224 (map (\<lambda>b. b XOR 54) k1 @ m)))"

lemma update_forgets_last_index:
  assumes "input_length e \<noteq> 0"
  shows "fst (sha_update e (st\<lparr>sha_lastByteIndex := x\<rparr>)) = fst (sha_update e st) \<or> sha_finalized st"
proof -
  have "update_turn e (st\<lparr>sha_lastByteIndex := x\<rparr>) = update_turn e st"
    by (simp add: update_turn_def next_block_def Let_def split: prod.split)
  then have "update_loop e (st\<lparr>sha_lastByteIndex := x\<rparr>) = update_loop e st"
    using assms update_loop.simps [of e] by simp
  then show ?thesis by (simp add: sha_update_def)
qed

lemma key_pad_xor: "length k \<le> 64 \<Longrightarrow> key_pad x k = map (\<lambda>b. b XOR x) (k @ replicate (64 - length k) 0)"
  by (rule nth_equalityI) (auto simp: key_pad_def nth_append xor.commute)

lemma new_sha_update:
  fixes is224 :: bool and l :: "w32 list option" and x :: "nat option"
  assumes "input_ok e" "input_length e \<noteq> 0"
  defines "st \<equiv> fst (sha_update e ((new_sha is224 l)\<lparr>sha_lastByteIndex := x\<rparr>))"
  shows "fed (input_bytes e) st" "sha_bytes st < 4294967296" "sha_is224 st = is224"
proof -
  have st: "st = fst (sha_update e (new_sha is224 l))"
    using update_forgets_last_index [OF assms(2), where st = "new_sha is224 l" and x = x] by (auto simp: st_def new_sha_def)
  obtain s b where u: "sha_update e (new_sha is224 l) = (s, b)" by fastforce
  show "fed (input_bytes e) st" "sha_bytes st < 4294967296" "sha_is224 st = is224"
    using sha_update_feeds [OF new_sha_fed(1) assms(1) u] by (simp_all add: st u new_sha_fed)
qed

lemma length_key_pad [simp]: "length (key_pad x k) = 64"
  by (simp add: key_pad_def)

lemma fed_more:
  assumes "fed m st" "input_ok e"
  shows "fed (m @ input_bytes e) (fst (sha_update e st))" "sha_bytes (fst (sha_update e st)) < 4294967296"
    "sha_is224 (fst (sha_update e st)) = sha_is224 st"
proof -
  obtain s b where u: "sha_update e st = (s, b)" by fastforce
  show "fed (m @ input_bytes e) (fst (sha_update e st))" "sha_bytes (fst (sha_update e st)) < 4294967296"
    "sha_is224 (fst (sha_update e st)) = sha_is224 st"
    using sha_update_feeds [OF assms u] by (simp_all add: u)
qed

lemma bytes_input [simp]: "input_ok (In_Bytes xs)" "input_bytes (In_Bytes xs) = xs" "input_length (In_Bytes xs) = length xs"
  by (simp_all add: input_ok_def input_bytes_def input_length_def)

text \<open>The key of the hash: bytes or a string, hashed when it is longer than a block.\<close>

definition hmac_key :: "bool \<Rightarrow> sha_input \<Rightarrow> bytes" where
  "hmac_key is224 e = (if length (input_bytes e) > 64 then fips_digest is224 (input_bytes e) else input_bytes e)"

lemma length_fips_digest: "length (fips_digest is224 m) \<le> 32"
proof -
  have "length (concat (map word_bytes ws)) = 4 * length ws" for ws
    by (induction ws) (simp_all add: length_word_bytes)
  moreover have "length (reg_list is224 H) \<le> 8" for H by (cases H) (simp add: reg_list_def)
  ultimately show ?thesis by (simp add: fips_digest_def)
qed

lemma new_hmac_fed:
  fixes is224 shared :: bool and key :: sha_input and l :: "w32 list"
  defines "hm \<equiv> new_hmac key is224 shared l"
  shows "fed (key_pad 54 (hmac_key is224 key)) (hm_sha hm)" "sha_bytes (hm_sha hm) < 4294967296"
    "sha_is224 (hm_sha hm) = is224" "hm_oKeyPad hm = key_pad 92 (hmac_key is224 key)" "hm_inner hm"
proof -
  let ?k = "input_bytes key"
  have k: "(case key of In_Str hs \<Rightarrow> str_bytes hs | In_Bytes bs \<Rightarrow> bs) = ?k" by (simp add: input_bytes_def split: sha_input.split)
  have d: "snd (sha_digest (fst (sha_update (In_Bytes ?k) (new_sha is224 (Some l))))) = fips_digest is224 ?k"
    using fed_more [OF new_sha_fed(1), of "In_Bytes ?k" is224 "Some l"] digest_of_fed new_sha_fed(2) by simp
  obtain l' where hm: "hm = \<lparr>hm_sha = fst (sha_update (In_Bytes (key_pad 54 (hmac_key is224 key))) (new_sha is224 l')),
      hm_oKeyPad = key_pad 92 (hmac_key is224 key), hm_inner = True, hm_sharedMemory = shared\<rparr>"
    using d by (cases "64 < length ?k") (auto simp: hm_def new_hmac_def k hmac_key_def case_prod_beta Let_def)
  show "fed (key_pad 54 (hmac_key is224 key)) (hm_sha hm)" "sha_bytes (hm_sha hm) < 4294967296"
    "sha_is224 (hm_sha hm) = is224" "hm_oKeyPad hm = key_pad 92 (hmac_key is224 key)" "hm_inner hm"
    using fed_more [OF new_sha_fed(1), of "In_Bytes (key_pad 54 (hmac_key is224 key))" is224 l'] new_sha_fed(2)
    by (simp_all add: hm)
qed

lemma hmac_updates:
  defines "run \<equiv> fold (\<lambda>e hm. fst (hmac_update e hm))"
  shows "hm_sha (run es hm) = feed_all es (hm_sha hm) \<and> hm_oKeyPad (run es hm) = hm_oKeyPad hm
    \<and> hm_inner (run es hm) = hm_inner hm"
  by (induction es arbitrary: hm) (simp_all add: run_def feed_all_def hmac_update_def case_prod_beta Let_def)

text \<open>HMAC as RFC 2104 defines it, for a message in any pieces: the second hash runs on the same object,
  with the index that the first one left, which its first update overwrites.\<close>

theorem keyed_hash_is_the_standard:
  assumes "list_all input_ok es"
  shows "snd (hmac_digest (fold (\<lambda>e hm. fst (hmac_update e hm)) es (new_hmac key is224 shared l)))
    = hmac_of is224 (input_bytes key) (concat (map input_bytes es))"
proof -
  let ?k = "hmac_key is224 key" and ?m = "concat (map input_bytes es)"
  define h0 where "h0 = new_hmac key is224 shared l"
  define hm where "hm = fold (\<lambda>e hm. fst (hmac_update e hm)) es h0"
  have n: "fed (key_pad 54 ?k) (hm_sha h0)" "sha_bytes (hm_sha h0) < 4294967296" "sha_is224 (hm_sha h0) = is224"
      "hm_oKeyPad h0 = key_pad 92 ?k" "hm_inner h0"
    unfolding h0_def by (rule new_hmac_fed)+
  have hm: "hm_sha hm = feed_all es (hm_sha h0)" "hm_oKeyPad hm = key_pad 92 ?k" "hm_inner hm"
    using hmac_updates [of es h0] n(4,5) by (simp_all add: hm_def)
  have f: "fed (key_pad 54 ?k @ ?m) (hm_sha hm)" "sha_bytes (hm_sha hm) < 4294967296" "sha_is224 (hm_sha hm) = is224"
    using feed_all_feeds [OF assms n(1,2)] n(3) by (simp_all add: hm(1))
  let ?f = "sha_finalize (hm_sha hm)" and ?d = "fips_digest is224 (key_pad 54 ?k @ ?m)"
  have fin: "sha_is224 ?f = is224" "sha_finalize ?f = ?f"
    using sha_finalize_digests(2,3) [OF f(1,2)] f(3) finalize_twice by simp_all
  have d: "snd (sha_digest ?f) = ?d" "fst (sha_digest ?f) = ?f"
    using digest_of_fed [OF f(1,2)] f(3) fin by (simp_all add: sha_digest_def Let_def)
  define s1 where "s1 = fst (sha_update (In_Bytes (key_pad 92 ?k)) (again (hm_sharedMemory hm) ?f))"
  define s2 where "s2 = fst (sha_update (In_Bytes ?d) s1)"
  have s1: "fed (key_pad 92 ?k) s1" "sha_bytes s1 < 4294967296" "sha_is224 s1 = is224"
    using new_sha_update [where e = "In_Bytes (key_pad 92 ?k)"] by (simp_all add: s1_def again_def fin(1))
  have s2: "fed (key_pad 92 ?k @ ?d) s2" "sha_bytes s2 < 4294967296" "sha_is224 s2 = is224"
    using fed_more [OF s1(1), of "In_Bytes ?d"] s1(3) by (simp_all add: s2_def)
  have "hm_sha (hmac_finalize hm) = sha_finalize s2"
    using hm(2,3) d by (simp add: hmac_finalize_def Let_def case_prod_beta s1_def s2_def)
  then have "snd (hmac_digest hm) = snd (sha_digest (fst (sha_digest s2)))" by (simp add: hmac_digest_def sha_digest_def Let_def)
  also have "\<dots> = fips_digest is224 (key_pad 92 ?k @ ?d)"
    using digest_again [OF s2(1,2)] digest_of_fed [OF s2(1,2)] s2(3) by simp
  also have "\<dots> = hmac_of is224 (input_bytes key) ?m"
    using length_fips_digest [of is224 "input_bytes key"]
    by (simp add: hmac_of_def Let_def key_pad_xor hmac_key_def)
  finally show ?thesis by (simp add: hm_def h0_def)
qed

end
