(* ===== verification/Base64.thy ===== *)
theory Base64
  imports Nats_Core
begin

text \<open>
  The codecs of \<open>nats-base-client/base64.ts\<close>. \<open>btoa\<close> and \<open>atob\<close> of the runtime work on
  strings of code units below 256, which are lists of bytes here; \<open>latin1_of\<close> and
  \<open>utf8_of\<close> go between such a list and the UTF-8 representation of strings.
\<close>

section \<open>The functions of the runtime\<close>

definition b64_alphabet :: string where
  "b64_alphabet = ''ABCDEFGHIJKLMNOPQRSTUVWXYZabcdefghijklmnopqrstuvwxyz0123456789+/''"

definition b64_char :: "nat \<Rightarrow> char" where
  "b64_char n = b64_alphabet ! n"

definition b64_val :: "char \<Rightarrow> nat option" where
  "b64_val c =
     (let n = char_code c in
      if 65 \<le> n \<and> n \<le> 90 then Some (n - 65)
      else if 97 \<le> n \<and> n \<le> 122 then Some (n - 71)
      else if 48 \<le> n \<and> n \<le> 57 then Some (n + 4)
      else if n = 43 then Some 62
      else if n = 47 then Some 63
      else None)"

fun btoa :: "bytes \<Rightarrow> string" where
  "btoa [] = []"
| "btoa [a] = [b64_char (unat a div 4), b64_char (unat a mod 4 * 16), CHR ''='', CHR ''='']"
| "btoa [a, b] =
     [b64_char (unat a div 4), b64_char (unat a mod 4 * 16 + unat b div 16),
      b64_char (unat b mod 16 * 4), CHR ''='']"
| "btoa (a # b # c # r) =
     b64_char (unat a div 4) # b64_char (unat a mod 4 * 16 + unat b div 16)
     # b64_char (unat b mod 16 * 4 + unat c div 64) # b64_char (unat c mod 64) # btoa r"

text \<open>The forgiving decoder: blanks are dropped, up to two pads at the end of full groups, a
  single left-over digit or a foreign character is an error, left-over bits are ignored.\<close>

fun join_digits :: "nat list \<Rightarrow> bytes" where
  "join_digits (p # q # r # s # ds) =
     of_nat (p * 4 + q div 16) # of_nat (q mod 16 * 16 + r div 4) # of_nat (r mod 4 * 64 + s) # join_digits ds"
| "join_digits [p, q, r] = [of_nat (p * 4 + q div 16), of_nat (q mod 16 * 16 + r div 4)]"
| "join_digits [p, q] = [of_nat (p * 4 + q div 16)]"
| "join_digits _ = []"

definition strip_pad :: "string \<Rightarrow> string" where
  "strip_pad s = (if s \<noteq> [] \<and> last s = CHR ''='' then butlast s else s)"

definition atob :: "string \<Rightarrow> js_error + bytes" where
  "atob s =
     (let t = filter (\<lambda>c. char_code c \<notin> {9, 10, 12, 13, 32}) s;
          u = (if length t mod 4 = 0 then strip_pad (strip_pad t) else t)
      in if length u mod 4 = 1 \<or> list_ex (\<lambda>c. b64_val c = None) u
         then Inl (Plain_Error ''InvalidCharacterError'')
         else Inr (join_digits (map (\<lambda>c. the (b64_val c)) u)))"

definition is_continuation :: "char \<Rightarrow> bool" where
  "is_continuation c \<longleftrightarrow> 128 \<le> char_code c \<and> char_code c < 192"

fun latin1_of :: "string \<Rightarrow> bytes option" where
  "latin1_of [] = Some []"
| "latin1_of (c # s) =
     (if char_code c < 128 then map_option ((#) (of_char c)) (latin1_of s)
      else case s of
             d # s' \<Rightarrow>
               if char_code c \<in> {194, 195} \<and> is_continuation d
               then map_option ((#) (of_nat ((char_code c - 192) * 64 + (char_code d - 128)))) (latin1_of s')
               else None
           | [] \<Rightarrow> None)"

fun utf8_of :: "bytes \<Rightarrow> string" where
  "utf8_of [] = []"
| "utf8_of (b # bs) =
     (if unat b < 128 then char_of (unat b) # utf8_of bs
      else char_of (192 + unat b div 64) # char_of (128 + unat b mod 64) # utf8_of bs)"

section \<open>The codecs\<close>

text \<open>The argument of \<open>encode\<close> and the result of \<open>decode\<close> are a string or an array.\<close>

datatype text_or_bytes = Text string | Bytes bytes

definition base64_encode :: "text_or_bytes \<Rightarrow> js_error + string" where
  "base64_encode x =
     (case x of
        Text s \<Rightarrow> (case latin1_of s of
                     Some b \<Rightarrow> Inr (btoa b)
                   | None \<Rightarrow> Inl (Plain_Error ''InvalidCharacterError''))
      | Bytes b \<Rightarrow> Inr (btoa b))"

definition base64_decode :: "string \<Rightarrow> bool \<Rightarrow> js_error + text_or_bytes" where
  "base64_decode s binary =
     rbind (atob s) (\<lambda>b. Inr (if \<not> binary then Text (utf8_of b) else Bytes b))"

definition replace_char :: "char \<Rightarrow> char \<Rightarrow> string \<Rightarrow> string" where
  "replace_char c d s = map (\<lambda>x. if x = c then d else x) s"

definition url_to :: "string \<Rightarrow> string" where
  "url_to s = replace_char CHR ''/'' CHR ''_'' (replace_char CHR ''+'' CHR ''-'' (filter (\<lambda>c. c \<noteq> CHR ''='') s))"

definition url_from :: "string \<Rightarrow> string" where
  "url_from s = replace_char CHR ''-'' CHR ''+'' (replace_char CHR ''_'' CHR ''/'' s)"

definition base64url_encode :: "text_or_bytes \<Rightarrow> js_error + string" where
  "base64url_encode x = rbind (base64_encode x) (\<lambda>s. Inr (url_to s))"

definition base64url_decode :: "string \<Rightarrow> bool \<Rightarrow> js_error + text_or_bytes" where
  "base64url_decode s binary = base64_decode (url_from s) binary"

definition padded_to :: "string \<Rightarrow> string" where
  "padded_to s = replace_char CHR ''/'' CHR ''_'' (replace_char CHR ''+'' CHR ''-'' s)"

definition padded_from :: "string \<Rightarrow> string" where
  "padded_from s = replace_char CHR ''-'' CHR ''+'' (replace_char CHR ''_'' CHR ''/'' s)"

definition padded_encode :: "text_or_bytes \<Rightarrow> js_error + string" where
  "padded_encode x = rbind (base64_encode x) (\<lambda>s. Inr (padded_to s))"

text \<open>\<open>decode\<close> of the padded codec calls itself; the first argument is the number of frames
  the stack still has room for.\<close>

fun padded_decode :: "nat \<Rightarrow> string \<Rightarrow> bool \<Rightarrow> js_error + text_or_bytes" where
  "padded_decode 0 s binary = Inl (Plain_Error ''Maximum call stack size exceeded'')"
| "padded_decode (Suc n) s binary = padded_decode n (padded_from s) binary"

section \<open>Round trips\<close>

lemma unat_byte [simp]: "unat (b :: byte) < 256"
  using unsigned_less [of b] by simp

lemma b64_vals: "map b64_val b64_alphabet = map Some [0..<64]"
  by (simp add: b64_alphabet_def b64_val_def char_code_def upt_rec Let_def)

lemma b64_val_char [simp]: "n < 64 \<Longrightarrow> b64_val (b64_char n) = Some n"
proof -
  assume n: "n < 64"
  have "length b64_alphabet = 64" by (simp add: b64_alphabet_def)
  with n have "b64_val (b64_char n) = map b64_val b64_alphabet ! n" by (simp add: b64_char_def)
  with n show ?thesis by (simp add: b64_vals)
qed

text \<open>The groups of six bits, on numbers below 256.\<close>

lemma sextet_bounds:
  fixes a b c :: nat
  assumes "a < 256" "b < 256" "c < 256"
  shows "a div 4 < 64" "a mod 4 * 16 < 64" "a mod 4 * 16 + b div 16 < 64"
    "b mod 16 * 4 < 64" "b mod 16 * 4 + c div 64 < 64" "c mod 64 < 64"
proof -
  have "b div 16 < 16" "c div 64 < 4" "a mod 4 < 4" "b mod 16 < 16" using assms by (simp_all add: less_mult_imp_div_less)
  then show "a mod 4 * 16 < 64" "a mod 4 * 16 + b div 16 < 64" "b mod 16 * 4 < 64" "b mod 16 * 4 + c div 64 < 64"
    by linarith+
qed (use assms in \<open>simp_all add: less_mult_imp_div_less\<close>)

lemma sextet_joins:
  fixes a b c :: nat
  assumes "b < 256" "c < 256"
  shows "a div 4 * 4 + (a mod 4 * 16) div 16 = a"
    "a div 4 * 4 + (a mod 4 * 16 + b div 16) div 16 = a"
    "(a mod 4 * 16 + b div 16) mod 16 * 16 + (b mod 16 * 4) div 4 = b"
    "(a mod 4 * 16 + b div 16) mod 16 * 16 + (b mod 16 * 4 + c div 64) div 4 = b"
    "(b mod 16 * 4 + c div 64) mod 4 * 64 + c mod 64 = c"
proof -
  have "b div 16 < 16" "c div 64 < 4" using assms by (simp_all add: less_mult_imp_div_less)
  then show "a div 4 * 4 + (a mod 4 * 16) div 16 = a"
    "a div 4 * 4 + (a mod 4 * 16 + b div 16) div 16 = a"
    "(a mod 4 * 16 + b div 16) mod 16 * 16 + (b mod 16 * 4) div 4 = b"
    "(a mod 4 * 16 + b div 16) mod 16 * 16 + (b mod 16 * 4 + c div 64) div 4 = b"
    "(b mod 16 * 4 + c div 64) mod 4 * 64 + c mod 64 = c"
    by simp_all
qed


lemma of_nat_unat_byte: "of_nat (unat b) = (b :: byte)"
  by simp

lemmas byte_bounds = sextet_bounds [OF unat_byte unat_byte unat_byte]
lemmas byte_joins = sextet_joins [OF unat_byte unat_byte]

text \<open>The digits of a text without its pads, and how many pads there are.\<close>

fun digits_of :: "bytes \<Rightarrow> nat list" where
  "digits_of [] = []"
| "digits_of [a] = [unat a div 4, unat a mod 4 * 16]"
| "digits_of [a, b] = [unat a div 4, unat a mod 4 * 16 + unat b div 16, unat b mod 16 * 4]"
| "digits_of (a # b # c # r) =
     (unat a div 4) # (unat a mod 4 * 16 + unat b div 16) # (unat b mod 16 * 4 + unat c div 64)
     # (unat c mod 64) # digits_of r"

fun pads_of :: "bytes \<Rightarrow> nat" where
  "pads_of [] = 0"
| "pads_of [a] = 2"
| "pads_of [a, b] = 1"
| "pads_of (a # b # c # r) = pads_of r"

lemma digits_of_bound: "\<forall>d \<in> set (digits_of b). d < 64"
  by (induction b rule: digits_of.induct) (simp_all add: byte_bounds)

lemma join_digits_of [simp]: "join_digits (digits_of b) = b"
  by (induction b rule: digits_of.induct)
    (simp_all only: digits_of.simps join_digits.simps byte_joins of_nat_unat_byte)

lemma btoa_digits: "btoa b = map b64_char (digits_of b) @ replicate (pads_of b) CHR ''=''"
  by (induction b rule: btoa.induct) (simp_all add: numeral_2_eq_2)

lemma digits_length: "(length (digits_of b) + pads_of b) mod 4 = 0 \<and> length (digits_of b) mod 4 \<noteq> 1
    \<and> pads_of b \<le> 2"
  by (induction b rule: digits_of.induct) auto

lemma b64_val_SomeD: "b64_val c = Some n \<Longrightarrow> c \<noteq> CHR ''='' \<and> c \<noteq> CHR ''-'' \<and> c \<noteq> CHR ''_''
    \<and> char_code c \<notin> {9, 10, 12, 13, 32}"
  by (auto simp: b64_val_def char_code_def Let_def split: if_splits)

lemma b64_char_ne [simp]:
  "n < 64 \<Longrightarrow> b64_char n \<noteq> CHR ''='' \<and> b64_char n \<noteq> CHR ''-'' \<and> b64_char n \<noteq> CHR ''_''
    \<and> char_code (b64_char n) \<noteq> 9 \<and> char_code (b64_char n) \<noteq> 10 \<and> char_code (b64_char n) \<noteq> 12
    \<and> char_code (b64_char n) \<noteq> 13 \<and> char_code (b64_char n) \<noteq> 32"
  using b64_val_SomeD [of "b64_char n" n] by simp

lemma b64_char_ne_sym [simp]: "n < 64 \<Longrightarrow> CHR ''='' \<noteq> b64_char n"
  using b64_char_ne by metis

lemma strip_pad_digits: "\<forall>d \<in> set ds. d < 64 \<Longrightarrow> strip_pad (map b64_char ds) = map b64_char ds"
  by (cases ds rule: rev_cases) (simp_all add: strip_pad_def)

lemma strip_pad_snoc [simp]: "strip_pad (s @ [CHR ''='']) = s"
  by (simp add: strip_pad_def)

lemma strip_pad_two [simp]: "strip_pad (s @ [CHR ''='', CHR ''='']) = s @ [CHR ''='']"
  by (simp add: strip_pad_def butlast_append)

lemma strip_pads:
  assumes "\<forall>d \<in> set ds. d < 64" "k = 0 \<or> (length ds + k) mod 4 = 0" "k \<le> 2"
  defines "t \<equiv> map b64_char ds @ replicate k CHR ''=''"
  shows "(if length t mod 4 = 0 then strip_pad (strip_pad t) else t) = map b64_char ds"
proof -
  from assms(3) consider "k = 0" | "k = 1" | "k = 2" by linarith
  then show ?thesis
  proof cases
    case 1
    then show ?thesis using strip_pad_digits [OF assms(1)] by (simp add: t_def)
  next
    case 2
    then show ?thesis using assms(2) strip_pad_digits [OF assms(1)] by (simp add: t_def)
  next
    case 3
    then have "t = map b64_char ds @ [CHR ''='', CHR ''='']" by (simp add: t_def numeral_2_eq_2)
    then show ?thesis using assms(2) 3 by simp
  qed
qed

lemma no_blank: "\<forall>d \<in> set ds. d < 64 \<Longrightarrow>
    filter (\<lambda>c. char_code c \<notin> {9, 10, 12, 13, 32}) (map b64_char ds @ replicate k CHR ''='')
    = map b64_char ds @ replicate k CHR ''=''"
proof (induction ds)
  case Nil
  have "char_code CHR ''='' = 61" by (simp add: char_code_def)
  then show ?case by simp
qed simp

lemma atob_digits:
  assumes "\<forall>d \<in> set ds. d < 64" "length ds mod 4 \<noteq> 1" "k = 0 \<or> (length ds + k) mod 4 = 0" "k \<le> 2"
  shows "atob (map b64_char ds @ replicate k CHR ''='') = Inr (join_digits ds)"
proof -
  let ?t = "map b64_char ds @ replicate k CHR ''=''"
  have "filter (\<lambda>c. char_code c \<notin> {9, 10, 12, 13, 32}) ?t = ?t" by (rule no_blank [OF assms(1)])
  moreover have "(if length ?t mod 4 = 0 then strip_pad (strip_pad ?t) else ?t) = map b64_char ds"
    by (rule strip_pads [OF assms(1,3,4)])
  moreover have "map (\<lambda>c. the (b64_val c)) (map b64_char ds) = ds"
    using assms(1) by (simp add: map_idI)
  moreover have "\<not> list_ex (\<lambda>c. b64_val c = None) (map b64_char ds)"
    using assms(1) by (auto simp: list_ex_iff)
  ultimately show ?thesis using assms(2) by (simp add: atob_def Let_def)
qed

lemma atob_btoa [simp]: "atob (btoa b) = Inr b"
  using digits_length [of b] digits_of_bound [of b] by (simp add: btoa_digits atob_digits)

lemma utf8_of_ascii: "char_code c < 128 \<Longrightarrow> utf8_of (of_char c # bs) = c # utf8_of bs"
  by (simp add: char_code_def)

lemma unat_of_nat_byte: "n < 256 \<Longrightarrow> unat (of_nat n :: byte) = n"
  by (simp add: unat_of_nat take_bit_nat_eq_self)

lemma utf8_of_byte:
  assumes "128 \<le> n" "n < 256"
  shows "utf8_of (of_nat n # bs) = char_of (192 + n div 64) # char_of (128 + n mod 64) # utf8_of bs"
  using assms by (simp add: unat_of_nat_byte)

lemma utf8_of_wide:
  assumes "char_code c = 194 \<or> char_code c = 195" "is_continuation d"
  shows "utf8_of (of_nat ((char_code c - 192) * 64 + (char_code d - 128)) # bs) = c # d # utf8_of bs"
proof -
  define e where "e = char_code d - 128"
  define n where "n = (char_code c - 192) * 64 + e"
  have e: "e < 64" "char_code d = 128 + e" using assms(2) by (auto simp: is_continuation_def e_def)
  then have n: "128 \<le> n" "n < 256" "192 + n div 64 = char_code c" "128 + n mod 64 = char_code d"
    using assms(1) by (auto simp: n_def)
  show ?thesis
    unfolding n_def [symmetric] e_def [symmetric] utf8_of_byte [OF n(1,2)] n(3,4) by simp
qed

lemma utf8_of_latin1: "latin1_of s = Some b \<Longrightarrow> utf8_of b = s"
proof (induction s arbitrary: b rule: latin1_of.induct)
  case (2 c s)
  show ?case
  proof (cases "char_code c < 128")
    case True
    then obtain bs where "latin1_of s = Some bs" "b = of_char c # bs" using 2(3) by auto
    then show ?thesis using 2(1) [OF True] utf8_of_ascii [OF True] by simp
  next
    case False
    then obtain d s' where s: "s = d # s'" using 2(3) by (cases s) auto
    have ok: "char_code c \<in> {194, 195} \<and> is_continuation d" using 2(3) False s by (auto split: if_splits)
    then obtain bs where bs: "latin1_of s' = Some bs"
        "b = of_nat ((char_code c - 192) * 64 + (char_code d - 128)) # bs"
      using 2(3) False s by (auto simp del: of_nat_add of_nat_mult)
    have "utf8_of bs = s'" using 2(2) [OF False s ok bs(1)] .
    then show ?thesis using ok by (simp only: bs(2) s utf8_of_wide insert_iff empty_iff simp_thms)
  qed
qed simp

text \<open>
  Decoding with the URL codec gives back what was encoded, array or text, and the
  encoding uses no character that has a meaning in a URL.
\<close>
theorem base64url_round_trip:
  assumes "\<And>s. x = Text s \<Longrightarrow> latin1_of s \<noteq> None"
  shows "\<exists>t. base64url_encode x = Inr t
    \<and> base64url_decode t (case x of Text s \<Rightarrow> False | Bytes b \<Rightarrow> True) = Inr x
    \<and> set t \<inter> {CHR ''='', CHR ''+'', CHR ''/''} = {}"
proof -
  obtain b where b: "base64_encode x = Inr (btoa b)" "x = Bytes b \<or> (\<exists>s. x = Text s \<and> latin1_of s = Some b)"
    using assms by (cases x) (auto simp: base64_encode_def)
  let ?u = "map b64_char (digits_of b)"
  have pads: "filter (\<lambda>c. c \<noteq> CHR ''='') (btoa b) = ?u"
    using digits_of_bound [of b] by (simp add: btoa_digits)
  have "url_from (url_to (btoa b)) = ?u"
    using digits_of_bound [of b] by (auto simp: url_from_def url_to_def pads replace_char_def intro!: map_cong)
  moreover have "atob ?u = Inr b"
    using atob_digits [of "digits_of b" 0] digits_length [of b] digits_of_bound [of b] by simp
  ultimately have "atob (url_from (url_to (btoa b))) = Inr b" by simp
  moreover have "set (url_to (btoa b)) \<inter> {CHR ''='', CHR ''+'', CHR ''/''} = {}"
    using digits_of_bound [of b] by (auto simp: url_to_def pads replace_char_def)
  ultimately show ?thesis
    using b utf8_of_latin1 by (auto simp: base64url_encode_def base64url_decode_def base64_decode_def)
qed

theorem base64url_round_trip_witness:
  "\<exists>t. base64url_encode (Text ''ab?>'') = Inr t
    \<and> base64url_decode t False = Inr (Text ''ab?>'')
    \<and> set t \<inter> {CHR ''='', CHR ''+'', CHR ''/''} = {}"
proof -
  have "latin1_of ''ab?>'' \<noteq> None" by code_simp
  then show ?thesis using base64url_round_trip [of "Text ''ab?>''"] by simp
qed

text \<open>
  \<open>decode\<close> of the padded URL codec never returns: it calls itself, and however deep the
  stack is, the call ends in the error of the overflow.
\<close>
theorem padded_decode_overflows:
  "padded_decode n s binary = Inl (Plain_Error ''Maximum call stack size exceeded'')"
  by (induction n arbitrary: s) simp_all

end
