(* ===== verification/Js_Util.thy ===== *)
theory Js_Util
  imports Servers Messages
begin

text \<open>
  What the JetStream clients share, \<open>jetstream/jsutil.ts\<close>: the checks of stream, consumer
  and other names, the recognition of flow control messages and heartbeats, and the errors
  the server reports in the status of a message.
\<close>

section \<open>Tokens\<close>

text \<open>\<open>join_on sep ts\<close> is \<open>ts.join(sep)\<close>.\<close>

fun join_on :: "char \<Rightarrow> string list \<Rightarrow> string" where
  "join_on sep [] = []"
| "join_on sep [t] = t"
| "join_on sep (t # ts) = t @ sep # join_on sep ts"

lemma join_on_Cons: "ts \<noteq> [] \<Longrightarrow> join_on sep (t # ts) = t @ sep # join_on sep ts"
  by (cases ts) simp_all

lemma split_join_on [string_simps]:
  "ts \<noteq> [] \<Longrightarrow> \<forall>t \<in> set ts. sep \<notin> set t \<Longrightarrow> split_on sep (join_on sep ts) = ts"
  by (induction sep ts rule: join_on.induct) (simp_all add: split_on_append split_on_single)

lemma join_split_on [string_simps]: "join_on sep (split_on sep s) = s"
proof (induction s)
  case (Cons c s)
  obtain t ts where t: "split_on sep s = t # ts" by (metis list.exhaust split_on_ne)
  with Cons show ?case by (cases ts) auto
qed simp

lemma split_on_tokens: "t \<in> set (split_on sep s) \<Longrightarrow> sep \<notin> set t"
proof (induction s arbitrary: t)
  case (Cons c s)
  obtain u us where u: "split_on sep s = u # us" by (metis list.exhaust split_on_ne)
  with Cons show ?case by (auto split: if_splits)
qed simp

section \<open>Names\<close>

text \<open>The characters no name may have, with the text the error shows for each.\<close>

definition bad_characters :: "(char \<times> string) list" where
  "bad_characters =
     [(CHR ''.'', ''.''), (CHR ''*'', ''*''), (CHR ''>'', ''>''), (CHR ''/'', ''/''),
      (CHR 0x5C, [CHR 0x5C]), (CHR '' '', '' ''), (CHR 0x09, [CHR 0x5C, CHR ''t'']),
      (CHR 0x0A, [CHR 0x5C, CHR ''n'']), (CHR 0x0D, [CHR 0x5C, CHR ''r''])]"

definition minValidation :: "string \<Rightarrow> string \<Rightarrow> js_error + string" where
  "minValidation context name =
     (if name = [] then Inl (Plain_Error (context @ '' name required''))
      else case List.find (\<lambda>(c, v). index_of c name \<noteq> None) bad_characters of
             Some (c, v) \<Rightarrow>
               Inl (Plain_Error (''invalid '' @ context @ '' name - '' @ context
                 @ '' name cannot contain '' @ quoted v))
           | None \<Rightarrow> Inr [])"

definition validateDurableName :: "string \<Rightarrow> js_error + string" where
  "validateDurableName name = minValidation ''durable'' name"

definition validateStreamName :: "string \<Rightarrow> js_error + string" where
  "validateStreamName name = minValidation ''stream'' name"

text \<open>The word characters of regular expressions, and those of \<open>[-\<close>, \<open>w]\<close>.\<close>

definition word_char :: "char \<Rightarrow> bool" where
  "word_char c \<longleftrightarrow> (let n = char_code c in
     (48 \<le> n \<and> n \<le> 57) \<or> (65 \<le> n \<and> n \<le> 90) \<or> n = 95 \<or> (97 \<le> n \<and> n \<le> 122))"

definition name_char :: "char \<Rightarrow> bool" where
  "name_char c \<longleftrightarrow> word_char c \<or> c = CHR ''-''"

text \<open>The element of \<open>split("")\<close> that starts at the first character: a character beyond the
  basic plane is split into surrogates, and half of one is shown as the replacement
  character.\<close>

definition first_unit :: "string \<Rightarrow> string" where
  "first_unit s =
     (case s of [] \<Rightarrow> []
      | c # r \<Rightarrow> if 240 \<le> char_code c then [CHR 0xEF, CHR 0xBF, CHR 0xBD]
                else c # takeWhile (\<lambda>d. 128 \<le> char_code d \<and> char_code d < 192) r)"

definition validName :: "string \<Rightarrow> js_error + string" where
  "validName name =
     (if name = [] then Inl (Plain_Error ''name required'')
      else if list_all name_char name then Inr []
      else Inr (''cannot contain '' @ quoted (first_unit (dropWhile name_char name))))"

definition validateName :: "string \<Rightarrow> string \<Rightarrow> js_error + unit" where
  "validateName context name =
     (if name = [] then Inl (Plain_Error (context @ '' name required''))
      else rbind (validName name) (\<lambda>m.
        if length m \<noteq> 0
        then Inl (Plain_Error (''invalid '' @ context @ '' name - '' @ context @ '' name '' @ m))
        else Inr ()))"

section \<open>Status messages\<close>

definition isFlowControlMsg :: "nats_msg \<Rightarrow> js_error + bool" where
  "isFlowControlMsg m =
     (if length (msg_data m) > 0 then Inr False
      else rbind (msg_headers m) (\<lambda>h. case h of
             None \<Rightarrow> Inr False
           | Some hs \<Rightarrow> Inr (hd_code hs \<ge> 100 \<and> hd_code hs < 200)))"

definition isHeartbeatMsg :: "nats_msg \<Rightarrow> js_error + bool" where
  "isHeartbeatMsg m = rbind (isFlowControlMsg m) (\<lambda>f.
     if \<not> f then Inr False
     else rbind (msg_headers m) (\<lambda>h. Inr (case h of
            Some hs \<Rightarrow> hd_description hs = ''Idle Heartbeat'' | None \<Rightarrow> False)))"

text \<open>\<open>newJsErrorMsg\<close> makes a message that was not received: its headers and its subject are
  set, its payload is empty.\<close>

record local_msg =
  lm_headers :: msg_hdrs
  lm_subject :: string
  lm_data :: bytes

definition newJsErrorMsg :: "int \<Rightarrow> string \<Rightarrow> string \<Rightarrow> js_error + local_msg" where
  "newJsErrorMsg code description subj =
     rbind (headers_fn code description) (\<lambda>h.
       Inr \<lparr>lm_headers = h, lm_subject = subj, lm_data = []\<rparr>)"

section \<open>Errors in a status\<close>

definition idle_heartbeats_missed :: string where
  "idle_heartbeats_missed = ''idle heartbeats missed''"

definition max_waiting_exceeded :: string where
  "max_waiting_exceeded = ''exceeded maxwaiting''"

definition fatal_409 :: "string list" where
  "fatal_409 = [''exceeded maxrequestbatch of'', ''exceeded maxrequestexpires of'',
     ''exceeded maxrequestmaxbytes of'', ''message size exceeds maxbytes'',
     ''consumer is push based'', idle_heartbeats_missed, ''consumer deleted'']"

text \<open>The flag is \<open>MAX_WAITING_FAIL\<close>, which \<open>setMaxWaitingToFail\<close> sets.\<close>

definition isTerminal409 :: "bool \<Rightarrow> js_error \<Rightarrow> bool" where
  "isTerminal409 max_waiting_fail err =
     (if \<not> has_code err EC_JetStream409 then False
      else list_ex (\<lambda>s. contains s (err_message err))
             (fatal_409 @ (if max_waiting_fail then [max_waiting_exceeded] else [])))"

definition checkJsErrorCode :: "int \<Rightarrow> string \<Rightarrow> js_error option" where
  "checkJsErrorCode code descr =
     (if code < 300 then None
      else let d = to_lower descr in
        if code = 404 then Some (nats_error d (code_string EC_JetStream404NoMessages) None)
        else if code = 408 then Some (nats_error d (code_string EC_JetStream408RequestTimeout) None)
        else if code = 409
        then Some (nats_error d (code_string (if starts_with idle_heartbeats_missed d
               then EC_JetStreamIdleHeartBeat else EC_JetStream409)) None)
        else if code = 503 then Some (error_for_code EC_JetStreamNotEnabled (Some (Plain_Error d)))
        else Some (nats_error (if d = [] then code_string EC_Unknown else d) (show_int code) None))"

definition checkJsError :: "nats_msg \<Rightarrow> js_error + js_error option" where
  "checkJsError m =
     (if length (msg_data m) \<noteq> 0 then Inr None
      else rbind (msg_headers m) (\<lambda>h. case h of
             None \<Rightarrow> Inr None
           | Some hs \<Rightarrow> Inr (checkJsErrorCode (hd_code hs) (hd_description hs))))"

section \<open>What they decide\<close>

lemma minValidation_ok:
  "minValidation context name = Inr [] \<longleftrightarrow> name \<noteq> [] \<and> (\<forall>c \<in> set name. c \<notin> fst ` set bad_characters)"
proof (cases "List.find (\<lambda>(c, v). index_of c name \<noteq> None) bad_characters")
  case None
  then have "\<forall>c \<in> set name. c \<notin> fst ` set bad_characters" by (force simp: find_None_iff index_of_None)
  moreover have "minValidation context name = Inr [] \<longleftrightarrow> name \<noteq> []"
    using None by (simp add: minValidation_def)
  ultimately show ?thesis by simp
next
  case (Some e)
  then have "e \<in> set bad_characters" by (metis find_Some_iff nth_mem)
  moreover have "fst e \<in> set name" using Some by (auto simp: find_Some_iff index_of_None)
  ultimately show ?thesis using Some by (force simp: minValidation_def split: prod.split)
qed

lemma minValidation_cases: "(\<exists>e. minValidation context name = Inl e) \<or> minValidation context name = Inr []"
  by (auto simp: minValidation_def split: option.split)

lemma validName_ok: "validName name = Inr [] \<longleftrightarrow> name \<noteq> [] \<and> (\<forall>c \<in> set name. name_char c)"
  by (simp add: validName_def list_all_iff)

lemma name_char_not_bad: "name_char c \<Longrightarrow> c \<notin> fst ` set bad_characters"
  by (auto simp: bad_characters_def name_char_def word_char_def char_code_def Let_def)


lemma validateName_ok: "validateName context name = Inr () \<longleftrightarrow> name \<noteq> [] \<and> (\<forall>c \<in> set name. name_char c)"
  by (cases "name = []") (auto simp: validateName_def validName_def list_all_iff quoted_def)

text \<open>
  The strict check accepts exactly the non-empty names of word characters and dashes; the
  check used for streams and consumers accepts every such name; and a name with a dot or a
  wildcard, which would change the meaning of a subject, is accepted by neither.
\<close>
theorem names_are_checked:
  "(validateName ctx n = Inr () \<longleftrightarrow> n \<noteq> [] \<and> (\<forall>c \<in> set n. name_char c))
   \<and> (validateName ctx n = Inr () \<longrightarrow> minValidation ctx n = Inr [])
   \<and> (minValidation ctx n = Inr [] \<longrightarrow> set n \<inter> {CHR ''.'', CHR ''*'', CHR ''>'', CHR '' ''} = {})"
proof -
  have "{CHR ''.'', CHR ''*'', CHR ''>'', CHR '' ''} \<subseteq> fst ` set bad_characters"
    by (simp add: bad_characters_def)
  then show ?thesis
    using name_char_not_bad by (auto simp: validateName_ok minValidation_ok)
qed

theorem names_are_checked_witness:
  "validateName ''stream'' ''my-stream_1'' = Inr () \<and> minValidation ''stream'' ''my-stream_1'' = Inr []
   \<and> (\<exists>e. minValidation ''stream'' ''a.b'' = Inl e)"
proof -
  have "validateName ''stream'' ''my-stream_1'' = Inr ()"
    by (simp add: validateName_ok name_char_def word_char_def char_code_def)
  moreover have "\<exists>e. minValidation ''stream'' ''a.b'' = Inl e"
  proof -
    have "set ''a.b'' \<inter> {CHR ''.'', CHR ''*'', CHR ''>'', CHR '' ''} \<noteq> {}" by simp
    then have "minValidation ''stream'' ''a.b'' \<noteq> Inr []"
      using names_are_checked [of "''stream''" "''a.b''"] by (metis (lifting))
    then show ?thesis using minValidation_cases [of "''stream''" "''a.b''"] by metis
  qed
  moreover have "minValidation ''stream'' ''my-stream_1'' = Inr []"
    using names_are_checked [of "''stream''" "''my-stream_1''"] calculation(1) by (metis (lifting))
  ultimately show ?thesis by (intro conjI)
qed

text \<open>A status is an error exactly from 300 on, and of the conflicts those are terminal that
  the server does not resolve by itself; a missed heartbeat has its own code.\<close>

lemma status_is_error: "checkJsErrorCode c d = None \<longleftrightarrow> c < 300"
  by (simp add: checkJsErrorCode_def Let_def del: code_string.simps)

lemma conflict_error:
  "checkJsErrorCode 409 d = Some (nats_error (to_lower d)
     (code_string (if starts_with idle_heartbeats_missed (to_lower d)
        then EC_JetStreamIdleHeartBeat else EC_JetStream409)) None)"
  by (simp add: checkJsErrorCode_def Let_def del: code_string.simps)

lemma terminal_conflict:
  "isTerminal409 f (nats_error m (code_string c) None) \<longleftrightarrow> code_string c = code_string EC_JetStream409
     \<and> (list_ex (\<lambda>s. contains s m) fatal_409 \<or> f \<and> contains max_waiting_exceeded m)"
proof (cases "code_string c = code_string EC_JetStream409")
  case True
  then have "has_code (nats_error m (code_string c) None) EC_JetStream409"
    by (simp add: has_code_def)
  then show ?thesis using True by (cases f) (simp_all add: isTerminal409_def nats_error_def)
next
  case False
  then show ?thesis by (simp add: isTerminal409_def has_code_def)
qed

end
