(* ===== verification/Js_Api.thy ===== *)
theory Js_Api
  imports Js_Util Semver Util
begin

text \<open>
  Requests to the JetStream API: the JSON values that travel, \<open>JSONCodec\<close> of
  \<open>nats-base-client/codec.ts\<close>, the base client of \<open>jetstream/jsbaseclient_api.ts\<close> and the
  paged lists of \<open>jetstream/jslister.ts\<close>. The request of the connection, the clock and
  the texts of JSON values are arguments: a request changes the world \<open>'w\<close> and gives a
  message or an error.
\<close>

section \<open>JSON values\<close>

datatype json = J_Null | J_Bool bool | J_Num int | J_Str string | J_Arr "json list"
  | J_Obj "(string \<times> json) list"

text \<open>A property of a value; an absent one is \<open>undefined\<close>, \<open>None\<close>, and reading from
  \<open>null\<close> throws.\<close>

definition member :: "string \<Rightarrow> json \<Rightarrow> js_error + json option" where
  "member k j = (case j of J_Null \<Rightarrow> Inl (Plain_Error ''Cannot read properties of null'')
     | J_Obj m \<Rightarrow> Inr (map_of m k) | _ \<Rightarrow> Inr None)"

definition truthy :: "json option \<Rightarrow> bool" where
  "truthy v = (case v of None \<Rightarrow> False | Some J_Null \<Rightarrow> False | Some (J_Bool b) \<Rightarrow> b
     | Some (J_Num n) \<Rightarrow> n \<noteq> 0 | Some (J_Str s) \<Rightarrow> s \<noteq> [] | Some x \<Rightarrow> True)"

text \<open>\<open>v?.length || 0\<close>, and a value in a comparison with a number (\<open>None\<close> is \<open>NaN\<close>).\<close>

definition length_or_zero :: "json option \<Rightarrow> nat" where
  "length_or_zero v = (case v of Some (J_Arr xs) \<Rightarrow> length xs | Some (J_Str s) \<Rightarrow> length s | _ \<Rightarrow> 0)"

definition number_of :: "json option \<Rightarrow> int option" where
  "number_of v = (case v of Some (J_Num n) \<Rightarrow> Some n | Some J_Null \<Rightarrow> Some 0
     | Some (J_Bool b) \<Rightarrow> Some (if b then 1 else 0) | _ \<Rightarrow> None)"

definition text_or_empty :: "json option \<Rightarrow> string" where
  "text_or_empty v = (case v of Some (J_Str s) \<Rightarrow> s | _ \<Rightarrow> [])"

definition assign :: "json \<Rightarrow> json \<Rightarrow> json" where
  "assign a b = (case (a, b) of (J_Obj m, J_Obj n) \<Rightarrow> J_Obj (js_extend m [n]) | _ \<Rightarrow> a)"

record 'w api_env =
  ae_request :: "string \<Rightarrow> bytes \<Rightarrow> msg_hdrs option \<Rightarrow> int \<Rightarrow> 'w \<Rightarrow> 'w \<times> (js_error + nats_msg)"
  ae_delay :: "nat \<Rightarrow> 'w \<Rightarrow> 'w"
  ae_stringify :: "json \<Rightarrow> string"
  ae_parse :: "string \<Rightarrow> js_error + json"

definition json_encode :: "'w api_env \<Rightarrow> json option \<Rightarrow> bytes" where
  "json_encode E d = te_encode (ae_stringify E (case d of None \<Rightarrow> J_Null | Some j \<Rightarrow> j))"

definition json_decode :: "'w api_env \<Rightarrow> bytes \<Rightarrow> js_error + json" where
  "json_decode E a =
     (case ae_parse E (td_decode a) of
        Inl err \<Rightarrow> Inl (error_for_code EC_BadJson (Some err))
      | Inr v \<Rightarrow> Inr v)"

section \<open>The base client\<close>

record js_options =
  jo_apiPrefix :: "string option"
  jo_timeout :: "int option"
  jo_domain :: "string option"

definition defaultJsOptions :: "js_options \<Rightarrow> js_options" where
  "defaultJsOptions opts0 =
     (let opts = (case jo_domain opts0 of
                    Some d \<Rightarrow> if d \<noteq> []
                              then opts0\<lparr>jo_apiPrefix := Some (''$JS.'' @ d @ ''.API''), jo_domain := None\<rparr>
                              else opts0
                  | None \<Rightarrow> opts0)
      in opts\<lparr>jo_apiPrefix := Some (case jo_apiPrefix opts of Some p \<Rightarrow> p | None \<Rightarrow> ''$JS.API''),
              jo_timeout := Some (case jo_timeout opts of Some t \<Rightarrow> t | None \<Rightarrow> 5000)\<rparr>)"

definition parseOpts :: "js_options \<Rightarrow> js_error + js_options" where
  "parseOpts opts =
     (case jo_apiPrefix opts of
        None \<Rightarrow> Inl (Plain_Error ''invalid empty prefix'')
      | Some p \<Rightarrow>
          if p = [] then Inl (Plain_Error ''invalid empty prefix'')
          else Inr (opts\<lparr>jo_apiPrefix := Some (if last p = CHR ''.'' then butlast p else p)\<rparr>))"

record api =
  ap_prefix :: string
  ap_timeout :: int
  ap_features :: features

definition new_api :: "features \<Rightarrow> js_options \<Rightarrow> js_error + api" where
  "new_api fs opts =
     rbind (parseOpts (defaultJsOptions opts)) (\<lambda>o1.
       Inr \<lparr>ap_prefix = the (jo_apiPrefix o1), ap_timeout = the (jo_timeout o1), ap_features = fs\<rparr>)"

text \<open>The error object of a response carries a code and a description as declared; when the
  code is absent the error has the code \<open>undefined\<close>.\<close>

definition with_api_error :: "api_error \<Rightarrow> js_error \<Rightarrow> js_error" where
  "with_api_error a e =
     (case e of Nats_Error m c p ch x \<Rightarrow> Nats_Error m c p ch (Some a) | Plain_Error m \<Rightarrow> Plain_Error m)"

definition parseJsResponse :: "'w api_env \<Rightarrow> nats_msg \<Rightarrow> js_error + json" where
  "parseJsResponse E m =
     rbind (json_decode E (msg_data m)) (\<lambda>v.
       rbind (member ''error'' v) (\<lambda>err.
         if truthy err
         then rbind (member ''code'' (the err)) (\<lambda>code. rbind (member ''description'' (the err)) (\<lambda>descr.
                rbind (member ''err_code'' (the err)) (\<lambda>errc.
                  let d = text_or_empty descr in
                  case number_of code of
                    None \<Rightarrow> Inl (nats_error (if to_lower d = [] then code_string EC_Unknown else to_lower d)
                                  ''undefined'' None)
                  | Some c \<Rightarrow>
                      (case checkJsErrorCode c d of
                         Some e \<Rightarrow> Inl (with_api_error
                           \<lparr>api_code = c, api_description = d, api_err_code = number_of errc\<rparr> e)
                       | None \<Rightarrow> Inr v))))
         else Inr v))"

definition retryable :: "js_error \<Rightarrow> bool" where
  "retryable e \<longleftrightarrow> is_nats_error e \<and> (err_code e = ''503'' \<or> err_code e = code_string EC_Timeout)"

definition attempt :: "'w api_env \<Rightarrow> api \<Rightarrow> string \<Rightarrow> bytes \<Rightarrow> 'w \<Rightarrow> 'w \<times> (js_error + json)" where
  "attempt E A subj a w =
     (let (w1, res) = ae_request E subj a None (ap_timeout A) w in (w1, rbind res (parseJsResponse E)))"

function request_loop ::
  "'w api_env \<Rightarrow> api \<Rightarrow> string \<Rightarrow> bytes \<Rightarrow> int \<Rightarrow> nat \<Rightarrow> 'w \<Rightarrow> 'w \<times> (js_error + json option)" where
  "request_loop E A subj a retries i w =
     (if int i < retries
      then (case attempt E A subj a w of
              (w1, Inr v) \<Rightarrow> (w1, Inr (Some v))
            | (w1, Inl e) \<Rightarrow>
                if retryable e \<and> int i + 1 < retries
                then request_loop E A subj a retries (Suc i) (ae_delay E i w1)
                else (w1, Inl e))
      else (w, Inr None))"
  by pat_completeness auto
termination
  by (relation "measure (\<lambda>(E, A, subj, a, retries, i, w). nat (retries - int i))") auto

declare request_loop.simps [simp del]

definition api_request ::
  "'w api_env \<Rightarrow> api \<Rightarrow> string \<Rightarrow> json option \<Rightarrow> int \<Rightarrow> 'w \<Rightarrow> 'w \<times> (js_error + json option)" where
  "api_request E A subj data retries w =
     (let a = (if truthy data then json_encode E data else []);
          r1 = (if retries = 0 then 1 else retries);
          r2 = (if r1 = - 1 then 2 ^ 53 - 1 else r1)
      in request_loop E A subj a r2 0 w)"

definition findStream :: "'w api_env \<Rightarrow> api \<Rightarrow> string \<Rightarrow> 'w \<Rightarrow> 'w \<times> (js_error + json)" where
  "findStream E A subj w =
     (let (w1, res) = api_request E A (ap_prefix A @ ''.STREAM.NAMES'')
            (Some (J_Obj [(''subject'', J_Str subj)])) 0 w
      in (w1, rbind res (\<lambda>r. rbind (member ''streams'' (the r)) (\<lambda>names.
           case names of
             Some (J_Arr [x]) \<Rightarrow> Inr x
           | Some (J_Str [c]) \<Rightarrow> Inr (J_Str [c])
           | _ \<Rightarrow> Inl (Plain_Error ''no stream matches subject'')))))"

section \<open>Paged lists\<close>

record lister =
  ls_err :: "js_error option"
  ls_offset :: nat
  ls_pageInfo :: json
  ls_subject :: string
  ls_payload :: json

definition new_lister :: "string \<Rightarrow> json option \<Rightarrow> js_error + lister" where
  "new_lister subj payload =
     (if subj = [] then Inl (Plain_Error ''subject is required'')
      else Inr \<lparr>ls_err = None, ls_offset = 0, ls_pageInfo = J_Obj [], ls_subject = subj,
                ls_payload = (if truthy payload then the payload else J_Obj [])\<rparr>)"

definition countResponse :: "json \<Rightarrow> nat" where
  "countResponse r =
     (let get = (\<lambda>k. case member k r of Inr v \<Rightarrow> v | Inl e \<Rightarrow> None) in
      if get ''type'' = Some (J_Str ''io.nats.jetstream.api.v1.consumer_list_response'')
      then length_or_zero (get ''consumers'')
      else length_or_zero (get ''streams''))"

definition lister_next ::
  "'w api_env \<Rightarrow> api \<Rightarrow> (json \<Rightarrow> js_error + 'a list) \<Rightarrow> lister \<Rightarrow> 'w
    \<Rightarrow> 'w \<times> lister \<times> (js_error + 'a list)" where
  "lister_next E A flt l w =
     (if ls_err l \<noteq> None then (w, l, Inr [])
      else case rbind (member ''total'' (ls_pageInfo l)) (\<lambda>t. Inr (number_of t)) of
        Inl e \<Rightarrow> (w, l, Inl e)
      | Inr tot \<Rightarrow>
          if (case tot of Some t \<Rightarrow> int (ls_offset l) \<ge> t | None \<Rightarrow> False) then (w, l, Inr [])
          else
            let offset = assign (J_Obj [(''offset'', J_Num (int (ls_offset l)))]) (ls_payload l) in
            (case api_request E A (ls_subject l) (Some offset) 0 w of
               (w1, Inl e) \<Rightarrow> (w1, l\<lparr>ls_err := Some e\<rparr>, Inl e)
             | (w1, Inr r) \<Rightarrow>
                 let l1 = l\<lparr>ls_pageInfo := the r\<rparr>; count = countResponse (the r) in
                 if count = 0 then (w1, l1, Inr [])
                 else let l2 = l1\<lparr>ls_offset := ls_offset l1 + count\<rparr> in
                   (case flt (the r) of
                      Inl e \<Rightarrow> (w1, l2\<lparr>ls_err := Some e\<rparr>, Inl e)
                    | Inr page \<Rightarrow> (w1, l2, Inr page))))"

text \<open>The iterator, for a consumer that takes everything: the items it yields and the error
  it ends with. It may run for ever, then the value is \<open>None\<close>.\<close>

partial_function (option) lister_all ::
  "'w api_env \<Rightarrow> api \<Rightarrow> (json \<Rightarrow> js_error + 'a list) \<Rightarrow> 'a list \<Rightarrow> lister \<Rightarrow> 'w
    \<Rightarrow> ('w \<times> lister \<times> 'a list \<times> js_error option) option" where
  "lister_all E A flt acc l w =
     (case lister_next E A flt l w of
        (w1, l1, Inl e) \<Rightarrow> Some (w1, l1, acc, Some e)
      | (w1, l1, Inr page) \<Rightarrow>
          if length page > 0 then lister_all E A flt (acc @ page) l1 w1
          else Some (w1, l1, acc, None))"


section \<open>Retries\<close>

text \<open>The world before attempt \<open>k\<close> when every earlier one was repeated, with \<open>i\<close> the number
  of the first.\<close>

fun before_attempt :: "'w api_env \<Rightarrow> api \<Rightarrow> string \<Rightarrow> bytes \<Rightarrow> nat \<Rightarrow> nat \<Rightarrow> 'w \<Rightarrow> 'w" where
  "before_attempt E A subj a i 0 w = w"
| "before_attempt E A subj a i (Suc k) w =
     before_attempt E A subj a (Suc i) k (ae_delay E i (fst (attempt E A subj a w)))"

definition again :: "js_error + json \<Rightarrow> bool" where
  "again r = (case r of Inl e \<Rightarrow> retryable e | Inr v \<Rightarrow> False)"

lemma request_loop_outcome:
  assumes "int i < n"
  shows "\<exists>k. int (i + k) < n
    \<and> (\<forall>j < k. again (snd (attempt E A subj a (before_attempt E A subj a i j w))))
    \<and> (int (i + k) + 1 < n \<longrightarrow> \<not> again (snd (attempt E A subj a (before_attempt E A subj a i k w))))
    \<and> request_loop E A subj a n i w = apsnd (map_sum id Some) (attempt E A subj a (before_attempt E A subj a i k w))"
  using assms
proof (induction "nat (n - int i)" arbitrary: i w rule: less_induct)
  case less
  obtain w1 res where at: "attempt E A subj a w = (w1, res)" by fastforce
  show ?case
  proof (cases "again res \<and> int i + 1 < n")
    case False
    then have "request_loop E A subj a n i w = apsnd (map_sum id Some) (w1, res)"
      using less.prems at by (cases res) (auto simp: request_loop.simps [of E A subj a n i w] again_def)
    then show ?thesis using False less.prems at by (intro exI [of _ 0]) auto
  next
    case True
    then have "request_loop E A subj a n i w = request_loop E A subj a n (Suc i) (ae_delay E i w1)"
      using less.prems at by (cases res) (auto simp: request_loop.simps [of E A subj a n i w] again_def)
    moreover obtain k where k: "int (Suc i + k) < n"
        "\<forall>j < k. again (snd (attempt E A subj a (before_attempt E A subj a (Suc i) j (ae_delay E i w1))))"
        "int (Suc i + k) + 1 < n \<longrightarrow>
           \<not> again (snd (attempt E A subj a (before_attempt E A subj a (Suc i) k (ae_delay E i w1))))"
        "request_loop E A subj a n (Suc i) (ae_delay E i w1) =
          apsnd (map_sum id Some) (attempt E A subj a (before_attempt E A subj a (Suc i) k (ae_delay E i w1)))"
      using less.hyps [of "Suc i" "ae_delay E i w1"] True by auto
    moreover have "\<forall>j < Suc k. again (snd (attempt E A subj a (before_attempt E A subj a i j w)))"
      using k(2) True at by (auto simp: less_Suc_eq_0_disj)
    ultimately show ?thesis using at by (intro exI [of _ "Suc k"]) auto
  qed
qed

text \<open>
  A request to the API is sent until an attempt succeeds, an attempt fails with an
  error other than a timeout or a missing responder, or the attempts are used up; the result
  is the outcome of the last attempt. There is one attempt unless more are asked for.
\<close>
theorem api_request_is_retried:
  fixes E :: "'w api_env" and d :: "json option" and retries :: int
  assumes "retries \<ge> - 1"
  defines "n \<equiv> if retries = 0 then 1 else if retries = - 1 then 2 ^ 53 - 1 else retries"
  defines "a \<equiv> if truthy d then json_encode E d else []"
  shows "\<exists>k. int k < n
    \<and> (\<forall>j < k. again (snd (attempt E A subj a (before_attempt E A subj a 0 j w))))
    \<and> (int k + 1 < n \<longrightarrow> \<not> again (snd (attempt E A subj a (before_attempt E A subj a 0 k w))))
    \<and> api_request E A subj d retries w = apsnd (map_sum id Some) (attempt E A subj a (before_attempt E A subj a 0 k w))"
proof -
  have "int 0 < n" using assms(1) by (simp add: n_def)
  moreover have "api_request E A subj d retries w = request_loop E A subj a n 0 w"
    by (simp add: api_request_def a_def n_def Let_def)
  ultimately show ?thesis using request_loop_outcome [of 0 n E A subj a w] by simp
qed

text \<open>A server that answers from the third request on.\<close>

definition flaky_env :: "nat api_env" where
  "flaky_env = \<lparr>ae_request = (\<lambda>s b h t w. (Suc w, if w < 2 then Inl (error_for_code EC_Timeout None)
      else Inr (new_msg newMsgArg (te_encode ''x'')))),
    ae_delay = (\<lambda>i w. w), ae_stringify = (\<lambda>j. ''''), ae_parse = (\<lambda>s. Inr (J_Obj []))\<rparr>"

definition flaky_api :: api where
  "flaky_api = \<lparr>ap_prefix = ''$JS.API'', ap_timeout = 5000,
     ap_features = \<lparr>ft_server = SemVer 2 10 0, ft_features = [], ft_disabled = []\<rparr>\<rparr>"

lemma flaky_attempt:
  "attempt flaky_env flaky_api s a w = (Suc w, if w < 2 then Inl (error_for_code EC_Timeout None) else Inr (J_Obj []))"
  by (simp add: attempt_def flaky_env_def parseJsResponse_def json_decode_def member_def truthy_def)

theorem api_request_is_retried_witness:
  "snd (api_request flaky_env flaky_api ''s'' None 5 0) = Inr (Some (J_Obj []))"
proof -
  have again: "again (Inl (error_for_code EC_Timeout None))" "\<not> again (Inr v)" for v
    by (simp_all add: again_def retryable_def error_for_code_def)
  have bf: "before_attempt flaky_env flaky_api ''s'' [] i j w = w + j" for i j w
    by (induction j arbitrary: i w) (simp_all add: flaky_attempt, simp add: flaky_env_def)
  obtain k where k: "k < 5" "\<forall>j < k. again (snd (attempt flaky_env flaky_api ''s'' [] j))"
      "k + 1 < 5 \<longrightarrow> \<not> again (snd (attempt flaky_env flaky_api ''s'' [] k))"
      "api_request flaky_env flaky_api ''s'' None 5 0 = apsnd (map_sum id Some) (attempt flaky_env flaky_api ''s'' [] k)"
    using api_request_is_retried [where retries = 5 and d = None and E = flaky_env
      and A = flaky_api and subj = "''s''" and w = 0] by (auto simp: bf truthy_def)
  have "\<not> k < 2" using k(3) again by (auto simp: flaky_attempt)
  then show ?thesis by (simp add: k(4) flaky_attempt)
qed


section \<open>Lists from a server that pages\<close>

definition page_json :: "string \<Rightarrow> string \<Rightarrow> nat \<Rightarrow> json list \<Rightarrow> nat \<Rightarrow> json" where
  "page_json typ fld limit items off =
     J_Obj [(''type'', J_Str typ), (''total'', J_Num (int (length items))), (''offset'', J_Num (int off)),
            (''limit'', J_Num (int limit)), (fld, J_Arr (take limit (drop off items)))]"

text \<open>The documented behaviour of a paged API: the answer to an offset is the page that
  starts there, and the list does not change in between.\<close>

definition serves_pages ::
  "'w api_env \<Rightarrow> api \<Rightarrow> string \<Rightarrow> string \<Rightarrow> string \<Rightarrow> nat \<Rightarrow> json list \<Rightarrow> 'w \<Rightarrow> bool" where
  "serves_pages E A subj typ fld limit items w \<longleftrightarrow>
     (\<forall>off. api_request E A subj (Some (J_Obj [(''offset'', J_Num (int off))])) 0 w =
        (w, Inr (Some (page_json typ fld limit items off))))"

text \<open>The two kinds of list and the field each keeps its entries in.\<close>

definition page_field :: "string \<Rightarrow> string \<Rightarrow> bool" where
  "page_field typ fld \<longleftrightarrow>
     (if typ = ''io.nats.jetstream.api.v1.consumer_list_response'' then fld = ''consumers''
      else fld = ''streams'')"

function pages :: "nat \<Rightarrow> 'a list \<Rightarrow> 'a list list" where
  "pages limit xs = (if limit = 0 \<or> xs = [] then [] else take limit xs # pages limit (drop limit xs))"
  by pat_completeness auto
termination
  by (relation "measure (\<lambda>(limit, xs). length xs)") auto

declare pages.simps [simp del]

lemma pages_Nil [simp]: "pages limit [] = []"
  by (simp add: pages.simps)

lemma concat_pages: "0 < limit \<Longrightarrow> concat (pages limit xs) = xs"
proof (induction limit xs rule: pages.induct)
  case (1 limit xs)
  then show ?case by (cases "xs = []") (simp_all add: pages.simps)
qed

lemma pages_nonempty: "p \<in> set (pages limit xs) \<Longrightarrow> p \<noteq> []"
proof (induction limit xs rule: pages.induct)
  case (1 limit xs)
  then show ?case by (cases "limit = 0 \<or> xs = []") (auto simp: pages.simps [of limit xs])
qed

lemma page_fields [simp]:
  assumes "page_field typ fld"
  shows "member ''total'' (page_json typ fld limit items off) = Inr (Some (J_Num (int (length items))))"
    "countResponse (page_json typ fld limit items off) = min limit (length items - off)"
    "member fld (page_json typ fld limit items off) = Inr (Some (J_Arr (take limit (drop off items))))"
  using assms
  by (auto simp: page_json_def member_def countResponse_def page_field_def length_or_zero_def Let_def split: if_splits)

lemma assign_nothing [simp]: "assign (J_Obj m) (J_Obj []) = J_Obj m"
  by (simp add: assign_def js_extend_def)

text \<open>A lister that has taken the first \<open>off\<close> entries.\<close>

definition listed :: "string \<Rightarrow> nat \<Rightarrow> json \<Rightarrow> lister" where
  "listed subj off info = \<lparr>ls_err = None, ls_offset = off, ls_pageInfo = info, ls_subject = subj,
     ls_payload = J_Obj []\<rparr>"

lemma listed_next_end:
  assumes "page_field typ fld" "length items \<le> off"
  shows "lister_next E A flt (listed subj off (page_json typ fld limit items k)) w =
    (w, listed subj off (page_json typ fld limit items k), Inr [])"
  using assms by (simp add: lister_next_def listed_def number_of_def)

lemma listed_next_page:
  assumes "serves_pages E A subj typ fld limit items w" "page_field typ fld" "0 < limit"
    "off < length items" "info = J_Obj [] \<or> (\<exists>k. info = page_json typ fld limit items k)"
    "flt (page_json typ fld limit items off) = Inr page"
  shows "lister_next E A flt (listed subj off info) w =
    (w, listed subj (off + min limit (length items - off)) (page_json typ fld limit items off), Inr page)"
proof -
  have "(case member ''total'' info of Inr v \<Rightarrow> (case number_of v of Some t \<Rightarrow> \<not> int off \<ge> t | None \<Rightarrow> True)
      | Inl e \<Rightarrow> False)"
    using assms(5)
  proof
    assume "info = J_Obj []"
    then show ?thesis by (simp add: member_def number_of_def)
  next
    assume "\<exists>k. info = page_json typ fld limit items k"
    then show ?thesis using assms(2,4) by (auto simp: number_of_def)
  qed
  then show ?thesis
    using assms(1,2,3,4,6)
    by (auto simp: lister_next_def listed_def serves_pages_def Let_def min_def split: sum.splits option.splits)
qed

lemma listed_next_nothing:
  assumes "serves_pages E A subj typ fld limit [] w" "page_field typ fld"
  shows "\<exists>l. lister_next E A flt (listed subj 0 (J_Obj [])) w = (w, l, Inr [])"
proof -
  have "api_request E A subj (Some (J_Obj [(''offset'', J_Num 0)])) 0 w = (w, Inr (Some (page_json typ fld limit [] 0)))"
    using assms(1) by (auto simp: serves_pages_def dest: spec [of _ 0])
  then show ?thesis using assms(2) by (simp add: lister_next_def listed_def member_def number_of_def Let_def)
qed

lemma lister_all_rest:
  assumes "serves_pages E A subj typ fld limit items w" "page_field typ fld" "0 < limit"
    "\<And>off. flt (page_json typ fld limit items off) = Inr (sel (take limit (drop off items)))"
  shows "off < length items \<Longrightarrow> info = J_Obj [] \<or> (\<exists>k. info = page_json typ fld limit items k) \<Longrightarrow>
    \<exists>l. lister_all E A flt acc (listed subj off info) w =
      Some (w, l, acc @ concat (takeWhile (\<lambda>p. p \<noteq> []) (map sel (pages limit (drop off items)))), None)"
proof (induction "length items - off" arbitrary: off info acc rule: less_induct)
  case less
  let ?page = "sel (take limit (drop off items))"
  let ?off' = "off + min limit (length items - off)"
  let ?info' = "page_json typ fld limit items off"
  have nx: "lister_next E A flt (listed subj off info) w = (w, listed subj ?off' ?info', Inr ?page)"
    by (rule listed_next_page [OF assms(1,2,3) less.prems]) (rule assms(4))
  have pg: "pages limit (drop off items) = take limit (drop off items) # pages limit (drop (off + limit) items)"
    using less.prems(1) assms(3) by (simp add: pages.simps [of limit "drop off items"] add.commute)
  show ?case
  proof (cases "?page = []")
    case True
    then show ?thesis by (simp add: lister_all.simps [of E A flt acc] nx pg)
  next
    case False
    then have step: "lister_all E A flt acc (listed subj off info) w =
        lister_all E A flt (acc @ ?page) (listed subj ?off' ?info') w"
      by (simp add: lister_all.simps [of E A flt acc] nx)
    show ?thesis
    proof (cases "?off' < length items")
      case True
      then have off': "?off' = off + limit" by simp
      have "\<exists>l. lister_all E A flt (acc @ ?page) (listed subj ?off' ?info') w =
          Some (w, l, (acc @ ?page) @ concat (takeWhile (\<lambda>p. p \<noteq> []) (map sel (pages limit (drop ?off' items)))), None)"
        by (rule less.hyps) (use True assms(3) less.prems(1) in auto)
      then show ?thesis using False by (simp add: step pg off')
    next
      case last: False
      then have "lister_next E A flt (listed subj ?off' ?info') w = (w, listed subj ?off' ?info', Inr [])"
        by (intro listed_next_end [OF assms(2)]) simp
      then have "lister_all E A flt (acc @ ?page) (listed subj ?off' ?info') w =
          Some (w, listed subj ?off' ?info', acc @ ?page, None)"
        by (simp add: lister_all.simps [of E A flt "acc @ ?page"])
      moreover have "drop (off + limit) items = []" using last by simp
      ultimately show ?thesis using False by (simp add: step pg)
    qed
  qed
qed

lemma lister_all_pages:
  assumes "serves_pages E A subj typ fld limit items w" "page_field typ fld" "0 < limit"
    "\<And>off. flt (page_json typ fld limit items off) = Inr (sel (take limit (drop off items)))"
  shows "\<exists>l. lister_all E A flt [] (listed subj 0 (J_Obj [])) w =
    Some (w, l, concat (takeWhile (\<lambda>p. p \<noteq> []) (map sel (pages limit items))), None)"
proof (cases "items = []")
  case True
  then show ?thesis
    using listed_next_nothing [of E A subj "typ" fld limit w flt] assms(1,2)
    by (auto simp: lister_all.simps [of E A flt "[]"] pages.simps [of limit "[]"])
next
  case False
  then show ?thesis
    using lister_all_rest [where flt = flt and sel = sel and acc = "[]" and off = 0 and info = "J_Obj []",
        OF assms(1,2,3) assms(4)]
    by simp
qed

end
