(* ===== verification/Js_Manager.thy ===== *)
theory Js_Manager
  imports Js_Api Base64
begin

text \<open>
  Streams and consumers: \<open>jetstream/jsmconsumer_api.ts\<close> and \<open>jetstream/jsmstream_api.ts\<close>.
  Configurations, requests and responses are JSON values; an operation builds the subject and
  the request, and reads the response.
\<close>

section \<open>Reading configurations\<close>

definition fld :: "string \<Rightarrow> json \<Rightarrow> json option" where
  "fld k j = (case j of J_Obj m \<Rightarrow> map_of m k | _ \<Rightarrow> None)"

definition nullish :: "json option \<Rightarrow> bool" where
  "nullish v \<longleftrightarrow> v = None \<or> v = Some J_Null"

definition either :: "json option \<Rightarrow> json option \<Rightarrow> json option" where
  "either a b = (if nullish a then b else a)"

definition is_array :: "json option \<Rightarrow> bool" where
  "is_array v = (case v of Some (J_Arr xs) \<Rightarrow> True | _ \<Rightarrow> False)"

definition put_prop :: "string \<Rightarrow> json \<Rightarrow> json \<Rightarrow> json" where
  "put_prop k v j = (case j of J_Obj m \<Rightarrow> J_Obj (AList.update k v m) | _ \<Rightarrow> j)"

definition delete_prop :: "string \<Rightarrow> json \<Rightarrow> json" where
  "delete_prop k j = (case j of J_Obj m \<Rightarrow> J_Obj (AList.delete k m) | _ \<Rightarrow> j)"

definition throw :: "string \<Rightarrow> js_error + 'a" where
  "throw m = Inl (Plain_Error m)"

definition require :: "bool \<Rightarrow> string \<Rightarrow> js_error + unit" where
  "require ok m = (if ok then Inr () else throw m)"

text \<open>A configuration that sets something is refused when the server does not have the
  feature for it.\<close>

definition needs :: "api \<Rightarrow> bool \<Rightarrow> feature \<Rightarrow> string \<Rightarrow> js_error + unit" where
  "needs A used f what =
     (let v = feature_get f (ap_features A)
      in require (\<not> used \<or> fv_ok v) (what @ '' requires server '' @ fv_min v))"

section \<open>Consumers\<close>

definition massage_name_error :: "js_error + string \<Rightarrow> js_error + unit" where
  "massage_name_error r =
     (case r of
        Inr x \<Rightarrow> Inr ()
      | Inl e \<Rightarrow>
          (case index_of_string ''cannot contain'' (err_message e) of
             Some i \<Rightarrow> throw (''consumer '' @ quoted ''name'' @ '' '' @ drop i (err_message e))
           | None \<Rightarrow> Inl e))"

definition consumer_create_subject :: "api \<Rightarrow> string \<Rightarrow> json \<Rightarrow> js_error + string" where
  "consumer_create_subject A stream cfg =
     rbind (validateStreamName stream) (\<lambda>_.
     rbind (require (\<not> (truthy (fld ''deliver_group'' cfg) \<and> truthy (fld ''flow_control'' cfg)))
       ''jetstream flow control is not supported with queue groups'') (\<lambda>_.
     rbind (require (\<not> (truthy (fld ''deliver_group'' cfg) \<and> truthy (fld ''idle_heartbeat'' cfg)))
       ''jetstream idle heartbeat is not supported with queue groups'') (\<lambda>_.
     rbind (if truthy (fld ''durable_name'' cfg)
            then validateDurableName (text_or_empty (fld ''durable_name'' cfg)) else Inr []) (\<lambda>_.
     let newAPI = fv_ok (feature_get JS_NEW_CONSUMER_CREATE_API (ap_features A));
         nm = fld ''name'' cfg in
     rbind (needs A (truthy nm) JS_NEW_CONSUMER_CREATE_API (''consumer '' @ quoted ''name'')) (\<lambda>_.
     rbind (if truthy nm then massage_name_error (minValidation ''name'' (text_or_empty nm)) else Inr ()) (\<lambda>_.
     rbind (needs A (is_array (fld ''filter_subjects'' cfg)) JS_MULTIPLE_CONSUMER_FILTER
              (''consumer '' @ quoted ''filter_subjects'')) (\<lambda>_.
     rbind (needs A (truthy (fld ''metadata'' cfg)) JS_STREAM_CONSUMER_METADATA
              (''consumer '' @ quoted ''metadata'')) (\<lambda>_.
     let consumerName = (if newAPI \<and> \<not> is_array (fld ''filter_subjects'' cfg)
                         then text_or_empty (either nm (fld ''durable_name'' cfg)) else []);
         create = ap_prefix A @ ''.CONSUMER.CREATE.'' @ stream in
     Inr (if consumerName \<noteq> []
          then (let fs = fld ''filter_subject'' cfg in
                if nullish fs \<or> fs = Some (J_Str ''>'') then create @ ''.'' @ consumerName
                else create @ ''.'' @ consumerName @ ''.'' @ text_or_empty fs)
          else if truthy (fld ''durable_name'' cfg)
          then ap_prefix A @ ''.CONSUMER.DURABLE.CREATE.'' @ stream @ ''.''
               @ text_or_empty (fld ''durable_name'' cfg)
          else create)))))))))"

datatype consumer_action = Create_Or_Update | Update | Create

primrec action_string :: "consumer_action \<Rightarrow> string" where
  "action_string Create_Or_Update = ''''"
| "action_string Update = ''update''"
| "action_string Create = ''create''"

text \<open>\<open>requesting\<close> sends one request and gives its response; all clients ask for a single
  attempt.\<close>

definition requesting :: "'w api_env \<Rightarrow> api \<Rightarrow> string \<Rightarrow> json option \<Rightarrow> 'w \<Rightarrow> 'w \<times> (js_error + json)" where
  "requesting E A subj data w =
     (let (w1, res) = api_request E A subj data 0 w in (w1, rbind res (\<lambda>r. Inr (the r))))"

definition checked ::
  "js_error + 'a \<Rightarrow> ('a \<Rightarrow> 'w \<Rightarrow> 'w \<times> (js_error + 'b)) \<Rightarrow> 'w \<Rightarrow> 'w \<times> (js_error + 'b)" where
  "checked r f w = (case r of Inl e \<Rightarrow> (w, Inl e) | Inr x \<Rightarrow> f x w)"

definition and_then ::
  "'w \<times> (js_error + 'a) \<Rightarrow> ('a \<Rightarrow> 'w \<Rightarrow> 'w \<times> (js_error + 'b)) \<Rightarrow> 'w \<times> (js_error + 'b)" where
  "and_then r f = (case r of (w, Inl e) \<Rightarrow> (w, Inl e) | (w, Inr x) \<Rightarrow> f x w)"

definition consumer_add ::
  "'w api_env \<Rightarrow> api \<Rightarrow> string \<Rightarrow> json \<Rightarrow> consumer_action \<Rightarrow> 'w \<Rightarrow> 'w \<times> (js_error + json)" where
  "consumer_add E A stream cfg action =
     checked (consumer_create_subject A stream cfg) (\<lambda>subj.
       requesting E A subj (Some (J_Obj [(''config'', cfg), (''stream_name'', J_Str stream),
         (''action'', J_Str (action_string action))])))"

definition consumer_request ::
  "'w api_env \<Rightarrow> api \<Rightarrow> string \<Rightarrow> string \<Rightarrow> string \<Rightarrow> 'w \<Rightarrow> 'w \<times> (js_error + json)" where
  "consumer_request E A op stream name =
     checked (rbind (validateStreamName stream) (\<lambda>_. validateDurableName name)) (\<lambda>_.
       requesting E A (ap_prefix A @ ''.CONSUMER.'' @ op @ ''.'' @ stream @ ''.'' @ name) None)"

definition consumer_info :: "'w api_env \<Rightarrow> api \<Rightarrow> string \<Rightarrow> string \<Rightarrow> 'w \<Rightarrow> 'w \<times> (js_error + json)" where
  "consumer_info E A stream name = consumer_request E A ''INFO'' stream name"

definition response_success :: "json \<Rightarrow> js_error + json option" where
  "response_success r = member ''success'' r"

definition consumer_delete ::
  "'w api_env \<Rightarrow> api \<Rightarrow> string \<Rightarrow> string \<Rightarrow> 'w \<Rightarrow> 'w \<times> (js_error + json option)" where
  "consumer_delete E A stream name w =
     and_then (consumer_request E A ''DELETE'' stream name w) (\<lambda>r w. (w, response_success r))"

text \<open>The target of \<open>Object.assign\<close>.\<close>

definition object_of :: "json option \<Rightarrow> js_error + json" where
  "object_of v = (case v of Some (J_Obj m) \<Rightarrow> Inr (J_Obj m)
     | _ \<Rightarrow> throw ''Cannot convert undefined or null to object'')"

definition consumer_update ::
  "'w api_env \<Rightarrow> api \<Rightarrow> string \<Rightarrow> string \<Rightarrow> json \<Rightarrow> 'w \<Rightarrow> 'w \<times> (js_error + json)" where
  "consumer_update E A stream durable cfg w =
     and_then (consumer_info E A stream durable w) (\<lambda>ci.
       checked (rbind (member ''config'' ci) object_of) (\<lambda>old.
         consumer_add E A stream (assign old cfg) Update))"

definition array_of :: "json option \<Rightarrow> js_error + json list" where
  "array_of v = (case v of Some (J_Arr xs) \<Rightarrow> Inr xs | _ \<Rightarrow> throw ''not an array'')"

definition consumer_list :: "api \<Rightarrow> string \<Rightarrow> js_error + lister" where
  "consumer_list A stream =
     rbind (validateStreamName stream) (\<lambda>_. new_lister (ap_prefix A @ ''.CONSUMER.LIST.'' @ stream) None)"

definition consumer_filter :: "json \<Rightarrow> js_error + json list" where
  "consumer_filter v = rbind (member ''consumers'' v) array_of"

text \<open>The date is given by its text; \<open>resume\<close> pauses until the start of the epoch.\<close>

definition consumer_pause ::
  "'w api_env \<Rightarrow> api \<Rightarrow> string \<Rightarrow> string \<Rightarrow> string \<Rightarrow> 'w \<Rightarrow> 'w \<times> (js_error + json)" where
  "consumer_pause E A stream name until =
     requesting E A (ap_prefix A @ ''.CONSUMER.PAUSE.'' @ stream @ ''.'' @ name)
       (Some (J_Obj [(''pause_until'', J_Str until)]))"

definition consumer_resume :: "'w api_env \<Rightarrow> api \<Rightarrow> string \<Rightarrow> string \<Rightarrow> 'w \<Rightarrow> 'w \<times> (js_error + json)" where
  "consumer_resume E A stream name = consumer_pause E A stream name ''1970-01-01T00:00:00.000Z''"


section \<open>Streams\<close>

definition convertStreamSourceDomain :: "json option \<Rightarrow> js_error + json option" where
  "convertStreamSourceDomain s =
     (case s of
        None \<Rightarrow> Inr None
      | Some j \<Rightarrow>
          rbind (member ''domain'' j) (\<lambda>domain.
            if domain = None then Inr (Some j)
            else let copy = delete_prop ''domain'' j in
              if domain = Some (J_Str []) then Inr (Some copy)
              else if truthy (fld ''external'' copy) then throw ''domain and external are both set''
              else Inr (Some (put_prop ''external''
                     (J_Obj [(''api'', J_Str (''$JS.'' @ text_or_empty domain @ ''.API''))]) copy))))"

text \<open>\<open>src?.subject_transforms?.length || 0\<close> of a source.\<close>

definition validateStreamSource :: "api \<Rightarrow> string \<Rightarrow> json \<Rightarrow> js_error + unit" where
  "validateStreamSource A context src =
     needs A (length_or_zero (fld ''subject_transforms'' src) > 0) JS_STREAM_SOURCE_SUBJECT_TRANSFORM
       (context @ '' '' @ quoted ''subject_transforms'')"

fun for_each :: "('a \<Rightarrow> js_error + unit) \<Rightarrow> 'a list \<Rightarrow> js_error + unit" where
  "for_each f [] = Inr ()"
| "for_each f (x # xs) = rbind (f x) (\<lambda>_. for_each f xs)"

definition checkStreamConfigVersions :: "api \<Rightarrow> json \<Rightarrow> js_error + unit" where
  "checkStreamConfigVersions A cfg =
     rbind (for_each (\<lambda>(k, f). needs A (truthy (fld k cfg)) f (''stream '' @ quoted k))
       [(''metadata'', JS_STREAM_CONSUMER_METADATA), (''first_seq'', JS_STREAM_FIRST_SEQ),
        (''subject_transform'', JS_STREAM_SUBJECT_TRANSFORM), (''compression'', JS_STREAM_COMPRESSION),
        (''consumer_limits'', JS_DEFAULT_CONSUMER_LIMITS)]) (\<lambda>_.
     rbind (if truthy (fld ''sources'' cfg)
            then rbind (array_of (fld ''sources'' cfg)) (for_each (validateStreamSource A ''stream sources''))
            else Inr ()) (\<lambda>_.
     if truthy (fld ''mirror'' cfg) then validateStreamSource A ''stream mirror'' (the (fld ''mirror'' cfg))
     else Inr ()))"

text \<open>\<open>cfg.sources?.map(convertStreamSourceDomain)\<close>; a property set to \<open>undefined\<close> does not
  show in the JSON text.\<close>

fun convert_all :: "json list \<Rightarrow> js_error + json list" where
  "convert_all [] = Inr []"
| "convert_all (s # ss) =
     rbind (convertStreamSourceDomain (Some s)) (\<lambda>s'. rbind (convert_all ss) (\<lambda>ss'. Inr (the s' # ss')))"

definition set_or_drop :: "string \<Rightarrow> json option \<Rightarrow> json \<Rightarrow> json" where
  "set_or_drop k v j = (case v of Some x \<Rightarrow> put_prop k x j | None \<Rightarrow> delete_prop k j)"

definition convert_domains :: "json \<Rightarrow> js_error + json" where
  "convert_domains cfg =
     rbind (convertStreamSourceDomain (fld ''mirror'' cfg)) (\<lambda>m.
     rbind (if nullish (fld ''sources'' cfg) then Inr None
            else rbind (array_of (fld ''sources'' cfg)) (\<lambda>ss. rbind (convert_all ss) (\<lambda>ss'. Inr (Some (J_Arr ss')))))
       (\<lambda>ss. Inr (set_or_drop ''sources'' ss (set_or_drop ''mirror'' m cfg))))"

definition flag :: "string \<Rightarrow> json \<Rightarrow> json" where
  "flag k c = put_prop k (if truthy (fld k c) then the (fld k c) else J_Bool False) c"

definition fixInfo :: "json \<Rightarrow> js_error + json" where
  "fixInfo si =
     rbind (rbind (member ''config'' si) object_of) (\<lambda>c.
       Inr (put_prop ''config'' (flag ''allow_rollup_hdrs'' (flag ''deny_purge'' (flag ''deny_delete''
         (flag ''sealed'' c)))) si))"

definition stream_add :: "'w api_env \<Rightarrow> api \<Rightarrow> json \<Rightarrow> 'w \<Rightarrow> 'w \<times> (js_error + json)" where
  "stream_add E A cfg w =
     and_then
       (checked (rbind (checkStreamConfigVersions A cfg) (\<lambda>_.
                 rbind (validateStreamName (text_or_empty (fld ''name'' cfg))) (\<lambda>_. convert_domains cfg)))
          (\<lambda>cfg'. requesting E A (ap_prefix A @ ''.STREAM.CREATE.'' @ text_or_empty (fld ''name'' cfg)) (Some cfg'))
          w)
       (\<lambda>r w. (w, fixInfo r))"

definition stream_delete ::
  "'w api_env \<Rightarrow> api \<Rightarrow> string \<Rightarrow> 'w \<Rightarrow> 'w \<times> (js_error + json option)" where
  "stream_delete E A stream w =
     and_then
       (checked (validateStreamName stream)
          (\<lambda>_. requesting E A (ap_prefix A @ ''.STREAM.DELETE.'' @ stream) None) w)
       (\<lambda>r w. (w, response_success r))"

text \<open>The number of names of an object; \<open>undefined\<close> and \<open>null\<close> have none to ask for.\<close>

definition property_names :: "json option \<Rightarrow> js_error + nat" where
  "property_names v = (case v of Some (J_Obj m) \<Rightarrow> Inr (length m)
     | None \<Rightarrow> throw ''Cannot convert undefined or null to object''
     | Some J_Null \<Rightarrow> throw ''Cannot convert undefined or null to object''
     | x \<Rightarrow> Inr (length_or_zero x))"

definition subjects_of :: "json \<Rightarrow> js_error + json option" where
  "subjects_of si = rbind (member ''state'' si) (\<lambda>s. case s of
     None \<Rightarrow> throw ''Cannot read properties of undefined'' | Some st \<Rightarrow> member ''subjects'' st)"

definition exceeds :: "int option \<Rightarrow> nat \<Rightarrow> bool" where
  "exceeds tot have = (case tot of Some t \<Rightarrow> t > int have | None \<Rightarrow> False)"

text \<open>The loop that asks for the further pages: the pages so far with the newest last.\<close>

partial_function (option) info_pages ::
  "'w api_env \<Rightarrow> api \<Rightarrow> string \<Rightarrow> json \<Rightarrow> int option \<Rightarrow> int option \<Rightarrow> nat \<Rightarrow> nat \<Rightarrow> json list \<Rightarrow> 'w
    \<Rightarrow> ('w \<times> (js_error + json list)) option" where
  "info_pages E A subj paged limit tot have i infos w =
     (if \<not> exceeds tot have then Some (w, Inr infos)
      else
        let offset = (case limit of Some l \<Rightarrow> J_Num (l * int (Suc i)) | None \<Rightarrow> J_Null) in
        (case requesting E A subj (Some (put_prop ''offset'' offset paged)) w of
           (w1, Inl e) \<Rightarrow> Some (w1, Inl e)
         | (w1, Inr r) \<Rightarrow>
             (case rbind (subjects_of r) property_names of
                Inl e \<Rightarrow> Some (w1, Inl e)
              | Inr got \<Rightarrow>
                  if (case limit of Some l \<Rightarrow> int got < l | None \<Rightarrow> False)
                  then Some (w1, Inr (infos @ [r]))
                  else info_pages E A subj paged limit (number_of (fld ''total'' r)) (have + got)
                         (Suc i) (infos @ [r]) w1)))"

definition merge_subjects :: "json list \<Rightarrow> json" where
  "merge_subjects infos =
     foldl (\<lambda>acc si. case subjects_of si of
              Inr s \<Rightarrow> if truthy s then assign acc (the s) else acc
            | Inl e \<Rightarrow> acc) (J_Obj []) infos"

definition unpaged :: "json list \<Rightarrow> json" where
  "unpaged infos =
     (let si = put_prop ''limit'' (J_Num 0) (put_prop ''total'' (J_Num 0) (put_prop ''offset'' (J_Num 0) (last infos)))
      in put_prop ''state'' (put_prop ''subjects'' (merge_subjects infos)
           (case fld ''state'' si of Some s \<Rightarrow> s | None \<Rightarrow> J_Null)) si)"

definition stream_info ::
  "'w api_env \<Rightarrow> api \<Rightarrow> string \<Rightarrow> json option \<Rightarrow> 'w \<Rightarrow> ('w \<times> (js_error + json)) option" where
  "stream_info E A name data w =
     (let subj = ap_prefix A @ ''.STREAM.INFO.'' @ name in
      case checked (validateStreamName name) (\<lambda>_. requesting E A subj data) w of
        (w1, Inl e) \<Rightarrow> Some (w1, Inl e)
      | (w1, Inr si) \<Rightarrow>
          (case rbind (subjects_of si) (\<lambda>s. if truthy s then property_names s else Inr 1) of
             Inl e \<Rightarrow> Some (w1, Inl e)
           | Inr have \<Rightarrow>
               if exceeds (number_of (fld ''total'' si)) have
               then map_option (\<lambda>(w2, res). (w2, rbind res (\<lambda>infos. fixInfo (unpaged infos))))
                      (info_pages E A subj (if truthy data then the data else J_Obj [])
                        (number_of (fld ''limit'' si)) (number_of (fld ''total'' si)) have 0 [si] w1)
               else Some (w1, fixInfo si)))"


definition stream_update ::
  "'w api_env \<Rightarrow> api \<Rightarrow> string \<Rightarrow> json \<Rightarrow> 'w \<Rightarrow> ('w \<times> (js_error + json)) option" where
  "stream_update E A name cfg w =
     (case rbind (checkStreamConfigVersions A cfg) (\<lambda>_. validateStreamName name) of
        Inl e \<Rightarrow> Some (w, Inl e)
      | Inr _ \<Rightarrow>
          map_option (\<lambda>r. and_then r (\<lambda>old w1.
              and_then
                (checked (rbind (rbind (member ''config'' old) object_of) (\<lambda>c. convert_domains (assign c cfg)))
                   (\<lambda>upd. requesting E A (ap_prefix A @ ''.STREAM.UPDATE.'' @ name) (Some upd)) w1)
                (\<lambda>r w2. (w2, fixInfo r))))
            (stream_info E A name None w))"

definition is_number :: "json option \<Rightarrow> bool" where
  "is_number v = (case v of Some (J_Num n) \<Rightarrow> True | _ \<Rightarrow> False)"

definition stream_purge ::
  "'w api_env \<Rightarrow> api \<Rightarrow> string \<Rightarrow> json option \<Rightarrow> 'w \<Rightarrow> 'w \<times> (js_error + json)" where
  "stream_purge E A name opts =
     checked
       (rbind (require (\<not> (truthy opts \<and> is_number (fld ''keep'' (the opts)) \<and> is_number (fld ''seq'' (the opts))))
                 ''can specify one of keep or seq'')
          (\<lambda>_. validateStreamName name))
       (\<lambda>_. requesting E A (ap_prefix A @ ''.STREAM.PURGE.'' @ name) opts)"

definition stream_deleteMessage ::
  "'w api_env \<Rightarrow> api \<Rightarrow> string \<Rightarrow> int \<Rightarrow> bool \<Rightarrow> 'w \<Rightarrow> 'w \<times> (js_error + json option)" where
  "stream_deleteMessage E A stream n erase w =
     and_then
       (checked (validateStreamName stream) (\<lambda>_.
          requesting E A (ap_prefix A @ ''.STREAM.MSG.DELETE.'' @ stream)
            (Some (J_Obj ([(''seq'', J_Num n)] @ (if \<not> erase then [(''no_erase'', J_Bool True)] else []))))) w)
       (\<lambda>r w. (w, response_success r))"

text \<open>A stored message is the response; its parts are decoded from base64 on demand.\<close>

record stored_msg =
  sm_smr :: json

definition sm_message :: "stored_msg \<Rightarrow> json" where
  "sm_message m = (case fld ''message'' (sm_smr m) of Some x \<Rightarrow> x | None \<Rightarrow> J_Null)"

definition sm_subject :: "stored_msg \<Rightarrow> string" where
  "sm_subject m = text_or_empty (fld ''subject'' (sm_message m))"

definition sm_seq :: "stored_msg \<Rightarrow> int option" where
  "sm_seq m = number_of (fld ''seq'' (sm_message m))"

definition sm_timestamp :: "stored_msg \<Rightarrow> string" where
  "sm_timestamp m = text_or_empty (fld ''time'' (sm_message m))"

definition sm_data :: "stored_msg \<Rightarrow> js_error + bytes" where
  "sm_data m =
     (let d = fld ''data'' (sm_message m) in if truthy d then atob (text_or_empty d) else Inr [])"

definition sm_header :: "stored_msg \<Rightarrow> js_error + msg_hdrs" where
  "sm_header m =
     (let h = fld ''hdrs'' (sm_message m) in
      if truthy h then rbind (atob (text_or_empty h)) hdr_decode else headers_fn 0 [])"

definition sm_string :: "stored_msg \<Rightarrow> js_error + string" where
  "sm_string m = rbind (sm_data m) (\<lambda>b. Inr (td_decode b))"

definition stream_getMessage ::
  "'w api_env \<Rightarrow> api \<Rightarrow> string \<Rightarrow> json \<Rightarrow> 'w \<Rightarrow> 'w \<times> (js_error + stored_msg)" where
  "stream_getMessage E A stream query w =
     and_then
       (checked (validateStreamName stream)
          (\<lambda>_. requesting E A (ap_prefix A @ ''.STREAM.MSG.GET.'' @ stream) (Some query)) w)
       (\<lambda>r w. (w, Inr \<lparr>sm_smr = r\<rparr>))"

section \<open>Lists of streams\<close>

definition stream_list :: "api \<Rightarrow> string \<Rightarrow> js_error + lister" where
  "stream_list A subj =
     new_lister (ap_prefix A @ ''.STREAM.LIST'')
       (Some (J_Obj (if length subj \<noteq> 0 then [(''subject'', J_Str subj)] else [])))"

definition stream_names :: "api \<Rightarrow> string \<Rightarrow> js_error + lister" where
  "stream_names A subj =
     new_lister (ap_prefix A @ ''.STREAM.NAMES'')
       (Some (J_Obj (if length subj \<noteq> 0 then [(''subject'', J_Str subj)] else [])))"

definition names_filter :: "json \<Rightarrow> js_error + json list" where
  "names_filter v = rbind (member ''streams'' v) array_of"

fun fix_all :: "json list \<Rightarrow> js_error + json list" where
  "fix_all [] = Inr []"
| "fix_all (s # ss) = rbind (fixInfo s) (\<lambda>s'. rbind (fix_all ss) (\<lambda>ss'. Inr (s' # ss')))"

definition infos_filter :: "json \<Rightarrow> js_error + json list" where
  "infos_filter v = rbind (rbind (member ''streams'' v) array_of) fix_all"

text \<open>The streams whose name has a prefix, for the lists of buckets and of object stores; a
  status is the information of its stream, with the name of the cluster for buckets.\<close>

definition stream_name :: "json \<Rightarrow> string" where
  "stream_name si = text_or_empty (case fld ''config'' si of Some c \<Rightarrow> fld ''name'' c | None \<Rightarrow> None)"

definition kvPrefix :: string where
  "kvPrefix = ''KV_''"

definition osPrefix :: string where
  "osPrefix = ''OBJ_''"

definition prefixed_filter :: "string \<Rightarrow> json \<Rightarrow> js_error + json list" where
  "prefixed_filter pre v =
     rbind (rbind (member ''streams'' v) array_of) (\<lambda>ss. fix_all (filter (\<lambda>s. starts_with pre (stream_name s)) ss))"

definition kvs_filter :: "string option \<Rightarrow> json \<Rightarrow> js_error + (json \<times> string) list" where
  "kvs_filter cluster v =
     rbind (prefixed_filter kvPrefix v) (\<lambda>ss.
       Inr (map (\<lambda>si. (si, case cluster of Some c \<Rightarrow> c | None \<Rightarrow> [])) ss))"

definition stores_filter :: "json \<Rightarrow> js_error + json list" where
  "stores_filter v = prefixed_filter osPrefix v"

definition listKvs :: "api \<Rightarrow> js_error + lister" where
  "listKvs A = new_lister (ap_prefix A @ ''.STREAM.LIST'') None"

definition listObjectStores :: "api \<Rightarrow> js_error + lister" where
  "listObjectStores A = new_lister (ap_prefix A @ ''.STREAM.LIST'') None"

section \<open>Direct access to messages\<close>

definition direct_subject :: "api \<Rightarrow> string \<Rightarrow> json \<Rightarrow> string" where
  "direct_subject A stream query =
     (let last = fld ''last_by_subj'' query;
          pre = (if ap_prefix A = [] then ''$JS.API'' else ap_prefix A)
      in if truthy last then pre @ ''.DIRECT.GET.'' @ stream @ ''.'' @ text_or_empty last
         else pre @ ''.DIRECT.GET.'' @ stream)"

record direct_msg =
  dm_data :: bytes
  dm_header :: msg_hdrs

definition new_direct_msg :: "nats_msg \<Rightarrow> js_error + direct_msg" where
  "new_direct_msg m = rbind (msg_headers m) (\<lambda>h. case h of
     None \<Rightarrow> throw ''headers expected'' | Some hs \<Rightarrow> Inr \<lparr>dm_data = msg_data m, dm_header = hs\<rparr>)"

definition dm_last :: "string \<Rightarrow> direct_msg \<Rightarrow> js_error + string option" where
  "dm_last k m = hdr_last (dm_header m) k Exact"

definition dm_subject :: "direct_msg \<Rightarrow> js_error + string option" where
  "dm_subject m = dm_last ''Nats-Subject'' m"

definition dm_seq :: "direct_msg \<Rightarrow> js_error + int option" where
  "dm_seq m = rbind (dm_last ''Nats-Sequence'' m) (\<lambda>v. Inr (case v of Some s \<Rightarrow> parse_int s | None \<Rightarrow> Some 0))"

definition dm_timestamp :: "direct_msg \<Rightarrow> js_error + string option" where
  "dm_timestamp m = dm_last ''Nats-Time-Stamp'' m"

definition dm_stream :: "direct_msg \<Rightarrow> js_error + string option" where
  "dm_stream m = dm_last ''Nats-Stream'' m"

definition direct_getMessage ::
  "'w api_env \<Rightarrow> api \<Rightarrow> string \<Rightarrow> json \<Rightarrow> 'w \<Rightarrow> 'w \<times> (js_error + direct_msg)" where
  "direct_getMessage E A stream query w =
     (case validateStreamName stream of
        Inl e \<Rightarrow> (w, Inl e)
      | Inr _ \<Rightarrow>
          let payload = (if truthy (fld ''last_by_subj'' query) then [] else json_encode E (Some query));
              (w1, res) = ae_request E (direct_subject A stream query) payload None (ap_timeout A) w
          in (w1, rbind res (\<lambda>r. rbind (checkJsError r) (\<lambda>err. case err of
                Some e \<Rightarrow> Inl e | None \<Rightarrow> new_direct_msg r))))"


section \<open>What the lists give\<close>

text \<open>A server that answers an offset with its page, for the witnesses: the text of a request
  is as long as its offset.\<close>

definition paging_env :: "string \<Rightarrow> string \<Rightarrow> nat \<Rightarrow> json list \<Rightarrow> unit api_env" where
  "paging_env t f limit items =
     \<lparr>ae_request = (\<lambda>s b h tm w. (w, Inr (new_msg newMsgArg b))), ae_delay = (\<lambda>i w. w),
      ae_stringify = (\<lambda>j. replicate (case number_of (fld ''offset'' j) of Some n \<Rightarrow> nat n | None \<Rightarrow> 0) CHR ''x''),
      ae_parse = (\<lambda>s. Inr (page_json t f limit items (length s)))\<rparr>"

lemma new_msg_data [simp]: "msg_data (new_msg newMsgArg b) = b"
  by (simp add: msg_data_def new_msg_def newMsgArg_def)

lemma paging_env_serves:
  assumes "page_field t f"
  shows "serves_pages (paging_env t f limit items) A subj t f limit items w"
proof -
  have "member ''error'' (page_json t f limit items k) = Inr None" for k
    using assms by (auto simp: page_json_def member_def page_field_def split: if_splits)
  then show ?thesis
    by (simp add: serves_pages_def api_request_def request_loop.simps attempt_def paging_env_def
        parseJsResponse_def json_decode_def json_encode_def truthy_def fld_def number_of_def)
qed

lemma stream_fields [simp]:
  "page_field ''io.nats.jetstream.api.v1.stream_names_response'' ''streams''"
  "page_field ''io.nats.jetstream.api.v1.stream_list_response'' ''streams''"
  by (simp_all add: page_field_def)

lemma new_lister_listed: "subj \<noteq> [] \<Longrightarrow> new_lister subj (Some (J_Obj [])) = Inr (listed subj 0 (J_Obj []))"
  "subj \<noteq> [] \<Longrightarrow> new_lister subj None = Inr (listed subj 0 (J_Obj []))"
  by (simp_all add: new_lister_def listed_def truthy_def)

text \<open>
  Iterating over the names of the streams ends, and gives every name the server has, in
  the order of the server and however many pages they take.
\<close>
theorem names_lists_every_stream:
  assumes "serves_pages E A (ap_prefix A @ ''.STREAM.NAMES'')
      ''io.nats.jetstream.api.v1.stream_names_response'' ''streams'' limit items w"
    and "0 < limit"
  shows "\<exists>l0 l. stream_names A [] = Inr l0 \<and> lister_all E A names_filter [] l0 w = Some (w, l, items, None)"
proof -
  let ?t = "''io.nats.jetstream.api.v1.stream_names_response''"
  have "names_filter (page_json ?t ''streams'' limit items off) = Inr (take limit (drop off items))" for off
    by (simp add: names_filter_def array_of_def)
  then obtain l where "lister_all E A names_filter [] (listed (ap_prefix A @ ''.STREAM.NAMES'') 0 (J_Obj [])) w =
      Some (w, l, concat (takeWhile (\<lambda>p. p \<noteq> []) (map (\<lambda>x. x) (pages limit items))), None)"
    using lister_all_pages [OF assms(1) _ assms(2), of names_filter "\<lambda>x. x"] by auto
  moreover have "takeWhile (\<lambda>p. p \<noteq> []) (pages limit items) = pages limit items"
    using pages_nonempty by (simp add: takeWhile_eq_all_conv) fastforce
  ultimately show ?thesis
    using concat_pages [OF assms(2)] new_lister_listed(1) by (simp add: stream_names_def)
qed

theorem names_lists_every_stream_witness:
  "\<exists>l0 l. stream_names flaky_api [] = Inr l0 \<and>
     lister_all (paging_env ''io.nats.jetstream.api.v1.stream_names_response'' ''streams'' 2
       [J_Str ''a'', J_Str ''b'', J_Str ''c'']) flaky_api names_filter [] l0 () =
     Some ((), l, [J_Str ''a'', J_Str ''b'', J_Str ''c''], None)"
  by (rule names_lists_every_stream [OF paging_env_serves]) simp_all

text \<open>
  The list of buckets ends at the first page of streams without a bucket: when the
  server's first page holds no stream of a bucket, no bucket is listed, even if a later page
  holds some.
\<close>
theorem bucket_list_stops_early:
  assumes "serves_pages E A (ap_prefix A @ ''.STREAM.LIST'')
      ''io.nats.jetstream.api.v1.stream_list_response'' ''streams'' limit items w"
    and "0 < limit" "items \<noteq> []" "\<And>si. si \<in> set (take limit items) \<Longrightarrow> \<not> starts_with kvPrefix (stream_name si)"
  shows "\<exists>l0 l. listKvs A = Inr l0 \<and> lister_all E A (kvs_filter cluster) [] l0 w = Some (w, l, [], None)"
proof -
  let ?t = "''io.nats.jetstream.api.v1.stream_list_response''"
  let ?subj = "ap_prefix A @ ''.STREAM.LIST''"
  have "filter (\<lambda>s. starts_with kvPrefix (stream_name s)) (take limit items) = []"
    using assms(4) by (simp add: filter_empty_conv)
  then have "kvs_filter cluster (page_json ?t ''streams'' limit items 0) = Inr []"
    by (simp add: kvs_filter_def prefixed_filter_def array_of_def)
  then have "lister_next E A (kvs_filter cluster) (listed ?subj 0 (J_Obj [])) w =
      (w, listed ?subj (0 + min limit (length items - 0)) (page_json ?t ''streams'' limit items 0), Inr [])"
    by (intro listed_next_page [OF assms(1) _ assms(2)]) (use assms(3) in simp_all)
  then show ?thesis
    using new_lister_listed(2) by (simp add: listKvs_def lister_all.simps)
qed

definition plain_stream :: json where
  "plain_stream = J_Obj [(''config'', J_Obj [(''name'', J_Str ''orders'')])]"

definition bucket_stream :: json where
  "bucket_stream = J_Obj [(''config'', J_Obj [(''name'', J_Str ''KV_config'')])]"

theorem bucket_list_stops_early_witness:
  "(\<exists>l0 l. listKvs flaky_api = Inr l0 \<and>
     lister_all (paging_env ''io.nats.jetstream.api.v1.stream_list_response'' ''streams'' 1
       [plain_stream, bucket_stream]) flaky_api (kvs_filter None) [] l0 () = Some ((), l, [], None))
   \<and> starts_with kvPrefix (stream_name bucket_stream)"
proof
  have "\<not> starts_with kvPrefix (stream_name plain_stream)"
    by (simp add: starts_with_def kvPrefix_def stream_name_def plain_stream_def fld_def text_or_empty_def)
  then show "\<exists>l0 l. listKvs flaky_api = Inr l0 \<and>
     lister_all (paging_env ''io.nats.jetstream.api.v1.stream_list_response'' ''streams'' 1
       [plain_stream, bucket_stream]) flaky_api (kvs_filter None) [] l0 () = Some ((), l, [], None)"
    by (intro bucket_list_stops_early [OF paging_env_serves]) simp_all
  show "starts_with kvPrefix (stream_name bucket_stream)"
    by (simp add: starts_with_def kvPrefix_def stream_name_def bucket_stream_def fld_def text_or_empty_def)
qed


section \<open>The subjects of a stream\<close>

text \<open>The information of a stream whose subjects come in pages.\<close>

definition info_page :: "(string \<times> json) list \<Rightarrow> nat \<Rightarrow> nat \<Rightarrow> json" where
  "info_page subs limit off =
     J_Obj [(''config'', J_Obj []), (''state'', J_Obj [(''subjects'', J_Obj (take limit (drop off subs)))]),
            (''total'', J_Num (int (length subs))), (''offset'', J_Num (int off)), (''limit'', J_Num (int limit))]"

definition serves_subjects ::
  "'w api_env \<Rightarrow> api \<Rightarrow> string \<Rightarrow> json \<Rightarrow> (string \<times> json) list \<Rightarrow> nat \<Rightarrow> 'w \<Rightarrow> bool" where
  "serves_subjects E A subj d subs limit w \<longleftrightarrow>
     requesting E A subj (Some d) w = (w, Inr (info_page subs limit 0))
     \<and> (\<forall>off. requesting E A subj (Some (put_prop ''offset'' (J_Num (int off)) d)) w =
          (w, Inr (info_page subs limit off)))"

lemma info_page_simps [simp]:
  "subjects_of (info_page subs limit off) = Inr (Some (J_Obj (take limit (drop off subs))))"
  "fld ''total'' (info_page subs limit off) = Some (J_Num (int (length subs)))"
  "fld ''limit'' (info_page subs limit off) = Some (J_Num (int limit))"
  by (simp_all add: subjects_of_def info_page_def member_def fld_def)

lemma truthy_object [simp]: "truthy (Some (J_Obj m))"
  by (simp add: truthy_def)

lemma assign_fresh:
  assumes "distinct (map fst (m @ n))"
  shows "assign (J_Obj m) (J_Obj n) = J_Obj (m @ n)"
proof -
  have "fold (\<lambda>(k, v). AList.update k v) n m = m @ n"
    using assms
  proof (induction n arbitrary: m)
    case (Cons e n)
    obtain k v where "e = (k, v)" by fastforce
    with Cons.prems have "AList.update k v m = m @ [e]" by (simp add: update_absent)
    then show ?case using Cons.IH [of "m @ [e]"] Cons.prems \<open>e = (k, v)\<close> by simp
  qed simp
  then show ?thesis by (simp add: assign_def js_extend_def)
qed

lemma merge_pages:
  assumes "distinct (map fst (concat (map (\<lambda>off. take limit (drop off subs)) offs)))"
  shows "merge_subjects (map (info_page subs limit) offs) =
    J_Obj (concat (map (\<lambda>off. take limit (drop off subs)) offs))"
  using assms
proof (induction offs rule: rev_induct)
  case (snoc off offs)
  then have "merge_subjects (map (info_page subs limit) offs) =
      J_Obj (concat (map (\<lambda>off. take limit (drop off subs)) offs))" by simp
  then have "merge_subjects (map (info_page subs limit) (offs @ [off])) =
      assign (J_Obj (concat (map (\<lambda>off. take limit (drop off subs)) offs))) (J_Obj (take limit (drop off subs)))"
    by (simp add: merge_subjects_def)
  then show ?case using snoc.prems by (simp add: assign_fresh)
qed (simp add: merge_subjects_def)

lemma info_pages_step:
  assumes "requesting E A subj (Some (put_prop ''offset'' (J_Num (int limit * int (Suc i))) d)) w =
      (w, Inr (info_page subs limit off))" "off < length subs"
  shows "info_pages E A subj d (Some (int limit)) (Some (int (length subs))) off i infos w =
      (if min limit (length subs - off) < limit then Some (w, Inr (infos @ [info_page subs limit off]))
       else info_pages E A subj d (Some (int limit)) (Some (int (length subs))) (off + min limit (length subs - off))
              (Suc i) (infos @ [info_page subs limit off]) w)"
proof -
  have "exceeds (Some (int (length subs))) off" using assms(2) by (simp add: exceeds_def)
  moreover have "rbind (subjects_of (info_page subs limit off)) property_names = Inr (min limit (length subs - off))"
    by (simp add: property_names_def min.commute)
  ultimately show ?thesis
    using assms(1) by (subst info_pages.simps) (simp add: Let_def number_of_def del: of_nat_Suc)
qed

lemma info_pages_all:
  assumes "serves_subjects E A subj d subs limit w" "0 < limit"
  shows "limit * Suc i < length subs \<Longrightarrow>
    \<exists>offs. info_pages E A subj d (Some (int limit)) (Some (int (length subs))) (limit * Suc i) i infos w =
        Some (w, Inr (infos @ map (info_page subs limit) offs))
      \<and> offs \<noteq> [] \<and> concat (map (\<lambda>off. take limit (drop off subs)) offs) = drop (limit * Suc i) subs"
proof (induction "length subs - limit * Suc i" arbitrary: i infos rule: less_induct)
  case less
  let ?off = "limit * Suc i"
  let ?got = "min limit (length subs - ?off)"
  have rq: "requesting E A subj (Some (put_prop ''offset'' (J_Num (int limit * int (Suc i))) d)) w =
      (w, Inr (info_page subs limit ?off))"
    using assms(1) unfolding serves_subjects_def by (simp only: of_nat_mult [symmetric])
  have split: "drop ?off subs = take limit (drop ?off subs) @ drop (limit * Suc (Suc i)) subs"
    by (metis append_take_drop_id drop_drop mult_Suc_right add.commute)
  have step: "info_pages E A subj d (Some (int limit)) (Some (int (length subs))) ?off i infos w =
      (if ?got < limit then Some (w, Inr (infos @ [info_page subs limit ?off]))
       else info_pages E A subj d (Some (int limit)) (Some (int (length subs))) (?off + ?got) (Suc i)
              (infos @ [info_page subs limit ?off]) w)"
    using rq less.prems by (rule info_pages_step)
  show ?case
  proof (cases "limit * Suc (Suc i) < length subs")
    case True
    then have got: "?got = limit" "?off + limit = limit * Suc (Suc i)" by simp_all
    have "length subs - limit * Suc (Suc i) < length subs - ?off"
      using True assms(2) less.prems by simp
    from less.hyps [OF this True, of "infos @ [info_page subs limit ?off]"]
    obtain offs where "info_pages E A subj d (Some (int limit)) (Some (int (length subs))) (limit * Suc (Suc i)) (Suc i)
          (infos @ [info_page subs limit ?off]) w =
          Some (w, Inr ((infos @ [info_page subs limit ?off]) @ map (info_page subs limit) offs))"
        "concat (map (\<lambda>off. take limit (drop off subs)) offs) = drop (limit * Suc (Suc i)) subs"
      by blast
    then show ?thesis
      using step got split by (intro exI [of _ "?off # offs"]) (simp del: mult_Suc_right)
  next
    case False
    then have rest: "drop (limit * Suc (Suc i)) subs = []" by simp
    have "info_pages E A subj d (Some (int limit)) (Some (int (length subs))) ?off i infos w =
        Some (w, Inr (infos @ [info_page subs limit ?off]))"
    proof (cases "?got < limit")
      case no: False
      then have "?off + ?got = length subs"
        using False less.prems by (simp add: min_def split: if_splits)
      then show ?thesis
        using step no by (subst step) (simp add: info_pages.simps exceeds_def)
    next
      case True
      then show ?thesis by (simp only: step if_True)
    qed
    then show ?thesis using rest split by (intro exI [of _ "[?off]"]) simp
  qed
qed


lemma subjects_unpaged:
  assumes "offs \<noteq> []"
  shows "\<exists>si. fixInfo (unpaged (map (info_page subs limit) offs)) = Inr si
    \<and> subjects_of si = Inr (Some (merge_subjects (map (info_page subs limit) offs)))"
  using assms
  by (cases offs rule: rev_cases)
    (simp_all add: unpaged_def info_page_def fixInfo_def member_def object_of_def put_prop_def fld_def
      subjects_of_def Let_def)

lemma subjects_fixed: "\<exists>si. fixInfo (info_page subs limit off) = Inr si
    \<and> subjects_of si = Inr (Some (J_Obj (take limit (drop off subs))))"
  by (simp add: info_page_def fixInfo_def member_def object_of_def put_prop_def subjects_of_def)

text \<open>
  The information of a stream carries all its subjects: with a server that gives the
  subjects in pages the loop over the pages ends, and the pages are merged into one object
  with every subject of the stream.
\<close>
theorem stream_info_has_all_subjects:
  assumes "serves_subjects E A (ap_prefix A @ ''.STREAM.INFO.'' @ name) (J_Obj d) subs limit w"
    and "0 < limit" "distinct (map fst subs)" "validateStreamName name = Inr []"
  shows "\<exists>si. stream_info E A name (Some (J_Obj d)) w = Some (w, Inr si)
    \<and> subjects_of si = Inr (Some (J_Obj subs))"
proof -
  let ?subj = "ap_prefix A @ ''.STREAM.INFO.'' @ name"
  let ?p0 = "info_page subs limit 0"
  have first: "checked (validateStreamName name) (\<lambda>_. requesting E A ?subj (Some (J_Obj d))) w = (w, Inr ?p0)"
    using assms(1,4) by (simp add: checked_def serves_subjects_def)
  have have0: "rbind (subjects_of ?p0) (\<lambda>s. if truthy s then property_names s else Inr 1) = Inr (min limit (length subs))"
    by (simp add: property_names_def min.commute)
  show ?thesis
  proof (cases "limit < length subs")
    case False
    then have "stream_info E A name (Some (J_Obj d)) w = Some (w, fixInfo ?p0)"
      by (simp add: stream_info_def first [simplified] property_names_def exceeds_def number_of_def)
    moreover have "take limit subs = subs" using False by simp
    ultimately show ?thesis using subjects_fixed [of subs limit 0] by auto
  next
    case True
    then obtain offs where offs: "info_pages E A ?subj (J_Obj d) (Some (int limit)) (Some (int (length subs))) limit 0 [?p0] w =
        Some (w, Inr ([?p0] @ map (info_page subs limit) offs))"
        "concat (map (\<lambda>off. take limit (drop off subs)) offs) = drop limit subs"
      using info_pages_all [OF assms(1,2), of 0 "[?p0]"] by auto
    have all: "concat (map (\<lambda>off. take limit (drop off subs)) (0 # offs)) = subs"
      using offs(2) by simp
    then have "merge_subjects (map (info_page subs limit) (0 # offs)) = J_Obj subs"
      using merge_pages [of limit subs "0 # offs"] assms(3) by simp
    moreover have "stream_info E A name (Some (J_Obj d)) w =
        Some (w, fixInfo (unpaged (map (info_page subs limit) (0 # offs))))"
      using True offs(1)
      by (simp add: stream_info_def first [simplified] property_names_def exceeds_def number_of_def)
    ultimately show ?thesis using subjects_unpaged [of "0 # offs" subs limit] by auto
  qed
qed


definition subjects_env :: "(string \<times> json) list \<Rightarrow> nat \<Rightarrow> unit api_env" where
  "subjects_env subs limit = (paging_env [] [] 0 [])\<lparr>ae_parse := (\<lambda>s. Inr (info_page subs limit (length s)))\<rparr>"

lemma subjects_env_serves: "serves_subjects (subjects_env subs limit) A subj (J_Obj []) subs limit w"
  by (simp add: serves_subjects_def requesting_def api_request_def request_loop.simps attempt_def subjects_env_def
      paging_env_def parseJsResponse_def json_decode_def json_encode_def truthy_def fld_def number_of_def
      put_prop_def info_page_def member_def)

theorem stream_info_has_all_subjects_witness:
  "\<exists>si. stream_info (subjects_env [(''a'', J_Num 1), (''b'', J_Num 2), (''c'', J_Num 1)] 2) flaky_api ''S''
      (Some (J_Obj [])) () = Some ((), Inr si)
    \<and> subjects_of si = Inr (Some (J_Obj [(''a'', J_Num 1), (''b'', J_Num 2), (''c'', J_Num 1)]))"
proof -
  have "validateStreamName ''S'' = Inr []"
    by (simp add: validateStreamName_def minValidation_def bad_characters_def)
  then show ?thesis by (intro stream_info_has_all_subjects [OF subjects_env_serves]) simp_all
qed

section \<open>The subject a consumer is created at\<close>

text \<open>
  Creating a consumer asks at a subject that names the stream and, on a server with the
  new API and a single filter, the consumer and the filter; otherwise a durable consumer goes to the
  old subject. A configuration the server cannot take is refused before anything is sent.
\<close>
theorem consumer_create_subject_is:
  assumes "consumer_create_subject A stream (J_Obj cfg) = Inr subj"
  defines "new_api_ok \<equiv> fv_ok (feature_get JS_NEW_CONSUMER_CREATE_API (ap_features A))"
    and "filters \<equiv> is_array (map_of cfg ''filter_subjects'')"
    and "named \<equiv> text_or_empty (either (map_of cfg ''name'') (map_of cfg ''durable_name''))"
    and "flt \<equiv> map_of cfg ''filter_subject''"
  shows "(\<exists>rest. subj = ap_prefix A @ ''.CONSUMER.'' @ rest)
    \<and> (new_api_ok \<and> \<not> filters \<and> named \<noteq> [] \<and> \<not> nullish flt \<and> flt \<noteq> Some (J_Str ''>'') \<longrightarrow>
        subj = ap_prefix A @ ''.CONSUMER.CREATE.'' @ stream @ ''.'' @ named @ ''.'' @ text_or_empty flt)
    \<and> (truthy (map_of cfg ''name'') \<longrightarrow> new_api_ok)
    \<and> set stream \<inter> {CHR ''.'', CHR ''*'', CHR ''>'', CHR '' ''} = {}
    \<and> \<not> (truthy (map_of cfg ''deliver_group'') \<and> truthy (map_of cfg ''flow_control''))"
proof -
  have s: "minValidation ''stream'' stream = Inr []"
    using assms(1) minValidation_cases [of "''stream''" stream]
    by (auto simp: consumer_create_subject_def validateStreamName_def)
  have "{CHR ''.'', CHR ''*'', CHR ''>'', CHR '' ''} \<subseteq> fst ` set bad_characters"
    by (simp add: bad_characters_def)
  then have "set stream \<inter> {CHR ''.'', CHR ''*'', CHR ''>'', CHR '' ''} = {}"
    using s by (auto simp: minValidation_ok)
  then show ?thesis
    using assms(1)
    by (auto simp: consumer_create_subject_def rbind_Inr_iff needs_def require_def throw_def fld_def
        new_api_ok_def filters_def named_def flt_def Let_def split: if_splits)
qed


definition modern_api :: api where
  "modern_api = flaky_api\<lparr>ap_features := \<lparr>ft_server = SemVer 2 10 0,
     ft_features = [(JS_NEW_CONSUMER_CREATE_API, \<lparr>fv_ok = True, fv_min = ''2.9.0''\<rparr>)], ft_disabled = []\<rparr>\<rparr>"

theorem consumer_create_subject_is_witness:
  "\<exists>subj. consumer_create_subject modern_api ''S'' (J_Obj [(''name'', J_Str ''c''), (''filter_subject'', J_Str ''a.b'')])
      = Inr subj \<and> subj = ''$JS.API.CONSUMER.CREATE.S.c.a.b''"
proof -
  have ok: "minValidation ''stream'' ''S'' = Inr []" "minValidation ''name'' ''c'' = Inr []"
    by (simp_all add: minValidation_def bad_characters_def)
  have "\<exists>subj. consumer_create_subject modern_api ''S''
      (J_Obj [(''name'', J_Str ''c''), (''filter_subject'', J_Str ''a.b'')]) = Inr subj"
    by (simp add: consumer_create_subject_def validateStreamName_def ok require_def truthy_def fld_def
        text_or_empty_def needs_def massage_name_error_def modern_api_def feature_get_def is_array_def Let_def)
  then obtain subj where s: "consumer_create_subject modern_api ''S''
      (J_Obj [(''name'', J_Str ''c''), (''filter_subject'', J_Str ''a.b'')]) = Inr subj" ..
  then show ?thesis
    using consumer_create_subject_is [OF s]
    by (simp add: modern_api_def flaky_api_def feature_get_def is_array_def nullish_def either_def text_or_empty_def)
qed

end
