(* ===== verification/Js_Msg.thy ===== *)
theory Js_Msg
  imports Connection Js_Util
begin

text \<open>
  Messages of a stream, \<open>jetstream/jsmsg.ts\<close>: the delivery information in the reply
  subject and the acknowledgements, which the message publishes through the protocol handler
  that received it.
\<close>

section \<open>Delivery information\<close>

record delivery_info =
  di_domain :: string
  di_account_hash :: string
  di_stream :: string
  di_consumer :: string
  di_deliveryCount :: "int option"
  di_redeliveryCount :: "int option"
  di_redelivered :: bool
  di_streamSequence :: "int option"
  di_deliverySequence :: "int option"
  di_timestampNanos :: "int option"
  di_pending :: "int option"

definition parseInfo :: "string \<Rightarrow> js_error + delivery_info" where
  "parseInfo s =
     (let t0 = split_on CHR ''.'' s;
          t = (if length t0 = 9 then take 2 t0 @ [''_'', ''''] @ drop 2 t0 else t0)
      in if length t < 11 \<or> t ! 0 \<noteq> ''$JS'' \<or> t ! 1 \<noteq> ''ACK''
         then Inl (Plain_Error ''not js message'')
         else Inr \<lparr>di_domain = (if t ! 2 = ''_'' then [] else t ! 2), di_account_hash = t ! 3,
                   di_stream = t ! 4, di_consumer = t ! 5, di_deliveryCount = parse_int (t ! 6),
                   di_redeliveryCount = parse_int (t ! 6),
                   di_redelivered = (case parse_int (t ! 6) of Some n \<Rightarrow> n > 1 | None \<Rightarrow> False),
                   di_streamSequence = parse_int (t ! 7), di_deliverySequence = parse_int (t ! 8),
                   di_timestampNanos = parse_int (t ! 9), di_pending = parse_int (t ! 10)\<rparr>)"

section \<open>The message and its acknowledgements\<close>

definition ACK :: bytes where "ACK = [43, 65, 67, 75]"
definition NAK :: bytes where "NAK = [45, 78, 65, 75]"
definition WPI :: bytes where "WPI = [43, 87, 80, 73]"
definition NXT :: bytes where "NXT = [43, 78, 88, 84]"
definition TERM_ACK :: bytes where "TERM_ACK = [43, 84, 69, 82, 77]"

record js_msg =
  jm_msg :: nats_msg
  jm_di :: "delivery_info option"
  jm_didAck :: bool
  jm_timeout :: int

definition toJsMsg :: "nats_msg \<Rightarrow> int \<Rightarrow> js_msg" where
  "toJsMsg m tmo = \<lparr>jm_msg = m, jm_di = None, jm_didAck = False, jm_timeout = tmo\<rparr>"

definition jm_info :: "js_msg \<Rightarrow> js_msg \<times> (js_error + delivery_info)" where
  "jm_info m =
     (case jm_di m of
        Some d \<Rightarrow> (m, Inr d)
      | None \<Rightarrow> (case parseInfo (msg_reply (jm_msg m)) of
                   Inl e \<Rightarrow> (m, Inl e)
                 | Inr d \<Rightarrow> (m\<lparr>jm_di := Some d\<rparr>, Inr d)))"

definition jm_redelivered :: "js_msg \<Rightarrow> js_msg \<times> (js_error + bool)" where
  "jm_redelivered m = apsnd (\<lambda>r. rbind r (\<lambda>d. Inr (case di_deliveryCount d of Some n \<Rightarrow> n > 1 | None \<Rightarrow> False)))
     (jm_info m)"

definition jm_seq :: "js_msg \<Rightarrow> js_msg \<times> (js_error + int option)" where
  "jm_seq m = apsnd (\<lambda>r. rbind r (\<lambda>d. Inr (di_streamSequence d))) (jm_info m)"

text \<open>\<open>respond\<close> of \<open>MsgImpl\<close> with the publisher, the reply option empty when absent.\<close>

definition respond :: "nats_msg \<Rightarrow> bytes \<Rightarrow> string \<Rightarrow> protocol \<Rightarrow> protocol \<times> (js_error + bool)" where
  "respond m data rep p =
     (case msg_respond m of
        Some subj \<Rightarrow> (case publish subj (P_Bytes data) rep None p of
                        (p', Inl e) \<Rightarrow> (p', Inl e) | (p', Inr _) \<Rightarrow> (p', Inr True))
      | None \<Rightarrow> (p, Inr False))"

definition isWIP :: "bytes \<Rightarrow> bool" where
  "isWIP p \<longleftrightarrow> length p = 4 \<and> p ! 0 = WPI ! 0 \<and> p ! 1 = WPI ! 1 \<and> p ! 2 = WPI ! 2 \<and> p ! 3 = WPI ! 3"

definition doAck :: "bytes \<Rightarrow> js_msg \<Rightarrow> protocol \<Rightarrow> js_msg \<times> protocol \<times> (js_error + unit)" where
  "doAck pay m p =
     (if \<not> jm_didAck m
      then (let m1 = m\<lparr>jm_didAck := \<not> isWIP pay\<rparr>; (p1, r) = respond (jm_msg m) pay [] p
            in (m1, p1, rbind r (\<lambda>_. Inr ())))
      else (m, p, Inr ()))"

text \<open>The texts of the requests as \<open>JSON.stringify\<close> writes them, for numbers below
  \<open>10 ^ 21\<close>.\<close>

definition dquote :: char where "dquote = CHR 0x22"

definition json_key :: "string \<Rightarrow> string" where
  "json_key k = [dquote] @ k @ [dquote, CHR '':'']"

definition nak_payload :: "nat option \<Rightarrow> bytes" where
  "nak_payload ms =
     (case ms of Some n \<Rightarrow> if n \<noteq> 0
                 then te_encode (''-NAK {'' @ json_key ''delay'' @ show_nat (nanos n) @ ''}'') else NAK
      | None \<Rightarrow> NAK)"

definition term_payload :: "string \<Rightarrow> bytes" where
  "term_payload reason = (if length reason > 0 then te_encode (''+TERM '' @ reason) else TERM_ACK)"

definition jm_ack :: "js_msg \<Rightarrow> protocol \<Rightarrow> js_msg \<times> protocol \<times> (js_error + unit)" where
  "jm_ack = doAck ACK"

definition jm_nak :: "nat option \<Rightarrow> js_msg \<Rightarrow> protocol \<Rightarrow> js_msg \<times> protocol \<times> (js_error + unit)" where
  "jm_nak ms = doAck (nak_payload ms)"

definition jm_working :: "js_msg \<Rightarrow> protocol \<Rightarrow> js_msg \<times> protocol \<times> (js_error + unit)" where
  "jm_working = doAck WPI"

definition jm_term :: "string \<Rightarrow> js_msg \<Rightarrow> protocol \<Rightarrow> js_msg \<times> protocol \<times> (js_error + unit)" where
  "jm_term reason = doAck (term_payload reason)"

record pull_options =
  po_batch :: "nat option"
  po_no_wait :: bool
  po_expires :: "nat option"

definition next_args :: "pull_options \<Rightarrow> string" where
  "next_args opts =
     ''{'' @ json_key ''batch'' @ show_nat (case po_batch opts of Some n \<Rightarrow> if n \<noteq> 0 then n else 1 | None \<Rightarrow> 1)
     @ '','' @ json_key ''no_wait'' @ (if po_no_wait opts then ''true'' else ''false'')
     @ (case po_expires opts of
          Some n \<Rightarrow> if n > 0 then '','' @ json_key ''expires'' @ show_nat (nanos n) else []
        | None \<Rightarrow> [])
     @ ''}''"

definition jm_next ::
  "string \<Rightarrow> pull_options \<Rightarrow> js_msg \<Rightarrow> protocol \<Rightarrow> js_msg \<times> protocol \<times> (js_error + unit)" where
  "jm_next subj opts m p =
     (let (p1, r) = respond (jm_msg m) (NXT @ te_encode '' '' @ te_encode (next_args opts)) subj p
      in (m, p1, rbind r (\<lambda>_. Inr ())))"

text \<open>\<open>ackAck\<close> requests an answer to the acknowledgement through the multiplexer; without one
  it gives false. The request \<open>r\<close> has the token \<open>tok\<close>.\<close>

datatype ack_result = Ack_False | Ack_Request nat

definition jm_ackAck ::
  "string \<Rightarrow> string \<Rightarrow> nat \<Rightarrow> nat \<Rightarrow> int \<Rightarrow> js_msg \<Rightarrow> protocol
    \<Rightarrow> js_msg \<times> protocol \<times> (js_error + ack_result)" where
  "jm_ackAck tok nuid i r tmo0 m p =
     (let tmo = (if tmo0 = 0 then jm_timeout m else tmo0) in
      if jm_didAck m then (m, p, Inr Ack_False)
      else let m1 = m\<lparr>jm_didAck := True\<rparr>; subj = msg_reply (jm_msg m) in
        if subj = [] then (m1, p, Inr Ack_False)
        else let p0 = p\<lparr>pr_mux := (pr_mux p)\<lparr>mu_store := (mu_store (pr_mux p))(r := new_request_one tok subj (nat tmo))\<rparr>\<rparr>
          in (case pr_request nuid i r p0 of
                Inl e \<Rightarrow> (m1, p0, Inl e)
              | Inr p1 \<Rightarrow>
                  (case publish subj (P_Bytes ACK) (mu_baseInbox (pr_mux p1) @ tok) None p1 of
                     (p2, Inr _) \<Rightarrow> (m1, p2, Inr (Ack_Request r))
                   | (p2, Inl e) \<Rightarrow>
                       (m1, p2\<lparr>pr_mux := request_cancel r (Some e) (pr_mux p2)\<rparr>, Inr (Ack_Request r)))))"


section \<open>What they mean\<close>

lemma parse_int_rounded: "parse_int (show_nat n) = Some (int (js_round n))"
proof -
  obtain c s where cs: "show_nat n = c # s" by (metis list.exhaust show_nat_nonempty)
  then have d: "is_digit c" using show_nat_hd_digit [of n] by simp
  then have "c \<noteq> CHR ''-''" "c \<noteq> CHR ''+''" by (auto simp: is_digit_def char_code_def)
  then have "hd (show_nat n) \<noteq> CHR ''-''" "hd (show_nat n) \<noteq> CHR ''+''" using cs by simp_all
  moreover have "trim_start (show_nat n) = show_nat n" using cs d by simp
  ultimately show ?thesis
    by (simp add: parse_int_def Let_def takeWhile_eq_all_conv [THEN iffD2] show_nat_all_digits)
qed

lemma dot_in_number: "CHR ''.'' \<notin> set (show_nat n)"
  using show_nat_all_digits [of n] by (auto simp: is_digit_def char_code_def)

text \<open>The reply subjects of the server, old and new.\<close>

definition old_reply :: "string \<Rightarrow> string \<Rightarrow> nat \<Rightarrow> nat \<Rightarrow> nat \<Rightarrow> nat \<Rightarrow> nat \<Rightarrow> string" where
  "old_reply stream consumer n sseq dseq time pend =
     join_on CHR ''.'' ([''$JS'', ''ACK'', stream, consumer] @ map show_nat [n, sseq, dseq, time, pend])"

definition new_reply ::
  "string \<Rightarrow> string \<Rightarrow> string \<Rightarrow> string \<Rightarrow> nat \<Rightarrow> nat \<Rightarrow> nat \<Rightarrow> nat \<Rightarrow> nat \<Rightarrow> string \<Rightarrow> string" where
  "new_reply domain hash stream consumer n sseq dseq time pend rand =
     join_on CHR ''.'' ([''$JS'', ''ACK'', if domain = [] then ''_'' else domain, hash, stream, consumer]
       @ map show_nat [n, sseq, dseq, time, pend] @ [rand])"

definition written_info ::
  "string \<Rightarrow> string \<Rightarrow> string \<Rightarrow> string \<Rightarrow> nat \<Rightarrow> nat \<Rightarrow> nat \<Rightarrow> nat \<Rightarrow> nat \<Rightarrow> delivery_info" where
  "written_info domain hash stream consumer n sseq dseq time pend =
     \<lparr>di_domain = domain, di_account_hash = hash, di_stream = stream, di_consumer = consumer,
      di_deliveryCount = Some (int (js_round n)), di_redeliveryCount = Some (int (js_round n)),
      di_redelivered = (1 < js_round n), di_streamSequence = Some (int (js_round sseq)),
      di_deliverySequence = Some (int (js_round dseq)), di_timestampNanos = Some (int (js_round time)),
      di_pending = Some (int (js_round pend))\<rparr>"

lemma parse_new_reply:
  assumes "\<forall>t \<in> {domain, hash, stream, consumer, rand}. CHR ''.'' \<notin> set t" "domain \<noteq> ''_''"
  shows "parseInfo (new_reply domain hash stream consumer n sseq dseq time pend rand) =
    Inr (written_info domain hash stream consumer n sseq dseq time pend)"
proof -
  have "split_on CHR ''.'' (new_reply domain hash stream consumer n sseq dseq time pend rand) =
      [''$JS'', ''ACK'', if domain = [] then ''_'' else domain, hash, stream, consumer]
      @ map show_nat [n, sseq, dseq, time, pend] @ [rand]"
    unfolding new_reply_def using assms(1) dot_in_number by (intro split_join_on) auto
  then show ?thesis using assms(2) by (simp add: parseInfo_def written_info_def parse_int_rounded Let_def)
qed

text \<open>
  From the reply subject of a delivered message, in the old format or the new one, the
  client reads back the domain, account, stream, consumer and counters the server wrote;
  numbers of \<open>2 ^ 53\<close> and more, such as today's times in nanoseconds, come back rounded to a
  double.
\<close>
theorem delivery_info_round_trip:
  assumes "\<forall>t \<in> {domain, hash, stream, consumer, rand}. CHR ''.'' \<notin> set t" "domain \<noteq> ''_''"
  shows "parseInfo (new_reply domain hash stream consumer n sseq dseq time pend rand)
      = Inr (written_info domain hash stream consumer n sseq dseq time pend)
    \<and> parseInfo (old_reply stream consumer n sseq dseq time pend)
      = Inr (written_info [] [] stream consumer n sseq dseq time pend)"
proof
  have "split_on CHR ''.'' (old_reply stream consumer n sseq dseq time pend) =
      [''$JS'', ''ACK'', stream, consumer] @ map show_nat [n, sseq, dseq, time, pend]"
    unfolding old_reply_def using assms(1) dot_in_number by (intro split_join_on) auto
  then show "parseInfo (old_reply stream consumer n sseq dseq time pend)
      = Inr (written_info [] [] stream consumer n sseq dseq time pend)"
    by (simp add: parseInfo_def written_info_def parse_int_rounded Let_def)
qed (rule parse_new_reply [OF assms])

theorem delivery_info_round_trip_witness:
  "parseInfo (new_reply [] ''hash'' ''S'' ''C'' 2 7 3 1700000000000000001 4 ''r'') =
     Inr \<lparr>di_domain = [], di_account_hash = ''hash'', di_stream = ''S'', di_consumer = ''C'',
       di_deliveryCount = Some 2, di_redeliveryCount = Some 2, di_redelivered = True,
       di_streamSequence = Some 7, di_deliverySequence = Some 3,
       di_timestampNanos = Some (int (js_round 1700000000000000001)), di_pending = Some 4\<rparr>"
  using delivery_info_round_trip [where domain = "[]" and hash = "''hash''" and stream = "''S''"
    and consumer = "''C''" and rand = "''r''" and n = 2 and sseq = 7 and dseq = 3
    and time = 1700000000000000001 and pend = 4] by (simp add: written_info_def)

section \<open>Acknowledging once\<close>

datatype ack_call = Call_Ack | Call_Nak "nat option" | Call_Working | Call_Term string

primrec ack_payload :: "ack_call \<Rightarrow> bytes" where
  "ack_payload Call_Ack = ACK"
| "ack_payload (Call_Nak ms) = nak_payload ms"
| "ack_payload Call_Working = WPI"
| "ack_payload (Call_Term reason) = term_payload reason"

primrec ack_step :: "ack_call \<Rightarrow> js_msg \<Rightarrow> protocol \<Rightarrow> js_msg \<times> protocol \<times> (js_error + unit)" where
  "ack_step Call_Ack = jm_ack"
| "ack_step (Call_Nak ms) = jm_nak ms"
| "ack_step Call_Working = jm_working"
| "ack_step (Call_Term reason) = jm_term reason"

fun ack_run :: "ack_call list \<Rightarrow> js_msg \<Rightarrow> protocol \<Rightarrow> js_msg \<times> protocol" where
  "ack_run [] m p = (m, p)"
| "ack_run (c # cs) m p = (let (m1, p1, r) = ack_step c m p in ack_run cs m1 p1)"

text \<open>The calls that count: those that say the work goes on, and the first other one.\<close>

fun counting :: "ack_call list \<Rightarrow> ack_call list" where
  "counting [] = []"
| "counting (c # cs) = (if c = Call_Working then c # counting cs else [c])"

lemma ack_step_doAck: "ack_step c = doAck (ack_payload c)"
  by (cases c) (simp_all add: jm_ack_def jm_nak_def jm_working_def jm_term_def)

lemma isWIP_payload: "isWIP (ack_payload c) \<longleftrightarrow> c = Call_Working"
proof (cases c)
  case (Call_Nak ms)
  have "\<not> isWIP (nak_payload ms)"
    by (cases ms) (simp_all add: nak_payload_def isWIP_def NAK_def WPI_def)
  then show ?thesis using Call_Nak by simp
next
  case (Call_Term reason)
  have "\<not> isWIP (term_payload reason)" by (simp add: term_payload_def isWIP_def TERM_ACK_def)
  then show ?thesis using Call_Term by simp
qed (simp_all add: isWIP_def ACK_def WPI_def)

lemma ack_run_done: "jm_didAck m \<Longrightarrow> ack_run cs m p = (m, p)"
  by (induction cs arbitrary: m p) (simp_all add: ack_step_doAck doAck_def)

lemma sendCommand_info [simp]: "pr_info (sendCommand c ps p) = pr_info p"
  by (simp add: sendCommand_def flushPending_def transport_send_def case_prod_beta Let_def)

lemma publish_ok:
  assumes "out_ok p"
  shows "out_ok (fst (publish subj d rep h p))" "pr_info (fst (publish subj d rep h p)) = pr_info p"
proof -
  have "out_ok (p\<lparr>pr_outBytes := a, pr_outMsgs := b\<rparr>)" for a b using assms by (simp add: out_ok_def)
  then show "out_ok (fst (publish subj d rep h p))"
    using assms sendCommand_stream(2) by (auto simp: publish_def Let_def split: payload.split option.split)
  show "pr_info (fst (publish subj d rep h p)) = pr_info p"
    by (auto simp: publish_def Let_def split: payload.split option.split)
qed

text \<open>A payload within the limit is published in one frame.\<close>

lemma respond_frame:
  assumes "out_ok p" "word_arg (msg_reply m)" "\<forall>i. pr_info p = Some i \<longrightarrow> length data \<le> si_max_payload i"
  obtains p' f where "respond m data [] p = (p', Inr True)" "out_stream p' = out_stream p @ f" "out_ok p'"
    "pr_info p' = pr_info p" "\<forall>rest. read_publish (f @ rest) = Some (msg_reply m, [], [], data, rest)"
proof -
  have m: "\<not> (\<exists>i. pr_info p = Some i \<and> si_max_payload i < length data + length ([] :: bytes))"
    using assms(3) by (force simp: not_less)
  obtain p' f where p': "publish (msg_reply m) (P_Bytes data) [] None p = (p', Inr ())"
      "out_stream p' = out_stream p @ f"
      "\<forall>rest. read_publish (f @ rest) = Some (msg_reply m, [], [], data, rest)"
    using publish_frame [OF assms(1), of None data "msg_reply m" "[]"] m assms(2) unfolding option.case by blast
  have "msg_reply m \<noteq> []" using assms(2) by (auto simp: word_arg_def)
  then have "respond m data [] p = (p', Inr True)" by (simp add: respond_def msg_respond_def p'(1))
  moreover have "out_ok p'" "pr_info p' = pr_info p"
    using publish_ok [OF assms(1), of "msg_reply m" "P_Bytes data" "[]" None] p'(1) by simp_all
  ultimately show thesis using p'(2,3) by (intro that)
qed

text \<open>
  However often a message is acknowledged, the server is told so once: the frames
  published are those of the calls that say the work goes on, in their order, and of the first
  final acknowledgement; what is called after it sends nothing.
\<close>
theorem acknowledged_once:
  assumes "out_ok p" "word_arg (msg_reply (jm_msg m))" "\<not> jm_didAck m"
    "\<forall>c \<in> set (counting cs). \<forall>i. pr_info p = Some i \<longrightarrow> length (ack_payload c) \<le> si_max_payload i"
  shows "\<exists>m' p' fs. ack_run cs m p = (m', p') \<and> out_stream p' = out_stream p @ concat fs
    \<and> list_all2 (\<lambda>f c. \<forall>rest. read_publish (f @ rest) = Some (msg_reply (jm_msg m), [], [], ack_payload c, rest))
        fs (counting cs)"
  using assms
proof (induction cs arbitrary: m p)
  case (Cons c cs)
  have lim: "\<forall>i. pr_info p = Some i \<longrightarrow> length (ack_payload c) \<le> si_max_payload i"
    using Cons.prems(4) by (simp split: if_splits)
  obtain p1 f where r: "respond (jm_msg m) (ack_payload c) [] p = (p1, Inr True)" "out_stream p1 = out_stream p @ f"
      "out_ok p1" "pr_info p1 = pr_info p"
      "\<forall>rest. read_publish (f @ rest) = Some (msg_reply (jm_msg m), [], [], ack_payload c, rest)"
    by (rule respond_frame [OF Cons.prems(1,2) lim])
  let ?m1 = "m\<lparr>jm_didAck := c \<noteq> Call_Working\<rparr>"
  have step: "ack_run (c # cs) m p = ack_run cs ?m1 p1"
    using Cons.prems(3) r(1) by (simp add: ack_step_doAck doAck_def isWIP_payload)
  show ?case
  proof (cases "c = Call_Working")
    case True
    then have "\<exists>m' p' fs. ack_run cs ?m1 p1 = (m', p') \<and> out_stream p' = out_stream p1 @ concat fs
      \<and> list_all2 (\<lambda>f c. \<forall>rest. read_publish (f @ rest) = Some (msg_reply (jm_msg ?m1), [], [], ack_payload c, rest))
          fs (counting cs)"
      using Cons.prems r(3,4) by (intro Cons.IH) auto
    then obtain m' p' fs where "ack_run cs ?m1 p1 = (m', p')" "out_stream p' = out_stream p1 @ concat fs"
        "list_all2 (\<lambda>f c. \<forall>rest. read_publish (f @ rest) = Some (msg_reply (jm_msg m), [], [], ack_payload c, rest))
          fs (counting cs)" by auto
    then show ?thesis
      unfolding step using True r(2,5)
      by (intro exI [of _ m'] exI [of _ p'] exI [of _ "f # fs"]) (simp del: ack_run.simps)
  next
    case False
    then show ?thesis
      using r(2,5) by (intro exI [of _ ?m1] exI [of _ p1] exI [of _ "[f]"]) (simp add: step ack_run_done del: ack_run.simps)
  qed
qed (simp add: exI [of _ "[]"])

definition sample_delivery :: nats_msg where
  "sample_delivery = new_msg (newMsgArg\<lparr>reply := Some (te_encode ''ackme'')\<rparr>) []"

theorem acknowledged_once_witness:
  "\<exists>m' p' f1 f2. ack_run [Call_Working, Call_Ack, Call_Nak None, Call_Working] (toJsMsg sample_delivery 5000) sample_protocol
      = (m', p')
    \<and> out_stream p' = f1 @ f2 \<and> read_publish f1 = Some (''ackme'', [], [], WPI, [])
    \<and> read_publish f2 = Some (''ackme'', [], [], ACK, [])"
proof -
  have p: "pr_info sample_protocol = Some sample_info" "out_stream sample_protocol = []" "out_ok sample_protocol"
    by (simp_all add: sample_protocol_def initial_protocol_def out_stream_def out_ok_def
        new_data_buffer_def dq_ok_def dq_bytes_def)
  have m: "msg_reply (jm_msg (toJsMsg sample_delivery 5000)) = ''ackme''"
    by (simp add: toJsMsg_def sample_delivery_def msg_reply_def new_msg_def del: te_encode_Cons)
  have "word_arg ''ackme''" by (simp add: word_arg_def CR_def LF_def)
  then obtain m' p' fs where r: "ack_run [Call_Working, Call_Ack, Call_Nak None, Call_Working]
        (toJsMsg sample_delivery 5000) sample_protocol = (m', p')" "out_stream p' = concat fs"
      "list_all2 (\<lambda>f c. \<forall>rest. read_publish (f @ rest) = Some (''ackme'', [], [], ack_payload c, rest))
        fs [Call_Working, Call_Ack]"
    using acknowledged_once [of sample_protocol "toJsMsg sample_delivery 5000"
        "[Call_Working, Call_Ack, Call_Nak None, Call_Working]"] p m
    by (auto simp: toJsMsg_def sample_info_def WPI_def ACK_def)
  then obtain f1 f2 where "fs = [f1, f2]" "\<forall>rest. read_publish (f1 @ rest) = Some (''ackme'', [], [], WPI, rest)"
      "\<forall>rest. read_publish (f2 @ rest) = Some (''ackme'', [], [], ACK, rest)"
    by (auto simp: list_all2_Cons2)
  then show ?thesis using r(1,2) by (metis append_Nil2 concat.simps)
qed

text \<open>
  An acknowledgement that could not be published still counts: when publishing its
  payload throws, the message is marked as acknowledged, the error reaches the caller, and no
  later acknowledgement of the message sends anything.
\<close>
theorem failed_ack_is_final:
  assumes "\<not> jm_didAck m" "msg_reply (jm_msg m) \<noteq> []" "reason \<noteq> []"
    "publish (msg_reply (jm_msg m)) (P_Bytes (term_payload reason)) [] None p = (p, Inl e)"
  shows "\<exists>m'. jm_term reason m p = (m', p, Inl e) \<and> ack_run cs m' p = (m', p)"
proof -
  have "\<not> isWIP (ack_payload (Call_Term reason))" unfolding isWIP_payload by simp
  then have "jm_term reason m p = (m\<lparr>jm_didAck := True\<rparr>, p, Inl e)"
    using assms by (simp add: jm_term_def doAck_def respond_def msg_respond_def)
  then show ?thesis using ack_run_done [of "m\<lparr>jm_didAck := True\<rparr>" cs p] by simp
qed

theorem failed_ack_is_final_witness:
  "\<exists>m' e. jm_term ''no'' (toJsMsg sample_delivery 5000) (sample_protocol\<lparr>pr_info := Some (sample_info\<lparr>si_max_payload := 4\<rparr>)\<rparr>)
      = (m', sample_protocol\<lparr>pr_info := Some (sample_info\<lparr>si_max_payload := 4\<rparr>)\<rparr>, Inl e)
    \<and> ack_run [Call_Ack] m' (sample_protocol\<lparr>pr_info := Some (sample_info\<lparr>si_max_payload := 4\<rparr>)\<rparr>)
      = (m', sample_protocol\<lparr>pr_info := Some (sample_info\<lparr>si_max_payload := 4\<rparr>)\<rparr>)"
proof -
  let ?p = "sample_protocol\<lparr>pr_info := Some (sample_info\<lparr>si_max_payload := 4\<rparr>)\<rparr>"
  have m: "msg_reply (jm_msg (toJsMsg sample_delivery 5000)) = ''ackme''"
    by (simp add: toJsMsg_def sample_delivery_def msg_reply_def new_msg_def del: te_encode_Cons)
  have "publish ''ackme'' (P_Bytes (term_payload ''no'')) [] None ?p = (?p, Inl (error_for_code EC_MaxPayloadExceeded None))"
    by (simp add: publish_def term_payload_def)
  then show ?thesis
    using failed_ack_is_final [of "toJsMsg sample_delivery 5000" "''no''" ?p _ "[Call_Ack]"] m
    by (auto simp: toJsMsg_def)
qed

end
