(* ===== verification/Ordered_Consumer.thy ===== *)
theory Ordered_Consumer
  imports Js_Msg Js_Manager Heartbeats
begin

text \<open>
  The subscription of a push consumer, \<open>JetStreamSubscriptionImpl\<close> of
  \<open>jetstream/jsclient.ts\<close>, with the ordered consumer: each message is taken only when it is the
  next one of the consumer, otherwise the consumer is recreated from the message after the
  last one taken, with a new inbox. Names and inbox tokens are the draws of the identifier
  generator; the requests that recreate the consumer are recorded, their answers are events.
\<close>

section \<open>State\<close>

record js_sub =
  jb_stream :: string
  jb_ordered :: bool
  jb_prefix :: string
  jb_config :: json
  jb_name :: "string option"
  jb_deliver :: string
  jb_stream_seq :: "int option"
  jb_delivery_seq :: int
  jb_hb_count :: nat
  jb_fc_count :: nat
  jb_restarts :: nat
  jb_monitor :: "idle_monitor option"
  jb_requests :: "(string \<times> json) list"

text \<open>The ordered part of \<open>_processOptions\<close>: what an ordered consumer may not set, and what
  it always sets.\<close>

definition ordered_error :: "string \<Rightarrow> js_error" where
  "ordered_error m = nats_error (''ordered consumer: '' @ m) (code_string EC_ApiError) None"

definition ordered_refused :: "json \<Rightarrow> js_error option" where
  "ordered_refused c =
     (let ack = fld ''ack_policy'' c in
      if ack \<noteq> Some (J_Str []) \<and> ack \<noteq> Some (J_Str ''none'')
      then Some (ordered_error (''ack_policy can only be set to '' @ quoted ''none''))
      else if text_or_empty (fld ''durable_name'' c) \<noteq> []
      then Some (ordered_error ''durable_name cannot be set'')
      else if text_or_empty (fld ''deliver_subject'' c) \<noteq> []
      then Some (ordered_error ''deliver_subject cannot be set'')
      else if (case number_of (fld ''max_deliver'' c) of Some n \<Rightarrow> n > 1 | None \<Rightarrow> False)
      then Some (ordered_error ''max_deliver cannot be set'')
      else if text_or_empty (fld ''deliver_group'' c) \<noteq> []
      then Some (ordered_error ''deliver_group cannot be set'')
      else None)"

definition ordered_config :: "string \<Rightarrow> json \<Rightarrow> json" where
  "ordered_config inbox c =
     fold (\<lambda>(k, v). put_prop k v)
       [(''deliver_subject'', J_Str inbox), (''ack_policy'', J_Str ''none''), (''max_deliver'', J_Num 1),
        (''flow_control'', J_Bool True),
        (''idle_heartbeat'', if truthy (fld ''idle_heartbeat'' c) then the (fld ''idle_heartbeat'' c)
                             else J_Num (int (nanos 5000))),
        (''ack_wait'', J_Num (int (nanos (22 * 60 * 60 * 1000)))), (''mem_storage'', J_Bool True),
        (''num_replicas'', J_Num 1)] c"

definition process_ordered :: "string \<Rightarrow> string \<Rightarrow> json \<Rightarrow> js_error + json" where
  "process_ordered tok pre c =
     (case ordered_refused c of
        Some e \<Rightarrow> Inl e
      | None \<Rightarrow> rbind (createInbox tok pre) (\<lambda>inbox. Inr (ordered_config inbox c)))"

section \<open>Recreating the consumer\<close>

definition inbox_prefix :: "connection \<Rightarrow> string" where
  "inbox_prefix nc = co_inboxPrefix (pr_options (nc_protocol nc))"

definition recreate :: "string \<Rightarrow> string \<Rightarrow> int option \<Rightarrow> js_sub \<Rightarrow> js_sub" where
  "recreate inbox cname sseq b =
     (let cfg = fold (\<lambda>(k, v). put_prop k v)
            [(''name'', J_Str cname), (''deliver_subject'', J_Str inbox),
             (''deliver_policy'', J_Str ''by_start_sequence''),
             (''opt_start_seq'', case sseq of Some n \<Rightarrow> J_Num n | None \<Rightarrow> J_Null)] (jb_config b)
      in b\<lparr>jb_delivery_seq := 0, jb_hb_count := 0, jb_fc_count := 0, jb_restarts := jb_restarts b + 1,
           jb_deliver := inbox, jb_config := cfg,
           jb_requests := jb_requests b @ [(jb_prefix b @ ''.CONSUMER.CREATE.'' @ jb_stream b,
             J_Obj [(''stream_name'', J_Str (jb_stream b)), (''config'', cfg)])]\<rparr>)"

definition resetOrderedConsumer ::
  "string \<Rightarrow> string \<Rightarrow> nat \<Rightarrow> int option \<Rightarrow> js_sub \<Rightarrow> connection \<Rightarrow> js_sub \<times> connection \<times> (js_error + unit)" where
  "resetOrderedConsumer tok cname i sseq b nc =
     (if sub_isClosed (sub_of (nc_protocol nc) i) then (b, nc, Inr ())
      else case createInbox tok (inbox_prefix nc) of
        Inl e \<Rightarrow> (b, nc, Inl e)
      | Inr inbox \<Rightarrow>
          (case nc_resub i inbox None nc of
             (nc1, Inl e) \<Rightarrow> (b, nc1, Inl e)
           | (nc1, Inr _) \<Rightarrow> (recreate inbox cname sseq b, nc1, Inr ())))"

text \<open>The answer to such a request replaces the configuration and the name.\<close>

definition recreated :: "json \<Rightarrow> js_sub \<Rightarrow> js_sub" where
  "recreated ci b =
     b\<lparr>jb_config := (case fld ''config'' ci of Some c \<Rightarrow> c | None \<Rightarrow> J_Null),
       jb_name := (case fld ''name'' ci of Some (J_Str s) \<Rightarrow> Some s | _ \<Rightarrow> None)\<rparr>"

definition next_seq :: "int option \<Rightarrow> int option" where
  "next_seq s = map_option (\<lambda>n. n + 1) s"

section \<open>Messages\<close>

definition checkOrderedConsumer ::
  "string \<Rightarrow> string \<Rightarrow> nat \<Rightarrow> js_msg \<Rightarrow> js_sub \<Rightarrow> connection \<Rightarrow> js_sub \<times> connection \<times> (js_error + bool)" where
  "checkOrderedConsumer tok cname i m b nc =
     (case snd (jm_info m) of
        Inl e \<Rightarrow> (b, nc, Inl e)
      | Inr d \<Rightarrow>
          if di_deliverySequence d \<noteq> Some (jb_delivery_seq b + 1)
          then (let (b1, nc1, r) = resetOrderedConsumer tok cname i (next_seq (jb_stream_seq b)) b nc
                in (b1, nc1, rbind r (\<lambda>_. Inr False)))
          else (b\<lparr>jb_delivery_seq := jb_delivery_seq b + 1, jb_stream_seq := di_streamSequence d\<rparr>, nc, Inr True))"

text \<open>A heartbeat: a stalled consumer is answered, then the last sequence the server delivered
  is compared.\<close>

definition header_text :: "string \<Rightarrow> nats_msg \<Rightarrow> js_error + string" where
  "header_text k m = rbind (msg_headers m) (\<lambda>h. case h of
     None \<Rightarrow> throw ''Cannot read properties of undefined''
   | Some hs \<Rightarrow> rbind (hdr_get hs k Exact) (\<lambda>v. Inr (case v of Some s \<Rightarrow> s | None \<Rightarrow> [])))"

definition answer_stalled :: "nats_msg \<Rightarrow> connection \<Rightarrow> connection \<times> (js_error + unit)" where
  "answer_stalled m nc =
     (case header_text ''Nats-Consumer-Stalled'' m of
        Inl e \<Rightarrow> (nc, Inl e)
      | Inr rm \<Rightarrow> if rm \<noteq> [] then nc_publish rm (P_Bytes []) [] None nc else (nc, Inr ()))"

definition checkHbOrderConsumer ::
  "string \<Rightarrow> string \<Rightarrow> nat \<Rightarrow> nats_msg \<Rightarrow> js_sub \<Rightarrow> connection \<Rightarrow> js_sub \<times> connection \<times> (js_error + bool)" where
  "checkHbOrderConsumer tok cname i m b nc =
     (case answer_stalled m nc of
        (nc1, Inl e) \<Rightarrow> (b, nc1, Inl e)
      | (nc1, Inr _) \<Rightarrow>
          (case header_text ''Nats-Last-Consumer'' m of
             Inl e \<Rightarrow> (b, nc1, Inl e)
           | Inr s \<Rightarrow>
               let b1 = b\<lparr>jb_hb_count := jb_hb_count b + 1\<rparr> in
               if parse_int s \<noteq> Some (jb_delivery_seq b1)
               then (let (b2, nc2, r) = resetOrderedConsumer tok cname i (next_seq (jb_stream_seq b1)) b1 nc1
                     in (b2, nc2, rbind r (\<lambda>_. Inr False)))
               else (b1, nc1, Inr False)))"

text \<open>\<open>ingestionFn(ordered)\<close> for a message; the result is whether it is ingested and whether
  it belongs to the protocol.\<close>

definition ingestion ::
  "nat \<Rightarrow> string \<Rightarrow> string \<Rightarrow> nat \<Rightarrow> bool \<Rightarrow> js_msg \<Rightarrow> js_sub \<Rightarrow> connection
    \<Rightarrow> js_sub \<times> connection \<times> (js_error + bool \<times> bool)" where
  "ingestion now tok cname i ordered m b nc =
     (case checkJsError (jm_msg m) of
        Inl e \<Rightarrow> (b, nc, Inl e)
      | Inr err \<Rightarrow>
          let b1 = (if err = None then b\<lparr>jb_monitor := map_option (im_work now) (jb_monitor b)\<rparr> else b) in
          (case isHeartbeatMsg (jm_msg m) of
             Inl e \<Rightarrow> (b1, nc, Inl e)
           | Inr True \<Rightarrow>
               if ordered
               then (let (b2, nc2, r) = checkHbOrderConsumer tok cname i (jm_msg m) b1 nc
                     in (b2, nc2, rbind r (\<lambda>ingest. Inr (ingest, True))))
               else (b1\<lparr>jb_hb_count := jb_hb_count b1 + 1\<rparr>, nc, Inr (True, True))
           | Inr False \<Rightarrow>
               (case isFlowControlMsg (jm_msg m) of
                  Inl e \<Rightarrow> (b1, nc, Inl e)
                | Inr True \<Rightarrow> (b1\<lparr>jb_fc_count := jb_fc_count b1 + 1\<rparr>, nc, Inr (True, True))
                | Inr False \<Rightarrow>
                    if ordered
                    then (let (b2, nc2, r) = checkOrderedConsumer tok cname i m b1 nc
                          in (b2, nc2, rbind r (\<lambda>ingest. Inr (ingest, False))))
                    else (b1, nc, Inr (True, False)))))"

text \<open>The handler of missed heartbeats for an ordered consumer, which never stops the
  monitor.\<close>

definition missed_heartbeats ::
  "string \<Rightarrow> string \<Rightarrow> nat \<Rightarrow> js_sub \<Rightarrow> connection \<Rightarrow> js_sub \<times> connection \<times> (js_error + bool)" where
  "missed_heartbeats tok cname i b nc =
     (if \<not> pr_connected (nc_protocol nc) then (b, nc, Inr False)
      else let sq = (case jb_stream_seq b of Some n \<Rightarrow> n | None \<Rightarrow> 0);
               (b1, nc1, r) = resetOrderedConsumer tok cname i (Some (sq + 1)) b nc
           in (case r of
                 Inl e \<Rightarrow> (b1, nc1, Inl e)
               | Inr _ \<Rightarrow> (b1\<lparr>jb_monitor := map_option im_restart (jb_monitor b1)\<rparr>, nc1, Inr False)))"


section \<open>Every message once and in order\<close>

text \<open>The stream is a list of increasing sequences; a consumer that starts at \<open>s\<close> numbers
  the ones from \<open>s\<close> on. The start of the current consumer is in the last request.\<close>

definition seqs_from :: "nat \<Rightarrow> nat list \<Rightarrow> nat list" where
  "seqs_from s ss = filter (\<lambda>q. s \<le> q) ss"

definition request_start :: "json \<Rightarrow> nat" where
  "request_start req =
     (case fld ''config'' req of
        Some c \<Rightarrow> (case number_of (fld ''opt_start_seq'' c) of Some n \<Rightarrow> nat n | None \<Rightarrow> 0)
      | None \<Rightarrow> 0)"

definition start_of :: "nat \<Rightarrow> js_sub \<Rightarrow> nat" where
  "start_of s0 b = (if jb_requests b = [] then s0 else request_start (snd (last (jb_requests b))))"

text \<open>A message of the consumer: no status, and its reply subject carries its number and its
  sequence.\<close>

definition carries :: "js_msg \<Rightarrow> nat \<Rightarrow> nat \<Rightarrow> bool" where
  "carries m k q \<longleftrightarrow>
     checkJsError (jm_msg m) = Inr None \<and> isHeartbeatMsg (jm_msg m) = Inr False
     \<and> isFlowControlMsg (jm_msg m) = Inr False
     \<and> (\<exists>d. snd (jm_info m) = Inr d \<and> di_deliverySequence d = Some (int k) \<and> di_streamSequence d = Some (int q))"

text \<open>What can happen: messages of the current consumer in any order, lost or repeated;
  heartbeats; missed heartbeats; answers to the requests. The last argument is what was
  ingested so far.\<close>

inductive ordered_run ::
  "nat \<Rightarrow> nat list \<Rightarrow> nat \<Rightarrow> js_sub \<Rightarrow> connection \<Rightarrow> nat list \<Rightarrow> bool" for s0 ss i where
  start: "jb_stream_seq b = Some 0 \<Longrightarrow> jb_delivery_seq b = 0 \<Longrightarrow> jb_requests b = [] \<Longrightarrow>
      jb_config b = J_Obj c \<Longrightarrow> ordered_run s0 ss i b nc []"
| arrives: "ordered_run s0 ss i b nc acc \<Longrightarrow> k < length (seqs_from (start_of s0 b) ss) \<Longrightarrow>
      carries m (Suc k) (seqs_from (start_of s0 b) ss ! k) \<Longrightarrow>
      ingestion now tok cname i True m b nc = (b', nc', r) \<Longrightarrow>
      ordered_run s0 ss i b' nc'
        (if r = Inr (True, False) then acc @ [seqs_from (start_of s0 b) ss ! k] else acc)"
| beats: "ordered_run s0 ss i b nc acc \<Longrightarrow> isHeartbeatMsg (jm_msg m) = Inr True \<Longrightarrow>
      ingestion now tok cname i True m b nc = (b', nc', r) \<Longrightarrow> ordered_run s0 ss i b' nc' acc"
| missed: "ordered_run s0 ss i b nc acc \<Longrightarrow> missed_heartbeats tok cname i b nc = (b', nc', r) \<Longrightarrow>
      ordered_run s0 ss i b' nc' acc"
| answered: "ordered_run s0 ss i b nc acc \<Longrightarrow> fld ''config'' ci = Some (J_Obj c) \<Longrightarrow> ordered_run s0 ss i (recreated ci b) nc acc"

definition last_taken :: "nat list \<Rightarrow> nat \<Rightarrow> nat" where
  "last_taken ss n = (if n = 0 then 0 else ss ! (n - 1))"

text \<open>A recreation before the first message was taken asks for the stream from sequence 1; a later one
  asks for a later start. The messages the user gets are those from the first one asked for, or all of
  the stream when there was such a request.\<close>

definition asked_for_all :: "js_sub \<Rightarrow> bool" where
  "asked_for_all b \<longleftrightarrow> list_ex (\<lambda>r. request_start (snd r) = 1) (jb_requests b)"

definition promised :: "nat \<Rightarrow> nat list \<Rightarrow> js_sub \<Rightarrow> nat list" where
  "promised s0 ss b = (if asked_for_all b then ss else seqs_from s0 ss)"

definition in_step :: "nat \<Rightarrow> nat list \<Rightarrow> js_sub \<Rightarrow> nat \<Rightarrow> bool" where
  "in_step s0 ss b n \<longleftrightarrow> (\<exists>m. jb_config b = J_Obj m) \<and> n \<le> length (promised s0 ss b)
     \<and> jb_stream_seq b = Some (int (last_taken (promised s0 ss b) n))
     \<and> (\<exists>j \<le> n. seqs_from (start_of s0 b) ss = drop j (promised s0 ss b) \<and> jb_delivery_seq b = int (n - j))"

text \<open>A step that keeps the run in step, and what the user was promised once a message was taken.\<close>

definition stays :: "nat \<Rightarrow> nat list \<Rightarrow> js_sub \<Rightarrow> nat \<Rightarrow> js_sub \<Rightarrow> bool" where
  "stays s0 ss b n b' \<longleftrightarrow> in_step s0 ss b' n \<and> (n \<noteq> 0 \<longrightarrow> promised s0 ss b' = promised s0 ss b)"

lemma promised_cong: "jb_requests b = jb_requests b' \<Longrightarrow> promised s0 ss b = promised s0 ss b'"
  by (simp add: promised_def asked_for_all_def)

lemma in_step_cong:
  "jb_stream_seq b = jb_stream_seq b' \<Longrightarrow> jb_requests b = jb_requests b' \<Longrightarrow>
   jb_delivery_seq b = jb_delivery_seq b' \<Longrightarrow> jb_config b = jb_config b' \<Longrightarrow> in_step s0 ss b n = in_step s0 ss b' n"
  using promised_cong [of b b' s0 ss] by (simp add: in_step_def start_of_def)

lemma stays_refl: "in_step s0 ss b n \<Longrightarrow> stays s0 ss b n b"
  by (simp add: stays_def)

lemma stays_cong:
  "stays s0 ss b n b' \<Longrightarrow> jb_requests a = jb_requests b \<Longrightarrow> stays s0 ss a n b'"
  using promised_cong [of a b s0 ss] by (simp add: stays_def)

lemma stays_same:
  "in_step s0 ss b n \<Longrightarrow> jb_stream_seq b' = jb_stream_seq b \<Longrightarrow> jb_requests b' = jb_requests b \<Longrightarrow>
   jb_delivery_seq b' = jb_delivery_seq b \<Longrightarrow> jb_config b' = jb_config b \<Longrightarrow> stays s0 ss b n b'"
  using in_step_cong [of b' b s0 ss n] promised_cong [of b' b s0 ss] by (simp add: stays_def)

lemma sorted_split:
  fixes ss :: "nat list"
  assumes "sorted_wrt (<) ss" "n < length ss"
  shows "\<forall>q \<in> set (take (Suc n) ss). q \<le> ss ! n" "\<forall>q \<in> set (drop (Suc n) ss). ss ! n < q"
proof -
  have sp: "ss = take n ss @ ss ! n # drop (Suc n) ss" using assms(2) by (rule id_take_nth_drop)
  have "sorted_wrt (<) (take n ss @ ss ! n # drop (Suc n) ss)" using assms(1) sp by simp
  then have "\<forall>q \<in> set (take n ss). q < ss ! n" "\<forall>q \<in> set (drop (Suc n) ss). ss ! n < q"
    by (auto simp: sorted_wrt_append)
  then show "\<forall>q \<in> set (take (Suc n) ss). q \<le> ss ! n" "\<forall>q \<in> set (drop (Suc n) ss). ss ! n < q"
    using assms(2) by (auto simp: take_Suc_conv_app_nth less_imp_le)
qed

lemma seqs_from_next:
  fixes ss :: "nat list"
  assumes "sorted_wrt (<) ss" "n \<le> length ss" "\<forall>q \<in> set ss. 0 < q"
  shows "seqs_from (Suc (last_taken ss n)) ss = drop n ss"
proof (cases n)
  case 0
  then show ?thesis using assms(3) by (auto simp: seqs_from_def last_taken_def Suc_le_eq)
next
  case (Suc k)
  then have k: "k < length ss" "last_taken ss n = ss ! k" using assms(2) by (simp_all add: last_taken_def)
  have "filter (\<lambda>q. Suc (ss ! k) \<le> q) (take n ss) = []"
    using sorted_split(1) [OF assms(1) k(1)] Suc by (auto simp: filter_empty_conv not_less_eq_eq)
  moreover have "filter (\<lambda>q. Suc (ss ! k) \<le> q) (drop n ss) = drop n ss"
    using sorted_split(2) [OF assms(1) k(1)] Suc by (intro filter_True) (auto simp: Suc_le_eq)
  ultimately show ?thesis
    unfolding seqs_from_def k(2) by (metis append_self_conv2 append_take_drop_id filter_append)
qed

lemma seqs_from_promised:
  fixes ss :: "nat list"
  assumes "sorted_wrt (<) ss" "\<forall>q \<in> set ss. 0 < q" "n \<le> length (promised s0 ss b)" "n \<noteq> 0 \<or> asked_for_all b"
  shows "seqs_from (Suc (last_taken (promised s0 ss b) n)) ss = drop n (promised s0 ss b)"
proof (cases "asked_for_all b")
  case True
  then show ?thesis using seqs_from_next [OF assms(1) _ assms(2)] assms(3) by (simp add: promised_def)
next
  case False
  let ?bs = "seqs_from s0 ss" and ?q = "last_taken (seqs_from s0 ss) n"
  have p: "promised s0 ss b = ?bs" "n \<noteq> 0" using False assms(4) by (simp_all add: promised_def)
  then have "?q \<in> set ?bs" using assms(3) by (simp add: last_taken_def)
  then have "s0 \<le> ?q" by (simp add: seqs_from_def)
  then have "seqs_from (Suc ?q) ss = seqs_from (Suc ?q) ?bs"
    by (auto simp: seqs_from_def intro!: filter_cong)
  also have "\<dots> = drop n ?bs"
    using assms(1-3) p(1) by (intro seqs_from_next) (auto simp: seqs_from_def sorted_wrt_filter)
  finally show ?thesis by (simp add: p(1))
qed

lemma request_start_recreate:
  assumes "\<exists>m. jb_config b = J_Obj m"
  shows "start_of s0 (recreate inbox cname (Some (int q)) b) = q"
    "asked_for_all (recreate inbox cname (Some (int q)) b) \<longleftrightarrow> asked_for_all b \<or> q = 1"
  using assms
  by (auto simp: start_of_def recreate_def request_start_def Let_def fld_def put_prop_def number_of_def update_conv'
      asked_for_all_def)

lemma recreate_in_step:
  assumes "in_step s0 ss b n" "sorted_wrt (<) ss" "\<forall>q \<in> set ss. 0 < q"
  shows "stays s0 ss b n (recreate inbox cname (Some (int (last_taken (promised s0 ss b) n) + 1)) b)"
proof -
  let ?q = "last_taken (promised s0 ss b) n"
  let ?b = "recreate inbox cname (Some (int (Suc ?q))) b"
  obtain m where m: "jb_config b = J_Obj m" using assms(1) by (auto simp: in_step_def)
  have r: "start_of s0 ?b = Suc ?q" "asked_for_all ?b \<longleftrightarrow> asked_for_all b \<or> ?q = 0"
    using m request_start_recreate [where b = b and q = "Suc ?q"] by auto
  have n: "n \<le> length (promised s0 ss b)" using assms(1) by (simp add: in_step_def)
  have q: "?q = 0 \<longleftrightarrow> n = 0"
  proof (cases n)
    case (Suc k)
    then have "?q \<in> set (promised s0 ss b)" using n by (simp add: last_taken_def)
    then have "?q \<in> set ss" by (auto simp: promised_def seqs_from_def split: if_splits)
    then show ?thesis using assms(3) Suc by auto
  qed (simp add: last_taken_def)
  have same: "promised s0 ss ?b = promised s0 ss b" if "n \<noteq> 0" using that q r(2) by (simp add: promised_def)
  have all: "promised s0 ss ?b = ss" if "n = 0" using that q r(2) by (simp add: promised_def)
  have lt: "last_taken (promised s0 ss ?b) n = ?q" using same by (cases "n = 0") (simp_all add: last_taken_def)
  have "seqs_from (Suc ?q) ss = drop n (promised s0 ss ?b)"
  proof (cases "n = 0")
    case True
    then show ?thesis using seqs_from_next [OF assms(2), of 0] assms(3) all [OF True] by (simp add: last_taken_def)
  next
    case False
    then show ?thesis using seqs_from_promised [OF assms(2,3) n] same by simp
  qed
  moreover have "n \<le> length (promised s0 ss ?b)" using n same by (cases "n = 0") simp_all
  moreover have "\<exists>m'. jb_config ?b = J_Obj m'" using m by (simp add: recreate_def put_prop_def Let_def)
  moreover have "jb_stream_seq ?b = jb_stream_seq b" "jb_delivery_seq ?b = 0" by (simp_all add: recreate_def Let_def)
  ultimately have "in_step s0 ss ?b n"
    using assms(1) r(1) lt unfolding in_step_def by auto
  then show ?thesis using same by (simp add: stays_def add.commute)
qed

lemma reset_in_step:
  assumes "in_step s0 ss b n" "sorted_wrt (<) ss" "\<forall>q \<in> set ss. 0 < q"
    "resetOrderedConsumer tok cname i (Some (int (last_taken (promised s0 ss b) n) + 1)) b nc = (b', nc', r)"
  shows "stays s0 ss b n b'"
  using assms(1,4) recreate_in_step [OF assms(1-3)] stays_refl [OF assms(1)]
  by (auto simp: resetOrderedConsumer_def split: if_splits sum.splits prod.splits)

lemma in_step_seq: "in_step s0 ss b n \<Longrightarrow> jb_stream_seq b = Some (int (last_taken (promised s0 ss b) n))"
  by (simp add: in_step_def)

lemma hb_in_step:
  assumes "in_step s0 ss b n" "sorted_wrt (<) ss" "\<forall>q \<in> set ss. 0 < q"
    "checkHbOrderConsumer tok cname i m b nc = (b', nc', r)"
  shows "stays s0 ss b n b'"
proof -
  let ?b = "b\<lparr>jb_hb_count := jb_hb_count b + 1\<rparr>"
  have s: "stays s0 ss b n ?b" using assms(1) by (rule stays_same) simp_all
  have p: "promised s0 ss ?b = promised s0 ss b" by (rule promised_cong) simp
  have "b' = b \<or> b' = ?b \<or> (\<exists>nc1 nc2 r'. resetOrderedConsumer tok cname i
      (Some (int (last_taken (promised s0 ss ?b) n) + 1)) ?b nc1 = (b', nc2, r'))"
    using assms(4) in_step_seq [OF assms(1)] unfolding p
    by (auto simp: checkHbOrderConsumer_def Let_def next_seq_def split: if_splits sum.splits prod.splits)
  moreover have "stays s0 ss b n b'" if "stays s0 ss ?b n b'" using stays_cong [OF that] by simp
  moreover have "in_step s0 ss ?b n" using s by (simp add: stays_def)
  ultimately show ?thesis using stays_refl [OF assms(1)] s reset_in_step [OF _ assms(2,3)] by blast
qed

lemma missed_in_step:
  assumes "in_step s0 ss b n" "sorted_wrt (<) ss" "\<forall>q \<in> set ss. 0 < q"
    "missed_heartbeats tok cname i b nc = (b', nc', r)"
  shows "stays s0 ss b n b'"
proof (cases "pr_connected (nc_protocol nc)")
  case True
  let ?q = "last_taken (promised s0 ss b) n"
  obtain b1 nc1 r1 where x: "resetOrderedConsumer tok cname i (Some (int ?q + 1)) b nc = (b1, nc1, r1)"
    by (cases "resetOrderedConsumer tok cname i (Some (int ?q + 1)) b nc") auto
  have s1: "stays s0 ss b n b1" by (rule reset_in_step [OF assms(1-3) x])
  let ?b2 = "b1\<lparr>jb_monitor := map_option im_restart (jb_monitor b1)\<rparr>"
  have "in_step s0 ss ?b2 n = in_step s0 ss b1 n" by (rule in_step_cong) simp_all
  moreover have "promised s0 ss ?b2 = promised s0 ss b1" by (rule promised_cong) simp
  ultimately have "stays s0 ss b n ?b2" using s1 by (simp add: stays_def)
  moreover have "b' = b1 \<or> b' = ?b2"
    using assms(4) x True in_step_seq [OF assms(1)]
    by (auto simp: missed_heartbeats_def Let_def split: sum.splits)
  ultimately show ?thesis using s1 by blast
qed (use assms stays_refl in \<open>auto simp: missed_heartbeats_def\<close>)

lemma ingest_false_not_true: "rbind r (\<lambda>_. Inr False) \<noteq> Inr True"
  by (cases r) auto

lemma check_in_step:
  assumes "in_step s0 ss b n" "sorted_wrt (<) ss" "\<forall>q \<in> set ss. 0 < q"
    "k < length (seqs_from (start_of s0 b) ss)" "carries m (Suc k) (seqs_from (start_of s0 b) ss ! k)"
    "checkOrderedConsumer tok cname i m b nc = (b', nc', r)"
  shows "if r = Inr True then in_step s0 ss b' (Suc n) \<and> promised s0 ss b' = promised s0 ss b
      \<and> n < length (promised s0 ss b) \<and> seqs_from (start_of s0 b) ss ! k = promised s0 ss b ! n
    else stays s0 ss b n b'"
proof -
  let ?p = "promised s0 ss b"
  obtain j where j: "j \<le> n" "n \<le> length ?p" "seqs_from (start_of s0 b) ss = drop j ?p"
      "jb_delivery_seq b = int (n - j)"
    using assms(1) by (auto simp: in_step_def)
  obtain d where d: "snd (jm_info m) = Inr d" "di_deliverySequence d = Some (int (Suc k))"
      "di_streamSequence d = Some (int (drop j ?p ! k))"
    using assms(5) j(3) by (auto simp: carries_def)
  show ?thesis
  proof (cases "j + k = n")
    case True
    then have b': "b' = b\<lparr>jb_delivery_seq := jb_delivery_seq b + 1, jb_stream_seq := Some (int (?p ! n))\<rparr>" "r = Inr True"
      using assms(4,6) d j by (auto simp: checkOrderedConsumer_def)
    have n: "n < length ?p" using assms(4) j True by simp
    have p: "promised s0 ss b' = ?p" by (rule promised_cong) (simp add: b')
    have "start_of s0 b' = start_of s0 b" by (simp add: b' start_of_def)
    then have "in_step s0 ss b' (Suc n)"
      using assms(1) j True b' n unfolding in_step_def p
      by (auto simp: last_taken_def intro!: exI [of _ j])
    then show ?thesis using b' j True assms(4) n p by simp
  next
    case False
    then have "\<exists>r'. resetOrderedConsumer tok cname i (Some (int (last_taken ?p n) + 1)) b nc = (b', nc', r') \<and> r \<noteq> Inr True"
      using assms(6) d j in_step_seq [OF assms(1)]
      by (auto simp: checkOrderedConsumer_def next_seq_def ingest_false_not_true split: if_splits prod.splits sum.splits)
    then show ?thesis using reset_in_step [OF assms(1-3)] by auto
  qed
qed

lemma ingested_not_error: "rbind r (\<lambda>ingest. Inr (ingest, False)) = Inr (True, False) \<longleftrightarrow> r = Inr True"
  by (cases r) auto

lemma arrives_in_step:
  assumes s: "in_step s0 ss b n" and ss: "sorted_wrt (<) ss" "\<forall>q \<in> set ss. 0 < q"
    and k: "k < length (seqs_from (start_of s0 b) ss)" "carries m (Suc k) (seqs_from (start_of s0 b) ss ! k)"
    and i: "ingestion now tok cname i True m b nc = (b', nc', r)"
  shows "if r = Inr (True, False) then in_step s0 ss b' (Suc n) \<and> promised s0 ss b' = promised s0 ss b
      \<and> n < length (promised s0 ss b) \<and> seqs_from (start_of s0 b) ss ! k = promised s0 ss b ! n
    else stays s0 ss b n b'"
proof -
  let ?b = "b\<lparr>jb_monitor := map_option (im_work now) (jb_monitor b)\<rparr>"
  obtain r1 where c: "checkOrderedConsumer tok cname i m ?b nc = (b', nc', r1)"
      "r = rbind r1 (\<lambda>ingest. Inr (ingest, False))"
    using i k(2) by (auto simp: ingestion_def carries_def Let_def split: prod.splits)
  have i: "in_step s0 ss ?b n" using s by (subst in_step_cong [of _ b]) simp_all
  have st: "start_of s0 ?b = start_of s0 b" "promised s0 ss ?b = promised s0 ss b"
    by (simp_all add: start_of_def promised_def asked_for_all_def)
  have "stays s0 ss b n b'" if "stays s0 ss ?b n b'" using stays_cong [OF that] by simp
  then show ?thesis
    using check_in_step [OF i ss, unfolded st, OF k c(1)] c(2) by (simp add: ingested_not_error)
qed

lemma beats_in_step:
  assumes s: "in_step s0 ss b n" and ss: "sorted_wrt (<) ss" "\<forall>q \<in> set ss. 0 < q"
    and m: "isHeartbeatMsg (jm_msg m) = Inr True" and i: "ingestion now tok cname i True m b nc = (b', nc', r)"
  shows "stays s0 ss b n b'"
proof (cases "checkJsError (jm_msg m)")
  case Inl
  then show ?thesis using s i stays_refl by (simp add: ingestion_def)
next
  case (Inr err)
  let ?b = "if err = None then b\<lparr>jb_monitor := map_option (im_work now) (jb_monitor b)\<rparr> else b"
  obtain r1 where "checkHbOrderConsumer tok cname i (jm_msg m) ?b nc = (b', nc', r1)"
    using i m Inr by (auto simp: ingestion_def Let_def split: prod.splits)
  moreover have "in_step s0 ss ?b n" using s by (subst in_step_cong [of _ b]) simp_all
  ultimately have "stays s0 ss ?b n b'" using hb_in_step [OF _ ss] by blast
  then show ?thesis by (rule stays_cong) simp
qed

lemma stays_taken:
  "in_step s0 ss b n \<Longrightarrow> stays s0 ss b n b' \<Longrightarrow> take n (promised s0 ss b') = take n (promised s0 ss b)"
  by (cases n) (simp_all add: stays_def)

lemma ordered_run_in_step:
  assumes "ordered_run s0 ss i b nc acc" "sorted_wrt (<) ss" "\<forall>q \<in> set ss. 0 < q"
  shows "in_step s0 ss b (length acc) \<and> acc = take (length acc) (promised s0 ss b)"
  using assms(1)
proof induction
  case (start b c nc)
  then show ?case by (simp add: in_step_def start_of_def promised_def asked_for_all_def last_taken_def)
next
  case (arrives b nc acc k m now tok cname b' nc' r)
  have *: "if r = Inr (True, False) then in_step s0 ss b' (Suc (length acc)) \<and> promised s0 ss b' = promised s0 ss b
      \<and> length acc < length (promised s0 ss b) \<and> seqs_from (start_of s0 b) ss ! k = promised s0 ss b ! length acc
      else stays s0 ss b (length acc) b'"
    using arrives_in_step [OF _ assms(2,3) arrives.hyps(2-4)] arrives.IH by blast
  show ?case
  proof (cases "r = Inr (True, False)")
    case True
    then show ?thesis using * arrives.IH by (simp add: take_Suc_conv_app_nth)
  next
    case False
    then have "stays s0 ss b (length acc) b'" using * by simp
    then show ?thesis using stays_taken [of s0 ss b "length acc" b'] arrives.IH False by (simp add: stays_def)
  qed
next
  case (beats b nc acc m now tok cname b' nc' r)
  then show ?case using beats_in_step [OF _ assms(2,3)] stays_taken by (metis stays_def)
next
  case (missed b nc acc tok cname b' nc' r)
  then show ?case using missed_in_step [OF _ assms(2,3)] stays_taken by (metis stays_def)
next
  case (answered b nc acc ci c)
  then show ?case by (auto simp: recreated_def in_step_def start_of_def promised_def asked_for_all_def)
qed

text \<open>
  C9: No message is taken twice and none is skipped, whatever is lost, repeated or reordered on the way
  and however often the consumer is recreated. What was taken is a beginning of the messages of the
  stream from the first one asked for; only when the consumer was recreated before it had taken a
  message, which asks for the stream from sequence 1, it is a beginning of the whole stream, with
  the messages before the first one asked for. The sequence the consumer remembers is that of the last
  message taken, or zero, and a consumer recreated behind it would deliver exactly the messages
  that are left, and all of the stream when none was taken.
\<close>
theorem ordered_consumer_takes_the_stream:
  assumes "ordered_run s0 ss i b nc acc" "sorted_wrt (<) ss" "\<forall>q \<in> set ss. 0 < q"
  shows "let msgs = (if asked_for_all b then ss else seqs_from s0 ss)
    in acc = take (length acc) msgs
      \<and> jb_stream_seq b = Some (if acc = [] then 0 else int (last acc))
      \<and> seqs_from (Suc (if acc = [] then 0 else last acc)) ss = (if acc = [] then ss else drop (length acc) msgs)"
proof -
  let ?p = "promised s0 ss b" and ?n = "length acc"
  have s: "in_step s0 ss b ?n" "acc = take ?n ?p"
    using ordered_run_in_step [OF assms] by blast+
  have n: "?n \<le> length ?p" using s(1) by (simp add: in_step_def)
  have l: "last_taken ?p ?n = (if acc = [] then 0 else last acc)"
  proof (cases "acc = []")
    case False
    then have "last acc = take ?n ?p ! (?n - 1)" using s(2) by (metis last_conv_nth)
    then show ?thesis using False by (simp add: last_taken_def)
  qed (simp add: last_taken_def)
  have "seqs_from (Suc (last_taken ?p ?n)) ss = (if acc = [] then ss else drop ?n ?p)"
  proof (cases "acc = []")
    case True
    then show ?thesis using assms(3) by (auto simp: last_taken_def seqs_from_def Suc_le_eq)
  next
    case False
    then show ?thesis using seqs_from_promised [OF assms(2,3) n] by simp
  qed
  then show ?thesis
    using s(2) in_step_seq [OF s(1)] unfolding l by (simp add: promised_def)
qed

definition sample_js_sub :: js_sub where
  "sample_js_sub = \<lparr>jb_stream = ''S'', jb_ordered = True, jb_prefix = ''$JS.API'', jb_config = J_Obj [],
     jb_name = Some ''c'', jb_deliver = ''_INBOX.d'', jb_stream_seq = Some 0, jb_delivery_seq = 0, jb_hb_count = 0,
     jb_fc_count = 0, jb_restarts = 0, jb_monitor = None, jb_requests = []\<rparr>"

definition sample_js_msg :: "int \<Rightarrow> int \<Rightarrow> js_msg" where
  "sample_js_msg k q = (toJsMsg (new_msg newMsgArg [1]) 5000)\<lparr>jm_di := Some
     \<lparr>di_domain = [], di_account_hash = [], di_stream = ''S'', di_consumer = ''c'', di_deliveryCount = Some 1,
      di_redeliveryCount = Some 1, di_redelivered = False, di_streamSequence = Some q, di_deliverySequence = Some k,
      di_timestampNanos = Some 0, di_pending = Some 0\<rparr>\<rparr>"

lemma sample_carries: "carries (sample_js_msg (int k) (int q)) k q"
  by (simp add: carries_def sample_js_msg_def toJsMsg_def new_msg_def newMsgArg_def checkJsError_def
      isHeartbeatMsg_def isFlowControlMsg_def msg_data_def jm_info_def)

lemma sample_run:
  "ordered_run 5 [2, 5, 7] 0 (sample_js_sub\<lparr>jb_delivery_seq := 1, jb_stream_seq := Some 5\<rparr>) nc [5]"
proof -
  have s: "ordered_run 5 [2, 5, 7] 0 sample_js_sub nc []" by (rule ordered_run.start) (simp_all add: sample_js_sub_def)
  have f: "seqs_from (start_of 5 sample_js_sub) [2, 5, 7] = [5, 7]"
    by (simp add: seqs_from_def start_of_def sample_js_sub_def)
  have "ingestion 0 [] [] 0 True (sample_js_msg 1 5) sample_js_sub nc =
      (sample_js_sub\<lparr>jb_delivery_seq := 1, jb_stream_seq := Some 5\<rparr>, nc, Inr (True, False))"
    using sample_carries [of 1 5]
    by (simp add: ingestion_def carries_def checkOrderedConsumer_def sample_js_msg_def jm_info_def sample_js_sub_def Let_def)
  from ordered_run.arrives [OF s _ _ this, of 0] sample_carries [of 1 5] show ?thesis by (simp add: f)
qed

theorem ordered_consumer_takes_the_stream_witness:
  "jb_stream_seq (sample_js_sub\<lparr>jb_delivery_seq := 1, jb_stream_seq := Some 5\<rparr>) = Some 5
    \<and> seqs_from (Suc 5) [2, 5, 7] = [7]"
  using ordered_consumer_takes_the_stream [OF sample_run [of "undefined"]]
  by (simp add: Let_def asked_for_all_def sample_js_sub_def seqs_from_def)

section \<open>What a reset forgets\<close>

text \<open>
  When the heartbeats of an ordered consumer are missed before its first message was taken,
  the request that recreates it replaces the policy the user chose by the start at the first
  message of the stream: a consumer of new or last messages, or from a time, is given the
  whole history, and the rest of its configuration, a start time included, is sent unchanged.
\<close>
theorem reset_forgets_the_start:
  assumes "jb_stream_seq b = Some 0" "jb_config b = J_Obj c" "pr_connected (nc_protocol nc)"
    "\<not> sub_isClosed (sub_of (nc_protocol nc) i)" "missed_heartbeats tok cname i b nc = (b', nc', Inr stop)"
  shows "\<exists>cfg. jb_requests b' = jb_requests b @ [(jb_prefix b @ ''.CONSUMER.CREATE.'' @ jb_stream b,
      J_Obj [(''stream_name'', J_Str (jb_stream b)), (''config'', J_Obj cfg)])]
    \<and> map_of cfg ''deliver_policy'' = Some (J_Str ''by_start_sequence'') \<and> map_of cfg ''opt_start_seq'' = Some (J_Num 1)
    \<and> map_of cfg ''opt_start_time'' = map_of c ''opt_start_time''"
proof -
  obtain inbox where i: "createInbox tok (inbox_prefix nc) = Inr inbox"
      "b' = (recreate inbox cname (Some 1) b)\<lparr>jb_monitor := map_option im_restart (jb_monitor b)\<rparr>"
    using assms by (auto simp: missed_heartbeats_def resetOrderedConsumer_def recreate_def Let_def
        split: prod.splits sum.splits if_splits)
  then show ?thesis
    using assms(2) by (auto simp: recreate_def put_prop_def Let_def update_conv')
qed

theorem reset_forgets_the_start_witness:
  "\<exists>b' nc' stop cfg. missed_heartbeats ''t'' ''n'' 0 (sample_js_sub\<lparr>jb_config := J_Obj [(''deliver_policy'', J_Str ''new'')]\<rparr>)
      (sample_connection\<lparr>nc_protocol := (nc_protocol sample_connection)\<lparr>pr_connected := True\<rparr>\<rparr>) = (b', nc', Inr stop)
    \<and> jb_requests b' = [(''$JS.API.CONSUMER.CREATE.S'', J_Obj [(''stream_name'', J_Str ''S''), (''config'', J_Obj cfg)])]
    \<and> map_of cfg ''deliver_policy'' = Some (J_Str ''by_start_sequence'') \<and> map_of cfg ''opt_start_seq'' = Some (J_Num 1)"
proof -
  let ?b = "sample_js_sub\<lparr>jb_config := J_Obj [(''deliver_policy'', J_Str ''new'')]\<rparr>"
  let ?nc = "sample_connection\<lparr>nc_protocol := (nc_protocol sample_connection)\<lparr>pr_connected := True\<rparr>\<rparr>"
  have p: "pr_subs sample_protocol = new_subs" "\<not> pr_closed sample_protocol" "pr_options sample_protocol = sample_options"
    by (simp_all add: sample_protocol_def initial_protocol_def)
  have s: "sub_of (nc_protocol ?nc) 0 = limited_sub\<lparr>sb_sid := 1\<rparr>"
    by (simp add: sample_connection_def with_limited_sub_def with_subs_def p subs_add_def new_subs_def
        sub_of_def Let_def)
  have o: "\<not> sub_isClosed (sub_of (nc_protocol ?nc) 0)"
    unfolding s by (simp add: limited_sub_def new_subscription_def sub_isClosed_def new_qiter_def)
  have k: "nc_check ''_INBOX.t'' True False ?nc = Inr ()"
    by (simp add: sample_connection_def with_limited_sub_def with_subs_def nc_check_def nc_isClosed_def
        nc_isDraining_def p)
  have x: "createInbox ''t'' (inbox_prefix ?nc) = Inr ''_INBOX.t''"
    by (simp add: inbox_prefix_def sample_connection_def with_limited_sub_def with_subs_def p sample_options_def
        createInbox_def)
  obtain b' nc' where r: "missed_heartbeats ''t'' ''n'' 0 ?b ?nc = (b', nc', Inr False)"
    using o k x by (auto simp: missed_heartbeats_def resetOrderedConsumer_def nc_resub_def Let_def)
  show ?thesis
    using reset_forgets_the_start [OF _ _ _ o r] r by (auto simp: sample_js_sub_def)
qed

end
