(* ===== verification/Consumer_Opts.thy ===== *)
theory Consumer_Opts
  imports Js_Manager
begin

text \<open>
  The options of a JetStream subscription: \<open>ConsumerOptsBuilderImpl\<close> of \<open>jetstream/types.ts\<close>,
  the policies and \<open>defaultConsumer\<close> of \<open>jetstream/jsapi_types.ts\<close>. The configuration is a
  JSON value; an absent property is \<open>undefined\<close>. Of the callback only its presence matters.
\<close>

section \<open>Policies\<close>

datatype deliver_policy = DP_All | DP_Last | DP_New | DP_StartSequence | DP_StartTime | DP_LastPerSubject

primrec deliver_string :: "deliver_policy \<Rightarrow> string" where
  "deliver_string DP_All = ''all''"
| "deliver_string DP_Last = ''last''"
| "deliver_string DP_New = ''new''"
| "deliver_string DP_StartSequence = ''by_start_sequence''"
| "deliver_string DP_StartTime = ''by_start_time''"
| "deliver_string DP_LastPerSubject = ''last_per_subject''"

datatype ack_policy = AP_None | AP_All | AP_Explicit | AP_NotSet

primrec ack_string :: "ack_policy \<Rightarrow> string" where
  "ack_string AP_None = ''none''"
| "ack_string AP_All = ''all''"
| "ack_string AP_Explicit = ''explicit''"
| "ack_string AP_NotSet = ''''"

datatype replay_policy = RP_Instant | RP_Original

primrec replay_string :: "replay_policy \<Rightarrow> string" where
  "replay_string RP_Instant = ''instant''"
| "replay_string RP_Original = ''original''"

definition defaultConsumer :: "string \<Rightarrow> json \<Rightarrow> json" where
  "defaultConsumer name opts =
     assign (J_Obj [(''name'', J_Str name), (''deliver_policy'', J_Str (deliver_string DP_All)),
       (''ack_policy'', J_Str (ack_string AP_Explicit)), (''ack_wait'', J_Num (int (nanos (30 * 1000)))),
       (''replay_policy'', J_Str (replay_string RP_Instant))]) opts"

section \<open>The builder\<close>

record consumer_builder =
  cb_config :: json
  cb_ordered :: bool
  cb_mack :: bool
  cb_stream :: string
  cb_callbackFn :: bool
  cb_max :: "nat option"
  cb_qname :: "string option"
  cb_isBind :: bool
  cb_filters :: "string list option"

definition consumerOpts :: "json \<Rightarrow> consumer_builder" where
  "consumerOpts opts =
     \<lparr>cb_config = defaultConsumer [] opts, cb_ordered = False, cb_mack = False, cb_stream = [],
      cb_callbackFn = False, cb_max = None, cb_qname = None, cb_isBind = False, cb_filters = None\<rparr>"

definition set_config :: "string \<Rightarrow> json \<Rightarrow> consumer_builder \<Rightarrow> consumer_builder" where
  "set_config k v b = b\<lparr>cb_config := put_prop k v (cb_config b)\<rparr>"

definition co_description :: "string \<Rightarrow> consumer_builder \<Rightarrow> consumer_builder" where
  "co_description s = set_config ''description'' (J_Str s)"

definition deliverTo :: "string \<Rightarrow> consumer_builder \<Rightarrow> consumer_builder" where
  "deliverTo s = set_config ''deliver_subject'' (J_Str s)"

definition durable :: "string \<Rightarrow> consumer_builder \<Rightarrow> js_error + consumer_builder" where
  "durable name b = rbind (validateDurableName name) (\<lambda>_. Inr (set_config ''durable_name'' (J_Str name) b))"

definition startSequence :: "int \<Rightarrow> consumer_builder \<Rightarrow> js_error + consumer_builder" where
  "startSequence n b =
     (if n \<le> 0 then throw ''sequence must be greater than 0''
      else Inr (set_config ''opt_start_seq'' (J_Num n)
             (set_config ''deliver_policy'' (J_Str (deliver_string DP_StartSequence)) b)))"

text \<open>The argument is the text \<open>toISOString\<close> gives for the time.\<close>

definition startTime :: "string \<Rightarrow> consumer_builder \<Rightarrow> consumer_builder" where
  "startTime tm b = set_config ''opt_start_time'' (J_Str tm)
     (set_config ''deliver_policy'' (J_Str (deliver_string DP_StartTime)) b)"

definition deliverAll :: "consumer_builder \<Rightarrow> consumer_builder" where
  "deliverAll = set_config ''deliver_policy'' (J_Str (deliver_string DP_All))"

definition deliverLastPerSubject :: "consumer_builder \<Rightarrow> consumer_builder" where
  "deliverLastPerSubject = set_config ''deliver_policy'' (J_Str (deliver_string DP_LastPerSubject))"

definition deliverLast :: "consumer_builder \<Rightarrow> consumer_builder" where
  "deliverLast = set_config ''deliver_policy'' (J_Str (deliver_string DP_Last))"

definition deliverNew :: "consumer_builder \<Rightarrow> consumer_builder" where
  "deliverNew = set_config ''deliver_policy'' (J_Str (deliver_string DP_New))"

definition headersOnly :: "consumer_builder \<Rightarrow> consumer_builder" where
  "headersOnly = set_config ''headers_only'' (J_Bool True)"

definition ackNone :: "consumer_builder \<Rightarrow> consumer_builder" where
  "ackNone = set_config ''ack_policy'' (J_Str (ack_string AP_None))"

definition ackAll :: "consumer_builder \<Rightarrow> consumer_builder" where
  "ackAll = set_config ''ack_policy'' (J_Str (ack_string AP_All))"

definition ackExplicit :: "consumer_builder \<Rightarrow> consumer_builder" where
  "ackExplicit = set_config ''ack_policy'' (J_Str (ack_string AP_Explicit))"

definition ackWait :: "nat \<Rightarrow> consumer_builder \<Rightarrow> consumer_builder" where
  "ackWait ms = set_config ''ack_wait'' (J_Num (int (nanos ms)))"

definition maxDeliver :: "int \<Rightarrow> consumer_builder \<Rightarrow> consumer_builder" where
  "maxDeliver n = set_config ''max_deliver'' (J_Num n)"

definition filterSubject :: "string \<Rightarrow> consumer_builder \<Rightarrow> consumer_builder" where
  "filterSubject s b = b\<lparr>cb_filters := Some ((case cb_filters b of Some fs \<Rightarrow> fs | None \<Rightarrow> []) @ [s])\<rparr>"

definition replayInstantly :: "consumer_builder \<Rightarrow> consumer_builder" where
  "replayInstantly = set_config ''replay_policy'' (J_Str (replay_string RP_Instant))"

definition replayOriginal :: "consumer_builder \<Rightarrow> consumer_builder" where
  "replayOriginal = set_config ''replay_policy'' (J_Str (replay_string RP_Original))"

text \<open>The number is an integer here, so \<open>Math.trunc\<close> leaves it as it is.\<close>

definition sample :: "int \<Rightarrow> consumer_builder \<Rightarrow> js_error + consumer_builder" where
  "sample n b =
     (if n < 0 \<or> n > 100 then throw ''value must be between 0-100''
      else Inr (set_config ''sample_freq'' (J_Str (show_int n @ ''%'')) b))"

definition limit :: "int \<Rightarrow> consumer_builder \<Rightarrow> consumer_builder" where
  "limit n = set_config ''rate_limit_bps'' (J_Num n)"

definition maxWaiting :: "int \<Rightarrow> consumer_builder \<Rightarrow> consumer_builder" where
  "maxWaiting n = set_config ''max_waiting'' (J_Num n)"

definition maxAckPending :: "int \<Rightarrow> consumer_builder \<Rightarrow> consumer_builder" where
  "maxAckPending n = set_config ''max_ack_pending'' (J_Num n)"

definition idleHeartbeat :: "nat \<Rightarrow> consumer_builder \<Rightarrow> consumer_builder" where
  "idleHeartbeat ms = set_config ''idle_heartbeat'' (J_Num (int (nanos ms)))"

definition flowControl :: "consumer_builder \<Rightarrow> consumer_builder" where
  "flowControl = set_config ''flow_control'' (J_Bool True)"

definition queue :: "string \<Rightarrow> consumer_builder \<Rightarrow> consumer_builder" where
  "queue n b = set_config ''deliver_group'' (J_Str n) (b\<lparr>cb_qname := Some n\<rparr>)"

definition deliverGroup :: "string \<Rightarrow> consumer_builder \<Rightarrow> consumer_builder" where
  "deliverGroup = queue"

definition manualAck :: "consumer_builder \<Rightarrow> consumer_builder" where
  "manualAck b = b\<lparr>cb_mack := True\<rparr>"

definition maxMessages :: "nat \<Rightarrow> consumer_builder \<Rightarrow> consumer_builder" where
  "maxMessages n b = b\<lparr>cb_max := Some n\<rparr>"

definition co_callback :: "consumer_builder \<Rightarrow> consumer_builder" where
  "co_callback b = b\<lparr>cb_callbackFn := True\<rparr>"

definition orderedConsumer :: "consumer_builder \<Rightarrow> consumer_builder" where
  "orderedConsumer b = b\<lparr>cb_ordered := True\<rparr>"

definition bindTo :: "string \<Rightarrow> string \<Rightarrow> consumer_builder \<Rightarrow> consumer_builder" where
  "bindTo stream durable_name b =
     set_config ''durable_name'' (J_Str durable_name) (b\<lparr>cb_stream := stream, cb_isBind := True\<rparr>)"

definition bindStream :: "string \<Rightarrow> consumer_builder \<Rightarrow> consumer_builder" where
  "bindStream stream b = b\<lparr>cb_stream := stream\<rparr>"

definition inactiveEphemeralThreshold :: "nat \<Rightarrow> consumer_builder \<Rightarrow> consumer_builder" where
  "inactiveEphemeralThreshold ms = set_config ''inactive_threshold'' (J_Num (int (nanos ms)))"

definition maxPullBatch :: "int \<Rightarrow> consumer_builder \<Rightarrow> consumer_builder" where
  "maxPullBatch n = set_config ''max_batch'' (J_Num n)"

definition maxPullRequestExpires :: "nat \<Rightarrow> consumer_builder \<Rightarrow> consumer_builder" where
  "maxPullRequestExpires ms = set_config ''max_expires'' (J_Num (int (nanos ms)))"

definition memory :: "consumer_builder \<Rightarrow> consumer_builder" where
  "memory = set_config ''mem_storage'' (J_Bool True)"

definition numReplicas :: "int \<Rightarrow> consumer_builder \<Rightarrow> consumer_builder" where
  "numReplicas n = set_config ''num_replicas'' (J_Num n)"

definition consumerName :: "string \<Rightarrow> consumer_builder \<Rightarrow> consumer_builder" where
  "consumerName s = set_config ''name'' (J_Str s)"

section \<open>The options\<close>

text \<open>\<open>ConsumerOpts\<close>, which the user may also write down without a builder; then the
  configuration may be missing.\<close>

record consumer_opts =
  op_config :: "json option"
  op_mack :: bool
  op_stream :: string
  op_callbackFn :: bool
  op_max :: "nat option"
  op_queue :: "string option"
  op_ordered :: bool

definition subjects_of :: "json option \<Rightarrow> string list" where
  "subjects_of v = (case v of Some (J_Arr xs) \<Rightarrow> map (\<lambda>x. text_or_empty (Some x)) xs | _ \<Rightarrow> [])"

text \<open>\<open>getOpts\<close> also changes the builder: the filters of the configuration are added to its
  filters.\<close>

definition collect_filters :: "consumer_builder \<Rightarrow> consumer_builder" where
  "collect_filters b =
     (let fs = fld ''filter_subject'' (cb_config b);
          b1 = (if truthy fs then filterSubject (text_or_empty fs) b else b);
          fss = fld ''filter_subjects'' (cb_config b)
      in if truthy fss then fold filterSubject (subjects_of fss) b1 else b1)"

definition with_filters :: "string list option \<Rightarrow> json \<Rightarrow> json" where
  "with_filters fs c =
     (case fs of None \<Rightarrow> c | Some [] \<Rightarrow> c | Some [f] \<Rightarrow> put_prop ''filter_subject'' (J_Str f) c
      | Some fs \<Rightarrow> put_prop ''filter_subjects'' (J_Arr (map J_Str fs)) c)"

definition getOpts :: "consumer_builder \<Rightarrow> consumer_builder \<times> consumer_opts" where
  "getOpts b =
     (let b1 = collect_filters b;
          c0 = cb_config b;
          c1 = (if truthy (fld ''filter_subject'' c0) then delete_prop ''filter_subject'' c0 else c0);
          c2 = (if truthy (fld ''filter_subjects'' c0) then delete_prop ''filter_subjects'' c1 else c1);
          c3 = (if cb_ordered b then put_prop ''ack_policy'' (J_Str (ack_string AP_None)) c2 else c2)
      in (b1, \<lparr>op_config = Some (with_filters (cb_filters b1) c3), op_mack = cb_mack b, op_stream = cb_stream b,
               op_callbackFn = cb_callbackFn b, op_max = cb_max b, op_queue = cb_qname b,
               op_ordered = cb_ordered b\<rparr>))"

section \<open>Filters\<close>

lemma fold_filterSubject:
  "cb_filters (fold filterSubject ss b) =
    (if ss = [] then cb_filters b else Some ((case cb_filters b of Some fs \<Rightarrow> fs | None \<Rightarrow> []) @ ss))"
  "cb_config (fold filterSubject ss b) = cb_config b"
  by (induction ss arbitrary: b) (auto simp: filterSubject_def split: option.split)

definition filters_asked :: "consumer_builder \<Rightarrow> string list" where
  "filters_asked b =
     (case cb_filters b of Some fs \<Rightarrow> fs | None \<Rightarrow> [])
     @ (if truthy (fld ''filter_subject'' (cb_config b)) then [text_or_empty (fld ''filter_subject'' (cb_config b))] else [])
     @ (if truthy (fld ''filter_subjects'' (cb_config b)) then subjects_of (fld ''filter_subjects'' (cb_config b)) else [])"

lemma collected:
  "cb_config (collect_filters b) = cb_config b"
  "(case cb_filters (collect_filters b) of Some fs \<Rightarrow> fs | None \<Rightarrow> []) = filters_asked b"
  by (auto simp: collect_filters_def filters_asked_def Let_def fold_filterSubject filterSubject_def
      split: option.splits)

text \<open>
  The options of a builder ask for all the filters given to it, one as the filter subject and
  several as the filter subjects; but the call also leaves the filters of the configuration
  in the builder, so a builder made from a configuration with one filter asks, when it is
  used again, for that filter twice.
\<close>
theorem builder_used_twice:
  assumes "cb_config b = J_Obj c" "map_of c ''filter_subject'' = Some (J_Str f)" "f \<noteq> []"
    "map_of c ''filter_subjects'' = None" "cb_filters b = None"
  shows "fld ''filter_subject'' (the (op_config (snd (getOpts b)))) = Some (J_Str f)
    \<and> fld ''filter_subjects'' (the (op_config (snd (getOpts b)))) = None
    \<and> fld ''filter_subject'' (the (op_config (snd (getOpts (fst (getOpts b)))))) = None
    \<and> fld ''filter_subjects'' (the (op_config (snd (getOpts (fst (getOpts b)))))) = Some (J_Arr [J_Str f, J_Str f])"
  using assms
  by (auto simp: getOpts_def collect_filters_def Let_def filterSubject_def fld_def truthy_def with_filters_def
      text_or_empty_def put_prop_def delete_prop_def update_conv' delete_conv')

theorem builder_used_twice_witness:
  "fld ''filter_subjects'' (the (op_config (snd (getOpts (fst (getOpts (consumerOpts (J_Obj [(''filter_subject'', J_Str ''a'')])))))))) =
     Some (J_Arr [J_Str ''a'', J_Str ''a''])"
  using builder_used_twice [of "consumerOpts (J_Obj [(''filter_subject'', J_Str ''a'')])" _ "''a''"]
  by (auto simp: consumerOpts_def defaultConsumer_def assign_def js_extend_def)

end
