(* ===== verification/Js_Publish.thy ===== *)
theory Js_Publish
  imports Js_Msg Js_Manager
begin

text \<open>
  Publishing to a stream and pulling one message, \<open>publish\<close> and \<open>pull\<close> of
  \<open>JetStreamClientImpl\<close> in \<open>jetstream/jsclient.ts\<close>. The request of the connection is the one of
  the environment of the API; a pause of some milliseconds is an argument.
\<close>

section \<open>Headers of a publish\<close>

datatype pub_header = MsgIdHdr | ExpectedStreamHdr | ExpectedLastSeqHdr | ExpectedLastMsgIdHdr
  | ExpectedLastSubjectSequenceHdr

primrec pub_header_string :: "pub_header \<Rightarrow> string" where
  "pub_header_string MsgIdHdr = ''Nats-Msg-Id''"
| "pub_header_string ExpectedStreamHdr = ''Nats-Expected-Stream''"
| "pub_header_string ExpectedLastSeqHdr = ''Nats-Expected-Last-Sequence''"
| "pub_header_string ExpectedLastMsgIdHdr = ''Nats-Expected-Last-Msg-Id''"
| "pub_header_string ExpectedLastSubjectSequenceHdr = ''Nats-Expected-Last-Subject-Sequence''"

record pub_options =
  pb_msgID :: "string option"
  pb_timeout :: "int option"
  pb_headers :: "msg_hdrs option"
  pb_retries :: "int option"
  pb_retry_delay :: "int option"
  pb_lastMsgID :: "string option"
  pb_streamName :: "string option"
  pb_lastSequence :: "int option"
  pb_lastSubjectSequence :: "int option"

definition no_pub_options :: pub_options where
  "no_pub_options = \<lparr>pb_msgID = None, pb_timeout = None, pb_headers = None, pb_retries = None,
     pb_retry_delay = None, pb_lastMsgID = None, pb_streamName = None, pb_lastSequence = None,
     pb_lastSubjectSequence = None\<rparr>"

definition set_header :: "string \<Rightarrow> string \<Rightarrow> msg_hdrs \<Rightarrow> js_error + msg_hdrs" where
  "set_header k v h = (case hdr_set h k v Exact of (h', r) \<Rightarrow> rbind r (\<lambda>_. Inr h'))"

definition set_text :: "pub_header \<Rightarrow> string option \<Rightarrow> msg_hdrs \<Rightarrow> js_error + msg_hdrs" where
  "set_text k v h = (case v of Some s \<Rightarrow> if s \<noteq> [] then set_header (pub_header_string k) s h else Inr h
     | None \<Rightarrow> Inr h)"

definition set_number :: "pub_header \<Rightarrow> int option \<Rightarrow> msg_hdrs \<Rightarrow> js_error + msg_hdrs" where
  "set_number k v h = (case v of Some n \<Rightarrow> set_header (pub_header_string k) (show_int n) h | None \<Rightarrow> Inr h)"

definition publish_headers :: "pub_options \<Rightarrow> js_error + msg_hdrs" where
  "publish_headers opts =
     rbind (case pb_headers opts of Some h \<Rightarrow> Inr h | None \<Rightarrow> headers_fn 0 []) (\<lambda>h0.
     rbind (set_text MsgIdHdr (pb_msgID opts) h0) (\<lambda>h1.
     rbind (set_text ExpectedLastMsgIdHdr (pb_lastMsgID opts) h1) (\<lambda>h2.
     rbind (set_text ExpectedStreamHdr (pb_streamName opts) h2) (\<lambda>h3.
     rbind (set_number ExpectedLastSeqHdr (pb_lastSequence opts) h3) (\<lambda>h4.
       set_number ExpectedLastSubjectSequenceHdr (pb_lastSubjectSequence opts) h4)))))"

section \<open>Publishing\<close>

definition or_else :: "int option \<Rightarrow> int \<Rightarrow> int" where
  "or_else v d = (case v of Some n \<Rightarrow> if n \<noteq> 0 then n else d | None \<Rightarrow> d)"

function publish_loop ::
  "'w api_env \<Rightarrow> (int \<Rightarrow> 'w \<Rightarrow> 'w) \<Rightarrow> string \<Rightarrow> bytes \<Rightarrow> msg_hdrs \<Rightarrow> int \<Rightarrow> int \<Rightarrow> int \<Rightarrow> nat \<Rightarrow> 'w
    \<Rightarrow> 'w \<times> (js_error + nats_msg option)" where
  "publish_loop E pause subj data h tmo retry_delay retries i w =
     (if int i < retries
      then (case ae_request E subj data (Some h) tmo w of
              (w1, Inr r) \<Rightarrow> (w1, Inr (Some r))
            | (w1, Inl e) \<Rightarrow>
                if is_nats_error e \<and> err_code e = ''503'' \<and> int i + 1 < retries
                then publish_loop E pause subj data h tmo retry_delay retries (Suc i) (pause retry_delay w1)
                else (w1, Inl e))
      else (w, Inr None))"
  by pat_completeness auto
termination
  by (relation "measure (\<lambda>(E, pause, subj, data, h, tmo, d, retries, i, w). nat (retries - int i))") auto

declare publish_loop.simps [simp del]

text \<open>Setting a property of a response; on a number, a text or a truth value it throws.\<close>

definition set_member :: "string \<Rightarrow> json \<Rightarrow> json \<Rightarrow> js_error + json" where
  "set_member k v j = (case j of J_Obj m \<Rightarrow> Inr (put_prop k v j) | J_Arr xs \<Rightarrow> Inr j
     | _ \<Rightarrow> throw (''Cannot create property '' @ quoted k))"

definition pub_ack :: "'w api_env \<Rightarrow> nats_msg option \<Rightarrow> js_error + json" where
  "pub_ack E r =
     (case r of
        None \<Rightarrow> throw ''Cannot read properties of undefined''
      | Some m \<Rightarrow>
          rbind (parseJsResponse E m) (\<lambda>pa.
          rbind (member ''stream'' pa) (\<lambda>s.
            if s = Some (J_Str []) then Inl (error_for_code EC_JetStreamInvalidAck None)
            else rbind (member ''duplicate'' pa) (\<lambda>d.
              set_member ''duplicate'' (if truthy d then the d else J_Bool False) pa))))"

definition js_publish ::
  "'w api_env \<Rightarrow> api \<Rightarrow> (int \<Rightarrow> 'w \<Rightarrow> 'w) \<Rightarrow> string \<Rightarrow> bytes \<Rightarrow> pub_options \<Rightarrow> 'w \<Rightarrow> 'w \<times> (js_error + json)" where
  "js_publish E A pause subj data opts =
     checked (publish_headers opts) (\<lambda>mh w.
       and_then (publish_loop E pause subj data mh (or_else (pb_timeout opts) (ap_timeout A))
           (or_else (pb_retry_delay opts) 250) (or_else (pb_retries opts) 1) 0 w)
         (\<lambda>r w1. (w1, pub_ack E r)))"

section \<open>Pulling one message\<close>

definition pull_options_of :: "int \<Rightarrow> json" where
  "pull_options_of expires =
     (let ns = (if expires < 0 then 0 else int (nanos (nat expires)))
      in J_Obj [(''batch'', J_Num 1), (''no_wait'', J_Bool (ns = 0)), (''expires'', J_Num ns)])"

text \<open>The request has a subscription of its own, which changes only how its answer is
  routed.\<close>

definition js_pull ::
  "'w api_env \<Rightarrow> api \<Rightarrow> string \<Rightarrow> string \<Rightarrow> int \<Rightarrow> 'w \<Rightarrow> 'w \<times> (js_error + js_msg)" where
  "js_pull E A stream durable_name expires =
     checked (rbind (validateStreamName stream) (\<lambda>_. validateDurableName durable_name)) (\<lambda>_ w.
       and_then (ae_request E (ap_prefix A @ ''.CONSUMER.MSG.NEXT.'' @ stream @ ''.'' @ durable_name)
           (json_encode E (Some (pull_options_of expires))) None
           (if expires > ap_timeout A then expires else ap_timeout A) w)
         (\<lambda>m w1. (w1, rbind (checkJsError m) (\<lambda>err. case err of
             Some e \<Rightarrow> Inl e | None \<Rightarrow> Inr (toJsMsg m (ap_timeout A))))))"

section \<open>What is published\<close>

definition plain_text :: "string option \<Rightarrow> bool" where
  "plain_text v \<longleftrightarrow> (case v of Some s \<Rightarrow> CR \<notin> set s \<and> LF \<notin> set s | None \<Rightarrow> True)"

definition header_holds :: "msg_hdrs \<Rightarrow> pub_header \<Rightarrow> string option \<Rightarrow> bool" where
  "header_holds h k v \<longleftrightarrow> (case v of Some s \<Rightarrow> values_of h (pub_header_string k) = [js_trim s] | None \<Rightarrow> True)"

lemma valid_pub_header: "valid_key (pub_header_string k)"
  by (cases k; simp only: pub_header_string.simps; code_simp)

lemma pub_header_inject [simp]: "pub_header_string k = pub_header_string j \<longleftrightarrow> k = j"
  by (cases k; cases j) auto

text \<open>The values under other keys are kept.\<close>

definition kept :: "pub_header \<Rightarrow> msg_hdrs \<Rightarrow> msg_hdrs \<Rightarrow> bool" where
  "kept k h h' \<longleftrightarrow> (\<forall>j. j \<noteq> pub_header_string k \<longrightarrow> values_of h' j = values_of h j)"

lemma set_header_sets:
  assumes "hdrs_ok h" "CR \<notin> set v" "LF \<notin> set v"
  shows "\<exists>h'. set_header (pub_header_string k) v h = Inr h' \<and> hdrs_ok h'
    \<and> values_of h' (pub_header_string k) = [js_trim v]
    \<and> kept k h h'"
proof -
  let ?k = "pub_header_string k"
  obtain h' r where hs: "hdr_set h ?k v Exact = (h', r)" by fastforce
  have a: "r = Inr ()" "hdr_values h' ?k Exact = Inr [js_trim v]"
      "\<forall>j. j \<noteq> ?k \<longrightarrow> values_of h' j = values_of h j"
    using set_then_lookup [OF valid_pub_header assms(2,3), of h k Exact] hs by (auto simp: key_matches_def)
  have ok: "hdrs_ok h'" using hdr_set_preserves [OF assms(1), of ?k v Exact] hs by simp
  then have "values_of h' ?k = [js_trim v]" using a(2) by (simp add: hdr_values_Exact hdrs_ok_def hdr_keys_def)
  then show ?thesis using a ok hs by (auto simp: set_header_def kept_def)
qed

lemma set_text_sets:
  assumes "hdrs_ok h" "plain_text v"
  shows "\<exists>h'. set_text k v h = Inr h' \<and> hdrs_ok h' \<and> header_holds h' k (if v = Some [] then None else v)
    \<and> kept k h h'"
  using assms set_header_sets [OF assms(1), of _ k]
  by (cases v) (fastforce simp: set_text_def kept_def plain_text_def header_holds_def)+

lemma set_number_sets:
  assumes "hdrs_ok h"
  shows "\<exists>h'. set_number k v h = Inr h' \<and> hdrs_ok h' \<and> header_holds h' k (map_option show_int v)
    \<and> kept k h h'"
  using assms set_header_sets [OF assms show_int_plain, of k]
  by (cases v) (fastforce simp: set_number_def kept_def header_holds_def)+

lemma header_holds_kept: "header_holds h k v \<Longrightarrow> kept i h h' \<Longrightarrow> i \<noteq> k \<Longrightarrow> header_holds h' k v"
  by (auto simp: header_holds_def kept_def split: option.splits)

definition given_text :: "string option \<Rightarrow> string option" where
  "given_text v = (if v = Some [] then None else v)"

lemma publish_headers_hold:
  assumes "plain_text (pb_msgID opts)" "plain_text (pb_lastMsgID opts)" "plain_text (pb_streamName opts)"
    "case pb_headers opts of Some h \<Rightarrow> hdrs_ok h | None \<Rightarrow> True"
  shows "\<exists>h. publish_headers opts = Inr h \<and> hdrs_ok h
    \<and> header_holds h MsgIdHdr (given_text (pb_msgID opts))
    \<and> header_holds h ExpectedLastMsgIdHdr (given_text (pb_lastMsgID opts))
    \<and> header_holds h ExpectedStreamHdr (given_text (pb_streamName opts))
    \<and> header_holds h ExpectedLastSeqHdr (map_option show_int (pb_lastSequence opts))
    \<and> header_holds h ExpectedLastSubjectSequenceHdr (map_option show_int (pb_lastSubjectSequence opts))
    \<and> (\<forall>j. j \<notin> range pub_header_string \<longrightarrow>
         values_of h j = (case pb_headers opts of Some h0 \<Rightarrow> values_of h0 j | None \<Rightarrow> []))"
proof -
  define h0 where "h0 = (case pb_headers opts of Some h \<Rightarrow> h | None \<Rightarrow> new_hdrs 0 [])"
  have n: "hdrs_ok (new_hdrs 0 [])" "values_of (new_hdrs 0 []) j = []" for j
    by (simp_all add: hdrs_ok_def new_hdrs_def values_of_def)
  then have ok0: "hdrs_ok h0" using assms(4) by (simp add: h0_def split: option.splits)
  have s0: "(case pb_headers opts of Some h \<Rightarrow> Inr h | None \<Rightarrow> headers_fn 0 []) = Inr h0"
    by (simp add: h0_def headers_fn_def split: option.split)
  obtain h1 where h1: "set_text MsgIdHdr (pb_msgID opts) h0 = Inr h1" "hdrs_ok h1"
      "header_holds h1 MsgIdHdr (given_text (pb_msgID opts))"
      "kept MsgIdHdr h0 h1"
    using set_text_sets [OF ok0 assms(1)] unfolding given_text_def by blast
  obtain h2 where h2: "set_text ExpectedLastMsgIdHdr (pb_lastMsgID opts) h1 = Inr h2" "hdrs_ok h2"
      "header_holds h2 ExpectedLastMsgIdHdr (given_text (pb_lastMsgID opts))"
      "kept ExpectedLastMsgIdHdr h1 h2"
    using set_text_sets [OF h1(2) assms(2)] unfolding given_text_def by blast
  obtain h3 where h3: "set_text ExpectedStreamHdr (pb_streamName opts) h2 = Inr h3" "hdrs_ok h3"
      "header_holds h3 ExpectedStreamHdr (given_text (pb_streamName opts))"
      "kept ExpectedStreamHdr h2 h3"
    using set_text_sets [OF h2(2) assms(3)] unfolding given_text_def by blast
  obtain h4 where h4: "set_number ExpectedLastSeqHdr (pb_lastSequence opts) h3 = Inr h4" "hdrs_ok h4"
      "header_holds h4 ExpectedLastSeqHdr (map_option show_int (pb_lastSequence opts))"
      "kept ExpectedLastSeqHdr h3 h4"
    using set_number_sets [OF h3(2)] by blast
  obtain h5 where h5: "set_number ExpectedLastSubjectSequenceHdr (pb_lastSubjectSequence opts) h4 = Inr h5" "hdrs_ok h5"
      "header_holds h5 ExpectedLastSubjectSequenceHdr (map_option show_int (pb_lastSubjectSequence opts))"
      "kept ExpectedLastSubjectSequenceHdr h4 h5"
    using set_number_sets [OF h4(2)] by blast
  have k1: "header_holds h5 MsgIdHdr (given_text (pb_msgID opts))"
    by (rule header_holds_kept [OF header_holds_kept [OF header_holds_kept [OF header_holds_kept [OF h1(3) h2(4)] h3(4)]
        h4(4)] h5(4)]) simp_all
  have k2: "header_holds h5 ExpectedLastMsgIdHdr (given_text (pb_lastMsgID opts))"
    by (rule header_holds_kept [OF header_holds_kept [OF header_holds_kept [OF h2(3) h3(4)] h4(4)] h5(4)]) simp_all
  have k3: "header_holds h5 ExpectedStreamHdr (given_text (pb_streamName opts))"
    by (rule header_holds_kept [OF header_holds_kept [OF h3(3) h4(4)] h5(4)]) simp_all
  have k4: "header_holds h5 ExpectedLastSeqHdr (map_option show_int (pb_lastSequence opts))"
    by (rule header_holds_kept [OF h4(3) h5(4)]) simp_all
  have "publish_headers opts = Inr h5" using s0 h1(1) h2(1) h3(1) h4(1) h5(1) by (simp add: publish_headers_def)
  moreover have "values_of h5 j = (case pb_headers opts of Some h0 \<Rightarrow> values_of h0 j | None \<Rightarrow> [])"
    if "j \<notin> range pub_header_string" for j
  proof -
    have "j \<noteq> pub_header_string k" for k using that by blast
    then have "values_of h5 j = values_of h0 j"
      using h1(4) h2(4) h3(4) h4(4) h5(4) by (simp add: kept_def del: pub_header_string.simps)
    then show ?thesis using n by (simp add: h0_def split: option.split)
  qed
  ultimately show ?thesis
    using k1 k2 k3 k4 h5(2,3) by (intro exI [of _ h5]) simp
qed

section \<open>A recorded world\<close>

text \<open>The same environment, recording the requests it is given.\<close>

type_synonym request_log = "(string \<times> bytes \<times> msg_hdrs option) list"

definition recording :: "'w api_env \<Rightarrow> ('w \<times> request_log) api_env" where
  "recording E = \<lparr>ae_request = (\<lambda>s b h t (w, l). let (w1, r) = ae_request E s b h t w in ((w1, l @ [(s, b, h)]), r)),
     ae_delay = (\<lambda>n (w, l). (ae_delay E n w, l)), ae_stringify = ae_stringify E, ae_parse = ae_parse E\<rparr>"

definition pausing :: "(int \<Rightarrow> 'w \<Rightarrow> 'w) \<Rightarrow> int \<Rightarrow> 'w \<times> request_log \<Rightarrow> 'w \<times> request_log" where
  "pausing pause n = (\<lambda>(w, l). (pause n w, l))"

lemma recorded_loop:
  assumes "publish_loop (recording E) (pausing pause) subj data h tmo d n i (w, l) = ((w', l'), r)"
  shows "\<exists>k. l' = l @ replicate k (subj, data, Some h) \<and> int (i + k) \<le> max (int i) n \<and> (int i < n \<longrightarrow> 0 < k)
    \<and> publish_loop E pause subj data h tmo d n i w = (w', r)"
  using assms
proof (induction "nat (n - int i)" arbitrary: i w l rule: less_induct)
  case less
  show ?case
  proof (cases "int i < n")
    case False
    then show ?thesis
      using less.prems publish_loop.simps [of "recording E" "pausing pause" subj data h tmo d n i]
        publish_loop.simps [of E pause subj data h tmo d n i] by (auto intro: exI [of _ 0])
  next
    case i: True
    obtain w1 res where a: "ae_request E subj data (Some h) tmo w = (w1, res)" by fastforce
    then have ra: "ae_request (recording E) subj data (Some h) tmo (w, l) = ((w1, l @ [(subj, data, Some h)]), res)"
      by (simp add: recording_def)
    show ?thesis
    proof (cases "\<exists>e. res = Inl e \<and> is_nats_error e \<and> err_code e = ''503'' \<and> int i + 1 < n")
      case False
      then have "l' = l @ [(subj, data, Some h)]" "publish_loop E pause subj data h tmo d n i w = (w', r)"
        using less.prems i ra a publish_loop.simps [of "recording E" "pausing pause" subj data h tmo d n i]
          publish_loop.simps [of E pause subj data h tmo d n i w] by (auto split: sum.splits)
      then show ?thesis using i by (intro exI [of _ 1]) auto
    next
      case True
      then have "publish_loop (recording E) (pausing pause) subj data h tmo d n (Suc i)
          (pause d w1, l @ [(subj, data, Some h)]) = ((w', l'), r)"
        using less.prems i ra publish_loop.simps [of "recording E" "pausing pause" subj data h tmo d n i]
        by (auto simp: pausing_def)
      moreover have "nat (n - int (Suc i)) < nat (n - int i)" using i by simp
      ultimately obtain k where "l' = (l @ [(subj, data, Some h)]) @ replicate k (subj, data, Some h)"
          "int (Suc i + k) \<le> max (int (Suc i)) n" "publish_loop E pause subj data h tmo d n (Suc i) (pause d w1) = (w', r)"
        using less.hyps by blast
      then show ?thesis
        using True i a publish_loop.simps [of E pause subj data h tmo d n i w]
        by (intro exI [of _ "Suc k"]) (auto simp: replicate_append_same)
    qed
  qed
qed

lemma parse_recording: "parseJsResponse (recording E) m = parseJsResponse E m"
  by (simp add: parseJsResponse_def json_decode_def recording_def)

lemma pub_ack_recording: "pub_ack (recording E) = pub_ack E"
  by (simp add: fun_eq_iff pub_ack_def parse_recording split: option.split)

lemma pub_ack_stream:
  assumes "pub_ack E r = Inr pa"
  shows "member ''stream'' pa \<noteq> Inr (Some (J_Str []))"
  using assms
  by (auto simp: pub_ack_def rbind_def throw_def set_member_def member_def put_prop_def update_conv'
      split: option.splits sum.splits json.splits if_splits)

text \<open>
  Publishing to a stream sends one message, again only while no responder answers and
  attempts are left: every copy has the same subject, data and headers, so the server can
  recognise repetitions by the message identifier. The headers are those of the user with the
  identifier and the expectations that were given, and an acknowledgement that is returned
  names a stream. Recording the requests does not change the outcome.
\<close>
theorem publish_sends_copies_of_one_message:
  assumes "plain_text (pb_msgID opts)" "plain_text (pb_lastMsgID opts)" "plain_text (pb_streamName opts)"
    "case pb_headers opts of Some h \<Rightarrow> hdrs_ok h | None \<Rightarrow> True" "or_else (pb_retries opts) 1 = int n" "0 < n"
    "js_publish (recording E) A (pausing pause) subj data opts (w, []) = ((w', l), r)"
  shows "js_publish E A pause subj data opts w = (w', r) \<and>
    (\<exists>h k. l = replicate k (subj, data, Some h) \<and> 0 < k \<and> k \<le> n
      \<and> header_holds h MsgIdHdr (given_text (pb_msgID opts))
      \<and> header_holds h ExpectedLastMsgIdHdr (given_text (pb_lastMsgID opts))
      \<and> header_holds h ExpectedStreamHdr (given_text (pb_streamName opts))
      \<and> header_holds h ExpectedLastSeqHdr (map_option show_int (pb_lastSequence opts))
      \<and> header_holds h ExpectedLastSubjectSequenceHdr (map_option show_int (pb_lastSubjectSequence opts)))
    \<and> (\<forall>pa. r = Inr pa \<longrightarrow> member ''stream'' pa \<noteq> Inr (Some (J_Str [])))"
proof -
  obtain h where h: "publish_headers opts = Inr h" "header_holds h MsgIdHdr (given_text (pb_msgID opts))"
      "header_holds h ExpectedLastMsgIdHdr (given_text (pb_lastMsgID opts))"
      "header_holds h ExpectedStreamHdr (given_text (pb_streamName opts))"
      "header_holds h ExpectedLastSeqHdr (map_option show_int (pb_lastSequence opts))"
      "header_holds h ExpectedLastSubjectSequenceHdr (map_option show_int (pb_lastSubjectSequence opts))"
    using publish_headers_hold [OF assms(1-4)] by blast
  obtain r1 where r1: "publish_loop (recording E) (pausing pause) subj data h (or_else (pb_timeout opts) (ap_timeout A))
      (or_else (pb_retry_delay opts) 250) (int n) 0 (w, []) = ((w', l), r1)"
    and r: "r = rbind r1 (pub_ack (recording E))"
    using assms(5,7) h(1) by (auto simp: js_publish_def checked_def and_then_def split: prod.splits sum.splits)
  obtain k where k: "l = replicate k (subj, data, Some h)" "k \<le> n" "0 < k"
      "publish_loop E pause subj data h (or_else (pb_timeout opts) (ap_timeout A))
        (or_else (pb_retry_delay opts) 250) (int n) 0 w = (w', r1)"
    using recorded_loop [OF r1] assms(6) by auto
  have "js_publish E A pause subj data opts w = (w', r)"
    using h(1) k(4) r assms(5)
    by (simp add: js_publish_def checked_def and_then_def pub_ack_recording split: sum.splits)
  moreover have "\<forall>pa. r = Inr pa \<longrightarrow> member ''stream'' pa \<noteq> Inr (Some (J_Str []))"
    using r pub_ack_stream by (cases r1) auto
  ultimately show ?thesis using h k by blast
qed

text \<open>A server that has no responder once.\<close>

definition sample_api :: api where
  "sample_api = \<lparr>ap_prefix = ''$JS.API'', ap_timeout = 5000, ap_features = \<lparr>ft_server = SemVer 2 10 0, ft_features = [], ft_disabled = []\<rparr>\<rparr>"

definition late_server :: "bool api_env" where
  "late_server = \<lparr>ae_request = (\<lambda>s b h t w. (True, if w then Inr (new_msg newMsgArg [1]) else Inl (error_for_code EC_NoResponders None))),
     ae_delay = (\<lambda>n w. w), ae_stringify = (\<lambda>j. []), ae_parse = (\<lambda>s. Inr (J_Obj [(''stream'', J_Str ''S''), (''seq'', J_Num 1)]))\<rparr>"

theorem publish_sends_copies_of_one_message_witness:
  "\<exists>w l r h k. js_publish (recording late_server) sample_api
      (pausing (\<lambda>n w. w)) ''a'' [7] (no_pub_options\<lparr>pb_msgID := Some ''id'', pb_retries := Some 2\<rparr>) (False, []) = ((w, l), r)
    \<and> l = replicate k (''a'', [7], Some h) \<and> k \<le> 2 \<and> header_holds h MsgIdHdr (Some ''id'')"
proof -
  let ?o = "no_pub_options\<lparr>pb_msgID := Some ''id'', pb_retries := Some 2\<rparr>"
  obtain w l r where r: "js_publish (recording late_server) sample_api (pausing (\<lambda>n w. w)) ''a'' [7] ?o (False, []) = ((w, l), r)"
    by (metis surj_pair)
  show ?thesis
    using publish_sends_copies_of_one_message [of ?o 2, OF _ _ _ _ _ _ r] r
    by (auto simp: no_pub_options_def plain_text_def or_else_def given_text_def CR_def LF_def)
qed

end
