(* ===== verification/Js_Subscribe.thy ===== *)
theory Js_Subscribe
  imports Ordered_Consumer Consumer_Opts Js_Publish
begin

text \<open>
  Subscribing to a stream, the rest of \<open>JetStreamClientImpl\<close> in \<open>jetstream/jsclient.ts\<close>: the
  options and the consumer of a push or pull subscription, the adapters between messages and
  the typed subscription of \<open>nats-base-client/typedsub.ts\<close>, and pull requests.
\<close>

section \<open>Options of a subscription\<close>

record js_info =
  si_config :: json
  si_stream :: string
  si_isBind :: bool
  si_ordered :: bool
  si_mack :: bool
  si_callbackFn :: bool
  si_maxMsgs :: "nat option"
  si_queue :: "string option"
  si_attached :: bool
  si_last :: "json option"
  si_name :: "string option"
  si_deliver :: string

text \<open>What the consumer of the durable name, if there is one, must agree with.\<close>

definition empty_if_nullish :: "json option \<Rightarrow> json" where
  "empty_if_nullish v = (if nullish v then J_Str [] else the v)"

definition check_attached :: "string \<Rightarrow> json \<Rightarrow> json \<Rightarrow> js_error + json" where
  "check_attached subj cfg ci =
     rbind (member ''config'' ci) (\<lambda>ic0.
     rbind (case ic0 of Some c \<Rightarrow> Inr c | None \<Rightarrow> throw ''Cannot read properties of undefined'') (\<lambda>ic.
     rbind (member ''filter_subject'' ic) (\<lambda>fs.
     rbind (require (\<not> (truthy fs \<and> fs \<noteq> Some (J_Str subj))) ''subject does not match consumer'') (\<lambda>_.
     let qn = empty_if_nullish (fld ''deliver_group'' cfg) in
     rbind (require (\<not> (qn = J_Str [] \<and> fld ''push_bound'' ci = Some (J_Bool True))) ''duplicate subscription'') (\<lambda>_.
     let rqn = empty_if_nullish (fld ''deliver_group'' ic) in
     rbind (require (qn = rqn)
              (if rqn = J_Str [] then ''durable requires no queue group''
               else ''durable requires queue group '' @ quoted (text_or_empty (Some rqn)))) (\<lambda>_.
     Inr ic))))))"

definition attach ::
  "'w api_env \<Rightarrow> api \<Rightarrow> string \<Rightarrow> js_info \<Rightarrow> 'w \<Rightarrow> 'w \<times> (js_error + js_info)" where
  "attach E A subj s w =
     (if truthy (fld ''durable_name'' (si_config s))
      then (case consumer_info E A (si_stream s) (text_or_empty (fld ''durable_name'' (si_config s))) w of
              (w1, Inl e) \<Rightarrow> (w1, if is_nats_error e \<and> err_code e = ''404'' then Inr s else Inl e)
            | (w1, Inr ci) \<Rightarrow>
                if truthy (Some ci)
                then (w1, rbind (check_attached subj (si_config s) ci) (\<lambda>ic.
                       Inr (s\<lparr>si_last := Some ci, si_config := ic, si_attached := True,
                         si_name := (if truthy (fld ''durable_name'' ic) then si_name s
                                     else Some (text_or_empty (fld ''name'' ci)))\<rparr>)))
                else (w1, Inr s))
      else (w, Inr s))"

definition set_filter :: "string \<Rightarrow> js_info \<Rightarrow> js_info" where
  "set_filter subj s =
     (if \<not> si_attached s \<and> fld ''filter_subject'' (si_config s) = None
         \<and> fld ''filter_subjects'' (si_config s) = None
      then s\<lparr>si_config := put_prop ''filter_subject'' (J_Str subj) (si_config s)\<rparr> else s)"

definition set_deliver :: "string \<Rightarrow> string \<Rightarrow> js_info \<Rightarrow> js_error + js_info" where
  "set_deliver tok pre s =
     (if truthy (fld ''deliver_subject'' (si_config s))
      then Inr (s\<lparr>si_deliver := text_or_empty (fld ''deliver_subject'' (si_config s))\<rparr>)
      else rbind (createInbox tok pre) (\<lambda>i. Inr (s\<lparr>si_deliver := i\<rparr>)))"

text \<open>The default of a missing configuration comes after it is read.\<close>

definition process_config :: "string \<Rightarrow> string \<Rightarrow> consumer_opts \<Rightarrow> js_error + json" where
  "process_config tok pre opts =
     (case op_config opts of
        None \<Rightarrow> throw ''Cannot read properties of undefined''
      | Some c \<Rightarrow>
          rbind (if op_ordered opts then process_ordered tok pre c else Inr c) (\<lambda>c1.
            Inr (if fld ''ack_policy'' c1 = Some (J_Str (ack_string AP_NotSet))
                 then put_prop ''ack_policy'' (J_Str (ack_string AP_All)) c1 else c1)))"

definition processOptions ::
  "'w api_env \<Rightarrow> api \<Rightarrow> string \<Rightarrow> string \<Rightarrow> string \<Rightarrow> string \<Rightarrow> bool \<Rightarrow> consumer_opts \<Rightarrow> 'w
    \<Rightarrow> 'w \<times> (js_error + js_info)" where
  "processOptions E A tok1 tok2 pre subj isBind opts =
     checked (process_config tok1 pre opts) (\<lambda>cfg w.
       and_then (if op_stream opts \<noteq> [] then (w, Inr (J_Str (op_stream opts))) else findStream E A subj w)
         (\<lambda>stream w1.
           and_then (attach E A subj
               \<lparr>si_config = cfg, si_stream = text_or_empty (Some stream), si_isBind = isBind,
                si_ordered = op_ordered opts, si_mack = op_mack opts, si_callbackFn = op_callbackFn opts,
                si_maxMsgs = op_max opts, si_queue = op_queue opts, si_attached = False, si_last = None,
                si_name = None, si_deliver = []\<rparr> w1)
             (\<lambda>s w2. (w2, set_deliver tok2 pre (set_filter subj s)))))"

section \<open>The consumer\<close>

text \<open>The test whether the server took the filter subjects, with its parenthesis where the
  code has it.\<close>

definition filters_not_honored :: "json \<Rightarrow> json \<Rightarrow> js_error + bool" where
  "filters_not_honored cfg ci =
     (if truthy (fld ''filter_subjects'' cfg)
      then rbind (member ''config'' ci) (\<lambda>c. case c of
             None \<Rightarrow> throw ''Cannot read properties of undefined''
           | Some ic \<Rightarrow> rbind (member ''filter_subjects'' ic) (\<lambda>fs.
               Inr (is_array (Some (J_Bool (\<not> is_array fs))))))
      else Inr (is_array (fld ''filter_subjects'' cfg)))"

lemma filters_check_never_fires: "filters_not_honored cfg ci \<noteq> Inr True"
  by (auto simp: filters_not_honored_def is_array_def truthy_def rbind_Inr_iff throw_def split: option.splits json.splits)

definition new_consumer_config :: "json \<Rightarrow> json" where
  "new_consumer_config cfg =
     assign (J_Obj [(''deliver_policy'', J_Str (deliver_string DP_All)), (''ack_policy'', J_Str (ack_string AP_Explicit)),
       (''ack_wait'', J_Num (int (nanos (30 * 1000)))), (''replay_policy'', J_Str (replay_string RP_Instant))]) cfg"

definition maybeCreateConsumer ::
  "'w api_env \<Rightarrow> api \<Rightarrow> js_info \<Rightarrow> 'w \<Rightarrow> 'w \<times> (js_error + js_info)" where
  "maybeCreateConsumer E A s w =
     (if si_attached s then (w, Inr s)
      else if si_isBind s
      then (w, throw (''unable to bind - durable consumer '' @ text_or_empty (fld ''durable_name'' (si_config s))
              @ '' doesn'' @ [CHR 0x27] @ ''t exist in '' @ si_stream s))
      else let cfg = new_consumer_config (si_config s) in
        and_then (consumer_add E A (si_stream s) cfg Create_Or_Update w) (\<lambda>ci w1.
          (w1, rbind (filters_not_honored cfg ci) (\<lambda>bad.
             if bad then throw (''jetstream server doesn'' @ [CHR 0x27]
               @ ''t support consumers with multiple filter subjects'')
             else Inr (s\<lparr>si_config := (case fld ''config'' ci of Some c \<Rightarrow> c | None \<Rightarrow> J_Null),
                    si_name := Some (text_or_empty (fld ''name'' ci)), si_last := Some ci\<rparr>)))))"

text \<open>The options of the typed subscription: which adapter it has, whether the messages are
  acknowledged after the dispatch, and what the subscription below is given.\<close>

record typed_opts =
  to_iterator :: bool
  to_ordered :: bool
  to_auto_ack :: bool
  to_max :: nat
  to_queue :: "string option"

definition buildTypedSubscriptionOpts :: "js_info \<Rightarrow> typed_opts" where
  "buildTypedSubscriptionOpts s =
     \<lparr>to_iterator = (\<not> si_callbackFn s), to_ordered = si_ordered s,
      to_auto_ack = (\<not> si_mack s \<and> fld ''ack_policy'' (si_config s) \<noteq> Some (J_Str (ack_string AP_None))),
      to_max = (case si_maxMsgs s of Some n \<Rightarrow> n | None \<Rightarrow> 0), to_queue = si_queue s\<rparr>"

text \<open>The subscription below a typed one always has a callback.\<close>

definition typed_sub_opts :: "typed_opts \<Rightarrow> sub_opts" where
  "typed_sub_opts t =
     \<lparr>so_queue = to_queue t, so_max = (if to_max t > 0 then Some (to_max t) else None), so_timeout = None,
      so_callback = True\<rparr>"

definition new_js_sub :: "api \<Rightarrow> js_info \<Rightarrow> js_sub" where
  "new_js_sub A s =
     \<lparr>jb_stream = si_stream s, jb_ordered = si_ordered s, jb_prefix = ap_prefix A, jb_config = si_config s,
      jb_name = si_name s, jb_deliver = si_deliver s, jb_stream_seq = (if si_ordered s then Some 0 else None),
      jb_delivery_seq = 0, jb_hb_count = 0, jb_fc_count = 0, jb_restarts = 0, jb_monitor = None, jb_requests = []\<rparr>"

definition maybeSetupHbMonitoring :: "nat \<Rightarrow> js_sub \<Rightarrow> js_sub" where
  "maybeSetupHbMonitoring now b =
     (case fld ''idle_heartbeat'' (jb_config b) of
        Some (J_Num n) \<Rightarrow> if n \<noteq> 0 then b\<lparr>jb_monitor := Some (new_idle_monitor now (millis (nat n)) (Some 2) (Some 0))\<rparr> else b
      | _ \<Rightarrow> b)"

text \<open>The subscription is made before its consumer; when the consumer cannot be made it is
  unsubscribed. \<open>i\<close> numbers the subscription. The requests of the API travel over the same connection,
  so the environment of a request is the one the connection gives at that moment.\<close>

definition subscribe_with_consumer ::
  "(connection \<Rightarrow> 'w api_env) \<Rightarrow> api \<Rightarrow> nat \<Rightarrow> js_info \<Rightarrow> connection \<Rightarrow> 'w \<Rightarrow> connection \<times> 'w \<times> (js_error + js_sub \<times> typed_opts)" where
  "subscribe_with_consumer E A i s nc w =
     (let t = buildTypedSubscriptionOpts s in
      case nc_subscribe i (si_deliver s) (typed_sub_opts t) nc of
        (nc1, Inl e) \<Rightarrow> (nc1, w, Inl e)
      | (nc1, Inr _) \<Rightarrow>
          (case maybeCreateConsumer (E nc1) A s w of
             (w1, Inl e) \<Rightarrow> (nc1\<lparr>nc_protocol := pr_unsubscribe i None (nc_protocol nc1)\<rparr>, w1, Inl e)
           | (w1, Inr s1) \<Rightarrow> (nc1, w1, Inr (new_js_sub A s1, t))))"

definition js_subscribe ::
  "(connection \<Rightarrow> 'w api_env) \<Rightarrow> api \<Rightarrow> string \<Rightarrow> string \<Rightarrow> nat \<Rightarrow> nat \<Rightarrow> string \<Rightarrow> bool \<Rightarrow> consumer_opts \<Rightarrow> connection \<Rightarrow> 'w
    \<Rightarrow> connection \<times> 'w \<times> (js_error + js_sub \<times> typed_opts)" where
  "js_subscribe E A tok1 tok2 now i subj isBind opts nc w =
     (case processOptions (E nc) A tok1 tok2 (inbox_prefix nc) subj isBind opts w of
        (w1, Inl e) \<Rightarrow> (nc, w1, Inl e)
      | (w1, Inr s) \<Rightarrow>
          if \<not> si_isBind s \<and> \<not> truthy (fld ''deliver_subject'' (si_config s))
          then (nc, w1, throw ''push consumer requires deliver_subject'')
          else (case subscribe_with_consumer E A i s nc w1 of
                  (nc1, w2, r) \<Rightarrow> (nc1, w2, rbind r (\<lambda>(b, t). Inr (maybeSetupHbMonitoring now b, t)))))"

definition js_pullSubscribe ::
  "(connection \<Rightarrow> 'w api_env) \<Rightarrow> api \<Rightarrow> string \<Rightarrow> string \<Rightarrow> nat \<Rightarrow> string \<Rightarrow> bool \<Rightarrow> consumer_opts \<Rightarrow> connection \<Rightarrow> 'w
    \<Rightarrow> connection \<times> 'w \<times> (js_error + js_sub \<times> typed_opts)" where
  "js_pullSubscribe E A tok1 tok2 i subj isBind opts nc w =
     (case processOptions (E nc) A tok1 tok2 (inbox_prefix nc) subj isBind opts w of
        (w1, Inl e) \<Rightarrow> (nc, w1, Inl e)
      | (w1, Inr s) \<Rightarrow>
          if si_ordered s then (nc, w1, throw ''pull subscribers cannot be be ordered'')
          else if truthy (fld ''deliver_subject'' (si_config s))
          then (nc, w1, throw ''consumer info specifies deliver_subject - pull consumers cannot have deliver_subject set'')
          else if fld ''ack_policy'' (si_config s) \<in> {Some (J_Str (ack_string AP_None)), Some (J_Str (ack_string AP_All))}
          then (nc, w1, throw ''ack policy for pull consumers must be explicit'')
          else subscribe_with_consumer E A i s nc w1)"

section \<open>Messages\<close>

definition hideNonTerminalJsErrors :: "bool \<Rightarrow> js_error \<Rightarrow> js_error option" where
  "hideNonTerminalJsErrors max_waiting_fail ne =
     (if has_code ne EC_JetStream404NoMessages \<or> has_code ne EC_JetStream408RequestTimeout then None
      else if has_code ne EC_JetStream409 then (if isTerminal409 max_waiting_fail ne then Some ne else None)
      else Some ne)"

text \<open>An adapter gives the error and the message for the typed subscription.\<close>

definition cbMsgAdapter :: "int \<Rightarrow> js_error option \<Rightarrow> nats_msg \<Rightarrow> js_error + (js_error option \<times> js_msg option)" where
  "cbMsgAdapter ackTimeout err msg =
     (case err of
        Some e \<Rightarrow> Inr (Some e, None)
      | None \<Rightarrow> rbind (checkJsError msg) (\<lambda>je. Inr (case je of
            Some e \<Rightarrow> (Some e, None) | None \<Rightarrow> (None, Some (toJsMsg msg ackTimeout)))))"

definition iterMsgAdapter ::
  "bool \<Rightarrow> int \<Rightarrow> js_error option \<Rightarrow> nats_msg \<Rightarrow> js_error + (js_error option \<times> js_msg option)" where
  "iterMsgAdapter max_waiting_fail ackTimeout err msg =
     (case err of
        Some e \<Rightarrow> Inr (Some e, None)
      | None \<Rightarrow> rbind (checkJsError msg) (\<lambda>je. Inr (case je of
            Some e \<Rightarrow> (hideNonTerminalJsErrors max_waiting_fail e, None)
          | None \<Rightarrow> (None, Some (toJsMsg msg ackTimeout)))))"

text \<open>The protocol filter: a flow control message is answered and not presented.\<close>

definition protocol_filter :: "js_msg \<Rightarrow> connection \<Rightarrow> connection \<times> (js_error + bool)" where
  "protocol_filter m nc =
     (case isFlowControlMsg (jm_msg m) of
        Inl e \<Rightarrow> (nc, Inl e)
      | Inr True \<Rightarrow> (let (p, r) = respond (jm_msg m) [] [] (nc_protocol nc)
                   in (nc\<lparr>nc_protocol := p\<rparr>, rbind r (\<lambda>_. Inr False)))
      | Inr False \<Rightarrow> (nc, Inr True))"

definition autoAckJsMsg :: "js_msg \<Rightarrow> connection \<Rightarrow> connection \<times> (js_error + unit)" where
  "autoAckJsMsg m nc = (let (m1, p, r) = jm_ack m (nc_protocol nc) in (nc\<lparr>nc_protocol := p\<rparr>, r))"

text \<open>A message for the iterator: \<open>callback\<close> of the typed subscription with the ingestion
  filter; the filter is not asked once the iterator is done.\<close>

definition typed_message ::
  "nat \<Rightarrow> string \<Rightarrow> string \<Rightarrow> nat \<Rightarrow> bool \<Rightarrow> int \<Rightarrow> js_error option \<Rightarrow> nats_msg \<Rightarrow> js_sub \<Rightarrow> js_msg qiter \<Rightarrow> connection
    \<Rightarrow> js_sub \<times> js_msg qiter \<times> connection \<times> (js_error + unit)" where
  "typed_message now tok cname i mwf ackTimeout err msg b q nc =
     (let nc0 = nc\<lparr>nc_protocol := with_subs (upd_sub i sub_cancelTimeout) (nc_protocol nc)\<rparr> in
      case iterMsgAdapter mwf ackTimeout err msg of
        Inl e \<Rightarrow> (b, q, nc0, Inl e)
      | Inr (jer, tm) \<Rightarrow>
          let q1 = (case jer of Some e \<Rightarrow> qi_stop (Some e) q | None \<Rightarrow> q) in
          (case tm of
             None \<Rightarrow> (b, q1, nc0, Inr ())
           | Some m \<Rightarrow>
               if qi_done q1 then (b, q1, nc0, Inr ())
               else (case ingestion now tok cname i (jb_ordered b) m b nc0 of
                       (b1, nc1, Inl e) \<Rightarrow> (b1, q1, nc1, Inl e)
                     | (b1, nc1, Inr f) \<Rightarrow> (b1, qi_push (\<lambda>_. f) (Val m) q1, nc1, Inr ()))))"

text \<open>A message for the function of the user: the last component is what it is called with.\<close>

definition typed_call ::
  "nat \<Rightarrow> string \<Rightarrow> string \<Rightarrow> nat \<Rightarrow> bool \<Rightarrow> int \<Rightarrow> js_error option \<Rightarrow> nats_msg \<Rightarrow> js_sub \<Rightarrow> connection
    \<Rightarrow> js_sub \<times> connection \<times> (js_error + (js_error option \<times> js_msg option) list)" where
  "typed_call now tok cname i auto_ack ackTimeout err msg b nc =
     (case cbMsgAdapter ackTimeout err msg of
        Inl e \<Rightarrow> (b, nc, Inl e)
      | Inr (Some e, tm) \<Rightarrow> (b, nc, Inr [(Some e, None)])
      | Inr (None, None) \<Rightarrow> (b, nc, Inr [])
      | Inr (None, Some m) \<Rightarrow>
          (case ingestion now tok cname i (jb_ordered b) m b nc of
             (b1, nc1, Inl e) \<Rightarrow> (b1, nc1, Inl e)
           | (b1, nc1, Inr (ingest, proto)) \<Rightarrow>
               if \<not> ingest then (b1, nc1, Inr [])
               else (case protocol_filter m nc1 of
                       (nc2, Inl e) \<Rightarrow> (b1, nc2, Inl e)
                     | (nc2, Inr ok) \<Rightarrow>
                         if \<not> ok then (b1, nc2, Inr [])
                         else if auto_ack
                         then (let (nc3, r) = autoAckJsMsg m nc2 in (b1, nc3, rbind r (\<lambda>_. Inr [(None, Some m)])))
                         else (b1, nc2, Inr [(None, Some m)]))))"

section \<open>The consumer of a subscription\<close>

definition sub_consumer_name :: "js_sub \<Rightarrow> string" where
  "sub_consumer_name b =
     (let d = fld ''durable_name'' (jb_config b)
      in if truthy d then text_or_empty d else case jb_name b of Some n \<Rightarrow> n | None \<Rightarrow> ''undefined'')"

definition sub_destroy :: "'w api_env \<Rightarrow> api \<Rightarrow> js_sub \<Rightarrow> 'w \<Rightarrow> 'w \<times> (js_error + unit)" where
  "sub_destroy E A b w =
     and_then (requesting E A (jb_prefix b @ ''.CONSUMER.DELETE.'' @ jb_stream b @ ''.'' @ sub_consumer_name b) None w)
       (\<lambda>_ w1. (w1, Inr ()))"

definition sub_consumerInfo :: "'w api_env \<Rightarrow> api \<Rightarrow> js_sub \<Rightarrow> 'w \<Rightarrow> 'w \<times> (js_error + json)" where
  "sub_consumerInfo E A b =
     requesting E A (jb_prefix b @ ''.CONSUMER.INFO.'' @ jb_stream b @ ''.'' @ sub_consumer_name b) None"

section \<open>Pull requests\<close>

record pull_request =
  pq_batch :: "nat option"
  pq_no_wait :: bool
  pq_expires :: "int option"
  pq_max_bytes :: "int option"
  pq_idle_heartbeat :: "int option"

definition positive :: "int option \<Rightarrow> int" where
  "positive v = (case v of Some n \<Rightarrow> if n > 0 then n else 0 | None \<Rightarrow> 0)"

definition max_bytes_refused :: "api \<Rightarrow> js_error + unit" where
  "max_bytes_refused A =
     (let v = feature_get JS_PULL_MAX_BYTES (ap_features A)
      in require (fv_ok v) (''max_bytes is only supported on servers '' @ fv_min v @ '' or better''))"

definition pull_batch :: "pull_request \<Rightarrow> nat" where
  "pull_batch opts = (case pq_batch opts of Some n \<Rightarrow> if n \<noteq> 0 then n else 1 | None \<Rightarrow> 1)"

text \<open>\<open>pull\<close> of a pull subscription: the arguments, or the refusal.\<close>

definition pull_args :: "api \<Rightarrow> pull_request \<Rightarrow> js_error + json" where
  "pull_args A opts =
     (let mb = positive (pq_max_bytes opts); ex = positive (pq_expires opts); hb = positive (pq_idle_heartbeat opts) in
      rbind (if mb > 0 then max_bytes_refused A else Inr ()) (\<lambda>_.
      rbind (require (\<not> (hb \<noteq> 0 \<and> ex = 0)) ''idle_heartbeat requires expires'') (\<lambda>_.
      rbind (require (\<not> hb > ex) ''expires must be greater than idle_heartbeat'') (\<lambda>_.
      Inr (J_Obj ([(''batch'', J_Num (int (pull_batch opts))), (''no_wait'', J_Bool (pq_no_wait opts))]
        @ (if mb > 0 then [(''max_bytes'', J_Num mb)] else [])
        @ (if ex > 0 then [(''expires'', J_Num (int (nanos (nat ex))))] else [])
        @ (if hb > 0 then [(''idle_heartbeat'', J_Num (int (nanos (nat hb))))] else [])))))))"

definition pull_monitor :: "nat \<Rightarrow> pull_request \<Rightarrow> js_sub \<Rightarrow> js_sub" where
  "pull_monitor now opts b =
     (let ex = nat (positive (pq_expires opts)); hb = nat (positive (pq_idle_heartbeat opts));
          b1 = b\<lparr>jb_monitor := map_option im_cancel (jb_monitor b)\<rparr>
      in if ex \<noteq> 0 \<and> hb \<noteq> 0
         then b1\<lparr>jb_monitor := Some (case jb_monitor b1 of
             None \<Rightarrow> new_idle_monitor now hb (Some 2) (Some ex)
           | Some m \<Rightarrow> im_change hb ex 2 m)\<rparr>
         else b1)"

definition pull_consumer :: "js_sub \<Rightarrow> string" where
  "pull_consumer b =
     (case fld ''durable_name'' (jb_config b) of
        Some J_Null \<Rightarrow> (case jb_name b of Some n \<Rightarrow> n | None \<Rightarrow> ''undefined'')
      | Some v \<Rightarrow> text_or_empty (Some v)
      | None \<Rightarrow> (case jb_name b of Some n \<Rightarrow> n | None \<Rightarrow> ''undefined''))"

definition sub_pull ::
  "'w api_env \<Rightarrow> api \<Rightarrow> nat \<Rightarrow> nat \<Rightarrow> pull_request \<Rightarrow> js_sub \<Rightarrow> connection \<Rightarrow> js_sub \<times> connection \<times> (js_error + unit)" where
  "sub_pull E A now i opts b nc =
     (case pull_args A opts of
        Inl e \<Rightarrow> (b, nc, Inl e)
      | Inr args \<Rightarrow>
          let (nc1, r) = nc_publish (jb_prefix b @ ''.CONSUMER.MSG.NEXT.'' @ jb_stream b @ ''.'' @ pull_consumer b)
                (P_Bytes (json_encode E (Some args))) (sb_subject (sub_of (nc_protocol nc) i)) None nc
          in (pull_monitor now opts b, nc1, r))"

section \<open>The subscription comes first\<close>

text \<open>What a new subscription sends: its \<open>SUB\<close>, and an \<open>UNSUB\<close> with the limit when it has one.\<close>

definition limit_line :: "nat \<Rightarrow> nat option \<Rightarrow> bytes" where
  "limit_line sd mx = (case mx of
      Some m \<Rightarrow> if m \<noteq> 0 then te_encode (''UNSUB '' @ show_nat sd @ '' '' @ show_nat m @ CR_LF) else []
    | None \<Rightarrow> [])"

definition deliver_lines :: "connection \<Rightarrow> js_info \<Rightarrow> bytes" where
  "deliver_lines nc s =
     (let o' = typed_sub_opts (buildTypedSubscriptionOpts s); sd = Suc (ss_sidCounter (pr_subs (nc_protocol nc)))
      in te_encode (sub_line ((new_subscription (si_deliver s) o')\<lparr>sb_sid := sd\<rparr>)) @ limit_line sd (so_max o'))"

lemma typed_max: "so_max (typed_sub_opts t) \<noteq> Some 0"
  by (simp add: typed_sub_opts_def)

lemma subscribed:
  assumes "subs_ok (pr_subs (nc_protocol nc))" "out_ok (nc_protocol nc)" "nc_check subj True False nc = Inr ()"
    "so_max opts \<noteq> Some 0"
  defines "sd \<equiv> Suc (ss_sidCounter (pr_subs (nc_protocol nc)))"
  shows "\<exists>nc1. nc_subscribe i subj opts nc = (nc1, Inr ()) \<and> out_ok (nc_protocol nc1)
    \<and> pr_closed (nc_protocol nc1) = pr_closed (nc_protocol nc)
    \<and> ss_subs (pr_subs (nc_protocol nc1)) = ss_subs (pr_subs (nc_protocol nc)) @ [(sd, i)]
    \<and> sub_of (nc_protocol nc1) i = (new_subscription subj opts)\<lparr>sb_sid := sd\<rparr>
    \<and> out_stream (nc_protocol nc1) = out_stream (nc_protocol nc)
         @ te_encode (sub_line ((new_subscription subj opts)\<lparr>sb_sid := sd\<rparr>)) @ limit_line sd (so_max opts)"
proof -
  let ?p = "with_subs (upd_sub i (\<lambda>_. new_subscription subj opts)) (nc_protocol nc)"
  let ?q = "with_subs (subs_add i) ?p" and ?s = "(new_subscription subj opts)\<lparr>sb_sid := sd\<rparr>"
  let ?q1 = "sendCommand (te_encode (sub_line ?s)) [] ?q"
  have c: "\<not> pr_closed (nc_protocol nc)" using assms(3) by (simp add: nc_check_def nc_isClosed_def split: if_splits)
  have fresh: "sd \<notin> fst ` set (ss_subs (pr_subs (nc_protocol nc)))"
    using subs_ok_fresh [OF assms(1)] by (simp add: sd_def)
  then have t: "pr_subs ?q = (upd_sub i (\<lambda>_. ?s) (pr_subs (nc_protocol nc)))
      \<lparr>ss_sidCounter := sd, ss_subs := ss_subs (pr_subs (nc_protocol nc)) @ [(sd, i)]\<rparr>"
    by (simp add: with_subs_def subs_add_def upd_sub_def Let_def update_absent sd_def)
  then have s: "sub_of ?q i = ?s" by (simp add: sub_of_def)
  have q: "out_ok ?q" "out_stream ?q = out_stream (nc_protocol nc)" "pr_closed ?q = pr_closed (nc_protocol nc)"
    using assms(2) by simp_all
  have q1: "out_ok ?q1" "out_stream ?q1 = out_stream (nc_protocol nc) @ te_encode (sub_line ?s)" "pr_subs ?q1 = pr_subs ?q"
      "pr_closed ?q1 = pr_closed (nc_protocol nc)"
    using sendCommand_stream [OF q(1)] q(2,3) by simp_all
  have sm: "sb_max (sub_of ?q1 i) = so_max opts" using s q1(3) by (simp add: sub_of_def new_subscription_def)
  show ?thesis
  proof (cases "so_max opts")
    case None
    then have "pr_subscribe i ?p = ?q1" using s sm by (simp add: pr_subscribe_def pr_subunsub_def pr_sub_def Let_def)
    then show ?thesis using assms(3) t s q1 None by (simp add: nc_subscribe_def limit_line_def sub_of_def)
  next
    case (Some m)
    let ?q2 = "with_subs (upd_sub i (\<lambda>x. x\<lparr>sb_max := Some m\<rparr>))
      (sendCommand (te_encode (''UNSUB '' @ show_nat sd @ '' '' @ show_nat m @ CR_LF)) [] ?q1)"
    have m: "m \<noteq> 0" using Some assms(4) by simp
    have "pr_unsub i (Some m) ?q1 = ?q2" using m c q1(3,4) s by (simp add: pr_unsub_def sub_of_def)
    moreover have "sub_of ?q2 i = ?s" using s q1(3) Some by (simp add: sub_of_def with_subs_def upd_sub_def new_subscription_def)
    moreover have "qi_received (sb_iter ?s) = 0" by (simp add: new_subscription_def new_qiter_def)
    moreover have "sb_max ?s = Some m" using Some by (simp add: new_subscription_def)
    ultimately have "pr_subscribe i ?p = ?q2"
      using s sm Some m by (simp add: pr_subscribe_def pr_subunsub_def pr_sub_def Let_def pr_unsubscribe_def)
    then show ?thesis
      using assms(3) t s q1 Some m sendCommand_stream [OF q1(1)] \<open>sub_of ?q2 i = ?s\<close>
      by (simp add: nc_subscribe_def limit_line_def)
  qed
qed


text \<open>The environment of a connection, recording every request with the connection it is made on.\<close>

definition seeing :: "(connection \<Rightarrow> 'w api_env) \<Rightarrow> connection \<Rightarrow> ('w \<times> (string \<times> connection) list) api_env" where
  "seeing E nc = \<lparr>ae_request = (\<lambda>s b h t (w, l). let (w1, r) = ae_request (E nc) s b h t w in ((w1, l @ [(s, nc)]), r)),
     ae_delay = (\<lambda>n (w, l). (ae_delay (E nc) n w, l)), ae_stringify = ae_stringify (E nc), ae_parse = ae_parse (E nc)\<rparr>"

lemma seeing_requesting:
  "\<exists>w' r. requesting (seeing E nc) A subj d (w, l) = ((w', l @ [(subj, nc)]), r)"
proof -
  have "\<exists>w' r. attempt (seeing E nc) A subj a (w, l) = ((w', l @ [(subj, nc)]), r)" for a
    by (simp add: attempt_def seeing_def case_prod_beta)
  moreover have "request_loop (seeing E nc) A subj a 1 0 (w, l) = apsnd (map_sum id Some) (attempt (seeing E nc) A subj a (w, l))" for a
    by (simp add: request_loop.simps [of _ _ _ _ 1 0] case_prod_beta apsnd_def map_prod_def split: sum.split)
  ultimately show ?thesis
    by (simp add: requesting_def api_request_def Let_def case_prod_beta apsnd_def map_prod_def) (metis fst_conv)
qed

definition create_subject :: "api \<Rightarrow> js_info \<Rightarrow> js_error + string" where
  "create_subject A s = consumer_create_subject A (si_stream s) (new_consumer_config (si_config s))"

text \<open>Making the consumer asks once, unless there is one, or the consumer to bind to is missing.\<close>

lemma consumer_is_asked_once:
  "\<exists>w' m r. maybeCreateConsumer (seeing E nc) A s (w, l) = ((w', l @ m), r) \<and> (\<forall>x \<in> set m. snd x = nc)
    \<and> (\<forall>subj. \<not> si_attached s \<and> \<not> si_isBind s \<and> create_subject A s = Inr subj \<longrightarrow> map fst m = [subj])
    \<and> (\<forall>s1. r = Inr s1 \<and> \<not> si_attached s \<longrightarrow> length m = 1)"
proof (cases "si_attached s \<or> si_isBind s")
  case True
  then show ?thesis by (auto simp: maybeCreateConsumer_def throw_def)
next
  case False
  let ?c = "new_consumer_config (si_config s)"
  show ?thesis
  proof (cases "consumer_create_subject A (si_stream s) ?c")
    case (Inl e)
    then show ?thesis using False by (auto simp: maybeCreateConsumer_def consumer_add_def checked_def and_then_def create_subject_def Let_def)
  next
    case (Inr subj)
    let ?d = "Some (J_Obj [(''config'', ?c), (''stream_name'', J_Str (si_stream s)), (''action'', J_Str (action_string Create_Or_Update))])"
    obtain w' r where "requesting (seeing E nc) A subj ?d (w, l) = ((w', l @ [(subj, nc)]), r)"
      using seeing_requesting [of E nc A subj ?d w l] by blast
    then show ?thesis
      using False Inr by (cases r) (auto simp: maybeCreateConsumer_def consumer_add_def checked_def and_then_def create_subject_def Let_def)
  qed
qed

text \<open>
  C32: A subscription to a stream listens before its consumer exists. When its consumer is asked for,
  the \<open>SUB\<close> (and the \<open>UNSUB\<close> with the limit, if it has one) is already with the server or in the
  output, and the subscription is in the table under its subject. A consumer that is made is asked for
  once, and nothing more is sent; if it cannot be made, the error is passed on, the subscription is
  ended by an \<open>UNSUB\<close> and the table is as before.
\<close>
theorem subscription_comes_before_its_consumer:
  fixes nc :: connection
  defines "p \<equiv> nc_protocol nc"
  defines "sd \<equiv> Suc (ss_sidCounter (pr_subs p))"
  assumes "subs_ok (pr_subs p)" "out_ok p" "nc_check (si_deliver s) True False nc = Inr ()"
    "subscribe_with_consumer (seeing E) A i s nc (w, []) = (nc', (w', l), r)"
  shows "(\<forall>(subj, c) \<in> set l. out_stream (nc_protocol c) = out_stream p @ deliver_lines nc s
        \<and> map_of (ss_subs (pr_subs (nc_protocol c))) sd = Some i \<and> sb_subject (sub_of (nc_protocol c) i) = si_deliver s)
    \<and> (\<forall>subj. \<not> si_attached s \<and> \<not> si_isBind s \<and> create_subject A s = Inr subj \<longrightarrow> map fst l = [subj])
    \<and> (case r of
       Inl e \<Rightarrow> ss_subs (pr_subs (nc_protocol nc')) = ss_subs (pr_subs p)
         \<and> out_stream (nc_protocol nc') = out_stream p @ deliver_lines nc s @ unsub_line sd
     | Inr x \<Rightarrow> (si_attached s \<or> length l = 1)
         \<and> ss_subs (pr_subs (nc_protocol nc')) = ss_subs (pr_subs p) @ [(sd, i)]
         \<and> sb_subject (sub_of (nc_protocol nc') i) = si_deliver s
         \<and> out_stream (nc_protocol nc') = out_stream p @ deliver_lines nc s)"
proof -
  let ?t = "buildTypedSubscriptionOpts s"
  obtain nc1 where nc1: "nc_subscribe i (si_deliver s) (typed_sub_opts ?t) nc = (nc1, Inr ())" "out_ok (nc_protocol nc1)"
      "pr_closed (nc_protocol nc1) = pr_closed p" "ss_subs (pr_subs (nc_protocol nc1)) = ss_subs (pr_subs p) @ [(sd, i)]"
      "sub_of (nc_protocol nc1) i = (new_subscription (si_deliver s) (typed_sub_opts ?t))\<lparr>sb_sid := sd\<rparr>"
      "out_stream (nc_protocol nc1) = out_stream p @ deliver_lines nc s"
    using subscribed [OF assms(3) [unfolded p_def] assms(4) [unfolded p_def] assms(5) typed_max]
    by (auto simp: p_def sd_def deliver_lines_def Let_def)
  have open_p: "\<not> pr_closed p" using assms(5) by (simp add: p_def nc_check_def nc_isClosed_def split: if_splits)
  have fresh: "(sd, x) \<notin> set (ss_subs (pr_subs p))" "sd \<notin> fst ` set (ss_subs (pr_subs p))" for x
    using subs_ok_fresh [OF assms(3)] by (force simp: sd_def)+
  then have get: "map_of (ss_subs (pr_subs (nc_protocol nc1))) sd = Some i"
    using nc1(4) by (auto simp: map_add_def map_of_eq_None_iff dest: map_of_SomeD split: option.split)
  obtain w1 m c where c: "maybeCreateConsumer (seeing E nc1) A s (w, []) = ((w1, m), c)" "\<forall>x \<in> set m. snd x = nc1"
      "\<forall>s1. c = Inr s1 \<and> \<not> si_attached s \<longrightarrow> length m = 1"
      "\<forall>subj. \<not> si_attached s \<and> \<not> si_isBind s \<and> create_subject A s = Inr subj \<longrightarrow> map fst m = [subj]"
    using consumer_is_asked_once [of E nc1 A s w "[]"] by auto
  have subj: "sb_subject (sub_of (nc_protocol nc1) i) = si_deliver s" using nc1(5) by (simp add: new_subscription_def)
  have seen: "\<forall>(subj, c) \<in> set m. out_stream (nc_protocol c) = out_stream p @ deliver_lines nc s
      \<and> map_of (ss_subs (pr_subs (nc_protocol c))) sd = Some i \<and> sb_subject (sub_of (nc_protocol c) i) = si_deliver s"
  proof (clarify)
    fix x k assume "(x, k) \<in> set m"
    then have "k = nc1" using c(2) by auto
    then show "out_stream (nc_protocol k) = out_stream p @ deliver_lines nc s
      \<and> map_of (ss_subs (pr_subs (nc_protocol k))) sd = Some i \<and> sb_subject (sub_of (nc_protocol k) i) = si_deliver s"
      using nc1(6) get subj by simp
  qed
  show ?thesis
  proof (cases c)
    case (Inr s1)
    then have "l = m" "nc' = nc1" "\<exists>x. r = Inr x" using assms(6) nc1(1) c(1) by (auto simp: subscribe_with_consumer_def)
    then show ?thesis using Inr nc1(4,6) c(3,4) seen subj by auto
  next
    case (Inl e)
    let ?q = "pr_unsubscribe i None (nc_protocol nc1)"
    have "AList.delete sd (ss_subs (pr_subs p)) = ss_subs (pr_subs p)"
      using fresh by (force simp: AList.delete_eq filter_id_conv)
    then have "ss_subs (pr_subs ?q) = ss_subs (pr_subs p)"
      using nc1(3,4,5) open_p
      by (simp add: pr_unsubscribe_def pr_unsub_def subs_cancel_def sub_of_def with_subs_def AList.delete_eq)
    moreover have "out_stream ?q = out_stream (nc_protocol nc1) @ unsub_line sd"
      using nc1(2,3,5) open_p by (simp add: pr_unsubscribe_def pr_unsub_def unsub_line_def sendCommand_stream)
    moreover have "l = m" "nc' = nc1\<lparr>nc_protocol := ?q\<rparr>" "r = Inl e"
      using assms(6) nc1(1) c(1) Inl by (auto simp: subscribe_with_consumer_def)
    ultimately show ?thesis using nc1(6) c(4) seen by simp
  qed
qed

definition sample_js_info :: js_info where
  "sample_js_info = \<lparr>si_config = J_Obj [(''durable_name'', J_Str ''d'')], si_stream = ''S'', si_isBind = False,
     si_ordered = False, si_mack = True, si_callbackFn = False, si_maxMsgs = Some 5, si_queue = None,
     si_attached = False, si_last = None, si_name = None, si_deliver = ''_INBOX.d''\<rparr>"


theorem subscription_comes_before_its_consumer_witness:
  "\<exists>nc' w' subj c r. subscribe_with_consumer (seeing (\<lambda>_. late_server)) sample_api 7 sample_js_info sample_connection (True, [])
      = (nc', (w', [(subj, c)]), r)
    \<and> out_stream (nc_protocol c) = deliver_lines sample_connection sample_js_info
    \<and> map_of (ss_subs (pr_subs (nc_protocol c))) 2 = Some 7"
proof -
  have p: "pr_subs sample_protocol = new_subs" "\<not> pr_closed sample_protocol" "out_ok sample_protocol"
      "out_stream sample_protocol = []"
    by (simp_all add: sample_protocol_def initial_protocol_def out_ok_def dq_ok_def dq_bytes_def
        new_data_buffer_def out_stream_def)
  have t: "subs_ok (pr_subs with_limited_sub)" "ss_sidCounter (pr_subs with_limited_sub) = 1"
    by (simp_all add: with_limited_sub_def with_subs_def p subs_add_def new_subs_def Let_def subs_ok_def)
  have o: "out_ok with_limited_sub" "out_stream with_limited_sub = []" "\<not> pr_closed with_limited_sub"
    by (simp_all add: with_limited_sub_def p)
  have k: "nc_check ''_INBOX.d'' True False sample_connection = Inr ()"
    by (simp add: sample_connection_def nc_check_def nc_isClosed_def nc_isDraining_def o)
  have v: "validateStreamName ''S'' = Inr []" "validateDurableName ''d'' = Inr []" by code_simp+
  have "\<not> isl (create_subject sample_api sample_js_info)"
    by (simp add: create_subject_def consumer_create_subject_def new_consumer_config_def assign_def js_extend_def fld_def
        sample_js_info_def truthy_def require_def needs_def v rbind_def is_array_def Let_def text_or_empty_def either_def)
  then obtain subj where subj: "create_subject sample_api sample_js_info = Inr subj" by (cases "create_subject sample_api sample_js_info") auto
  obtain nc' w' l r where s: "subscribe_with_consumer (seeing (\<lambda>_. late_server)) sample_api 7 sample_js_info sample_connection (True, [])
      = (nc', (w', l), r)" by (metis surj_pair)
  have pre: "subs_ok (pr_subs (nc_protocol sample_connection))" "out_ok (nc_protocol sample_connection)"
      "nc_check (si_deliver sample_js_info) True False sample_connection = Inr ()"
    using t o k by (simp_all add: sample_connection_def sample_js_info_def)
  note b = subscription_comes_before_its_consumer [OF pre s]
  have "\<not> si_attached sample_js_info" "\<not> si_isBind sample_js_info" by (simp_all add: sample_js_info_def)
  then have "map fst l = [subj]" using b [THEN conjunct2, THEN conjunct1] subj by blast
  then obtain c where l: "l = [(subj, c)]" by auto
  moreover have "Suc (ss_sidCounter (pr_subs (nc_protocol sample_connection))) = 2" "out_stream (nc_protocol sample_connection) = []"
    using t o by (simp_all add: sample_connection_def)
  ultimately have "out_stream (nc_protocol c) = deliver_lines sample_connection sample_js_info"
      "map_of (ss_subs (pr_subs (nc_protocol c))) 2 = Some 7"
    using b [THEN conjunct1] by (simp_all add: numeral_2_eq_2)
  then show ?thesis using s l by blast
qed

end
