(* ===== verification/Js_Fetch.thy ===== *)
theory Js_Fetch
  imports Js_Subscribe
begin

text \<open>
  \<open>fetch\<close> of \<open>JetStreamClientImpl\<close> in \<open>jetstream/jsclient.ts\<close>: a request for a number of messages
  whose iterator ends when they have come, when the time is over or when the subscription of
  the request closes. The iterator is the one of \<open>queued_iterator.ts\<close> with its filter and its
  function for dispatched messages.
\<close>

section \<open>The request\<close>

record fetch_request = pull_request +
  fq_delay_heartbeat :: bool

definition or_zero :: "int option \<Rightarrow> int" where
  "or_zero v = (case v of Some n \<Rightarrow> n | None \<Rightarrow> 0)"

definition fetch_args :: "api \<Rightarrow> fetch_request \<Rightarrow> js_error + json" where
  "fetch_args A opts =
     (let mb = positive (pq_max_bytes opts); ex = or_zero (pq_expires opts); hb = or_zero (pq_idle_heartbeat opts) in
      rbind (if mb > 0 then max_bytes_refused A else Inr ()) (\<lambda>_.
      rbind (require (\<not> (ex = 0 \<and> \<not> pq_no_wait opts)) ''expires or no_wait is required'') (\<lambda>_.
      Inr (J_Obj ([(''batch'', J_Num (int (case pq_batch opts of Some n \<Rightarrow> if n \<noteq> 0 then n else 1 | None \<Rightarrow> 1)))]
        @ (if mb > 0 then [(''max_bytes'', J_Num mb)] else [])
        @ [(''no_wait'', J_Bool (pq_no_wait opts))]
        @ (if ex \<noteq> 0 then [(''expires'', J_Num (int (nanos (nat ex))))] else [])
        @ (if hb \<noteq> 0 then [(''idle_heartbeat'', J_Num (int (nanos (nat (if fq_delay_heartbeat opts then hb * 4 else hb)))))]
           else []))))))"

record fetch =
  fe_qi :: "js_msg qiter"
  fe_wants :: nat
  fe_received :: nat
  fe_max_bytes :: int
  fe_bytes :: nat
  fe_timer :: bool
  fe_monitor :: "idle_monitor option"
  fe_timeout :: int

definition new_fetch :: "int \<Rightarrow> nat \<Rightarrow> fetch_request \<Rightarrow> fetch" where
  "new_fetch ackTimeout now opts =
     \<lparr>fe_qi = new_qiter, fe_wants = (case pq_batch opts of Some n \<Rightarrow> if n \<noteq> 0 then n else 1 | None \<Rightarrow> 1),
      fe_received = 0, fe_max_bytes = positive (pq_max_bytes opts), fe_bytes = 0,
      fe_timer = (or_zero (pq_expires opts) \<noteq> 0),
      fe_monitor = (if or_zero (pq_idle_heartbeat opts) \<noteq> 0
                    then Some (new_idle_monitor now (nat (or_zero (pq_idle_heartbeat opts))) (Some 2) None) else None),
      fe_timeout = ackTimeout\<rparr>"

definition fetch_sub_opts :: "fetch_request \<Rightarrow> sub_opts" where
  "fetch_sub_opts opts = \<lparr>so_queue = None, so_max = pq_batch opts, so_timeout = None, so_callback = True\<rparr>"

text \<open>\<open>fetch\<close>: the names and the arguments are checked, then it subscribes with the number of
  messages as the limit and publishes the request.\<close>

definition js_fetch ::
  "'w api_env \<Rightarrow> api \<Rightarrow> string \<Rightarrow> nat \<Rightarrow> nat \<Rightarrow> string \<Rightarrow> string \<Rightarrow> fetch_request \<Rightarrow> connection
    \<Rightarrow> connection \<times> (js_error + fetch)" where
  "js_fetch E A tok now i stream dur opts nc =
     (case rbind (rbind (validateStreamName stream) (\<lambda>_. validateDurableName dur)) (\<lambda>_.
             rbind (fetch_args A opts) (\<lambda>args. rbind (createInbox tok (inbox_prefix nc)) (\<lambda>inbox. Inr (args, inbox)))) of
        Inl e \<Rightarrow> (nc, Inl e)
      | Inr (args, inbox) \<Rightarrow>
          (case nc_subscribe i inbox (fetch_sub_opts opts) nc of
             (nc1, Inl e) \<Rightarrow> (nc1, Inl e)
           | (nc1, Inr _) \<Rightarrow>
               (case nc_publish (ap_prefix A @ ''.CONSUMER.MSG.NEXT.'' @ stream @ ''.'' @ dur)
                       (P_Bytes (json_encode E (Some args))) inbox None nc1 of
                  (nc2, Inl e) \<Rightarrow> (nc2, Inl e)
                | (nc2, Inr _) \<Rightarrow> (nc2, Inr (new_fetch (ap_timeout A) now opts)))))"

section \<open>Its events\<close>

text \<open>The callback of the subscription.\<close>

definition fetch_message :: "bool \<Rightarrow> nat \<Rightarrow> js_error option \<Rightarrow> nats_msg \<Rightarrow> fetch \<Rightarrow> fetch \<times> (js_error + unit)" where
  "fetch_message mwf now err msg f =
     (case (case err of Some e \<Rightarrow> Inr (Some e) | None \<Rightarrow> checkJsError msg) of
        Inl x \<Rightarrow> (f, Inl x)
      | Inr (Some e) \<Rightarrow>
          (f\<lparr>fe_timer := False,
             fe_qi := qi_stop (if is_nats_error e then hideNonTerminalJsErrors mwf e else Some e) (fe_qi f)\<rparr>, Inr ())
      | Inr None \<Rightarrow>
          (f\<lparr>fe_monitor := map_option (im_work now) (fe_monitor f),
             fe_qi := qi_push (\<lambda>_. (True, False)) (Val (toJsMsg msg (fe_timeout f)))
               ((fe_qi f)\<lparr>qi_received := qi_received (fe_qi f) + 1\<rparr>)\<rparr>, Inr ()))"

text \<open>The time is over: the subscription is drained unless it is closed; the first component
  says whether it drains.\<close>

definition fetch_expired :: "bool \<Rightarrow> fetch \<Rightarrow> bool \<times> fetch" where
  "fetch_expired closed f =
     (\<not> closed, f\<lparr>fe_timer := (if closed then fe_timer f else False), fe_monitor := map_option im_cancel (fe_monitor f)\<rparr>)"

text \<open>The subscription closed.\<close>

definition fetch_closed :: "fetch \<Rightarrow> fetch" where
  "fetch_closed f = f\<lparr>fe_timer := False, fe_monitor := map_option im_cancel (fe_monitor f), fe_qi := qi_stop None (fe_qi f)\<rparr>"

definition is_heartbeat :: "js_msg \<Rightarrow> bool" where
  "is_heartbeat m \<longleftrightarrow> isHeartbeatMsg (jm_msg m) = Inr True"

definition info_pending :: "js_msg \<Rightarrow> js_error + int option" where
  "info_pending m = rbind (snd (jm_info m)) (\<lambda>d. Inr (di_pending d))"

text \<open>The function for dispatched messages: whether it stops the iterator.\<close>

definition fetch_dispatched :: "js_msg \<Rightarrow> fetch \<Rightarrow> fetch" where
  "fetch_dispatched m f =
     (let f1 = f\<lparr>fe_bytes := (if fe_max_bytes f > 0 then fe_bytes f + length (msg_data (jm_msg m)) else fe_bytes f),
                 fe_received := fe_received f + 1\<rparr>;
          last = (\<lambda>u. rbind (info_pending m) (\<lambda>n. Inr (n = Some 0)));
          fail = (\<lambda>e. f1\<lparr>fe_qi := qi_finish (Some e) (fe_qi f1)\<rparr>)
      in case (if fe_timer f1 then last () else Inr False) of
           Inl e \<Rightarrow> fail e
         | Inr True \<Rightarrow> f1
         | Inr False \<Rightarrow>
             (case (if qi_getPending (fe_qi f1) = 1 then last () else Inr False) of
                Inl e \<Rightarrow> fail e
              | Inr b \<Rightarrow>
                  if b \<or> fe_wants f1 = fe_received f1 \<or> (fe_max_bytes f1 > 0 \<and> int (fe_bytes f1) \<ge> fe_max_bytes f1)
                  then f1\<lparr>fe_qi := qi_stop None (fe_qi f1)\<rparr> else f1))"

text \<open>One step of the iterator: after a message was taken the function for dispatched messages
  runs, a heartbeat is filtered and counts as work.\<close>

definition fetch_step :: "nat \<Rightarrow> fetch \<Rightarrow> fetch \<times> js_msg option" where
  "fetch_step now f =
     (let f1 = (case qi_pc (fe_qi f) of
                  Yielded v rest \<Rightarrow> fetch_dispatched v f
                | In_Batch (Val v # rest) \<Rightarrow>
                    if is_heartbeat v then f\<lparr>fe_monitor := map_option (im_work now) (fe_monitor f)\<rparr> else f
                | _ \<Rightarrow> f);
          (q, y) = qi_step (\<lambda>m. \<not> is_heartbeat m) (fe_qi f1)
      in (f1\<lparr>fe_qi := q\<rparr>, y))"

text \<open>Missed heartbeats queue a function that leaves an error.\<close>

definition fetch_missed :: "nat \<Rightarrow> fetch \<Rightarrow> fetch" where
  "fetch_missed v f = f\<lparr>fe_qi := qi_push (\<lambda>_. (True, False))
     (Fn None (Some (nats_error (idle_heartbeats_missed @ '': '' @ show_nat v) (code_string EC_JetStreamIdleHeartBeat) None)))
     (fe_qi f)\<rparr>"

fun fetch_run :: "nat \<Rightarrow> nat \<Rightarrow> fetch \<Rightarrow> fetch \<times> js_msg list" where
  "fetch_run now 0 f = (f, [])"
| "fetch_run now (Suc n) f =
     (let (f1, y) = fetch_step now f; (f2, ys) = fetch_run now n f1
      in (f2, (case y of Some v \<Rightarrow> [v] | None \<Rightarrow> []) @ ys))"

section \<open>A fetch that gets its messages\<close>

text \<open>Messages of a stream: no status, and a readable reply subject.\<close>

definition stream_message :: "nats_msg \<Rightarrow> bool" where
  "stream_message m \<longleftrightarrow> checkJsError m = Inr None \<and> isHeartbeatMsg m = Inr False
     \<and> (\<exists>d. parseInfo (msg_reply m) = Inr d)"

definition messages_come :: "bool \<Rightarrow> nat \<Rightarrow> nats_msg list \<Rightarrow> fetch \<Rightarrow> fetch" where
  "messages_come mwf now ms f = fold (\<lambda>m g. fst (fetch_message mwf now None m g)) ms f"

lemma messages_queue:
  assumes "\<forall>m \<in> set ms. checkJsError m = Inr None" "\<not> qi_done (fe_qi f)"
  shows "qi_yields (fe_qi (messages_come mwf now ms f)) = qi_yields (fe_qi f) @ map (\<lambda>m. Val (toJsMsg m (fe_timeout f))) ms
    \<and> qi_pc (fe_qi (messages_come mwf now ms f)) = qi_pc (fe_qi f)
    \<and> qi_err (fe_qi (messages_come mwf now ms f)) = qi_err (fe_qi f) \<and> \<not> qi_done (fe_qi (messages_come mwf now ms f))
    \<and> fe_wants (messages_come mwf now ms f) = fe_wants f \<and> fe_received (messages_come mwf now ms f) = fe_received f
    \<and> fe_timeout (messages_come mwf now ms f) = fe_timeout f \<and> (ms \<noteq> [] \<longrightarrow> qi_signal (fe_qi (messages_come mwf now ms f)))"
  using assms
proof (induction ms arbitrary: f)
  case (Cons m ms)
  let ?g = "fst (fetch_message mwf now None m f)"
  have g: "?g = f\<lparr>fe_monitor := map_option (im_work now) (fe_monitor f),
      fe_qi := (fe_qi f)\<lparr>qi_received := qi_received (fe_qi f) + 1,
        qi_yields := qi_yields (fe_qi f) @ [Val (toJsMsg m (fe_timeout f))], qi_signal := True\<rparr>\<rparr>"
    using Cons.prems by (simp add: fetch_message_def qi_push_def)
  then have "\<not> qi_done (fe_qi ?g)" using Cons.prems by simp
  from Cons.IH [OF _ this] Cons.prems(1) show ?case
    by (cases ms) (simp_all add: messages_come_def g del: fold_simps(2) add: fold_simps(2))
qed (simp add: messages_come_def)

lemma fetch_run_add:
  "fetch_run now (a + b) f = (let (f1, ys) = fetch_run now a f; (f2, zs) = fetch_run now b f1 in (f2, ys @ zs))"
  by (induction a arbitrary: f) (simp_all add: case_prod_beta Let_def)

lemma finished_stays: "qi_pc (fe_qi f) = Finished e \<Longrightarrow> fetch_run now n f = (f, [])"
  by (induction n) (simp_all add: fetch_step_def qi_step_def)

definition fetchable :: "js_msg \<Rightarrow> bool" where
  "fetchable m \<longleftrightarrow> is_heartbeat m \<or> (\<exists>d. snd (jm_info m) = Inr d)"

lemma dispatched_keeps:
  assumes "\<exists>d. snd (jm_info m) = Inr d" "qi_err (fe_qi f) = None"
  shows "qi_pc (fe_qi (fetch_dispatched m f)) = qi_pc (fe_qi f) \<and> qi_yields (fe_qi (fetch_dispatched m f)) = qi_yields (fe_qi f)
    \<and> qi_err (fe_qi (fetch_dispatched m f)) = None \<and> (qi_done (fe_qi f) \<longrightarrow> qi_done (fe_qi (fetch_dispatched m f)))"
  using assms
  by (auto simp: fetch_dispatched_def info_pending_def Let_def qi_stop_def split: sum.splits bool.splits)

lemma batch_is_presented:
  assumes "qi_pc (fe_qi f) = In_Batch (map Val ms)" "qi_err (fe_qi f) = None" "\<forall>m \<in> set ms. fetchable m"
  shows "\<exists>k f'. k \<le> 2 * length ms \<and> fetch_run now k f = (f', filter (\<lambda>m. \<not> is_heartbeat m) ms)
    \<and> qi_pc (fe_qi f') = In_Batch [] \<and> qi_err (fe_qi f') = None \<and> qi_yields (fe_qi f') = qi_yields (fe_qi f)
    \<and> (qi_done (fe_qi f) \<longrightarrow> qi_done (fe_qi f'))"
  using assms
proof (induction ms arbitrary: f)
  case Nil
  then show ?case by (intro exI [of _ 0] exI [of _ f]) simp
next
  case (Cons m ms)
  show ?case
  proof (cases "is_heartbeat m")
    case True
    obtain f1 where f1: "fetch_step now f = (f1, None)" "qi_pc (fe_qi f1) = In_Batch (map Val ms)"
        "qi_err (fe_qi f1) = None" "qi_yields (fe_qi f1) = qi_yields (fe_qi f)" "qi_done (fe_qi f1) = qi_done (fe_qi f)"
      using Cons.prems True by (auto simp: fetch_step_def qi_step_def)
    then obtain k f' where "k \<le> 2 * length ms" "fetch_run now k f1 = (f', filter (\<lambda>m. \<not> is_heartbeat m) ms)"
        "qi_pc (fe_qi f') = In_Batch []" "qi_err (fe_qi f') = None" "qi_yields (fe_qi f') = qi_yields (fe_qi f)"
        "qi_done (fe_qi f) \<longrightarrow> qi_done (fe_qi f')"
      using Cons.IH [OF f1(2,3)] Cons.prems(3) by auto
    then show ?thesis using f1(1) True by (intro exI [of _ "Suc k"] exI [of _ f']) simp
  next
    case False
    obtain f1 where f1: "fetch_step now f = (f1, Some m)" "qi_pc (fe_qi f1) = Yielded m (map Val ms)"
        "qi_err (fe_qi f1) = None" "qi_yields (fe_qi f1) = qi_yields (fe_qi f)" "qi_done (fe_qi f1) = qi_done (fe_qi f)"
      using Cons.prems False by (auto simp: fetch_step_def qi_step_def)
    let ?g = "fetch_dispatched m f1"
    let ?f2 = "?g\<lparr>fe_qi := (fe_qi ?g)\<lparr>qi_inflight := qi_inflight (fe_qi ?g) - 1, qi_pc := In_Batch (map Val ms)\<rparr>\<rparr>"
    have d: "\<exists>d. snd (jm_info m) = Inr d" using Cons.prems(3) False by (simp add: fetchable_def)
    note g = dispatched_keeps [OF d f1(3)]
    have f2: "fetch_step now f1 = (?f2, None)"
      using f1(2) g by (simp add: fetch_step_def qi_step_def Let_def)
    have "qi_pc (fe_qi ?f2) = In_Batch (map Val ms)" "qi_err (fe_qi ?f2) = None" using g by simp_all
    then obtain k f' where "k \<le> 2 * length ms" "fetch_run now k ?f2 = (f', filter (\<lambda>m. \<not> is_heartbeat m) ms)"
        "qi_pc (fe_qi f') = In_Batch []" "qi_err (fe_qi f') = None" "qi_yields (fe_qi f') = qi_yields (fe_qi f)"
        "qi_done (fe_qi f) \<longrightarrow> qi_done (fe_qi f')"
      using Cons.IH [of ?f2] Cons.prems(3) g f1(4,5) by auto
    then show ?thesis
      using f1(1) f2 False by (intro exI [of _ "Suc (Suc k)"] exI [of _ f']) simp
  qed
qed

text \<open>The calls the subscription makes, given to the callback of the fetch.\<close>

definition fetch_calls :: "bool \<Rightarrow> nat \<Rightarrow> (js_error option \<times> nats_msg option) list \<Rightarrow> fetch \<Rightarrow> fetch" where
  "fetch_calls mwf now cs f = fold (\<lambda>(e, m) g. case m of Some x \<Rightarrow> fst (fetch_message mwf now e x g) | None \<Rightarrow> g) cs f"

lemma fetch_calls_messages:
  "fetch_calls mwf now (map (\<lambda>x. (None, Some (g x))) ms) f = messages_come mwf now (map g ms) f"
  by (induction ms arbitrary: f) (simp_all add: fetch_calls_def messages_come_def)

definition iterating :: "fetch \<Rightarrow> fetch" where
  "iterating f = f\<lparr>fe_qi := (fe_qi f)\<lparr>qi_yielding := True, qi_pc := At_Loop\<rparr>\<rparr>"

lemma loop_takes_the_queue:
  assumes "qi_pc (fe_qi f) = At_Loop" "qi_err (fe_qi f) = None" "qi_signal (fe_qi f)"
  shows "\<exists>f1. fetch_step now f = (f1, None) \<and> qi_pc (fe_qi f1) = In_Batch (qi_yields (fe_qi f))
    \<and> qi_err (fe_qi f1) = None \<and> qi_done (fe_qi f1) = qi_done (fe_qi f)"
  using assms by (simp add: fetch_step_def qi_step_def Let_def)

lemma stopped_fetch_presents:
  assumes q: "qi_pc (fe_qi f) = At_Loop" "qi_err (fe_qi f) = None" "qi_signal (fe_qi f)" "qi_done (fe_qi f)"
    "qi_yields (fe_qi f) = map Val ms" and ms: "\<forall>m \<in> set ms. fetchable m" "2 * length ms + 2 \<le> n"
  shows "\<exists>f'. fetch_run now n f = (f', filter (\<lambda>m. \<not> is_heartbeat m) ms) \<and> qi_pc (fe_qi f') = Finished None"
proof -
  obtain f1 where f1: "fetch_step now f = (f1, None)" "qi_pc (fe_qi f1) = In_Batch (map Val ms)"
      "qi_err (fe_qi f1) = None" "qi_done (fe_qi f1)"
    using loop_takes_the_queue [OF q(1,2,3)] q(4,5) by metis
  obtain k f2 where f2: "k \<le> 2 * length ms" "fetch_run now k f1 = (f2, filter (\<lambda>m. \<not> is_heartbeat m) ms)"
      "qi_pc (fe_qi f2) = In_Batch []" "qi_done (fe_qi f2)"
    using batch_is_presented [OF f1(2,3) ms(1)] f1(4) by metis
  obtain f3 where f3: "fetch_step now f2 = (f3, None)" "qi_pc (fe_qi f3) = Finished None"
    using f2(3,4) by (auto simp: fetch_step_def qi_step_def qi_finish_def)
  have "fetch_run now (Suc (n - k - 2)) f2 = (f3, [])"
    using f3(1) finished_stays [OF f3(2)] by simp
  then have "fetch_run now (k + Suc (n - k - 2)) f1 = (f3, filter (\<lambda>m. \<not> is_heartbeat m) ms)"
    unfolding fetch_run_add by (simp add: f2(2))
  moreover have "n = Suc (k + Suc (n - k - 2))" using f2(1) ms(2) by simp
  moreover have "fetch_run now (Suc (k + Suc (n - k - 2))) f = fetch_run now (k + Suc (n - k - 2)) f1"
    by (simp add: f1(1))
  ultimately show ?thesis using f3(2) by metis
qed

lemma closed_fetch_presents:
  assumes "\<forall>m \<in> set ms. checkJsError m = Inr None \<and> fetchable (toJsMsg m tmo)" "2 * length ms + 2 \<le> n"
    "fe_timeout f = tmo" "fe_qi f = new_qiter"
  shows "\<exists>f'. fetch_run now n (fetch_closed (messages_come mwf now ms (iterating f))) =
      (f', filter (\<lambda>m. \<not> is_heartbeat m) (map (\<lambda>m. toJsMsg m tmo) ms)) \<and> qi_pc (fe_qi f') = Finished None"
  using messages_queue [of ms "iterating f" mwf now] assms
  by (intro stopped_fetch_presents) (auto simp: fetch_closed_def iterating_def new_qiter_def qi_stop_def)

text \<open>
  When at least \<open>n\<close> messages come for a fetch of \<open>n\<close>, its subscription closes with the \<open>n\<close>-th,
  and the iterator presents, in order, those of the first \<open>n\<close> that are no heartbeats and then
  ends without an error: heartbeats are counted by the limit of the subscription, so every
  heartbeat costs the caller one message, and a single one makes a fetch of one message end
  empty before its time is over.
\<close>
theorem fetch_presents_the_first_messages:
  assumes "limited i sd n 0 p" "0 < n" "\<forall>(m, d) \<in> set ms. sid m = int sd" "sb_calls (sub_of p i) = []"
    "\<forall>(m, d) \<in> set ms. checkJsError (new_msg m d) = Inr None \<and> fetchable (toJsMsg (new_msg m d) tmo)"
    "n \<le> length ms" "2 * n + 2 \<le> steps"
  shows "sub_by_sid (int sd) (process_all ms p) = None \<and>
    (\<exists>f'. fetch_run now steps (fetch_closed (fetch_calls mwf now (sb_calls (sub_of (process_all ms p) i))
        (iterating (new_fetch tmo now opts)))) =
      (f', filter (\<lambda>m. \<not> is_heartbeat m) (map (\<lambda>(m, d). toJsMsg (new_msg m d) tmo) (take n ms)))
    \<and> qi_pc (fe_qi f') = Finished None)"
proof -
  have c: "sb_calls (sub_of (process_all ms p) i) = map (\<lambda>(m, d). (None, Some (new_msg m d))) (take n ms)"
      "sub_by_sid (int sd) (process_all ms p) = None"
    using process_limited [OF assms(1,2,3)] assms(4,6) by simp_all
  let ?ms = "map (\<lambda>(m, d). new_msg m d) (take n ms)"
  have "fetch_calls mwf now (sb_calls (sub_of (process_all ms p) i)) g = messages_come mwf now ?ms g" for g
    using fetch_calls_messages [of mwf now "\<lambda>(m, d). new_msg m d" "take n ms"] by (simp add: c(1) case_prod_unfold)
  moreover have "\<forall>m \<in> set ?ms. checkJsError m = Inr None \<and> fetchable (toJsMsg m tmo)"
    using assms(5) by (auto dest!: in_set_takeD)
  moreover have "2 * length ?ms + 2 \<le> steps" using assms(6,7) by simp
  moreover have "fe_timeout (new_fetch tmo now opts) = tmo" "fe_qi (new_fetch tmo now opts) = new_qiter"
    by (simp_all add: new_fetch_def)
  ultimately show ?thesis
    using closed_fetch_presents [of ?ms tmo steps "new_fetch tmo now opts" now mwf] c(2)
    by (simp add: case_prod_unfold o_def)
qed

definition idle_heartbeat :: bytes where
  "idle_heartbeat = hdr_encode (new_hdrs 100 ''Idle Heartbeat'')"

lemma idle_heartbeat_msg:
  assumes "hdr a = int (length idle_heartbeat)"
  shows "checkJsError (new_msg a idle_heartbeat) = Inr None" "isHeartbeatMsg (new_msg a idle_heartbeat) = Inr True"
proof -
  let ?h = "new_hdrs 100 ''Idle Heartbeat''"
  have "hdrs_ok ?h" "status_ok ?h" by (simp add: hdrs_ok_def new_hdrs_def, code_simp)
  then have "msg_headers (new_msg a idle_heartbeat) = Inr (Some ?h)" "msg_data (new_msg a idle_heartbeat) = []"
    using assms by (simp_all add: idle_heartbeat_def new_msg_def msg_headers_def msg_data_def decode_encode subarray_def)
  then show "checkJsError (new_msg a idle_heartbeat) = Inr None" "isHeartbeatMsg (new_msg a idle_heartbeat) = Inr True"
    by (simp_all add: checkJsError_def isHeartbeatMsg_def isFlowControlMsg_def new_hdrs_def checkJsErrorCode_def)
qed

definition sample_fetch :: fetch_request where
  "sample_fetch = \<lparr>pq_batch = Some 2, pq_no_wait = False, pq_expires = Some 1000, pq_max_bytes = None,
     pq_idle_heartbeat = Some 100, fq_delay_heartbeat = False\<rparr>"

theorem fetch_presents_the_first_messages_witness:
  fixes a :: msg_arg
  defines "a \<equiv> newMsgArg\<lparr>sid := 1, hdr := int (length idle_heartbeat)\<rparr>"
  shows "\<exists>f'. fetch_run 0 6 (fetch_closed (fetch_calls False 0
      (sb_calls (sub_of (process_all [(a, idle_heartbeat), (a, idle_heartbeat)] with_limited_sub) 0))
      (iterating (new_fetch 5000 0 sample_fetch)))) = (f', []) \<and> qi_pc (fe_qi f') = Finished None"
proof -
  have subs: "pr_subs sample_protocol = new_subs" "\<not> pr_closed sample_protocol" "out_ok sample_protocol"
    by (simp_all add: sample_protocol_def initial_protocol_def out_ok_def dq_ok_def dq_bytes_def new_data_buffer_def)
  have "subs_ok (upd_sub 0 (\<lambda>_. limited_sub) new_subs)" by (simp add: subs_ok_def new_subs_def)
  then have "subs_ok (pr_subs with_limited_sub)"
    by (simp add: with_limited_sub_def subs subs_ok_add new_subs_def)
  then have l: "limited 0 1 2 0 with_limited_sub" "sb_calls (sub_of with_limited_sub 0) = []"
    by (simp_all add: limited_def with_limited_sub_def sub_of_def subs subs_add_def Let_def limited_sub_def
        new_subscription_def new_qiter_def new_subs_def)
  have h: "checkJsError (new_msg a idle_heartbeat) = Inr None" "is_heartbeat (toJsMsg (new_msg a idle_heartbeat) 5000)"
    using idle_heartbeat_msg [of a] by (simp_all add: a_def is_heartbeat_def toJsMsg_def)
  have "sid a = 1" by (simp add: a_def)
  then show ?thesis
    using fetch_presents_the_first_messages [of 0 1 2 with_limited_sub "[(a, idle_heartbeat), (a, idle_heartbeat)]" 5000 6
        0 False sample_fetch] l h by (auto simp: fetchable_def)
qed


section \<open>Every interleaving\<close>

text \<open>What happens to a fetch: a message comes, the reader takes a step, the time is over, the
  subscription closes. The run keeps the messages that came before the iterator was stopped and
  those that were presented.\<close>

datatype fetch_event = Comes nats_msg | Reads | Expires bool | Closes

definition fetch_event_step ::
  "bool \<Rightarrow> nat \<Rightarrow> fetch_event \<Rightarrow> fetch \<times> js_msg list \<times> js_msg list \<Rightarrow> fetch \<times> js_msg list \<times> js_msg list" where
  "fetch_event_step mwf now ev = (\<lambda>(f, cs, ys). case ev of
       Comes m \<Rightarrow> (fst (fetch_message mwf now None m f), cs @ (if qi_done (fe_qi f) then [] else [toJsMsg m (fe_timeout f)]), ys)
     | Reads \<Rightarrow> (case fetch_step now f of (f1, y) \<Rightarrow> (f1, cs, ys @ (case y of Some v \<Rightarrow> [v] | None \<Rightarrow> [])))
     | Expires closed \<Rightarrow> (snd (fetch_expired closed f), cs, ys)
     | Closes \<Rightarrow> (fetch_closed f, cs, ys))"

definition fetch_events ::
  "bool \<Rightarrow> nat \<Rightarrow> fetch_event list \<Rightarrow> fetch \<Rightarrow> fetch \<times> js_msg list \<times> js_msg list" where
  "fetch_events mwf now evs f = fold (fetch_event_step mwf now) evs (f, [], [])"

definition shown :: "js_msg list \<Rightarrow> js_msg list" where
  "shown ms = filter (\<lambda>m. \<not> is_heartbeat m) ms"

text \<open>A message with readable information, and whether it says that more are waiting.\<close>

definition plain_message :: "int \<Rightarrow> nats_msg \<Rightarrow> bool" where
  "plain_message tmo m \<longleftrightarrow> checkJsError m = Inr None \<and> fetchable (toJsMsg m tmo)"

definition more_waiting :: "js_msg \<Rightarrow> bool" where
  "more_waiting m \<longleftrightarrow> info_pending m \<noteq> Inr (Some 0)"

definition came_messages :: "fetch_event list \<Rightarrow> nats_msg list" where
  "came_messages evs = concat (map (\<lambda>ev. case ev of Comes m \<Rightarrow> [m] | _ \<Rightarrow> []) evs)"

definition accounted :: "fetch \<times> js_msg list \<times> js_msg list \<Rightarrow> bool" where
  "accounted = (\<lambda>(f, cs, ys). \<exists>xs. in_queue (fe_qi f) = map Val xs \<and> ys @ shown xs = shown cs
     \<and> (\<forall>x \<in> set xs. fetchable x) \<and> qi_err (fe_qi f) = None
     \<and> (case qi_pc (fe_qi f) of
          Not_Started \<Rightarrow> False
        | Yielded v b \<Rightarrow> (\<exists>d. snd (jm_info v) = Inr d) \<and> v \<in> set cs \<and> length ys = Suc (fe_received f)
        | Finished e \<Rightarrow> e = None \<and> qi_done (fe_qi f) \<and> length ys = fe_received f
        | _ \<Rightarrow> length ys = fe_received f))"

lemma shown_simps [simp]:
  "shown [] = []" "shown (a @ b) = shown a @ shown b" "is_heartbeat m \<Longrightarrow> shown (m # ms) = shown ms"
  "\<not> is_heartbeat m \<Longrightarrow> shown (m # ms) = m # shown ms"
  by (simp_all add: shown_def)

lemma map_Val_eq:
  "xs = map Val zs \<Longrightarrow> xs = v # b \<Longrightarrow> \<exists>m ms. v = Val m \<and> b = map Val ms \<and> zs = m # ms"
  by (cases zs) auto

lemma accounted_comes:
  assumes "accounted (f, cs, ys)" "plain_message (fe_timeout f) m"
  shows "accounted (fetch_event_step mwf now (Comes m) (f, cs, ys))"
proof -
  obtain xs where x: "in_queue (fe_qi f) = map Val xs" "ys @ shown xs = shown cs" "\<forall>x \<in> set xs. fetchable x"
    using assms(1) by (auto simp: accounted_def)
  let ?f = "fst (fetch_message mwf now None m f)" and ?n = "if qi_done (fe_qi f) then [] else [toJsMsg m (fe_timeout f)]"
  have "in_queue (fe_qi ?f) = map Val (xs @ ?n)" "qi_pc (fe_qi ?f) = qi_pc (fe_qi f)" "fe_received ?f = fe_received f"
    "qi_err (fe_qi ?f) = qi_err (fe_qi f)" "qi_done (fe_qi ?f) = qi_done (fe_qi f)"
    using x(1) assms(2) by (simp_all add: fetch_message_def plain_message_def qi_push_def in_queue_def)
  moreover have "ys @ shown (xs @ ?n) = shown (cs @ ?n)" "\<forall>x \<in> set (xs @ ?n). fetchable x"
    using x assms(2) by (simp_all add: plain_message_def)
  ultimately show ?thesis
    using assms(1) unfolding accounted_def fetch_event_step_def prod.case fetch_event.case
    by (intro exI [of _ "xs @ ?n"]) (auto split: qi_pc.splits)
qed

lemma accounted_closes: "accounted (f, cs, ys) \<Longrightarrow> accounted (fetch_event_step mwf now Closes (f, cs, ys))"
  unfolding accounted_def fetch_event_step_def prod.case fetch_event.case
  by (auto simp: fetch_closed_def qi_stop_def in_queue_def split: qi_pc.splits)

lemma accounted_expires: "accounted (f, cs, ys) \<Longrightarrow> accounted (fetch_event_step mwf now (Expires b) (f, cs, ys))"
  unfolding accounted_def fetch_event_step_def prod.case fetch_event.case 
  by (auto simp: fetch_expired_def intro!: exI split: qi_pc.splits)

lemma accounted_reads:
  assumes "accounted (f, cs, ys)"
  shows "accounted (fetch_event_step mwf now Reads (f, cs, ys))"
proof -
  obtain xs where x: "in_queue (fe_qi f) = map Val xs" "ys @ shown xs = shown cs" "\<forall>x \<in> set xs. fetchable x"
      "qi_err (fe_qi f) = None"
    using assms by (auto simp: accounted_def)
  have step: "fetch_event_step mwf now Reads (f, cs, ys) = (case fetch_step now f of (f1, y) \<Rightarrow>
      (f1, cs, ys @ (case y of Some v \<Rightarrow> [v] | None \<Rightarrow> [])))"
    by (simp add: fetch_event_step_def)
  show ?thesis
  proof (cases "qi_pc (fe_qi f)")
    case Not_Started
    then show ?thesis using assms by (simp add: accounted_def)
  next
    case At_Loop
    have "length ys = fe_received f" using assms At_Loop by (auto simp: accounted_def)
    then show ?thesis unfolding step using x At_Loop
      by (auto simp: fetch_step_def qi_step_def accounted_def in_queue_def)
  next
    case (Finished e)
    then show ?thesis unfolding step using assms by (simp add: fetch_step_def qi_step_def)
  next
    case (In_Batch b)
    have r: "length ys = fe_received f" using assms In_Batch by (auto simp: accounted_def)
    show ?thesis
    proof (cases b)
      case Nil
      then show ?thesis unfolding step using x In_Batch r
        by (auto simp: fetch_step_def qi_step_def accounted_def in_queue_def qi_finish_def qi_stop_def)
    next
      case (Cons it rest)
      then have q: "map Val xs = it # (rest @ qi_yields (fe_qi f))" using x(1) In_Batch by (simp add: in_queue_def)
      then obtain v zs where v: "it = Val v" "xs = v # zs" "rest @ qi_yields (fe_qi f) = map Val zs" by auto
      show ?thesis
      proof (cases "is_heartbeat v")
        case True
        then show ?thesis unfolding step using x In_Batch Cons v r
          by (auto simp: fetch_step_def qi_step_def accounted_def in_queue_def)
      next
        case False
        have "shown cs = ys @ v # shown zs" using x(2) v(2) False by simp
        then have "v \<in> set (shown cs)" by simp
        then have "v \<in> set cs" by (simp add: shown_def)
        moreover have "\<exists>d. snd (jm_info v) = Inr d" using x(3) v(2) False by (simp add: fetchable_def)
        ultimately show ?thesis unfolding step using x In_Batch Cons v r False
          by (auto simp: fetch_step_def qi_step_def accounted_def in_queue_def)
      qed
    qed
  next
    case (Yielded v b)
    have v: "\<exists>d. snd (jm_info v) = Inr d" "length ys = Suc (fe_received f)" using assms Yielded by (auto simp: accounted_def)
    note g = dispatched_keeps [OF v(1) x(4)]
    have "fe_received (fetch_dispatched v f) = Suc (fe_received f)"
      by (auto simp: fetch_dispatched_def Let_def split: sum.split bool.split)
    then show ?thesis unfolding step using x Yielded v g
      by (auto simp: fetch_step_def qi_step_def accounted_def in_queue_def Let_def)
  qed
qed

text \<open>As long as every message says that more are waiting and no limit of bytes was given, only the
  number of messages stops the iterator.\<close>

definition unstopped :: "fetch \<times> js_msg list \<times> js_msg list \<Rightarrow> bool" where
  "unstopped = (\<lambda>(f, cs, ys). fe_max_bytes f = 0 \<and> (qi_done (fe_qi f) \<longleftrightarrow> fe_wants f \<le> fe_received f))"

lemma unstopped_step:
  assumes "accounted (f, cs, ys)" "unstopped (f, cs, ys)" "\<forall>m \<in> set cs. more_waiting m" "ev \<noteq> Closes"
    "\<And>m. ev = Comes m \<Longrightarrow> plain_message (fe_timeout f) m"
  shows "unstopped (fetch_event_step mwf now ev (f, cs, ys))"
proof (cases ev)
  case (Comes m)
  then show ?thesis using assms(2,5)
    by (simp add: unstopped_def fetch_event_step_def fetch_message_def plain_message_def qi_push_def)
next
  case (Expires b)
  then show ?thesis using assms(2) by (simp add: unstopped_def fetch_event_step_def fetch_expired_def)
next
  case Closes
  then show ?thesis using assms(4) by simp
next
  case Reads
  have e: "qi_err (fe_qi f) = None" "qi_pc (fe_qi f) \<noteq> In_Batch (Fn s t # r)" for s t r
    using assms(1) by (auto simp: accounted_def in_queue_def)
  show ?thesis
  proof (cases "qi_pc (fe_qi f)")
    case (Yielded v b)
    have "\<exists>d. snd (jm_info v) = Inr d" "v \<in> set cs" using assms(1) Yielded by (auto simp: accounted_def)
    moreover from this have "more_waiting v" using assms(3) by blast
    ultimately obtain d where "snd (jm_info v) = Inr d" "more_waiting v" by blast
    then have d: "info_pending v = Inr (di_pending d)" "di_pending d \<noteq> Some 0"
      by (simp_all add: info_pending_def more_waiting_def)
    have "fetch_dispatched v f = (if fe_wants f = Suc (fe_received f)
        then f\<lparr>fe_received := Suc (fe_received f), fe_qi := qi_stop None (fe_qi f)\<rparr>
        else f\<lparr>fe_received := Suc (fe_received f)\<rparr>)"
      using d assms(2) by (auto simp: fetch_dispatched_def Let_def unstopped_def)
    then show ?thesis using assms(2) Yielded Reads
      by (auto simp: unstopped_def fetch_event_step_def fetch_step_def qi_step_def qi_stop_def Let_def)
  qed (use assms(2) Reads e in \<open>auto simp: unstopped_def fetch_event_step_def fetch_step_def qi_step_def qi_finish_def qi_stop_def Let_def
      split: list.splits item.splits prod.splits if_splits\<close>)
qed

lemma came_messages_simps [simp]:
  "came_messages [] = []" "came_messages (evs @ [ev]) = came_messages evs @ (case ev of Comes m \<Rightarrow> [m] | _ \<Rightarrow> [])"
  by (simp_all add: came_messages_def)

lemma dispatched_simps:
  "fe_timeout (fetch_dispatched m f) = fe_timeout f" "qi_done (fe_qi f) \<Longrightarrow> qi_done (fe_qi (fetch_dispatched m f))"
  by (simp_all add: fetch_dispatched_def Let_def qi_finish_def split: sum.split bool.split)

lemma fetch_step_keeps:
  "fe_timeout (fst (fetch_step now f)) = fe_timeout f" "qi_done (fe_qi f) \<Longrightarrow> qi_done (fe_qi (fst (fetch_step now f)))"
proof -
  have "qi_done q \<Longrightarrow> qi_done (fst (qi_step pf q))" for pf and q :: "js_msg qiter"
    by (auto simp: qi_step_def qi_finish_def qi_call_def Let_def qi_stop_def split: qi_pc.split list.split item.split option.split)
  then show "fe_timeout (fst (fetch_step now f)) = fe_timeout f" "qi_done (fe_qi f) \<Longrightarrow> qi_done (fe_qi (fst (fetch_step now f)))"
    by (simp_all add: fetch_step_def Let_def case_prod_beta dispatched_simps split: qi_pc.split list.split item.split)
qed

lemma fetch_event_step_keeps:
  "fe_timeout (fst (fetch_event_step mwf now ev s)) = fe_timeout (fst s)"
  "qi_done (fe_qi (fst s)) \<Longrightarrow> qi_done (fe_qi (fst (fetch_event_step mwf now ev s)))"
  by (cases s; cases ev; simp add: fetch_event_step_def fetch_message_def fetch_expired_def fetch_closed_def qi_push_def
      case_prod_beta fetch_step_keeps split: sum.split option.split)+

lemma fetch_events_snoc:
  "fetch_events mwf now (evs @ [ev]) f = fetch_event_step mwf now ev (fetch_events mwf now evs f)"
  by (simp add: fetch_events_def)

text \<open>The invariants of a run, and what came before the iterator was stopped.\<close>

definition kept_prefix :: "int \<Rightarrow> fetch_event list \<Rightarrow> fetch \<times> js_msg list \<times> js_msg list \<Rightarrow> bool" where
  "kept_prefix tmo evs = (\<lambda>(f, cs, ys). fe_timeout f = tmo
     \<and> (\<exists>k. cs = take k (map (\<lambda>m. toJsMsg m tmo) (came_messages evs)))
     \<and> (\<not> qi_done (fe_qi f) \<longrightarrow> cs = map (\<lambda>m. toJsMsg m tmo) (came_messages evs)))"

lemma run_keeps:
  assumes "\<forall>m \<in> set (came_messages evs). plain_message (fe_timeout f) m" "fe_qi f = new_qiter" "fe_received f = 0"
  shows "accounted (fetch_events mwf now evs (iterating f)) \<and> kept_prefix (fe_timeout f) evs (fetch_events mwf now evs (iterating f))"
  using assms(1)
proof (induction evs rule: rev_induct)
  case Nil
  show ?case using assms(2,3)
    by (simp add: fetch_events_def accounted_def kept_prefix_def iterating_def new_qiter_def in_queue_def)
next
  case (snoc ev evs)
  obtain g cs ys where s: "fetch_events mwf now evs (iterating f) = (g, cs, ys)" by (metis prod_cases3)
  have IH: "accounted (g, cs, ys)" "kept_prefix (fe_timeout f) evs (g, cs, ys)" and tm: "fe_timeout g = fe_timeout f"
    using snoc s by (simp_all add: kept_prefix_def)
  have "accounted (fetch_event_step mwf now ev (g, cs, ys))"
    using snoc.prems accounted_comes accounted_reads accounted_expires accounted_closes IH(1) tm by (cases ev) auto
  moreover have "kept_prefix (fe_timeout f) (evs @ [ev]) (fetch_event_step mwf now ev (g, cs, ys))"
  proof -
    let ?all = "\<lambda>es. map (\<lambda>m. toJsMsg m (fe_timeout f)) (came_messages es)"
    let ?new = "case ev of Comes m \<Rightarrow> [toJsMsg m (fe_timeout f)] | _ \<Rightarrow> []"
    obtain g' cs' ys' where s': "fetch_event_step mwf now ev (g, cs, ys) = (g', cs', ys')" by (metis prod_cases3)
    have keeps: "fe_timeout g' = fe_timeout f" "qi_done (fe_qi g) \<Longrightarrow> qi_done (fe_qi g')"
      using tm by (metis s' fst_conv fetch_event_step_keeps(1), metis s' fst_conv fetch_event_step_keeps(2))
    have all: "?all (evs @ [ev]) = ?all evs @ ?new" by (simp split: fetch_event.split)
    have cs': "cs' = cs @ (if qi_done (fe_qi g) then [] else ?new)"
      using s' tm by (auto simp: fetch_event_step_def split: fetch_event.splits prod.splits)
    have "\<exists>k. cs = take k (?all evs)" and full: "\<not> qi_done (fe_qi g) \<Longrightarrow> cs = ?all evs"
      using IH(2) by (simp_all add: kept_prefix_def)
    then obtain k where k: "cs = take k (?all evs)" by blast
    have "cs' = take (if qi_done (fe_qi g) then min k (length (?all evs)) else length (?all (evs @ [ev]))) (?all (evs @ [ev]))"
      unfolding all cs' using k full by (cases "qi_done (fe_qi g)") (simp_all add: min_def)
    moreover have "\<not> qi_done (fe_qi g') \<longrightarrow> cs' = ?all (evs @ [ev])" unfolding all cs' using full keeps(2) by auto
    ultimately show ?thesis using keeps(1) unfolding s' kept_prefix_def by blast
  qed
  ultimately show ?case by (simp add: fetch_events_snoc s)
qed


lemma run_unstopped:
  assumes "\<forall>m \<in> set (came_messages evs). plain_message (fe_timeout f) m \<and> more_waiting (toJsMsg m (fe_timeout f))"
    "fe_qi f = new_qiter" "fe_received f = 0" "0 < fe_wants f" "fe_max_bytes f = 0" "Closes \<notin> set evs"
  shows "unstopped (fetch_events mwf now evs (iterating f)) \<and> fe_wants (fst (fetch_events mwf now evs (iterating f))) = fe_wants f"
  using assms(1,6)
proof (induction evs rule: rev_induct)
  case Nil
  show ?case using assms(2-5) by (simp add: fetch_events_def unstopped_def iterating_def new_qiter_def)
next
  case (snoc ev evs)
  obtain g cs ys where s: "fetch_events mwf now evs (iterating f) = (g, cs, ys)" by (metis prod_cases3)
  have IH: "unstopped (g, cs, ys)" "fe_wants g = fe_wants f" using snoc s by auto
  have k: "accounted (g, cs, ys)" "kept_prefix (fe_timeout f) evs (g, cs, ys)"
    using run_keeps [of evs f mwf now] snoc.prems(1) assms(2,3) s by auto
  have "\<forall>m \<in> set cs. more_waiting m"
    using k(2) snoc.prems(1) by (auto simp: kept_prefix_def dest!: in_set_takeD)
  then have "unstopped (fetch_event_step mwf now ev (g, cs, ys))"
    using unstopped_step [OF k(1) IH(1)] snoc.prems k(2) by (auto simp: kept_prefix_def)
  moreover have "fe_wants (fst (fetch_event_step mwf now ev (g, cs, ys))) = fe_wants g"
    by (cases ev) (simp_all add: fetch_event_step_def fetch_message_def fetch_expired_def fetch_closed_def fetch_step_def
        fetch_dispatched_def Let_def case_prod_beta split: sum.split option.split qi_pc.split list.split item.split bool.split)
  ultimately show ?case using IH(2) by (simp add: fetch_events_snoc s)
qed

text \<open>
  C31: Whatever the interleaving of messages, steps of the reader, expiry and closing, a fetch accounts
  for every message: those that came before the iterator was stopped are the first ones that came,
  and what was presented followed by what still waits is exactly those of them that are no
  heartbeats, in order. As long as the subscription does not close, no limit of bytes was given and
  every message says that more are waiting, the iterator is stopped exactly when the number of
  messages asked for was presented and handled, and until then every message was taken. The messages
  are those of a stream: without an error status, and with a reply subject that can be read.
\<close>
theorem fetch_accounts_for_every_message:
  assumes "\<forall>m \<in> set (came_messages evs). plain_message tmo m"
    "fetch_events mwf now evs (iterating (new_fetch tmo now0 opts)) = (f, cs, ys)"
  shows "(\<exists>k. cs = take k (map (\<lambda>m. toJsMsg m tmo) (came_messages evs)))
    \<and> (\<exists>waiting. in_queue (fe_qi f) = map Val waiting \<and> ys @ shown waiting = shown cs)
    \<and> length ys = fe_received f + (case qi_pc (fe_qi f) of Yielded v b \<Rightarrow> 1 | _ \<Rightarrow> 0)
    \<and> (\<not> qi_done (fe_qi f) \<longrightarrow> cs = map (\<lambda>m. toJsMsg m tmo) (came_messages evs))
    \<and> (Closes \<notin> set evs \<and> positive (pq_max_bytes opts) = 0
        \<and> (\<forall>m \<in> set (came_messages evs). more_waiting (toJsMsg m tmo)) \<longrightarrow>
       (qi_done (fe_qi f) \<longleftrightarrow> fe_wants (new_fetch tmo now0 opts) \<le> fe_received f))"
proof -
  let ?f = "new_fetch tmo now0 opts"
  have n: "fe_qi ?f = new_qiter" "fe_received ?f = 0" "fe_timeout ?f = tmo" "fe_max_bytes ?f = positive (pq_max_bytes opts)"
    "0 < fe_wants ?f"
    by (auto simp: new_fetch_def split: option.split)
  have k: "accounted (f, cs, ys)" "kept_prefix tmo evs (f, cs, ys)"
    using run_keeps [of evs ?f mwf now] assms n by auto
  have "qi_done (fe_qi f) \<longleftrightarrow> fe_wants ?f \<le> fe_received f"
    if "Closes \<notin> set evs" "positive (pq_max_bytes opts) = 0" "\<forall>m \<in> set (came_messages evs). more_waiting (toJsMsg m tmo)"
    using run_unstopped [of evs ?f mwf now] assms n that by (auto simp: unstopped_def)
  moreover have "\<exists>waiting. in_queue (fe_qi f) = map Val waiting \<and> ys @ shown waiting = shown cs"
    "length ys = fe_received f + (case qi_pc (fe_qi f) of Yielded v b \<Rightarrow> 1 | _ \<Rightarrow> 0)"
    using k(1) by (auto simp: accounted_def split: qi_pc.splits)
  ultimately show ?thesis using k(2) by (simp add: kept_prefix_def)
qed


text \<open>A message of the stream that says that two more are waiting.\<close>

definition sample_fetched :: nats_msg where
  "sample_fetched = new_msg (newMsgArg\<lparr>reply := Some (te_encode (new_reply [] ''h'' ''S'' ''C'' 1 5 1 0 2 ''r''))\<rparr>) [7]"

lemma sample_fetched_plain:
  "plain_message tmo sample_fetched" "\<not> is_heartbeat (toJsMsg sample_fetched tmo)"
  "more_waiting (toJsMsg sample_fetched tmo)"
proof -
  have "msg_reply sample_fetched = new_reply [] ''h'' ''S'' ''C'' 1 5 1 0 2 ''r''"
    by (simp add: sample_fetched_def msg_reply_def new_msg_def del: te_encode_Cons te_encode_append)
  moreover have "parseInfo (new_reply [] ''h'' ''S'' ''C'' 1 5 1 0 2 ''r'') = Inr (written_info [] ''h'' ''S'' ''C'' 1 5 1 0 2)"
    by (rule parse_new_reply) auto
  ultimately have i: "snd (jm_info (toJsMsg sample_fetched tmo)) = Inr (written_info [] ''h'' ''S'' ''C'' 1 5 1 0 2)"
    by (simp add: jm_info_def toJsMsg_def)
  have "checkJsError sample_fetched = Inr None" "isHeartbeatMsg sample_fetched = Inr False"
    by (simp_all add: sample_fetched_def checkJsError_def isHeartbeatMsg_def isFlowControlMsg_def msg_headers_def new_msg_def newMsgArg_def)
  then show "plain_message tmo sample_fetched" "\<not> is_heartbeat (toJsMsg sample_fetched tmo)"
    using i by (auto simp: plain_message_def fetchable_def is_heartbeat_def toJsMsg_def)
  show "more_waiting (toJsMsg sample_fetched tmo)"
    using i by (simp add: more_waiting_def info_pending_def written_info_def)
qed

definition sample_fetch2 :: fetch_request where
  "sample_fetch2 = \<lparr>pq_batch = Some 2, pq_no_wait = False, pq_expires = Some 1000, pq_max_bytes = None,
     pq_idle_heartbeat = None, fq_delay_heartbeat = False\<rparr>"

text \<open>One message comes and is presented; a second one waits.\<close>

theorem fetch_accounts_for_every_message_witness:
  "\<exists>f cs ys. fetch_events False 0 [Comes sample_fetched, Reads, Reads, Comes sample_fetched]
      (iterating (new_fetch 5000 0 sample_fetch2)) = (f, cs, ys)
    \<and> length cs = 2 \<and> length ys = 1 \<and> \<not> qi_done (fe_qi f)"
proof -
  let ?evs = "[Comes sample_fetched, Reads, Reads, Comes sample_fetched]"
  let ?m = "toJsMsg sample_fetched 5000"
  obtain f cs ys where r: "fetch_events False 0 ?evs (iterating (new_fetch 5000 0 sample_fetch2)) = (f, cs, ys)"
    by (metis prod_cases3)
  have m: "came_messages ?evs = [sample_fetched, sample_fetched]" by (simp add: came_messages_def)
  have p: "checkJsError sample_fetched = Inr None" using sample_fetched_plain(1) [of 5000] by (simp add: plain_message_def)
  have s: "ys = [?m]" "fe_received f = 0"
    using r sample_fetched_plain(2) [of 5000] p
    by (auto simp: fetch_events_def fetch_event_step_def fetch_message_def iterating_def new_fetch_def new_qiter_def qi_push_def
        fetch_step_def qi_step_def Let_def)
  have w: "fe_wants (new_fetch 5000 0 sample_fetch2) = 2" "positive (pq_max_bytes sample_fetch2) = 0"
    by (simp_all add: new_fetch_def sample_fetch2_def positive_def)
  have a: "\<forall>m \<in> set (came_messages ?evs). plain_message 5000 m"
    "\<forall>m \<in> set (came_messages ?evs). more_waiting (toJsMsg m 5000)" "Closes \<notin> set ?evs"
    using m sample_fetched_plain by simp_all
  note t = fetch_accounts_for_every_message [OF a(1) r]
  then have "\<not> qi_done (fe_qi f)" using a(2,3) w s(2) by simp
  moreover from this have "length cs = 2" using t m by simp
  ultimately show ?thesis using r s(1) by auto
qed

text \<open>When the subscription closes while the reader works on its batch, what came in the meantime is
  lost: the iterator ends behind the batch, without an error.\<close>

lemma close_during_a_batch_loses_messages:
  assumes "qi_pc (fe_qi f) = Yielded v []" "qi_err (fe_qi f) = None" "\<not> qi_done (fe_qi f)" "\<exists>d. snd (jm_info v) = Inr d"
    "\<forall>m \<in> set ms. checkJsError m = Inr None"
  shows "snd (fetch_run now n (fetch_closed (messages_come mwf now ms f))) = []"
proof -
  let ?g = "fetch_closed (messages_come mwf now ms f)"
  have g: "qi_pc (fe_qi ?g) = Yielded v []" "qi_err (fe_qi ?g) = None" "qi_done (fe_qi ?g)"
    using messages_queue [OF assms(5,3), of mwf now] assms(1,2) by (simp_all add: fetch_closed_def qi_stop_def)
  obtain h where h: "fetch_step now ?g = (h, None)" "qi_pc (fe_qi h) = In_Batch []" "qi_done (fe_qi h)"
    using dispatched_keeps [OF assms(4) g(2)] g(1,3) by (auto simp: fetch_step_def qi_step_def Let_def)
  obtain k where k: "fetch_step now h = (k, None)" "qi_pc (fe_qi k) = Finished None"
    using h(2,3) by (auto simp: fetch_step_def qi_step_def qi_finish_def)
  show ?thesis
  proof (cases n)
    case (Suc m)
    show ?thesis
    proof (cases m)
      case (Suc l)
      then show ?thesis using \<open>n = Suc m\<close> h(1) k(1) finished_stays [OF k(2), of now l] by simp
    qed (simp add: Suc h(1))
  qed simp
qed

end
