(* ===== verification/Kv_Bucket.thy ===== *)
theory Kv_Bucket
  imports Js_Publish
begin

text \<open>
  The key-value store, \<open>Bucket\<close> of \<open>jetstream/kv.ts\<close>: codecs and names of keys, the stream a
  bucket lives in, and reading and writing keys. Options and configurations are JSON values; the
  codecs are functions that may throw.
\<close>

section \<open>Codecs\<close>

record key_codec =
  kc_encode :: "string \<Rightarrow> js_error + string"
  kc_decode :: "string \<Rightarrow> js_error + string"

definition Base64KeyCodec :: key_codec where
  "Base64KeyCodec =
     \<lparr>kc_encode = (\<lambda>k. case latin1_of k of Some b \<Rightarrow> Inr (btoa b) | None \<Rightarrow> throw ''InvalidCharacterError''),
      kc_decode = (\<lambda>k. rbind (atob k) (\<lambda>b. Inr (utf8_of b)))\<rparr>"

definition NoopKeyCodec :: key_codec where
  "NoopKeyCodec = \<lparr>kc_encode = Inr, kc_decode = Inr\<rparr>"

section \<open>Names\<close>

definition word_char :: "char \<Rightarrow> bool" where
  "word_char c \<longleftrightarrow> is_digit c \<or> (let n = char_code c in 65 \<le> n \<and> n \<le> 90 \<or> 97 \<le> n \<and> n \<le> 122 \<or> n = 95)"

definition key_char :: "char \<Rightarrow> bool" where
  "key_char c \<longleftrightarrow> word_char c \<or> c \<in> {CHR ''-'', CHR ''/'', CHR ''='', CHR ''.''}"

definition search_char :: "char \<Rightarrow> bool" where
  "search_char c \<longleftrightarrow> key_char c \<or> c \<in> {CHR ''>'', CHR ''*''}"

definition bucket_char :: "char \<Rightarrow> bool" where
  "bucket_char c \<longleftrightarrow> word_char c \<or> c = CHR ''-''"

definition dotted :: "string \<Rightarrow> bool" where
  "dotted k \<longleftrightarrow> k \<noteq> [] \<and> (hd k = CHR ''.'' \<or> last k = CHR ''.'')"

definition validateKey :: "string \<Rightarrow> js_error + unit" where
  "validateKey k = require (\<not> (dotted k \<or> \<not> (k \<noteq> [] \<and> list_all key_char k))) (''invalid key: '' @ k)"

definition validateSearchKey :: "string \<Rightarrow> js_error + unit" where
  "validateSearchKey k = require (\<not> (dotted k \<or> \<not> (k \<noteq> [] \<and> list_all search_char k))) (''invalid key: '' @ k)"

fun wild_chunks :: "string \<Rightarrow> string list \<Rightarrow> bool \<Rightarrow> js_error + bool" where
  "wild_chunks k [] wild = Inr wild"
| "wild_chunks k (t # ts) wild =
     (if t = ''*'' then wild_chunks k ts True
      else if t = ''>'' then (if ts \<noteq> [] then throw (''invalid key: '' @ k) else wild_chunks k ts True)
      else wild_chunks k ts wild)"

definition hasWildcards :: "string \<Rightarrow> js_error + bool" where
  "hasWildcards k = (if dotted k then throw (''invalid key: '' @ k) else wild_chunks k (split_on CHR ''.'' k) False)"

definition validateBucket :: "string \<Rightarrow> js_error + unit" where
  "validateBucket name = require (name \<noteq> [] \<and> list_all bucket_char name) (''invalid bucket name: '' @ name)"

section \<open>The bucket\<close>

record bucket =
  bk_stream :: "string option"
  bk_bucket :: string
  bk_direct :: bool
  bk_codec :: key_codec
  bk_prefix :: string
  bk_editPrefix :: string
  bk_useJsPrefix :: bool

definition new_bucket :: "string \<Rightarrow> js_error + bucket" where
  "new_bucket name = rbind (validateBucket name) (\<lambda>_.
     Inr \<lparr>bk_stream = None, bk_bucket = name, bk_direct = False, bk_codec = NoopKeyCodec, bk_prefix = ''$KV'',
          bk_editPrefix = [], bk_useJsPrefix = False\<rparr>)"

definition bucketName :: "bucket \<Rightarrow> string" where
  "bucketName b = (case bk_stream b of Some s \<Rightarrow> s | None \<Rightarrow> kvPrefix @ bk_bucket b)"

definition subjectForBucket :: "bucket \<Rightarrow> string" where
  "subjectForBucket b = bk_prefix b @ ''.'' @ bk_bucket b @ ''.>''"

definition subjectForKey :: "api \<Rightarrow> bucket \<Rightarrow> string \<Rightarrow> bool \<Rightarrow> string" where
  "subjectForKey A b k edit =
     join_on CHR ''.''
       ((if edit
         then (if bk_useJsPrefix b then [ap_prefix A] else [])
              @ [if bk_editPrefix b \<noteq> [] then bk_editPrefix b else bk_prefix b]
         else if bk_prefix b \<noteq> [] then [bk_prefix b] else [])
        @ [k])"

definition fullKeyName :: "bucket \<Rightarrow> string \<Rightarrow> string" where
  "fullKeyName b k = (if bk_prefix b \<noteq> [] then bk_prefix b @ ''.'' @ k else ''$KV.'' @ bk_bucket b @ ''.'' @ k)"

definition prefixLen :: "bucket \<Rightarrow> nat" where
  "prefixLen b = length (bk_prefix b) + 1"

fun encode_chunks :: "(string \<Rightarrow> js_error + string) \<Rightarrow> string list \<Rightarrow> js_error + string list" where
  "encode_chunks f [] = Inr []"
| "encode_chunks f (t # ts) =
     rbind (if t = ''>'' \<or> t = ''*'' then Inr t else f t) (\<lambda>u. rbind (encode_chunks f ts) (\<lambda>us. Inr (u # us)))"

definition encodeKey :: "bucket \<Rightarrow> string \<Rightarrow> js_error + string" where
  "encodeKey b k = rbind (encode_chunks (kc_encode (bk_codec b)) (split_on CHR ''.'' k)) (\<lambda>ts. Inr (join_on CHR ''.'' ts))"

definition decodeKey :: "bucket \<Rightarrow> string \<Rightarrow> js_error + string" where
  "decodeKey b k = rbind (encode_chunks (kc_decode (bk_codec b)) (split_on CHR ''.'' k)) (\<lambda>ts. Inr (join_on CHR ''.'' ts))"

definition initializePrefixes :: "api \<Rightarrow> json \<Rightarrow> bucket \<Rightarrow> bucket" where
  "initializePrefixes A info b =
     (let p = ''$KV.'' @ bk_bucket b;
          b1 = b\<lparr>bk_prefix := p, bk_useJsPrefix := (ap_prefix A \<noteq> ''$JS.API'')\<rparr>;
          mirror = fld ''mirror'' (case fld ''config'' info of Some c \<Rightarrow> c | None \<Rightarrow> J_Null)
      in if truthy mirror
         then (let name = text_or_empty (fld ''name'' (the mirror));
                   n = (if starts_with kvPrefix name then drop (length kvPrefix) name else name);
                   ext = fld ''external'' (the mirror);
                   external_api = fld ''api'' (the ext)
               in if truthy ext \<and> external_api \<noteq> Some (J_Str [])
                  then (let mb = drop (length kvPrefix) name
                        in b1\<lparr>bk_useJsPrefix := False, bk_prefix := ''$KV.'' @ mb,
                              bk_editPrefix := text_or_empty external_api @ ''.$KV.'' @ n\<rparr>)
                  else b1\<lparr>bk_editPrefix := p\<rparr>)
         else b1)"

section \<open>The stream of a bucket\<close>

definition defaultBucketOpts :: json where
  "defaultBucketOpts = J_Obj [(''replicas'', J_Num 1), (''history'', J_Num 1), (''timeout'', J_Num 2000),
     (''max_bytes'', J_Num (- 1)), (''maxValueSize'', J_Num (- 1)), (''storage'', J_Str ''file'')]"

text \<open>Setting a property to a value that may be \<open>undefined\<close>, and setting it when there is one.\<close>

definition put_opt :: "string \<Rightarrow> json option \<Rightarrow> json \<Rightarrow> json" where
  "put_opt k v j = (case v of Some x \<Rightarrow> put_prop k x j | None \<Rightarrow> j)"

definition put_if :: "string \<Rightarrow> json option \<Rightarrow> json \<Rightarrow> json" where
  "put_if k v j = (if truthy v then put_prop k (the v) j else j)"

definition with_placement :: "json \<Rightarrow> json" where
  "with_placement opts =
     (let loc = fld ''placementCluster'' opts
      in if truthy loc
         then put_prop ''placement'' (J_Obj [(''cluster'', the loc), (''tags'', J_Arr [])]) opts else opts)"

definition kv_mirror :: "json \<Rightarrow> json" where
  "kv_mirror m =
     (let n = text_or_empty (fld ''name'' m)
      in if starts_with kvPrefix n then m else put_prop ''name'' (J_Str (kvPrefix @ n)) m)"

definition kv_source :: "string \<Rightarrow> json \<Rightarrow> json" where
  "kv_source bucket s =
     (let n = text_or_empty (fld ''name'' s);
          src = (if starts_with kvPrefix n then drop (length kvPrefix) n else n);
          c = (if starts_with kvPrefix n then s else put_prop ''name'' (J_Str (kvPrefix @ n)) s)
      in if \<not> truthy (fld ''external'' s) \<and> src \<noteq> bucket
         then put_prop ''subject_transforms'' (J_Arr [J_Obj [(''src'', J_Str (''$KV.'' @ src @ ''.>'')),
                (''dest'', J_Str (''$KV.'' @ bucket @ ''.>''))]]) c
         else c)"

definition kv_origin :: "bucket \<Rightarrow> json \<Rightarrow> json \<Rightarrow> json" where
  "kv_origin b opts sc =
     (if truthy (fld ''mirror'' opts)
      then put_prop ''mirror_direct'' (J_Bool True) (put_prop ''mirror'' (kv_mirror (the (fld ''mirror'' opts))) sc)
      else if truthy (fld ''sources'' opts)
      then put_prop ''subjects'' (J_Arr [J_Str (subjectForBucket b)])
             (put_prop ''sources'' (case fld ''sources'' opts of
                 Some (J_Arr ss) \<Rightarrow> J_Arr (map (kv_source (bk_bucket b)) ss) | _ \<Rightarrow> J_Null) sc)
      else put_prop ''subjects'' (J_Arr [J_Str (subjectForBucket b)]) sc)"

definition discard_of :: "semver option \<Rightarrow> string" where
  "discard_of have = (case have of
     Some v \<Rightarrow> if compare v (SemVer 2 7 2) \<ge> 0 then ''new'' else ''old'' | None \<Rightarrow> ''old'')"

definition allow_direct_of :: "bool \<Rightarrow> json \<Rightarrow> bool" where
  "allow_direct_of supported opts = (case fld ''allow_direct'' opts of Some (J_Bool x) \<Rightarrow> x | _ \<Rightarrow> supported)"

definition kv_stream_config :: "bool \<Rightarrow> semver option \<Rightarrow> bucket \<Rightarrow> string \<Rightarrow> json \<Rightarrow> json" where
  "kv_stream_config supported have b name opts0 =
     (let bo = assign defaultBucketOpts opts0;
          opts = with_placement opts0;
          max_bytes = (if truthy (fld ''maxBucketSize'' bo) then fld ''maxBucketSize'' bo else fld ''max_bytes'' bo);
          sc1 = put_opt ''storage'' (fld ''storage'' bo) (put_opt ''max_msg_size'' (fld ''maxValueSize'' bo)
                 (put_if ''max_bytes'' max_bytes (put_opt ''max_msgs_per_subject'' (fld ''history'' bo)
                   (J_Obj [(''name'', J_Str name), (''retention'', J_Str ''limits'')]))));
          sc2 = put_if ''description'' (fld ''description'' opts) (put_if ''republish'' (fld ''republish'' opts)
                 (put_if ''placement'' (fld ''placement'' opts) sc1));
          sc3 = put_if ''metadata'' (fld ''metadata'' opts) (kv_origin b opts sc2);
          sc4 = (case fld ''compression'' opts of
                   Some (J_Bool x) \<Rightarrow> put_prop ''compression'' (J_Str (if x then ''s2'' else ''none'')) sc3 | _ \<Rightarrow> sc3);
          sc5 = put_prop ''allow_direct'' (J_Bool (allow_direct_of supported opts))
                 (put_prop ''discard'' (J_Str (discard_of have)) sc4);
          sc6 = put_opt ''num_replicas'' (fld ''replicas'' bo) sc5;
          sc7 = (case fld ''ttl'' bo of
                   Some (J_Num n) \<Rightarrow> if n \<noteq> 0 then put_prop ''max_age'' (J_Num (int (nanos (nat n)))) sc6 else sc6
                 | _ \<Rightarrow> sc6)
      in put_prop ''allow_rollup_hdrs'' (J_Bool True) sc7)"

definition stream_name_for :: "json \<Rightarrow> bucket \<Rightarrow> string" where
  "stream_name_for opts b =
     (let n = fld ''streamName'' opts in if nullish n then bucketName b else text_or_empty n)"

text \<open>\<open>init\<close>: the stream is looked up and made when it does not exist. The look-up may run
  for ever, as \<open>stream_info\<close> may.\<close>

definition kv_init ::
  "'w api_env \<Rightarrow> api \<Rightarrow> semver option \<Rightarrow> key_codec \<Rightarrow> json \<Rightarrow> bucket \<Rightarrow> 'w \<Rightarrow> ('w \<times> (js_error + bucket)) option" where
  "kv_init E A have codec opts b w =
     (let name = stream_name_for opts b;
          v = feature_get JS_ALLOW_DIRECT (ap_features A);
          direct = allow_direct_of (fv_ok v) opts;
          b1 = b\<lparr>bk_codec := codec, bk_stream := Some name, bk_direct := direct\<rparr>
      in if \<not> fv_ok v \<and> fld ''allow_direct'' opts = Some (J_Bool True)
         then Some (w, throw (''allow_direct is not available on server version ''
                @ (case have of Some x \<Rightarrow> show_nat (major x) @ ''.'' @ show_nat (minor x) @ ''.'' @ show_nat (micro x)
                   | None \<Rightarrow> ''unknown'')
                @ '' - requires '' @ fv_min v))
         else case stream_info E A name None w of
           None \<Rightarrow> None
         | Some (w1, Inr info) \<Rightarrow>
             Some (w1, rbind (member ''config'' info) (\<lambda>c. case c of
                 None \<Rightarrow> throw ''Cannot read properties of undefined''
               | Some cfg \<Rightarrow> Inr (initializePrefixes A info
                   (if \<not> truthy (fld ''allow_direct'' cfg) then b1\<lparr>bk_direct := False\<rparr> else b1))))
         | Some (w1, Inl e) \<Rightarrow>
             if err_message e = ''stream not found''
             then (case stream_add E A (kv_stream_config (fv_ok v) have (b\<lparr>bk_codec := codec, bk_stream := Some name\<rparr>) name opts) w1 of
                     (w2, r) \<Rightarrow> Some (w2, rbind r (\<lambda>info. Inr (initializePrefixes A info b1))))
             else Some (w1, Inl e))"

definition kv_create_bucket ::
  "'w api_env \<Rightarrow> api \<Rightarrow> semver option \<Rightarrow> key_codec \<Rightarrow> string \<Rightarrow> json \<Rightarrow> 'w \<Rightarrow> ('w \<times> (js_error + bucket)) option" where
  "kv_create_bucket E A have codec name opts w =
     (case new_bucket name of Inl e \<Rightarrow> Some (w, Inl e) | Inr b \<Rightarrow> kv_init E A have codec opts b w)"

definition kv_bind :: "api \<Rightarrow> key_codec \<Rightarrow> string \<Rightarrow> json \<Rightarrow> js_error + bucket" where
  "kv_bind A codec name opts =
     rbind (new_bucket name) (\<lambda>b.
       let n = stream_name_for opts b;
           info = J_Obj [(''config'', J_Obj [(''name'', J_Str n)])]
       in Inr (initializePrefixes A info
            (b\<lparr>bk_stream := Some n, bk_codec := codec,
               bk_direct := (case fld ''allow_direct'' opts of Some (J_Bool x) \<Rightarrow> x | _ \<Rightarrow> False)\<rparr>)))"

section \<open>Stored entries\<close>

text \<open>What a look-up returns: a message from the API of the stream or from its direct access.\<close>

datatype kv_message = Api_Msg stored_msg | Direct_Msg direct_msg

definition some_text :: "string option \<Rightarrow> js_error + string" where
  "some_text v = (case v of Some s \<Rightarrow> Inr s | None \<Rightarrow> throw ''Cannot read properties of undefined'')"

primrec km_subject :: "kv_message \<Rightarrow> js_error + string" where
  "km_subject (Api_Msg m) = Inr (sm_subject m)"
| "km_subject (Direct_Msg m) = rbind (dm_subject m) some_text"

primrec km_seq :: "kv_message \<Rightarrow> js_error + int option" where
  "km_seq (Api_Msg m) = Inr (sm_seq m)"
| "km_seq (Direct_Msg m) = dm_seq m"

primrec km_data :: "kv_message \<Rightarrow> js_error + bytes" where
  "km_data (Api_Msg m) = sm_data m"
| "km_data (Direct_Msg m) = Inr (dm_data m)"

primrec km_header :: "kv_message \<Rightarrow> js_error + msg_hdrs" where
  "km_header (Api_Msg m) = sm_header m"
| "km_header (Direct_Msg m) = Inr (dm_header m)"

primrec km_time :: "kv_message \<Rightarrow> js_error + string option" where
  "km_time (Api_Msg m) = Inr (Some (sm_timestamp m))"
| "km_time (Direct_Msg m) = dm_timestamp m"

record kv_entry =
  ke_bucket :: string
  ke_prefixLen :: nat
  ke_sm :: kv_message

definition kvOperationHdr :: string where
  "kvOperationHdr = ''KV-Operation''"

definition ke_key :: "kv_entry \<Rightarrow> js_error + string" where
  "ke_key e = rbind (km_subject (ke_sm e)) (\<lambda>s. Inr (drop (ke_prefixLen e) s))"

definition ke_value :: "kv_entry \<Rightarrow> js_error + bytes" where
  "ke_value e = km_data (ke_sm e)"

definition ke_delta :: "kv_entry \<Rightarrow> nat" where
  "ke_delta e = 0"

definition ke_created :: "kv_entry \<Rightarrow> js_error + string option" where
  "ke_created e = km_time (ke_sm e)"

definition ke_revision :: "kv_entry \<Rightarrow> js_error + int option" where
  "ke_revision e = km_seq (ke_sm e)"

definition header_or :: "msg_hdrs \<Rightarrow> string \<Rightarrow> string \<Rightarrow> js_error + string" where
  "header_or h k d = rbind (hdr_get h k Exact) (\<lambda>v. Inr (case v of Some s \<Rightarrow> if s \<noteq> [] then s else d | None \<Rightarrow> d))"

definition ke_operation :: "kv_entry \<Rightarrow> js_error + string" where
  "ke_operation e = rbind (km_header (ke_sm e)) (\<lambda>h. header_or h kvOperationHdr ''PUT'')"

definition ke_length :: "kv_entry \<Rightarrow> js_error + int option" where
  "ke_length e =
     rbind (km_header (ke_sm e)) (\<lambda>h. rbind (header_or h ''Nats-Msg-Size'' []) (\<lambda>s.
       if s \<noteq> [] then Inr (parse_int s) else rbind (km_data (ke_sm e)) (\<lambda>d. Inr (Some (int (length d))))))"

definition ke_string :: "kv_entry \<Rightarrow> js_error + string" where
  "ke_string e = rbind (km_data (ke_sm e)) (\<lambda>d. Inr (td_decode d))"

definition smToEntry :: "bucket \<Rightarrow> kv_message \<Rightarrow> kv_entry" where
  "smToEntry b m = \<lparr>ke_bucket = bk_bucket b, ke_prefixLen = prefixLen b, ke_sm = m\<rparr>"

definition kv_dataLen :: "bytes \<Rightarrow> msg_hdrs option \<Rightarrow> js_error + int option" where
  "kv_dataLen data h =
     rbind (case h of Some hs \<Rightarrow> header_or hs ''Nats-Msg-Size'' [] | None \<Rightarrow> Inr []) (\<lambda>s.
       Inr (if s \<noteq> [] then parse_int s else Some (int (length data))))"

section \<open>Writing and reading\<close>

text \<open>The error of a publish: an error of the API shows its description and its code. On an
  error that is no \<open>NatsError\<close> the question itself throws.\<close>

definition put_error :: "js_error \<Rightarrow> js_error" where
  "put_error e =
     (case e of
        Plain_Error m \<Rightarrow> Plain_Error ''ne.isJetStreamError is not a function''
      | Nats_Error m c p ch (Some a) \<Rightarrow> Nats_Error (api_description a) (show_int (api_code a)) p ch (Some a)
      | Nats_Error m c p ch None \<Rightarrow> e)"

text \<open>The expected sequence is given by its text.\<close>

definition put_headers :: "string option \<Rightarrow> js_error + msg_hdrs option" where
  "put_headers previousSeq =
     (case previousSeq of
        Some n \<Rightarrow> rbind (headers_fn 0 []) (\<lambda>h0.
          rbind (set_header (pub_header_string ExpectedLastSubjectSequenceHdr) n h0) (\<lambda>h. Inr (Some h)))
      | None \<Rightarrow> Inr None)"

definition kv_put ::
  "'w api_env \<Rightarrow> api \<Rightarrow> (int \<Rightarrow> 'w \<Rightarrow> 'w) \<Rightarrow> bucket \<Rightarrow> string \<Rightarrow> bytes \<Rightarrow> string option \<Rightarrow> 'w
    \<Rightarrow> 'w \<times> (js_error + json option)" where
  "kv_put E A pause b k data previousSeq =
     checked
       (rbind (encodeKey b k) (\<lambda>ek. rbind (validateKey ek) (\<lambda>_.
          rbind (put_headers previousSeq) (\<lambda>h. Inr (ek, h)))))
       (\<lambda>(ek, h) w.
          case js_publish E A pause (subjectForKey A b ek True) data (no_pub_options\<lparr>pb_headers := h\<rparr>) w of
            (w1, Inr pa) \<Rightarrow> (w1, member ''seq'' pa)
          | (w1, Inl e) \<Rightarrow> (w1, Inl (put_error e)))"

definition kv_update ::
  "'w api_env \<Rightarrow> api \<Rightarrow> (int \<Rightarrow> 'w \<Rightarrow> 'w) \<Rightarrow> bucket \<Rightarrow> string \<Rightarrow> bytes \<Rightarrow> int \<Rightarrow> 'w
    \<Rightarrow> 'w \<times> (js_error + json option)" where
  "kv_update E A pause b k data version w =
     (if version \<le> 0 then (w, throw ''version must be greater than 0'')
      else kv_put E A pause b k data (Some (show_int version)) w)"

definition kv_get ::
  "'w api_env \<Rightarrow> api \<Rightarrow> bucket \<Rightarrow> string \<Rightarrow> int option \<Rightarrow> 'w \<Rightarrow> 'w \<times> (js_error + kv_entry option)" where
  "kv_get E A b k revision =
     checked (rbind (encodeKey b k) (\<lambda>ek. rbind (validateKey ek) (\<lambda>_. Inr ek))) (\<lambda>ek w.
       let arg = (case revision of
                    Some n \<Rightarrow> if n > 0 then J_Obj [(''seq'', J_Num n)]
                              else J_Obj [(''last_by_subj'', J_Str (subjectForKey A b ek False))]
                  | None \<Rightarrow> J_Obj [(''last_by_subj'', J_Str (subjectForKey A b ek False))]);
           (w1, r) = (if bk_direct b
                      then apsnd (map_sum id Direct_Msg) (direct_getMessage E A (bucketName b) arg w)
                      else apsnd (map_sum id Api_Msg) (stream_getMessage E A (bucketName b) arg w))
       in case r of
            Inl e \<Rightarrow> (w1, if is_nats_error e \<and> err_code e = ''404'' then Inr None else Inl e)
          | Inr m \<Rightarrow> (w1, rbind (ke_key (smToEntry b m)) (\<lambda>key. Inr (if key \<noteq> ek then None else Some (smToEntry b m)))))"

definition is_marker :: "string \<Rightarrow> bool" where
  "is_marker op \<longleftrightarrow> op = ''DEL'' \<or> op = ''PURGE''"

text \<open>A revision that cannot be read is \<open>NaN\<close> from a header and \<open>undefined\<close> from the API.\<close>

definition unread_revision :: "kv_entry \<Rightarrow> string option" where
  "unread_revision e = (case ke_sm e of Direct_Msg m \<Rightarrow> Some ''NaN'' | Api_Msg m \<Rightarrow> None)"

definition kv_create ::
  "'w api_env \<Rightarrow> api \<Rightarrow> (int \<Rightarrow> 'w \<Rightarrow> 'w) \<Rightarrow> bucket \<Rightarrow> string \<Rightarrow> bytes \<Rightarrow> 'w \<Rightarrow> 'w \<times> (js_error + json option)" where
  "kv_create E A pause b k data w =
     (case kv_put E A pause b k data (Some ''0'') w of
        (w1, Inr n) \<Rightarrow> (w1, Inr n)
      | (w1, Inl firstErr) \<Rightarrow>
          if (case firstErr of Nats_Error m c p ch (Some a) \<Rightarrow> api_err_code a \<noteq> Some 10071 | _ \<Rightarrow> True)
          then (w1, Inl firstErr)
          else (case kv_get E A b k None w1 of
                  (w2, Inl e) \<Rightarrow> (w2, Inl e)
                | (w2, Inr None) \<Rightarrow> (w2, Inl firstErr)
                | (w2, Inr (Some e)) \<Rightarrow>
                    (case rbind (ke_operation e) (\<lambda>op. rbind (ke_revision e) (\<lambda>n. Inr (op, n))) of
                       Inl x \<Rightarrow> (w2, Inl x)
                     | Inr (op, revision) \<Rightarrow>
                         if is_marker op
                         then (case revision of Some n \<Rightarrow> kv_update E A pause b k data n w2
                               | None \<Rightarrow> kv_put E A pause b k data (unread_revision e) w2)
                         else (w2, Inl firstErr))))"

definition delete_headers :: "string \<Rightarrow> int option \<Rightarrow> js_error + msg_hdrs" where
  "delete_headers op previousSeq =
     rbind (headers_fn 0 []) (\<lambda>h0.
     rbind (set_header kvOperationHdr op h0) (\<lambda>h1.
     rbind (if op = ''PURGE'' then set_header ''Nats-Rollup'' ''sub'' h1 else Inr h1) (\<lambda>h2.
       case previousSeq of
         Some n \<Rightarrow> if n \<noteq> 0 then set_header (pub_header_string ExpectedLastSubjectSequenceHdr) (show_int n) h2 else Inr h2
       | None \<Rightarrow> Inr h2)))"

definition doDeleteOrPurge ::
  "'w api_env \<Rightarrow> api \<Rightarrow> (int \<Rightarrow> 'w \<Rightarrow> 'w) \<Rightarrow> bucket \<Rightarrow> string \<Rightarrow> string \<Rightarrow> int option \<Rightarrow> 'w \<Rightarrow> 'w \<times> (js_error + unit)" where
  "doDeleteOrPurge E A pause b k op previousSeq =
     checked
       (rbind (encodeKey b k) (\<lambda>ek. rbind (validateKey ek) (\<lambda>_. rbind (delete_headers op previousSeq) (\<lambda>h. Inr (ek, h)))))
       (\<lambda>(ek, h) w. and_then (js_publish E A pause (subjectForKey A b ek True) [] (no_pub_options\<lparr>pb_headers := Some h\<rparr>) w)
          (\<lambda>_ w1. (w1, Inr ())))"

text \<open>The deletes of the keys a search gave, one batch of a hundred after the other: all of a
  batch are sent, and one that fails ends it. Of several errors of a batch the first is
  given.\<close>

definition first_error :: "(js_error + unit) list \<Rightarrow> js_error + unit" where
  "first_error rs = (case List.find (\<lambda>r. r \<noteq> Inr ()) rs of Some e \<Rightarrow> e | None \<Rightarrow> Inr ())"

fun each_key :: "(string \<Rightarrow> 'w \<Rightarrow> 'w \<times> (js_error + unit)) \<Rightarrow> string list \<Rightarrow> 'w \<Rightarrow> 'w \<times> (js_error + unit) list" where
  "each_key f [] w = (w, [])"
| "each_key f (k # ks) w = (let (w1, r) = f k w; (w2, rs) = each_key f ks w1 in (w2, r # rs))"

function delete_batches ::
  "(string \<Rightarrow> 'w \<Rightarrow> 'w \<times> (js_error + unit)) \<Rightarrow> string list \<Rightarrow> 'w \<Rightarrow> 'w \<times> (js_error + unit)" where
  "delete_batches f ks w =
     (if ks = [] then (w, Inr ())
      else case each_key f (take 100 ks) w of
        (w1, rs) \<Rightarrow> (case first_error rs of Inl e \<Rightarrow> (w1, Inl e) | Inr _ \<Rightarrow> delete_batches f (drop 100 ks) w1))"
  by pat_completeness auto
termination
  by (relation "measure (\<lambda>(f, ks, w). length ks)") auto

definition deleteOrPurge ::
  "'w api_env \<Rightarrow> api \<Rightarrow> (int \<Rightarrow> 'w \<Rightarrow> 'w) \<Rightarrow> bucket \<Rightarrow> string \<Rightarrow> string \<Rightarrow> int option
    \<Rightarrow> (string \<Rightarrow> 'w \<Rightarrow> 'w \<times> (js_error + string list)) \<Rightarrow> 'w \<Rightarrow> 'w \<times> (js_error + unit)" where
  "deleteOrPurge E A pause b k op previousSeq keys =
     checked (hasWildcards k) (\<lambda>wild w.
       if \<not> wild then doDeleteOrPurge E A pause b k op previousSeq w
       else and_then (keys k w) (delete_batches (\<lambda>k. doDeleteOrPurge E A pause b k op None)))"

definition kv_delete where
  "kv_delete E A pause b k previousSeq keys w = deleteOrPurge E A pause b k ''DEL'' previousSeq keys w"

definition kv_purge where
  "kv_purge E A pause b k previousSeq keys w = deleteOrPurge E A pause b k ''PURGE'' previousSeq keys w"

definition purgeBucket :: "'w api_env \<Rightarrow> api \<Rightarrow> bucket \<Rightarrow> json option \<Rightarrow> 'w \<Rightarrow> 'w \<times> (js_error + json)" where
  "purgeBucket E A b opts = stream_purge E A (bucketName b) opts"

definition kv_destroy :: "'w api_env \<Rightarrow> api \<Rightarrow> bucket \<Rightarrow> 'w \<Rightarrow> 'w \<times> (js_error + json option)" where
  "kv_destroy E A b = stream_delete E A (bucketName b)"

section \<open>Keys and codecs\<close>

text \<open>The codecs of keys: on a token that is no wildcard they give a token that is none, from
  which the token is read back.\<close>

locale token_codec =
  fixes enc dec :: "string \<Rightarrow> js_error + string"
  assumes token: "CHR ''.'' \<notin> set t \<Longrightarrow> t \<noteq> ''*'' \<Longrightarrow> t \<noteq> ''>'' \<Longrightarrow> enc t = Inr u \<Longrightarrow>
    CHR ''.'' \<notin> set u \<and> u \<noteq> ''*'' \<and> u \<noteq> ''>'' \<and> dec u = Inr t"
begin

lemma chunks:
  "\<forall>t \<in> set ts. CHR ''.'' \<notin> set t \<Longrightarrow> encode_chunks enc ts = Inr us \<Longrightarrow>
    encode_chunks dec us = Inr ts \<and> (\<forall>u \<in> set us. CHR ''.'' \<notin> set u) \<and> length us = length ts
    \<and> map (\<lambda>u. u = ''*'') us = map (\<lambda>t. t = ''*'') ts \<and> map (\<lambda>u. u = ''>'') us = map (\<lambda>t. t = ''>'') ts"
proof (induction ts arbitrary: us)
  case (Cons t ts)
  obtain v where v: "(if t = ''>'' \<or> t = ''*'' then Inr t else enc t) = Inr v"
    using Cons.prems(2) by (cases "if t = ''>'' \<or> t = ''*'' then Inr t else enc t") simp_all
  obtain vs where vs: "encode_chunks enc ts = Inr vs" using Cons.prems(2) v by (cases "encode_chunks enc ts") simp_all
  have us: "us = v # vs" using Cons.prems(2) v vs by simp
  have "CHR ''.'' \<notin> set v \<and> (v = ''*'' \<longleftrightarrow> t = ''*'') \<and> (v = ''>'' \<longleftrightarrow> t = ''>'')
      \<and> (if v = ''>'' \<or> v = ''*'' then Inr v else dec v) = Inr t"
    using token [of t v] v Cons.prems(1) by (auto split: if_splits)
  then show ?case using Cons.IH [OF _ vs] Cons.prems(1) us by auto
qed simp

lemma key_back:
  assumes "bk_codec b = \<lparr>kc_encode = enc, kc_decode = dec\<rparr>" "encodeKey b k = Inr ek"
  shows "decodeKey b ek = Inr k" "length (split_on CHR ''.'' ek) = length (split_on CHR ''.'' k)"
proof -
  obtain us where us: "encode_chunks enc (split_on CHR ''.'' k) = Inr us" "ek = join_on CHR ''.'' us"
    using assms by (cases "encode_chunks enc (split_on CHR ''.'' k)") (simp_all add: encodeKey_def)
  have ts: "\<forall>t \<in> set (split_on CHR ''.'' k). CHR ''.'' \<notin> set t" using split_on_tokens by blast
  note c = chunks [OF ts us(1)]
  then have "us \<noteq> []" by (metis length_0_conv split_on_ne)
  then have s: "split_on CHR ''.'' ek = us" using c by (simp add: us(2) split_join_on)
  then show "decodeKey b ek = Inr k" using c assms(1) by (simp add: decodeKey_def join_split_on)
  show "length (split_on CHR ''.'' ek) = length (split_on CHR ''.'' k)" using c s by simp
qed

end

lemma b64_char_plain: "n < 64 \<Longrightarrow> b64_char n \<notin> {CHR ''.'', CHR ''*'', CHR ''>''}"
proof -
  assume n: "n < 64"
  have "length b64_alphabet = 64" by (simp add: b64_alphabet_def)
  then have "b64_char n \<in> set b64_alphabet" using n by (simp add: b64_char_def)
  moreover have "set b64_alphabet \<inter> {CHR ''.'', CHR ''*'', CHR ''>''} = {}" by (simp add: b64_alphabet_def)
  ultimately show ?thesis by blast
qed

lemma btoa_plain: "c \<in> set (btoa b) \<Longrightarrow> c \<notin> {CHR ''.'', CHR ''*'', CHR ''>''}"
  using digits_of_bound [of b] b64_char_plain by (auto simp: btoa_digits)

interpretation noop_codec: token_codec "kc_encode NoopKeyCodec" "kc_decode NoopKeyCodec"
  by unfold_locales (simp_all add: NoopKeyCodec_def)

interpretation base64_codec: token_codec "kc_encode Base64KeyCodec" "kc_decode Base64KeyCodec"
proof
  fix t u :: string
  assume "kc_encode Base64KeyCodec t = Inr u"
  then obtain b where b: "latin1_of t = Some b" "u = btoa b"
    by (auto simp: Base64KeyCodec_def throw_def split: option.splits)
  have "CHR ''.'' \<notin> set u" "CHR ''*'' \<notin> set u" "CHR ''>'' \<notin> set u" using btoa_plain b(2) by blast+
  then show "CHR ''.'' \<notin> set u \<and> u \<noteq> ''*'' \<and> u \<noteq> ''>'' \<and> kc_decode Base64KeyCodec u = Inr t"
    using b utf8_of_latin1 by (auto simp: Base64KeyCodec_def)
qed

text \<open>
  With either codec of the library the key of an entry is read back from its subject, and
  an encoded key has as many tokens as the key.
\<close>
theorem kv_keys_round_trip:
  assumes "bk_codec b = NoopKeyCodec \<or> bk_codec b = Base64KeyCodec" "encodeKey b k = Inr ek"
  shows "decodeKey b ek = Inr k \<and> length (split_on CHR ''.'' ek) = length (split_on CHR ''.'' k)"
  using assms(1)
proof
  assume "bk_codec b = NoopKeyCodec"
  then show ?thesis using noop_codec.key_back [OF _ assms(2)] by simp
next
  assume "bk_codec b = Base64KeyCodec"
  then show ?thesis using base64_codec.key_back [OF _ assms(2)] by simp
qed

definition sample_bucket :: bucket where
  "sample_bucket = \<lparr>bk_stream = Some ''KV_b'', bk_bucket = ''b'', bk_direct = False, bk_codec = Base64KeyCodec,
     bk_prefix = ''$KV.b'', bk_editPrefix = [], bk_useJsPrefix = False\<rparr>"

theorem kv_keys_round_trip_witness:
  "\<exists>ek. encodeKey sample_bucket ''a b.>'' = Inr ek \<and> decodeKey sample_bucket ek = Inr ''a b.>''"
proof -
  have "\<exists>ek. encodeKey sample_bucket ''a b.>'' = Inr ek"
    by (simp add: encodeKey_def sample_bucket_def Base64KeyCodec_def char_code_def)
  then show ?thesis using kv_keys_round_trip [of sample_bucket "''a b.>''"] by (auto simp: sample_bucket_def)
qed

text \<open>
  The base64 codec of keys makes keys that the store refuses: a key with the token \<open>~~~\<close>
  encodes to one with a plus sign, and putting it is an invalid key.
\<close>
theorem base64_keys_are_refused:
  "kv_put E A pause (b\<lparr>bk_codec := Base64KeyCodec\<rparr>) ''~~~'' data v w = (w, Inl (Plain_Error ''invalid key: fn5+''))"
proof -
  have "kc_encode Base64KeyCodec ''~~~'' = Inr ''fn5+''" by (simp add: Base64KeyCodec_def; code_simp)
  then have "encodeKey (b\<lparr>bk_codec := Base64KeyCodec\<rparr>) ''~~~'' = Inr ''fn5+''" by (simp add: encodeKey_def)
  moreover have "validateKey ''fn5+'' = Inl (Plain_Error ''invalid key: fn5+'')" by code_simp
  ultimately show ?thesis by (simp add: kv_put_def checked_def)
qed

section \<open>Creating a key\<close>

text \<open>An operation on a recorded world adds requests with a property.\<close>

definition appends ::
  "(string \<times> bytes \<times> msg_hdrs option \<Rightarrow> bool) \<Rightarrow> ('w \<times> request_log \<Rightarrow> ('w \<times> request_log) \<times> 'r) \<Rightarrow> bool" where
  "appends P f \<longleftrightarrow> (\<forall>w l. \<exists>w' m r. f (w, l) = ((w', l @ m), r) \<and> (\<forall>x \<in> set m. P x))"

named_theorems appends_intros \<open>what the operations add to the record\<close>

lemma appendsD:
  assumes "appends P f" "f (w, l) = ((w', l'), r)"
  shows "\<exists>m. l' = l @ m \<and> (\<forall>x \<in> set m. P x)"
  using assms unfolding appends_def by (metis Pair_inject)

lemma appends_unit [appends_intros]: "appends P (\<lambda>w. (w, r))"
  by (simp add: appends_def)

lemma appends_if [appends_intros]:
  "(c \<Longrightarrow> appends P f) \<Longrightarrow> (\<not> c \<Longrightarrow> appends P g) \<Longrightarrow> appends P (\<lambda>w. if c then f w else g w)"
  by (cases c) simp_all

lemma appends_map [appends_intros]: "appends P f \<Longrightarrow> appends P (\<lambda>w. apsnd g (f w))"
  unfolding appends_def by (metis apsnd_conv)

lemma appends_checked [appends_intros]: "(\<And>x. r = Inr x \<Longrightarrow> appends P (f x)) \<Longrightarrow> appends P (checked r f)"
  by (cases r) (auto simp: checked_def appends_def)

lemma appends_bind:
  assumes "appends P f" "\<And>r. appends P (g r)"
  shows "appends P (\<lambda>w. case f w of (w1, r) \<Rightarrow> g r w1)"
  unfolding appends_def
proof (intro allI)
  fix w l
  obtain w1 m r where f: "f (w, l) = ((w1, l @ m), r)" "\<forall>x \<in> set m. P x"
    using assms(1) unfolding appends_def by blast
  obtain w2 m' s where g: "g r (w1, l @ m) = ((w2, (l @ m) @ m'), s)" "\<forall>x \<in> set m'. P x"
    using assms(2) unfolding appends_def by blast
  have "(case f (w, l) of (w1, r) \<Rightarrow> g r w1) = ((w2, l @ (m @ m')), s) \<and> (\<forall>x \<in> set (m @ m'). P x)"
    using f g by auto
  then show "\<exists>w' m r. (case f (w, l) of (w1, r) \<Rightarrow> g r w1) = ((w', l @ m), r) \<and> (\<forall>x \<in> set m. P x)" by blast
qed

lemma appends_and_then [appends_intros]:
  assumes "appends P f" "\<And>x. appends P (g x)"
  shows "appends P (\<lambda>w. and_then (f w) g)"
proof -
  have "appends P (\<lambda>w. case f w of (w1, r) \<Rightarrow> (\<lambda>r w1. case r of Inl e \<Rightarrow> (w1, Inl e) | Inr x \<Rightarrow> g x w1) r w1)"
    using assms by (intro appends_bind) (auto split: sum.split intro: appends_unit simp: appends_def)
  then show ?thesis by (simp add: and_then_def case_prod_beta)
qed

definition no_headers :: "string \<times> bytes \<times> msg_hdrs option \<Rightarrow> bool" where
  "no_headers x \<longleftrightarrow> snd (snd x) = None"

lemma appends_request: "P (s, b, h) \<Longrightarrow> appends P (ae_request (recording E) s b h t)"
  by (simp add: appends_def recording_def case_prod_beta)

lemma recording_delay: "ae_delay (recording E) i (w, l) = (ae_delay E i w, l)"
  by (simp add: recording_def)

lemma recording_attempt:
  "\<exists>w1 r. attempt (recording E) A subj a (w, l) = ((w1, l @ [(subj, a, None)]), r)"
  by (simp add: attempt_def recording_def case_prod_beta)

lemma request_loop_appends:
  "\<exists>w' m r. request_loop (recording E) A subj a n i (w, l) = ((w', l @ m), r) \<and> (\<forall>x \<in> set m. no_headers x)"
proof (induction "nat (n - int i)" arbitrary: i w l rule: less_induct)
  case less
  note step = request_loop.simps [of "recording E" A subj a n i "(w, l)"]
  show ?case
  proof (cases "int i < n")
    case False
    then show ?thesis unfolding step by simp
  next
    case True
    obtain w1 r where a: "attempt (recording E) A subj a (w, l) = ((w1, l @ [(subj, a, None)]), r)"
      using recording_attempt [of E A subj a w l] by auto
    show ?thesis
    proof (cases "\<exists>e. r = Inl e \<and> retryable e \<and> int i + 1 < n")
      case False
      then show ?thesis unfolding step using True a by (auto simp: no_headers_def split: sum.splits)
    next
      case again: True
      obtain w2 m r2 where "request_loop (recording E) A subj a n (Suc i) (ae_delay E i w1, l @ [(subj, a, None)])
          = ((w2, (l @ [(subj, a, None)]) @ m), r2)" "\<forall>x \<in> set m. no_headers x"
        using less.hyps [of "Suc i" "ae_delay E i w1" "l @ [(subj, a, None)]"] again by auto
      then show ?thesis unfolding step using True a again by (auto simp: recording_delay no_headers_def)
    qed
  qed
qed

lemma appends_api_request [appends_intros]: "appends no_headers (api_request (recording E) A subj d n)"
  unfolding appends_def api_request_def Let_def by (intro allI request_loop_appends)

lemma appends_requesting [appends_intros]: "appends no_headers (requesting (recording E) A subj d)"
  unfolding requesting_def [abs_def] case_prod_beta Let_def
  using appends_map [OF appends_api_request] by (simp add: apsnd_def map_prod_def case_prod_beta)

lemma js_publish_appends:
  assumes "publish_headers opts = Inr h" "\<And>x. snd (snd x) = Some h \<Longrightarrow> P x"
  shows "appends P (js_publish (recording E) A (pausing pause) subj data opts)"
proof -
  have "appends P (publish_loop (recording E) (pausing pause) subj data h t d n i)" for t d n i
    unfolding appends_def
  proof (intro allI)
    fix w l
    obtain w' l' r where r: "publish_loop (recording E) (pausing pause) subj data h t d n i (w, l) = ((w', l'), r)"
      by (metis surj_pair)
    then show "\<exists>w' m r. publish_loop (recording E) (pausing pause) subj data h t d n i (w, l) = ((w', l @ m), r)
        \<and> (\<forall>x \<in> set m. P x)"
      using recorded_loop [OF r] assms(2) by auto
  qed
  then show ?thesis unfolding js_publish_def assms(1) by (intro appends_intros) simp
qed

definition expects :: "string \<Rightarrow> string \<times> bytes \<times> msg_hdrs option \<Rightarrow> bool" where
  "expects n x \<longleftrightarrow> (\<exists>h. snd (snd x) = Some h \<and> values_of h (pub_header_string ExpectedLastSubjectSequenceHdr) = [n])"

lemma publish_given_headers:
  "publish_headers (no_pub_options\<lparr>pb_headers := h\<rparr>) = Inr (case h of Some x \<Rightarrow> x | None \<Rightarrow> new_hdrs 0 [])"
  by (simp add: publish_headers_def no_pub_options_def set_text_def set_number_def headers_fn_def split: option.split)

lemma kv_put_publishes:
  assumes "put_headers v = Inr h" "\<And>x. snd (snd x) = Some (case h of Some x \<Rightarrow> x | None \<Rightarrow> new_hdrs 0 []) \<Longrightarrow> P x"
  shows "appends P (kv_put (recording E) A (pausing pause) b k data v)"
  unfolding kv_put_def
proof (rule appends_checked)
  fix x
  assume "rbind (encodeKey b k) (\<lambda>ek. rbind (validateKey ek) (\<lambda>_. rbind (put_headers v) (\<lambda>h. Inr (ek, h)))) = Inr x"
  then obtain ek where x: "x = (ek, h)" using assms(1) by (auto simp: rbind_def split: sum.splits)
  have "appends P (\<lambda>w. case js_publish (recording E) A (pausing pause) (subjectForKey A b ek True) data (no_pub_options\<lparr>pb_headers := h\<rparr>) w of
      (w1, Inr pa) \<Rightarrow> (w1, member ''seq'' pa) | (w1, Inl e) \<Rightarrow> (w1, Inl (put_error e)))"
    by (rule appends_bind, rule js_publish_appends [OF publish_given_headers], rule assms(2), assumption)
      (auto split: sum.split simp: appends_def)
  then show "appends P (case x of (ek, h) \<Rightarrow> \<lambda>w.
      case js_publish (recording E) A (pausing pause) (subjectForKey A b ek True) data (no_pub_options\<lparr>pb_headers := h\<rparr>) w of
        (w1, Inr pa) \<Rightarrow> (w1, member ''seq'' pa) | (w1, Inl e) \<Rightarrow> (w1, Inl (put_error e)))"
    by (simp add: x)
qed

lemma kv_put_appends:
  assumes "CR \<notin> set n" "LF \<notin> set n"
  shows "appends (expects (js_trim n)) (kv_put (recording E) A (pausing pause) b k data (Some n))"
proof -
  have ok: "hdrs_ok (new_hdrs 0 [])" by (simp add: hdrs_ok_def new_hdrs_def)
  obtain h where h: "set_header (pub_header_string ExpectedLastSubjectSequenceHdr) n (new_hdrs 0 []) = Inr h"
      "values_of h (pub_header_string ExpectedLastSubjectSequenceHdr) = [js_trim n]"
    using set_header_sets [OF ok assms, of ExpectedLastSubjectSequenceHdr] by blast
  have "put_headers (Some n) = Inr (Some h)" using h(1) by (simp add: put_headers_def headers_fn_def)
  then show ?thesis by (rule kv_put_publishes) (use h(2) in \<open>simp add: expects_def\<close>)
qed

lemma direct_getMessage_appends [appends_intros]: "appends no_headers (direct_getMessage (recording E) A stream query)"
proof (cases "validateStreamName stream")
  case (Inr x)
  have "appends no_headers (\<lambda>w. case ae_request (recording E) s a None t w of (w1, r) \<Rightarrow> (\<lambda>r w1. (w1, f r)) r w1)"
    for s a t and f :: "js_error + nats_msg \<Rightarrow> js_error + direct_msg"
    by (intro appends_bind appends_request appends_unit) (simp add: no_headers_def)
  then show ?thesis using Inr by (simp add: direct_getMessage_def [abs_def] Let_def)
qed (simp add: direct_getMessage_def [abs_def] appends_unit)

lemma stream_getMessage_appends [appends_intros]: "appends no_headers (stream_getMessage (recording E) A stream query)"
  unfolding stream_getMessage_def [abs_def] by (intro appends_intros)

lemma kv_get_appends: "appends no_headers (kv_get (recording E) A b k v)"
proof -
  have "appends no_headers (\<lambda>w. case (if bk_direct b then apsnd (map_sum id Direct_Msg) (direct_getMessage (recording E) A s arg w)
      else apsnd (map_sum id Api_Msg) (stream_getMessage (recording E) A s arg w)) of
        (w1, r) \<Rightarrow> (case r of Inl e \<Rightarrow> (w1, f e) | Inr m \<Rightarrow> (w1, g m)))" for s arg f and g :: "kv_message \<Rightarrow> js_error + kv_entry option"
    by (rule appends_bind, auto intro!: appends_intros) (auto simp: appends_def split: sum.split)
  then show ?thesis unfolding kv_get_def Let_def by (intro appends_checked)
qed

lemma marker_replaced:
  assumes "((w', l), r) = (case v of Some n \<Rightarrow> kv_update (recording E) A (pausing pause) b k data n (w, l0)
      | None \<Rightarrow> kv_put (recording E) A (pausing pause) b k data (unread_revision e) (w, l0))"
  shows "\<exists>m. l = l0 @ m \<and> (m = [] \<or> v = None \<or> (\<exists>n > 0. v = Some n \<and> (\<forall>x \<in> set m. expects (show_int n) x)))"
proof (cases v)
  case None
  then have p: "kv_put (recording E) A (pausing pause) b k data (unread_revision e) (w, l0) = ((w', l), r)"
    using assms by simp
  have "\<exists>m. l = l0 @ m"
  proof (cases "unread_revision e")
    case None
    then have "put_headers (unread_revision e) = Inr None" by (simp add: put_headers_def)
    from appendsD [OF kv_put_publishes [OF this, of "\<lambda>_. True"] p] show ?thesis by blast
  next
    case (Some n)
    then have "n = ''NaN''" by (auto simp: unread_revision_def split: kv_message.splits)
    then have "CR \<notin> set n" "LF \<notin> set n" by (simp_all add: CR_def LF_def)
    from appendsD [OF kv_put_appends [OF this] p [unfolded Some]] show ?thesis by blast
  qed
  then show ?thesis using None by blast
next
  case (Some n)
  show ?thesis
  proof (cases "n \<le> 0")
    case True
    then show ?thesis using assms Some by (simp add: kv_update_def)
  next
    case False
    then have "kv_put (recording E) A (pausing pause) b k data (Some (show_int n)) (w, l0) = ((w', l), r)"
      using assms Some by (simp add: kv_update_def)
    from appendsD [OF kv_put_appends this] show ?thesis using False Some by auto
  qed
qed

text \<open>
  C21: Creating a key never overwrites a value: every message it publishes carries the expected
  sequence of its subject, first none at all, and again only when a look-up in between gave a
  deletion marker, with the revision of that marker (which the messages lack only if the server
  gave a marker without a readable revision). Everything else it sends is a look-up.
\<close>
theorem create_never_overwrites:
  assumes "kv_create (recording E) A (pausing pause) b k data (w, []) = ((w', l), r)"
  shows "\<exists>w1 m1 m2 m3. l = m1 @ m2 @ m3 \<and> (\<forall>x \<in> set m1. expects ''0'' x) \<and> (\<forall>x \<in> set m2. no_headers x)
    \<and> (m3 = [] \<or> (\<exists>w2 e op. kv_get (recording E) A b k None (w1, m1) = ((w2, m1 @ m2), Inr (Some e))
         \<and> ke_operation e = Inr op \<and> is_marker op
         \<and> (ke_revision e = Inr None \<or> (\<exists>n > 0. ke_revision e = Inr (Some n) \<and> (\<forall>x \<in> set m3. expects (show_int n) x)))))"
proof -
  have t0: "js_trim ''0'' = ''0''" by code_simp
  obtain w1 l1 r1 where p1: "kv_put (recording E) A (pausing pause) b k data (Some ''0'') (w, []) = ((w1, l1), r1)"
    by (metis surj_pair)
  then obtain m1 where m1: "l1 = m1" "\<forall>x \<in> set m1. expects ''0'' x"
    using appendsD [OF kv_put_appends p1] t0 by (auto simp: CR_def LF_def)
  obtain w2 l2 r2 where g: "kv_get (recording E) A b k None (w1, m1) = ((w2, l2), r2)" by (metis surj_pair)
  then obtain m2 where m2: "l2 = m1 @ m2" "\<forall>x \<in> set m2. no_headers x"
    using appendsD [OF kv_get_appends g] by auto
  have none: ?thesis if "l = m1" using that m1(2) by (intro exI [of _ w1] exI [of _ m1] exI [of _ "[]"]) simp
  have looked: ?thesis if "l = m1 @ m2" using that m1(2) m2(2)
    by (intro exI [of _ w1] exI [of _ m1] exI [of _ m2] exI [of _ "[]"]) simp
  show ?thesis
  proof (cases "\<exists>e op v. r2 = Inr (Some e) \<and> ke_operation e = Inr op \<and> is_marker op \<and> ke_revision e = Inr v
      \<and> (\<exists>m c p ch a. r1 = Inl (Nats_Error m c p ch (Some a)) \<and> api_err_code a = Some 10071)")
    case False
    then have "l = m1 \<or> l = m1 @ m2"
      using assms p1 g m1(1) m2(1)
      by (auto simp: kv_create_def rbind_def split: sum.splits option.splits if_splits js_error.splits)
    then show ?thesis using none looked by blast
  next
    case True
    then obtain e op v where e: "r2 = Inr (Some e)" "ke_operation e = Inr op" "is_marker op" "ke_revision e = Inr v" by blast
    have l: "((w', l), r) = (case v of Some n \<Rightarrow> kv_update (recording E) A (pausing pause) b k data n (w2, m1 @ m2)
        | None \<Rightarrow> kv_put (recording E) A (pausing pause) b k data (unread_revision e) (w2, m1 @ m2))"
      using assms p1 g m1(1) m2(1) True e by (auto simp: kv_create_def)
    then obtain m3 where "l = m1 @ m2 @ m3"
        "m3 = [] \<or> v = None \<or> (\<exists>n > 0. v = Some n \<and> (\<forall>x \<in> set m3. expects (show_int n) x))"
      using marker_replaced [OF l] by auto
    then show ?thesis using m1(2) m2 g e by (intro exI [of _ w1] exI [of _ m1] exI [of _ m2] exI [of _ m3]) auto
  qed
qed

theorem create_never_overwrites_witness:
  "\<exists>w' l r m1 m2 m3. kv_create (recording late_server) sample_api
      (pausing (\<lambda>n w. w)) (sample_bucket\<lparr>bk_codec := NoopKeyCodec\<rparr>) ''k'' [7] (True, []) = ((w', l), r)
    \<and> l = m1 @ m2 @ m3 \<and> (\<forall>x \<in> set m1. expects ''0'' x) \<and> (\<forall>x \<in> set m2. no_headers x)"
proof -
  obtain w' l r where r: "kv_create (recording late_server) sample_api (pausing (\<lambda>n w. w))
      (sample_bucket\<lparr>bk_codec := NoopKeyCodec\<rparr>) ''k'' [7] (True, []) = ((w', l), r)"
    by (metis surj_pair)
  show ?thesis using create_never_overwrites [OF r] r by blast
qed

section \<open>Subjects\<close>

lemma join_two [simp]: "join_on c [a, b] = a @ c # b"
  by simp

text \<open>
  C39: Where keys are kept: a bucket of its own reads and writes a key under the same subject,
  with the prefix of the API before it for writes through another domain; a mirror in another
  domain reads from the mirrored bucket and writes through the API of that domain. The key of
  an entry found under the subject that is read is the key that was asked for.
\<close>
theorem key_subjects:
  fixes A :: api and b :: bucket and info cfg :: json
  defines "bk \<equiv> initializePrefixes A info b"
  assumes "fld ''config'' info = Some cfg" "bk_editPrefix b = []"
  shows "(\<not> truthy (fld ''mirror'' cfg) \<longrightarrow>
      subjectForKey A bk k False = ''$KV.'' @ bk_bucket b @ ''.'' @ k
      \<and> subjectForKey A bk k True = (if ap_prefix A = ''$JS.API'' then [] else ap_prefix A @ ''.'') @ subjectForKey A bk k False)
    \<and> (\<forall>m x n a. fld ''mirror'' cfg = Some (J_Obj m) \<and> map_of m ''external'' = Some (J_Obj x) \<and> map_of x ''api'' = Some (J_Str a)
        \<and> map_of m ''name'' = Some (J_Str (kvPrefix @ n)) \<and> a \<noteq> [] \<longrightarrow>
      subjectForKey A bk k False = ''$KV.'' @ n @ ''.'' @ k
      \<and> subjectForKey A bk k True = a @ ''.'' @ subjectForKey A bk k False)
    \<and> drop (prefixLen bk) (subjectForKey A bk k False) = k"
proof -
  have p: "bk_prefix bk \<noteq> []" by (simp add: bk_def initializePrefixes_def Let_def)
  then have "drop (prefixLen bk) (subjectForKey A bk k False) = k"
    by (simp add: subjectForKey_def prefixLen_def)
  moreover have "\<not> truthy (fld ''mirror'' cfg) \<longrightarrow>
      subjectForKey A bk k False = ''$KV.'' @ bk_bucket b @ ''.'' @ k
      \<and> subjectForKey A bk k True = (if ap_prefix A = ''$JS.API'' then [] else ap_prefix A @ ''.'') @ subjectForKey A bk k False"
    using assms(2,3) by (auto simp: bk_def initializePrefixes_def Let_def subjectForKey_def)
  moreover have "subjectForKey A bk k False = ''$KV.'' @ n @ ''.'' @ k
      \<and> subjectForKey A bk k True = a @ ''.'' @ subjectForKey A bk k False"
    if "fld ''mirror'' cfg = Some (J_Obj m)" "map_of m ''external'' = Some (J_Obj x)" "map_of x ''api'' = Some (J_Str a)"
      "map_of m ''name'' = Some (J_Str (kvPrefix @ n))" "a \<noteq> []" for m x n a
    using that assms(2) by (simp add: bk_def initializePrefixes_def Let_def subjectForKey_def truthy_def
        text_or_empty_def fld_def)
  ultimately show ?thesis by blast
qed

theorem key_subjects_witness:
  "subjectForKey (sample_api\<lparr>ap_prefix := ''$JS.hub.API''\<rparr>)
     (initializePrefixes (sample_api\<lparr>ap_prefix := ''$JS.hub.API''\<rparr>)
       (J_Obj [(''config'', J_Obj [])]) sample_bucket) ''k'' True = ''$JS.hub.API.$KV.b.k''"
  using key_subjects [of "J_Obj [(''config'', J_Obj [])]" "J_Obj []" sample_bucket
      "sample_api\<lparr>ap_prefix := ''$JS.hub.API''\<rparr>" "''k''"]
  by (simp add: fld_def truthy_def sample_bucket_def)

end
