(* ===== verification/Kv_Watch.thy ===== *)
theory Kv_Watch
  imports Kv_Bucket Js_Fetch
begin

text \<open>
  Watching a bucket, the rest of \<open>jetstream/kv.ts\<close>: entries of delivered messages, the
  consumers behind watches, histories and lists of keys, the removal of old markers and the
  status of a bucket. The subscription is the one of the ordered consumer; here its calls come
  one by one. The function of the user that says that a watch is initialized is an entry of
  the iterator when it is queued, and a count when it is called at once.
\<close>

section \<open>Entries of delivered messages\<close>

record js_entry =
  je_bucket :: string
  je_key :: string
  je_sm :: js_msg

definition jmToEntry :: "bucket \<Rightarrow> js_msg \<Rightarrow> js_error + js_entry" where
  "jmToEntry b m =
     rbind (decodeKey b (drop (prefixLen b) (msg_subject (jm_msg m)))) (\<lambda>k.
       Inr \<lparr>je_bucket = bk_bucket b, je_key = k, je_sm = m\<rparr>)"

definition je_value :: "js_entry \<Rightarrow> bytes" where
  "je_value e = msg_data (jm_msg (je_sm e))"

definition je_created :: "js_entry \<Rightarrow> js_error + nat option" where
  "je_created e = rbind (snd (jm_info (je_sm e))) (\<lambda>d. Inr (map_option (\<lambda>n. millis (nat n)) (di_timestampNanos d)))"

definition je_revision :: "js_entry \<Rightarrow> js_error + int option" where
  "je_revision e = snd (jm_seq (je_sm e))"

definition message_header_or :: "js_msg \<Rightarrow> string \<Rightarrow> string \<Rightarrow> js_error + string" where
  "message_header_or m k d = rbind (msg_headers (jm_msg m)) (\<lambda>h. case h of
     Some hs \<Rightarrow> header_or hs k d | None \<Rightarrow> Inr d)"

definition je_operation :: "js_entry \<Rightarrow> js_error + string" where
  "je_operation e = message_header_or (je_sm e) kvOperationHdr ''PUT''"

definition je_delta :: "js_entry \<Rightarrow> js_error + int option" where
  "je_delta e = rbind (snd (jm_info (je_sm e))) (\<lambda>d. Inr (di_pending d))"

definition je_length :: "js_entry \<Rightarrow> js_error + int option" where
  "je_length e = rbind (message_header_or (je_sm e) ''Nats-Msg-Size'' []) (\<lambda>s.
     Inr (if s \<noteq> [] then parse_int s else Some (int (length (je_value e)))))"

definition je_string :: "js_entry \<Rightarrow> string" where
  "je_string e = td_decode (je_value e)"

section \<open>The consumer of a watch\<close>

datatype watch_include = LastValue | AllHistory | UpdatesOnly

primrec include_string :: "watch_include \<Rightarrow> string" where
  "include_string LastValue = ''''"
| "include_string AllHistory = ''history''"
| "include_string UpdatesOnly = ''updates''"

fun watch_filters :: "bucket \<Rightarrow> string list \<Rightarrow> js_error + string list" where
  "watch_filters b [] = Inr []"
| "watch_filters b (k # ks) =
     rbind (encodeKey b k) (\<lambda>ek. rbind (validateSearchKey k) (\<lambda>_. rbind (watch_filters b ks) (\<lambda>fs.
       Inr (fullKeyName b ek # fs))))"

text \<open>\<open>_buildCC\<close> for one key or several.\<close>

definition buildCC :: "bucket \<Rightarrow> string list \<Rightarrow> watch_include \<Rightarrow> json \<Rightarrow> js_error + json" where
  "buildCC b ks content opts =
     rbind (watch_filters b ks) (\<lambda>fs.
       let policy = (case content of LastValue \<Rightarrow> DP_LastPerSubject | AllHistory \<Rightarrow> DP_All | UpdatesOnly \<Rightarrow> DP_New)
       in Inr (assign (J_Obj ([(''deliver_policy'', J_Str (deliver_string policy)), (''ack_policy'', J_Str (ack_string AP_None))]
            @ (case fs of [f] \<Rightarrow> [(''filter_subject'', J_Str f)] | _ \<Rightarrow> [(''filter_subjects'', J_Arr (map J_Str fs))])
            @ [(''flow_control'', J_Bool True), (''idle_heartbeat'', J_Num (int (nanos (5 * 1000))))])) opts))"

definition canSetWatcherName :: "api \<Rightarrow> bool" where
  "canSetWatcherName A = fv_ok (feature_get JS_NEW_CONSUMER_CREATE_API (ap_features A))"

text \<open>The options given to the subscription of a watch, a history and a list of keys.\<close>

record watch_options =
  wo_keys :: "string list"
  wo_headers_only :: bool
  wo_include :: watch_include
  wo_ignoreDeletes :: bool
  wo_resumeFrom :: "int option"

definition bucket_stream :: "bucket \<Rightarrow> string" where
  "bucket_stream b = (case bk_stream b of Some s \<Rightarrow> s | None \<Rightarrow> [])"

definition watch_consumer :: "api \<Rightarrow> bucket \<Rightarrow> string \<Rightarrow> watch_options \<Rightarrow> js_error + consumer_builder" where
  "watch_consumer A b name opts =
     rbind (buildCC b (wo_keys opts) (wo_include opts) (J_Obj [(''headers_only'', J_Bool (wo_headers_only opts))])) (\<lambda>cc.
       let c1 = consumerOpts cc;
           c2 = (if canSetWatcherName A then consumerName name c1 else c1);
           c3 = bindStream (bucket_stream b) c2
       in rbind (case wo_resumeFrom opts of Some n \<Rightarrow> if n > 0 then startSequence n c3 else Inr c3 | None \<Rightarrow> Inr c3)
            (\<lambda>c4. Inr (co_callback (orderedConsumer c4))))"

definition history_consumer :: "bucket \<Rightarrow> string list \<Rightarrow> bool \<Rightarrow> js_error + consumer_builder" where
  "history_consumer b ks headers_only =
     rbind (buildCC b ks AllHistory (J_Obj [(''headers_only'', J_Bool headers_only)])) (\<lambda>cc.
       Inr (co_callback (orderedConsumer (bindStream (bucket_stream b) (consumerOpts cc)))))"

definition keys_consumer :: "bucket \<Rightarrow> string list \<Rightarrow> js_error + consumer_builder" where
  "keys_consumer b ks =
     rbind (buildCC b ks LastValue (J_Obj [(''headers_only'', J_Bool True)])) (\<lambda>cc.
       Inr (orderedConsumer (bindStream (bucket_stream b) (consumerOpts cc))))"

section \<open>Watching\<close>

text \<open>The iterator and the function that is still to be called. \<open>undefined\<close>, which a history
  may push, is \<open>None\<close>.\<close>

record kv_watch =
  kw_qi :: "js_entry option qiter"
  kw_fn :: bool
  kw_count :: int
  kw_called :: nat

definition new_watch :: "bool \<Rightarrow> kv_watch" where
  "new_watch fn = \<lparr>kw_qi = new_qiter, kw_fn = fn, kw_count = 0, kw_called = 0\<rparr>"

definition kw_push :: "js_entry option item \<Rightarrow> kv_watch \<Rightarrow> kv_watch" where
  "kw_push v k = k\<lparr>kw_qi := qi_push (\<lambda>_. (True, False)) v (kw_qi k)\<rparr>"

definition kw_receive :: "js_entry \<Rightarrow> kv_watch \<Rightarrow> kv_watch" where
  "kw_receive e k = (let k1 = kw_push (Val (Some e)) k
     in k1\<lparr>kw_qi := (kw_qi k1)\<lparr>qi_received := qi_received (kw_qi k1) + 1\<rparr>\<rparr>)"

definition kw_stop :: "js_error option \<Rightarrow> kv_watch \<Rightarrow> kv_watch" where
  "kw_stop e k = k\<lparr>kw_qi := qi_stop e (kw_qi k)\<rparr>"

definition kw_counted :: "kv_watch \<Rightarrow> bool" where
  "kw_counted k \<longleftrightarrow> kw_count k > 0 \<and> qi_received (kw_qi k) \<ge> kw_count k"

text \<open>The callback of a watch. The function is queued behind the message that completes the
  initial values.\<close>

definition watch_message ::
  "bucket \<Rightarrow> bool \<Rightarrow> js_error option \<Rightarrow> js_msg option \<Rightarrow> kv_watch \<Rightarrow> kv_watch \<times> (js_error + unit)" where
  "watch_message b ignoreDeletes err jm k =
     (case err of
        Some e \<Rightarrow> (kw_stop (Some e) k, Inr ())
      | None \<Rightarrow> (case jm of
          None \<Rightarrow> (k, Inr ())
        | Some m \<Rightarrow>
            (case rbind (jmToEntry b m) (\<lambda>e. rbind (if ignoreDeletes then je_operation e else Inr ''PUT'') (\<lambda>op. Inr (e, op))) of
               Inl x \<Rightarrow> (k, Inl x)
             | Inr (e, op) \<Rightarrow>
                 if ignoreDeletes \<and> op = ''DEL'' then (k, Inr ())
                 else let k1 = kw_receive e k in
                   if \<not> kw_fn k1 then (k1, Inr ())
                   else (case (if kw_counted k1 then Inr True else rbind (je_delta e) (\<lambda>n. Inr (n = Some 0))) of
                           Inl x \<Rightarrow> (k1, Inl x)
                         | Inr ended \<Rightarrow> if ended then ((kw_push (Fn None None) k1)\<lparr>kw_fn := False\<rparr>, Inr ())
                                       else (k1, Inr ())))))"

text \<open>The subscription is there: the function is called at once when nothing is expected or all
  of it has come; \<open>throws\<close> is what the function throws.\<close>

definition watch_subscribed :: "js_error option \<Rightarrow> int \<Rightarrow> kv_watch \<Rightarrow> kv_watch" where
  "watch_subscribed throws expect k =
     (if kw_fn k
      then if expect = 0 \<or> qi_received (kw_qi k) \<ge> expect
           then (let k1 = k\<lparr>kw_called := kw_called k + 1, kw_fn := False\<rparr>
                 in if throws \<noteq> None then kw_stop throws k1 else k1)
           else k\<lparr>kw_count := expect\<rparr>
      else k)"

definition watch_expected :: "json \<Rightarrow> int option" where
  "watch_expected info =
     (case (number_of (fld ''num_pending'' info), fld ''delivered'' info) of
        (Some n, Some d) \<Rightarrow> map_option (\<lambda>m. n + m) (number_of (fld ''consumer_seq'' d))
      | _ \<Rightarrow> None)"

section \<open>Histories\<close>

text \<open>The function of a history stops its iterator. The test for its end is not guarded by the
  function as a whole, so a later last message pushes what is then \<open>undefined\<close>.\<close>

definition history_end :: "kv_watch \<Rightarrow> kv_watch" where
  "history_end k = (if kw_fn k then kw_push (Fn (Some None) None) k else kw_push (Val None) k)\<lparr>kw_fn := False\<rparr>"

definition history_message ::
  "bucket \<Rightarrow> js_error option \<Rightarrow> js_msg option \<Rightarrow> kv_watch \<Rightarrow> kv_watch \<times> (js_error + unit)" where
  "history_message b err jm k =
     (case err of
        Some e \<Rightarrow> (kw_stop (Some e) k, Inr ())
      | None \<Rightarrow> (case jm of
          None \<Rightarrow> (k, Inr ())
        | Some m \<Rightarrow>
            (case jmToEntry b m of
               Inl x \<Rightarrow> (k, Inl x)
             | Inr e \<Rightarrow>
                 let k1 = kw_receive e k in
                 (case (if kw_fn k1 \<and> kw_counted k1 then Inr True else rbind (je_delta e) (\<lambda>n. Inr (n = Some 0))) of
                    Inl x \<Rightarrow> (k1, Inl x)
                  | Inr ended \<Rightarrow> if ended then (history_end k1, Inr ()) else (k1, Inr ())))))"

definition history_subscribed :: "int \<Rightarrow> kv_watch \<Rightarrow> kv_watch" where
  "history_subscribed expect k =
     (if kw_fn k
      then if expect = 0 \<or> qi_received (kw_qi k) \<ge> expect then kw_stop None (k\<lparr>kw_fn := False\<rparr>)
           else k\<lparr>kw_count := expect\<rparr>
      else k)"

section \<open>Keys\<close>

text \<open>The loop over the messages the iterator of the subscription gives: the keys that are not
  deleted, whether it has unsubscribed, and the error that ends it.\<close>

fun keys_loop :: "bucket \<Rightarrow> js_msg list \<Rightarrow> string list \<Rightarrow> bool \<Rightarrow> string list \<times> bool \<times> js_error option" where
  "keys_loop b [] ks unsub = (ks, unsub, None)"
| "keys_loop b (m # ms) ks unsub =
     (case rbind (message_header_or m kvOperationHdr []) (\<lambda>op.
             if is_marker op then Inr ks
             else rbind (decodeKey b (drop (prefixLen b) (msg_subject (jm_msg m)))) (\<lambda>k. Inr (ks @ [k]))) of
        Inl e \<Rightarrow> (ks, unsub, Some e)
      | Inr ks1 \<Rightarrow>
          (case snd (jm_info m) of
             Inl e \<Rightarrow> (ks1, unsub, Some e)
           | Inr d \<Rightarrow> keys_loop b ms ks1 (unsub \<or> di_pending d = Some 0)))"

text \<open>A bucket without keys unsubscribes at once.\<close>

definition keys_subscribed :: "json \<Rightarrow> bool" where
  "keys_subscribed info \<longleftrightarrow> fld ''num_pending'' info = Some (J_Num 0)"

section \<open>Removing old markers\<close>

fun sum_purged :: "json list \<Rightarrow> int \<Rightarrow> int" where
  "sum_purged [] n = n"
| "sum_purged (r # rs) n = sum_purged rs (n + (case number_of (fld ''purged'' r) of Some k \<Rightarrow> k | None \<Rightarrow> 0))"

fun purge_all :: "'w api_env \<Rightarrow> api \<Rightarrow> string \<Rightarrow> (string \<times> int) list \<Rightarrow> 'w \<Rightarrow> 'w \<times> (js_error + json) list" where
  "purge_all E A stream [] w = (w, [])"
| "purge_all E A stream ((subj, keep) # ps) w =
     (let (w1, r) = stream_purge E A stream (Some (J_Obj [(''filter'', J_Str subj), (''keep'', J_Num keep)])) w;
          (w2, rs) = purge_all E A stream ps w1
      in (w2, r # rs))"

text \<open>The entries are those of a watch until it is initialized, with the time they were made;
  the subject is made from the key of the entry.\<close>

definition purge_plan :: "api \<Rightarrow> bucket \<Rightarrow> int \<Rightarrow> (js_entry \<times> string \<times> int) list \<Rightarrow> (string \<times> int) list" where
  "purge_plan A b oldest es =
     map (\<lambda>(e, op, created). (subjectForKey A b (je_key e) False, if created \<ge> oldest then 1 else 0))
       (filter (\<lambda>(e, op, created). is_marker op) es)"

definition purgeDeletes ::
  "'w api_env \<Rightarrow> api \<Rightarrow> bucket \<Rightarrow> int \<Rightarrow> int \<Rightarrow> (js_entry \<times> string \<times> int) list \<Rightarrow> 'w \<Rightarrow> 'w \<times> (js_error + int)" where
  "purgeDeletes E A b now olderMillis es w =
     (let (w1, rs) = purge_all E A (bucket_stream b) (purge_plan A b (now - olderMillis) es) w
      in (w1, case List.find Sum_Type.isl rs of
                Some (Inl e) \<Rightarrow> Inl e
              | _ \<Rightarrow> Inr (sum_purged (map Sum_Type.projr rs) 0)))"

section \<open>The status of a bucket\<close>

record kv_status =
  kst_si :: json
  kst_cluster :: string

definition kst_config :: "string \<Rightarrow> kv_status \<Rightarrow> json option" where
  "kst_config k s = fld k (case fld ''config'' (kst_si s) of Some c \<Rightarrow> c | None \<Rightarrow> J_Null)"

definition kst_state :: "string \<Rightarrow> kv_status \<Rightarrow> json option" where
  "kst_state k s = fld k (case fld ''state'' (kst_si s) of Some c \<Rightarrow> c | None \<Rightarrow> J_Null)"

definition kst_bucket :: "kv_status \<Rightarrow> string" where
  "kst_bucket s = (let n = text_or_empty (kst_config ''name'' s)
     in if starts_with kvPrefix n then drop (length kvPrefix) n else n)"

definition kst_values :: "kv_status \<Rightarrow> json option" where
  "kst_values = kst_state ''messages''"

definition kst_history :: "kv_status \<Rightarrow> json option" where
  "kst_history = kst_config ''max_msgs_per_subject''"

definition kst_ttl :: "kv_status \<Rightarrow> nat option" where
  "kst_ttl s = map_option (\<lambda>n. millis (nat n)) (number_of (kst_config ''max_age'' s))"

definition kst_bucket_location :: "kv_status \<Rightarrow> string" where
  "kst_bucket_location = kst_cluster"

definition kst_storage :: "kv_status \<Rightarrow> json option" where
  "kst_storage = kst_config ''storage''"

definition kst_backingStore :: "kv_status \<Rightarrow> json option" where
  "kst_backingStore = kst_config ''storage''"

definition kst_replicas :: "kv_status \<Rightarrow> json option" where
  "kst_replicas = kst_config ''num_replicas''"

definition kst_description :: "kv_status \<Rightarrow> json option" where
  "kst_description s = either (kst_config ''description'' s) (Some (J_Str []))"

definition kst_maxBucketSize :: "kv_status \<Rightarrow> json option" where
  "kst_maxBucketSize = kst_config ''max_bytes''"

definition kst_maxValueSize :: "kv_status \<Rightarrow> json option" where
  "kst_maxValueSize = kst_config ''max_msg_size''"

definition kst_max_bytes :: "kv_status \<Rightarrow> json option" where
  "kst_max_bytes = kst_config ''max_bytes''"

definition kst_placement :: "kv_status \<Rightarrow> json" where
  "kst_placement s = (let p = kst_config ''placement'' s
     in if truthy p then the p else J_Obj [(''cluster'', J_Str []), (''tags'', J_Arr [])])"

definition kst_placementCluster :: "kv_status \<Rightarrow> json option" where
  "kst_placementCluster s =
     either (case kst_config ''placement'' s of Some p \<Rightarrow> fld ''cluster'' p | None \<Rightarrow> None) (Some (J_Str []))"

definition kst_republish :: "kv_status \<Rightarrow> json option" where
  "kst_republish s = either (kst_config ''republish'' s) (Some (J_Obj [(''src'', J_Str []), (''dest'', J_Str [])]))"

definition kst_size :: "kv_status \<Rightarrow> json option" where
  "kst_size = kst_state ''bytes''"

definition kst_metadata :: "kv_status \<Rightarrow> json option" where
  "kst_metadata s = either (kst_config ''metadata'' s) (Some (J_Obj []))"

definition kst_compression :: "kv_status \<Rightarrow> bool" where
  "kst_compression s = (let c = kst_config ''compression'' s in truthy c \<and> c \<noteq> Some (J_Str ''none''))"

definition kv_status_of ::
  "'w api_env \<Rightarrow> api \<Rightarrow> string option \<Rightarrow> bucket \<Rightarrow> 'w \<Rightarrow> ('w \<times> (js_error + kv_status)) option" where
  "kv_status_of E A cluster b w =
     map_option (\<lambda>(w1, r). (w1, rbind r (\<lambda>si. Inr \<lparr>kst_si = si, kst_cluster = (case cluster of Some c \<Rightarrow> c | None \<Rightarrow> [])\<rparr>)))
       (stream_info E A (bucketName b) None w)"

section \<open>A watch is initialized once\<close>

datatype watch_event = W_Message js_msg | W_Subscribed int

definition watch_step :: "bucket \<Rightarrow> bool \<Rightarrow> watch_event \<Rightarrow> kv_watch \<Rightarrow> kv_watch" where
  "watch_step b ign ev k =
     (case ev of W_Message m \<Rightarrow> fst (watch_message b ign None (Some m) k) | W_Subscribed n \<Rightarrow> watch_subscribed None n k)"

definition watch_run :: "bucket \<Rightarrow> bool \<Rightarrow> watch_event list \<Rightarrow> kv_watch \<Rightarrow> kv_watch" where
  "watch_run b ign evs k = fold (watch_step b ign) evs k"

definition is_fn :: "'a item \<Rightarrow> bool" where
  "is_fn i = (case i of Fn s t \<Rightarrow> True | Val v \<Rightarrow> False)"

text \<open>How often the function was or will be called, and the entries that were queued.\<close>

definition initialized :: "kv_watch \<Rightarrow> nat" where
  "initialized k = length (filter is_fn (qi_yields (kw_qi k))) + kw_called k"

definition queued :: "kv_watch \<Rightarrow> js_entry option list" where
  "queued k = vals (qi_yields (kw_qi k))"

text \<open>A message whose entry, position and operation can be read.\<close>

definition entry_of :: "bucket \<Rightarrow> js_msg \<Rightarrow> js_entry" where
  "entry_of b m = Sum_Type.projr (jmToEntry b m)"

definition readable :: "bucket \<Rightarrow> js_msg \<Rightarrow> bool" where
  "readable b m \<longleftrightarrow> (\<exists>e n op. jmToEntry b m = Inr e \<and> je_delta e = Inr n \<and> je_operation e = Inr op)"

definition final :: "bucket \<Rightarrow> js_msg \<Rightarrow> bool" where
  "final b m \<longleftrightarrow> je_delta (entry_of b m) = Inr (Some 0)"

definition deleted :: "bucket \<Rightarrow> js_msg \<Rightarrow> bool" where
  "deleted b m \<longleftrightarrow> je_operation (entry_of b m) = Inr ''DEL''"

lemma kw_push_simps [simp]:
  "\<not> qi_done (kw_qi k) \<Longrightarrow> qi_yields (kw_qi (kw_push v k)) = qi_yields (kw_qi k) @ [v]"
  "qi_done (kw_qi (kw_push v k)) = qi_done (kw_qi k)" "qi_received (kw_qi (kw_push v k)) = qi_received (kw_qi k)"
  "kw_fn (kw_push v k) = kw_fn k" "kw_count (kw_push v k) = kw_count k" "kw_called (kw_push v k) = kw_called k"
  by (simp_all add: kw_push_def qi_push_def Let_def split: item.split)

lemma kw_receive_simps [simp]:
  "\<not> qi_done (kw_qi k) \<Longrightarrow> qi_yields (kw_qi (kw_receive e k)) = qi_yields (kw_qi k) @ [Val (Some e)]"
  "qi_done (kw_qi (kw_receive e k)) = qi_done (kw_qi k)" "qi_received (kw_qi (kw_receive e k)) = qi_received (kw_qi k) + 1"
  "kw_fn (kw_receive e k) = kw_fn k" "kw_count (kw_receive e k) = kw_count k" "kw_called (kw_receive e k) = kw_called k"
  by (simp_all add: kw_receive_def Let_def)

lemma watch_message_skips:
  assumes "readable b m" "ign" "deleted b m"
  shows "watch_step b ign (W_Message m) k = k"
  using assms by (auto simp: watch_step_def watch_message_def readable_def deleted_def entry_of_def)

lemma watch_message_takes:
  assumes "readable b m" "\<not> (ign \<and> deleted b m)" "\<not> qi_done (kw_qi k)"
  defines "k1 \<equiv> kw_receive (entry_of b m) k"
  shows "watch_step b ign (W_Message m) k =
    (if kw_fn k1 \<and> (kw_counted k1 \<or> final b m) then (kw_push (Fn None None) k1)\<lparr>kw_fn := False\<rparr> else k1)"
proof -
  obtain e n op where e: "jmToEntry b m = Inr e" "je_delta e = Inr n" "je_operation e = Inr op" "entry_of b m = e"
    using assms(1) by (auto simp: readable_def entry_of_def)
  then show ?thesis
    using assms(2) by (simp add: watch_step_def watch_message_def k1_def final_def deleted_def Let_def)
qed

text \<open>What holds while messages come and the subscription is made: the function is either still
  to be called or was called or queued once.\<close>

definition watch_ok :: "kv_watch \<Rightarrow> js_entry list \<Rightarrow> bool" where
  "watch_ok k es \<longleftrightarrow> \<not> qi_done (kw_qi k) \<and> queued k = map Some es \<and> qi_received (kw_qi k) = int (length es)
     \<and> initialized k = (if kw_fn k then 0 else 1) \<and> (kw_fn k \<longrightarrow> \<not> kw_counted k)"

lemma watch_ok_message:
  assumes "watch_ok k es" "readable b m"
  shows "watch_ok (watch_step b ign (W_Message m) k) (if ign \<and> deleted b m then es else es @ [entry_of b m])
    \<and> kw_count (watch_step b ign (W_Message m) k) = kw_count k
    \<and> (kw_fn (watch_step b ign (W_Message m) k) \<longleftrightarrow> kw_fn k \<and>
         (ign \<and> deleted b m \<or> \<not> (kw_count k > 0 \<and> int (length es) + 1 \<ge> kw_count k) \<and> \<not> final b m))"
proof (cases "ign \<and> deleted b m")
  case True
  then show ?thesis using assms watch_message_skips [of b m ign k] by simp
next
  case False
  have "\<not> qi_done (kw_qi k)" using assms(1) by (simp add: watch_ok_def)
  note t = watch_message_takes [OF assms(2) False this]
  show ?thesis
    using assms(1) False by (auto simp: t watch_ok_def queued_def initialized_def is_fn_def kw_counted_def)
qed

text \<open>The messages that are queued.\<close>

definition shown :: "bucket \<Rightarrow> bool \<Rightarrow> js_msg list \<Rightarrow> js_entry list" where
  "shown b ign ms = map (entry_of b) (filter (\<lambda>m. \<not> (ign \<and> deleted b m)) ms)"

lemma watch_ok_messages:
  assumes "watch_ok k es" "\<forall>m \<in> set ms. readable b m"
  shows "watch_ok (watch_run b ign (map W_Message ms) k) (es @ shown b ign ms)
    \<and> kw_count (watch_run b ign (map W_Message ms) k) = kw_count k
    \<and> (kw_fn (watch_run b ign (map W_Message ms) k) \<longleftrightarrow> kw_fn k
        \<and> \<not> (shown b ign ms \<noteq> [] \<and> kw_count k > 0 \<and> int (length (es @ shown b ign ms)) \<ge> kw_count k)
        \<and> \<not> (\<exists>m \<in> set ms. \<not> (ign \<and> deleted b m) \<and> final b m))"
  using assms
proof (induction ms arbitrary: k es)
  case (Cons m ms)
  let ?k = "watch_step b ign (W_Message m) k"
  have m: "readable b m" using Cons.prems(2) by simp
  note s = watch_ok_message [OF Cons.prems(1) m, of ign]
  have run: "watch_run b ign (map W_Message (m # ms)) k = watch_run b ign (map W_Message ms) ?k"
    by (simp add: watch_run_def)
  have ms: "\<forall>m \<in> set ms. readable b m" using Cons.prems(2) by simp
  show ?case
  proof (cases "ign \<and> deleted b m")
    case True
    then show ?thesis unfolding run using Cons.IH [OF _ ms, of ?k es] s by (auto simp: shown_def)
  next
    case False
    then show ?thesis unfolding run using Cons.IH [OF _ ms, of ?k "es @ [entry_of b m]"] s by (auto simp: shown_def)
  qed
qed (simp add: watch_run_def shown_def)

lemma watch_ok_subscribed:
  assumes "watch_ok k es" "kw_count k = 0" "0 \<le> n"
  shows "watch_ok (watch_step b ign (W_Subscribed n) k) es
    \<and> (kw_fn (watch_step b ign (W_Subscribed n) k) \<longleftrightarrow> kw_fn k \<and> int (length es) < n)
    \<and> (kw_fn (watch_step b ign (W_Subscribed n) k) \<longrightarrow> kw_count (watch_step b ign (W_Subscribed n) k) = n)"
  using assms
  by (auto simp: watch_step_def watch_subscribed_def watch_ok_def queued_def initialized_def kw_counted_def Let_def)

lemma watch_ok_new: "watch_ok (new_watch True) []"
  by (simp add: watch_ok_def new_watch_def new_qiter_def queued_def initialized_def kw_counted_def)

lemma watch_run_append: "watch_run b ign (xs @ ev # ys) k = watch_run b ign ys (watch_step b ign ev (watch_run b ign xs k))"
  by (simp add: watch_run_def)

lemma shown_append: "shown b ign (xs @ ys) = shown b ign xs @ shown b ign ys"
  by (simp add: shown_def)

lemma watch_announces:
  fixes before behind :: "js_msg list" and n :: int and b :: bucket and ign :: bool
  assumes "\<forall>m \<in> set (before @ behind). readable b m" "0 \<le> n"
  defines "k \<equiv> watch_run b ign (map W_Message before @ W_Subscribed n # map W_Message behind) (new_watch True)"
  shows "queued k = map Some (shown b ign (before @ behind)) \<and> initialized k \<le> 1
    \<and> (initialized k = 1 \<longleftrightarrow> n \<le> int (length (shown b ign (before @ behind)))
         \<or> (\<exists>m \<in> set (before @ behind). \<not> (ign \<and> deleted b m) \<and> final b m))"
proof -
  let ?k1 = "watch_run b ign (map W_Message before) (new_watch True)"
  let ?k2 = "watch_step b ign (W_Subscribed n) ?k1"
  have c: "kw_count (new_watch True) = 0" "kw_fn (new_watch True)" by (simp_all add: new_watch_def)
  have k1: "watch_ok ?k1 (shown b ign before)" "kw_count ?k1 = 0"
      "kw_fn ?k1 \<longleftrightarrow> \<not> (\<exists>m \<in> set before. \<not> (ign \<and> deleted b m) \<and> final b m)"
    using watch_ok_messages [OF watch_ok_new, of before b ign] assms(1) c by auto
  note k2 = watch_ok_subscribed [OF k1(1,2) assms(2), of b ign]
  have ms: "\<forall>m \<in> set behind. readable b m" using assms(1) by simp
  have k: "k = watch_run b ign (map W_Message behind) ?k2" by (simp add: k_def watch_run_append)
  note k3 = watch_ok_messages [OF conjunct1 [OF k2] ms, of ign, folded k]
  then have i: "initialized k = (if kw_fn k then 0 else 1)" "queued k = map Some (shown b ign (before @ behind))"
    by (simp_all add: watch_ok_def shown_append)
  define a where "a = int (length (shown b ign before))"
  define c where "c = int (length (shown b ign behind))"
  define P where "P ms \<longleftrightarrow> (\<exists>m \<in> set ms. \<not> (ign \<and> deleted b m) \<and> final b m)" for ms
  have "kw_fn ?k2 \<longleftrightarrow> \<not> P before \<and> a < n" "kw_fn ?k2 \<longrightarrow> kw_count ?k2 = n"
    using k2 k1(3) by (simp_all add: P_def a_def)
  moreover have "kw_fn k \<longleftrightarrow> kw_fn ?k2 \<and> \<not> (c \<noteq> 0 \<and> kw_count ?k2 > 0 \<and> a + c \<ge> kw_count ?k2) \<and> \<not> P behind"
    using k3 by (simp add: P_def a_def c_def)
  moreover have "0 \<le> a" "0 \<le> c" by (simp_all add: a_def c_def)
  ultimately have "kw_fn k \<longleftrightarrow> \<not> (n \<le> a + c \<or> P before \<or> P behind)" by auto
  moreover have "(\<exists>m \<in> set (before @ behind). \<not> (ign \<and> deleted b m) \<and> final b m) \<longleftrightarrow> P before \<or> P behind"
    by (auto simp: P_def)
  moreover have "int (length (shown b ign (before @ behind))) = a + c" by (simp add: shown_append a_def c_def)
  ultimately show ?thesis unfolding i by simp
qed

text \<open>
  C33: Whatever comes before and after the subscription is made, a watch queues the entries of its
  messages in order and announces that it is initialized at most once, by a call or an entry of
  the iterator; it does so exactly when as many entries as the server had announced were
  queued, or one with nothing pending behind it. Ignored deletes are no entries: they neither
  count towards the announced number nor end it.
\<close>
theorem watch_initializes_once:
  assumes "\<forall>m \<in> set (before @ behind). readable b m" "0 \<le> n"
    "k = watch_run b ign (map W_Message before @ W_Subscribed n # map W_Message behind) (new_watch True)"
  shows "queued k = map Some (shown b ign (before @ behind)) \<and> initialized k \<le> 1
    \<and> (initialized k = 1 \<longleftrightarrow> n \<le> int (length (shown b ign (before @ behind)))
         \<or> (\<exists>m \<in> set (before @ behind). \<not> (ign \<and> deleted b m) \<and> final b m))"
  using watch_announces [OF assms(1,2)] unfolding assms(3) .

definition sample_entry_msg :: "string \<Rightarrow> int \<Rightarrow> msg_hdrs option \<Rightarrow> js_msg" where
  "sample_entry_msg key n h =
     \<lparr>jm_msg = (case h of
          Some hs \<Rightarrow> new_msg (newMsgArg\<lparr>subject := te_encode (''$KV.b.'' @ key), hdr := int (length (hdr_encode hs))\<rparr>) (hdr_encode hs)
        | None \<Rightarrow> new_msg (newMsgArg\<lparr>subject := te_encode (''$KV.b.'' @ key)\<rparr>) [1]),
      jm_di = Some \<lparr>di_domain = [], di_account_hash = [], di_stream = ''KV_b'', di_consumer = ''c'', di_deliveryCount = Some 1,
        di_redeliveryCount = Some 1, di_redelivered = False, di_streamSequence = Some 1, di_deliverySequence = Some 1,
        di_timestampNanos = Some 0, di_pending = Some n\<rparr>,
      jm_didAck = False, jm_timeout = 5000\<rparr>"

definition del_headers :: msg_hdrs where
  "del_headers = (new_hdrs 0 [])\<lparr>hd_map := [(kvOperationHdr, [''DEL''])]\<rparr>"

definition plain_bucket :: bucket where
  "plain_bucket = sample_bucket\<lparr>bk_codec := NoopKeyCodec\<rparr>"

lemma encode_noop: "\<forall>t \<in> set ts. True \<Longrightarrow> encode_chunks Inr ts = Inr ts"
  by (induction ts) auto

lemma decode_plain [simp]: "decodeKey plain_bucket k = Inr k" "encodeKey plain_bucket k = Inr k"
  using encode_noop [of "split_on CHR ''.'' k"]
  by (simp_all add: decodeKey_def encodeKey_def plain_bucket_def NoopKeyCodec_def join_split_on)

lemma plain_bucket_simps [simp]: "prefixLen plain_bucket = 6" "bk_bucket plain_bucket = ''b''"
  by (simp_all add: prefixLen_def plain_bucket_def sample_bucket_def)

lemma sample_subject: "msg_subject (jm_msg (sample_entry_msg key n h)) = ''$KV.b.'' @ key"
  by (simp add: sample_entry_msg_def msg_subject_def new_msg_def del: te_encode_Cons te_encode_append split: option.split)

lemma sample_entry [simp]:
  "jmToEntry plain_bucket (sample_entry_msg key n h) =
    Inr \<lparr>je_bucket = ''b'', je_key = key, je_sm = sample_entry_msg key n h\<rparr>"
  by (simp add: jmToEntry_def sample_subject)

lemma sample_delta [simp]: "je_delta \<lparr>je_bucket = bn, je_key = key, je_sm = sample_entry_msg key n h\<rparr> = Inr (Some n)"
  by (simp add: je_delta_def jm_info_def sample_entry_msg_def)

lemma sample_operations:
  "message_header_or (sample_entry_msg key n None) kvOperationHdr d = Inr d"
  "message_header_or (sample_entry_msg key n (Some del_headers)) kvOperationHdr d = Inr ''DEL''"
proof -
  show "message_header_or (sample_entry_msg key n None) kvOperationHdr d = Inr d"
    by (simp add: message_header_or_def sample_entry_msg_def msg_headers_def new_msg_def newMsgArg_def)
  have v: "valid_key ''KV-Operation''" by code_simp
  have "js_trim ''DEL'' = ''DEL''" by code_simp
  then have "hdrs_ok del_headers" "status_ok del_headers"
    using v by (simp_all add: hdrs_ok_def del_headers_def new_hdrs_def kvOperationHdr_def entry_ok_def ok_value_def status_ok_def
        CR_def LF_def)
  then have "hdr_decode (hdr_encode del_headers) = Inr del_headers" by (rule decode_encode)
  then show "message_header_or (sample_entry_msg key n (Some del_headers)) kvOperationHdr d = Inr ''DEL''"
    by (simp add: message_header_or_def sample_entry_msg_def msg_headers_def new_msg_def subarray_def
        header_or_def hdr_get_def del_headers_def new_hdrs_def hdr_keys_def)
qed

lemma sample_entry_operations [simp]:
  "je_operation \<lparr>je_bucket = bn, je_key = key, je_sm = sample_entry_msg key n None\<rparr> = Inr ''PUT''"
  "je_operation \<lparr>je_bucket = bn, je_key = key, je_sm = sample_entry_msg key n (Some del_headers)\<rparr> = Inr ''DEL''"
  using sample_operations by (simp_all add: je_operation_def)

theorem watch_initializes_once_witness:
  "initialized (watch_run plain_bucket False ([] @ W_Subscribed 2 # map W_Message [sample_entry_msg ''a'' 5 None, sample_entry_msg ''b'' 5 None])
     (new_watch True)) = 1"
  using watch_initializes_once [of "[]" "[sample_entry_msg ''a'' 5 None, sample_entry_msg ''b'' 5 None]" plain_bucket 2 _ False]
  by (simp add: readable_def shown_def)

text \<open>
  A watch that ignores deletes and whose last initial message is a delete never announces
  that it is initialized: the server announced all messages, but one of them is not counted,
  and the message without anything pending is dropped before that is looked at.
\<close>
theorem ignored_delete_hides_the_end:
  assumes "\<forall>x \<in> set ms. readable b x \<and> \<not> final b x" "readable b m" "deleted b m"
    "k = watch_run b True (map W_Message [] @ W_Subscribed (int (length (ms @ [m]))) # map W_Message (ms @ [m])) (new_watch True)"
  shows "initialized k = 0"
proof -
  have "\<forall>x \<in> set ([] @ ms @ [m]). readable b x" using assms(1,2) by auto
  moreover have "length (shown b True (ms @ [m])) \<le> length ms"
    using assms(3) length_filter_le [of "\<lambda>m. \<not> deleted b m" ms] by (simp add: shown_def)
  moreover have "\<not> (\<exists>x \<in> set ([] @ ms @ [m]). \<not> (True \<and> deleted b x) \<and> final b x)" using assms(1,3) by auto
  ultimately show ?thesis
    using watch_announces [of "[]" "ms @ [m]" b "int (length (ms @ [m]))" True, folded assms(4)] by auto
qed

theorem ignored_delete_hides_the_end_witness:
  "initialized (watch_run plain_bucket True (map W_Message [] @ W_Subscribed (int (length ([sample_entry_msg ''a'' 1 None] @ [sample_entry_msg ''b'' 0 (Some del_headers)])))
      # map W_Message ([sample_entry_msg ''a'' 1 None] @ [sample_entry_msg ''b'' 0 (Some del_headers)])) (new_watch True)) = 0"
  by (rule ignored_delete_hides_the_end [OF _ _ _ refl]) (simp_all add: readable_def final_def deleted_def entry_of_def)

section \<open>Lists of keys\<close>

text \<open>A message of a bucket under a key, with its operation.\<close>

definition keyed :: "bucket \<Rightarrow> js_msg \<Rightarrow> string \<Rightarrow> string \<Rightarrow> bool" where
  "keyed b m k op \<longleftrightarrow> (\<exists>ek d. encodeKey b k = Inr ek \<and> msg_subject (jm_msg m) = fullKeyName b ek
     \<and> message_header_or m kvOperationHdr [] = Inr op \<and> snd (jm_info m) = Inr d)"

lemma key_read_back:
  assumes "bk_codec b = NoopKeyCodec \<or> bk_codec b = Base64KeyCodec" "bk_prefix b \<noteq> []" "encodeKey b k = Inr ek"
  shows "decodeKey b (drop (prefixLen b) (fullKeyName b ek)) = Inr k"
proof -
  have "drop (prefixLen b) (fullKeyName b ek) = ek" using assms(2) by (simp add: prefixLen_def fullKeyName_def)
  moreover have "decodeKey b ek = Inr k"
    using assms(1) noop_codec.key_back(1) [OF _ assms(3)] base64_codec.key_back(1) [OF _ assms(3)] by auto
  ultimately show ?thesis by simp
qed

text \<open>
  The list of keys is, in order, the keys whose last message is no deletion marker, read back
  from their subjects, whatever codec the bucket has; it unsubscribes when a message has nothing
  pending behind it.
\<close>
theorem keys_are_the_live_keys:
  assumes "bk_codec b = NoopKeyCodec \<or> bk_codec b = Base64KeyCodec" "bk_prefix b \<noteq> []"
    "list_all2 (\<lambda>m (k, op). keyed b m k op) ms kops"
  shows "keys_loop b ms [] False = (map fst (filter (\<lambda>(k, op). \<not> is_marker op) kops),
    (\<exists>m \<in> set ms. info_pending m = Inr (Some 0)), None)"
proof -
  have "keys_loop b ms ks u = (ks @ map fst (filter (\<lambda>(k, op). \<not> is_marker op) kops),
      u \<or> (\<exists>m \<in> set ms. info_pending m = Inr (Some 0)), None)" for ks u
    using assms(3)
  proof (induction arbitrary: ks u rule: list_all2_induct)
    case (Cons m ms kop kops)
    obtain k op where kop: "kop = (k, op)" by fastforce
    then obtain ek d where m: "encodeKey b k = Inr ek" "msg_subject (jm_msg m) = fullKeyName b ek"
        "message_header_or m kvOperationHdr [] = Inr op" "snd (jm_info m) = Inr d"
      using Cons.hyps(1) by (auto simp: keyed_def)
    then show ?case
      using key_read_back [OF assms(1,2) m(1)] Cons.IH kop by (auto simp: info_pending_def)
  qed simp
  from this [of "[]" False] show ?thesis by simp
qed

lemma sample_info: "jm_info (sample_entry_msg key n h) = (sample_entry_msg key n h,
    Inr (the (jm_di (sample_entry_msg key n h))))"
  by (simp add: jm_info_def sample_entry_msg_def)

lemma plain_full_key: "fullKeyName plain_bucket k = ''$KV.b.'' @ k"
  by (simp add: fullKeyName_def plain_bucket_def sample_bucket_def)

lemma sample_keyed:
  "keyed plain_bucket (sample_entry_msg key n None) key []"
  "keyed plain_bucket (sample_entry_msg key n (Some del_headers)) key ''DEL''"
  unfolding keyed_def
  by (rule exI [of _ key], simp add: sample_subject plain_full_key sample_info sample_operations)+

lemma sample_pending: "info_pending (sample_entry_msg key n h) = Inr (Some n)"
  by (simp add: info_pending_def sample_info) (simp add: sample_entry_msg_def)

theorem keys_are_the_live_keys_witness:
  "keys_loop plain_bucket [sample_entry_msg ''a'' 1 None, sample_entry_msg ''b'' 0 (Some del_headers)] [] False = ([''a''], True, None)"
proof -
  have "bk_codec plain_bucket = NoopKeyCodec" "bk_prefix plain_bucket \<noteq> []" by (simp_all add: plain_bucket_def sample_bucket_def)
  then show ?thesis
    using keys_are_the_live_keys [of plain_bucket "[sample_entry_msg ''a'' 1 None, sample_entry_msg ''b'' 0 (Some del_headers)]"
        "[(''a'', []), (''b'', ''DEL'')]"] sample_keyed
    by (simp add: is_marker_def sample_pending del: keys_loop.simps)
qed

end
