(* ===== verification/Sha_Digest.thy ===== *)
theory Sha_Digest
  imports Base64
begin

text \<open>
  Reading a digest in hexadecimal or one of the base64 forms and comparing digests,
  \<open>jetstream/sha_digest.parser.ts\<close>. The regular expressions are spelled out: each asks for a
  class of characters, the last two with up to two pads at the end.
\<close>

definition lower_hex :: "char \<Rightarrow> bool" where
  "lower_hex c \<longleftrightarrow> is_digit c \<or> (97 \<le> char_code c \<and> char_code c \<le> 102)"

definition upper_hex :: "char \<Rightarrow> bool" where
  "upper_hex c \<longleftrightarrow> is_digit c \<or> (65 \<le> char_code c \<and> char_code c \<le> 70)"

definition isHex :: "string \<Rightarrow> bool" where
  "isHex s \<longleftrightarrow> s \<noteq> [] \<and> list_all (\<lambda>c. lower_hex c \<or> upper_hex c) s
     \<and> (list_all upper_hex s \<or> list_all lower_hex s) \<and> length s mod 2 = 0"

definition padded_class :: "(char \<Rightarrow> bool) \<Rightarrow> string \<Rightarrow> bool" where
  "padded_class P s \<longleftrightarrow>
     (let pads = length (takeWhile (\<lambda>c. c = CHR ''='') (rev s))
      in pads \<le> 2 \<and> list_all P (take (length s - pads) s))"

definition alnum_char :: "char \<Rightarrow> bool" where
  "alnum_char c \<longleftrightarrow> is_digit c \<or> (65 \<le> char_code c \<and> char_code c \<le> 90) \<or> (97 \<le> char_code c \<and> char_code c \<le> 122)"

definition isBase64 :: "string \<Rightarrow> bool" where
  "isBase64 s \<longleftrightarrow> padded_class (\<lambda>c. alnum_char c \<or> c = CHR ''-'' \<or> c = CHR ''_'') s
     \<or> padded_class (\<lambda>c. alnum_char c \<or> c = CHR ''+'' \<or> c = CHR ''/'') s"

datatype digest_encoding = Hex | B64

definition detectEncoding :: "string \<Rightarrow> digest_encoding option" where
  "detectEncoding s = (if isHex s then Some Hex else if isBase64 s then Some B64 else None)"

definition hex_digit :: "char \<Rightarrow> nat" where
  "hex_digit c = (if is_digit c then char_code c - 48 else if 97 \<le> char_code c then char_code c - 87 else char_code c - 55)"

text \<open>\<open>parseInt(s.substring(i, i + 2), 16)\<close>, on texts that passed the test for hexadecimal
  digits.\<close>

fun hex_pairs :: "string \<Rightarrow> bytes" where
  "hex_pairs (a # b # s) = of_nat (hex_digit a * 16 + hex_digit b) # hex_pairs s"
| "hex_pairs s = []"

definition hexToByteArray :: "string \<Rightarrow> js_error + bytes" where
  "hexToByteArray s =
     (if length s mod 2 \<noteq> 0 then Inl (Plain_Error ''hex string must have an even length'') else Inr (hex_pairs s))"

definition base64ToByteArray :: "string \<Rightarrow> js_error + bytes" where
  "base64ToByteArray s = atob (replace_char CHR ''_'' CHR ''/'' (replace_char CHR ''-'' CHR ''+'' s))"

definition toByteArray :: "string \<Rightarrow> js_error + bytes option" where
  "toByteArray s =
     (case detectEncoding s of
        Some Hex \<Rightarrow> rbind (hexToByteArray s) (\<lambda>b. Inr (Some b))
      | Some B64 \<Rightarrow> rbind (base64ToByteArray s) (\<lambda>b. Inr (Some b))
      | None \<Rightarrow> Inr None)"

definition parseSha256 :: "string \<Rightarrow> js_error + bytes option" where
  "parseSha256 s = toByteArray s"

definition digest_bytes :: "text_or_bytes \<Rightarrow> js_error + bytes option" where
  "digest_bytes x = (case x of Text s \<Rightarrow> parseSha256 s | Bytes b \<Rightarrow> Inr (Some b))"

definition checkSha256 :: "text_or_bytes \<Rightarrow> text_or_bytes \<Rightarrow> js_error + bool" where
  "checkSha256 a b =
     rbind (digest_bytes a) (\<lambda>x. rbind (digest_bytes b) (\<lambda>y.
       Inr (case (x, y) of
              (Some p, Some q) \<Rightarrow> length p = length q \<and> list_all (\<lambda>i. p ! i = q ! i) [0..<length p]
            | _ \<Rightarrow> False)))"

section \<open>Reading back\<close>

lemma checkSha256_bytes [simp]: "checkSha256 (Bytes a) (Bytes b) = Inr (a = b)"
  by (auto simp: checkSha256_def digest_bytes_def list_all_iff intro: nth_equalityI)

lemma code_plus_slash: "char_code c = 43 \<Longrightarrow> c = CHR ''+''" "char_code c = 47 \<Longrightarrow> c = CHR ''/''"
  using char_code_inj [of c "CHR ''+''"] char_code_inj [of c "CHR ''/''"] by (simp_all add: char_code_def)

lemma b64_val_class: "b64_val c \<noteq> None \<Longrightarrow> alnum_char c \<or> c = CHR ''+'' \<or> c = CHR ''/''"
  using code_plus_slash [of c] by (auto simp: b64_val_def alnum_char_def is_digit_def Let_def split: if_splits)

lemma alnum_plain: "alnum_char c \<Longrightarrow> c \<noteq> CHR ''='' \<and> c \<noteq> CHR ''-'' \<and> c \<noteq> CHR ''_''"
  by (auto simp: alnum_char_def is_digit_def char_code_def)

lemma hex_not_pad: "lower_hex c \<or> upper_hex c \<Longrightarrow> c \<noteq> CHR ''=''"
  by (auto simp: lower_hex_def upper_hex_def is_digit_def char_code_def)

lemma padded_class_pads:
  assumes "\<forall>c \<in> set s. P c \<and> c \<noteq> CHR ''=''" "k \<le> 2"
  shows "padded_class P (s @ replicate k CHR ''='')"
proof -
  have "takeWhile (\<lambda>c. c = CHR ''='') (rev s) = []" using assms(1) by (cases s rule: rev_cases) auto
  then have "takeWhile (\<lambda>c. c = CHR ''='') (rev (s @ replicate k CHR ''='')) = replicate k CHR ''=''"
    by (simp add: takeWhile_append takeWhile_replicate)
  then show ?thesis using assms by (simp add: padded_class_def list_all_iff)
qed

text \<open>A base64 text with a pad is never taken for hexadecimal digits.\<close>

lemma base64_parsed:
  assumes "\<forall>c \<in> set s. alnum_char c \<or> c = CHR ''+'' \<or> c = CHR ''/''" "0 < k" "k \<le> 2"
    "u = s @ replicate k CHR ''='' \<or> u = padded_to (s @ replicate k CHR ''='')"
  shows "parseSha256 u = rbind (atob (s @ replicate k CHR ''='')) (\<lambda>b. Inr (Some b))"
proof -
  let ?v = "s @ replicate k CHR ''=''" and ?f = "\<lambda>c. if c = CHR ''+'' then CHR ''-'' else if c = CHR ''/'' then CHR ''_'' else c"
  have p: "padded_to ?v = map ?f s @ replicate k CHR ''=''"
    by (auto simp: padded_to_def replace_char_def)
  have plain: "\<forall>c \<in> set s. c \<noteq> CHR ''-'' \<and> c \<noteq> CHR ''_'' \<and> c \<noteq> CHR ''=''"
    using assms(1) alnum_plain by auto
  have "CHR ''='' \<in> set u" using assms(2,4) unfolding p by auto
  then have "\<not> isHex u" using hex_not_pad unfolding isHex_def list_all_iff by blast
  moreover have "isBase64 u"
  proof (cases "u = ?v")
    case True
    then show ?thesis
      using padded_class_pads [of s "\<lambda>c. alnum_char c \<or> c = CHR ''+'' \<or> c = CHR ''/''" k] assms(1,3) plain
      unfolding isBase64_def by blast
  next
    case False
    have c: "\<forall>c \<in> set (map ?f s). (alnum_char c \<or> c = CHR ''-'' \<or> c = CHR ''_'') \<and> c \<noteq> CHR ''=''"
      using assms(1) plain by auto
    have u: "u = map ?f s @ replicate k CHR ''=''" using assms(4) False p by simp
    have "padded_class (\<lambda>c. alnum_char c \<or> c = CHR ''-'' \<or> c = CHR ''_'') u"
      unfolding u by (rule padded_class_pads [OF c assms(3)])
    then show ?thesis by (simp only: isBase64_def simp_thms)
  qed
  moreover have "replace_char CHR ''_'' CHR ''/'' (replace_char CHR ''-'' CHR ''+'' u) = ?v"
  proof (cases "u = ?v")
    case True
    then show ?thesis using plain by (simp add: replace_char_def comp_def map_idI)
  next
    case False
    then show ?thesis using assms(4) plain unfolding p by (simp add: replace_char_def comp_def map_idI)
  qed
  ultimately show ?thesis
    by (simp add: parseSha256_def toByteArray_def detectEncoding_def base64ToByteArray_def)
qed

definition hex_text :: "bytes \<Rightarrow> string" where
  "hex_text d = concat (map (\<lambda>b. [''0123456789abcdef'' ! (unat b div 16), ''0123456789abcdef'' ! (unat b mod 16)]) d)"

lemma hex_chars:
  assumes "n < 16"
  shows "lower_hex (''0123456789abcdef'' ! n)" "hex_digit (''0123456789abcdef'' ! n) = n"
proof -
  have "list_all (\<lambda>n. lower_hex (''0123456789abcdef'' ! n) \<and> hex_digit (''0123456789abcdef'' ! n) = n) [0..<16]"
    by (simp add: lower_hex_def hex_digit_def is_digit_def char_code_def upt_rec)
  with assms show "lower_hex (''0123456789abcdef'' ! n)" "hex_digit (''0123456789abcdef'' ! n) = n"
    by (simp_all add: list_all_iff)
qed

lemma hex_text_ok:
  "hex_pairs (hex_text d) = d" "list_all lower_hex (hex_text d)" "length (hex_text d) mod 2 = 0"
proof -
  show "hex_pairs (hex_text d) = d"
  proof (induction d)
    case (Cons b d)
    have "unat b div 16 < 16" "unat b mod 16 < 16" using unat_byte [of b] by (simp_all add: less_mult_imp_div_less)
    then show ?case using Cons by (simp add: hex_text_def hex_chars del: of_nat_add of_nat_mult)
  qed (simp add: hex_text_def)
  show "list_all lower_hex (hex_text d)"
  proof (induction d)
    case (Cons b d)
    have "unat b div 16 < 16" "unat b mod 16 < 16" using unat_byte [of b] by (simp_all add: less_mult_imp_div_less)
    then show ?case using Cons by (simp add: hex_text_def hex_chars)
  qed (simp add: hex_text_def)
  show "length (hex_text d) mod 2 = 0" by (induction d) (simp_all add: hex_text_def)
qed

lemma pads_of_length: "0 < pads_of d \<longleftrightarrow> length d mod 3 \<noteq> 0"
  by (induction d rule: pads_of.induct) auto

lemma digest_of_base64:
  assumes "length d mod 3 \<noteq> 0" "u = btoa d \<or> padded_encode (Bytes d) = Inr u"
  shows "parseSha256 u = Inr (Some d)"
proof -
  let ?s = "map b64_char (digits_of d)"
  have c: "\<forall>c \<in> set ?s. alnum_char c \<or> c = CHR ''+'' \<or> c = CHR ''/''"
    using digits_of_bound [of d] b64_val_class by force
  have "u = ?s @ replicate (pads_of d) CHR ''='' \<or> u = padded_to (?s @ replicate (pads_of d) CHR ''='')"
    using assms(2) by (auto simp: padded_encode_def base64_encode_def btoa_digits)
  from base64_parsed [OF c _ _ this] show ?thesis
    using assms(1) pads_of_length [of d] digits_length [of d] atob_btoa [of d]
    by (simp add: btoa_digits [symmetric])
qed

text \<open>
  A digest reads back from each way it is written: as the padded URL form of base64, which the
  store writes, as standard base64, and as hexadecimal digits. The base64 forms need a pad
  to be told from hexadecimal digits, and the 32 bytes of SHA-256 have one.
\<close>
theorem digests_read_back:
  assumes "length d mod 3 \<noteq> 0"
  shows "rbind (padded_encode (Bytes d)) parseSha256 = Inr (Some d) \<and> parseSha256 (btoa d) = Inr (Some d)
    \<and> parseSha256 (hex_text d) = Inr (Some d)"
proof -
  obtain u where u: "padded_encode (Bytes d) = Inr u" by (simp add: padded_encode_def base64_encode_def)
  have "hex_text d \<noteq> []" using assms by (cases d) (simp_all add: hex_text_def)
  then have "isHex (hex_text d)" using hex_text_ok [of d] by (auto simp: isHex_def list_all_iff)
  then have "parseSha256 (hex_text d) = Inr (Some d)"
    using hex_text_ok [of d] by (simp add: parseSha256_def toByteArray_def detectEncoding_def hexToByteArray_def)
  then show ?thesis using u digest_of_base64 [OF assms] by simp
qed

theorem digests_read_back_witness:
  "parseSha256 ''-_8='' = Inr (Some [251, 255])"
proof -
  have "padded_encode (Bytes [251, 255]) = Inr ''-_8=''" by code_simp
  then show ?thesis using digests_read_back [of "[251, 255]"] by simp
qed

end
