(* ===== verification/Object_Store.thy ===== *)
theory Object_Store
  imports Kv_Watch Sha_Digest Data_Buffer
begin

text \<open>
  The object store, \<open>jetstream/objectstore.ts\<close>: an object is cut into chunks that are messages
  of a stream, and described by a last message under a subject made from its name. Its
  description travels as JSON. The hash function is a parameter that maps the bytes to their
  digest; the code feeds it piece by piece, so the state of the hash is what it was fed.
  Identifiers and the clock are arguments.
\<close>

section \<open>Names and subjects\<close>

definition digestType :: string where
  "digestType = ''SHA-256=''"

definition objectStoreStreamName :: "string \<Rightarrow> js_error + string" where
  "objectStoreStreamName name = rbind (validateBucket name) (\<lambda>_. Inr (osPrefix @ name))"

definition objectStoreBucketName :: "string \<Rightarrow> string" where
  "objectStoreBucketName s = (if starts_with osPrefix s then drop 4 s else s)"

record object_store =
  os_name :: string
  os_stream :: string

definition chunkSubject :: "object_store \<Rightarrow> string \<Rightarrow> string" where
  "chunkSubject os i = ''$O.'' @ os_name os @ ''.C.'' @ i"

definition metaSubject :: "object_store \<Rightarrow> string \<Rightarrow> js_error + string" where
  "metaSubject os n = rbind (padded_encode (Text n)) (\<lambda>e. Inr (''$O.'' @ os_name os @ ''.M.'' @ e))"

definition metaSubjectAll :: "object_store \<Rightarrow> string" where
  "metaSubjectAll os = ''$O.'' @ os_name os @ ''.M.>''"

definition checkNotEmpty :: "string \<Rightarrow> js_error + unit" where
  "checkNotEmpty n = require (n \<noteq> []) ''name cannot be empty''"

section \<open>The status of a store\<close>

record os_status =
  ost_si :: json

definition ost_config :: "string \<Rightarrow> os_status \<Rightarrow> json option" where
  "ost_config k s = fld k (case fld ''config'' (ost_si s) of Some c \<Rightarrow> c | None \<Rightarrow> J_Null)"

definition ost_backingStore :: "os_status \<Rightarrow> string" where
  "ost_backingStore s = ''JetStream''"

definition ost_bucket :: "os_status \<Rightarrow> string" where
  "ost_bucket s = objectStoreBucketName (text_or_empty (ost_config ''name'' s))"

definition ost_description :: "os_status \<Rightarrow> json option" where
  "ost_description s = either (ost_config ''description'' s) (Some (J_Str []))"

definition ost_ttl :: "os_status \<Rightarrow> json option" where
  "ost_ttl = ost_config ''max_age''"

definition ost_storage :: "os_status \<Rightarrow> json option" where
  "ost_storage = ost_config ''storage''"

definition ost_replicas :: "os_status \<Rightarrow> json option" where
  "ost_replicas = ost_config ''num_replicas''"

definition ost_sealed :: "os_status \<Rightarrow> json option" where
  "ost_sealed = ost_config ''sealed''"

definition ost_size :: "os_status \<Rightarrow> json option" where
  "ost_size s = fld ''bytes'' (case fld ''state'' (ost_si s) of Some c \<Rightarrow> c | None \<Rightarrow> J_Null)"

definition ost_metadata :: "os_status \<Rightarrow> json option" where
  "ost_metadata = ost_config ''metadata''"

definition ost_compression :: "os_status \<Rightarrow> bool" where
  "ost_compression s = (let c = ost_config ''compression'' s in truthy c \<and> c \<noteq> Some (J_Str ''none''))"

section \<open>The description of an object\<close>

text \<open>What is asked of a description: \<open>ObjectInfoImpl\<close> over the JSON value.\<close>

definition oi_description :: "json \<Rightarrow> json option" where
  "oi_description i = either (fld ''description'' i) (Some (J_Str []))"

definition oi_deleted :: "json \<Rightarrow> json option" where
  "oi_deleted i = either (fld ''deleted'' i) (Some (J_Bool False))"

definition oi_metadata :: "json \<Rightarrow> json option" where
  "oi_metadata i = (if truthy (fld ''metadata'' i) then fld ''metadata'' i else Some (J_Obj []))"

definition header_values_of :: "json \<Rightarrow> string list" where
  "header_values_of v = (case v of J_Arr xs \<Rightarrow> map (\<lambda>x. text_or_empty (Some x)) xs | _ \<Rightarrow> [])"

definition oi_headers :: "json \<Rightarrow> msg_hdrs" where
  "oi_headers i = hdr_from_record (case fld ''headers'' i of
     Some (J_Obj m) \<Rightarrow> map (\<lambda>(k, v). (k, header_values_of v)) m | _ \<Rightarrow> [])"

definition oi_isLink :: "json \<Rightarrow> bool" where
  "oi_isLink i = (case fld ''options'' i of Some opts \<Rightarrow> \<not> nullish (fld ''link'' opts) | None \<Rightarrow> False)"

record object_meta =
  om_name :: "string option"
  om_description :: "string option"
  om_headers :: "msg_hdrs option"
  om_options :: "json option"
  om_metadata :: "json option"

fun record_json :: "(string \<times> (js_error + string list)) list \<Rightarrow> js_error + (string \<times> json) list" where
  "record_json [] = Inr []"
| "record_json ((k, r) # m) = rbind r (\<lambda>vs. rbind (record_json m) (\<lambda>m'. Inr ((k, J_Arr (map J_Str vs)) # m')))"

text \<open>The parts of the description as a list of properties; \<open>None\<close> is a property whose value is
  \<open>undefined\<close>, which takes the place of an earlier value when it is copied.\<close>

definition toServerObjectStoreMeta :: "object_meta \<Rightarrow> js_error + (string \<times> json option) list" where
  "toServerObjectStoreMeta m =
     rbind (case om_headers m of None \<Rightarrow> Inr []
            | Some h \<Rightarrow> rbind (record_json (hdr_to_record h)) (\<lambda>r. Inr [(''headers'', Some (J_Obj r))]))
       (\<lambda>hs. Inr ([(''name'', map_option J_Str (om_name m)),
                   (''description'', Some (J_Str (case om_description m of Some d \<Rightarrow> d | None \<Rightarrow> []))),
                   (''options'', om_options m), (''metadata'', om_metadata m)] @ hs))"

definition assign_props :: "json \<Rightarrow> (string \<times> json option) list \<Rightarrow> json" where
  "assign_props j ps = fold (\<lambda>(k, v). set_or_drop k v) ps j"

text \<open>A value in a template text.\<close>

definition template_text :: "json option \<Rightarrow> string" where
  "template_text v = (case v of Some (J_Str s) \<Rightarrow> s | Some (J_Num n) \<Rightarrow> show_int n | Some J_Null \<Rightarrow> ''null''
     | Some (J_Bool b) \<Rightarrow> (if b then ''true'' else ''false'') | None \<Rightarrow> ''undefined'' | _ \<Rightarrow> ''[object Object]'')"

definition rawInfo ::
  "'w api_env \<Rightarrow> api \<Rightarrow> object_store \<Rightarrow> string \<Rightarrow> 'w \<Rightarrow> 'w \<times> (js_error + json option)" where
  "rawInfo E A os name =
     checked (rbind (checkNotEmpty name) (\<lambda>_. metaSubject os name)) (\<lambda>subj w.
       case and_then (stream_getMessage E A (os_stream os) (J_Obj [(''last_by_subj'', J_Str subj)]) w)
              (\<lambda>m w1. (w1, rbind (sm_data m) (\<lambda>d. rbind (json_decode E d) (\<lambda>soi.
                 case sm_seq m of Some n \<Rightarrow> set_member ''revision'' (J_Num n) soi
                 | None \<Rightarrow> rbind (set_member ''revision'' J_Null soi) (\<lambda>j. Inr (delete_prop ''revision'' j)))))) of
         (w1, Inr soi) \<Rightarrow> (w1, Inr (Some soi))
       | (w1, Inl e) \<Rightarrow> (w1, if is_nats_error e \<and> err_code e = ''404'' then Inr None else Inl e))"

section \<open>The stream of a store\<close>

definition os_si ::
  "'w api_env \<Rightarrow> api \<Rightarrow> object_store \<Rightarrow> json option \<Rightarrow> 'w \<Rightarrow> ('w \<times> (js_error + json option)) option" where
  "os_si E A os opts w =
     map_option (\<lambda>(w1, r). (w1, case r of
         Inr si \<Rightarrow> Inr (Some si)
       | Inl e \<Rightarrow> if is_nats_error e \<and> err_code e = ''404'' then Inr None else Inl e))
       (stream_info E A (os_stream os) opts w)"

definition os_status_of ::
  "'w api_env \<Rightarrow> api \<Rightarrow> object_store \<Rightarrow> json option \<Rightarrow> 'w \<Rightarrow> ('w \<times> (js_error + os_status)) option" where
  "os_status_of E A os opts w =
     map_option (\<lambda>(w1, r). (w1, rbind r (\<lambda>si. case si of
         None \<Rightarrow> throw ''object store not found'' | Some i \<Rightarrow> Inr \<lparr>ost_si = i\<rparr>)))
       (os_si E A os opts w)"

definition os_seal :: "'w api_env \<Rightarrow> api \<Rightarrow> object_store \<Rightarrow> 'w \<Rightarrow> ('w \<times> (js_error + os_status)) option" where
  "os_seal E A os w =
     (case os_si E A os None w of
        None \<Rightarrow> None
      | Some (w1, Inl e) \<Rightarrow> Some (w1, Inl e)
      | Some (w1, Inr None) \<Rightarrow> Some (w1, throw ''object store not found'')
      | Some (w1, Inr (Some si)) \<Rightarrow>
          (case rbind (member ''config'' si) (\<lambda>c. case c of
                  None \<Rightarrow> throw ''Cannot set properties of undefined''
                | Some cfg \<Rightarrow> set_member ''sealed'' (J_Bool True) cfg) of
             Inl e \<Rightarrow> Some (w1, Inl e)
           | Inr cfg \<Rightarrow> map_option (\<lambda>(w2, r). (w2, rbind r (\<lambda>i. Inr \<lparr>ost_si = i\<rparr>)))
                          (stream_update E A (os_stream os) cfg w1)))"

definition os_destroy :: "'w api_env \<Rightarrow> api \<Rightarrow> object_store \<Rightarrow> 'w \<Rightarrow> 'w \<times> (js_error + json option)" where
  "os_destroy E A os = stream_delete E A (os_stream os)"

definition os_stream_config :: "object_store \<Rightarrow> json \<Rightarrow> json" where
  "os_stream_config os opts0 =
     (let max_age = (if truthy (fld ''ttl'' opts0) then the (fld ''ttl'' opts0) else J_Num 0);
          opts = delete_prop ''ttl'' opts0;
          sc1 = put_prop ''name'' (J_Str (os_stream os)) (assign (J_Obj [(''max_age'', max_age)]) opts);
          sc2 = put_prop ''num_replicas'' (the (either (fld ''replicas'' opts) (Some (J_Num 1)))) sc1;
          sc3 = put_prop ''subjects'' (J_Arr [J_Str (''$O.'' @ os_name os @ ''.C.>''), J_Str (''$O.'' @ os_name os @ ''.M.>'')])
                 (put_prop ''discard'' (J_Str ''new'') (put_prop ''allow_rollup_hdrs'' (J_Bool True)
                   (put_prop ''allow_direct'' (J_Bool True) sc2)));
          sc4 = put_if ''metadata'' (fld ''metadata'' opts) (put_if ''placement'' (fld ''placement'' opts) sc3)
      in case fld ''compression'' opts of
           Some (J_Bool x) \<Rightarrow> put_prop ''compression'' (J_Str (if x then ''s2'' else ''none'')) sc4 | _ \<Rightarrow> sc4)"

text \<open>An error of the look-up other than the missing stream is not passed on.\<close>

definition os_init ::
  "'w api_env \<Rightarrow> api \<Rightarrow> json \<Rightarrow> object_store \<Rightarrow> 'w \<Rightarrow> ('w \<times> (js_error + object_store)) option" where
  "os_init E A opts os0 w =
     (case objectStoreStreamName (os_name os0) of
        Inl e \<Rightarrow> Some (w, Inl e)
      | Inr n \<Rightarrow>
          let os = os0\<lparr>os_stream := n\<rparr> in
          (case stream_info E A n None w of
             None \<Rightarrow> None
           | Some (w1, Inr _) \<Rightarrow> Some (w1, Inr os)
           | Some (w1, Inl e) \<Rightarrow>
               if err_message e = ''stream not found''
               then Some (and_then (stream_add E A (os_stream_config os opts) w1) (\<lambda>_ w2. (w2, Inr os)))
               else Some (w1, Inr os)))"

definition os_create ::
  "'w api_env \<Rightarrow> api \<Rightarrow> string \<Rightarrow> json \<Rightarrow> 'w \<Rightarrow> ('w \<times> (js_error + object_store)) option" where
  "os_create E A name opts w = os_init E A opts \<lparr>os_name = name, os_stream = []\<rparr> w"

section \<open>Putting an object\<close>

text \<open>The running put: the buffer, what the hash was fed, the counts of the description and the
  outcomes of the messages that were published.\<close>

record os_put =
  up_db :: data_buffer
  up_hashed :: bytes
  up_size :: nat
  up_chunks :: nat
  up_proms :: "(js_error + json) list"

definition new_put :: os_put where
  "new_put = \<lparr>up_db = new_data_buffer, up_hashed = [], up_size = 0, up_chunks = 0, up_proms = []\<rparr>"

definition publish_chunk ::
  "'w api_env \<Rightarrow> api \<Rightarrow> (int \<Rightarrow> 'w \<Rightarrow> 'w) \<Rightarrow> string \<Rightarrow> int \<Rightarrow> nat \<Rightarrow> nat option \<Rightarrow> os_put \<Rightarrow> 'w \<Rightarrow> os_put \<times> 'w" where
  "publish_chunk E A pause subj tmo n amount st w =
     (let (db, payload) = dq_drain amount (up_db st);
          (w1, r) = js_publish E A pause subj payload (no_pub_options\<lparr>pb_timeout := Some tmo\<rparr>) w
      in (st\<lparr>up_db := db, up_hashed := up_hashed st @ payload, up_size := up_size st + n,
             up_chunks := up_chunks st + 1, up_proms := up_proms st @ [r]\<rparr>, w1))"

text \<open>The loop over full chunks would not end for a chunk size of 0.\<close>

partial_function (option) put_full ::
  "'w api_env \<Rightarrow> api \<Rightarrow> (int \<Rightarrow> 'w \<Rightarrow> 'w) \<Rightarrow> string \<Rightarrow> int \<Rightarrow> nat \<Rightarrow> os_put \<Rightarrow> 'w \<Rightarrow> (os_put \<times> 'w) option" where
  [code]: "put_full E A pause subj tmo n st w =
     (if dq_size (up_db st) > n
      then (let (st1, w1) = publish_chunk E A pause subj tmo n (Some n) st w in put_full E A pause subj tmo n st1 w1)
      else Some (st, w))"

text \<open>The reader gives arrays until it is done, or fails.\<close>

fun put_reads ::
  "'w api_env \<Rightarrow> api \<Rightarrow> (int \<Rightarrow> 'w \<Rightarrow> 'w) \<Rightarrow> string \<Rightarrow> int \<Rightarrow> nat \<Rightarrow> (js_error + bytes) list \<Rightarrow> os_put \<Rightarrow> 'w
    \<Rightarrow> (os_put \<times> 'w \<times> js_error option) option" where
  "put_reads E A pause subj tmo n [] st w = Some (st, w, None)"
| "put_reads E A pause subj tmo n (Inl e # rs) st w = Some (st, w, Some e)"
| "put_reads E A pause subj tmo n (Inr v # rs) st w =
     (case put_full E A pause subj tmo n (st\<lparr>up_db := dq_fill v [] (up_db st)\<rparr>) w of
        None \<Rightarrow> None
      | Some (st1, w1) \<Rightarrow> put_reads E A pause subj tmo n rs st1 w1)"

definition put_last ::
  "'w api_env \<Rightarrow> api \<Rightarrow> (int \<Rightarrow> 'w \<Rightarrow> 'w) \<Rightarrow> string \<Rightarrow> int \<Rightarrow> os_put \<Rightarrow> 'w \<Rightarrow> os_put \<times> 'w" where
  "put_last E A pause subj tmo st w =
     (if dq_size (up_db st) > 0
      then publish_chunk E A pause subj tmo (length (snd (dq_drain None (up_db st)))) None st w else (st, w))"

definition chunk_size :: "nat option \<Rightarrow> json option \<Rightarrow> nat" where
  "chunk_size max_payload opts =
     (let maxPayload = (case max_payload of Some n \<Rightarrow> if n \<noteq> 0 then n else 1024 | None \<Rightarrow> 1024);
          maxChunk = (case opts of
              Some os \<Rightarrow> (case fld ''max_chunk_size'' os of
                  Some (J_Num n) \<Rightarrow> if n \<noteq> 0 then nat n else 128 * 1024 | _ \<Rightarrow> 128 * 1024)
            | None \<Rightarrow> 128 * 1024)
      in if maxChunk > maxPayload then maxPayload else maxChunk)"

definition rollup_headers :: "msg_hdrs \<Rightarrow> js_error + msg_hdrs" where
  "rollup_headers h = set_header ''Nats-Rollup'' ''sub'' h"

definition put_meta_headers :: "int option \<Rightarrow> js_error + msg_hdrs" where
  "put_meta_headers previousRevision =
     rbind (headers_fn 0 []) (\<lambda>h0.
     rbind (set_number ExpectedLastSubjectSequenceHdr previousRevision h0) rollup_headers)"

text \<open>The description of what was put, once all chunks are there.\<close>

definition put_info :: "(bytes \<Rightarrow> bytes) \<Rightarrow> string \<Rightarrow> json \<Rightarrow> os_put \<Rightarrow> js_error + json" where
  "put_info SHA mtime info st =
     rbind (padded_encode (Bytes (SHA (up_hashed st)))) (\<lambda>digest. Inr
       (put_prop ''deleted'' (J_Bool False) (put_prop ''digest'' (J_Str (digestType @ digest))
         (put_prop ''mtime'' (J_Str mtime) (put_prop ''chunks'' (J_Num (int (up_chunks st)))
           (put_prop ''size'' (J_Num (int (up_size st))) info))))))"

definition put_done ::
  "'w api_env \<Rightarrow> api \<Rightarrow> (int \<Rightarrow> 'w \<Rightarrow> 'w) \<Rightarrow> (bytes \<Rightarrow> bytes) \<Rightarrow> object_store \<Rightarrow> string \<Rightarrow> string \<Rightarrow> int \<Rightarrow> int option
    \<Rightarrow> string \<Rightarrow> json \<Rightarrow> json option \<Rightarrow> os_put \<Rightarrow> 'w \<Rightarrow> 'w \<times> (js_error + json)" where
  "put_done E A pause SHA os subj metaSubj tmo previousRevision mtime info0 old st0 w0 =
     (let (st, w) = put_last E A pause subj tmo st0 w0 in
      case List.find Sum_Type.isl (up_proms st) of
        Some (Inl e) \<Rightarrow> (w, Inl e)
      | _ \<Rightarrow>
          and_then (checked (rbind (put_info SHA mtime info0 st) (\<lambda>info.
              rbind (put_meta_headers previousRevision) (\<lambda>h. Inr (info, h))))
            (\<lambda>(info, h) w1.
               and_then (js_publish E A pause metaSubj (json_encode E (Some info))
                   (no_pub_options\<lparr>pb_timeout := Some tmo, pb_headers := Some h\<rparr>) w1)
                 (\<lambda>pa w2. (w2, rbind (member ''seq'' pa) (\<lambda>s. Inr (set_or_drop ''revision'' s info))))) w)
          (\<lambda>info w3.
             ((case old of
                 Some i \<Rightarrow> fst (stream_purge E A (os_stream os)
                   (Some (J_Obj [(''filter'', J_Str (''$O.'' @ os_name os @ ''.C.'' @ template_text (fld ''nuid'' i)))])) w3)
               | None \<Rightarrow> w3), Inr info)))"

text \<open>\<open>_put\<close>; what fails after the subjects are known removes the chunks.\<close>

definition os_put_object ::
  "'w api_env \<Rightarrow> api \<Rightarrow> (int \<Rightarrow> 'w \<Rightarrow> 'w) \<Rightarrow> (bytes \<Rightarrow> bytes) \<Rightarrow> nat option \<Rightarrow> object_store \<Rightarrow> object_meta
    \<Rightarrow> (js_error + bytes) list \<Rightarrow> int option \<Rightarrow> int option \<Rightarrow> string \<Rightarrow> string \<Rightarrow> 'w \<Rightarrow> ('w \<times> (js_error + json)) option" where
  "os_put_object E A pause SHA max_payload os meta rs tmo0 previousRevision i mtime w =
     (let tmo = or_else tmo0 (ap_timeout A);
          n = chunk_size max_payload (om_options meta);
          meta1 = meta\<lparr>om_options := Some (put_prop ''max_chunk_size'' (J_Num (int n))
                     (if truthy (om_options meta) then the (om_options meta) else J_Obj []))\<rparr>;
          name = (case om_name meta of Some s \<Rightarrow> s | None \<Rightarrow> []);
          subj = chunkSubject os i
      in case rawInfo E A os name w of
           (w1, Inl e) \<Rightarrow> Some (w1, Inl e)
         | (w1, Inr old) \<Rightarrow>
             (case rbind (metaSubject os name) (\<lambda>metaSubj. rbind (toServerObjectStoreMeta meta1) (\<lambda>ps. Inr (metaSubj, ps))) of
                Inl e \<Rightarrow> Some (w1, Inl e)
              | Inr (metaSubj, ps) \<Rightarrow>
                  let info = assign_props (J_Obj [(''bucket'', J_Str (os_name os)), (''nuid'', J_Str i),
                        (''size'', J_Num 0), (''chunks'', J_Num 0)]) ps;
                      failed = (\<lambda>e w. and_then (stream_purge E A (os_stream os) (Some (J_Obj [(''filter'', J_Str subj)])) w)
                        (\<lambda>_ w2. (w2, Inl e)))
                  in (case put_reads E A pause subj tmo n rs new_put w1 of
                        None \<Rightarrow> None
                      | Some (st, w2, Some e) \<Rightarrow> Some (failed e w2)
                      | Some (st, w2, None) \<Rightarrow>
                          (case put_done E A pause SHA os subj metaSubj tmo previousRevision mtime info old st w2 of
                             (w3, Inl e) \<Rightarrow> Some (failed e w3)
                           | (w3, Inr info1) \<Rightarrow> Some (w3, Inr info1)))))"

definition os_put ::
  "'w api_env \<Rightarrow> api \<Rightarrow> (int \<Rightarrow> 'w \<Rightarrow> 'w) \<Rightarrow> (bytes \<Rightarrow> bytes) \<Rightarrow> nat option \<Rightarrow> object_store \<Rightarrow> object_meta
    \<Rightarrow> (js_error + bytes) list \<Rightarrow> int option \<Rightarrow> int option \<Rightarrow> string \<Rightarrow> string \<Rightarrow> 'w \<Rightarrow> ('w \<times> (js_error + json)) option" where
  "os_put E A pause SHA max_payload os meta rs tmo previousRevision i mtime w =
     (if (case om_options meta of Some opts \<Rightarrow> truthy (fld ''link'' opts) | None \<Rightarrow> False)
      then Some (w, throw ''link cannot be set when putting the object in bucket'')
      else os_put_object E A pause SHA max_payload os meta rs tmo previousRevision i mtime w)"

definition os_putBlob where
  "os_putBlob E A pause SHA max_payload os meta data tmo previousRevision i mtime w =
     os_put E A pause SHA max_payload os meta [Inr (case data of Some b \<Rightarrow> b | None \<Rightarrow> [])] tmo previousRevision i mtime w"

section \<open>Getting an object\<close>

text \<open>What \<open>get\<close> answers: an empty object, or the digest to check and the subject of the chunks
  that an ordered consumer will deliver.\<close>

datatype object_result = Empty_Object json | Chunked_Object json bytes string

definition object_digest :: "json \<Rightarrow> js_error + bytes" where
  "object_digest info =
     (case fld ''digest'' info of
        Some (J_Str s) \<Rightarrow>
          if \<not> starts_with digestType s then throw (''unknown digest type: '' @ s)
          else rbind (parseSha256 (drop 8 s)) (\<lambda>d. case d of
                 Some b \<Rightarrow> Inr b | None \<Rightarrow> throw (''unable to parse digest: '' @ s))
      | None \<Rightarrow> throw ''Cannot read properties of undefined''
      | _ \<Rightarrow> throw ''startsWith is not a function'')"

definition open_object :: "object_store \<Rightarrow> json \<Rightarrow> js_error + object_result" where
  "open_object os info =
     rbind (object_digest info) (\<lambda>d. Inr
       (if fld ''size'' info = Some (J_Num 0) then Empty_Object info
        else Chunked_Object info d (''$O.'' @ os_name os @ ''.C.'' @ template_text (fld ''nuid'' info))))"

definition link_of :: "json \<Rightarrow> json option" where
  "link_of info = (case fld ''options'' info of
     Some opts \<Rightarrow> if truthy (Some opts) \<and> truthy (fld ''link'' opts) then fld ''link'' opts else None
   | None \<Rightarrow> None)"

text \<open>Links are followed from store to store, and a cycle of links is followed for ever.\<close>

partial_function (option) os_get ::
  "'w api_env \<Rightarrow> api \<Rightarrow> object_store \<Rightarrow> string \<Rightarrow> 'w \<Rightarrow> ('w \<times> (js_error + object_result option)) option" where
  [code]: "os_get E A os name w =
     (case rawInfo E A os name w of
        (w1, Inl e) \<Rightarrow> Some (w1, Inl e)
      | (w1, Inr None) \<Rightarrow> Some (w1, Inr None)
      | (w1, Inr (Some info)) \<Rightarrow>
          if truthy (fld ''deleted'' info) then Some (w1, Inr None)
          else (case link_of info of
                  None \<Rightarrow> Some (w1, rbind (open_object os info) (\<lambda>r. Inr (Some r)))
                | Some lnk \<Rightarrow>
                    if \<not> truthy (fld ''name'' lnk) then Some (w1, throw ''link is a bucket'')
                    else if fld ''bucket'' lnk \<noteq> Some (J_Str (os_name os))
                    then (case os_create E A (template_text (fld ''bucket'' lnk)) (J_Obj []) w1 of
                            None \<Rightarrow> None
                          | Some (w2, Inl e) \<Rightarrow> Some (w2, Inl e)
                          | Some (w2, Inr os2) \<Rightarrow> os_get E A os2 (text_or_empty (fld ''name'' lnk)) w2)
                    else os_get E A os (text_or_empty (fld ''name'' lnk)) w1))"

text \<open>The stream of bytes the caller reads, with what was put into it and its state, and what
  the hash was fed.\<close>

datatype reader_state = Readable | Closed | Errored js_error

record object_reader =
  or_enqueued :: "bytes list"
  or_hashed :: bytes
  or_state :: reader_state

definition new_reader :: object_reader where
  "new_reader = \<lparr>or_enqueued = [], or_hashed = [], or_state = Readable\<rparr>"

definition reader_enqueue :: "bytes \<Rightarrow> object_reader \<Rightarrow> js_error + object_reader" where
  "reader_enqueue c r = (if or_state r = Readable then Inr (r\<lparr>or_enqueued := or_enqueued r @ [c]\<rparr>)
     else throw ''Invalid state: the stream is not readable'')"

definition reader_close :: "object_reader \<Rightarrow> js_error + object_reader" where
  "reader_close r = (if or_state r = Readable then Inr (r\<lparr>or_state := Closed\<rparr>)
     else throw ''Invalid state: the stream is not readable'')"

definition reader_error :: "js_error \<Rightarrow> object_reader \<Rightarrow> object_reader" where
  "reader_error e r = (if or_state r = Readable then r\<lparr>or_state := Errored e\<rparr> else r)"

text \<open>The message shows the digest of the description twice, the second time as the bytes that were
  read from it.\<close>

definition corrupt_object :: "string \<Rightarrow> bytes \<Rightarrow> js_error" where
  "corrupt_object dt digest =
     Plain_Error (''received a corrupt object, digests do not match received: '' @ dt @ '' calculated ''
       @ join_on CHR '','' (map (\<lambda>b. show_nat (unat b)) digest))"

text \<open>One message of the loop of \<open>get\<close>; the flag says that it unsubscribed.\<close>

definition chunk_message :: "(bytes \<Rightarrow> bytes) \<Rightarrow> string \<Rightarrow> bytes \<Rightarrow> js_msg \<Rightarrow> object_reader \<Rightarrow> object_reader \<times> (js_error + bool)" where
  "chunk_message SHA dt digest m r =
     (let data = msg_data (jm_msg m);
          r1 = (if length data > 0 then r\<lparr>or_hashed := or_hashed r @ data\<rparr> else r)
      in case (if length data > 0 then reader_enqueue data r1 else Inr r1) of
           Inl e \<Rightarrow> (r1, Inl e)
         | Inr r2 \<Rightarrow>
             (case info_pending m of
                Inl e \<Rightarrow> (r2, Inl e)
              | Inr n \<Rightarrow>
                  if n \<noteq> Some 0 then (r2, Inr False)
                  else (case checkSha256 (Bytes digest) (Bytes (SHA (or_hashed r2))) of
                          Inl e \<Rightarrow> (r2, Inl e)
                        | Inr ok \<Rightarrow>
                            if \<not> ok then (reader_error (corrupt_object dt digest) r2, Inr True)
                            else (case reader_close r2 of Inl e \<Rightarrow> (r2, Inl e) | Inr r3 \<Rightarrow> (r3, Inr True)))))"

text \<open>The loop with the messages its iterator gives until it ends: the reader, whether it
  unsubscribed, and the error with which it ended.\<close>

fun get_loop :: "(bytes \<Rightarrow> bytes) \<Rightarrow> string \<Rightarrow> bytes \<Rightarrow> js_msg list \<Rightarrow> object_reader \<Rightarrow> bool
    \<Rightarrow> object_reader \<times> bool \<times> js_error option" where
  "get_loop SHA dt digest [] r u = (r, u, None)"
| "get_loop SHA dt digest (m # ms) r u =
     (case chunk_message SHA dt digest m r of
        (r1, Inl e) \<Rightarrow> (reader_error e r1, u, Some e)
      | (r1, Inr v) \<Rightarrow> get_loop SHA dt digest ms r1 (u \<or> v))"

text \<open>\<open>getBlob\<close>, which waits for the loop and for the end of the stream: nothing while the stream
  stays readable.\<close>

definition blob_of :: "object_reader \<Rightarrow> js_error option \<Rightarrow> (js_error + bytes) option" where
  "blob_of r err =
     (case err of
        Some e \<Rightarrow> Some (Inl e)
      | None \<Rightarrow> (case or_state r of
          Readable \<Rightarrow> None
        | Errored e \<Rightarrow> Some (Inl e)
        | Closed \<Rightarrow> Some (Inr (snd (dq_drain None (fold (\<lambda>c d. if c \<noteq> [] then dq_fill c [] d else d) (or_enqueued r) new_data_buffer))))))"

section \<open>Links, deletes and updates\<close>

definition no_meta :: object_meta where
  "no_meta = \<lparr>om_name = None, om_description = None, om_headers = None, om_options = None, om_metadata = None\<rparr>"

definition os_linkStore where
  "os_linkStore E A pause SHA max_payload os name bucket i mtime w =
     (case checkNotEmpty name of
        Inl e \<Rightarrow> Some (w, Inl e)
      | Inr _ \<Rightarrow> os_put_object E A pause SHA max_payload os
          (no_meta\<lparr>om_name := Some name, om_options := Some (J_Obj [(''link'', J_Obj [(''bucket'', J_Str (os_name bucket))])])\<rparr>)
          [] None None i mtime w)"

definition link_meta :: "string \<Rightarrow> json \<Rightarrow> json" where
  "link_meta n info =
     (let b = set_or_drop ''bucket'' (fld ''bucket'' info)
      in b (J_Obj [(''name'', J_Str n), (''options'', J_Obj [(''link'', b (set_or_drop ''name'' (fld ''name'' info) (J_Obj [])))])]))"

definition os_link ::
  "'w api_env \<Rightarrow> api \<Rightarrow> (int \<Rightarrow> 'w \<Rightarrow> 'w) \<Rightarrow> object_store \<Rightarrow> string \<Rightarrow> json \<Rightarrow> 'w \<Rightarrow> 'w \<times> (js_error + json option)" where
  "os_link E A pause os name info =
     checked (rbind (checkNotEmpty name) (\<lambda>_.
         rbind (require (\<not> truthy (oi_deleted info)) ''src object is deleted'') (\<lambda>_.
           require (\<not> oi_isLink info) ''src object is a link'')))
       (\<lambda>_ w. and_then (rawInfo E A os name w) (\<lambda>dest.
          checked (rbind (require (\<not> (case dest of Some d \<Rightarrow> \<not> truthy (fld ''deleted'' d) | None \<Rightarrow> False))
                      ''an object already exists with that name'') (\<lambda>_. metaSubject os name))
            (\<lambda>metaSubj w1.
               and_then (js_publish E A pause metaSubj (te_encode (ae_stringify E (link_meta name info))) no_pub_options w1)
                 (\<lambda>_. rawInfo E A os name))))"

definition os_delete ::
  "'w api_env \<Rightarrow> api \<Rightarrow> (int \<Rightarrow> 'w \<Rightarrow> 'w) \<Rightarrow> object_store \<Rightarrow> string \<Rightarrow> 'w \<Rightarrow> 'w \<times> (js_error + json)" where
  "os_delete E A pause os name w =
     and_then (rawInfo E A os name w) (\<lambda>found. case found of
         None \<Rightarrow> (\<lambda>w1. (w1, Inr (J_Obj [(''purged'', J_Num 0), (''success'', J_Bool False)])))
       | Some info0 \<Rightarrow>
           let info = put_prop ''digest'' (J_Str []) (put_prop ''chunks'' (J_Num 0)
                 (put_prop ''size'' (J_Num 0) (put_prop ''deleted'' (J_Bool True) info0)))
           in checked (rbind (rbind (headers_fn 0 []) rollup_headers) (\<lambda>h.
                  rbind (metaSubject os (template_text (fld ''name'' info))) (\<lambda>s. Inr (h, s))))
                (\<lambda>(h, s) w1.
                   and_then (js_publish E A pause s (json_encode E (Some info)) (no_pub_options\<lparr>pb_headers := Some h\<rparr>) w1)
                     (\<lambda>_. stream_purge E A (os_stream os)
                        (Some (J_Obj [(''filter'', J_Str (chunkSubject os (template_text (fld ''nuid'' info))))])))))"

definition os_update ::
  "'w api_env \<Rightarrow> api \<Rightarrow> (int \<Rightarrow> 'w \<Rightarrow> 'w) \<Rightarrow> object_store \<Rightarrow> string \<Rightarrow> object_meta \<Rightarrow> 'w \<Rightarrow> 'w \<times> (js_error + json)" where
  "os_update E A pause os name meta0 w =
     and_then (rawInfo E A os name w) (\<lambda>found. case found of
         None \<Rightarrow> (\<lambda>w1. (w1, throw ''object not found''))
       | Some info \<Rightarrow>
           if truthy (fld ''deleted'' info) then (\<lambda>w1. (w1, throw ''cannot update meta for a deleted object''))
           else let n = (case om_name meta0 of Some s \<Rightarrow> s | None \<Rightarrow> text_or_empty (fld ''name'' info));
                    meta = meta0\<lparr>om_name := Some n\<rparr>
                in checked (checkNotEmpty n) (\<lambda>_ w1.
                     and_then
                       (if name \<noteq> n
                        then and_then (rawInfo E A os n w1) (\<lambda>i w2. (w2,
                               require (\<not> (case i of Some d \<Rightarrow> \<not> truthy (oi_deleted d) | None \<Rightarrow> False))
                                 ''an object already exists with that name''))
                        else (w1, Inr ()))
                       (\<lambda>_. checked (rbind (toServerObjectStoreMeta meta) (\<lambda>ps. rbind (metaSubject os n) (\<lambda>s. Inr (ps, s))))
                          (\<lambda>(ps, s) w3.
                             and_then (js_publish E A pause s (te_encode (ae_stringify E (assign_props info ps))) no_pub_options w3)
                               (\<lambda>ack. if name \<noteq> n
                                  then checked (metaSubject os name) (\<lambda>old w4.
                                    and_then (stream_purge E A (os_stream os) (Some (J_Obj [(''filter'', J_Str old)])) w4)
                                      (\<lambda>_ w5. (w5, Inr ack)))
                                  else (\<lambda>w4. (w4, Inr ack)))))))"

section \<open>Watching and listing\<close>

text \<open>\<open>None\<close> in the iterator is the \<open>null\<close> that says that all objects were given.\<close>

record os_watch =
  ow_qi :: "json option qiter"
  ow_initialized :: bool

definition ow_push :: "json option \<Rightarrow> os_watch \<Rightarrow> os_watch" where
  "ow_push v k = k\<lparr>ow_qi := qi_push (\<lambda>_. (True, False)) (Val v) (ow_qi k)\<rparr>"

definition ow_stop :: "js_error option \<Rightarrow> os_watch \<Rightarrow> os_watch" where
  "ow_stop e k = k\<lparr>ow_qi := qi_stop e (ow_qi k)\<rparr>"

definition new_os_watch :: os_watch where
  "new_os_watch = \<lparr>ow_qi = new_qiter, ow_initialized = False\<rparr>"

text \<open>What \<open>watch\<close> does with the answer to its look-up of a last description, and the consumer
  it subscribes with.\<close>

definition os_watch_start :: "(js_error + stored_msg) \<Rightarrow> bool \<Rightarrow> os_watch" where
  "os_watch_start r includeHistory =
     (let k = (case r of
                 Inr _ \<Rightarrow> new_os_watch
               | Inl e \<Rightarrow> if is_nats_error e \<and> err_code e = ''404''
                         then (ow_push None new_os_watch)\<lparr>ow_initialized := True\<rparr>
                         else ow_stop (Some e) new_os_watch)
      in if includeHistory then k else k\<lparr>ow_initialized := True\<rparr>)"

definition os_watch_consumer :: "bool \<Rightarrow> consumer_builder" where
  "os_watch_consumer includeHistory =
     (let c = orderedConsumer (consumerOpts (J_Obj []))
      in co_callback (if includeHistory then deliverLastPerSubject c else deliverNew c))"

definition os_watch_lookup ::
  "'w api_env \<Rightarrow> api \<Rightarrow> object_store \<Rightarrow> bool \<Rightarrow> 'w \<Rightarrow> 'w \<times> os_watch \<times> string \<times> consumer_builder" where
  "os_watch_lookup E A os includeHistory w =
     (let (w1, r) = stream_getMessage E A (os_stream os) (J_Obj [(''last_by_subj'', J_Str (metaSubjectAll os))]) w
      in (w1, os_watch_start r includeHistory, metaSubjectAll os, os_watch_consumer includeHistory))"

definition os_watch_message ::
  "'w api_env \<Rightarrow> bool \<Rightarrow> js_error option \<Rightarrow> js_msg option \<Rightarrow> os_watch \<Rightarrow> os_watch \<times> (js_error + unit)" where
  "os_watch_message E ignoreDeletes err jm k =
     (case err of
        Some e \<Rightarrow> (ow_stop (Some e) k, Inr ())
      | None \<Rightarrow> (case jm of
          None \<Rightarrow> (k, Inr ())
        | Some m \<Rightarrow>
            (case rbind (json_decode E (msg_data (jm_msg m))) (\<lambda>oi. rbind (member ''deleted'' oi) (\<lambda>d. Inr (oi, truthy d))) of
               Inl e \<Rightarrow> (k, Inl e)
             | Inr (oi, gone) \<Rightarrow>
                 let k1 = (if gone \<and> ignoreDeletes then k else ow_push (Some oi) k)
                 in (case info_pending m of
                       Inl e \<Rightarrow> (k1, Inl e)
                     | Inr n \<Rightarrow> if n = Some 0 \<and> \<not> ow_initialized k1
                               then (ow_push None (k1\<lparr>ow_initialized := True\<rparr>), Inr ()) else (k1, Inr ())))))"

text \<open>\<open>list\<close> takes what the iterator gives until the \<open>null\<close>.\<close>

fun os_list :: "json option list \<Rightarrow> json list option" where
  "os_list [] = None"
| "os_list (None # vs) = Some []"
| "os_list (Some i # vs) = map_option ((#) i) (os_list vs)"

section \<open>What a put stores\<close>

lemma chunk_size_pos:
  assumes "\<And>opts k. om_options meta = Some opts \<Longrightarrow> fld ''max_chunk_size'' opts = Some (J_Num k) \<Longrightarrow> 0 \<le> k"
  shows "0 < chunk_size max_payload (om_options meta)"
proof -
  have "0 < nat k" if "om_options meta = Some opts" "fld ''max_chunk_size'' opts = Some (J_Num k)" "k \<noteq> 0" for opts k
    using assms [OF that(1,2)] that(3) by simp
  then show ?thesis by (simp add: chunk_size_def Let_def split: option.split json.split)
qed

lemma one_publish:
  assumes "publish_headers opts = Inr h" "pb_retries opts = None"
  shows "\<exists>w' r. js_publish (recording E) A (pausing pause) subj c opts (w, l) = ((w', l @ [(subj, c, Some h)]), r)"
proof -
  let ?d = "or_else (pb_retry_delay opts) 250"
  obtain w' l' r where r: "publish_loop (recording E) (pausing pause) subj c h (or_else (pb_timeout opts) (ap_timeout A)) ?d 1 0 (w, l)
      = ((w', l'), r)" by (metis surj_pair)
  obtain k where "l' = l @ replicate k (subj, c, Some h)" "int k \<le> 1" "0 < k"
    using recorded_loop [OF r] by auto
  then have "l' = l @ [(subj, c, Some h)]" by (cases k) simp_all
  then show ?thesis
    using r assms by (cases r) (simp_all add: js_publish_def checked_def or_else_def and_then_def)
qed

lemma chunk_published:
  "\<exists>w' r. js_publish (recording E) A (pausing pause) subj c (no_pub_options\<lparr>pb_timeout := Some tmo\<rparr>) (w, l)
     = ((w', l @ [(subj, c, Some (new_hdrs 0 []))]), r)"
  by (rule one_publish) (simp_all add: publish_headers_def no_pub_options_def set_text_def set_number_def headers_fn_def)

text \<open>How a put goes on from one state to another over a recorded world: the bytes that were in
  the buffer and came in since are those of the chunks that were published and those that are left.\<close>

definition chunk_log :: "string \<Rightarrow> bytes list \<Rightarrow> request_log" where
  "chunk_log subj cs = map (\<lambda>c. (subj, c, Some (new_hdrs 0 []))) cs"

definition put_goes_on :: "nat \<Rightarrow> bytes \<Rightarrow> os_put \<Rightarrow> bytes list \<Rightarrow> os_put \<Rightarrow> bool" where
  "put_goes_on n new st cs st' \<longleftrightarrow>
     dq_ok (up_db st') \<and> dq_bytes (up_db st) @ new = concat cs @ dq_bytes (up_db st')
     \<and> up_hashed st' = up_hashed st @ concat cs \<and> up_size st' = up_size st + length (concat cs)
     \<and> up_chunks st' = up_chunks st + length cs \<and> (\<forall>c \<in> set cs. c \<noteq> [] \<and> length c \<le> n)"

lemma goes_on_trans:
  assumes "put_goes_on n x st cs st1" "put_goes_on n y st1 cs' st2"
  shows "put_goes_on n (x @ y) st (cs @ cs') st2"
proof -
  have "dq_bytes (up_db st) @ x @ y = (concat cs @ dq_bytes (up_db st1)) @ y"
    using assms(1) by (simp add: put_goes_on_def)
  also have "\<dots> = concat (cs @ cs') @ dq_bytes (up_db st2)" using assms(2) by (simp add: put_goes_on_def)
  finally show ?thesis using assms by (auto simp: put_goes_on_def)
qed

lemma publish_chunk_goes_on:
  assumes "dq_ok (up_db st)" "0 < dq_size (up_db st)" "0 < k"
    "amount = Some k \<and> k < dq_size (up_db st) \<or> amount = None \<and> k = dq_size (up_db st)" "k \<le> n"
  shows "\<exists>st' c w'. publish_chunk (recording E) A (pausing pause) subj tmo k amount st (w, l)
      = (st', (w', l @ chunk_log subj [c])) \<and> put_goes_on n [] st [c] st' \<and> dq_size (up_db st') = dq_size (up_db st) - k"
proof -
  let ?b = "dq_bytes (up_db st)" and ?d = "dq_drain amount (up_db st)"
  have len: "dq_size (up_db st) = length ?b" using assms(1) by (simp add: dq_size_def dq_ok_def)
  have d: "snd ?d = take k ?b" "dq_bytes (fst ?d) = drop k ?b" "dq_byteLength (fst ?d) = length ?b - k" "dq_ok (fst ?d)"
    using dq_drain_eq [OF assms(1), of amount] dq_drain_ok [OF assms(1), of amount] assms(4) len by auto
  obtain w' r where w: "js_publish (recording E) A (pausing pause) subj (take k ?b) (no_pub_options\<lparr>pb_timeout := Some tmo\<rparr>) (w, l)
      = ((w', l @ chunk_log subj [take k ?b]), r)"
    using chunk_published [of E A pause subj "take k ?b" tmo w l] by (auto simp: chunk_log_def)
  have "k \<le> length ?b" using assms(4) len by auto
  then have "put_goes_on n [] st [take k ?b]
      (st\<lparr>up_db := fst ?d, up_hashed := up_hashed st @ take k ?b, up_size := up_size st + k,
          up_chunks := up_chunks st + 1, up_proms := up_proms st @ [r]\<rparr>)"
    using d assms(2,3,5) len by (auto simp: put_goes_on_def)
  then show ?thesis
    using w d len
    by (intro exI [of _ "take k ?b"] exI) (auto simp: publish_chunk_def case_prod_beta dq_size_def Let_def)
qed

lemma put_full_goes_on:
  assumes "dq_ok (up_db st)" "0 < n"
  shows "\<exists>st' cs w'. put_full (recording E) A (pausing pause) subj tmo n st (w, l) = Some (st', (w', l @ chunk_log subj cs))
    \<and> put_goes_on n [] st cs st' \<and> dq_size (up_db st') \<le> n"
  using assms(1)
proof (induction "dq_size (up_db st)" arbitrary: st w l rule: less_induct)
  case less
  note step = put_full.simps [of "recording E" A "pausing pause" subj tmo n st "(w, l)"]
  show ?case
  proof (cases "dq_size (up_db st) > n")
    case False
    then show ?thesis
      unfolding step using less.prems by (auto simp: put_goes_on_def chunk_log_def intro!: exI [of _ "[]"])
  next
    case True
    then obtain st1 c w1 where c: "publish_chunk (recording E) A (pausing pause) subj tmo n (Some n) st (w, l)
        = (st1, (w1, l @ chunk_log subj [c]))" "put_goes_on n [] st [c] st1" "dq_size (up_db st1) = dq_size (up_db st) - n"
      using publish_chunk_goes_on [OF less.prems, of n "Some n" n E A pause subj tmo w l] assms(2) by auto
    moreover have "dq_ok (up_db st1)" using c(2) by (simp add: put_goes_on_def)
    ultimately obtain st2 cs w2 where r: "put_full (recording E) A (pausing pause) subj tmo n st1 (w1, l @ chunk_log subj [c])
          = Some (st2, (w2, (l @ chunk_log subj [c]) @ chunk_log subj cs))" "put_goes_on n [] st1 cs st2" "dq_size (up_db st2) \<le> n"
      using less.hyps [of st1 w1 "l @ chunk_log subj [c]"] True assms(2) by auto
    have "put_goes_on n [] st (c # cs) st2" using goes_on_trans [OF c(2) r(2)] by simp
    then show ?thesis unfolding step using True c r
      by (intro exI [of _ st2] exI [of _ "c # cs"] exI [of _ w2]) (simp add: chunk_log_def)
  qed
qed

lemma put_reads_goes_on:
  assumes "dq_ok (up_db st)" "0 < n" "dq_size (up_db st) \<le> n"
  shows "\<exists>st' cs w'. put_reads (recording E) A (pausing pause) subj tmo n (map Inr vs) st (w, l)
      = Some (st', (w', l @ chunk_log subj cs), None)
    \<and> put_goes_on n (concat vs) st cs st' \<and> dq_size (up_db st') \<le> n"
  using assms(1,3)
proof (induction vs arbitrary: st w l)
  case Nil
  then show ?case by (auto simp: put_goes_on_def chunk_log_def intro!: exI [of _ "[]"])
next
  case (Cons v vs)
  let ?st = "st\<lparr>up_db := dq_fill v [] (up_db st)\<rparr>"
  have filled: "put_goes_on n v st [] ?st" using Cons.prems by (simp add: put_goes_on_def)
  obtain st1 cs w1 where f: "put_full (recording E) A (pausing pause) subj tmo n ?st (w, l) = Some (st1, (w1, l @ chunk_log subj cs))"
      "put_goes_on n [] ?st cs st1" "dq_size (up_db st1) \<le> n"
    using put_full_goes_on [of ?st n E A pause subj tmo w l] Cons.prems assms(2) by auto
  have "dq_ok (up_db st1)" using f(2) by (simp add: put_goes_on_def)
  then obtain st2 cs' w2 where r: "put_reads (recording E) A (pausing pause) subj tmo n (map Inr vs) st1 (w1, l @ chunk_log subj cs)
      = Some (st2, (w2, (l @ chunk_log subj cs) @ chunk_log subj cs'), None)" "put_goes_on n (concat vs) st1 cs' st2" "dq_size (up_db st2) \<le> n"
    using Cons.IH [of st1 w1 "l @ chunk_log subj cs"] f(3) by auto
  have "put_goes_on n (concat (v # vs)) st (cs @ cs') st2"
    using goes_on_trans [OF goes_on_trans [OF filled f(2)] r(2)] by simp
  then show ?case using f r
    by (intro exI [of _ st2] exI [of _ "cs @ cs'"] exI [of _ w2]) (simp add: chunk_log_def)
qed

lemma put_last_goes_on:
  assumes "dq_ok (up_db st)" "dq_size (up_db st) \<le> n"
  shows "\<exists>st' cs w'. put_last (recording E) A (pausing pause) subj tmo st (w, l) = (st', (w', l @ chunk_log subj cs))
    \<and> put_goes_on n [] st cs st' \<and> dq_bytes (up_db st') = []"
proof (cases "dq_size (up_db st) > 0")
  case False
  then have "dq_bytes (up_db st) = []" using assms(1) by (simp add: dq_size_def dq_ok_def)
  then show ?thesis
    using False assms by (auto simp: put_last_def put_goes_on_def chunk_log_def intro!: exI [of _ "[]"])
next
  case True
  let ?k = "dq_size (up_db st)"
  have k: "length (snd (dq_drain None (up_db st))) = ?k"
    using dq_drain_eq(1) [OF assms(1), of None] assms(1) by (simp add: dq_size_def dq_ok_def)
  obtain st1 c w1 where c: "publish_chunk (recording E) A (pausing pause) subj tmo ?k None st (w, l)
      = (st1, (w1, l @ chunk_log subj [c]))" "put_goes_on n [] st [c] st1" "dq_size (up_db st1) = 0"
    using publish_chunk_goes_on [OF assms(1) True True _ assms(2), of None E A pause subj tmo w l] by auto
  then have "dq_bytes (up_db st1) = []" by (simp add: put_goes_on_def dq_size_def dq_ok_def)
  then show ?thesis using True c k by (auto simp: put_last_def)
qed

lemma appends_raw_info: "appends no_headers (rawInfo (recording E) A os name)"
  unfolding rawInfo_def
proof (rule appends_checked)
  fix subj
  let ?q = "J_Obj [(''last_by_subj'', J_Str subj)]"
  let ?f = "\<lambda>m w1. (w1, rbind (sm_data m) (\<lambda>d. rbind (json_decode (recording E) d) (\<lambda>soi.
                 case sm_seq m of Some n \<Rightarrow> set_member ''revision'' (J_Num n) soi
                 | None \<Rightarrow> rbind (set_member ''revision'' J_Null soi) (\<lambda>j. Inr (delete_prop ''revision'' j)))))"
  have a: "appends no_headers (\<lambda>w. and_then (stream_getMessage (recording E) A (os_stream os) ?q w) ?f)"
    by (intro appends_and_then stream_getMessage_appends appends_unit)
  have "appends no_headers (\<lambda>w. case and_then (stream_getMessage (recording E) A (os_stream os) ?q w) ?f of
      (w1, r) \<Rightarrow> (\<lambda>r w1. case r of Inr soi \<Rightarrow> (w1, Inr (Some soi))
       | Inl e \<Rightarrow> (w1, if is_nats_error e \<and> err_code e = ''404'' then Inr None else Inl e)) r w1)"
    by (rule appends_bind [OF a]) (auto split: sum.split simp: appends_def)
  then show "appends no_headers (\<lambda>w. case and_then (stream_getMessage (recording E) A (os_stream os) ?q w) ?f of
         (w1, Inr soi) \<Rightarrow> (w1, Inr (Some soi))
       | (w1, Inl e) \<Rightarrow> (w1, if is_nats_error e \<and> err_code e = ''404'' then Inr None else Inl e))"
    by (simp add: case_prod_beta cong: sum.case_cong)
qed

lemma appends_stream_purge: "appends no_headers (stream_purge (recording E) A name opts)"
  unfolding stream_purge_def by (intro appends_intros)

lemma put_done_stores:
  assumes "dq_ok (up_db st)" "dq_size (up_db st) \<le> n"
    "put_done (recording E) A (pausing pause) SHA os subj metaSubj tmo prev mtime info0 old st (w, l) = ((w', l'), Inr info)"
  shows "\<exists>st' cs h l1 i s. put_goes_on n [] st cs st' \<and> dq_bytes (up_db st') = []
    \<and> l' = l @ chunk_log subj cs @ (metaSubj, json_encode E (Some i), Some h) # l1 \<and> (\<forall>x \<in> set l1. no_headers x)
    \<and> put_info SHA mtime info0 st' = Inr i \<and> info = set_or_drop ''revision'' s i"
proof -
  obtain st' cs w1 where p: "put_last (recording E) A (pausing pause) subj tmo st (w, l) = (st', (w1, l @ chunk_log subj cs))"
      "put_goes_on n [] st cs st'" "dq_bytes (up_db st') = []"
    using put_last_goes_on [OF assms(1,2), of E A pause subj tmo w l] by auto
  from assms(3) p(1) obtain i h where i: "put_info SHA mtime info0 st' = Inr i" and h: "put_meta_headers prev = Inr h"
    by (auto simp: put_done_def and_then_def checked_def rbind_Inr_iff split: sum.splits option.splits)
  let ?opts = "no_pub_options\<lparr>pb_timeout := Some tmo, pb_headers := Some h\<rparr>"
  obtain w2 r where r: "js_publish (recording E) A (pausing pause) metaSubj (json_encode (recording E) (Some i)) ?opts
        (w1, l @ chunk_log subj cs) = ((w2, (l @ chunk_log subj cs) @ [(metaSubj, json_encode (recording E) (Some i), Some h)]), r)"
    using one_publish [of ?opts h E A pause metaSubj "json_encode (recording E) (Some i)" w1 "l @ chunk_log subj cs"]
    by (auto simp: publish_headers_def no_pub_options_def set_text_def set_number_def)
  have e: "json_encode (recording E) (Some i) = json_encode E (Some i)" by (simp add: json_encode_def recording_def)
  obtain s where s: "info = set_or_drop ''revision'' s i"
      "(w', l') = (case old of None \<Rightarrow> (w2, l @ chunk_log subj cs @ [(metaSubj, json_encode E (Some i), Some h)])
         | Some j \<Rightarrow> fst (stream_purge (recording E) A (os_stream os)
             (Some (J_Obj [(''filter'', J_Str (''$O.'' @ os_name os @ ''.C.'' @ template_text (fld ''nuid'' j)))]))
             (w2, l @ chunk_log subj cs @ [(metaSubj, json_encode E (Some i), Some h)])))"
    using assms(3) p(1) i h r e
    by (cases "List.find Sum_Type.isl (up_proms st')")
      (auto simp: put_done_def and_then_def checked_def rbind_Inr_iff split: sum.splits option.splits)
  have "\<exists>l1. l' = (l @ chunk_log subj cs @ [(metaSubj, json_encode E (Some i), Some h)]) @ l1 \<and> (\<forall>x \<in> set l1. no_headers x)"
  proof (cases old)
    case (Some j)
    then obtain r2 where "stream_purge (recording E) A (os_stream os)
             (Some (J_Obj [(''filter'', J_Str (''$O.'' @ os_name os @ ''.C.'' @ template_text (fld ''nuid'' j)))]))
             (w2, l @ chunk_log subj cs @ [(metaSubj, json_encode E (Some i), Some h)]) = ((w', l'), r2)"
      using s(2) by (simp add: prod_eq_iff)
    from appendsD [OF appends_stream_purge this] show ?thesis .
  qed (use s(2) in simp)
  then obtain l1 where "l' = l @ chunk_log subj cs @ (metaSubj, json_encode E (Some i), Some h) # l1" "\<forall>x \<in> set l1. no_headers x"
    by auto
  with p(2,3) i s(1) show ?thesis by blast
qed

section \<open>What a get reads\<close>

text \<open>The reader while the loop runs: as long as it can be read the hash was fed what it was given,
  and what it was given when it was closed has the digest.\<close>

definition reader_ok :: "(bytes \<Rightarrow> bytes) \<Rightarrow> bytes \<Rightarrow> object_reader \<Rightarrow> bool" where
  "reader_ok SHA digest r \<longleftrightarrow>
     (case or_state r of
        Readable \<Rightarrow> or_hashed r = concat (or_enqueued r)
      | Closed \<Rightarrow> SHA (concat (or_enqueued r)) = digest
      | Errored e \<Rightarrow> True)"

lemma chunk_message_ok:
  assumes "reader_ok SHA digest r" "chunk_message SHA dt digest m r = (r', v)"
  shows "case v of Inr u \<Rightarrow> reader_ok SHA digest r' | Inl e \<Rightarrow> True"
proof (cases "or_state r")
  case Readable
  then show ?thesis
    using assms
    by (auto simp: chunk_message_def reader_ok_def reader_enqueue_def reader_close_def reader_error_def Let_def throw_def
        split: if_splits sum.splits option.splits)
qed (use assms in \<open>auto simp: chunk_message_def reader_ok_def reader_enqueue_def reader_close_def reader_error_def Let_def throw_def
        split: if_splits sum.splits option.splits\<close>)

lemma get_loop_ok:
  "reader_ok SHA digest r \<Longrightarrow> get_loop SHA dt digest ms r u = (r', u', None) \<Longrightarrow> reader_ok SHA digest r'"
proof (induction ms arbitrary: r u)
  case (Cons m ms)
  obtain r1 v where m: "chunk_message SHA dt digest m r = (r1, v)" by fastforce
  then obtain b where "v = Inr b" using Cons.prems(2) by (cases v) auto
  then show ?case using chunk_message_ok [OF Cons.prems(1) m] Cons.IH [of r1 "u \<or> b"] Cons.prems(2) m by simp
qed simp

lemma drained_chunks:
  "snd (dq_drain None (fold (\<lambda>c d. if c \<noteq> [] then dq_fill c [] d else d) cs new_data_buffer)) = concat cs"
proof -
  have "dq_ok d \<Longrightarrow> dq_ok (fold (\<lambda>c d. if c \<noteq> [] then dq_fill c [] d else d) cs d)
      \<and> dq_bytes (fold (\<lambda>c d. if c \<noteq> [] then dq_fill c [] d else d) cs d) = dq_bytes d @ concat cs" for d
    by (induction cs arbitrary: d) auto
  from this [of new_data_buffer] show ?thesis
    using dq_drain_eq(1) [of "fold (\<lambda>c d. if c \<noteq> [] then dq_fill c [] d else d) cs new_data_buffer" None]
    by (simp add: dq_ok_def dq_bytes_def new_data_buffer_def)
qed

text \<open>
  C35: What \<open>getBlob\<close> gives has the digest of the description, whatever messages the stream delivers,
  in whatever order and whatever number: other bytes are never given to the caller.
\<close>
theorem get_gives_only_verified_bytes:
  assumes "get_loop SHA dt digest ms new_reader False = (r, u, err)" "blob_of r err = Some (Inr b)"
  shows "SHA b = digest"
proof -
  have "err = None" "or_state r = Closed" "b = concat (or_enqueued r)"
    using assms(2) drained_chunks [of "or_enqueued r"] by (auto simp: blob_of_def split: option.splits reader_state.splits)
  moreover have "reader_ok SHA digest new_reader" by (simp add: reader_ok_def new_reader_def)
  ultimately show ?thesis using get_loop_ok assms(1) by (fastforce simp: reader_ok_def)
qed

text \<open>Messages as an ordered consumer delivers them: each says how many are behind it.\<close>

definition delivered :: "js_msg list \<Rightarrow> bool" where
  "delivered ms \<longleftrightarrow> (\<forall>j < length ms. info_pending (ms ! j) = Inr (Some (int (length ms - 1 - j))))"

lemma delivered_Cons:
  "delivered (m # ms) \<longleftrightarrow> info_pending m = Inr (Some (int (length ms))) \<and> delivered ms"
  unfolding delivered_def by (auto simp: nth_Cons All_less_Suc2)

lemma get_delivered:
  assumes "delivered ms" "ms \<noteq> []" "or_state r = Readable" "or_hashed r = concat (or_enqueued r)"
    "\<forall>m \<in> set ms. msg_data (jm_msg m) \<noteq> []"
    "SHA (or_hashed r @ concat (map (\<lambda>m. msg_data (jm_msg m)) ms)) = digest"
  shows "get_loop SHA dt digest ms r u = (\<lparr>or_enqueued = or_enqueued r @ map (\<lambda>m. msg_data (jm_msg m)) ms,
      or_hashed = or_hashed r @ concat (map (\<lambda>m. msg_data (jm_msg m)) ms), or_state = Closed\<rparr>, True, None)"
  using assms
proof (induction ms arbitrary: r u)
  case (Cons m ms)
  let ?d = "msg_data (jm_msg m)"
  let ?r = "r\<lparr>or_hashed := or_hashed r @ ?d, or_enqueued := or_enqueued r @ [?d]\<rparr>"
  show ?case
  proof (cases "ms = []")
    case True
    then show ?thesis
      using Cons.prems by (cases r) (simp add: chunk_message_def reader_enqueue_def reader_close_def delivered_Cons Let_def)
  next
    case False
    then have "chunk_message SHA dt digest m r = (?r, Inr False)"
      using Cons.prems by (simp add: chunk_message_def reader_enqueue_def delivered_Cons Let_def)
    moreover have "get_loop SHA dt digest ms ?r u = (\<lparr>or_enqueued = or_enqueued ?r @ map (\<lambda>m. msg_data (jm_msg m)) ms,
      or_hashed = or_hashed ?r @ concat (map (\<lambda>m. msg_data (jm_msg m)) ms), or_state = Closed\<rparr>, True, None)"
      using Cons.prems False by (intro Cons.IH) (auto simp: delivered_Cons)
    ultimately show ?thesis by simp
  qed
qed simp

section \<open>What is put is got back\<close>

definition is_obj :: "json \<Rightarrow> bool" where
  "is_obj j \<longleftrightarrow> (case j of J_Obj m \<Rightarrow> True | _ \<Rightarrow> False)"

lemma is_obj_simps [simp]:
  "is_obj (J_Obj m)" "is_obj (put_prop k v j) = is_obj j" "is_obj (delete_prop k j) = is_obj j"
  "is_obj (set_or_drop k r j) = is_obj j"
  by (auto simp: is_obj_def put_prop_def delete_prop_def set_or_drop_def split: json.splits option.splits)

lemma fld_put_prop [simp]: "is_obj j \<Longrightarrow> fld k (put_prop k' v j) = (if k = k' then Some v else fld k j)"
  by (auto simp: is_obj_def fld_def put_prop_def update_conv' split: json.splits)

lemma fld_set_or_drop [simp]: "is_obj j \<Longrightarrow> fld k (set_or_drop k' r j) = (if k = k' then r else fld k j)"
  by (auto simp: is_obj_def fld_def put_prop_def delete_prop_def set_or_drop_def update_conv' delete_conv'
      split: json.splits option.splits)

lemma assign_props_simps:
  "is_obj j \<Longrightarrow> is_obj (assign_props j ps)"
  "is_obj j \<Longrightarrow> k \<notin> fst ` set ps \<Longrightarrow> fld k (assign_props j ps) = fld k j"
  by (induction ps arbitrary: j) (auto simp: assign_props_def)

lemma server_meta_keys:
  assumes "toServerObjectStoreMeta m = Inr ps"
  shows "fst ` set ps \<subseteq> {''name'', ''description'', ''options'', ''metadata'', ''headers''}"
  using assms by (auto simp: toServerObjectStoreMeta_def rbind_Inr_iff split: option.splits)

lemma put_info_fields:
  assumes "put_info SHA mtime info st = Inr i" "is_obj info" "length (SHA (up_hashed st)) mod 3 \<noteq> 0"
  shows "is_obj i" "fld ''nuid'' i = fld ''nuid'' info" "fld ''size'' i = Some (J_Num (int (up_size st)))"
    "fld ''chunks'' i = Some (J_Num (int (up_chunks st)))"
    "\<exists>dt. fld ''digest'' i = Some (J_Str dt) \<and> object_digest i = Inr (SHA (up_hashed st))"
proof -
  obtain u where u: "padded_encode (Bytes (SHA (up_hashed st))) = Inr u"
    using assms(1) by (auto simp: put_info_def rbind_Inr_iff)
  then have i: "i = put_prop ''deleted'' (J_Bool False) (put_prop ''digest'' (J_Str (digestType @ u))
         (put_prop ''mtime'' (J_Str mtime) (put_prop ''chunks'' (J_Num (int (up_chunks st)))
           (put_prop ''size'' (J_Num (int (up_size st))) info))))"
    using assms(1) by (simp add: put_info_def)
  have d: "fld ''digest'' i = Some (J_Str (digestType @ u))" using assms(2) by (simp add: i)
  moreover have "parseSha256 u = Inr (Some (SHA (up_hashed st)))" using digest_of_base64 [OF assms(3), of u] u by simp
  ultimately have "object_digest i = Inr (SHA (up_hashed st))"
    by (simp add: object_digest_def digestType_def starts_with_def)
  with d show "\<exists>dt. fld ''digest'' i = Some (J_Str dt) \<and> object_digest i = Inr (SHA (up_hashed st))" by blast
  show "is_obj i" "fld ''nuid'' i = fld ''nuid'' info" "fld ''size'' i = Some (J_Num (int (up_size st)))"
    "fld ''chunks'' i = Some (J_Num (int (up_chunks st)))"
    using assms(2) by (simp_all add: i)
qed

text \<open>What a put that succeeds did to a recorded world.\<close>

lemma put_object_stores:
  assumes "0 < n" "n = chunk_size max_payload (om_options meta)"
    "os_put_object (recording E) A (pausing pause) SHA max_payload os meta (map Inr vs) tmo prev i mtime (w, [])
       = Some ((w', l), Inr info)"
  shows "\<exists>l0 cs st msubj j h l1 s info0. l = l0 @ chunk_log (chunkSubject os i) cs @ (msubj, json_encode E (Some j), Some h) # l1
    \<and> (\<forall>x \<in> set (l0 @ l1). no_headers x) \<and> put_goes_on n (concat vs) new_put cs st \<and> dq_bytes (up_db st) = []
    \<and> metaSubject os (case om_name meta of Some s \<Rightarrow> s | None \<Rightarrow> []) = Inr msubj
    \<and> is_obj info0 \<and> fld ''nuid'' info0 = Some (J_Str i) \<and> put_info SHA mtime info0 st = Inr j
    \<and> info = set_or_drop ''revision'' s j"
proof -
  let ?name = "case om_name meta of Some s \<Rightarrow> s | None \<Rightarrow> []" and ?subj = "chunkSubject os i"
  obtain w1 l0 r0 where r0: "rawInfo (recording E) A os ?name (w, []) = ((w1, l0), r0)" by (metis surj_pair)
  then have l0: "\<forall>x \<in> set l0. no_headers x" using appendsD [OF appends_raw_info r0] by auto
  obtain st1 cs1 w2 where p1: "put_reads (recording E) A (pausing pause) ?subj (or_else tmo (ap_timeout A)) n (map Inr vs) new_put (w1, l0)
      = Some (st1, (w2, l0 @ chunk_log ?subj cs1), None)" "put_goes_on n (concat vs) new_put cs1 st1" "dq_size (up_db st1) \<le> n"
    using put_reads_goes_on [of new_put n E A pause ?subj "or_else tmo (ap_timeout A)" vs w1 l0] assms(1)
    by (auto simp: new_put_def dq_ok_def dq_bytes_def new_data_buffer_def dq_size_def)
  from assms(3) r0 p1(1) obtain old msubj ps where o: "r0 = Inr old" "metaSubject os ?name = Inr msubj"
      "toServerObjectStoreMeta (meta\<lparr>om_options := Some (put_prop ''max_chunk_size'' (J_Num (int n))
         (if truthy (om_options meta) then the (om_options meta) else J_Obj []))\<rparr>) = Inr ps"
    by (auto simp: os_put_object_def Let_def assms(2) [symmetric] rbind_Inr_iff split: sum.splits)
  let ?info0 = "assign_props (J_Obj [(''bucket'', J_Str (os_name os)), (''nuid'', J_Str i), (''size'', J_Num 0), (''chunks'', J_Num 0)]) ps"
  have "put_done (recording E) A (pausing pause) SHA os ?subj msubj (or_else tmo (ap_timeout A)) prev mtime ?info0 old st1
      (w2, l0 @ chunk_log ?subj cs1) = ((w', l), Inr info)"
    using assms(3) r0 p1(1) o by (auto simp: os_put_object_def Let_def assms(2) [symmetric] and_then_def split: sum.splits prod.splits)
  from put_done_stores [OF _ p1(3) this] p1(2) obtain st cs2 h l1 j s where p2: "put_goes_on n [] st1 cs2 st" "dq_bytes (up_db st) = []"
      "l = (l0 @ chunk_log ?subj cs1) @ chunk_log ?subj cs2 @ (msubj, json_encode E (Some j), Some h) # l1"
      "\<forall>x \<in> set l1. no_headers x" "put_info SHA mtime ?info0 st = Inr j" "info = set_or_drop ''revision'' s j"
    by (auto simp: put_goes_on_def)
  have "put_goes_on n (concat vs) new_put (cs1 @ cs2) st" using goes_on_trans [OF p1(2) p2(1)] by simp
  moreover have "is_obj ?info0" "fld ''nuid'' ?info0 = Some (J_Str i)"
    using server_meta_keys [OF o(3)] by (auto simp: assign_props_simps) (subst assign_props_simps(2), auto simp: fld_def)
  ultimately show ?thesis using l0 p2 o(2)
    by (intro exI [of _ l0] exI [of _ "cs1 @ cs2"] exI [of _ st] exI [of _ msubj] exI [of _ j] exI [of _ h] exI [of _ l1]
        exI [of _ s] exI [of _ ?info0]) (auto simp: chunk_log_def)
qed

text \<open>
  C34: An object that was put is got back: the chunks a put publishes are not empty, no larger than
  the chunk size and together the bytes of the reader; they come before the description, which
  counts them and carries their digest; opening the description gives the subject of the chunks,
  and reading these messages from the stream ends with the bytes that were put.
\<close>
theorem object_round_trip:
  assumes "0 < n" "n = chunk_size max_payload (om_options meta)"
    "length (SHA (concat vs)) mod 3 \<noteq> 0" "concat vs \<noteq> []"
    "os_put_object (recording E) A (pausing pause) SHA max_payload os meta (map Inr vs) tmo prev i mtime (w, [])
       = Some ((w', l), Inr info)"
  shows "\<exists>l0 cs msubj j h l1 s digest dt. l = l0 @ chunk_log (chunkSubject os i) cs @ (msubj, json_encode E (Some j), Some h) # l1
    \<and> (\<forall>x \<in> set (l0 @ l1). no_headers x) \<and> (\<forall>c \<in> set cs. c \<noteq> [] \<and> length c \<le> n)
    \<and> metaSubject os (case om_name meta of Some s \<Rightarrow> s | None \<Rightarrow> []) = Inr msubj \<and> info = set_or_drop ''revision'' s j
    \<and> fld ''size'' info = Some (J_Num (int (length (concat vs)))) \<and> fld ''chunks'' info = Some (J_Num (int (length cs)))
    \<and> fld ''digest'' info = Some (J_Str dt) \<and> open_object os info = Inr (Chunked_Object info digest (chunkSubject os i))
    \<and> (\<forall>ms. map (\<lambda>m. msg_data (jm_msg m)) ms = cs \<and> delivered ms \<longrightarrow>
         (case get_loop SHA dt digest ms new_reader False of (r, u, err) \<Rightarrow> u \<and> blob_of r err = Some (Inr (concat vs))))"
proof -
  obtain l0 cs st msubj j h l1 s info0 where p: "l = l0 @ chunk_log (chunkSubject os i) cs @ (msubj, json_encode E (Some j), Some h) # l1"
      "\<forall>x \<in> set (l0 @ l1). no_headers x" "put_goes_on n (concat vs) new_put cs st" "dq_bytes (up_db st) = []"
      "metaSubject os (case om_name meta of Some s \<Rightarrow> s | None \<Rightarrow> []) = Inr msubj"
      "is_obj info0" "fld ''nuid'' info0 = Some (J_Str i)" "put_info SHA mtime info0 st = Inr j" "info = set_or_drop ''revision'' s j"
    using put_object_stores [OF assms(1,2,5)] by blast
  have cs: "concat cs = concat vs" "up_hashed st = concat vs" "up_size st = length (concat vs)" "up_chunks st = length cs"
      "\<forall>c \<in> set cs. c \<noteq> [] \<and> length c \<le> n"
    using p(3,4) by (auto simp: put_goes_on_def new_put_def new_data_buffer_def dq_bytes_def)
  note f = put_info_fields [OF p(8,6), unfolded cs(2), OF assms(3)]
  then obtain dt where dt: "fld ''digest'' info = Some (J_Str dt)" "object_digest info = Inr (SHA (concat vs))"
    by (auto simp: p(9) object_digest_def)
  have "open_object os info = Inr (Chunked_Object info (SHA (concat vs)) (chunkSubject os i))"
    using dt f assms(4) cs(3) p(7) by (simp add: open_object_def p(9) chunkSubject_def template_text_def)
  moreover have "case get_loop SHA dt (SHA (concat vs)) ms new_reader False of (r, u, err) \<Rightarrow> u \<and> blob_of r err = Some (Inr (concat vs))"
    if "map (\<lambda>m. msg_data (jm_msg m)) ms = cs" "delivered ms" for ms
  proof -
    have "ms \<noteq> []" "\<forall>m \<in> set ms. msg_data (jm_msg m) \<noteq> []" using that(1) cs(1,5) assms(4) by auto
    then show ?thesis
      using get_delivered [OF that(2), of new_reader SHA "SHA (concat vs)" dt False] that(1) cs(1) drained_chunks [of cs]
      by (simp add: new_reader_def blob_of_def)
  qed
  ultimately show ?thesis using p(1,2,5,9) cs f dt
    by (intro exI [of _ l0] exI [of _ cs] exI [of _ msubj] exI [of _ j] exI [of _ h] exI [of _ l1] exI [of _ s]
        exI [of _ "SHA (concat vs)"] exI [of _ dt]) simp
qed

definition stored_ack :: json where
  "stored_ack = J_Obj [(''stream'', J_Str ''S''), (''seq'', J_Num 1)]"

definition storing_server :: "unit api_env" where
  "storing_server = \<lparr>ae_request = (\<lambda>s b h t w. ((), Inr (new_msg newMsgArg [1]))),
     ae_delay = (\<lambda>n w. w), ae_stringify = (\<lambda>j. []), ae_parse = (\<lambda>s. Inr stored_ack)\<rparr>"

lemma storing_parse: "parseJsResponse (recording storing_server) m = Inr stored_ack"
  by (simp add: parseJsResponse_def json_decode_def recording_def storing_server_def stored_ack_def member_def truthy_def)

lemma storing_answer:
  "ae_request (recording storing_server) subj c h t (w, l) = (((), l @ [(subj, c, h)]), Inr (new_msg newMsgArg [1]))"
  by (simp add: recording_def storing_server_def)

lemma storing_publish:
  assumes "publish_headers opts = Inr h" "pb_retries opts = None"
  shows "js_publish (recording storing_server) A p subj c opts (w, l)
    = (((), l @ [(subj, c, Some h)]), Inr (put_prop ''duplicate'' (J_Bool False) stored_ack))"
proof -
  have "publish_loop (recording storing_server) p subj c h t d 1 0 (w, l)
      = (((), l @ [(subj, c, Some h)]), Inr (Some (new_msg newMsgArg [1])))" for t d
    by (subst publish_loop.simps) (simp add: storing_answer)
  then show ?thesis
    using assms storing_parse
    by (simp add: js_publish_def checked_def or_else_def and_then_def pub_ack_def)
      (simp add: stored_ack_def member_def truthy_def set_member_def)
qed

lemma storing_request:
  "requesting (recording storing_server) A subj d (w, l) = (((), l @ [(subj, (if truthy d then json_encode storing_server d else []), None)]), Inr stored_ack)"
proof -
  have "attempt (recording storing_server) A subj a (w, l) = (((), l @ [(subj, a, None)]), Inr stored_ack)" for a
    using storing_parse [of "new_msg newMsgArg [1]"] storing_answer [of subj a None "ap_timeout A" w l] by (simp add: attempt_def)
  moreover have "json_encode (recording storing_server) d = json_encode storing_server d"
    by (simp add: json_encode_def recording_def)
  ultimately show ?thesis
    by (simp add: requesting_def api_request_def request_loop.simps Let_def)
qed

lemma storing_raw_info:
  assumes "name \<noteq> []" "metaSubject os name = Inr s" "validateStreamName (os_stream os) = Inr n"
  shows "\<exists>l'. rawInfo (recording storing_server) A os name (w, l) = (((), l'), Inr (Some stored_ack))"
  using assms
  by (simp add: rawInfo_def checkNotEmpty_def require_def checked_def stream_getMessage_def and_then_def storing_request
      sm_data_def sm_seq_def sm_message_def truthy_def json_decode_def)
    (simp add: recording_def storing_server_def stored_ack_def fld_def number_of_def set_member_def put_prop_def delete_prop_def)

text \<open>A put of one array of three bytes in chunks of at most two.\<close>

definition sample_store :: object_store where
  "sample_store = \<lparr>os_name = ''b'', os_stream = ''OBJ_b''\<rparr>"

definition sample_put :: "((unit \<times> request_log) \<times> (js_error + json)) option" where
  "sample_put = os_put_object (recording storing_server) sample_api (pausing (\<lambda>n w. w)) (\<lambda>b. [of_nat (length b)]) (Some 2)
     sample_store (no_meta\<lparr>om_name := Some ''o''\<rparr>) (map Inr [[1, 2, 3]]) None None ''id'' ''t'' ((), [])"

lemma storing_chunk:
  "\<exists>st' l' a. publish_chunk (recording storing_server) A (pausing p) subj tmo n m st (w, l) = (st', ((), l'))
    \<and> up_proms st' = up_proms st @ [Inr a] \<and> up_db st' = fst (dq_drain m (up_db st))"
proof -
  have "publish_headers (no_pub_options\<lparr>pb_timeout := Some tmo\<rparr>) = Inr (new_hdrs 0 [])"
      "pb_retries (no_pub_options\<lparr>pb_timeout := Some tmo\<rparr>) = None"
    by (simp_all add: publish_headers_def no_pub_options_def set_text_def set_number_def headers_fn_def)
  from storing_publish [OF this] show ?thesis by (simp add: publish_chunk_def case_prod_beta)
qed

lemma storing_put_done:
  assumes "up_proms st = [Inr a]" "put_meta_headers prev = Inr h"
  shows "\<exists>W info. put_done (recording storing_server) A (pausing p) SHA os subj metaSubj tmo prev mtime info0 old st ((), l)
    = (W, Inr info)"
proof -
  obtain st' l1 where l: "put_last (recording storing_server) A (pausing p) subj tmo st ((), l) = (st', ((), l1))"
      "List.find Sum_Type.isl (up_proms st') = None"
    using assms(1) storing_chunk [of A p subj tmo "length (snd (dq_drain None (up_db st)))" None st "()" l]
    by (cases "dq_size (up_db st) > 0") (auto simp: put_last_def)
  have "publish_headers (no_pub_options\<lparr>pb_timeout := Some tmo, pb_headers := Some h\<rparr>) = Inr h"
      "pb_retries (no_pub_options\<lparr>pb_timeout := Some tmo, pb_headers := Some h\<rparr>) = None"
    by (simp_all add: publish_headers_def no_pub_options_def set_text_def set_number_def)
  from storing_publish [OF this] have m: "\<exists>l2 pa s. js_publish (recording storing_server) A (pausing p) metaSubj x
        (no_pub_options\<lparr>pb_timeout := Some tmo, pb_headers := Some h\<rparr>) ((), l1) = (((), l2), Inr pa) \<and> member ''seq'' pa = Inr s" for x
    by (fastforce simp: stored_ack_def put_prop_def member_def)
  obtain i where i: "put_info SHA mtime info0 st' = Inr i" by (simp add: put_info_def padded_encode_def base64_encode_def)
  obtain l2 pa s where "js_publish (recording storing_server) A (pausing p) metaSubj (json_encode (recording storing_server) (Some i))
        (no_pub_options\<lparr>pb_timeout := Some tmo, pb_headers := Some h\<rparr>) ((), l1) = (((), l2), Inr pa)" "member ''seq'' pa = Inr s"
    using m by blast
  then show ?thesis using l i assms(2)
    by (simp add: put_done_def and_then_def checked_def del: split_paired_Ex)
qed

lemma sample_stored: "\<exists>w' l info. sample_put = Some ((w', l), Inr info)"
proof -
  have "\<not> Sum_Type.isl (validateStreamName (os_stream sample_store))" "\<not> Sum_Type.isl (metaSubject sample_store ''o'')"
      "\<not> Sum_Type.isl (put_meta_headers None)" by code_simp+
  then obtain n s h where v: "validateStreamName (os_stream sample_store) = Inr n" and s: "metaSubject sample_store ''o'' = Inr s"
      and h: "put_meta_headers None = Inr h" by (metis sum.collapse(2))
  obtain l1 where r: "rawInfo (recording storing_server) sample_api sample_store ''o'' ((), []) = (((), l1), Inr (Some stored_ack))"
    using storing_raw_info [OF _ s v] by fastforce
  let ?subj = "chunkSubject sample_store ''id''" and ?tmo = "or_else None (ap_timeout sample_api)"
  obtain st l2 a where p: "publish_chunk (recording storing_server) sample_api (pausing (\<lambda>n w. w)) ?subj ?tmo 2 (Some 2)
        (new_put\<lparr>up_db := dq_fill [1, 2, 3] [] (up_db new_put)\<rparr>) ((), l1) = (st, ((), l2))" "up_proms st = [Inr a]"
      "dq_size (up_db st) = 1"
    using storing_chunk [of sample_api "\<lambda>n w. w" ?subj ?tmo 2 "Some 2" "new_put\<lparr>up_db := dq_fill [1, 2, 3] [] (up_db new_put)\<rparr>" "()" l1]
    by (auto simp: new_put_def new_data_buffer_def dq_fill_def dq_drain_def dq_pack_def dq_size_def)
  have "dq_size (dq_fill [1, 2, 3] [] (up_db new_put)) = 3" by (simp add: new_put_def new_data_buffer_def dq_fill_def dq_size_def)
  then have "put_reads (recording storing_server) sample_api (pausing (\<lambda>n w. w)) ?subj ?tmo 2 [Inr [1, 2, 3]] new_put ((), l1)
      = Some (st, ((), l2), None)"
    using p by (simp add: put_full.simps)
  moreover obtain ps where ps: "toServerObjectStoreMeta (no_meta\<lparr>om_name := Some ''o'',
      om_options := Some (put_prop ''max_chunk_size'' (J_Num 2) (J_Obj []))\<rparr>) = Inr ps"
    by (simp add: toServerObjectStoreMeta_def no_meta_def)
  moreover obtain w' l' info where "put_done (recording storing_server) sample_api (pausing (\<lambda>n w. w)) (\<lambda>b. [of_nat (length b)])
      sample_store ?subj s ?tmo None ''t'' (assign_props (J_Obj [(''bucket'', J_Str (os_name sample_store)), (''nuid'', J_Str ''id''),
        (''size'', J_Num 0), (''chunks'', J_Num 0)]) ps) (Some stored_ack) st ((), l2) = ((w', l'), Inr info)"
    using storing_put_done [OF p(2) h] by (metis surj_pair)
  ultimately show ?thesis
    using r s by (simp add: sample_put_def os_put_object_def Let_def chunk_size_def truthy_def no_meta_def)
qed

theorem object_round_trip_witness:
  "\<exists>w l info l0 cs s h l1 j d. sample_put = Some ((w, l), Inr info)
    \<and> l = l0 @ chunk_log (chunkSubject sample_store ''id'') cs @ (s, json_encode storing_server (Some j), Some h) # l1
    \<and> fld ''size'' info = Some (J_Num 3)
    \<and> open_object sample_store info = Inr (Chunked_Object info d (chunkSubject sample_store ''id''))"
proof -
  obtain w' l info where p: "sample_put = Some ((w', l), Inr info)" using sample_stored by blast
  have n: "0 < (2 :: nat)" "2 = chunk_size (Some 2) (om_options (no_meta\<lparr>om_name := Some ''o''\<rparr>))"
      "length ((\<lambda>b. [of_nat (length b) :: byte]) (concat [[1, 2, 3 :: byte]])) mod 3 \<noteq> 0" "concat [[1, 2, 3 :: byte]] \<noteq> []"
    by (simp_all add: chunk_size_def no_meta_def)
  have size: "int (length (concat [[1, 2, 3 :: byte]])) = 3" by simp
  from object_round_trip [OF n p [unfolded sample_put_def], unfolded size] p show ?thesis
    by (elim exE conjE, intro exI conjI) assumption+
qed

theorem get_gives_only_verified_bytes_witness:
  "\<exists>r u err. get_loop (\<lambda>b. [of_nat (length b)]) ''x'' [1] [sample_entry_msg ''k'' 0 None] new_reader False = (r, u, err)
    \<and> blob_of r err = Some (Inr [1])"
proof -
  have m: "msg_data (jm_msg (sample_entry_msg ''k'' 0 None)) = [1]"
    by (simp add: sample_entry_msg_def msg_data_def new_msg_def newMsgArg_def)
  have d: "delivered [sample_entry_msg ''k'' 0 None]" by (simp add: delivered_def sample_pending)
  let ?g = "get_loop (\<lambda>b. [of_nat (length b) :: byte]) ''x'' [1] [sample_entry_msg ''k'' 0 None] new_reader False"
  have g: "?g = (\<lparr>or_enqueued = [[1]], or_hashed = [1], or_state = Closed\<rparr>, True, None)"
    using get_delivered [OF d, of new_reader "\<lambda>b. [of_nat (length b) :: byte]" "[1]" "''x''" False] m
    by (simp add: new_reader_def del: get_loop.simps)
  then have b: "blob_of \<lparr>or_enqueued = [[1]], or_hashed = [1], or_state = Closed\<rparr> None = Some (Inr [1])"
    using drained_chunks [of "[[1]]"] by (simp add: blob_of_def)
  from get_gives_only_verified_bytes [OF g b] g b show ?thesis by blast
qed

section \<open>Putting ends\<close>

lemma publish_chunk_size:
  "dq_ok (up_db st) \<Longrightarrow> dq_ok (up_db (fst (publish_chunk E A pause subj tmo n (Some n) st w)))
    \<and> dq_size (up_db (fst (publish_chunk E A pause subj tmo n (Some n) st w))) = dq_size (up_db st) - n"
  using dq_drain_eq(3) [of "up_db st" "Some n"] dq_drain_ok [of "up_db st" "Some n"]
  by (simp add: publish_chunk_def case_prod_beta Let_def dq_size_def dq_ok_def)

lemma put_full_ends:
  assumes "dq_ok (up_db st)" "0 < n"
  shows "\<exists>st' w'. put_full E A pause subj tmo n st w = Some (st', w') \<and> dq_ok (up_db st')"
  using assms(1)
proof (induction "dq_size (up_db st)" arbitrary: st w rule: less_induct)
  case less
  obtain st1 w1 where c: "publish_chunk E A pause subj tmo n (Some n) st w = (st1, w1)" by fastforce
  then have "dq_ok (up_db st1)" "dq_size (up_db st1) = dq_size (up_db st) - n"
    using publish_chunk_size [OF less.prems, of E A pause subj tmo n w] by simp_all
  then show ?case
    using less.hyps [of st1 w1] less.prems c assms(2) by (subst (1) put_full.simps) auto
qed

lemma put_reads_ends:
  assumes "dq_ok (up_db st)" "0 < n"
  shows "\<exists>st' w' e. put_reads E A pause subj tmo n rs st w = Some (st', w', e)"
  using assms(1)
proof (induction rs arbitrary: st w)
  case (Cons r rs)
  show ?case
  proof (cases r)
    case (Inr v)
    obtain st1 w1 where "put_full E A pause subj tmo n (st\<lparr>up_db := dq_fill v [] (up_db st)\<rparr>) w = Some (st1, w1)" "dq_ok (up_db st1)"
      using put_full_ends [of "st\<lparr>up_db := dq_fill v [] (up_db st)\<rparr>" n] Cons.prems assms(2) by fastforce
    then show ?thesis using Inr Cons.IH by simp
  qed simp
qed simp

text \<open>
  A put returns, whatever the reader gives or how it fails, whatever the server answers, and
  for every chunk size the description can ask for but a negative one.
\<close>
theorem put_returns:
  assumes "\<And>opts k. om_options meta = Some opts \<Longrightarrow> fld ''max_chunk_size'' opts = Some (J_Num k) \<Longrightarrow> 0 \<le> k"
  shows "\<exists>w' r. os_put E A pause SHA max_payload os meta rs tmo prev i mtime w = Some (w', r)"
proof -
  have ok: "dq_ok (up_db new_put)" by (simp add: new_put_def new_data_buffer_def dq_ok_def dq_bytes_def)
  have n: "0 < chunk_size max_payload (om_options meta)" by (rule chunk_size_pos) (fact assms)
  obtain w1 r1 where "rawInfo E A os (case om_name meta of Some s \<Rightarrow> s | None \<Rightarrow> []) w = (w1, r1)" by fastforce
  moreover obtain st w2 e where
    "put_reads E A pause (chunkSubject os i) (or_else tmo (ap_timeout A)) (chunk_size max_payload (om_options meta)) rs new_put w1
       = Some (st, w2, e)"
    using put_reads_ends [OF ok n, of E A pause "chunkSubject os i" "or_else tmo (ap_timeout A)" rs w1] by (elim exE)
  ultimately have "os_put_object E A pause SHA max_payload os meta rs tmo prev i mtime w \<noteq> None"
    by (cases r1; cases e) (simp_all add: os_put_object_def Let_def case_prod_beta split: sum.split)
  then show ?thesis by (auto simp: os_put_def)
qed

theorem put_returns_witness:
  "\<exists>r. os_put (recording storing_server) sample_api (pausing (\<lambda>n w. w)) (\<lambda>b. b) None sample_store no_meta
     [Inr [1], Inl (Plain_Error ''reading failed'')] None None ''id'' ''t'' ((), []) = Some r"
  using put_returns [of no_meta "recording storing_server" sample_api "pausing (\<lambda>n w. w)" "\<lambda>b. b" None sample_store
      "[Inr [1], Inl (Plain_Error ''reading failed'')]" None None "''id''" "''t''" "((), [])"]
  by (auto simp: no_meta_def)

section \<open>Lists\<close>

definition item_values :: "'a item \<Rightarrow> 'a list" where
  "item_values x = (case x of Val v \<Rightarrow> [v] | Fn s t \<Rightarrow> [])"

definition watched :: "os_watch \<Rightarrow> json option list" where
  "watched k = concat (map item_values (qi_yields (ow_qi k)))"

definition watch_feed :: "'w api_env \<Rightarrow> bool \<Rightarrow> js_msg list \<Rightarrow> os_watch \<Rightarrow> os_watch" where
  "watch_feed E ign ms k = fold (\<lambda>m k. fst (os_watch_message E ign None (Some m) k)) ms k"

lemma watched_push:
  assumes "\<not> qi_done (ow_qi k)"
  shows "watched (ow_push v k) = watched k @ [v]" "\<not> qi_done (ow_qi (ow_push v k))"
    "ow_initialized (ow_push v k) = ow_initialized k"
  using assms by (simp_all add: watched_def ow_push_def qi_push_def item_values_def Let_def)

lemma watched_initialized: "watched (k\<lparr>ow_initialized := b\<rparr>) = watched k"
  by (simp add: watched_def)

definition carries_object :: "'w api_env \<Rightarrow> js_msg \<Rightarrow> json \<Rightarrow> bool" where
  "carries_object E m i \<longleftrightarrow> json_decode E (msg_data (jm_msg m)) = Inr i \<and> i \<noteq> J_Null"

abbreviation live :: "json \<Rightarrow> bool" where
  "live i \<equiv> \<not> truthy (fld ''deleted'' i)"

lemma watch_message_object:
  assumes "\<not> qi_done (ow_qi k)" "carries_object E m i" "info_pending m = Inr (Some n)"
  defines "k' \<equiv> fst (os_watch_message E True None (Some m) k)"
  shows "\<not> qi_done (ow_qi k')" "ow_initialized k' \<longleftrightarrow> ow_initialized k \<or> n = 0"
    "watched k' = watched k @ (if live i then [Some i] else []) @ (if n = 0 \<and> \<not> ow_initialized k then [None] else [])"
proof -
  have "member ''deleted'' i = Inr (fld ''deleted'' i)" using assms(2) by (auto simp: carries_object_def member_def fld_def split: json.splits)
  then show "\<not> qi_done (ow_qi k')" "ow_initialized k' \<longleftrightarrow> ow_initialized k \<or> n = 0"
    "watched k' = watched k @ (if live i then [Some i] else []) @ (if n = 0 \<and> \<not> ow_initialized k then [None] else [])"
    using assms by (auto simp: os_watch_message_def carries_object_def Let_def watched_push watched_initialized)
qed

lemma os_list_append: "os_list (map Some xs @ None # ys) = Some xs"
  by (induction xs) auto

lemma watch_feed_live:
  assumes "\<not> qi_done (ow_qi k)" "\<not> ow_initialized k" "ms \<noteq> []" "delivered ms" "list_all2 (carries_object E) ms is"
  shows "watched (watch_feed E True ms k) = watched k @ map Some (filter live is) @ [None]
    \<and> \<not> qi_done (ow_qi (watch_feed E True ms k)) \<and> ow_initialized (watch_feed E True ms k)"
  using assms
proof (induction ms arbitrary: k "is")
  case (Cons m ms)
  obtain i js where i: "is = i # js" "carries_object E m i" "list_all2 (carries_object E) ms js"
    using Cons.prems(5) by (cases "is") auto
  let ?k = "fst (os_watch_message E True None (Some m) k)"
  have d: "info_pending m = Inr (Some (int (length ms)))" "delivered ms" using Cons.prems(4) by (simp_all add: delivered_Cons)
  note s = watch_message_object [OF Cons.prems(1) i(2) d(1)]
  show ?case
  proof (cases "ms = []")
    case True
    then show ?thesis using i s Cons.prems(2) by (simp add: watch_feed_def)
  next
    case False
    then have "\<not> ow_initialized ?k" using s(2) Cons.prems(2) by simp
    from Cons.IH [OF s(1) this False d(2) i(3)] show ?thesis using s(3) i(1) False by (simp add: watch_feed_def)
  qed
qed simp

lemma watch_feed_more:
  assumes "\<not> qi_done (ow_qi k)" "ow_initialized k" "list_all2 (carries_object E) ms is" "\<forall>m \<in> set ms. \<exists>n. info_pending m = Inr (Some n)"
  shows "\<exists>ys. watched (watch_feed E True ms k) = watched k @ ys"
  using assms
proof (induction ms arbitrary: k "is")
  case (Cons m ms)
  obtain i js n where i: "is = i # js" "carries_object E m i" "list_all2 (carries_object E) ms js" "info_pending m = Inr (Some n)"
    using Cons.prems(3,4) by (cases "is") auto
  note s = watch_message_object [OF Cons.prems(1) i(2,4)]
  from Cons.IH [OF s(1) _ i(3)] show ?case using s(2,3) Cons.prems(2,4) by (auto simp: watch_feed_def)
qed (simp add: watch_feed_def)

text \<open>
  The list of a store is the descriptions of its objects that are not deleted, in the order in
  which the stream delivers the last message of each name, and what is put while the list is made does not
  change it.
\<close>
theorem list_is_the_live_objects:
  assumes "ms \<noteq> []" "delivered ms" "list_all2 (carries_object E) ms is" "list_all2 (carries_object E) later js"
    "\<forall>m \<in> set later. \<exists>n. info_pending m = Inr (Some n)"
  shows "os_list (watched (watch_feed E True (ms @ later) (os_watch_start (Inr sm) True))) = Some (filter live is)"
proof -
  let ?k = "os_watch_start (Inr sm) True"
  have k: "\<not> qi_done (ow_qi ?k)" "\<not> ow_initialized ?k" "watched ?k = []"
    by (simp_all add: os_watch_start_def new_os_watch_def new_qiter_def watched_def)
  note f = watch_feed_live [OF k(1,2) assms(1-3)]
  then obtain ys where "watched (watch_feed E True later (watch_feed E True ms ?k)) = watched (watch_feed E True ms ?k) @ ys"
    using watch_feed_more [OF _ _ assms(4,5)] by blast
  then show ?thesis using f k(3) os_list_append [of "filter live is" ys] by (simp add: watch_feed_def)
qed

theorem list_is_the_live_objects_witness:
  "os_list (watched (watch_feed storing_server True ([sample_entry_msg ''k'' 0 None] @ [sample_entry_msg ''k'' 0 None])
     (os_watch_start (Inr \<lparr>sm_smr = J_Null\<rparr>) True))) = Some [stored_ack]"
proof -
  have c: "list_all2 (carries_object storing_server) [sample_entry_msg ''k'' 0 None] [stored_ack]"
    by (simp add: carries_object_def json_decode_def storing_server_def stored_ack_def)
  have d: "delivered [sample_entry_msg ''k'' 0 None]" by (simp add: delivered_def sample_pending)
  have "live stored_ack" by (simp add: stored_ack_def fld_def truthy_def)
  then show ?thesis using list_is_the_live_objects [OF _ d c c, of "\<lparr>sm_smr = J_Null\<rparr>"] by (simp add: sample_pending)
qed

end
