(* ===== verification/Pull_Consumer.thy ===== *)
theory Pull_Consumer
  imports Js_Fetch Sha_Digest
begin

text \<open>
  The messages of a pull consumer, \<open>PullConsumerMessagesImpl\<close> and \<open>PullConsumerImpl\<close> of
  \<open>jetstream/consumer.ts\<close>. The object counts what it asked for and did not get yet, and asks
  for more when that falls to a threshold. It is an iterator whose queue holds messages and
  functions (requests and the end); with a callback the functions run at once. Counts are
  numbers of the runtime: \<open>None\<close> is \<open>NaN\<close>, which a malformed status can produce. A callback is
  given by what it throws; it does not call back into the object.
\<close>

section \<open>Numbers\<close>

type_synonym num = "int option"

fun num_add :: "num \<Rightarrow> num \<Rightarrow> num" where
  "num_add (Some a) (Some b) = Some (a + b)"
| "num_add _ _ = None"

fun num_sub :: "num \<Rightarrow> num \<Rightarrow> num" where
  "num_sub (Some a) (Some b) = Some (a - b)"
| "num_sub _ _ = None"

definition num_positive :: "num \<Rightarrow> bool" where
  "num_positive a = (case a of Some n \<Rightarrow> n > 0 | None \<Rightarrow> False)"

definition num_truthy :: "num \<Rightarrow> bool" where
  "num_truthy a = (case a of Some n \<Rightarrow> n \<noteq> 0 | None \<Rightarrow> False)"

definition num_le :: "num \<Rightarrow> int \<Rightarrow> bool" where
  "num_le a b = (case a of Some n \<Rightarrow> n \<le> b | None \<Rightarrow> False)"

definition num_json :: "num \<Rightarrow> json" where
  "num_json a = (case a of Some n \<Rightarrow> J_Num n | None \<Rightarrow> J_Null)"

text \<open>\<open>parseInt\<close> without a radix also reads hexadecimal texts.\<close>

definition parse_int_any :: "string \<Rightarrow> num" where
  "parse_int_any s =
     (let t = trim_start s;
          neg = (t \<noteq> [] \<and> hd t = CHR ''-'');
          u = (if t \<noteq> [] \<and> (hd t = CHR ''-'' \<or> hd t = CHR ''+'') then tl t else t)
      in if take 2 u = ''0x'' \<or> take 2 u = ''0X''
         then let hs = takeWhile (\<lambda>c. lower_hex c \<or> upper_hex c) (drop 2 u)
              in if hs = [] then None
                 else Some ((if neg then - 1 else 1) * int (js_round (foldl (\<lambda>n c. 16 * n + hex_digit c) 0 hs)))
         else parse_int s)"

section \<open>Options\<close>

text \<open>An absent option is 0, as everywhere in the code. The idle heartbeat is in nanoseconds, since half of an
  odd number of milliseconds is not a whole number of them.\<close>

record pull_opts =
  po_max_messages :: int
  po_max_bytes :: int
  po_expires :: int
  po_idle_heartbeat :: int
  po_threshold_messages :: int
  po_threshold_bytes :: int
  po_abort :: bool
  po_bind :: bool
  po_callback :: "(js_msg \<Rightarrow> js_error option) option"

definition three_quarters :: "int \<Rightarrow> int" where
  "three_quarters n = (let r = (3 * n + 2) div 4 in if r = 0 then 1 else r)"

text \<open>The options are the object of the caller, which \<open>parseOptions\<close> changes: what it returns
  is also what a second use of them starts with.\<close>

definition parseOptions :: "bool \<Rightarrow> pull_opts \<Rightarrow> js_error + pull_opts" where
  "parseOptions refilling args =
     rbind (require (\<not> (po_max_messages args \<noteq> 0 \<and> po_max_bytes args \<noteq> 0))
              ''only specify one of max_messages or max_bytes'') (\<lambda>_.
     let args1 = (if po_max_messages args = 0 then args\<lparr>po_max_messages := 100\<rparr> else args);
         args2 = (if po_expires args1 = 0 then args1\<lparr>po_expires := 30000\<rparr> else args1) in
     rbind (require (\<not> po_expires args2 < 1000) ''expires should be at least 1000ms'') (\<lambda>_.
     let hb = (if po_idle_heartbeat args2 = 0 then po_expires args2 * 500000 else po_idle_heartbeat args2);
         args3 = args2\<lparr>po_idle_heartbeat := (if hb > 30000 * 1000000 then 30000 * 1000000 else hb)\<rparr>
     in Inr (if refilling
             then args3\<lparr>po_threshold_messages := (if po_threshold_messages args3 = 0 then three_quarters (po_max_messages args3)
                          else po_threshold_messages args3),
                        po_threshold_bytes := (if po_threshold_bytes args3 = 0 then three_quarters (po_max_bytes args3)
                          else po_threshold_bytes args3)\<rparr>
             else args3)))"

section \<open>State\<close>

datatype consumer_event =
    CE_HeartbeatsMissed | CE_ConsumerNotFound | CE_StreamNotFound | CE_ConsumerDeleted
  | CE_OrderedConsumerRecreated | CE_NoResponders

datatype consumer_debug_event = CD_DebugEvent | CD_Discard | CD_Reset | CD_Next

fun event_string :: "consumer_event \<Rightarrow> string" where
  "event_string CE_HeartbeatsMissed = ''heartbeats_missed''"
| "event_string CE_ConsumerNotFound = ''consumer_not_found''"
| "event_string CE_StreamNotFound = ''stream_not_found''"
| "event_string CE_ConsumerDeleted = ''consumer_deleted''"
| "event_string CE_OrderedConsumerRecreated = ''ordered_consumer_recreated''"
| "event_string CE_NoResponders = ''no_responders''"

fun debug_string :: "consumer_debug_event \<Rightarrow> string" where
  "debug_string CD_DebugEvent = ''debug''"
| "debug_string CD_Discard = ''discard''"
| "debug_string CD_Reset = ''reset''"
| "debug_string CD_Next = ''next''"

text \<open>The functions that are pushed: \<open>this.stop()\<close>, a request, and the end of the iterator.\<close>

datatype pull_fn = PF_Stop | PF_Pull json | PF_Finish "js_error option"

record pull_msgs =
  pm_qi :: "(js_msg + pull_fn) qiter"
  pm_stream :: string
  pm_name :: string
  pm_opts :: pull_opts
  pm_sub :: nat
  pm_monitor :: "idle_monitor option"
  pm_msgs :: num
  pm_bytes :: num
  pm_requests :: int
  pm_inbox :: string
  pm_refilling :: bool
  pm_timeout :: bool
  pm_listeners :: "(string \<times> json) qiter list"
  pm_status_stopped :: bool
  pm_forOrdered :: bool
  pm_resetHandler :: bool
  pm_inBackOff :: bool
  pm_calls :: "js_msg list"
  pm_resets :: nat

abbreviation pm_callback :: "pull_msgs \<Rightarrow> (js_msg \<Rightarrow> js_error option) option" where
  "pm_callback p \<equiv> po_callback (pm_opts p)"

definition enqueue :: "'a \<Rightarrow> 'a qiter \<Rightarrow> 'a qiter" where
  "enqueue v = qi_push (\<lambda>_. (True, False)) (Val v)"

definition pm_notify :: "string \<Rightarrow> json \<Rightarrow> pull_msgs \<Rightarrow> pull_msgs" where
  "pm_notify ev data p = p\<lparr>pm_listeners := map (\<lambda>l. if qi_done l then l else enqueue (ev, data) l) (pm_listeners p)\<rparr>"

definition pm_clearTimers :: "pull_msgs \<Rightarrow> pull_msgs" where
  "pm_clearTimers p = p\<lparr>pm_monitor := None, pm_timeout := False\<rparr>"

definition unsubscribe_of :: "nat \<Rightarrow> connection \<Rightarrow> connection" where
  "unsubscribe_of i nc = nc\<lparr>nc_protocol := pr_unsubscribe i None (nc_protocol nc)\<rparr>"

section \<open>The end\<close>

definition pm_finish :: "js_error option \<Rightarrow> pull_msgs \<Rightarrow> pull_msgs" where
  "pm_finish err p = p\<lparr>pm_qi := qi_stop err (pm_qi p), pm_listeners := map (qi_stop None) (pm_listeners p)\<rparr>"

definition pm_stop :: "js_error option \<Rightarrow> pull_msgs \<Rightarrow> connection \<Rightarrow> pull_msgs \<times> connection" where
  "pm_stop err p nc =
     (if qi_done (pm_qi p) then (p, nc)
      else let nc1 = unsubscribe_of (pm_sub p) nc;
               p1 = (pm_clearTimers p)\<lparr>pm_status_stopped := True\<rparr>
           in (case pm_callback p1 of
                 None \<Rightarrow> p1\<lparr>pm_qi := enqueue (Inr (PF_Finish err)) (pm_qi p1)\<rparr>
               | Some cb \<Rightarrow> pm_finish err p1, nc1))"

section \<open>Functions and messages\<close>

definition run_pull_fn ::
  "'w api_env \<Rightarrow> api \<Rightarrow> pull_fn \<Rightarrow> pull_msgs \<Rightarrow> connection \<Rightarrow> pull_msgs \<times> connection \<times> (js_error + unit)" where
  "run_pull_fn E A fn p nc =
     (case fn of
        PF_Stop \<Rightarrow> (let (p1, nc1) = pm_stop None p nc in (p1, nc1, Inr ()))
      | PF_Finish e \<Rightarrow> (pm_finish e p, nc, Inr ())
      | PF_Pull opts \<Rightarrow>
          (case nc_publish (ap_prefix A @ ''.CONSUMER.MSG.NEXT.'' @ pm_stream p @ ''.'' @ pm_name p)
                  (P_Bytes (json_encode E (Some opts))) (pm_inbox p) None nc of
             (nc1, Inl e) \<Rightarrow> (p, nc1, Inl e)
           | (nc1, Inr _) \<Rightarrow> (pm_notify (debug_string CD_Next) opts p, nc1, Inr ())))"

definition pm_push_fn ::
  "'w api_env \<Rightarrow> api \<Rightarrow> pull_fn \<Rightarrow> pull_msgs \<Rightarrow> connection \<Rightarrow> pull_msgs \<times> connection" where
  "pm_push_fn E A fn p nc =
     (case pm_callback p of
        None \<Rightarrow> (p\<lparr>pm_qi := enqueue (Inr fn) (pm_qi p)\<rparr>, nc)
      | Some cb \<Rightarrow>
          (case run_pull_fn E A fn p nc of
             (p1, nc1, Inr _) \<Rightarrow> (p1, nc1)
           | (p1, nc1, Inl e) \<Rightarrow> pm_stop (Some e) p1 nc1))"

definition pm_push_msg :: "js_msg \<Rightarrow> pull_msgs \<Rightarrow> connection \<Rightarrow> pull_msgs \<times> connection" where
  "pm_push_msg m p nc =
     (case pm_callback p of
        None \<Rightarrow> (p\<lparr>pm_qi := enqueue (Inl m) (pm_qi p)\<rparr>, nc)
      | Some cb \<Rightarrow>
          let p1 = p\<lparr>pm_calls := pm_calls p @ [m]\<rparr>
          in (case cb m of None \<Rightarrow> (p1, nc) | Some e \<Rightarrow> pm_stop (Some e) p1 nc))"

section \<open>Requests\<close>

definition pullOptions :: "pull_msgs \<Rightarrow> num \<times> num" where
  "pullOptions p = (num_sub (Some (po_max_messages (pm_opts p))) (pm_msgs p),
     num_sub (Some (po_max_bytes (pm_opts p))) (pm_bytes p))"

definition pull_json :: "num \<Rightarrow> num \<Rightarrow> pull_opts \<Rightarrow> json" where
  "pull_json batch max_bytes opts =
     J_Obj [(''batch'', num_json batch), (''max_bytes'', num_json max_bytes),
            (''idle_heartbeat'', J_Num (po_idle_heartbeat opts)), (''expires'', J_Num (po_expires opts * 1000000))]"

definition pm_pull :: "'w api_env \<Rightarrow> api \<Rightarrow> pull_msgs \<Rightarrow> connection \<Rightarrow> pull_msgs \<times> connection" where
  "pm_pull E A p nc =
     (let (batch, max_bytes) = pullOptions p
      in pm_push_fn E A (PF_Pull (pull_json batch max_bytes (pm_opts p)))
           (p\<lparr>pm_bytes := num_add (pm_bytes p) max_bytes, pm_msgs := num_add (pm_msgs p) batch,
              pm_requests := pm_requests p + 1\<rparr>) nc)"

section \<open>Messages from the server\<close>

definition discard_count :: "string \<Rightarrow> msg_hdrs option \<Rightarrow> js_error + num" where
  "discard_count k hs =
     (case hs of
        None \<Rightarrow> Inr (Some 0)
      | Some h \<Rightarrow> rbind (hdr_get h k Exact) (\<lambda>v. Inr (case v of
            Some s \<Rightarrow> if s \<noteq> [] then parse_int_any s else Some 0 | None \<Rightarrow> Some 0)))"

definition parseDiscard :: "msg_hdrs option \<Rightarrow> js_error + num \<times> num" where
  "parseDiscard hs =
     rbind (discard_count ''Nats-Pending-Messages'' hs) (\<lambda>m.
     rbind (discard_count ''Nats-Pending-Bytes'' hs) (\<lambda>b. Inr (m, b)))"

definition status_code :: "msg_hdrs option \<Rightarrow> num" where
  "status_code hs = map_option hd_code hs"

definition code_text :: "num \<Rightarrow> string" where
  "code_text c = (case c of Some n \<Rightarrow> show_int n | None \<Rightarrow> ''undefined'')"

definition status_description :: "msg_hdrs option \<Rightarrow> string" where
  "status_description hs =
     (case hs of Some h \<Rightarrow> if hd_description h \<noteq> [] then to_lower (hd_description h) else ''unknown'' | None \<Rightarrow> ''unknown'')"

text \<open>A status: the flag says whether the handler goes on.\<close>

definition pull_status :: "msg_hdrs option \<Rightarrow> pull_msgs \<Rightarrow> connection \<Rightarrow> pull_msgs \<times> connection \<times> bool" where
  "pull_status hs p nc =
     (let code = status_code hs; descr = status_description hs; ends = (\<not> pm_refilling p \<or> po_abort (pm_opts p));
          stop = (\<lambda>d p. let (p1, nc1) = pm_stop (Some (nats_error d (code_text code) None)) p nc in (p1, nc1, False))
      in if code = Some 400 then stop descr p
         else if code = Some 409 \<and> descr = ''consumer deleted''
         then let p1 = pm_notify (event_string CE_ConsumerDeleted) (J_Str (code_text code @ '' '' @ descr)) p
              in if ends then stop descr p1 else (p1, nc, True)
         else if code = Some 503
         then let p1 = pm_notify (event_string CE_NoResponders) (J_Str (code_text code @ '' No Responders'')) p
              in if ends then stop ''no responders'' p1 else (p1, nc, True)
         else (pm_notify (debug_string CD_DebugEvent) (J_Str (code_text code @ '' '' @ descr)) p, nc, True))"

definition pull_protocol ::
  "nats_msg \<Rightarrow> pull_msgs \<Rightarrow> connection \<Rightarrow> pull_msgs \<times> connection \<times> (js_error + bool)" where
  "pull_protocol msg p nc =
     (case isHeartbeatMsg msg of
        Inl e \<Rightarrow> (p, nc, Inl e)
      | Inr True \<Rightarrow> (p, nc, Inr False)
      | Inr False \<Rightarrow>
          (case rbind (msg_headers msg) (\<lambda>hs. rbind (parseDiscard hs) (\<lambda>d. Inr (hs, d))) of
             Inl e \<Rightarrow> (p, nc, Inl e)
           | Inr (hs, msgsLeft, bytesLeft) \<Rightarrow>
               if num_positive msgsLeft \<or> num_positive bytesLeft
               then (pm_notify (debug_string CD_Discard)
                       (J_Obj [(''msgsLeft'', num_json msgsLeft), (''bytesLeft'', num_json bytesLeft)])
                       (p\<lparr>pm_msgs := num_sub (pm_msgs p) msgsLeft, pm_bytes := num_sub (pm_bytes p) bytesLeft,
                          pm_requests := pm_requests p - 1\<rparr>), nc, Inr True)
               else (let (p1, nc1, go) = pull_status hs p nc in (p1, nc1, Inr go))))"

definition pull_user :: "api \<Rightarrow> nats_msg \<Rightarrow> pull_msgs \<Rightarrow> connection \<Rightarrow> pull_msgs \<times> connection" where
  "pull_user A msg p nc =
     (let (p1, nc1) = pm_push_msg (toJsMsg msg (ap_timeout A)) p nc
      in (p1\<lparr>pm_qi := (pm_qi p1)\<lparr>qi_received := qi_received (pm_qi p1) + 1\<rparr>,
             pm_msgs := (if num_truthy (pm_msgs p1) then num_sub (pm_msgs p1) (Some 1) else pm_msgs p1),
             pm_bytes := (if num_truthy (pm_bytes p1) then num_sub (pm_bytes p1) (Some (msg_size msg)) else pm_bytes p1)\<rparr>,
          nc1))"

text \<open>After a message: whether more is to be asked for, or everything came.\<close>

definition starving :: "pull_msgs \<Rightarrow> bool" where
  "starving p \<longleftrightarrow>
     (po_max_messages (pm_opts p) \<noteq> 0 \<and> num_le (pm_msgs p) (po_threshold_messages (pm_opts p)))
     \<or> (po_max_bytes (pm_opts p) \<noteq> 0 \<and> num_le (pm_bytes p) (po_threshold_bytes (pm_opts p)))"

definition pull_after :: "'w api_env \<Rightarrow> api \<Rightarrow> pull_msgs \<Rightarrow> connection \<Rightarrow> pull_msgs \<times> connection" where
  "pull_after E A p nc =
     (let p1 = (if pm_msgs p = Some 0 \<and> pm_bytes p = Some 0 then p\<lparr>pm_requests := 0\<rparr> else p)
      in if pm_refilling p1 then (if starving p1 then pm_pull E A p1 nc else (p1, nc))
         else if pm_requests p1 = 0 then pm_push_fn E A PF_Stop p1 nc
         else (p1, nc))"

definition pull_message ::
  "'w api_env \<Rightarrow> api \<Rightarrow> nat \<Rightarrow> js_error option \<Rightarrow> nats_msg \<Rightarrow> pull_msgs \<Rightarrow> connection
    \<Rightarrow> pull_msgs \<times> connection \<times> (js_error + unit)" where
  "pull_message E A now err msg p nc =
     (case err of
        Some e \<Rightarrow> (let (p1, nc1) = pm_stop (Some e) p nc in (p1, nc1, Inr ()))
      | None \<Rightarrow>
          let p0 = p\<lparr>pm_monitor := map_option (im_work now) (pm_monitor p)\<rparr>;
              (p1, nc1, r) = (if msg_subject msg = pm_inbox p0 then pull_protocol msg p0 nc
                              else let (p1, nc1) = pull_user A msg p0 nc in (p1, nc1, Inr True))
          in (case r of
                Inl e \<Rightarrow> (p1, nc1, Inl e)
              | Inr False \<Rightarrow> (p1, nc1, Inr ())
              | Inr True \<Rightarrow> (let (p2, nc2) = pull_after E A p1 nc1 in (p2, nc2, Inr ()))))"


text \<open>The subscription closed: when it was draining, what is queued is still presented.\<close>

definition pull_closed :: "'w api_env \<Rightarrow> api \<Rightarrow> bool \<Rightarrow> pull_msgs \<Rightarrow> connection \<Rightarrow> pull_msgs \<times> connection" where
  "pull_closed E A draining p nc = (if draining then pm_push_fn E A PF_Stop p nc else (p, nc))"

section \<open>The reader\<close>

text \<open>The iterator is left with an error or without one: its \<open>finally\<close> block calls \<open>stop\<close>, which here is the one of this
  class and only queues the end.\<close>

definition pm_leave :: "js_error option \<Rightarrow> pull_msgs \<Rightarrow> connection \<Rightarrow> pull_msgs \<times> connection" where
  "pm_leave e p nc =
     (let (p1, nc1) = pm_stop None p nc in (p1\<lparr>pm_qi := (pm_qi p1)\<lparr>qi_pc := Finished e\<rparr>\<rparr>, nc1))"

text \<open>One step of the iterator. A function of the batch is called; messages are yielded.\<close>

definition pull_step ::
  "'w api_env \<Rightarrow> api \<Rightarrow> pull_msgs \<Rightarrow> connection \<Rightarrow> pull_msgs \<times> connection \<times> js_msg option" where
  "pull_step E A p nc =
     (case qi_pc (pm_qi p) of
        Finished e \<Rightarrow> (p, nc, None)
      | In_Batch (Val (Inr fn) # rest) \<Rightarrow>
          (let (p1, nc1, r) = run_pull_fn E A fn (p\<lparr>pm_qi := (pm_qi p)\<lparr>qi_pc := In_Batch rest\<rparr>\<rparr>) nc
           in (case r of
                 Inl e \<Rightarrow> (let (p2, nc2) = pm_leave (Some e) p1 nc1 in (p2, nc2, None))
               | Inr _ \<Rightarrow>
                   if qi_err (pm_qi p1) \<noteq> None
                   then (let (p2, nc2) = pm_leave (qi_err (pm_qi p1)) p1 nc1 in (p2, nc2, None))
                   else (p1, nc1, None)))
      | _ \<Rightarrow>
          (let (q, y) = qi_step (\<lambda>_. True) (pm_qi p)
           in (case qi_pc q of
                 Finished e \<Rightarrow> (let (p1, nc1) = pm_leave e p nc in (p1, nc1, None))
               | _ \<Rightarrow> (p\<lparr>pm_qi := q\<rparr>, nc, case y of Some (Inl m) \<Rightarrow> Some m | _ \<Rightarrow> None))))"

definition pull_break :: "pull_msgs \<Rightarrow> connection \<Rightarrow> pull_msgs \<times> connection" where
  "pull_break p nc = (case qi_pc (pm_qi p) of Yielded v rest \<Rightarrow> pm_leave None p nc | _ \<Rightarrow> (p, nc))"

section \<open>Resets\<close>

definition repull :: "'w api_env \<Rightarrow> api \<Rightarrow> pull_msgs \<Rightarrow> connection \<Rightarrow> pull_msgs \<times> connection" where
  "repull E A p nc = pm_pull E A (p\<lparr>pm_msgs := Some 0, pm_bytes := Some 0, pm_requests := 0\<rparr>) nc"

definition resetPendingNoInfo :: "'w api_env \<Rightarrow> api \<Rightarrow> pull_msgs \<Rightarrow> connection \<Rightarrow> pull_msgs \<times> connection \<times> bool" where
  "resetPendingNoInfo E A p nc = (let (p1, nc1) = repull E A p nc in (p1, nc1, True))"

text \<open>The loop of \<open>resetPendingWithInfo\<close>, turn by turn: between its turns anything may happen. Its own state
  are the two counts and the number of the attempt; a turn returns, or goes on after
  a delay. \<open>r\<close> is the answer to the request for the consumer.\<close>

record reset_loop =
  rl_notFound :: nat
  rl_streamNotFound :: nat
  rl_attempt :: nat

definition new_reset_loop :: reset_loop where
  "new_reset_loop = \<lparr>rl_notFound = 0, rl_streamNotFound = 0, rl_attempt = 0\<rparr>"

definition reset_enter :: "pull_msgs \<Rightarrow> bool + reset_loop" where
  "reset_enter p = (if pm_inBackOff p then Inl False else Inr new_reset_loop)"

definition reset_check :: "pull_msgs \<Rightarrow> connection \<Rightarrow> bool option" where
  "reset_check p nc = (if qi_done (pm_qi p) \<or> nc_isClosed nc then Some False else None)"

definition reset_failed :: "js_error \<Rightarrow> reset_loop \<Rightarrow> pull_msgs \<Rightarrow> connection \<Rightarrow> pull_msgs \<times> connection \<times> (bool + reset_loop)" where
  "reset_failed err l p nc =
     (let ends = (\<not> pm_refilling p \<or> po_abort (pm_opts p));
          quit = (\<lambda>p. let (p1, nc1) = pm_stop (Some err) p nc in (p1, nc1, Inl False));
          again = (\<lambda>l p. (p\<lparr>pm_inBackOff := True\<rparr>, nc, Inr (l\<lparr>rl_attempt := rl_attempt l + 1\<rparr>)))
      in if err_message err = ''stream not found''
         then let l1 = l\<lparr>rl_streamNotFound := rl_streamNotFound l + 1\<rparr>;
                  p1 = pm_notify (event_string CE_StreamNotFound) (J_Num (int (rl_streamNotFound l1))) p
              in if ends then quit p1 else again l1 p1
         else if err_message err = ''consumer not found''
         then let l1 = l\<lparr>rl_notFound := rl_notFound l + 1\<rparr>;
                  p1 = pm_notify (event_string CE_ConsumerNotFound) (J_Num (int (rl_notFound l1))) p;
                  p2 = (if pm_resetHandler p1 then p1\<lparr>pm_resets := pm_resets p1 + 1\<rparr> else p1)
              in if ends then quit p2
                 else if pm_forOrdered p2 then (p2, nc, Inl False)
                 else again l1 p2
         else again (l\<lparr>rl_notFound := 0, rl_streamNotFound := 0\<rparr>) p)"

definition reset_turn ::
  "'w api_env \<Rightarrow> api \<Rightarrow> js_error + json \<Rightarrow> reset_loop \<Rightarrow> pull_msgs \<Rightarrow> connection
    \<Rightarrow> pull_msgs \<times> connection \<times> (bool + reset_loop)" where
  "reset_turn E A r l p nc =
     (case r of
        Inr info \<Rightarrow> (let (p1, nc1) = repull E A (p\<lparr>pm_inBackOff := False\<rparr>) nc in (p1, nc1, Inl True))
      | Inl err \<Rightarrow> reset_failed err l p nc)"

text \<open>The delay before the next turn, \<open>backoff([expires])\<close>, is drawn around the time a request lasts.\<close>

definition reset_delay :: "pull_msgs \<Rightarrow> reset_loop \<Rightarrow> nat \<Rightarrow> nat option" where
  "reset_delay p l rnd = backoff [nat (po_expires (pm_opts p))] rnd (rl_attempt l)"

text \<open>The heartbeat monitor fires; when heartbeats are missed a reset is due.\<close>

definition pull_tick :: "nat \<Rightarrow> pull_msgs \<Rightarrow> pull_msgs \<times> bool" where
  "pull_tick now p =
     (case pm_monitor p of
        None \<Rightarrow> (p, False)
      | Some m \<Rightarrow>
          (case im_tick (\<lambda>_. False) now m of
             (m1, None) \<Rightarrow> (p\<lparr>pm_monitor := Some m1\<rparr>, False)
           | (m1, Some n) \<Rightarrow>
               (pm_notify (event_string CE_HeartbeatsMissed) (J_Num (int n)) (p\<lparr>pm_monitor := Some m1\<rparr>), True)))"

text \<open>The status of the connection: a disconnect pauses the monitor, and a reset that follows a
  reconnect resumes it when it succeeds.\<close>

definition pull_disconnected :: "pull_msgs \<Rightarrow> pull_msgs" where
  "pull_disconnected p = (if pm_status_stopped p then p else p\<lparr>pm_monitor := map_option im_cancel (pm_monitor p)\<rparr>)"

definition pull_resumed :: "bool \<Rightarrow> pull_msgs \<Rightarrow> pull_msgs" where
  "pull_resumed ok p = (if ok then p\<lparr>pm_monitor := map_option im_restart (pm_monitor p)\<rparr> else p)"

section \<open>The constructor and the operations of a consumer\<close>

definition new_pull_msgs :: "string \<Rightarrow> string \<Rightarrow> string \<Rightarrow> nat \<Rightarrow> pull_opts \<Rightarrow> bool \<Rightarrow> pull_msgs" where
  "new_pull_msgs stream name inbox i opts refilling =
     \<lparr>pm_qi = new_qiter\<lparr>qi_noIterator := po_callback opts \<noteq> None\<rparr>, pm_stream = stream, pm_name = name,
      pm_opts = opts, pm_sub = i, pm_monitor = None, pm_msgs = Some 0, pm_bytes = Some 0, pm_requests = 0,
      pm_inbox = inbox, pm_refilling = refilling, pm_timeout = False, pm_listeners = [],
      pm_status_stopped = False, pm_forOrdered = False, pm_resetHandler = False,
      pm_inBackOff = False, pm_calls = [], pm_resets = 0\<rparr>"

definition pull_sub_opts :: sub_opts where
  "pull_sub_opts = \<lparr>so_queue = None, so_max = None, so_timeout = None, so_callback = True\<rparr>"

text \<open>\<open>start\<close>: it subscribes, starts the monitor and makes the first request.\<close>

definition pull_start :: "'w api_env \<Rightarrow> api \<Rightarrow> nat \<Rightarrow> pull_msgs \<Rightarrow> connection \<Rightarrow> connection \<times> (js_error + pull_msgs)" where
  "pull_start E A now p nc =
     (case nc_subscribe (pm_sub p) (pm_inbox p) pull_sub_opts nc of
        (nc1, Inl e) \<Rightarrow> (nc1, Inl e)
      | (nc1, Inr _) \<Rightarrow>
          let hb = po_idle_heartbeat (pm_opts p);
              p1 = (if hb \<noteq> 0 then p\<lparr>pm_monitor := Some (new_idle_monitor now (nat (hb div 1000000)) (Some 2) None)\<rparr> else p);
              (p2, nc2) = pm_pull E A p1 nc1
          in (nc2, Inr p2))"

definition pull_construct ::
  "'w api_env \<Rightarrow> api \<Rightarrow> string \<Rightarrow> nat \<Rightarrow> nat \<Rightarrow> string \<Rightarrow> string \<Rightarrow> pull_opts \<Rightarrow> bool \<Rightarrow> connection
    \<Rightarrow> connection \<times> (js_error + pull_msgs)" where
  "pull_construct E A tok now i stream name opts refilling nc =
     (case rbind (parseOptions refilling opts) (\<lambda>o'. rbind (createInbox tok (inbox_prefix nc)) (\<lambda>inbox. Inr (o', inbox))) of
        Inl e \<Rightarrow> (nc, Inl e)
      | Inr (o', inbox) \<Rightarrow> pull_start E A now (new_pull_msgs stream name inbox i o' refilling) nc)"

definition pull_close :: "pull_msgs \<Rightarrow> connection \<Rightarrow> pull_msgs \<times> connection" where
  "pull_close p nc = pm_stop None p nc"

definition pull_status_iter :: "pull_msgs \<Rightarrow> pull_msgs" where
  "pull_status_iter p = p\<lparr>pm_listeners := pm_listeners p @ [new_qiter]\<rparr>"

record pull_consumer =
  pc_info :: json
  pc_stream :: string
  pc_name :: string

definition new_pull_consumer :: "json \<Rightarrow> pull_consumer" where
  "new_pull_consumer info =
     \<lparr>pc_info = info, pc_stream = text_or_empty (fld ''stream_name'' info), pc_name = text_or_empty (fld ''name'' info)\<rparr>"

definition pc_consume ::
  "'w api_env \<Rightarrow> api \<Rightarrow> string \<Rightarrow> nat \<Rightarrow> nat \<Rightarrow> pull_opts \<Rightarrow> pull_consumer \<Rightarrow> connection
    \<Rightarrow> connection \<times> (js_error + pull_msgs)" where
  "pc_consume E A tok now i opts c nc = pull_construct E A tok now i (pc_stream c) (pc_name c) opts True nc"

text \<open>The time a fetch or a next is given, a twentieth more than the request lasts, rounded.\<close>

definition padded :: "int \<Rightarrow> int" where
  "padded expires = (expires * 105 + 50) div 100"

definition pc_fetch ::
  "'w api_env \<Rightarrow> api \<Rightarrow> string \<Rightarrow> nat \<Rightarrow> nat \<Rightarrow> pull_opts \<Rightarrow> pull_consumer \<Rightarrow> connection
    \<Rightarrow> connection \<times> (js_error + int \<times> pull_msgs)" where
  "pc_fetch E A tok now i opts c nc =
     (case pull_construct E A tok now i (pc_stream c) (pc_name c) opts False nc of
        (nc1, Inl e) \<Rightarrow> (nc1, Inl e)
      | (nc1, Inr p) \<Rightarrow> (nc1, Inr (padded (po_expires (pm_opts p)), p\<lparr>pm_timeout := True\<rparr>)))"

text \<open>The timer of a fetch.\<close>

definition fetch_timer :: "pull_msgs \<Rightarrow> connection \<Rightarrow> pull_msgs \<times> connection" where
  "fetch_timer p nc = (if pm_timeout p then pull_close p nc else (p, nc))"

section \<open>The next message\<close>

text \<open>The promise of \<open>next\<close> is settled by the first that happens.\<close>

record next_call =
  nx_iter :: pull_msgs
  nx_watches :: bool
  nx_result :: "(js_error + js_msg option) option"

definition nx_settle :: "js_error + js_msg option \<Rightarrow> next_call \<Rightarrow> next_call" where
  "nx_settle r x = (if nx_result x = None then x\<lparr>nx_result := Some r\<rparr> else x)"

definition pc_next ::
  "'w api_env \<Rightarrow> api \<Rightarrow> string \<Rightarrow> nat \<Rightarrow> nat \<Rightarrow> pull_opts \<Rightarrow> pull_consumer \<Rightarrow> connection
    \<Rightarrow> connection \<times> (js_error + int \<times> next_call)" where
  "pc_next E A tok now i opts c nc =
     (case pull_construct E A tok now i (pc_stream c) (pc_name c) (opts\<lparr>po_max_messages := 1\<rparr>) False nc of
        (nc1, Inl e) \<Rightarrow> (nc1, Inl e)
      | (nc1, Inr p) \<Rightarrow>
          let limit = padded (po_expires (pm_opts p));
              p1 = (if limit \<ge> 60000 then pull_status_iter p else p)
          in (nc1, Inr (limit, \<lparr>nx_iter = p1\<lparr>pm_timeout := True\<rparr>, nx_watches = (limit \<ge> 60000), nx_result = None\<rparr>)))"

text \<open>The loop that reads one message and breaks out.\<close>

definition next_step :: "'w api_env \<Rightarrow> api \<Rightarrow> next_call \<Rightarrow> connection \<Rightarrow> next_call \<times> connection" where
  "next_step E A x nc =
     (let (p, nc1, y) = pull_step E A (nx_iter x) nc
      in (case y of
            None \<Rightarrow> (x\<lparr>nx_iter := p\<rparr>, nc1)
          | Some m \<Rightarrow> (let (p1, nc2) = pull_break p nc1 in (nx_settle (Inr (Some m)) (x\<lparr>nx_iter := p1\<rparr>), nc2))))"

text \<open>The promise \<open>closed\<close> of the iterator settled.\<close>

definition next_closed :: "next_call \<Rightarrow> next_call" where
  "next_closed x =
     (case qi_iterClosed (pm_qi (nx_iter x)) of
        None \<Rightarrow> x
      | Some err \<Rightarrow>
          nx_settle (case err of Some e \<Rightarrow> Inl e | None \<Rightarrow> Inr None)
            (x\<lparr>nx_iter := (nx_iter x)\<lparr>pm_timeout := False\<rparr>\<rparr>))"

definition next_timer :: "next_call \<Rightarrow> connection \<Rightarrow> next_call \<times> connection" where
  "next_timer x nc =
     (if pm_timeout (nx_iter x)
      then (let (p, nc1) = pull_close (nx_iter x) nc in ((nx_settle (Inr None) x)\<lparr>nx_iter := p\<rparr>, nc1))
      else (x, nc))"

definition next_missed :: "nat \<Rightarrow> next_call \<Rightarrow> next_call" where
  "next_missed n x = (if nx_watches x \<and> n \<ge> 2 then nx_settle (throw ''consumer missed heartbeats'') x else x)"

section \<open>The consumer itself\<close>

definition pc_delete :: "'w api_env \<Rightarrow> api \<Rightarrow> pull_consumer \<Rightarrow> 'w \<Rightarrow> 'w \<times> (js_error + json option)" where
  "pc_delete E A c = consumer_delete E A (text_or_empty (fld ''stream_name'' (pc_info c))) (text_or_empty (fld ''name'' (pc_info c)))"

definition pc_info_of ::
  "'w api_env \<Rightarrow> api \<Rightarrow> bool \<Rightarrow> pull_consumer \<Rightarrow> 'w \<Rightarrow> 'w \<times> pull_consumer \<times> (js_error + json)" where
  "pc_info_of E A cached c w =
     (if cached then (w, c, Inr (pc_info c))
      else (case consumer_info E A (text_or_empty (fld ''stream_name'' (pc_info c))) (text_or_empty (fld ''name'' (pc_info c))) w of
              (w1, Inl e) \<Rightarrow> (w1, c, Inl e)
            | (w1, Inr ci) \<Rightarrow> (w1, c\<lparr>pc_info := ci\<rparr>, Inr ci)))"

end
