(* ===== verification/Pull_Window.thy ===== *)
theory Pull_Window
  imports Pull_Consumer
begin

text \<open>
  What the messages of a pull consumer keep: the window of what was asked for, whatever
  arrives in whatever order, and what becomes of an iterator that its reader leaves.
\<close>

section \<open>Runs\<close>

text \<open>A server that discards part of a request says how much, and not less than nothing.\<close>

definition honest :: "nats_msg \<Rightarrow> bool" where
  "honest m \<longleftrightarrow> 0 \<le> msg_size m
     \<and> (\<forall>hs n b. msg_headers m = Inr hs \<longrightarrow> parseDiscard hs = Inr (n, b) \<longrightarrow> (\<exists>i j. n = Some i \<and> b = Some j \<and> 0 \<le> i \<and> 0 \<le> j))"

inductive pull_run :: "'w api_env \<Rightarrow> api \<Rightarrow> pull_msgs \<Rightarrow> connection \<Rightarrow> pull_msgs \<Rightarrow> connection \<Rightarrow> bool"
  for E A p0 nc0 where
  start: "pull_run E A p0 nc0 p0 nc0"
| message: "pull_run E A p0 nc0 p nc \<Longrightarrow> honest m \<Longrightarrow> pull_message E A now err m p nc = (p', nc', r)
    \<Longrightarrow> pull_run E A p0 nc0 p' nc'"
| reads: "pull_run E A p0 nc0 p nc \<Longrightarrow> pull_step E A p nc = (p', nc', y) \<Longrightarrow> pull_run E A p0 nc0 p' nc'"
| leaves: "pull_run E A p0 nc0 p nc \<Longrightarrow> pull_break p nc = (p', nc') \<Longrightarrow> pull_run E A p0 nc0 p' nc'"
| resets: "pull_run E A p0 nc0 p nc \<Longrightarrow> reset_turn E A a l p nc = (p', nc', x) \<Longrightarrow> pull_run E A p0 nc0 p' nc'"
| resets_blind: "pull_run E A p0 nc0 p nc \<Longrightarrow> resetPendingNoInfo E A p nc = (p', nc', ok) \<Longrightarrow> pull_run E A p0 nc0 p' nc'"
| ticks: "pull_run E A p0 nc0 p nc \<Longrightarrow> pull_tick now p = (p', due) \<Longrightarrow> pull_run E A p0 nc0 p' nc"
| closes: "pull_run E A p0 nc0 p nc \<Longrightarrow> pm_stop e p nc = (p', nc') \<Longrightarrow> pull_run E A p0 nc0 p' nc'"
| sub_closed: "pull_run E A p0 nc0 p nc \<Longrightarrow> pull_closed E A draining p nc = (p', nc') \<Longrightarrow> pull_run E A p0 nc0 p' nc'"
| network: "pull_run E A p0 nc0 p nc \<Longrightarrow> pull_run E A p0 nc0 (pull_resumed ok (pull_disconnected p)) nc'"

section \<open>What leaves the counts alone\<close>

definition same_window :: "pull_msgs \<Rightarrow> pull_msgs \<Rightarrow> bool" where
  "same_window p p' \<longleftrightarrow> pm_msgs p' = pm_msgs p \<and> pm_bytes p' = pm_bytes p \<and> pm_opts p' = pm_opts p \<and> pm_refilling p' = pm_refilling p"

lemma same_window_refl [simp]: "same_window p p"
  by (simp add: same_window_def)

lemma same_window_trans: "same_window p q \<Longrightarrow> same_window q r \<Longrightarrow> same_window p r"
  by (simp add: same_window_def)

lemma same_notify [simp]: "same_window p (pm_notify e d q) \<longleftrightarrow> same_window p q"
  by (simp add: same_window_def pm_notify_def)

lemma same_finish [simp]: "same_window p (pm_finish e q) \<longleftrightarrow> same_window p q"
  by (simp add: same_window_def pm_finish_def)

lemma same_updates [simp]:
  "same_window p (q\<lparr>pm_qi := x\<rparr>) \<longleftrightarrow> same_window p q" "same_window p (q\<lparr>pm_monitor := m\<rparr>) \<longleftrightarrow> same_window p q"
  "same_window p (q\<lparr>pm_calls := c\<rparr>) \<longleftrightarrow> same_window p q" "same_window p (q\<lparr>pm_requests := k\<rparr>) \<longleftrightarrow> same_window p q"
  "same_window p (q\<lparr>pm_inBackOff := b\<rparr>) \<longleftrightarrow> same_window p q" "same_window p (q\<lparr>pm_resets := n\<rparr>) \<longleftrightarrow> same_window p q"
  by (simp_all add: same_window_def)

lemma same_stop [simp]: "same_window p (fst (pm_stop e q nc)) \<longleftrightarrow> same_window p q"
  by (simp add: pm_stop_def same_window_def pm_clearTimers_def pm_finish_def Let_def split: option.split)

lemma same_run_fn [simp]: "same_window p (fst (run_pull_fn E A fn q nc)) \<longleftrightarrow> same_window p q"
  by (cases fn) (simp_all add: run_pull_fn_def case_prod_beta split: sum.split)

lemma same_push_fn [simp]: "same_window p (fst (pm_push_fn E A fn q nc)) \<longleftrightarrow> same_window p q"
  by (simp add: pm_push_fn_def case_prod_beta split: option.split sum.split)

lemma same_push_msg [simp]: "same_window p (fst (pm_push_msg m q nc)) \<longleftrightarrow> same_window p q"
  by (simp add: pm_push_msg_def Let_def split: option.split)

lemma same_leave [simp]: "same_window p (fst (pm_leave e q nc)) \<longleftrightarrow> same_window p q"
  by (simp add: pm_leave_def case_prod_beta)

lemma same_step: "same_window p (fst (pull_step E A p nc))"
  by (simp add: pull_step_def case_prod_beta split: qi_pc.split list.split item.split sum.split)

lemma same_break: "same_window p (fst (pull_break p nc))"
  by (simp add: pull_break_def split: qi_pc.split)

lemma same_status: "same_window p (fst (pull_status hs p nc))"
  by (simp add: pull_status_def Let_def case_prod_beta)

lemma same_reset_failed: "same_window p (fst (reset_failed e l p nc))"
  by (simp add: reset_failed_def Let_def case_prod_beta)

lemma same_tick: "same_window p (fst (pull_tick now p))"
  by (simp add: pull_tick_def case_prod_beta split: option.split)

lemma same_network: "same_window p (pull_resumed ok (pull_disconnected p))"
  by (simp add: pull_resumed_def pull_disconnected_def)

section \<open>The window\<close>

definition window_ok :: "pull_opts \<Rightarrow> pull_msgs \<Rightarrow> bool" where
  "window_ok po p \<longleftrightarrow> (pm_opts p = po \<and>
     pm_refilling p \<and> po_max_messages po \<noteq> 0 \<and> po_threshold_messages po < po_max_messages po
     \<and> (po_max_bytes po \<noteq> 0 \<longrightarrow> po_threshold_bytes po < po_max_bytes po)
     \<and> (\<exists>m b. pm_msgs p = Some m \<and> pm_bytes p = Some b \<and> po_threshold_messages po < m \<and> m \<le> po_max_messages po
          \<and> (po_max_bytes po \<noteq> 0 \<longrightarrow> po_threshold_bytes po < b \<and> b \<le> po_max_bytes po)))"

text \<open>Before the check for more, the counts may be below the thresholds.\<close>

definition counted :: "pull_opts \<Rightarrow> pull_msgs \<Rightarrow> bool" where
  "counted po p \<longleftrightarrow> (pm_opts p = po \<and>
     pm_refilling p \<and> po_max_messages po \<noteq> 0 \<and> po_threshold_messages po < po_max_messages po
     \<and> (po_max_bytes po \<noteq> 0 \<longrightarrow> po_threshold_bytes po < po_max_bytes po)
     \<and> (\<exists>m b. pm_msgs p = Some m \<and> pm_bytes p = Some b \<and> m \<le> po_max_messages po \<and> (po_max_bytes po \<noteq> 0 \<longrightarrow> b \<le> po_max_bytes po)))"

lemma window_counted: "window_ok po p \<Longrightarrow> counted po p"
  by (auto simp: window_ok_def counted_def Let_def)

lemma window_same: "same_window p q \<Longrightarrow> window_ok po q \<longleftrightarrow> window_ok po p"
  by (simp add: same_window_def window_ok_def)

lemma counted_same: "same_window p q \<Longrightarrow> counted po q \<longleftrightarrow> counted po p"
  by (simp add: same_window_def counted_def)

text \<open>Every request fills the window, whatever was pending.\<close>

lemma counted_pull:
  assumes "counted po p"
  shows "\<exists>fn. fst (pm_pull E A p nc) = fst (pm_push_fn E A fn (p\<lparr>pm_bytes := Some (po_max_bytes (pm_opts p)),
      pm_msgs := Some (po_max_messages (pm_opts p)), pm_requests := pm_requests p + 1\<rparr>) nc)"
proof -
  obtain m b where "pm_msgs p = Some m" "pm_bytes p = Some b" using assms by (auto simp: counted_def Let_def)
  then show ?thesis by (simp add: pm_pull_def pullOptions_def) blast
qed

lemma filled_window:
  "counted po p \<Longrightarrow> window_ok po (p\<lparr>pm_bytes := Some (po_max_bytes (pm_opts p)), pm_msgs := Some (po_max_messages (pm_opts p)), pm_requests := n\<rparr>)"
  by (simp add: counted_def window_ok_def Let_def)

lemma window_push_fn [simp]: "window_ok po (fst (pm_push_fn E A fn p nc)) \<longleftrightarrow> window_ok po p"
  by (rule window_same) simp

lemma window_stop [simp]: "window_ok po (fst (pm_stop e p nc)) \<longleftrightarrow> window_ok po p"
  by (rule window_same) simp

lemma pull_fills:
  assumes "counted po p"
  shows "window_ok po (fst (pm_pull E A p nc))"
proof -
  obtain fn where "fst (pm_pull E A p nc) = fst (pm_push_fn E A fn (p\<lparr>pm_bytes := Some (po_max_bytes (pm_opts p)),
      pm_msgs := Some (po_max_messages (pm_opts p)), pm_requests := pm_requests p + 1\<rparr>) nc)"
    using counted_pull [OF assms] by blast
  then show ?thesis using filled_window [OF assms] by simp
qed

lemma repull_fills: "window_ok po p \<Longrightarrow> window_ok po (fst (repull E A p nc))"
proof -
  assume "window_ok po p"
  then have "pm_opts p = po" "pm_refilling p" "po_max_messages (pm_opts p) \<noteq> 0" "po_threshold_messages (pm_opts p) < po_max_messages (pm_opts p)"
      "po_max_bytes (pm_opts p) \<noteq> 0 \<longrightarrow> po_threshold_bytes (pm_opts p) < po_max_bytes (pm_opts p)"
    by (simp_all add: window_ok_def Let_def)
  moreover obtain fn where "fst (repull E A p nc) = fst (pm_push_fn E A fn (p\<lparr>pm_msgs := Some 0, pm_bytes := Some 0, pm_requests := 0,
      pm_bytes := Some (po_max_bytes (pm_opts p)), pm_msgs := Some (po_max_messages (pm_opts p)), pm_requests := 1\<rparr>) nc)"
    by (simp add: repull_def pm_pull_def pullOptions_def)
  moreover have "same_window (p\<lparr>pm_msgs := Some 0, pm_bytes := Some 0, pm_requests := 0,
      pm_bytes := Some (po_max_bytes (pm_opts p)), pm_msgs := Some (po_max_messages (pm_opts p)), pm_requests := 1\<rparr>) (fst (repull E A p nc))"
    using calculation(6) by simp
  ultimately show ?thesis by (simp add: same_window_def window_ok_def Let_def)
qed

lemma not_starving_window: "counted po p \<Longrightarrow> \<not> starving p \<Longrightarrow> window_ok po p"
  by (auto simp: counted_def window_ok_def starving_def num_le_def Let_def)

lemma after_fills:
  assumes "counted po p"
  shows "window_ok po (fst (pull_after E A p nc))"
proof -
  define q where "q = (if pm_msgs p = Some 0 \<and> pm_bytes p = Some 0 then p\<lparr>pm_requests := 0\<rparr> else p)"
  have c: "counted po q" using assms counted_same [of p q] by (simp add: q_def)
  then have "pm_refilling q" by (simp add: counted_def Let_def)
  then have "fst (pull_after E A p nc) = (if starving q then fst (pm_pull E A q nc) else q)"
    unfolding pull_after_def q_def [symmetric] Let_def by simp
  then show ?thesis using pull_fills [OF c] not_starving_window [OF c] by (cases "starving q") simp_all
qed

lemma user_counted: "window_ok po p \<Longrightarrow> 0 \<le> msg_size m \<Longrightarrow> counted po (fst (pull_user A m p nc))"
proof -
  assume w: "window_ok po p" and m: "0 \<le> msg_size m"
  let ?q = "fst (pm_push_msg (toJsMsg m (ap_timeout A)) p nc)"
  have "window_ok po ?q" using w window_same [of p ?q] by simp
  then show ?thesis using m
    by (auto simp: pull_user_def case_prod_beta window_ok_def counted_def num_truthy_def Let_def)
qed

lemma discard_counted:
  "window_ok po p \<Longrightarrow> 0 \<le> i \<Longrightarrow> 0 \<le> j \<Longrightarrow>
    counted po (p\<lparr>pm_msgs := num_sub (pm_msgs p) (Some i), pm_bytes := num_sub (pm_bytes p) (Some j), pm_requests := n\<rparr>)"
  by (auto simp: window_ok_def counted_def Let_def)

lemma protocol_counted:
  assumes "window_ok po p" "honest m"
  shows "case snd (snd (pull_protocol m p nc)) of Inr True \<Rightarrow> counted po (fst (pull_protocol m p nc)) | _ \<Rightarrow> window_ok po (fst (pull_protocol m p nc))"
proof (cases "rbind (msg_headers m) (\<lambda>hs. rbind (parseDiscard hs) (\<lambda>d. Inr (hs, d)))")
  case (Inl e)
  then show ?thesis using assms(1) by (simp add: pull_protocol_def split: sum.split bool.split)
next
  case (Inr x)
  obtain hs n b where x: "x = (hs, n, b)" by (cases x) auto
  then have "msg_headers m = Inr hs" "parseDiscard hs = Inr (n, b)" using Inr by (simp_all add: rbind_Inr_iff)
  then obtain i j where ij: "n = Some i" "b = Some j" "0 \<le> i" "0 \<le> j" using assms(2) by (auto simp: honest_def)
  let ?p = "p\<lparr>pm_msgs := num_sub (pm_msgs p) (Some i), pm_bytes := num_sub (pm_bytes p) (Some j), pm_requests := pm_requests p - 1\<rparr>"
  have d: "counted po (pm_notify ev v ?p)" for ev v
    using discard_counted [OF assms(1) ij(3,4)] counted_same [of ?p "pm_notify ev v ?p"] by simp
  have s: "window_ok po (fst (pull_status hs p nc))" using assms(1) window_same [OF same_status] by simp
  then show ?thesis using assms(1) d Inr x ij window_counted [OF s]
    by (simp add: pull_protocol_def case_prod_beta split: sum.split bool.split)
qed

lemma message_window:
  assumes "window_ok po p" "honest m"
  shows "window_ok po (fst (pull_message E A now err m p nc))"
proof (cases err)
  case (Some e)
  then show ?thesis using assms(1) by (simp add: pull_message_def case_prod_beta)
next
  case None
  let ?p = "p\<lparr>pm_monitor := map_option (im_work now) (pm_monitor p)\<rparr>"
  have w: "window_ok po ?p" using assms(1) window_same [of p ?p] by simp
  show ?thesis
  proof (cases "msg_subject m = pm_inbox p")
    case True
    then show ?thesis using protocol_counted [OF w assms(2), of nc] None after_fills
      by (auto simp: pull_message_def Let_def case_prod_beta split: sum.splits bool.splits)
  next
    case False
    then show ?thesis using user_counted [OF w, of m A nc] assms(2) None after_fills
      by (auto simp: pull_message_def Let_def case_prod_beta honest_def)
  qed
qed

lemma run_window: "pull_run E A p0 nc0 p nc \<Longrightarrow> window_ok po p0 \<Longrightarrow> window_ok po p"
proof (induction rule: pull_run.induct)
  case (message p nc m now err p' nc' r)
  then show ?case using message_window [of po p m E A now err nc] by simp
next
  case (reads p nc p' nc' y)
  then show ?case using window_same [OF same_step [of p E A nc]] by simp
next
  case (leaves p nc p' nc')
  then show ?case using window_same [OF same_break [of p nc]] by simp
next
  case (resets p nc a l p' nc' x)
  show ?case
  proof (cases a)
    case (Inl e)
    then show ?thesis using resets window_same [OF same_reset_failed [of p e l nc]] by (simp add: reset_turn_def)
  next
    case (Inr i)
    have "window_ok po (p\<lparr>pm_inBackOff := False\<rparr>)" using resets window_same [of p "p\<lparr>pm_inBackOff := False\<rparr>"] by simp
    from repull_fills [OF this, of E A nc] show ?thesis using resets.hyps(2) Inr by (auto simp: reset_turn_def case_prod_beta)
  qed
next
  case (resets_blind p nc p' nc' ok)
  then show ?case using repull_fills [of po p E A nc] by (auto simp: resetPendingNoInfo_def case_prod_beta)
next
  case (ticks p nc now p' due)
  then show ?case using window_same [OF same_tick [of p now]] by simp
next
  case (closes p nc e p' nc')
  then show ?case using window_stop [of po e p nc] by simp
next
  case (sub_closed p nc draining p' nc')
  then show ?case using window_push_fn [of po E A PF_Stop p nc] by (cases draining) (simp_all add: pull_closed_def)
next
  case (network p nc ok nc')
  then show ?case using window_same [OF same_network] by blast
qed

lemma three_quarters_below: "3 \<le> n \<Longrightarrow> three_quarters n < n"
  unfolding three_quarters_def Let_def by presburger

lemma three_quarters_pos: "0 \<le> n \<Longrightarrow> 0 < three_quarters n"
  unfolding three_quarters_def Let_def by presburger

text \<open>What the options of a consume become.\<close>

lemma parseOptions_refilling:
  assumes "parseOptions True po = Inr po'" "po_threshold_messages po = 0" "po_threshold_bytes po = 0"
    "po_max_messages po = 0 \<or> 3 \<le> po_max_messages po"
  shows "3 \<le> po_max_messages po' \<and> po_threshold_messages po' = three_quarters (po_max_messages po')
    \<and> po_max_bytes po' = po_max_bytes po \<and> po_threshold_bytes po' = three_quarters (po_max_bytes po')
    \<and> po_callback po' = po_callback po"
  using assms by (auto simp: parseOptions_def require_def Let_def rbind_Inr_iff throw_def split: if_splits)

lemma new_window:
  assumes "3 \<le> po_max_messages po" "po_threshold_messages po = three_quarters (po_max_messages po)"
    "po_max_bytes po = 0 \<or> 3 \<le> po_max_bytes po" "po_threshold_bytes po = three_quarters (po_max_bytes po)"
  shows "counted po (new_pull_msgs stream name inbox i po True)"
  using assms by (auto simp: counted_def new_pull_msgs_def Let_def three_quarters_below)

lemma start_window:
  assumes "pull_start E A now p nc = (nc', Inr p')" "counted po p"
  shows "window_ok po p'"
proof -
  obtain q where q: "same_window p q" "\<exists>nc1. p' = fst (pm_pull E A q nc1)"
    using assms(1) by (force simp: pull_start_def Let_def case_prod_beta split: sum.splits prod.splits if_splits)
  have "counted po q" using assms(2) counted_same [OF q(1)] by simp
  then show ?thesis using q(2) pull_fills by blast
qed

text \<open>The number of messages the options allow.\<close>

definition message_limit :: "pull_opts \<Rightarrow> int" where
  "message_limit po = (if po_max_messages po = 0 then 100 else po_max_messages po)"

text \<open>
  C20: What a consume has asked for and not received stays between the threshold, three quarters
  of the limit, and the limit, whatever happens to it: messages, discarded requests, other statuses, missed
  heartbeats and resets, readers that come and go, the end. It never starves, and it never
  asks for more than it is allowed to hold; the same for bytes when these are limited.
\<close>
theorem window_is_kept:
  assumes "pull_construct E A tok now i stream name po True nc0 = (nc, Inr p)"
    "po_threshold_messages po = 0" "po_threshold_bytes po = 0"
    "po_max_messages po = 0 \<or> 3 \<le> po_max_messages po" "po_max_bytes po = 0 \<or> 3 \<le> po_max_bytes po"
    "pull_run E A p nc p' nc'"
  shows "\<exists>m b. pm_msgs p' = Some m \<and> pm_bytes p' = Some b \<and> three_quarters (message_limit po) < m \<and> m \<le> message_limit po
    \<and> (po_max_bytes po \<noteq> 0 \<longrightarrow> three_quarters (po_max_bytes po) < b \<and> b \<le> po_max_bytes po)"
proof -
  obtain po' inbox where po': "parseOptions True po = Inr po'"
      "pull_start E A now (new_pull_msgs stream name inbox i po' True) nc0 = (nc, Inr p)"
    using assms(1) by (auto simp: pull_construct_def rbind_Inr_iff split: sum.splits)
  note o = parseOptions_refilling [OF po'(1) assms(2-4)]
  have "po_max_messages po' = message_limit po"
    using po'(1) by (auto simp: message_limit_def parseOptions_def require_def Let_def rbind_Inr_iff throw_def split: if_splits)
  moreover have "counted po' (new_pull_msgs stream name inbox i po' True)" using o assms(5) by (intro new_window) auto
  then have "window_ok po' p'" using run_window [OF assms(6)] start_window [OF po'(2)] by blast
  ultimately show ?thesis using o by (auto simp: window_ok_def)
qed


definition sample_opts :: pull_opts where
  "sample_opts = \<lparr>po_max_messages = 10, po_max_bytes = 0, po_expires = 0, po_idle_heartbeat = 0,
     po_threshold_messages = 0, po_threshold_bytes = 0, po_abort = False, po_bind = False, po_callback = None\<rparr>"

definition sample_pull :: "connection \<times> (js_error + pull_msgs)" where
  "sample_pull = pull_construct late_server sample_api ''tok'' 0 0 ''S'' ''C'' sample_opts True sample_connection"

lemma sample_pull_starts: "\<exists>nc p. sample_pull = (nc, Inr p)"
proof -
  have "inbox_prefix sample_connection = ''_INBOX''" "nc_check (''_INBOX.tok'') True False sample_connection = Inr ()"
    by (simp_all add: inbox_prefix_def sample_connection_def with_limited_sub_def with_subs_def sample_protocol_def
        initial_protocol_def sample_options_def nc_check_def nc_isClosed_def nc_isDraining_def)
  then show ?thesis
    by (simp add: sample_pull_def pull_construct_def parseOptions_def sample_opts_def require_def createInbox_def
        pull_start_def nc_subscribe_def new_pull_msgs_def case_prod_beta Let_def)
qed

theorem window_is_kept_witness:
  "\<exists>nc p m b. sample_pull = (nc, Inr p) \<and> pm_msgs p = Some m \<and> pm_bytes p = Some b \<and> 8 < m \<and> m \<le> 10"
proof -
  obtain nc p where p: "sample_pull = (nc, Inr p)" using sample_pull_starts by blast
  have t: "three_quarters 10 = 8" by (simp add: three_quarters_def)
  have "\<exists>m b. pm_msgs p = Some m \<and> pm_bytes p = Some b \<and> 8 < m \<and> m \<le> 10"
    using window_is_kept [OF p [unfolded sample_pull_def] _ _ _ _ pull_run.start]
    by (simp add: sample_opts_def message_limit_def t)
  then show ?thesis using p by (intro exI [of _ nc] exI [of _ p]) simp
qed

section \<open>A reader that leaves\<close>

text \<open>The iterator was left before its end was reached: it is finished and nobody runs what is queued.\<close>

definition abandoned :: "pull_msgs \<Rightarrow> bool" where
  "abandoned p \<longleftrightarrow> pm_callback p = None \<and> \<not> qi_done (pm_qi p) \<and> qi_iterClosed (pm_qi p) = None
     \<and> qi_pc (pm_qi p) = Finished None"

lemma abandoned_updates [simp]:
  "abandoned (p\<lparr>pm_msgs := m\<rparr>) \<longleftrightarrow> abandoned p" "abandoned (p\<lparr>pm_bytes := m\<rparr>) \<longleftrightarrow> abandoned p"
  "abandoned (p\<lparr>pm_requests := k\<rparr>) \<longleftrightarrow> abandoned p" "abandoned (p\<lparr>pm_monitor := mo\<rparr>) \<longleftrightarrow> abandoned p"
  "abandoned (p\<lparr>pm_inBackOff := b\<rparr>) \<longleftrightarrow> abandoned p" "abandoned (p\<lparr>pm_resets := n\<rparr>) \<longleftrightarrow> abandoned p"
  "abandoned (p\<lparr>pm_status_stopped := b\<rparr>) \<longleftrightarrow> abandoned p" "abandoned (pm_clearTimers p) \<longleftrightarrow> abandoned p"
  "abandoned (pm_notify ev d p) \<longleftrightarrow> abandoned p"
  by (simp_all add: abandoned_def pm_clearTimers_def pm_notify_def)

lemma abandoned_queue: "abandoned p \<Longrightarrow> abandoned (p\<lparr>pm_qi := enqueue v (pm_qi p)\<rparr>)"
  by (simp add: abandoned_def enqueue_def qi_push_def Let_def)

lemma abandoned_received: "abandoned (p\<lparr>pm_qi := (pm_qi p)\<lparr>qi_received := n\<rparr>\<rparr>) \<longleftrightarrow> abandoned p"
  by (simp add: abandoned_def)

lemma abandoned_stop: "abandoned p \<Longrightarrow> abandoned (fst (pm_stop e p nc))"
  using abandoned_queue [of "(pm_clearTimers p)\<lparr>pm_status_stopped := True\<rparr>" "Inr (PF_Finish e)"]
  by (simp add: pm_stop_def Let_def pm_clearTimers_def abandoned_def split: option.split)

lemma abandoned_push_fn: "abandoned p \<Longrightarrow> abandoned (fst (pm_push_fn E A fn p nc))"
  using abandoned_queue [of p "Inr fn"] by (simp add: pm_push_fn_def abandoned_def)

lemma abandoned_push_msg: "abandoned p \<Longrightarrow> abandoned (fst (pm_push_msg m p nc))"
  using abandoned_queue [of p "Inl m"] by (simp add: pm_push_msg_def abandoned_def)

lemma abandoned_pull: "abandoned p \<Longrightarrow> abandoned (fst (pm_pull E A p nc))"
  by (simp add: pm_pull_def case_prod_beta abandoned_push_fn)

lemma abandoned_repull: "abandoned p \<Longrightarrow> abandoned (fst (repull E A p nc))"
  by (simp add: repull_def abandoned_pull)

lemma abandoned_status: "abandoned p \<Longrightarrow> abandoned (fst (pull_status hs p nc))"
  by (simp add: pull_status_def Let_def case_prod_beta abandoned_stop)

lemma abandoned_protocol: "abandoned p \<Longrightarrow> abandoned (fst (pull_protocol m p nc))"
  by (simp add: pull_protocol_def case_prod_beta abandoned_status split: sum.split bool.split)

lemma abandoned_user: "abandoned p \<Longrightarrow> abandoned (fst (pull_user A m p nc))"
  using abandoned_push_msg [of p "toJsMsg m (ap_timeout A)" nc] by (simp add: pull_user_def case_prod_beta abandoned_received)

lemma abandoned_after: "abandoned p \<Longrightarrow> abandoned (fst (pull_after E A p nc))"
  by (simp add: pull_after_def Let_def abandoned_pull abandoned_push_fn)

lemma abandoned_message: "abandoned p \<Longrightarrow> abandoned (fst (pull_message E A now err m p nc))"
  using abandoned_protocol [of "p\<lparr>pm_monitor := map_option (im_work now) (pm_monitor p)\<rparr>" m nc]
    abandoned_user [of "p\<lparr>pm_monitor := map_option (im_work now) (pm_monitor p)\<rparr>" A m nc]
  by (simp add: pull_message_def Let_def case_prod_beta abandoned_stop abandoned_after split: option.split sum.split bool.split)

lemma abandoned_step: "abandoned p \<Longrightarrow> fst (pull_step E A p nc) = p"
  by (simp add: pull_step_def abandoned_def)

lemma abandoned_reset: "abandoned p \<Longrightarrow> abandoned (fst (reset_turn E A a l p nc))"
  by (simp add: reset_turn_def reset_failed_def Let_def case_prod_beta abandoned_repull abandoned_stop split: sum.split)

lemma abandoned_tick: "abandoned p \<Longrightarrow> abandoned (fst (pull_tick now p))"
  by (simp add: pull_tick_def case_prod_beta split: option.split)

lemma run_abandoned: "pull_run E A p0 nc0 p nc \<Longrightarrow> abandoned p0 \<Longrightarrow> abandoned p"
proof (induction rule: pull_run.induct)
  case (message p nc m now err p' nc' r)
  then show ?case using abandoned_message [of p E A now err m nc] by simp
next
  case (reads p nc p' nc' y)
  then show ?case using abandoned_step [of p E A nc] by simp
next
  case (leaves p nc p' nc')
  then show ?case by (simp add: pull_break_def abandoned_def)
next
  case (resets p nc a l p' nc' x)
  then show ?case using abandoned_reset [of p E A a l nc] by simp
next
  case (resets_blind p nc p' nc' ok)
  then show ?case using abandoned_repull [of p E A nc] by (auto simp: resetPendingNoInfo_def case_prod_beta)
next
  case (ticks p nc now p' due)
  then show ?case using abandoned_tick [of p now] by simp
next
  case (closes p nc e p' nc')
  then show ?case using abandoned_stop [of p e nc] by simp
next
  case (sub_closed p nc draining p' nc')
  then show ?case using abandoned_push_fn [of p E A PF_Stop nc] by (cases draining) (simp_all add: pull_closed_def)
next
  case (network p nc ok nc')
  then show ?case by (simp add: pull_resumed_def pull_disconnected_def)
qed

text \<open>
  A reader that leaves its loop over the messages of a pull consumer, as \<open>next\<close> itself does after the first one, ends
  the subscription, but the promise \<open>closed\<close> of the messages stays pending whatever follows, a
  call of \<open>close\<close> included, and nothing is presented any more: \<open>stop\<close> only queues the function that would settle it, and
  the iterator that runs the queue is gone.
\<close>
theorem leaving_never_closes:
  assumes "qi_pc (pm_qi p) = Yielded v rest" "pm_callback p = None" "\<not> qi_done (pm_qi p)" "qi_iterClosed (pm_qi p) = None"
    "pull_break p nc = (p1, nc1)" "pull_run E A p1 nc1 p' nc'"
  shows "nc1 = unsubscribe_of (pm_sub p) nc \<and> qi_iterClosed (pm_qi p') = None \<and> \<not> qi_done (pm_qi p')
    \<and> pull_step E A p' nc' = (p', nc', None)"
proof -
  have p1: "p1 = fst (pm_leave None p nc)" "nc1 = snd (pm_leave None p nc)" using assms(1,5) by (simp_all add: pull_break_def)
  then have "abandoned p1 \<and> nc1 = unsubscribe_of (pm_sub p) nc"
    using assms(2-4) by (simp add: pm_leave_def pm_stop_def abandoned_def Let_def pm_clearTimers_def enqueue_def qi_push_def case_prod_beta)
  then show ?thesis using run_abandoned [OF assms(6)] by (auto simp: abandoned_def pull_step_def)
qed


definition sample_reading :: pull_msgs where
  "sample_reading = (new_pull_msgs ''S'' ''C'' ''_INBOX.tok'' 0 sample_opts False)
     \<lparr>pm_qi := new_qiter\<lparr>qi_pc := Yielded (Inl (toJsMsg (new_msg newMsgArg [1]) 0)) []\<rparr>\<rparr>"

theorem leaving_never_closes_witness:
  "qi_iterClosed (pm_qi (fst (pull_close (fst (pull_break sample_reading sample_connection))
      (snd (pull_break sample_reading sample_connection))))) = None"
proof -
  let ?b = "pull_break sample_reading sample_connection"
  have "pull_run late_server sample_api (fst ?b) (snd ?b) (fst (pm_stop None (fst ?b) (snd ?b))) (snd (pm_stop None (fst ?b) (snd ?b)))"
    by (rule pull_run.closes [OF pull_run.start, of None]) simp
  moreover have "qi_pc (pm_qi sample_reading) = Yielded (Inl (toJsMsg (new_msg newMsgArg [1]) 0)) []" "pm_callback sample_reading = None"
      "\<not> qi_done (pm_qi sample_reading)" "qi_iterClosed (pm_qi sample_reading) = None"
    by (simp_all add: sample_reading_def new_pull_msgs_def new_qiter_def sample_opts_def)
  moreover have "?b = (fst ?b, snd ?b)" by simp
  ultimately show ?thesis unfolding pull_close_def using leaving_never_closes by blast
qed

section \<open>Options that are used twice\<close>

text \<open>
  Options with a limit of bytes work once: \<open>parseOptions\<close> writes the default number of messages into the object of
  the caller, and a second use of the same object, which is what an ordered consumer makes of it when it resets, is
  refused as if both limits had been given.
\<close>
theorem byte_options_work_once:
  assumes "po_max_bytes po \<noteq> 0" "parseOptions refilling po = Inr po'"
  shows "parseOptions refilling2 po' = throw ''only specify one of max_messages or max_bytes''"
proof -
  have "po_max_messages po' = 100" "po_max_bytes po' = po_max_bytes po"
    using assms by (auto simp: parseOptions_def require_def Let_def rbind_Inr_iff throw_def split: if_splits)
  then show ?thesis using assms(1) by (simp add: parseOptions_def require_def throw_def)
qed

theorem byte_options_work_once_witness:
  "\<exists>po'. parseOptions True (sample_opts\<lparr>po_max_messages := 0, po_max_bytes := 1000\<rparr>) = Inr po'
    \<and> parseOptions True po' = throw ''only specify one of max_messages or max_bytes''"
proof -
  obtain po' where "parseOptions True (sample_opts\<lparr>po_max_messages := 0, po_max_bytes := 1000\<rparr>) = Inr po'"
    by (simp add: parseOptions_def sample_opts_def require_def)
  then show ?thesis using byte_options_work_once [of "sample_opts\<lparr>po_max_messages := 0, po_max_bytes := 1000\<rparr>" True po' True]
    by simp
qed

end
