(* ===== verification/Pull_Ordered.thy ===== *)
theory Pull_Ordered
  imports Pull_Window
begin

text \<open>
  The ordered pull consumer, \<open>OrderedConsumerMessages\<close> and \<open>OrderedPullConsumerImpl\<close> of
  \<open>jetstream/consumer.ts\<close>. It takes a message only when it is the next one of its current consumer,
  and otherwise makes a new consumer from the message after the last one taken. Each
  consumer has a serial number, and the handler of an earlier one does nothing. Messages reach the handler through
  the callback of a pull consumer, whose effect is applied after the message was counted. Requests to the server are
  values the steps return, their answers are events.
\<close>

section \<open>State\<close>

record ordered_opts =
  oo_name_prefix :: "string option"
  oo_filterSubjects :: "json option"
  oo_deliver_policy :: "deliver_policy option"
  oo_opt_start_seq :: int
  oo_opt_start_time :: string
  oo_replay_policy :: "replay_policy option"
  oo_inactive_threshold :: nat
  oo_headers_only :: bool

datatype pull_type = PT_Unset | PT_Consume | PT_Fetch

text \<open>The messages the user reads: the source, with the serial of its handler, is replaced at every reset.\<close>

record ordered_msgs =
  oi_qi :: "js_msg qiter"
  oi_src :: "(nat \<times> pull_msgs) option"
  oi_listeners :: "(string \<times> json) qiter list"

record ordered_pull =
  op_stream :: string
  op_opts :: ordered_opts
  op_consumer :: "pull_consumer option"
  op_pull_opts :: "pull_opts option"
  op_stream_seq :: int
  op_deliver_seq :: int
  op_namePrefix :: string
  op_serial :: nat
  op_current :: "json option"
  op_user :: "(js_msg \<Rightarrow> js_error option) option"
  op_iter :: "ordered_msgs option"
  op_type :: pull_type
  op_startSeq :: int
  op_maxInitialReset :: nat
  op_calls :: "js_msg list"

definition new_ordered_msgs :: ordered_msgs where
  "new_ordered_msgs = \<lparr>oi_qi = new_qiter, oi_src = None, oi_listeners = []\<rparr>"

definition new_ordered_pull :: "string \<Rightarrow> string \<Rightarrow> ordered_opts \<Rightarrow> js_error + ordered_pull" where
  "new_ordered_pull nuid stream opts =
     rbind (case oo_name_prefix opts of
              None \<Rightarrow> Inr nuid
            | Some pre \<Rightarrow> rbind (minValidation ''name_prefix'' pre) (\<lambda>_. Inr (pre @ nuid))) (\<lambda>prefix.
     Inr \<lparr>op_stream = stream, op_opts = opts, op_consumer = None, op_pull_opts = None,
          op_stream_seq = (if oo_opt_start_seq opts > 0 then oo_opt_start_seq opts - 1 else 0), op_deliver_seq = 0,
          op_namePrefix = prefix, op_serial = 0, op_current = None, op_user = None, op_iter = None, op_type = PT_Unset,
          op_startSeq = oo_opt_start_seq opts, op_maxInitialReset = 30, op_calls = []\<rparr>)"

section \<open>The messages the user reads\<close>

definition oi_notify :: "string \<Rightarrow> json \<Rightarrow> ordered_msgs \<Rightarrow> ordered_msgs" where
  "oi_notify ev data o' = o'\<lparr>oi_listeners := map (\<lambda>l. if qi_done l then l else enqueue (ev, data) l) (oi_listeners o')\<rparr>"

definition oi_stop :: "js_error option \<Rightarrow> ordered_msgs \<Rightarrow> connection \<Rightarrow> ordered_msgs \<times> connection" where
  "oi_stop err o' nc =
     (if qi_done (oi_qi o') then (o', nc)
      else let (src, nc1) = (case oi_src o' of
                 None \<Rightarrow> (None, nc)
               | Some (n, p) \<Rightarrow> (let (p1, nc1) = pm_stop err p nc in (Some (n, p1), nc1)))
           in (o'\<lparr>oi_src := src, oi_qi := qi_stop err (oi_qi o'), oi_listeners := map (qi_stop None) (oi_listeners o')\<rparr>, nc1))"

text \<open>The source closed: its cleanup handler stops the messages.\<close>

definition src_closed :: "ordered_msgs \<Rightarrow> connection \<Rightarrow> ordered_msgs \<times> connection" where
  "src_closed o' nc =
     (case oi_src o' of
        None \<Rightarrow> (o', nc)
      | Some (n, p) \<Rightarrow> (case qi_iterClosed (pm_qi p) of None \<Rightarrow> (o', nc) | Some err \<Rightarrow> oi_stop err o' nc))"

text \<open>\<open>setSource\<close>: the earlier source is stopped without its handlers.\<close>

definition setSource :: "nat \<Rightarrow> pull_msgs \<Rightarrow> ordered_msgs \<Rightarrow> connection \<Rightarrow> ordered_msgs \<times> connection" where
  "setSource n p o' nc =
     (let nc1 = (case oi_src o' of None \<Rightarrow> nc | Some (k, q) \<Rightarrow> snd (pm_stop None (q\<lparr>pm_resetHandler := False\<rparr>) nc))
      in (o'\<lparr>oi_src := Some (n, pull_status_iter p)\<rparr>, nc1))"

definition oi_close :: "ordered_msgs \<Rightarrow> connection \<Rightarrow> ordered_msgs \<times> connection" where
  "oi_close o' nc = oi_stop None o' nc"

definition oi_status :: "ordered_msgs \<Rightarrow> ordered_msgs" where
  "oi_status o' = o'\<lparr>oi_listeners := oi_listeners o' @ [new_qiter]\<rparr>"

section \<open>The configuration of a consumer\<close>

definition initial_policy :: "ordered_opts \<Rightarrow> json \<Rightarrow> json" where
  "initial_policy opts c0 =
     (let dp = oo_deliver_policy opts;
          c1 = put_prop ''deliver_policy'' (J_Str (deliver_string (case dp of Some d \<Rightarrow> d | None \<Rightarrow> DP_StartSequence))) c0;
          c2 = (if dp = Some DP_LastPerSubject \<or> dp = Some DP_New \<or> dp = Some DP_Last then delete_prop ''opt_start_seq'' c1 else c1);
          c3 = (if dp = Some DP_LastPerSubject \<and> fld ''filter_subjects'' c2 = None \<and> fld ''filter_subject'' c2 = None
                then put_prop ''filter_subject'' (J_Str ''>'') c2 else c2);
          c4 = (if oo_opt_start_time opts \<noteq> []
                then put_prop ''opt_start_time'' (J_Str (oo_opt_start_time opts))
                       (put_prop ''deliver_policy'' (J_Str (deliver_string DP_StartTime)) (delete_prop ''opt_start_seq'' c3))
                else c3)
      in if oo_inactive_threshold opts \<noteq> 0
         then put_prop ''inactive_threshold'' (J_Num (int (nanos (oo_inactive_threshold opts)))) c4 else c4)"

definition base_config :: "string \<Rightarrow> int \<Rightarrow> ordered_opts \<Rightarrow> json" where
  "base_config name seq opts =
     (let cfg0 = J_Obj [(''name'', J_Str name),
                   (''deliver_policy'', J_Str (deliver_string DP_StartSequence)), (''opt_start_seq'', J_Num seq),
                   (''ack_policy'', J_Str (ack_string AP_None)),
                   (''inactive_threshold'', J_Num (int (nanos (5 * 60 * 1000)))), (''num_replicas'', J_Num 1)];
          cfg1 = (if oo_headers_only opts then put_prop ''headers_only'' (J_Bool True) cfg0 else cfg0);
          cfg2 = (case oo_filterSubjects opts of
                    Some (J_Arr xs) \<Rightarrow> put_prop ''filter_subjects'' (J_Arr xs) cfg1
                  | Some (J_Str s) \<Rightarrow> put_prop ''filter_subject'' (J_Str s) cfg1
                  | _ \<Rightarrow> cfg1)
      in case oo_replay_policy opts of Some r \<Rightarrow> put_prop ''replay_policy'' (J_Str (replay_string r)) cfg2 | None \<Rightarrow> cfg2)"

definition getConsumerOpts :: "int \<Rightarrow> ordered_pull \<Rightarrow> ordered_pull \<times> json" where
  "getConsumerOpts seq0 c =
     (let c1 = c\<lparr>op_serial := op_serial c + 1\<rparr>;
          seq = (if seq0 = 0 then 1 else seq0);
          cfg = base_config (op_namePrefix c1 @ ''_'' @ show_nat (op_serial c1)) seq (op_opts c1)
      in (c1, if seq = op_startSeq c1 + 1 then initial_policy (op_opts c1) cfg else cfg))"

section \<open>Making a new consumer\<close>

definition with_iter :: "(ordered_msgs \<Rightarrow> ordered_msgs) \<Rightarrow> ordered_pull \<Rightarrow> ordered_pull" where
  "with_iter f c = c\<lparr>op_iter := map_option f (op_iter c)\<rparr>"

text \<open>The start of \<open>resetConsumer\<close>: the configuration to ask for, the consumer to delete, and whether the
  consumer is the first one.\<close>

definition resetConsumer :: "int \<Rightarrow> ordered_pull \<Rightarrow> ordered_pull \<times> json \<times> pull_consumer option \<times> bool" where
  "resetConsumer seq c =
     (let isNew = (op_serial c = 0);
          (c1, cfg) = getConsumerOpts (if seq = 0 then 1 else seq) (c\<lparr>op_deliver_seq := 0\<rparr>)
      in (c1, put_prop ''mem_storage'' (J_Bool True) (put_prop ''max_deliver'' (J_Num 1) cfg), op_consumer c, isNew))"

text \<open>One turn of its loop with the answer to the request: the consumer, an error, or another turn after a delay.\<close>

datatype creating = Created json | Refused js_error | Again

definition create_turn ::
  "bool \<Rightarrow> nat \<Rightarrow> js_error + json \<Rightarrow> ordered_pull \<Rightarrow> connection \<Rightarrow> ordered_pull \<times> connection \<times> creating" where
  "create_turn isNew i r c nc =
     (case r of
        Inr ci \<Rightarrow> (with_iter (oi_notify (event_string CE_OrderedConsumerRecreated) (J_Str (text_or_empty (fld ''name'' ci)))) c, nc, Created ci)
      | Inl err \<Rightarrow>
          let retry = (\<lambda>c. if isNew \<and> i \<ge> op_maxInitialReset c then (c, nc, Refused err) else (c, nc, Again))
          in if err_message err = ''stream not found''
             then let c1 = with_iter (oi_notify (event_string CE_StreamNotFound) (J_Num (int i))) c
                  in if op_type c1 \<noteq> PT_Fetch \<and> op_pull_opts c1 = None
                     then (c1, nc, Refused (Plain_Error ''Cannot read properties of undefined''))
                     else if op_type c1 = PT_Fetch \<or> (case op_pull_opts c1 of Some po \<Rightarrow> po_abort po | None \<Rightarrow> False)
                     then (case op_iter c1 of
                             None \<Rightarrow> (c1, nc, Refused err)
                           | Some o' \<Rightarrow> (let (o1, nc1) = oi_stop (Some err) o' nc in (c1\<lparr>op_iter := Some o1\<rparr>, nc1, Refused err)))
                     else retry c1
             else retry c)"

definition create_delay :: "ordered_pull \<Rightarrow> nat \<Rightarrow> nat \<Rightarrow> nat option" where
  "create_delay c i rnd =
     backoff [case op_pull_opts c of Some po \<Rightarrow> if po_expires po \<noteq> 0 then nat (po_expires po) else 30000 | None \<Rightarrow> 30000] rnd (i + 1)"

section \<open>Messages\<close>

definition notify_reset :: "ordered_pull \<Rightarrow> ordered_pull" where
  "notify_reset c = with_iter (oi_notify (debug_string CD_Reset) (J_Str [])) c"

text \<open>The handler with its serial; the result says whether a reset is due, or what is thrown.\<close>

definition internalHandler :: "nat \<Rightarrow> js_msg \<Rightarrow> ordered_pull \<Rightarrow> ordered_pull \<times> (js_error + bool)" where
  "internalHandler serial m c =
     (if op_serial c \<noteq> serial then (c, Inr False)
      else case snd (jm_info m) of
        Inl e \<Rightarrow> (c, Inl e)
      | Inr d \<Rightarrow>
          if di_deliverySequence d \<noteq> Some (op_deliver_seq c + 1) then (notify_reset c, Inr True)
          else let c1 = c\<lparr>op_deliver_seq := op_deliver_seq c + 1,
                          op_stream_seq := (case di_streamSequence d of Some n \<Rightarrow> n | None \<Rightarrow> 0)\<rparr>
               in (case op_user c1 of
                     Some f \<Rightarrow> (c1\<lparr>op_calls := op_calls c1 @ [m]\<rparr>, case f m of Some e \<Rightarrow> Inl e | None \<Rightarrow> Inr False)
                   | None \<Rightarrow> (with_iter (\<lambda>o'. o'\<lparr>oi_qi := enqueue m (oi_qi o')\<rparr>) c1, Inr False)))"

section \<open>Resets\<close>

text \<open>A reset that a violated order causes, or the user's first request. The end of a fetch only
  stops the source; its closing stops the messages, and the consumer is forgotten.\<close>

datatype reset_start = Ended | Creating json "pull_consumer option" bool | Ready

definition reset_begin :: "bool \<Rightarrow> ordered_pull \<Rightarrow> connection \<Rightarrow> ordered_pull \<times> connection \<times> reset_start" where
  "reset_begin orderedReset c nc =
     (if op_type c = PT_Fetch \<and> orderedReset
      then let (i1, nc1) = (case op_iter c of
                 None \<Rightarrow> (None, nc)
               | Some o' \<Rightarrow>
                   (case oi_src o' of
                      None \<Rightarrow> (Some o', nc)
                    | Some (n, p) \<Rightarrow>
                        (let (p1, nc1) = pm_stop None p nc; (o1, nc2) = src_closed (o'\<lparr>oi_src := Some (n, p1)\<rparr>) nc1
                         in (Some o1, nc2))))
           in (c\<lparr>op_iter := i1, op_current := None\<rparr>, nc1, Ended)
      else if op_current c = None \<or> orderedReset
      then (let (c1, cfg, old, isNew) = resetConsumer (op_stream_seq c + 1) c in (c1, nc, Creating cfg old isNew))
      else (c, nc, Ready))"

text \<open>What follows when there is a consumer. \<open>ci\<close> is the answer to the request for one.\<close>

definition reset_finish ::
  "'w api_env \<Rightarrow> api \<Rightarrow> string \<Rightarrow> nat \<Rightarrow> nat \<Rightarrow> json option \<Rightarrow> pull_opts \<Rightarrow> bool \<Rightarrow> ordered_pull \<Rightarrow> connection
    \<Rightarrow> ordered_pull \<times> connection \<times> (js_error + unit)" where
  "reset_finish E A tok now i ci opts fromFetch c0 nc =
     (let c = (case ci of Some j \<Rightarrow> c0\<lparr>op_current := Some j\<rparr> | None \<Rightarrow> c0);
          o' = (if fromFetch then new_ordered_msgs else (case op_iter c of Some x \<Rightarrow> x | None \<Rightarrow> new_ordered_msgs));
          pc = new_pull_consumer (case op_current c of Some j \<Rightarrow> j | None \<Rightarrow> J_Null);
          c1 = c\<lparr>op_iter := Some o', op_consumer := Some pc\<rparr>;
          copts = opts\<lparr>po_callback := Some (\<lambda>_. None)\<rparr>
      in case (if op_type c1 = PT_Fetch \<and> fromFetch
               then (case pc_fetch E A tok now i copts pc nc of (nc1, r) \<Rightarrow> (nc1, rbind r (\<lambda>(t, p). Inr p)))
               else if op_type c1 = PT_Consume then pc_consume E A tok now i copts pc nc
               else (nc, throw ''Cannot set properties of null'')) of
           (nc1, Inl e) \<Rightarrow> (c1, nc1, Inl e)
         | (nc1, Inr p) \<Rightarrow>
             (let (o1, nc2) = setSource (op_serial c1) (p\<lparr>pm_forOrdered := True, pm_resetHandler := True\<rparr>) o' nc1
              in (c1\<lparr>op_iter := Some o1\<rparr>, nc2, Inr ())))"

text \<open>A message for the current source: it is counted, and the call of its handler follows.\<close>

definition ordered_message ::
  "'w api_env \<Rightarrow> api \<Rightarrow> nat \<Rightarrow> js_error option \<Rightarrow> nats_msg \<Rightarrow> ordered_pull \<Rightarrow> connection
    \<Rightarrow> ordered_pull \<times> connection \<times> bool" where
  "ordered_message E A now err msg c nc =
     (case op_iter c of
        None \<Rightarrow> (c, nc, False)
      | Some o' \<Rightarrow>
          (case oi_src o' of
             None \<Rightarrow> (c, nc, False)
           | Some (n, p) \<Rightarrow>
               let (p1, nc1, r) = pull_message E A now err msg (p\<lparr>pm_calls := []\<rparr>) nc;
                   c1 = c\<lparr>op_iter := Some (o'\<lparr>oi_src := Some (n, p1)\<rparr>)\<rparr>
               in (case pm_calls p1 of
                     [] \<Rightarrow> (c1, nc1, False)
                   | m # ms \<Rightarrow>
                       (case internalHandler n m c1 of
                          (c2, Inr due) \<Rightarrow> (c2, nc1, due)
                        | (c2, Inl e) \<Rightarrow>
                            (let (p2, nc2) = pm_stop (Some e) p1 nc1
                             in (with_iter (\<lambda>o'. o'\<lparr>oi_src := Some (n, p2)\<rparr>) c2, nc2, False))))))"

section \<open>The operations of the user\<close>

definition ordered_consume :: "pull_opts \<Rightarrow> ordered_pull \<Rightarrow> connection \<Rightarrow> ordered_pull \<times> connection \<times> (js_error + reset_start)" where
  "ordered_consume opts c nc =
     (if po_bind opts then (c, nc, throw ''bind is not supported'')
      else if op_type c = PT_Fetch then (c, nc, throw ''ordered consumer initialized as fetch'')
      else if op_type c = PT_Consume then (c, nc, throw (''ordered consumer doesn'' @ [CHR 0x27] @ ''t support concurrent consume''))
      else let (c1, nc1, s) = reset_begin False
                 (c\<lparr>op_user := (case po_callback opts of Some f \<Rightarrow> Some f | None \<Rightarrow> op_user c),
                    op_type := PT_Consume, op_pull_opts := Some opts\<rparr>) nc
           in (c1, nc1, Inr s))"

definition ordered_fetch :: "pull_opts \<Rightarrow> ordered_pull \<Rightarrow> connection \<Rightarrow> ordered_pull \<times> connection \<times> (js_error + reset_start)" where
  "ordered_fetch opts c nc =
     (if po_bind opts then (c, nc, throw ''bind is not supported'')
      else if op_type c = PT_Consume then (c, nc, throw ''ordered consumer already initialized as consume'')
      else if (case op_iter c of Some o' \<Rightarrow> \<not> qi_done (oi_qi o') | None \<Rightarrow> False)
      then (c, nc, throw (''ordered consumer doesn'' @ [CHR 0x27] @ ''t support concurrent fetch''))
      else let (c1, nc1, s) = reset_begin False
                 (c\<lparr>op_user := (case po_callback opts of Some f \<Rightarrow> Some f | None \<Rightarrow> op_user c),
                    op_type := PT_Fetch, op_pull_opts := Some opts\<rparr>) nc
           in (c1, nc1, Inr s))"

text \<open>\<open>next\<close> is a fetch of one message with a callback of its own, which takes itself away when it is
  called.\<close>

definition next_opts :: "pull_opts \<Rightarrow> pull_opts" where
  "next_opts opts = opts\<lparr>po_max_messages := 1, po_callback := Some (\<lambda>_. None)\<rparr>"

definition ordered_next :: "pull_opts \<Rightarrow> ordered_pull \<Rightarrow> connection \<Rightarrow> ordered_pull \<times> connection \<times> (js_error + reset_start)" where
  "ordered_next opts c nc =
     (if po_bind opts then (c, nc, throw ''bind is not supported'') else ordered_fetch (next_opts opts) c nc)"

definition next_called :: "ordered_pull \<Rightarrow> ordered_pull" where
  "next_called c = c\<lparr>op_user := None\<rparr>"

definition ordered_delete ::
  "'w api_env \<Rightarrow> api \<Rightarrow> ordered_pull \<Rightarrow> 'w \<Rightarrow> 'w \<times> ordered_pull \<times> (js_error + json option)" where
  "ordered_delete E A c w =
     (case op_current c of
        None \<Rightarrow> (w, c, Inr (Some (J_Bool False)))
      | Some ci \<Rightarrow>
          (let (w1, r) = consumer_delete E A (op_stream c) (text_or_empty (fld ''name'' ci)) w
           in (w1, c\<lparr>op_current := None\<rparr>, r)))"

text \<open>\<open>info\<close> makes a consumer when there is none, from the first sequence asked for.\<close>

definition ordered_info_begin :: "ordered_pull \<Rightarrow> ordered_pull \<times> json \<times> pull_consumer option \<times> bool" where
  "ordered_info_begin c = resetConsumer (op_startSeq c) c"

definition ordered_info ::
  "'w api_env \<Rightarrow> api \<Rightarrow> bool \<Rightarrow> ordered_pull \<Rightarrow> 'w \<Rightarrow> 'w \<times> (js_error + json) option" where
  "ordered_info E A cached c w =
     (case op_current c of
        None \<Rightarrow> (w, None)
      | Some ci \<Rightarrow>
          if cached then (w, Some (Inr ci))
          else (let (w1, r) = consumer_info E A (op_stream c) (text_or_empty (fld ''name'' ci)) w in (w1, Some r)))"

text \<open>The source lost its consumer.\<close>

definition ordered_lost :: "ordered_pull \<Rightarrow> connection \<Rightarrow> ordered_pull \<times> connection \<times> reset_start" where
  "ordered_lost c nc = reset_begin True (notify_reset c) nc"

section \<open>What the steps do to the cursor\<close>

text \<open>Everything but the handler and a reset leaves the cursor, the serial and the calls alone.\<close>

definition same_cursor :: "ordered_pull \<Rightarrow> ordered_pull \<Rightarrow> bool" where
  "same_cursor c c' \<longleftrightarrow> op_stream_seq c' = op_stream_seq c \<and> op_deliver_seq c' = op_deliver_seq c \<and> op_serial c' = op_serial c
     \<and> op_calls c' = op_calls c \<and> op_opts c' = op_opts c \<and> op_user c' = op_user c"

lemma same_cursor_refl [simp]: "same_cursor c c"
  by (simp add: same_cursor_def)

lemma same_cursor_updates [simp]:
  "same_cursor c (d\<lparr>op_iter := i\<rparr>) \<longleftrightarrow> same_cursor c d" "same_cursor c (d\<lparr>op_current := k\<rparr>) \<longleftrightarrow> same_cursor c d"
  "same_cursor c (d\<lparr>op_consumer := p\<rparr>) \<longleftrightarrow> same_cursor c d" "same_cursor c (with_iter f d) \<longleftrightarrow> same_cursor c d"
  "same_cursor c (notify_reset d) \<longleftrightarrow> same_cursor c d"
  by (simp_all add: same_cursor_def with_iter_def notify_reset_def)

lemma same_cursor_create: "same_cursor c (fst (create_turn isNew i r c nc))"
  by (simp add: create_turn_def Let_def case_prod_beta split: sum.split option.split)

lemma same_cursor_finish: "same_cursor c (fst (reset_finish E A tok now i ci opts fromFetch c nc))"
  by (simp add: reset_finish_def Let_def case_prod_beta split: sum.split option.split)

section \<open>At most one call of the callback for a message\<close>

definition calls_grow :: "js_msg \<Rightarrow> pull_msgs \<Rightarrow> pull_msgs \<Rightarrow> bool" where
  "calls_grow m p p' \<longleftrightarrow> pm_calls p' = pm_calls p \<or> pm_calls p' = pm_calls p @ [m]"

lemma calls_notify [simp]: "pm_calls (pm_notify e d p) = pm_calls p"
  by (simp add: pm_notify_def)

lemma calls_finish [simp]: "pm_calls (pm_finish e p) = pm_calls p"
  by (simp add: pm_finish_def)

lemma calls_stop [simp]: "pm_calls (fst (pm_stop e p nc)) = pm_calls p"
  by (simp add: pm_stop_def pm_clearTimers_def Let_def split: option.split)

lemma calls_run_fn [simp]: "pm_calls (fst (run_pull_fn E A fn p nc)) = pm_calls p"
  by (cases fn) (simp_all add: run_pull_fn_def case_prod_beta split: sum.split)

lemma calls_push_fn [simp]: "pm_calls (fst (pm_push_fn E A fn p nc)) = pm_calls p"
  by (simp add: pm_push_fn_def case_prod_beta split: option.split sum.split)

lemma calls_pull [simp]: "pm_calls (fst (pm_pull E A p nc)) = pm_calls p"
  by (simp add: pm_pull_def case_prod_beta)

lemma calls_after [simp]: "pm_calls (fst (pull_after E A p nc)) = pm_calls p"
  by (simp add: pull_after_def Let_def)

lemma calls_status [simp]: "pm_calls (fst (pull_status hs p nc)) = pm_calls p"
  by (simp add: pull_status_def Let_def case_prod_beta)

lemma calls_protocol [simp]: "pm_calls (fst (pull_protocol m p nc)) = pm_calls p"
  by (simp add: pull_protocol_def case_prod_beta split: sum.split bool.split)

lemma calls_user: "calls_grow (toJsMsg m (ap_timeout A)) p (fst (pull_user A m p nc))"
  by (simp add: pull_user_def pm_push_msg_def calls_grow_def case_prod_beta Let_def split: option.split)

lemma message_calls: "calls_grow (toJsMsg m (ap_timeout A)) p (fst (pull_message E A now err m p nc))"
  using calls_user [of m A "p\<lparr>pm_monitor := map_option (im_work now) (pm_monitor p)\<rparr>" nc]
  by (simp add: pull_message_def calls_grow_def Let_def case_prod_beta split: option.split sum.split bool.split)

lemma status_calls: "msg_subject m = pm_inbox p \<Longrightarrow> pm_calls (fst (pull_message E A now err m p nc)) = pm_calls p"
  by (simp add: pull_message_def Let_def case_prod_beta split: option.split sum.split bool.split)

text \<open>What a message does to the cursor is what the handler of the source does, or nothing.\<close>

lemma ordered_message_cursor:
  assumes "op_iter c = Some o'" "oi_src o' = Some (n, p)" "ordered_message E A now err msg c nc = (c', nc', due)"
  shows "same_cursor c c'
    \<or> (msg_subject msg \<noteq> pm_inbox p
       \<and> (\<exists>c1. same_cursor c c1 \<and> same_cursor (fst (internalHandler n (toJsMsg msg (ap_timeout A)) c1)) c'))"
proof -
  let ?r = "pull_message E A now err msg (p\<lparr>pm_calls := []\<rparr>) nc"
  let ?c1 = "c\<lparr>op_iter := Some (o'\<lparr>oi_src := Some (n, fst ?r)\<rparr>)\<rparr>"
  have g: "pm_calls (fst ?r) = [] \<or> pm_calls (fst ?r) = [toJsMsg msg (ap_timeout A)]"
    using message_calls [of msg A "p\<lparr>pm_calls := []\<rparr>" E now err nc] by (auto simp: calls_grow_def)
  have s: "msg_subject msg = pm_inbox p \<Longrightarrow> pm_calls (fst ?r) = []"
    using status_calls [of msg "p\<lparr>pm_calls := []\<rparr>" E A now err nc] by simp
  show ?thesis
  proof (cases "pm_calls (fst ?r)")
    case Nil
    then have "c' = ?c1" using assms by (simp add: ordered_message_def Let_def case_prod_beta)
    then show ?thesis by simp
  next
    case (Cons m ms)
    then have m: "m = toJsMsg msg (ap_timeout A)" "msg_subject msg \<noteq> pm_inbox p" using g s by auto
    have "same_cursor (fst (internalHandler n m ?c1)) c'"
      using assms Cons by (auto simp: ordered_message_def Let_def case_prod_beta split: prod.splits sum.splits)
    moreover have "same_cursor c ?c1" by simp
    ultimately show ?thesis using m by blast
  qed
qed

section \<open>Every message once and in order\<close>

text \<open>The start of the consumer that a configuration asks for, and the messages it sends: the
  \<open>k\<close>-th has the delivery number \<open>k\<close>. \<open>starts\<close> are the starts of the consumers with the serials 1, 2 and so on.\<close>

definition config_start :: "json \<Rightarrow> nat" where
  "config_start cfg = (case number_of (fld ''opt_start_seq'' cfg) of Some n \<Rightarrow> nat n | None \<Rightarrow> 0)"

definition numbered :: "js_msg \<Rightarrow> nat \<Rightarrow> nat \<Rightarrow> bool" where
  "numbered m k q \<longleftrightarrow> (\<exists>d. snd (jm_info m) = Inr d \<and> di_deliverySequence d = Some (int k) \<and> di_streamSequence d = Some (int q))"

definition from_consumer :: "nat list \<Rightarrow> nat list \<Rightarrow> nat \<Rightarrow> js_msg \<Rightarrow> bool" where
  "from_consumer ss starts n m \<longleftrightarrow> 0 < n \<and> n \<le> length starts
     \<and> (\<exists>k < length (seqs_from (starts ! (n - 1)) ss). numbered m (Suc k) (seqs_from (starts ! (n - 1)) ss ! k))"

text \<open>A consumer that starts at a sequence.\<close>

definition by_sequence :: "ordered_opts \<Rightarrow> bool" where
  "by_sequence opts \<longleftrightarrow> (oo_deliver_policy opts = None \<or> oo_deliver_policy opts = Some DP_StartSequence)
     \<and> oo_opt_start_time opts = [] \<and> 0 \<le> oo_opt_start_seq opts"

definition started :: "reset_start \<Rightarrow> nat list" where
  "started s = (case s of Creating cfg old isNew \<Rightarrow> [config_start cfg] | _ \<Rightarrow> [])"

inductive ordered_pull_run :: "'w api_env \<Rightarrow> api \<Rightarrow> ordered_opts \<Rightarrow> nat list \<Rightarrow> nat list \<Rightarrow> ordered_pull \<Rightarrow> connection \<Rightarrow> bool"
  for E A opts ss where
  consumes: "new_ordered_pull nuid stream opts = Inr c0 \<Longrightarrow> by_sequence opts \<Longrightarrow> po_callback po = Some f \<Longrightarrow>
    ordered_consume po c0 nc0 = (c, nc, Inr s) \<Longrightarrow> ordered_pull_run E A opts ss (started s) c nc"
| message: "ordered_pull_run E A opts ss starts c nc \<Longrightarrow> op_iter c = Some o' \<Longrightarrow> oi_src o' = Some (n, p) \<Longrightarrow>
    (msg_subject msg \<noteq> pm_inbox p \<Longrightarrow> from_consumer ss starts n (toJsMsg msg (ap_timeout A))) \<Longrightarrow>
    ordered_message E A now err msg c nc = (c', nc', due) \<Longrightarrow> ordered_pull_run E A opts ss starts c' nc'"
| resets: "ordered_pull_run E A opts ss starts c nc \<Longrightarrow> reset_begin orderedReset c nc = (c', nc', s) \<Longrightarrow>
    ordered_pull_run E A opts ss (starts @ started s) c' nc'"
| lost: "ordered_pull_run E A opts ss starts c nc \<Longrightarrow> ordered_lost c nc = (c', nc', s) \<Longrightarrow>
    ordered_pull_run E A opts ss (starts @ started s) c' nc'"
| turns: "ordered_pull_run E A opts ss starts c nc \<Longrightarrow> create_turn isNew i r c nc = (c', nc', x) \<Longrightarrow>
    ordered_pull_run E A opts ss starts c' nc'"
| finishes: "ordered_pull_run E A opts ss starts c nc \<Longrightarrow> reset_finish E A tok now i ci po fromFetch c nc = (c', nc', r) \<Longrightarrow>
    ordered_pull_run E A opts ss starts c' nc'"

definition taken_seq :: "js_msg \<Rightarrow> nat" where
  "taken_seq m = (case snd (jm_info m) of Inr d \<Rightarrow> nat (the (di_streamSequence d)) | Inl e \<Rightarrow> 0)"

text \<open>What was given to the callback is the beginning of the stream, the cursor stands at its end, and the
  current consumer starts \<open>n - j\<close> messages before.\<close>

definition at_cursor :: "nat list \<Rightarrow> nat list \<Rightarrow> ordered_pull \<Rightarrow> bool" where
  "at_cursor ss starts c \<longleftrightarrow> (let n = length (op_calls c) in
     by_sequence (op_opts c) \<and> op_user c \<noteq> None \<and> op_serial c = length starts
     \<and> n \<le> length ss \<and> map taken_seq (op_calls c) = take n ss
     \<and> 0 \<le> op_stream_seq c \<and> seqs_from (Suc (nat (op_stream_seq c))) ss = drop n ss
     \<and> 0 \<le> op_deliver_seq c
     \<and> (starts \<noteq> [] \<longrightarrow> (\<exists>j \<le> n. seqs_from (last starts) ss = drop j ss \<and> op_deliver_seq c = int (n - j))))"

lemma at_cursor_same: "same_cursor c c' \<Longrightarrow> at_cursor ss starts c' \<longleftrightarrow> at_cursor ss starts c"
  by (simp add: same_cursor_def at_cursor_def)

definition starts_at :: "nat \<Rightarrow> json \<Rightarrow> bool" where
  "starts_at n cfg \<longleftrightarrow> (\<exists>m. cfg = J_Obj m) \<and> config_start cfg = n"

lemma starts_at_put: "starts_at n cfg \<Longrightarrow> k \<noteq> ''opt_start_seq'' \<Longrightarrow> starts_at n (put_prop k v cfg)"
  by (auto simp: starts_at_def config_start_def put_prop_def fld_def update_conv')

lemma starts_at_initial:
  assumes "by_sequence opts" "starts_at n cfg"
  shows "starts_at n (initial_policy opts cfg)"
  using assms(1) starts_at_put [OF assms(2)] starts_at_put [OF starts_at_put [OF assms(2)]]
  by (auto simp: initial_policy_def by_sequence_def Let_def)

lemma starts_at_base: "starts_at (nat seq) (base_config name seq opts)"
proof -
  let ?cfg0 = "J_Obj [(''name'', J_Str name), (''deliver_policy'', J_Str (deliver_string DP_StartSequence)),
      (''opt_start_seq'', J_Num seq), (''ack_policy'', J_Str (ack_string AP_None)),
      (''inactive_threshold'', J_Num (int (nanos (5 * 60 * 1000)))), (''num_replicas'', J_Num 1)]"
  have "starts_at (nat seq) ?cfg0" by (simp add: starts_at_def config_start_def fld_def number_of_def)
  then show ?thesis by (simp add: base_config_def Let_def starts_at_put split: option.split json.split)
qed

lemma getConsumerOpts_start:
  "by_sequence (op_opts c) \<Longrightarrow> 0 < seq \<Longrightarrow> starts_at (nat seq) (snd (getConsumerOpts seq c))"
  by (simp add: getConsumerOpts_def Let_def starts_at_base starts_at_initial)

lemma getConsumerOpts_state: "fst (getConsumerOpts seq c) = c\<lparr>op_serial := op_serial c + 1\<rparr>"
  by (simp add: getConsumerOpts_def Let_def)

lemma resetConsumer_step:
  assumes "by_sequence (op_opts c)" "0 < seq" "resetConsumer seq c = (c', cfg, old, isNew)"
  shows "c' = c\<lparr>op_deliver_seq := 0, op_serial := op_serial c + 1\<rparr>" "config_start cfg = nat seq"
proof -
  let ?g = "getConsumerOpts seq (c\<lparr>op_deliver_seq := 0\<rparr>)"
  have c: "c' = fst ?g" "cfg = put_prop ''mem_storage'' (J_Bool True) (put_prop ''max_deliver'' (J_Num 1) (snd ?g))"
    using assms(2,3) by (auto simp: resetConsumer_def Let_def case_prod_beta)
  then show "c' = c\<lparr>op_deliver_seq := 0, op_serial := op_serial c + 1\<rparr>" by (simp add: getConsumerOpts_state)
  have "starts_at (nat seq) cfg"
    unfolding c(2) using getConsumerOpts_start [of "c\<lparr>op_deliver_seq := 0\<rparr>" seq] assms(1,2) by (simp add: starts_at_put)
  then show "config_start cfg = nat seq" by (simp add: starts_at_def)
qed

lemma reset_at_cursor:
  assumes "at_cursor ss starts c" "reset_begin orderedReset c nc = (c', nc', s)"
  shows "at_cursor ss (starts @ started s) c'"
proof (cases "op_type c = PT_Fetch \<and> orderedReset \<or> \<not> (op_current c = None \<or> orderedReset)")
  case True
  then have "same_cursor c c'" "started s = []"
    using assms(2) by (auto simp: reset_begin_def started_def Let_def case_prod_beta split: if_splits)
  then show ?thesis using assms(1) at_cursor_same by simp
next
  case False
  obtain c1 cfg old isNew where r: "resetConsumer (op_stream_seq c + 1) c = (c1, cfg, old, isNew)" by (metis prod_cases4)
  then have c': "c' = c1" "started s = [config_start cfg]"
    using False assms(2) by (auto simp: reset_begin_def started_def Let_def case_prod_beta)
  have "by_sequence (op_opts c)" "0 < op_stream_seq c + 1" using assms(1) by (simp_all add: at_cursor_def Let_def)
  note x = resetConsumer_step [OF this r]
  have "seqs_from (config_start cfg) ss = drop (length (op_calls c)) ss"
    using assms(1) x(2) by (simp add: at_cursor_def Let_def nat_add_distrib)
  then show ?thesis using assms(1) c' x by (simp add: at_cursor_def Let_def) blast
qed

text \<open>The handler takes the next message of the current consumer and no other.\<close>

lemma handler_at_cursor:
  assumes c: "at_cursor ss starts c" and ss: "sorted_wrt (<) ss" "\<forall>q \<in> set ss. 0 < q"
    and m: "from_consumer ss starts n m"
  shows "at_cursor ss starts (fst (internalHandler n m c))"
proof -
  obtain k where k: "0 < n" "n \<le> length starts" "k < length (seqs_from (starts ! (n - 1)) ss)"
      "numbered m (Suc k) (seqs_from (starts ! (n - 1)) ss ! k)"
    using m by (auto simp: from_consumer_def)
  show ?thesis
  proof (cases "op_serial c = n \<and> int (Suc k) = op_deliver_seq c + 1")
    case False
    then have "same_cursor c (fst (internalHandler n m c))"
      using k(4) by (auto simp: internalHandler_def numbered_def)
    then show ?thesis using c at_cursor_same by blast
  next
    case True
    let ?n = "length (op_calls c)" and ?q = "seqs_from (starts ! (n - 1)) ss ! k"
    have ne: "starts \<noteq> []" "starts ! (n - 1) = last starts"
      using True k(1,2) c by (auto simp: at_cursor_def Let_def last_conv_nth)
    then obtain j where j: "j \<le> ?n" "seqs_from (last starts) ss = drop j ss" "op_deliver_seq c = int (?n - j)"
      using c by (auto simp: at_cursor_def Let_def)
    have jk: "j + k = ?n" using True j(1,3) by linarith
    have "k < length (drop j ss)" "?q = drop j ss ! k" using k(3) ne(2) j(2) by simp_all
    then have kn: "?n < length ss" "?q = ss ! ?n" using jk by auto
    obtain f where f: "op_user c = Some f" using c by (auto simp: at_cursor_def Let_def)
    have h: "fst (internalHandler n m c) = c\<lparr>op_deliver_seq := op_deliver_seq c + 1, op_stream_seq := int ?q, op_calls := op_calls c @ [m]\<rparr>"
      using True k(4) f by (auto simp: internalHandler_def numbered_def Let_def)
    have "taken_seq m = ?q" using k(4) by (auto simp: taken_seq_def numbered_def)
    moreover have "seqs_from (Suc (nat (int ?q))) ss = drop (Suc ?n) ss"
      using seqs_from_next [OF ss(1) _ ss(2), of "Suc ?n"] kn by (simp add: last_taken_def)
    moreover have "op_deliver_seq c + 1 = int (Suc ?n - j)" using j by simp
    ultimately show ?thesis using c h kn j
      by (auto simp: at_cursor_def Let_def take_Suc_conv_app_nth intro!: exI [of _ j])
  qed
qed

lemma new_at_cursor:
  assumes "new_ordered_pull nuid stream opts = Inr c" "by_sequence opts" "sorted_wrt (<) ss" "\<forall>q \<in> set ss. 0 < q \<and> oo_opt_start_seq opts \<le> int q"
    "op_user c' = Some f" "same_cursor (c\<lparr>op_user := Some f\<rparr>) c'"
  shows "at_cursor ss [] c'"
proof -
  have "seqs_from (Suc (nat (if oo_opt_start_seq opts > 0 then oo_opt_start_seq opts - 1 else 0))) ss = ss"
    using assms(4) unfolding seqs_from_def by (intro filter_True) (auto simp: Suc_le_eq nat_le_iff)
  then show ?thesis using assms(1,2,5,6)
    by (auto simp: new_ordered_pull_def rbind_Inr_iff at_cursor_def same_cursor_def Let_def)
qed

lemma consume_at_cursor:
  assumes "new_ordered_pull nuid stream opts = Inr c0" "by_sequence opts" "po_callback po = Some f"
    "ordered_consume po c0 nc0 = (c, nc, Inr s)" "sorted_wrt (<) ss" "\<forall>q \<in> set ss. 0 < q \<and> oo_opt_start_seq opts \<le> int q"
  shows "at_cursor ss (started s) c"
proof -
  let ?c = "c0\<lparr>op_user := Some f, op_type := PT_Consume, op_pull_opts := Some po\<rparr>"
  have "at_cursor ss [] ?c" using assms by (intro new_at_cursor) (auto simp: same_cursor_def)
  moreover have "reset_begin False ?c nc0 = (c, nc, s)"
    using assms(3,4) by (auto simp: ordered_consume_def throw_def case_prod_beta split: if_splits)
  ultimately show ?thesis using reset_at_cursor [of ss "[]"] by simp
qed

lemma message_at_cursor:
  assumes "at_cursor ss starts c" "sorted_wrt (<) ss" "\<forall>q \<in> set ss. 0 < q" "op_iter c = Some o'" "oi_src o' = Some (n, p)"
    "msg_subject msg \<noteq> pm_inbox p \<Longrightarrow> from_consumer ss starts n (toJsMsg msg (ap_timeout A))"
    "ordered_message E A now err msg c nc = (c', nc', due)"
  shows "at_cursor ss starts c'"
  using ordered_message_cursor [OF assms(4,5,7)]
proof
  assume "same_cursor c c'"
  then show ?thesis using at_cursor_same assms(1) by blast
next
  let ?m = "toJsMsg msg (ap_timeout A)"
  assume "msg_subject msg \<noteq> pm_inbox p \<and> (\<exists>c1. same_cursor c c1 \<and> same_cursor (fst (internalHandler n ?m c1)) c')"
  then obtain c1 where c1: "from_consumer ss starts n ?m" "same_cursor c c1" "same_cursor (fst (internalHandler n ?m c1)) c'"
    using assms(6) by blast
  then have "at_cursor ss starts c1" using at_cursor_same assms(1) by blast
  from handler_at_cursor [OF this assms(2,3) c1(1)] show ?thesis using at_cursor_same [OF c1(3)] by simp
qed

lemma run_at_cursor:
  assumes "ordered_pull_run E A opts ss starts c nc" "sorted_wrt (<) ss" "\<forall>q \<in> set ss. 0 < q \<and> oo_opt_start_seq opts \<le> int q"
  shows "at_cursor ss starts c"
  using assms(1)
proof induction
  case (consumes nuid stream c0 po f nc0 c nc s)
  then show ?case using consume_at_cursor assms(2,3) by blast
next
  case (message starts c nc o' n p msg now err c' nc' due)
  then show ?case using message_at_cursor [OF message.IH assms(2)] assms(3) by blast
next
  case (resets starts c nc orderedReset c' nc' s)
  then show ?case using reset_at_cursor by blast
next
  case (lost starts c nc c' nc' s)
  have "at_cursor ss starts (notify_reset c)" using lost.IH at_cursor_same [of c "notify_reset c"] by simp
  then show ?case using reset_at_cursor lost.hyps(2) by (fastforce simp: ordered_lost_def)
next
  case (turns starts c nc isNew i r c' nc' x)
  then show ?case using at_cursor_same [OF same_cursor_create [of c isNew i r nc]] by simp
next
  case (finishes starts c nc tok now i ci po fromFetch c' nc' r)
  then show ?case using at_cursor_same [OF same_cursor_finish [of c E A tok now i ci po fromFetch nc]] by simp
qed

text \<open>
  C19: An ordered pull consumer gives every message of its stream to the callback once and in order, whatever is lost,
  repeated or reordered on the way, whichever consumers were lost and made again, and while an answer to a request
  for a new consumer is outstanding: what was given is a beginning of the stream, and a
  reset now would ask for a consumer of exactly the rest of it.
\<close>
theorem ordered_pull_takes_the_stream:
  assumes "ordered_pull_run E A opts ss starts c nc" "sorted_wrt (<) ss" "\<forall>q \<in> set ss. 0 < q \<and> oo_opt_start_seq opts \<le> int q"
  shows "map taken_seq (op_calls c) = take (length (op_calls c)) ss
    \<and> (case resetConsumer (op_stream_seq c + 1) c of (c', cfg, old, isNew) \<Rightarrow>
         seqs_from (config_start cfg) ss = drop (length (op_calls c)) ss)"
proof -
  note a = run_at_cursor [OF assms]
  obtain c' cfg old isNew where r: "resetConsumer (op_stream_seq c + 1) c = (c', cfg, old, isNew)" by (metis prod_cases4)
  have "config_start cfg = nat (op_stream_seq c + 1)" using resetConsumer_step(2) [OF _ _ r] a by (simp add: at_cursor_def Let_def)
  then show ?thesis using a r by (simp add: at_cursor_def Let_def nat_add_distrib)
qed


lemma user_message_calls:
  assumes "msg_subject m \<noteq> pm_inbox p" "pm_callback p = Some f"
  shows "pm_calls (fst (pull_message E A now None m p nc)) = pm_calls p @ [toJsMsg m (ap_timeout A)]"
  using assms by (simp add: pull_message_def pull_user_def pm_push_msg_def Let_def case_prod_beta split: option.split)

lemma start_keeps:
  assumes "pull_start E A now p nc = (nc', Inr p')"
  shows "pm_inbox p' = pm_inbox p \<and> pm_opts p' = pm_opts p"
proof -
  have i: "pm_inbox (fst (pm_stop e q nc1)) = pm_inbox q" "pm_opts (fst (pm_stop e q nc1)) = pm_opts q" for e q nc1
    by (simp_all add: pm_stop_def pm_clearTimers_def pm_finish_def Let_def split: option.split)
  have "pm_inbox (fst (pm_pull E A q nc1)) = pm_inbox q \<and> pm_opts (fst (pm_pull E A q nc1)) = pm_opts q" for q nc1
    by (simp add: pm_pull_def pm_push_fn_def run_pull_fn_def pm_notify_def i case_prod_beta split: option.split sum.split)
  then show ?thesis using assms
    by (force simp: pull_start_def Let_def case_prod_beta split: sum.splits prod.splits if_splits)
qed

lemma construct_inbox:
  assumes "pull_construct E A tok now i stream name po refilling nc = (nc', Inr p)" "inbox_prefix nc = ''_INBOX''"
  shows "pm_inbox p = ''_INBOX.'' @ tok \<and> pm_callback p = po_callback po"
  using assms start_keeps
  by (fastforce simp: pull_construct_def rbind_Inr_iff createInbox_def parseOptions_def require_def throw_def Let_def new_pull_msgs_def
      split: sum.splits if_splits)

definition plain_opts :: ordered_opts where
  "plain_opts = \<lparr>oo_name_prefix = None, oo_filterSubjects = None, oo_deliver_policy = None, oo_opt_start_seq = 0,
     oo_opt_start_time = [], oo_replay_policy = None, oo_inactive_threshold = 0, oo_headers_only = False\<rparr>"

definition pulled_msg :: nats_msg where
  "pulled_msg = new_msg (newMsgArg\<lparr>subject := te_encode ''orders'', reply := Some (te_encode (new_reply [] ''h'' ''S'' ''C'' 1 5 1 0 0 ''r''))\<rparr>) [1]"

lemma pulled_numbered: "numbered (toJsMsg pulled_msg t) 1 5"
proof -
  have "msg_reply pulled_msg = new_reply [] ''h'' ''S'' ''C'' 1 5 1 0 0 ''r''"
    by (simp add: pulled_msg_def msg_reply_def new_msg_def del: te_encode_Cons te_encode_append)
  moreover have "parseInfo (new_reply [] ''h'' ''S'' ''C'' 1 5 1 0 0 ''r'') = Inr (written_info [] ''h'' ''S'' ''C'' 1 5 1 0 0)"
    by (rule parse_new_reply) auto
  ultimately show ?thesis by (simp add: numbered_def jm_info_def toJsMsg_def written_info_def)
qed

lemma pulled_subject: "msg_subject pulled_msg = ''orders''"
  by (simp add: pulled_msg_def msg_subject_def new_msg_def del: te_encode_Cons)

lemma start_ok: "nc_check (pm_inbox p) True False nc = Inr () \<Longrightarrow> \<exists>nc' p'. pull_start E A now p nc = (nc', Inr p')"
  by (simp add: pull_start_def nc_subscribe_def case_prod_beta Let_def)

lemma sample_construct:
  "\<exists>nc p. pull_construct late_server sample_api ''tok'' 0 0 s n (sample_opts\<lparr>po_callback := cb\<rparr>) True sample_connection = (nc, Inr p)"
proof -
  have "inbox_prefix sample_connection = ''_INBOX''" "nc_check (''_INBOX.tok'') True False sample_connection = Inr ()"
    by (simp_all add: inbox_prefix_def sample_connection_def with_limited_sub_def with_subs_def sample_protocol_def
        initial_protocol_def sample_options_def nc_check_def nc_isClosed_def nc_isDraining_def)
  moreover have "\<exists>po'. parseOptions True (sample_opts\<lparr>po_callback := cb\<rparr>) = Inr po'"
    by (simp add: parseOptions_def sample_opts_def require_def)
  ultimately show ?thesis
    using start_ok [of "new_pull_msgs s n ''_INBOX.tok'' 0 _ True" sample_connection late_server sample_api 0]
    by (auto simp: pull_construct_def createInbox_def new_pull_msgs_def)
qed

text \<open>A consume, the answer to its request, and the first message.\<close>

lemma sample_ordered_run:
  "\<exists>c nc. ordered_pull_run late_server sample_api plain_opts [5, 7] [1] c nc \<and> length (op_calls c) = 1"
proof -
  let ?po = "sample_opts\<lparr>po_callback := Some (\<lambda>_. None)\<rparr>"
  obtain c0 where c0: "new_ordered_pull ''N'' ''S'' plain_opts = Inr c0" "op_opts c0 = plain_opts" "op_type c0 = PT_Unset"
      "op_current c0 = None" "op_stream_seq c0 = 0" "op_serial c0 = 0" "op_startSeq c0 = 0" "op_iter c0 = None" "op_calls c0 = []"
    by (simp add: new_ordered_pull_def plain_opts_def)
  have b: "by_sequence plain_opts" by (simp add: by_sequence_def plain_opts_def)
  let ?c = "c0\<lparr>op_user := Some (\<lambda>_. None), op_type := PT_Consume, op_pull_opts := Some ?po\<rparr>"
  obtain c1 cfg old isNew where r: "resetConsumer 1 ?c = (c1, cfg, old, isNew)" by (metis prod_cases4)
  have x: "c1 = ?c\<lparr>op_deliver_seq := 0, op_serial := 1\<rparr>" "config_start cfg = 1"
    using resetConsumer_step [OF _ _ r] b c0 by simp_all
  have s: "ordered_consume ?po c0 sample_connection = (c1, sample_connection, Inr (Creating cfg old isNew))"
    using c0 r by (simp add: ordered_consume_def reset_begin_def sample_opts_def)
  have run1: "ordered_pull_run late_server sample_api plain_opts [5, 7] [1] c1 sample_connection"
    using ordered_pull_run.consumes [OF c0(1) b _ s, of "\<lambda>_. None" late_server sample_api "[5, 7]"] x(2) by (simp add: started_def)
  obtain nc2 p where p: "pull_construct late_server sample_api ''tok'' 0 0 [] [] ?po True sample_connection = (nc2, Inr p)"
    using sample_construct by blast
  let ?src = "pull_status_iter (p\<lparr>pm_forOrdered := True, pm_resetHandler := True\<rparr>)"
  obtain c2 nc3 r2 where f: "reset_finish late_server sample_api ''tok'' 0 0 (Some (J_Obj [])) ?po False c1 sample_connection = (c2, nc3, r2)"
    by (metis prod_cases3)
  then have c2: "op_iter c2 = Some (new_ordered_msgs\<lparr>oi_src := Some (1, ?src)\<rparr>)" "same_cursor c1 c2"
    using p x c0 same_cursor_finish [of c1 late_server sample_api "''tok''" 0 0 "Some (J_Obj [])" ?po False sample_connection]
    by (auto simp: reset_finish_def pc_consume_def new_pull_consumer_def text_or_empty_def fld_def setSource_def new_ordered_msgs_def Let_def)
  have run2: "ordered_pull_run late_server sample_api plain_opts [5, 7] [1] c2 nc3" by (rule ordered_pull_run.finishes [OF run1 f])
  have i: "inbox_prefix sample_connection = ''_INBOX''"
    by (simp add: inbox_prefix_def sample_connection_def with_limited_sub_def with_subs_def sample_protocol_def initial_protocol_def sample_options_def)
  have sp: "pm_inbox ?src = ''_INBOX.tok''" "pm_callback ?src = Some (\<lambda>_. None)"
    using construct_inbox [OF p i] by (simp_all add: pull_status_iter_def)
  have m: "from_consumer [5, 7] [1] 1 (toJsMsg pulled_msg t)" for t
    using pulled_numbered by (auto simp: from_consumer_def seqs_from_def intro!: exI [of _ 0])
  obtain c3 nc4 due where o: "ordered_message late_server sample_api 0 None pulled_msg c2 nc3 = (c3, nc4, due)" by (metis prod_cases3)
  have run3: "ordered_pull_run late_server sample_api plain_opts [5, 7] [1] c3 nc4"
    using ordered_pull_run.message [OF run2 c2(1) _ _ o] m by (simp add: new_ordered_msgs_def)
  have "pm_calls (fst (pull_message late_server sample_api 0 None pulled_msg (?src\<lparr>pm_calls := []\<rparr>) nc3)) = [toJsMsg pulled_msg (ap_timeout sample_api)]"
    using user_message_calls [of pulled_msg "?src\<lparr>pm_calls := []\<rparr>" "\<lambda>_. None"] sp by (simp add: pulled_subject)
  then have "length (op_calls c3) = 1"
    using o c2 x c0 pulled_numbered [of "ap_timeout sample_api"]
    by (auto simp: ordered_message_def new_ordered_msgs_def internalHandler_def numbered_def same_cursor_def Let_def case_prod_beta)
  then show ?thesis using run3 by blast
qed

theorem ordered_pull_takes_the_stream_witness:
  "\<exists>c nc. ordered_pull_run late_server sample_api plain_opts [5, 7] [1] c nc \<and> map taken_seq (op_calls c) = [5]"
proof -
  obtain c nc where c: "ordered_pull_run late_server sample_api plain_opts [5, 7] [1] c nc" "length (op_calls c) = 1"
    using sample_ordered_run by blast
  then show ?thesis using ordered_pull_takes_the_stream [OF c(1)] by (auto simp: plain_opts_def)
qed

section \<open>What is left behind\<close>

text \<open>
  The callback that \<open>next\<close> registers stays when \<open>next\<close> ends without a message. The fetch that follows, though
  it asked for an iterator, gives its first message to that callback, whose promise is settled long ago: the
  message is taken from the stream and the iterator never presents it.
\<close>
theorem next_swallows_a_message:
  assumes "ordered_next po1 c0 nc0 = (c1, nc1, Inr s1)" "same_cursor c1 c2"
    "po_callback po2 = None" "ordered_fetch po2 c2 nc2 = (c3, nc3, Inr s2)" "same_cursor c3 c4"
    "snd (jm_info m) = Inr d" "di_deliverySequence d = Some (op_deliver_seq c4 + 1)"
  shows "internalHandler (op_serial c4) m c4 =
    (c4\<lparr>op_deliver_seq := op_deliver_seq c4 + 1, op_stream_seq := (case di_streamSequence d of Some n \<Rightarrow> n | None \<Rightarrow> 0),
        op_calls := op_calls c4 @ [m]\<rparr>, Inr False)"
proof -
  have keeps: "op_user (fst (reset_begin b c nc)) = op_user c" for b c nc
    by (auto simp: reset_begin_def resetConsumer_def getConsumerOpts_state Let_def case_prod_beta)
  have "op_user c1 = Some (\<lambda>_. None)"
    using assms(1) by (auto simp: ordered_next_def ordered_fetch_def next_opts_def throw_def case_prod_beta keeps split: if_splits)
  then have "op_user c2 = Some (\<lambda>_. None)" using assms(2) by (simp add: same_cursor_def)
  then have "op_user c3 = Some (\<lambda>_. None)"
    using assms(3,4) by (auto simp: ordered_fetch_def throw_def case_prod_beta keeps split: if_splits)
  then have "op_user c4 = Some (\<lambda>_. None)" using assms(5) by (simp add: same_cursor_def)
  then show ?thesis using assms(6,7) by (simp add: internalHandler_def Let_def)
qed

theorem next_swallows_a_message_witness:
  "\<exists>c nc s. ordered_fetch sample_opts (fst (ordered_next sample_opts (projr (new_ordered_pull ''N'' ''S'' plain_opts)) sample_connection))
       sample_connection = (c, nc, Inr s)
     \<and> op_calls (fst (internalHandler (op_serial c) (toJsMsg pulled_msg 5000) c)) = op_calls c @ [toJsMsg pulled_msg 5000]"
proof -
  let ?c0 = "projr (new_ordered_pull ''N'' ''S'' plain_opts)"
  have c0: "op_type ?c0 = PT_Unset" "op_current ?c0 = None" "op_iter ?c0 = None" "op_deliver_seq ?c0 = 0"
    by (simp_all add: new_ordered_pull_def plain_opts_def)
  obtain c1 s1 where n: "ordered_next sample_opts ?c0 sample_connection = (c1, sample_connection, Inr s1)"
      "op_type c1 = PT_Fetch" "op_current c1 = None" "op_iter c1 = None"
    using c0 by (auto simp: ordered_next_def ordered_fetch_def next_opts_def sample_opts_def reset_begin_def resetConsumer_def
        getConsumerOpts_state case_prod_beta Let_def)
  obtain c3 s3 where f: "ordered_fetch sample_opts c1 sample_connection = (c3, sample_connection, Inr s3)" "op_deliver_seq c3 = 0"
    using n by (auto simp: ordered_fetch_def sample_opts_def reset_begin_def resetConsumer_def getConsumerOpts_state case_prod_beta Let_def)
  obtain d where "snd (jm_info (toJsMsg pulled_msg 5000)) = Inr d" "di_deliverySequence d = Some 1"
    using pulled_numbered [of 5000] by (auto simp: numbered_def)
  then show ?thesis
    using next_swallows_a_message [OF n(1) same_cursor_refl _ f(1) same_cursor_refl, of "toJsMsg pulled_msg 5000" d] f n(1)
    by (simp add: sample_opts_def)
qed

text \<open>\<open>info\<close> on a consumer that was deleted makes one that starts where the first one did, and the next
  fetch uses it: what was taken is delivered again.\<close>

lemma info_rewinds:
  assumes "by_sequence (op_opts c)" "0 < op_startSeq c" "ordered_info_begin c = (c', cfg, old, isNew)"
  shows "config_start cfg = nat (op_startSeq c) \<and> op_deliver_seq c' = 0"
  using resetConsumer_step [OF assms(1,2), of c' cfg old isNew] assms(3) by (simp add: ordered_info_begin_def)

end
