(* ===== verification/Service.thy ===== *)
theory Service
  imports Connection Js_Api
begin

text \<open>
  The services of \<open>nats-base-client/service.ts\<close>, their client in \<open>nats-base-client/serviceclient.ts\<close>
  and the errors of services in \<open>core.ts\<close>. A service is a record beside the connection it lives
  on; the functions of the user (handlers, the statistics handler) are values in its endpoints
  and its configuration. What a promise does later is an operation of its own: the answers of the
  statistics handler, the settling of the drains, the end of a subscription or of an iterator.
\<close>

section \<open>Errors of services\<close>

definition ServiceErrorHeader :: string where "ServiceErrorHeader = ''Nats-Service-Error''"
definition ServiceErrorCodeHeader :: string where "ServiceErrorCodeHeader = ''Nats-Service-Error-Code''"

text \<open>What a handler throws: a \<open>ServiceError\<close> with its code, or another error.\<close>

datatype thrown = Service_Error int string | Other_Error js_error

fun thrown_message :: "thrown \<Rightarrow> string" where
  "thrown_message (Service_Error c m) = m"
| "thrown_message (Other_Error e) = err_message e"

text \<open>\<open>get(k) || ""\<close> of headers that may be absent.\<close>

definition header_or_empty :: "msg_hdrs option \<Rightarrow> string \<Rightarrow> js_error + string" where
  "header_or_empty h k =
     (case h of
        None \<Rightarrow> Inr []
      | Some hs \<Rightarrow> rbind (hdr_get hs k Exact) (\<lambda>v. Inr (case v of Some s \<Rightarrow> s | None \<Rightarrow> [])))"

definition toServiceError :: "nats_msg \<Rightarrow> js_error + thrown option" where
  "toServiceError m =
     rbind (msg_headers m) (\<lambda>h.
     rbind (header_or_empty h ServiceErrorCodeHeader) (\<lambda>scode.
       if scode \<noteq> []
       then let code = (case parse_int scode of Some n \<Rightarrow> if n \<noteq> 0 then n else 400 | None \<Rightarrow> 400)
            in rbind (header_or_empty h ServiceErrorHeader) (\<lambda>description.
                 Inr (Some (Service_Error code (if length description \<noteq> 0 then description else scode))))
       else Inr None))"

definition isServiceError :: "nats_msg \<Rightarrow> js_error + bool" where
  "isServiceError m = rbind (toServiceError m) (\<lambda>e. Inr (e \<noteq> None))"

section \<open>Messages of services\<close>

record service_msg =
  sm_msg :: nats_msg

record respond_opts =
  rs_reply :: string
  rs_headers :: "msg_hdrs option"

definition sm_data :: "service_msg \<Rightarrow> bytes" where
  "sm_data m = msg_data (sm_msg m)"

definition sm_sid :: "service_msg \<Rightarrow> int" where
  "sm_sid m = msg_sid (sm_msg m)"

definition sm_subject :: "service_msg \<Rightarrow> string" where
  "sm_subject m = msg_subject (sm_msg m)"

definition sm_reply :: "service_msg \<Rightarrow> string" where
  "sm_reply m = msg_reply (sm_msg m)"

definition sm_headers :: "service_msg \<Rightarrow> js_error + msg_hdrs option" where
  "sm_headers m = msg_headers (sm_msg m)"

definition sm_string :: "service_msg \<Rightarrow> string" where
  "sm_string m = msg_string (sm_msg m)"

text \<open>\<open>respond\<close> of a message publishes through the protocol handler.\<close>

definition answer_msg ::
  "nats_msg \<Rightarrow> payload option \<Rightarrow> respond_opts option \<Rightarrow> protocol \<Rightarrow> protocol \<times> (js_error + bool)" where
  "answer_msg m data opts p =
     (case msg_respond m of
        None \<Rightarrow> (p, Inr False)
      | Some r \<Rightarrow>
          (case publish r (case data of Some d \<Rightarrow> d | None \<Rightarrow> P_Bytes [])
             (case opts of Some s \<Rightarrow> rs_reply s | None \<Rightarrow> [])
             (case opts of Some s \<Rightarrow> rs_headers s | None \<Rightarrow> None) p of
             (p', Inl e) \<Rightarrow> (p', Inl e)
           | (p', Inr u) \<Rightarrow> (p', Inr True)))"

definition sm_respond ::
  "payload option \<Rightarrow> respond_opts option \<Rightarrow> service_msg \<Rightarrow> protocol \<Rightarrow> protocol \<times> (js_error + bool)" where
  "sm_respond data opts m p = answer_msg (sm_msg m) data opts p"

text \<open>Setting the two headers of an error; the first that is refused throws.\<close>

definition error_headers :: "(string \<times> string) list \<Rightarrow> msg_hdrs \<Rightarrow> js_error + msg_hdrs" where
  "error_headers kvs h =
     fold (\<lambda>(k, v) r. rbind r (\<lambda>g. case hdr_set g k v Exact of (g', Inl e) \<Rightarrow> Inl e | (g', Inr u) \<Rightarrow> Inr g')) kvs (Inr h)"

definition sm_respondError ::
  "int \<Rightarrow> string \<Rightarrow> bytes option \<Rightarrow> respond_opts option \<Rightarrow> service_msg \<Rightarrow> protocol \<Rightarrow> protocol \<times> (js_error + bool)" where
  "sm_respondError code description data opts m p =
     (let o1 = (case opts of Some s \<Rightarrow> s | None \<Rightarrow> \<lparr>rs_reply = [], rs_headers = None\<rparr>)
      in case (case rs_headers o1 of Some h \<Rightarrow> Inr h | None \<Rightarrow> headers_fn 0 []) of
           Inl e \<Rightarrow> (p, Inl e)
         | Inr h \<Rightarrow>
             (case error_headers [(ServiceErrorCodeHeader, show_int code), (ServiceErrorHeader, description)] h of
                Inl e \<Rightarrow> (p, Inl e)
              | Inr h' \<Rightarrow> answer_msg (sm_msg m) (map_option P_Bytes data) (Some (o1\<lparr>rs_headers := Some h'\<rparr>)) p))"

section \<open>Names\<close>

datatype verb = PING | STATS | INFO

primrec verb_string :: "verb \<Rightarrow> string" where
  "verb_string PING = ''PING''"
| "verb_string STATS = ''STATS''"
| "verb_string INFO = ''INFO''"

definition ServiceApiPrefix :: string where "ServiceApiPrefix = ''$SRV''"

definition controlSubject :: "verb \<Rightarrow> string \<Rightarrow> string \<Rightarrow> string option \<Rightarrow> js_error + string" where
  "controlSubject v name ident prefix =
     (let pre = (case prefix of Some p \<Rightarrow> p | None \<Rightarrow> ServiceApiPrefix)
      in if name = [] \<and> ident = [] then Inr (pre @ ''.'' @ verb_string v)
         else rbind (validateName ''control subject name'' name) (\<lambda>u.
           if ident \<noteq> []
           then rbind (validateName ''control subject id'' ident) (\<lambda>w.
                  Inr (pre @ ''.'' @ verb_string v @ ''.'' @ name @ ''.'' @ ident))
           else Inr (pre @ ''.'' @ verb_string v @ ''.'' @ name)))"

definition validSubjectName :: "string \<Rightarrow> string \<Rightarrow> js_error + unit" where
  "validSubjectName context subj =
     (if subj = [] then Inl (Plain_Error (context @ '' cannot be empty''))
      else if index_of (CHR '' '') subj \<noteq> None
      then Inl (Plain_Error (context @ '' cannot contain spaces: '' @ quoted subj))
      else if \<exists>v \<in> set (butlast (split_on (CHR ''.'') subj)). v = ''>''
      then Inl (Plain_Error (context @ '' cannot have internal '' @ quoted ''>'' @ '': '' @ quoted subj))
      else Inr ())"

definition validInternalToken :: "string \<Rightarrow> string \<Rightarrow> js_error + unit" where
  "validInternalToken context subj =
     (if index_of (CHR '' '') subj \<noteq> None
      then Inl (Plain_Error (context @ '' cannot contain spaces: '' @ quoted subj))
      else if \<exists>v \<in> set (split_on (CHR ''.'') subj). v = ''>''
      then Inl (Plain_Error (context @ '' name cannot contain internal '' @ quoted ''>'' @ '': '' @ quoted subj))
      else Inr ())"

section \<open>Statistics of an endpoint\<close>

text \<open>An average is an integer after \<open>Math.round\<close>, and a quotient where the code does not round.\<close>

datatype mean = Rounded nat | Quotient nat nat

record ep_stats =
  st_name :: string
  st_subject :: string
  st_average :: mean
  st_requests :: nat
  st_time :: nat
  st_errors :: nat
  st_last_error :: "string option"
  st_data :: "json option"
  st_queue :: string

definition new_stats :: "string \<Rightarrow> string \<Rightarrow> string \<Rightarrow> ep_stats" where
  "new_stats name subj queue =
     \<lparr>st_name = name, st_subject = subj, st_average = Rounded 0, st_requests = 0, st_time = 0,
      st_errors = 0, st_last_error = None, st_data = None, st_queue = queue\<rparr>"

definition stats_reset :: "ep_stats \<Rightarrow> ep_stats" where
  "stats_reset s = s\<lparr>st_requests := 0, st_time := 0, st_average := Rounded 0, st_errors := 0,
     st_last_error := None, st_data := None\<rparr>"

text \<open>\<open>ms\<close> is the time since the start of the call. \<open>Math.round\<close> rounds halves up; below \<open>2 ^ 52\<close>
  the rounding of the quotient to a double does not carry it over a half.\<close>

definition countLatency :: "nat \<Rightarrow> ep_stats \<Rightarrow> ep_stats" where
  "countLatency ms s =
     (let n = st_requests s + 1; t = js_round (st_time s + nanos ms)
      in s\<lparr>st_requests := n, st_time := t, st_average := Rounded ((2 * t + n) div (2 * n))\<rparr>)"

definition countError :: "string \<Rightarrow> ep_stats \<Rightarrow> ep_stats" where
  "countError m s = s\<lparr>st_errors := st_errors s + 1, st_last_error := Some m\<rparr>"

text \<open>\<open>stats(qi)\<close>: for an iterator that is read by the user the numbers are taken from it, \<open>ms\<close>
  being its \<open>time\<close>. What is shown is a copy of the fields.\<close>

definition stats_of_iterator :: "nat \<Rightarrow> nat \<Rightarrow> ep_stats \<Rightarrow> ep_stats" where
  "stats_of_iterator ms processed s =
     (let t = nanos ms
      in s\<lparr>st_time := t, st_requests := processed,
           st_average := (if t > 0 \<and> processed > 0 then Quotient t processed else Rounded 0)\<rparr>)"

section \<open>Endpoints\<close>

text \<open>A handler is a function of the user, the handler that fills the iterator of the endpoint, or
  one of the three of the service. The function of a user gets the message and may use the protocol
  handler; it returns or throws.\<close>

type_synonym user_handler = "service_msg \<Rightarrow> protocol \<Rightarrow> protocol \<times> thrown option"

datatype handler = H_Function user_handler | H_Iterator | H_Ping bytes | H_Stats | H_Info

record endpoint =
  ep_name :: string
  ep_subject :: string
  ep_queue :: string
  ep_handler :: "handler option"
  ep_metadata :: "json option"
  ep_internal :: bool
  ep_sub :: nat
  ep_stats :: ep_stats
  ep_qi :: "service_msg qiter option"
  ep_time :: nat

definition new_endpoint :: "string \<Rightarrow> string \<Rightarrow> string \<Rightarrow> handler option \<Rightarrow> json option \<Rightarrow> endpoint" where
  "new_endpoint name subj queue h md =
     \<lparr>ep_name = name, ep_subject = subj, ep_queue = queue, ep_handler = h, ep_metadata = md,
      ep_internal = False, ep_sub = 0, ep_stats = new_stats name subj queue, ep_qi = None, ep_time = 0\<rparr>"

definition ep_stats_shown :: "endpoint \<Rightarrow> endpoint" where
  "ep_stats_shown e =
     (case ep_qi e of
        Some q \<Rightarrow> if \<not> qi_noIterator q
          then e\<lparr>ep_stats := stats_of_iterator (ep_time e) (qi_processed q) (ep_stats e)\<rparr> else e
      | None \<Rightarrow> e)"

definition ep_reset :: "endpoint \<Rightarrow> endpoint" where
  "ep_reset e = e\<lparr>ep_stats := stats_reset (ep_stats e),
     ep_qi := map_option (\<lambda>q. q\<lparr>qi_processed := 0\<rparr>) (ep_qi e),
     ep_time := (case ep_qi e of Some q \<Rightarrow> 0 | None \<Rightarrow> ep_time e)\<rparr>"

text \<open>The user takes the next step of the iterator: when it comes back from a message, the time since
  that message was handed over is kept.\<close>

definition ep_step :: "nat \<Rightarrow> endpoint \<Rightarrow> endpoint \<times> service_msg option" where
  "ep_step ms e =
     (case ep_qi e of
        None \<Rightarrow> (e, None)
      | Some q \<Rightarrow>
          let (q', v) = qi_step (\<lambda>_. True) q
          in (e\<lparr>ep_qi := Some q', ep_time := (case qi_pc q of Yielded m r \<Rightarrow> ms | _ \<Rightarrow> ep_time e)\<rparr>, v))"

section \<open>Groups\<close>

record service_group =
  sg_subject :: string
  sg_queue :: string

text \<open>The parent is the service itself or a group of it.\<close>

definition calcSubject :: "string \<Rightarrow> string \<Rightarrow> string" where
  "calcSubject root name = (if name = [] then root else if root \<noteq> [] then root @ ''.'' @ name else name)"

definition new_group :: "service_group option \<Rightarrow> string \<Rightarrow> string \<Rightarrow> js_error + service_group" where
  "new_group parent name queue =
     rbind (if name \<noteq> [] then validInternalToken ''service group'' name else Inr ()) (\<lambda>u.
       case parent of
         None \<Rightarrow> Inr \<lparr>sg_subject = calcSubject [] name, sg_queue = queue\<rparr>
       | Some sg \<Rightarrow>
           Inr \<lparr>sg_subject = calcSubject (sg_subject sg) name,
                sg_queue = (if queue = [] \<and> sg_queue sg \<noteq> [] then sg_queue sg else queue)\<rparr>)"

definition addGroup :: "service_group \<Rightarrow> string \<Rightarrow> string \<Rightarrow> js_error + service_group" where
  "addGroup sg name queue = new_group (Some sg) name queue"

datatype endpoint_arg =
    No_Opts
  | Handler_Opt user_handler
  | Endpoint_Opts (ea_subject: "string option") (ea_handler: "user_handler option")
      (ea_metadata: "json option") (ea_queue: "string option")

text \<open>\<open>addEndpoint\<close> of a group, up to the call of \<open>_addEndpoint\<close>: the endpoint with its full
  subject and its queue.\<close>

definition group_endpoint :: "service_group \<Rightarrow> string \<Rightarrow> endpoint_arg \<Rightarrow> js_error + endpoint" where
  "group_endpoint sg name opts =
     (let (subj, h, md, queue) =
        (case opts of
           No_Opts \<Rightarrow> (Some name, None, None, None)
         | Handler_Opt f \<Rightarrow> (Some name, Some f, None, None)
         | Endpoint_Opts s f m q \<Rightarrow> (s, f, m, q))
      in rbind (validateName ''endpoint'' name) (\<lambda>u.
           let s1 = (case subj of Some s \<Rightarrow> if s \<noteq> [] then s else name | None \<Rightarrow> name);
               q1 = (case queue of Some q \<Rightarrow> if q \<noteq> [] then q else sg_queue sg | None \<Rightarrow> sg_queue sg)
           in rbind (validSubjectName ''endpoint subject'' s1) (\<lambda>w.
                Inr (new_endpoint name (calcSubject (sg_subject sg) s1) q1 (map_option H_Function h) md))))"

section \<open>The service\<close>

record service_config =
  cf_name :: string
  cf_version :: string
  cf_description :: "string option"
  cf_metadata :: "json option"
  cf_queue :: string
  cf_statsHandler :: bool

text \<open>A run of the loop of \<open>stats\<close>: the next handler, the rows so far, whether the
  loop has ended, and the message that asked.\<close>

record stats_run =
  sr_msg :: nats_msg
  sr_at :: nat
  sr_rows :: "ep_stats list"
  sr_over :: bool

record service =
  svc_id :: string
  svc_config :: service_config
  svc_handlers :: "endpoint list"
  svc_internal :: "endpoint list"
  svc_stopped :: bool
  svc_closing :: "js_error option option"
  svc_done :: "js_error option option"
  svc_started :: string
  svc_runs :: "stats_run list"

text \<open>The constructor: \<open>queue\<close> is the one of the configuration given, \<open>ident\<close> the identifier drawn and
  \<open>now\<close> the time as a text.\<close>

definition svc_reset :: "string \<Rightarrow> service \<Rightarrow> service" where
  "svc_reset now s = s\<lparr>svc_started := now, svc_handlers := map ep_reset (svc_handlers s)\<rparr>"

definition new_service :: "string \<Rightarrow> string \<Rightarrow> service_config \<Rightarrow> js_error + service" where
  "new_service ident now config =
     (let c = (if cf_queue config = [] then config\<lparr>cf_queue := ''q''\<rparr> else config)
      in rbind (validateName ''name'' (cf_name c)) (\<lambda>u.
         rbind (validateName ''queue'' (cf_queue c)) (\<lambda>w.
         rbind (parseSemVer (cf_version c)) (\<lambda>v.
           Inr (svc_reset now
             \<lparr>svc_id = ident, svc_config = c, svc_handlers = [], svc_internal = [], svc_stopped = False,
              svc_closing = None, svc_done = None, svc_started = now, svc_runs = []\<rparr>)))))"

definition svc_subjects :: "service \<Rightarrow> string list" where
  "svc_subjects s = map ep_subject (filter (\<lambda>e. \<not> ep_internal e) (svc_handlers s))"

definition svc_name :: "service \<Rightarrow> string" where
  "svc_name s = cf_name (svc_config s)"

definition svc_description :: "service \<Rightarrow> string" where
  "svc_description s = (case cf_description (svc_config s) of Some d \<Rightarrow> d | None \<Rightarrow> [])"

definition svc_version :: "service \<Rightarrow> string" where
  "svc_version s = cf_version (svc_config s)"

definition svc_metadata :: "service \<Rightarrow> json option" where
  "svc_metadata s = cf_metadata (svc_config s)"

section \<open>What a service answers\<close>

text \<open>The three answers, before they are written as JSON: name, identifier, version and metadata,
  and what each adds.\<close>

record service_identity =
  id_name :: string
  id_id :: string
  id_version :: string
  id_metadata :: "json option"

record endpoint_info =
  ei_subject :: string
  ei_metadata :: "json option"
  ei_name :: string
  ei_queue :: string

datatype answer =
    Ping_Response service_identity
  | Info_Response service_identity string "endpoint_info list"
  | Stats_Response service_identity string "ep_stats list"

primrec response_type :: "answer \<Rightarrow> string" where
  "response_type (Ping_Response i) = ''io.nats.micro.v1.ping_response''"
| "response_type (Info_Response i d es) = ''io.nats.micro.v1.info_response''"
| "response_type (Stats_Response i st es) = ''io.nats.micro.v1.stats_response''"

definition svc_identity :: "service \<Rightarrow> service_identity" where
  "svc_identity s = \<lparr>id_name = svc_name s, id_id = svc_id s, id_version = svc_version s, id_metadata = svc_metadata s\<rparr>"

definition svc_ping :: "service \<Rightarrow> answer" where
  "svc_ping s = Ping_Response (svc_identity s)"

definition svc_endpoints :: "service \<Rightarrow> endpoint_info list" where
  "svc_endpoints s = map (\<lambda>e. \<lparr>ei_subject = ep_subject e, ei_metadata = ep_metadata e, ei_name = ep_name e,
     ei_queue = ep_queue e\<rparr>) (svc_handlers s)"

definition svc_info :: "service \<Rightarrow> answer" where
  "svc_info s = Info_Response (svc_identity s) (svc_description s) (svc_endpoints s)"

definition svc_stats :: "ep_stats list \<Rightarrow> service \<Rightarrow> answer" where
  "svc_stats rows s = Stats_Response (svc_identity s) (svc_started s) rows"

text \<open>One turn of the loop of \<open>stats\<close>: \<open>ans\<close> is what the statistics handler of the user answers for
  the endpoint, if there is one.\<close>

definition stats_endpoint :: "(js_error + json option) option \<Rightarrow> endpoint \<Rightarrow> endpoint" where
  "stats_endpoint ans e =
     ep_stats_shown (case ans of
        None \<Rightarrow> e
      | Some (Inr d) \<Rightarrow> e\<lparr>ep_stats := (ep_stats e)\<lparr>st_data := d\<rparr>\<rparr>
      | Some (Inl err) \<Rightarrow> e\<lparr>ep_stats := countError (err_message err) (ep_stats e)\<rparr>)"

definition stats_turn ::
  "(js_error + json option) option \<Rightarrow> stats_run \<Rightarrow> service \<Rightarrow> stats_run \<times> service" where
  "stats_turn ans r s =
     (if \<not> sr_over r
      then let e = stats_endpoint ans (svc_handlers s ! sr_at r)
           in (r\<lparr>sr_at := sr_at r + 1, sr_rows := sr_rows r @ [ep_stats e],
                 sr_over := \<not> sr_at r + 1 < length (svc_handlers s)\<rparr>,
               s\<lparr>svc_handlers := (svc_handlers s)[sr_at r := e]\<rparr>)
      else (r, s))"

text \<open>Without a statistics handler nothing is awaited and the loop runs to its end at once.\<close>

definition stats_begin :: "nats_msg \<Rightarrow> service \<Rightarrow> service" where
  "stats_begin m s =
     (let r = \<lparr>sr_msg = m, sr_at = 0, sr_rows = [], sr_over = (svc_handlers s = [])\<rparr>;
          (r', s') = (if cf_statsHandler (svc_config s) then (r, s)
                      else fold (\<lambda>e (q, t). stats_turn None q t) (svc_handlers s) (r, s))
      in s'\<lparr>svc_runs := svc_runs s' @ [r']\<rparr>)"

text \<open>The statistics handler has answered for run \<open>k\<close>; and run \<open>k\<close> is over and its answer is sent.\<close>

definition stats_answered :: "nat \<Rightarrow> js_error + json option \<Rightarrow> service \<Rightarrow> service" where
  "stats_answered k ans s =
     (if k < length (svc_runs s)
      then let (r, s') = stats_turn (Some ans) (svc_runs s ! k) s
           in s'\<lparr>svc_runs := (svc_runs s')[k := r]\<rparr>
      else s)"

definition stats_reply :: "(answer \<Rightarrow> bytes) \<Rightarrow> nat \<Rightarrow> service \<Rightarrow> protocol \<Rightarrow> service \<times> protocol" where
  "stats_reply enc k s p =
     (if k < length (svc_runs s) \<and> sr_over (svc_runs s ! k)
      then let r = svc_runs s ! k
           in (s\<lparr>svc_runs := take k (svc_runs s) @ drop (k + 1) (svc_runs s)\<rparr>,
               fst (answer_msg (sr_msg r) (Some (P_Bytes (enc (svc_stats (sr_rows r) s)))) None p))
      else (s, p))"

section \<open>Adding endpoints\<close>

text \<open>\<open>setupHandler\<close>: \<open>i\<close> is the number of the new subscription. An internal endpoint is in the
  list before it is subscribed.\<close>

definition setupHandler ::
  "nat \<Rightarrow> endpoint \<Rightarrow> bool \<Rightarrow> service \<Rightarrow> connection \<Rightarrow> service \<times> connection \<times> (js_error + endpoint)" where
  "setupHandler i h internal s nc =
     (let queue = (if internal then [] else if ep_queue h \<noteq> [] then ep_queue h else cf_queue (svc_config s));
          sv = h\<lparr>ep_internal := internal, ep_stats := new_stats (ep_name h) (ep_subject h) queue, ep_queue := queue\<rparr>
      in case nc_subscribe i (ep_subject h)
                \<lparr>so_queue = Some queue, so_max = None, so_timeout = None, so_callback = (ep_handler h \<noteq> None)\<rparr> nc of
           (nc', Inl e) \<Rightarrow>
             ((if internal then s\<lparr>svc_internal := svc_internal s @ [sv]\<rparr> else s), nc', Inl e)
         | (nc', Inr u) \<Rightarrow>
             (let sv' = sv\<lparr>ep_sub := i\<rparr>
              in ((if internal then s\<lparr>svc_internal := svc_internal s @ [sv']\<rparr> else s), nc', Inr sv')))"

text \<open>\<open>_addEndpoint\<close>: without a function the endpoint gets an iterator and the handler that
  fills it.\<close>

definition add_endpoint ::
  "nat \<Rightarrow> endpoint \<Rightarrow> service \<Rightarrow> connection \<Rightarrow> service \<times> connection \<times> (js_error + unit)" where
  "add_endpoint i e s nc =
     (let no_iter = (ep_handler e \<noteq> None);
          e1 = (if no_iter then e else e\<lparr>ep_handler := Some H_Iterator\<rparr>)
      in case setupHandler i e1 False s nc of
           (s', nc', Inl err) \<Rightarrow> (s', nc', Inl err)
         | (s', nc', Inr ss) \<Rightarrow>
             (s'\<lparr>svc_handlers := svc_handlers s' @ [ss\<lparr>ep_qi := Some (new_qiter\<lparr>qi_noIterator := no_iter\<rparr>)\<rparr>]\<rparr>,
              nc', Inr ()))"

definition group_addEndpoint ::
  "nat \<Rightarrow> service_group \<Rightarrow> string \<Rightarrow> endpoint_arg \<Rightarrow> service \<Rightarrow> connection \<Rightarrow> service \<times> connection \<times> (js_error + unit)"
where
  "group_addEndpoint i sg name opts s nc =
     (case group_endpoint sg name opts of
        Inl e \<Rightarrow> (s, nc, Inl e)
      | Inr e \<Rightarrow> add_endpoint i e s nc)"

definition svc_addGroup :: "string \<Rightarrow> string \<Rightarrow> js_error + service_group" where
  "svc_addGroup name queue = new_group None name queue"

definition svc_addEndpoint ::
  "nat \<Rightarrow> string \<Rightarrow> endpoint_arg \<Rightarrow> service \<Rightarrow> connection \<Rightarrow> service \<times> connection \<times> (js_error + unit)" where
  "svc_addEndpoint i name opts s nc =
     (case new_group None [] [] of
        Inl e \<Rightarrow> (s, nc, Inl e)
      | Inr sg \<Rightarrow> group_addEndpoint i sg name opts s nc)"

section \<open>Starting\<close>

text \<open>Operations that throw, one after the other: the first exception ends the sequence.\<close>

type_synonym service_op = "service \<Rightarrow> connection \<Rightarrow> service \<times> connection \<times> (js_error + unit)"

fun run_ops :: "service_op list \<Rightarrow> service_op" where
  "run_ops [] s nc = (s, nc, Inr ())"
| "run_ops (f # fs) s nc =
     (case f s nc of
        (s', nc', Inl e) \<Rightarrow> (s', nc', Inl e)
      | (s', nc', Inr u) \<Rightarrow> run_ops fs s' nc')"

definition doAddInternalHandler ::
  "nat \<Rightarrow> string \<Rightarrow> verb \<Rightarrow> handler \<Rightarrow> string \<Rightarrow> string \<Rightarrow> service_op" where
  "doAddInternalHandler i name v h kind ident s nc =
     (case controlSubject v kind ident None of
        Inl e \<Rightarrow> (s, nc, Inl e)
      | Inr subj \<Rightarrow>
          (case setupHandler i (new_endpoint name subj [] (Some h) None) True s nc of
             (s', nc', Inl e) \<Rightarrow> (s', nc', Inl e)
           | (s', nc', Inr sv) \<Rightarrow> (s', nc', Inr ())))"

definition addInternalHandler :: "nat \<Rightarrow> verb \<Rightarrow> handler \<Rightarrow> service_op" where
  "addInternalHandler i v h s nc =
     run_ops
       [doAddInternalHandler i (verb_string v @ ''-all'') v h [] [],
        doAddInternalHandler (i + 1) (verb_string v @ ''-kind'') v h (svc_name s) [],
        doAddInternalHandler (i + 2) (verb_string v) v h (svc_name s) (svc_id s)] s nc"

text \<open>The endpoints that are there already are set up again, in place.\<close>

definition start_endpoint :: "nat \<Rightarrow> nat \<Rightarrow> service_op" where
  "start_endpoint i k s nc =
     (if ep_handler (svc_handlers s ! k) = None then (s, nc, Inr ())
      else case setupHandler (i + k) (svc_handlers s ! k) False s nc of
             (s', nc', Inl e) \<Rightarrow> (s', nc', Inl e)
           | (s', nc', Inr sv) \<Rightarrow> (s'\<lparr>svc_handlers := (svc_handlers s')[k := sv]\<rparr>, nc', Inr ()))"

definition svc_start :: "(answer \<Rightarrow> bytes) \<Rightarrow> nat \<Rightarrow> service_op" where
  "svc_start enc i s nc =
     run_ops
       ([addInternalHandler i PING (H_Ping (enc (svc_ping s))),
         addInternalHandler (i + 3) STATS H_Stats,
         addInternalHandler (i + 6) INFO H_Info]
        @ map (start_endpoint (i + 9)) [0..<length (svc_handlers s)]) s nc"

text \<open>\<open>ServicesFactory.add\<close>.\<close>

definition services_add ::
  "(answer \<Rightarrow> bytes) \<Rightarrow> string \<Rightarrow> string \<Rightarrow> nat \<Rightarrow> service_config \<Rightarrow> connection
    \<Rightarrow> service option \<times> connection \<times> (js_error + unit)" where
  "services_add enc ident now i config nc =
     (case new_service ident now config of
        Inl e \<Rightarrow> (None, nc, Inl e)
      | Inr s \<Rightarrow> (case svc_start enc i s nc of (s', nc', r) \<Rightarrow> (Some s', nc', r)))"

section \<open>Stopping\<close>

text \<open>\<open>close\<close> up to the drains it waits for; \<open>svc_drained\<close> is what follows when they have settled.\<close>

definition svc_subs :: "service \<Rightarrow> nat list" where
  "svc_subs s = map ep_sub (svc_handlers s @ svc_internal s)"

definition svc_close :: "js_error option \<Rightarrow> service \<Rightarrow> connection \<Rightarrow> service \<times> connection" where
  "svc_close err s nc =
     (if svc_stopped s then (s, nc)
      else (s\<lparr>svc_stopped := True, svc_closing := Some err\<rparr>,
            if nc_isClosed nc then nc
            else nc\<lparr>nc_protocol := fold (\<lambda>i p. fst (sub_drain i p)) (svc_subs s) (nc_protocol nc)\<rparr>))"

definition svc_drained :: "service \<Rightarrow> service" where
  "svc_drained s =
     (case svc_closing s of
        Some err \<Rightarrow> if svc_done s = None then s\<lparr>svc_done := Some err\<rparr> else s
      | None \<Rightarrow> s)"

text \<open>A subscription of the service has closed, or its promise is rejected.\<close>

definition required_stopped :: "endpoint \<Rightarrow> service \<Rightarrow> connection \<Rightarrow> service \<times> connection" where
  "required_stopped h s nc =
     (if \<not> svc_stopped s
      then svc_close (Some (Plain_Error (''required subscription '' @ ep_subject h @ '' stopped''))) s nc
      else (s, nc))"

definition required_errored :: "js_error \<Rightarrow> endpoint \<Rightarrow> service \<Rightarrow> connection \<Rightarrow> service \<times> connection" where
  "required_errored e h s nc =
     (if \<not> svc_stopped s
      then svc_close (Some (Plain_Error (''required subscription '' @ ep_subject h @ '' errored: '' @ err_message e))) s nc
      else (s, nc))"

text \<open>The iterator of an endpoint has closed; the connection has closed.\<close>

definition iterator_closed :: "service \<Rightarrow> connection \<Rightarrow> service \<times> connection" where
  "iterator_closed s nc = svc_close None s nc"

definition connection_closed :: "js_error option \<Rightarrow> service \<Rightarrow> connection \<Rightarrow> service \<times> connection" where
  "connection_closed err s nc = svc_close err s nc"

section \<open>Requests\<close>

definition errorToHeader :: "thrown \<Rightarrow> js_error + msg_hdrs" where
  "errorToHeader t =
     rbind (headers_fn 0 []) (\<lambda>h.
       case t of
         Service_Error code m \<Rightarrow> error_headers [(ServiceErrorHeader, m), (ServiceErrorCodeHeader, show_int code)] h
       | Other_Error e \<Rightarrow> error_headers [(ServiceErrorHeader, err_message e), (ServiceErrorCodeHeader, ''500'')] h)"

text \<open>The handler of an endpoint, on a message: the endpoint, the service and the protocol handler
  after it, and what it throws. A handler that answers at once throws what \<open>respond\<close> throws.\<close>

definition run_handler ::
  "(answer \<Rightarrow> bytes) \<Rightarrow> nats_msg \<Rightarrow> endpoint \<Rightarrow> service \<Rightarrow> protocol
    \<Rightarrow> endpoint \<times> service \<times> protocol \<times> thrown option" where
  "run_handler enc m e s p =
     (case ep_handler e of
        None \<Rightarrow> (e, s, p, None)
      | Some (H_Function f) \<Rightarrow> (case f \<lparr>sm_msg = m\<rparr> p of (p', t) \<Rightarrow> (e, s, p', t))
      | Some H_Iterator \<Rightarrow>
          (e\<lparr>ep_qi := map_option (qi_push (\<lambda>_. (True, False)) (Val \<lparr>sm_msg = m\<rparr>)) (ep_qi e)\<rparr>, s, p, None)
      | Some (H_Ping b) \<Rightarrow>
          (case answer_msg m (Some (P_Bytes b)) None p of
             (p', Inl x) \<Rightarrow> (e, s, p', Some (Other_Error x)) | (p', Inr u) \<Rightarrow> (e, s, p', None))
      | Some H_Stats \<Rightarrow> (e, stats_begin m s, p, None)
      | Some H_Info \<Rightarrow>
          (case answer_msg m (Some (P_Bytes (enc (svc_info s)))) None p of
             (p', Inl x) \<Rightarrow> (e, s, p', Some (Other_Error x)) | (p', Inr u) \<Rightarrow> (e, s, p', None)))"

text \<open>The callback of the subscription of an endpoint on a message: \<open>ms\<close> is the time it takes. The
  last component is what leaves the callback as an exception.\<close>

definition ep_call ::
  "(answer \<Rightarrow> bytes) \<Rightarrow> nat \<Rightarrow> nats_msg \<Rightarrow> endpoint \<Rightarrow> service \<Rightarrow> protocol
    \<Rightarrow> endpoint \<times> service \<times> protocol \<times> (js_error + unit)" where
  "ep_call enc ms m e s p =
     (let (e1, s1, p1, t) = run_handler enc m e s p;
          (e2, p2, r) =
            (case t of
               None \<Rightarrow> (e1, p1, Inr ())
             | Some x \<Rightarrow>
                 (let e' = e1\<lparr>ep_stats := countError (thrown_message x) (ep_stats e1)\<rparr>
                  in case errorToHeader x of
                       Inl err \<Rightarrow> (e', p1, Inl err)
                     | Inr h \<Rightarrow>
                         (case answer_msg m (Some (P_Bytes [])) (Some \<lparr>rs_reply = [], rs_headers = Some h\<rparr>) p1 of
                            (p', Inl err) \<Rightarrow> (e', p', Inl err)
                          | (p', Inr b) \<Rightarrow> (e', p', Inr ()))))
      in (e2\<lparr>ep_stats := countLatency ms (ep_stats e2)\<rparr>, s1, p2, r))"

text \<open>The call of the callback of endpoint \<open>k\<close>, with an error or a message; \<open>internal\<close> says in which
  list the endpoint is.\<close>

definition svc_callback ::
  "(answer \<Rightarrow> bytes) \<Rightarrow> nat \<Rightarrow> bool \<Rightarrow> nat \<Rightarrow> js_error option \<Rightarrow> nats_msg \<Rightarrow> service \<Rightarrow> connection
    \<Rightarrow> service \<times> connection \<times> (js_error + unit)" where
  "svc_callback enc ms internal k err m s nc =
     (case err of
        Some e \<Rightarrow> (case svc_close (Some e) s nc of (s', nc') \<Rightarrow> (s', nc', Inr ()))
      | None \<Rightarrow>
          if internal
          then (case ep_call enc ms m (svc_internal s ! k) s (nc_protocol nc) of
                  (e, s', p, r) \<Rightarrow> (s'\<lparr>svc_internal := (svc_internal s')[k := e]\<rparr>, nc\<lparr>nc_protocol := p\<rparr>, r))
          else (case ep_call enc ms m (svc_handlers s ! k) s (nc_protocol nc) of
                  (e, s', p, r) \<Rightarrow> (s'\<lparr>svc_handlers := (svc_handlers s')[k := e]\<rparr>, nc\<lparr>nc_protocol := p\<rparr>, r)))"

section \<open>The client\<close>

record service_client =
  sc_prefix :: "string option"
  sc_opts :: many_opts

definition new_service_client :: "many_opts option \<Rightarrow> string option \<Rightarrow> service_client" where
  "new_service_client opts prefix =
     \<lparr>sc_prefix = prefix,
      sc_opts = (case opts of Some o1 \<Rightarrow> o1
        | None \<Rightarrow> \<lparr>mo_strategy = Some JitterTimer, mo_maxWait = 2000, mo_maxMessages = None, mo_jitter = None,
                    mo_noMux = False, mo_headers = None\<rparr>)\<rparr>"

text \<open>\<open>q\<close> up to the request, and the loop over the responses: \<open>dec\<close> reads the JSON of a message. The
  promise of the request is \<open>q\<close>'s own.\<close>

definition sc_q ::
  "string \<Rightarrow> string \<Rightarrow> nat \<Rightarrow> nat \<Rightarrow> verb \<Rightarrow> string \<Rightarrow> string \<Rightarrow> service_client \<Rightarrow> connection
    \<Rightarrow> connection \<times> (js_error + many_handle)" where
  "sc_q tok nuid i r v name ident c nc =
     (case controlSubject v name ident (sc_prefix c) of
        Inl e \<Rightarrow> (nc, Inl e)
      | Inr subj \<Rightarrow> nc_requestMany tok nuid i r subj (P_Bytes []) (sc_opts c) nc)"

definition sc_response :: "(bytes \<Rightarrow> js_error + 'a) \<Rightarrow> nats_msg \<Rightarrow> 'a qiter \<Rightarrow> 'a qiter" where
  "sc_response dec m q =
     (case dec (msg_data m) of
        Inr v \<Rightarrow> qi_push (\<lambda>_. (True, False)) (Val v) q
      | Inl e \<Rightarrow> qi_push (\<lambda>_. (True, False)) (Fn (Some (Some e)) None) q)"

definition sc_end :: "js_error option \<Rightarrow> 'a qiter \<Rightarrow> 'a qiter" where
  "sc_end err q =
     (case err of
        None \<Rightarrow> qi_push (\<lambda>_. (True, False)) (Fn (Some None) None) q
      | Some e \<Rightarrow> qi_stop (Some e) q)"

end
