(* ===== verification/Service_Spec.thy ===== *)
theory Service_Spec
  imports Service
begin

text \<open>
  What services promise: their control subjects do not collide, endpoints are found under the path
  of their groups, an error of a handler reaches the caller, requests are counted, and stopping
  drains every subscription of the service.
\<close>

section \<open>Control subjects\<close>

definition control_tokens :: "verb \<Rightarrow> string \<Rightarrow> string \<Rightarrow> string list" where
  "control_tokens v n i = verb_string v # (if n = [] then [] else n # (if i = [] then [] else [i]))"

lemma verb_tokens: "CHR ''.'' \<notin> set (verb_string v)" "verb_string v = verb_string w \<longleftrightarrow> v = w"
  by (cases v; simp) (cases v; cases w; simp)

lemma name_char_no_dot: "\<forall>c \<in> set n. name_char c \<Longrightarrow> CHR ''.'' \<notin> set n"
  by (auto simp: name_char_def word_char_def char_code_def)

lemma controlSubject_tokens:
  assumes "controlSubject v n i prefix = Inr s"
  shows "s = (case prefix of Some p \<Rightarrow> p | None \<Rightarrow> ServiceApiPrefix) @ ''.'' @ join_on (CHR ''.'') (control_tokens v n i)
    \<and> (\<forall>t \<in> set (control_tokens v n i). CHR ''.'' \<notin> set t) \<and> (n = [] \<longrightarrow> i = [])"
proof (cases "n = [] \<and> i = []")
  case True
  then show ?thesis using assms verb_tokens(1) by (simp add: controlSubject_def control_tokens_def Let_def)
next
  case False
  then have n: "validateName ''control subject name'' n = Inr ()"
    using assms by (cases "validateName ''control subject name'' n") (auto simp: controlSubject_def Let_def)
  then have n': "n \<noteq> []" "CHR ''.'' \<notin> set n" using validateName_ok name_char_no_dot by simp_all
  show ?thesis
  proof (cases "i = []")
    case True
    then show ?thesis using False n n' assms verb_tokens(1) by (auto simp: controlSubject_def control_tokens_def Let_def)
  next
    case i: False
    then have "validateName ''control subject id'' i = Inr ()"
      using False n assms by (cases "validateName ''control subject id'' i") (auto simp: controlSubject_def Let_def)
    then have "CHR ''.'' \<notin> set i" using validateName_ok name_char_no_dot by simp
    then show ?thesis
      using i n n' \<open>validateName ''control subject id'' i = Inr ()\<close> assms verb_tokens(1)
      by (auto simp: controlSubject_def control_tokens_def Let_def)
  qed
qed

text \<open>
  C13: The control subjects of services do not collide: under one prefix, a subject that is built
  without an error names the verb, the service and the identifier, so a request to a single service
  or to a single instance is answered by no other.
\<close>
theorem control_subjects_are_distinct:
  assumes "controlSubject v n i prefix = Inr s" "controlSubject v' n' i' prefix = Inr s"
  shows "v = v' \<and> n = n' \<and> i = i'"
proof -
  note a = controlSubject_tokens [OF assms(1)] and b = controlSubject_tokens [OF assms(2)]
  have ne: "control_tokens x y z \<noteq> []" for x y z by (simp add: control_tokens_def)
  have "join_on (CHR ''.'') (control_tokens v n i) = join_on (CHR ''.'') (control_tokens v' n' i')"
    using a b by simp
  then have "control_tokens v n i = control_tokens v' n' i'"
    using a b ne split_join_on by metis
  then show ?thesis using a b verb_tokens(2) by (auto simp: control_tokens_def split: if_splits)
qed

theorem control_subjects_are_distinct_witness:
  "controlSubject STATS ''a'' ''b'' None = Inr ''$SRV.STATS.a.b'' \<and> STATS = STATS"
proof -
  have "controlSubject STATS ''a'' ''b'' None = Inr ''$SRV.STATS.a.b''" by code_simp
  from control_subjects_are_distinct [OF this this] this show ?thesis by blast
qed

section \<open>Errors of a handler\<close>

lemma show_500: "show_int 500 = ''500''" "js_trim ''500'' = ''500''"
  by code_simp+

lemma set_fresh:
  assumes "valid_key k" "CR \<notin> set v" "LF \<notin> set v" "k \<notin> set (hdr_keys h)"
  shows "hdr_set h k v Exact = (h\<lparr>hd_map := hd_map h @ [(k, [js_trim v])]\<rparr>, Inr ())"
proof -
  have "filter (\<lambda>v. v = k) (hdr_keys h) = []" using assms(4) by (auto simp: filter_empty_conv)
  then have "hdr_delete h k Exact = (h, Inr ())" by (simp add: hdr_delete_def)
  moreover have "values_of h k = []"
    using assms(4) by (simp add: values_of_def hdr_keys_def map_of_eq_None_iff [THEN iffD2])
  ultimately show ?thesis
    using assms by (simp add: hdr_set_def hdr_append_ok hdr_keys_def update_absent)
qed

definition pair_headers :: "string \<Rightarrow> string \<Rightarrow> string \<Rightarrow> string \<Rightarrow> msg_hdrs" where
  "pair_headers k v k' v' = (new_hdrs 0 [])\<lparr>hd_map := [(k, [js_trim v]), (k', [js_trim v'])]\<rparr>"

lemma error_headers_pair:
  assumes "valid_key k" "valid_key k'" "k \<noteq> k'" "CR \<notin> set v" "LF \<notin> set v" "CR \<notin> set v'" "LF \<notin> set v'"
  shows "error_headers [(k, v), (k', v')] (new_hdrs 0 []) = Inr (pair_headers k v k' v')"
  using assms by (simp add: error_headers_def set_fresh hdr_keys_def pair_headers_def new_hdrs_def)

lemma pair_headers_ok:
  assumes "valid_key k" "valid_key k'" "k \<noteq> k'" "CR \<notin> set v" "LF \<notin> set v" "CR \<notin> set v'" "LF \<notin> set v'"
  shows "hdrs_ok (pair_headers k v k' v')" "status_ok (pair_headers k v k' v')"
  using assms by (auto simp: pair_headers_def new_hdrs_def hdrs_ok_def entry_ok_def status_ok_def
      intro: ok_value_js_trim)

lemma pair_headers_get:
  "k \<noteq> k' \<Longrightarrow> hdr_get (pair_headers k v k' v') k Exact = Inr (Some (js_trim v))"
  "k \<noteq> k' \<Longrightarrow> hdr_get (pair_headers k v k' v') k' Exact = Inr (Some (js_trim v'))"
  by (simp_all add: hdr_get_def pair_headers_def hdr_keys_def)

lemma service_header_keys:
  "valid_key ServiceErrorHeader" "valid_key ServiceErrorCodeHeader" "ServiceErrorHeader \<noteq> ServiceErrorCodeHeader"
  by code_simp+

text \<open>The reply to a request whose handler throws, and a message that carries it.\<close>

definition reply_headers :: "thrown \<Rightarrow> msg_hdrs" where
  "reply_headers t =
     (case t of
        Service_Error c d \<Rightarrow> pair_headers ServiceErrorHeader d ServiceErrorCodeHeader (show_int c)
      | Other_Error e \<Rightarrow> pair_headers ServiceErrorHeader (err_message e) ServiceErrorCodeHeader ''500'')"

definition carries :: "nats_msg \<Rightarrow> msg_hdrs \<Rightarrow> bytes \<Rightarrow> bool" where
  "carries m h d \<longleftrightarrow> hdr (nm_msg m) = int (length (hdr_encode h)) \<and> nm_rdata m = hdr_encode h @ d"

lemma plain_500: "CR \<notin> set ''500''" "LF \<notin> set ''500''"
  by code_simp+

lemma errorToHeader_ok:
  assumes "CR \<notin> set (thrown_message t)" "LF \<notin> set (thrown_message t)"
  shows "errorToHeader t = Inr (reply_headers t)" "hdrs_ok (reply_headers t)" "status_ok (reply_headers t)"
proof -
  obtain d v where d: "d = thrown_message t" and v: "CR \<notin> set v" "LF \<notin> set v"
    and e: "errorToHeader t = error_headers [(ServiceErrorHeader, d), (ServiceErrorCodeHeader, v)] (new_hdrs 0 [])"
    and r: "reply_headers t = pair_headers ServiceErrorHeader d ServiceErrorCodeHeader v"
  proof (cases t)
    case (Service_Error c x)
    show ?thesis
      by (rule that [of x "show_int c"]) (simp_all add: Service_Error errorToHeader_def headers_fn_def reply_headers_def)
  next
    case (Other_Error x)
    show ?thesis
      by (rule that [of "err_message x" "''500''"])
        (simp_all only: Other_Error errorToHeader_def headers_fn_def reply_headers_def thrown.case plain_500
          thrown_message.simps not_False_eq_True, simp_all add: headers_fn_def)
  qed
  show "errorToHeader t = Inr (reply_headers t)"
    unfolding e r using assms v service_header_keys d by (intro error_headers_pair) simp_all
  show "hdrs_ok (reply_headers t)" "status_ok (reply_headers t)"
    unfolding r using assms v service_header_keys d by (intro pair_headers_ok; simp)+
qed

text \<open>What a client reads: a code of 0 counts as no code, and for a blank message the code stands in.\<close>

definition thrown_code :: "thrown \<Rightarrow> int" where
  "thrown_code t = (case t of Service_Error c x \<Rightarrow> c | Other_Error e \<Rightarrow> 500)"

definition read_back :: "thrown \<Rightarrow> thrown" where
  "read_back t =
     Service_Error (if thrown_code t = 0 then 400 else thrown_code t)
       (if js_trim (thrown_message t) = [] then show_int (thrown_code t) else js_trim (thrown_message t))"

lemma reads_back:
  assumes "carries m (reply_headers t) d" "CR \<notin> set (thrown_message t)" "LF \<notin> set (thrown_message t)"
    "\<bar>thrown_code t\<bar> < 2 ^ 53"
  shows "toServiceError m = Inr (Some (read_back t))"
proof -
  have h: "msg_headers m = Inr (Some (reply_headers t))"
    using assms(1) errorToHeader_ok(2,3) [OF assms(2,3)]
    by (simp add: carries_def msg_headers_def decode_encode subarray_def)
  have "hdr_get (reply_headers t) ServiceErrorCodeHeader Exact = Inr (Some (show_int (thrown_code t)))"
    "hdr_get (reply_headers t) ServiceErrorHeader Exact = Inr (Some (js_trim (thrown_message t)))"
    using service_header_keys(3) by (cases t; simp add: reply_headers_def pair_headers_get thrown_code_def show_500)+
  moreover have "show_int (thrown_code t) \<noteq> []" by (simp add: show_int_def)
  ultimately show ?thesis
    using parse_int_show_int [OF assms(4)]
    by (simp add: toServiceError_def h header_or_empty_def read_back_def)
qed

text \<open>
  C15: A request whose handler throws an error with a message of one line is answered by one
  publication to its reply subject, and the call is counted as a request and as an error. A client
  that reads any message with these headers gets a \<open>ServiceError\<close>: with the code of a
  \<open>ServiceError\<close> below \<open>2 ^ 53\<close>, or 500 for another error, where a code of 0 is read as 400; and with
  the message, without the blanks around it, where a blank message is read as the digits of the code.
\<close>
theorem error_reply_reads_back:
  assumes "ep_handler e = Some (H_Function f)" "f \<lparr>sm_msg = m\<rparr> p = (p1, Some t)"
    "CR \<notin> set (thrown_message t)" "LF \<notin> set (thrown_message t)" "\<bar>thrown_code t\<bar> < 2 ^ 53"
    "msg_reply m \<noteq> []" "snd (publish (msg_reply m) (P_Bytes []) [] (Some (reply_headers t)) p1) = Inr ()"
  shows "\<exists>e'. ep_call enc ms m e s p
      = (e', s, fst (publish (msg_reply m) (P_Bytes []) [] (Some (reply_headers t)) p1), Inr ())
    \<and> st_requests (ep_stats e') = st_requests (ep_stats e) + 1
    \<and> st_errors (ep_stats e') = st_errors (ep_stats e) + 1
    \<and> st_last_error (ep_stats e') = Some (thrown_message t)
    \<and> (\<forall>r. carries r (reply_headers t) [] \<longrightarrow>
         toServiceError r = Inr (Some (read_back t)))"
proof -
  obtain p2 where p: "publish (msg_reply m) (P_Bytes []) [] (Some (reply_headers t)) p1 = (p2, Inr ())"
    using assms(7) by (metis prod.collapse)
  have "toServiceError r = Inr (Some (read_back t))" if "carries r (reply_headers t) []" for r
    by (rule reads_back [OF that assms(3-5)])
  then show ?thesis
    using assms(1,2,6) p errorToHeader_ok(1) [OF assms(3,4)]
    by (simp add: ep_call_def run_handler_def answer_msg_def msg_respond_def countLatency_def countError_def Let_def)
qed

text \<open>A message with a line break cannot be a header: the caller gets no answer, and the error of the
  headers leaves the callback.\<close>

lemma line_break_swallows_the_reply:
  assumes "ep_handler e = Some (H_Function f)" "f \<lparr>sm_msg = m\<rparr> p = (p1, Some t)"
    "LF \<in> set (thrown_message t)"
  shows "\<exists>e' x. ep_call enc ms m e s p = (e', s, p1, Inl x)"
proof -
  have "\<exists>x. errorToHeader t = Inl x"
    using assms(3) service_header_keys
    by (cases t) (auto simp: errorToHeader_def headers_fn_def error_headers_def hdr_set_def hdr_delete_def
        hdr_append_def valid_header_value_def new_hdrs_def hdr_keys_def split: prod.splits sum.splits)
  then show ?thesis using assms(1,2) by (auto simp: ep_call_def run_handler_def Let_def)
qed

text \<open>A request for the examples, and a handler that refuses it.\<close>

definition sample_ask :: nats_msg where
  "sample_ask = new_msg (newMsgArg\<lparr>reply := Some (te_encode ''r'')\<rparr>) []"

definition refusing :: user_handler where
  "refusing m p = (p, Some (Service_Error 403 ''not you''))"

definition refused :: endpoint where
  "refused = new_endpoint ''e'' ''e'' ''q'' (Some (H_Function refusing)) None"

definition sample_service :: service where
  "sample_service =
     \<lparr>svc_id = ''I1'', svc_config = \<lparr>cf_name = ''echo'', cf_version = ''2.9.0'', cf_description = None,
        cf_metadata = None, cf_queue = ''q'', cf_statsHandler = False\<rparr>,
      svc_handlers = [], svc_internal = [], svc_stopped = False, svc_closing = None, svc_done = None,
      svc_started = ''now'', svc_runs = []\<rparr>"

definition sample_answer :: nats_msg where
  "sample_answer = (let h = hdr_encode (reply_headers (Service_Error 403 ''not you''))
     in new_msg (newMsgArg\<lparr>hdr := int (length h)\<rparr>) h)"

theorem error_reply_reads_back_witness:
  "carries sample_answer (reply_headers (Service_Error 403 ''not you'')) []
   \<and> toServiceError sample_answer = Inr (Some (Service_Error 403 ''not you''))"
proof -
  have d: "CR \<notin> set ''not you''" "LF \<notin> set ''not you''" "read_back (Service_Error 403 ''not you'') = Service_Error 403 ''not you''"
    by code_simp+
  have r: "msg_reply sample_ask = ''r''" by code_simp
  have "length (hdr_encode (reply_headers (Service_Error 403 ''not you''))) \<le> 1024" by code_simp
  then have p: "snd (publish ''r'' (P_Bytes []) [] (Some (reply_headers (Service_Error 403 ''not you''))) sample_protocol) = Inr ()"
    by (simp add: publish_def sample_protocol_def sample_info_def Let_def)
  have c: "carries sample_answer (reply_headers (Service_Error 403 ''not you'')) []"
    by (simp add: carries_def sample_answer_def new_msg_def Let_def)
  have "\<exists>e'. ep_call (\<lambda>a. []) 0 sample_ask refused sample_service sample_protocol = (e', sample_service,
      fst (publish ''r'' (P_Bytes []) [] (Some (reply_headers (Service_Error 403 ''not you''))) sample_protocol), Inr ())
    \<and> st_requests (ep_stats e') = st_requests (ep_stats refused) + 1
    \<and> st_errors (ep_stats e') = st_errors (ep_stats refused) + 1
    \<and> st_last_error (ep_stats e') = Some ''not you''
    \<and> (\<forall>r. carries r (reply_headers (Service_Error 403 ''not you'')) [] \<longrightarrow>
         toServiceError r = Inr (Some (Service_Error 403 ''not you'')))"
    using error_reply_reads_back [of refused refusing sample_ask sample_protocol sample_protocol
        "Service_Error 403 ''not you''" "\<lambda>a. []" 0 sample_service] d r p
    by (simp add: refused_def new_endpoint_def refusing_def thrown_code_def)
  with c show ?thesis by blast
qed

section \<open>Counting\<close>

text \<open>What happens to an endpoint with a function: a message comes and its call takes some time, the
  statistics are asked for with the answer of their handler, or they are reset. The run keeps what an
  observer sees since the last reset: how long each call took and what it threw, and the failures of
  the statistics handler.\<close>

datatype ep_event =
    Ev_Message nat nats_msg
  | Ev_Stats "(js_error + json option) option"
  | Ev_Reset

datatype observed = Call_Seen nat "thrown option" | Failure_Seen js_error | Stats_Seen

definition ep_event_step ::
  "(answer \<Rightarrow> bytes) \<Rightarrow> (service_msg \<Rightarrow> protocol \<Rightarrow> protocol \<times> thrown option) \<Rightarrow> ep_event
    \<Rightarrow> endpoint \<times> service \<times> protocol \<times> observed list \<Rightarrow> endpoint \<times> service \<times> protocol \<times> observed list" where
  "ep_event_step enc f ev = (\<lambda>(e, s, p, l). case ev of
       Ev_Message ms m \<Rightarrow> (case ep_call enc ms m e s p of (e', s', p', r) \<Rightarrow> (e', s', p', l @ [Call_Seen ms (snd (f \<lparr>sm_msg = m\<rparr> p))]))
     | Ev_Stats ans \<Rightarrow> (stats_endpoint ans e, s, p, l @ [case ans of Some (Inl x) \<Rightarrow> Failure_Seen x | _ \<Rightarrow> Stats_Seen])
     | Ev_Reset \<Rightarrow> (ep_reset e, s, p, []))"

definition observed_call :: "observed \<Rightarrow> bool" where
  "observed_call x = (case x of Call_Seen ms t \<Rightarrow> True | _ \<Rightarrow> False)"

definition observed_time :: "observed \<Rightarrow> nat" where
  "observed_time x = (case x of Call_Seen ms t \<Rightarrow> nanos ms | _ \<Rightarrow> 0)"

definition observed_error :: "observed \<Rightarrow> string option" where
  "observed_error x = (case x of Call_Seen ms t \<Rightarrow> map_option thrown_message t | Failure_Seen e \<Rightarrow> Some (err_message e) | Stats_Seen \<Rightarrow> None)"

definition last_error :: "observed list \<Rightarrow> string option" where
  "last_error l = (case filter (\<lambda>x. observed_error x \<noteq> None) l of [] \<Rightarrow> None | xs \<Rightarrow> observed_error (last xs))"

definition total_time :: "observed list \<Rightarrow> nat" where
  "total_time l = sum_list (map observed_time l)"

lemma total_time_snoc: "total_time (l @ [x]) = total_time l + observed_time x"
  by (simp add: total_time_def)

lemma last_error_snoc: "last_error (l @ [x]) = (if observed_error x = None then last_error l else observed_error x)"
proof -
  have "(case xs @ [x] of [] \<Rightarrow> None | ys \<Rightarrow> observed_error (last ys)) = observed_error x" for xs
    by (cases xs) simp_all
  then show ?thesis by (simp add: last_error_def del: not_None_eq)
qed

text \<open>The statistics are what was observed; the processing time is exact as long as it is below
  \<open>2 ^ 53\<close> nanoseconds, some hundred days.\<close>

definition mean_of :: "nat \<Rightarrow> nat \<Rightarrow> mean" where
  "mean_of t n = Rounded (if n = 0 then 0 else (2 * t + n) div (2 * n))"

definition exact_stats :: "observed list \<Rightarrow> ep_stats \<Rightarrow> bool" where
  "exact_stats l s \<longleftrightarrow>
     st_requests s = length (filter observed_call l) \<and> st_errors s = length (filter (\<lambda>x. observed_error x \<noteq> None) l)
     \<and> st_last_error s = last_error l \<and> st_average s = mean_of (st_time s) (st_requests s)
     \<and> (total_time l < 2 ^ 53 \<longrightarrow> st_time s = total_time l)"

definition function_endpoint :: "(service_msg \<Rightarrow> protocol \<Rightarrow> protocol \<times> thrown option) \<Rightarrow> endpoint \<Rightarrow> bool" where
  "function_endpoint f e \<longleftrightarrow> ep_handler e = Some (H_Function f) \<and> (\<forall>q. ep_qi e = Some q \<longrightarrow> qi_noIterator q)"

lemma ep_call_stats:
  assumes "ep_handler e = Some (H_Function f)"
  shows "ep_stats (fst (ep_call enc ms m e s p))
      = countLatency ms (case snd (f \<lparr>sm_msg = m\<rparr> p) of None \<Rightarrow> ep_stats e | Some x \<Rightarrow> countError (thrown_message x) (ep_stats e))"
    "ep_handler (fst (ep_call enc ms m e s p)) = ep_handler e" "ep_qi (fst (ep_call enc ms m e s p)) = ep_qi e"
  using assms by (auto simp: ep_call_def run_handler_def Let_def case_prod_beta split: option.splits sum.splits)

lemma counted_call:
  assumes "exact_stats l s"
  shows "exact_stats (l @ [Call_Seen ms t])
    (countLatency ms (case t of None \<Rightarrow> s | Some x \<Rightarrow> countError (thrown_message x) s))"
proof -
  have "js_round (total_time l + nanos ms) = total_time l + nanos ms" if "total_time l + nanos ms < 2 ^ 53"
    using that by (simp add: js_round_def)
  then show ?thesis
    using assms
    by (cases t) (auto simp: exact_stats_def countLatency_def countError_def mean_of_def observed_call_def observed_time_def
        observed_error_def total_time_snoc last_error_snoc Let_def)
qed

lemma ep_event_exact:
  assumes "function_endpoint f e" "exact_stats l (ep_stats e)" "ep_event_step enc f ev (e, s, p, l) = (e', s', p', l')"
  shows "function_endpoint f e' \<and> exact_stats l' (ep_stats e')"
proof (cases ev)
  case (Ev_Message ms m)
  have h: "ep_handler e = Some (H_Function f)" using assms(1) by (simp add: function_endpoint_def)
  have "e' = fst (ep_call enc ms m e s p)" "l' = l @ [Call_Seen ms (snd (f \<lparr>sm_msg = m\<rparr> p))]"
    using assms(3) Ev_Message by (auto simp: ep_event_step_def split: prod.splits)
  then show ?thesis using assms(1) ep_call_stats [OF h] counted_call [OF assms(2)] by (simp add: function_endpoint_def)
next
  case (Ev_Stats ans)
  then show ?thesis
    using assms by (auto simp: ep_event_step_def stats_endpoint_def ep_stats_shown_def function_endpoint_def exact_stats_def
        countError_def observed_call_def observed_error_def observed_time_def total_time_snoc last_error_snoc
        split: option.splits sum.splits)
next
  case Ev_Reset
  then show ?thesis
    using assms by (auto simp: ep_event_step_def ep_reset_def function_endpoint_def exact_stats_def stats_reset_def mean_of_def
        last_error_def total_time_def)
qed

text \<open>
  C17: The statistics of an endpoint with a handler function are exact. After any sequence of messages,
  requests for statistics and resets, the requests are the calls since the last reset; the errors are
  the calls since then that threw, together with the failures of the statistics handler, and the last
  error is the message of the last of them; the processing time is the sum of the times of the calls
  (below \<open>2 ^ 53\<close> nanoseconds), and the average its rounded quotient by the requests.
\<close>
theorem requests_are_counted:
  assumes "fold (ep_event_step enc f) evs (new_endpoint name subj queue (Some (H_Function f)) md, s, p, []) = (e, s', p', l)"
  shows "st_requests (ep_stats e) = length (filter observed_call l)
    \<and> st_errors (ep_stats e) = length (filter (\<lambda>x. observed_error x \<noteq> None) l)
    \<and> st_last_error (ep_stats e) = last_error l
    \<and> st_average (ep_stats e) = mean_of (st_time (ep_stats e)) (st_requests (ep_stats e))
    \<and> (total_time l < 2 ^ 53 \<longrightarrow> st_time (ep_stats e) = total_time l)"
proof -
  have "function_endpoint f e \<and> exact_stats l (ep_stats e)"
    using assms
  proof (induction evs arbitrary: e s' p' l rule: rev_induct)
    case Nil
    then show ?case
      by (auto simp: function_endpoint_def new_endpoint_def exact_stats_def new_stats_def mean_of_def last_error_def total_time_def)
  next
    case (snoc ev evs)
    obtain e1 s1 p1 l1 where r: "fold (ep_event_step enc f) evs (new_endpoint name subj queue (Some (H_Function f)) md, s, p, [])
        = (e1, s1, p1, l1)" by (metis prod_cases4)
    then have i: "function_endpoint f e1" "exact_stats l1 (ep_stats e1)" using snoc.IH by blast+
    show ?case using snoc.prems by (intro ep_event_exact [OF i]) (simp add: r)
  qed
  then show ?thesis by (simp add: exact_stats_def)
qed

theorem requests_are_counted_witness:
  "\<exists>e s' p' l. fold (ep_event_step (\<lambda>a. []) refusing) [Ev_Message 3 sample_ask, Ev_Message 5 sample_ask] (refused, sample_service, sample_protocol, [])
      = (e, s', p', l)
    \<and> st_requests (ep_stats e) = 2 \<and> st_errors (ep_stats e) = 2 \<and> st_last_error (ep_stats e) = Some ''not you''
    \<and> st_time (ep_stats e) = 8000000 \<and> st_average (ep_stats e) = Rounded 4000000"
proof -
  let ?evs = "[Ev_Message 3 sample_ask, Ev_Message 5 sample_ask]"
  obtain e s' p' l where r: "fold (ep_event_step (\<lambda>a. []) refusing) ?evs (refused, sample_service, sample_protocol, []) = (e, s', p', l)"
    by (metis prod_cases4)
  then have l: "l = [Call_Seen 3 (Some (Service_Error 403 ''not you'')), Call_Seen 5 (Some (Service_Error 403 ''not you''))]"
    by (auto simp: ep_event_step_def refusing_def split: prod.splits)
  note t = requests_are_counted [where evs = ?evs and e = e and l = l, OF r [unfolded refused_def]]
  have "nanos 3 = 3000000" "nanos 5 = 5000000" by (simp_all add: nanos_def js_round_def)
  then show ?thesis
    using r t by (simp add: l observed_call_def observed_error_def last_error_def total_time_def observed_time_def mean_of_def)
qed

section \<open>Stopping\<close>

text \<open>
  C16: Stopping a service drains every subscription of its endpoints and its control subjects, in
  order, each with an \<open>UNSUB\<close> and a ping, and touches no other subscription; the promise of the
  service then has the error of the first stop, and every later stop, also the one for a
  subscription that ends because of the drain, changes nothing.
\<close>
theorem stop_drains_the_service:
  fixes nc :: connection
  defines "p \<equiv> nc_protocol nc"
  assumes "\<not> svc_stopped s" "svc_done s = None" "\<not> nc_isClosed nc" "out_ok p" "distinct (svc_subs s)"
    "\<forall>i \<in> set (svc_subs s). drainable p i"
  shows "\<exists>s' nc'. svc_close err s nc = (s', nc')
    \<and> out_stream (nc_protocol nc') = out_stream p @ concat (map (drain_bytes p) (svc_subs s))
    \<and> (\<forall>i \<in> set (svc_subs s). sb_draining (sub_of (nc_protocol nc') i))
    \<and> (\<forall>j. j \<notin> set (svc_subs s) \<longrightarrow> sub_of (nc_protocol nc') j = sub_of p j)
    \<and> svc_done (svc_drained s') = Some err
    \<and> (\<forall>err' nc2. svc_close err' s' nc2 = (s', nc2)) \<and> (\<forall>h nc2. required_stopped h s' nc2 = (s', nc2))"
proof -
  have "\<not> pr_closed p" using assms(4) by (simp add: nc_isClosed_def p_def)
  note d = drain_all [OF this assms(5-7)]
  show ?thesis
    using d assms(2-4)
    by (simp add: svc_close_def svc_drained_def required_stopped_def p_def)
qed

definition draining_service :: service where
  "draining_service = sample_service\<lparr>svc_handlers := [refused\<lparr>ep_sub := 0\<rparr>]\<rparr>"

theorem stop_drains_the_service_witness:
  "out_stream (nc_protocol (snd (svc_close None draining_service sample_connection))) = unsub_line 1 @ PING_CMD"
proof -
  have p: "pr_subs sample_protocol = new_subs" "\<not> pr_closed sample_protocol" "out_ok sample_protocol"
      "out_stream sample_protocol = []"
    by (simp_all add: sample_protocol_def initial_protocol_def out_ok_def dq_ok_def dq_bytes_def
        new_data_buffer_def out_stream_def)
  have s: "sb_sid (sub_of with_limited_sub 0) = 1" "sub_of with_limited_sub 0 = limited_sub\<lparr>sb_sid := 1\<rparr>"
    by (simp_all add: with_limited_sub_def p subs_all_def subs_add_def new_subs_def sub_of_def Let_def)
  have i: "svc_subs draining_service = [0]" by (simp add: draining_service_def svc_subs_def sample_service_def)
  have "drainable with_limited_sub 0"
    by (simp add: drainable_def s(2) sub_isClosed_def limited_sub_def new_subscription_def new_qiter_def)
  then show ?thesis
    using stop_drains_the_service [of draining_service sample_connection None] p s i
    by (auto simp: draining_service_def sample_service_def sample_connection_def nc_isClosed_def with_limited_sub_def drain_bytes_def)
qed

text \<open>
  A stopped service still takes endpoints: while the connection is open, \<open>addEndpoint\<close> subscribes
  as before, and as every later stop does nothing, the subscription stays when the service is gone.
\<close>
theorem endpoint_outlives_its_service:
  assumes "svc_stopped s" "nc_check (ep_subject e) True False nc = Inr ()"
  shows "\<exists>s' nc'. add_endpoint i e s nc = (s', nc', Inr ()) \<and> svc_stopped s' \<and> i \<in> set (svc_subs s')
    \<and> i \<in> set (subs_all (pr_subs (nc_protocol nc')))
    \<and> (\<forall>err nc2. svc_close err s' nc2 = (s', nc2))"
proof -
  have u: "i \<in> snd ` set (AList.update k i xs)" for k :: nat and xs
    using map_of_SomeD [of "AList.update k i xs" k i] by (force simp: update_conv')
  have "i \<in> set (subs_all (pr_subs (pr_subscribe i (with_subs (upd_sub i (\<lambda>_. new_subscription subj
      \<lparr>so_queue = q, so_max = None, so_timeout = None, so_callback = c\<rparr>)) p))))" for subj q c p
    using u by (simp add: pr_subscribe_def pr_subunsub_def Let_def sub_of_def with_subs_def subs_all_def subs_add_def
        pr_sub_def new_subscription_def)
  then show ?thesis
    using assms by (simp add: add_endpoint_def setupHandler_def nc_subscribe_def svc_subs_def svc_close_def Let_def)
qed

theorem endpoint_outlives_its_service_witness:
  "\<exists>s' nc'. add_endpoint 3 refused (sample_service\<lparr>svc_stopped := True\<rparr>) sample_connection = (s', nc', Inr ())"
proof -
  have "nc_check ''e'' True False sample_connection = Inr ()"
    by (simp add: nc_check_def nc_isClosed_def nc_isDraining_def sample_connection_def with_limited_sub_def
        with_subs_def sample_protocol_def initial_protocol_def)
  then show ?thesis
    using endpoint_outlives_its_service [of "sample_service\<lparr>svc_stopped := True\<rparr>" refused sample_connection 3]
    by (auto simp: refused_def new_endpoint_def)
qed

section \<open>Groups\<close>

text \<open>Groups within groups, each with a name and a queue.\<close>

fun nested :: "(string \<times> string) list \<Rightarrow> service_group \<Rightarrow> js_error + service_group" where
  "nested [] g = Inr g"
| "nested ((n, q) # gs) g = rbind (addGroup g n q) (nested gs)"

definition service_root :: service_group where
  "service_root = \<lparr>sg_subject = [], sg_queue = []\<rparr>"

lemma service_is_the_root: "svc_addGroup n q = addGroup service_root n q" "new_group None [] [] = Inr service_root"
  by (simp_all add: svc_addGroup_def addGroup_def new_group_def service_root_def calcSubject_def)

definition given :: "string list \<Rightarrow> string list" where
  "given ss = filter (\<lambda>s. s \<noteq> []) ss"

definition path :: "string list \<Rightarrow> string" where
  "path ss = join_on (CHR ''.'') (given ss)"

definition nearest :: "string list \<Rightarrow> string" where
  "nearest qs = (case rev (given qs) of [] \<Rightarrow> [] | q # _ \<Rightarrow> q)"

lemma join_on_snoc: "ts \<noteq> [] \<Longrightarrow> join_on sep (ts @ [t]) = join_on sep ts @ sep # t"
  by (induction sep ts rule: join_on.induct) simp_all

lemma join_on_Nil_iff: "[] \<notin> set ts \<Longrightarrow> join_on sep ts = [] \<longleftrightarrow> ts = []"
  by (induction sep ts rule: join_on.induct) simp_all

lemma calcSubject_path: "calcSubject (path ss) n = path (ss @ [n])"
proof -
  have "[] \<notin> set (given ss)" by (simp add: given_def)
  then have "join_on (CHR ''.'') (given ss) = [] \<longleftrightarrow> given ss = []" by (rule join_on_Nil_iff)
  then show ?thesis
    by (cases "given ss = []") (simp_all add: calcSubject_def path_def given_def join_on_snoc)
qed

lemma nearest_snoc: "nearest (qs @ [q]) = (if q = [] then nearest qs else q)"
  by (simp add: nearest_def given_def)

lemma nested_path:
  assumes "nested gs g = Inr g'" "sg_subject g = path ns" "sg_queue g = nearest qs"
  shows "sg_subject g' = path (ns @ map fst gs) \<and> sg_queue g' = nearest (qs @ map snd gs)"
  using assms
proof (induction gs g arbitrary: ns qs rule: nested.induct)
  case (2 n q gs g)
  then obtain h where h: "addGroup g n q = Inr h" "nested gs h = Inr g'" by (auto simp: result_simps)
  then have "sg_subject h = path (ns @ [n])" "sg_queue h = nearest (qs @ [q])"
    using 2(3,4) by (auto simp: addGroup_def new_group_def calcSubject_path nearest_snoc result_simps split: if_splits)
  from "2.IH" [OF h(2) this] show ?case by simp
qed simp

text \<open>
  C18: An endpoint is subscribed under the path of its groups: the subject of the subscription is the
  names of the groups, from the outside in and without the empty ones, followed by the subject of the
  endpoint, and its queue is the nearest one given, by the endpoint, by a group around it, or else by
  the service.
\<close>
theorem endpoints_have_their_path:
  assumes "nested gs service_root = Inr g" "group_endpoint g name (Endpoint_Opts (Some subj) h md q) = Inr e"
    "subj \<noteq> []" "add_endpoint i e s nc = (s', nc', Inr ())"
  defines "sub \<equiv> sub_of (nc_protocol nc') i"
  shows "sb_subject sub = path (map fst gs @ [subj])
    \<and> sb_queue sub = Some (nearest (cf_queue (svc_config s) # map snd gs @ [case q of Some x \<Rightarrow> x | None \<Rightarrow> []]))"
proof -
  have "sg_subject service_root = path []" "sg_queue service_root = nearest []"
    by (simp_all add: service_root_def path_def nearest_def given_def)
  from nested_path [OF assms(1) this]
  have g: "sg_subject g = path (map fst gs)" "sg_queue g = nearest (map snd gs)" by simp_all
  have e: "ep_subject e = path (map fst gs @ [subj])"
    "ep_queue e = nearest (map snd gs @ [case q of Some x \<Rightarrow> x | None \<Rightarrow> []])"
    using assms(2,3) by (auto simp: group_endpoint_def Let_def result_simps new_endpoint_def g calcSubject_path nearest_snoc
        split: option.splits if_splits)
  have n: "nearest (x # qs) = (if nearest qs = [] then nearest [x] else nearest qs)" for x qs
    by (cases "rev (given qs)") (auto simp: nearest_def given_def rev_eq_Cons_iff dest!: arg_cong [of _ _ set])
  have sub: "sb_subject (sub_of (pr_subscribe i (with_subs (upd_sub i (\<lambda>_. new_subscription x
      \<lparr>so_queue = y, so_max = None, so_timeout = None, so_callback = c\<rparr>)) p)) i) = x"
    "sb_queue (sub_of (pr_subscribe i (with_subs (upd_sub i (\<lambda>_. new_subscription x
      \<lparr>so_queue = y, so_max = None, so_timeout = None, so_callback = c\<rparr>)) p)) i) = y" for x y c p
    by (simp_all add: pr_subscribe_def pr_subunsub_def Let_def sub_of_def with_subs_def subs_add_def
        pr_sub_def new_subscription_def)
  show ?thesis
    using assms(4) e n [of "cf_queue (svc_config s)"]
    by (auto simp: add_endpoint_def setupHandler_def nc_subscribe_def sub_def sub Let_def nearest_def [of "[_]"] given_def [of "[_]"]
        split: sum.splits if_splits)
qed

lemma sample_connection_check: "subj \<noteq> [] \<Longrightarrow> nc_check subj True False sample_connection = Inr ()"
  by (simp add: nc_check_def nc_isClosed_def nc_isDraining_def sample_connection_def with_limited_sub_def
      with_subs_def sample_protocol_def initial_protocol_def)

theorem endpoints_have_their_path_witness:
  "\<exists>s' nc'. add_endpoint 3 (new_endpoint ''x'' ''v1.a.x'' ''g'' None None) sample_service sample_connection = (s', nc', Inr ())
    \<and> sb_subject (sub_of (nc_protocol nc') 3) = ''v1.a.x'' \<and> sb_queue (sub_of (nc_protocol nc') 3) = Some ''g''"
proof -
  let ?e = "new_endpoint ''x'' ''v1.a.x'' ''g'' None None"
  obtain s' nc' where a: "add_endpoint 3 ?e sample_service sample_connection = (s', nc', Inr ())"
    using sample_connection_check [of "''v1.a.x''"]
    by (simp add: add_endpoint_def setupHandler_def nc_subscribe_def new_endpoint_def Let_def)
  have n: "nested [(''v1'', []), (''a'', ''g'')] service_root = Inr \<lparr>sg_subject = ''v1.a'', sg_queue = ''g''\<rparr>"
    by code_simp
  have e: "group_endpoint \<lparr>sg_subject = ''v1.a'', sg_queue = ''g''\<rparr> ''x'' (Endpoint_Opts (Some ''x'') None None None) = Inr ?e"
  proof -
    have "validateName ''endpoint'' ''x'' = Inr ()" "validSubjectName ''endpoint subject'' ''x'' = Inr ()" by code_simp+
    then show ?thesis by (simp add: group_endpoint_def calcSubject_def Let_def)
  qed
  show ?thesis
    using endpoints_have_their_path [OF n e _ a] a
    by (simp add: path_def given_def nearest_def sample_service_def)
qed

section \<open>Starting\<close>

definition open_for :: "connection \<Rightarrow> bool" where
  "open_for nc \<longleftrightarrow> \<not> nc_isClosed nc \<and> \<not> nc_isDraining nc"

definition subscribed :: "connection \<Rightarrow> nat \<Rightarrow> string \<Rightarrow> bool" where
  "subscribed nc i subj \<longleftrightarrow> sb_subject (sub_of (nc_protocol nc) i) = subj
     \<and> sb_queue (sub_of (nc_protocol nc) i) = Some [] \<and> \<not> sub_isClosed (sub_of (nc_protocol nc) i)"

lemma nc_subscribe_ok:
  assumes "open_for nc" "subj \<noteq> []"
  shows "\<exists>nc'. nc_subscribe i subj \<lparr>so_queue = q, so_max = None, so_timeout = None, so_callback = c\<rparr> nc = (nc', Inr ())
    \<and> open_for nc' \<and> sb_subject (sub_of (nc_protocol nc') i) = subj \<and> sb_queue (sub_of (nc_protocol nc') i) = q
    \<and> \<not> sub_isClosed (sub_of (nc_protocol nc') i)
    \<and> (\<forall>j. j \<noteq> i \<longrightarrow> sub_of (nc_protocol nc') j = sub_of (nc_protocol nc) j)"
  using assms
  by (simp add: nc_subscribe_def nc_check_def open_for_def nc_isClosed_def nc_isDraining_def
      pr_subscribe_def pr_subunsub_def Let_def sub_of_def with_subs_def subs_add_def pr_sub_def new_subscription_def
      sub_isClosed_def new_qiter_def)

lemma internal_ok:
  assumes "open_for nc" "controlSubject v kind i None = Inr subj"
  shows "\<exists>nc' e. doAddInternalHandler k name v h kind i s nc = (s\<lparr>svc_internal := svc_internal s @ [e]\<rparr>, nc', Inr ())
    \<and> open_for nc' \<and> ep_subject e = subj \<and> ep_sub e = k \<and> ep_handler e = Some h \<and> subscribed nc' k subj
    \<and> (\<forall>j x. j \<noteq> k \<longrightarrow> subscribed nc' j x = subscribed nc j x)"
proof -
  have "subj \<noteq> []" using controlSubject_tokens [OF assms(2)] by simp
  with assms(1) obtain nc' where n: "nc_subscribe k subj \<lparr>so_queue = Some [], so_max = None, so_timeout = None, so_callback = True\<rparr> nc
      = (nc', Inr ())" "open_for nc'" "sb_subject (sub_of (nc_protocol nc') k) = subj"
    "sb_queue (sub_of (nc_protocol nc') k) = Some []" "\<not> sub_isClosed (sub_of (nc_protocol nc') k)"
    "\<forall>j. j \<noteq> k \<longrightarrow> sub_of (nc_protocol nc') j = sub_of (nc_protocol nc) j"
    using nc_subscribe_ok [of nc subj k "Some []" True] by blast
  then show ?thesis
    using assms(2) by (simp add: doAddInternalHandler_def setupHandler_def new_endpoint_def subscribed_def Let_def)
      (rule exI, rule conjI, rule refl, simp)
qed

lemma verb_handlers_ok:
  fixes v :: verb
  assumes "open_for nc" "validateName ''control subject name'' (svc_name s) = Inr ()"
    "validateName ''control subject id'' (svc_id s) = Inr ()"
  defines "pre \<equiv> ''$SRV.'' @ verb_string v"
  defines "subjs \<equiv> [pre, pre @ ''.'' @ svc_name s, pre @ ''.'' @ svc_name s @ ''.'' @ svc_id s]"
  shows "\<exists>nc' es. addInternalHandler k v h s nc = (s\<lparr>svc_internal := svc_internal s @ es\<rparr>, nc', Inr ())
    \<and> open_for nc' \<and> map ep_subject es = subjs \<and> map ep_sub es = [k, k + 1, k + 2] \<and> (\<forall>e \<in> set es. ep_handler e = Some h)
    \<and> (\<forall>e \<in> set es. subscribed nc' (ep_sub e) (ep_subject e))
    \<and> (\<forall>j x. j < k \<longrightarrow> subscribed nc' j x = subscribed nc j x)"
proof -
  have ne: "svc_name s \<noteq> []" "svc_id s \<noteq> []" using assms(2,3) by (auto simp: validateName_def)
  have c: "controlSubject v [] [] None = Inr pre" "controlSubject v (svc_name s) [] None = Inr (pre @ ''.'' @ svc_name s)"
    "controlSubject v (svc_name s) (svc_id s) None = Inr (pre @ ''.'' @ svc_name s @ ''.'' @ svc_id s)"
    using ne assms(2,3) by (simp_all add: controlSubject_def pre_def ServiceApiPrefix_def Let_def)
  obtain n1 e1 where 1: "doAddInternalHandler k (verb_string v @ ''-all'') v h [] [] s nc
      = (s\<lparr>svc_internal := svc_internal s @ [e1]\<rparr>, n1, Inr ())" "open_for n1" "ep_subject e1 = pre" "ep_sub e1 = k"
      "ep_handler e1 = Some h" "subscribed n1 k pre" "\<And>j x. j \<noteq> k \<Longrightarrow> subscribed n1 j x = subscribed nc j x"
    using internal_ok [OF assms(1) c(1), of k "verb_string v @ ''-all''" h s] by blast
  let ?s1 = "s\<lparr>svc_internal := svc_internal s @ [e1]\<rparr>"
  obtain n2 e2 where 2: "doAddInternalHandler (k + 1) (verb_string v @ ''-kind'') v h (svc_name s) [] ?s1 n1
      = (?s1\<lparr>svc_internal := svc_internal ?s1 @ [e2]\<rparr>, n2, Inr ())" "open_for n2" "ep_subject e2 = pre @ ''.'' @ svc_name s"
      "ep_sub e2 = k + 1" "ep_handler e2 = Some h" "subscribed n2 (k + 1) (pre @ ''.'' @ svc_name s)"
      "\<And>j x. j \<noteq> k + 1 \<Longrightarrow> subscribed n2 j x = subscribed n1 j x"
    using internal_ok [OF 1(2) c(2), of "k + 1" "verb_string v @ ''-kind''" h ?s1] by blast
  let ?s2 = "?s1\<lparr>svc_internal := svc_internal ?s1 @ [e2]\<rparr>"
  obtain n3 e3 where 3: "doAddInternalHandler (k + 2) (verb_string v) v h (svc_name s) (svc_id s) ?s2 n2
      = (?s2\<lparr>svc_internal := svc_internal ?s2 @ [e3]\<rparr>, n3, Inr ())" "open_for n3"
      "ep_subject e3 = pre @ ''.'' @ svc_name s @ ''.'' @ svc_id s"
      "ep_sub e3 = k + 2" "ep_handler e3 = Some h" "subscribed n3 (k + 2) (pre @ ''.'' @ svc_name s @ ''.'' @ svc_id s)"
      "\<And>j x. j \<noteq> k + 2 \<Longrightarrow> subscribed n3 j x = subscribed n2 j x"
    using internal_ok [OF 2(2) c(3), of "k + 2" "verb_string v" h ?s2] by blast
  have "addInternalHandler k v h s nc = (s\<lparr>svc_internal := svc_internal s @ [e1, e2, e3]\<rparr>, n3, Inr ())"
    using 1(1) 2(1) 3(1) by (simp add: addInternalHandler_def)
  then show ?thesis using 1 2 3 by (intro exI [of _ n3] exI [of _ "[e1, e2, e3]"]) (simp add: subjs_def)
qed

text \<open>
  C14: Adding a service with a valid name, version and queue to an open connection gives a service that
  is not stopped and is subscribed, without a queue, to its nine control subjects: for each of \<open>PING\<close>,
  \<open>STATS\<close> and \<open>INFO\<close> the subject for all services, the one for its name and the one for its instance.
\<close>
theorem services_listen_on_their_control_subjects:
  assumes "open_for nc" "validateName ''name'' (cf_name config) = Inr ()" "validateName ''queue'' (cf_queue config) = Inr ()"
    "parseSemVer (cf_version config) = Inr ver" "validateName ''identifier'' ident = Inr ()"
  shows "\<exists>s nc'. services_add enc ident now k config nc = (Some s, nc', Inr ()) \<and> \<not> svc_stopped s \<and> svc_handlers s = []
    \<and> map ep_subject (svc_internal s) = concat (map (\<lambda>v. let pre = ''$SRV.'' @ verb_string v
        in [pre, pre @ ''.'' @ cf_name config, pre @ ''.'' @ cf_name config @ ''.'' @ ident]) [PING, STATS, INFO])
    \<and> map ep_sub (svc_internal s) = [k..<k + 9]
    \<and> (\<forall>e \<in> set (svc_internal s). subscribed nc' (ep_sub e) (ep_subject e))"
proof -
  define s0 where "s0 = \<lparr>svc_id = ident, svc_config = config, svc_handlers = [], svc_internal = [], svc_stopped = False,
     svc_closing = None, svc_done = None, svc_started = now, svc_runs = []\<rparr>"
  have q: "cf_queue config \<noteq> []" using assms(3) by (auto simp: validateName_def)
  have new: "new_service ident now config = Inr s0"
    using assms(2-4) q by (simp add: new_service_def svc_reset_def s0_def Let_def)
  have ok: "validateName c x = Inr () \<Longrightarrow> validateName c' x = Inr ()" for c c' x by (simp add: validateName_ok)
  have names: "validateName ''control subject name'' (svc_name (s0\<lparr>svc_internal := es\<rparr>)) = Inr ()"
    "validateName ''control subject id'' (svc_id (s0\<lparr>svc_internal := es\<rparr>)) = Inr ()" for es
    using ok [OF assms(2)] ok [OF assms(5)] by (simp_all add: s0_def svc_name_def)
  have same: "svc_name (s0\<lparr>svc_internal := es\<rparr>) = cf_name config" "svc_id (s0\<lparr>svc_internal := es\<rparr>) = ident"
    "svc_internal s0 = []" "s0\<lparr>svc_internal := []\<rparr> = s0" for es
    by (simp_all add: s0_def svc_name_def)
  note vh = verb_handlers_ok [OF _ names, unfolded same]
  let ?h = "H_Ping (enc (svc_ping s0))"
  obtain n1 a where 1: "addInternalHandler k PING ?h s0 nc = (s0\<lparr>svc_internal := a\<rparr>, n1, Inr ())" "open_for n1"
    "map ep_subject a = [''$SRV.PING'', ''$SRV.PING.'' @ cf_name config, ''$SRV.PING.'' @ cf_name config @ ''.'' @ ident]"
    "map ep_sub a = [k, k + 1, k + 2]" "\<forall>e \<in> set a. subscribed n1 (ep_sub e) (ep_subject e)"
    using vh [OF assms(1), of k PING ?h "[]", unfolded same] by (auto simp: same)
  obtain n2 b where 2: "addInternalHandler (k + 3) STATS H_Stats (s0\<lparr>svc_internal := a\<rparr>) n1
      = (s0\<lparr>svc_internal := a @ b\<rparr>, n2, Inr ())" "open_for n2"
    "map ep_subject b = [''$SRV.STATS'', ''$SRV.STATS.'' @ cf_name config, ''$SRV.STATS.'' @ cf_name config @ ''.'' @ ident]"
    "map ep_sub b = [k + 3, k + 4, k + 5]" "\<forall>e \<in> set b. subscribed n2 (ep_sub e) (ep_subject e)"
    "\<forall>j x. j < k + 3 \<longrightarrow> subscribed n2 j x = subscribed n1 j x"
    using vh [OF 1(2), of "k + 3" STATS H_Stats a] by auto
  obtain n3 c where 3: "addInternalHandler (k + 6) INFO H_Info (s0\<lparr>svc_internal := a @ b\<rparr>) n2
      = (s0\<lparr>svc_internal := a @ b @ c\<rparr>, n3, Inr ())" "open_for n3"
    "map ep_subject c = [''$SRV.INFO'', ''$SRV.INFO.'' @ cf_name config, ''$SRV.INFO.'' @ cf_name config @ ''.'' @ ident]"
    "map ep_sub c = [k + 6, k + 7, k + 8]" "\<forall>e \<in> set c. subscribed n3 (ep_sub e) (ep_subject e)"
    "\<forall>j x. j < k + 6 \<longrightarrow> subscribed n3 j x = subscribed n2 j x"
    using vh [OF 2(2), of "k + 6" INFO H_Info "a @ b"] by auto
  have img: "ep_sub ` set a = {k, k + 1, k + 2}" "ep_sub ` set b = {k + 3, k + 4, k + 5}"
    using arg_cong [OF 1(4), of set] arg_cong [OF 2(4), of set] by simp_all
  have lt: "\<forall>e \<in> set a. ep_sub e < k + 3" "\<forall>e \<in> set b. ep_sub e < k + 6"
    by (auto dest!: img [THEN equalityD1, THEN subsetD, OF imageI])
  have "svc_start enc k s0 nc = (s0\<lparr>svc_internal := a @ b @ c\<rparr>, n3, Inr ())"
    using 1(1) 2(1) 3(1) by (simp add: svc_start_def s0_def)
  moreover have "\<forall>e \<in> set (a @ b @ c). subscribed n3 (ep_sub e) (ep_subject e)"
    using 1(5) 2(5,6) 3(5,6) lt by fastforce
  moreover have "map ep_sub (a @ b @ c) = [k..<k + 9]"
    using 1(4) 2(4) 3(4) by (simp add: upt_conv_Cons)
  ultimately show ?thesis
    using new 1(3) 2(3) 3(3) by (simp add: services_add_def s0_def)
qed

lemma sample_names:
  "validateName ''name'' (cf_name (svc_config sample_service)) = Inr ()"
  "validateName ''queue'' (cf_queue (svc_config sample_service)) = Inr ()"
  "parseSemVer (cf_version (svc_config sample_service)) = Inr (SemVer 2 9 0)" "validateName ''identifier'' ''I1'' = Inr ()"
proof -
  have c: "cf_name (svc_config sample_service) = ''echo''" "cf_queue (svc_config sample_service) = ''q''"
    "cf_version (svc_config sample_service) = ''2.9.0''"
    by (simp_all add: sample_service_def)
  show "validateName ''name'' (cf_name (svc_config sample_service)) = Inr ()"
    "validateName ''queue'' (cf_queue (svc_config sample_service)) = Inr ()" "validateName ''identifier'' ''I1'' = Inr ()"
    unfolding c by code_simp+
  show "parseSemVer (cf_version (svc_config sample_service)) = Inr (SemVer 2 9 0)"
    unfolding c using feature_table_parses by (simp add: feature_table_def)
qed

theorem services_listen_on_their_control_subjects_witness:
  "\<exists>s nc'. services_add (\<lambda>a. []) ''I1'' ''now'' 5 (svc_config sample_service) sample_connection = (Some s, nc', Inr ())
    \<and> subscribed nc' (ep_sub (svc_internal s ! 2)) ''$SRV.PING.echo.I1''"
proof -
  have o: "open_for sample_connection"
    by (simp add: open_for_def nc_isClosed_def nc_isDraining_def sample_connection_def with_limited_sub_def
      with_subs_def sample_protocol_def initial_protocol_def)
  have n: "cf_name (svc_config sample_service) = ''echo''" by (simp add: sample_service_def)
  from services_listen_on_their_control_subjects [OF o sample_names, of "\<lambda>a. []" "''now''" 5, unfolded n]
  obtain s nc' where s: "services_add (\<lambda>a. []) ''I1'' ''now'' 5 (svc_config sample_service) sample_connection = (Some s, nc', Inr ())"
    "map ep_subject (svc_internal s) = concat (map (\<lambda>v. let pre = ''$SRV.'' @ verb_string v
        in [pre, pre @ ''.'' @ ''echo'', pre @ ''.'' @ ''echo'' @ ''.'' @ ''I1'']) [PING, STATS, INFO])"
    "map ep_sub (svc_internal s) = [5..<5 + 9]"
    "\<forall>e \<in> set (svc_internal s). subscribed nc' (ep_sub e) (ep_subject e)"
    by blast
  have n: "2 < length (svc_internal s)" using arg_cong [OF s(3), of length] by simp
  have "map ep_subject (svc_internal s) ! 2 = ''$SRV.PING.echo.I1''" unfolding s(2) by simp
  then have "ep_subject (svc_internal s ! 2) = ''$SRV.PING.echo.I1''" using n by simp
  then show ?thesis using s(1,4) nth_mem [OF n] by metis
qed

end
