(* ===== verification/Transport.thy ===== *)
theory Transport
  imports Data_Buffer Nats_Core
begin

text \<open>
  The transport: the factory and the framing of the first message in \<open>nats-base-client/transport.ts\<close>,
  the socket of \<open>src/deno_transport.ts\<close>, and the options it is checked against (\<open>checkOptions\<close> and
  \<open>checkUnsupportedOption\<close> of \<open>options.ts\<close>). The runtime is an argument: what connecting, reading,
  writing and reading files answer. A read and the end of a write are events.
\<close>

section \<open>The factory\<close>

record ('t, 'u, 'd) transport_factory =
  tf_factory :: "'t option"
  tf_defaultPort :: "nat option"
  tf_urlParseFn :: "'u option"
  tf_dnsResolveFn :: "'d option"

definition DEFAULT_PORT :: nat where "DEFAULT_PORT = 4222"

definition setTransportFactory ::
  "('t, 'u, 'd) transport_factory \<Rightarrow> ('t, 'u, 'd) transport_factory option" where
  "setTransportFactory config = Some config"

definition defaultPort :: "('t, 'u, 'd) transport_factory option \<Rightarrow> nat" where
  "defaultPort cfg =
     (case cfg of
        None \<Rightarrow> DEFAULT_PORT
      | Some f \<Rightarrow> (case tf_defaultPort f of Some p \<Rightarrow> p | None \<Rightarrow> DEFAULT_PORT))"

definition getUrlParseFn :: "('t, 'u, 'd) transport_factory option \<Rightarrow> 'u option" where
  "getUrlParseFn cfg = (case cfg of None \<Rightarrow> None | Some f \<Rightarrow> tf_urlParseFn f)"

definition getResolveFn :: "('t, 'u, 'd) transport_factory option \<Rightarrow> 'd option" where
  "getResolveFn cfg = (case cfg of None \<Rightarrow> None | Some f \<Rightarrow> tf_dnsResolveFn f)"

definition newTransport :: "('t, 'u, 'd) transport_factory option \<Rightarrow> js_error + 't" where
  "newTransport cfg =
     (case cfg of
        None \<Rightarrow> Inl (Plain_Error ''transport fn is not set'')
      | Some f \<Rightarrow> (case tf_factory f of None \<Rightarrow> Inl (Plain_Error ''transport fn is not set'') | Some t \<Rightarrow> Inr t))"

section \<open>The first protocol message\<close>

text \<open>The position behind the first line break, or 0.\<close>

fun line_end :: "nat \<Rightarrow> bytes \<Rightarrow> nat" where
  "line_end i (a # b # r) = (if a = 13 \<and> b = 10 then i + 1 + 1 else line_end (i + 1) (b # r))"
| "line_end i [a] = 0"
| "line_end i [] = 0"

definition protoLen :: "bytes \<Rightarrow> nat" where
  "protoLen ba = line_end 0 ba"

definition extractProtocolMessage :: "bytes \<Rightarrow> string" where
  "extractProtocolMessage a = (let len = protoLen a in if len > 0 then td_decode (take len a) else [])"

text \<open>The expression \<open>INFO\<close>: the name in any case, at least one space, then a nonempty text up to a
  line break. \<open>after_spaces\<close> lists what can follow the spaces, the fewest spaces first; the greedy
  match tries them from the end.\<close>

function after_spaces :: "string \<Rightarrow> string list" where
  "after_spaces s =
     (case leading_space s of None \<Rightarrow> [] | Some w \<Rightarrow> drop (length w) s # after_spaces (drop (length w) s))"
  by auto
termination
proof (relation "measure length")
  fix s w assume "leading_space s = Some w"
  then have "w \<noteq> []" "s = w @ drop (length w) s" by (simp_all add: leading_space_Some)
  then have "s \<noteq> []" by auto
  with \<open>w \<noteq> []\<close> show "(drop (length w) s, s) \<in> measure length" by (cases s; cases w) auto
qed simp

declare after_spaces.simps [simp del]

definition info_line :: "string \<Rightarrow> string option" where
  "info_line t =
     (let g = takeWhile (\<lambda>c. c \<noteq> CR \<and> c \<noteq> LF) t
      in if g \<noteq> [] \<and> starts_with [CR, LF] (drop (length g) t) then Some g else None)"

definition match_info :: "string \<Rightarrow> string option" where
  "match_info s =
     (if to_lower (take 4 s) = ''info''
      then (case List.find (\<lambda>t. info_line t \<noteq> None) (rev (after_spaces (drop 4 s))) of
              None \<Rightarrow> None | Some t \<Rightarrow> info_line t)
      else None)"

section \<open>Checking the options\<close>

record tls_options =
  tls_handshakeFirst :: bool
  tls_certFile :: "string option"
  tls_cert :: "string option"
  tls_caFile :: "string option"
  tls_ca :: "string option"
  tls_keyFile :: "string option"
  tls_key :: "string option"

datatype tls_choice = Tls_Undefined | Tls_Null | Tls_Opts tls_options

record transport_options =
  to_noEcho :: bool
  to_tls :: tls_choice

text \<open>What the first message says of the server.\<close>

record peer_info =
  pi_proto :: "int option"
  pi_tls_required :: bool
  pi_tls_available :: bool

definition checkOptions :: "peer_info \<Rightarrow> transport_options \<Rightarrow> js_error + unit" where
  "checkOptions info opts =
     (if (case pi_proto info of None \<Rightarrow> True | Some n \<Rightarrow> n < 1) \<and> to_noEcho opts
      then Inl (nats_error ''noEcho'' (code_string EC_ServerOptionNotAvailable) None)
      else let tls = (pi_tls_required info \<or> pi_tls_available info)
           in case to_tls opts of
                Tls_Opts t \<Rightarrow>
                  if \<not> tls then Inl (nats_error ''tls'' (code_string EC_ServerOptionNotAvailable) None) else Inr ()
              | _ \<Rightarrow> Inr ())"

definition checkUnsupportedOption :: "string \<Rightarrow> string option \<Rightarrow> js_error + unit" where
  "checkUnsupportedOption prop v =
     (case v of
        Some s \<Rightarrow> if s \<noteq> [] then Inl (nats_error prop (code_string EC_InvalidOption) None) else Inr ()
      | None \<Rightarrow> Inr ())"

section \<open>The socket\<close>

text \<open>The answers of the runtime.\<close>

datatype socket_read = R_Bytes bytes | R_Eof | R_Error js_error

record host =
  ho_hostname :: string
  ho_port :: nat
  ho_tlsName :: string

record runtime =
  rt_connect :: "host \<Rightarrow> js_error + unit"
  rt_connectTls :: "string \<Rightarrow> nat \<Rightarrow> string list option \<Rightarrow> js_error + unit"
  rt_startTls :: "string \<Rightarrow> string list option \<Rightarrow> js_error + unit"
  rt_writeEmpty :: "js_error + unit"
  rt_readTextFile :: "string \<Rightarrow> js_error + string"
  rt_parse :: "string \<Rightarrow> js_error + peer_info"
  rt_refused :: "js_error \<Rightarrow> bool"

text \<open>The class: the socket (not there, open or closed), the read buffer, the frames that wait, the
  frame that is being written, what has been written, and what the end of the connection leaves.
  \<open>tr_closing\<close> is the error of a close that waits for the write.\<close>

datatype socket = No_Socket | Open_Socket | Closed_Socket

record transport =
  tr_conn :: socket
  tr_encrypted :: bool
  tr_done :: bool
  tr_closeError :: "js_error option"
  tr_notified :: "js_error option option"
  tr_buf :: bytes
  tr_frames :: "bytes list"
  tr_pendingWrite :: "bytes option"
  tr_written :: "bytes list"
  tr_closing :: bool

definition ReadBufferSize :: nat where "ReadBufferSize = 1024 * 256"

definition new_transport :: transport where
  "new_transport =
     \<lparr>tr_conn = No_Socket, tr_encrypted = False, tr_done = False, tr_closeError = None, tr_notified = None,
      tr_buf = replicate ReadBufferSize 0, tr_frames = [], tr_pendingWrite = None, tr_written = [],
      tr_closing = False\<rparr>"

definition tr_isClosed :: "transport \<Rightarrow> bool" where
  "tr_isClosed t = tr_done t"

definition tr_isEncrypted :: "transport \<Rightarrow> bool" where
  "tr_isEncrypted t = tr_encrypted t"

subsection \<open>Writing\<close>

definition maybeWriteFrame :: "transport \<Rightarrow> transport" where
  "maybeWriteFrame t =
     (if tr_pendingWrite t \<noteq> None then t
      else case tr_frames t of
             [] \<Rightarrow> t
           | frame # fs \<Rightarrow> t\<lparr>tr_frames := fs, tr_pendingWrite := Some frame\<rparr>)"

definition tr_send :: "bytes \<Rightarrow> transport \<Rightarrow> transport" where
  "tr_send frame t = (if tr_done t then t else maybeWriteFrame (t\<lparr>tr_frames := tr_frames t @ [frame]\<rparr>))"

text \<open>The end of \<open>_closed\<close>: the socket is closed, and the reader's side is told.\<close>

definition close_socket :: "transport \<Rightarrow> transport" where
  "close_socket t = (if tr_conn t = Open_Socket then t\<lparr>tr_conn := Closed_Socket\<rparr> else t)"

definition notify_closed :: "js_error option \<Rightarrow> transport \<Rightarrow> transport" where
  "notify_closed err t = (if tr_notified t = None then t\<lparr>tr_notified := Some err\<rparr> else t)"

definition tr_closed :: "js_error option \<Rightarrow> bool \<Rightarrow> transport \<Rightarrow> transport" where
  "tr_closed err internal t =
     (if tr_done t then t
      else let t1 = t\<lparr>tr_done := True, tr_closeError := err\<rparr>
           in if err = None \<and> internal
              then let t2 = maybeWriteFrame (t1\<lparr>tr_frames := tr_frames t1 @ [[]]\<rparr>)
                   in if tr_pendingWrite t2 \<noteq> None then t2\<lparr>tr_closing := True\<rparr>
                      else notify_closed err (close_socket t2)
              else let t2 = close_socket t1 in if internal then notify_closed err t2 else t2)"

definition tr_close :: "js_error option \<Rightarrow> transport \<Rightarrow> transport" where
  "tr_close err t = tr_closed err False t"

definition tr_disconnect :: "transport \<Rightarrow> transport" where
  "tr_disconnect t = tr_closed None True t"

text \<open>The write has ended; then the waiting close goes on. A failed write leaves \<open>pendingWrite\<close> as it
  is: only the log of the debug option sees the error.\<close>

definition after_write :: "transport \<Rightarrow> transport" where
  "after_write t =
     (if tr_closing t then notify_closed None (close_socket (t\<lparr>tr_closing := False\<rparr>)) else t)"

definition write_done :: "transport \<Rightarrow> transport" where
  "write_done t =
     (case tr_pendingWrite t of
        None \<Rightarrow> t
      | Some frame \<Rightarrow>
          after_write (maybeWriteFrame (t\<lparr>tr_written := tr_written t @ [frame], tr_pendingWrite := None\<rparr>)))"

definition write_failed :: "transport \<Rightarrow> transport" where
  "write_failed t = (if tr_pendingWrite t = None then t else after_write t)"

subsection \<open>Reading\<close>

text \<open>One turn of the iterator after the first: the bytes it yields, and whether it has ended.\<close>

definition read_turn :: "socket_read \<Rightarrow> transport \<Rightarrow> transport \<times> bytes option \<times> bool" where
  "read_turn r t =
     (if tr_done t then (tr_closed None True t, None, True)
      else case r of
             R_Eof \<Rightarrow> (tr_closed None True t, None, True)
           | R_Error e \<Rightarrow> (tr_closed (Some e) True t, None, True)
           | R_Bytes b \<Rightarrow>
               let buf = replicate ReadBufferSize 0; buf' = b @ drop (length b) buf
               in (t\<lparr>tr_buf := buf'\<rparr>, if length b \<noteq> 0 then Some (subarray 0 (length b) buf') else None, False))"

text \<open>The whole iterator over a list of reads: what it yields, the buffer of the handshake first.\<close>

fun read_rest :: "socket_read list \<Rightarrow> transport \<Rightarrow> transport \<times> bytes list" where
  "read_rest [] t = (t, [])"
| "read_rest (r # rs) t =
     (case read_turn r t of
        (t', y, True) \<Rightarrow> (t', [])
      | (t', y, False) \<Rightarrow>
          (case read_rest rs t' of
             (t'', ys) \<Rightarrow> (t'', (case y of Some b \<Rightarrow> b # ys | None \<Rightarrow> ys))))"

definition iterate_reads :: "socket_read list \<Rightarrow> transport \<Rightarrow> transport \<times> bytes list" where
  "iterate_reads rs t = (case read_rest rs t of (t', ys) \<Rightarrow> (t', tr_buf t # ys))"

subsection \<open>The handshake\<close>

text \<open>The loop of \<open>peekInfo\<close>. Every read writes to the front of the same buffer, and the frame that is
  put into \<open>inbound\<close> is a view of it. The array of the first read stays a view until \<open>peek\<close> packs it with
  the next one into a copy, so the second read changes its bytes; \<open>view\<close> says whether there is such an
  array. The loop gives nothing while the reads given do not contain the message.\<close>

definition read_into :: "bytes \<Rightarrow> bytes \<Rightarrow> bool \<Rightarrow> data_buffer \<Rightarrow> bytes \<times> data_buffer" where
  "read_into b buf view inbound =
     (let buf' = b @ drop (length b) buf
      in (buf', if view
                then inbound\<lparr>dq_buffers := map (\<lambda>v. subarray 0 (length v) buf') (dq_buffers inbound)\<rparr>
                else inbound))"

fun peek_loop ::
  "socket_read list \<Rightarrow> bytes \<Rightarrow> bool \<Rightarrow> data_buffer
    \<Rightarrow> (js_error + string \<times> data_buffer) option \<times> socket_read list" where
  "peek_loop [] buf view inbound = (None, [])"
| "peek_loop (R_Eof # rs) buf view inbound =
     (Some (Inl (Plain_Error ''socket closed while expecting INFO'')), rs)"
| "peek_loop (R_Error e # rs) buf view inbound = (Some (Inl e), rs)"
| "peek_loop (R_Bytes b # rs) buf view inbound =
     (let (buf', in1) = read_into b buf view inbound
      in if length b \<noteq> 0
         then let in2 = dq_fill (subarray 0 (length b) buf') [] in1;
                  (in3, raw) = dq_peek in2;
                  pm = extractProtocolMessage raw
              in if pm \<noteq> [] then (Some (Inr (pm, in3)), rs)
                 else peek_loop rs buf' (length (dq_buffers in2) = 1) in3
         else peek_loop rs buf' view in1)"

text \<open>\<open>peekInfo\<close>: the reads that are left, the transport with what was read as its buffer, and the
  server information.\<close>

definition peekInfo ::
  "(string \<Rightarrow> js_error + peer_info) \<Rightarrow> socket_read list \<Rightarrow> transport
    \<Rightarrow> (transport \<times> (js_error + peer_info)) option \<times> socket_read list" where
  "peekInfo parse rs t =
     (case peek_loop rs (tr_buf t) False new_data_buffer of
        (None, rs') \<Rightarrow> (None, rs')
      | (Some (Inl e), rs') \<Rightarrow> (Some (t, Inl e), rs')
      | (Some (Inr (pm, inbound)), rs') \<Rightarrow>
          (let t' = t\<lparr>tr_buf := snd (dq_drain None inbound)\<rparr>
           in (Some (t', case match_info pm of
                 None \<Rightarrow> Inl (Plain_Error ''unexpected response from server'')
               | Some m \<Rightarrow> parse m), rs')))"

definition loadTlsOptions ::
  "(string \<Rightarrow> js_error + string) \<Rightarrow> tls_choice \<Rightarrow> string \<Rightarrow> js_error + string \<times> string list option" where
  "loadTlsOptions readFile choice hostname =
     (let tls = (case choice of
            Tls_Opts t \<Rightarrow> t
          | _ \<Rightarrow> \<lparr>tls_handshakeFirst = False, tls_certFile = None, tls_cert = None, tls_caFile = None,
                   tls_ca = None, tls_keyFile = None, tls_key = None\<rparr>)
      in rbind (checkUnsupportedOption ''tls.ca'' (tls_ca tls)) (\<lambda>_.
         rbind (checkUnsupportedOption ''tls.cert'' (tls_cert tls)) (\<lambda>_.
         rbind (checkUnsupportedOption ''tls.certFile'' (tls_certFile tls)) (\<lambda>_.
         rbind (checkUnsupportedOption ''tls.key'' (tls_key tls)) (\<lambda>_.
         rbind (checkUnsupportedOption ''tls.keyFile'' (tls_keyFile tls)) (\<lambda>_.
           case tls_caFile tls of
             Some f \<Rightarrow> if f \<noteq> [] then rbind (readFile f) (\<lambda>ca. Inr (hostname, Some [ca])) else Inr (hostname, None)
           | None \<Rightarrow> Inr (hostname, None)))))))"

text \<open>\<open>startTLS\<close>: the old socket is replaced when the runtime gives the new one.\<close>

definition startTLS :: "runtime \<Rightarrow> tls_choice \<Rightarrow> string \<Rightarrow> transport \<Rightarrow> transport \<times> (js_error + unit)" where
  "startTLS rt choice hostname t =
     (case loadTlsOptions (rt_readTextFile rt) choice hostname of
        Inl e \<Rightarrow> (t, Inl e)
      | Inr (h, ca) \<Rightarrow>
          (case rt_startTls rt h ca of
             Inl e \<Rightarrow> (t, Inl e)
           | Inr u \<Rightarrow>
               (case rt_writeEmpty rt of
                  Inl e \<Rightarrow> (t, Inl e)
                | Inr v \<Rightarrow> (t\<lparr>tr_encrypted := True\<rparr>, Inr ()))))"

definition handshake_first :: "tls_choice \<Rightarrow> bool" where
  "handshake_first choice = (case choice of Tls_Opts t \<Rightarrow> tls_handshakeFirst t | _ \<Rightarrow> False)"

definition open_conn :: "runtime \<Rightarrow> host \<Rightarrow> tls_choice \<Rightarrow> transport \<Rightarrow> transport \<times> (js_error + unit)" where
  "open_conn rt hp choice t =
     (if handshake_first choice
      then (case loadTlsOptions (rt_readTextFile rt) choice (ho_hostname hp) of
              Inl e \<Rightarrow> (t, Inl e)
            | Inr (h, ca) \<Rightarrow>
                (case rt_connectTls rt (ho_hostname hp) (ho_port hp) ca of
                   Inl e \<Rightarrow> (t, Inl e)
                 | Inr u \<Rightarrow> (t\<lparr>tr_conn := Open_Socket, tr_encrypted := True\<rparr>, Inr ())))
      else (case rt_connect rt hp of
              Inl e \<Rightarrow> (t, Inl e)
            | Inr u \<Rightarrow> (t\<lparr>tr_conn := Open_Socket\<rparr>, Inr ())))"

text \<open>After the information: the check of the options and, where the server wants or has TLS, the
  change to it.\<close>

definition secure_conn ::
  "runtime \<Rightarrow> host \<Rightarrow> transport_options \<Rightarrow> peer_info \<Rightarrow> transport \<Rightarrow> transport \<times> (js_error + unit)" where
  "secure_conn rt hp opts info t =
     (case checkOptions info opts of
        Inl e \<Rightarrow> (t, Inl e)
      | Inr u \<Rightarrow>
          (let desired = (pi_tls_available info \<and> to_tls opts \<noteq> Tls_Null)
           in if \<not> handshake_first (to_tls opts) \<and> (pi_tls_required info \<or> desired)
              then startTLS rt (to_tls opts) (if ho_tlsName hp \<noteq> [] then ho_tlsName hp else ho_hostname hp) t
              else (t, Inr ())))"

definition connect_failed :: "runtime \<Rightarrow> js_error \<Rightarrow> transport \<Rightarrow> transport \<times> (js_error + unit)" where
  "connect_failed rt e t =
     (close_socket t, Inl (if rt_refused rt e then error_for_code EC_ConnectionRefused None else e))"

definition tr_connect ::
  "runtime \<Rightarrow> host \<Rightarrow> transport_options \<Rightarrow> socket_read list \<Rightarrow> transport
    \<Rightarrow> (transport \<times> (js_error + unit)) option \<times> socket_read list" where
  "tr_connect rt hp opts rs t =
     (case open_conn rt hp (to_tls opts) t of
        (t1, Inl e) \<Rightarrow> (Some (connect_failed rt e t1), rs)
      | (t1, Inr u) \<Rightarrow>
          (case peekInfo (rt_parse rt) rs t1 of
             (None, rs') \<Rightarrow> (None, rs')
           | (Some (t2, Inl e), rs') \<Rightarrow> (Some (connect_failed rt e t2), rs')
           | (Some (t2, Inr info), rs') \<Rightarrow>
               (case secure_conn rt hp opts info t2 of
                  (t3, Inl e) \<Rightarrow> (Some (connect_failed rt e t3), rs')
                | (t3, Inr v) \<Rightarrow> (Some (t3, Inr ()), rs'))))"

section \<open>Resolving a host\<close>

text \<open>\<open>denoResolveHost\<close>: the answers to the two queries, if they are fulfilled.\<close>

definition denoResolveHost :: "string \<Rightarrow> string list option \<Rightarrow> string list option \<Rightarrow> string list" where
  "denoResolveHost s a aaaa =
     (let ips = (case a of Some xs \<Rightarrow> xs | None \<Rightarrow> []) @ (case aaaa of Some xs \<Rightarrow> xs | None \<Rightarrow> [])
      in if ips = [] then [s] else ips)"

section \<open>What is read\<close>

definition read_bytes :: "socket_read list \<Rightarrow> bytes" where
  "read_bytes rs = concat (map (\<lambda>r. case r of R_Bytes b \<Rightarrow> b | _ \<Rightarrow> []) rs)"

definition all_bytes :: "socket_read list \<Rightarrow> bool" where
  "all_bytes rs \<longleftrightarrow> (\<forall>r \<in> set rs. case r of R_Bytes b \<Rightarrow> True | _ \<Rightarrow> False)"

lemma line_end_append: "line_end i a \<noteq> 0 \<Longrightarrow> line_end i (a @ b) = line_end i a"
  by (induction i a rule: line_end.induct) auto

lemma read_rest_bytes:
  "\<not> tr_done t \<Longrightarrow> all_bytes rs \<Longrightarrow> concat (snd (read_rest rs t)) = read_bytes rs \<and> \<not> tr_done (fst (read_rest rs t))"
proof (induction rs arbitrary: t)
  case (Cons r rs)
  obtain b where b: "r = R_Bytes b" using Cons.prems(2) by (cases r) (auto simp: all_bytes_def)
  define t' where "t' = t\<lparr>tr_buf := b @ drop (length b) (replicate ReadBufferSize 0)\<rparr>"
  have "\<not> tr_done t'" "all_bytes rs" using Cons.prems by (simp_all add: t'_def all_bytes_def)
  note ih = Cons.IH [OF this]
  have "read_turn r t = (t', if length b \<noteq> 0 then Some b else None, False)"
    using Cons.prems(1) by (simp add: read_turn_def b t'_def subarray_def Let_def)
  then show ?case using ih by (simp add: b read_bytes_def case_prod_beta)
qed (simp add: read_bytes_def)

lemma new_data_buffer_simps [simp]: "dq_ok new_data_buffer" "dq_bytes new_data_buffer = []" "dq_buffers new_data_buffer = []"
  by (simp_all add: new_data_buffer_def dq_ok_def dq_bytes_def)

lemma extract_nonempty: "extractProtocolMessage a \<noteq> [] \<longleftrightarrow> protoLen a > 0 \<and> a \<noteq> []"
  by (auto simp: extractProtocolMessage_def td_decode_def Let_def)

lemma peek_loop_found:
  assumes "read_into b buf view inbound = (buf', in1)" "b \<noteq> []" "dq_peek (dq_fill b [] in1) = (in3, raw)"
    "extractProtocolMessage raw \<noteq> []"
  shows "peek_loop (R_Bytes b # rs) buf view inbound = (Some (Inr (extractProtocolMessage raw, in3)), rs)"
proof -
  have "subarray 0 (length b) buf' = b" using assms(1) by (auto simp: read_into_def subarray_def Let_def)
  then show ?thesis using assms by (simp add: Let_def)
qed

lemma peek_loop_more:
  assumes "read_into b buf view inbound = (buf', in1)" "b \<noteq> []" "dq_peek (dq_fill b [] in1) = (in3, raw)"
    "extractProtocolMessage raw = []"
  shows "peek_loop (R_Bytes b # rs) buf view inbound = peek_loop rs buf' (length (dq_buffers (dq_fill b [] in1)) = 1) in3"
proof -
  have "subarray 0 (length b) buf' = b" using assms(1) by (auto simp: read_into_def subarray_def Let_def)
  then show ?thesis using assms by (simp add: Let_def)
qed

declare peek_loop.simps [simp del]

lemma peek_first:
  assumes "protoLen b > 0" "b \<noteq> []"
  shows "\<exists>d. peek_loop (R_Bytes b # rs) buf False new_data_buffer = (Some (Inr (extractProtocolMessage b, d)), rs)
    \<and> dq_ok d \<and> dq_bytes d = b"
proof -
  let ?d = "dq_fill b [] new_data_buffer"
  have ok: "dq_ok ?d" "dq_bytes ?d = b" by simp_all
  have raw: "dq_peek ?d = (fst (dq_peek ?d), b)" using dq_peek_simps(1) [OF ok(1)] ok(2) by (metis prod.collapse)
  have "extractProtocolMessage b \<noteq> []" using assms by (simp add: extract_nonempty)
  from peek_loop_found [OF _ assms(2) raw this, of buf False new_data_buffer "b @ drop (length b) buf" rs]
  have "peek_loop (R_Bytes b # rs) buf False new_data_buffer
      = (Some (Inr (extractProtocolMessage b, fst (dq_peek ?d))), rs)"
    by (simp add: read_into_def)
  then show ?thesis using dq_peek_simps(2,3) [OF ok(1)] ok(2) by auto
qed

lemma tr_connect_keeps_reads:
  assumes "tr_connect rt hp opts (R_Bytes b # rs) t = (Some (t', Inr ()), rs')" "protoLen b > 0" "b \<noteq> []"
  shows "rs' = rs \<and> tr_buf t' = b \<and> tr_done t' = tr_done t \<and> tr_conn t' = Open_Socket"
proof -
  obtain t1 where t1: "open_conn rt hp (to_tls opts) t = (t1, Inr ())"
    using assms(1) by (auto simp: tr_connect_def connect_failed_def split: prod.splits sum.splits)
  then have o: "tr_done t1 = tr_done t" "tr_conn t1 = Open_Socket"
    by (auto simp: open_conn_def split: if_splits sum.splits)
  obtain d where d: "peek_loop (R_Bytes b # rs) (tr_buf t1) False new_data_buffer = (Some (Inr (extractProtocolMessage b, d)), rs)"
    "dq_ok d" "dq_bytes d = b"
    using peek_first [OF assms(2,3)] by blast
  let ?t2 = "t1\<lparr>tr_buf := b\<rparr>"
  have "snd (dq_drain None d) = b" using d(2,3) dq.drain_content by simp
  then obtain x where p: "peekInfo (rt_parse rt) (R_Bytes b # rs) t1 = (Some (?t2, x), rs)"
    by (simp add: peekInfo_def d(1) Let_def)
  then obtain info where x: "x = Inr info" "secure_conn rt hp opts info ?t2 = (t', Inr ())" "rs' = rs"
    using assms(1) t1 by (auto simp: tr_connect_def connect_failed_def split: prod.splits sum.splits)
  then have "tr_buf t' = b \<and> tr_done t' = tr_done t1 \<and> tr_conn t' = tr_conn t1"
    by (auto simp: secure_conn_def startTLS_def Let_def split: prod.splits sum.splits if_splits)
  then show ?thesis using o x by simp
qed

text \<open>
  C10: The reader of the transport gives exactly the bytes that came: after a handshake whose first
  read held the whole first message, the chunks that the iterator yields, for any further reads, are
  together the bytes of the first read and of all reads after it, in order.
\<close>
theorem reader_gives_what_was_read:
  assumes "tr_connect rt hp opts (R_Bytes b # rs) t = (Some (t', Inr ()), rs')" "protoLen b > 0" "b \<noteq> []"
    "\<not> tr_done t" "all_bytes rs'"
  shows "concat (snd (iterate_reads rs' t')) = b @ read_bytes rs \<and> \<not> tr_done (fst (iterate_reads rs' t'))"
proof -
  note k = tr_connect_keeps_reads [OF assms(1-3)]
  then have "\<not> tr_done t'" using assms(4) by simp
  from read_rest_bytes [OF this assms(5)] k show ?thesis by (simp add: iterate_reads_def case_prod_beta)
qed

definition sample_runtime :: runtime where
  "sample_runtime = \<lparr>rt_connect = (\<lambda>h. Inr ()), rt_connectTls = (\<lambda>h p ca. Inr ()), rt_startTls = (\<lambda>h ca. Inr ()),
     rt_writeEmpty = Inr (), rt_readTextFile = (\<lambda>f. Inr ''ca''),
     rt_parse = (\<lambda>s. Inr \<lparr>pi_proto = Some 1, pi_tls_required = False, pi_tls_available = True\<rparr>),
     rt_refused = (\<lambda>e. False)\<rparr>"

definition sample_host :: host where
  "sample_host = \<lparr>ho_hostname = ''a'', ho_port = 4222, ho_tlsName = []\<rparr>"

definition sample_first :: bytes where
  "sample_first = te_encode (''INFO {}'' @ [CR, LF] @ ''PING'' @ [CR, LF])"

lemma sample_first_info:
  "protoLen sample_first > 0" "sample_first \<noteq> []" "match_info (extractProtocolMessage sample_first) = Some ''{}''"
  by code_simp+

definition plain_tls :: transport_options where
  "plain_tls = \<lparr>to_noEcho = False, to_tls = Tls_Undefined\<rparr>"

lemma sample_connects:
  "\<exists>t'. tr_connect sample_runtime sample_host plain_tls [R_Bytes sample_first, R_Bytes [80]] new_transport
    = (Some (t', Inr ()), [R_Bytes [80]]) \<and> tr_encrypted t'"
proof -
  define t1 where "t1 = new_transport\<lparr>tr_conn := Open_Socket\<rparr>"
  obtain d where d: "peek_loop (R_Bytes sample_first # [R_Bytes [80]]) (tr_buf t1) False new_data_buffer
      = (Some (Inr (extractProtocolMessage sample_first, d)), [R_Bytes [80]])"
    using peek_first [OF sample_first_info(1,2)] by blast
  have "open_conn sample_runtime sample_host (to_tls plain_tls) new_transport = (t1, Inr ())"
    by (simp add: open_conn_def handshake_first_def plain_tls_def sample_runtime_def t1_def)
  then show ?thesis
    by (simp add: tr_connect_def peekInfo_def d sample_first_info Let_def secure_conn_def checkOptions_def
        plain_tls_def sample_runtime_def handshake_first_def startTLS_def loadTlsOptions_def checkUnsupportedOption_def)
qed

theorem reader_gives_what_was_read_witness:
  "\<exists>t'. tr_connect sample_runtime sample_host plain_tls [R_Bytes sample_first, R_Bytes [80]] new_transport
      = (Some (t', Inr ()), [R_Bytes [80]])
    \<and> concat (snd (iterate_reads [R_Bytes [80]] t')) = sample_first @ [80]"
proof -
  obtain t' where t: "tr_connect sample_runtime sample_host plain_tls [R_Bytes sample_first, R_Bytes [80]] new_transport
      = (Some (t', Inr ()), [R_Bytes [80]])"
    using sample_connects by blast
  have "\<not> tr_done new_transport" by (simp add: new_transport_def)
  then show ?thesis
    using reader_gives_what_was_read [OF t sample_first_info(1,2)] t by (simp add: all_bytes_def read_bytes_def)
qed

section \<open>A first message in two reads\<close>

lemma raw_is_sent_iff:
  "take (length b1) (b2 @ drop (length b2) b1) @ b2 = b1 @ b2 \<longleftrightarrow> take (length b1) b2 = take (length b2) b1"
proof (cases "length b2 \<le> length b1")
  case True
  have "b2 @ drop (length b2) b1 = b1 \<longleftrightarrow> b2 = take (length b2) b1"
    using append_take_drop_id [of "length b2" b1] by (metis append_same_eq)
  then show ?thesis using True by simp
next
  case False
  then show ?thesis by simp
qed

text \<open>
  C38: A first message that comes in two reads, the first of them without a complete line, is corrupted:
  the first read is a view of the read buffer and the second read writes over the front of that buffer.
  The bytes the client looks at are the second read, then what is left of the first read behind it
  (cut to the length of the first read), then the second read again. When these bytes hold a complete
  line, that line is taken for the message. The bytes are those the server sent only in the case that
  one of the two reads begins with the other, up to the shorter length.
\<close>
theorem split_info_is_corrupted:
  fixes b1 b2 :: bytes
  defines "raw \<equiv> take (length b1) (b2 @ drop (length b2) b1) @ b2"
  assumes "b1 \<noteq> []" "b2 \<noteq> []" "protoLen b1 = 0" "protoLen raw > 0"
  shows "(\<exists>d. peek_loop (R_Bytes b1 # R_Bytes b2 # rs) buf False new_data_buffer
        = (Some (Inr (extractProtocolMessage raw, d)), rs) \<and> dq_bytes d = raw)
    \<and> (raw = b1 @ b2 \<longleftrightarrow> take (length b1) b2 = take (length b2) b1)"
proof -
  let ?d1 = "dq_fill b1 [] new_data_buffer"
  have f: "?d1 = \<lparr>dq_buffers = [b1], dq_byteLength = length b1\<rparr>" by (simp add: dq_fill_def new_data_buffer_def)
  then have p1: "dq_peek ?d1 = (?d1, b1)" by (simp add: dq_peek_def dq_pack_def)
  have e1: "extractProtocolMessage b1 = []" using extract_nonempty [of b1] assms(4) by auto
  define buf1 where "buf1 = b1 @ drop (length b1) buf"
  have one: "peek_loop (R_Bytes b1 # R_Bytes b2 # rs) buf False new_data_buffer
      = peek_loop (R_Bytes b2 # rs) buf1 True ?d1"
    using peek_loop_more [OF _ assms(2) p1 e1, of buf False new_data_buffer buf1 "R_Bytes b2 # rs"] f
    by (simp add: read_into_def buf1_def)
  define buf2 where "buf2 = b2 @ drop (length b2) buf1"
  define w where "w = take (length b1) buf2"
  have w: "w = take (length b1) (b2 @ drop (length b2) b1)" "length w = length b1"
    by (simp_all add: w_def buf2_def buf1_def min_def)
  let ?d2 = "\<lparr>dq_buffers = [w], dq_byteLength = length b1\<rparr>"
  let ?d3 = "dq_fill b2 [] ?d2"
  have two: "read_into b2 buf1 True ?d1 = (buf2, ?d2)"
    by (simp add: read_into_def f buf2_def w_def subarray_def Let_def)
  have ok: "dq_ok ?d3" "dq_bytes ?d3 = raw"
    using w by (simp_all add: dq_ok_def dq_bytes_def dq_fill_def raw_def)
  have p3: "dq_peek ?d3 = (fst (dq_peek ?d3), raw)" using dq_peek_simps(1) [OF ok(1)] ok(2) by (metis prod.collapse)
  have "extractProtocolMessage raw \<noteq> []" using assms(2,5) by (auto simp: extract_nonempty raw_def)
  from peek_loop_found [OF two assms(3) p3 this] one have "peek_loop (R_Bytes b1 # R_Bytes b2 # rs) buf False new_data_buffer
      = (Some (Inr (extractProtocolMessage raw, fst (dq_peek ?d3))), rs)" by metis
  then show ?thesis using dq_peek_simps(2) [OF ok(1)] ok(2) raw_is_sent_iff [of b1 b2] by (auto simp: raw_def)
qed

definition info_head :: bytes where "info_head = te_encode ''INFO {a'' "
definition info_tail :: bytes where "info_tail = te_encode (''b}'' @ [CR, LF])"

theorem split_info_is_corrupted_witness:
  "(\<exists>d. peek_loop [R_Bytes info_head, R_Bytes info_tail] [] False new_data_buffer
      = (Some (Inr (''b}'' @ [CR, LF], d)), []) \<and> dq_bytes d \<noteq> info_head @ info_tail) \<and> match_info (''b}'' @ [CR, LF]) = None
    \<and> match_info (extractProtocolMessage (info_head @ info_tail)) = Some ''{ab}''"
proof -
  let ?raw = "take (length info_head) (info_tail @ drop (length info_tail) info_head) @ info_tail"
  have h: "info_head \<noteq> []" "info_tail \<noteq> []" "protoLen info_head = 0" "protoLen ?raw > 0"
    by code_simp+
  moreover have "extractProtocolMessage ?raw = ''b}'' @ [CR, LF]" "match_info (''b}'' @ [CR, LF]) = None"
    "match_info (extractProtocolMessage (info_head @ info_tail)) = Some ''{ab}''"
    by code_simp+
  moreover have "take (length info_head) info_tail \<noteq> take (length info_tail) info_head" by code_simp
  ultimately show ?thesis using split_info_is_corrupted [OF h, of "[]" "[]"] by auto
qed

section \<open>The frames\<close>

datatype transport_event =
    Ev_Send bytes | Ev_Written | Ev_Failed | Ev_Close "js_error option" | Ev_Stop | Ev_Read socket_read

fun tr_step :: "transport_event \<Rightarrow> transport \<Rightarrow> transport" where
  "tr_step (Ev_Send f) t = tr_send f t"
| "tr_step Ev_Written t = write_done t"
| "tr_step Ev_Failed t = write_failed t"
| "tr_step (Ev_Close e) t = tr_close e t"
| "tr_step Ev_Stop t = tr_disconnect t"
| "tr_step (Ev_Read r) t = fst (read_turn r t)"

text \<open>The frames that \<open>send\<close> takes, in order.\<close>

fun taken :: "transport_event list \<Rightarrow> transport \<Rightarrow> bytes list" where
  "taken [] t = []"
| "taken (ev # evs) t = (case ev of Ev_Send f \<Rightarrow> if tr_done t then [] else [f] | _ \<Rightarrow> []) @ taken evs (tr_step ev t)"

definition tr_line :: "transport \<Rightarrow> bytes list" where
  "tr_line t = tr_written t @ (case tr_pendingWrite t of Some f \<Rightarrow> [f] | None \<Rightarrow> []) @ tr_frames t"

definition writing_ok :: "transport \<Rightarrow> bool" where
  "writing_ok t \<longleftrightarrow> (tr_pendingWrite t = None \<longrightarrow> tr_frames t = [])"

lemma maybeWriteFrame_line [simp]: "tr_line (maybeWriteFrame t) = tr_line t" "writing_ok (maybeWriteFrame t)"
  "tr_done (maybeWriteFrame t) = tr_done t"
  by (auto simp: maybeWriteFrame_def tr_line_def writing_ok_def split: option.splits list.splits)

lemma close_socket_line [simp]: "tr_line (close_socket t) = tr_line t" "writing_ok (close_socket t) = writing_ok t"
  "tr_done (close_socket t) = tr_done t"
  by (auto simp: close_socket_def tr_line_def writing_ok_def)

lemma notify_closed_line [simp]: "tr_line (notify_closed e t) = tr_line t" "writing_ok (notify_closed e t) = writing_ok t"
  "tr_done (notify_closed e t) = tr_done t"
  by (auto simp: notify_closed_def tr_line_def writing_ok_def)

lemma after_write_line [simp]: "tr_line (after_write t) = tr_line t" "writing_ok (after_write t) = writing_ok t"
  "tr_done (after_write t) = tr_done t"
  by (simp_all add: after_write_def) (simp_all add: tr_line_def writing_ok_def)

lemma line_fields:
  "tr_line (t\<lparr>tr_done := d, tr_closeError := e\<rparr>) = tr_line t" "tr_line (t\<lparr>tr_closing := c\<rparr>) = tr_line t"
  "tr_line (t\<lparr>tr_frames := tr_frames t @ [f]\<rparr>) = tr_line t @ [f]" "tr_line (t\<lparr>tr_buf := b\<rparr>) = tr_line t"
  "writing_ok (t\<lparr>tr_closing := c\<rparr>) = writing_ok t" "writing_ok (t\<lparr>tr_buf := b\<rparr>) = writing_ok t"
  "writing_ok (t\<lparr>tr_done := d, tr_closeError := e\<rparr>) = writing_ok t"
  by (simp_all add: tr_line_def writing_ok_def)

lemma tr_closed_line:
  "tr_line (tr_closed e inner t) = tr_line t @ (if \<not> tr_done t \<and> e = None \<and> inner then [[]] else [])"
  "writing_ok t \<Longrightarrow> writing_ok (tr_closed e inner t)" "tr_done (tr_closed e inner t)"
proof -
  define t1 where "t1 = t\<lparr>tr_done := True, tr_closeError := e\<rparr>"
  have t1: "tr_line t1 = tr_line t" "writing_ok t1 = writing_ok t" "tr_done t1"
    unfolding t1_def by (simp_all only: line_fields) simp
  show "tr_line (tr_closed e inner t) = tr_line t @ (if \<not> tr_done t \<and> e = None \<and> inner then [[]] else [])"
    "writing_ok t \<Longrightarrow> writing_ok (tr_closed e inner t)" "tr_done (tr_closed e inner t)"
    unfolding tr_closed_def Let_def t1_def [symmetric] using t1 by (auto simp: line_fields)
qed

lemma tr_step_line:
  "writing_ok t \<Longrightarrow> writing_ok (tr_step ev t)"
  "\<exists>x. tr_line (tr_step ev t) = tr_line t @ taken [ev] t @ x \<and> (x = [] \<or> x = [[]] \<and> \<not> tr_done t \<and> tr_done (tr_step ev t))"
  "tr_done t \<Longrightarrow> tr_done (tr_step ev t)"
proof -
  have w: "tr_line (write_done t) = tr_line t" "writing_ok t \<Longrightarrow> writing_ok (write_done t)" "tr_done (write_done t) = tr_done t"
    by (auto simp: write_done_def split: option.split) (simp add: tr_line_def)
  have f: "tr_line (write_failed t) = tr_line t" "writing_ok t \<Longrightarrow> writing_ok (write_failed t)" "tr_done (write_failed t) = tr_done t"
    by (auto simp: write_failed_def)
  have r: "writing_ok t \<Longrightarrow> writing_ok (fst (read_turn r t))" "tr_done t \<Longrightarrow> tr_done (fst (read_turn r t))"
    "tr_line (fst (read_turn r t)) = tr_line t \<or> tr_line (fst (read_turn r t)) = tr_line t @ [[]] \<and> \<not> tr_done t \<and> tr_done (fst (read_turn r t))" for r
    by (auto simp: read_turn_def tr_closed_line line_fields Let_def split: socket_read.split)
  show "writing_ok t \<Longrightarrow> writing_ok (tr_step ev t)"
    by (cases ev) (auto simp: tr_send_def w f r tr_close_def tr_disconnect_def tr_closed_line)
  show "tr_done t \<Longrightarrow> tr_done (tr_step ev t)"
    by (cases ev) (auto simp: tr_send_def w f r tr_close_def tr_disconnect_def tr_closed_line)
  show "\<exists>x. tr_line (tr_step ev t) = tr_line t @ taken [ev] t @ x \<and> (x = [] \<or> x = [[]] \<and> \<not> tr_done t \<and> tr_done (tr_step ev t))"
  proof (cases ev)
    case (Ev_Read y)
    then show ?thesis using r(3) [of y] by auto
  qed (auto simp: tr_send_def w f tr_close_def tr_disconnect_def tr_closed_line line_fields)
qed

text \<open>
  C11: The transport writes the frames it took, whole, one at a time and in the order of \<open>send\<close>: over
  any sequence of sends, ends of writes, reads and closes, the frames written, the one being written
  and the ones that wait are the frames taken, followed by at most the empty frame of the end; and
  when no write is under way nothing waits.
\<close>
theorem frames_are_written_in_order:
  fixes evs :: "transport_event list"
  assumes "writing_ok t" "tr_line t = []"
  defines "t' \<equiv> fold tr_step evs t"
  shows "(\<exists>x \<in> {[], [[]]}. tr_line t' = taken evs t @ x) \<and> (tr_pendingWrite t' = None \<longrightarrow> tr_frames t' = [])"
proof -
  have "writing_ok t \<Longrightarrow> (\<exists>x \<in> {[], [[]]}. tr_line (fold tr_step evs t) = tr_line t @ taken evs t @ x
      \<and> (tr_done t \<longrightarrow> x = [] \<and> taken evs t = [])) \<and> writing_ok (fold tr_step evs t)" for t
  proof (induction evs arbitrary: t)
    case (Cons ev evs)
    obtain x where x: "tr_line (tr_step ev t) = tr_line t @ taken [ev] t @ x"
      "x = [] \<or> x = [[]] \<and> \<not> tr_done t \<and> tr_done (tr_step ev t)"
      using tr_step_line(2) by blast
    obtain y where y: "y \<in> {[], [[]]}" "tr_line (fold tr_step evs (tr_step ev t)) = tr_line (tr_step ev t) @ taken evs (tr_step ev t) @ y"
      "tr_done (tr_step ev t) \<longrightarrow> y = [] \<and> taken evs (tr_step ev t) = []" "writing_ok (fold tr_step evs (tr_step ev t))"
      using Cons.IH [OF tr_step_line(1) [OF Cons.prems]] by blast
    have d: "tr_done t \<Longrightarrow> taken [ev] t = []" by (cases ev) auto
    show ?case using x y d tr_step_line(3) [of t ev] by (cases "x = []") (auto split: transport_event.splits)
  qed simp
  from this [OF assms(1)] show ?thesis using assms(2) by (auto simp: t'_def writing_ok_def)
qed

theorem frames_are_written_in_order_witness:
  "tr_written (fold tr_step [Ev_Send [1], Ev_Send [2], Ev_Written, Ev_Written] new_transport) = [[1], [2]]
    \<and> (\<exists>x \<in> {[], [[]]}. tr_line (fold tr_step [Ev_Send [1], Ev_Send [2], Ev_Written, Ev_Written] new_transport) = [[1], [2]] @ x)"
proof -
  have n: "writing_ok new_transport" "tr_line new_transport = []"
    by (simp_all add: writing_ok_def tr_line_def new_transport_def)
  have "tr_written (fold tr_step [Ev_Send [1], Ev_Send [2], Ev_Written, Ev_Written] new_transport) = [[1], [2]]"
    by (simp add: tr_send_def maybeWriteFrame_def write_done_def after_write_def new_transport_def)
  moreover have "taken [Ev_Send [1], Ev_Send [2], Ev_Written, Ev_Written] new_transport = [[1], [2]]"
    by (simp add: tr_send_def maybeWriteFrame_def new_transport_def)
  ultimately show ?thesis
    using frames_are_written_in_order [OF n, of "[Ev_Send [1], Ev_Send [2], Ev_Written, Ev_Written]"] by simp
qed

text \<open>
  A disconnect does not send what waits. It waits for the frame that is being written and then
  closes the socket: when two or more frames were waiting behind it, the first of them has only been
  started and the others are still in the queue, and a \<open>send\<close> after it does nothing.
\<close>
theorem disconnect_loses_waiting_frames:
  assumes "\<not> tr_done t" "tr_pendingWrite t = Some f0" "tr_frames t = f1 # f2 # fs" "tr_conn t = Open_Socket" "tr_notified t = None"
  defines "t' \<equiv> write_done (tr_disconnect t)"
  shows "tr_conn t' = Closed_Socket \<and> tr_notified t' = Some None \<and> tr_written t' = tr_written t @ [f0]
    \<and> tr_frames t' = f2 # fs @ [[]] \<and> tr_send f t' = t'"
  using assms
  by (simp add: tr_disconnect_def tr_closed_def maybeWriteFrame_def write_done_def after_write_def close_socket_def
      notify_closed_def tr_send_def Let_def)

theorem disconnect_loses_waiting_frames_witness:
  "tr_frames (write_done (tr_disconnect (fold tr_send [[1], [2], [3]] (new_transport\<lparr>tr_conn := Open_Socket\<rparr>)))) = [[3], []]"
proof -
  let ?t = "fold tr_send [[1], [2], [3]] (new_transport\<lparr>tr_conn := Open_Socket\<rparr>)"
  have "\<not> tr_done ?t" "tr_pendingWrite ?t = Some [1]" "tr_frames ?t = [2] # [3] # []" "tr_conn ?t = Open_Socket" "tr_notified ?t = None"
    by (simp_all add: tr_send_def maybeWriteFrame_def new_transport_def)
  from disconnect_loses_waiting_frames [OF this] show ?thesis by simp
qed

text \<open>After a failed write nothing more is written: no frame is started any more, however many are sent.\<close>

lemma failed_write_blocks:
  "tr_pendingWrite t = Some f \<Longrightarrow> tr_pendingWrite (fold tr_send gs (write_failed t)) = Some f
    \<and> tr_written (fold tr_send gs (write_failed t)) = tr_written t"
proof (induction gs rule: rev_induct)
  case Nil
  then show ?case by (simp add: write_failed_def after_write_def notify_closed_def close_socket_def)
qed (auto simp: tr_send_def maybeWriteFrame_def)

end
