(* ===== verification/Authenticators.thy ===== *)
theory Authenticators
  imports Nats_Core Util
begin

text \<open>
  The authenticators of \<open>nats-base-client/authenticator.ts\<close>: functions from the nonce of the server to
  the fields that are put into the \<open>CONNECT\<close> message. The nkeys package is not part of the repository:
  what the client uses of it is the record \<open>nkeys\<close>. A value given as a function is the outcome of its
  call. The expression for the sections of a credentials file is written out.
\<close>

section \<open>Values and fields\<close>

text \<open>An object of credentials: its properties in order, \<open>None\<close> for one that is \<open>undefined\<close>.\<close>

type_synonym auth = "(string \<times> string option) list"

type_synonym authenticator = "string option \<Rightarrow> js_error + auth option"

datatype 'a given = Constant 'a | Function "js_error + 'a"

fun given_value :: "'a given \<Rightarrow> js_error + 'a" where
  "given_value (Constant x) = Inr x"
| "given_value (Function r) = r"

record 'k nkeys =
  nk_fromSeed :: "bytes \<Rightarrow> js_error + 'k"
  nk_getPublicKey :: "'k \<Rightarrow> js_error + string"
  nk_sign :: "'k \<Rightarrow> bytes \<Rightarrow> js_error + bytes"
  nk_encode :: "bytes \<Rightarrow> string"

section \<open>Simple authenticators\<close>

fun assign_all :: "authenticator list \<Rightarrow> string option \<Rightarrow> auth \<Rightarrow> js_error + auth" where
  "assign_all [] nonce acc = Inr acc"
| "assign_all (a # rest) nonce acc =
     rbind (a nonce) (\<lambda>args. assign_all rest nonce (js_extend acc [case args of Some x \<Rightarrow> x | None \<Rightarrow> []]))"

definition multiAuthenticator :: "authenticator list \<Rightarrow> authenticator" where
  "multiAuthenticator authenticators nonce = rbind (assign_all authenticators nonce []) (\<lambda>auth. Inr (Some auth))"

definition noAuthFn :: authenticator where
  "noAuthFn nonce = Inr None"

definition usernamePasswordAuthenticator :: "string given \<Rightarrow> string given option \<Rightarrow> authenticator" where
  "usernamePasswordAuthenticator user pass nonce =
     rbind (given_value user) (\<lambda>u.
     rbind (case pass of None \<Rightarrow> Inr None | Some p \<Rightarrow> rbind (given_value p) (\<lambda>x. Inr (Some x))) (\<lambda>p.
       Inr (Some [(''user'', Some u), (''pass'', p)])))"

definition tokenAuthenticator :: "string given \<Rightarrow> authenticator" where
  "tokenAuthenticator token nonce =
     rbind (given_value token) (\<lambda>auth_token. Inr (Some [(''auth_token'', Some auth_token)]))"

section \<open>Keys\<close>

text \<open>\<open>key_and_signature\<close> is the body of the authenticator of \<open>nkeyAuthenticator\<close>.\<close>

definition key_and_signature :: "'k nkeys \<Rightarrow> bytes given option \<Rightarrow> string option \<Rightarrow> js_error + string \<times> string" where
  "key_and_signature nk seed nonce =
     rbind (case seed of None \<Rightarrow> Inr None | Some s \<Rightarrow> rbind (given_value s) (\<lambda>x. Inr (Some x))) (\<lambda>s.
     rbind (case s of None \<Rightarrow> Inr None | Some x \<Rightarrow> rbind (nk_fromSeed nk x) (\<lambda>kp. Inr (Some kp))) (\<lambda>kp.
     rbind (case kp of None \<Rightarrow> Inr [] | Some k \<Rightarrow> nk_getPublicKey nk k) (\<lambda>nkey.
     let challenge = te_encode (case nonce of Some n \<Rightarrow> n | None \<Rightarrow> []);
         has_nonce = (case nonce of Some n \<Rightarrow> n \<noteq> [] | None \<Rightarrow> False)
     in rbind (case kp of
                 None \<Rightarrow> Inr None
               | Some k \<Rightarrow> if has_nonce then rbind (nk_sign nk k challenge) (\<lambda>b. Inr (Some b)) else Inr None) (\<lambda>sigBytes.
          Inr (nkey, case sigBytes of Some b \<Rightarrow> nk_encode nk b | None \<Rightarrow> [])))))"

definition nkeyAuthenticator :: "'k nkeys \<Rightarrow> bytes given option \<Rightarrow> authenticator" where
  "nkeyAuthenticator nk seed nonce =
     rbind (key_and_signature nk seed nonce) (\<lambda>(nkey, sig). Inr (Some [(''nkey'', Some nkey), (''sig'', Some sig)]))"

definition jwtAuthenticator :: "'k nkeys \<Rightarrow> string given \<Rightarrow> bytes given option \<Rightarrow> authenticator" where
  "jwtAuthenticator nk ajwt seed nonce =
     rbind (given_value ajwt) (\<lambda>jwt.
     rbind (key_and_signature nk seed nonce) (\<lambda>(nkey, sig).
       Inr (Some [(''jwt'', Some jwt), (''nkey'', Some nkey), (''sig'', Some sig)])))"

section \<open>Credentials files\<close>

text \<open>A line of at least six characters that starts and ends with three dashes, with its line feed; the
  result is the text behind it.\<close>

definition dash_line :: "string \<Rightarrow> string option" where
  "dash_line t =
     (let l = takeWhile (\<lambda>c. c \<noteq> LF) t; n = length l
      in if drop n t \<noteq> [] \<and> 6 \<le> n \<and> take 3 l = ''---'' \<and> drop (n - 3) l = ''---''
         then Some (drop (n + 1) t) else None)"

text \<open>The characters that \<open>.\<close> does not match: line feed, carriage return and the two separators, here
  as they start in UTF-8.\<close>

fun no_terminator :: "string \<Rightarrow> bool" where
  "no_terminator [] \<longleftrightarrow> True"
| "no_terminator (c # r) \<longleftrightarrow> c \<noteq> LF \<and> c \<noteq> CR
     \<and> take 3 (c # r) \<notin> {[CHR 0xE2, CHR 0x80, CHR 0xA8], [CHR 0xE2, CHR 0x80, CHR 0xA9]} \<and> no_terminator r"

text \<open>The match of the expression whose first dashes are at the front of the text: the group and the
  text behind the match. The header ends at the first line feed, the group is the whole next line, and
  the spaces before the footer are all the spaces there are, as the footer starts with a dash.\<close>

definition creds_block :: "string \<Rightarrow> (string \<times> string) option" where
  "creds_block t =
     (case dash_line t of
        None \<Rightarrow> None
      | Some u \<Rightarrow>
          let g = takeWhile (\<lambda>c. c \<noteq> LF) u; v = drop (length g) u
          in if g \<noteq> [] \<and> no_terminator g \<and> v \<noteq> []
             then map_option (\<lambda>w. (g, w)) (dash_line (trim_start (tl v)))
             else None)"

fun find_block :: "string \<Rightarrow> (string \<times> string) option" where
  "find_block [] = creds_block []"
| "find_block (c # r) = (case creds_block (c # r) of Some x \<Rightarrow> Some x | None \<Rightarrow> find_block r)"

definition parse_creds :: "bytes \<Rightarrow> js_error + string \<times> bytes" where
  "parse_creds creds =
     (let s = td_decode creds
      in case find_block s of
           None \<Rightarrow> Inl (error_for_code EC_BadCreds None)
         | Some (g, rest) \<Rightarrow>
             let jwt = js_trim g
             in case find_block rest of
                  None \<Rightarrow> Inl (error_for_code EC_BadCreds None)
                | Some (g', rest') \<Rightarrow> Inr (jwt, te_encode (js_trim g')))"

text \<open>Both functions given to \<open>jwtAuthenticator\<close> parse the credentials anew.\<close>

definition credsAuthenticator :: "'k nkeys \<Rightarrow> bytes given \<Rightarrow> authenticator" where
  "credsAuthenticator nk creds =
     (let p = rbind (given_value creds) parse_creds
      in jwtAuthenticator nk (Function (rbind p (\<lambda>(jwt, seed). Inr jwt)))
           (Some (Function (rbind p (\<lambda>(jwt, seed). Inr seed)))))"

section \<open>Later authenticators win\<close>

text \<open>The value of a field after the credentials of a list of authenticators are put together.\<close>

fun last_given :: "string \<Rightarrow> auth list \<Rightarrow> string option option \<Rightarrow> string option option" where
  "last_given k [] v = v"
| "last_given k (a # rest) v = last_given k rest (case map_of (rev a) k of None \<Rightarrow> v | Some x \<Rightarrow> Some x)"

lemma map_of_fold_update:
  "map_of (fold (\<lambda>(k, v). AList.update k v) obj acc) j = (case map_of (rev obj) j of None \<Rightarrow> map_of acc j | Some x \<Rightarrow> Some x)"
  by (induction obj arbitrary: acc) (auto simp: update_conv' map_add_def split: option.splits)

lemma assign_all_fields:
  assumes "list_all2 (\<lambda>a x. a nonce = Inr x) as xs"
  shows "\<exists>auth. assign_all as nonce acc = Inr auth
    \<and> (\<forall>k. map_of auth k = last_given k (map (\<lambda>x. case x of Some y \<Rightarrow> y | None \<Rightarrow> []) xs) (map_of acc k))"
  using assms
proof (induction "as" xs arbitrary: acc rule: list_all2_induct)
  case (Cons a as x xs)
  let ?acc = "js_extend acc [case x of Some y \<Rightarrow> y | None \<Rightarrow> []]"
  obtain auth where "assign_all as nonce ?acc = Inr auth"
    "\<forall>k. map_of auth k = last_given k (map (\<lambda>x. case x of Some y \<Rightarrow> y | None \<Rightarrow> []) xs) (map_of ?acc k)"
    using Cons.IH by blast
  then show ?case using Cons.hyps by (simp add: js_extend_def map_of_fold_update)
qed simp

text \<open>
  Several authenticators act as one that puts their fields together, the later ones over the
  earlier ones, field by field; when none of them fails, none of the fields of one is lost unless a
  later one has the same field.
\<close>
theorem later_authenticators_win:
  assumes "list_all2 (\<lambda>a x. a nonce = Inr x) as xs"
  shows "\<exists>auth. multiAuthenticator as nonce = Inr (Some auth)
    \<and> (\<forall>k. map_of auth k = last_given k (map (\<lambda>x. case x of Some y \<Rightarrow> y | None \<Rightarrow> []) xs) None)"
  using assign_all_fields [OF assms, of "[]"] by (auto simp: multiAuthenticator_def)

theorem later_authenticators_win_witness:
  "\<exists>auth. multiAuthenticator [tokenAuthenticator (Constant ''t''), usernamePasswordAuthenticator (Constant ''u'') None] None = Inr (Some auth)
    \<and> map_of auth ''auth_token'' = Some (Some ''t'') \<and> map_of auth ''pass'' = Some None"
proof -
  have "list_all2 (\<lambda>a x. a None = Inr x)
      [tokenAuthenticator (Constant ''t''), usernamePasswordAuthenticator (Constant ''u'') None]
      [Some [(''auth_token'', Some ''t'')], Some [(''user'', Some ''u''), (''pass'', None)]]"
    by (simp add: tokenAuthenticator_def usernamePasswordAuthenticator_def)
  from later_authenticators_win [OF this] show ?thesis by auto
qed

section \<open>Reading credentials back\<close>

definition section_text :: "string \<Rightarrow> string \<Rightarrow> string \<Rightarrow> string" where
  "section_text title body rest =
     ''-----BEGIN '' @ title @ ''-----'' @ [LF] @ body @ [LF] @ ''------END '' @ title @ ''------'' @ [LF] @ rest"

definition printable :: "string \<Rightarrow> bool" where
  "printable s \<longleftrightarrow> s \<noteq> [] \<and> (\<forall>c \<in> set s. 32 < char_code c \<and> char_code c < 127)"

lemma takeWhile_line: "LF \<notin> set l \<Longrightarrow> takeWhile (\<lambda>c. c \<noteq> LF) (l @ LF # r) = l"
  by (induction l) auto

lemma dash_line_ok:
  assumes "LF \<notin> set m"
  shows "dash_line (''---'' @ m @ ''---'' @ LF # r) = Some r"
proof -
  define l where "l = ''---'' @ m @ ''---''"
  have "LF \<notin> set l" using assms by (auto simp: l_def LF_def)
  then have t: "takeWhile (\<lambda>c. c \<noteq> LF) (l @ LF # r) = l" by (rule takeWhile_line)
  have "6 \<le> length l" "take 3 l = ''---''" "drop (length l - 3) l = ''---''" by (simp_all add: l_def)
  then have "dash_line (l @ LF # r) = Some r" by (simp add: dash_line_def t Let_def)
  then show ?thesis by (simp add: l_def)
qed

lemma no_terminator_printable: "\<forall>c \<in> set s. char_code c < 127 \<and> 32 < char_code c \<Longrightarrow> no_terminator s"
  by (induction s rule: no_terminator.induct) (auto simp: LF_def CR_def char_code_def)

lemma creds_block_ok:
  assumes "LF \<notin> set title" "printable body"
  shows "creds_block (section_text title body rest) = Some (body, rest)"
proof -
  have b: "LF \<notin> set body" using assms(2) by (auto simp: printable_def LF_def char_code_def)
  let ?foot = "''------END '' @ title @ ''------'' @ LF # rest"
  have "dash_line (''---'' @ (''--BEGIN '' @ title @ ''--'') @ ''---'' @ LF # (body @ LF # ?foot)) = Some (body @ LF # ?foot)"
    using assms(1) by (intro dash_line_ok) (auto simp: LF_def)
  then have h: "dash_line (section_text title body rest) = Some (body @ LF # ?foot)" by (simp add: section_text_def)
  have t: "takeWhile (\<lambda>c. c \<noteq> LF) (body @ LF # ?foot) = body" using b by (rule takeWhile_line)
  have "leading_space (CHR ''-'' # s) = None" for s by (simp add: leading_space_def js_spaces_def)
  then have tr: "trim_start ?foot = ?foot" by (simp add: trim_start.simps [of "CHR ''-'' # _"])
  have "dash_line (''---'' @ (''---END '' @ title @ ''---'') @ ''---'' @ LF # rest) = Some rest"
    using assms(1) by (intro dash_line_ok) (auto simp: LF_def)
  then have f: "dash_line ?foot = Some rest" by simp
  have "no_terminator body" "body \<noteq> []" using assms(2) no_terminator_printable by (auto simp: printable_def)
  then show ?thesis unfolding creds_block_def h option.case Let_def t using tr f by simp
qed

lemma find_block_skip: "CHR ''-'' \<notin> set p \<Longrightarrow> find_block (p @ s) = find_block s"
proof (induction p)
  case (Cons c p)
  have "c \<noteq> CHR ''-''" using Cons.prems by auto
  then have "dash_line (c # x) = None" for x by (auto simp: dash_line_def Let_def take_Suc)
  then have "creds_block (c # p @ s) = None" by (simp add: creds_block_def)
  then show ?case using Cons by simp
qed simp

lemma find_block_ok:
  assumes "CHR ''-'' \<notin> set p" "LF \<notin> set title" "printable body"
  shows "find_block (p @ section_text title body rest) = Some (body, rest)"
proof -
  obtain c r where c: "section_text title body rest = c # r" by (simp add: section_text_def)
  then show ?thesis using creds_block_ok [OF assms(2,3), of rest] find_block_skip [OF assms(1)] by simp
qed

text \<open>
  C36: A credentials file in the usual form, with any text without dashes before and between its two
  sections, gives its token and its seed back, and the authenticator made from it answers a nonce with
  the token, the public key of the seed and the signature of the nonce.
\<close>
theorem credentials_are_read_back:
  fixes nk :: "'k nkeys" and rest :: string
  assumes "CHR ''-'' \<notin> set p" "CHR ''-'' \<notin> set q" "printable jwt" "printable seed" "LF \<notin> set t1" "LF \<notin> set t2" "nonce \<noteq> []"
    "nk_fromSeed nk (te_encode seed) = Inr kp" "nk_getPublicKey nk kp = Inr pub" "nk_sign nk kp (te_encode nonce) = Inr sig"
  defines "creds \<equiv> te_encode (p @ section_text t1 jwt (q @ section_text t2 seed rest))"
  shows "parse_creds creds = Inr (jwt, te_encode seed)
    \<and> credsAuthenticator nk (Constant creds) (Some nonce)
      = Inr (Some [(''jwt'', Some jwt), (''nkey'', Some pub), (''sig'', Some (nk_encode nk sig))])"
proof -
  have "js_trim jwt = jwt" "js_trim seed = seed" using assms(3,4) js_trim_printable by (auto simp: printable_def)
  then have "parse_creds creds = Inr (jwt, te_encode seed)"
    using assms(1-6) by (simp add: parse_creds_def creds_def find_block_ok Let_def del: te_encode_append)
  then show ?thesis
    using assms(7-10) by (simp add: credsAuthenticator_def jwtAuthenticator_def key_and_signature_def Let_def)
qed

definition sample_keys :: "bytes nkeys" where
  "sample_keys = \<lparr>nk_fromSeed = (\<lambda>s. Inr s), nk_getPublicKey = (\<lambda>k. Inr ''U''), nk_sign = (\<lambda>k b. Inr (k @ b)),
     nk_encode = (\<lambda>b. ''sg'')\<rparr>"

theorem credentials_are_read_back_witness:
  "credsAuthenticator sample_keys (Constant (te_encode (section_text ''JWT'' ''ey-1'' ([LF] @ section_text ''SEED'' ''SU'' [])))) (Some ''n'')
    = Inr (Some [(''jwt'', Some ''ey-1''), (''nkey'', Some ''U''), (''sig'', Some ''sg'')])"
proof -
  have "CHR ''-'' \<notin> set []" "CHR ''-'' \<notin> set [LF]" "printable ''ey-1''" "printable ''SU''" "LF \<notin> set ''JWT''" "LF \<notin> set ''SEED''"
    "(''n'' :: string) \<noteq> []"
    by code_simp+
  from credentials_are_read_back [OF this, of sample_keys "te_encode ''SU''" "''U''" "te_encode ''SU'' @ te_encode ''n''" "[]"]
  show ?thesis by (simp add: sample_keys_def del: te_encode_append te_encode_Cons)
qed

text \<open>A file with carriage returns, or without the line feed at its end, is refused.\<close>

lemma carriage_returns_are_refused:
  "parse_creds (te_encode (''---A---'' @ [CR, LF] @ ''x'' @ [CR, LF] @ ''---A---'' @ [CR, LF])) = Inl (error_for_code EC_BadCreds None)"
  "parse_creds (te_encode (section_text ''A'' ''x'' (''---B---'' @ [LF] @ ''y'' @ [LF] @ ''---B---''))) = Inl (error_for_code EC_BadCreds None)"
proof -
  have "find_block (''---A---'' @ [CR, LF] @ ''x'' @ [CR, LF] @ ''---A---'' @ [CR, LF]) = None"
    by (simp add: creds_block_def dash_line_def CR_def LF_def Let_def)
  then show "parse_creds (te_encode (''---A---'' @ [CR, LF] @ ''x'' @ [CR, LF] @ ''---A---'' @ [CR, LF])) = Inl (error_for_code EC_BadCreds None)"
    by (simp add: parse_creds_def del: te_encode_append te_encode_Cons)
  have a: "LF \<notin> set ''A''" "printable ''x''" by (simp_all add: LF_def printable_def char_code_def)
  have l: "leading_space ''---B---'' = None" by (simp add: leading_space_def js_spaces_def)
  have f: "find_block (section_text ''A'' ''x'' r) = Some (''x'', r)" for r
    using find_block_ok [OF _ a, of "[]" r] by simp
  have "trim_start ''---B---'' = ''---B---''" by (simp add: trim_start.simps l)
  then have "find_block (''---B---'' @ [LF] @ ''y'' @ [LF] @ ''---B---'') = None"
    by (simp add: creds_block_def dash_line_def LF_def Let_def)
  then show "parse_creds (te_encode (section_text ''A'' ''x'' (''---B---'' @ [LF] @ ''y'' @ [LF] @ ''---B---''))) = Inl (error_for_code EC_BadCreds None)"
    by (simp add: parse_creds_def f del: te_encode_append te_encode_Cons)
qed

end
