(* ===== verification/Conn_Options.thy ===== *)
theory Conn_Options
  imports Authenticators Transport Requests Js_Numbers
begin

text \<open>
  The options of a connection, \<open>nats-base-client/options.ts\<close>, and the \<open>CONNECT\<close> message that is made
  from them, the class \<open>Connect\<close> of \<open>protocol.ts\<close>. An options object is the list of its properties; a
  property that is not there reads as \<open>undefined\<close>.
\<close>

section \<open>Values\<close>

datatype opt_value =
    V_Undefined | V_Null | V_Bool bool | V_Num int | V_Str string | V_Strs "string list"
  | V_Auth authenticator | V_Auths "authenticator list" | V_Text "string given" | V_Delay "nat \<Rightarrow> int option"
  | V_Tls tls_options

type_synonym conn_opts = "(string \<times> opt_value) list"

definition opt_get :: "conn_opts \<Rightarrow> string \<Rightarrow> opt_value" where
  "opt_get os k = (case map_of os k of Some v \<Rightarrow> v | None \<Rightarrow> V_Undefined)"

definition opt_set :: "string \<Rightarrow> opt_value \<Rightarrow> conn_opts \<Rightarrow> conn_opts" where
  "opt_set k v os = AList.update k v os"

fun opt_truthy :: "opt_value \<Rightarrow> bool" where
  "opt_truthy V_Undefined = False"
| "opt_truthy V_Null = False"
| "opt_truthy (V_Bool b) = b"
| "opt_truthy (V_Num n) = (n \<noteq> 0)"
| "opt_truthy (V_Str s) = (s \<noteq> [])"
| "opt_truthy v = True"

text \<open>A name or a password: a string or a function.\<close>

definition given_of :: "opt_value \<Rightarrow> string given option" where
  "given_of v = (case v of V_Str s \<Rightarrow> Some (Constant s) | V_Text g \<Rightarrow> Some g | _ \<Rightarrow> None)"

section \<open>Defaults\<close>

definition DEFAULT_HOST :: string where "DEFAULT_HOST = ''127.0.0.1''"
definition DEFAULT_MAX_RECONNECT_ATTEMPTS :: int where "DEFAULT_MAX_RECONNECT_ATTEMPTS = 10"
definition DEFAULT_JITTER :: int where "DEFAULT_JITTER = 100"
definition DEFAULT_JITTER_TLS :: int where "DEFAULT_JITTER_TLS = 1000"
definition DEFAULT_RECONNECT_TIME_WAIT :: int where "DEFAULT_RECONNECT_TIME_WAIT = 2 * 1000"

definition defaultOptions :: conn_opts where
  "defaultOptions =
     [(''maxPingOut'', V_Num 2),
      (''maxReconnectAttempts'', V_Num DEFAULT_MAX_RECONNECT_ATTEMPTS),
      (''noRandomize'', V_Bool False),
      (''pedantic'', V_Bool False),
      (''pingInterval'', V_Num (2 * 60 * 1000)),
      (''reconnect'', V_Bool True),
      (''reconnectJitter'', V_Num DEFAULT_JITTER),
      (''reconnectJitterTLS'', V_Num DEFAULT_JITTER_TLS),
      (''reconnectTimeWait'', V_Num DEFAULT_RECONNECT_TIME_WAIT),
      (''tls'', V_Undefined),
      (''verbose'', V_Bool False),
      (''waitOnFirstConnect'', V_Bool False),
      (''ignoreAuthErrorAbort'', V_Bool False)]"

section \<open>The authenticator\<close>

definition auth_buffer :: "conn_opts \<Rightarrow> authenticator list" where
  "auth_buffer opts =
     (case opt_get opts ''authenticator'' of V_Auth a \<Rightarrow> [a] | V_Auths as \<Rightarrow> as | _ \<Rightarrow> [])
     @ (if opt_truthy (opt_get opts ''token'')
        then (case given_of (opt_get opts ''token'') of Some g \<Rightarrow> [tokenAuthenticator g] | None \<Rightarrow> []) else [])
     @ (if opt_truthy (opt_get opts ''user'')
        then (case given_of (opt_get opts ''user'') of
                Some g \<Rightarrow> [usernamePasswordAuthenticator g (given_of (opt_get opts ''pass''))] | None \<Rightarrow> []) else [])"

definition buildAuthenticator :: "conn_opts \<Rightarrow> authenticator" where
  "buildAuthenticator opts =
     (let buf = auth_buffer opts in if length buf = 0 then noAuthFn else multiAuthenticator buf)"

section \<open>The delay before a reconnect\<close>

text \<open>The handler that is installed by default; \<open>r\<close> is the random draw. \<open>None\<close> is \<open>NaN\<close>, for options
  that are not numbers.\<close>

definition num_of :: "opt_value \<Rightarrow> int option" where
  "num_of v = (case v of V_Num n \<Rightarrow> Some n | V_Null \<Rightarrow> Some 0 | V_Bool b \<Rightarrow> Some (if b then 1 else 0) | _ \<Rightarrow> None)"

definition default_delay :: "conn_opts \<Rightarrow> nat \<Rightarrow> int option" where
  "default_delay opts r =
     (let extra = (if opt_truthy (opt_get opts ''tls'') then opt_get opts ''reconnectJitterTLS'' else opt_get opts ''reconnectJitter'');
          extra' = (if opt_truthy extra
            then map_option (\<lambda>n. if n + 1 \<ge> 0 then int (random_below r (nat (n + 1)))
                else - int ((js_round (r * nat (- (n + 1))) + 2 ^ 53 - 1) div 2 ^ 53)) (num_of extra)
            else num_of extra)
      in (case (num_of (opt_get opts ''reconnectTimeWait''), extra') of
            (Some w, Some e) \<Rightarrow> Some (w + e)
          | _ \<Rightarrow> None))"

section \<open>Reading the options\<close>

definition show_opt :: "opt_value \<Rightarrow> string" where
  "show_opt v = (case v of V_Num n \<Rightarrow> show_int n | V_Str s \<Rightarrow> s | _ \<Rightarrow> [])"

text \<open>The servers of the object given, which the code writes back into it.\<close>

definition given_servers :: "string \<Rightarrow> conn_opts \<Rightarrow> js_error + conn_opts" where
  "given_servers dhp opts =
     (let o1 = (if opt_truthy (opt_get opts ''servers'') then opts else opt_set ''servers'' (V_Strs []) opts);
          o2 = (case opt_get o1 ''servers'' of V_Str s \<Rightarrow> opt_set ''servers'' (V_Strs [s]) o1 | _ \<Rightarrow> o1);
          n = (\<lambda>x. case opt_get x ''servers'' of V_Strs ss \<Rightarrow> length ss | _ \<Rightarrow> 0);
          port = opt_get opts ''port''
      in if n o2 > 0 \<and> opt_truthy port
         then Inl (nats_error ''port and servers options are mutually exclusive'' (code_string EC_InvalidOption) None)
         else let o3 = (if n o2 = 0 \<and> opt_truthy port
                    then opt_set ''servers'' (V_Strs [DEFAULT_HOST @ '':'' @ show_opt port]) o2 else o2)
              in Inr (if n o3 = 0 then opt_set ''servers'' (V_Strs [dhp]) o3 else o3))"

definition is_function :: "opt_value \<Rightarrow> bool" where
  "is_function v = (case v of V_Auth a \<Rightarrow> True | V_Delay d \<Rightarrow> True | V_Text (Function r) \<Rightarrow> True | _ \<Rightarrow> False)"

definition check_function :: "conn_opts \<Rightarrow> string \<Rightarrow> js_error + unit" where
  "check_function options n =
     (if opt_truthy (opt_get options n) \<and> \<not> is_function (opt_get options n)
      then Inl (nats_error (n @ '' option should be a function'') (code_string EC_NotFunction) None)
      else Inr ())"

definition check_inbox :: "string \<Rightarrow> conn_opts \<Rightarrow> js_error + unit" where
  "check_inbox nuid options =
     (if opt_truthy (opt_get options ''inboxPrefix'')
      then (case opt_get options ''inboxPrefix'' of
              V_Str p \<Rightarrow> (case createInbox nuid p of
                  Inl err \<Rightarrow> Inl (nats_error (err_message err) (code_string EC_ApiError) None)
                | Inr i \<Rightarrow> Inr ())
            | _ \<Rightarrow> Inl (nats_error ''prefix must be a string'' (code_string EC_ApiError) None))
      else Inr ())"

definition with_resolve :: "bool \<Rightarrow> conn_opts \<Rightarrow> js_error + conn_opts" where
  "with_resolve has_fn options =
     (let o1 = (case opt_get options ''resolve'' of
            V_Undefined \<Rightarrow> opt_set ''resolve'' (V_Bool has_fn) options | _ \<Rightarrow> options)
      in if opt_truthy (opt_get o1 ''resolve'') \<and> \<not> has_fn
         then Inl (nats_error (quoted ''resolve'' @ '' is not supported on this client'') (code_string EC_InvalidOption) None)
         else Inr o1)"

text \<open>\<open>parseOptions\<close>: \<open>cfg\<close> is the transport factory and \<open>nuid\<close> the identifier that the check of the
  inbox prefix draws.\<close>

definition parseOptions ::
  "('t, 'u, 'd) transport_factory option \<Rightarrow> string \<Rightarrow> conn_opts option \<Rightarrow> js_error + conn_opts" where
  "parseOptions cfg nuid opts0 =
     (let dhp = DEFAULT_HOST @ '':'' @ show_nat (defaultPort cfg);
          opts = (case opts0 of Some x \<Rightarrow> x | None \<Rightarrow> [(''servers'', V_Strs [dhp])])
      in rbind (given_servers dhp opts) (\<lambda>opts1.
         let options = js_extend defaultOptions [opts1];
             options1 = opt_set ''authenticator'' (V_Auth (buildAuthenticator options)) options
         in rbind (check_function options1 ''reconnectDelayHandler'') (\<lambda>_.
            rbind (check_function options1 ''authenticator'') (\<lambda>_.
            let options2 = (if opt_truthy (opt_get options1 ''reconnectDelayHandler'') then options1
                  else opt_set ''reconnectDelayHandler'' (V_Delay (default_delay options1)) options1)
            in rbind (check_inbox nuid options2) (\<lambda>_.
                 with_resolve (getResolveFn cfg \<noteq> None) options2)))))"

section \<open>The CONNECT message\<close>

text \<open>The fields in the order of the constructor; a field that is \<open>undefined\<close> is not printed. The
  credentials are put over them.\<close>

definition connect_base :: "string \<Rightarrow> string \<Rightarrow> conn_opts \<Rightarrow> conn_opts" where
  "connect_base version lang opts =
     [(''protocol'', V_Num 1), (''version'', V_Str version), (''lang'', V_Str lang),
      (''echo'', if opt_truthy (opt_get opts ''noEcho'') then V_Bool False else V_Undefined),
      (''verbose'', opt_get opts ''verbose''), (''pedantic'', opt_get opts ''pedantic''),
      (''tls_required'', if opt_truthy (opt_get opts ''tls'') then V_Bool True else V_Undefined),
      (''name'', opt_get opts ''name'')]"

definition connect_fields :: "string \<Rightarrow> string \<Rightarrow> conn_opts \<Rightarrow> string option \<Rightarrow> js_error + conn_opts" where
  "connect_fields version lang opts nonce =
     rbind (case opt_get opts ''authenticator'' of V_Auth a \<Rightarrow> a nonce | _ \<Rightarrow> Inr None) (\<lambda>creds.
       Inr (js_extend (connect_base version lang opts)
         [map (\<lambda>(k, v). (k, case v of Some s \<Rightarrow> V_Str s | None \<Rightarrow> V_Undefined)) (case creds of Some c \<Rightarrow> c | None \<Rightarrow> [])]))"

section \<open>What the options come to\<close>

lemma opt_get_set [simp]: "opt_get (opt_set k v os) j = (if j = k then v else opt_get os j)"
  by (simp add: opt_get_def opt_set_def update_conv')

lemma map_of_set: "map_of (opt_set k v os) j = (if j = k then Some v else map_of os j)"
  by (simp add: opt_set_def update_conv')

lemma distinct_set: "distinct (map fst os) \<Longrightarrow> distinct (map fst (opt_set k v os))"
  by (simp add: opt_set_def distinct_update)

lemma given_servers_keeps:
  assumes "given_servers dhp opts = Inr opts1" "distinct (map fst opts)"
  shows "j \<noteq> ''servers'' \<Longrightarrow> map_of opts1 j = map_of opts j" "distinct (map fst opts1)"
proof -
  define same where "same os \<longleftrightarrow> (\<forall>j. j \<noteq> ''servers'' \<longrightarrow> map_of os j = map_of opts j) \<and> distinct (map fst os)" for os
  have set: "same os \<Longrightarrow> same (opt_set ''servers'' v os)" for v os
    by (simp add: same_def map_of_set distinct_set)
  define o1 where "o1 = (if opt_truthy (opt_get opts ''servers'') then opts else opt_set ''servers'' (V_Strs []) opts)"
  define o2 where "o2 = (case opt_get o1 ''servers'' of V_Str s \<Rightarrow> opt_set ''servers'' (V_Strs [s]) o1 | _ \<Rightarrow> o1)"
  define n where "n = (\<lambda>x. case opt_get x ''servers'' of V_Strs ss \<Rightarrow> length ss | _ \<Rightarrow> 0)"
  define o3 where "o3 = (if n o2 = 0 \<and> opt_truthy (opt_get opts ''port'')
     then opt_set ''servers'' (V_Strs [DEFAULT_HOST @ '':'' @ show_opt (opt_get opts ''port'')]) o2 else o2)"
  have "same opts" using assms(2) by (simp add: same_def)
  then have "same o1" by (simp add: o1_def set)
  then have "same o2" by (simp add: o2_def set split: opt_value.split)
  then have "same o3" by (simp add: o3_def set)
  moreover have "opts1 = (if n o3 = 0 then opt_set ''servers'' (V_Strs [dhp]) o3 else o3)"
    using assms(1) unfolding given_servers_def Let_def o1_def [symmetric] o2_def [symmetric] n_def [symmetric] o3_def [symmetric]
    by (simp split: if_splits)
  ultimately have "same opts1" by (simp add: set)
  then show "j \<noteq> ''servers'' \<Longrightarrow> map_of opts1 j = map_of opts j" "distinct (map fst opts1)" by (simp_all add: same_def)
qed

lemma map_of_rev_distinct: "distinct (map fst os) \<Longrightarrow> map_of (rev os) = map_of os"
  by (rule map_of_eqI) (auto simp: map_of_eq_Some_iff rev_map [symmetric])

lemma extend_get:
  "distinct (map fst opts) \<Longrightarrow>
    opt_get (js_extend base [opts]) k = (case map_of opts k of Some v \<Rightarrow> v | None \<Rightarrow> opt_get base k)"
  by (simp add: opt_get_def js_extend_def map_of_fold_update map_of_rev_distinct split: option.split)

lemma extend_undefined:
  "distinct (map fst opts) \<Longrightarrow> opt_get opts k = V_Undefined \<Longrightarrow> opt_get base k = V_Undefined \<Longrightarrow>
    opt_get (js_extend base [opts]) k = V_Undefined"
  unfolding extend_get by (cases "map_of opts k") (simp_all add: opt_get_def)

lemma default_get:
  "opt_get defaultOptions ''reconnectDelayHandler'' = V_Undefined" "opt_get defaultOptions ''inboxPrefix'' = V_Undefined"
  "opt_get defaultOptions ''authenticator'' = V_Undefined" "opt_get defaultOptions ''token'' = V_Undefined"
  "opt_get defaultOptions ''tls'' = V_Undefined" "opt_get defaultOptions ''reconnectTimeWait'' = V_Num 2000"
  "opt_get defaultOptions ''reconnectJitter'' = V_Num 100" "opt_get defaultOptions ''maxPingOut'' = V_Num 2"
  by (simp_all add: defaultOptions_def opt_get_def DEFAULT_RECONNECT_TIME_WAIT_def DEFAULT_JITTER_def)

lemma with_resolve_keeps: "with_resolve f os = Inr os' \<Longrightarrow> k \<noteq> ''resolve'' \<Longrightarrow> opt_get os' k = opt_get os k"
  by (auto simp: with_resolve_def Let_def split: opt_value.splits if_splits)

lemma parseOptions_ok:
  assumes "parseOptions cfg nuid (Some opts) = Inr os" "distinct (map fst opts)"
  defines "dhp \<equiv> DEFAULT_HOST @ '':'' @ show_nat (defaultPort cfg)"
  shows "\<exists>opts1. given_servers dhp opts = Inr opts1
    \<and> (\<forall>k. k \<notin> {''authenticator'', ''reconnectDelayHandler'', ''resolve''} \<longrightarrow>
         opt_get os k = (case map_of opts1 k of Some v \<Rightarrow> v | None \<Rightarrow> opt_get defaultOptions k))
    \<and> opt_get os ''authenticator'' = V_Auth (buildAuthenticator (js_extend defaultOptions [opts1]))
    \<and> (\<not> opt_truthy (opt_get opts ''reconnectDelayHandler'') \<longrightarrow>
         (\<exists>os1. opt_get os ''reconnectDelayHandler'' = V_Delay (default_delay os1)
           \<and> (\<forall>k. k \<notin> {''reconnectDelayHandler'', ''resolve''} \<longrightarrow> opt_get os1 k = opt_get os k)))"
proof -
  obtain opts1 where o: "given_servers dhp opts = Inr opts1"
    using assms(1) by (auto simp: parseOptions_def dhp_def Let_def result_simps)
  note g = given_servers_keeps [OF o assms(2)]
  define e where "e = js_extend defaultOptions [opts1]"
  define e1 where "e1 = opt_set ''authenticator'' (V_Auth (buildAuthenticator e)) e"
  define e2 where "e2 = (if opt_truthy (opt_get e1 ''reconnectDelayHandler'') then e1
     else opt_set ''reconnectDelayHandler'' (V_Delay (default_delay e1)) e1)"
  have w: "with_resolve (getResolveFn cfg \<noteq> None) e2 = Inr os"
    using assms(1) o by (auto simp: parseOptions_def dhp_def Let_def result_simps e_def e1_def e2_def)
  note k = with_resolve_keeps [OF w]
  have e: "opt_get e j = (case map_of opts1 j of Some v \<Rightarrow> v | None \<Rightarrow> opt_get defaultOptions j)" for j
    unfolding e_def using g(2) by (rule extend_get)
  have d: "opt_get e ''reconnectDelayHandler'' = opt_get opts ''reconnectDelayHandler''"
    using e [of "''reconnectDelayHandler''"] g(1) [of "''reconnectDelayHandler''"]
    by (simp add: defaultOptions_def opt_get_def split: option.split)
  have 1: "opt_get os j = (case map_of opts1 j of Some v \<Rightarrow> v | None \<Rightarrow> opt_get defaultOptions j)"
    if "j \<notin> {''authenticator'', ''reconnectDelayHandler'', ''resolve''}" for j
    using that k [of j] e [of j] by (simp add: e2_def e1_def)
  have 2: "opt_get os ''authenticator'' = V_Auth (buildAuthenticator (js_extend defaultOptions [opts1]))"
    using k [of "''authenticator''"] by (simp add: e2_def e1_def e_def)
  have 3: "\<exists>os1. opt_get os ''reconnectDelayHandler'' = V_Delay (default_delay os1)
       \<and> (\<forall>k. k \<notin> {''reconnectDelayHandler'', ''resolve''} \<longrightarrow> opt_get os1 k = opt_get os k)"
    if "\<not> opt_truthy (opt_get opts ''reconnectDelayHandler'')"
    using that k d by (intro exI [of _ e1]) (simp add: e2_def e1_def)
  show ?thesis using o 1 2 3 by blast
qed

text \<open>
  The options given are put over the defaults, property by property: except for the servers, the
  authenticator, the handler of reconnect delays and \<open>resolve\<close>, which the client fills in, a property
  that the user's object has is taken as it is, also when it is \<open>undefined\<close>, and any other has its
  default.
\<close>
theorem options_are_put_over_the_defaults:
  assumes "parseOptions cfg nuid (Some opts) = Inr os" "distinct (map fst opts)"
    "k \<notin> {''servers'', ''authenticator'', ''reconnectDelayHandler'', ''resolve''}"
  shows "opt_get os k = (case map_of opts k of Some v \<Rightarrow> v | None \<Rightarrow> opt_get defaultOptions k)"
proof -
  obtain opts1 where o: "given_servers (DEFAULT_HOST @ '':'' @ show_nat (defaultPort cfg)) opts = Inr opts1"
    "opt_get os k = (case map_of opts1 k of Some v \<Rightarrow> v | None \<Rightarrow> opt_get defaultOptions k)"
    using parseOptions_ok [OF assms(1,2)] assms(3) by auto
  then show ?thesis using given_servers_keeps(1) [OF o(1) assms(2)] assms(3) by simp
qed

definition sample_factory :: "(unit, unit, unit) transport_factory" where
  "sample_factory = \<lparr>tf_factory = Some (), tf_defaultPort = None, tf_urlParseFn = None, tf_dnsResolveFn = Some ()\<rparr>"

lemma parse_sample:
  assumes "opt_get opts ''servers'' = V_Strs [s]" "opt_get opts ''port'' = V_Undefined" "opt_get opts ''inboxPrefix'' = V_Undefined"
    "opt_get opts ''reconnectDelayHandler'' = V_Undefined" "distinct (map fst opts)"
  shows "\<exists>os. parseOptions (Some sample_factory) [] (Some opts) = Inr os"
proof -
  have g: "given_servers dhp opts = Inr opts" for dhp
    using assms(1,2) by (simp add: given_servers_def Let_def)
  define e where "e = opt_set ''authenticator'' (V_Auth (buildAuthenticator (js_extend defaultOptions [opts]))) (js_extend defaultOptions [opts])"
  have get: "opt_get e ''reconnectDelayHandler'' = V_Undefined" "opt_get e ''inboxPrefix'' = V_Undefined"
    using assms(3,4) extend_undefined [OF assms(5)] default_get by (simp_all add: e_def)
  have "check_function e ''reconnectDelayHandler'' = Inr ()" "check_function e ''authenticator'' = Inr ()"
    by (simp_all add: check_function_def get) (simp add: e_def is_function_def)
  moreover have "check_inbox [] (opt_set ''reconnectDelayHandler'' (V_Delay (default_delay e)) e) = Inr ()"
    using get by (simp add: check_inbox_def)
  moreover have "\<exists>os. with_resolve True x = Inr os" for x by (simp add: with_resolve_def Let_def)
  moreover have "getResolveFn (Some sample_factory) \<noteq> None" by (simp add: getResolveFn_def sample_factory_def)
  ultimately show ?thesis
    unfolding parseOptions_def Let_def option.case g rbind_simps e_def [symmetric] by (simp add: get)
qed

definition user_opts :: conn_opts where
  "user_opts = [(''servers'', V_Strs [''h'']), (''user'', V_Str ''me''), (''pass'', V_Str ''secret''), (''pingInterval'', V_Undefined)]"

lemma user_opts_parse: "\<exists>os. parseOptions (Some sample_factory) [] (Some user_opts) = Inr os" "distinct (map fst user_opts)"
  by (rule parse_sample [of _ "''h''"]) (simp_all add: user_opts_def opt_get_def)

theorem options_are_put_over_the_defaults_witness:
  "\<exists>os. parseOptions (Some sample_factory) [] (Some user_opts) = Inr os \<and> opt_get os ''pingInterval'' = V_Undefined
    \<and> opt_get os ''maxPingOut'' = V_Num 2"
proof -
  obtain os where os: "parseOptions (Some sample_factory) [] (Some user_opts) = Inr os" using user_opts_parse(1) by blast
  have "opt_get os ''pingInterval'' = V_Undefined" "opt_get os ''maxPingOut'' = V_Num 2"
    using options_are_put_over_the_defaults [OF os user_opts_parse(2)] by (simp_all add: user_opts_def defaultOptions_def opt_get_def)
  then show ?thesis using os by blast
qed

text \<open>
  When the caller gives no handler of its own and the wait time and the jitter are numbers, the
  jitter not negative, the delay before a reconnect is the wait time plus a random whole number that
  lies between zero and the jitter: the wait time alone for a jitter of zero, otherwise one of the
  jitter-plus-one numbers that the draw selects. The jitter is the one for TLS exactly when the option
  \<open>tls\<close> is set; whether the connection is encrypted does not matter.
\<close>
theorem reconnect_delay_is_bounded:
  assumes "parseOptions cfg nuid (Some opts) = Inr os" "distinct (map fst opts)"
    "\<not> opt_truthy (opt_get opts ''reconnectDelayHandler'')" "opt_get os ''reconnectTimeWait'' = V_Num w"
    "opt_get os (if opt_truthy (opt_get os ''tls'') then ''reconnectJitterTLS'' else ''reconnectJitter'') = V_Num j" "0 \<le> j"
    "r < 2 ^ 53"
  shows "\<exists>d x. opt_get os ''reconnectDelayHandler'' = V_Delay d \<and> d r = Some x \<and> w \<le> x \<and> x \<le> w + j
    \<and> x = w + (if j = 0 then 0 else int (random_below r (nat (j + 1))))"
proof -
  obtain os1 where d: "opt_get os ''reconnectDelayHandler'' = V_Delay (default_delay os1)"
    and os1: "\<And>k. k \<notin> {''reconnectDelayHandler'', ''resolve''} \<Longrightarrow> opt_get os1 k = opt_get os k"
    using parseOptions_ok [OF assms(1,2)] assms(3) by blast
  have g: "opt_get os1 ''tls'' = opt_get os ''tls''" "opt_get os1 ''reconnectTimeWait'' = V_Num w"
    "opt_get os1 ''reconnectJitterTLS'' = opt_get os ''reconnectJitterTLS''" "opt_get os1 ''reconnectJitter'' = opt_get os ''reconnectJitter''"
    using os1 assms(4) by simp_all
  have b: "random_below r (nat (j + 1)) < nat (j + 1)" using random_below_less [OF assms(7)] assms(6) by simp
  have "default_delay os1 r = Some (w + (if j = 0 then 0 else int (random_below r (nat (j + 1)))))"
    using assms(5,6) by (auto simp: default_delay_def g num_of_def Let_def split: if_splits)
  then show ?thesis using d b assms(6) by auto
qed

theorem reconnect_delay_is_bounded_witness:
  "\<exists>os d x. parseOptions (Some sample_factory) [] (Some user_opts) = Inr os
    \<and> opt_get os ''reconnectDelayHandler'' = V_Delay d \<and> d 5 = Some x \<and> 2000 \<le> x \<and> x \<le> 2100
    \<and> x = 2000 + int (random_below 5 101)"
proof -
  obtain os where os: "parseOptions (Some sample_factory) [] (Some user_opts) = Inr os" using user_opts_parse(1) by blast
  obtain opts1 where o: "given_servers (DEFAULT_HOST @ '':'' @ show_nat (defaultPort (Some sample_factory))) user_opts = Inr opts1"
    "\<And>k. k \<notin> {''authenticator'', ''reconnectDelayHandler'', ''resolve''} \<Longrightarrow>
       opt_get os k = (case map_of opts1 k of Some v \<Rightarrow> v | None \<Rightarrow> opt_get defaultOptions k)"
    using parseOptions_ok [OF os user_opts_parse(2)] by blast
  have g: "opt_get os ''tls'' = V_Undefined" "opt_get os ''reconnectTimeWait'' = V_Num 2000" "opt_get os ''reconnectJitter'' = V_Num 100"
    using o(2) given_servers_keeps(1) [OF o(1) user_opts_parse(2)]
    by (simp_all add: default_get user_opts_def)
  have u: "\<not> opt_truthy (opt_get user_opts ''reconnectDelayHandler'')" by (simp add: user_opts_def opt_get_def)
  have "\<exists>d x. opt_get os ''reconnectDelayHandler'' = V_Delay d \<and> d 5 = Some x \<and> 2000 \<le> x \<and> x \<le> 2000 + 100
      \<and> x = 2000 + (if (100::int) = 0 then 0 else int (random_below 5 (nat (100 + 1))))"
    by (rule reconnect_delay_is_bounded [OF os user_opts_parse(2) u g(2)]) (simp_all add: g)
  then show ?thesis using os by auto
qed

lemma given_servers_nonempty:
  assumes "given_servers dhp opts = Inr opts1" "opt_get opts ''servers'' \<in> insert V_Undefined (range V_Str \<union> range V_Strs)"
  shows "\<exists>ss. opt_get opts1 ''servers'' = V_Strs ss \<and> ss \<noteq> []"
proof -
  define o1 where "o1 = (if opt_truthy (opt_get opts ''servers'') then opts else opt_set ''servers'' (V_Strs []) opts)"
  define o2 where "o2 = (case opt_get o1 ''servers'' of V_Str s \<Rightarrow> opt_set ''servers'' (V_Strs [s]) o1 | _ \<Rightarrow> o1)"
  define n where "n = (\<lambda>x. case opt_get x ''servers'' of V_Strs ss \<Rightarrow> length ss | _ \<Rightarrow> 0)"
  define o3 where "o3 = (if n o2 = 0 \<and> opt_truthy (opt_get opts ''port'')
     then opt_set ''servers'' (V_Strs [DEFAULT_HOST @ '':'' @ show_opt (opt_get opts ''port'')]) o2 else o2)"
  have "opt_get o1 ''servers'' \<in> range V_Str \<union> range V_Strs" using assms(2) by (auto simp: o1_def)
  then have "opt_get o2 ''servers'' \<in> range V_Strs" by (auto simp: o2_def split: opt_value.split)
  then have "opt_get o3 ''servers'' \<in> range V_Strs" by (auto simp: o3_def)
  moreover have "opts1 = (if n o3 = 0 then opt_set ''servers'' (V_Strs [dhp]) o3 else o3)"
    using assms(1) unfolding given_servers_def Let_def o1_def [symmetric] o2_def [symmetric] n_def [symmetric] o3_def [symmetric]
    by (simp split: if_splits)
  ultimately show ?thesis by (auto simp: n_def)
qed

text \<open>
  C12: A user and a password given as options reach the \<open>CONNECT\<close> message: with no other credentials,
  the fields that the client sends have the two strings as they were given, whatever the nonce, and
  the connection has at least one server to try.
\<close>
theorem credentials_reach_the_server:
  assumes "parseOptions cfg nuid (Some opts) = Inr os" "distinct (map fst opts)"
    "opt_get opts ''servers'' \<in> insert V_Undefined (range V_Str \<union> range V_Strs)"
    "opt_get opts ''authenticator'' = V_Undefined" "opt_get opts ''token'' = V_Undefined"
    "opt_get opts ''user'' = V_Str u" "u \<noteq> []" "opt_get opts ''pass'' = V_Str p"
  shows "\<exists>fs ss. connect_fields version lang os nonce = Inr fs \<and> opt_get fs ''user'' = V_Str u \<and> opt_get fs ''pass'' = V_Str p
    \<and> opt_get fs ''version'' = V_Str version \<and> opt_get os ''servers'' = V_Strs ss \<and> ss \<noteq> []"
proof -
  let ?dhp = "DEFAULT_HOST @ '':'' @ show_nat (defaultPort cfg)"
  obtain opts1 where o: "given_servers ?dhp opts = Inr opts1"
    "\<forall>k. k \<notin> {''authenticator'', ''reconnectDelayHandler'', ''resolve''} \<longrightarrow>
       opt_get os k = (case map_of opts1 k of Some v \<Rightarrow> v | None \<Rightarrow> opt_get defaultOptions k)"
    "opt_get os ''authenticator'' = V_Auth (buildAuthenticator (js_extend defaultOptions [opts1]))"
    using parseOptions_ok [OF assms(1,2)] by blast
  define e where "e = js_extend defaultOptions [opts1]"
  note g = given_servers_keeps [OF o(1) assms(2)]
  have same: "k \<noteq> ''servers'' \<Longrightarrow> opt_get opts1 k = opt_get opts k" for k using g(1) by (simp add: opt_get_def)
  have known: "opt_get opts1 k = v \<Longrightarrow> v \<noteq> V_Undefined \<Longrightarrow> opt_get e k = v" for k v
    unfolding e_def extend_get [OF g(2)] by (cases "map_of opts1 k") (simp_all add: opt_get_def)
  have "opt_get e ''user'' = V_Str u" "opt_get e ''pass'' = V_Str p" using known same assms(6,8) by simp_all
  moreover have "opt_get e ''authenticator'' = V_Undefined" "opt_get e ''token'' = V_Undefined"
    unfolding e_def using same assms(4,5) default_get by (simp_all add: extend_undefined [OF g(2)])
  ultimately have "auth_buffer e = [usernamePasswordAuthenticator (Constant u) (Some (Constant p))]"
    using assms(7) by (simp add: auth_buffer_def given_of_def)
  then have "buildAuthenticator e nonce = Inr (Some [(''user'', Some u), (''pass'', Some p)])"
    by (simp add: buildAuthenticator_def multiAuthenticator_def usernamePasswordAuthenticator_def js_extend_def)
  then have c: "connect_fields version lang os nonce
      = Inr (js_extend (connect_base version lang os) [[(''user'', V_Str u), (''pass'', V_Str p)]])"
    using o(3) by (simp add: connect_fields_def e_def)
  have b: "opt_get (connect_base version lang os) ''version'' = V_Str version" by (simp add: connect_base_def opt_get_def)
  have d: "distinct (map fst [(''user'', V_Str u), (''pass'', V_Str p)])" by simp
  obtain ss where ss: "opt_get opts1 ''servers'' = V_Strs ss" "ss \<noteq> []" using given_servers_nonempty [OF o(1) assms(3)] by blast
  then have "opt_get os ''servers'' = V_Strs ss"
    using o(2) by (cases "map_of opts1 ''servers''") (simp_all add: opt_get_def)
  then show ?thesis using c b ss(2) by (simp add: extend_get [OF d])
qed

theorem credentials_reach_the_server_witness:
  "\<exists>os fs. parseOptions (Some sample_factory) [] (Some user_opts) = Inr os
    \<and> connect_fields ''1.29.3'' ''nats.deno'' os None = Inr fs \<and> opt_get fs ''pass'' = V_Str ''secret''"
proof -
  obtain os where os: "parseOptions (Some sample_factory) [] (Some user_opts) = Inr os" using user_opts_parse(1) by blast
  have "opt_get user_opts ''servers'' \<in> insert V_Undefined (range V_Str \<union> range V_Strs)"
    "opt_get user_opts ''authenticator'' = V_Undefined" "opt_get user_opts ''token'' = V_Undefined"
    "opt_get user_opts ''user'' = V_Str ''me''" "''me'' \<noteq> []" "opt_get user_opts ''pass'' = V_Str ''secret''"
    by (simp_all add: user_opts_def opt_get_def)
  from credentials_reach_the_server [OF os user_opts_parse(2) this, of "''1.29.3''" "''nats.deno''" None] os show ?thesis by blast
qed

text \<open>
  An options object with a port works once. Reading the options writes the server made from the
  port back into the object of the caller, and the next connect with the same object refuses it,
  because it now has both a port and servers.
\<close>
theorem port_options_work_once:
  assumes "given_servers dhp opts = Inr opts1" "distinct (map fst opts)" "opt_truthy (opt_get opts ''port'')"
    "opt_get opts ''servers'' \<in> insert V_Undefined (range V_Str \<union> range V_Strs)"
  shows "\<exists>e. given_servers dhp' opts1 = Inl e \<and> has_code e EC_InvalidOption"
proof -
  obtain ss where ss: "opt_get opts1 ''servers'' = V_Strs ss" "ss \<noteq> []"
    using given_servers_nonempty [OF assms(1,4)] by blast
  have "opt_get opts1 ''port'' = opt_get opts ''port''"
    using given_servers_keeps(1) [OF assms(1,2), of "''port''"] by (simp add: opt_get_def)
  then show ?thesis using ss assms(3) by (simp add: given_servers_def has_code_def Let_def)
qed

lemma port_only:
  assumes "opt_get opts ''servers'' = V_Undefined" "opt_truthy (opt_get opts ''port'')"
  shows "\<exists>opts1. given_servers dhp opts = Inr opts1"
  using assms by (simp add: given_servers_def Let_def)

theorem port_options_work_once_witness:
  "\<exists>opts1 e. given_servers ''h'' [(''port'', V_Num 4222)] = Inr opts1 \<and> given_servers ''h'' opts1 = Inl e"
proof -
  have o: "opt_get [(''port'', V_Num 4222)] ''servers'' = V_Undefined" "opt_truthy (opt_get [(''port'', V_Num 4222)] ''port'')"
    by (simp_all add: opt_get_def)
  then obtain opts1 where "given_servers ''h'' [(''port'', V_Num 4222)] = Inr opts1" using port_only by blast
  moreover have "distinct (map fst [(''port'', V_Num 4222)])" by simp
  ultimately show ?thesis using port_options_work_once o by blast
qed

end
