(* ===== verification/Spec2Isabelle.thy ===== *)
theory Spec2Isabelle
  imports Wire_Frames Headers Semver Data_Buffer Js_Numbers Nuid Ip_Parser Util Servers Queued_Iterator
    Messages Requests Heartbeats Subscriptions Protocol Inbound Dialing Output Connection Request_Answer Sha256 Sha256_Spec
    Base64 Js_Util Js_Api Js_Manager Js_Msg Ordered_Consumer Consumer_Opts Js_Publish Js_Subscribe Js_Fetch Kv_Bucket Kv_Watch Sha_Digest Object_Store
    Pull_Consumer Pull_Window Pull_Ordered Service Service_Spec Transport Authenticators Conn_Options
begin

text \<open>
  A verification development for the client under \<open>src/\<close>: the NATS protocol client in
  \<open>src/nats-base-client\<close> and the JetStream client in \<open>src/jetstream\<close>. The definitions are
  translated from the TypeScript sources, file by file; a theorem that is a property of the
  program carries an identifier C\<open>n\<close> in the text before it.

  The program. Bytes come from a transport in chunks. The parser (\<open>parser.ts\<close>) turns them into
  events, the protocol handler (\<open>protocol.ts\<close>) handles these: messages go to the subscriptions
  and to the multiplexer of requests, pongs settle flushes, errors and server information go to
  the connection. In the other direction the handler collects commands in a byte queue
  (\<open>databuffer.ts\<close>) and flushes it from a microtask or when it is full. The connection
  (\<open>nats.ts\<close>) is what a user calls. JetStream is a client of the connection: its API client
  sends JSON requests, the managers of streams and consumers and the lists are built on it,
  consumers deliver stream messages through subscriptions, and the key-value and object stores are
  streams with conventions on their subjects and headers.

  How the model represents the program.
  Records are the classes, with a prefix per class; methods take the object and return the
  updated one. An exception is the left side of a sum, with \<open>js_error\<close> for what is thrown.
  Objects that are shared (subscriptions, servers, requests) have identities, and their class
  keeps a table from identities to records. A promise is the list of its outcomes, what is
  given to a callback of the user or to the transport is recorded in order, and what happens
  later (a timer, a microtask, a message, an answer) is an event, a step of its own: a property
  about sequences of events quantifies over all their interleavings. A string is the list of
  the bytes of its UTF-8 text. JavaScript numbers are integers where the code keeps them
  integral, with the rounding of doubles written out where it matters (\<open>Js_Numbers\<close>,
  \<open>js_round\<close> in \<open>Nats_Prelude\<close>). The runtime is a parameter: sockets, the clock, random
  draws, URL and JSON parsing, DNS are arguments of the definitions that use them, given as
  functions or as the values they answer; the answers of a server to API requests are a state
  machine \<open>ae_request\<close> in the environment \<open>api_env\<close>.

  Wire and parsing.
  \<open>Nats_Prelude\<close>: bytes, strings, results, numbers. \<open>Deno_Buffer\<close> (\<open>denobuffer.ts\<close>): the buffer the
  parser keeps partial frames in; it is a byte sink and a byte source (two locales interpreted
  on its operations). \<open>Wire_Parser\<close> (\<open>parser.ts\<close>): the state machine, one turn per byte,
  with the argument and payload buffers of frames that span chunks. \<open>Wire_Spec\<close>: a machine
  that reads one byte at a time; the parser refines it, so the result does not depend on
  where the stream is cut. \<open>Wire_Frames\<close>: frames printed by a server are parsed back to
  their messages for every division into chunks, and for any bytes a message handed over is
  consistent with its announced sizes. \<open>Data_Buffer\<close> (\<open>databuffer.ts\<close>) is a queue of bytes,
  stated as a locale.

  Values.
  \<open>Js_Strings\<close>: trimming, splitting and number parsing of the runtime. \<open>Nats_Core\<close>: error codes
  and errors (\<open>core.ts\<close>). \<open>Headers\<close> (\<open>headers.ts\<close>), with the round trip of the encoding. \<open>Semver\<close>
  (\<open>semver.ts\<close>), \<open>Nuid\<close> (\<open>nuid.ts\<close>), \<open>Ip_Parser\<close> (\<open>ipparser.ts\<close>), \<open>Util\<close> (\<open>util.ts\<close>), \<open>Base64\<close>
  (\<open>base64.ts\<close>), \<open>Messages\<close> (\<open>msg.ts\<close>).

  Transport and options.
  \<open>Transport\<close> (\<open>transport.ts\<close>, \<open>src/deno_transport.ts\<close>): the handshake, the reader and the writer over a
  socket whose answers are events. \<open>Authenticators\<close> (\<open>authenticator.ts\<close>) and \<open>Conn_Options\<close> (\<open>options.ts\<close>,
  \<open>Connect\<close> of \<open>protocol.ts\<close>): from the options of the user to the fields of the \<open>CONNECT\<close> message.

  Connection.
  \<open>Servers\<close> (\<open>servers.ts\<close>): the pool, its rotation and its reconciliation with the cluster.
  \<open>Queued_Iterator\<close> (\<open>queued_iterator.ts\<close>). \<open>Requests\<close> (\<open>muxsubscription.ts\<close>, \<open>request.ts\<close>).
  \<open>Heartbeats\<close> (\<open>heartbeats.ts\<close>, \<open>idleheartbeat_monitor.ts\<close>). \<open>Subscriptions\<close>, \<open>Protocol\<close>,
  \<open>Inbound\<close>, \<open>Dialing\<close> (all \<open>protocol.ts\<close>): the table of subscriptions, sending, receiving,
  connecting. \<open>Output\<close>: over any sequence of calls, what waits in the buffer has a flush queued.
  \<open>Connection\<close> (\<open>nats.ts\<close>): the calls of a user, composed from all of these. \<open>Request_Answer\<close>: a
  request and its answer, over a step relation of what may happen in between.

  Services.
  \<open>Service\<close> (\<open>service.ts\<close>, \<open>serviceclient.ts\<close>): groups, endpoints, statistics and the life of a service on a
  connection; \<open>Service_Spec\<close>: what it promises.

  JetStream.
  \<open>Js_Util\<close> (\<open>jsutil.ts\<close>), \<open>Js_Api\<close> (\<open>jsbaseclient_api.ts\<close>, \<open>jslister.ts\<close>), \<open>Js_Manager\<close>
  (\<open>jsmconsumer_api.ts\<close>, \<open>jsmstream_api.ts\<close>, \<open>jsm.ts\<close>), \<open>Js_Msg\<close> (\<open>jsmsg.ts\<close>). \<open>Consumer_Opts\<close>: the
  builder of consumer options (\<open>types.ts\<close>). \<open>Js_Publish\<close>, \<open>Js_Subscribe\<close>, \<open>Ordered_Consumer\<close>,
  \<open>Js_Fetch\<close>: \<open>jsclient.ts\<close> and what it uses of \<open>typedsub.ts\<close>. \<open>Kv_Bucket\<close>, \<open>Kv_Watch\<close>: \<open>kv.ts\<close>;
  the codecs of keys are a locale. \<open>Object_Store\<close>: \<open>objectstore.ts\<close>, with the hash function as a
  parameter; \<open>Sha256\<close>: that function, \<open>js-sha256.js\<close>, which \<open>Sha256_Spec\<close> shows to be the one of the
  standard, and its keyed hash that of RFC 2104; \<open>Sha_Digest\<close>: \<open>sha_digest.parser.ts\<close>. \<open>Pull_Consumer\<close>, \<open>Pull_Window\<close>, \<open>Pull_Ordered\<close>:
  \<open>consumer.ts\<close>, the pull consumers: their operations, the window of requested messages that a run of
  events keeps within its maximum, and the ordered consumers that recreate theirs on a gap.

  What the lemmas show. For each component there is an invariant of its state and the lemmas
  that its operations keep it (\<open>db_inv\<close>, \<open>dq_ok\<close>, \<open>hdrs_ok\<close>, \<open>subs_ok\<close>, \<open>mux_ok\<close>, \<open>out_ok\<close>, \<open>in_step\<close>
  and others), an account of what every operation does, and the properties that follow. Where
  the code does not do what it says, a theorem shows the behaviour it has.

  Bounds. There is no fuel. Loops are structural recursions or have a measure. The loops that need not
  end are partial functions into an option, and not returning is \<open>None\<close>: reading from a source
  (\<open>db_read_from\<close>), the loops over the pages of a server (\<open>lister_all\<close>, \<open>info_pages\<close>) and the loop that
  cuts an object into chunks (\<open>put_full\<close>); the theorems about these show that they return. A get that
  follows links (\<open>os_get\<close>) does not return on a cycle of links. The loop of connection attempts (\<open>dial_loop\<close>) takes
  the list of what each turn meets, and the theorems about it bound the number of turns for every
  list that is long enough.

  Not modelled.
  Sockets, clocks and signatures themselves: the answers of the runtime and of the nkeys package are arguments.
  Of \<open>nats.ts\<close> the status iterators and the constructors of the other clients, of \<open>jsm.ts\<close>
  the batched direct gets, advisories and the account, of \<open>jsmstream_api.ts\<close> the objects
  \<open>StreamImpl\<close> and \<open>ConsumersImpl\<close>. \<open>types.ts\<close>, \<open>jsapi_types.ts\<close> and \<open>core.ts\<close> are declarations in the main; what
  the operations use of them is modelled with these. \<open>bench.ts\<close>, the module lists
  and the scripts under \<open>bin/\<close> are tools.
\<close>

end
